(* ===== verification/Chronos_Prelude.thy ===== *)
theory Chronos_Prelude
  imports
    Main
    "HOL-Library.Word"
    "HOL-Library.AList"
    "HOL-Library.List_Lexorder"
    "HOL-Library.Char_ord"
    "HOL-Library.Multiset"
begin

text \<open>
  Shared ground of the development: results that carry an error, loops with early return, Go maps
  and slices, signed 64-bit arithmetic with its wrap-around, and the parts of Go's standard library
  the core package relies on (\<^verbatim>\<open>strings.TrimSpace\<close>, \<^verbatim>\<open>strconv.FormatUint\<close>, big-endian framing,
  hexadecimal printing). Everything is executable; the lemmas are declared so that the component
  theories can rely on \<open>simp\<close> and \<open>auto\<close>.
\<close>

named_theorems result_simps \<open>reading a successful result back to the steps that produced it\<close>
named_theorems zero_simps \<open>fields of the zero value of a Go struct\<close>

section \<open>Results: a Go function returning (value, error)\<close>

text \<open>
  A Go call that returns \<^verbatim>\<open>(v, nil)\<close> is \<open>Inr v\<close>; one that returns a non-nil error is \<open>Inl e\<close>.
  \<open>bindE m f\<close> is the idiom \<^verbatim>\<open>v, err := m; if err != nil { return err }; f(v)\<close>.
\<close>

definition bindE :: "'e + 'a \<Rightarrow> ('a \<Rightarrow> 'e + 'b) \<Rightarrow> 'e + 'b" where
  "bindE m f = (case m of Inl e \<Rightarrow> Inl e | Inr x \<Rightarrow> f x)"

text \<open>A Go \<^verbatim>\<open>for range\<close> loop whose body may return an error.\<close>

fun foldE :: "('s \<Rightarrow> 'x \<Rightarrow> 'e + 's) \<Rightarrow> 's \<Rightarrow> 'x list \<Rightarrow> 'e + 's" where
  "foldE f s [] = Inr s"
| "foldE f s (x # xs) = bindE (f s x) (\<lambda>t. foldE f t xs)"

lemma bindE_Inr [simp]: "bindE (Inr x) f = f x"
  by (simp add: bindE_def)

lemma bindE_Inl [simp]: "bindE (Inl e) f = Inl e"
  by (simp add: bindE_def)

lemma bindE_eq_Inr [result_simps]: "bindE m f = Inr y \<longleftrightarrow> (\<exists>x. m = Inr x \<and> f x = Inr y)"
  by (cases m) auto

lemma bindE_cong [fundef_cong]:
  "m = n \<Longrightarrow> (\<And>x. n = Inr x \<Longrightarrow> f x = g x) \<Longrightarrow> bindE m f = bindE n g"
  by (cases n) auto

lemma if_Inl_eq_Inr [result_simps]: "(if b then Inl e else m) = Inr y \<longleftrightarrow> \<not> b \<and> m = Inr y"
  by simp

lemma foldE_append: "foldE f s (xs @ ys) = bindE (foldE f s xs) (\<lambda>t. foldE f t ys)"
proof (induction xs arbitrary: s)
  case Nil
  show ?case by simp
next
  case (Cons x xs)
  then show ?case by (cases "f s x") auto
qed

lemma bindE_right_Inr [simp]: "bindE m Inr = m"
  by (cases m) auto

lemma foldE_snoc [simp]: "foldE f s (xs @ [x]) = bindE (foldE f s xs) (\<lambda>t. f t x)"
  by (simp add: foldE_append)

lemma foldE_inv:
  assumes "foldE f s xs = Inr t" and "P s"
    and step: "\<And>u x v. x \<in> set xs \<Longrightarrow> P u \<Longrightarrow> f u x = Inr v \<Longrightarrow> P v"
  shows "P t"
  using assms
proof (induction xs arbitrary: s)
  case Nil
  then show ?case by simp
next
  case (Cons x xs)
  from Cons.prems(1) obtain u where u: "f s x = Inr u" "foldE f u xs = Inr t"
    by (auto simp: result_simps)
  show ?case
  proof (rule Cons.IH [OF u(2)])
    show "P u" using u(1) Cons.prems(2,3) by auto
    show "\<And>w y v. y \<in> set xs \<Longrightarrow> P w \<Longrightarrow> f w y = Inr v \<Longrightarrow> P v"
      using Cons.prems(3) by auto
  qed
qed

lemma foldE_cong [fundef_cong]:
  assumes "s = t" "xs = ys" and "\<And>u x. x \<in> set ys \<Longrightarrow> f u x = g u x"
  shows "foldE f s xs = foldE g t ys"
  using assms
proof (induction ys arbitrary: s t xs)
  case (Cons y ys)
  then show ?case by (auto simp: bindE_def split: sum.splits)
qed simp

text \<open>
  Postconditions of fallible code: \<open>ensures m Q\<close> says that a successful outcome of \<open>m\<close> satisfies \<open>Q\<close>.
  The equations of \<open>wp\<close> push a postcondition backwards through a sequence of calls, so that code is
  verified call by call. It is a statement about successful runs only; that code succeeds is proved
  separately.
\<close>

definition ensures :: "'e + 'a \<Rightarrow> ('a \<Rightarrow> bool) \<Rightarrow> bool" where
  "ensures m Q = (case m of Inl e \<Rightarrow> True | Inr x \<Rightarrow> Q x)"

named_theorems wp \<open>postconditions, pushed backwards\<close>

lemma ensures_Inl [simp, wp]: "ensures (Inl e) Q"
  by (simp add: ensures_def)

lemma ensures_Inr [simp, wp]: "ensures (Inr x) Q \<longleftrightarrow> Q x"
  by (simp add: ensures_def)

lemma ensures_bindE [wp]: "ensures (bindE m f) Q \<longleftrightarrow> ensures m (\<lambda>x. ensures (f x) Q)"
  by (cases m) simp_all

lemma ensures_if [wp]: "ensures (if b then m else n) Q \<longleftrightarrow> (b \<longrightarrow> ensures m Q) \<and> (\<not> b \<longrightarrow> ensures n Q)"
  by simp

lemma ensures_option [wp]:
  "ensures (case x of None \<Rightarrow> m | Some y \<Rightarrow> f y) Q \<longleftrightarrow>
     (x = None \<longrightarrow> ensures m Q) \<and> (\<forall>y. x = Some y \<longrightarrow> ensures (f y) Q)"
  by (cases x) simp_all

lemma ensures_iff: "ensures m Q \<longleftrightarrow> (\<forall>x. m = Inr x \<longrightarrow> Q x)"
  by (cases m) simp_all

lemma ensuresI: "(\<And>x. m = Inr x \<Longrightarrow> Q x) \<Longrightarrow> ensures m Q"
  by (simp add: ensures_iff)

lemma ensuresD: "ensures m Q \<Longrightarrow> m = Inr x \<Longrightarrow> Q x"
  by (simp add: ensures_iff)

lemma ensures_mono: "ensures m P \<Longrightarrow> (\<And>x. m = Inr x \<Longrightarrow> P x \<Longrightarrow> Q x) \<Longrightarrow> ensures m Q"
  by (simp add: ensures_iff)

lemma ensures_weaken: "ensures m P \<Longrightarrow> (\<And>x. P x \<Longrightarrow> Q x) \<Longrightarrow> ensures m Q"
  by (simp add: ensures_iff)

lemma ensures_foldE:
  assumes "P s" and "\<And>u x. x \<in> set xs \<Longrightarrow> P u \<Longrightarrow> ensures (f u x) P"
  shows "ensures (foldE f s xs) P"
  using assms
proof (induction xs arbitrary: s)
  case (Cons x xs)
  have "ensures (f s x) P" using Cons.prems by simp
  then show ?case unfolding foldE.simps ensures_bindE
    by (rule ensures_weaken) (rule Cons.IH, use Cons.prems(2) in auto)
qed simp

section \<open>Go maps\<close>

text \<open>
  A Go map is an association list with distinct keys. The order of the list stands for the order in
  which a \<^verbatim>\<open>range\<close> loop happens to visit the map, which Go leaves open: a statement proved for
  every list holds for every visiting order. A nil map reads as the empty list.
\<close>

type_synonym ('k, 'v) gomap = "('k \<times> 'v) list"
type_synonym kvs = "(string, string) gomap"

abbreviation keys :: "('k, 'v) gomap \<Rightarrow> 'k list" where
  "keys m \<equiv> map fst m"

abbreviation put :: "'k \<Rightarrow> 'v \<Rightarrow> ('k, 'v) gomap \<Rightarrow> ('k, 'v) gomap" where
  "put k v m \<equiv> AList.update k v m"

abbreviation del :: "'k \<Rightarrow> ('k, 'v) gomap \<Rightarrow> ('k, 'v) gomap" where
  "del k m \<equiv> AList.delete k m"

definition has :: "'k \<Rightarrow> ('k, 'v) gomap \<Rightarrow> bool" where
  "has k m = (map_of m k \<noteq> None)"

definition gomap :: "('k, 'v) gomap \<Rightarrow> bool" where
  "gomap m = distinct (keys m)"

lemma gomap_Nil [simp, intro!]: "gomap []"
  by (simp add: gomap_def)

lemma gomap_put [simp, intro]: "gomap m \<Longrightarrow> gomap (put k v m)"
  unfolding gomap_def by (rule distinct_update)

lemma gomap_del [simp, intro]: "gomap m \<Longrightarrow> gomap (del k m)"
  unfolding gomap_def by (rule distinct_delete)

lemma has_iff_keys: "has k m \<longleftrightarrow> k \<in> set (keys m)"
  by (auto simp: has_def map_of_eq_None_iff)

lemma map_of_put [simp]: "map_of (put k v m) = (map_of m)(k \<mapsto> v)"
  by (rule update_conv')

lemma map_of_del [simp]: "map_of (del k m) = (map_of m)(k := None)"
  by (rule delete_conv')

lemma has_put [simp]: "has i (put k v m) \<longleftrightarrow> i = k \<or> has i m"
  by (auto simp: has_def)

lemma keys_put [simp]: "fst ` set (put k v m) = insert k (fst ` set m)"
  by (simp add: dom_map_of_conv_image_fst [symmetric])

lemma gomap_map_of_iff: "gomap m \<Longrightarrow> map_of m k = Some v \<longleftrightarrow> (k, v) \<in> set m"
  by (simp add: gomap_def)

lemma gomap_ran: "gomap m \<Longrightarrow> ran (map_of m) = snd ` set m"
  by (force simp: ran_def gomap_map_of_iff)

lemma keys_put_present: "has k m \<Longrightarrow> keys (put k v m) = keys m"
  by (induction m) (auto simp: has_def split: if_splits)

lemma put_same: "map_of m k = Some v \<Longrightarrow> put k v m = m"
  by (induction m) (auto split: if_splits)

lemma length_put_new: "\<not> has k m \<Longrightarrow> length (put k v m) = Suc (length m)"
  by (induction m) (auto simp: has_def split: if_splits)

lemma length_put_present: "has k m \<Longrightarrow> length (put k v m) = length m"
  using keys_put_present [of k m v] by (metis length_map)

text \<open>Two maps are equal as Go maps when every key has the same value in both.\<close>

definition same_map :: "('k, 'v) gomap \<Rightarrow> ('k, 'v) gomap \<Rightarrow> bool" where
  "same_map m n \<longleftrightarrow> (\<forall>k \<in> set (keys m) \<union> set (keys n). map_of m k = map_of n k)"

lemma same_map_iff: "same_map m n \<longleftrightarrow> map_of m = map_of n"
proof
  assume h: "same_map m n"
  show "map_of m = map_of n"
  proof
    fix k
    show "map_of m k = map_of n k"
    proof (cases "k \<in> set (keys m) \<union> set (keys n)")
      case True
      with h show ?thesis unfolding same_map_def by blast
    next
      case False
      then have "map_of m k = None" "map_of n k = None"
        by (auto simp: map_of_eq_None_iff)
      then show ?thesis by simp
    qed
  qed
qed (simp add: same_map_def)

section \<open>Go slices\<close>

text \<open>A slice that may be nil: \<open>None\<close> is the nil slice, which has no elements.\<close>

type_synonym 'a slice = "'a list option"

definition elems :: "'a slice \<Rightarrow> 'a list" where
  "elems s = (case s of None \<Rightarrow> [] | Some xs \<Rightarrow> xs)"

lemma elems_simps [simp]: "elems None = []" "elems (Some xs) = xs"
  by (simp_all add: elems_def)

section \<open>Machine integers\<close>

text \<open>
  \<^verbatim>\<open>uint32\<close> and \<^verbatim>\<open>uint64\<close> are words. \<^verbatim>\<open>int64\<close> (and \<^verbatim>\<open>int\<close>, 64 bits wide on the supported
  platforms) is an \<open>int\<close> whose additions, subtractions and products wrap around explicitly.
\<close>

type_synonym uint32 = "32 word"
type_synonym uint64 = "64 word"
type_synonym int64 = int

definition MaxInt64 :: int64 where "MaxInt64 = 9223372036854775807"
definition MinInt64 :: int64 where "MinInt64 = - 9223372036854775808"
definition MaxUint32 :: uint32 where "MaxUint32 = 4294967295"
definition MaxUint64 :: uint64 where "MaxUint64 = 18446744073709551615"

definition wrap64 :: "int \<Rightarrow> int64" where
  "wrap64 x = (x + 9223372036854775808) mod 18446744073709551616 - 9223372036854775808"

definition add64 :: "int64 \<Rightarrow> int64 \<Rightarrow> int64" where "add64 a b = wrap64 (a + b)"
definition sub64 :: "int64 \<Rightarrow> int64 \<Rightarrow> int64" where "sub64 a b = wrap64 (a - b)"
definition mul64 :: "int64 \<Rightarrow> int64 \<Rightarrow> int64" where "mul64 a b = wrap64 (a * b)"

definition in_int64 :: "int \<Rightarrow> bool" where
  "in_int64 x \<longleftrightarrow> MinInt64 \<le> x \<and> x \<le> MaxInt64"

lemmas int64_bounds = in_int64_def MinInt64_def MaxInt64_def

lemma wrap64_id [simp]: "in_int64 x \<Longrightarrow> wrap64 x = x"
  by (simp add: wrap64_def int64_bounds)

lemma in_int64_wrap64 [simp]: "in_int64 (wrap64 x)"
proof -
  have "0 \<le> (x + 9223372036854775808) mod 18446744073709551616"
    and "(x + 9223372036854775808) mod 18446744073709551616 < 18446744073709551616"
    by simp_all
  then show ?thesis unfolding wrap64_def int64_bounds by linarith
qed

lemma add64_exact: "in_int64 (a + b) \<Longrightarrow> add64 a b = a + b"
  by (simp add: add64_def)

lemma sub64_exact: "in_int64 (a - b) \<Longrightarrow> sub64 a b = a - b"
  by (simp add: sub64_def)

lemma mul64_exact: "in_int64 (a * b) \<Longrightarrow> mul64 a b = a * b"
  by (simp add: mul64_def)

text \<open>The overflow guard \<^verbatim>\<open>at > math.MaxInt64-delay\<close> used before every addition of a delay.\<close>

lemma add64_guarded:
  assumes "0 \<le> a" "0 \<le> d" "in_int64 d" "\<not> sub64 MaxInt64 d < a"
  shows "add64 a d = a + d" and "0 \<le> add64 a d" and "in_int64 (add64 a d)"
proof -
  have "sub64 MaxInt64 d = MaxInt64 - d"
    using assms(2,3) by (intro sub64_exact) (simp add: int64_bounds)
  with assms have "in_int64 (a + d)" by (simp add: int64_bounds)
  then show "add64 a d = a + d" and "0 \<le> add64 a d" and "in_int64 (add64 a d)"
    using assms by (simp_all add: add64_exact)
qed

lemma word_suc_gt:
  fixes w :: "'a::len word"
  assumes "w \<noteq> - 1"
  shows "w < w + 1" and "unat (w + 1) = Suc (unat w)"
proof -
  have "w + 1 \<noteq> 0"
  proof
    assume "w + 1 = 0"
    then have "w = - 1" by (simp add: eq_neg_iff_add_eq_0)
    with assms show False ..
  qed
  then show "unat (w + 1) = Suc (unat w)" by (simp add: unatSuc add.commute)
  then show "w < w + 1" by (simp add: word_less_nat_alt)
qed

lemma MaxUint_minus_one: "MaxUint32 = - 1" "MaxUint64 = - 1"
  by (simp_all add: MaxUint32_def MaxUint64_def)

section \<open>Strings\<close>

text \<open>
  A Go string is a sequence of bytes. \<^verbatim>\<open>strings.TrimSpace\<close> removes leading and trailing code points
  that \<^verbatim>\<open>unicode.IsSpace\<close> accepts; \<open>space_seqs\<close> lists their UTF-8 encodings.
\<close>

definition space_seqs :: "string list" where
  "space_seqs =
     [[CHR 0x09], [CHR 0x0A], [CHR 0x0B], [CHR 0x0C], [CHR 0x0D], [CHR 0x20],
      [CHR 0xC2, CHR 0x85], [CHR 0xC2, CHR 0xA0], [CHR 0xE1, CHR 0x9A, CHR 0x80]]
     @ map (\<lambda>c. [CHR 0xE2, CHR 0x80, c])
         [CHR 0x80, CHR 0x81, CHR 0x82, CHR 0x83, CHR 0x84, CHR 0x85, CHR 0x86, CHR 0x87,
          CHR 0x88, CHR 0x89, CHR 0x8A, CHR 0xA8, CHR 0xA9, CHR 0xAF]
     @ [[CHR 0xE2, CHR 0x81, CHR 0x9F], [CHR 0xE3, CHR 0x80, CHR 0x80]]"

fun strip_prefix :: "string \<Rightarrow> string \<Rightarrow> string option" where
  "strip_prefix [] s = Some s"
| "strip_prefix (c # cs) (d # ds) = (if c = d then strip_prefix cs ds else None)"
| "strip_prefix (c # cs) [] = None"

fun strip_any :: "string list \<Rightarrow> string \<Rightarrow> string option" where
  "strip_any [] s = None"
| "strip_any (p # ps) s = (case strip_prefix p s of Some r \<Rightarrow> Some r | None \<Rightarrow> strip_any ps s)"

lemma strip_prefix_Some: "strip_prefix p s = Some r \<longleftrightarrow> s = p @ r"
  by (induction p s rule: strip_prefix.induct) auto

lemma strip_any_Some: "strip_any ps s = Some r \<Longrightarrow> \<exists>p \<in> set ps. s = p @ r"
  by (induction ps) (auto simp: strip_prefix_Some split: option.splits)

text \<open>Trimming needs no more rounds than there are bytes, so the length of the string is the fuel.\<close>

fun trim_left :: "nat \<Rightarrow> string list \<Rightarrow> string \<Rightarrow> string" where
  "trim_left 0 ps s = s"
| "trim_left (Suc n) ps s = (case strip_any ps s of Some r \<Rightarrow> trim_left n ps r | None \<Rightarrow> s)"

definition TrimSpace :: "string \<Rightarrow> string" where
  "TrimSpace s =
     (let l = trim_left (length s) space_seqs s
      in rev (trim_left (length l) (map rev space_seqs) (rev l)))"

definition blank :: "string \<Rightarrow> bool" where
  "blank s = (TrimSpace s = '''')"

lemma trim_left_suffix: "\<exists>p. s = p @ trim_left n ps s"
proof (induction n arbitrary: s)
  case (Suc n)
  show ?case
  proof (cases "strip_any ps s")
    case (Some r)
    then obtain p where "s = p @ r" using strip_any_Some by blast
    moreover obtain q where "r = q @ trim_left n ps r" using Suc.IH by blast
    ultimately have "s = (p @ q) @ trim_left n ps r" by simp
    with Some show ?thesis by auto
  qed simp
qed simp

text \<open>The fuel is enough: what is left does not start with a space sequence.\<close>

lemma trim_left_done:
  assumes "length s \<le> n" and ne: "\<forall>p \<in> set ps. p \<noteq> []"
  shows "strip_any ps (trim_left n ps s) = None"
  using assms(1)
proof (induction n arbitrary: s)
  case 0
  then have "s = []" by simp
  then show ?case using ne strip_any_Some [of ps "[]"]
    by (cases "strip_any ps []") auto
next
  case (Suc n)
  show ?case
  proof (cases "strip_any ps s")
    case (Some r)
    then obtain p where "p \<in> set ps" "s = p @ r" using strip_any_Some by blast
    with ne Suc.prems have "length r \<le> n" by (cases p) auto
    with Some Suc.IH show ?thesis by simp
  qed simp
qed

lemma TrimSpace_sub: "\<exists>p q. s = p @ TrimSpace s @ q"
proof -
  let ?l = "trim_left (length s) space_seqs s"
  obtain p where p: "s = p @ ?l" using trim_left_suffix by blast
  obtain q where q: "rev ?l = q @ trim_left (length ?l) (map rev space_seqs) (rev ?l)"
    using trim_left_suffix by blast
  from arg_cong [OF q, of rev] have "?l = TrimSpace s @ rev q"
    by (simp add: TrimSpace_def Let_def)
  with p show ?thesis by metis
qed

lemma not_blank_nonempty: "\<not> blank s \<Longrightarrow> s \<noteq> ''''"
  by (auto simp: blank_def TrimSpace_def)

text \<open>\<^verbatim>\<open>strconv.FormatUint(v, 10)\<close>.\<close>

definition digit_char :: "int \<Rightarrow> char" where
  "digit_char d = char_of (48 + d)"

function FormatUint :: "int \<Rightarrow> string" where
  "FormatUint n = (if n < 10 then [digit_char n] else FormatUint (n div 10) @ [digit_char (n mod 10)])"
  by pat_completeness auto
termination
  by (relation "measure nat") auto

declare FormatUint.simps [simp del]

text \<open>Big-endian framing of a length, and hexadecimal printing of bytes.\<close>

fun be_bytes :: "nat \<Rightarrow> int \<Rightarrow> string" where
  "be_bytes 0 v = []"
| "be_bytes (Suc k) v = be_bytes k (v div 256) @ [char_of (v mod 256)]"

definition hex_digit :: "int \<Rightarrow> char" where
  "hex_digit d = (if d < 10 then char_of (48 + d) else char_of (87 + d))"

definition hex_byte :: "char \<Rightarrow> string" where
  "hex_byte c = [hex_digit (of_char c div 16), hex_digit (of_char c mod 16)]"

definition EncodeToString :: "string \<Rightarrow> string" where
  "EncodeToString bs = concat (map hex_byte bs)"

lemma length_be_bytes [simp]: "length (be_bytes k v) = k"
  by (induction k arbitrary: v) auto

lemma be_bytes_inj:
  assumes "0 \<le> v" "v < 256 ^ k" "0 \<le> w" "w < 256 ^ k" "be_bytes k v = be_bytes k w"
  shows "v = w"
  using assms
proof (induction k arbitrary: v w)
  case (Suc k)
  from Suc.prems(5) have eq: "be_bytes k (v div 256) = be_bytes k (w div 256)"
    and c: "(char_of (v mod 256) :: char) = char_of (w mod 256)" by simp_all
  have lt: "x div 256 < 256 ^ k" if "x < 256 ^ Suc k" for x :: int
    using that by (simp add: div_less_iff_less_mult mult.commute)
  have "v div 256 = w div 256"
    by (rule Suc.IH [OF _ lt _ lt eq]) (use Suc.prems in simp_all)
  moreover have "v mod 256 = w mod 256"
  proof -
    have "(of_char (char_of (v mod 256) :: char) :: int) = of_char (char_of (w mod 256) :: char)"
      using c by simp
    then show ?thesis by (simp add: of_char_of)
  qed
  ultimately show ?case by (metis div_mult_mod_eq)
qed simp

lemma length_EncodeToString [simp]: "length (EncodeToString bs) = 2 * length bs"
  by (induction bs) (auto simp: EncodeToString_def hex_byte_def)

end
