(* ===== verification/Chronos_Types.thy ===== *)
theory Chronos_Types
  imports Chronos_Prelude
begin

text \<open>
  The data model of \<^verbatim>\<open>internal/core/types.go\<close> and the sentinels of \<^verbatim>\<open>internal/core/errors.go\<close>.
  Structs are records (each field carries a short prefix naming its struct, since Isabelle's field
  selectors are global), string enumerations are datatypes with the constants of the source and one
  constructor for any other string, pointers are options, and a struct literal that leaves fields
  out starts from the zero value of the struct.
\<close>

section \<open>Errors\<close>

text \<open>
  The sentinel a returned error wraps. The text that \<^verbatim>\<open>fmt.Errorf\<close> adds is not modelled: no caller
  inspects it, they all use \<^verbatim>\<open>errors.Is\<close>.
\<close>

datatype err =
    ErrInvalidDefinition
  | ErrInvalidCommand
  | ErrInvalidTransition
  | ErrRequestConflict
  | ErrWorkflowNotFound
  | ErrWorkflowExists
  | ErrSequence
  | ErrTimeRegression
  | ErrTimeOverflow
  | ErrBatchVersion
  | ErrSnapshotVersion
  | ErrAttemptOverflow
  | ErrFencingOverflow
  | ErrLeaseExpired
  | ErrFenced
  | ErrLoader string \<comment> \<open>an error of a loader the storage layer installed\<close>
  | NilDereference \<comment> \<open>the run-time panic of reading through a nil pointer\<close>

section \<open>Enumerations\<close>

datatype WorkflowStatus =
    WorkflowScheduled | WorkflowRunning | WorkflowCompleted | WorkflowFailed
  | WorkflowCancelled | WorkflowCompensating | WorkflowCompensated | WorkflowOther string

datatype TaskStatus =
    TaskPending | TaskReady | TaskRunning | TaskCompleted
  | TaskFailed | TaskCancelled | TaskCompensating | TaskCompensated | TaskOther string

datatype TimerStatus = TimerScheduled | TimerFired | TimerCancelled | TimerOther string

datatype CommandKind =
    CommandSubmit | CommandStart | CommandComplete | CommandFail
  | CommandRenew | CommandExpire | CommandFireTimer | CommandCancel | CommandOther string

datatype EventKind =
    EventWorkflowSubmitted | EventTaskReady | EventTaskStarted | EventTaskCompleted
  | EventTaskFailed | EventWorkflowCompleted | EventWorkflowFailed | EventLeaseRenewed
  | EventLeaseExpired | EventWorkflowStarted | EventFanoutExpanded | EventTimerScheduled
  | EventTimerFired | EventTimerCancelled | EventTaskRetryScheduled | EventTaskTimedOut
  | EventTaskCancelled | EventWorkflowCancellationRequested | EventWorkflowCompensating
  | EventTaskCompensated | EventWorkflowCancelled | EventWorkflowCompensated | EventOther string

datatype TimerPurpose = TimerWorkflowStart | TimerRetry | TimerTimeout | PurposeOther string

primrec event_kind_string :: "EventKind \<Rightarrow> string" where
  "event_kind_string EventWorkflowSubmitted = ''workflow_submitted''"
| "event_kind_string EventTaskReady = ''task_ready''"
| "event_kind_string EventTaskStarted = ''task_started''"
| "event_kind_string EventTaskCompleted = ''task_completed''"
| "event_kind_string EventTaskFailed = ''task_failed''"
| "event_kind_string EventWorkflowCompleted = ''workflow_completed''"
| "event_kind_string EventWorkflowFailed = ''workflow_failed''"
| "event_kind_string EventLeaseRenewed = ''task_lease_renewed''"
| "event_kind_string EventLeaseExpired = ''task_lease_expired''"
| "event_kind_string EventWorkflowStarted = ''workflow_started''"
| "event_kind_string EventFanoutExpanded = ''fanout_expanded''"
| "event_kind_string EventTimerScheduled = ''timer_scheduled''"
| "event_kind_string EventTimerFired = ''timer_fired''"
| "event_kind_string EventTimerCancelled = ''timer_cancelled''"
| "event_kind_string EventTaskRetryScheduled = ''task_retry_scheduled''"
| "event_kind_string EventTaskTimedOut = ''task_timed_out''"
| "event_kind_string EventTaskCancelled = ''task_cancelled''"
| "event_kind_string EventWorkflowCancellationRequested = ''workflow_cancellation_requested''"
| "event_kind_string EventWorkflowCompensating = ''workflow_compensating''"
| "event_kind_string EventTaskCompensated = ''task_compensated''"
| "event_kind_string EventWorkflowCancelled = ''workflow_cancelled''"
| "event_kind_string EventWorkflowCompensated = ''workflow_compensated''"
| "event_kind_string (EventOther s) = s"

primrec timer_purpose_string :: "TimerPurpose \<Rightarrow> string" where
  "timer_purpose_string TimerWorkflowStart = ''workflow_start''"
| "timer_purpose_string TimerRetry = ''retry''"
| "timer_purpose_string TimerTimeout = ''timeout''"
| "timer_purpose_string (PurposeOther s) = s"

section \<open>Definitions of workflows and tasks\<close>

definition MaxFanoutItems :: uint32 where "MaxFanoutItems = 10000"

record RetryPolicy =
  rp_MaxAttempts :: uint32
  rp_InitialBackoffMillis :: int64
  rp_BackoffMultiplier :: uint32
  rp_MaxBackoffMillis :: int64

record CompensationDefinition =
  cd_TaskType :: string

record FanoutDefinition =
  fd_TaskType :: string
  fd_AggregateTaskID :: string
  fd_MaxItems :: uint32
  fd_Retry :: RetryPolicy
  fd_TimeoutMillis :: int64
  fd_Compensation :: "CompensationDefinition option"

record FanoutItem =
  fi_Key :: string
  fi_Payload :: kvs

record TaskDefinition =
  td_ID :: string
  td_Type :: string
  td_Dependencies :: "string slice"
  td_Retry :: RetryPolicy
  td_TimeoutMillis :: int64
  td_Compensation :: "CompensationDefinition option"
  td_Fanout :: "FanoutDefinition option"

record ExpandedTask =
  xt_Key :: string
  xt_Definition :: TaskDefinition
  xt_Payload :: kvs

record WorkflowDefinition =
  wd_Name :: string
  wd_Namespace :: string
  wd_StartAt :: int64
  wd_Tasks :: "TaskDefinition list"

section \<open>Commands and events\<close>

record Command =
  cmd_Kind :: CommandKind
  cmd_RequestID :: string
  cmd_WorkflowID :: string
  cmd_TaskID :: string
  cmd_AttemptID :: string
  cmd_At :: int64
  cmd_Definition :: "WorkflowDefinition option"
  cmd_Output :: kvs
  cmd_Error :: string
  cmd_WorkerID :: string
  cmd_LeaseUntil :: int64
  cmd_Fence :: uint64
  cmd_TimerID :: string
  cmd_Fanout :: "FanoutItem slice"
  cmd_Reason :: string

record TimerState =
  tm_ID :: string
  tm_TaskID :: string
  tm_Purpose :: TimerPurpose
  tm_Deadline :: int64
  tm_AttemptID :: string
  tm_Attempt :: uint32
  tm_Fence :: uint64
  tm_Status :: TimerStatus

record Event =
  ev_ID :: string
  ev_Kind :: EventKind
  ev_Sequence :: uint64
  ev_RequestID :: string
  ev_RequestHash :: string
  ev_WorkflowID :: string
  ev_TaskID :: string
  ev_AttemptID :: string
  ev_Attempt :: uint32
  ev_At :: int64
  ev_Definition :: "WorkflowDefinition option"
  ev_Inputs :: "(string, kvs) gomap"
  ev_Output :: kvs
  ev_Error :: string
  ev_WorkerID :: string
  ev_LeaseUntil :: int64
  ev_Fence :: uint64
  ev_Idempotency :: string
  ev_Timer :: "TimerState option"
  ev_ExpandedTasks :: "ExpandedTask slice"
  ev_Reason :: string
  ev_Compensation :: bool

section \<open>Workflow state\<close>

record TaskState =
  ts_Definition :: TaskDefinition
  ts_Status :: TaskStatus
  ts_Attempt :: uint32
  ts_AttemptID :: string
  ts_Inputs :: "(string, kvs) gomap"
  ts_Output :: kvs
  ts_Error :: string
  ts_StartedAt :: int64
  ts_FinishedAt :: int64
  ts_WorkerID :: string
  ts_LeaseUntil :: int64
  ts_Fence :: uint64
  ts_Idempotency :: string
  ts_RetryCount :: uint32
  ts_CompletedSequence :: uint64
  ts_Children :: "string slice"
  ts_Payload :: kvs
  ts_FanoutExpanded :: bool
  ts_Compensation :: bool

record WorkflowState =
  wf_ID :: string
  wf_Name :: string
  wf_Namespace :: string
  wf_Status :: WorkflowStatus
  wf_Version :: uint64
  wf_UpdatedAt :: int64
  wf_Tasks :: "(string, TaskState) gomap"
  wf_Timers :: "(string, TimerState) gomap"

section \<open>Projections, results, batches, snapshots\<close>

record AttemptProjection =
  ap_TaskID :: string
  ap_AttemptID :: string
  ap_Attempt :: uint32
  ap_WorkerID :: string
  ap_LeaseUntil :: int64
  ap_Fence :: uint64
  ap_Idempotency :: string

record Summary =
  sm_Total :: nat
  sm_Pending :: nat
  sm_Ready :: nat
  sm_Running :: nat
  sm_Completed :: nat
  sm_Failed :: nat
  sm_Cancelled :: nat
  sm_Compensating :: nat
  sm_Compensated :: nat

record Projection =
  pj_WorkflowID :: string
  pj_Status :: WorkflowStatus
  pj_ReadyTasks :: "string list"
  pj_RemainingDependencies :: "(string, nat) gomap"
  pj_ActiveAttempts :: "AttemptProjection list"
  pj_Timers :: "TimerState list"
  pj_Summary :: Summary

record Result =
  rs_WorkflowID :: string
  rs_Events :: "Event list"
  rs_Duplicate :: bool

definition CommandBatchVersion :: uint32 where "CommandBatchVersion = 1"

record CommandBatch =
  cb_Version :: uint32
  cb_RequestID :: string
  cb_RequestHash :: string
  cb_WorkflowID :: string
  cb_Events :: "Event list"

record RequestReceipt =
  rr_RequestID :: string
  rr_RequestHash :: string
  rr_Result :: Result

definition EngineSnapshotVersion :: uint32 where "EngineSnapshotVersion = 3"

record EngineSnapshot =
  es_Version :: uint32
  es_Workflows :: "WorkflowState list"
  es_Requests :: "RequestReceipt list"

record Metrics =
  mt_CommandsReceived :: uint64
  mt_CommandsAccepted :: uint64
  mt_Duplicates :: uint64
  mt_Transitions :: uint64
  mt_TransitionsByKind :: "(EventKind, uint64) gomap"

section \<open>Zero values\<close>

definition zero_RetryPolicy :: RetryPolicy where
  "zero_RetryPolicy =
     \<lparr>rp_MaxAttempts = 0, rp_InitialBackoffMillis = 0, rp_BackoffMultiplier = 0, rp_MaxBackoffMillis = 0\<rparr>"

definition zero_TaskDefinition :: TaskDefinition where
  "zero_TaskDefinition =
     \<lparr>td_ID = '''', td_Type = '''', td_Dependencies = None, td_Retry = zero_RetryPolicy,
      td_TimeoutMillis = 0, td_Compensation = None, td_Fanout = None\<rparr>"

definition zero_TimerState :: TimerState where
  "zero_TimerState =
     \<lparr>tm_ID = '''', tm_TaskID = '''', tm_Purpose = PurposeOther '''', tm_Deadline = 0,
      tm_AttemptID = '''', tm_Attempt = 0, tm_Fence = 0, tm_Status = TimerOther ''''\<rparr>"

definition zero_Event :: Event where
  "zero_Event =
     \<lparr>ev_ID = '''', ev_Kind = EventOther '''', ev_Sequence = 0, ev_RequestID = '''',
      ev_RequestHash = '''', ev_WorkflowID = '''', ev_TaskID = '''', ev_AttemptID = '''',
      ev_Attempt = 0, ev_At = 0, ev_Definition = None, ev_Inputs = [], ev_Output = [],
      ev_Error = '''', ev_WorkerID = '''', ev_LeaseUntil = 0, ev_Fence = 0, ev_Idempotency = '''',
      ev_Timer = None, ev_ExpandedTasks = None, ev_Reason = '''', ev_Compensation = False\<rparr>"

definition zero_TaskState :: TaskState where
  "zero_TaskState =
     \<lparr>ts_Definition = zero_TaskDefinition, ts_Status = TaskOther '''', ts_Attempt = 0,
      ts_AttemptID = '''', ts_Inputs = [], ts_Output = [], ts_Error = '''', ts_StartedAt = 0,
      ts_FinishedAt = 0, ts_WorkerID = '''', ts_LeaseUntil = 0, ts_Fence = 0, ts_Idempotency = '''',
      ts_RetryCount = 0, ts_CompletedSequence = 0, ts_Children = None, ts_Payload = [],
      ts_FanoutExpanded = False, ts_Compensation = False\<rparr>"

definition zero_Command :: Command where
  "zero_Command =
     \<lparr>cmd_Kind = CommandOther '''', cmd_RequestID = '''', cmd_WorkflowID = '''', cmd_TaskID = '''',
      cmd_AttemptID = '''', cmd_At = 0, cmd_Definition = None, cmd_Output = [], cmd_Error = '''',
      cmd_WorkerID = '''', cmd_LeaseUntil = 0, cmd_Fence = 0, cmd_TimerID = '''',
      cmd_Fanout = None, cmd_Reason = ''''\<rparr>"

definition zero_Summary :: Summary where
  "zero_Summary =
     \<lparr>sm_Total = 0, sm_Pending = 0, sm_Ready = 0, sm_Running = 0, sm_Completed = 0, sm_Failed = 0,
      sm_Cancelled = 0, sm_Compensating = 0, sm_Compensated = 0\<rparr>"

lemma zero_TaskDefinition_simps [simp, zero_simps]:
  "td_Dependencies zero_TaskDefinition = None" "td_Retry zero_TaskDefinition = zero_RetryPolicy"
  "td_TimeoutMillis zero_TaskDefinition = 0" "td_Compensation zero_TaskDefinition = None"
  "td_Fanout zero_TaskDefinition = None" "td_ID zero_TaskDefinition = ''''"
  by (simp_all add: zero_TaskDefinition_def)

lemma zero_Event_simps [simp, zero_simps]:
  "ev_ID zero_Event = ''''" "ev_Kind zero_Event = EventOther ''''" "ev_Sequence zero_Event = 0"
  "ev_RequestID zero_Event = ''''" "ev_RequestHash zero_Event = ''''"
  "ev_WorkflowID zero_Event = ''''" "ev_TaskID zero_Event = ''''" "ev_AttemptID zero_Event = ''''"
  "ev_Attempt zero_Event = 0" "ev_At zero_Event = 0" "ev_Definition zero_Event = None"
  "ev_Inputs zero_Event = []" "ev_Output zero_Event = []" "ev_Error zero_Event = ''''"
  "ev_WorkerID zero_Event = ''''" "ev_LeaseUntil zero_Event = 0" "ev_Fence zero_Event = 0"
  "ev_Idempotency zero_Event = ''''" "ev_Timer zero_Event = None"
  "ev_ExpandedTasks zero_Event = None" "ev_Reason zero_Event = ''''"
  "ev_Compensation zero_Event = False"
  by (simp_all add: zero_Event_def)

lemma zero_TaskState_simps [simp, zero_simps]:
  "ts_Definition zero_TaskState = zero_TaskDefinition" "ts_Status zero_TaskState = TaskOther ''''"
  "ts_Attempt zero_TaskState = 0" "ts_AttemptID zero_TaskState = ''''"
  "ts_Inputs zero_TaskState = []" "ts_Output zero_TaskState = []" "ts_Error zero_TaskState = ''''"
  "ts_StartedAt zero_TaskState = 0" "ts_FinishedAt zero_TaskState = 0"
  "ts_WorkerID zero_TaskState = ''''" "ts_LeaseUntil zero_TaskState = 0"
  "ts_Fence zero_TaskState = 0" "ts_Idempotency zero_TaskState = ''''"
  "ts_RetryCount zero_TaskState = 0" "ts_CompletedSequence zero_TaskState = 0"
  "ts_Children zero_TaskState = None" "ts_Payload zero_TaskState = []"
  "ts_FanoutExpanded zero_TaskState = False" "ts_Compensation zero_TaskState = False"
  by (simp_all add: zero_TaskState_def)

section \<open>Reading and writing the maps of a workflow\<close>

text \<open>
  \<open>task_at s id\<close> is the two-value read \<^verbatim>\<open>task, exists := state.Tasks[id]\<close>; \<open>task_or_zero s id\<close>
  is the one-value read, which yields the zero value for a missing key.
\<close>

definition task_at :: "WorkflowState \<Rightarrow> string \<Rightarrow> TaskState option" where
  "task_at s i = map_of (wf_Tasks s) i"

definition task_or_zero :: "WorkflowState \<Rightarrow> string \<Rightarrow> TaskState" where
  "task_or_zero s i = (case task_at s i of None \<Rightarrow> zero_TaskState | Some t \<Rightarrow> t)"

definition timer_at :: "WorkflowState \<Rightarrow> string \<Rightarrow> TimerState option" where
  "timer_at s i = map_of (wf_Timers s) i"

definition put_task :: "string \<Rightarrow> TaskState \<Rightarrow> WorkflowState \<Rightarrow> WorkflowState" where
  "put_task i t s = s\<lparr>wf_Tasks := put i t (wf_Tasks s)\<rparr>"

definition put_timer :: "string \<Rightarrow> TimerState \<Rightarrow> WorkflowState \<Rightarrow> WorkflowState" where
  "put_timer i t s = s\<lparr>wf_Timers := put i t (wf_Timers s)\<rparr>"

lemma task_at_put_task [simp]: "task_at (put_task i t s) j = (if j = i then Some t else task_at s j)"
  by (simp add: task_at_def put_task_def)

lemma timer_at_put_timer [simp]: "timer_at (put_timer i t s) j = (if j = i then Some t else timer_at s j)"
  by (simp add: timer_at_def put_timer_def)

lemma put_task_fields [simp]:
  "wf_ID (put_task i t s) = wf_ID s" "wf_Name (put_task i t s) = wf_Name s"
  "wf_Namespace (put_task i t s) = wf_Namespace s" "wf_Status (put_task i t s) = wf_Status s"
  "wf_Version (put_task i t s) = wf_Version s" "wf_UpdatedAt (put_task i t s) = wf_UpdatedAt s"
  "wf_Timers (put_task i t s) = wf_Timers s" "wf_Tasks (put_task i t s) = put i t (wf_Tasks s)"
  "timer_at (put_task i t s) = timer_at s"
  by (simp_all add: put_task_def timer_at_def fun_eq_iff)

lemma put_timer_fields [simp]:
  "wf_ID (put_timer i t s) = wf_ID s" "wf_Name (put_timer i t s) = wf_Name s"
  "wf_Namespace (put_timer i t s) = wf_Namespace s" "wf_Status (put_timer i t s) = wf_Status s"
  "wf_Version (put_timer i t s) = wf_Version s" "wf_UpdatedAt (put_timer i t s) = wf_UpdatedAt s"
  "wf_Tasks (put_timer i t s) = wf_Tasks s" "wf_Timers (put_timer i t s) = put i t (wf_Timers s)"
  "task_at (put_timer i t s) = task_at s"
  by (simp_all add: put_timer_def task_at_def fun_eq_iff)

lemma task_at_update [simp]:
  "task_at (s\<lparr>wf_Status := a\<rparr>) = task_at s" "task_at (s\<lparr>wf_Version := v\<rparr>) = task_at s"
  "task_at (s\<lparr>wf_UpdatedAt := u\<rparr>) = task_at s" "task_at (s\<lparr>wf_Timers := ts\<rparr>) = task_at s"
  "timer_at (s\<lparr>wf_Status := a\<rparr>) = timer_at s" "timer_at (s\<lparr>wf_Version := v\<rparr>) = timer_at s"
  "timer_at (s\<lparr>wf_UpdatedAt := u\<rparr>) = timer_at s" "timer_at (s\<lparr>wf_Tasks := tk\<rparr>) = timer_at s"
  by (simp_all add: task_at_def timer_at_def fun_eq_iff)

lemma task_or_zero_Some [simp]: "task_at s i = Some t \<Longrightarrow> task_or_zero s i = t"
  by (simp add: task_or_zero_def)

lemma task_or_zero_None [simp]: "task_at s i = None \<Longrightarrow> task_or_zero s i = zero_TaskState"
  by (simp add: task_or_zero_def)

lemma task_or_zero_cong: "task_at s i = task_at t i \<Longrightarrow> task_or_zero s i = task_or_zero t i"
  by (simp add: task_or_zero_def)

lemma task_or_zero_put_task [simp]:
  "task_or_zero (put_task i t s) j = (if j = i then t else task_or_zero s j)"
  by (simp add: task_or_zero_def)

end
