(* ===== verification/Chronos_Ids.thy ===== *)
theory Chronos_Ids
  imports Chronos_Types
begin

text \<open>
  Deterministic identifiers (\<^verbatim>\<open>internal/core/ids.go\<close>). Every identifier is the hexadecimal form of
  the first twelve bytes of a SHA-256 digest of length-prefixed parts. The digest is an argument of
  every definition (\<open>H\<close>), so each statement of the development holds whatever the digest is; where
  a property needs its output to be non-empty, that is a named hypothesis.
\<close>

type_synonym digest = "string \<Rightarrow> string"

section \<open>Operations\<close>

definition frame_part :: "string \<Rightarrow> string" where
  "frame_part part = be_bytes 8 (int (length part)) @ part"

definition frame_parts :: "string list \<Rightarrow> string" where
  "frame_parts parts = concat (map frame_part parts)"

definition deterministicID :: "digest \<Rightarrow> string \<Rightarrow> string list \<Rightarrow> string" where
  "deterministicID H prefix parts =
     prefix @ ''_'' @ EncodeToString (take 12 (H (frame_parts parts)))"

definition format_uint32 :: "uint32 \<Rightarrow> string" where
  "format_uint32 w = FormatUint (uint w)"

definition format_uint64 :: "uint64 \<Rightarrow> string" where
  "format_uint64 w = FormatUint (uint w)"

definition WorkflowID :: "digest \<Rightarrow> string \<Rightarrow> string \<Rightarrow> string" where
  "WorkflowID H namespace requestID = deterministicID H ''wf'' [namespace, requestID]"

definition AttemptID :: "digest \<Rightarrow> string \<Rightarrow> string \<Rightarrow> uint32 \<Rightarrow> string" where
  "AttemptID H workflowID taskID attempt =
     deterministicID H ''attempt'' [workflowID, taskID, format_uint32 attempt]"

definition IdempotencyKey :: "digest \<Rightarrow> string \<Rightarrow> string \<Rightarrow> string" where
  "IdempotencyKey H workflowID taskID = deterministicID H ''idempotency'' [workflowID, taskID]"

definition LeaseRequestID :: "digest \<Rightarrow> string \<Rightarrow> string \<Rightarrow> uint32 \<Rightarrow> string" where
  "LeaseRequestID H workflowID taskID attempt =
     deterministicID H ''lease-request'' [workflowID, taskID, format_uint32 attempt]"

definition ExpiryRequestID :: "digest \<Rightarrow> string \<Rightarrow> uint64 \<Rightarrow> string" where
  "ExpiryRequestID H attemptID fence =
     deterministicID H ''expiry-request'' [attemptID, format_uint64 fence]"

definition CompletionRequestID :: "digest \<Rightarrow> string \<Rightarrow> uint64 \<Rightarrow> string" where
  "CompletionRequestID H attemptID fence =
     deterministicID H ''completion-request'' [attemptID, format_uint64 fence]"

definition FanoutTaskID :: "digest \<Rightarrow> string \<Rightarrow> string \<Rightarrow> string \<Rightarrow> string" where
  "FanoutTaskID H workflowID parentTaskID key =
     deterministicID H ''fanout-task'' [workflowID, parentTaskID, key]"

definition TimerID :: "digest \<Rightarrow> string \<Rightarrow> string \<Rightarrow> string \<Rightarrow> uint32 \<Rightarrow> string" where
  "TimerID H workflowID taskID purpose ordinal =
     deterministicID H ''timer'' [workflowID, taskID, purpose, format_uint32 ordinal]"

definition TimerRequestID :: "digest \<Rightarrow> string \<Rightarrow> string" where
  "TimerRequestID H timerID = deterministicID H ''timer-request'' [timerID]"

definition CancelRequestID :: "digest \<Rightarrow> string \<Rightarrow> string" where
  "CancelRequestID H workflowID = deterministicID H ''cancel-request'' [workflowID]"

definition CompensationIdempotencyKey :: "digest \<Rightarrow> string \<Rightarrow> string \<Rightarrow> string" where
  "CompensationIdempotencyKey H workflowID taskID =
     deterministicID H ''compensation-idempotency'' [workflowID, taskID]"

definition EventID :: "digest \<Rightarrow> string \<Rightarrow> uint64 \<Rightarrow> EventKind \<Rightarrow> string" where
  "EventID H workflowID sequence kind =
     deterministicID H ''event'' [workflowID, format_uint64 sequence, event_kind_string kind]"

lemmas id_defs =
  WorkflowID_def AttemptID_def IdempotencyKey_def LeaseRequestID_def ExpiryRequestID_def
  CompletionRequestID_def FanoutTaskID_def TimerID_def TimerRequestID_def CancelRequestID_def
  CompensationIdempotencyKey_def EventID_def

section \<open>Framing is unambiguous\<close>

lemma deterministicID_nonempty [simp]: "deterministicID H prefix parts \<noteq> ''''"
  by (simp add: deterministicID_def)

lemma ids_nonempty [simp]:
  "WorkflowID H a b \<noteq> ''''" "AttemptID H a b n \<noteq> ''''" "IdempotencyKey H a b \<noteq> ''''"
  "FanoutTaskID H a b c \<noteq> ''''" "TimerID H a b c n \<noteq> ''''" "EventID H a q k \<noteq> ''''"
  "CompensationIdempotencyKey H a b \<noteq> ''''"
  by (simp_all add: id_defs)

text \<open>The prefix of an identifier tells its kind: no task attempt has the identifier of a timer.\<close>

definition short :: "string \<Rightarrow> bool" where
  "short part \<longleftrightarrow> int (length part) < 256 ^ 8"

lemma frame_part_split:
  assumes "short a" "short b" "frame_part a @ x = frame_part b @ y"
  shows "a = b \<and> x = y"
proof -
  from assms(3) have "be_bytes 8 (int (length a)) = be_bytes 8 (int (length b))"
    and rest: "a @ x = b @ y"
    by (simp_all add: frame_part_def)
  then have "int (length a) = int (length b)"
    using assms(1,2) by (intro be_bytes_inj [of _ 8]) (simp_all add: short_def)
  with rest show ?thesis by simp
qed

lemma frame_parts_inj:
  assumes "\<forall>x \<in> set xs. short x" "\<forall>y \<in> set ys. short y" "length xs = length ys"
    and "frame_parts xs = frame_parts ys"
  shows "xs = ys"
  using assms(3,1,2,4)
proof (induction xs ys rule: list_induct2)
  case (Cons x xs y ys)
  have "frame_part x @ frame_parts xs = frame_part y @ frame_parts ys"
    using Cons.prems(3) by (simp add: frame_parts_def)
  from frame_part_split [OF _ _ this] Cons show ?case by simp
qed simp

lemma EncodeToString_inj: "EncodeToString xs = EncodeToString ys \<longleftrightarrow> xs = ys"
proof
  have byte: "c = d" if "hex_byte c = hex_byte d" for c d
  proof -
    have hex: "m = n" if "hex_digit m = hex_digit n" "0 \<le> m" "m < 16" "0 \<le> n" "n < 16" for m n :: int
    proof -
      have "(of_char (hex_digit m) :: int) = of_char (hex_digit n)" using that(1) by simp
      then show ?thesis using that(2-)
        by (auto simp: hex_digit_def of_char_of split: if_splits)
    qed
    have small: "(of_char e :: int) div 16 < 16" "0 \<le> (of_char e :: int) div 16" for e
    proof -
      have "(of_char e :: int) mod 256 = of_char e" by simp
      then have "(of_char e :: int) < 256" "0 \<le> (of_char e :: int)"
        by (metis pos_mod_bound zero_less_numeral, metis pos_mod_sign zero_less_numeral)
      then show "(of_char e :: int) div 16 < 16" "0 \<le> (of_char e :: int) div 16"
        by (simp_all add: div_less_iff_less_mult pos_imp_zdiv_nonneg_iff)
    qed
    have "(of_char c :: int) div 16 = of_char d div 16"
      and "(of_char c :: int) mod 16 = of_char d mod 16"
      using that small [of c] small [of d] by (auto simp: hex_byte_def intro!: hex)
    then have "(of_char c :: int) = of_char d" by (metis div_mult_mod_eq)
    then show "c = d" by simp
  qed
  show "xs = ys" if "EncodeToString xs = EncodeToString ys"
    using that
  proof (induction xs arbitrary: ys)
    case (Cons x xs)
    then show ?case
      by (cases ys) (auto simp: EncodeToString_def hex_byte_def intro!: byte)
  qed (cases ys; simp add: EncodeToString_def hex_byte_def)+
qed simp

text \<open>
  Two identifiers of one kind can only agree when their parts agree or the truncated digest
  collides on two different preimages.
\<close>

lemma deterministicID_collision:
  assumes "deterministicID H p xs = deterministicID H p ys"
    and "\<forall>x \<in> set xs. short x" "\<forall>y \<in> set ys. short y" "length xs = length ys"
  shows "xs = ys \<or>
    (frame_parts xs \<noteq> frame_parts ys \<and> take 12 (H (frame_parts xs)) = take 12 (H (frame_parts ys)))"
proof (cases "frame_parts xs = frame_parts ys")
  case True
  with frame_parts_inj [OF assms(2-4)] show ?thesis by simp
next
  case False
  moreover have "take 12 (H (frame_parts xs)) = take 12 (H (frame_parts ys))"
    using assms(1) by (simp add: deterministicID_def EncodeToString_inj)
  ultimately show ?thesis by simp
qed

text \<open>Decimal printing is injective, so attempt numbers and sequences stay apart in an identifier.\<close>

lemma FormatUint_nonempty [simp]: "FormatUint n \<noteq> []"
  by (subst FormatUint.simps) simp

lemma Nil_FormatUint [simp]: "[] \<noteq> FormatUint n"
  by (metis FormatUint_nonempty)

lemma digit_char_inj:
  "0 \<le> m \<Longrightarrow> m < 10 \<Longrightarrow> 0 \<le> n \<Longrightarrow> n < 10 \<Longrightarrow> digit_char m = digit_char n \<Longrightarrow> m = n"
proof -
  assume b: "0 \<le> m" "m < 10" "0 \<le> n" "n < 10" and "digit_char m = digit_char n"
  then have "(of_char (digit_char m) :: int) = of_char (digit_char n)" by simp
  with b show "m = n" by (simp add: digit_char_def of_char_of)
qed

lemma FormatUint_inj: "0 \<le> m \<Longrightarrow> 0 \<le> n \<Longrightarrow> FormatUint m = FormatUint n \<Longrightarrow> m = n"
proof (induction m arbitrary: n rule: FormatUint.induct)
  case (1 m)
  note [simp] = FormatUint.simps [of m] FormatUint.simps [of n]
  show ?case
  proof (cases "m < 10 \<or> n < 10")
    case True
    with 1(2-) have "m < 10" "n < 10" by (auto split: if_splits)
    with 1(2-) show ?thesis by (auto intro: digit_char_inj)
  next
    case False
    with 1(4) have eq: "FormatUint (m div 10) = FormatUint (n div 10)"
      and d: "digit_char (m mod 10) = digit_char (n mod 10)" by auto
    have "m div 10 = n div 10"
      using False 1(2,3) by (intro 1(1) [OF _ _ _ eq]) (auto simp: pos_imp_zdiv_nonneg_iff)
    moreover have "m mod 10 = n mod 10" by (rule digit_char_inj [OF _ _ _ _ d]) simp_all
    ultimately show ?thesis by (metis div_mult_mod_eq)
  qed
qed

lemma format_uint_inj [simp]:
  "format_uint32 v = format_uint32 w \<longleftrightarrow> v = w" "format_uint64 x = format_uint64 y \<longleftrightarrow> x = y"
  by (auto simp: format_uint32_def format_uint64_def dest!: FormatUint_inj [rotated 2]
      intro: word_uint_eqI)

end
