(* ===== verification/Chronos_Clone.thy ===== *)
theory Chronos_Clone
  imports Chronos_Ids
begin

text \<open>
  Copies and canonical forms (\<^verbatim>\<open>internal/core/clone.go\<close>) and the hashes built on them
  (\<^verbatim>\<open>internal/core/hash.go\<close>). In a model of values a deep copy can only be seen through what it
  normalises: copying an empty slice with \<^verbatim>\<open>append([]string(nil), values...)\<close> yields the nil slice.
  The JSON encoder is an argument \<open>J\<close>, so the statements hold for every encoder.
\<close>

section \<open>Copies\<close>

definition cloneStrings :: "string slice \<Rightarrow> string slice" where
  "cloneStrings values =
     (case values of None \<Rightarrow> None | Some xs \<Rightarrow> (if xs = [] then None else Some xs))"

definition cloneMap :: "kvs \<Rightarrow> kvs" where
  "cloneMap values = (if length values = 0 then [] else map (\<lambda>(key, value). (key, value)) values)"

definition cloneNestedMap :: "(string, kvs) gomap \<Rightarrow> (string, kvs) gomap" where
  "cloneNestedMap values =
     (if length values = 0 then [] else map (\<lambda>(key, value). (key, cloneMap value)) values)"

definition cloneCompensation :: "CompensationDefinition option \<Rightarrow> CompensationDefinition option" where
  "cloneCompensation value =
     (case value of None \<Rightarrow> None | Some c \<Rightarrow> Some \<lparr>cd_TaskType = cd_TaskType c\<rparr>)"

definition cloneTaskDefinition :: "TaskDefinition \<Rightarrow> TaskDefinition" where
  "cloneTaskDefinition task =
     task\<lparr>td_Dependencies := cloneStrings (td_Dependencies task),
          td_Compensation := cloneCompensation (td_Compensation task),
          td_Fanout := map_option (\<lambda>f. f\<lparr>fd_Compensation := cloneCompensation (fd_Compensation f)\<rparr>)
            (td_Fanout task)\<rparr>"

definition cloneDefinition :: "WorkflowDefinition option \<Rightarrow> WorkflowDefinition option" where
  "cloneDefinition definition =
     (case definition of
        None \<Rightarrow> None
      | Some d \<Rightarrow> Some \<lparr>wd_Name = wd_Name d, wd_Namespace = wd_Namespace d, wd_StartAt = wd_StartAt d,
                       wd_Tasks = map cloneTaskDefinition (wd_Tasks d)\<rparr>)"

definition canonical_task :: "TaskDefinition \<Rightarrow> TaskDefinition" where
  "canonical_task task = task\<lparr>td_Dependencies := Some (sort (elems (td_Dependencies task)))\<rparr>"

definition canonicalDefinition :: "WorkflowDefinition option \<Rightarrow> WorkflowDefinition option" where
  "canonicalDefinition definition =
     (case cloneDefinition definition of
        None \<Rightarrow> None
      | Some copy \<Rightarrow> Some (copy\<lparr>wd_Tasks := sort_key td_ID (map canonical_task (wd_Tasks copy))\<rparr>))"

definition cloneFanoutItems :: "FanoutItem slice \<Rightarrow> FanoutItem slice" where
  "cloneFanoutItems items =
     map_option (map (\<lambda>item. \<lparr>fi_Key = fi_Key item, fi_Payload = cloneMap (fi_Payload item)\<rparr>)) items"

definition canonicalFanoutItems :: "FanoutItem slice \<Rightarrow> FanoutItem slice" where
  "canonicalFanoutItems items = map_option (sort_key fi_Key) (cloneFanoutItems items)"

definition cloneExpandedTasks :: "ExpandedTask slice \<Rightarrow> ExpandedTask slice" where
  "cloneExpandedTasks tasks =
     map_option (map (\<lambda>task. \<lparr>xt_Key = xt_Key task, xt_Definition = cloneTaskDefinition (xt_Definition task),
                             xt_Payload = cloneMap (xt_Payload task)\<rparr>)) tasks"

definition cloneEvent :: "Event \<Rightarrow> Event" where
  "cloneEvent event =
     event\<lparr>ev_Definition := cloneDefinition (ev_Definition event),
           ev_Inputs := cloneNestedMap (ev_Inputs event),
           ev_Output := cloneMap (ev_Output event),
           ev_Timer := map_option (\<lambda>timer. timer) (ev_Timer event),
           ev_ExpandedTasks := cloneExpandedTasks (ev_ExpandedTasks event)\<rparr>"

definition cloneEvents :: "Event list \<Rightarrow> Event list" where
  "cloneEvents events = map cloneEvent events"

definition clone_task :: "TaskState \<Rightarrow> TaskState" where
  "clone_task task =
     task\<lparr>ts_Definition := cloneTaskDefinition (ts_Definition task),
          ts_Inputs := cloneNestedMap (ts_Inputs task),
          ts_Output := cloneMap (ts_Output task),
          ts_Children := cloneStrings (ts_Children task),
          ts_Payload := cloneMap (ts_Payload task)\<rparr>"

definition cloneState :: "WorkflowState option \<Rightarrow> WorkflowState option" where
  "cloneState state =
     (case state of
        None \<Rightarrow> None
      | Some s \<Rightarrow> Some (s\<lparr>wf_Tasks := map (\<lambda>(id, task). (id, clone_task task)) (wf_Tasks s),
                        wf_Timers := map (\<lambda>(id, timer). (id, timer)) (wf_Timers s)\<rparr>))"

definition cloneStateForUpdate :: "WorkflowState option \<Rightarrow> WorkflowState option" where
  "cloneStateForUpdate state =
     (case state of
        None \<Rightarrow> None
      | Some s \<Rightarrow> Some (s\<lparr>wf_Tasks := map (\<lambda>(id, task). (id, task)) (wf_Tasks s),
                        wf_Timers := map (\<lambda>(id, timer). (id, timer)) (wf_Timers s)\<rparr>))"

definition cloneResult :: "Result \<Rightarrow> Result" where
  "cloneResult result = result\<lparr>rs_Events := cloneEvents (rs_Events result)\<rparr>"

section \<open>Hashes\<close>

record canonicalCommand =
  cc_Kind :: CommandKind
  cc_WorkflowID :: string
  cc_TaskID :: string
  cc_AttemptID :: string
  cc_Definition :: "WorkflowDefinition option"
  cc_Output :: kvs
  cc_Error :: string
  cc_WorkerID :: string
  cc_LeaseUntil :: int64
  cc_Fence :: uint64
  cc_TimerID :: string
  cc_Fanout :: "FanoutItem slice"
  cc_Reason :: string

record canonicalState =
  cs_ID :: string
  cs_Name :: string
  cs_Namespace :: string
  cs_Status :: WorkflowStatus
  cs_Version :: uint64
  cs_UpdatedAt :: int64
  cs_Tasks :: "(string \<times> TaskState) list"
  cs_Timers :: "TimerState list"

definition zero_canonicalCommand :: canonicalCommand where
  "zero_canonicalCommand =
     \<lparr>cc_Kind = CommandOther '''', cc_WorkflowID = '''', cc_TaskID = '''', cc_AttemptID = '''',
      cc_Definition = None, cc_Output = [], cc_Error = '''', cc_WorkerID = '''', cc_LeaseUntil = 0,
      cc_Fence = 0, cc_TimerID = '''', cc_Fanout = None, cc_Reason = ''''\<rparr>"

definition command_payload :: "digest \<Rightarrow> Command \<Rightarrow> canonicalCommand" where
  "command_payload H command =
     (let payload = zero_canonicalCommand\<lparr>cc_Kind := cmd_Kind command\<rparr> in
      case cmd_Kind command of
        CommandSubmit \<Rightarrow>
          (let definition = canonicalDefinition (cmd_Definition command) in
           payload\<lparr>cc_WorkflowID :=
               (case definition of
                  Some d \<Rightarrow> if cmd_WorkflowID command = ''''
                            then WorkflowID H (wd_Namespace d) (cmd_RequestID command)
                            else cmd_WorkflowID command
                | None \<Rightarrow> cmd_WorkflowID command),
             cc_Definition := definition\<rparr>)
      | CommandStart \<Rightarrow>
          payload\<lparr>cc_WorkflowID := cmd_WorkflowID command, cc_TaskID := cmd_TaskID command,
            cc_AttemptID := cmd_AttemptID command, cc_WorkerID := cmd_WorkerID command\<rparr>
      | CommandComplete \<Rightarrow>
          payload\<lparr>cc_WorkflowID := cmd_WorkflowID command, cc_TaskID := cmd_TaskID command,
            cc_AttemptID := cmd_AttemptID command, cc_WorkerID := cmd_WorkerID command,
            cc_Fence := cmd_Fence command, cc_Output := cloneMap (cmd_Output command),
            cc_Fanout := canonicalFanoutItems (cmd_Fanout command)\<rparr>
      | CommandFail \<Rightarrow>
          payload\<lparr>cc_WorkflowID := cmd_WorkflowID command, cc_TaskID := cmd_TaskID command,
            cc_AttemptID := cmd_AttemptID command, cc_WorkerID := cmd_WorkerID command,
            cc_Fence := cmd_Fence command, cc_Error := cmd_Error command\<rparr>
      | CommandRenew \<Rightarrow>
          payload\<lparr>cc_WorkflowID := cmd_WorkflowID command, cc_TaskID := cmd_TaskID command,
            cc_AttemptID := cmd_AttemptID command, cc_WorkerID := cmd_WorkerID command,
            cc_LeaseUntil := cmd_LeaseUntil command, cc_Fence := cmd_Fence command\<rparr>
      | CommandExpire \<Rightarrow>
          payload\<lparr>cc_WorkflowID := cmd_WorkflowID command, cc_TaskID := cmd_TaskID command,
            cc_AttemptID := cmd_AttemptID command, cc_WorkerID := cmd_WorkerID command,
            cc_Fence := cmd_Fence command\<rparr>
      | CommandFireTimer \<Rightarrow>
          payload\<lparr>cc_WorkflowID := cmd_WorkflowID command, cc_TimerID := cmd_TimerID command\<rparr>
      | CommandCancel \<Rightarrow>
          payload\<lparr>cc_WorkflowID := cmd_WorkflowID command, cc_Reason := cmd_Reason command\<rparr>
      | CommandOther _ \<Rightarrow>
          payload\<lparr>cc_WorkflowID := cmd_WorkflowID command, cc_TaskID := cmd_TaskID command,
            cc_AttemptID := cmd_AttemptID command,
            cc_Definition := canonicalDefinition (cmd_Definition command),
            cc_Output := cloneMap (cmd_Output command), cc_Error := cmd_Error command,
            cc_WorkerID := cmd_WorkerID command, cc_LeaseUntil := cmd_LeaseUntil command,
            cc_Fence := cmd_Fence command, cc_TimerID := cmd_TimerID command,
            cc_Fanout := canonicalFanoutItems (cmd_Fanout command),
            cc_Reason := cmd_Reason command\<rparr>)"

definition hashBytes :: "digest \<Rightarrow> string \<Rightarrow> string" where
  "hashBytes H data = EncodeToString (H data)"

definition HashCommand :: "digest \<Rightarrow> (canonicalCommand \<Rightarrow> string) \<Rightarrow> Command \<Rightarrow> string" where
  "HashCommand H J command = hashBytes H (J (command_payload H command))"

definition state_view :: "WorkflowState \<Rightarrow> canonicalState" where
  "state_view state =
     \<lparr>cs_ID = wf_ID state, cs_Name = wf_Name state, cs_Namespace = wf_Namespace state,
      cs_Status = wf_Status state, cs_Version = wf_Version state, cs_UpdatedAt = wf_UpdatedAt state,
      cs_Tasks = map (\<lambda>id. (id, clone_task (task_or_zero state id))) (sort (keys (wf_Tasks state))),
      cs_Timers = map (\<lambda>id. case timer_at state id of None \<Rightarrow> zero_TimerState | Some t \<Rightarrow> t)
        (sort (keys (wf_Timers state)))\<rparr>"

definition CanonicalState :: "(canonicalState option \<Rightarrow> string) \<Rightarrow> WorkflowState option \<Rightarrow> string" where
  "CanonicalState J state = J (map_option state_view state)"

definition StateHash :: "digest \<Rightarrow> (canonicalState option \<Rightarrow> string) \<Rightarrow> WorkflowState option \<Rightarrow> string" where
  "StateHash H J state = hashBytes H (CanonicalState J state)"

section \<open>What copying keeps\<close>

lemma cloneMap_id [simp]: "cloneMap m = m"
  by (simp add: cloneMap_def)

lemma cloneNestedMap_id [simp]: "cloneNestedMap m = m"
  by (simp add: cloneNestedMap_def)

lemma cloneCompensation_id [simp]: "cloneCompensation c = c"
  by (cases c) (simp_all add: cloneCompensation_def)

lemma elems_cloneStrings [simp]: "elems (cloneStrings xs) = elems xs"
  by (auto simp: cloneStrings_def split: option.splits)

lemma cloneStrings_idem [simp]: "cloneStrings (cloneStrings xs) = cloneStrings xs"
  by (auto simp: cloneStrings_def split: option.splits)

lemma cloneTaskDefinition_eq:
  "cloneTaskDefinition t = t\<lparr>td_Dependencies := cloneStrings (td_Dependencies t)\<rparr>"
  by (simp add: cloneTaskDefinition_def option.map_ident)

lemma cloneTaskDefinition_fields [simp]:
  "td_ID (cloneTaskDefinition t) = td_ID t" "td_Type (cloneTaskDefinition t) = td_Type t"
  "td_Retry (cloneTaskDefinition t) = td_Retry t"
  "td_TimeoutMillis (cloneTaskDefinition t) = td_TimeoutMillis t"
  "td_Compensation (cloneTaskDefinition t) = td_Compensation t"
  "td_Fanout (cloneTaskDefinition t) = td_Fanout t"
  "td_Dependencies (cloneTaskDefinition t) = cloneStrings (td_Dependencies t)"
  by (simp_all add: cloneTaskDefinition_eq)

lemma cloneTaskDefinition_idem [simp]:
  "cloneTaskDefinition (cloneTaskDefinition t) = cloneTaskDefinition t"
  by (simp add: cloneTaskDefinition_eq)

lemma cloneDefinition_idem [simp]: "cloneDefinition (cloneDefinition d) = cloneDefinition d"
  by (cases d) (simp_all add: cloneDefinition_def)

lemma cloneFanoutItems_id [simp]: "cloneFanoutItems xs = xs"
proof -
  have "(\<lambda>i. \<lparr>fi_Key = fi_Key i, fi_Payload = fi_Payload i\<rparr>) = (\<lambda>i. i)"
    by (rule ext) simp
  then show ?thesis by (simp add: cloneFanoutItems_def option.map_ident)
qed

lemma cloneExpandedTasks_idem [simp]:
  "cloneExpandedTasks (cloneExpandedTasks xs) = cloneExpandedTasks xs"
  by (cases xs) (simp_all add: cloneExpandedTasks_def)

lemma cloneEvent_eq:
  "cloneEvent e = e\<lparr>ev_Definition := cloneDefinition (ev_Definition e),
                   ev_ExpandedTasks := cloneExpandedTasks (ev_ExpandedTasks e)\<rparr>"
  by (simp add: cloneEvent_def option.map_ident)

lemma cloneEvent_idem [simp]: "cloneEvent (cloneEvent e) = cloneEvent e"
  by (simp add: cloneEvent_eq)

lemma cloneEvents_idem [simp]: "cloneEvents (cloneEvents es) = cloneEvents es"
  by (simp add: cloneEvents_def)

lemma cloneEvent_fields [simp]:
  "ev_ID (cloneEvent e) = ev_ID e" "ev_Kind (cloneEvent e) = ev_Kind e"
  "ev_Sequence (cloneEvent e) = ev_Sequence e" "ev_RequestID (cloneEvent e) = ev_RequestID e"
  "ev_RequestHash (cloneEvent e) = ev_RequestHash e" "ev_WorkflowID (cloneEvent e) = ev_WorkflowID e"
  "ev_TaskID (cloneEvent e) = ev_TaskID e" "ev_AttemptID (cloneEvent e) = ev_AttemptID e"
  "ev_Attempt (cloneEvent e) = ev_Attempt e" "ev_At (cloneEvent e) = ev_At e"
  "ev_Inputs (cloneEvent e) = ev_Inputs e" "ev_Output (cloneEvent e) = ev_Output e"
  "ev_Error (cloneEvent e) = ev_Error e" "ev_WorkerID (cloneEvent e) = ev_WorkerID e"
  "ev_LeaseUntil (cloneEvent e) = ev_LeaseUntil e" "ev_Fence (cloneEvent e) = ev_Fence e"
  "ev_Idempotency (cloneEvent e) = ev_Idempotency e" "ev_Timer (cloneEvent e) = ev_Timer e"
  "ev_Reason (cloneEvent e) = ev_Reason e" "ev_Compensation (cloneEvent e) = ev_Compensation e"
  "ev_Definition (cloneEvent e) = cloneDefinition (ev_Definition e)"
  "ev_ExpandedTasks (cloneEvent e) = cloneExpandedTasks (ev_ExpandedTasks e)"
  by (simp_all add: cloneEvent_eq)

lemma cloneStateForUpdate_id [simp]: "cloneStateForUpdate s = s"
  by (cases s) (simp_all add: cloneStateForUpdate_def)

lemma cloneResult_fields [simp]:
  "rs_WorkflowID (cloneResult r) = rs_WorkflowID r" "rs_Duplicate (cloneResult r) = rs_Duplicate r"
  "rs_Events (cloneResult r) = cloneEvents (rs_Events r)"
  by (simp_all add: cloneResult_def)

text \<open>
  A state is \<^emph>\<open>tidy\<close> when no dependency or child list in it is an empty, non-nil slice; copying a
  tidy state gives it back.
\<close>

definition tidy_slice :: "'a slice \<Rightarrow> bool" where
  "tidy_slice xs \<longleftrightarrow> xs \<noteq> Some []"

definition tidy_task :: "TaskState \<Rightarrow> bool" where
  "tidy_task t \<longleftrightarrow> tidy_slice (td_Dependencies (ts_Definition t)) \<and> tidy_slice (ts_Children t)"

definition tidy_state :: "WorkflowState \<Rightarrow> bool" where
  "tidy_state s \<longleftrightarrow> (\<forall>t \<in> snd ` set (wf_Tasks s). tidy_task t)"

lemma tidy_cloneStrings [simp]: "tidy_slice (cloneStrings xs)"
  by (auto simp: tidy_slice_def cloneStrings_def split: option.splits)

lemma cloneStrings_tidy [simp]: "tidy_slice xs \<Longrightarrow> cloneStrings xs = xs"
  by (auto simp: tidy_slice_def cloneStrings_def split: option.splits)

lemma clone_task_tidy: "tidy_task t \<Longrightarrow> clone_task t = t"
  by (simp add: clone_task_def tidy_task_def cloneTaskDefinition_eq)

lemma cloneState_tidy: "tidy_state s \<Longrightarrow> cloneState (Some s) = Some s"
proof -
  assume "tidy_state s"
  then have "map (\<lambda>(i, t). (i, clone_task t)) (wf_Tasks s) = wf_Tasks s"
    by (intro map_idI) (auto simp: tidy_state_def clone_task_tidy)
  then show ?thesis by (simp add: cloneState_def)
qed

section \<open>Canonical definitions\<close>

lemma canonical_task_fields [simp]:
  "td_ID (canonical_task t) = td_ID t" "td_Type (canonical_task t) = td_Type t"
  "td_Retry (canonical_task t) = td_Retry t"
  "td_TimeoutMillis (canonical_task t) = td_TimeoutMillis t"
  "td_Compensation (canonical_task t) = td_Compensation t"
  "td_Fanout (canonical_task t) = td_Fanout t"
  "td_Dependencies (canonical_task t) = Some (sort (elems (td_Dependencies t)))"
  by (simp_all add: canonical_task_def)

lemma canonical_task_clone [simp]: "canonical_task (cloneTaskDefinition t) = canonical_task t"
  by (simp add: canonical_task_def cloneTaskDefinition_eq)

lemma canonical_task_idem [simp]: "canonical_task (canonical_task t) = canonical_task t"
  by (simp add: canonical_task_def sorted_sort_id)

lemma canonicalDefinition_Some:
  "canonicalDefinition (Some d) =
     Some (d\<lparr>wd_Tasks := sort_key td_ID (map canonical_task (wd_Tasks d))\<rparr>)"
  by (simp add: canonicalDefinition_def cloneDefinition_def o_def)

lemma canonicalDefinition_None [simp]: "canonicalDefinition None = None"
  by (simp add: canonicalDefinition_def cloneDefinition_def)

lemma canonicalDefinition_clone [simp]:
  "canonicalDefinition (cloneDefinition d) = canonicalDefinition d"
  by (simp add: canonicalDefinition_def)

lemma sort_key_map_fixed:
  assumes "\<And>x. k (f x) = k x" "\<And>x. x \<in> set xs \<Longrightarrow> f x = x" "sorted (map k xs)"
  shows "sort_key k (map f xs) = xs"
  using assms by (simp add: map_idI sort_key_id_if_sorted)

lemma canonicalDefinition_idem:
  "canonicalDefinition (canonicalDefinition d) = canonicalDefinition d"
proof (cases d)
  case (Some x)
  let ?ts = "sort_key td_ID (map canonical_task (wd_Tasks x))"
  have "sort_key td_ID (map canonical_task ?ts) = ?ts"
    by (rule sort_key_map_fixed) (auto simp: sorted_sort_key)
  with Some show ?thesis by (simp add: canonicalDefinition_Some)
qed simp

text \<open>
  The order in which a submitter lists tasks and dependencies does not matter: permuted definitions
  with distinct task identifiers have one canonical form.
\<close>

lemma sort_key_perm:
  assumes "mset xs = mset ys" "distinct (map k xs)"
  shows "sort_key k xs = sort_key k ys"
proof (rule properties_for_sort_key)
  show "mset (sort_key k ys) = mset xs" using assms(1) by simp
  show "sorted (map k (sort_key k ys))" by (rule sorted_sort_key)
  have one: "filter (\<lambda>x. k z = k x) zs = [z]" if "z \<in> set zs" "distinct (map k zs)" for z zs
    using that
  proof (induction zs)
    case (Cons y zs)
    show ?case
    proof (cases "z = y")
      case True
      with Cons.prems(2) show ?thesis by (force simp: filter_empty_conv)
    next
      case False
      with Cons.prems have "k z \<noteq> k y" "z \<in> set zs" by (auto simp: image_iff)
      with Cons show ?thesis by simp
    qed
  qed simp
  show "filter (\<lambda>x. k z = k x) (sort_key k ys) = filter (\<lambda>x. k z = k x) xs" if "z \<in> set (sort_key k ys)" for z
  proof -
    have "z \<in> set xs" using that assms(1) by (metis set_mset_mset set_sort)
    moreover have "distinct (map k (sort_key k ys))"
    proof -
      have "mset (map k (sort_key k ys)) = mset (map k xs)" using assms(1) by simp
      with assms(2) show ?thesis by (metis mset_eq_imp_distinct_iff)
    qed
    ultimately show ?thesis using that assms(2) by (simp add: one)
  qed
qed

lemma canonicalDefinition_perm:
  assumes "mset (map canonical_task (wd_Tasks d)) = mset (map canonical_task (wd_Tasks d'))"
    and "distinct (map td_ID (wd_Tasks d))"
    and "wd_Name d = wd_Name d'" "wd_Namespace d = wd_Namespace d'" "wd_StartAt d = wd_StartAt d'"
  shows "canonicalDefinition (Some d) = canonicalDefinition (Some d')"
proof -
  have "distinct (map td_ID (map canonical_task (wd_Tasks d)))"
    using assms(2) by (simp add: o_def)
  from sort_key_perm [OF assms(1) this] assms(3-5) show ?thesis
    by (simp add: canonicalDefinition_Some)
qed

section \<open>What a hash depends on\<close>

lemma HashCommand_ignores_time [simp]:
  "HashCommand H J (command\<lparr>cmd_At := t\<rparr>) = HashCommand H J command"
  by (cases "cmd_Kind command") (simp_all add: HashCommand_def command_payload_def Let_def
      split: option.split)

lemma HashCommand_start_ignores_lease:
  "cmd_Kind command = CommandStart \<Longrightarrow>
   HashCommand H J (command\<lparr>cmd_LeaseUntil := t\<rparr>) = HashCommand H J command"
  by (simp add: HashCommand_def command_payload_def)

lemma HashCommand_nonempty:
  assumes "\<And>x. H x \<noteq> []"
  shows "HashCommand H J command \<noteq> ''''"
proof -
  have "length (HashCommand H J command) \<noteq> 0"
    using assms by (simp add: HashCommand_def hashBytes_def)
  then show ?thesis by auto
qed

text \<open>The canonical form of a state does not depend on the order in which its maps are visited.\<close>

lemma sort_keys_cong:
  fixes m :: "(string, 'v) gomap"
  assumes "gomap m" "gomap n" "map_of m = map_of n"
  shows "sort (keys m) = sort (keys n)"
proof -
  have "set (keys m) = set (keys n)"
    using assms(3) by (simp add: dom_map_of_conv_image_fst [symmetric])
  then have "mset (keys m) = mset (keys n)"
    using assms(1,2) unfolding gomap_def by (metis set_eq_iff_mset_eq_distinct)
  then show ?thesis by (metis properties_for_sort mset_sort sorted_sort)
qed

lemma state_view_cong:
  assumes "gomap (wf_Tasks s)" "gomap (wf_Tasks t)" "gomap (wf_Timers s)" "gomap (wf_Timers t)"
    and "map_of (wf_Tasks s) = map_of (wf_Tasks t)" "map_of (wf_Timers s) = map_of (wf_Timers t)"
    and "wf_ID s = wf_ID t" "wf_Name s = wf_Name t" "wf_Namespace s = wf_Namespace t"
    and "wf_Status s = wf_Status t" "wf_Version s = wf_Version t" "wf_UpdatedAt s = wf_UpdatedAt t"
  shows "state_view s = state_view t"
  using assms(5-) sort_keys_cong [OF assms(1,2,5)] sort_keys_cong [OF assms(3,4,6)]
  by (simp add: state_view_def task_or_zero_def task_at_def timer_at_def)

end
