(* ===== verification/Chronos_Validate.thy ===== *)
theory Chronos_Validate
  imports Chronos_Clone
begin

text \<open>
  Validation of submitted definitions (\<^verbatim>\<open>internal/core/validate.go\<close>). The checks are translated in
  the order of the source. \<open>hasCycle\<close> is Kahn's algorithm with its queue of ready tasks, its map of
  in-degrees and its map of dependents; it is proved to terminate and to decide whether the
  dependency relation has a cycle.
\<close>

section \<open>Operations\<close>

abbreviation deps :: "TaskDefinition \<Rightarrow> string list" where
  "deps task \<equiv> elems (td_Dependencies task)"

definition containsString :: "string list \<Rightarrow> string \<Rightarrow> bool" where
  "containsString values target = list_ex (\<lambda>value. value = target) values"

definition validateRetry :: "RetryPolicy \<Rightarrow> int64 \<Rightarrow> err + unit" where
  "validateRetry retry timeout =
     (if rp_MaxAttempts retry < 1 then Inl ErrInvalidDefinition
      else if rp_InitialBackoffMillis retry < 0 \<or> rp_MaxBackoffMillis retry < 0 \<or> timeout < 0
        then Inl ErrInvalidDefinition
      else if rp_BackoffMultiplier retry < 1 then Inl ErrInvalidDefinition
      else if 0 < rp_MaxBackoffMillis retry \<and> rp_MaxBackoffMillis retry < rp_InitialBackoffMillis retry
        then Inl ErrInvalidDefinition
      else Inr ())"

definition validate_compensation :: "CompensationDefinition option \<Rightarrow> err + unit" where
  "validate_compensation c =
     (case c of
        None \<Rightarrow> Inr ()
      | Some d \<Rightarrow> if blank (cd_TaskType d) then Inl ErrInvalidDefinition else Inr ())"

definition validate_fanout :: "FanoutDefinition option \<Rightarrow> err + unit" where
  "validate_fanout f =
     (case f of
        None \<Rightarrow> Inr ()
      | Some fanout \<Rightarrow>
          if blank (fd_TaskType fanout) \<or> blank (fd_AggregateTaskID fanout) then Inl ErrInvalidDefinition
          else if fd_MaxItems fanout = 0 \<or> MaxFanoutItems < fd_MaxItems fanout then Inl ErrInvalidDefinition
          else bindE (validateRetry (fd_Retry fanout) (fd_TimeoutMillis fanout)) (\<lambda>_.
            validate_compensation (fd_Compensation fanout)))"

text \<open>The first loop: each task on its own, collecting the map of tasks.\<close>

definition validate_task :: "(string, TaskDefinition) gomap \<Rightarrow> TaskDefinition \<Rightarrow> err + (string, TaskDefinition) gomap" where
  "validate_task tasks task =
     (if blank (td_ID task) then Inl ErrInvalidDefinition
      else if blank (td_Type task) then Inl ErrInvalidDefinition
      else if has (td_ID task) tasks then Inl ErrInvalidDefinition
      else bindE (validateRetry (td_Retry task) (td_TimeoutMillis task)) (\<lambda>_.
        bindE (validate_compensation (td_Compensation task)) (\<lambda>_.
        bindE (validate_fanout (td_Fanout task)) (\<lambda>_.
          Inr (put (td_ID task) task tasks)))))"

text \<open>The second loop: dependencies and fan-out aggregates against the map of tasks.\<close>

definition validate_dependency ::
    "(string, TaskDefinition) gomap \<Rightarrow> TaskDefinition \<Rightarrow> string list \<Rightarrow> string \<Rightarrow> err + string list" where
  "validate_dependency tasks task seen dependency =
     (if dependency = td_ID task then Inl ErrInvalidDefinition
      else if \<not> has dependency tasks then Inl ErrInvalidDefinition
      else if dependency \<in> set seen then Inl ErrInvalidDefinition
      else Inr (dependency # seen))"

definition validate_aggregate :: "(string, TaskDefinition) gomap \<Rightarrow> TaskDefinition \<Rightarrow> err + unit" where
  "validate_aggregate tasks task =
     (case td_Fanout task of
        None \<Rightarrow> Inr ()
      | Some fanout \<Rightarrow>
          (case map_of tasks (fd_AggregateTaskID fanout) of
             None \<Rightarrow> Inl ErrInvalidDefinition
           | Some aggregate \<Rightarrow>
               if td_ID aggregate = td_ID task \<or> \<not> containsString (deps aggregate) (td_ID task)
               then Inl ErrInvalidDefinition else Inr ()))"

definition validate_links :: "(string, TaskDefinition) gomap \<Rightarrow> TaskDefinition \<Rightarrow> err + unit" where
  "validate_links tasks task =
     bindE (foldE (validate_dependency tasks task) [] (deps task)) (\<lambda>_.
       validate_aggregate tasks task)"

definition or_zero :: "'v \<Rightarrow> ('k, 'v) gomap \<Rightarrow> 'k \<Rightarrow> 'v" where
  "or_zero z m k = (case map_of m k of None \<Rightarrow> z | Some v \<Rightarrow> v)"

definition indegrees :: "(string, TaskDefinition) gomap \<Rightarrow> (string, int) gomap" where
  "indegrees tasks = fold (\<lambda>(id, task). put id (int (length (deps task)))) tasks []"

definition add_dependents :: "string \<times> TaskDefinition \<Rightarrow> (string, string list) gomap \<Rightarrow> (string, string list) gomap" where
  "add_dependents p m =
     fold (\<lambda>dependency m. put dependency (or_zero [] m dependency @ [fst p]) m) (deps (snd p)) m"

definition dependents_of :: "(string, TaskDefinition) gomap \<Rightarrow> (string, string list) gomap" where
  "dependents_of tasks = fold add_dependents tasks []"

text \<open>The inner loop over the dependents of a task taken from the queue.\<close>

fun relax :: "string list \<Rightarrow> (string, int) gomap \<times> string list \<Rightarrow> (string, int) gomap \<times> string list" where
  "relax [] (indegree, ready) = (indegree, ready)"
| "relax (dependent # rest) (indegree, ready) =
     (let degree = or_zero 0 indegree dependent - 1;
          indegree' = put dependent degree indegree
      in relax rest (indegree', if degree = 0 then sort (ready @ [dependent]) else ready))"

definition positive :: "(string, int) gomap \<Rightarrow> nat" where
  "positive m = length (filter (\<lambda>p. 0 < snd p) m)"

lemma positive_put:
  "positive (put k v m) + (if 0 < or_zero 0 m k then 1 else 0) = positive m + (if 0 < v then 1 else 0)"
  by (induction m) (auto simp: positive_def or_zero_def)

lemma relax_measure:
  "relax ds (indegree, ready) = (indegree', ready') \<Longrightarrow>
   length ready' + positive indegree' = length ready + positive indegree"
proof (induction ds "(indegree, ready)" arbitrary: indegree ready rule: relax.induct)
  case (2 dependent rest indegree ready)
  let ?d = "or_zero 0 indegree dependent"
  have "positive (put dependent (?d - 1) indegree) + (if 0 < ?d then 1 else 0) =
      positive indegree + (if 1 < ?d then 1 else 0)"
    using positive_put [of dependent "?d - 1" indegree] by (simp add: algebra_simps)
  moreover have "length ready' + positive indegree' =
      length (if ?d - 1 = 0 then sort (ready @ [dependent]) else ready) +
      positive (put dependent (?d - 1) indegree)"
    by (rule "2.hyps" [OF refl refl]) (use "2.prems" in \<open>simp add: Let_def\<close>)
  ultimately show ?case by (auto split: if_splits)
qed simp

function kahn :: "(string, string list) gomap \<Rightarrow> string list \<Rightarrow> (string, int) gomap \<Rightarrow> nat \<Rightarrow> nat" where
  "kahn dependents [] indegree visited = visited"
| "kahn dependents (i # ready) indegree visited =
     (let r = relax (or_zero [] dependents i) (indegree, ready)
      in kahn dependents (snd r) (fst r) (Suc visited))"
  by pat_completeness auto
termination
proof (relation "measure (\<lambda>(dependents, ready, indegree, visited). length ready + positive indegree)")
  fix dependents :: "(string, string list) gomap" and i ready indegree visited r
  assume "r = relax (or_zero [] dependents i) (indegree, ready)"
  then have "length (snd r) + positive (fst r) = length ready + positive indegree"
    by (intro relax_measure) simp
  then show "((dependents, snd r, fst r, Suc visited), dependents, i # ready, indegree, visited)
      \<in> measure (\<lambda>(dependents, ready, indegree, visited). length ready + positive indegree)"
    by simp
qed simp

definition hasCycle :: "(string, TaskDefinition) gomap \<Rightarrow> bool" where
  "hasCycle tasks =
     (let indegree = indegrees tasks;
          ready = sort (map fst (filter (\<lambda>(id, degree). degree = 0) indegree))
      in kahn (dependents_of tasks) ready indegree 0 \<noteq> length tasks)"

definition ValidateDefinition :: "WorkflowDefinition option \<Rightarrow> err + unit" where
  "ValidateDefinition definition =
     (case definition of
        None \<Rightarrow> Inl ErrInvalidDefinition
      | Some d \<Rightarrow>
          if blank (wd_Name d) then Inl ErrInvalidDefinition
          else if blank (wd_Namespace d) then Inl ErrInvalidDefinition
          else if wd_StartAt d < 0 then Inl ErrInvalidDefinition
          else if length (wd_Tasks d) = 0 then Inl ErrInvalidDefinition
          else bindE (foldE validate_task [] (wd_Tasks d)) (\<lambda>tasks.
            bindE (foldE (\<lambda>_. validate_links tasks) () (wd_Tasks d)) (\<lambda>_.
              if hasCycle tasks then Inl ErrInvalidDefinition else Inr ())))"

section \<open>Kahn's algorithm decides acyclicity\<close>

text \<open>\<open>dep_rel tasks\<close> relates each dependency to the task that needs it.\<close>

definition dep_rel :: "(string, TaskDefinition) gomap \<Rightarrow> (string \<times> string) set" where
  "dep_rel tasks = {(d, i). \<exists>t. (i, t) \<in> set tasks \<and> d \<in> set (deps t)}"

text \<open>A map of tasks whose dependencies are tasks of the map, none listed twice.\<close>

definition linked :: "(string, TaskDefinition) gomap \<Rightarrow> bool" where
  "linked tasks \<longleftrightarrow> gomap tasks \<and>
     (\<forall>(i, t) \<in> set tasks. distinct (deps t) \<and> set (deps t) \<subseteq> set (keys tasks))"

definition deps_at :: "(string, TaskDefinition) gomap \<Rightarrow> string \<Rightarrow> string set" where
  "deps_at tasks i = {d. (d, i) \<in> dep_rel tasks}"

lemma or_zero_put [simp]: "or_zero z (put k v m) j = (if j = k then v else or_zero z m j)"
  by (simp add: or_zero_def)

lemma or_zero_fold_put:
  assumes "distinct (keys xs)"
  shows "map_of (fold (\<lambda>(i, t). put i (f t)) xs m) i =
     (case map_of xs i of None \<Rightarrow> map_of m i | Some t \<Rightarrow> Some (f t))"
  using assms
proof (induction xs arbitrary: m)
  case (Cons p xs)
  obtain a b where p: "p = (a, b)" by (cases p)
  with Cons.prems have "map_of xs a = None" by (simp add: map_of_eq_None_iff)
  with Cons p show ?case by (cases "i = a") (simp_all split: option.split)
qed simp

lemma keys_indegrees: "gomap tasks \<Longrightarrow> gomap (indegrees tasks) \<and> set (keys (indegrees tasks)) = set (keys tasks)"
proof -
  have "gomap m \<Longrightarrow> gomap (fold (\<lambda>(i, t). put i (f t)) xs m)
      \<and> set (keys (fold (\<lambda>(i, t). put i (f t)) xs m)) = set (keys xs) \<union> set (keys m)"
    for f :: "TaskDefinition \<Rightarrow> int" and xs m
  proof (induction xs arbitrary: m)
    case (Cons p xs)
    then show ?case
      by (cases p) (use Cons.IH [of "put (fst p) (f (snd p)) m"] Cons.prems in auto)
  qed simp
  from this [of "[]"] show ?thesis by (simp add: indegrees_def)
qed

lemma map_of_indegrees:
  "gomap tasks \<Longrightarrow> map_of (indegrees tasks) i = map_option (\<lambda>t. int (length (deps t))) (map_of tasks i)"
  unfolding indegrees_def gomap_def by (subst or_zero_fold_put) (auto split: option.splits)

lemma or_zero_add_dependents:
  "distinct (deps (snd p)) \<Longrightarrow>
   or_zero [] (add_dependents p m) d = or_zero [] m d @ (if d \<in> set (deps (snd p)) then [fst p] else [])"
proof -
  have "distinct ds \<Longrightarrow> or_zero [] (fold (\<lambda>dependency m. put dependency (or_zero [] m dependency @ [i]) m) ds m) d =
      or_zero [] m d @ (if d \<in> set ds then [i] else [])" for ds and i :: string and m
    by (induction ds arbitrary: m) auto
  then show "distinct (deps (snd p)) \<Longrightarrow> ?thesis" by (simp add: add_dependents_def)
qed

lemma or_zero_dependents:
  assumes "\<forall>p \<in> set tasks. distinct (deps (snd p))"
  shows "or_zero [] (dependents_of tasks) d = map fst (filter (\<lambda>p. d \<in> set (deps (snd p))) tasks)"
proof -
  have "\<forall>p \<in> set xs. distinct (deps (snd p)) \<Longrightarrow>
      or_zero [] (fold add_dependents xs m) d = or_zero [] m d @ map fst (filter (\<lambda>p. d \<in> set (deps (snd p))) xs)"
    for xs m
    by (induction xs arbitrary: m) (auto simp: or_zero_add_dependents)
  from this [OF assms, of "[]"] show ?thesis by (simp add: dependents_of_def or_zero_def)
qed

lemma dependents_spec:
  assumes "linked tasks"
  shows "distinct (or_zero [] (dependents_of tasks) d)"
    and "set (or_zero [] (dependents_of tasks) d) = {i. d \<in> deps_at tasks i}"
proof -
  from assms have "\<forall>p \<in> set tasks. distinct (deps (snd p))" and g: "gomap tasks"
    by (auto simp: linked_def)
  note eq = or_zero_dependents [OF this(1)]
  show "distinct (or_zero [] (dependents_of tasks) d)"
    unfolding eq using g by (simp add: gomap_def distinct_map_filter)
  show "set (or_zero [] (dependents_of tasks) d) = {i. d \<in> deps_at tasks i}"
    unfolding eq by (force simp: deps_at_def dep_rel_def)
qed

text \<open>What one round of the inner loop does to the in-degrees and to the queue.\<close>

lemma relax_spec:
  assumes "distinct ds" "\<forall>d \<in> set ds. or_zero 0 indegree d \<noteq> 0"
    and "relax ds (indegree, ready) = (indegree', ready')"
  shows "or_zero 0 indegree' i = or_zero 0 indegree i - (if i \<in> set ds then 1 else 0)"
    and "mset ready' = mset ready + mset (filter (\<lambda>d. or_zero 0 indegree d = 1) ds)"
proof -
  from assms have "(\<forall>i. or_zero 0 indegree' i = or_zero 0 indegree i - (if i \<in> set ds then 1 else 0)) \<and>
      mset ready' = mset ready + mset (filter (\<lambda>d. or_zero 0 indegree d = 1) ds)"
  proof (induction ds "(indegree, ready)" arbitrary: indegree ready rule: relax.induct)
    case (2 dependent rest indegree ready)
    let ?ind = "put dependent (or_zero 0 indegree dependent - 1) indegree"
    have same: "or_zero 0 ?ind d = or_zero 0 indegree d" if "d \<in> set rest" for d
      using that "2.prems"(1) by auto
    have f: "filter (\<lambda>d. or_zero 0 ?ind d = 1) rest = filter (\<lambda>d. or_zero 0 indegree d = 1) rest"
      by (rule filter_cong [OF refl]) (simp only: same)
    have IH: "(\<forall>i. or_zero 0 indegree' i = or_zero 0 ?ind i - (if i \<in> set rest then 1 else 0)) \<and>
        mset ready' = mset (if or_zero 0 indegree dependent - 1 = 0 then sort (ready @ [dependent]) else ready) +
          mset (filter (\<lambda>d. or_zero 0 ?ind d = 1) rest)"
    proof (rule "2.hyps" [OF refl refl])
      show "distinct rest" using "2.prems"(1) by simp
      show "\<forall>d \<in> set rest. or_zero 0 ?ind d \<noteq> 0" using "2.prems"(2) same by auto
      show "relax rest (?ind, if or_zero 0 indegree dependent - 1 = 0 then sort (ready @ [dependent]) else ready) =
          (indegree', ready')"
        using "2.prems"(3) by (simp add: Let_def)
    qed
    from IH "2.prems"(1) show ?case unfolding f by auto
  qed simp
  then show "or_zero 0 indegree' i = or_zero 0 indegree i - (if i \<in> set ds then 1 else 0)"
    and "mset ready' = mset ready + mset (filter (\<lambda>d. or_zero 0 indegree d = 1) ds)"
    by blast+
qed

text \<open>
  The invariant of the main loop. \<open>V\<close> is the set of tasks taken from the queue so far: the in-degree
  of a task counts its dependencies outside \<open>V\<close>, the queue holds exactly the tasks outside \<open>V\<close> whose
  dependencies are all in \<open>V\<close>, and \<open>V\<close> itself is ranked by the order in which it was taken.
\<close>

definition ranked :: "(string, TaskDefinition) gomap \<Rightarrow> string set \<Rightarrow> (string \<Rightarrow> nat) \<Rightarrow> bool" where
  "ranked tasks V rank \<longleftrightarrow>
     (\<forall>v \<in> V. rank v < card V \<and> (\<forall>d \<in> deps_at tasks v. d \<in> V \<and> rank d < rank v))"

definition kahn_inv ::
    "(string, TaskDefinition) gomap \<Rightarrow> string set \<Rightarrow> string list \<Rightarrow> (string, int) gomap \<Rightarrow> bool" where
  "kahn_inv tasks V ready indegree \<longleftrightarrow>
     V \<subseteq> set (keys tasks) \<and> distinct ready \<and>
     set ready = {i \<in> set (keys tasks) - V. deps_at tasks i \<subseteq> V} \<and>
     (\<forall>i \<in> set (keys tasks). or_zero 0 indegree i = int (card (deps_at tasks i - V))) \<and>
     (\<exists>rank. ranked tasks V rank)"

lemma deps_at_map_of: "gomap tasks \<Longrightarrow> map_of tasks i = Some t \<Longrightarrow> deps_at tasks i = set (deps t)"
  by (auto simp: deps_at_def dep_rel_def gomap_map_of_iff dest: eq_key_imp_eq_value [rotated] simp: gomap_def)

lemma deps_at_finite: "linked tasks \<Longrightarrow> finite (deps_at tasks i) \<and> deps_at tasks i \<subseteq> set (keys tasks)"
proof -
  assume l: "linked tasks"
  have "deps_at tasks i \<subseteq> set (keys tasks)"
    using l by (fastforce simp: linked_def deps_at_def dep_rel_def)
  then show ?thesis using finite_subset by blast
qed

lemma ranked_insert:
  assumes "ranked tasks V rank" "i \<notin> V" "finite V" "deps_at tasks i \<subseteq> V"
  shows "ranked tasks (insert i V) (rank(i := card V))"
proof -
  have "v \<noteq> i \<and> rank v < card V \<and> (\<forall>d \<in> deps_at tasks v. d \<in> V \<and> d \<noteq> i \<and> rank d < rank v)" if "v \<in> V" for v
    using that assms(1,2) unfolding ranked_def by blast
  moreover have "\<forall>d \<in> deps_at tasks i. d \<in> V \<and> d \<noteq> i \<and> rank d < card V"
    using assms unfolding ranked_def by blast
  ultimately show ?thesis
    using assms(2,3) unfolding ranked_def by (auto simp: less_Suc_eq)
qed

lemma kahn_inv_step:
  assumes l: "linked tasks" and inv: "kahn_inv tasks V (i # ready) indegree"
    and r: "relax (or_zero [] (dependents_of tasks) i) (indegree, ready) = (indegree', ready')"
  shows "kahn_inv tasks (insert i V) ready' indegree'" and "i \<notin> V"
proof -
  let ?K = "set (keys tasks)"
  let ?ds = "or_zero [] (dependents_of tasks) i"
  from inv have VK: "V \<subseteq> ?K" and dist: "distinct (i # ready)"
    and rdy: "set (i # ready) = {j \<in> ?K - V. deps_at tasks j \<subseteq> V}"
    and ind: "\<And>j. j \<in> ?K \<Longrightarrow> or_zero 0 indegree j = int (card (deps_at tasks j - V))"
    and "\<exists>rank. ranked tasks V rank"
    unfolding kahn_inv_def by blast+
  then obtain rank where rank: "ranked tasks V rank" by blast
  from rdy have iK: "i \<in> ?K" and iV: "i \<notin> V" and di: "deps_at tasks i \<subseteq> V" by auto
  show "i \<notin> V" by (rule iV)
  have dsK: "set ?ds \<subseteq> ?K"
    using dependents_spec(2) [OF l, of i] by (auto simp: deps_at_def dep_rel_def intro: rev_image_eqI)
  have dsin: "j \<in> set ?ds \<longleftrightarrow> i \<in> deps_at tasks j" for j
    using dependents_spec(2) [OF l, of i] by simp
  have card_step: "int (card (deps_at tasks j - insert i V)) =
      int (card (deps_at tasks j - V)) - (if j \<in> set ?ds then 1 else 0)" for j
  proof -
    have fin: "finite (deps_at tasks j - V)" using deps_at_finite [OF l] by blast
    have eq: "deps_at tasks j - insert i V = (deps_at tasks j - V) - {i}" by auto
    show ?thesis
    proof (cases "j \<in> set ?ds")
      case True
      then have m: "i \<in> deps_at tasks j - V" using dsin iV by simp
      then have "0 < card (deps_at tasks j - V)" using fin card_gt_0_iff by blast
      with m True show ?thesis unfolding eq card_Diff_singleton [OF m] by simp
    next
      case False
      then have "i \<notin> deps_at tasks j - V" using dsin by simp
      with False show ?thesis unfolding eq by simp
    qed
  qed
  have nz: "\<forall>j \<in> set ?ds. or_zero 0 indegree j \<noteq> 0"
  proof
    fix j assume j: "j \<in> set ?ds"
    then have "i \<in> deps_at tasks j - V" using dsin iV by simp
    then have "card (deps_at tasks j - V) \<noteq> 0" using deps_at_finite [OF l, of j] by auto
    moreover have "j \<in> ?K" using dsK j by blast
    ultimately show "or_zero 0 indegree j \<noteq> 0" using ind by simp
  qed
  note step = relax_spec [OF dependents_spec(1) [OF l] nz r]
  have ind': "or_zero 0 indegree' j = int (card (deps_at tasks j - insert i V))" if "j \<in> ?K" for j
    using step(1) [of j] ind [OF that] card_step [of j] by simp
  have one: "or_zero 0 indegree j = 1 \<longleftrightarrow> deps_at tasks j \<subseteq> insert i V" if "j \<in> set ?ds" for j
  proof -
    have "j \<in> ?K" using that dsK by blast
    then have "or_zero 0 indegree j = 1 \<longleftrightarrow> card (deps_at tasks j - insert i V) = 0"
      using ind [of j] card_step [of j] that by auto
    then show ?thesis using deps_at_finite [OF l, of j] by auto
  qed
  have set': "set ready' = set ready \<union> {j \<in> set ?ds. or_zero 0 indegree j = 1}"
    using arg_cong [OF step(2), of set_mset] by auto
  have new: "j \<notin> set ready" if "j \<in> set ?ds" for j
    using that dsin [of j] iV rdy by auto
  have dist': "distinct ready'"
  proof -
    have "distinct (ready @ filter (\<lambda>d. or_zero 0 indegree d = 1) ?ds)"
      using dist new dependents_spec(1) [OF l, of i] by auto
    moreover have "mset ready' = mset (ready @ filter (\<lambda>d. or_zero 0 indegree d = 1) ?ds)"
      using step(2) by simp
    ultimately show ?thesis by (metis mset_eq_imp_distinct_iff)
  qed
  have rdy': "set ready' = {j \<in> ?K - insert i V. deps_at tasks j \<subseteq> insert i V}"
  proof (rule set_eqI)
    fix j
    have "j \<in> set ready \<longleftrightarrow> j \<in> ?K \<and> j \<notin> V \<and> j \<noteq> i \<and> deps_at tasks j \<subseteq> V"
      using rdy dist by auto
    moreover have "j \<in> set ?ds \<Longrightarrow> j \<notin> insert i V"
      using dsin [of j] iV rank di unfolding ranked_def by auto
    ultimately show "j \<in> set ready' \<longleftrightarrow> j \<in> {j \<in> ?K - insert i V. deps_at tasks j \<subseteq> insert i V}"
      unfolding set' using one [of j] dsin [of j] dsK iV by auto
  qed
  show "kahn_inv tasks (insert i V) ready' indegree'"
    unfolding kahn_inv_def
    using VK iK dist' rdy' ind' ranked_insert [OF rank iV _ di] finite_subset [OF VK] by auto
qed

lemma kahn_result:
  assumes "linked tasks" "kahn_inv tasks V ready indegree"
  shows "\<exists>W ind. kahn (dependents_of tasks) ready indegree (card V) = card W \<and> kahn_inv tasks W [] ind"
  using assms
proof (induction "dependents_of tasks" ready indegree "card V" arbitrary: V rule: kahn.induct)
  case (1 indegree)
  then show ?case by auto
next
  case (2 i ready indegree)
  obtain indegree' ready' where r:
    "relax (or_zero [] (dependents_of tasks) i) (indegree, ready) = (indegree', ready')"
    by (cases "relax (or_zero [] (dependents_of tasks) i) (indegree, ready)")
  note step = kahn_inv_step [OF 2(2,3) r]
  have "finite V" using 2(3) finite_subset unfolding kahn_inv_def by blast
  with step(2) have c: "card (insert i V) = Suc (card V)" by simp
  show ?case using 2(1) [OF r [symmetric] c [symmetric]] 2(2) step(1) r c by simp
qed

lemma kahn_inv_init:
  assumes "linked tasks"
  shows "kahn_inv tasks {} (sort (map fst (filter (\<lambda>(i, degree). degree = 0) (indegrees tasks)))) (indegrees tasks)"
proof -
  from assms have g: "gomap tasks" by (simp add: linked_def)
  note ind = keys_indegrees [OF g]
  have deg: "or_zero 0 (indegrees tasks) i = int (card (deps_at tasks i))" if "i \<in> set (keys tasks)" for i
  proof -
    from that obtain t where t: "map_of tasks i = Some t"
      by (metis has_def has_iff_keys not_None_eq)
    then have "distinct (deps t)" using assms by (auto simp: linked_def dest: map_of_SomeD)
    then show ?thesis using t deps_at_map_of [OF g t] map_of_indegrees [OF g, of i]
      by (simp add: or_zero_def distinct_card)
  qed
  let ?q = "map fst (filter (\<lambda>(i, degree). degree = 0) (indegrees tasks))"
  have q: "i \<in> set ?q \<longleftrightarrow> i \<in> set (keys tasks) \<and> or_zero 0 (indegrees tasks) i = 0" for i
  proof -
    have "i \<in> set ?q \<longleftrightarrow> map_of (indegrees tasks) i = Some 0"
      using ind by (auto simp: gomap_map_of_iff intro: rev_image_eqI)
    also have "\<dots> \<longleftrightarrow> i \<in> set (keys (indegrees tasks)) \<and> or_zero 0 (indegrees tasks) i = 0"
      by (auto simp: or_zero_def map_of_eq_None_iff split: option.splits dest: map_of_SomeD intro: rev_image_eqI)
    finally show ?thesis using ind by simp
  qed
  have "set (sort ?q) = {i \<in> set (keys tasks) - {}. deps_at tasks i \<subseteq> {}}"
    using q deg deps_at_finite [OF assms] by (auto simp del: set_map)
  moreover have "distinct (sort ?q)"
    using ind by (auto simp: gomap_def distinct_map_filter)
  ultimately show ?thesis
    unfolding kahn_inv_def using deg by (auto simp: ranked_def)
qed

text \<open>
  The algorithm takes exactly the tasks that no cycle keeps back: if it takes all of them, the rank is
  a topological order; if not, the tasks left over each wait for another task left over.
\<close>

lemma hasCycle_iff_cyclic:
  assumes "linked tasks"
  shows "hasCycle tasks \<longleftrightarrow> \<not> acyclic (dep_rel tasks)"
proof -
  let ?K = "set (keys tasks)"
  let ?q = "sort (map fst (filter (\<lambda>(i, degree). degree = 0) (indegrees tasks)))"
  from assms have g: "gomap tasks" by (simp add: linked_def)
  obtain W ind where W: "kahn (dependents_of tasks) ?q (indegrees tasks) 0 = card W"
    and inv: "kahn_inv tasks W [] ind"
    using kahn_result [OF assms kahn_inv_init [OF assms]] by auto
  from inv have WK: "W \<subseteq> ?K" and "\<exists>rank. ranked tasks W rank"
    and empty: "set [] = {i \<in> ?K - W. deps_at tasks i \<subseteq> W}"
    unfolding kahn_inv_def by blast+
  then obtain rank where rank: "ranked tasks W rank" by blast
  have rest: "\<exists>d \<in> deps_at tasks i. d \<notin> W" if "i \<in> ?K" "i \<notin> W" for i
    using that empty by auto
  have "card ?K = length tasks"
    using g unfolding gomap_def by (metis distinct_card length_map)
  moreover have "card W = card ?K \<longleftrightarrow> W = ?K"
    using card_subset_eq [of ?K W] WK by blast
  ultimately have full: "hasCycle tasks \<longleftrightarrow> W \<noteq> ?K"
    using W by (simp add: hasCycle_def)
  have "acyclic (dep_rel tasks)" if "W = ?K"
  proof -
    have "rank i < rank j" if "(j, i) \<in> (dep_rel tasks)\<inverse>" for i j
    proof -
      have "j \<in> W" "i \<in> deps_at tasks j"
        using that \<open>W = ?K\<close> by (auto simp: deps_at_def dep_rel_def intro: rev_image_eqI)
      with rank show ?thesis unfolding ranked_def by blast
    qed
    then have "acyclic ((dep_rel tasks)\<inverse>)" by (rule acyclicI_order)
    then show ?thesis by simp
  qed
  moreover have "\<not> acyclic (dep_rel tasks)" if ne: "W \<noteq> ?K"
  proof
    assume acy: "acyclic (dep_rel tasks)"
    have "dep_rel tasks \<subseteq> ?K \<times> ?K"
      using assms by (fastforce simp: dep_rel_def linked_def intro: rev_image_eqI)
    then have "finite (dep_rel tasks)" by (rule finite_subset) simp
    then have "wf (dep_rel tasks)" using acy by (rule finite_acyclic_wf)
    moreover from ne WK obtain u where "u \<in> ?K - W" by blast
    ultimately obtain z where z: "z \<in> ?K - W" "\<And>y. (y, z) \<in> dep_rel tasks \<Longrightarrow> y \<notin> ?K - W"
      by (rule wfE_min) blast
    then obtain d where "d \<in> deps_at tasks z" "d \<notin> W" using rest by blast
    moreover from this have "d \<in> ?K" using deps_at_finite [OF assms] by blast
    ultimately show False using z(2) by (auto simp: deps_at_def)
  qed
  ultimately show ?thesis using full by blast
qed

section \<open>Exactly the well-formed definitions are accepted\<close>

text \<open>
  The declarative reading of the checks: a predicate on the tasks as a collection, in which the
  order of tasks and dependencies plays no role.
\<close>

definition valid_retry :: "RetryPolicy \<Rightarrow> int64 \<Rightarrow> bool" where
  "valid_retry r timeout \<longleftrightarrow>
     rp_MaxAttempts r \<noteq> 0 \<and> rp_BackoffMultiplier r \<noteq> 0 \<and> 0 \<le> timeout \<and>
     0 \<le> rp_InitialBackoffMillis r \<and> 0 \<le> rp_MaxBackoffMillis r \<and>
     (rp_MaxBackoffMillis r = 0 \<or> rp_InitialBackoffMillis r \<le> rp_MaxBackoffMillis r)"

definition valid_compensation :: "CompensationDefinition option \<Rightarrow> bool" where
  "valid_compensation c \<longleftrightarrow> pred_option (\<lambda>d. \<not> blank (cd_TaskType d)) c"

definition valid_fanout :: "FanoutDefinition option \<Rightarrow> bool" where
  "valid_fanout \<equiv> pred_option (\<lambda>f.
     \<not> blank (fd_TaskType f) \<and> \<not> blank (fd_AggregateTaskID f) \<and>
     0 < fd_MaxItems f \<and> fd_MaxItems f \<le> MaxFanoutItems \<and>
     valid_retry (fd_Retry f) (fd_TimeoutMillis f) \<and> valid_compensation (fd_Compensation f))"

definition valid_task :: "TaskDefinition \<Rightarrow> bool" where
  "valid_task t \<longleftrightarrow> \<not> blank (td_ID t) \<and> \<not> blank (td_Type t) \<and>
     valid_retry (td_Retry t) (td_TimeoutMillis t) \<and> valid_compensation (td_Compensation t) \<and>
     valid_fanout (td_Fanout t)"

definition valid_links :: "TaskDefinition set \<Rightarrow> TaskDefinition \<Rightarrow> bool" where
  "valid_links T t \<longleftrightarrow>
     distinct (deps t) \<and> td_ID t \<notin> set (deps t) \<and> set (deps t) \<subseteq> td_ID ` T \<and>
     (\<forall>f. td_Fanout t = Some f \<longrightarrow>
        (\<exists>a \<in> T. td_ID a = fd_AggregateTaskID f \<and> td_ID a \<noteq> td_ID t \<and> td_ID t \<in> set (deps a)))"

definition needs :: "TaskDefinition set \<Rightarrow> (string \<times> string) set" where
  "needs T = {(d, td_ID t) | d t. t \<in> T \<and> d \<in> set (deps t)}"

definition valid_definition :: "WorkflowDefinition \<Rightarrow> bool" where
  "valid_definition d \<longleftrightarrow>
     \<not> blank (wd_Name d) \<and> \<not> blank (wd_Namespace d) \<and> 0 \<le> wd_StartAt d \<and> wd_Tasks d \<noteq> [] \<and>
     distinct (map td_ID (wd_Tasks d)) \<and>
     (\<forall>t \<in> set (wd_Tasks d). valid_task t \<and> valid_links (set (wd_Tasks d)) t) \<and>
     acyclic (needs (set (wd_Tasks d)))"

lemma validateRetry_iff: "validateRetry r timeout = Inr () \<longleftrightarrow> valid_retry r timeout"
  by (auto simp: validateRetry_def valid_retry_def not_less)

lemma validate_compensation_iff: "validate_compensation c = Inr () \<longleftrightarrow> valid_compensation c"
  by (simp add: validate_compensation_def valid_compensation_def split: option.splits)

lemma validate_fanout_iff: "validate_fanout f = Inr () \<longleftrightarrow> valid_fanout f"
  by (auto simp: validate_fanout_def valid_fanout_def result_simps validateRetry_iff
      validate_compensation_iff not_less word_gt_0 split: option.splits)

lemma validate_task_iff:
  "validate_task tasks t = Inr tasks' \<longleftrightarrow>
     valid_task t \<and> \<not> has (td_ID t) tasks \<and> tasks' = put (td_ID t) t tasks"
  by (auto simp: validate_task_def valid_task_def result_simps validateRetry_iff
      validate_compensation_iff validate_fanout_iff)

definition task_entries :: "TaskDefinition list \<Rightarrow> (string, TaskDefinition) gomap" where
  "task_entries ts = map (\<lambda>t. (td_ID t, t)) ts"

lemma put_new: "\<not> has k m \<Longrightarrow> put k v m = m @ [(k, v)]"
  by (induction m) (auto simp: has_def split: if_splits)

lemma validate_tasks_iff:
  "foldE validate_task m ts = Inr m' \<longleftrightarrow>
     (\<forall>t \<in> set ts. valid_task t \<and> \<not> has (td_ID t) m) \<and> distinct (map td_ID ts) \<and>
     m' = m @ task_entries ts"
proof (induction ts arbitrary: m)
  case (Cons t ts)
  have "has k (m @ [(td_ID t, t)]) \<longleftrightarrow> k = td_ID t \<or> has k m" for k
    by (auto simp: has_iff_keys)
  then show ?case
    by (auto simp: result_simps validate_task_iff Cons.IH put_new task_entries_def image_iff)
qed (auto simp: task_entries_def)

lemma validate_dependencies_iff:
  "foldE (validate_dependency tasks t) seen ds = Inr seen' \<longleftrightarrow>
     td_ID t \<notin> set ds \<and> (\<forall>d \<in> set ds. has d tasks \<and> d \<notin> set seen) \<and> distinct ds \<and> seen' = rev ds @ seen"
  by (induction ds arbitrary: seen) (auto simp: result_simps validate_dependency_def)

lemma validate_links_iff:
  assumes "distinct (map td_ID ts)"
  shows "validate_links (task_entries ts) t = Inr () \<longleftrightarrow> valid_links (set ts) t"
proof -
  have has: "has d (task_entries ts) \<longleftrightarrow> d \<in> td_ID ` set ts" for d
    by (auto simp: has_iff_keys task_entries_def)
  have "gomap (task_entries ts)"
    using assms by (simp add: gomap_def task_entries_def o_def)
  then have at: "map_of (task_entries ts) i = Some a \<longleftrightarrow> a \<in> set ts \<and> td_ID a = i" for i a
    by (auto simp: gomap_map_of_iff task_entries_def)
  have none: "map_of (task_entries ts) i = None \<longleftrightarrow> i \<notin> td_ID ` set ts" for i
    using has [of i] unfolding has_def by blast
  have "validate_aggregate (task_entries ts) t = Inr () \<longleftrightarrow>
     (\<forall>f. td_Fanout t = Some f \<longrightarrow>
        (\<exists>a \<in> set ts. td_ID a = fd_AggregateTaskID f \<and> td_ID a \<noteq> td_ID t \<and> td_ID t \<in> set (deps a)))"
  proof (cases "td_Fanout t")
    case (Some f)
    show ?thesis
    proof (cases "map_of (task_entries ts) (fd_AggregateTaskID f)")
      case None
      then have "fd_AggregateTaskID f \<notin> td_ID ` set ts" using none by blast
      then show ?thesis using None \<open>td_Fanout t = Some f\<close>
        by (auto simp: validate_aggregate_def image_iff)
    next
      case (Some a)
      have "b = a" if "b \<in> set ts" "td_ID b = fd_AggregateTaskID f" for b
        using at [of "fd_AggregateTaskID f" b] that Some by simp
      moreover have "a \<in> set ts" "td_ID a = fd_AggregateTaskID f" using at Some by auto
      ultimately have "(\<exists>b \<in> set ts. td_ID b = fd_AggregateTaskID f \<and> td_ID b \<noteq> td_ID t \<and> td_ID t \<in> set (deps b))
          \<longleftrightarrow> td_ID a \<noteq> td_ID t \<and> td_ID t \<in> set (deps a)"
        by blast
      with Some \<open>td_Fanout t = Some f\<close> show ?thesis
        by (simp add: validate_aggregate_def containsString_def list_ex_iff)
    qed
  qed (simp add: validate_aggregate_def)
  then show ?thesis
    by (auto simp: validate_links_def valid_links_def result_simps validate_dependencies_iff has)
qed

lemma foldE_unit_iff: "foldE (\<lambda>_. f) () xs = Inr () \<longleftrightarrow> (\<forall>x \<in> set xs. f x = Inr ())"
  for f :: "'a \<Rightarrow> 'e + unit"
  by (induction xs) (auto simp: result_simps)

lemma dep_rel_entries: "dep_rel (task_entries ts) = needs (set ts)"
  by (auto simp: dep_rel_def needs_def task_entries_def)

lemma linked_entries:
  "distinct (map td_ID ts) \<Longrightarrow> \<forall>t \<in> set ts. valid_links (set ts) t \<Longrightarrow> linked (task_entries ts)"
  by (auto simp: linked_def gomap_def task_entries_def o_def valid_links_def image_image)

lemma ValidateDefinition_iff:
  "ValidateDefinition (Some d) = Inr () \<longleftrightarrow> valid_definition d"
proof -
  let ?ts = "wd_Tasks d"
  have links: "foldE (\<lambda>_. validate_links (task_entries ?ts)) () ?ts = Inr () \<longleftrightarrow>
      (\<forall>t \<in> set ?ts. valid_links (set ?ts) t)" if "distinct (map td_ID ?ts)"
    using validate_links_iff [OF that] by (simp add: foldE_unit_iff)
  have cyc: "hasCycle (task_entries ?ts) \<longleftrightarrow> \<not> acyclic (needs (set ?ts))"
    if "distinct (map td_ID ?ts)" "\<forall>t \<in> set ?ts. valid_links (set ?ts) t"
    using hasCycle_iff_cyclic [OF linked_entries [OF that]] by (simp add: dep_rel_entries)
  show ?thesis
    unfolding ValidateDefinition_def valid_definition_def
    using links cyc by (auto simp: result_simps validate_tasks_iff has_def not_less)
qed

text \<open>
  Validity looks at a definition as a collection: it is kept by any change that permutes tasks and
  dependencies, in particular by copying and by bringing into canonical form.
\<close>

definition similar_task :: "TaskDefinition \<Rightarrow> TaskDefinition \<Rightarrow> bool" where
  "similar_task t u \<longleftrightarrow> td_ID u = td_ID t \<and> td_Type u = td_Type t \<and> td_Retry u = td_Retry t \<and>
     td_TimeoutMillis u = td_TimeoutMillis t \<and> td_Compensation u = td_Compensation t \<and>
     td_Fanout u = td_Fanout t \<and> mset (deps u) = mset (deps t)"

lemma similar_deps:
  assumes "\<And>t. similar_task t (g t)"
  shows "set (deps (g t)) = set (deps t)" "distinct (deps (g t)) = distinct (deps t)"
    "td_ID (g t) = td_ID t" "td_Fanout (g t) = td_Fanout t" "valid_task (g t) = valid_task t"
  using assms [of t] by (auto simp: similar_task_def valid_task_def dest: mset_eq_setD mset_eq_imp_distinct_iff)

lemma valid_definition_similar:
  assumes g: "\<And>t. similar_task t (g t)" and ts: "mset ts = mset (map g (wd_Tasks d))"
  shows "valid_definition (d\<lparr>wd_Tasks := ts\<rparr>) \<longleftrightarrow> valid_definition d"
proof -
  note [simp] = similar_deps [OF g]
  have set: "set ts = g ` set (wd_Tasks d)" using mset_eq_setD [OF ts] by simp
  have "mset (map td_ID ts) = mset (map td_ID (wd_Tasks d))"
  proof -
    have "mset (map td_ID ts) = image_mset td_ID (mset ts)" by simp
    also have "\<dots> = image_mset td_ID (mset (map g (wd_Tasks d)))" by (simp only: ts)
    also have "\<dots> = mset (map td_ID (wd_Tasks d))" by (simp add: multiset.map_comp o_def)
    finally show ?thesis .
  qed
  then have dist: "distinct (map td_ID ts) = distinct (map td_ID (wd_Tasks d))"
    by (rule mset_eq_imp_distinct_iff)
  have "ts = [] \<longleftrightarrow> wd_Tasks d = []" using ts by auto
  moreover have "needs (set ts) = needs (set (wd_Tasks d))"
  proof -
    have "(a, b) \<in> needs T \<longleftrightarrow> (\<exists>t \<in> T. a \<in> set (deps t) \<and> b = td_ID t)" for a b T
      unfolding needs_def by blast
    then show ?thesis unfolding set by (simp add: set_eq_iff)
  qed
  moreover have "valid_links (set ts) (g t) \<longleftrightarrow> valid_links (set (wd_Tasks d)) t" for t
    unfolding valid_links_def set by (simp add: image_image)
  ultimately show ?thesis using dist by (simp add: valid_definition_def set)
qed

lemma valid_cloneDefinition: "cloneDefinition (Some d) = Some d' \<Longrightarrow> valid_definition d' \<longleftrightarrow> valid_definition d"
proof -
  assume "cloneDefinition (Some d) = Some d'"
  then have "d' = d\<lparr>wd_Tasks := map cloneTaskDefinition (wd_Tasks d)\<rparr>" by (auto simp: cloneDefinition_def)
  moreover have "similar_task t (cloneTaskDefinition t)" for t by (simp add: similar_task_def)
  ultimately show ?thesis using valid_definition_similar [of cloneTaskDefinition] by simp
qed

lemma valid_canonicalDefinition:
  "canonicalDefinition (Some d) = Some d' \<Longrightarrow> valid_definition d' \<longleftrightarrow> valid_definition d"
proof -
  assume "canonicalDefinition (Some d) = Some d'"
  then have "d' = d\<lparr>wd_Tasks := sort_key td_ID (map canonical_task (wd_Tasks d))\<rparr>"
    by (simp add: canonicalDefinition_Some)
  moreover have "similar_task t (canonical_task t)" for t by (simp add: similar_task_def)
  ultimately show ?thesis using valid_definition_similar [of canonical_task] by simp
qed

end
