(* ===== verification/Chronos_Clock.thy ===== *)
theory Chronos_Clock
  imports Chronos_Types
begin

text \<open>
  The virtual clock (\<^verbatim>\<open>internal/core/clock.go\<close>) and the retry back-off, the two places where the
  core package computes logical times. Both are shown to stay within 64 bits.
\<close>

section \<open>The virtual clock\<close>

record VirtualClock =
  vc_now :: int64

definition NewVirtualClock :: "int64 \<Rightarrow> err + VirtualClock" where
  "NewVirtualClock start =
     (if start < 0 then Inl ErrTimeRegression else Inr \<lparr>vc_now = start\<rparr>)"

definition Now :: "VirtualClock \<Rightarrow> int64" where
  "Now c = vc_now c"

definition Advance :: "VirtualClock \<Rightarrow> int64 \<Rightarrow> err + VirtualClock" where
  "Advance c delta =
     (if delta < 0 then Inl ErrTimeRegression
      else if sub64 MaxInt64 (vc_now c) < delta then Inl ErrTimeOverflow
      else Inr (c\<lparr>vc_now := add64 (vc_now c) delta\<rparr>))"

definition Set_clock :: "VirtualClock \<Rightarrow> int64 \<Rightarrow> err + VirtualClock" where
  "Set_clock c at = (if at < vc_now c then Inl ErrTimeRegression else Inr (c\<lparr>vc_now := at\<rparr>))"

section \<open>Back-off\<close>

text \<open>The loop of \<^verbatim>\<open>retryDelay\<close>: the loop variable, the bound and the delay reached so far.\<close>

function backoff :: "RetryPolicy \<Rightarrow> uint32 \<Rightarrow> uint32 \<Rightarrow> int64 \<Rightarrow> int64" where
  "backoff policy retryCount index delay =
     (if index < retryCount \<and> 0 < delay \<and> 1 < rp_BackoffMultiplier policy then
        let multiplier = uint (rp_BackoffMultiplier policy) in
        if MaxInt64 div multiplier < delay then MaxInt64
        else
          let delay' = mul64 delay multiplier in
          if 0 < rp_MaxBackoffMillis policy \<and> rp_MaxBackoffMillis policy \<le> delay'
          then rp_MaxBackoffMillis policy
          else backoff policy retryCount (index + 1) delay'
      else delay)"
  by pat_completeness auto
termination
proof (relation "measure (\<lambda>(policy, retryCount, index, delay). unat retryCount - unat index)")
  fix policy :: RetryPolicy and retryCount index :: uint32 and delay m d :: int64
  assume "index < retryCount \<and> 0 < delay \<and> 1 < rp_BackoffMultiplier policy"
  then have lt: "index < retryCount" ..
  then have "index \<noteq> - 1" by (metis word_n1_ge leD)
  from word_suc_gt(2) [OF this] lt
  show "((policy, retryCount, index + 1, d), policy, retryCount, index, delay)
      \<in> measure (\<lambda>(policy, retryCount, index, delay). unat retryCount - unat index)"
    by (simp add: word_less_nat_alt)
qed simp

declare backoff.simps [simp del]

definition retryDelay :: "RetryPolicy \<Rightarrow> uint32 \<Rightarrow> int64" where
  "retryDelay policy retryCount =
     (let delay = backoff policy retryCount 0 (rp_InitialBackoffMillis policy) in
      if 0 < rp_MaxBackoffMillis policy \<and> rp_MaxBackoffMillis policy < delay
      then rp_MaxBackoffMillis policy else delay)"

section \<open>Clock lemmas\<close>

lemma Advance_Inr:
  assumes "0 \<le> vc_now c" "in_int64 (vc_now c)" "in_int64 d"
  shows "Advance c d = Inr c' \<longleftrightarrow> 0 \<le> d \<and> vc_now c + d \<le> MaxInt64 \<and> c' = c\<lparr>vc_now := vc_now c + d\<rparr>"
proof -
  have "sub64 MaxInt64 (vc_now c) = MaxInt64 - vc_now c"
    using assms by (intro sub64_exact) (simp add: int64_bounds)
  moreover have "add64 (vc_now c) d = vc_now c + d" if "0 \<le> d" "vc_now c + d \<le> MaxInt64"
    using assms that by (intro add64_exact) (simp add: int64_bounds)
  ultimately show ?thesis by (auto simp: Advance_def)
qed

section \<open>The back-off in closed form\<close>

text \<open>The bound the policy puts on every delay.\<close>

definition backoff_cap :: "RetryPolicy \<Rightarrow> int64" where
  "backoff_cap p = (if 0 < rp_MaxBackoffMillis p then rp_MaxBackoffMillis p else MaxInt64)"

lemma power_mono_cap:
  fixes d m :: int
  assumes "0 \<le> d" "1 \<le> m"
  shows "d \<le> d * m ^ k"
  using mult_left_mono [OF one_le_power [OF assms(2), of k] assms(1)] by simp

lemma int_div_less_iff:
  fixes m n q :: int
  assumes "0 < q"
  shows "m div q < n \<longleftrightarrow> m < n * q"
proof
  have split: "m = (m div q) * q + m mod q" by simp
  have r: "0 \<le> m mod q" "m mod q < q" using assms by simp_all
  show "m < n * q" if "m div q < n"
  proof -
    have "(m div q + 1) * q \<le> n * q" using that assms by (intro mult_right_mono) auto
    moreover have "(m div q + 1) * q = (m div q) * q + q" by (simp add: distrib_right)
    ultimately show ?thesis using split r by linarith
  qed
  show "m div q < n" if "m < n * q"
  proof (rule ccontr)
    assume "\<not> m div q < n"
    then have "n * q \<le> (m div q) * q" using assms by (intro mult_right_mono) auto
    with split r that show False by linarith
  qed
qed

text \<open>What is left of the loop computes the remaining product, cut off at the cap.\<close>

lemma backoff_capped:
  assumes "0 \<le> delay" "delay \<le> MaxInt64" "rp_MaxBackoffMillis p \<le> MaxInt64"
    and "1 \<le> rp_BackoffMultiplier p" "unat index \<le> unat retryCount"
  shows "min (backoff_cap p) (backoff p retryCount index delay) =
         min (backoff_cap p) (delay * uint (rp_BackoffMultiplier p) ^ (unat retryCount - unat index))"
  using assms
proof (induction p retryCount index delay rule: backoff.induct)
  case (1 p n c delay)
  let ?m = "uint (rp_BackoffMultiplier p)" and ?k = "unat n - unat c"
  have m1: "1 \<le> ?m" using 1(5) by (simp add: word_le_def)
  have cap: "backoff_cap p \<le> MaxInt64" using 1(4) by (simp add: backoff_cap_def)
  show ?case
  proof (cases "c < n \<and> 0 < delay \<and> 1 < rp_BackoffMultiplier p")
    case False
    moreover have "c < n \<longleftrightarrow> unat c < unat n" "1 < rp_BackoffMultiplier p \<longleftrightarrow> 1 < ?m"
      by (simp add: word_less_nat_alt, simp add: word_less_def)
    ultimately have "?k = 0 \<or> delay = 0 \<or> ?m = 1"
      using 1(2,6) m1 by linarith
    with False show ?thesis by (auto simp: backoff.simps [of p n c])
  next
    case True
    then have c: "unat (c + 1) = Suc (unat c)" "?k = Suc (unat n - unat (c + 1))"
    proof -
      have "c \<noteq> - 1" using True by (metis word_n1_ge leD)
      from word_suc_gt(2) [OF this] show "unat (c + 1) = Suc (unat c)" .
      moreover have "unat c < unat n" using True by (simp add: word_less_nat_alt)
      ultimately show "?k = Suc (unat n - unat (c + 1))" by linarith
    qed
    let ?r = "(delay * ?m) * ?m ^ (unat n - unat (c + 1))"
    have r: "delay * ?m ^ ?k = ?r" using c(2) by simp
    have le: "delay * ?m \<le> ?r" using 1(2) m1 by (intro power_mono_cap) auto
    have dv: "MaxInt64 div ?m < delay \<longleftrightarrow> MaxInt64 < delay * ?m"
      using m1 by (intro int_div_less_iff) linarith
    show ?thesis
    proof (cases "MaxInt64 div ?m < delay")
      case big: True
      then have "MaxInt64 < delay * ?m" using dv by simp
      with le cap r have "backoff_cap p \<le> delay * ?m ^ ?k" by linarith
      with True big cap show ?thesis by (simp add: backoff.simps [of p n c] Let_def)
    next
      case False
      then have fit: "delay * ?m \<le> MaxInt64" using dv by simp
      moreover have pos: "0 \<le> delay * ?m" using 1(2) m1 by simp
      ultimately have mul: "mul64 delay ?m = delay * ?m"
        by (intro mul64_exact) (simp add: int64_bounds)
      show ?thesis
      proof (cases "0 < rp_MaxBackoffMillis p \<and> rp_MaxBackoffMillis p \<le> delay * ?m")
        case cut: True
        then have "backoff_cap p \<le> delay * ?m ^ ?k" using le unfolding r backoff_cap_def by simp
        with True False cut show ?thesis
          by (simp add: backoff.simps [of p n c] Let_def mul backoff_cap_def)
      next
        case nocut: False
        have "unat (c + 1) \<le> unat n" using True c(1) by (simp add: word_less_nat_alt)
        from 1(1) [OF True refl False refl] nocut mul pos fit 1(4,5) this
        have "min (backoff_cap p) (backoff p n (c + 1) (delay * ?m)) = min (backoff_cap p) ?r" by simp
        moreover have "backoff p n c delay = backoff p n (c + 1) (delay * ?m)"
          unfolding backoff.simps [of p n c] Let_def mul using True False nocut by auto
        ultimately show ?thesis by (simp only: r)
      qed
    qed
  qed
qed

lemma backoff_le_MaxInt64:
  assumes "delay \<le> MaxInt64" "rp_MaxBackoffMillis p \<le> MaxInt64"
  shows "backoff p retryCount index delay \<le> MaxInt64"
  using assms
proof (induction p retryCount index delay rule: backoff.induct)
  case (1 p n c delay)
  have "mul64 delay (uint (rp_BackoffMultiplier p)) \<le> MaxInt64"
    using in_int64_wrap64 by (simp add: mul64_def in_int64_def)
  with 1 show ?case by (simp add: backoff.simps [of p n c] Let_def)
qed

lemma retryDelay_closed:
  assumes "0 \<le> rp_InitialBackoffMillis p" "rp_InitialBackoffMillis p \<le> MaxInt64"
    and "rp_MaxBackoffMillis p \<le> MaxInt64" "1 \<le> rp_BackoffMultiplier p"
  shows "retryDelay p n =
    min (backoff_cap p) (rp_InitialBackoffMillis p * uint (rp_BackoffMultiplier p) ^ unat n)"
proof -
  let ?d = "backoff p n 0 (rp_InitialBackoffMillis p)"
  have "?d \<le> MaxInt64" using assms by (intro backoff_le_MaxInt64)
  then have "retryDelay p n = min (backoff_cap p) ?d"
    by (auto simp: retryDelay_def backoff_cap_def Let_def)
  also have "\<dots> = min (backoff_cap p) (rp_InitialBackoffMillis p * uint (rp_BackoffMultiplier p) ^ unat n)"
    using backoff_capped [OF assms, of 0 n] by simp
  finally show ?thesis .
qed

lemma retryDelay_range:
  assumes "0 \<le> rp_InitialBackoffMillis p" "rp_InitialBackoffMillis p \<le> MaxInt64"
    and "0 \<le> rp_MaxBackoffMillis p" "rp_MaxBackoffMillis p \<le> MaxInt64" "1 \<le> rp_BackoffMultiplier p"
  shows "0 \<le> retryDelay p n" "retryDelay p n \<le> backoff_cap p"
proof -
  have "0 \<le> rp_InitialBackoffMillis p * uint (rp_BackoffMultiplier p) ^ unat n"
    using assms(1) by simp
  moreover have "0 \<le> backoff_cap p" using assms(3) by (simp add: backoff_cap_def MaxInt64_def)
  ultimately show "0 \<le> retryDelay p n" "retryDelay p n \<le> backoff_cap p"
    using retryDelay_closed [OF assms(1,2,4,5), of n] by simp_all
qed

end
