(* ===== verification/Chronos_Reducer.thy ===== *)
theory Chronos_Reducer
  imports Chronos_Validate Chronos_Clock
begin

text \<open>
  The event reducer: \<^verbatim>\<open>Apply\<close>, \<^verbatim>\<open>applyEvent\<close> and every \<^verbatim>\<open>apply...\<close> function of
  \<^verbatim>\<open>internal/core/reducer.go\<close> and \<^verbatim>\<open>internal/core/workflow_transitions.go\<close>, with the helpers they
  share. A handler takes a workflow state and an event and returns the updated state or the error of
  the source. Each handler comes with a lemma that reads a success back to the guards that passed and
  the exact update that was made; the collection \<open>applied\<close> holds them.
\<close>

named_theorems applied \<open>what an accepted event checked and changed\<close>

section \<open>Helpers\<close>

definition scheduledTimer :: "WorkflowState \<Rightarrow> TimerPurpose \<Rightarrow> string \<Rightarrow> string \<Rightarrow> TimerState option" where
  "scheduledTimer state purpose taskID attemptID =
     find (\<lambda>timer. tm_Status timer = TimerScheduled \<and> tm_Purpose timer = purpose \<and>
                   tm_TaskID timer = taskID \<and> (attemptID = '''' \<or> tm_AttemptID timer = attemptID))
       (map snd (wf_Timers state))"

definition hasActiveState :: "WorkflowState \<Rightarrow> bool" where
  "hasActiveState state =
     list_ex (\<lambda>task. ts_Status task \<in> {TaskPending, TaskReady, TaskRunning, TaskCompensating})
       (map snd (wf_Tasks state))"

definition hasScheduledTimers :: "WorkflowState \<Rightarrow> bool" where
  "hasScheduledTimers state =
     list_ex (\<lambda>timer. tm_Status timer = TimerScheduled) (map snd (wf_Timers state))"

text \<open>One round of the loop of \<^verbatim>\<open>nextCompensation\<close>; the accumulator is \<^verbatim>\<open>(selected, sequence)\<close>.\<close>

definition pick_compensation :: "string \<times> TaskState \<Rightarrow> string \<times> uint64 \<Rightarrow> string \<times> uint64" where
  "pick_compensation entry acc =
     (let id = fst entry; task = snd entry; selected = fst acc; sequence = snd acc in
      if ts_Status task \<noteq> TaskCompleted \<or> td_Compensation (ts_Definition task) = None then acc
      else if selected = '''' \<or> sequence < ts_CompletedSequence task \<or>
              ts_CompletedSequence task = sequence \<and> selected < id
        then (id, ts_CompletedSequence task)
      else acc)"

definition nextCompensation :: "WorkflowState \<Rightarrow> string" where
  "nextCompensation state = fst (fold pick_compensation (wf_Tasks state) ('''', 0))"

definition timerEventMatches :: "Event \<Rightarrow> TimerState \<Rightarrow> bool" where
  "timerEventMatches event timer \<longleftrightarrow>
     ev_TaskID event = tm_TaskID timer \<and> ev_AttemptID event = tm_AttemptID timer \<and>
     ev_Attempt event = tm_Attempt timer \<and> ev_Fence event = tm_Fence timer"

definition expanded_definition :: "digest \<Rightarrow> string \<Rightarrow> string \<Rightarrow> FanoutDefinition \<Rightarrow> string \<Rightarrow> TaskDefinition" where
  "expanded_definition H workflowID parentID definition key =
     zero_TaskDefinition\<lparr>td_ID := FanoutTaskID H workflowID parentID key, td_Type := fd_TaskType definition,
       td_Dependencies := Some [parentID], td_Retry := fd_Retry definition,
       td_TimeoutMillis := fd_TimeoutMillis definition,
       td_Compensation := cloneCompensation (fd_Compensation definition)\<rparr>"

definition validateExpandedTask :: "digest \<Rightarrow> TaskState \<Rightarrow> ExpandedTask \<Rightarrow> string \<Rightarrow> bool" where
  "validateExpandedTask H parent expanded workflowID =
     (case td_Fanout (ts_Definition parent) of
        None \<Rightarrow> False
      | Some definition \<Rightarrow>
          xt_Key expanded \<noteq> '''' \<and>
          xt_Definition expanded =
            expanded_definition H workflowID (td_ID (ts_Definition parent)) definition (xt_Key expanded))"

definition sortedTaskIDs :: "WorkflowState \<Rightarrow> string list" where
  "sortedTaskIDs state = sort (keys (wf_Tasks state))"

text \<open>
  The two ways in which a task holds a lease, as \<^verbatim>\<open>applyFailed\<close>, \<^verbatim>\<open>applyRenewed\<close> and
  \<^verbatim>\<open>applyExpired\<close> spell them out, and the identity check of the attempt that holds it.
\<close>

definition forward_lease :: "WorkflowState \<Rightarrow> TaskState \<Rightarrow> Event \<Rightarrow> bool" where
  "forward_lease state task event \<longleftrightarrow>
     wf_Status state = WorkflowRunning \<and> ts_Status task = TaskRunning \<and>
     \<not> ts_Compensation task \<and> \<not> ev_Compensation event"

definition compensation_lease :: "WorkflowState \<Rightarrow> TaskState \<Rightarrow> Event \<Rightarrow> bool" where
  "compensation_lease state task event \<longleftrightarrow>
     wf_Status state = WorkflowCompensating \<and> ts_Status task = TaskCompensating \<and>
     ts_WorkerID task \<noteq> '''' \<and> ts_Compensation task \<and> ev_Compensation event"

definition same_attempt :: "TaskState \<Rightarrow> Event \<Rightarrow> bool" where
  "same_attempt task event \<longleftrightarrow>
     ts_AttemptID task = ev_AttemptID event \<and> ts_Attempt task = ev_Attempt event \<and>
     ts_WorkerID task = ev_WorkerID event \<and> ts_Fence task = ev_Fence event \<and>
     ts_Idempotency task = ev_Idempotency event"

text \<open>\<^verbatim>\<open>if timer, exists := scheduledTimer(...); exists && p(timer)\<close>\<close>

definition timeout_blocks :: "WorkflowState \<Rightarrow> string \<Rightarrow> string \<Rightarrow> (TimerState \<Rightarrow> bool) \<Rightarrow> bool" where
  "timeout_blocks state taskID attemptID p =
     (case scheduledTimer state TimerTimeout taskID attemptID of None \<Rightarrow> False | Some timer \<Rightarrow> p timer)"

section \<open>Handlers of \<^verbatim>\<open>reducer.go\<close>\<close>

definition applySubmission :: "Event \<Rightarrow> err + WorkflowState" where
  "applySubmission event =
     bindE (ValidateDefinition (ev_Definition event)) (\<lambda>_.
       case canonicalDefinition (ev_Definition event) of
         None \<Rightarrow> Inl ErrInvalidDefinition
       | Some definition \<Rightarrow>
           Inr \<lparr>wf_ID = ev_WorkflowID event, wf_Name = wd_Name definition,
                wf_Namespace = wd_Namespace definition,
                wf_Status = (if ev_At event < wd_StartAt definition then WorkflowScheduled else WorkflowRunning),
                wf_Version = ev_Sequence event, wf_UpdatedAt = ev_At event,
                wf_Tasks = fold (\<lambda>task. put (td_ID task)
                    (zero_TaskState\<lparr>ts_Definition := cloneTaskDefinition task, ts_Status := TaskPending\<rparr>))
                  (wd_Tasks definition) [],
                wf_Timers = []\<rparr>)"

definition dependencies_completed :: "WorkflowState \<Rightarrow> TaskState \<Rightarrow> bool" where
  "dependencies_completed state task =
     list_all (\<lambda>dependency. ts_Status (task_or_zero state dependency) = TaskCompleted)
       (deps (ts_Definition task))"

definition applyReady :: "WorkflowState \<Rightarrow> Event \<Rightarrow> err + WorkflowState" where
  "applyReady state event =
     (case task_at state (ev_TaskID event) of
        None \<Rightarrow> Inl ErrInvalidTransition
      | Some task \<Rightarrow>
          if ts_Status task \<noteq> TaskPending then Inl ErrInvalidTransition
          else if ts_Compensation task \<and> wf_Status state \<noteq> WorkflowCompensating then Inl ErrInvalidTransition
          else if \<not> ts_Compensation task \<and> wf_Status state \<noteq> WorkflowRunning then Inl ErrInvalidTransition
          else if \<not> ts_Compensation task \<and> \<not> dependencies_completed state task then Inl ErrInvalidTransition
          else if scheduledTimer state TimerRetry (ev_TaskID event) '''' \<noteq> None then Inl ErrInvalidTransition
          else Inr (put_task (ev_TaskID event)
            (task\<lparr>ts_Status := (if ts_Compensation task then TaskCompensating else TaskReady)\<rparr>) state))"

definition applyStarted :: "digest \<Rightarrow> WorkflowState \<Rightarrow> Event \<Rightarrow> err + WorkflowState" where
  "applyStarted H state event =
     (case task_at state (ev_TaskID event) of
        None \<Rightarrow> Inl ErrInvalidTransition
      | Some task \<Rightarrow>
          let forward = (wf_Status state = WorkflowRunning \<and> ts_Status task = TaskReady \<and>
                \<not> ts_Compensation task \<and> \<not> ev_Compensation event);
              compensation = (wf_Status state = WorkflowCompensating \<and> ts_Status task = TaskCompensating \<and>
                ts_WorkerID task = '''' \<and> ts_Compensation task \<and> ev_Compensation event);
              idempotency = (if compensation then CompensationIdempotencyKey H (wf_ID state) (ev_TaskID event)
                else IdempotencyKey H (wf_ID state) (ev_TaskID event));
              timeout = td_TimeoutMillis (ts_Definition task)
          in if \<not> forward \<and> \<not> compensation \<or> ts_Attempt task = MaxUint32 \<or> ts_Fence task = MaxUint64 \<or>
                ev_Attempt event \<noteq> ts_Attempt task + 1 \<or>
                ev_AttemptID event \<noteq> AttemptID H (wf_ID state) (ev_TaskID event) (ev_Attempt event) \<or>
                blank (ev_WorkerID event) \<or> ev_LeaseUntil event \<le> ev_At event \<or>
                ev_Fence event \<noteq> ts_Fence task + 1 \<or> ev_Idempotency event \<noteq> idempotency
             then Inl ErrInvalidTransition
             else if 0 < timeout \<and> (sub64 MaxInt64 timeout < ev_At event \<or>
                add64 (ev_At event) timeout < ev_LeaseUntil event)
             then Inl ErrInvalidTransition
             else Inr (put_task (ev_TaskID event)
               (task\<lparr>ts_Status := (if forward then TaskRunning else ts_Status task),
                     ts_Attempt := ev_Attempt event, ts_AttemptID := ev_AttemptID event,
                     ts_Inputs := cloneNestedMap (ev_Inputs event), ts_StartedAt := ev_At event,
                     ts_WorkerID := ev_WorkerID event, ts_LeaseUntil := ev_LeaseUntil event,
                     ts_Fence := ev_Fence event, ts_Idempotency := ev_Idempotency event,
                     ts_Error := ''''\<rparr>) state))"

definition applyCompleted :: "WorkflowState \<Rightarrow> Event \<Rightarrow> err + WorkflowState" where
  "applyCompleted state event =
     (case task_at state (ev_TaskID event) of
        None \<Rightarrow> Inl ErrInvalidTransition
      | Some task \<Rightarrow>
          if wf_Status state \<noteq> WorkflowRunning \<or> ts_Status task \<noteq> TaskRunning \<or> ev_Compensation event \<or>
             ts_Compensation task \<or> \<not> same_attempt task event \<or> ts_LeaseUntil task \<le> ev_At event
          then Inl ErrInvalidTransition
          else if timeout_blocks state (ev_TaskID event) (ev_AttemptID event)
             (\<lambda>timer. tm_Deadline timer \<le> ev_At event)
          then Inl ErrInvalidTransition
          else Inr (put_task (ev_TaskID event)
            (task\<lparr>ts_Status := TaskCompleted, ts_Output := cloneMap (ev_Output event),
                  ts_FinishedAt := ev_At event, ts_CompletedSequence := ev_Sequence event\<rparr>) state))"

definition applyFailed :: "WorkflowState \<Rightarrow> Event \<Rightarrow> err + WorkflowState" where
  "applyFailed state event =
     (case task_at state (ev_TaskID event) of
        None \<Rightarrow> Inl ErrInvalidTransition
      | Some task \<Rightarrow>
          if \<not> forward_lease state task event \<and> \<not> compensation_lease state task event \<or>
             \<not> same_attempt task event \<or> ts_LeaseUntil task \<le> ev_At event
          then Inl ErrInvalidTransition
          else if timeout_blocks state (ev_TaskID event) (ev_AttemptID event)
             (\<lambda>timer. tm_Deadline timer \<le> ev_At event)
          then Inl ErrInvalidTransition
          else Inr (put_task (ev_TaskID event)
            (task\<lparr>ts_Status := TaskFailed, ts_Error := ev_Error event, ts_FinishedAt := ev_At event,
                  ts_Compensation := ev_Compensation event\<rparr>) state))"

definition applyRenewed :: "WorkflowState \<Rightarrow> Event \<Rightarrow> err + WorkflowState" where
  "applyRenewed state event =
     (case task_at state (ev_TaskID event) of
        None \<Rightarrow> Inl ErrInvalidTransition
      | Some task \<Rightarrow>
          if \<not> forward_lease state task event \<and> \<not> compensation_lease state task event \<or>
             \<not> same_attempt task event \<or> ts_LeaseUntil task \<le> ev_At event \<or>
             ev_LeaseUntil event \<le> ts_LeaseUntil task
          then Inl ErrInvalidTransition
          else if timeout_blocks state (ev_TaskID event) (ev_AttemptID event)
             (\<lambda>timer. tm_Deadline timer < ev_LeaseUntil event)
          then Inl ErrInvalidTransition
          else Inr (put_task (ev_TaskID event) (task\<lparr>ts_LeaseUntil := ev_LeaseUntil event\<rparr>) state))"

definition applyExpired :: "WorkflowState \<Rightarrow> Event \<Rightarrow> err + WorkflowState" where
  "applyExpired state event =
     (case task_at state (ev_TaskID event) of
        None \<Rightarrow> Inl ErrInvalidTransition
      | Some task \<Rightarrow>
          if \<not> forward_lease state task event \<and> \<not> compensation_lease state task event \<or>
             \<not> same_attempt task event \<or> ev_LeaseUntil event \<noteq> ts_LeaseUntil task \<or>
             ev_At event < ts_LeaseUntil task
          then Inl ErrInvalidTransition
          else if timeout_blocks state (ev_TaskID event) (ev_AttemptID event)
             (\<lambda>timer. tm_Deadline timer \<le> ts_LeaseUntil task)
          then Inl ErrInvalidTransition
          else Inr (put_task (ev_TaskID event)
            (task\<lparr>ts_Status := (if compensation_lease state task event then TaskCompensating else TaskReady),
                  ts_AttemptID := '''', ts_Inputs := [], ts_StartedAt := 0, ts_WorkerID := '''',
                  ts_LeaseUntil := 0\<rparr>) state))"

definition applyWorkflowCompleted :: "WorkflowState \<Rightarrow> err + WorkflowState" where
  "applyWorkflowCompleted state =
     (if wf_Status state \<noteq> WorkflowRunning then Inl ErrInvalidTransition
      else if list_ex (\<lambda>task. ts_Status task \<noteq> TaskCompleted) (map snd (wf_Tasks state))
        then Inl ErrInvalidTransition
      else if hasScheduledTimers state then Inl ErrInvalidTransition
      else Inr (state\<lparr>wf_Status := WorkflowCompleted\<rparr>))"

definition applyWorkflowFailed :: "WorkflowState \<Rightarrow> Event \<Rightarrow> err + WorkflowState" where
  "applyWorkflowFailed state event =
     (if wf_Status state \<noteq> WorkflowRunning \<and> wf_Status state \<noteq> WorkflowCompensating
        then Inl ErrInvalidTransition
      else case task_at state (ev_TaskID event) of
        None \<Rightarrow> Inl ErrInvalidTransition
      | Some task \<Rightarrow>
          if ts_Status task \<noteq> TaskFailed then Inl ErrInvalidTransition
          else if hasActiveState state \<or> hasScheduledTimers state then Inl ErrInvalidTransition
          else Inr (state\<lparr>wf_Status := WorkflowFailed\<rparr>))"

section \<open>Handlers of \<^verbatim>\<open>workflow_transitions.go\<close>\<close>

text \<open>The conditions of \<^verbatim>\<open>applyTimerScheduled\<close> on a new timer, by purpose.\<close>

definition timer_accepted :: "digest \<Rightarrow> WorkflowState \<Rightarrow> TimerState \<Rightarrow> bool" where
  "timer_accepted H state timer =
     (case tm_Purpose timer of
        TimerWorkflowStart \<Rightarrow>
          wf_Status state = WorkflowScheduled \<and> tm_TaskID timer = '''' \<and>
          tm_ID timer = TimerID H (wf_ID state) '''' (timer_purpose_string TimerWorkflowStart) 0
      | TimerRetry \<Rightarrow>
          (case task_at state (tm_TaskID timer) of
             None \<Rightarrow> False
           | Some task \<Rightarrow>
               let delay = retryDelay (td_Retry (ts_Definition task)) (ts_RetryCount task) in
               ts_Status task = TaskFailed \<and> \<not> sub64 MaxInt64 delay < ts_FinishedAt task \<and>
               tm_Deadline timer = add64 (ts_FinishedAt task) delay \<and>
               tm_ID timer = TimerID H (wf_ID state) (tm_TaskID timer)
                 (timer_purpose_string TimerRetry) (ts_Attempt task) \<and>
               tm_AttemptID timer = ts_AttemptID task \<and> tm_Attempt timer = ts_Attempt task \<and>
               tm_Fence timer = ts_Fence task)
      | TimerTimeout \<Rightarrow>
          (case task_at state (tm_TaskID timer) of
             None \<Rightarrow> False
           | Some task \<Rightarrow>
               let timeout = td_TimeoutMillis (ts_Definition task) in
               (ts_Status task = TaskRunning \<or>
                ts_Status task = TaskCompensating \<and> ts_WorkerID task \<noteq> '''') \<and>
               0 < timeout \<and> \<not> sub64 MaxInt64 timeout < ts_StartedAt task \<and>
               tm_Deadline timer = add64 (ts_StartedAt task) timeout \<and>
               ts_LeaseUntil task \<le> tm_Deadline timer \<and>
               tm_ID timer = TimerID H (wf_ID state) (tm_TaskID timer)
                 (timer_purpose_string TimerTimeout) (ts_Attempt task) \<and>
               tm_AttemptID timer = ts_AttemptID task \<and> tm_Attempt timer = ts_Attempt task \<and>
               tm_Fence timer = ts_Fence task)
      | PurposeOther _ \<Rightarrow> False)"

definition applyTimerScheduled :: "digest \<Rightarrow> WorkflowState \<Rightarrow> Event \<Rightarrow> err + WorkflowState" where
  "applyTimerScheduled H state event =
     (case ev_Timer event of
        None \<Rightarrow> Inl ErrInvalidTransition
      | Some timer \<Rightarrow>
          if tm_Status timer \<noteq> TimerScheduled \<or> tm_ID timer = '''' \<or> tm_Deadline timer < ev_At event \<or>
             \<not> timerEventMatches event timer
          then Inl ErrInvalidTransition
          else if timer_at state (tm_ID timer) \<noteq> None then Inl ErrInvalidTransition
          else if \<not> timer_accepted H state timer then Inl ErrInvalidTransition
          else Inr (put_timer (tm_ID timer) timer state))"

definition applyTimerTransition :: "WorkflowState \<Rightarrow> Event \<Rightarrow> TimerStatus \<Rightarrow> err + WorkflowState" where
  "applyTimerTransition state event status =
     (case ev_Timer event of
        None \<Rightarrow> Inl ErrInvalidTransition
      | Some timer \<Rightarrow>
          if tm_Status timer \<noteq> status \<or> \<not> timerEventMatches event timer then Inl ErrInvalidTransition
          else case timer_at state (tm_ID timer) of
            None \<Rightarrow> Inl ErrInvalidTransition
          | Some current \<Rightarrow>
              if tm_Status current \<noteq> TimerScheduled then Inl ErrInvalidTransition
              else
                let expected = current\<lparr>tm_Status := status\<rparr> in
                if expected \<noteq> timer then Inl ErrInvalidTransition
                else if status = TimerFired \<and> ev_At event < tm_Deadline current then Inl ErrInvalidTransition
                else Inr (put_timer (tm_ID current) expected state))"

definition applyWorkflowStarted :: "WorkflowState \<Rightarrow> Event \<Rightarrow> err + WorkflowState" where
  "applyWorkflowStarted state event =
     (case ev_Timer event of
        None \<Rightarrow> Inl ErrInvalidTransition
      | Some t \<Rightarrow>
          if wf_Status state \<noteq> WorkflowScheduled \<or> tm_Purpose t \<noteq> TimerWorkflowStart
          then Inl ErrInvalidTransition
          else case timer_at state (tm_ID t) of
            None \<Rightarrow> Inl ErrInvalidTransition
          | Some timer \<Rightarrow>
              if tm_Status timer \<noteq> TimerFired then Inl ErrInvalidTransition
              else Inr (state\<lparr>wf_Status := WorkflowRunning\<rparr>))"

text \<open>
  One round of the loop over the expanded tasks; the accumulator is the loop index, the previous key,
  the identifiers collected in \<^verbatim>\<open>children\<close> and the state with the tasks inserted so far.
\<close>

definition expand_one ::
    "digest \<Rightarrow> TaskState \<Rightarrow> nat \<times> string \<times> string list \<times> WorkflowState \<Rightarrow> ExpandedTask \<Rightarrow>
     err + nat \<times> string \<times> string list \<times> WorkflowState" where
  "expand_one H parent acc expanded =
     (case acc of (index, previous, children, state) \<Rightarrow>
        if 0 < index \<and> xt_Key expanded \<le> previous \<or> \<not> validateExpandedTask H parent expanded (wf_ID state)
        then Inl ErrInvalidTransition
        else if task_at state (td_ID (xt_Definition expanded)) \<noteq> None then Inl ErrInvalidTransition
        else Inr (Suc index, xt_Key expanded, children @ [td_ID (xt_Definition expanded)],
          put_task (td_ID (xt_Definition expanded))
            (zero_TaskState\<lparr>ts_Definition := cloneTaskDefinition (xt_Definition expanded),
               ts_Status := TaskPending, ts_Payload := cloneMap (xt_Payload expanded)\<rparr>) state))"

text \<open>\<^verbatim>\<open>append(slice, values...)\<close>: appending nothing to the nil slice leaves it nil.\<close>

definition append_slice :: "'a slice \<Rightarrow> 'a list \<Rightarrow> 'a slice" where
  "append_slice xs values = (if values = [] then xs else Some (elems xs @ values))"

definition applyFanoutExpanded :: "digest \<Rightarrow> WorkflowState \<Rightarrow> Event \<Rightarrow> err + WorkflowState" where
  "applyFanoutExpanded H state event =
     (if wf_Status state \<noteq> WorkflowRunning then Inl ErrInvalidTransition
      else case task_at state (ev_TaskID event) of
        None \<Rightarrow> Inl ErrInvalidTransition
      | Some parent \<Rightarrow>
          (case td_Fanout (ts_Definition parent) of
             None \<Rightarrow> Inl ErrInvalidTransition
           | Some fanout \<Rightarrow>
               if ts_Status parent \<noteq> TaskCompleted \<or> ts_FanoutExpanded parent \<or>
                  fd_MaxItems fanout < word_of_nat (length (elems (ev_ExpandedTasks event)))
               then Inl ErrInvalidTransition
               else bindE (foldE (expand_one H parent) (0, '''', [], state) (elems (ev_ExpandedTasks event)))
                 (\<lambda>(index, previous, children, state).
                   case task_at state (fd_AggregateTaskID fanout) of
                     None \<Rightarrow> Inl ErrInvalidTransition
                   | Some aggregate \<Rightarrow>
                       if ts_Status aggregate \<noteq> TaskPending \<or>
                          \<not> containsString (deps (ts_Definition aggregate)) (ev_TaskID event)
                       then Inl ErrInvalidTransition
                       else
                         let definition = cloneTaskDefinition (ts_Definition aggregate);
                             definition = definition\<lparr>td_Dependencies :=
                               map_option sort (append_slice (td_Dependencies definition) children)\<rparr>
                         in Inr (put_task (ev_TaskID event)
                              (parent\<lparr>ts_Children := (if children = [] then None else Some children),
                                      ts_FanoutExpanded := True\<rparr>)
                              (put_task (fd_AggregateTaskID fanout) (aggregate\<lparr>ts_Definition := definition\<rparr>)
                                 state)))))"

definition applyTaskRetryScheduled :: "WorkflowState \<Rightarrow> Event \<Rightarrow> err + WorkflowState" where
  "applyTaskRetryScheduled state event =
     (case task_at state (ev_TaskID event) of
        None \<Rightarrow> Inl ErrInvalidTransition
      | Some task \<Rightarrow>
          if ts_Status task \<noteq> TaskFailed \<or> ts_Compensation task \<noteq> ev_Compensation event
          then Inl ErrInvalidTransition
          else case ev_Timer event of
            None \<Rightarrow> Inl ErrInvalidTransition
          | Some t \<Rightarrow>
              (case timer_at state (tm_ID t) of
                 None \<Rightarrow> Inl ErrInvalidTransition
               | Some timer \<Rightarrow>
                   if tm_Status timer \<noteq> TimerScheduled \<or> tm_Purpose timer \<noteq> TimerRetry \<or>
                      tm_TaskID timer \<noteq> ev_TaskID event \<or> ev_AttemptID event \<noteq> tm_AttemptID timer \<or>
                      ev_Attempt event \<noteq> tm_Attempt timer \<or> ev_Fence event \<noteq> tm_Fence timer \<or>
                      rp_MaxAttempts (td_Retry (ts_Definition task)) \<le> ts_RetryCount task + 1
                   then Inl ErrInvalidTransition
                   else Inr (put_task (ev_TaskID event)
                     (task\<lparr>ts_Status := TaskPending, ts_RetryCount := ts_RetryCount task + 1,
                           ts_AttemptID := '''', ts_Inputs := [], ts_StartedAt := 0, ts_WorkerID := '''',
                           ts_LeaseUntil := 0\<rparr>) state)))"

definition applyTaskTimedOut :: "digest \<Rightarrow> WorkflowState \<Rightarrow> Event \<Rightarrow> err + WorkflowState" where
  "applyTaskTimedOut H state event =
     (case task_at state (ev_TaskID event) of
        None \<Rightarrow> Inl ErrInvalidTransition
      | Some task \<Rightarrow>
          let leased =
            (wf_Status state = WorkflowRunning \<and> ts_Status task = TaskRunning \<and> \<not> ev_Compensation event \<or>
             wf_Status state = WorkflowCompensating \<and> ts_Status task = TaskCompensating \<and>
             ts_WorkerID task \<noteq> '''' \<and> ev_Compensation event)
          in if \<not> leased \<or> \<not> same_attempt task event then Inl ErrInvalidTransition
          else case timer_at state
              (TimerID H (wf_ID state) (ev_TaskID event) (timer_purpose_string TimerTimeout) (ev_Attempt event)) of
            None \<Rightarrow> Inl ErrInvalidTransition
          | Some timer \<Rightarrow>
              if tm_Status timer \<noteq> TimerFired \<or> ev_At event < tm_Deadline timer \<or>
                 ts_LeaseUntil task < tm_Deadline timer \<or> tm_AttemptID timer \<noteq> ev_AttemptID event \<or>
                 tm_Fence timer \<noteq> ev_Fence event
              then Inl ErrInvalidTransition
              else Inr (put_task (ev_TaskID event)
                (task\<lparr>ts_Status := TaskFailed, ts_Error := ev_Error event, ts_FinishedAt := ev_At event,
                      ts_Compensation := ev_Compensation event\<rparr>) state))"

definition cancel_guard :: "TaskState \<Rightarrow> Event \<Rightarrow> err + unit" where
  "cancel_guard task event =
     (case ts_Status task of
        TaskPending \<Rightarrow> Inr ()
      | TaskReady \<Rightarrow> Inr ()
      | TaskRunning \<Rightarrow>
          if ts_AttemptID task \<noteq> ev_AttemptID event \<or> ts_WorkerID task \<noteq> ev_WorkerID event \<or>
             ts_Fence task \<noteq> ev_Fence event
          then Inl ErrFenced else Inr ()
      | _ \<Rightarrow> Inl ErrInvalidTransition)"

definition applyTaskCancelled :: "WorkflowState \<Rightarrow> Event \<Rightarrow> err + WorkflowState" where
  "applyTaskCancelled state event =
     (if wf_Status state \<noteq> WorkflowScheduled \<and> wf_Status state \<noteq> WorkflowRunning
        then Inl ErrInvalidTransition
      else case task_at state (ev_TaskID event) of
        None \<Rightarrow> Inl ErrInvalidTransition
      | Some task \<Rightarrow>
          bindE (cancel_guard task event) (\<lambda>_.
            Inr (put_task (ev_TaskID event)
              (task\<lparr>ts_Status := TaskCancelled, ts_FinishedAt := ev_At event, ts_WorkerID := '''',
                    ts_LeaseUntil := 0, ts_Compensation := False\<rparr>) state)))"

definition applyWorkflowCancellationRequested :: "WorkflowState \<Rightarrow> err + WorkflowState" where
  "applyWorkflowCancellationRequested state =
     (if wf_Status state \<noteq> WorkflowScheduled \<and> wf_Status state \<noteq> WorkflowRunning
      then Inl ErrInvalidTransition else Inr state)"

definition applyWorkflowCompensating :: "WorkflowState \<Rightarrow> Event \<Rightarrow> err + WorkflowState" where
  "applyWorkflowCompensating state event =
     (if wf_Status state \<noteq> WorkflowRunning \<and> wf_Status state \<noteq> WorkflowCompensating \<or>
         nextCompensation state \<noteq> ev_TaskID event
      then Inl ErrInvalidTransition
      else
        let task = task_or_zero state (ev_TaskID event) in
        Inr (put_task (ev_TaskID event)
          (task\<lparr>ts_Status := TaskCompensating, ts_RetryCount := 0, ts_Payload := cloneMap (ts_Output task),
                ts_Compensation := True, ts_AttemptID := '''', ts_Inputs := [], ts_StartedAt := 0,
                ts_FinishedAt := 0, ts_WorkerID := '''', ts_LeaseUntil := 0, ts_Idempotency := ''''\<rparr>)
          (state\<lparr>wf_Status := WorkflowCompensating\<rparr>)))"

definition applyTaskCompensated :: "WorkflowState \<Rightarrow> Event \<Rightarrow> err + WorkflowState" where
  "applyTaskCompensated state event =
     (case task_at state (ev_TaskID event) of
        None \<Rightarrow> Inl ErrInvalidTransition
      | Some task \<Rightarrow>
          if wf_Status state \<noteq> WorkflowCompensating \<or> ts_Status task \<noteq> TaskCompensating \<or>
             ts_WorkerID task = '''' \<or> \<not> ts_Compensation task \<or> \<not> ev_Compensation event \<or>
             \<not> same_attempt task event \<or> ts_LeaseUntil task \<le> ev_At event
          then Inl ErrInvalidTransition
          else if timeout_blocks state (ev_TaskID event) (ev_AttemptID event)
             (\<lambda>timer. tm_Deadline timer \<le> ev_At event)
          then Inl ErrInvalidTransition
          else Inr (put_task (ev_TaskID event)
            (task\<lparr>ts_Status := TaskCompensated, ts_FinishedAt := ev_At event, ts_WorkerID := '''',
                  ts_LeaseUntil := 0, ts_Compensation := False\<rparr>) state))"

definition applyWorkflowCancelled :: "WorkflowState \<Rightarrow> err + WorkflowState" where
  "applyWorkflowCancelled state =
     (if wf_Status state \<noteq> WorkflowScheduled \<and> wf_Status state \<noteq> WorkflowRunning \<or>
         nextCompensation state \<noteq> '''' \<or> hasActiveState state \<or> hasScheduledTimers state
      then Inl ErrInvalidTransition
      else Inr (state\<lparr>wf_Status := WorkflowCancelled\<rparr>))"

definition applyWorkflowCompensated :: "WorkflowState \<Rightarrow> err + WorkflowState" where
  "applyWorkflowCompensated state =
     (if wf_Status state \<noteq> WorkflowCompensating \<or> nextCompensation state \<noteq> '''' \<or>
         hasActiveState state \<or> hasScheduledTimers state
      then Inl ErrInvalidTransition
      else Inr (state\<lparr>wf_Status := WorkflowCompensated\<rparr>))"

section \<open>The reducer\<close>

text \<open>The \<^verbatim>\<open>switch\<close> of \<^verbatim>\<open>applyEvent\<close> on the kind of the event.\<close>

definition dispatch :: "digest \<Rightarrow> WorkflowState \<Rightarrow> Event \<Rightarrow> err + WorkflowState" where
  "dispatch H next event =
     (case ev_Kind event of
        EventTaskReady \<Rightarrow> applyReady next event
      | EventTaskStarted \<Rightarrow> applyStarted H next event
      | EventTaskCompleted \<Rightarrow> applyCompleted next event
      | EventTaskFailed \<Rightarrow> applyFailed next event
      | EventWorkflowCompleted \<Rightarrow> applyWorkflowCompleted next
      | EventWorkflowFailed \<Rightarrow> applyWorkflowFailed next event
      | EventLeaseRenewed \<Rightarrow> applyRenewed next event
      | EventLeaseExpired \<Rightarrow> applyExpired next event
      | EventWorkflowStarted \<Rightarrow> applyWorkflowStarted next event
      | EventFanoutExpanded \<Rightarrow> applyFanoutExpanded H next event
      | EventTimerScheduled \<Rightarrow> applyTimerScheduled H next event
      | EventTimerFired \<Rightarrow> applyTimerTransition next event TimerFired
      | EventTimerCancelled \<Rightarrow> applyTimerTransition next event TimerCancelled
      | EventTaskRetryScheduled \<Rightarrow> applyTaskRetryScheduled next event
      | EventTaskTimedOut \<Rightarrow> applyTaskTimedOut H next event
      | EventTaskCancelled \<Rightarrow> applyTaskCancelled next event
      | EventWorkflowCancellationRequested \<Rightarrow> applyWorkflowCancellationRequested next
      | EventWorkflowCompensating \<Rightarrow> applyWorkflowCompensating next event
      | EventTaskCompensated \<Rightarrow> applyTaskCompensated next event
      | EventWorkflowCancelled \<Rightarrow> applyWorkflowCancelled next
      | EventWorkflowCompensated \<Rightarrow> applyWorkflowCompensated next
      | EventWorkflowSubmitted \<Rightarrow> Inl ErrInvalidTransition
      | EventOther _ \<Rightarrow> Inl ErrInvalidTransition)"

definition applyEvent :: "digest \<Rightarrow> WorkflowState option \<Rightarrow> Event \<Rightarrow> bool \<Rightarrow> err + WorkflowState" where
  "applyEvent H state event isolated =
     (if blank (ev_WorkflowID event) \<or> blank (ev_RequestID event) \<or> ev_RequestHash event = '''' \<or>
         ev_At event < 0
      then Inl ErrInvalidTransition
      else if ev_Sequence event = 0 \<or>
         ev_ID event \<noteq> EventID H (ev_WorkflowID event) (ev_Sequence event) (ev_Kind event)
      then Inl ErrSequence
      else case state of
        None \<Rightarrow>
          if ev_Kind event \<noteq> EventWorkflowSubmitted \<or> ev_Sequence event \<noteq> 1 then Inl ErrSequence
          else applySubmission event
      | Some current \<Rightarrow>
          if ev_WorkflowID event \<noteq> wf_ID current \<or> ev_Sequence event \<noteq> wf_Version current + 1
          then Inl ErrSequence
          else if ev_At event < wf_UpdatedAt current then Inl ErrTimeRegression
          else
            let next = (if isolated then the (cloneState state) else current) in
            bindE (dispatch H next event) (\<lambda>next.
              Inr (next\<lparr>wf_Version := ev_Sequence event, wf_UpdatedAt := ev_At event\<rparr>)))"

definition Apply :: "digest \<Rightarrow> WorkflowState option \<Rightarrow> Event \<Rightarrow> err + WorkflowState" where
  "Apply H state event = applyEvent H state event True"

definition apply_next :: "digest \<Rightarrow> WorkflowState option \<Rightarrow> Event \<Rightarrow> err + WorkflowState option" where
  "apply_next H state event = bindE (applyEvent H state event False) (\<lambda>next. Inr (Some next))"

definition applyOwnedEvents :: "digest \<Rightarrow> WorkflowState option \<Rightarrow> Event list \<Rightarrow> err + WorkflowState option" where
  "applyOwnedEvents H state events = foldE (apply_next H) state events"

section \<open>Reading accepted events back\<close>

text \<open>
  \<open>task_event s e t t' s'\<close>: the event is about task \<open>t\<close> of \<open>s\<close>, and \<open>s'\<close> is \<open>s\<close> with that task
  replaced by \<open>t'\<close>.
\<close>

definition task_event :: "WorkflowState \<Rightarrow> Event \<Rightarrow> TaskState \<Rightarrow> TaskState \<Rightarrow> WorkflowState \<Rightarrow> bool" where
  "task_event s e t t' s' \<longleftrightarrow> task_at s (ev_TaskID e) = Some t \<and> s' = put_task (ev_TaskID e) t' s"

text \<open>The conditions under which an attempt may start, and the attempt it starts.\<close>

definition start_granted :: "digest \<Rightarrow> WorkflowState \<Rightarrow> Event \<Rightarrow> TaskState \<Rightarrow> bool" where
  "start_granted H s e t \<longleftrightarrow>
     ts_Attempt t \<noteq> MaxUint32 \<and> ts_Fence t \<noteq> MaxUint64 \<and>
     ev_AttemptID e = AttemptID H (wf_ID s) (ev_TaskID e) (ts_Attempt t + 1) \<and>
     \<not> blank (ev_WorkerID e) \<and> ev_At e < ev_LeaseUntil e \<and>
     (0 < td_TimeoutMillis (ts_Definition t) \<longrightarrow>
        ev_At e \<le> sub64 MaxInt64 (td_TimeoutMillis (ts_Definition t)) \<and>
        ev_LeaseUntil e \<le> add64 (ev_At e) (td_TimeoutMillis (ts_Definition t)))"

definition started_task :: "Event \<Rightarrow> TaskState \<Rightarrow> TaskState" where
  "started_task e t =
     t\<lparr>ts_Attempt := ts_Attempt t + 1, ts_AttemptID := ev_AttemptID e, ts_Inputs := ev_Inputs e,
       ts_StartedAt := ev_At e, ts_WorkerID := ev_WorkerID e, ts_LeaseUntil := ev_LeaseUntil e,
       ts_Fence := ts_Fence t + 1, ts_Idempotency := ev_Idempotency e, ts_Error := ''''\<rparr>"

lemma started_task_fields [simp]:
  "ts_Definition (started_task e t) = ts_Definition t" "ts_Status (started_task e t) = ts_Status t"
  "ts_Attempt (started_task e t) = ts_Attempt t + 1" "ts_AttemptID (started_task e t) = ev_AttemptID e"
  "ts_StartedAt (started_task e t) = ev_At e" "ts_WorkerID (started_task e t) = ev_WorkerID e"
  "ts_LeaseUntil (started_task e t) = ev_LeaseUntil e" "ts_Fence (started_task e t) = ts_Fence t + 1"
  "ts_Idempotency (started_task e t) = ev_Idempotency e" "ts_RetryCount (started_task e t) = ts_RetryCount t"
  "ts_CompletedSequence (started_task e t) = ts_CompletedSequence t"
  "ts_Children (started_task e t) = ts_Children t" "ts_Compensation (started_task e t) = ts_Compensation t"
  "ts_FanoutExpanded (started_task e t) = ts_FanoutExpanded t" "ts_Output (started_task e t) = ts_Output t"
  by (simp_all add: started_task_def)

definition released_task :: "TaskState \<Rightarrow> TaskState" where
  "released_task t = t\<lparr>ts_AttemptID := '''', ts_Inputs := [], ts_StartedAt := 0, ts_WorkerID := '''', ts_LeaseUntil := 0\<rparr>"

lemma released_task_fields [simp]:
  "ts_Definition (released_task t) = ts_Definition t" "ts_Status (released_task t) = ts_Status t"
  "ts_Attempt (released_task t) = ts_Attempt t" "ts_AttemptID (released_task t) = ''''"
  "ts_StartedAt (released_task t) = 0" "ts_WorkerID (released_task t) = ''''"
  "ts_LeaseUntil (released_task t) = 0" "ts_Fence (released_task t) = ts_Fence t"
  "ts_Idempotency (released_task t) = ts_Idempotency t" "ts_RetryCount (released_task t) = ts_RetryCount t"
  "ts_CompletedSequence (released_task t) = ts_CompletedSequence t"
  "ts_Children (released_task t) = ts_Children t" "ts_Compensation (released_task t) = ts_Compensation t"
  "ts_FanoutExpanded (released_task t) = ts_FanoutExpanded t" "ts_Output (released_task t) = ts_Output t"
  by (simp_all add: released_task_def)

lemma same_status: "ts_Status t = x \<Longrightarrow> t\<lparr>ts_Status := x\<rparr> = t"
  by (cases t) simp

lemma applyReady_Inr [applied]:
  "applyReady s e = Inr s' \<Longrightarrow>
   \<exists>t. task_event s e t (t\<lparr>ts_Status := (if ts_Compensation t then TaskCompensating else TaskReady)\<rparr>) s' \<and>
     ts_Status t = TaskPending \<and> scheduledTimer s TimerRetry (ev_TaskID e) '''' = None \<and>
     (if ts_Compensation t then wf_Status s = WorkflowCompensating
      else wf_Status s = WorkflowRunning \<and> dependencies_completed s t)"
  by (auto simp: applyReady_def task_event_def split: option.splits if_splits)

lemma applyStarted_Inr [applied]:
  "applyStarted H s e = Inr s' \<Longrightarrow>
   \<exists>t. task_event s e t (started_task e (if ts_Compensation t then t else t\<lparr>ts_Status := TaskRunning\<rparr>)) s' \<and>
     start_granted H s e t \<and> ev_Compensation e = ts_Compensation t \<and>
     (if ts_Compensation t
      then wf_Status s = WorkflowCompensating \<and> ts_Status t = TaskCompensating \<and> ts_WorkerID t = '''' \<and>
        ev_Idempotency e = CompensationIdempotencyKey H (wf_ID s) (ev_TaskID e)
      else wf_Status s = WorkflowRunning \<and> ts_Status t = TaskReady \<and>
        ev_Idempotency e = IdempotencyKey H (wf_ID s) (ev_TaskID e))"
  by (auto simp: applyStarted_def task_event_def started_task_def start_granted_def same_status Let_def
      not_less not_le split: option.splits if_splits)

lemma applyCompleted_Inr [applied]:
  "applyCompleted s e = Inr s' \<Longrightarrow>
   \<exists>t. task_event s e t
        (t\<lparr>ts_Status := TaskCompleted, ts_Output := ev_Output e, ts_FinishedAt := ev_At e,
           ts_CompletedSequence := ev_Sequence e\<rparr>) s' \<and>
     wf_Status s = WorkflowRunning \<and> ts_Status t = TaskRunning \<and> \<not> ts_Compensation t \<and>
     \<not> ev_Compensation e \<and> same_attempt t e \<and> ev_At e < ts_LeaseUntil t \<and>
     \<not> timeout_blocks s (ev_TaskID e) (ev_AttemptID e) (\<lambda>timer. tm_Deadline timer \<le> ev_At e)"
  by (auto simp: applyCompleted_def task_event_def not_le split: option.splits if_splits)

lemma applyFailed_Inr [applied]:
  "applyFailed s e = Inr s' \<Longrightarrow>
   \<exists>t. task_event s e t (t\<lparr>ts_Status := TaskFailed, ts_Error := ev_Error e, ts_FinishedAt := ev_At e,
           ts_Compensation := ev_Compensation e\<rparr>) s' \<and>
     (forward_lease s t e \<or> compensation_lease s t e) \<and> same_attempt t e \<and> ev_At e < ts_LeaseUntil t"
  by (auto simp: applyFailed_def task_event_def not_le forward_lease_def compensation_lease_def
      split: option.splits if_splits)

lemma applyRenewed_Inr [applied]:
  "applyRenewed s e = Inr s' \<Longrightarrow>
   \<exists>t. task_event s e t (t\<lparr>ts_LeaseUntil := ev_LeaseUntil e\<rparr>) s' \<and>
     (forward_lease s t e \<or> compensation_lease s t e) \<and> same_attempt t e \<and>
     ev_At e < ts_LeaseUntil t \<and> ts_LeaseUntil t < ev_LeaseUntil e \<and>
     \<not> timeout_blocks s (ev_TaskID e) (ev_AttemptID e) (\<lambda>timer. tm_Deadline timer < ev_LeaseUntil e)"
  by (auto simp: applyRenewed_def task_event_def not_le split: option.splits if_splits)

lemma applyExpired_Inr [applied]:
  "applyExpired s e = Inr s' \<Longrightarrow>
   \<exists>t. task_event s e t (released_task (if ts_Compensation t then t else t\<lparr>ts_Status := TaskReady\<rparr>)) s' \<and>
     (forward_lease s t e \<or> compensation_lease s t e) \<and> same_attempt t e \<and> ts_LeaseUntil t \<le> ev_At e"
  by (auto simp: applyExpired_def task_event_def not_less forward_lease_def compensation_lease_def
      released_task_def same_status split: option.splits if_splits)

lemma applyWorkflowCompleted_Inr [applied]:
  "applyWorkflowCompleted s = Inr s' \<Longrightarrow>
   wf_Status s = WorkflowRunning \<and> (\<forall>t \<in> snd ` set (wf_Tasks s). ts_Status t = TaskCompleted) \<and>
   \<not> hasScheduledTimers s \<and> s' = s\<lparr>wf_Status := WorkflowCompleted\<rparr>"
  by (auto simp: applyWorkflowCompleted_def list_ex_iff split: if_splits)

lemma applyWorkflowFailed_Inr [applied]:
  "applyWorkflowFailed s e = Inr s' \<Longrightarrow>
   wf_Status s \<in> {WorkflowRunning, WorkflowCompensating} \<and> \<not> hasActiveState s \<and> \<not> hasScheduledTimers s \<and>
   (\<exists>t. task_at s (ev_TaskID e) = Some t \<and> ts_Status t = TaskFailed) \<and> s' = s\<lparr>wf_Status := WorkflowFailed\<rparr>"
  by (auto simp: applyWorkflowFailed_def split: if_splits option.splits)

lemma applyTimerScheduled_Inr [applied]:
  "applyTimerScheduled H s e = Inr s' \<Longrightarrow>
   \<exists>timer. ev_Timer e = Some timer \<and> tm_Status timer = TimerScheduled \<and> tm_ID timer \<noteq> '''' \<and>
     ev_At e \<le> tm_Deadline timer \<and> timerEventMatches e timer \<and> timer_at s (tm_ID timer) = None \<and>
     timer_accepted H s timer \<and> s' = put_timer (tm_ID timer) timer s"
  by (auto simp: applyTimerScheduled_def not_less split: if_splits option.splits)

lemma applyTimerTransition_Inr [applied]:
  assumes "applyTimerTransition s e status = Inr s'"
  shows "\<exists>timer. timer_at s (tm_ID timer) = Some timer \<and> tm_Status timer = TimerScheduled \<and>
     ev_Timer e = Some (timer\<lparr>tm_Status := status\<rparr>) \<and>
     (status = TimerFired \<longrightarrow> tm_Deadline timer \<le> ev_At e) \<and>
     s' = put_timer (tm_ID timer) (timer\<lparr>tm_Status := status\<rparr>) s"
proof -
  note d = applyTimerTransition_def Let_def
  from assms obtain u where u: "ev_Timer e = Some u" by (cases "ev_Timer e") (simp_all add: d)
  with assms obtain timer where t: "timer_at s (tm_ID u) = Some timer"
    by (cases "timer_at s (tm_ID u)") (simp_all add: d split: if_splits)
  have g: "tm_Status timer = TimerScheduled" "timer\<lparr>tm_Status := status\<rparr> = u"
    "status = TimerFired \<longrightarrow> tm_Deadline timer \<le> ev_At e"
    "s' = put_timer (tm_ID timer) (timer\<lparr>tm_Status := status\<rparr>) s"
    using assms u t by (auto simp: d not_less split: if_splits)
  have "tm_ID u = tm_ID timer" unfolding g(2) [symmetric] by simp
  with u t g show ?thesis by auto
qed

lemma applyWorkflowStarted_Inr [applied]:
  "applyWorkflowStarted s e = Inr s' \<Longrightarrow>
   wf_Status s = WorkflowScheduled \<and> s' = s\<lparr>wf_Status := WorkflowRunning\<rparr> \<and>
   (\<exists>t timer. ev_Timer e = Some t \<and> tm_Purpose t = TimerWorkflowStart \<and>
      timer_at s (tm_ID t) = Some timer \<and> tm_Status timer = TimerFired)"
  by (auto simp: applyWorkflowStarted_def split: if_splits option.splits)

lemma applyTaskRetryScheduled_Inr [applied]:
  "applyTaskRetryScheduled s e = Inr s' \<Longrightarrow>
   \<exists>t. task_event s e t (released_task (t\<lparr>ts_Status := TaskPending, ts_RetryCount := ts_RetryCount t + 1\<rparr>)) s' \<and>
     ts_Status t = TaskFailed \<and> ts_RetryCount t + 1 < rp_MaxAttempts (td_Retry (ts_Definition t)) \<and>
     ts_Compensation t = ev_Compensation e \<and>
     (\<exists>u timer. ev_Timer e = Some u \<and> timer_at s (tm_ID u) = Some timer \<and> tm_Status timer = TimerScheduled \<and>
        tm_Purpose timer = TimerRetry \<and> tm_TaskID timer = ev_TaskID e)"
  by (auto simp: applyTaskRetryScheduled_def task_event_def not_le released_task_def
      split: if_splits option.splits)

lemma applyTaskTimedOut_Inr [applied]:
  "applyTaskTimedOut H s e = Inr s' \<Longrightarrow>
   \<exists>t. task_event s e t
        (t\<lparr>ts_Status := TaskFailed, ts_Error := ev_Error e, ts_FinishedAt := ev_At e,
           ts_Compensation := ev_Compensation e\<rparr>) s' \<and>
     (wf_Status s = WorkflowRunning \<and> ts_Status t = TaskRunning \<and> \<not> ev_Compensation e \<or>
      wf_Status s = WorkflowCompensating \<and> ts_Status t = TaskCompensating \<and> ts_WorkerID t \<noteq> '''' \<and>
      ev_Compensation e) \<and> same_attempt t e \<and>
     (\<exists>timer. timer_at s (TimerID H (wf_ID s) (ev_TaskID e) (timer_purpose_string TimerTimeout) (ev_Attempt e))
        = Some timer \<and> tm_Status timer = TimerFired \<and> tm_Deadline timer \<le> ev_At e \<and>
        tm_Deadline timer \<le> ts_LeaseUntil t)"
  by (auto simp: applyTaskTimedOut_def task_event_def Let_def not_less split: if_splits option.splits)

lemma applyTaskCancelled_Inr [applied]:
  "applyTaskCancelled s e = Inr s' \<Longrightarrow>
   \<exists>t. task_event s e t
        (t\<lparr>ts_Status := TaskCancelled, ts_FinishedAt := ev_At e, ts_WorkerID := '''', ts_LeaseUntil := 0,
           ts_Compensation := False\<rparr>) s' \<and>
     wf_Status s \<in> {WorkflowScheduled, WorkflowRunning} \<and>
     ts_Status t \<in> {TaskPending, TaskReady, TaskRunning}"
  by (auto simp: applyTaskCancelled_def task_event_def cancel_guard_def result_simps
      split: if_splits option.splits TaskStatus.splits)

lemma applyWorkflowCompensating_Inr [applied]:
  "applyWorkflowCompensating s e = Inr s' \<Longrightarrow>
   wf_Status s \<in> {WorkflowRunning, WorkflowCompensating} \<and> nextCompensation s = ev_TaskID e \<and>
   (let t = task_or_zero s (ev_TaskID e) in
    s' = put_task (ev_TaskID e)
          (t\<lparr>ts_Status := TaskCompensating, ts_RetryCount := 0, ts_Payload := ts_Output t,
             ts_Compensation := True, ts_AttemptID := '''', ts_Inputs := [], ts_StartedAt := 0,
             ts_FinishedAt := 0, ts_WorkerID := '''', ts_LeaseUntil := 0, ts_Idempotency := ''''\<rparr>)
          (s\<lparr>wf_Status := WorkflowCompensating\<rparr>))"
  by (auto simp: applyWorkflowCompensating_def Let_def split: if_splits)

lemma applyTaskCompensated_Inr [applied]:
  "applyTaskCompensated s e = Inr s' \<Longrightarrow>
   \<exists>t. task_event s e t
        (t\<lparr>ts_Status := TaskCompensated, ts_FinishedAt := ev_At e, ts_WorkerID := '''', ts_LeaseUntil := 0,
           ts_Compensation := False\<rparr>) s' \<and>
     wf_Status s = WorkflowCompensating \<and> ts_Status t = TaskCompensating \<and> ts_WorkerID t \<noteq> '''' \<and>
     ts_Compensation t \<and> same_attempt t e \<and> ev_At e < ts_LeaseUntil t"
  by (auto simp: applyTaskCompensated_def task_event_def not_le split: if_splits option.splits)

lemma applyWorkflowEnd_Inr [applied]:
  "applyWorkflowCancelled s = Inr s' \<Longrightarrow>
   wf_Status s \<in> {WorkflowScheduled, WorkflowRunning} \<and> nextCompensation s = '''' \<and> \<not> hasActiveState s \<and>
   \<not> hasScheduledTimers s \<and> s' = s\<lparr>wf_Status := WorkflowCancelled\<rparr>"
  "applyWorkflowCompensated s = Inr s' \<Longrightarrow>
   wf_Status s = WorkflowCompensating \<and> nextCompensation s = '''' \<and> \<not> hasActiveState s \<and>
   \<not> hasScheduledTimers s \<and> s' = s\<lparr>wf_Status := WorkflowCompensated\<rparr>"
  "applyWorkflowCancellationRequested s = Inr s' \<Longrightarrow>
   wf_Status s \<in> {WorkflowScheduled, WorkflowRunning} \<and> s' = s"
  by (auto simp: applyWorkflowCancelled_def applyWorkflowCompensated_def
      applyWorkflowCancellationRequested_def split: if_splits)

section \<open>Fan-out expansion\<close>

abbreviation child_id :: "ExpandedTask \<Rightarrow> string" where
  "child_id x \<equiv> td_ID (xt_Definition x)"

definition child_state :: "ExpandedTask \<Rightarrow> TaskState" where
  "child_state x =
     zero_TaskState\<lparr>ts_Definition := cloneTaskDefinition (xt_Definition x), ts_Status := TaskPending,
       ts_Payload := xt_Payload x\<rparr>"

lemma expand_one_Inr:
  "expand_one H p (n, prev, cs, s) x = Inr r \<longleftrightarrow>
   (n = 0 \<or> prev < xt_Key x) \<and> validateExpandedTask H p x (wf_ID s) \<and> task_at s (child_id x) = None \<and>
   r = (Suc n, xt_Key x, cs @ [child_id x], put_task (child_id x) (child_state x) s)"
  by (auto simp: expand_one_def child_state_def)

definition put_children :: "ExpandedTask list \<Rightarrow> WorkflowState \<Rightarrow> WorkflowState" where
  "put_children xs s = fold (\<lambda>x. put_task (child_id x) (child_state x)) xs s"

lemma put_children_fields [simp]:
  "wf_ID (put_children xs s) = wf_ID s" "wf_Name (put_children xs s) = wf_Name s"
  "wf_Namespace (put_children xs s) = wf_Namespace s" "wf_Status (put_children xs s) = wf_Status s"
  "wf_Version (put_children xs s) = wf_Version s" "wf_UpdatedAt (put_children xs s) = wf_UpdatedAt s"
  "wf_Timers (put_children xs s) = wf_Timers s" "timer_at (put_children xs s) = timer_at s"
  by (induction xs arbitrary: s) (simp_all add: put_children_def)

lemma gomap_put_children: "gomap (wf_Tasks s) \<Longrightarrow> gomap (wf_Tasks (put_children xs s))"
  by (induction xs arbitrary: s) (simp_all add: put_children_def)

lemma task_at_put_children:
  "distinct (map child_id xs) \<Longrightarrow>
   (\<forall>x \<in> set xs. task_at (put_children xs s) (child_id x) = Some (child_state x)) \<and>
   (\<forall>i. i \<notin> child_id ` set xs \<longrightarrow> task_at (put_children xs s) i = task_at s i)"
proof (induction xs arbitrary: s)
  case (Cons x xs)
  from Cons.prems have "child_id x \<notin> child_id ` set xs" "distinct (map child_id xs)" by simp_all
  with Cons.IH [of "put_task (child_id x) (child_state x) s"] show ?case
    by (simp add: put_children_def)
qed (simp add: put_children_def)

lemma expand_all:
  assumes "foldE (expand_one H p) (n, prev, cs, s) xs = Inr (n', prev', cs', s')"
  shows "cs' = cs @ map child_id xs \<and> s' = put_children xs s \<and> distinct (map child_id xs) \<and>
    (\<forall>x \<in> set xs. validateExpandedTask H p x (wf_ID s) \<and> task_at s (child_id x) = None) \<and>
    sorted_wrt (\<lambda>x y. xt_Key x < xt_Key y) xs \<and> (0 < n \<longrightarrow> (\<forall>x \<in> set xs. prev < xt_Key x))"
  using assms
proof (induction xs arbitrary: n prev cs s)
  case (Cons x xs)
  let ?s = "put_task (child_id x) (child_state x) s"
  from Cons.prems have h: "n = 0 \<or> prev < xt_Key x" "validateExpandedTask H p x (wf_ID s)"
    "task_at s (child_id x) = None"
    and "foldE (expand_one H p) (Suc n, xt_Key x, cs @ [child_id x], ?s) xs = Inr (n', prev', cs', s')"
    by (auto simp: result_simps expand_one_Inr)
  from Cons.IH [OF this(4)] have ih: "cs' = (cs @ [child_id x]) @ map child_id xs" "s' = put_children xs ?s"
    "distinct (map child_id xs)" "sorted_wrt (\<lambda>x y. xt_Key x < xt_Key y) xs"
    "\<forall>y \<in> set xs. xt_Key x < xt_Key y"
    "\<forall>y \<in> set xs. validateExpandedTask H p y (wf_ID s) \<and> task_at ?s (child_id y) = None"
    by simp_all
  have "child_id x \<notin> child_id ` set xs" using ih(6) by (auto split: if_splits)
  moreover have "\<forall>y \<in> set xs. task_at s (child_id y) = None" using ih(6) by (auto split: if_splits)
  moreover have "s' = put_children (x # xs) s" using ih(2) by (simp add: put_children_def)
  ultimately show ?case using h ih by (auto intro: less_trans)
qed (simp add: put_children_def)

definition widen :: "string list \<Rightarrow> TaskState \<Rightarrow> TaskState" where
  "widen children t =
     t\<lparr>ts_Definition := (ts_Definition t)\<lparr>td_Dependencies :=
         map_option sort (append_slice (cloneStrings (td_Dependencies (ts_Definition t))) children)\<rparr>\<rparr>"

lemma widen_fields [simp]:
  "ts_Status (widen cs t) = ts_Status t" "ts_Attempt (widen cs t) = ts_Attempt t"
  "ts_AttemptID (widen cs t) = ts_AttemptID t" "ts_WorkerID (widen cs t) = ts_WorkerID t"
  "ts_LeaseUntil (widen cs t) = ts_LeaseUntil t" "ts_Fence (widen cs t) = ts_Fence t"
  "ts_RetryCount (widen cs t) = ts_RetryCount t" "ts_Compensation (widen cs t) = ts_Compensation t"
  "ts_CompletedSequence (widen cs t) = ts_CompletedSequence t" "ts_StartedAt (widen cs t) = ts_StartedAt t"
  "ts_Idempotency (widen cs t) = ts_Idempotency t" "ts_FinishedAt (widen cs t) = ts_FinishedAt t"
  "ts_Children (widen cs t) = ts_Children t" "ts_FanoutExpanded (widen cs t) = ts_FanoutExpanded t"
  "td_ID (ts_Definition (widen cs t)) = td_ID (ts_Definition t)"
  "td_Retry (ts_Definition (widen cs t)) = td_Retry (ts_Definition t)"
  "td_TimeoutMillis (ts_Definition (widen cs t)) = td_TimeoutMillis (ts_Definition t)"
  "td_Compensation (ts_Definition (widen cs t)) = td_Compensation (ts_Definition t)"
  "td_Fanout (ts_Definition (widen cs t)) = td_Fanout (ts_Definition t)"
  by (simp_all add: widen_def)

lemma deps_widen: "set (deps (ts_Definition (widen cs t))) = set (deps (ts_Definition t)) \<union> set cs"
  by (cases "td_Dependencies (ts_Definition t)")
    (auto simp: widen_def append_slice_def cloneStrings_def)

lemma sort_eq_Nil [simp]: "sort xs = [] \<longleftrightarrow> xs = []"
  by (metis length_0_conv length_sort)

lemma tidy_widen: "tidy_slice (td_Dependencies (ts_Definition (widen cs t)))"
  by (cases "td_Dependencies (ts_Definition t)")
    (auto simp: widen_def append_slice_def cloneStrings_def tidy_slice_def)

lemma applyFanoutExpanded_Inr [applied]:
  assumes "applyFanoutExpanded H s e = Inr s'"
  shows "\<exists>p f a. let xs = elems (ev_ExpandedTasks e); s1 = put_children xs s in
     wf_Status s = WorkflowRunning \<and> task_at s (ev_TaskID e) = Some p \<and> ts_Status p = TaskCompleted \<and>
     td_Fanout (ts_Definition p) = Some f \<and> \<not> ts_FanoutExpanded p \<and>
     (word_of_nat (length xs) :: uint32) \<le> fd_MaxItems f \<and> distinct (map child_id xs) \<and>
     (\<forall>x \<in> set xs. validateExpandedTask H p x (wf_ID s) \<and> task_at s (child_id x) = None) \<and>
     task_at s1 (fd_AggregateTaskID f) = Some a \<and> ts_Status a = TaskPending \<and>
     ev_TaskID e \<in> set (deps (ts_Definition a)) \<and>
     s' = put_task (ev_TaskID e)
            (p\<lparr>ts_Children := (if xs = [] then None else Some (map child_id xs)), ts_FanoutExpanded := True\<rparr>)
            (put_task (fd_AggregateTaskID f) (widen (map child_id xs) a) s1)"
proof -
  let ?xs = "elems (ev_ExpandedTasks e)"
  note d = applyFanoutExpanded_def
  from assms have run: "wf_Status s = WorkflowRunning" by (simp add: d split: if_splits)
  from assms run obtain p where p: "task_at s (ev_TaskID e) = Some p"
    by (cases "task_at s (ev_TaskID e)") (simp_all add: d)
  from assms run p obtain f where f: "td_Fanout (ts_Definition p) = Some f"
    by (cases "td_Fanout (ts_Definition p)") (simp_all add: d)
  from assms run p f have g: "ts_Status p = TaskCompleted" "\<not> ts_FanoutExpanded p"
    "\<not> fd_MaxItems f < word_of_nat (length ?xs)"
    by (auto simp: d split: if_splits)
  from assms run p f g obtain n prev cs s1
    where fold: "foldE (expand_one H p) (0, '''', [], s) ?xs = Inr (n, prev, cs, s1)"
    by (cases "foldE (expand_one H p) (0, '''', [], s) ?xs") (auto simp: d)
  note ex = expand_all [OF fold]
  from assms run p f g fold obtain a where a: "task_at s1 (fd_AggregateTaskID f) = Some a"
    by (cases "task_at s1 (fd_AggregateTaskID f)") (auto simp: d)
  from assms run p f g fold a
  have "ts_Status a = TaskPending" "ev_TaskID e \<in> set (deps (ts_Definition a))"
    "s' = put_task (ev_TaskID e)
            (p\<lparr>ts_Children := (if cs = [] then None else Some cs), ts_FanoutExpanded := True\<rparr>)
            (put_task (fd_AggregateTaskID f) (widen cs a) s1)"
    by (auto simp: d containsString_def list_ex_iff widen_def cloneTaskDefinition_eq Let_def split: if_splits)
  moreover have "(word_of_nat (length ?xs) :: uint32) \<le> fd_MaxItems f" using g(3) by simp
  ultimately show ?thesis using run p f g(1,2) ex a unfolding Let_def by auto
qed

end
