(* ===== verification/Chronos_Lifecycle.thy ===== *)
theory Chronos_Lifecycle
  imports Chronos_Reducer
begin

text \<open>
  The life cycle of tasks, timers and workflows as step relations, and the proof that the reducer
  refines them: whatever event is accepted, each task either stays as it is, takes one step of
  \<open>task_step\<close> or is a fan-out child that has just been created, each timer takes at most one step of
  \<open>timer_step\<close>, and the status of the workflow takes at most one step of \<open>status_step\<close>. Invariants of
  single tasks are then proved by one case analysis over \<open>task_step\<close> instead of one per handler.
\<close>

section \<open>The life cycle of a task\<close>

text \<open>A task holds a lease: it runs, or it is being compensated by a worker.\<close>

definition leased :: "TaskState \<Rightarrow> bool" where
  "leased t \<longleftrightarrow> ts_Status t = TaskRunning \<or> ts_Status t = TaskCompensating \<and> ts_WorkerID t \<noteq> ''''"

text \<open>The phase of the workflow in which the leased task \<open>t\<close> may make progress.\<close>

definition in_phase :: "WorkflowState \<Rightarrow> TaskState \<Rightarrow> bool" where
  "in_phase s t \<longleftrightarrow>
     wf_Status s = WorkflowRunning \<and> ts_Status t = TaskRunning \<or>
     wf_Status s = WorkflowCompensating \<and> ts_Status t = TaskCompensating \<and> ts_WorkerID t \<noteq> ''''"

text \<open>The identifiers of the tasks a fan-out event creates.\<close>

definition new_children :: "Event \<Rightarrow> string list" where
  "new_children e = map child_id (elems (ev_ExpandedTasks e))"

inductive task_step :: "digest \<Rightarrow> WorkflowState \<Rightarrow> Event \<Rightarrow> TaskState \<Rightarrow> TaskState \<Rightarrow> bool"
  for H s e where
  ready: "\<lbrakk>ts_Status t = TaskPending; \<not> ts_Compensation t; wf_Status s = WorkflowRunning;
      dependencies_completed s t; ev_Kind e = EventTaskReady\<rbrakk>
    \<Longrightarrow> task_step H s e t (t\<lparr>ts_Status := TaskReady\<rparr>)"
| resume: "\<lbrakk>ts_Status t = TaskPending; ts_Compensation t; wf_Status s = WorkflowCompensating;
      ev_Kind e = EventTaskReady\<rbrakk>
    \<Longrightarrow> task_step H s e t (t\<lparr>ts_Status := TaskCompensating\<rparr>)"
| start: "\<lbrakk>ts_Status t = TaskReady; \<not> ts_Compensation t; wf_Status s = WorkflowRunning;
      start_granted H s e t; ev_Kind e = EventTaskStarted;
      ev_Idempotency e = IdempotencyKey H (wf_ID s) (ev_TaskID e)\<rbrakk>
    \<Longrightarrow> task_step H s e t (started_task e (t\<lparr>ts_Status := TaskRunning\<rparr>))"
| start_compensation: "\<lbrakk>ts_Status t = TaskCompensating; ts_WorkerID t = ''''; ts_Compensation t;
      wf_Status s = WorkflowCompensating; start_granted H s e t; ev_Kind e = EventTaskStarted;
      ev_Idempotency e = CompensationIdempotencyKey H (wf_ID s) (ev_TaskID e)\<rbrakk>
    \<Longrightarrow> task_step H s e t (started_task e t)"
| complete: "\<lbrakk>wf_Status s = WorkflowRunning; ts_Status t = TaskRunning; \<not> ts_Compensation t;
      same_attempt t e; ev_At e < ts_LeaseUntil t; ev_Kind e = EventTaskCompleted;
      \<not> timeout_blocks s (ev_TaskID e) (ev_AttemptID e) (\<lambda>timer. tm_Deadline timer \<le> ev_At e)\<rbrakk>
    \<Longrightarrow> task_step H s e t
        (t\<lparr>ts_Status := TaskCompleted, ts_Output := ev_Output e, ts_FinishedAt := ev_At e,
           ts_CompletedSequence := ev_Sequence e\<rparr>)"
| fail: "\<lbrakk>ts_Status t = TaskRunning; wf_Status s = WorkflowRunning; \<not> ev_Compensation e; same_attempt t e;
      ev_Kind e = EventTaskFailed \<and> ev_At e < ts_LeaseUntil t \<or> ev_Kind e = EventTaskTimedOut\<rbrakk>
    \<Longrightarrow> task_step H s e t
        (t\<lparr>ts_Status := TaskFailed, ts_Error := ev_Error e, ts_FinishedAt := ev_At e, ts_Compensation := False\<rparr>)"
| fail_compensation: "\<lbrakk>ts_Status t = TaskCompensating; ts_WorkerID t \<noteq> ''''; wf_Status s = WorkflowCompensating;
      ev_Compensation e; same_attempt t e;
      ev_Kind e = EventTaskFailed \<and> ev_At e < ts_LeaseUntil t \<or> ev_Kind e = EventTaskTimedOut\<rbrakk>
    \<Longrightarrow> task_step H s e t
        (t\<lparr>ts_Status := TaskFailed, ts_Error := ev_Error e, ts_FinishedAt := ev_At e, ts_Compensation := True\<rparr>)"
| renew: "\<lbrakk>in_phase s t; same_attempt t e; ev_At e < ts_LeaseUntil t; ts_LeaseUntil t < ev_LeaseUntil e;
      ev_Kind e = EventLeaseRenewed\<rbrakk>
    \<Longrightarrow> task_step H s e t (t\<lparr>ts_LeaseUntil := ev_LeaseUntil e\<rparr>)"
| expire: "\<lbrakk>ts_Status t = TaskRunning; \<not> ts_Compensation t; wf_Status s = WorkflowRunning; same_attempt t e;
      ts_LeaseUntil t \<le> ev_At e; ev_Kind e = EventLeaseExpired\<rbrakk>
    \<Longrightarrow> task_step H s e t (released_task (t\<lparr>ts_Status := TaskReady\<rparr>))"
| expire_compensation: "\<lbrakk>ts_Status t = TaskCompensating; ts_WorkerID t \<noteq> ''''; ts_Compensation t;
      wf_Status s = WorkflowCompensating; same_attempt t e; ts_LeaseUntil t \<le> ev_At e;
      ev_Kind e = EventLeaseExpired\<rbrakk>
    \<Longrightarrow> task_step H s e t (released_task t)"
| retry: "\<lbrakk>ts_Status t = TaskFailed; ts_RetryCount t + 1 < rp_MaxAttempts (td_Retry (ts_Definition t));
      ev_Kind e = EventTaskRetryScheduled\<rbrakk>
    \<Longrightarrow> task_step H s e t (released_task (t\<lparr>ts_Status := TaskPending, ts_RetryCount := ts_RetryCount t + 1\<rparr>))"
| cancel: "\<lbrakk>ts_Status t \<in> {TaskPending, TaskReady, TaskRunning};
      wf_Status s \<in> {WorkflowScheduled, WorkflowRunning}; ev_Kind e = EventTaskCancelled\<rbrakk>
    \<Longrightarrow> task_step H s e t
        (t\<lparr>ts_Status := TaskCancelled, ts_FinishedAt := ev_At e, ts_WorkerID := '''', ts_LeaseUntil := 0,
           ts_Compensation := False\<rparr>)"
| compensate: "\<lbrakk>ts_Status t = TaskCompleted; td_Compensation (ts_Definition t) \<noteq> None;
      wf_Status s \<in> {WorkflowRunning, WorkflowCompensating}; ev_Kind e = EventWorkflowCompensating\<rbrakk>
    \<Longrightarrow> task_step H s e t
        (t\<lparr>ts_Status := TaskCompensating, ts_RetryCount := 0, ts_Payload := ts_Output t,
           ts_Compensation := True, ts_AttemptID := '''', ts_Inputs := [], ts_StartedAt := 0,
           ts_FinishedAt := 0, ts_WorkerID := '''', ts_LeaseUntil := 0, ts_Idempotency := ''''\<rparr>)"
| compensated: "\<lbrakk>wf_Status s = WorkflowCompensating; ts_Status t = TaskCompensating; ts_WorkerID t \<noteq> '''';
      ts_Compensation t; same_attempt t e; ev_At e < ts_LeaseUntil t; ev_Kind e = EventTaskCompensated\<rbrakk>
    \<Longrightarrow> task_step H s e t
        (t\<lparr>ts_Status := TaskCompensated, ts_FinishedAt := ev_At e, ts_WorkerID := '''', ts_LeaseUntil := 0,
           ts_Compensation := False\<rparr>)"
| expanded: "\<lbrakk>ts_Status t = TaskCompleted; wf_Status s = WorkflowRunning; \<not> ts_FanoutExpanded t;
      tidy_slice cs; ev_Kind e = EventFanoutExpanded\<rbrakk>
    \<Longrightarrow> task_step H s e t (t\<lparr>ts_Children := cs, ts_FanoutExpanded := True\<rparr>)"
| widened: "\<lbrakk>ts_Status t = TaskPending; wf_Status s = WorkflowRunning; ev_Kind e = EventFanoutExpanded\<rbrakk>
    \<Longrightarrow> task_step H s e t (widen (new_children e) t)"

text \<open>A task created by the expansion of its parent.\<close>

definition fresh_child :: "digest \<Rightarrow> WorkflowState \<Rightarrow> Event \<Rightarrow> string \<Rightarrow> TaskState \<Rightarrow> bool" where
  "fresh_child H s e i t \<longleftrightarrow>
     (\<exists>p f x. task_at s (ev_TaskID e) = Some p \<and> ts_Status p = TaskCompleted \<and>
        td_Fanout (ts_Definition p) = Some f \<and> wf_Status s = WorkflowRunning \<and>
        ev_Kind e = EventFanoutExpanded \<and> x \<in> set (elems (ev_ExpandedTasks e)) \<and> i = child_id x \<and>
        xt_Definition x = expanded_definition H (wf_ID s) (td_ID (ts_Definition p)) f (xt_Key x) \<and>
        (t = child_state x \<or> t = widen (new_children e) (child_state x)))"

definition task_evolves :: "digest \<Rightarrow> WorkflowState \<Rightarrow> Event \<Rightarrow> string \<Rightarrow> TaskState option \<Rightarrow> TaskState option \<Rightarrow> bool" where
  "task_evolves H s e i old new \<longleftrightarrow>
     (case (old, new) of
        (None, None) \<Rightarrow> True
      | (None, Some t') \<Rightarrow> fresh_child H s e i t'
      | (Some t, None) \<Rightarrow> False
      | (Some t, Some t') \<Rightarrow> t' = t \<or> task_step H s e t t' \<and>
          (i = ev_TaskID e \<or> ev_Kind e = EventFanoutExpanded \<and> ts_Status t = TaskPending))"

definition tasks_evolve :: "digest \<Rightarrow> WorkflowState \<Rightarrow> Event \<Rightarrow> WorkflowState \<Rightarrow> bool" where
  "tasks_evolve H s e s' \<longleftrightarrow> (\<forall>i. task_evolves H s e i (task_at s i) (task_at s' i))"

lemma task_evolves_refl [simp]: "task_evolves H s e i old old"
  by (simp add: task_evolves_def split: option.splits)

lemma tasks_evolve_same: "task_at s' = task_at s \<Longrightarrow> tasks_evolve H s e s'"
  by (simp add: tasks_evolve_def)

text \<open>
  A raw compensation event with an empty task identifier passes the check
  \<^verbatim>\<open>nextCompensation(state) != event.TaskID\<close> when nothing is left to compensate; the commands never
  produce one. \<open>addressed\<close> rules it out.
\<close>

definition addressed :: "Event \<Rightarrow> bool" where
  "addressed e \<longleftrightarrow> (ev_Kind e = EventWorkflowCompensating \<longrightarrow> ev_TaskID e \<noteq> '''')"

section \<open>Which task is compensated next\<close>

definition compensable :: "TaskState \<Rightarrow> bool" where
  "compensable t \<longleftrightarrow> ts_Status t = TaskCompleted \<and> td_Compensation (ts_Definition t) \<noteq> None"

text \<open>The order of compensation: by completion sequence, ties broken by identifier.\<close>

definition later :: "string \<times> TaskState \<Rightarrow> string \<times> TaskState \<Rightarrow> bool" where
  "later p q \<longleftrightarrow> ts_CompletedSequence (snd q) < ts_CompletedSequence (snd p) \<or>
     ts_CompletedSequence (snd q) = ts_CompletedSequence (snd p) \<and> fst q \<le> fst p"

lemma later_trans: "later p q \<Longrightarrow> later q r \<Longrightarrow> later p r"
  by (auto simp: later_def)

lemma later_linear: "\<not> later p q \<Longrightarrow> later q p"
  by (auto simp: later_def)

lemma later_antisym: "later p q \<Longrightarrow> later q p \<Longrightarrow> fst p = fst q"
  by (auto simp: later_def)

lemma pick_compensation_spec:
  assumes "\<forall>p \<in> set xs. fst p \<noteq> ''''"
  shows "(case fold pick_compensation xs ('''', 0) of (sel, n) \<Rightarrow>
      if sel = '''' then \<forall>p \<in> set xs. \<not> compensable (snd p)
      else \<exists>p \<in> set xs. fst p = sel \<and> compensable (snd p) \<and> n = ts_CompletedSequence (snd p) \<and>
             (\<forall>q \<in> set xs. compensable (snd q) \<longrightarrow> later p q))"
  using assms
proof (induction xs rule: rev_induct)
  case (snoc y xs)
  obtain sel n where acc: "fold pick_compensation xs ('''', 0) = (sel, n)" by force
  have y: "fst y \<noteq> ''''" using snoc.prems by simp
  note ih = snoc.IH [unfolded acc]
  show ?case
  proof (cases "compensable (snd y)")
    case False
    then have "pick_compensation y (sel, n) = (sel, n)"
      by (auto simp: pick_compensation_def compensable_def Let_def)
    with False ih snoc.prems acc show ?thesis by (auto split: if_splits)
  next
    case comp: True
    show ?thesis
    proof (cases "sel = ''''")
      case True
      then have "pick_compensation y (sel, n) = (fst y, ts_CompletedSequence (snd y))"
        using comp by (auto simp: pick_compensation_def compensable_def Let_def)
      with True comp ih snoc.prems acc y show ?thesis by (auto simp: later_def)
    next
      case False
      with ih snoc.prems obtain p where p: "p \<in> set xs" "fst p = sel" "compensable (snd p)"
        "n = ts_CompletedSequence (snd p)" "\<forall>q \<in> set xs. compensable (snd q) \<longrightarrow> later p q"
        by auto
      show ?thesis
      proof (cases "later p y")
        case True
        then have "pick_compensation y (sel, n) = (sel, n)"
          using False p by (auto simp: pick_compensation_def Let_def later_def)
        with True False p acc show ?thesis by auto
      next
        case new: False
        then have "pick_compensation y (sel, n) = (fst y, ts_CompletedSequence (snd y))"
          using comp False p by (auto simp: pick_compensation_def compensable_def Let_def later_def)
        moreover have "later y p" using new by (rule later_linear)
        then have "later y q" if "q \<in> set xs" "compensable (snd q)" for q
          using that p(5) by (blast intro: later_trans)
        moreover have "later y y" by (simp add: later_def)
        ultimately show ?thesis using comp y acc by auto
      qed
    qed
  qed
qed simp

lemma nextCompensation_spec:
  assumes "gomap (wf_Tasks s)" "'''' \<notin> set (keys (wf_Tasks s))"
  shows "if nextCompensation s = '''' then \<forall>i t. task_at s i = Some t \<longrightarrow> \<not> compensable t
    else \<exists>t. task_at s (nextCompensation s) = Some t \<and> compensable t \<and>
      (\<forall>j u. task_at s j = Some u \<and> compensable u \<longrightarrow> later (nextCompensation s, t) (j, u))"
proof -
  have at: "task_at s i = Some t \<longleftrightarrow> (i, t) \<in> set (wf_Tasks s)" for i t
    using assms(1) by (simp add: task_at_def gomap_map_of_iff)
  have "\<forall>p \<in> set (wf_Tasks s). fst p \<noteq> ''''" using assms(2) by force
  from pick_compensation_spec [OF this] show ?thesis
    unfolding nextCompensation_def at by (auto split: prod.splits if_splits)
qed

text \<open>Without any assumption on the keys, what is selected is a compensable task.\<close>

lemma nextCompensation_selected:
  assumes "nextCompensation s = i" "i \<noteq> ''''" "gomap (wf_Tasks s)"
  shows "\<exists>t. task_at s i = Some t \<and> compensable t"
proof -
  have "fst (fold pick_compensation xs acc) = fst acc \<or>
      (\<exists>p \<in> set xs. fst p = fst (fold pick_compensation xs acc) \<and> compensable (snd p))" for xs acc
  proof (induction xs arbitrary: acc)
    case (Cons x xs)
    have "fst (pick_compensation x acc) = fst acc \<or>
        fst (pick_compensation x acc) = fst x \<and> compensable (snd x)"
      by (auto simp: pick_compensation_def compensable_def Let_def)
    with Cons.IH [of "pick_compensation x acc"] show ?case by auto
  qed simp
  from this [of "wf_Tasks s" "('''', 0)"] assms(1,2) obtain p
    where "p \<in> set (wf_Tasks s)" "fst p = i" "compensable (snd p)"
    by (auto simp: nextCompensation_def)
  then have "task_at s i = Some (snd p)"
    using assms(3) by (auto simp: task_at_def gomap_map_of_iff)
  with \<open>compensable (snd p)\<close> show ?thesis by blast
qed

section \<open>Timers and the status of the workflow\<close>

inductive timer_step :: "digest \<Rightarrow> WorkflowState \<Rightarrow> Event \<Rightarrow> string \<Rightarrow> TimerState option \<Rightarrow> TimerState \<Rightarrow> bool"
  for H s e i where
  schedule: "\<lbrakk>tm_ID timer = i; i \<noteq> ''''; tm_Status timer = TimerScheduled; ev_At e \<le> tm_Deadline timer;
      timer_accepted H s timer; ev_Kind e = EventTimerScheduled\<rbrakk>
    \<Longrightarrow> timer_step H s e i None timer"
| fire: "\<lbrakk>tm_ID timer = i; tm_Status timer = TimerScheduled; tm_Deadline timer \<le> ev_At e;
      ev_Kind e = EventTimerFired\<rbrakk>
    \<Longrightarrow> timer_step H s e i (Some timer) (timer\<lparr>tm_Status := TimerFired\<rparr>)"
| cancelled: "\<lbrakk>tm_ID timer = i; tm_Status timer = TimerScheduled; ev_Kind e = EventTimerCancelled\<rbrakk>
    \<Longrightarrow> timer_step H s e i (Some timer) (timer\<lparr>tm_Status := TimerCancelled\<rparr>)"

definition timers_evolve :: "digest \<Rightarrow> WorkflowState \<Rightarrow> Event \<Rightarrow> WorkflowState \<Rightarrow> bool" where
  "timers_evolve H s e s' \<longleftrightarrow>
     (\<forall>i. timer_at s' i = timer_at s i \<or>
        (\<exists>timer. timer_at s' i = Some timer \<and> timer_step H s e i (timer_at s i) timer))"

text \<open>The workflow automaton; the conditions are those under which a workflow may end.\<close>

inductive status_step :: "WorkflowState \<Rightarrow> Event \<Rightarrow> WorkflowStatus \<Rightarrow> bool" for s e where
  started: "wf_Status s = WorkflowScheduled \<Longrightarrow> ev_Kind e = EventWorkflowStarted \<Longrightarrow>
    status_step s e WorkflowRunning"
| completed: "\<lbrakk>wf_Status s = WorkflowRunning; \<forall>t \<in> snd ` set (wf_Tasks s). ts_Status t = TaskCompleted;
      \<not> hasScheduledTimers s; ev_Kind e = EventWorkflowCompleted\<rbrakk> \<Longrightarrow> status_step s e WorkflowCompleted"
| failed: "\<lbrakk>wf_Status s \<in> {WorkflowRunning, WorkflowCompensating}; \<not> hasActiveState s;
      \<not> hasScheduledTimers s; ev_Kind e = EventWorkflowFailed\<rbrakk> \<Longrightarrow> status_step s e WorkflowFailed"
| compensating: "\<lbrakk>wf_Status s \<in> {WorkflowRunning, WorkflowCompensating};
      ev_Kind e = EventWorkflowCompensating\<rbrakk> \<Longrightarrow> status_step s e WorkflowCompensating"
| cancelled: "\<lbrakk>wf_Status s \<in> {WorkflowScheduled, WorkflowRunning}; nextCompensation s = ''''; \<not> hasActiveState s;
      \<not> hasScheduledTimers s; ev_Kind e = EventWorkflowCancelled\<rbrakk> \<Longrightarrow> status_step s e WorkflowCancelled"
| compensated: "\<lbrakk>wf_Status s = WorkflowCompensating; nextCompensation s = ''''; \<not> hasActiveState s;
      \<not> hasScheduledTimers s; ev_Kind e = EventWorkflowCompensated\<rbrakk> \<Longrightarrow> status_step s e WorkflowCompensated"

definition status_evolves :: "WorkflowState \<Rightarrow> Event \<Rightarrow> WorkflowState \<Rightarrow> bool" where
  "status_evolves s e s' \<longleftrightarrow>
     wf_Status s' = wf_Status s \<and> ev_Kind e \<noteq> EventWorkflowCompensating \<or> status_step s e (wf_Status s')"

inductive_simps status_step_simps: "status_step s e st"

definition frame_kept :: "WorkflowState \<Rightarrow> WorkflowState \<Rightarrow> bool" where
  "frame_kept s s' \<longleftrightarrow>
     wf_ID s' = wf_ID s \<and> wf_Name s' = wf_Name s \<and> wf_Namespace s' = wf_Namespace s \<and>
     (gomap (wf_Tasks s) \<longrightarrow> gomap (wf_Tasks s')) \<and> (gomap (wf_Timers s) \<longrightarrow> gomap (wf_Timers s'))"

text \<open>One accepted event, seen as a whole.\<close>

definition evolves :: "digest \<Rightarrow> WorkflowState \<Rightarrow> Event \<Rightarrow> WorkflowState \<Rightarrow> bool" where
  "evolves H s e s' \<longleftrightarrow>
     tasks_evolve H s e s' \<and> timers_evolve H s e s' \<and> status_evolves s e s' \<and> frame_kept s s' \<and>
     (ev_Kind e = EventFanoutExpanded \<longrightarrow> (\<forall>i \<in> set (new_children e). task_at s' i \<noteq> None))"

lemma timers_evolve_same: "timer_at s' = timer_at s \<Longrightarrow> timers_evolve H s e s'"
  by (simp add: timers_evolve_def)

lemma task_event_evolves:
  "task_event s e t t' s' \<Longrightarrow> task_step H s e t t' \<Longrightarrow> ev_Kind e \<noteq> EventFanoutExpanded \<Longrightarrow>
   ev_Kind e \<noteq> EventWorkflowCompensating \<Longrightarrow> evolves H s e s'"
  by (simp add: evolves_def tasks_evolve_def task_event_def task_evolves_def timers_evolve_def
      status_evolves_def frame_kept_def split: option.splits)

lemma evolves_status:
  "s' = s\<lparr>wf_Status := st\<rparr> \<Longrightarrow> status_step s e st \<Longrightarrow> evolves H s e s'"
  by (auto simp: status_step_simps evolves_def tasks_evolve_same timers_evolve_same status_evolves_def frame_kept_def)

lemma evolves_timer:
  assumes "s' = put_timer i timer s" "timer_step H s e i (timer_at s i) timer"
  shows "evolves H s e s'"
proof -
  have "tasks_evolve H s e s'" using assms(1) by (simp add: tasks_evolve_same)
  moreover have "timers_evolve H s e s'" using assms by (simp add: timers_evolve_def)
  moreover have "ev_Kind e \<noteq> EventFanoutExpanded \<and> ev_Kind e \<noteq> EventWorkflowCompensating"
    using assms(2) by (auto elim: timer_step.cases)
  ultimately show ?thesis using assms(1) by (simp add: evolves_def status_evolves_def frame_kept_def)
qed

section \<open>Every handler refines the life cycle\<close>

lemmas lease_defs = forward_lease_def compensation_lease_def in_phase_def

lemma evolve_Ready:
  assumes "applyReady s e = Inr s'" "ev_Kind e = EventTaskReady"
  shows "evolves H s e s'"
proof -
  from applyReady_Inr [OF assms(1)] obtain t where
    t: "task_event s e t (t\<lparr>ts_Status := (if ts_Compensation t then TaskCompensating else TaskReady)\<rparr>) s'"
    and g: "ts_Status t = TaskPending"
      "if ts_Compensation t then wf_Status s = WorkflowCompensating
       else wf_Status s = WorkflowRunning \<and> dependencies_completed s t" by blast
  show ?thesis
    by (rule task_event_evolves [OF t]) (use g assms(2) in \<open>auto intro: task_step.intros split: if_splits\<close>)
qed

lemma evolve_Started:
  "applyStarted H s e = Inr s' \<Longrightarrow> ev_Kind e = EventTaskStarted \<Longrightarrow> evolves H s e s'"
  by (drule applyStarted_Inr, elim exE conjE, erule task_event_evolves)
    (auto intro: task_step.start task_step.start_compensation split: if_splits)

lemma evolve_Completed:
  "applyCompleted s e = Inr s' \<Longrightarrow> ev_Kind e = EventTaskCompleted \<Longrightarrow> evolves H s e s'"
  by (drule applyCompleted_Inr, elim exE conjE, erule task_event_evolves, rule task_step.complete) auto

lemma evolve_Failed:
  "applyFailed s e = Inr s' \<Longrightarrow> ev_Kind e = EventTaskFailed \<Longrightarrow> evolves H s e s'"
  by (drule applyFailed_Inr, elim exE conjE, erule task_event_evolves)
    (auto simp: lease_defs intro: task_step.fail task_step.fail_compensation)

lemma evolve_Renewed:
  "applyRenewed s e = Inr s' \<Longrightarrow> ev_Kind e = EventLeaseRenewed \<Longrightarrow> evolves H s e s'"
  by (drule applyRenewed_Inr, elim exE conjE, erule task_event_evolves, rule task_step.renew)
    (auto simp: lease_defs)

lemma evolve_Expired:
  "applyExpired s e = Inr s' \<Longrightarrow> ev_Kind e = EventLeaseExpired \<Longrightarrow> evolves H s e s'"
  by (drule applyExpired_Inr, elim exE conjE, erule task_event_evolves)
    (auto simp: lease_defs intro: task_step.expire task_step.expire_compensation)

lemma evolve_RetryScheduled:
  "applyTaskRetryScheduled s e = Inr s' \<Longrightarrow> ev_Kind e = EventTaskRetryScheduled \<Longrightarrow> evolves H s e s'"
  by (drule applyTaskRetryScheduled_Inr, elim exE conjE, erule task_event_evolves, rule task_step.retry) auto

lemma evolve_TimedOut:
  "applyTaskTimedOut H s e = Inr s' \<Longrightarrow> ev_Kind e = EventTaskTimedOut \<Longrightarrow> evolves H s e s'"
  by (drule applyTaskTimedOut_Inr, elim exE conjE, erule task_event_evolves)
    (auto intro: task_step.fail task_step.fail_compensation)

lemma evolve_Cancelled:
  "applyTaskCancelled s e = Inr s' \<Longrightarrow> ev_Kind e = EventTaskCancelled \<Longrightarrow> evolves H s e s'"
  by (drule applyTaskCancelled_Inr, elim exE conjE, erule task_event_evolves, rule task_step.cancel) auto

lemma evolve_Compensated:
  "applyTaskCompensated s e = Inr s' \<Longrightarrow> ev_Kind e = EventTaskCompensated \<Longrightarrow> evolves H s e s'"
  by (drule applyTaskCompensated_Inr, elim exE conjE, erule task_event_evolves, rule task_step.compensated) auto

lemma evolve_Compensating:
  assumes "applyWorkflowCompensating s e = Inr s'" "ev_Kind e = EventWorkflowCompensating"
    and "addressed e" "gomap (wf_Tasks s)"
  shows "evolves H s e s'"
proof -
  note h = applyWorkflowCompensating_Inr [OF assms(1)]
  have "ev_TaskID e \<noteq> ''''" using assms(2,3) by (simp add: addressed_def)
  with nextCompensation_selected [OF _ _ assms(4)] h obtain t
    where t: "task_at s (ev_TaskID e) = Some t" "compensable t" by blast
  with h have "task_at s' i = (if i = ev_TaskID e then Some
        (t\<lparr>ts_Status := TaskCompensating, ts_RetryCount := 0, ts_Payload := ts_Output t,
           ts_Compensation := True, ts_AttemptID := '''', ts_Inputs := [], ts_StartedAt := 0,
           ts_FinishedAt := 0, ts_WorkerID := '''', ts_LeaseUntil := 0, ts_Idempotency := ''''\<rparr>)
      else task_at s i)" for i
    by (simp add: Let_def)
  moreover have "task_step H s e t
      (t\<lparr>ts_Status := TaskCompensating, ts_RetryCount := 0, ts_Payload := ts_Output t,
         ts_Compensation := True, ts_AttemptID := '''', ts_Inputs := [], ts_StartedAt := 0,
         ts_FinishedAt := 0, ts_WorkerID := '''', ts_LeaseUntil := 0, ts_Idempotency := ''''\<rparr>)"
    using t(2) h assms(2) by (intro task_step.compensate) (auto simp: compensable_def)
  ultimately have "tasks_evolve H s e s'"
    using t(1) by (simp add: tasks_evolve_def task_evolves_def split: option.splits)
  moreover have "status_evolves s e s'"
    using h assms(2) by (simp add: status_evolves_def status_step_simps Let_def)
  ultimately show ?thesis
    using h assms(2) by (simp add: evolves_def timers_evolve_def frame_kept_def Let_def)
qed

lemma fanout_tasks_evolve:
  assumes "applyFanoutExpanded H s e = Inr s'" "ev_Kind e = EventFanoutExpanded"
  shows "tasks_evolve H s e s'"
proof -
  let ?xs = "elems (ev_ExpandedTasks e)" let ?s1 = "put_children ?xs s"
  from applyFanoutExpanded_Inr [OF assms(1)] obtain p f a where
    run: "wf_Status s = WorkflowRunning" and p: "task_at s (ev_TaskID e) = Some p" "ts_Status p = TaskCompleted"
    "td_Fanout (ts_Definition p) = Some f" "\<not> ts_FanoutExpanded p"
    and dist: "distinct (map child_id ?xs)"
    and xs: "\<forall>x \<in> set ?xs. validateExpandedTask H p x (wf_ID s) \<and> task_at s (child_id x) = None"
    and a: "task_at ?s1 (fd_AggregateTaskID f) = Some a" "ts_Status a = TaskPending"
    and "s' = put_task (ev_TaskID e)
            (p\<lparr>ts_Children := (if ?xs = [] then None else Some (map child_id ?xs)), ts_FanoutExpanded := True\<rparr>)
            (put_task (fd_AggregateTaskID f) (widen (map child_id ?xs) a) ?s1)"
    unfolding Let_def by (elim exE conjE) (rule that)
  then have s': "s' = put_task (ev_TaskID e)
            (p\<lparr>ts_Children := (if ?xs = [] then None else Some (new_children e)), ts_FanoutExpanded := True\<rparr>)
            (put_task (fd_AggregateTaskID f) (widen (new_children e) a) ?s1)"
    by (simp only: new_children_def)
  note kids = task_at_put_children [OF dist, of s]
  have fresh: "fresh_child H s e (child_id x) t"
    if "x \<in> set ?xs" "t = child_state x \<or> t = widen (new_children e) (child_state x)" for x t
  proof -
    have "xt_Definition x = expanded_definition H (wf_ID s) (td_ID (ts_Definition p)) f (xt_Key x)"
      using xs that(1) p(3) by (auto simp: validateExpandedTask_def)
    with that p run assms(2) show ?thesis unfolding fresh_child_def by blast
  qed
  have parent: "task_step H s e p
      (p\<lparr>ts_Children := (if ?xs = [] then None else Some (new_children e)), ts_FanoutExpanded := True\<rparr>)"
    using p run assms(2) by (intro task_step.expanded) (auto simp: tidy_slice_def new_children_def)
  have "task_evolves H s e i (task_at s i) (task_at s' i)" for i
  proof (cases "i = ev_TaskID e")
    case True
    with s' p parent show ?thesis by (simp add: task_evolves_def)
  next
    case other: False
    show ?thesis
    proof (cases "i \<in> child_id ` set ?xs")
      case True
      then obtain x where x: "x \<in> set ?xs" "i = child_id x" by blast
      then have none: "task_at s i = None" "task_at ?s1 i = Some (child_state x)" using xs kids by auto
      show ?thesis
      proof (cases "i = fd_AggregateTaskID f")
        case True
        then have "task_at s' i = Some (widen (new_children e) (child_state x))"
          using s' other a none by simp
        with none(1) fresh x show ?thesis by (auto simp: task_evolves_def)
      next
        case False
        then have "task_at s' i = Some (child_state x)" using s' other none by simp
        with none(1) fresh x show ?thesis by (auto simp: task_evolves_def)
      qed
    next
      case False
      then have old: "task_at ?s1 i = task_at s i" using kids by blast
      show ?thesis
      proof (cases "i = fd_AggregateTaskID f")
        case True
        then have "task_at s i = Some a" "task_at s' i = Some (widen (new_children e) a)"
          using s' other a old by simp_all
        with a(2) run assms(2) show ?thesis
          by (auto simp: task_evolves_def intro: task_step.widened)
      next
        case False
        with s' other old show ?thesis by simp
      qed
    qed
  qed
  then show ?thesis by (simp add: tasks_evolve_def)
qed

lemma evolve_FanoutExpanded:
  assumes "applyFanoutExpanded H s e = Inr s'" "ev_Kind e = EventFanoutExpanded"
  shows "evolves H s e s'"
proof -
  note h = applyFanoutExpanded_Inr [OF assms(1), unfolded Let_def]
  have "timers_evolve H s e s' \<and> status_evolves s e s' \<and> frame_kept s s'"
    using h assms(2) by (auto simp: timers_evolve_def status_evolves_def frame_kept_def gomap_put_children)
  moreover have "\<forall>i \<in> set (new_children e). task_at s' i \<noteq> None"
    using h task_at_put_children [of "elems (ev_ExpandedTasks e)" s] by (auto simp: new_children_def)
  ultimately show ?thesis using fanout_tasks_evolve [OF assms] by (simp add: evolves_def)
qed

lemma evolve_WorkflowCompleted:
  "applyWorkflowCompleted s = Inr s' \<Longrightarrow> ev_Kind e = EventWorkflowCompleted \<Longrightarrow> evolves H s e s'"
  by (blast dest: applyWorkflowCompleted_Inr intro: evolves_status status_step.completed)

lemma evolve_WorkflowFailed:
  "applyWorkflowFailed s e = Inr s' \<Longrightarrow> ev_Kind e = EventWorkflowFailed \<Longrightarrow> evolves H s e s'"
  by (blast dest: applyWorkflowFailed_Inr intro: evolves_status status_step.failed)

lemma evolve_WorkflowStarted:
  "applyWorkflowStarted s e = Inr s' \<Longrightarrow> ev_Kind e = EventWorkflowStarted \<Longrightarrow> evolves H s e s'"
  by (blast dest: applyWorkflowStarted_Inr intro: evolves_status status_step.started)

lemma evolve_WorkflowCancelled:
  "applyWorkflowCancelled s = Inr s' \<Longrightarrow> ev_Kind e = EventWorkflowCancelled \<Longrightarrow> evolves H s e s'"
  by (blast dest: applyWorkflowEnd_Inr(1) intro: evolves_status status_step.cancelled)

lemma evolve_WorkflowCompensated:
  "applyWorkflowCompensated s = Inr s' \<Longrightarrow> ev_Kind e = EventWorkflowCompensated \<Longrightarrow> evolves H s e s'"
  by (blast dest: applyWorkflowEnd_Inr(2) intro: evolves_status status_step.compensated)

lemma evolve_CancellationRequested:
  "applyWorkflowCancellationRequested s = Inr s' \<Longrightarrow> ev_Kind e = EventWorkflowCancellationRequested \<Longrightarrow>
   evolves H s e s'"
  by (drule applyWorkflowEnd_Inr(3))
    (simp add: evolves_def tasks_evolve_def timers_evolve_def status_evolves_def frame_kept_def)

lemma evolve_TimerScheduled:
  "applyTimerScheduled H s e = Inr s' \<Longrightarrow> ev_Kind e = EventTimerScheduled \<Longrightarrow> evolves H s e s'"
  by (drule applyTimerScheduled_Inr) (auto intro!: evolves_timer timer_step.schedule)

lemma evolve_TimerTransition:
  assumes "applyTimerTransition s e status = Inr s'"
    and "status = TimerFired \<and> ev_Kind e = EventTimerFired \<or>
         status = TimerCancelled \<and> ev_Kind e = EventTimerCancelled"
  shows "evolves H s e s'"
proof -
  from applyTimerTransition_Inr [OF assms(1)] obtain timer where
    t: "timer_at s (tm_ID timer) = Some timer" "tm_Status timer = TimerScheduled"
    "status = TimerFired \<longrightarrow> tm_Deadline timer \<le> ev_At e"
    and s': "s' = put_timer (tm_ID timer) (timer\<lparr>tm_Status := status\<rparr>) s" by blast
  show ?thesis
    by (rule evolves_timer [OF s']) (use t assms(2) in \<open>auto intro: timer_step.intros\<close>)
qed

lemmas handlers_evolve =
  evolve_Ready evolve_Started evolve_Completed evolve_Failed evolve_Renewed evolve_Expired
  evolve_RetryScheduled evolve_TimedOut evolve_Cancelled evolve_Compensated evolve_Compensating
  evolve_FanoutExpanded evolve_WorkflowCompleted evolve_WorkflowFailed evolve_WorkflowStarted
  evolve_WorkflowCancelled evolve_WorkflowCompensated evolve_CancellationRequested
  evolve_TimerScheduled evolve_TimerTransition

text \<open>Whatever \<^verbatim>\<open>dispatch\<close> accepts is one step of the life cycle.\<close>

lemma dispatch_evolves:
  assumes "dispatch H s e = Inr s'" "addressed e" "gomap (wf_Tasks s)"
  shows "evolves H s e s'"
  using assms by (cases "ev_Kind e") (auto simp: dispatch_def intro: handlers_evolve)

section \<open>The reducer as a whole\<close>

text \<open>The metadata checks at the top of \<^verbatim>\<open>applyEvent\<close>.\<close>

definition well_stamped :: "digest \<Rightarrow> Event \<Rightarrow> bool" where
  "well_stamped H e \<longleftrightarrow>
     \<not> blank (ev_WorkflowID e) \<and> \<not> blank (ev_RequestID e) \<and> ev_RequestHash e \<noteq> '''' \<and> 0 \<le> ev_At e \<and>
     ev_Sequence e \<noteq> 0 \<and> ev_ID e = EventID H (ev_WorkflowID e) (ev_Sequence e) (ev_Kind e)"

definition stamp_state :: "Event \<Rightarrow> WorkflowState \<Rightarrow> WorkflowState" where
  "stamp_state e s = s\<lparr>wf_Version := ev_Sequence e, wf_UpdatedAt := ev_At e\<rparr>"

lemma stamp_state_fields [simp]:
  "wf_ID (stamp_state e s) = wf_ID s" "wf_Name (stamp_state e s) = wf_Name s"
  "wf_Namespace (stamp_state e s) = wf_Namespace s" "wf_Status (stamp_state e s) = wf_Status s"
  "wf_Version (stamp_state e s) = ev_Sequence e" "wf_UpdatedAt (stamp_state e s) = ev_At e"
  "wf_Tasks (stamp_state e s) = wf_Tasks s" "wf_Timers (stamp_state e s) = wf_Timers s"
  "task_at (stamp_state e s) = task_at s" "timer_at (stamp_state e s) = timer_at s"
  by (simp_all add: stamp_state_def task_at_def timer_at_def fun_eq_iff)

lemma applyEvent_None:
  "applyEvent H None e isolated = Inr s' \<longleftrightarrow>
     well_stamped H e \<and> ev_Kind e = EventWorkflowSubmitted \<and> ev_Sequence e = 1 \<and>
     applySubmission e = Inr s'"
  by (auto simp: applyEvent_def well_stamped_def)

lemma applyEvent_Some:
  "applyEvent H (Some s) e False = Inr s' \<longleftrightarrow>
     well_stamped H e \<and> ev_WorkflowID e = wf_ID s \<and> ev_Sequence e = wf_Version s + 1 \<and>
     wf_UpdatedAt s \<le> ev_At e \<and> (\<exists>u. dispatch H s e = Inr u \<and> s' = stamp_state e u)"
  by (auto simp: applyEvent_def well_stamped_def stamp_state_def result_simps)

lemma Apply_None: "Apply H None e = applyEvent H None e False"
  by (simp add: Apply_def applyEvent_def)

lemma Apply_tidy: "tidy_state s \<Longrightarrow> Apply H (Some s) e = applyEvent H (Some s) e False"
  by (simp add: Apply_def applyEvent_def cloneState_tidy)

lemma applyEvent_evolves:
  assumes "applyEvent H (Some s) e False = Inr s'" "addressed e" "gomap (wf_Tasks s)"
  shows "evolves H s e s'"
proof -
  from assms(1) obtain u where u: "dispatch H s e = Inr u" "s' = stamp_state e u"
    by (auto simp: applyEvent_Some)
  from dispatch_evolves [OF u(1) assms(2,3)] u(2) show ?thesis
    by (simp add: evolves_def tasks_evolve_def timers_evolve_def status_evolves_def frame_kept_def)
qed

section \<open>Event sourcing\<close>

text \<open>
  A reducer over a log: the first event creates a state, every later event carries the next sequence
  number. Everything the rest of the system relies on about sequence numbers follows from these laws.
\<close>

locale event_source =
  fixes step :: "'s option \<Rightarrow> 'e \<Rightarrow> 'x + 's"
    and version :: "'s \<Rightarrow> uint64"
    and seq :: "'e \<Rightarrow> uint64"
  assumes first_event: "step None e = Inr s \<Longrightarrow> seq e = 1 \<and> version s = 1"
    and next_event: "step (Some s) e = Inr s' \<Longrightarrow> seq e = version s + 1 \<and> seq e \<noteq> 0 \<and> version s' = seq e"
begin

definition replay :: "'s option \<Rightarrow> 'e list \<Rightarrow> 'x + 's option" where
  "replay s es = foldE (\<lambda>s e. bindE (step s e) (\<lambda>n. Inr (Some n))) s es"

lemma replay_Nil [simp]: "replay s [] = Inr s"
  by (simp add: replay_def)

lemma replay_Cons: "replay s (e # es) = bindE (step s e) (\<lambda>n. replay (Some n) es)"
  by (cases "step s e") (simp_all add: replay_def)

lemma replay_append: "replay s (es @ fs) = bindE (replay s es) (\<lambda>t. replay t fs)"
  by (simp add: replay_def foldE_append)

lemma replay_Some: "replay (Some s) es = Inr t \<Longrightarrow> t \<noteq> None"
proof (induction es arbitrary: s)
  case (Cons e es)
  then show ?case by (auto simp: replay_Cons result_simps)
qed auto

definition at_version :: "'s option \<Rightarrow> nat" where
  "at_version s = (case s of None \<Rightarrow> 0 | Some t \<Rightarrow> unat (version t))"

lemma step_version: "step s e = Inr t \<Longrightarrow> unat (seq e) = Suc (at_version s) \<and> version t = seq e"
proof (cases s)
  case None
  then show "step s e = Inr t \<Longrightarrow> ?thesis" using first_event by (simp add: at_version_def)
next
  case (Some u)
  assume "step s e = Inr t"
  with Some have "step (Some u) e = Inr t" by simp
  from next_event [OF this] have "seq e = version u + 1" "seq e \<noteq> 0" "version t = seq e" by blast+
  moreover from this have "version u \<noteq> - 1" by auto
  ultimately show ?thesis using word_suc_gt(2) [of "version u"] Some by (simp add: at_version_def)
qed

text \<open>An accepted log is numbered without gaps, and the version counts its events.\<close>

lemma replay_contiguous:
  "replay s es = Inr t \<Longrightarrow>
   map (unat \<circ> seq) es = [Suc (at_version s) ..< Suc (at_version s + length es)] \<and>
   at_version t = at_version s + length es"
proof (induction es arbitrary: s)
  case (Cons e es)
  then obtain n where n: "step s e = Inr n" "replay (Some n) es = Inr t"
    by (auto simp: replay_Cons result_simps)
  have v: "unat (seq e) = Suc (at_version s)" "at_version (Some n) = Suc (at_version s)"
    using step_version [OF n(1)] by (simp_all add: at_version_def)
  have "[Suc (at_version s) ..< Suc (at_version s + length (e # es))] =
      Suc (at_version s) # [Suc (Suc (at_version s)) ..< Suc (Suc (at_version s) + length es)]"
    by (subst upt_conv_Cons) simp_all
  with Cons.IH [OF n(2)] v show ?case by (simp del: upt_Suc)
qed simp

lemma no_replay_twice:
  assumes "step s e = Inr t"
  shows "\<nexists>u. step (Some t) e = Inr u"
proof
  assume "\<exists>u. step (Some t) e = Inr u"
  then obtain u where "step (Some t) e = Inr u" ..
  from step_version [OF this] step_version [OF assms] show False by (simp add: at_version_def)
qed

end

text \<open>An invariant that the first event establishes and every later event keeps.\<close>

locale kept_invariant = event_source step version seq
  for step :: "'s option \<Rightarrow> 'e \<Rightarrow> 'x + 's" and version :: "'s \<Rightarrow> uint64" and seq :: "'e \<Rightarrow> uint64" +
  fixes ok :: "'s \<Rightarrow> bool" and legal :: "'e \<Rightarrow> bool"
  assumes ok_first: "step None e = Inr s \<Longrightarrow> legal e \<Longrightarrow> ok s"
    and ok_next: "ok s \<Longrightarrow> step (Some s) e = Inr s' \<Longrightarrow> legal e \<Longrightarrow> ok s'"
begin

lemma replay_ok:
  assumes "replay s es = Inr (Some t)" "\<forall>e \<in> set es. legal e" "pred_option ok s"
  shows "ok t"
  using assms
proof (induction es arbitrary: s)
  case (Cons e es)
  then obtain n where n: "step s e = Inr n" "replay (Some n) es = Inr (Some t)"
    by (auto simp: replay_Cons result_simps)
  have "ok n" using n(1) Cons.prems ok_first ok_next by (cases s) auto
  with Cons.IH [OF n(2)] Cons.prems show ?case by simp
qed simp

end

lemma applySubmission_version:
  "applySubmission e = Inr s \<Longrightarrow> wf_Version s = ev_Sequence e \<and> wf_UpdatedAt s = ev_At e \<and>
     wf_ID s = ev_WorkflowID e \<and> wf_Status s \<in> {WorkflowScheduled, WorkflowRunning} \<and> wf_Timers s = []"
  by (auto simp: applySubmission_def result_simps split: option.splits if_splits)

interpretation log: event_source "\<lambda>s e. applyEvent H s e False" wf_Version ev_Sequence
  for H
proof
  show "ev_Sequence e = 1 \<and> wf_Version s = 1" if "applyEvent H None e False = Inr s" for e s
    using that applySubmission_version by (auto simp: applyEvent_None)
  show "ev_Sequence e = wf_Version s + 1 \<and> ev_Sequence e \<noteq> 0 \<and> wf_Version s' = ev_Sequence e"
    if "applyEvent H (Some s) e False = Inr s'" for s e s'
    using that by (auto simp: applyEvent_Some well_stamped_def)
qed

lemma applyOwnedEvents_replay: "applyOwnedEvents H s es = log.replay H s es"
  by (simp add: applyOwnedEvents_def log.replay_def apply_next_def [abs_def])

end
