(* ===== verification/Chronos_Invariant.thy ===== *)
theory Chronos_Invariant
  imports Chronos_Lifecycle
begin

text \<open>
  The invariant of a workflow state: what holds after every accepted event. \<open>task_ok\<close> speaks about
  one task, \<open>order_ok\<close> about dependencies between tasks, \<open>timers_ok\<close> about timers. Each part is proved
  to be established by a submission and kept by every event; \<open>wf_ok\<close> is their conjunction.
\<close>

section \<open>The invariant\<close>

text \<open>A task that completed at some point: it is completed, being compensated, or compensated.\<close>

definition settled :: "TaskState \<Rightarrow> bool" where
  "settled t \<longleftrightarrow> ts_Status t \<in> {TaskCompleted, TaskCompensated} \<or> ts_Compensation t"

text \<open>The statuses of a workflow in which no compensation has begun.\<close>

definition forward_phase :: "WorkflowStatus \<Rightarrow> bool" where
  "forward_phase st \<longleftrightarrow> st \<in> {WorkflowScheduled, WorkflowRunning, WorkflowCompleted, WorkflowCancelled}"

definition lease_ok :: "digest \<Rightarrow> string \<Rightarrow> string \<Rightarrow> TaskState \<Rightarrow> bool" where
  "lease_ok H w i t \<longleftrightarrow>
     \<not> blank (ts_WorkerID t) \<and> ts_AttemptID t = AttemptID H w i (ts_Attempt t) \<and>
     ts_StartedAt t < ts_LeaseUntil t \<and>
     ts_Idempotency t = (if ts_Compensation t then CompensationIdempotencyKey H w i else IdempotencyKey H w i)"

definition status_ok :: "TaskState \<Rightarrow> bool" where
  "status_ok t \<longleftrightarrow>
     (case ts_Status t of TaskOther _ \<Rightarrow> False | _ \<Rightarrow> True) \<and>
     (ts_Status t \<in> {TaskPending, TaskReady} \<longrightarrow> ts_WorkerID t = '''') \<and>
     (ts_Status t \<in> {TaskReady, TaskRunning, TaskCompleted, TaskCancelled, TaskCompensated} \<longrightarrow>
        \<not> ts_Compensation t) \<and>
     (ts_Status t = TaskCompensating \<longrightarrow> ts_Compensation t)"

definition task_ok :: "digest \<Rightarrow> WorkflowState \<Rightarrow> string \<Rightarrow> TaskState \<Rightarrow> bool" where
  "task_ok H s i t \<longleftrightarrow>
     i \<noteq> '''' \<and> td_ID (ts_Definition t) = i \<and> tidy_task t \<and>
     valid_retry (td_Retry (ts_Definition t)) (td_TimeoutMillis (ts_Definition t)) \<and>
     valid_fanout (td_Fanout (ts_Definition t)) \<and>
     ts_RetryCount t < rp_MaxAttempts (td_Retry (ts_Definition t)) \<and>
     unat (ts_Fence t) = unat (ts_Attempt t) \<and>
     status_ok t \<and> (leased t \<longrightarrow> lease_ok H (wf_ID s) i t) \<and>
     (ts_CompletedSequence t \<noteq> 0 \<longleftrightarrow> settled t) \<and> ts_CompletedSequence t \<le> wf_Version s \<and>
     (forward_phase (wf_Status s) \<longrightarrow> \<not> ts_Compensation t \<and> ts_Status t \<noteq> TaskCompensated)"

definition tasks_ok :: "digest \<Rightarrow> WorkflowState \<Rightarrow> bool" where
  "tasks_ok H s \<longleftrightarrow> gomap (wf_Tasks s) \<and> (\<forall>i t. task_at s i = Some t \<longrightarrow> task_ok H s i t)"

text \<open>
  Dependencies are tasks of the workflow; a task that became ready has dependencies that completed,
  and a task that completed did so after them.
\<close>

definition order_ok :: "WorkflowState \<Rightarrow> bool" where
  "order_ok s \<longleftrightarrow>
     (\<forall>i t d. task_at s i = Some t \<and> d \<in> set (deps (ts_Definition t)) \<longrightarrow>
        (\<exists>u. task_at s d = Some u \<and>
          (ts_Status t \<in> {TaskReady, TaskRunning} \<or> settled t \<longrightarrow> settled u) \<and>
          (settled t \<longrightarrow> ts_CompletedSequence u < ts_CompletedSequence t)))"

definition timers_ok :: "WorkflowState \<Rightarrow> bool" where
  "timers_ok s \<longleftrightarrow> gomap (wf_Timers s) \<and> (\<forall>i timer. timer_at s i = Some timer \<longrightarrow> tm_ID timer = i \<and> i \<noteq> '''')"

definition wf_ok :: "digest \<Rightarrow> WorkflowState \<Rightarrow> bool" where
  "wf_ok H s \<longleftrightarrow> tasks_ok H s \<and> order_ok s \<and> timers_ok s \<and> wf_Version s \<noteq> 0 \<and> 0 \<le> wf_UpdatedAt s"

lemmas task_status_defs = status_ok_def settled_def leased_def lease_ok_def

lemma wf_okD:
  assumes "wf_ok H s"
  shows "tasks_ok H s" "order_ok s" "timers_ok s" "gomap (wf_Tasks s)" "gomap (wf_Timers s)"
    "task_at s i = Some t \<Longrightarrow> task_ok H s i t"
  using assms by (simp_all add: wf_ok_def tasks_ok_def timers_ok_def)

lemma tasks_ok_tidy: "tasks_ok H s \<Longrightarrow> tidy_state s"
  by (auto simp: tasks_ok_def tidy_state_def task_ok_def task_at_def gomap_map_of_iff)

section \<open>Single tasks\<close>

lemma task_step_kept:
  assumes "task_step H s e t t'"
  shows "td_ID (ts_Definition t') = td_ID (ts_Definition t)"
    "td_Retry (ts_Definition t') = td_Retry (ts_Definition t)"
    "td_TimeoutMillis (ts_Definition t') = td_TimeoutMillis (ts_Definition t)"
    "td_Compensation (ts_Definition t') = td_Compensation (ts_Definition t)"
    "td_Fanout (ts_Definition t') = td_Fanout (ts_Definition t)"
  using assms by (induction rule: task_step.induct) simp_all

lemma task_step_tidy: "task_step H s e t t' \<Longrightarrow> tidy_task t \<Longrightarrow> tidy_task t'"
  by (induction rule: task_step.induct) (simp_all add: tidy_task_def tidy_widen)

lemma task_step_retry:
  assumes "task_step H s e t t'" "ts_RetryCount t < rp_MaxAttempts (td_Retry (ts_Definition t))"
  shows "ts_RetryCount t' < rp_MaxAttempts (td_Retry (ts_Definition t'))"
  using assms by (induction rule: task_step.induct) (auto intro: le_less_trans [OF word_zero_le])

lemma task_step_fence:
  assumes "task_step H s e t t'" "unat (ts_Fence t) = unat (ts_Attempt t)"
  shows "unat (ts_Fence t') = unat (ts_Attempt t')"
  using assms
  by (induction rule: task_step.induct) (simp_all add: start_granted_def word_suc_gt(2) MaxUint_minus_one)

lemma task_step_status:
  assumes "task_step H s e t t'" "status_ok t"
    and "forward_phase (wf_Status s) \<longrightarrow> \<not> ts_Compensation t"
  shows "status_ok t'"
  using assms
  by (induction rule: task_step.induct) (simp_all add: status_ok_def in_phase_def forward_phase_def)

lemma task_step_lease:
  assumes "task_step H s e t t'" "status_ok t" "leased t \<longrightarrow> lease_ok H (wf_ID s) i t"
    and "i = ev_TaskID e \<or> ev_Kind e = EventFanoutExpanded \<and> ts_Status t = TaskPending" "leased t'"
  shows "lease_ok H (wf_ID s) i t'"
  using assms
  by (induction rule: task_step.induct)
    (simp_all add: status_ok_def leased_def lease_ok_def in_phase_def start_granted_def, (elim disjE; simp)+)

lemma task_step_settled:
  assumes "task_step H s e t t'" "status_ok t" "ts_CompletedSequence t \<noteq> 0 \<longleftrightarrow> settled t"
    and "forward_phase (wf_Status s) \<longrightarrow> \<not> ts_Compensation t \<and> ts_Status t \<noteq> TaskCompensated"
    and "ev_Sequence e \<noteq> 0"
  shows "ts_CompletedSequence t' \<noteq> 0 \<longleftrightarrow> settled t'"
  using assms
  by (induction rule: task_step.induct)
    (simp_all add: status_ok_def settled_def in_phase_def forward_phase_def, (elim disjE; simp)+)

lemma task_step_stays_settled:
  assumes "task_step H s e t t'" "status_ok t" "settled t"
    and "forward_phase (wf_Status s) \<longrightarrow> \<not> ts_Compensation t \<and> ts_Status t \<noteq> TaskCompensated"
  shows "settled t'" "ts_CompletedSequence t' = ts_CompletedSequence t"
  using assms
  by (induction rule: task_step.induct)
    (simp_all add: status_ok_def settled_def in_phase_def forward_phase_def, (elim disjE; simp)+)

lemma task_step_sequence:
  assumes "task_step H s e t t'"
  shows "ts_CompletedSequence t' = ts_CompletedSequence t \<or> ts_CompletedSequence t' = ev_Sequence e"
  using assms by (induction rule: task_step.induct) simp_all

lemma task_step_phase:
  assumes "task_step H s e t t'" "forward_phase (wf_Status s)" "ev_Kind e \<noteq> EventWorkflowCompensating"
    and "\<not> ts_Compensation t \<and> ts_Status t \<noteq> TaskCompensated"
  shows "\<not> ts_Compensation t' \<and> ts_Status t' \<noteq> TaskCompensated"
  using assms by (induction rule: task_step.induct) (auto simp: in_phase_def forward_phase_def)

lemma status_evolves_phase:
  assumes "status_evolves s e s'" "forward_phase (wf_Status s')"
  shows "forward_phase (wf_Status s)"
  using assms by (auto simp: status_evolves_def status_step_simps forward_phase_def)

lemma status_evolves_forward:
  assumes "status_evolves s e s'" "forward_phase (wf_Status s')"
  shows "ev_Kind e \<noteq> EventWorkflowCompensating"
  using assms by (auto simp: status_evolves_def status_step_simps forward_phase_def)

section \<open>Every event keeps the invariant\<close>

text \<open>A task that did not change is still well-formed when the workflow moves on.\<close>

lemma task_ok_later:
  assumes "task_ok H s i t" "wf_ID s' = wf_ID s" "wf_Version s \<le> wf_Version s'"
    and "forward_phase (wf_Status s') \<Longrightarrow> forward_phase (wf_Status s)"
  shows "task_ok H s' i t"
  using assms(1,2,4) order_trans [OF _ assms(3)] by (auto simp: task_ok_def)

lemma task_ok_step:
  assumes ok: "task_ok H s i t" and step: "task_step H s e t t'"
    and i: "i = ev_TaskID e \<or> ev_Kind e = EventFanoutExpanded \<and> ts_Status t = TaskPending"
    and st: "status_evolves s e s'" and w: "wf_ID s' = wf_ID s"
    and v: "ev_Sequence e \<noteq> 0" "wf_Version s \<le> wf_Version s'" "wf_Version s' = ev_Sequence e"
  shows "task_ok H s' i t'"
proof -
  from ok have phase: "forward_phase (wf_Status s) \<longrightarrow> \<not> ts_Compensation t \<and> ts_Status t \<noteq> TaskCompensated"
    and sok: "status_ok t" and cs: "ts_CompletedSequence t \<noteq> 0 \<longleftrightarrow> settled t"
    and le: "ts_CompletedSequence t \<le> wf_Version s" by (auto simp: task_ok_def)
  note kept = task_step_kept [OF step]
  have "tidy_task t'" "ts_RetryCount t' < rp_MaxAttempts (td_Retry (ts_Definition t'))"
    "unat (ts_Fence t') = unat (ts_Attempt t')"
    using ok task_step_tidy [OF step] task_step_retry [OF step] task_step_fence [OF step]
    by (auto simp: task_ok_def)
  moreover have "status_ok t'" using task_step_status [OF step sok] phase by blast
  moreover have "leased t' \<longrightarrow> lease_ok H (wf_ID s') i t'"
    using task_step_lease [OF step sok _ i] ok w by (auto simp: task_ok_def)
  moreover have "ts_CompletedSequence t' \<noteq> 0 \<longleftrightarrow> settled t'"
    using task_step_settled [OF step sok cs phase v(1)] .
  moreover have "ts_CompletedSequence t' \<le> wf_Version s'"
    using task_step_sequence [OF step] le v(2,3) by auto
  moreover have "forward_phase (wf_Status s') \<longrightarrow> \<not> ts_Compensation t' \<and> ts_Status t' \<noteq> TaskCompensated"
    using task_step_phase [OF step] phase status_evolves_phase [OF st] status_evolves_forward [OF st] by blast
  ultimately show ?thesis using ok kept by (simp add: task_ok_def)
qed

lemma child_definition:
  "ts_Definition (child_state x) = cloneTaskDefinition (xt_Definition x)"
  by (simp add: child_state_def)

lemma fresh_child_ok:
  assumes "fresh_child H s e i t" "tasks_ok H s"
  shows "task_ok H s' i t"
proof -
  from assms(1) obtain p f x where p: "task_at s (ev_TaskID e) = Some p"
    "td_Fanout (ts_Definition p) = Some f" and i: "i = child_id x"
    and d: "xt_Definition x = expanded_definition H (wf_ID s) (td_ID (ts_Definition p)) f (xt_Key x)"
    and t: "t = child_state x \<or> t = widen (new_children e) (child_state x)"
    by (auto simp: fresh_child_def)
  have "task_ok H s (ev_TaskID e) p" using assms(2) p(1) by (simp add: tasks_ok_def)
  then have "valid_fanout (Some f)" using p(2) by (simp add: task_ok_def)
  then have r: "valid_retry (fd_Retry f) (fd_TimeoutMillis f)" by (simp add: valid_fanout_def)
  then have "0 < rp_MaxAttempts (fd_Retry f)" by (simp add: valid_retry_def word_gt_0)
  then have "task_ok H s' i (child_state x)"
    using r i by (simp add: task_ok_def child_state_def d expanded_definition_def tidy_task_def
        valid_fanout_def status_ok_def settled_def leased_def tidy_slice_def)
  moreover from this have "task_ok H s' i (widen (new_children e) (child_state x))"
    by (auto simp: task_ok_def tidy_task_def tidy_widen status_ok_def settled_def leased_def lease_ok_def)
  ultimately show ?thesis using t by blast
qed

text \<open>The facts about one accepted event that the preservation proofs share.\<close>

definition next_state :: "digest \<Rightarrow> WorkflowState \<Rightarrow> Event \<Rightarrow> WorkflowState \<Rightarrow> bool" where
  "next_state H s e s' \<longleftrightarrow>
     evolves H s e s' \<and> wf_Version s' = ev_Sequence e \<and> wf_Version s < ev_Sequence e \<and>
     wf_UpdatedAt s \<le> wf_UpdatedAt s' \<and> wf_UpdatedAt s' = ev_At e"

lemma applyEvent_next_state:
  assumes "applyEvent H (Some s) e False = Inr s'" "addressed e" "gomap (wf_Tasks s)"
  shows "next_state H s e s'"
proof -
  from assms(1) have v: "ev_Sequence e = wf_Version s + 1" "ev_Sequence e \<noteq> 0"
    and "wf_Version s' = ev_Sequence e" "wf_UpdatedAt s \<le> wf_UpdatedAt s'" "wf_UpdatedAt s' = ev_At e"
    by (auto simp: applyEvent_Some well_stamped_def)
  moreover have "wf_Version s < ev_Sequence e"
  proof -
    have "wf_Version s \<noteq> - 1" using v by auto
    from word_suc_gt(1) [OF this] v(1) show ?thesis by simp
  qed
  ultimately show ?thesis using applyEvent_evolves [OF assms] by (simp add: next_state_def)
qed

lemma next_stateD:
  assumes "next_state H s e s'"
  shows "tasks_evolve H s e s'" "timers_evolve H s e s'" "status_evolves s e s'" "frame_kept s s'"
    "wf_ID s' = wf_ID s" "wf_Version s' = ev_Sequence e" "wf_Version s < ev_Sequence e"
    "wf_Version s \<le> wf_Version s'" "ev_Sequence e \<noteq> 0"
    "ev_Kind e = EventFanoutExpanded \<Longrightarrow> i \<in> set (new_children e) \<Longrightarrow> task_at s' i \<noteq> None"
  using assms by (auto simp: next_state_def evolves_def frame_kept_def)

lemma next_state_task:
  assumes "next_state H s e s'" "task_at s' i = Some t'"
  obtains "task_at s i = Some t'"
  | t where "task_at s i = Some t" "task_step H s e t t'"
      "i = ev_TaskID e \<or> ev_Kind e = EventFanoutExpanded \<and> ts_Status t = TaskPending"
  | "task_at s i = None" "fresh_child H s e i t'"
proof -
  have "task_evolves H s e i (task_at s i) (task_at s' i)"
    using next_stateD(1) [OF assms(1)] by (simp add: tasks_evolve_def)
  with assms(2) that show ?thesis
    by (cases "task_at s i") (auto simp: task_evolves_def)
qed

lemma tasks_ok_next:
  assumes "tasks_ok H s" "next_state H s e s'"
  shows "tasks_ok H s'"
proof -
  note n = next_stateD [OF assms(2)]
  have "task_ok H s' i t'" if "task_at s' i = Some t'" for i t'
    using assms(2) that
  proof (cases rule: next_state_task)
    case 1
    then have "task_ok H s i t'" using assms(1) by (simp add: tasks_ok_def)
    from task_ok_later [OF this n(5,8) status_evolves_phase [OF n(3)]] show ?thesis .
  next
    case (2 t)
    then have "task_ok H s i t" using assms(1) by (simp add: tasks_ok_def)
    from task_ok_step [OF this 2(2,3) n(3,5,9,8,6)] show ?thesis .
  next
    case 3
    then show ?thesis using assms(1) by (intro fresh_child_ok)
  qed
  then show ?thesis using assms(1) n(4) by (simp add: tasks_ok_def frame_kept_def)
qed

lemma next_state_timer:
  assumes "next_state H s e s'" "timer_at s' i = Some timer"
  obtains "timer_at s i = Some timer" | "timer_step H s e i (timer_at s i) timer"
  using assms next_stateD(2) [OF assms(1)] unfolding timers_evolve_def by (metis option.inject)

lemma timer_step_id:
  assumes "timer_step H s e i old timer" "\<And>u. old = Some u \<Longrightarrow> tm_ID u = i \<and> i \<noteq> ''''"
  shows "tm_ID timer = i \<and> i \<noteq> ''''"
  using assms by (cases rule: timer_step.cases) auto

lemma timers_ok_next:
  assumes "timers_ok s" "next_state H s e s'"
  shows "timers_ok s'"
proof -
  have "tm_ID timer = i \<and> i \<noteq> ''''" if "timer_at s' i = Some timer" for i timer
    using assms(2) that
  proof (cases rule: next_state_timer)
    case 1
    with assms(1) show ?thesis by (simp add: timers_ok_def)
  next
    case 2
    with assms(1) show ?thesis by (intro timer_step_id [OF 2]) (simp add: timers_ok_def)
  qed
  with assms(1) next_stateD(4) [OF assms(2)] show ?thesis by (simp add: timers_ok_def frame_kept_def)
qed

text \<open>Settled tasks stay settled, with their completion sequence.\<close>

lemma settled_next:
  assumes "tasks_ok H s" "next_state H s e s'" "task_at s i = Some t"
  obtains t' where "task_at s' i = Some t'"
    "settled t \<Longrightarrow> settled t' \<and> ts_CompletedSequence t' = ts_CompletedSequence t"
proof -
  have "task_evolves H s e i (task_at s i) (task_at s' i)"
    using next_stateD(1) [OF assms(2)] by (simp add: tasks_evolve_def)
  with assms(3) obtain t' where t': "task_at s' i = Some t'" "t' = t \<or> task_step H s e t t'"
    by (cases "task_at s' i") (auto simp: task_evolves_def)
  have ok: "task_ok H s i t" using assms(1,3) by (simp add: tasks_ok_def)
  have "settled t' \<and> ts_CompletedSequence t' = ts_CompletedSequence t" if "settled t"
    using t'(2)
  proof
    assume step: "task_step H s e t t'"
    have "status_ok t" "forward_phase (wf_Status s) \<longrightarrow> \<not> ts_Compensation t \<and> ts_Status t \<noteq> TaskCompensated"
      using ok by (simp_all add: task_ok_def)
    with task_step_stays_settled [OF step _ that] show ?thesis by blast
  qed (use that in simp)
  with t'(1) that show thesis by blast
qed

text \<open>
  Where the dependencies of a changed task come from, and when it may newly be ready, running or
  settled.
\<close>

lemma task_step_deps:
  assumes "task_step H s e t t'"
  shows "set (deps (ts_Definition t')) = set (deps (ts_Definition t)) \<or>
    ts_Status t' = TaskPending \<and> \<not> ts_Compensation t' = (\<not> ts_Compensation t) \<and> wf_Status s = WorkflowRunning \<and>
    ev_Kind e = EventFanoutExpanded \<and> ts_Status t = TaskPending \<and>
    set (deps (ts_Definition t')) = set (deps (ts_Definition t)) \<union> set (new_children e)"
  using assms by (induction rule: task_step.induct) (simp_all add: deps_widen)

lemma task_step_demand:
  assumes "task_step H s e t t'" "status_ok t"
    and "ts_Status t' \<in> {TaskReady, TaskRunning} \<or> settled t'"
    and "forward_phase (wf_Status s) \<longrightarrow> \<not> ts_Compensation t \<and> ts_Status t \<noteq> TaskCompensated"
  shows "ts_Status t \<in> {TaskReady, TaskRunning} \<or> settled t \<or> dependencies_completed s t"
  using assms
  by (induction rule: task_step.induct)
    (simp_all add: status_ok_def settled_def forward_phase_def in_phase_def, (elim disjE; simp)+)

lemma task_step_completes:
  assumes "task_step H s e t t'" "status_ok t" "settled t'" "\<not> settled t"
    and "forward_phase (wf_Status s) \<longrightarrow> \<not> ts_Compensation t \<and> ts_Status t \<noteq> TaskCompensated"
  shows "ts_CompletedSequence t' = ev_Sequence e"
  using assms
  by (induction rule: task_step.induct)
    (simp_all add: status_ok_def settled_def forward_phase_def in_phase_def)

definition demands :: "TaskState \<Rightarrow> bool" where
  "demands t \<longleftrightarrow> ts_Status t \<in> {TaskReady, TaskRunning} \<or> settled t"

definition dep_ok :: "WorkflowState \<Rightarrow> TaskState \<Rightarrow> string \<Rightarrow> bool" where
  "dep_ok s t d \<longleftrightarrow> (\<exists>u. task_at s d = Some u \<and> (demands t \<longrightarrow> settled u) \<and>
     (settled t \<longrightarrow> ts_CompletedSequence u < ts_CompletedSequence t))"

lemma order_ok_iff: "order_ok s \<longleftrightarrow> (\<forall>i t. task_at s i = Some t \<longrightarrow> (\<forall>d \<in> set (deps (ts_Definition t)). dep_ok s t d))"
  unfolding order_ok_def dep_ok_def demands_def by blast

lemma dep_ok_idle: "task_at s d \<noteq> None \<Longrightarrow> \<not> demands t \<Longrightarrow> dep_ok s t d"
  by (auto simp: dep_ok_def demands_def)

lemma dep_ok_unchanged:
  assumes "tasks_ok H s" "next_state H s e s'" "dep_ok s t d"
  shows "dep_ok s' t d"
proof -
  from assms(3) obtain u where u: "task_at s d = Some u" "demands t \<longrightarrow> settled u"
    "settled t \<longrightarrow> ts_CompletedSequence u < ts_CompletedSequence t" by (auto simp: dep_ok_def)
  from settled_next [OF assms(1,2) u(1)] obtain u' where "task_at s' d = Some u'"
    "settled u \<Longrightarrow> settled u' \<and> ts_CompletedSequence u' = ts_CompletedSequence u" by blast
  with u show ?thesis unfolding dep_ok_def demands_def by auto
qed

lemma completed_dependency:
  assumes "dependencies_completed s t" "d \<in> set (deps (ts_Definition t))"
  shows "\<exists>u. task_at s d = Some u \<and> ts_Status u = TaskCompleted"
  using assms by (cases "task_at s d") (auto simp: dependencies_completed_def list_all_iff)

lemma dep_ok_step:
  assumes ok: "tasks_ok H s" and n: "next_state H s e s'" and t: "task_at s i = Some t"
    and step: "task_step H s e t t'" and d: "d \<in> set (deps (ts_Definition t))" and dep: "dep_ok s t d"
  shows "dep_ok s' t' d"
proof -
  have tk: "task_ok H s i t" using ok t by (simp add: tasks_ok_def)
  then have sok: "status_ok t"
    and phase: "forward_phase (wf_Status s) \<longrightarrow> \<not> ts_Compensation t \<and> ts_Status t \<noteq> TaskCompensated"
    by (simp_all add: task_ok_def)
  from dep obtain u where u: "task_at s d = Some u" "demands t \<longrightarrow> settled u"
    "settled t \<longrightarrow> ts_CompletedSequence u < ts_CompletedSequence t" by (auto simp: dep_ok_def)
  from settled_next [OF ok n u(1)] obtain u' where u': "task_at s' d = Some u'"
    "settled u \<Longrightarrow> settled u' \<and> ts_CompletedSequence u' = ts_CompletedSequence u" by blast
  have su: "settled u" if "demands t'"
  proof -
    have "demands t \<or> dependencies_completed s t"
      using task_step_demand [OF step sok _ phase] that unfolding demands_def by blast
    then show ?thesis
    proof
      assume "dependencies_completed s t"
      from completed_dependency [OF this d] u(1) show ?thesis by (auto simp: settled_def)
    qed (use u(2) in blast)
  qed
  have "ts_CompletedSequence u' < ts_CompletedSequence t'" if st: "settled t'"
  proof -
    have s: "settled u" using su st by (simp add: demands_def)
    show ?thesis
    proof (cases "settled t")
      case True
      with task_step_stays_settled [OF step sok True phase] u(3) u'(2) s show ?thesis by simp
    next
      case False
      have "ts_CompletedSequence u \<le> wf_Version s" using ok u(1) by (simp add: tasks_ok_def task_ok_def)
      with task_step_completes [OF step sok st False phase] next_stateD(7) [OF n] u'(2) s
      show ?thesis by simp
    qed
  qed
  with su u' show ?thesis unfolding dep_ok_def by blast
qed

lemma fresh_child_deps:
  assumes "fresh_child H s e i t" "tasks_ok H s"
  shows "set (deps (ts_Definition t)) \<subseteq> insert (ev_TaskID e) (set (new_children e)) \<and> \<not> demands t \<and>
    ev_Kind e = EventFanoutExpanded \<and> (\<exists>p. task_at s (ev_TaskID e) = Some p)"
proof -
  from assms(1) obtain p f x where p: "task_at s (ev_TaskID e) = Some p" "ev_Kind e = EventFanoutExpanded"
    and x: "xt_Definition x = expanded_definition H (wf_ID s) (td_ID (ts_Definition p)) f (xt_Key x)"
    and t: "t = child_state x \<or> t = widen (new_children e) (child_state x)"
    by (auto simp: fresh_child_def)
  have "td_ID (ts_Definition p) = ev_TaskID e" using assms(2) p(1) by (simp add: tasks_ok_def task_ok_def)
  then have kid: "set (deps (ts_Definition (child_state x))) = {ev_TaskID e}"
    by (simp add: child_state_def x expanded_definition_def)
  have idle: "\<not> demands (child_state x)" by (simp add: demands_def settled_def child_state_def)
  from t show ?thesis
  proof
    assume "t = child_state x"
    with kid idle p show ?thesis by simp
  next
    assume "t = widen (new_children e) (child_state x)"
    moreover have "\<not> demands (widen (new_children e) (child_state x))"
      using idle by (simp add: demands_def settled_def)
    ultimately show ?thesis using kid p deps_widen [of "new_children e" "child_state x"] by simp
  qed
qed

lemma order_ok_next:
  assumes ok: "tasks_ok H s" "order_ok s" and n: "next_state H s e s'"
  shows "order_ok s'"
proof -
  have "dep_ok s' t' d" if t': "task_at s' i = Some t'" and d: "d \<in> set (deps (ts_Definition t'))" for i t' d
    using n t'
  proof (cases rule: next_state_task)
    case 1
    with ok(2) d have "dep_ok s t' d" by (simp add: order_ok_iff)
    with ok(1) n show ?thesis by (rule dep_ok_unchanged)
  next
    case (2 t)
    show ?thesis
    proof (cases "d \<in> set (deps (ts_Definition t))")
      case True
      with ok(2) 2(1) have "dep_ok s t d" by (simp add: order_ok_iff)
      from dep_ok_step [OF ok(1) n 2(1,2) True this] show ?thesis .
    next
      case False
      with task_step_deps [OF 2(2)] d have k: "ts_Status t' = TaskPending" "wf_Status s = WorkflowRunning"
        "ts_Compensation t' = ts_Compensation t" "ev_Kind e = EventFanoutExpanded" "d \<in> set (new_children e)"
        by auto
      have "\<not> ts_Compensation t" using ok(1) 2(1) k(2) by (simp add: tasks_ok_def task_ok_def forward_phase_def)
      with k next_stateD(10) [OF n] show ?thesis
        by (intro dep_ok_idle) (auto simp: demands_def settled_def)
    qed
  next
    case 3
    note kid = fresh_child_deps [OF this(2) ok(1)]
    then obtain p where p: "task_at s (ev_TaskID e) = Some p" by blast
    obtain p' where "task_at s' (ev_TaskID e) = Some p'" using settled_next [OF ok(1) n p] .
    moreover have "d = ev_TaskID e \<or> d \<in> set (new_children e)" using kid d by blast
    ultimately have "task_at s' d \<noteq> None" using next_stateD(10) [OF n] kid by blast
    moreover have "\<not> demands t'" using kid by blast
    ultimately show ?thesis by (rule dep_ok_idle)
  qed
  then show ?thesis by (auto simp: order_ok_iff)
qed

lemma wf_ok_next:
  assumes "wf_ok H s" "applyEvent H (Some s) e False = Inr s'" "addressed e"
  shows "wf_ok H s'"
proof -
  have n: "next_state H s e s'" using applyEvent_next_state assms wf_okD(4) by blast
  have "0 \<le> wf_UpdatedAt s'" using n assms(1) by (simp add: next_state_def wf_ok_def)
  with next_stateD [OF n] tasks_ok_next [OF _ n] order_ok_next [OF _ _ n] timers_ok_next [OF _ n] assms(1)
  show ?thesis by (simp add: wf_ok_def)
qed

section \<open>A submission establishes the invariant\<close>

definition initial_task :: "TaskDefinition \<Rightarrow> TaskState" where
  "initial_task d =
     zero_TaskState\<lparr>ts_Definition := cloneTaskDefinition (canonical_task d), ts_Status := TaskPending\<rparr>"

lemma fold_put_tasks:
  fixes g :: "TaskDefinition \<Rightarrow> TaskState"
  assumes "distinct (map td_ID ds)"
  shows "gomap (fold (\<lambda>d. put (td_ID d) (g d)) ds [])"
    and "map_of (fold (\<lambda>d. put (td_ID d) (g d)) ds []) i = Some t \<longleftrightarrow> (\<exists>d \<in> set ds. td_ID d = i \<and> t = g d)"
proof -
  have gm: "gomap m \<Longrightarrow> gomap (fold (\<lambda>d. put (td_ID d) (g d)) ds m)" for m :: "(string, TaskState) gomap"
    by (induction ds arbitrary: m) auto
  then show "gomap (fold (\<lambda>d. put (td_ID d) (g d)) ds [])" by simp
  have "map_of (fold (\<lambda>d. put (td_ID d) (g d)) ds m) i = Some t \<longleftrightarrow>
      (\<exists>d \<in> set ds. td_ID d = i \<and> t = g d) \<or> i \<notin> td_ID ` set ds \<and> map_of m i = Some t" for m
    using assms by (induction ds arbitrary: m) auto
  from this [of "[]"] show "map_of (fold (\<lambda>d. put (td_ID d) (g d)) ds []) i = Some t \<longleftrightarrow>
      (\<exists>d \<in> set ds. td_ID d = i \<and> t = g d)" by simp
qed

lemma applySubmission_Inr:
  assumes "applySubmission e = Inr s"
  obtains d where "ev_Definition e = Some d" "valid_definition d" "gomap (wf_Tasks s)"
    "\<And>i t. task_at s i = Some t \<longleftrightarrow> (\<exists>x \<in> set (wd_Tasks d). td_ID x = i \<and> t = initial_task x)"
    "wf_Status s = (if ev_At e < wd_StartAt d then WorkflowScheduled else WorkflowRunning)"
proof -
  from assms have v: "ValidateDefinition (ev_Definition e) = Inr ()"
    by (cases "ValidateDefinition (ev_Definition e)") (simp_all add: applySubmission_def)
  then obtain d where d: "ev_Definition e = Some d"
    by (cases "ev_Definition e") (simp_all add: ValidateDefinition_def)
  from v d have valid: "valid_definition d" by (simp add: ValidateDefinition_iff)
  let ?ds = "sort_key td_ID (map canonical_task (wd_Tasks d))"
  let ?g = "\<lambda>x. zero_TaskState\<lparr>ts_Definition := cloneTaskDefinition x, ts_Status := TaskPending\<rparr>"
  have s: "wf_Tasks s = fold (\<lambda>x. put (td_ID x) (?g x)) ?ds []"
    "wf_Status s = (if ev_At e < wd_StartAt d then WorkflowScheduled else WorkflowRunning)"
    using assms v d by (auto simp: applySubmission_def canonicalDefinition_Some)
  have "mset (map td_ID ?ds) = mset (map td_ID (wd_Tasks d))" by (simp add: o_def multiset.map_comp)
  moreover have "distinct (map td_ID (wd_Tasks d))" using valid by (simp add: valid_definition_def)
  ultimately have dist: "distinct (map td_ID ?ds)" by (metis mset_eq_imp_distinct_iff)
  note f = fold_put_tasks [OF dist, of ?g]
  have "task_at s i = Some t \<longleftrightarrow> (\<exists>x \<in> set (wd_Tasks d). td_ID x = i \<and> t = initial_task x)" for i t
    unfolding task_at_def s(1) f(2) by (auto simp: initial_task_def)
  moreover have "gomap (wf_Tasks s)" unfolding s(1) by (rule f(1))
  ultimately show thesis using that [OF d valid _ _ s(2)] by blast
qed

lemma initial_task_ok:
  assumes "valid_definition d" "x \<in> set (wd_Tasks d)"
  shows "task_ok H s (td_ID x) (initial_task x)"
proof -
  from assms have "valid_task x" by (simp add: valid_definition_def)
  then have "td_ID x \<noteq> ''''" "valid_retry (td_Retry x) (td_TimeoutMillis x)" "valid_fanout (td_Fanout x)"
    "0 < rp_MaxAttempts (td_Retry x)"
    by (auto simp: valid_task_def valid_retry_def word_gt_0 dest: not_blank_nonempty)
  then show ?thesis
    by (simp add: task_ok_def initial_task_def tidy_task_def status_ok_def settled_def leased_def
        tidy_slice_def cloneTaskDefinition_eq cloneStrings_def)
qed

lemma wf_ok_first:
  assumes "applyEvent H None e False = Inr s"
  shows "wf_ok H s"
proof -
  from assms have a: "applySubmission e = Inr s" and e: "well_stamped H e" "ev_Sequence e = 1"
    by (simp_all add: applyEvent_None)
  obtain d where valid: "valid_definition d" and g: "gomap (wf_Tasks s)"
    and at: "\<And>i t. task_at s i = Some t \<longleftrightarrow> (\<exists>x \<in> set (wd_Tasks d). td_ID x = i \<and> t = initial_task x)"
    using a by (rule applySubmission_Inr) blast
  have "tasks_ok H s" using g at initial_task_ok [OF valid] by (auto simp: tasks_ok_def)
  moreover have "order_ok s"
    unfolding order_ok_iff
  proof (intro allI impI ballI)
    fix i t dep
    assume "task_at s i = Some t" "dep \<in> set (deps (ts_Definition t))"
    then obtain x where x: "x \<in> set (wd_Tasks d)" "t = initial_task x" "dep \<in> set (deps x)"
      using at by (auto simp: initial_task_def)
    with valid have "dep \<in> td_ID ` set (wd_Tasks d)"
      by (auto simp: valid_definition_def valid_links_def)
    then have "task_at s dep \<noteq> None" using at by (metis imageE option.distinct(1))
    moreover have "\<not> demands t" using x(2) by (simp add: demands_def settled_def initial_task_def)
    ultimately show "dep_ok s t dep" by (rule dep_ok_idle)
  qed
  moreover have "timers_ok s" "wf_Version s = 1" "wf_UpdatedAt s = ev_At e"
    using applySubmission_version [OF a] e by (simp_all add: timers_ok_def timer_at_def)
  ultimately show ?thesis using e by (simp add: wf_ok_def well_stamped_def)
qed

interpretation inv: kept_invariant "\<lambda>s e. applyEvent H s e False" wf_Version ev_Sequence "wf_ok H" addressed
  for H
proof unfold_locales
  show "wf_ok H s" if "applyEvent H None e False = Inr s" for e s
    using that by (rule wf_ok_first)
  show "wf_ok H s'" if "wf_ok H s" "applyEvent H (Some s) e False = Inr s'" "addressed e" for s e s'
    using that by (rule wf_ok_next)
qed

text \<open>On well-formed states the copying \<^verbatim>\<open>Apply\<close> and the in-place \<^verbatim>\<open>applyEvent\<close> agree.\<close>

lemma Apply_ok: "wf_ok H s \<Longrightarrow> Apply H (Some s) e = applyEvent H (Some s) e False"
  by (rule Apply_tidy [OF tasks_ok_tidy [OF wf_okD(1)]])

end
