(* ===== verification/Chronos_Plan.thy ===== *)
theory Chronos_Plan
  imports Chronos_Invariant
begin

text \<open>
  Commands: the event plan of \<^verbatim>\<open>internal/core/workflow_transitions.go\<close> and the \<^verbatim>\<open>decide...\<close>
  functions of \<^verbatim>\<open>internal/core/reducer.go\<close> and \<^verbatim>\<open>workflow_transitions.go\<close>. A plan collects the
  events of one command and applies each of them to its own state as it is added, so that the next
  decision sees its effect. The factory for plans is an argument, as in the source.
\<close>

section \<open>Event plans\<close>

record eventPlan =
  pl_state :: "WorkflowState option"
  pl_events :: "Event list"

type_synonym eventPlanFactory = "WorkflowState option \<Rightarrow> eventPlan"

definition newEventPlan :: eventPlanFactory where
  "newEventPlan state = \<lparr>pl_state = cloneStateForUpdate state, pl_events = []\<rparr>"

definition newStagedEventPlan :: eventPlanFactory where
  "newStagedEventPlan state = \<lparr>pl_state = state, pl_events = []\<rparr>"

text \<open>The copy of an event that \<^verbatim>\<open>add\<close> validates before it keeps the event itself.\<close>

definition validated_event :: "digest \<Rightarrow> eventPlan \<Rightarrow> Event \<Rightarrow> Event" where
  "validated_event H p event =
     (let sequence = (case pl_state p of None \<Rightarrow> 1 | Some s \<Rightarrow> wf_Version s + 1) in
      event\<lparr>ev_RequestID := ''plan'', ev_RequestHash := ''plan'', ev_Sequence := sequence,
            ev_ID := EventID H (ev_WorkflowID event) sequence (ev_Kind event)\<rparr>)"

definition plan_add :: "digest \<Rightarrow> eventPlan \<Rightarrow> Event \<Rightarrow> err + eventPlan" where
  "plan_add H p event =
     bindE (applyEvent H (pl_state p) (validated_event H p event) False) (\<lambda>next.
       Inr (p\<lparr>pl_state := Some next, pl_events := pl_events p @ [cloneEvent event]\<rparr>))"

text \<open>Reading \<^verbatim>\<open>plan.state\<close>: the source dereferences the pointer.\<close>

definition with_state :: "eventPlan \<Rightarrow> (WorkflowState \<Rightarrow> err + 'a) \<Rightarrow> err + 'a" where
  "with_state p f = (case pl_state p of None \<Rightarrow> Inl NilDereference | Some s \<Rightarrow> f s)"

definition timerEvent :: "EventKind \<Rightarrow> string \<Rightarrow> TimerState \<Rightarrow> int64 \<Rightarrow> Event" where
  "timerEvent kind workflowID timer at =
     (let copy = timer\<lparr>tm_Status :=
            (case kind of EventTimerFired \<Rightarrow> TimerFired | EventTimerCancelled \<Rightarrow> TimerCancelled
             | _ \<Rightarrow> TimerScheduled)\<rparr> in
      zero_Event\<lparr>ev_Kind := kind, ev_WorkflowID := workflowID, ev_TaskID := tm_TaskID timer,
        ev_AttemptID := tm_AttemptID timer, ev_Attempt := tm_Attempt timer, ev_At := at,
        ev_Fence := tm_Fence timer, ev_Timer := Some copy\<rparr>)"

definition addTimerCancellation ::
    "digest \<Rightarrow> eventPlan \<Rightarrow> TimerPurpose \<Rightarrow> string \<Rightarrow> string \<Rightarrow> int64 \<Rightarrow> err + eventPlan" where
  "addTimerCancellation H plan purpose taskID attemptID at =
     with_state plan (\<lambda>state.
       case scheduledTimer state purpose taskID attemptID of
         None \<Rightarrow> Inr plan
       | Some timer \<Rightarrow> plan_add H plan (timerEvent EventTimerCancelled (wf_ID state) timer at))"

definition add_ready :: "digest \<Rightarrow> int64 \<Rightarrow> eventPlan \<Rightarrow> string \<Rightarrow> err + eventPlan" where
  "add_ready H at plan i =
     with_state plan (\<lambda>state.
       let task = task_or_zero state i in
       if ts_Status task \<noteq> TaskPending \<or> ts_Compensation task then Inr plan
       else if scheduledTimer state TimerRetry i '''' \<noteq> None then Inr plan
       else if dependencies_completed state task then
         plan_add H plan (zero_Event\<lparr>ev_Kind := EventTaskReady, ev_WorkflowID := wf_ID state,
           ev_TaskID := i, ev_At := at\<rparr>)
       else Inr plan)"

definition addReadyTasks :: "digest \<Rightarrow> eventPlan \<Rightarrow> int64 \<Rightarrow> err + eventPlan" where
  "addReadyTasks H plan at =
     with_state plan (\<lambda>state.
       if wf_Status state \<noteq> WorkflowRunning then Inr plan
       else foldE (add_ready H at) plan (sortedTaskIDs state))"

text \<open>One round of the loop of \<^verbatim>\<open>materializeFanout\<close>: loop index, previous key, tasks so far.\<close>

definition materialize_one ::
    "digest \<Rightarrow> WorkflowState \<Rightarrow> TaskState \<Rightarrow> FanoutDefinition \<Rightarrow> nat \<times> string \<times> ExpandedTask list \<Rightarrow>
     FanoutItem \<Rightarrow> err + nat \<times> string \<times> ExpandedTask list" where
  "materialize_one H state task definition acc item =
     (case acc of (index, previous, result) \<Rightarrow>
        if blank (fi_Key item) \<or> 0 < index \<and> fi_Key item = previous then Inl ErrInvalidCommand
        else if task_at state (FanoutTaskID H (wf_ID state) (td_ID (ts_Definition task)) (fi_Key item)) \<noteq> None
          then Inl ErrInvalidTransition
        else Inr (Suc index, fi_Key item, result @
          [\<lparr>xt_Key = fi_Key item,
            xt_Definition = expanded_definition H (wf_ID state) (td_ID (ts_Definition task)) definition (fi_Key item),
            xt_Payload = cloneMap (fi_Payload item)\<rparr>]))"

definition materializeFanout ::
    "digest \<Rightarrow> WorkflowState \<Rightarrow> TaskState \<Rightarrow> FanoutItem slice \<Rightarrow> err + ExpandedTask slice" where
  "materializeFanout H state task items =
     (case td_Fanout (ts_Definition task) of
        None \<Rightarrow> if length (elems items) \<noteq> 0 then Inl ErrInvalidCommand else Inr None
      | Some definition \<Rightarrow>
          if fd_MaxItems definition < word_of_nat (length (elems items)) \<or>
             uint MaxFanoutItems < int (length (elems items))
          then Inl ErrInvalidCommand
          else bindE (foldE (materialize_one H state task definition) (0, '''', [])
              (elems (canonicalFanoutItems items))) (\<lambda>(index, previous, result). Inr (Some result)))"

definition add_cancellation :: "digest \<Rightarrow> int64 \<Rightarrow> string \<Rightarrow> eventPlan \<Rightarrow> string \<Rightarrow> err + eventPlan" where
  "add_cancellation H at reason plan i =
     with_state plan (\<lambda>state.
       let task = task_or_zero state i in
       if ts_Status task \<in> {TaskPending, TaskReady, TaskRunning} then
         plan_add H plan (zero_Event\<lparr>ev_Kind := EventTaskCancelled, ev_WorkflowID := wf_ID state,
           ev_TaskID := i, ev_AttemptID := ts_AttemptID task, ev_Attempt := ts_Attempt task,
           ev_WorkerID := ts_WorkerID task, ev_Fence := ts_Fence task, ev_At := at, ev_Reason := reason,
           ev_Compensation := ts_Compensation task\<rparr>)
       else Inr plan)"

definition addActiveCancellations :: "digest \<Rightarrow> eventPlan \<Rightarrow> int64 \<Rightarrow> string \<Rightarrow> err + eventPlan" where
  "addActiveCancellations H plan at reason =
     with_state plan (\<lambda>state. foldE (add_cancellation H at reason) plan (sortedTaskIDs state))"

definition add_timer_cancelled :: "digest \<Rightarrow> int64 \<Rightarrow> eventPlan \<Rightarrow> string \<Rightarrow> err + eventPlan" where
  "add_timer_cancelled H at plan i =
     with_state plan (\<lambda>state.
       plan_add H plan (timerEvent EventTimerCancelled (wf_ID state)
         (case timer_at state i of None \<Rightarrow> zero_TimerState | Some timer \<Rightarrow> timer) at))"

definition addScheduledTimerCancellations :: "digest \<Rightarrow> eventPlan \<Rightarrow> int64 \<Rightarrow> err + eventPlan" where
  "addScheduledTimerCancellations H plan at =
     with_state plan (\<lambda>state.
       foldE (add_timer_cancelled H at) plan
         (sort (map fst (filter (\<lambda>(i, timer). tm_Status timer = TimerScheduled) (wf_Timers state)))))"

definition compensating_event :: "string \<Rightarrow> string \<Rightarrow> int64 \<Rightarrow> string \<Rightarrow> Event" where
  "compensating_event workflowID taskID at reason =
     zero_Event\<lparr>ev_Kind := EventWorkflowCompensating, ev_WorkflowID := workflowID, ev_TaskID := taskID,
       ev_At := at, ev_Reason := reason\<rparr>"

definition failed_event :: "string \<Rightarrow> string \<Rightarrow> int64 \<Rightarrow> string \<Rightarrow> Event" where
  "failed_event workflowID taskID at error =
     zero_Event\<lparr>ev_Kind := EventWorkflowFailed, ev_WorkflowID := workflowID, ev_TaskID := taskID,
       ev_At := at, ev_Error := error\<rparr>"

definition addTerminalFailure :: "digest \<Rightarrow> eventPlan \<Rightarrow> string \<Rightarrow> string \<Rightarrow> int64 \<Rightarrow> err + eventPlan" where
  "addTerminalFailure H plan taskID reason at =
     bindE (addActiveCancellations H plan at reason) (\<lambda>plan.
     bindE (addScheduledTimerCancellations H plan at) (\<lambda>plan.
       with_state plan (\<lambda>state.
         let compensationTaskID = nextCompensation state in
         if compensationTaskID \<noteq> ''''
         then plan_add H plan (compensating_event (wf_ID state) compensationTaskID at reason)
         else plan_add H plan (failed_event (wf_ID state) taskID at reason))))"

definition addRetry :: "digest \<Rightarrow> eventPlan \<Rightarrow> string \<Rightarrow> bool \<Rightarrow> int64 \<Rightarrow> err + bool \<times> eventPlan" where
  "addRetry H plan taskID compensation at =
     with_state plan (\<lambda>state.
       let task = task_or_zero state taskID in
       if rp_MaxAttempts (td_Retry (ts_Definition task)) \<le> ts_RetryCount task + 1 then Inr (False, plan)
       else
         let delay = retryDelay (td_Retry (ts_Definition task)) (ts_RetryCount task) in
         if sub64 MaxInt64 delay < at then Inl ErrTimeOverflow
         else
           let timer = zero_TimerState\<lparr>
                 tm_ID := TimerID H (wf_ID state) taskID (timer_purpose_string TimerRetry) (ts_Attempt task),
                 tm_TaskID := taskID, tm_Purpose := TimerRetry, tm_Deadline := add64 at delay,
                 tm_AttemptID := ts_AttemptID task, tm_Attempt := ts_Attempt task, tm_Fence := ts_Fence task,
                 tm_Status := TimerScheduled\<rparr>
           in bindE (plan_add H plan (timerEvent EventTimerScheduled (wf_ID state) timer at)) (\<lambda>plan.
              bindE (with_state plan (\<lambda>state. plan_add H plan
                (zero_Event\<lparr>ev_Kind := EventTaskRetryScheduled, ev_WorkflowID := wf_ID state,
                  ev_TaskID := taskID, ev_AttemptID := ts_AttemptID task, ev_Attempt := ts_Attempt task,
                  ev_At := at, ev_Fence := ts_Fence task, ev_Timer := Some timer,
                  ev_Compensation := compensation\<rparr>))) (\<lambda>plan.
                Inr (True, plan))))"

section \<open>Commands\<close>

definition leasedTask :: "WorkflowState option \<Rightarrow> Command \<Rightarrow> err + TaskState" where
  "leasedTask state command =
     (case state of
        None \<Rightarrow> Inl ErrWorkflowNotFound
      | Some s \<Rightarrow>
          (case task_at s (cmd_TaskID command) of
             None \<Rightarrow> Inl ErrInvalidCommand
           | Some task \<Rightarrow>
               let forward = (wf_Status s = WorkflowRunning \<and> ts_Status task = TaskRunning \<and>
                     \<not> ts_Compensation task);
                   compensation = (wf_Status s = WorkflowCompensating \<and> ts_Status task = TaskCompensating \<and>
                     ts_WorkerID task \<noteq> '''' \<and> ts_Compensation task)
               in if \<not> forward \<and> \<not> compensation \<or> ts_AttemptID task \<noteq> cmd_AttemptID command \<or>
                     ts_WorkerID task \<noteq> cmd_WorkerID command \<or> ts_Fence task \<noteq> cmd_Fence command
                  then Inl ErrFenced else Inr task))"

definition activeTask :: "WorkflowState option \<Rightarrow> string \<Rightarrow> err + TaskState" where
  "activeTask state taskID =
     (case state of
        None \<Rightarrow> Inl ErrWorkflowNotFound
      | Some s \<Rightarrow>
          if wf_Status s \<noteq> WorkflowRunning \<and> wf_Status s \<noteq> WorkflowCompensating then Inl ErrInvalidTransition
          else case task_at s taskID of None \<Rightarrow> Inl ErrInvalidCommand | Some task \<Rightarrow> Inr task)"

definition decideSubmit :: "digest \<Rightarrow> WorkflowState option \<Rightarrow> Command \<Rightarrow> eventPlanFactory \<Rightarrow> err + eventPlan" where
  "decideSubmit H state command newPlan =
     (if state \<noteq> None then Inl ErrWorkflowExists
      else if blank (cmd_WorkflowID command) then Inl ErrInvalidCommand
      else bindE (ValidateDefinition (cmd_Definition command)) (\<lambda>_.
        case canonicalDefinition (cmd_Definition command) of
          None \<Rightarrow> Inl NilDereference
        | Some definition \<Rightarrow>
            bindE (plan_add H (newPlan None) (zero_Event\<lparr>ev_Kind := EventWorkflowSubmitted,
                ev_WorkflowID := cmd_WorkflowID command, ev_At := cmd_At command,
                ev_Definition := Some definition\<rparr>)) (\<lambda>plan.
              if cmd_At command < wd_StartAt definition then
                plan_add H plan (timerEvent EventTimerScheduled (cmd_WorkflowID command)
                  (zero_TimerState\<lparr>
                     tm_ID := TimerID H (cmd_WorkflowID command) '''' (timer_purpose_string TimerWorkflowStart) 0,
                     tm_Purpose := TimerWorkflowStart, tm_Deadline := wd_StartAt definition,
                     tm_Status := TimerScheduled\<rparr>) (cmd_At command))
              else addReadyTasks H plan (cmd_At command))))"

definition start_inputs :: "WorkflowState \<Rightarrow> TaskState \<Rightarrow> bool \<Rightarrow> (string, kvs) gomap" where
  "start_inputs state task compensation =
     fold (\<lambda>dependency inputs. if compensation then inputs
         else put dependency (cloneMap (ts_Output (task_or_zero state dependency))) inputs)
       (deps (ts_Definition task)) []"

definition decideStart :: "digest \<Rightarrow> WorkflowState option \<Rightarrow> Command \<Rightarrow> eventPlanFactory \<Rightarrow> err + eventPlan" where
  "decideStart H state command newPlan =
     bindE (activeTask state (cmd_TaskID command)) (\<lambda>task.
     case state of None \<Rightarrow> Inl NilDereference | Some s \<Rightarrow>
       let compensation = (wf_Status s = WorkflowCompensating \<and> ts_Status task = TaskCompensating \<and>
             ts_WorkerID task = '''' \<and> ts_Compensation task);
           attempt = ts_Attempt task + 1;
           timeout = td_TimeoutMillis (ts_Definition task)
       in if ts_Status task \<noteq> TaskReady \<and> \<not> compensation then Inl ErrInvalidTransition
       else if blank (cmd_AttemptID command) then Inl ErrInvalidCommand
       else if blank (cmd_WorkerID command) then Inl ErrInvalidCommand
       else if cmd_LeaseUntil command \<le> cmd_At command then Inl ErrInvalidCommand
       else if ts_Attempt task = MaxUint32 then Inl ErrAttemptOverflow
       else if ts_Fence task = MaxUint64 then Inl ErrFencingOverflow
       else if cmd_AttemptID command \<noteq> AttemptID H (wf_ID s) (cmd_TaskID command) attempt
         then Inl ErrInvalidCommand
       else bindE (plan_add H (newPlan state) (zero_Event\<lparr>ev_Kind := EventTaskStarted,
           ev_WorkflowID := wf_ID s, ev_TaskID := cmd_TaskID command, ev_AttemptID := cmd_AttemptID command,
           ev_Attempt := attempt, ev_At := cmd_At command, ev_Inputs := start_inputs s task compensation,
           ev_WorkerID := cmd_WorkerID command, ev_LeaseUntil := cmd_LeaseUntil command,
           ev_Fence := ts_Fence task + 1,
           ev_Idempotency := (if compensation then CompensationIdempotencyKey H (wf_ID s) (cmd_TaskID command)
             else IdempotencyKey H (wf_ID s) (cmd_TaskID command)),
           ev_Compensation := compensation\<rparr>)) (\<lambda>plan.
         if 0 < timeout then
           if sub64 MaxInt64 timeout < cmd_At command then Inl ErrTimeOverflow
           else
             let deadline = add64 (cmd_At command) timeout in
             if deadline < cmd_LeaseUntil command then Inl ErrInvalidCommand
             else with_state plan (\<lambda>started.
               plan_add H plan (timerEvent EventTimerScheduled (wf_ID s)
                 (zero_TimerState\<lparr>
                    tm_ID := TimerID H (wf_ID s) (cmd_TaskID command) (timer_purpose_string TimerTimeout) attempt,
                    tm_TaskID := cmd_TaskID command, tm_Purpose := TimerTimeout, tm_Deadline := deadline,
                    tm_AttemptID := cmd_AttemptID command, tm_Attempt := attempt,
                    tm_Fence := ts_Fence (task_or_zero started (cmd_TaskID command)),
                    tm_Status := TimerScheduled\<rparr>) (cmd_At command)))
         else Inr plan))"

text \<open>The end of a compensation: the next task to compensate, or the end of the workflow.\<close>

definition complete_compensation ::
    "digest \<Rightarrow> WorkflowState \<Rightarrow> TaskState \<Rightarrow> Command \<Rightarrow> eventPlan \<Rightarrow> err + eventPlan" where
  "complete_compensation H s task command plan =
     bindE (plan_add H plan (zero_Event\<lparr>ev_Kind := EventTaskCompensated, ev_WorkflowID := wf_ID s,
         ev_TaskID := cmd_TaskID command, ev_AttemptID := cmd_AttemptID command, ev_Attempt := ts_Attempt task,
         ev_At := cmd_At command, ev_Output := cloneMap (cmd_Output command),
         ev_WorkerID := cmd_WorkerID command, ev_LeaseUntil := ts_LeaseUntil task, ev_Fence := cmd_Fence command,
         ev_Idempotency := ts_Idempotency task, ev_Compensation := True\<rparr>)) (\<lambda>plan.
     bindE (addTimerCancellation H plan TimerTimeout (cmd_TaskID command) (cmd_AttemptID command)
         (cmd_At command)) (\<lambda>plan.
       with_state plan (\<lambda>state.
         let next = nextCompensation state in
         if next \<noteq> '''' then plan_add H plan (compensating_event (wf_ID s) next (cmd_At command) '''')
         else plan_add H plan (zero_Event\<lparr>ev_Kind := EventWorkflowCompensated, ev_WorkflowID := wf_ID s,
           ev_At := cmd_At command\<rparr>))))"

definition complete_fanout ::
    "digest \<Rightarrow> WorkflowState \<Rightarrow> TaskState \<Rightarrow> Command \<Rightarrow> eventPlan \<Rightarrow> err + eventPlan" where
  "complete_fanout H s task command plan =
     (if td_Fanout (ts_Definition task) \<noteq> None then
        with_state plan (\<lambda>state.
          bindE (materializeFanout H state task (cmd_Fanout command)) (\<lambda>expanded.
            plan_add H plan (zero_Event\<lparr>ev_Kind := EventFanoutExpanded, ev_WorkflowID := wf_ID s,
              ev_TaskID := cmd_TaskID command, ev_At := cmd_At command, ev_ExpandedTasks := expanded\<rparr>)))
      else if length (elems (cmd_Fanout command)) \<noteq> 0 then Inl ErrInvalidCommand
      else Inr plan)"

definition all_completed :: "WorkflowState \<Rightarrow> bool" where
  "all_completed state = list_all (\<lambda>task. ts_Status task = TaskCompleted) (map snd (wf_Tasks state))"

definition decideComplete :: "digest \<Rightarrow> WorkflowState option \<Rightarrow> Command \<Rightarrow> eventPlanFactory \<Rightarrow> err + eventPlan" where
  "decideComplete H state command newPlan =
     bindE (leasedTask state command) (\<lambda>task.
     case state of None \<Rightarrow> Inl NilDereference | Some s \<Rightarrow>
       if ts_LeaseUntil task \<le> cmd_At command then Inl ErrLeaseExpired
       else if timeout_blocks s (cmd_TaskID command) (cmd_AttemptID command)
          (\<lambda>timer. tm_Deadline timer \<le> cmd_At command) then Inl ErrLeaseExpired
       else if ts_Compensation task then complete_compensation H s task command (newPlan state)
       else
         bindE (plan_add H (newPlan state) (zero_Event\<lparr>ev_Kind := EventTaskCompleted,
             ev_WorkflowID := wf_ID s, ev_TaskID := cmd_TaskID command, ev_AttemptID := cmd_AttemptID command,
             ev_Attempt := ts_Attempt task, ev_At := cmd_At command, ev_Output := cloneMap (cmd_Output command),
             ev_WorkerID := cmd_WorkerID command, ev_LeaseUntil := ts_LeaseUntil task,
             ev_Fence := cmd_Fence command, ev_Idempotency := ts_Idempotency task\<rparr>)) (\<lambda>plan.
         bindE (addTimerCancellation H plan TimerTimeout (cmd_TaskID command) (cmd_AttemptID command)
             (cmd_At command)) (\<lambda>plan.
         bindE (complete_fanout H s task command plan) (\<lambda>plan.
         bindE (addReadyTasks H plan (cmd_At command)) (\<lambda>plan.
           with_state plan (\<lambda>state.
             if all_completed state
             then plan_add H plan (zero_Event\<lparr>ev_Kind := EventWorkflowCompleted, ev_WorkflowID := wf_ID s,
               ev_At := cmd_At command\<rparr>)
             else Inr plan))))))"

text \<open>What follows a failed attempt: a retry, or the failure of the workflow.\<close>

definition after_failure ::
    "digest \<Rightarrow> WorkflowState \<Rightarrow> string \<Rightarrow> bool \<Rightarrow> int64 \<Rightarrow> string \<Rightarrow> string \<Rightarrow> eventPlan \<Rightarrow> err + eventPlan" where
  "after_failure H s taskID compensation at error reason plan =
     bindE (addRetry H plan taskID compensation at) (\<lambda>(retried, plan).
       if retried then Inr plan
       else if compensation then plan_add H plan (failed_event (wf_ID s) taskID at error)
       else addTerminalFailure H plan taskID reason at)"

definition decideFail :: "digest \<Rightarrow> WorkflowState option \<Rightarrow> Command \<Rightarrow> eventPlanFactory \<Rightarrow> err + eventPlan" where
  "decideFail H state command newPlan =
     bindE (leasedTask state command) (\<lambda>task.
     case state of None \<Rightarrow> Inl NilDereference | Some s \<Rightarrow>
       if ts_LeaseUntil task \<le> cmd_At command then Inl ErrLeaseExpired
       else if blank (cmd_Error command) then Inl ErrInvalidCommand
       else if timeout_blocks s (cmd_TaskID command) (cmd_AttemptID command)
          (\<lambda>timer. tm_Deadline timer \<le> cmd_At command) then Inl ErrLeaseExpired
       else
         bindE (plan_add H (newPlan state) (zero_Event\<lparr>ev_Kind := EventTaskFailed,
             ev_WorkflowID := wf_ID s, ev_TaskID := cmd_TaskID command, ev_AttemptID := cmd_AttemptID command,
             ev_Attempt := ts_Attempt task, ev_At := cmd_At command, ev_Error := cmd_Error command,
             ev_WorkerID := cmd_WorkerID command, ev_LeaseUntil := ts_LeaseUntil task,
             ev_Fence := cmd_Fence command, ev_Idempotency := ts_Idempotency task,
             ev_Compensation := ts_Compensation task\<rparr>)) (\<lambda>plan.
         bindE (addTimerCancellation H plan TimerTimeout (cmd_TaskID command) (cmd_AttemptID command)
             (cmd_At command)) (\<lambda>plan.
           after_failure H s (cmd_TaskID command) (ts_Compensation task) (cmd_At command)
             (cmd_Error command) (cmd_Error command) plan)))"

definition decideRenew :: "digest \<Rightarrow> WorkflowState option \<Rightarrow> Command \<Rightarrow> eventPlanFactory \<Rightarrow> err + eventPlan" where
  "decideRenew H state command newPlan =
     bindE (leasedTask state command) (\<lambda>task.
     case state of None \<Rightarrow> Inl NilDereference | Some s \<Rightarrow>
       if ts_LeaseUntil task \<le> cmd_At command then Inl ErrLeaseExpired
       else if cmd_LeaseUntil command \<le> ts_LeaseUntil task then Inl ErrInvalidCommand
       else if timeout_blocks s (cmd_TaskID command) (cmd_AttemptID command)
          (\<lambda>timer. tm_Deadline timer < cmd_LeaseUntil command) then Inl ErrInvalidCommand
       else plan_add H (newPlan state) (zero_Event\<lparr>ev_Kind := EventLeaseRenewed,
             ev_WorkflowID := wf_ID s, ev_TaskID := cmd_TaskID command, ev_AttemptID := cmd_AttemptID command,
             ev_Attempt := ts_Attempt task, ev_At := cmd_At command, ev_WorkerID := cmd_WorkerID command,
             ev_LeaseUntil := cmd_LeaseUntil command, ev_Fence := cmd_Fence command,
             ev_Idempotency := ts_Idempotency task, ev_Compensation := ts_Compensation task\<rparr>))"

definition decideExpire :: "digest \<Rightarrow> WorkflowState option \<Rightarrow> Command \<Rightarrow> eventPlanFactory \<Rightarrow> err + eventPlan" where
  "decideExpire H state command newPlan =
     bindE (leasedTask state command) (\<lambda>task.
     case state of None \<Rightarrow> Inl NilDereference | Some s \<Rightarrow>
       if cmd_At command < ts_LeaseUntil task then Inl ErrInvalidTransition
       else if timeout_blocks s (cmd_TaskID command) (cmd_AttemptID command)
          (\<lambda>timer. tm_Deadline timer \<le> ts_LeaseUntil task \<and> tm_Deadline timer \<le> cmd_At command)
         then Inl ErrInvalidTransition
       else
         bindE (plan_add H (newPlan state) (zero_Event\<lparr>ev_Kind := EventLeaseExpired,
             ev_WorkflowID := wf_ID s, ev_TaskID := cmd_TaskID command, ev_AttemptID := cmd_AttemptID command,
             ev_Attempt := ts_Attempt task, ev_At := cmd_At command, ev_WorkerID := cmd_WorkerID command,
             ev_LeaseUntil := ts_LeaseUntil task, ev_Fence := cmd_Fence command,
             ev_Idempotency := ts_Idempotency task, ev_Compensation := ts_Compensation task\<rparr>)) (\<lambda>plan.
           addTimerCancellation H plan TimerTimeout (cmd_TaskID command) (cmd_AttemptID command)
             (cmd_At command)))"

text \<open>The three cases of \<^verbatim>\<open>decideFireTimer\<close>, after the timer itself has fired.\<close>

definition fire_timeout :: "digest \<Rightarrow> WorkflowState \<Rightarrow> Command \<Rightarrow> TimerState \<Rightarrow> eventPlan \<Rightarrow> err + eventPlan" where
  "fire_timeout H s command timer plan =
     with_state plan (\<lambda>state.
       case task_at state (tm_TaskID timer) of
         None \<Rightarrow> Inl ErrFenced
       | Some task \<Rightarrow>
           if ts_AttemptID task \<noteq> tm_AttemptID timer \<or> ts_Fence task \<noteq> tm_Fence timer then Inl ErrFenced
           else if ts_LeaseUntil task < tm_Deadline timer then Inl ErrInvalidTransition
           else
             bindE (plan_add H plan (zero_Event\<lparr>ev_Kind := EventTaskTimedOut, ev_WorkflowID := wf_ID s,
                 ev_TaskID := tm_TaskID timer, ev_AttemptID := tm_AttemptID timer, ev_Attempt := tm_Attempt timer,
                 ev_At := cmd_At command, ev_WorkerID := ts_WorkerID task, ev_LeaseUntil := ts_LeaseUntil task,
                 ev_Fence := tm_Fence timer, ev_Idempotency := ts_Idempotency task,
                 ev_Error := ''task timed out'', ev_Compensation := ts_Compensation task\<rparr>)) (\<lambda>plan.
               after_failure H s (tm_TaskID timer) (ts_Compensation task) (cmd_At command)
                 ''compensation timed out'' ''task timed out'' plan))"

definition decideFireTimer :: "digest \<Rightarrow> WorkflowState option \<Rightarrow> Command \<Rightarrow> eventPlanFactory \<Rightarrow> err + eventPlan" where
  "decideFireTimer H state command newPlan =
     (case state of
        None \<Rightarrow> Inl ErrWorkflowNotFound
      | Some s \<Rightarrow>
          (case timer_at s (cmd_TimerID command) of
             None \<Rightarrow> Inl ErrInvalidTransition
           | Some timer \<Rightarrow>
               if tm_Status timer \<noteq> TimerScheduled then Inl ErrInvalidTransition
               else if cmd_At command < tm_Deadline timer then Inl ErrInvalidTransition
               else
                 bindE (plan_add H (newPlan state)
                     (timerEvent EventTimerFired (wf_ID s) timer (cmd_At command))) (\<lambda>plan.
                   case tm_Purpose timer of
                     TimerWorkflowStart \<Rightarrow>
                       bindE (plan_add H plan (zero_Event\<lparr>ev_Kind := EventWorkflowStarted,
                           ev_WorkflowID := wf_ID s, ev_At := cmd_At command, ev_Timer := Some timer\<rparr>)) (\<lambda>plan.
                         addReadyTasks H plan (cmd_At command))
                   | TimerRetry \<Rightarrow>
                       plan_add H plan (zero_Event\<lparr>ev_Kind := EventTaskReady, ev_WorkflowID := wf_ID s,
                         ev_TaskID := tm_TaskID timer, ev_At := cmd_At command, ev_Timer := Some timer\<rparr>)
                   | TimerTimeout \<Rightarrow> fire_timeout H s command timer plan
                   | PurposeOther _ \<Rightarrow> Inl ErrInvalidTransition)))"

definition decideCancel :: "digest \<Rightarrow> WorkflowState option \<Rightarrow> Command \<Rightarrow> eventPlanFactory \<Rightarrow> err + eventPlan" where
  "decideCancel H state command newPlan =
     (case state of
        None \<Rightarrow> Inl ErrWorkflowNotFound
      | Some s \<Rightarrow>
          if wf_Status s \<noteq> WorkflowScheduled \<and> wf_Status s \<noteq> WorkflowRunning then Inl ErrInvalidTransition
          else
            let reason = TrimSpace (cmd_Reason command) in
            if reason = '''' then Inl ErrInvalidCommand
            else
              bindE (plan_add H (newPlan state) (zero_Event\<lparr>ev_Kind := EventWorkflowCancellationRequested,
                  ev_WorkflowID := wf_ID s, ev_At := cmd_At command, ev_Reason := reason\<rparr>)) (\<lambda>plan.
              bindE (addActiveCancellations H plan (cmd_At command) reason) (\<lambda>plan.
              bindE (addScheduledTimerCancellations H plan (cmd_At command)) (\<lambda>plan.
                with_state plan (\<lambda>current.
                  let taskID = nextCompensation current in
                  if taskID \<noteq> '''' then plan_add H plan (compensating_event (wf_ID s) taskID (cmd_At command) reason)
                  else plan_add H plan (zero_Event\<lparr>ev_Kind := EventWorkflowCancelled, ev_WorkflowID := wf_ID s,
                    ev_At := cmd_At command, ev_Reason := reason\<rparr>))))))"

definition decideCommand :: "digest \<Rightarrow> WorkflowState option \<Rightarrow> Command \<Rightarrow> eventPlanFactory \<Rightarrow> err + eventPlan" where
  "decideCommand H state command newPlan =
     (if blank (cmd_RequestID command) then Inl ErrInvalidCommand
      else if cmd_At command < 0 then Inl ErrInvalidCommand
      else if (case state of None \<Rightarrow> False | Some s \<Rightarrow> cmd_At command < wf_UpdatedAt s) then Inl ErrTimeRegression
      else case cmd_Kind command of
        CommandSubmit \<Rightarrow> decideSubmit H state command newPlan
      | CommandStart \<Rightarrow> decideStart H state command newPlan
      | CommandComplete \<Rightarrow> decideComplete H state command newPlan
      | CommandFail \<Rightarrow> decideFail H state command newPlan
      | CommandRenew \<Rightarrow> decideRenew H state command newPlan
      | CommandExpire \<Rightarrow> decideExpire H state command newPlan
      | CommandFireTimer \<Rightarrow> decideFireTimer H state command newPlan
      | CommandCancel \<Rightarrow> decideCancel H state command newPlan
      | CommandOther _ \<Rightarrow> Inl ErrInvalidCommand)"

definition decidePlan :: "digest \<Rightarrow> WorkflowState option \<Rightarrow> Command \<Rightarrow> err + eventPlan" where
  "decidePlan H state command = decideCommand H state command newEventPlan"

definition decideStagedPlan :: "digest \<Rightarrow> WorkflowState option \<Rightarrow> Command \<Rightarrow> err + eventPlan" where
  "decideStagedPlan H state command = decideCommand H state command newStagedEventPlan"

definition Decide :: "digest \<Rightarrow> WorkflowState option \<Rightarrow> Command \<Rightarrow> err + Event list" where
  "Decide H state command = bindE (decidePlan H state command) (\<lambda>plan. Inr (pl_events plan))"

end
