(* ===== verification/Chronos_Planned.thy ===== *)
theory Chronos_Planned
  imports Chronos_Plan
begin

text \<open>
  What is true of every plan. \<open>planned\<close> is the closure of plans under \<^verbatim>\<open>add\<close>; every decision
  function yields a planned plan. By rule induction over \<open>planned\<close>: the state of a plan is
  well-formed, and it is exactly the state that replaying the stamped events of the plan produces.
\<close>

section \<open>Plans as reachable states\<close>

inductive planned :: "digest \<Rightarrow> WorkflowState option \<Rightarrow> eventPlan \<Rightarrow> bool" for H s0 where
  empty: "planned H s0 \<lparr>pl_state = s0, pl_events = []\<rparr>"
| add: "planned H s0 p \<Longrightarrow> plan_add H p e = Inr p' \<Longrightarrow> addressed e \<Longrightarrow> planned H s0 p'"

lemma planned_new [intro]: "planned H s0 (newEventPlan s0)" "planned H s0 (newStagedEventPlan s0)"
  by (auto simp: newEventPlan_def newStagedEventPlan_def intro: planned.empty)

definition factory :: "eventPlanFactory \<Rightarrow> bool" where
  "factory f \<longleftrightarrow> f = newEventPlan \<or> f = newStagedEventPlan"

lemma factory_eq: "factory f \<Longrightarrow> f s = \<lparr>pl_state = s, pl_events = []\<rparr>"
  by (auto simp: factory_def newEventPlan_def newStagedEventPlan_def)

lemma planned_factory: "factory f \<Longrightarrow> planned H s (f s)"
  by (simp add: factory_eq planned.empty)

lemma ensures_with_state [wp]:
  "ensures (with_state p f) Q \<longleftrightarrow> (\<forall>s. pl_state p = Some s \<longrightarrow> ensures (f s) Q)"
  by (auto simp: with_state_def split: option.splits)

lemma addressed_kind [simp]: "ev_Kind e \<noteq> EventWorkflowCompensating \<Longrightarrow> addressed e"
  by (simp add: addressed_def)

lemma addressed_compensating [simp]: "taskID \<noteq> '''' \<Longrightarrow> addressed (compensating_event w taskID at reason)"
  by (simp add: addressed_def compensating_event_def)

lemma ev_Kind_events [simp]:
  "ev_Kind (timerEvent k w timer at) = k" "ev_Kind (failed_event w i at x) = EventWorkflowFailed"
  by (simp_all add: timerEvent_def failed_event_def Let_def)

text \<open>The events that end a workflow.\<close>

definition ending :: "EventKind \<Rightarrow> bool" where
  "ending k \<longleftrightarrow> k \<in> {EventWorkflowCompleted, EventWorkflowFailed, EventWorkflowCancelled, EventWorkflowCompensated}"

lemma ending_simps [simp]:
  "\<not> ending EventWorkflowSubmitted" "\<not> ending EventTaskReady" "\<not> ending EventTaskStarted"
  "\<not> ending EventTaskCompleted" "\<not> ending EventTaskFailed" "\<not> ending EventLeaseRenewed"
  "\<not> ending EventLeaseExpired" "\<not> ending EventWorkflowStarted" "\<not> ending EventFanoutExpanded"
  "\<not> ending EventTimerScheduled" "\<not> ending EventTimerFired" "\<not> ending EventTimerCancelled"
  "\<not> ending EventTaskRetryScheduled" "\<not> ending EventTaskTimedOut" "\<not> ending EventTaskCancelled"
  "\<not> ending EventWorkflowCancellationRequested" "\<not> ending EventWorkflowCompensating"
  "\<not> ending EventTaskCompensated" "ending EventWorkflowCompleted" "ending EventWorkflowFailed"
  "ending EventWorkflowCancelled" "ending EventWorkflowCompensated"
  by (simp_all add: ending_def)

lemma ev_Kind_compensating [simp]: "ev_Kind (compensating_event w i at r) = EventWorkflowCompensating"
  by (simp add: compensating_event_def)

lemma ensures_purpose [wp]:
  "ensures (case x of TimerWorkflowStart \<Rightarrow> a | TimerRetry \<Rightarrow> b | TimerTimeout \<Rightarrow> c | PurposeOther y \<Rightarrow> d y) Q \<longleftrightarrow>
     (x = TimerWorkflowStart \<longrightarrow> ensures a Q) \<and> (x = TimerRetry \<longrightarrow> ensures b Q) \<and>
     (x = TimerTimeout \<longrightarrow> ensures c Q) \<and> (\<forall>y. x = PurposeOther y \<longrightarrow> ensures (d y) Q)"
  by (cases x) simp_all

lemmas lookup_calls =
  ensuresI [where m = "leasedTask s c" for s c] ensuresI [where m = "activeTask s i" for s i]
  ensuresI [where m = "ValidateDefinition d" for d]
  ensuresI [where m = "materializeFanout H s t items" for H s t items]

lemmas decide_defs =
  decideSubmit_def decideStart_def decideComplete_def decideFail_def decideRenew_def decideExpire_def
  decideFireTimer_def decideCancel_def

section \<open>Invariants of plans\<close>

text \<open>
  An invariant of plans that adding an event keeps, for every event that neither submits nor ends the
  workflow nor starts an attempt. Each rule discharges the postcondition of whatever follows the call.
\<close>

locale plan_invariant =
  fixes H :: digest and I :: "eventPlan \<Rightarrow> bool" and ok :: "Event \<Rightarrow> bool"
  assumes keep: "I p \<Longrightarrow> ok e \<Longrightarrow> plan_add H p e = Inr q \<Longrightarrow> I q"
    and ok_inner: "addressed e \<Longrightarrow> \<not> ending (ev_Kind e) \<Longrightarrow> ev_Kind e \<noteq> EventWorkflowSubmitted \<Longrightarrow>
      ev_Kind e \<noteq> EventTaskStarted \<Longrightarrow> ok e"
begin

lemma add: "I p \<Longrightarrow> ok e \<Longrightarrow> (\<And>q. I q \<Longrightarrow> Q q) \<Longrightarrow> ensures (plan_add H p e) Q"
  by (auto simp: ensures_iff intro: keep)

lemma inner:
  "I p \<Longrightarrow> addressed e \<Longrightarrow> \<not> ending (ev_Kind e) \<Longrightarrow> ev_Kind e \<noteq> EventWorkflowSubmitted \<Longrightarrow>
   ev_Kind e \<noteq> EventTaskStarted \<Longrightarrow> (\<And>q. I q \<Longrightarrow> Q q) \<Longrightarrow> ensures (plan_add H p e) Q"
  by (rule add [OF _ ok_inner])

lemma timer_cancellation:
  "I p \<Longrightarrow> (\<And>q. I q \<Longrightarrow> Q q) \<Longrightarrow> ensures (addTimerCancellation H p purpose i a at) Q"
  by (auto simp: addTimerCancellation_def wp intro!: inner)

lemma over:
  assumes "I p" "\<And>q. I q \<Longrightarrow> Q q" "\<And>q i. I q \<Longrightarrow> ensures (f q i) I"
  shows "ensures (foldE f p xs) Q"
  using assms by (blast intro: ensures_weaken ensures_foldE)

lemma ready_tasks: "I p \<Longrightarrow> (\<And>q. I q \<Longrightarrow> Q q) \<Longrightarrow> ensures (addReadyTasks H p at) Q"
  by (auto simp: addReadyTasks_def add_ready_def wp Let_def intro!: over inner)

lemma active_cancellations: "I p \<Longrightarrow> (\<And>q. I q \<Longrightarrow> Q q) \<Longrightarrow> ensures (addActiveCancellations H p at r) Q"
  by (auto simp: addActiveCancellations_def add_cancellation_def wp Let_def intro!: over inner)

lemma scheduled_cancellations: "I p \<Longrightarrow> (\<And>q. I q \<Longrightarrow> Q q) \<Longrightarrow> ensures (addScheduledTimerCancellations H p at) Q"
  by (auto simp: addScheduledTimerCancellations_def add_timer_cancelled_def wp intro!: over inner)

lemma retry: "I p \<Longrightarrow> (\<And>b q. I q \<Longrightarrow> Q (b, q)) \<Longrightarrow> ensures (addRetry H p i c at) Q"
  by (auto simp: addRetry_def wp Let_def intro!: inner)

lemma fanout: "I p \<Longrightarrow> (\<And>q. I q \<Longrightarrow> Q q) \<Longrightarrow> ensures (complete_fanout H s t c p) Q"
  by (auto simp: complete_fanout_def wp intro!: inner lookup_calls)

lemmas calls = timer_cancellation ready_tasks active_cancellations scheduled_cancellations retry fanout

end

text \<open>When the ending events keep the invariant as well, so does every command that does not start an attempt.\<close>

locale steady_plan_invariant = plan_invariant +
  assumes ok_outer: "addressed e \<Longrightarrow> ev_Kind e \<noteq> EventWorkflowSubmitted \<Longrightarrow> ev_Kind e \<noteq> EventTaskStarted \<Longrightarrow> ok e"
begin

lemma outer:
  "I p \<Longrightarrow> addressed e \<Longrightarrow> ev_Kind e \<noteq> EventWorkflowSubmitted \<Longrightarrow> ev_Kind e \<noteq> EventTaskStarted \<Longrightarrow>
   (\<And>q. I q \<Longrightarrow> Q q) \<Longrightarrow> ensures (plan_add H p e) Q"
  by (rule add [OF _ ok_outer])

lemma tails:
  "I p \<Longrightarrow> ensures (addTerminalFailure H p i r at) I"
  "I p \<Longrightarrow> ensures (after_failure H s i c at x r p) I"
  "I p \<Longrightarrow> ensures (complete_compensation H s t cmd p) I"
  "I p \<Longrightarrow> ensures (fire_timeout H s cmd timer p) I"
  by (auto simp: addTerminalFailure_def after_failure_def complete_compensation_def fire_timeout_def wp Let_def
      intro!: outer calls)

lemma decides:
  assumes "I (f s)"
  shows "ensures (decideRenew H s c f) I" "ensures (decideExpire H s c f) I"
    "ensures (decideFail H s c f) I" "ensures (decideComplete H s c f) I"
    "ensures (decideFireTimer H s c f) I" "ensures (decideCancel H s c f) I"
  using assms by (auto simp: decide_defs wp Let_def intro!: outer calls tails lookup_calls)

lemma decides_submit:
  assumes "I (f s)"
    and "\<And>d. canonicalDefinition (cmd_Definition c) = Some d \<Longrightarrow> ok (zero_Event\<lparr>ev_Kind := EventWorkflowSubmitted, ev_WorkflowID := cmd_WorkflowID c, ev_At := cmd_At c,
      ev_Definition := Some d\<rparr>)"
  shows "ensures (decideSubmit H s c f) I"
  using assms(1) by (cases s) (auto simp: decideSubmit_def wp intro!: add calls lookup_calls intro: ok_outer assms(2))

lemma decideCommand_steady:
  assumes "I (f s)" "cmd_Kind c \<noteq> CommandStart"
    and "\<And>d. canonicalDefinition (cmd_Definition c) = Some d \<Longrightarrow> ok (zero_Event\<lparr>ev_Kind := EventWorkflowSubmitted, ev_WorkflowID := cmd_WorkflowID c, ev_At := cmd_At c,
      ev_Definition := Some d\<rparr>)"
    and "decideCommand H s c f = Inr p"
  shows "I p"
proof -
  have "ensures (decideCommand H s c f) I"
    using decides [of f s c, OF assms(1)] decides_submit [of f s c, OF assms(1,3)] assms(2)
    by (simp add: decideCommand_def wp split: CommandKind.split)
  with assms(4) show ?thesis by (rule ensuresD [rotated])
qed

end

text \<open>And when the start of an attempt keeps it too, every command does.\<close>

locale total_plan_invariant = steady_plan_invariant +
  assumes ok_start: "ev_Kind e = EventTaskStarted \<Longrightarrow> ok e"
begin

lemma any:
  "I p \<Longrightarrow> addressed e \<Longrightarrow> ev_Kind e \<noteq> EventWorkflowSubmitted \<Longrightarrow> (\<And>q. I q \<Longrightarrow> Q q) \<Longrightarrow> ensures (plan_add H p e) Q"
  using ok_start ok_outer by (blast intro: add)

lemma decides_start: "I (f s) \<Longrightarrow> ensures (decideStart H s c f) I"
  by (auto simp: decideStart_def wp Let_def intro!: any lookup_calls)

lemma decideCommand:
  assumes "I (f s)"
    and "\<And>d. canonicalDefinition (cmd_Definition c) = Some d \<Longrightarrow> ok (zero_Event\<lparr>ev_Kind := EventWorkflowSubmitted, ev_WorkflowID := cmd_WorkflowID c, ev_At := cmd_At c,
      ev_Definition := Some d\<rparr>)"
    and "decideCommand H s c f = Inr p"
  shows "I p"
proof (cases "cmd_Kind c = CommandStart")
  case True
  then have "ensures (decideCommand H s c f) I"
    using decides_start [of f s c, OF assms(1)] by (simp add: decideCommand_def wp)
  with assms(3) show ?thesis by (rule ensuresD [rotated])
next
  case False
  then show ?thesis using decideCommand_steady [of f s c p] assms by blast
qed

end

interpretation plans: total_plan_invariant H "planned H s0" addressed for H s0
  by unfold_locales (auto intro: planned.add)

lemma planned_decideCommand:
  assumes "factory f" "decideCommand H s c f = Inr p"
  shows "planned H s p"
  using plans.decideCommand [OF planned_factory [OF assms(1)] _ assms(2)] by simp

section \<open>What an event's copy and its stamp do not change\<close>

lemma validateExpandedTask_clone:
  "validateExpandedTask H p (x\<lparr>xt_Definition := cloneTaskDefinition (xt_Definition x)\<rparr>) w =
   validateExpandedTask H p x w"
proof -
  have "cloneTaskDefinition d = expanded_definition H w i f k \<longleftrightarrow> d = expanded_definition H w i f k" for d i f k
  proof
    assume eq: "cloneTaskDefinition d = expanded_definition H w i f k"
    from arg_cong [OF eq, of td_Dependencies] have "td_Dependencies d = cloneStrings (td_Dependencies d)"
      by (auto simp: expanded_definition_def cloneStrings_def split: option.splits if_splits)
    then have "cloneTaskDefinition d = d" by (simp add: cloneTaskDefinition_eq)
    with eq show "d = expanded_definition H w i f k" by simp
  qed (simp add: expanded_definition_def cloneTaskDefinition_eq cloneStrings_def)
  then show ?thesis by (simp add: validateExpandedTask_def split: option.split)
qed

lemma expand_one_clone:
  "expand_one H p acc (x\<lparr>xt_Definition := cloneTaskDefinition (xt_Definition x)\<rparr>) = expand_one H p acc x"
  by (simp add: expand_one_def validateExpandedTask_clone split: prod.split)

lemma cloneExpandedTasks_eq:
  "cloneExpandedTasks xs = map_option (map (\<lambda>x. x\<lparr>xt_Definition := cloneTaskDefinition (xt_Definition x)\<rparr>)) xs"
proof -
  have "(\<lambda>x. \<lparr>xt_Key = xt_Key x, xt_Definition = cloneTaskDefinition (xt_Definition x), xt_Payload = xt_Payload x\<rparr>)
      = (\<lambda>x. x\<lparr>xt_Definition := cloneTaskDefinition (xt_Definition x)\<rparr>)"
    by (rule ext) simp
  then show ?thesis by (simp add: cloneExpandedTasks_def)
qed

lemma foldE_map: "foldE f s (map g xs) = foldE (\<lambda>s x. f s (g x)) s xs"
  by (induction xs arbitrary: s) simp_all

lemma expand_all_clone:
  "foldE (expand_one H p) acc (elems (cloneExpandedTasks xs)) = foldE (expand_one H p) acc (elems xs)"
  by (cases xs) (simp_all add: cloneExpandedTasks_eq foldE_map expand_one_clone)

lemma length_cloneExpandedTasks [simp]: "length (elems (cloneExpandedTasks xs)) = length (elems xs)"
  by (cases xs) (simp_all add: cloneExpandedTasks_eq)

lemmas handler_defs =
  applyReady_def applyStarted_def applyCompleted_def applyFailed_def applyRenewed_def applyExpired_def
  applyWorkflowFailed_def applyTimerScheduled_def applyTimerTransition_def applyWorkflowStarted_def
  applyTaskRetryScheduled_def applyTaskTimedOut_def applyTaskCancelled_def applyWorkflowCompensating_def
  applyTaskCompensated_def

lemmas event_views = forward_lease_def compensation_lease_def same_attempt_def timerEventMatches_def cancel_guard_def

lemma dispatch_clone: "dispatch H s (cloneEvent e) = dispatch H s e"
  unfolding dispatch_def handler_defs event_views applyFanoutExpanded_def cloneEvent_fields
    expand_all_clone length_cloneExpandedTasks by (rule refl)

lemma applySubmission_clone: "applySubmission (cloneEvent e) = Inr s \<longleftrightarrow> applySubmission e = Inr s"
proof (cases "ev_Definition e")
  case None
  then show ?thesis by (simp add: applySubmission_def cloneDefinition_def)
next
  case (Some d)
  obtain d' where d': "cloneDefinition (Some d) = Some d'" by (simp add: cloneDefinition_def)
  have "ValidateDefinition (Some d') = Inr () \<longleftrightarrow> ValidateDefinition (Some d) = Inr ()"
    using valid_cloneDefinition [OF d'] by (simp add: ValidateDefinition_iff)
  moreover obtain c where "canonicalDefinition (Some d) = Some c" by (simp add: canonicalDefinition_Some)
  moreover from this have "canonicalDefinition (Some d') = Some c"
    using canonicalDefinition_clone [of "Some d"] d' by simp
  ultimately show ?thesis
    using Some d' by (auto simp: applySubmission_def result_simps)
qed

text \<open>The stamp that \<^verbatim>\<open>prepareWith\<close> puts on the events of a plan.\<close>

definition stamp_event :: "digest \<Rightarrow> string \<Rightarrow> string \<Rightarrow> uint64 \<Rightarrow> Event \<Rightarrow> Event" where
  "stamp_event H requestID hash sequence event =
     event\<lparr>ev_Sequence := sequence, ev_ID := EventID H (ev_WorkflowID event) sequence (ev_Kind event),
           ev_RequestID := requestID, ev_RequestHash := hash\<rparr>"

fun stamp_events :: "digest \<Rightarrow> string \<Rightarrow> string \<Rightarrow> uint64 \<Rightarrow> Event list \<Rightarrow> Event list" where
  "stamp_events H requestID hash sequence [] = []"
| "stamp_events H requestID hash sequence (event # events) =
     stamp_event H requestID hash (sequence + 1) event #
     stamp_events H requestID hash (sequence + 1) events"

lemma stamp_event_fields [simp]:
  "ev_ID (stamp_event H r h n e) = EventID H (ev_WorkflowID e) n (ev_Kind e)"
  "ev_Kind (stamp_event H r h n e) = ev_Kind e" "ev_Sequence (stamp_event H r h n e) = n"
  "ev_RequestID (stamp_event H r h n e) = r" "ev_RequestHash (stamp_event H r h n e) = h"
  "ev_WorkflowID (stamp_event H r h n e) = ev_WorkflowID e" "ev_TaskID (stamp_event H r h n e) = ev_TaskID e"
  "ev_AttemptID (stamp_event H r h n e) = ev_AttemptID e" "ev_Attempt (stamp_event H r h n e) = ev_Attempt e"
  "ev_At (stamp_event H r h n e) = ev_At e" "ev_Definition (stamp_event H r h n e) = ev_Definition e"
  "ev_Inputs (stamp_event H r h n e) = ev_Inputs e" "ev_Output (stamp_event H r h n e) = ev_Output e"
  "ev_Error (stamp_event H r h n e) = ev_Error e" "ev_WorkerID (stamp_event H r h n e) = ev_WorkerID e"
  "ev_LeaseUntil (stamp_event H r h n e) = ev_LeaseUntil e" "ev_Fence (stamp_event H r h n e) = ev_Fence e"
  "ev_Idempotency (stamp_event H r h n e) = ev_Idempotency e" "ev_Timer (stamp_event H r h n e) = ev_Timer e"
  "ev_ExpandedTasks (stamp_event H r h n e) = ev_ExpandedTasks e"
  "ev_Reason (stamp_event H r h n e) = ev_Reason e" "ev_Compensation (stamp_event H r h n e) = ev_Compensation e"
  by (simp_all add: stamp_event_def)

lemma length_stamp_events [simp]: "length (stamp_events H r h n es) = length es"
  by (induction es arbitrary: n) simp_all

lemma stamp_events_append:
  "stamp_events H r h n (es @ fs) = stamp_events H r h n es @ stamp_events H r h (n + of_nat (length es)) fs"
  by (induction es arbitrary: n) (simp_all add: algebra_simps)

lemma stamp_events_fields:
  "x \<in> set (stamp_events H r h n es) \<Longrightarrow> ev_RequestID x = r \<and> ev_RequestHash x = h"
  by (induction es arbitrary: n) auto

lemma stamp_event_clone: "stamp_event H r h n (cloneEvent e) = cloneEvent (stamp_event H r h n e)"
  by (simp add: stamp_event_def cloneEvent_eq)

text \<open>Neither the copy nor the request metadata of an event matters to the reducer.\<close>

lemma dispatch_restamp: "dispatch H s (stamp_event H r h n e) = dispatch H s (stamp_event H r' h' n e)"
  unfolding dispatch_def handler_defs event_views applyFanoutExpanded_def stamp_event_fields by (rule refl)

lemma applySubmission_restamp: "applySubmission (stamp_event H r h n e) = applySubmission (stamp_event H r' h' n e)"
  unfolding applySubmission_def stamp_event_fields by (rule refl)

lemma not_blank_plan: "\<not> blank ''plan''"
  by code_simp

lemma applyEvent_restamp:
  assumes "applyEvent H s (stamp_event H ''plan'' ''plan'' n e) False = Inr s'" "\<not> blank r" "h \<noteq> ''''"
  shows "applyEvent H s (stamp_event H r h n (cloneEvent e)) False = Inr s'"
proof (cases s)
  case None
  have "applySubmission (stamp_event H r h n (cloneEvent e)) = Inr s'"
    using assms(1) None applySubmission_restamp [of H r h n e "''plan''" "''plan''"]
    by (auto simp: applyEvent_None stamp_event_clone applySubmission_clone)
  with None assms show ?thesis by (auto simp: applyEvent_None well_stamped_def)
next
  case (Some u)
  have "dispatch H u (stamp_event H r h n (cloneEvent e)) = dispatch H u (stamp_event H ''plan'' ''plan'' n e)"
    using dispatch_restamp [of H u r h n e "''plan''" "''plan''"]
    by (simp only: stamp_event_clone dispatch_clone)
  with Some assms show ?thesis by (auto simp: applyEvent_Some well_stamped_def stamp_state_def)
qed

section \<open>Replaying a plan\<close>

definition version_of :: "WorkflowState option \<Rightarrow> uint64" where
  "version_of s = (case s of None \<Rightarrow> 0 | Some t \<Rightarrow> wf_Version t)"

lemma validated_stamp: "validated_event H p e = stamp_event H ''plan'' ''plan'' (version_of (pl_state p) + 1) e"
  by (simp add: validated_event_def stamp_event_def version_of_def Let_def split: option.split)

lemma plan_add_Inr:
  "plan_add H p e = Inr p' \<longleftrightarrow> (\<exists>s. applyEvent H (pl_state p) (validated_event H p e) False = Inr s \<and>
     p' = p\<lparr>pl_state := Some s, pl_events := pl_events p @ [cloneEvent e]\<rparr>)"
  by (auto simp: plan_add_def result_simps)

lemma applyEvent_version: "applyEvent H s e False = Inr t \<Longrightarrow> wf_Version t = ev_Sequence e"
  using log.step_version [of H s e t] by simp

lemma planned_replay:
  assumes "planned H s0 p" "\<not> blank r" "h \<noteq> ''''"
  shows "applyOwnedEvents H s0 (stamp_events H r h (version_of s0) (pl_events p)) = Inr (pl_state p) \<and>
    version_of (pl_state p) = version_of s0 + of_nat (length (pl_events p))"
  using assms(1)
proof (induction rule: planned.induct)
  case empty
  show ?case by (simp add: applyOwnedEvents_def)
next
  case (add p e p')
  from add(2) obtain s where a: "applyEvent H (pl_state p) (validated_event H p e) False = Inr s"
    and p': "p' = p\<lparr>pl_state := Some s, pl_events := pl_events p @ [cloneEvent e]\<rparr>"
    by (auto simp: plan_add_Inr)
  let ?n = "version_of (pl_state p) + 1"
  from a have a': "applyEvent H (pl_state p) (stamp_event H r h ?n (cloneEvent e)) False = Inr s"
    unfolding validated_stamp by (rule applyEvent_restamp [OF _ assms(2,3)])
  have v: "wf_Version s = ?n" using applyEvent_version [OF a] by (simp add: validated_stamp)
  from add.IH a' show ?case
    by (simp add: p' stamp_events_append applyOwnedEvents_def foldE_append apply_next_def version_of_def v
        add.assoc add.commute)
qed

lemma planned_wf_ok:
  assumes "planned H s0 p" "pred_option (wf_ok H) s0"
  shows "pred_option (wf_ok H) (pl_state p)"
  using assms
proof (induction rule: planned.induct)
  case (add p e p')
  then obtain s where a: "applyEvent H (pl_state p) (validated_event H p e) False = Inr s"
    and p': "p' = p\<lparr>pl_state := Some s, pl_events := pl_events p @ [cloneEvent e]\<rparr>"
    by (auto simp: plan_add_Inr)
  have "addressed (validated_event H p e)" using add.hyps(3) by (simp add: addressed_def validated_stamp)
  with a add show ?case
    by (cases "pl_state p") (auto simp: p' intro: wf_ok_first wf_ok_next)
qed simp

end
