(* ===== verification/Chronos_Command.thy ===== *)
theory Chronos_Command
  imports Chronos_Planned
begin

text \<open>
  Workflows driven by commands. \<open>reachable\<close> holds of the states that accepted commands lead to; the
  locale \<open>command_invariant\<close> is the induction over commands, interpreted for well-formedness and for
  the fact that a workflow that has ended is at rest.
\<close>

section \<open>Reachable workflows\<close>

definition terminalWorkflow :: "WorkflowStatus \<Rightarrow> bool" where
  "terminalWorkflow status \<longleftrightarrow>
     (case status of
        WorkflowCompleted \<Rightarrow> True | WorkflowFailed \<Rightarrow> True | WorkflowCancelled \<Rightarrow> True
      | WorkflowCompensated \<Rightarrow> True | _ \<Rightarrow> False)"

lemma terminalWorkflow_iff:
  "terminalWorkflow st \<longleftrightarrow> st \<in> {WorkflowCompleted, WorkflowFailed, WorkflowCancelled, WorkflowCompensated}"
  by (cases st) (simp_all add: terminalWorkflow_def)

inductive reachable :: "digest \<Rightarrow> WorkflowState \<Rightarrow> bool" for H where
  submitted: "decidePlan H None c = Inr p \<Longrightarrow> pl_state p = Some s \<Longrightarrow> reachable H s"
| commanded: "reachable H s \<Longrightarrow> decidePlan H (Some s) c = Inr p \<Longrightarrow> pl_state p = Some s' \<Longrightarrow> reachable H s'"

locale command_invariant =
  fixes H :: digest and I :: "WorkflowState \<Rightarrow> bool"
  assumes I_plan: "planned H s0 p \<Longrightarrow> decidePlan H s0 c = Inr p \<Longrightarrow> pred_option I s0 \<Longrightarrow>
    pred_option I (pl_state p)"
begin

lemma reachable_I: "reachable H s \<Longrightarrow> I s"
proof (induction rule: reachable.induct)
  case (submitted c p s)
  then show ?case using I_plan [of None p c] planned_decideCommand [of newEventPlan H None c p]
    by (simp add: decidePlan_def factory_def)
next
  case (commanded s c p s')
  then show ?case using I_plan [of "Some s" p c] planned_decideCommand [of newEventPlan H "Some s" c p]
    by (simp add: decidePlan_def factory_def)
qed

end

interpretation well: command_invariant H "wf_ok H" for H
  by unfold_locales (rule planned_wf_ok)

section \<open>A workflow that has ended is at rest\<close>

definition at_rest :: "WorkflowState \<Rightarrow> bool" where
  "at_rest s \<longleftrightarrow> \<not> hasActiveState s \<and> \<not> hasScheduledTimers s"

definition concluded :: "WorkflowState \<Rightarrow> bool" where
  "concluded s \<longleftrightarrow> at_rest s \<and> (wf_Status s = WorkflowCompleted \<longrightarrow> all_completed s)"

definition rests :: "WorkflowState \<Rightarrow> bool" where
  "rests s \<longleftrightarrow> (terminalWorkflow (wf_Status s) \<longrightarrow> concluded s)"

lemma at_rest_cong: "wf_Tasks s = wf_Tasks t \<Longrightarrow> wf_Timers s = wf_Timers t \<Longrightarrow> at_rest s = at_rest t"
  by (simp add: at_rest_def hasActiveState_def hasScheduledTimers_def)

lemma all_completed_cong: "wf_Tasks s = wf_Tasks t \<Longrightarrow> all_completed s = all_completed t"
  by (simp add: all_completed_def)

lemma all_completed_inactive:
  "\<forall>t \<in> snd ` set (wf_Tasks s). ts_Status t = TaskCompleted \<Longrightarrow> \<not> hasActiveState s"
  by (auto simp: hasActiveState_def list_ex_iff)

lemma task_event_status: "task_event s e t t' s' \<Longrightarrow> wf_Status s' = wf_Status s"
  by (simp add: task_event_def)

text \<open>Only the four ending events end a workflow, and they leave it at rest.\<close>

lemma dispatch_ending:
  assumes "dispatch H s e = Inr s'" "ending (ev_Kind e)"
  shows "concluded s'"
proof -
  consider "applyWorkflowCompleted s = Inr s'" | "applyWorkflowFailed s e = Inr s'"
    | "applyWorkflowCancelled s = Inr s'" | "applyWorkflowCompensated s = Inr s'"
    using assms by (auto simp: ending_def dispatch_def)
  then have "at_rest s \<and> wf_Tasks s' = wf_Tasks s \<and> wf_Timers s' = wf_Timers s \<and>
    (wf_Status s' = WorkflowCompleted \<longrightarrow> all_completed s)"
  proof cases
    case 1
    from applyWorkflowCompleted_Inr [OF this] all_completed_inactive [of s] show ?thesis
      by (auto simp: at_rest_def all_completed_def list_all_iff)
  next
    case 2
    from applyWorkflowFailed_Inr [OF this] show ?thesis by (auto simp: at_rest_def)
  next
    case 3
    from applyWorkflowEnd_Inr(1) [OF this] show ?thesis by (auto simp: at_rest_def)
  next
    case 4
    from applyWorkflowEnd_Inr(2) [OF this] show ?thesis by (auto simp: at_rest_def)
  qed
  then show ?thesis using at_rest_cong [of s' s] all_completed_cong [of s' s] by (simp add: concluded_def)
qed

lemma dispatch_open:
  assumes "dispatch H s e = Inr s'" "\<not> ending (ev_Kind e)" "\<not> terminalWorkflow (wf_Status s)"
    and "addressed e" "gomap (wf_Tasks s)"
  shows "\<not> terminalWorkflow (wf_Status s')"
proof -
  have "status_evolves s e s'" using dispatch_evolves [OF assms(1,4,5)] by (simp add: evolves_def)
  with assms(2,3) show ?thesis
    by (auto simp: status_evolves_def status_step_simps ending_def terminalWorkflow_iff)
qed

text \<open>A plan whose workflow has not ended yet.\<close>

definition open_plan :: "digest \<Rightarrow> eventPlan \<Rightarrow> bool" where
  "open_plan H p \<longleftrightarrow> pred_option (\<lambda>s. wf_ok H s \<and> \<not> terminalWorkflow (wf_Status s)) (pl_state p)"

definition rest_plan :: "digest \<Rightarrow> eventPlan \<Rightarrow> bool" where
  "rest_plan H p \<longleftrightarrow> pred_option rests (pl_state p)"

lemma open_rest: "open_plan H p \<Longrightarrow> rest_plan H p"
  by (cases "pl_state p") (simp_all add: open_plan_def rest_plan_def rests_def)

lemma concluded_stamp [simp]: "concluded (stamp_state e s) = concluded s"
  using at_rest_cong [of "stamp_state e s" s] all_completed_cong [of "stamp_state e s" s] by (simp add: concluded_def)

lemma open_add:
  assumes "open_plan H p" "addressed e" "\<not> ending (ev_Kind e)" "plan_add H p e = Inr q"
  shows "open_plan H q"
proof -
  from assms(4) obtain s where a: "applyEvent H (pl_state p) (validated_event H p e) False = Inr s"
    and q: "pl_state q = Some s" by (auto simp: plan_add_Inr)
  have ad: "addressed (validated_event H p e)" using assms(2) by (simp add: addressed_def validated_stamp)
  have "wf_ok H s \<and> \<not> terminalWorkflow (wf_Status s)"
  proof (cases "pl_state p")
    case None
    with a wf_ok_first show ?thesis
      by (auto simp: applyEvent_None terminalWorkflow_iff dest!: applySubmission_version)
  next
    case (Some t)
    with assms(1) have t: "wf_ok H t" "\<not> terminalWorkflow (wf_Status t)" by (simp_all add: open_plan_def)
    from a Some obtain u where "dispatch H t (validated_event H p e) = Inr u" "wf_Status s = wf_Status u"
      by (auto simp: applyEvent_Some)
    with dispatch_open [OF _ _ t(2) ad wf_okD(4) [OF t(1)]] assms(3) wf_ok_next [OF t(1) _ ad] a Some
    show ?thesis by (simp add: validated_stamp)
  qed
  with q show ?thesis by (simp add: open_plan_def)
qed

interpretation opened: plan_invariant H "open_plan H" "\<lambda>e. addressed e \<and> \<not> ending (ev_Kind e)" for H
  by unfold_locales (auto intro: open_add)

lemma rest_add:
  assumes "open_plan H p" "ending (ev_Kind e)"
  shows "ensures (plan_add H p e) (rest_plan H)"
proof (rule ensuresI)
  fix q
  assume "plan_add H p e = Inr q"
  then obtain s where a: "applyEvent H (pl_state p) (validated_event H p e) False = Inr s"
    and q: "pl_state q = Some s" by (auto simp: plan_add_Inr)
  show "rest_plan H q"
  proof (cases "pl_state p")
    case None
    with a assms(2) show ?thesis by (auto simp: applyEvent_None validated_stamp ending_def)
  next
    case (Some t)
    with a obtain u where "dispatch H t (validated_event H p e) = Inr u"
      "s = stamp_state (validated_event H p e) u" by (auto simp: applyEvent_Some)
    with dispatch_ending [of H t "validated_event H p e" u] assms(2) q show ?thesis
      by (simp add: rest_plan_def rests_def validated_stamp)
  qed
qed

lemma add_call:
  assumes "open_plan H p" "addressed e"
    and "\<And>q. if ending (ev_Kind e) then rest_plan H q else open_plan H q \<Longrightarrow> Q q"
  shows "ensures (plan_add H p e) Q"
proof (cases "ending (ev_Kind e)")
  case True
  from rest_add [OF assms(1) this] show ?thesis by (rule ensures_weaken) (use True assms(3) in simp)
next
  case False
  with assms show ?thesis by (intro opened.add [of H p e Q]) simp_all
qed

lemmas open_calls = add_call opened.calls

lemma rest_tail:
  "open_plan H p \<Longrightarrow> ensures (addTerminalFailure H p i r at) (rest_plan H)"
  "open_plan H p \<Longrightarrow> ensures (after_failure H s i c at x r p) (rest_plan H)"
  "open_plan H p \<Longrightarrow> ensures (complete_compensation H s t cmd p) (rest_plan H)"
  "open_plan H p \<Longrightarrow> ensures (fire_timeout H s cmd timer p) (rest_plan H)"
  by (auto simp: addTerminalFailure_def after_failure_def complete_compensation_def fire_timeout_def wp Let_def
      intro!: open_calls simp: open_rest)

lemma rest_decides:
  assumes f: "factory f" and o: "\<And>s. open_plan H (f s) \<longleftrightarrow> pred_option (\<lambda>s. wf_ok H s \<and> \<not> terminalWorkflow (wf_Status s)) s"
    and s: "pred_option (\<lambda>s. wf_ok H s \<and> \<not> terminalWorkflow (wf_Status s)) s"
  shows "ensures (decideSubmit H s c f) (rest_plan H)" "ensures (decideStart H s c f) (rest_plan H)"
    "ensures (decideRenew H s c f) (rest_plan H)" "ensures (decideExpire H s c f) (rest_plan H)"
    "ensures (decideFail H s c f) (rest_plan H)" "ensures (decideComplete H s c f) (rest_plan H)"
    "ensures (decideFireTimer H s c f) (rest_plan H)" "ensures (decideCancel H s c f) (rest_plan H)"
  using o s by (auto simp: decide_defs wp Let_def intro!: open_calls rest_tail lookup_calls simp: open_rest)

text \<open>A workflow that has ended accepts no command.\<close>

lemma ended_rejects:
  assumes "terminalWorkflow (wf_Status s)" "at_rest s" "gomap (wf_Timers s)"
  shows "\<exists>x. decideCommand H (Some s) c f = Inl x"
proof -
  have st: "wf_Status s \<noteq> WorkflowRunning" "wf_Status s \<noteq> WorkflowCompensating" "wf_Status s \<noteq> WorkflowScheduled"
    using assms(1) by (auto simp: terminalWorkflow_iff)
  have timers: "tm_Status timer \<noteq> TimerScheduled" if "timer_at s i = Some timer" for i timer
    using assms(2,3) that
    by (auto simp: at_rest_def hasScheduledTimers_def list_ex_iff timer_at_def gomap_map_of_iff)
  have "\<exists>x. leasedTask (Some s) c = Inl x" "\<exists>x. activeTask (Some s) i = Inl x" for i
    using st by (auto simp: leasedTask_def activeTask_def split: option.split)
  then obtain x y where l: "leasedTask (Some s) c = Inl x" and a: "activeTask (Some s) (cmd_TaskID c) = Inl y"
    by blast
  have "\<exists>x. decideFireTimer H (Some s) c f = Inl x"
    using timers by (auto simp: decideFireTimer_def split: option.split)
  then obtain z where "decideFireTimer H (Some s) c f = Inl z" by blast
  with st l a show ?thesis
    by (simp add: decideCommand_def decideSubmit_def decideStart_def decideComplete_def decideFail_def
        decideRenew_def decideExpire_def decideCancel_def split: CommandKind.split)
qed

lemma rests_plan:
  assumes "decidePlan H s0 c = Inr p" "pred_option (\<lambda>s. wf_ok H s \<and> rests s) s0"
  shows "pred_option rests (pl_state p)"
proof (cases "pred_option (\<lambda>s. wf_ok H s \<and> \<not> terminalWorkflow (wf_Status s)) s0")
  case True
  have f: "factory newEventPlan" by (simp add: factory_def)
  have "open_plan H (newEventPlan s) \<longleftrightarrow> pred_option (\<lambda>s. wf_ok H s \<and> \<not> terminalWorkflow (wf_Status s)) s" for s
    by (simp add: open_plan_def newEventPlan_def)
  from rest_decides [OF f this True, of c]
  have "ensures (decideCommand H s0 c newEventPlan) (rest_plan H)"
    by (simp add: decideCommand_def wp split: CommandKind.split)
  with assms(1) show ?thesis by (auto simp: decidePlan_def rest_plan_def dest: ensuresD)
next
  case False
  with assms(2) obtain s where s: "s0 = Some s" "wf_ok H s" "rests s" "terminalWorkflow (wf_Status s)"
    by (cases s0) auto
  with ended_rejects [of s H c newEventPlan] assms(1) wf_okD(5) [OF s(2)] show ?thesis
    by (auto simp: rests_def concluded_def decidePlan_def)
qed

interpretation resting: command_invariant H "\<lambda>s. wf_ok H s \<and> rests s" for H
proof unfold_locales
  fix s0 p c
  assume p: "planned H s0 p" "decidePlan H s0 c = Inr p" "pred_option (\<lambda>s. wf_ok H s \<and> rests s) s0"
  then have "pred_option (wf_ok H) (pl_state p)"
    by (intro planned_wf_ok [OF p(1)]) (cases s0, simp_all)
  moreover have "pred_option rests (pl_state p)" using p(2,3) by (rule rests_plan)
  ultimately show "pred_option (\<lambda>s. wf_ok H s \<and> rests s) (pl_state p)" by (cases "pl_state p") simp_all
qed

end
