(* ===== verification/Chronos_Engine.thy ===== *)
theory Chronos_Engine
  imports Chronos_Command
begin

text \<open>
  The engine: \<^verbatim>\<open>internal/core/engine.go\<close>, \<^verbatim>\<open>retention.go\<close>, \<^verbatim>\<open>request.go\<close>, \<^verbatim>\<open>staging.go\<close> and
  \<^verbatim>\<open>snapshot.go\<close>. The engine is a record with the maps of the source; the loaders that the storage
  layer installs are function-valued fields and stay arbitrary. An operation that changes the engine
  returns it; one that can fail after changing it returns the engine beside the result.
\<close>

section \<open>State\<close>

record requestRecord =
  rq_hash :: string
  rq_result :: Result

type_synonym StateLoader = "string \<Rightarrow> err + WorkflowState option \<times> bool"
type_synonym RequestLoader = "string \<Rightarrow> err + RequestReceipt \<times> bool"

record Engine =
  en_states :: "(string, WorkflowState) gomap"
  en_active :: "(string, unit) gomap"
  en_journal :: "Event list"
  en_requests :: "(string, requestRecord) gomap"
  en_requestsByWorkflow :: "(string, (string, unit) gomap) gomap"
  en_stateLoader :: "StateLoader option"
  en_requestLoader :: "RequestLoader option"
  en_metrics :: Metrics
  en_journaled :: bool

record BatchApplication =
  ba_Result :: Result
  ba_Conflict :: bool

definition zero_Result :: Result where
  "zero_Result = \<lparr>rs_WorkflowID = '''', rs_Events = [], rs_Duplicate = False\<rparr>"

definition zero_Metrics :: Metrics where
  "zero_Metrics = \<lparr>mt_CommandsReceived = 0, mt_CommandsAccepted = 0, mt_Duplicates = 0, mt_Transitions = 0,
     mt_TransitionsByKind = []\<rparr>"

definition NewEngine :: Engine where
  "NewEngine =
     \<lparr>en_states = [], en_active = [], en_journal = [], en_requests = [], en_requestsByWorkflow = [],
      en_stateLoader = None, en_requestLoader = None, en_metrics = zero_Metrics, en_journaled = True\<rparr>"

definition updateActive :: "string \<Rightarrow> WorkflowState option \<Rightarrow> Engine \<Rightarrow> Engine" where
  "updateActive workflowID state e =
     (if (case state of None \<Rightarrow> False | Some s \<Rightarrow> \<not> terminalWorkflow (wf_Status s))
      then e\<lparr>en_active := put workflowID () (en_active e)\<rparr>
      else e\<lparr>en_active := del workflowID (en_active e)\<rparr>)"

definition put_state :: "string \<Rightarrow> WorkflowState \<Rightarrow> Engine \<Rightarrow> Engine" where
  "put_state workflowID state e =
     updateActive workflowID (Some state) (e\<lparr>en_states := put workflowID state (en_states e)\<rparr>)"

section \<open>Requests and loaders (\<^verbatim>\<open>retention.go\<close>, \<^verbatim>\<open>request.go\<close>)\<close>

definition SetLoaders :: "StateLoader option \<Rightarrow> RequestLoader option \<Rightarrow> Engine \<Rightarrow> Engine" where
  "SetLoaders state request e = e\<lparr>en_stateLoader := state, en_requestLoader := request\<rparr>"

definition resolveState :: "Engine \<Rightarrow> string \<Rightarrow> err + WorkflowState option \<times> bool" where
  "resolveState e workflowID =
     (case (map_of (en_states e) workflowID, en_stateLoader e) of
        (None, Some loader) \<Rightarrow> if workflowID = '''' then Inr (None, False) else loader workflowID
      | (state, _) \<Rightarrow> Inr (state, state \<noteq> None))"

definition resolveRequest :: "Engine \<Rightarrow> string \<Rightarrow> err + requestRecord option" where
  "resolveRequest e requestID =
     (case (map_of (en_requests e) requestID, en_requestLoader e) of
        (None, Some loader) \<Rightarrow>
          if requestID = '''' then Inr None
          else bindE (loader requestID) (\<lambda>(receipt, exists).
            if exists then Inr (Some \<lparr>rq_hash = rr_RequestHash receipt, rq_result = cloneResult (rr_Result receipt)\<rparr>)
            else Inr None)
      | (record, _) \<Rightarrow> Inr record)"

definition removeRequestIndex :: "string \<Rightarrow> string \<Rightarrow> Engine \<Rightarrow> Engine" where
  "removeRequestIndex requestID workflowID e =
     (let requests = del requestID (or_zero [] (en_requestsByWorkflow e) workflowID) in
      if length requests = 0 then e\<lparr>en_requestsByWorkflow := del workflowID (en_requestsByWorkflow e)\<rparr>
      else e\<lparr>en_requestsByWorkflow := put workflowID requests (en_requestsByWorkflow e)\<rparr>)"

definition storeRequest :: "string \<Rightarrow> requestRecord \<Rightarrow> Engine \<Rightarrow> Engine" where
  "storeRequest requestID record e =
     (let e = (case map_of (en_requests e) requestID of
                 None \<Rightarrow> e
               | Some previous \<Rightarrow> removeRequestIndex requestID (rs_WorkflowID (rq_result previous)) e);
          workflowID = rs_WorkflowID (rq_result record);
          e = e\<lparr>en_requests := put requestID record (en_requests e)\<rparr>
      in e\<lparr>en_requestsByWorkflow := put workflowID
             (put requestID () (or_zero [] (en_requestsByWorkflow e) workflowID)) (en_requestsByWorkflow e)\<rparr>)"

definition deleteRequest :: "string \<Rightarrow> Engine \<Rightarrow> Engine" where
  "deleteRequest requestID e =
     (case map_of (en_requests e) requestID of
        None \<Rightarrow> e
      | Some record \<Rightarrow>
          removeRequestIndex requestID (rs_WorkflowID (rq_result record))
            (e\<lparr>en_requests := del requestID (en_requests e)\<rparr>))"

definition ResidentRequestHash :: "Engine \<Rightarrow> string \<Rightarrow> string \<times> bool" where
  "ResidentRequestHash e requestID =
     (case map_of (en_requests e) requestID of None \<Rightarrow> ('''', False) | Some record \<Rightarrow> (rq_hash record, True))"

definition ResidentWorkflow :: "Engine \<Rightarrow> string \<Rightarrow> bool" where
  "ResidentWorkflow e workflowID = has workflowID (en_states e)"

definition HydrateState :: "WorkflowState option \<Rightarrow> Engine \<Rightarrow> err + Engine" where
  "HydrateState state e =
     (case state of
        None \<Rightarrow> Inl ErrInvalidTransition
      | Some s \<Rightarrow>
          if wf_ID s = '''' \<or> terminalWorkflow (wf_Status s) then Inl ErrInvalidTransition
          else case cloneState (Some s) of
            None \<Rightarrow> Inl NilDereference
          | Some stored \<Rightarrow> Inr (put_state (wf_ID stored) stored e))"

definition event_of_request :: "string \<Rightarrow> string \<Rightarrow> string \<Rightarrow> Event \<Rightarrow> bool" where
  "event_of_request requestID requestHash workflowID event \<longleftrightarrow>
     ev_RequestID event = requestID \<and> ev_RequestHash event = requestHash \<and> ev_WorkflowID event = workflowID"

definition receipt_valid :: "RequestReceipt \<Rightarrow> bool" where
  "receipt_valid receipt \<longleftrightarrow>
     rr_RequestID receipt \<noteq> '''' \<and> rr_RequestHash receipt \<noteq> '''' \<and> rs_WorkflowID (rr_Result receipt) \<noteq> '''' \<and>
     \<not> rs_Duplicate (rr_Result receipt) \<and> length (rs_Events (rr_Result receipt)) \<noteq> 0"

definition HydrateRequest :: "RequestReceipt \<Rightarrow> Engine \<Rightarrow> err + Engine" where
  "HydrateRequest receipt e =
     (if \<not> receipt_valid receipt then Inl ErrInvalidTransition
      else if \<not> has (rs_WorkflowID (rr_Result receipt)) (en_states e) then Inl ErrInvalidTransition
      else if \<not> list_all (event_of_request (rr_RequestID receipt) (rr_RequestHash receipt)
          (rs_WorkflowID (rr_Result receipt))) (rs_Events (rr_Result receipt)) then Inl ErrInvalidTransition
      else Inr (storeRequest (rr_RequestID receipt)
        \<lparr>rq_hash = rr_RequestHash receipt, rq_result = cloneResult (rr_Result receipt)\<rparr> e))"

definition evictWorkflow :: "string \<Rightarrow> Engine \<Rightarrow> Engine" where
  "evictWorkflow workflowID e =
     e\<lparr>en_requests := fold del (keys (or_zero [] (en_requestsByWorkflow e) workflowID)) (en_requests e),
       en_requestsByWorkflow := del workflowID (en_requestsByWorkflow e),
       en_states := del workflowID (en_states e), en_active := del workflowID (en_active e)\<rparr>"

definition EvictTerminal :: "string \<Rightarrow> Engine \<Rightarrow> Engine \<times> bool" where
  "EvictTerminal workflowID e =
     (case map_of (en_states e) workflowID of
        None \<Rightarrow> (e, False)
      | Some state \<Rightarrow>
          if \<not> terminalWorkflow (wf_Status state) then (e, False) else (evictWorkflow workflowID e, True))"

definition drop_events :: "string \<Rightarrow> (string, requestRecord) gomap \<Rightarrow> (string, requestRecord) gomap" where
  "drop_events requestID requests =
     (let record = or_zero \<lparr>rq_hash = '''', rq_result = zero_Result\<rparr> requests requestID in
      put requestID (record\<lparr>rq_result := (rq_result record)\<lparr>rs_Events := []\<rparr>\<rparr>) requests)"

definition CompactTerminal :: "string \<Rightarrow> Engine \<Rightarrow> Engine \<times> bool" where
  "CompactTerminal workflowID e =
     (case map_of (en_states e) workflowID of
        None \<Rightarrow> (e, False)
      | Some state \<Rightarrow>
          if \<not> terminalWorkflow (wf_Status state) then (e, False)
          else (e\<lparr>en_states := put workflowID (state\<lparr>wf_Tasks := [], wf_Timers := []\<rparr>) (en_states e),
                  en_active := del workflowID (en_active e),
                  en_requests := fold drop_events
                    (keys (or_zero [] (en_requestsByWorkflow e) workflowID)) (en_requests e)\<rparr>, True))"

definition RetainActive :: "Engine \<Rightarrow> Engine" where
  "RetainActive e =
     fold (\<lambda>(workflowID, state) e. if terminalWorkflow (wf_Status state) then evictWorkflow workflowID e else e)
       (en_states e) e"

section \<open>Preparing and applying commands\<close>

type_synonym 'x prepareStateResolver = "'x \<Rightarrow> string \<Rightarrow> 'x \<times> (err + WorkflowState option \<times> bool)"
type_synonym preparePlanner = "digest \<Rightarrow> WorkflowState option \<Rightarrow> Command \<Rightarrow> err + eventPlan"
type_synonym prepared = "CommandBatch \<times> Result \<times> bool \<times> WorkflowState option"
type_synonym encoder = "canonicalCommand \<Rightarrow> string"

definition normalize_submit :: "digest \<Rightarrow> Command \<Rightarrow> Command" where
  "normalize_submit H command =
     (case cmd_Definition command of
        None \<Rightarrow> command
      | Some definition \<Rightarrow>
          if cmd_Kind command = CommandSubmit \<and> cmd_WorkflowID command = ''''
          then command\<lparr>cmd_WorkflowID := WorkflowID H (wd_Namespace definition) (cmd_RequestID command)\<rparr>
          else command)"

definition normalize_start :: "digest \<Rightarrow> WorkflowState option \<Rightarrow> Command \<Rightarrow> err + Command" where
  "normalize_start H state normalized =
     (case state of
        None \<Rightarrow> Inr normalized
      | Some s \<Rightarrow>
          if cmd_Kind normalized \<noteq> CommandStart then Inr normalized
          else case task_at s (cmd_TaskID normalized) of
            None \<Rightarrow> Inr normalized
          | Some task \<Rightarrow>
              let expected = AttemptID H (cmd_WorkflowID normalized) (cmd_TaskID normalized) (ts_Attempt task + 1)
              in if cmd_AttemptID normalized \<noteq> '''' \<and> cmd_AttemptID normalized \<noteq> expected
                 then Inl ErrInvalidCommand
                 else Inr (normalized\<lparr>cmd_AttemptID := expected\<rparr>))"

text \<open>
  The part of \<^verbatim>\<open>prepareWith\<close> after the state has been resolved. \<^verbatim>\<open>materialize\<close> decides whether the
  batch and the result carry copies of the events.
\<close>

definition prepare_events ::
    "digest \<Rightarrow> preparePlanner \<Rightarrow> bool \<Rightarrow> string \<Rightarrow> WorkflowState option \<Rightarrow> Command \<Rightarrow> err + prepared" where
  "prepare_events H planCommand materialize hash state normalized =
     bindE (planCommand H state normalized) (\<lambda>plan.
       if length (pl_events plan) = 0 then Inl ErrInvalidTransition
       else
         let events = stamp_events H (cmd_RequestID normalized) hash (version_of state) (pl_events plan);
             batch = \<lparr>cb_Version = CommandBatchVersion, cb_RequestID = cmd_RequestID normalized,
                      cb_RequestHash = hash, cb_WorkflowID = cmd_WorkflowID normalized, cb_Events = events\<rparr>;
             result = \<lparr>rs_WorkflowID = cmd_WorkflowID normalized, rs_Events = [], rs_Duplicate = False\<rparr>
         in Inr (if materialize
              then (batch\<lparr>cb_Events := cloneEvents events\<rparr>, result\<lparr>rs_Events := cloneEvents events\<rparr>, False, pl_state plan)
              else (batch, result, False, pl_state plan)))"

definition prepareWith ::
    "digest \<Rightarrow> encoder \<Rightarrow> Engine \<Rightarrow> 'x \<Rightarrow> Command \<Rightarrow> 'x prepareStateResolver \<Rightarrow> preparePlanner \<Rightarrow> bool \<Rightarrow>
     'x \<times> (err + prepared)" where
  "prepareWith H J e x command resolve planCommand materialize =
     (if blank (cmd_RequestID command) then (x, Inl ErrInvalidCommand)
      else
        let hash = HashCommand H J command in
        case resolveRequest e (cmd_RequestID command) of
          Inl err \<Rightarrow> (x, Inl err)
        | Inr (Some record) \<Rightarrow>
            (x, if rq_hash record \<noteq> hash then Inl ErrRequestConflict
                else
                  let result = (cloneResult (rq_result record))\<lparr>rs_Duplicate := True\<rparr> in
                  Inr (\<lparr>cb_Version = CommandBatchVersion, cb_RequestID = cmd_RequestID command,
                        cb_RequestHash = hash, cb_WorkflowID = rs_WorkflowID result,
                        cb_Events = cloneEvents (rs_Events result)\<rparr>, result, True, None))
        | Inr None \<Rightarrow>
            let normalized = normalize_submit H command in
            (case resolve x (cmd_WorkflowID normalized) of
               (x, Inl err) \<Rightarrow> (x, Inl err)
             | (x, Inr (state, exists)) \<Rightarrow>
                 (x, bindE (normalize_start H state normalized)
                       (prepare_events H planCommand materialize hash state))))"

definition engine_resolver :: "Engine \<Rightarrow> unit prepareStateResolver" where
  "engine_resolver e x workflowID = (x, resolveState e workflowID)"

definition prepare :: "digest \<Rightarrow> encoder \<Rightarrow> Engine \<Rightarrow> Command \<Rightarrow> err + prepared" where
  "prepare H J e command = snd (prepareWith H J e () command (engine_resolver e) decidePlan True)"

definition Prepare :: "digest \<Rightarrow> encoder \<Rightarrow> Engine \<Rightarrow> Command \<Rightarrow> err + CommandBatch \<times> Result \<times> bool" where
  "Prepare H J e command =
     bindE (prepare H J e command) (\<lambda>(batch, result, duplicate, next). Inr (batch, result, duplicate))"

definition count_events :: "Event list \<Rightarrow> Metrics \<Rightarrow> Metrics" where
  "count_events stored m =
     fold (\<lambda>event m. m\<lparr>mt_TransitionsByKind :=
         put (ev_Kind event) (or_zero 0 (mt_TransitionsByKind m) (ev_Kind event) + 1) (mt_TransitionsByKind m)\<rparr>)
       stored (m\<lparr>mt_CommandsAccepted := mt_CommandsAccepted m + 1,
                 mt_Transitions := mt_Transitions m + word_of_nat (length stored)\<rparr>)"

text \<open>Recording an accepted command: journal, request table and metrics.\<close>

definition record_accepted :: "string \<Rightarrow> requestRecord \<Rightarrow> Engine \<Rightarrow> Engine" where
  "record_accepted requestID record e =
     (let stored = rs_Events (rq_result record);
          e = storeRequest requestID record (if en_journaled e then e\<lparr>en_journal := en_journal e @ stored\<rparr> else e)
      in e\<lparr>en_metrics := count_events stored (en_metrics e)\<rparr>)"

definition applyPrepared :: "Engine \<Rightarrow> err + prepared \<Rightarrow> Engine \<times> (err + CommandBatch \<times> Result \<times> bool)" where
  "applyPrepared e prep =
     (case prep of
        Inl err \<Rightarrow> (e, Inl err)
      | Inr (batch, result, duplicate, next) \<Rightarrow>
          if duplicate then (e, Inr (batch, result, duplicate))
          else case next of
            None \<Rightarrow> (e, Inl NilDereference)
          | Some state \<Rightarrow>
              let stored = cloneEvents (cb_Events batch);
                  e = put_state (cb_WorkflowID batch) state e
              in (record_accepted (cb_RequestID batch)
                    \<lparr>rq_hash = cb_RequestHash batch,
                     rq_result = \<lparr>rs_WorkflowID = cb_WorkflowID batch, rs_Events = stored, rs_Duplicate = False\<rparr>\<rparr> e,
                  Inr (batch, result, False)))"

definition PrepareAndApply ::
    "digest \<Rightarrow> encoder \<Rightarrow> Engine \<Rightarrow> Command \<Rightarrow> Engine \<times> (err + CommandBatch \<times> Result \<times> bool)" where
  "PrepareAndApply H J e command = applyPrepared e (prepare H J e command)"

definition Handle :: "digest \<Rightarrow> encoder \<Rightarrow> Engine \<Rightarrow> Command \<Rightarrow> Engine \<times> (err + Result)" where
  "Handle H J e command =
     (let e = e\<lparr>en_metrics := (en_metrics e)\<lparr>mt_CommandsReceived := mt_CommandsReceived (en_metrics e) + 1\<rparr>\<rparr> in
      case PrepareAndApply H J e command of
        (e, Inl err) \<Rightarrow> (e, Inl err)
      | (e, Inr (batch, result, duplicate)) \<Rightarrow>
          if duplicate
          then (e\<lparr>en_metrics := (en_metrics e)\<lparr>mt_Duplicates := mt_Duplicates (en_metrics e) + 1\<rparr>\<rparr>, Inr result)
          else (e, Inr result))"

section \<open>Applying batches\<close>

record batchLoop =
  bl_states :: "(string, WorkflowState) gomap"
  bl_requests :: "(string, requestRecord) gomap"
  bl_accepted :: "(string \<times> requestRecord \<times> nat) list"
  bl_applications :: "BatchApplication list"

text \<open>One round of the loop of \<^verbatim>\<open>applyBatches\<close>; later batches see the provisional updates of earlier ones.\<close>

definition apply_batch :: "digest \<Rightarrow> Engine \<Rightarrow> bool \<Rightarrow> batchLoop \<Rightarrow> CommandBatch \<Rightarrow> err + batchLoop" where
  "apply_batch H e owned l batch =
     (if cb_Version batch \<noteq> CommandBatchVersion then Inl ErrBatchVersion
      else if blank (cb_RequestID batch) \<or> cb_RequestHash batch = '''' then Inl ErrInvalidTransition
      else bindE (case map_of (bl_requests l) (cb_RequestID batch) of
                    Some record \<Rightarrow> Inr (Some record)
                  | None \<Rightarrow> resolveRequest e (cb_RequestID batch)) (\<lambda>found.
        case found of
          Some record \<Rightarrow>
            Inr (l\<lparr>bl_applications := bl_applications l @
              [if rq_hash record \<noteq> cb_RequestHash batch then \<lparr>ba_Result = zero_Result, ba_Conflict = True\<rparr>
               else \<lparr>ba_Result = (cloneResult (rq_result record))\<lparr>rs_Duplicate := True\<rparr>, ba_Conflict = False\<rparr>]\<rparr>)
        | None \<Rightarrow>
            if blank (cb_WorkflowID batch) \<or> length (cb_Events batch) = 0 then Inl ErrInvalidTransition
            else
              let stored = (if owned then cb_Events batch else cloneEvents (cb_Events batch)) in
              if \<not> list_all (event_of_request (cb_RequestID batch) (cb_RequestHash batch) (cb_WorkflowID batch)) stored
              then Inl ErrInvalidTransition
              else bindE (case map_of (bl_states l) (cb_WorkflowID batch) of
                            Some state \<Rightarrow> Inr (Some state)
                          | None \<Rightarrow> bindE (resolveState e (cb_WorkflowID batch)) (\<lambda>(state, exists).
                              Inr (cloneStateForUpdate state))) (\<lambda>state.
                bindE (applyOwnedEvents H state stored) (\<lambda>next.
                  case next of
                    None \<Rightarrow> Inl NilDereference
                  | Some next \<Rightarrow>
                      let result = \<lparr>rs_WorkflowID = cb_WorkflowID batch, rs_Events = stored, rs_Duplicate = False\<rparr>;
                          record = \<lparr>rq_hash = cb_RequestHash batch, rq_result = result\<rparr>
                      in Inr \<lparr>bl_states = put (cb_WorkflowID batch) next (bl_states l),
                              bl_requests = put (cb_RequestID batch) record (bl_requests l),
                              bl_accepted = bl_accepted l @ [(cb_RequestID batch, record, length (bl_applications l))],
                              bl_applications = bl_applications l @
                                [\<lparr>ba_Result = (if owned then result else cloneResult result),
                                  ba_Conflict = False\<rparr>]\<rparr>))))"

definition owned_copy :: "Engine \<Rightarrow> (string, WorkflowState) gomap \<Rightarrow> string \<times> requestRecord \<times> nat \<Rightarrow>
    BatchApplication list \<Rightarrow> BatchApplication list" where
  "owned_copy e states entry applications =
     (case entry of (requestID, record, index) \<Rightarrow>
        let result = rq_result record in
        if en_journaled e \<or> \<not> (case map_of states (rs_WorkflowID result) of
             None \<Rightarrow> False | Some state \<Rightarrow> terminalWorkflow (wf_Status state))
        then applications[index := (applications ! index)\<lparr>ba_Result := cloneResult result\<rparr>]
        else applications)"

definition applyBatches ::
    "digest \<Rightarrow> Engine \<Rightarrow> CommandBatch list \<Rightarrow> bool \<Rightarrow>
     err + Engine \<times> BatchApplication list \<times> (string, WorkflowState) gomap" where
  "applyBatches H e batches owned =
     bindE (foldE (apply_batch H e owned)
         \<lparr>bl_states = [], bl_requests = [], bl_accepted = [], bl_applications = []\<rparr> batches) (\<lambda>l.
       let applications = (if owned then fold (owned_copy e (bl_states l)) (bl_accepted l) (bl_applications l)
             else bl_applications l);
           e = fold (\<lambda>(workflowID, state). put_state workflowID state) (bl_states l) e;
           e = fold (\<lambda>(requestID, record, index). record_accepted requestID record) (bl_accepted l) e
       in Inr (e, applications, bl_states l))"

definition ApplyBatches :: "digest \<Rightarrow> Engine \<Rightarrow> CommandBatch list \<Rightarrow> err + Engine \<times> BatchApplication list" where
  "ApplyBatches H e batches =
     bindE (applyBatches H e batches False) (\<lambda>(e, applications, states). Inr (e, applications))"

definition ApplyCommittedBatches ::
    "digest \<Rightarrow> Engine \<Rightarrow> CommandBatch list \<Rightarrow>
     err + Engine \<times> BatchApplication list \<times> (string, WorkflowState) gomap" where
  "ApplyCommittedBatches H e batches = applyBatches H e batches True"

definition ApplyBatch :: "digest \<Rightarrow> Engine \<Rightarrow> CommandBatch \<Rightarrow> err + Engine \<times> (err + Result)" where
  "ApplyBatch H e batch =
     bindE (ApplyBatches H e [batch]) (\<lambda>(e, applications).
       case applications of
         [] \<Rightarrow> Inl NilDereference
       | application # _ \<Rightarrow>
           Inr (e, if ba_Conflict application then Inl ErrRequestConflict else Inr (ba_Result application)))"

section \<open>Replay\<close>

definition replay_event :: "digest \<Rightarrow> Engine \<Rightarrow> Event \<Rightarrow> err + Engine" where
  "replay_event H engine original =
     (let event = cloneEvent original in
      if ev_RequestID event = '''' \<or> ev_RequestHash event = '''' then Inl ErrInvalidTransition
      else bindE (Apply H (map_of (en_states engine) (ev_WorkflowID event)) event) (\<lambda>state.
        let engine = put_state (ev_WorkflowID event) state engine;
            engine = engine\<lparr>en_journal := en_journal engine @ [cloneEvent event]\<rparr>
        in bindE (case map_of (en_requests engine) (ev_RequestID event) of
             None \<Rightarrow> Inr \<lparr>rq_hash = ev_RequestHash event,
                          rq_result = zero_Result\<lparr>rs_WorkflowID := ev_WorkflowID event\<rparr>\<rparr>
           | Some record \<Rightarrow>
               if rq_hash record \<noteq> ev_RequestHash event \<or> rs_WorkflowID (rq_result record) \<noteq> ev_WorkflowID event
               then Inl ErrRequestConflict else Inr record) (\<lambda>record.
             Inr (storeRequest (ev_RequestID event)
               (record\<lparr>rq_result := (rq_result record)\<lparr>rs_Events :=
                  rs_Events (rq_result record) @ [cloneEvent event]\<rparr>\<rparr>) engine))))"

definition Replay :: "digest \<Rightarrow> Event list \<Rightarrow> err + Engine" where
  "Replay H events = foldE (replay_event H) NewEngine events"

section \<open>Queries\<close>

definition State :: "Engine \<Rightarrow> string \<Rightarrow> WorkflowState option \<times> bool" where
  "State e workflowID =
     (case resolveState e workflowID of Inl err \<Rightarrow> (None, False) | Inr (state, exists) \<Rightarrow> (cloneState state, exists))"

definition Journal :: "Engine \<Rightarrow> Event list" where
  "Journal e = cloneEvents (en_journal e)"

definition DiscardJournal :: "Engine \<Rightarrow> Engine" where
  "DiscardJournal e = e\<lparr>en_journal := [], en_journaled := False\<rparr>"

definition Metrics_copy :: "Engine \<Rightarrow> Metrics" where
  "Metrics_copy e =
     (en_metrics e)\<lparr>mt_TransitionsByKind := map (\<lambda>(kind, value). (kind, value)) (mt_TransitionsByKind (en_metrics e))\<rparr>"

definition WorkflowIDs :: "Engine \<Rightarrow> string list" where
  "WorkflowIDs e = sort (keys (en_states e))"

definition ActiveWorkflowIDs :: "Engine \<Rightarrow> string list" where
  "ActiveWorkflowIDs e = sort (keys (en_active e))"

section \<open>Checkpoints\<close>

text \<open>A checkpointed entry is \<open>None\<close> where the source stores \<^verbatim>\<open>exists: false\<close>.\<close>

record EngineCheckpoint =
  ck_states :: "(string, WorkflowState option) gomap"
  ck_requests :: "(string, requestRecord option) gomap"
  ck_journal :: nat
  ck_metrics :: Metrics

definition ExtendCheckpoint :: "Engine \<Rightarrow> string \<Rightarrow> string \<Rightarrow> EngineCheckpoint \<Rightarrow> EngineCheckpoint" where
  "ExtendCheckpoint e workflowID requestID ck =
     (let ck = (if workflowID \<noteq> '''' \<and> \<not> has workflowID (ck_states ck)
                then ck\<lparr>ck_states := put workflowID (map_of (en_states e) workflowID) (ck_states ck)\<rparr> else ck)
      in if requestID \<noteq> '''' \<and> \<not> has requestID (ck_requests ck)
         then ck\<lparr>ck_requests := put requestID (map_of (en_requests e) requestID) (ck_requests ck)\<rparr> else ck)"

definition Checkpoint :: "Engine \<Rightarrow> CommandBatch list \<Rightarrow> EngineCheckpoint" where
  "Checkpoint e batches =
     fold (\<lambda>batch. ExtendCheckpoint e (cb_WorkflowID batch) (cb_RequestID batch)) batches
       \<lparr>ck_states = [], ck_requests = [], ck_journal = length (en_journal e), ck_metrics = Metrics_copy e\<rparr>"

definition rollback_state :: "string \<times> WorkflowState option \<Rightarrow> Engine \<Rightarrow> Engine" where
  "rollback_state entry e =
     (case entry of (workflowID, value) \<Rightarrow>
        (case value of
           Some state \<Rightarrow> put_state workflowID state e
         | None \<Rightarrow> e\<lparr>en_states := del workflowID (en_states e), en_active := del workflowID (en_active e)\<rparr>))"

definition rollback_request :: "string \<times> requestRecord option \<Rightarrow> Engine \<Rightarrow> Engine" where
  "rollback_request entry e =
     (case entry of (requestID, value) \<Rightarrow>
        (case value of Some record \<Rightarrow> storeRequest requestID record e | None \<Rightarrow> deleteRequest requestID e))"

definition Rollback :: "EngineCheckpoint \<Rightarrow> Engine \<Rightarrow> Engine" where
  "Rollback ck e =
     (let e = fold rollback_state (ck_states ck) e;
          e = fold rollback_request (ck_requests ck) e;
          e = (if ck_journal ck \<le> length (en_journal e) then e\<lparr>en_journal := take (ck_journal ck) (en_journal e)\<rparr> else e)
      in e\<lparr>en_metrics := ck_metrics ck\<rparr>)"

section \<open>Staging transactions (\<^verbatim>\<open>staging.go\<close>)\<close>

record StagingTransaction =
  st_engine :: Engine
  st_checkpoint :: EngineCheckpoint
  st_workflows :: "(string, unit) gomap"
  st_open :: bool

definition BeginStaging :: "Engine \<Rightarrow> StagingTransaction" where
  "BeginStaging e = \<lparr>st_engine = e, st_checkpoint = Checkpoint e [], st_workflows = [], st_open = True\<rparr>"

definition staging_resolveState :: "StagingTransaction prepareStateResolver" where
  "staging_resolveState tx workflowID =
     (if workflowID = '''' then (tx, resolveState (st_engine tx) workflowID)
      else if has workflowID (st_workflows tx) then
        (tx, Inr (map_of (en_states (st_engine tx)) workflowID, has workflowID (en_states (st_engine tx))))
      else
        let tx = tx\<lparr>st_checkpoint := ExtendCheckpoint (st_engine tx) workflowID '''' (st_checkpoint tx)\<rparr> in
        case resolveState (st_engine tx) workflowID of
          Inl err \<Rightarrow> (tx, Inl err)
        | Inr (state, exists) \<Rightarrow>
            (case (exists, cloneStateForUpdate state) of
               (True, Some copy) \<Rightarrow>
                 (tx\<lparr>st_engine := put_state workflowID copy (st_engine tx),
                     st_workflows := put workflowID () (st_workflows tx)\<rparr>, Inr (Some copy, True))
             | _ \<Rightarrow> (tx\<lparr>st_workflows := put workflowID () (st_workflows tx)\<rparr>, Inr (state, exists))))"

definition staging_Rollback :: "StagingTransaction \<Rightarrow> StagingTransaction" where
  "staging_Rollback tx =
     (if \<not> st_open tx then tx
      else tx\<lparr>st_engine := Rollback (st_checkpoint tx) (st_engine tx), st_open := False\<rparr>)"

definition staging_Commit :: "StagingTransaction \<Rightarrow> StagingTransaction" where
  "staging_Commit tx = tx\<lparr>st_open := False\<rparr>"

definition staging_prepareAndApply ::
    "digest \<Rightarrow> encoder \<Rightarrow> StagingTransaction \<Rightarrow> Command \<Rightarrow> bool \<Rightarrow>
     StagingTransaction \<times> (err + CommandBatch \<times> Result \<times> bool)" where
  "staging_prepareAndApply H J tx command materialize =
     (if \<not> st_open tx then (tx, Inl ErrInvalidTransition)
      else
        let tx = tx\<lparr>st_checkpoint := ExtendCheckpoint (st_engine tx) '''' (cmd_RequestID command) (st_checkpoint tx)\<rparr> in
        case prepareWith H J (st_engine tx) tx command staging_resolveState decideStagedPlan materialize of
          (tx, prep) \<Rightarrow>
            (case applyPrepared (st_engine tx) prep of
               (e, Inl err) \<Rightarrow> (staging_Rollback (tx\<lparr>st_engine := e\<rparr>), Inl err)
             | (e, Inr r) \<Rightarrow> (tx\<lparr>st_engine := e\<rparr>, Inr r)))"

definition staging_PrepareAndApply ::
    "digest \<Rightarrow> encoder \<Rightarrow> StagingTransaction \<Rightarrow> Command \<Rightarrow>
     StagingTransaction \<times> (err + CommandBatch \<times> Result \<times> bool)" where
  "staging_PrepareAndApply H J tx command = staging_prepareAndApply H J tx command True"

definition Stage ::
    "digest \<Rightarrow> encoder \<Rightarrow> StagingTransaction \<Rightarrow> Command \<Rightarrow>
     StagingTransaction \<times> (err + CommandBatch \<times> Result \<times> bool)" where
  "Stage H J tx command = staging_prepareAndApply H J tx command False"

section \<open>Snapshots (\<^verbatim>\<open>snapshot.go\<close>)\<close>

definition Snapshot :: "Engine \<Rightarrow> EngineSnapshot" where
  "Snapshot e =
     \<lparr>es_Version = EngineSnapshotVersion,
      es_Workflows = concat (map (\<lambda>i. case cloneState (map_of (en_states e) i) of None \<Rightarrow> [] | Some s \<Rightarrow> [s])
        (WorkflowIDs e)),
      es_Requests = concat (map (\<lambda>i. case map_of (en_requests e) i of
          None \<Rightarrow> []
        | Some record \<Rightarrow> [\<lparr>rr_RequestID = i, rr_RequestHash = rq_hash record, rr_Result = cloneResult (rq_result record)\<rparr>])
        (sort (keys (en_requests e))))\<rparr>"

definition restore_workflow :: "nat \<times> string \<times> Engine \<Rightarrow> WorkflowState \<Rightarrow> err + nat \<times> string \<times> Engine" where
  "restore_workflow acc workflow =
     (case acc of (index, previousID, engine) \<Rightarrow>
        case cloneState (Some workflow) of
          None \<Rightarrow> Inl NilDereference
        | Some state \<Rightarrow>
            if wf_ID state = '''' \<or> 0 < index \<and> wf_ID state \<le> previousID then Inl ErrInvalidTransition
            else Inr (Suc index, wf_ID state, put_state (wf_ID state) state engine))"

fun restore_events :: "RequestReceipt \<Rightarrow> uint64 option \<Rightarrow> (string, Event list) gomap \<Rightarrow> Event list \<Rightarrow>
    err + (string, Event list) gomap" where
  "restore_events receipt previous workflowEvents [] = Inr workflowEvents"
| "restore_events receipt previous workflowEvents (event # events) =
     (if \<not> event_of_request (rr_RequestID receipt) (rr_RequestHash receipt) (rs_WorkflowID (rr_Result receipt)) event
      then Inl ErrInvalidTransition
      else if (case previous of None \<Rightarrow> False | Some p \<Rightarrow> ev_Sequence event \<noteq> p + 1) then Inl ErrSequence
      else restore_events receipt (Some (ev_Sequence event))
        (put (ev_WorkflowID event) (or_zero [] workflowEvents (ev_WorkflowID event) @ [cloneEvent event]) workflowEvents)
        events)"

definition restore_request ::
    "nat \<times> string \<times> (string, Event list) gomap \<times> Engine \<Rightarrow> RequestReceipt \<Rightarrow>
     err + nat \<times> string \<times> (string, Event list) gomap \<times> Engine" where
  "restore_request acc receipt =
     (case acc of (index, previousID, workflowEvents, engine) \<Rightarrow>
        if \<not> receipt_valid receipt then Inl ErrInvalidTransition
        else if 0 < index \<and> rr_RequestID receipt \<le> previousID then Inl ErrInvalidTransition
        else bindE (restore_events receipt None workflowEvents (rs_Events (rr_Result receipt))) (\<lambda>workflowEvents.
          Inr (Suc index, rr_RequestID receipt, workflowEvents,
            storeRequest (rr_RequestID receipt)
              \<lparr>rq_hash = rr_RequestHash receipt, rq_result = cloneResult (rr_Result receipt)\<rparr> engine)))"

definition apply_copied :: "digest \<Rightarrow> WorkflowState option \<Rightarrow> Event \<Rightarrow> err + WorkflowState option" where
  "apply_copied H state event = bindE (Apply H state event) (\<lambda>next. Inr (Some next))"

text \<open>
  \<^verbatim>\<open>reflect.DeepEqual\<close> on workflow states compares maps as maps; everything below the two maps is
  compared field by field, with the maps inside tasks compared as maps too.
\<close>

definition same_nested :: "(string, kvs) gomap \<Rightarrow> (string, kvs) gomap \<Rightarrow> bool" where
  "same_nested m n \<longleftrightarrow> set (keys m) = set (keys n) \<and>
     (\<forall>k \<in> set (keys m). same_map (or_zero [] m k) (or_zero [] n k))"

definition same_task :: "TaskState \<Rightarrow> TaskState \<Rightarrow> bool" where
  "same_task t u \<longleftrightarrow>
     t\<lparr>ts_Inputs := [], ts_Output := [], ts_Payload := []\<rparr> = u\<lparr>ts_Inputs := [], ts_Output := [], ts_Payload := []\<rparr> \<and>
     same_nested (ts_Inputs t) (ts_Inputs u) \<and> same_map (ts_Output t) (ts_Output u) \<and>
     same_map (ts_Payload t) (ts_Payload u)"

definition same_state :: "WorkflowState \<Rightarrow> WorkflowState \<Rightarrow> bool" where
  "same_state s t \<longleftrightarrow>
     s\<lparr>wf_Tasks := [], wf_Timers := []\<rparr> = t\<lparr>wf_Tasks := [], wf_Timers := []\<rparr> \<and>
     set (keys (wf_Tasks s)) = set (keys (wf_Tasks t)) \<and>
     (\<forall>i \<in> set (keys (wf_Tasks s)). same_task (task_or_zero s i) (task_or_zero t i)) \<and>
     same_map (wf_Timers s) (wf_Timers t)"

definition restore_check :: "digest \<Rightarrow> (string, Event list) gomap \<Rightarrow> string \<times> WorkflowState \<Rightarrow> err + unit" where
  "restore_check H workflowEvents entry =
     (case map_of workflowEvents (fst entry) of
        None \<Rightarrow> Inl ErrInvalidTransition
      | Some events \<Rightarrow>
          bindE (foldE (apply_copied H) None (sort_key ev_Sequence events)) (\<lambda>actual.
            case actual of
              None \<Rightarrow> Inl ErrInvalidTransition
            | Some state \<Rightarrow> if same_state state (snd entry) then Inr () else Inl ErrInvalidTransition))"

definition Restore :: "digest \<Rightarrow> EngineSnapshot \<Rightarrow> err + Engine" where
  "Restore H snapshot =
     (if es_Version snapshot \<noteq> EngineSnapshotVersion then Inl ErrSnapshotVersion
      else
        bindE (foldE restore_workflow (0, '''', NewEngine) (es_Workflows snapshot)) (\<lambda>(_, _, engine).
        bindE (foldE restore_request (0, '''', [], engine) (es_Requests snapshot)) (\<lambda>(_, _, workflowEvents, engine).
          if length (en_states engine) \<noteq> length workflowEvents then Inl ErrInvalidTransition
          else bindE (foldE (\<lambda>_. restore_check H workflowEvents) () (en_states engine)) (\<lambda>_. Inr engine))))"

definition Clone :: "Engine \<Rightarrow> Engine" where
  "Clone e =
     (let copy = NewEngine\<lparr>en_journaled := en_journaled e, en_stateLoader := en_stateLoader e,
                   en_requestLoader := en_requestLoader e\<rparr>;
          copy = fold (\<lambda>(i, state) copy. case cloneState (Some state) of None \<Rightarrow> copy | Some s \<Rightarrow> put_state i s copy)
            (en_states e) copy;
          copy = copy\<lparr>en_journal := cloneEvents (en_journal e)\<rparr>;
          copy = fold (\<lambda>(i, record). storeRequest i
              \<lparr>rq_hash = rq_hash record, rq_result = cloneResult (rq_result record)\<rparr>) (en_requests e) copy
      in copy\<lparr>en_metrics := Metrics_copy e\<rparr>)"

end
