(* ===== verification/Chronos_Engine_Laws.thy ===== *)
theory Chronos_Engine_Laws
  imports Chronos_Engine
begin

text \<open>
  Laws of the engine. The resident workflows and the request table are both tables with the same
  contract (locale \<open>table\<close>); checkpoint and rollback are verified once, inside the locale, and
  interpreted for both. The engine's own invariant ties the set of active workflows and the index of
  requests to the tables they are derived from.
\<close>

section \<open>Tables with checkpoint and rollback\<close>

locale table =
  fixes lookup :: "'e \<Rightarrow> string \<Rightarrow> 'r option"
    and store :: "string \<Rightarrow> 'r \<Rightarrow> 'e \<Rightarrow> 'e"
    and remove :: "string \<Rightarrow> 'e \<Rightarrow> 'e"
  assumes lookup_store: "lookup (store i r e) j = (if j = i then Some r else lookup e j)"
    and lookup_remove: "lookup (remove i e) j = (if j = i then None else lookup e j)"
begin

definition restore :: "string \<times> 'r option \<Rightarrow> 'e \<Rightarrow> 'e" where
  "restore entry e = (case snd entry of Some r \<Rightarrow> store (fst entry) r e | None \<Rightarrow> remove (fst entry) e)"

lemma lookup_restore: "lookup (restore (i, v) e) j = (if j = i then v else lookup e j)"
  by (simp add: restore_def lookup_store lookup_remove split: option.split)

lemma lookup_fold_restore:
  "gomap saved \<Longrightarrow> lookup (fold restore saved e) i = (case map_of saved i of Some v \<Rightarrow> v | None \<Rightarrow> lookup e i)"
proof (induction saved arbitrary: e)
  case (Cons p saved)
  obtain k v where p: "p = (k, v)" by force
  with Cons.prems have "gomap saved" "map_of saved k = None"
    by (simp_all add: gomap_def map_of_eq_None_iff)
  with Cons.IH [of "restore p e"] p show ?case by (auto simp: lookup_restore split: option.split)
qed simp

text \<open>Every entry that differs from the original is saved with its original value.\<close>

definition covers :: "'e \<Rightarrow> (string, 'r option) gomap \<Rightarrow> 'e \<Rightarrow> bool" where
  "covers orig saved e \<longleftrightarrow> gomap saved \<and>
     (\<forall>i. lookup orig i = (case map_of saved i of Some v \<Rightarrow> v | None \<Rightarrow> lookup e i))"

lemma covers_start: "covers e [] e"
  by (simp add: covers_def)

lemma covers_rollback: "covers orig saved e \<Longrightarrow> lookup (fold restore saved e) i = lookup orig i"
  by (simp add: covers_def lookup_fold_restore)

lemma covers_extend:
  "covers orig saved e \<Longrightarrow> covers orig (if has i saved then saved else put i (lookup e i) saved) e"
  by (auto simp: covers_def has_def split: option.splits)

lemma covers_store: "covers orig saved e \<Longrightarrow> has i saved \<Longrightarrow> covers orig saved (store i r e)"
  by (auto simp: covers_def has_def lookup_store split: option.splits)

lemma covers_cong: "covers orig saved e \<Longrightarrow> (\<And>i. lookup e' i = lookup e i) \<Longrightarrow> covers orig saved e'"
  by (simp add: covers_def split: option.split)

end

section \<open>The fields each operation leaves alone\<close>

definition remove_state :: "string \<Rightarrow> Engine \<Rightarrow> Engine" where
  "remove_state i e = e\<lparr>en_states := del i (en_states e), en_active := del i (en_active e)\<rparr>"

lemma rollback_state_eq:
  "rollback_state (i, v) e = (case v of Some s \<Rightarrow> put_state i s e | None \<Rightarrow> remove_state i e)"
  by (simp add: rollback_state_def remove_state_def split: option.split)

lemma put_state_fields [simp]:
  "en_states (put_state i s e) = put i s (en_states e)" "en_journal (put_state i s e) = en_journal e"
  "en_requests (put_state i s e) = en_requests e"
  "en_requestsByWorkflow (put_state i s e) = en_requestsByWorkflow e"
  "en_stateLoader (put_state i s e) = en_stateLoader e" "en_requestLoader (put_state i s e) = en_requestLoader e"
  "en_metrics (put_state i s e) = en_metrics e" "en_journaled (put_state i s e) = en_journaled e"
  "en_active (put_state i s e) =
     (if terminalWorkflow (wf_Status s) then del i (en_active e) else put i () (en_active e))"
  by (simp_all add: put_state_def updateActive_def)

lemma remove_state_fields [simp]:
  "en_states (remove_state i e) = del i (en_states e)" "en_active (remove_state i e) = del i (en_active e)"
  "en_journal (remove_state i e) = en_journal e" "en_requests (remove_state i e) = en_requests e"
  "en_requestsByWorkflow (remove_state i e) = en_requestsByWorkflow e"
  "en_stateLoader (remove_state i e) = en_stateLoader e" "en_requestLoader (remove_state i e) = en_requestLoader e"
  "en_metrics (remove_state i e) = en_metrics e" "en_journaled (remove_state i e) = en_journaled e"
  by (simp_all add: remove_state_def)

lemma removeRequestIndex_fields [simp]:
  "en_states (removeRequestIndex r w e) = en_states e" "en_active (removeRequestIndex r w e) = en_active e"
  "en_journal (removeRequestIndex r w e) = en_journal e" "en_requests (removeRequestIndex r w e) = en_requests e"
  "en_stateLoader (removeRequestIndex r w e) = en_stateLoader e"
  "en_requestLoader (removeRequestIndex r w e) = en_requestLoader e"
  "en_metrics (removeRequestIndex r w e) = en_metrics e" "en_journaled (removeRequestIndex r w e) = en_journaled e"
  by (simp_all add: removeRequestIndex_def Let_def)

lemma storeRequest_fields [simp]:
  "en_states (storeRequest r x e) = en_states e" "en_active (storeRequest r x e) = en_active e"
  "en_journal (storeRequest r x e) = en_journal e" "en_requests (storeRequest r x e) = put r x (en_requests e)"
  "en_stateLoader (storeRequest r x e) = en_stateLoader e" "en_requestLoader (storeRequest r x e) = en_requestLoader e"
  "en_metrics (storeRequest r x e) = en_metrics e" "en_journaled (storeRequest r x e) = en_journaled e"
  by (simp_all add: storeRequest_def Let_def split: option.split)

lemma deleteRequest_fields [simp]:
  "en_states (deleteRequest r e) = en_states e" "en_active (deleteRequest r e) = en_active e"
  "en_journal (deleteRequest r e) = en_journal e"
  "en_stateLoader (deleteRequest r e) = en_stateLoader e" "en_requestLoader (deleteRequest r e) = en_requestLoader e"
  "en_metrics (deleteRequest r e) = en_metrics e" "en_journaled (deleteRequest r e) = en_journaled e"
  by (simp_all add: deleteRequest_def split: option.split)

lemma del_absent: "map_of m k = None \<Longrightarrow> del k m = m"
  by (induction m) (auto split: if_splits)

lemma deleteRequest_requests [simp]: "en_requests (deleteRequest r e) = del r (en_requests e)"
  by (simp add: deleteRequest_def del_absent split: option.split)

interpretation workflows: table "\<lambda>e. map_of (en_states e)" put_state remove_state
  by unfold_locales simp_all

interpretation requests: table "\<lambda>e. map_of (en_requests e)" storeRequest deleteRequest
  by unfold_locales simp_all

lemma rollback_is_restore:
  "rollback_state = workflows.restore" "rollback_request = requests.restore"
  by (auto simp: fun_eq_iff rollback_state_eq rollback_request_def workflows.restore_def requests.restore_def
      split: option.split)

section \<open>The invariant of the engine\<close>

definition indexed :: "Engine \<Rightarrow> string \<Rightarrow> string \<Rightarrow> bool" where
  "indexed e w r \<longleftrightarrow> has r (or_zero [] (en_requestsByWorkflow e) w)"

definition engine_ok :: "Engine \<Rightarrow> bool" where
  "engine_ok e \<longleftrightarrow>
     gomap (en_states e) \<and> gomap (en_active e) \<and> gomap (en_requests e) \<and> gomap (en_requestsByWorkflow e) \<and>
     (\<forall>i. has i (en_active e) \<longleftrightarrow>
        (\<exists>s. map_of (en_states e) i = Some s \<and> \<not> terminalWorkflow (wf_Status s))) \<and>
     (\<forall>w r. indexed e w r \<longleftrightarrow>
        (\<exists>x. map_of (en_requests e) r = Some x \<and> rs_WorkflowID (rq_result x) = w))"

lemma has_del [simp]: "has i (del k m) \<longleftrightarrow> i \<noteq> k \<and> has i m"
  by (auto simp: has_def)

lemma has_Nil [simp]: "\<not> has i []"
  by (simp add: has_def)

lemma or_zero_del [simp]: "or_zero z (del k m) j = (if j = k then z else or_zero z m j)"
  by (simp add: or_zero_def)

lemma indexed_remove [simp]: "indexed (removeRequestIndex r w e) w' r' \<longleftrightarrow> indexed e w' r' \<and> (w', r') \<noteq> (w, r)"
proof (cases "del r (or_zero [] (en_requestsByWorkflow e) w) = []")
  case True
  then have "r' = r \<or> \<not> has r' (or_zero [] (en_requestsByWorkflow e) w)" by (metis has_del has_Nil)
  with True show ?thesis by (auto simp: removeRequestIndex_def indexed_def Let_def)
next
  case False
  then show ?thesis by (auto simp: removeRequestIndex_def indexed_def Let_def)
qed

lemma gomap_index_remove [simp]:
  "gomap (en_requestsByWorkflow e) \<Longrightarrow> gomap (en_requestsByWorkflow (removeRequestIndex r w e))"
  by (simp add: removeRequestIndex_def Let_def)

lemma engine_ok_New [simp]: "engine_ok NewEngine"
  by (simp add: engine_ok_def NewEngine_def indexed_def or_zero_def)

lemma engine_ok_put_state [simp]: "engine_ok e \<Longrightarrow> engine_ok (put_state i s e)"
  by (auto simp: engine_ok_def indexed_def)

lemma engine_ok_remove_state [simp]: "engine_ok e \<Longrightarrow> engine_ok (remove_state i e)"
  by (auto simp: engine_ok_def indexed_def)

lemma indexed_store [simp]:
  assumes "engine_ok e"
  shows "indexed (storeRequest r x e) w i \<longleftrightarrow>
     (if i = r then w = rs_WorkflowID (rq_result x) else indexed e w i)"
proof -
  have idx: "indexed e v r \<longleftrightarrow> (\<exists>y. map_of (en_requests e) r = Some y \<and> rs_WorkflowID (rq_result y) = v)" for v
    using assms by (simp add: engine_ok_def)
  let ?d = "case map_of (en_requests e) r of None \<Rightarrow> e
    | Some y \<Rightarrow> removeRequestIndex r (rs_WorkflowID (rq_result y)) e"
  have d: "indexed ?d v j \<longleftrightarrow> j \<noteq> r \<and> indexed e v j" for v j
    using idx [of v] by (auto split: option.split)
  have "indexed (storeRequest r x e) w i \<longleftrightarrow>
      i = r \<and> w = rs_WorkflowID (rq_result x) \<or> indexed ?d w i"
    unfolding storeRequest_def Let_def by (auto simp: indexed_def)
  then show ?thesis using d by auto
qed

lemma indexed_update [simp]:
  "indexed (e\<lparr>en_requests := rs\<rparr>) = indexed e" "indexed (e\<lparr>en_journal := j\<rparr>) = indexed e"
  "indexed (e\<lparr>en_metrics := m\<rparr>) = indexed e"
  by (simp_all add: indexed_def fun_eq_iff)

lemma engine_ok_storeRequest [simp]:
  assumes "engine_ok e"
  shows "engine_ok (storeRequest r x e)"
proof -
  have "gomap (en_requestsByWorkflow (storeRequest r x e))"
    using assms by (simp add: storeRequest_def engine_ok_def Let_def split: option.split)
  with assms indexed_store [OF assms] show ?thesis by (auto simp: engine_ok_def)
qed

lemma engine_ok_deleteRequest [simp]:
  assumes "engine_ok e"
  shows "engine_ok (deleteRequest r e)"
proof (cases "map_of (en_requests e) r")
  case None
  then show ?thesis using assms by (simp add: deleteRequest_def)
next
  case (Some x)
  let ?e = "e\<lparr>en_requests := del r (en_requests e)\<rparr>"
  have "indexed (removeRequestIndex r (rs_WorkflowID (rq_result x)) ?e) w i \<longleftrightarrow>
      (\<exists>y. i \<noteq> r \<and> map_of (en_requests e) i = Some y \<and> rs_WorkflowID (rq_result y) = w)" for w i
    using assms Some by (auto simp: engine_ok_def)
  with Some assms show ?thesis by (auto simp: engine_ok_def deleteRequest_def)
qed

lemma engine_ok_journal [simp]:
  "engine_ok (e\<lparr>en_journal := j\<rparr>) = engine_ok e" "engine_ok (e\<lparr>en_metrics := m\<rparr>) = engine_ok e"
  by (simp_all add: engine_ok_def indexed_def)

lemma record_accepted_fields [simp]:
  "en_states (record_accepted r x e) = en_states e" "en_active (record_accepted r x e) = en_active e"
  "en_requests (record_accepted r x e) = put r x (en_requests e)"
  "en_stateLoader (record_accepted r x e) = en_stateLoader e"
  "en_requestLoader (record_accepted r x e) = en_requestLoader e"
  "en_journaled (record_accepted r x e) = en_journaled e"
  "en_journal (record_accepted r x e) =
     (if en_journaled e then en_journal e @ rs_Events (rq_result x) else en_journal e)"
  by (simp_all add: record_accepted_def Let_def)

lemma engine_ok_record_accepted [simp]: "engine_ok e \<Longrightarrow> engine_ok (record_accepted r x e)"
  by (simp add: record_accepted_def Let_def)

text \<open>
  Two engines agree when their tables, derived sets, journal, metrics and loaders agree. The lists
  that stand for Go maps may differ in order.
\<close>

definition same_engine :: "Engine \<Rightarrow> Engine \<Rightarrow> bool" where
  "same_engine e f \<longleftrightarrow>
     map_of (en_states e) = map_of (en_states f) \<and> map_of (en_active e) = map_of (en_active f) \<and>
     map_of (en_requests e) = map_of (en_requests f) \<and> indexed e = indexed f \<and>
     en_journal e = en_journal f \<and> en_metrics e = en_metrics f \<and> en_journaled e = en_journaled f \<and>
     en_stateLoader e = en_stateLoader f \<and> en_requestLoader e = en_requestLoader f"

lemma same_engineI:
  assumes "engine_ok e" "engine_ok f"
    and "map_of (en_states e) = map_of (en_states f)" "map_of (en_requests e) = map_of (en_requests f)"
    and "en_journal e = en_journal f" "en_metrics e = en_metrics f" "en_journaled e = en_journaled f"
    and "en_stateLoader e = en_stateLoader f" "en_requestLoader e = en_requestLoader f"
  shows "same_engine e f"
proof -
  have "has i (en_active e) = has i (en_active f)" for i
    using assms(1-3) by (simp add: engine_ok_def)
  then have "map_of (en_active e) i = map_of (en_active f) i" for i
    unfolding has_def by (metis (full_types) not_None_eq old.unit.exhaust)
  moreover have "indexed e w r = indexed f w r" for w r
    using assms(1,2,4) by (simp add: engine_ok_def)
  ultimately show ?thesis using assms(3-) by (simp add: same_engine_def fun_eq_iff)
qed

end
