(* ===== verification/Chronos_Requests.thy ===== *)
theory Chronos_Requests
  imports Chronos_Engine_Laws
begin

text \<open>
  Requests: what \<^verbatim>\<open>Prepare\<close>, \<^verbatim>\<open>PrepareAndApply\<close> and \<^verbatim>\<open>Handle\<close> of \<^verbatim>\<open>engine.go\<close> guarantee about a
  request. A request is accepted at most once; a repeated one returns the recorded result and changes
  nothing but counters; an accepted one extends the journal by events that replay from the old state
  of the workflow to the new one.
\<close>

section \<open>Preparing a command\<close>

lemma resolve_metrics [simp]:
  "resolveRequest (e\<lparr>en_metrics := m\<rparr>) = resolveRequest e" "resolveState (e\<lparr>en_metrics := m\<rparr>) = resolveState e"
  by (simp_all add: fun_eq_iff resolveRequest_def resolveState_def)

lemma prepare_metrics [simp]: "prepare H J (e\<lparr>en_metrics := m\<rparr>) c = prepare H J e c"
proof -
  have "engine_resolver (e\<lparr>en_metrics := m\<rparr>) = engine_resolver e"
    by (simp add: engine_resolver_def fun_eq_iff)
  then show ?thesis by (simp add: prepare_def prepareWith_def)
qed

lemma resolveRequest_resident [simp]:
  "map_of (en_requests e) r = Some record \<Longrightarrow> resolveRequest e r = Inr (Some record)"
  by (simp add: resolveRequest_def)

lemma resolveState_resident [simp]:
  "map_of (en_states e) i = Some s \<Longrightarrow> resolveState e i = Inr (Some s, True)"
  by (simp add: resolveState_def)

lemma resolveRequest_None: "resolveRequest e r = Inr None \<Longrightarrow> map_of (en_requests e) r = None"
  by (cases "map_of (en_requests e) r") simp_all

text \<open>The answer to a request that is already on record.\<close>

definition answer :: "digest \<Rightarrow> encoder \<Rightarrow> Command \<Rightarrow> requestRecord \<Rightarrow> prepared" where
  "answer H J c record =
     (\<lparr>cb_Version = CommandBatchVersion, cb_RequestID = cmd_RequestID c, cb_RequestHash = HashCommand H J c,
       cb_WorkflowID = rs_WorkflowID (rq_result record), cb_Events = cloneEvents (rs_Events (rq_result record))\<rparr>,
      (cloneResult (rq_result record))\<lparr>rs_Duplicate := True\<rparr>, True, None)"

lemma prepareWith_known:
  assumes "\<not> blank (cmd_RequestID c)" "resolveRequest e (cmd_RequestID c) = Inr (Some record)"
  shows "prepareWith H J e x c resolve plan mat =
    (x, if rq_hash record = HashCommand H J c then Inr (answer H J c record) else Inl ErrRequestConflict)"
  using assms by (simp add: prepareWith_def answer_def)

text \<open>The outcome of planning a command that is new.\<close>

definition planned_batch :: "digest \<Rightarrow> string \<Rightarrow> bool \<Rightarrow> WorkflowState option \<Rightarrow> Command \<Rightarrow> eventPlan \<Rightarrow> prepared" where
  "planned_batch H hash mat s c p =
     (let events = stamp_events H (cmd_RequestID c) hash (version_of s) (pl_events p) in
      (\<lparr>cb_Version = CommandBatchVersion, cb_RequestID = cmd_RequestID c, cb_RequestHash = hash,
        cb_WorkflowID = cmd_WorkflowID c, cb_Events = events\<rparr>,
       \<lparr>rs_WorkflowID = cmd_WorkflowID c, rs_Events = if mat then events else [], rs_Duplicate = False\<rparr>,
       False, pl_state p))"

lemma plan_events_cloned: "planned H s p \<Longrightarrow> map cloneEvent (pl_events p) = pl_events p"
  by (induction rule: planned.induct) (auto simp: plan_add_Inr)

lemma cloneEvents_stamped:
  "map cloneEvent es = es \<Longrightarrow> cloneEvents (stamp_events H r h n es) = stamp_events H r h n es"
  by (induction es arbitrary: n) (auto simp: cloneEvents_def stamp_event_clone [symmetric])

definition sound_planner :: "preparePlanner \<Rightarrow> bool" where
  "sound_planner plan \<longleftrightarrow> (\<forall>H s c p. plan H s c = Inr p \<longrightarrow> planned H s p)"

lemma sound_planners [simp]: "sound_planner decidePlan" "sound_planner decideStagedPlan"
  by (auto simp: sound_planner_def decidePlan_def decideStagedPlan_def factory_def intro: planned_decideCommand)

lemma prepare_events_Inr:
  assumes "prepare_events H plan mat hash s c = Inr out" "sound_planner plan"
  shows "\<exists>p. plan H s c = Inr p \<and> planned H s p \<and> pl_events p \<noteq> [] \<and> out = planned_batch H hash mat s c p"
proof -
  from assms(1) obtain p where p: "plan H s c = Inr p" by (auto simp: prepare_events_def result_simps)
  with assms(2) have pl: "planned H s p" by (simp add: sound_planner_def)
  with p assms(1) cloneEvents_stamped [OF plan_events_cloned [OF pl]] show ?thesis
    by (auto simp: prepare_events_def planned_batch_def Let_def split: if_splits)
qed

lemma normalize_fields [simp]:
  "cmd_RequestID (normalize_submit H c) = cmd_RequestID c" "cmd_Kind (normalize_submit H c) = cmd_Kind c"
  "cmd_At (normalize_submit H c) = cmd_At c" "cmd_Definition (normalize_submit H c) = cmd_Definition c"
  by (simp_all add: normalize_submit_def split: option.split)

lemma normalize_start_fields:
  "normalize_start H s c = Inr c' \<Longrightarrow> cmd_RequestID c' = cmd_RequestID c \<and> cmd_WorkflowID c' = cmd_WorkflowID c
     \<and> cmd_Kind c' = cmd_Kind c \<and> cmd_At c' = cmd_At c \<and> cmd_Definition c' = cmd_Definition c"
  by (auto simp: normalize_start_def Let_def split: option.splits if_splits)

text \<open>Every successful preparation is one of the two.\<close>

lemma prepareWith_Inr:
  assumes "prepareWith H J e x c resolve plan mat = (x', Inr out)"
    and "sound_planner plan"
  shows "\<not> blank (cmd_RequestID c) \<and>
    ((\<exists>record. resolveRequest e (cmd_RequestID c) = Inr (Some record) \<and> rq_hash record = HashCommand H J c \<and>
        x' = x \<and> out = answer H J c record) \<or>
     (\<exists>s found c' p. resolveRequest e (cmd_RequestID c) = Inr None \<and>
        resolve x (cmd_WorkflowID (normalize_submit H c)) = (x', Inr (s, found)) \<and>
        normalize_start H s (normalize_submit H c) = Inr c' \<and> plan H s c' = Inr p \<and> planned H s p \<and>
        pl_events p \<noteq> [] \<and> out = planned_batch H (HashCommand H J c) mat s c' p))"
proof (cases "\<exists>record. resolveRequest e (cmd_RequestID c) = Inr (Some record)")
  case True
  with assms(1) prepareWith_known [of c e _ H J x resolve plan mat] show ?thesis
    by (cases "blank (cmd_RequestID c)") (auto simp: prepareWith_def split: if_splits)
next
  case False
  with assms(1) have b: "\<not> blank (cmd_RequestID c)" and r: "resolveRequest e (cmd_RequestID c) = Inr None"
    by (auto simp: prepareWith_def Let_def split: if_splits sum.splits option.splits)
  then obtain s found c' where c': "resolve x (cmd_WorkflowID (normalize_submit H c)) = (x', Inr (s, found))"
    "normalize_start H s (normalize_submit H c) = Inr c'"
    "prepare_events H plan mat (HashCommand H J c) s c' = Inr out"
    using assms(1) by (auto simp: prepareWith_def Let_def bindE_def split: sum.splits prod.splits)
  with prepare_events_Inr [OF c'(3) assms(2)] b r show ?thesis by blast
qed

section \<open>Handling a command\<close>

definition received :: "Engine \<Rightarrow> Engine" where
  "received e = e\<lparr>en_metrics := (en_metrics e)\<lparr>mt_CommandsReceived := mt_CommandsReceived (en_metrics e) + 1\<rparr>\<rparr>"

definition repeated :: "Engine \<Rightarrow> Engine" where
  "repeated e = e\<lparr>en_metrics := (en_metrics e)\<lparr>mt_Duplicates := mt_Duplicates (en_metrics e) + 1\<rparr>\<rparr>"

lemma counted_fields [simp]:
  "en_states (received e) = en_states e" "en_requests (received e) = en_requests e"
  "en_journal (received e) = en_journal e" "en_journaled (received e) = en_journaled e"
  "en_active (received e) = en_active e" "en_stateLoader (received e) = en_stateLoader e"
  "en_requestLoader (received e) = en_requestLoader e" "engine_ok (received e) = engine_ok e"
  "en_requests (repeated e) = en_requests e" "engine_ok (repeated e) = engine_ok e"
  "prepare H J (received e) c = prepare H J e c"
  by (simp_all add: received_def repeated_def)

lemma prepare_known:
  assumes "\<not> blank (cmd_RequestID c)" "resolveRequest e (cmd_RequestID c) = Inr (Some record)"
  shows "prepare H J e c = (if rq_hash record = HashCommand H J c then Inr (answer H J c record) else Inl ErrRequestConflict)"
  using prepareWith_known [OF assms, of H J "()" "engine_resolver e" decidePlan True] by (simp add: prepare_def)

lemma Handle_known:
  assumes "\<not> blank (cmd_RequestID c)" "resolveRequest e (cmd_RequestID c) = Inr (Some record)"
  shows "Handle H J e c =
    (if rq_hash record = HashCommand H J c
     then (repeated (received e), Inr ((cloneResult (rq_result record))\<lparr>rs_Duplicate := True\<rparr>))
     else (received e, Inl ErrRequestConflict))"
  using prepare_known [OF assms, of H J]
  by (simp add: Handle_def PrepareAndApply_def applyPrepared_def answer_def repeated_def received_def Let_def)

lemma prepare_new:
  assumes "prepare H J e c = Inr (b, r, False, n)"
  obtains s found c' p where "\<not> blank (cmd_RequestID c)" "resolveRequest e (cmd_RequestID c) = Inr None"
    "resolveState e (cmd_WorkflowID (normalize_submit H c)) = Inr (s, found)"
    "normalize_start H s (normalize_submit H c) = Inr c'" "decidePlan H s c' = Inr p" "planned H s p"
    "pl_events p \<noteq> []" "(b, r, False, n) = planned_batch H (HashCommand H J c) True s c' p"
proof -
  obtain x where "prepareWith H J e () c (engine_resolver e) decidePlan True = (x, Inr (b, r, False, n))"
    using assms by (cases "prepareWith H J e () c (engine_resolver e) decidePlan True") (simp add: prepare_def)
  from prepareWith_Inr [OF this sound_planners(1)] that show thesis
    by (auto simp: answer_def engine_resolver_def)
qed

definition accepted :: "CommandBatch \<Rightarrow> WorkflowState \<Rightarrow> Engine \<Rightarrow> Engine" where
  "accepted b s e =
     record_accepted (cb_RequestID b)
       \<lparr>rq_hash = cb_RequestHash b,
        rq_result = \<lparr>rs_WorkflowID = cb_WorkflowID b, rs_Events = cb_Events b, rs_Duplicate = False\<rparr>\<rparr>
       (put_state (cb_WorkflowID b) s e)"

lemma planned_state_Some: "planned H s p \<Longrightarrow> pl_events p \<noteq> [] \<Longrightarrow> \<exists>t. pl_state p = Some t"
  by (induction rule: planned.induct) (auto simp: plan_add_Inr)

lemma applyPrepared_planned:
  assumes "planned H s p" "pl_events p \<noteq> []" "planned_batch H h mat s c p = (b, r, dup, n)"
  shows "\<exists>t. pl_state p = Some t \<and> n = Some t \<and> applyPrepared e (Inr (b, r, dup, n)) = (accepted b t e, Inr (b, r, False))"
proof -
  have "cloneEvents (cb_Events b) = cb_Events b"
    using assms(3) cloneEvents_stamped [OF plan_events_cloned [OF assms(1)]]
    by (auto simp: planned_batch_def Let_def)
  then show ?thesis using assms(3) planned_state_Some [OF assms(1,2)]
    by (auto simp: planned_batch_def Let_def applyPrepared_def accepted_def)
qed

text \<open>The three outcomes of \<^verbatim>\<open>Handle\<close>: an error, a repetition, an acceptance.\<close>

lemma Handle_accepted:
  assumes "Handle H J e c = (e', Inr r)" "\<not> rs_Duplicate r"
  obtains s found c' p t where "\<not> blank (cmd_RequestID c)" "resolveRequest e (cmd_RequestID c) = Inr None"
    "resolveState e (cmd_WorkflowID (normalize_submit H c)) = Inr (s, found)"
    "normalize_start H s (normalize_submit H c) = Inr c'" "decidePlan H s c' = Inr p" "planned H s p"
    "pl_events p \<noteq> []" "pl_state p = Some t"
    "r = fst (snd (planned_batch H (HashCommand H J c) True s c' p))"
    "e' = accepted (fst (planned_batch H (HashCommand H J c) True s c' p)) t (received e)"
proof (cases "prepare H J e c")
  case (Inl x)
  with assms show thesis by (simp add: Handle_def PrepareAndApply_def applyPrepared_def Let_def)
next
  case (Inr out)
  obtain b r' dup n where out: "out = (b, r', dup, n)" by (metis prod.exhaust)
  show thesis
  proof (cases dup)
    case True
    obtain x where "prepareWith H J e () c (engine_resolver e) decidePlan True = (x, Inr out)"
      using Inr by (cases "prepareWith H J e () c (engine_resolver e) decidePlan True") (simp add: prepare_def)
    from prepareWith_Inr [OF this sound_planners(1)] True out have "rs_Duplicate r'"
      by (auto simp: answer_def planned_batch_def Let_def)
    with assms Inr out True show thesis
      by (simp add: Handle_def PrepareAndApply_def applyPrepared_def Let_def)
  next
    case False
    with Inr out have "prepare H J e c = Inr (b, r', False, n)" by simp
    then obtain s found c' p where n: "\<not> blank (cmd_RequestID c)" "resolveRequest e (cmd_RequestID c) = Inr None"
      "resolveState e (cmd_WorkflowID (normalize_submit H c)) = Inr (s, found)"
      "normalize_start H s (normalize_submit H c) = Inr c'" "decidePlan H s c' = Inr p" "planned H s p"
      "pl_events p \<noteq> []" "planned_batch H (HashCommand H J c) True s c' p = (b, r', False, n)"
      by (rule prepare_new) simp
    from applyPrepared_planned [OF n(6-8), of "received e"] obtain t where t: "pl_state p = Some t"
      "applyPrepared (received e) (prepare H J e c) = (accepted b t (received e), Inr (b, r', False))"
      using Inr out False by auto
    with assms(1) have "r = r'" "e' = accepted b t (received e)"
      by (auto simp: Handle_def PrepareAndApply_def received_def Let_def)
    with n t that [of s found c' p t] show thesis by simp
  qed
qed

lemma accepted_fields [simp]:
  "en_states (accepted b s e) = put (cb_WorkflowID b) s (en_states e)"
  "map_of (en_requests (accepted b s e)) = (map_of (en_requests e))(cb_RequestID b \<mapsto>
     \<lparr>rq_hash = cb_RequestHash b,
      rq_result = \<lparr>rs_WorkflowID = cb_WorkflowID b, rs_Events = cb_Events b, rs_Duplicate = False\<rparr>\<rparr>)"
  "en_journal (accepted b s e) = (if en_journaled e then en_journal e @ cb_Events b else en_journal e)"
  "en_journaled (accepted b s e) = en_journaled e"
  "en_stateLoader (accepted b s e) = en_stateLoader e" "en_requestLoader (accepted b s e) = en_requestLoader e"
  by (simp_all add: accepted_def fun_eq_iff)

lemma engine_ok_accepted [simp]: "engine_ok e \<Longrightarrow> engine_ok (accepted b s e)"
  by (simp add: accepted_def)

lemma planned_batch_fields:
  "cb_RequestID (fst (planned_batch H h mat s c p)) = cmd_RequestID c"
  "cb_RequestHash (fst (planned_batch H h mat s c p)) = h"
  "cb_WorkflowID (fst (planned_batch H h mat s c p)) = cmd_WorkflowID c"
  "cb_Version (fst (planned_batch H h mat s c p)) = CommandBatchVersion"
  "cb_Events (fst (planned_batch H h mat s c p)) = stamp_events H (cmd_RequestID c) h (version_of s) (pl_events p)"
  "fst (snd (planned_batch H h True s c p)) =
     \<lparr>rs_WorkflowID = cmd_WorkflowID c,
      rs_Events = stamp_events H (cmd_RequestID c) h (version_of s) (pl_events p), rs_Duplicate = False\<rparr>"
  by (simp_all add: planned_batch_def Let_def)

text \<open>A command that is not accepted leaves everything but the counters alone.\<close>

definition only_counted :: "Engine \<Rightarrow> Engine \<Rightarrow> bool" where
  "only_counted e e' \<longleftrightarrow> (\<exists>m. e' = e\<lparr>en_metrics := m\<rparr>)"

lemma Handle_not_accepted:
  assumes "Handle H J e c = (e', out)" "\<And>r. out = Inr r \<Longrightarrow> rs_Duplicate r"
  shows "only_counted e e'"
proof (cases "prepare H J e c")
  case (Inl x)
  with assms(1) show ?thesis
    by (auto simp: Handle_def PrepareAndApply_def applyPrepared_def only_counted_def Let_def)
next
  case (Inr p)
  obtain b r dup n where p: "p = (b, r, dup, n)" by (metis prod.exhaust)
  show ?thesis
  proof (cases dup)
    case True
    with assms(1) Inr p show ?thesis
      by (auto simp: Handle_def PrepareAndApply_def applyPrepared_def only_counted_def Let_def)
  next
    case False
    with Inr p have "prepare H J e c = Inr (b, r, False, n)" by simp
    then obtain s c' q where q: "planned H s q" "pl_events q \<noteq> []"
      "planned_batch H (HashCommand H J c) True s c' q = (b, r, False, n)"
      by (rule prepare_new) simp
    from applyPrepared_planned [OF q, of "received e"] Inr p False assms(1)
    have "out = Inr r" by (auto simp: Handle_def PrepareAndApply_def received_def [symmetric] Let_def)
    moreover have "\<not> rs_Duplicate r" using q(3) by (auto simp: planned_batch_def Let_def)
    ultimately show ?thesis using assms(2) by simp
  qed
qed

lemma Handle_outcome:
  assumes "Handle H J e c = (e', out)"
  shows "only_counted e e' \<or> (\<exists>r. out = Inr r \<and> \<not> rs_Duplicate r)"
  using Handle_not_accepted [OF assms] by blast

text \<open>A recorded request is never overwritten.\<close>

lemma Handle_keeps_request:
  assumes "map_of (en_requests e) i = Some record"
  shows "map_of (en_requests (fst (Handle H J e c))) i = Some record"
proof -
  obtain e' out where h: "Handle H J e c = (e', out)" by force
  from Handle_outcome [OF h] show ?thesis
  proof
    assume "only_counted e e'"
    with h assms show ?thesis by (auto simp: only_counted_def)
  next
    assume "\<exists>r. out = Inr r \<and> \<not> rs_Duplicate r"
    then obtain r where r: "out = Inr r" "\<not> rs_Duplicate r" by blast
    with h have "Handle H J e c = (e', Inr r)" by simp
    then obtain s c' p t where "resolveRequest e (cmd_RequestID c) = Inr None"
      "normalize_start H s (normalize_submit H c) = Inr c'"
      "e' = accepted (fst (planned_batch H (HashCommand H J c) True s c' p)) t (received e)"
      using r(2) by (rule Handle_accepted)
    with h assms normalize_start_fields [of H s "normalize_submit H c" c'] resolveRequest_None [of e "cmd_RequestID c"]
    show ?thesis by (auto simp: planned_batch_fields)
  qed
qed

lemma Handle_engine_ok:
  assumes "engine_ok e"
  shows "engine_ok (fst (Handle H J e c))"
proof -
  obtain e' out where h: "Handle H J e c = (e', out)" by force
  from Handle_outcome [OF h] show ?thesis
  proof
    assume "only_counted e e'"
    with h assms show ?thesis by (auto simp: only_counted_def)
  next
    assume "\<exists>r. out = Inr r \<and> \<not> rs_Duplicate r"
    then obtain r where "out = Inr r" "\<not> rs_Duplicate r" by blast
    with h have "Handle H J e c = (e', Inr r)" "\<not> rs_Duplicate r" by simp_all
    then show ?thesis using assms h by (rule_tac Handle_accepted) auto
  qed
qed

definition handle_all :: "digest \<Rightarrow> encoder \<Rightarrow> Command list \<Rightarrow> Engine \<Rightarrow> Engine" where
  "handle_all H J cs e = fold (\<lambda>c e. fst (Handle H J e c)) cs e"

lemma handle_all_keeps_request:
  "map_of (en_requests e) i = Some record \<Longrightarrow> map_of (en_requests (handle_all H J cs e)) i = Some record"
  by (induction cs arbitrary: e) (simp_all add: handle_all_def Handle_keeps_request)

lemma handle_all_engine_ok: "engine_ok e \<Longrightarrow> engine_ok (handle_all H J cs e)"
  by (induction cs arbitrary: e) (simp_all add: handle_all_def Handle_engine_ok)

lemma Handle_records:
  assumes "Handle H J e c = (e', Inr r)" "\<not> rs_Duplicate r"
  shows "\<not> blank (cmd_RequestID c) \<and>
    map_of (en_requests e') (cmd_RequestID c) = Some \<lparr>rq_hash = HashCommand H J c, rq_result = r\<rparr> \<and>
    cloneResult r = r"
proof -
  from assms obtain s c' p t where a: "\<not> blank (cmd_RequestID c)"
      "normalize_start H s (normalize_submit H c) = Inr c'" "planned H s p"
      "r = fst (snd (planned_batch H (HashCommand H J c) True s c' p))"
      "e' = accepted (fst (planned_batch H (HashCommand H J c) True s c' p)) t (received e)"
    by (rule Handle_accepted)
  with normalize_start_fields [OF a(2)] cloneEvents_stamped [OF plan_events_cloned [OF a(3)]]
  show ?thesis by (simp add: planned_batch_fields cloneResult_def)
qed

text \<open>Repeating an accepted command at any later time returns its result and changes only counters.\<close>

lemma Handle_again:
  assumes "Handle H J e c = (e', Inr r)" "\<not> rs_Duplicate r"
  shows "Handle H J (handle_all H J cs e') (c\<lparr>cmd_At := t\<rparr>) =
    (repeated (received (handle_all H J cs e')), Inr (r\<lparr>rs_Duplicate := True\<rparr>))"
proof -
  note rec = Handle_records [OF assms]
  then have "map_of (en_requests (handle_all H J cs e')) (cmd_RequestID c) =
      Some \<lparr>rq_hash = HashCommand H J c, rq_result = r\<rparr>"
    by (simp add: handle_all_keeps_request)
  with Handle_known [of "c\<lparr>cmd_At := t\<rparr>" "handle_all H J cs e'"] rec show ?thesis by simp
qed

section \<open>What an accepted command does\<close>

lemma Handle_replays:
  assumes "Handle H J e c = (e', Inr r)" "\<not> rs_Duplicate r" "\<And>x. H x \<noteq> []"
  shows "\<exists>s found t. resolveState e (rs_WorkflowID r) = Inr (s, found) \<and>
    applyOwnedEvents H s (rs_Events r) = Inr (Some t) \<and> rs_Events r \<noteq> [] \<and>
    map_of (en_states e') = (map_of (en_states e))(rs_WorkflowID r \<mapsto> t) \<and>
    en_journal e' = (if en_journaled e then en_journal e @ rs_Events r else en_journal e)"
proof -
  from assms(1,2) obtain s found c' p t where a: "\<not> blank (cmd_RequestID c)"
      "resolveState e (cmd_WorkflowID (normalize_submit H c)) = Inr (s, found)"
      "normalize_start H s (normalize_submit H c) = Inr c'" "planned H s p" "pl_events p \<noteq> []" "pl_state p = Some t"
      "r = fst (snd (planned_batch H (HashCommand H J c) True s c' p))"
      "e' = accepted (fst (planned_batch H (HashCommand H J c) True s c' p)) t (received e)"
    by (rule Handle_accepted)
  have n: "cmd_RequestID c' = cmd_RequestID c" "cmd_WorkflowID c' = cmd_WorkflowID (normalize_submit H c)"
    using normalize_start_fields [OF a(3)] by simp_all
  have "rs_Events r = stamp_events H (cmd_RequestID c) (HashCommand H J c) (version_of s) (pl_events p)"
    by (simp add: a(7) planned_batch_fields n)
  moreover from this have "rs_Events r \<noteq> []"
    using a(5) length_stamp_events [of H "cmd_RequestID c" "HashCommand H J c" "version_of s" "pl_events p"]
    by (metis length_0_conv)
  moreover have "HashCommand H J c \<noteq> ''''" using assms(3) by (rule HashCommand_nonempty)
  ultimately show ?thesis
    using planned_replay [OF a(4,1)] a(2,6,8)
    by (auto simp: a(7) planned_batch_fields n)
qed

end
