(* ===== verification/Chronos_Replica.thy ===== *)
theory Chronos_Replica
  imports Chronos_Requests
begin

text \<open>
  Replication: a replica that applies the batches a leader prepared (\<^verbatim>\<open>ApplyBatches\<close>,
  \<^verbatim>\<open>ApplyCommittedBatches\<close>, \<^verbatim>\<open>ApplyBatch\<close> in \<^verbatim>\<open>engine.go\<close>), or that replays the leader's
  journal (\<^verbatim>\<open>Replay\<close>), ends with the leader's workflows and requests.
\<close>

section \<open>The events of a plan belong to one workflow\<close>

lemma dispatch_id: "dispatch H s e = Inr s' \<Longrightarrow> wf_ID s' = wf_ID s"
  by (cases "ev_Kind e") (auto simp: dispatch_def task_event_def Let_def dest!: applied)

definition own_plan :: "string \<Rightarrow> eventPlan \<Rightarrow> bool" where
  "own_plan w p \<longleftrightarrow>
     (\<forall>e \<in> set (pl_events p). ev_WorkflowID e = w) \<and> pred_option (\<lambda>s. wf_ID s = w) (pl_state p)"

interpretation owned: total_plan_invariant H "own_plan w"
  "\<lambda>e. ev_Kind e = EventWorkflowSubmitted \<longrightarrow> ev_WorkflowID e = w" for H w
proof unfold_locales
  fix p e q
  assume p: "own_plan w p" "ev_Kind e = EventWorkflowSubmitted \<longrightarrow> ev_WorkflowID e = w" "plan_add H p e = Inr q"
  then obtain s where a: "applyEvent H (pl_state p) (validated_event H p e) False = Inr s"
    and q: "pl_state q = Some s" "pl_events q = pl_events p @ [cloneEvent e]" by (auto simp: plan_add_Inr)
  have "wf_ID s = w \<and> ev_WorkflowID e = w"
  proof (cases "pl_state p")
    case None
    with a p(2) show ?thesis by (auto simp: applyEvent_None validated_stamp dest!: applySubmission_version)
  next
    case (Some t)
    with a p(1) show ?thesis by (auto simp: applyEvent_Some validated_stamp own_plan_def dest!: dispatch_id)
  qed
  with p(1) q show "own_plan w q" by (auto simp: own_plan_def)
qed auto

lemma own_decidePlan:
  assumes "decidePlan H s c = Inr p" "pred_option (\<lambda>s. wf_ID s = cmd_WorkflowID c) s"
  shows "own_plan (cmd_WorkflowID c) p"
  using owned.decideCommand [of "cmd_WorkflowID c" newEventPlan s c H p] assms
  by (simp add: decidePlan_def own_plan_def newEventPlan_def)

lemma stamp_events_workflow:
  "\<forall>e \<in> set es. ev_WorkflowID e = w \<Longrightarrow>
   list_all (event_of_request r h w) (stamp_events H r h n es)"
  by (induction es arbitrary: n) (simp_all add: event_of_request_def)

lemma planned_addressed: "planned H s p \<Longrightarrow> list_all addressed (pl_events p)"
  by (induction rule: planned.induct) (auto simp: plan_add_Inr addressed_def)

lemma stamp_events_addressed: "list_all addressed (stamp_events H r h n es) \<longleftrightarrow> list_all addressed es"
  by (induction es arbitrary: n) (simp_all add: addressed_def)

section \<open>The batch of an accepted command\<close>

text \<open>A batch that fits a workflow: what \<^verbatim>\<open>applyBatches\<close> checks, and the state it leads to.\<close>

definition fits :: "digest \<Rightarrow> WorkflowState option \<Rightarrow> CommandBatch \<Rightarrow> WorkflowState \<Rightarrow> bool" where
  "fits H s b t \<longleftrightarrow>
     cb_Version b = CommandBatchVersion \<and> \<not> blank (cb_RequestID b) \<and> cb_RequestHash b \<noteq> '''' \<and>
     \<not> blank (cb_WorkflowID b) \<and> cb_Events b \<noteq> [] \<and> cloneEvents (cb_Events b) = cb_Events b \<and>
     list_all (event_of_request (cb_RequestID b) (cb_RequestHash b) (cb_WorkflowID b)) (cb_Events b) \<and>
     list_all addressed (cb_Events b) \<and>
     applyOwnedEvents H s (cb_Events b) = Inr (Some t)"

text \<open>Workflows are stored under their own identifiers.\<close>

definition keyed :: "Engine \<Rightarrow> bool" where
  "keyed e \<longleftrightarrow> (\<forall>i s found. resolveState e i = Inr (Some s, found) \<longrightarrow> wf_ID s = i)"

lemma resolveState_accepted [simp]:
  "resolveState (accepted b s e) i = (if i = cb_WorkflowID b then Inr (Some s, True) else resolveState e i)"
  by (simp add: resolveState_def)

lemma keyed_accepted: "keyed e \<Longrightarrow> wf_ID s = cb_WorkflowID b \<Longrightarrow> keyed (accepted b s e)"
  by (simp add: keyed_def)

lemma applyOwnedEvents_not_blank:
  "applyOwnedEvents H s es = Inr t \<Longrightarrow> es \<noteq> [] \<Longrightarrow> \<not> blank (ev_WorkflowID (hd es))"
proof (cases es)
  case (Cons x xs)
  assume "applyOwnedEvents H s es = Inr t"
  with Cons obtain u where "applyEvent H s x False = Inr u"
    by (auto simp: applyOwnedEvents_def apply_next_def result_simps)
  then have "well_stamped H x" by (cases s) (simp_all add: applyEvent_None applyEvent_Some)
  with Cons show ?thesis by (simp add: well_stamped_def)
qed simp

lemma planned_fits:
  assumes "\<not> blank (cmd_RequestID c)" "normalize_start H s (normalize_submit H c) = Inr c'" "decidePlan H s c' = Inr p"
    and "planned H s p" "pl_events p \<noteq> []" "planned_batch H (HashCommand H J c) mat s c' p = (b, r, dup, n)"
    and "pred_option (\<lambda>s. wf_ID s = cmd_WorkflowID (normalize_submit H c)) s" "\<And>x. H x \<noteq> []"
  shows "\<exists>t. n = Some t \<and> fits H s b t \<and> wf_ID t = cb_WorkflowID b \<and>
    cb_WorkflowID b = cmd_WorkflowID (normalize_submit H c) \<and> cb_RequestID b = cmd_RequestID c"
proof -
  have n: "cmd_RequestID c' = cmd_RequestID c" "cmd_WorkflowID c' = cmd_WorkflowID (normalize_submit H c)"
    using normalize_start_fields [OF assms(2)] by simp_all
  have b: "b = fst (planned_batch H (HashCommand H J c) mat s c' p)" and m: "n = pl_state p"
    using assms(6) by (auto simp: planned_batch_def Let_def)
  note bf = b planned_batch_fields n
  have h: "HashCommand H J c \<noteq> ''''" using assms(8) by (rule HashCommand_nonempty)
  have own: "own_plan (cmd_WorkflowID c') p" using own_decidePlan [OF assms(3)] assms(7) by (simp add: n)
  obtain t where t: "pl_state p = Some t" using planned_state_Some [OF assms(4,5)] by blast
  have replay: "applyOwnedEvents H s (cb_Events b) = Inr (Some t)"
    using planned_replay [OF assms(4,1) h] t by (simp add: bf)
  have events: "list_all (event_of_request (cb_RequestID b) (cb_RequestHash b) (cb_WorkflowID b)) (cb_Events b)"
    using own stamp_events_workflow [of "pl_events p" "cmd_WorkflowID c'"] by (simp add: own_plan_def bf)
  have ne: "cb_Events b \<noteq> []"
    using assms(5) length_stamp_events [of H "cmd_RequestID c" "HashCommand H J c" "version_of s" "pl_events p"]
    by (auto simp: bf simp del: length_stamp_events)
  have "\<not> blank (cb_WorkflowID b)"
    using applyOwnedEvents_not_blank [OF replay ne] events ne by (cases "cb_Events b") (auto simp: event_of_request_def)
  moreover have "cloneEvents (cb_Events b) = cb_Events b"
    using cloneEvents_stamped [OF plan_events_cloned [OF assms(4)]] by (simp add: bf)
  moreover have "list_all addressed (cb_Events b)"
    using planned_addressed [OF assms(4)] by (simp add: bf stamp_events_addressed)
  ultimately have "fits H s b t" using replay events ne h assms(1) by (simp add: fits_def bf)
  moreover have "wf_ID t = cb_WorkflowID b" using own t by (simp add: own_plan_def bf)
  ultimately show ?thesis using m t by (simp add: bf)
qed

lemma prepared_fits:
  assumes "prepare H J e c = Inr (b, r, False, n)" "keyed e" "\<And>x. H x \<noteq> []"
  shows "\<exists>s found t. resolveRequest e (cb_RequestID b) = Inr None \<and> resolveState e (cb_WorkflowID b) = Inr (s, found) \<and>
    n = Some t \<and> fits H s b t \<and> wf_ID t = cb_WorkflowID b"
proof -
  from assms(1) obtain s found c' p where a: "\<not> blank (cmd_RequestID c)"
      "resolveRequest e (cmd_RequestID c) = Inr None"
      "resolveState e (cmd_WorkflowID (normalize_submit H c)) = Inr (s, found)"
      "normalize_start H s (normalize_submit H c) = Inr c'" "decidePlan H s c' = Inr p" "planned H s p"
      "pl_events p \<noteq> []" "(b, r, False, n) = planned_batch H (HashCommand H J c) True s c' p"
    by (rule prepare_new)
  have "pred_option (\<lambda>s. wf_ID s = cmd_WorkflowID (normalize_submit H c)) s"
    using assms(2) a(3) by (cases s) (auto simp: keyed_def)
  from planned_fits [OF a(1,4-7) a(8) [symmetric] this assms(3)] a(2,3) show ?thesis by auto
qed

lemma PrepareAndApply_accepted:
  assumes "PrepareAndApply H J e c = (e', Inr (b, r, False))" "keyed e" "\<And>x. H x \<noteq> []"
  shows "\<exists>s found t. resolveRequest e (cb_RequestID b) = Inr None \<and> resolveState e (cb_WorkflowID b) = Inr (s, found) \<and>
    fits H s b t \<and> wf_ID t = cb_WorkflowID b \<and> e' = accepted b t e"
proof -
  from assms(1) obtain n where p: "prepare H J e c = Inr (b, r, False, n)"
    by (auto simp: PrepareAndApply_def applyPrepared_def Let_def split: sum.splits if_splits option.splits)
  from prepared_fits [OF this assms(2,3)] obtain s found t where f: "resolveRequest e (cb_RequestID b) = Inr None"
    "resolveState e (cb_WorkflowID b) = Inr (s, found)" "n = Some t" "fits H s b t" "wf_ID t = cb_WorkflowID b" by blast
  then have "e' = accepted b t e"
    using assms(1) p by (auto simp: PrepareAndApply_def applyPrepared_def accepted_def fits_def Let_def)
  with f show ?thesis by blast
qed

section \<open>Applying the batches of a leader\<close>

text \<open>The engine that \<^verbatim>\<open>applyBatches\<close> installs after its loop.\<close>

definition finished :: "Engine \<Rightarrow> batchLoop \<Rightarrow> Engine" where
  "finished e l = fold (\<lambda>(r, x, i). record_accepted r x) (bl_accepted l)
     (fold (\<lambda>(w, s). put_state w s) (bl_states l) e)"

definition loop_ok :: "batchLoop \<Rightarrow> bool" where
  "loop_ok l \<longleftrightarrow> gomap (bl_states l) \<and> bl_requests l = fold (\<lambda>(r, x, i). put r x) (bl_accepted l) []"

lemma fold_put_state:
  "gomap m \<Longrightarrow> map_of (en_states (fold (\<lambda>(w, s). put_state w s) m e)) = map_of (en_states e) ++ map_of m"
proof (induction m arbitrary: e)
  case (Cons p m)
  then have "fst p \<notin> dom (map_of m)" "gomap m" by (simp_all add: gomap_def dom_map_of_conv_image_fst)
  with Cons.IH show ?case by (cases p) (auto simp: fun_eq_iff map_add_def split: option.split)
qed simp

lemma fold_put_state_rest [simp]:
  "en_journal (fold (\<lambda>(w, s). put_state w s) m e) = en_journal e"
  "en_requests (fold (\<lambda>(w, s). put_state w s) m e) = en_requests e"
  "en_stateLoader (fold (\<lambda>(w, s). put_state w s) m e) = en_stateLoader e"
  "en_requestLoader (fold (\<lambda>(w, s). put_state w s) m e) = en_requestLoader e"
  "en_metrics (fold (\<lambda>(w, s). put_state w s) m e) = en_metrics e"
  "en_journaled (fold (\<lambda>(w, s). put_state w s) m e) = en_journaled e"
  by (induction m arbitrary: e) auto

lemma fold_record_rest [simp]:
  "en_states (fold (\<lambda>(r, x, i). record_accepted r x) a e) = en_states e"
  "en_stateLoader (fold (\<lambda>(r, x, i). record_accepted r x) a e) = en_stateLoader e"
  "en_requestLoader (fold (\<lambda>(r, x, i). record_accepted r x) a e) = en_requestLoader e"
  "en_journaled (fold (\<lambda>(r, x, i). record_accepted r x) a e) = en_journaled e"
  by (induction a arbitrary: e) auto

lemma record_accepted_metrics [simp]:
  "en_metrics (record_accepted r x e) = count_events (rs_Events (rq_result x)) (en_metrics e)"
  by (simp add: record_accepted_def Let_def)

lemma map_of_puts: "map_of (fold (\<lambda>(r, x, i). put r x) a m) = map_of m ++ map_of (fold (\<lambda>(r, x, i). put r x) a [])"
  by (induction a rule: rev_induct) (auto simp: map_add_def)

lemma fold_record_requests:
  "map_of (en_requests (fold (\<lambda>(r, x, i). record_accepted r x) a e)) =
   map_of (en_requests e) ++ map_of (fold (\<lambda>(r, x, i). put r x) a [])"
  by (induction a rule: rev_induct) auto

lemma fold_record_cong:
  assumes "en_journal e = en_journal f" "en_metrics e = en_metrics f" "en_journaled e = en_journaled f"
  shows "en_journal (fold (\<lambda>(r, x, i). record_accepted r x) a e) = en_journal (fold (\<lambda>(r, x, i). record_accepted r x) a f) \<and>
    en_metrics (fold (\<lambda>(r, x, i). record_accepted r x) a e) = en_metrics (fold (\<lambda>(r, x, i). record_accepted r x) a f)"
  using assms
proof (induction a arbitrary: e f)
  case (Cons p a)
  from Cons.prems Cons.IH [of "record_accepted (fst p) (fst (snd p)) e" "record_accepted (fst p) (fst (snd p)) f"]
  show ?case by (simp add: case_prod_beta)
qed simp

lemma finished_tables:
  assumes "loop_ok l"
  shows "map_of (en_states (finished e l)) = map_of (en_states e) ++ map_of (bl_states l)"
    "map_of (en_requests (finished e l)) = map_of (en_requests e) ++ map_of (bl_requests l)"
    "en_stateLoader (finished e l) = en_stateLoader e" "en_requestLoader (finished e l) = en_requestLoader e"
    "en_journaled (finished e l) = en_journaled e"
  using assms by (simp_all add: finished_def loop_ok_def fold_put_state fold_record_requests)

lemma engine_ok_finished:
  assumes "engine_ok e"
  shows "engine_ok (finished e l)"
proof -
  have "engine_ok (fold (\<lambda>(w, s). put_state w s) m e)" for m
    using assms by (induction m arbitrary: e) (simp_all add: case_prod_beta)
  moreover have "engine_ok f \<Longrightarrow> engine_ok (fold (\<lambda>(r, x, i). record_accepted r x) a f)" for a f
    by (induction a arbitrary: f) (simp_all add: case_prod_beta)
  ultimately show ?thesis unfolding finished_def by blast
qed

text \<open>What the loop looks up is what the finished engine would resolve.\<close>

lemma loop_lookup:
  assumes "loop_ok l"
  shows "(case map_of (bl_requests l) r of Some x \<Rightarrow> Inr (Some x) | None \<Rightarrow> resolveRequest e r) = resolveRequest (finished e l) r"
    and "(case map_of (bl_states l) w of Some s \<Rightarrow> Inr (Some s)
       | None \<Rightarrow> bindE (resolveState e w) (\<lambda>(s, found). Inr (cloneStateForUpdate s))) =
     bindE (resolveState (finished e l) w) (\<lambda>(s, found). Inr s)"
  using finished_tables [OF assms, of e]
  by (auto simp: resolveRequest_def resolveState_def map_add_def split: option.split)

lemma resolve_same_engine:
  assumes "same_engine e f"
  shows "resolveRequest e = resolveRequest f" "resolveState e = resolveState f"
  using assms by (simp_all add: same_engine_def resolveRequest_def resolveState_def fun_eq_iff)

text \<open>One round of the loop on a batch that the leader accepted.\<close>

definition applied_loop :: "CommandBatch \<Rightarrow> WorkflowState \<Rightarrow> BatchApplication \<Rightarrow> batchLoop \<Rightarrow> batchLoop" where
  "applied_loop b t x l =
     (let record = \<lparr>rq_hash = cb_RequestHash b,
            rq_result = \<lparr>rs_WorkflowID = cb_WorkflowID b, rs_Events = cb_Events b, rs_Duplicate = False\<rparr>\<rparr>
      in \<lparr>bl_states = put (cb_WorkflowID b) t (bl_states l), bl_requests = put (cb_RequestID b) record (bl_requests l),
          bl_accepted = bl_accepted l @ [(cb_RequestID b, record, length (bl_applications l))],
          bl_applications = bl_applications l @ [x]\<rparr>)"

lemma apply_batch_fits:
  assumes "loop_ok l" "resolveRequest (finished e l) (cb_RequestID b) = Inr None"
    and "resolveState (finished e l) (cb_WorkflowID b) = Inr (s, found)" "fits H s b t"
  shows "\<exists>x. apply_batch H e owned l b = Inr (applied_loop b t x l)"
proof -
  have "cb_Events b \<noteq> []" using assms(4) by (simp add: fits_def)
  then show ?thesis
    unfolding apply_batch_def loop_lookup [OF assms(1)] assms(2,3)
    using assms(4) by (auto simp: fits_def applied_loop_def Let_def cloneResult_def)
qed

lemma applied_loop_ok: "loop_ok l \<Longrightarrow> loop_ok (applied_loop b t x l)"
  by (simp add: loop_ok_def applied_loop_def Let_def)

lemma applied_loop_same:
  assumes "loop_ok l" "same_engine e (finished f l)" "engine_ok e" "engine_ok f"
  shows "same_engine (accepted b t e) (finished f (applied_loop b t x l))"
proof (rule same_engineI)
  have l: "loop_ok (applied_loop b t x l)" using assms(1) by (rule applied_loop_ok)
  show "engine_ok (accepted b t e)" "engine_ok (finished f (applied_loop b t x l))"
    using assms by (simp_all add: engine_ok_finished)
  note s = assms(2) [unfolded same_engine_def]
  show "map_of (en_states (accepted b t e)) = map_of (en_states (finished f (applied_loop b t x l)))"
    "map_of (en_requests (accepted b t e)) = map_of (en_requests (finished f (applied_loop b t x l)))"
    "en_stateLoader (accepted b t e) = en_stateLoader (finished f (applied_loop b t x l))"
    "en_requestLoader (accepted b t e) = en_requestLoader (finished f (applied_loop b t x l))"
    "en_journaled (accepted b t e) = en_journaled (finished f (applied_loop b t x l))"
    using s finished_tables [OF l, of f] finished_tables [OF assms(1), of f]
    by (simp_all add: applied_loop_def Let_def fun_eq_iff map_add_def)
  have "en_journal (finished f (applied_loop b t x l)) =
      (if en_journaled f then en_journal (finished f l) @ cb_Events b else en_journal (finished f l))"
    "en_metrics (finished f (applied_loop b t x l)) = count_events (cb_Events b) (en_metrics (finished f l))"
    using fold_record_cong [of "fold (\<lambda>(w, s). put_state w s) (put (cb_WorkflowID b) t (bl_states l)) f"
        "fold (\<lambda>(w, s). put_state w s) (bl_states l) f" "bl_accepted l"]
    by (simp_all add: finished_def applied_loop_def Let_def)
  then show "en_journal (accepted b t e) = en_journal (finished f (applied_loop b t x l))"
    "en_metrics (accepted b t e) = en_metrics (finished f (applied_loop b t x l))"
    using s finished_tables(5) [OF assms(1), of f] by (simp_all add: accepted_def)
qed

text \<open>
  A sequence of batches, each of which fits the engine that the ones before lead to. Engines are
  compared as tables.
\<close>

inductive led :: "digest \<Rightarrow> Engine \<Rightarrow> CommandBatch list \<Rightarrow> Engine \<Rightarrow> bool" for H where
  led_done: "same_engine e e' \<Longrightarrow> led H e [] e'"
| led_step: "resolveRequest e (cb_RequestID b) = Inr None \<Longrightarrow> resolveState e (cb_WorkflowID b) = Inr (s, found) \<Longrightarrow>
    fits H s b t \<Longrightarrow> wf_ID t = cb_WorkflowID b \<Longrightarrow> led H (accepted b t e) bs e' \<Longrightarrow> led H e (b # bs) e'"

lemma same_engine_refl [simp]: "same_engine e e"
  by (simp add: same_engine_def)

lemma same_engine_trans: "same_engine e f \<Longrightarrow> same_engine f g \<Longrightarrow> same_engine e g"
  by (simp add: same_engine_def)

lemma same_engine_sym: "same_engine e f \<Longrightarrow> same_engine f e"
  by (simp add: same_engine_def)

lemma same_engine_accepted:
  assumes "same_engine e f" "engine_ok e" "engine_ok f"
  shows "same_engine (accepted b t e) (accepted b t f)"
  using assms by (intro same_engineI) (simp_all add: same_engine_def accepted_def)

lemma led_same_engine:
  assumes "led H e bs e'" "same_engine e f" "engine_ok e" "engine_ok f"
  shows "led H f bs e'"
  using assms
proof (induction arbitrary: f rule: led.induct)
  case (led_done e e')
  then show ?case by (blast intro: led.led_done same_engine_trans same_engine_sym)
next
  case (led_step e b s found t bs e')
  note same = resolve_same_engine [OF led_step.prems(1)]
  have "led H (accepted b t f) bs e'"
    using led_step.prems by (intro led_step.IH same_engine_accepted) simp_all
  then show ?case by (rule led.led_step [OF led_step.hyps(1,2) [unfolded same] led_step.hyps(3,4)])
qed

lemma led_replicated:
  assumes "led H e bs e'" "engine_ok e" "loop_ok l" "same_engine e (finished f l)" "engine_ok f"
  shows "\<exists>l'. foldE (apply_batch H f owned) l bs = Inr l' \<and> loop_ok l' \<and> same_engine e' (finished f l')"
  using assms
proof (induction arbitrary: l rule: led.induct)
  case (led_done e e')
  from same_engine_trans [OF same_engine_sym [OF led_done.hyps] led_done.prems(3)] led_done.prems(2)
  show ?case by simp
next
  case (led_step e b s found t bs e')
  note same = resolve_same_engine [OF led_step.prems(3)]
  obtain x where x: "apply_batch H f owned l b = Inr (applied_loop b t x l)"
    using apply_batch_fits [OF led_step.prems(2) _ _ led_step.hyps(3)] led_step.hyps(1,2) same by metis
  have "same_engine (accepted b t e) (finished f (applied_loop b t x l))"
    using led_step.prems by (intro applied_loop_same)
  with led_step.IH [OF _ applied_loop_ok [OF led_step.prems(2)]] led_step.prems(1,4) x show ?case by simp
qed

text \<open>A leader that works through commands, and the batches it hands to its replicas.\<close>

fun lead :: "digest \<Rightarrow> encoder \<Rightarrow> Engine \<Rightarrow> Command list \<Rightarrow> Engine \<times> CommandBatch list" where
  "lead H J e [] = (e, [])"
| "lead H J e (c # cs) =
     (case PrepareAndApply H J e c of
        (e', Inr (b, r, False)) \<Rightarrow> (let (e'', bs) = lead H J e' cs in (e'', b # bs))
      | (e', _) \<Rightarrow> lead H J e' cs)"

lemma PrepareAndApply_idle:
  assumes "PrepareAndApply H J e c = (e', out)" "\<not> (\<exists>b r. out = Inr (b, r, False))"
  shows "e' = e"
  using assms by (auto simp: PrepareAndApply_def applyPrepared_def Let_def split: sum.splits if_splits option.splits)

lemma lead_led:
  assumes "lead H J e cs = (e', bs)" "keyed e" "\<And>x. H x \<noteq> []"
  shows "led H e bs e'"
  using assms
proof (induction cs arbitrary: e bs)
  case (Cons c cs)
  obtain d out where d: "PrepareAndApply H J e c = (d, out)" by force
  show ?case
  proof (cases "\<exists>b r. out = Inr (b, r, False)")
    case False
    with PrepareAndApply_idle [OF d] have "d = e" by blast
    with False Cons.prems(1) d have "lead H J e cs = (e', bs)"
      by (auto split: sum.splits prod.splits bool.splits)
    then show ?thesis using Cons.IH Cons.prems by blast
  next
    case True
    then obtain b r where "out = Inr (b, r, False)" by blast
    with d have a: "PrepareAndApply H J e c = (d, Inr (b, r, False))" by simp
    with Cons.prems(1) obtain bs' where bs: "bs = b # bs'" and tail: "lead H J d cs = (e', bs')"
      by (auto split: prod.splits)
    from PrepareAndApply_accepted [OF a Cons.prems(2,3)] obtain s found t
      where f: "resolveRequest e (cb_RequestID b) = Inr None" "resolveState e (cb_WorkflowID b) = Inr (s, found)"
        "fits H s b t" "wf_ID t = cb_WorkflowID b" "d = accepted b t e" by blast
    have "led H (accepted b t e) bs' e'"
      using Cons.IH [OF tail _ Cons.prems(3)] Cons.prems(2) f(4,5) by (simp add: keyed_accepted)
    with f bs show ?thesis by (blast intro: led.led_step)
  qed
qed (auto intro: led_done)

lemma led_applyBatches:
  assumes "led H e bs e'" "engine_ok e" "same_engine e f" "engine_ok f"
  shows "\<exists>f' apps states. applyBatches H f bs owned = Inr (f', apps, states) \<and> same_engine e' f'"
proof -
  let ?l = "\<lparr>bl_states = [], bl_requests = [], bl_accepted = [], bl_applications = []\<rparr>"
  have "loop_ok ?l" "finished f ?l = f" by (simp_all add: loop_ok_def finished_def)
  then obtain l' where "foldE (apply_batch H f owned) ?l bs = Inr l'" "same_engine e' (finished f l')"
    using led_replicated [OF assms(1,2), of ?l f owned] assms(3,4) by auto
  then show ?thesis by (auto simp: applyBatches_def finished_def Let_def)
qed

lemma applyBatches_replicates:
  assumes "lead H J e cs = (e', bs)" "keyed e" "engine_ok e" "\<And>x. H x \<noteq> []" "same_engine e f" "engine_ok f"
  shows "\<exists>f' apps states. applyBatches H f bs owned = Inr (f', apps, states) \<and> same_engine e' f'"
  using led_applyBatches [OF lead_led [OF assms(1,2,4)] assms(3,5,6)] .

section \<open>Replaying the journal\<close>

lemma fits_wf_ok: "fits H s b t \<Longrightarrow> pred_option (wf_ok H) s \<Longrightarrow> wf_ok H t"
  using inv.replay_ok [of H s "cb_Events b" t] by (simp add: fits_def applyOwnedEvents_replay list_all_iff)

definition partial_record :: "Event \<Rightarrow> Event list \<Rightarrow> requestRecord" where
  "partial_record x es = \<lparr>rq_hash = ev_RequestHash x,
     rq_result = \<lparr>rs_WorkflowID = ev_WorkflowID x, rs_Events = es, rs_Duplicate = False\<rparr>\<rparr>"

lemma replay_event_Inr:
  assumes "Apply H (map_of (en_states g) (ev_WorkflowID x)) x = Inr n" "cloneEvent x = x"
    and "ev_RequestID x \<noteq> ''''" "ev_RequestHash x \<noteq> ''''"
    and "map_of (en_requests g) (ev_RequestID x) = (if es = [] then None else Some (partial_record x es))"
  shows "replay_event H g x = Inr (storeRequest (ev_RequestID x) (partial_record x (es @ [x]))
    ((put_state (ev_WorkflowID x) n g)\<lparr>en_journal := en_journal g @ [x]\<rparr>))"
  using assms by (cases "es = []") (simp_all add: replay_event_def partial_record_def zero_Result_def)

text \<open>Replaying the events of one batch, in an engine where its request is still unknown.\<close>

lemma replay_batch:
  assumes "rid \<noteq> ''''" "h \<noteq> ''''" "map_of (en_requests g) rid = None"
    and "pred_option (wf_ok H) (map_of (en_states g) w)"
    and "list_all (event_of_request rid h w) es" "list_all addressed es" "map cloneEvent es = es"
    and "applyOwnedEvents H (map_of (en_states g) w) es = Inr s"
  shows "\<exists>g'. foldE (replay_event H) g es = Inr g' \<and> map_of (en_states g') = (map_of (en_states g))(w := s) \<and>
    map_of (en_requests g') = (map_of (en_requests g))(rid := if es = [] then None
      else Some \<lparr>rq_hash = h, rq_result = \<lparr>rs_WorkflowID = w, rs_Events = es, rs_Duplicate = False\<rparr>\<rparr>) \<and>
    en_journal g' = en_journal g @ es"
  using assms(5-)
proof (induction es arbitrary: s rule: rev_induct)
  case Nil
  then show ?case using assms(3) by (simp add: applyOwnedEvents_def fun_upd_idem)
next
  case (snoc x es)
  then obtain u n where u: "applyOwnedEvents H (map_of (en_states g) w) es = Inr u"
    and n: "applyEvent H u x False = Inr n" and s: "s = Some n"
    by (auto simp: applyOwnedEvents_def foldE_append apply_next_def result_simps)
  have x: "ev_RequestID x = rid" "ev_RequestHash x = h" "ev_WorkflowID x = w" "cloneEvent x = x"
    using snoc.prems(1,3) by (simp_all add: event_of_request_def)
  have "list_all (event_of_request rid h w) es" "list_all addressed es" "map cloneEvent es = es"
    using snoc.prems(1-3) by simp_all
  from snoc.IH [OF this u] obtain g' where g': "foldE (replay_event H) g es = Inr g'"
    "map_of (en_states g') = (map_of (en_states g))(w := u)"
    "map_of (en_requests g') = (map_of (en_requests g))(rid := if es = [] then None
      else Some \<lparr>rq_hash = h, rq_result = \<lparr>rs_WorkflowID = w, rs_Events = es, rs_Duplicate = False\<rparr>\<rparr>)"
    "en_journal g' = en_journal g @ es" by blast
  have "pred_option (wf_ok H) u"
    using inv.replay_ok [of H "map_of (en_states g) w" es] u snoc.prems(2) assms(4)
    by (cases u) (simp_all add: applyOwnedEvents_replay list_all_iff)
  with n have "Apply H u x = Inr n" by (cases u) (simp_all add: Apply_None Apply_ok)
  with replay_event_Inr [of H g' x n es] g' x assms(1,2) show ?case
    by (simp add: foldE_append s partial_record_def fun_eq_iff)
qed

text \<open>An engine without loaders whose journal, replayed, gives its tables back.\<close>

definition faithful :: "digest \<Rightarrow> Engine \<Rightarrow> bool" where
  "faithful H e \<longleftrightarrow>
     en_journaled e \<and> en_stateLoader e = None \<and> en_requestLoader e = None \<and> engine_ok e \<and>
     (\<forall>i s. map_of (en_states e) i = Some s \<longrightarrow> wf_ok H s \<and> wf_ID s = i) \<and>
     (\<exists>g. Replay H (en_journal e) = Inr g \<and> map_of (en_states g) = map_of (en_states e) \<and>
        map_of (en_requests g) = map_of (en_requests e) \<and> en_journal g = en_journal e)"

lemma faithful_New: "faithful H NewEngine"
  by (simp add: faithful_def Replay_def NewEngine_def [symmetric]) (simp add: NewEngine_def)

lemma faithful_keyed: "faithful H e \<Longrightarrow> keyed e"
  by (auto simp: faithful_def keyed_def resolveState_def split: option.splits)

lemma faithful_metrics [simp]: "faithful H (e\<lparr>en_metrics := m\<rparr>) = faithful H e"
  by (simp add: faithful_def)

lemma faithful_accepted:
  assumes "faithful H e" "resolveRequest e (cb_RequestID b) = Inr None"
    and "resolveState e (cb_WorkflowID b) = Inr (s, found)" "fits H s b t" "wf_ID t = cb_WorkflowID b"
  shows "faithful H (accepted b t e)"
proof -
  from assms(1) obtain g where g: "Replay H (en_journal e) = Inr g" "map_of (en_states g) = map_of (en_states e)"
    "map_of (en_requests g) = map_of (en_requests e)" "en_journal g = en_journal e" by (auto simp: faithful_def)
  have s: "s = map_of (en_states e) (cb_WorkflowID b)"
    using assms(1,3) by (auto simp: faithful_def resolveState_def split: option.splits)
  have ok: "pred_option (wf_ok H) s" using assms(1) unfolding s faithful_def
    by (cases "map_of (en_states e) (cb_WorkflowID b)") simp_all
  have none: "map_of (en_requests g) (cb_RequestID b) = None"
    using resolveRequest_None [OF assms(2)] g(3) by simp
  have st: "map_of (en_states g) (cb_WorkflowID b) = s" using g(2) s by simp
  have "cb_RequestID b \<noteq> ''''" using assms(4) not_blank_nonempty by (simp add: fits_def)
  then obtain g' where g': "foldE (replay_event H) g (cb_Events b) = Inr g'"
    "map_of (en_states g') = (map_of (en_states g))(cb_WorkflowID b \<mapsto> t)"
    "map_of (en_requests g') = (map_of (en_requests g))(cb_RequestID b \<mapsto> \<lparr>rq_hash = cb_RequestHash b,
      rq_result = \<lparr>rs_WorkflowID = cb_WorkflowID b, rs_Events = cb_Events b, rs_Duplicate = False\<rparr>\<rparr>)"
    "en_journal g' = en_journal g @ cb_Events b"
    using replay_batch [OF _ _ none, of "cb_RequestHash b" H "cb_WorkflowID b" "cb_Events b" "Some t"] assms(4) ok
    by (auto simp: fits_def st cloneEvents_def)
  then have "Replay H (en_journal (accepted b t e)) = Inr g'"
    using assms(1) g(1) by (simp add: faithful_def Replay_def foldE_append)
  with assms(1,5) fits_wf_ok [OF assms(4) ok] g g' show ?thesis by (auto simp: faithful_def)
qed

lemma Handle_step:
  assumes "Handle H J e c = (e', out)" "keyed e" "\<And>x. H x \<noteq> []"
  shows "only_counted e e' \<or> (\<exists>b s found t. resolveRequest e (cb_RequestID b) = Inr None \<and>
    resolveState e (cb_WorkflowID b) = Inr (s, found) \<and> fits H s b t \<and> wf_ID t = cb_WorkflowID b \<and>
    e' = accepted b t (received e))"
proof (cases "\<exists>b r. snd (PrepareAndApply H J (received e) c) = Inr (b, r, False)")
  case True
  then obtain d b r where a: "PrepareAndApply H J (received e) c = (d, Inr (b, r, False))"
    by (metis prod.collapse)
  have k: "keyed (received e)" using assms(2) by (simp add: keyed_def received_def)
  from a assms(1) have "e' = d" by (auto simp: Handle_def received_def Let_def)
  with PrepareAndApply_accepted [OF a k assms(3)] show ?thesis by (auto simp: received_def)
next
  case False
  obtain d o' where d: "PrepareAndApply H J (received e) c = (d, o')" by force
  with False have "d = received e" by (intro PrepareAndApply_idle [OF d]) auto
  with d assms(1) have "only_counted e e'"
    by (auto simp: Handle_def received_def only_counted_def Let_def split: sum.splits if_splits)
  then show ?thesis ..
qed

lemma faithful_Handle:
  assumes "faithful H e" "\<And>x. H x \<noteq> []"
  shows "faithful H (fst (Handle H J e c))"
proof -
  obtain e' out where h: "Handle H J e c = (e', out)" by force
  have "faithful H (received e)" using assms(1) by (simp add: received_def)
  moreover have "resolveRequest (received e) = resolveRequest e" "resolveState (received e) = resolveState e"
    by (simp_all add: received_def)
  ultimately show ?thesis
    using Handle_step [OF h faithful_keyed [OF assms(1)] assms(2)] assms(1) h
    by (auto simp: only_counted_def intro: faithful_accepted)
qed

lemma faithful_handle_all:
  assumes "\<And>x. H x \<noteq> []"
  shows "faithful H e \<Longrightarrow> faithful H (handle_all H J cs e)"
  by (induction cs arbitrary: e) (simp_all add: handle_all_def faithful_Handle [OF _ assms])

end
