(* ===== verification/Chronos_Staging.thy ===== *)
theory Chronos_Staging
  imports Chronos_Replica
begin

text \<open>
  Staging transactions (\<^verbatim>\<open>staging.go\<close>): whatever a transaction stages, rolling it back, or the
  automatic rollback when a command fails, restores the engine it began with; and staging a command
  has the effect of applying it directly.
\<close>

section \<open>Rollback\<close>

definition checkpointed :: "Engine \<Rightarrow> EngineCheckpoint \<Rightarrow> Engine \<Rightarrow> bool" where
  "checkpointed e0 ck e \<longleftrightarrow>
     engine_ok e \<and> workflows.covers e0 (ck_states ck) e \<and> requests.covers e0 (ck_requests ck) e \<and>
     ck_journal ck = length (en_journal e0) \<and> (\<exists>added. en_journal e = en_journal e0 @ added) \<and>
     ck_metrics ck = en_metrics e0 \<and> en_journaled e = en_journaled e0 \<and>
     en_stateLoader e = en_stateLoader e0 \<and> en_requestLoader e = en_requestLoader e0"

lemma restore_states_rest [simp]:
  "en_journal (fold workflows.restore m e) = en_journal e"
  "en_requests (fold workflows.restore m e) = en_requests e"
  "en_stateLoader (fold workflows.restore m e) = en_stateLoader e"
  "en_requestLoader (fold workflows.restore m e) = en_requestLoader e"
  "en_metrics (fold workflows.restore m e) = en_metrics e"
  "en_journaled (fold workflows.restore m e) = en_journaled e"
  "engine_ok e \<Longrightarrow> engine_ok (fold workflows.restore m e)"
  by (induction m arbitrary: e) (simp_all add: workflows.restore_def split: option.split)

lemma restore_requests_rest [simp]:
  "en_journal (fold requests.restore m e) = en_journal e"
  "en_states (fold requests.restore m e) = en_states e"
  "en_stateLoader (fold requests.restore m e) = en_stateLoader e"
  "en_requestLoader (fold requests.restore m e) = en_requestLoader e"
  "en_metrics (fold requests.restore m e) = en_metrics e"
  "en_journaled (fold requests.restore m e) = en_journaled e"
  "engine_ok e \<Longrightarrow> engine_ok (fold requests.restore m e)"
  by (induction m arbitrary: e) (simp_all add: requests.restore_def split: option.split)

lemma Rollback_restores:
  assumes "checkpointed e0 ck e" "engine_ok e0"
  shows "same_engine e0 (Rollback ck e)"
proof -
  let ?f = "fold requests.restore (ck_requests ck) (fold workflows.restore (ck_states ck) e)"
  note c = assms(1) [unfolded checkpointed_def]
  have r: "Rollback ck e = ?f\<lparr>en_journal := en_journal e0, en_metrics := en_metrics e0\<rparr>"
    using c by (auto simp: Rollback_def rollback_is_restore Let_def)
  have "map_of (en_states ?f) = map_of (en_states e0)"
    using workflows.covers_rollback [of e0 "ck_states ck" e] c by (simp add: fun_eq_iff)
  moreover have "requests.covers e0 (ck_requests ck) (fold workflows.restore (ck_states ck) e)"
    using c by (auto intro: requests.covers_cong)
  then have "map_of (en_requests ?f) = map_of (en_requests e0)"
    using requests.covers_rollback by (simp add: fun_eq_iff)
  ultimately show ?thesis unfolding r using c assms(2) by (intro same_engineI) simp_all
qed

lemma checkpointed_start: "engine_ok e \<Longrightarrow> checkpointed e (Checkpoint e []) e"
  by (simp add: checkpointed_def Checkpoint_def Metrics_copy_def workflows.covers_start requests.covers_start)

text \<open>Extending a checkpoint protects a workflow and a request before they change.\<close>

lemma ExtendCheckpoint_fields:
  "ck_states (ExtendCheckpoint e w r ck) =
     (if w \<noteq> '''' \<and> \<not> has w (ck_states ck) then put w (map_of (en_states e) w) (ck_states ck) else ck_states ck)"
  "ck_requests (ExtendCheckpoint e w r ck) =
     (if r \<noteq> '''' \<and> \<not> has r (ck_requests ck) then put r (map_of (en_requests e) r) (ck_requests ck) else ck_requests ck)"
  "ck_journal (ExtendCheckpoint e w r ck) = ck_journal ck" "ck_metrics (ExtendCheckpoint e w r ck) = ck_metrics ck"
  by (simp_all add: ExtendCheckpoint_def Let_def)

lemma checkpointed_extend:
  assumes "checkpointed e0 ck e"
  shows "checkpointed e0 (ExtendCheckpoint e w r ck) e"
  using assms workflows.covers_extend [of e0 "ck_states ck" e w] requests.covers_extend [of e0 "ck_requests ck" e r]
  by (auto simp: checkpointed_def ExtendCheckpoint_fields)

lemma extend_has:
  "has i (ck_states ck) \<Longrightarrow> has i (ck_states (ExtendCheckpoint e w r ck))"
  "has j (ck_requests ck) \<Longrightarrow> has j (ck_requests (ExtendCheckpoint e w r ck))"
  "w \<noteq> '''' \<Longrightarrow> has w (ck_states (ExtendCheckpoint e w r ck))"
  "r \<noteq> '''' \<Longrightarrow> has r (ck_requests (ExtendCheckpoint e w r ck))"
  by (auto simp: ExtendCheckpoint_fields)

lemma checkpointed_put_state:
  assumes "checkpointed e0 ck e" "has w (ck_states ck)"
  shows "checkpointed e0 ck (put_state w s e)"
proof -
  have "requests.covers e0 (ck_requests ck) (put_state w s e)"
    using assms(1) by (auto simp: checkpointed_def intro: requests.covers_cong)
  with assms show ?thesis by (auto simp: checkpointed_def intro: workflows.covers_store)
qed

lemma checkpointed_record:
  assumes "checkpointed e0 ck e" "has r (ck_requests ck)"
  shows "checkpointed e0 ck (record_accepted r x e)"
proof -
  have "workflows.covers e0 (ck_states ck) (record_accepted r x e)"
    using assms(1) by (auto simp: checkpointed_def intro: workflows.covers_cong)
  moreover have "requests.covers e0 (ck_requests ck) (record_accepted r x e)"
    using assms requests.covers_store [of e0 "ck_requests ck" e r x]
    by (auto simp: checkpointed_def intro!: requests.covers_cong [of _ _ "storeRequest r x e"])
  ultimately show ?thesis using assms(1) by (auto simp: checkpointed_def)
qed

lemma checkpointed_accepted:
  "checkpointed e0 ck e \<Longrightarrow> has (cb_WorkflowID b) (ck_states ck) \<Longrightarrow> has (cb_RequestID b) (ck_requests ck) \<Longrightarrow>
   checkpointed e0 ck (accepted b s e)"
  by (simp add: accepted_def checkpointed_put_state checkpointed_record)

section \<open>Transactions\<close>

text \<open>
  The invariant of a transaction begun on \<open>e0\<close>: while it is open, its checkpoint protects everything
  that differs from \<open>e0\<close>; once it has been rolled back, its engine is \<open>e0\<close> again.
\<close>

definition tx_open_ok :: "Engine \<Rightarrow> StagingTransaction \<Rightarrow> bool" where
  "tx_open_ok e0 tx \<longleftrightarrow>
     checkpointed e0 (st_checkpoint tx) (st_engine tx) \<and> map_of (en_states (st_engine tx)) '''' = None \<and>
     (\<forall>w. has w (st_workflows tx) \<longrightarrow> has w (ck_states (st_checkpoint tx)))"

definition tx_ok :: "Engine \<Rightarrow> StagingTransaction \<Rightarrow> bool" where
  "tx_ok e0 tx \<longleftrightarrow> (if st_open tx then tx_open_ok e0 tx else same_engine e0 (st_engine tx))"

lemma tx_ok_begin: "engine_ok e \<Longrightarrow> map_of (en_states e) '''' = None \<Longrightarrow> tx_ok e (BeginStaging e)"
  by (simp add: tx_ok_def tx_open_ok_def BeginStaging_def checkpointed_start)

lemma tx_ok_rollback:
  assumes "tx_ok e0 tx" "engine_ok e0"
  shows "tx_ok e0 (staging_Rollback tx)" "same_engine e0 (st_engine (staging_Rollback tx))" "\<not> st_open (staging_Rollback tx)"
  using assms Rollback_restores by (auto simp: tx_ok_def tx_open_ok_def staging_Rollback_def)

text \<open>Resolving a workflow inside a transaction copies it and protects the original.\<close>

lemma staging_resolve_ok:
  assumes "tx_open_ok e0 tx" "staging_resolveState tx w = (tx', out)"
  shows "tx_open_ok e0 tx' \<and> st_open tx' = st_open tx \<and>
    ck_requests (st_checkpoint tx') = ck_requests (st_checkpoint tx) \<and>
    (w \<noteq> '''' \<longrightarrow> has w (ck_states (st_checkpoint tx')))"
proof (cases "w = '''' \<or> has w (st_workflows tx)")
  case True
  with assms show ?thesis by (auto simp: staging_resolveState_def tx_open_ok_def split: if_splits)
next
  case False
  let ?ck = "ExtendCheckpoint (st_engine tx) w '''' (st_checkpoint tx)"
  have ck: "checkpointed e0 ?ck (st_engine tx)" "has w (ck_states ?ck)"
    "\<And>v. has v (st_workflows tx) \<Longrightarrow> has v (ck_states ?ck)" "ck_requests ?ck = ck_requests (st_checkpoint tx)"
    using assms(1) False by (auto simp: tx_open_ok_def checkpointed_extend ExtendCheckpoint_fields)
  then have put: "checkpointed e0 ?ck (put_state w s (st_engine tx))" for s by (simp add: checkpointed_put_state)
  have tx': "st_checkpoint tx' = ?ck" "st_open tx' = st_open tx"
    "st_engine tx' = st_engine tx \<or> (\<exists>s. st_engine tx' = put_state w s (st_engine tx))"
    "st_workflows tx' = st_workflows tx \<or> st_workflows tx' = put w () (st_workflows tx)"
    using assms(2) False by (auto simp: staging_resolveState_def Let_def split: sum.splits option.splits bool.splits) blast
  have "checkpointed e0 ?ck (st_engine tx')" "map_of (en_states (st_engine tx')) '''' = None"
    using tx'(3) ck(1) put assms(1) False by (auto simp: tx_open_ok_def)
  moreover have "has v (st_workflows tx') \<Longrightarrow> has v (ck_states ?ck)" for v using tx'(4) ck(2,3) by auto
  ultimately show ?thesis using tx'(1,2) ck(2,4) by (simp add: tx_open_ok_def)
qed

lemma prepareWith_state:
  assumes "prepareWith H J e x c resolve plan mat = (x', out)"
  shows "x' = x \<or> (\<exists>o'. resolve x (cmd_WorkflowID (normalize_submit H c)) = (x', o'))"
  using assms by (auto simp: prepareWith_def Let_def split: if_splits sum.splits option.splits prod.splits)

text \<open>Without a workflow only a submission can succeed, and it names the workflow.\<close>

lemma decideCommand_None: "decideCommand H None c f = Inr p \<Longrightarrow> \<not> blank (cmd_WorkflowID c)"
  by (auto simp: decideCommand_def decide_defs leasedTask_def activeTask_def split: CommandKind.splits if_splits)

text \<open>The open transaction after a command has been prepared in it, with what was prepared.\<close>

lemma staged_prepare:
  assumes "tx_open_ok e0 tx" "has (cmd_RequestID c) (ck_requests (st_checkpoint tx)) \<or> cmd_RequestID c = ''''"
    and "prepareWith H J (st_engine tx) tx c staging_resolveState decideStagedPlan mat = (tx', Inr (b, r, dup, n))" "\<not> dup"
  shows "tx_open_ok e0 tx' \<and> st_open tx' = st_open tx \<and>
    has (cb_WorkflowID b) (ck_states (st_checkpoint tx')) \<and> has (cb_RequestID b) (ck_requests (st_checkpoint tx')) \<and>
    cb_WorkflowID b \<noteq> '''' \<and> (\<exists>t. n = Some t \<and> (\<forall>e. applyPrepared e (Inr (b, r, dup, n)) = (accepted b t e, Inr (b, r, False))))"
proof -
  from prepareWith_Inr [OF assms(3) sound_planners(2)] assms(4) obtain s found c' p
    where a: "\<not> blank (cmd_RequestID c)"
      "staging_resolveState tx (cmd_WorkflowID (normalize_submit H c)) = (tx', Inr (s, found))"
      "normalize_start H s (normalize_submit H c) = Inr c'" "decideStagedPlan H s c' = Inr p" "planned H s p"
      "pl_events p \<noteq> []" "planned_batch H (HashCommand H J c) mat s c' p = (b, r, dup, n)"
    by (auto simp: answer_def)
  have ids: "cb_WorkflowID b = cmd_WorkflowID (normalize_submit H c)" "cb_RequestID b = cmd_RequestID c"
    using a(7) normalize_start_fields [OF a(3)] by (auto simp: planned_batch_def Let_def)
  have "cb_WorkflowID b \<noteq> ''''"
  proof
    assume w: "cb_WorkflowID b = ''''"
    with a(2) ids(1) assms(1) have "s = None"
      by (auto simp: staging_resolveState_def resolveState_def tx_open_ok_def split: option.splits)
    with a(4) have "\<not> blank (cmd_WorkflowID c')" by (auto simp: decideStagedPlan_def dest: decideCommand_None)
    with w ids(1) normalize_start_fields [OF a(3)] show False using not_blank_nonempty by simp
  qed
  moreover have "cmd_RequestID c \<noteq> ''''" using a(1) by (rule not_blank_nonempty)
  moreover have "\<exists>t. n = Some t \<and> (\<forall>e. applyPrepared e (Inr (b, r, dup, n)) = (accepted b t e, Inr (b, r, False)))"
  proof -
    obtain t where t: "pl_state p = Some t" using planned_state_Some [OF a(5,6)] by blast
    have "n = Some t \<and> applyPrepared e (Inr (b, r, dup, n)) = (accepted b t e, Inr (b, r, False))" for e
      using applyPrepared_planned [OF a(5-7), of e] t by auto
    then show ?thesis by blast
  qed
  ultimately show ?thesis
    using staging_resolve_ok [OF assms(1) a(2)] assms(2) ids by simp
qed

lemma tx_ok_stage:
  assumes "tx_ok e0 tx" "engine_ok e0"
  shows "tx_ok e0 (fst (staging_prepareAndApply H J tx c mat))"
proof (cases "st_open tx")
  case False
  with assms show ?thesis by (simp add: staging_prepareAndApply_def)
next
  case True
  let ?tx = "tx\<lparr>st_checkpoint := ExtendCheckpoint (st_engine tx) '''' (cmd_RequestID c) (st_checkpoint tx)\<rparr>"
  have ok: "tx_open_ok e0 ?tx" and has: "has (cmd_RequestID c) (ck_requests (st_checkpoint ?tx)) \<or> cmd_RequestID c = ''''"
    using assms(1) True by (auto simp: tx_ok_def tx_open_ok_def checkpointed_extend ExtendCheckpoint_fields)
  obtain tx' out where p: "prepareWith H J (st_engine ?tx) ?tx c staging_resolveState decideStagedPlan mat = (tx', out)"
    by force
  have step: "staging_prepareAndApply H J tx c mat =
      (case applyPrepared (st_engine tx') out of
         (e, Inl err) \<Rightarrow> (staging_Rollback (tx'\<lparr>st_engine := e\<rparr>), Inl err)
       | (e, Inr r) \<Rightarrow> (tx'\<lparr>st_engine := e\<rparr>, Inr r))"
    using True p by (simp add: staging_prepareAndApply_def Let_def)
  have ok': "tx_open_ok e0 tx' \<and> st_open tx'"
    using prepareWith_state [OF p] ok staging_resolve_ok [OF ok] True by fastforce
  then have same: "tx_ok e0 tx'" by (simp add: tx_ok_def)
  show ?thesis
  proof (cases "\<exists>b r n. out = Inr (b, r, False, n)")
    case False
    then have "fst (applyPrepared (st_engine tx') out) = st_engine tx'"
      by (auto simp: applyPrepared_def split: sum.split)
    with step same tx_ok_rollback(1) [OF same assms(2)] show ?thesis
      by (auto split: prod.splits sum.splits)
  next
    case True
    then obtain b r n where out: "out = Inr (b, r, False, n)" by blast
    from staged_prepare [OF ok has p [unfolded out]] obtain t
      where t: "applyPrepared (st_engine tx') out = (accepted b t (st_engine tx'), Inr (b, r, False))"
        "has (cb_WorkflowID b) (ck_states (st_checkpoint tx'))" "has (cb_RequestID b) (ck_requests (st_checkpoint tx'))"
        "cb_WorkflowID b \<noteq> ''''" by (auto simp: out)
    with step ok' show ?thesis by (auto simp: tx_ok_def tx_open_ok_def checkpointed_accepted)
  qed
qed

definition stage_all :: "digest \<Rightarrow> encoder \<Rightarrow> (Command \<times> bool) list \<Rightarrow> StagingTransaction \<Rightarrow> StagingTransaction" where
  "stage_all H J cs tx = fold (\<lambda>(c, mat) tx. fst (staging_prepareAndApply H J tx c mat)) cs tx"

lemma tx_ok_stage_all: "tx_ok e0 tx \<Longrightarrow> engine_ok e0 \<Longrightarrow> tx_ok e0 (stage_all H J cs tx)"
  by (induction cs arbitrary: tx) (simp_all add: stage_all_def case_prod_beta tx_ok_stage)

lemma stage_failure_closes:
  assumes "staging_prepareAndApply H J tx c mat = (tx', Inl err)" "st_open tx"
  shows "\<not> st_open tx'"
  using assms by (auto simp: staging_prepareAndApply_def staging_Rollback_def Let_def split: prod.splits sum.splits if_splits)

end
