(* ===== verification/Chronos_Examples.thy ===== *)
theory Chronos_Examples
  imports Chronos_Staging
begin

text \<open>
  A concrete workflow for the witnesses: task \<^verbatim>\<open>a\<close> has a compensation, task \<^verbatim>\<open>b\<close> depends on it; each
  may be attempted twice and times out after 50 ms. The digest and the encoder are small total
  functions in place of SHA-256 and \<^verbatim>\<open>encoding/json\<close>.
\<close>

declare bindE_def [code_unfold] with_state_def [code_unfold]

definition H0 :: digest where
  "H0 data = take 32 (rev (filter (\<lambda>c. c \<noteq> CHR 0x00) data) @ replicate 32 (CHR ''0''))"

definition J0 :: encoder where
  "J0 c = cc_WorkflowID c @ cc_TaskID c @ cc_AttemptID c @ cc_WorkerID c @ cc_Error c @ cc_Reason c"

definition ex_retry :: RetryPolicy where
  "ex_retry = \<lparr>rp_MaxAttempts = 2, rp_InitialBackoffMillis = 5, rp_BackoffMultiplier = 2, rp_MaxBackoffMillis = 20\<rparr>"

definition ex_task :: "string \<Rightarrow> string list \<Rightarrow> CompensationDefinition option \<Rightarrow> TaskDefinition" where
  "ex_task i ds c =
     \<lparr>td_ID = i, td_Type = ''t'', td_Dependencies = (if ds = [] then None else Some ds), td_Retry = ex_retry,
      td_TimeoutMillis = 50, td_Compensation = c, td_Fanout = None\<rparr>"

definition ex_definition :: WorkflowDefinition where
  "ex_definition =
     \<lparr>wd_Name = ''n'', wd_Namespace = ''s'', wd_StartAt = 0,
      wd_Tasks = [ex_task ''a'' [] (Some \<lparr>cd_TaskType = ''u''\<rparr>), ex_task ''b'' [''a''] None]\<rparr>"

definition ex_submit :: Command where
  "ex_submit = zero_Command\<lparr>cmd_Kind := CommandSubmit, cmd_RequestID := ''r1'', cmd_WorkflowID := ''w'',
     cmd_At := 10, cmd_Definition := Some ex_definition\<rparr>"

definition ex_start :: "string \<Rightarrow> string \<Rightarrow> uint32 \<Rightarrow> int64 \<Rightarrow> Command" where
  "ex_start r i n t = zero_Command\<lparr>cmd_Kind := CommandStart, cmd_RequestID := r, cmd_WorkflowID := ''w'',
     cmd_TaskID := i, cmd_AttemptID := AttemptID H0 ''w'' i n, cmd_WorkerID := ''k'', cmd_At := t,
     cmd_LeaseUntil := t + 30\<rparr>"

definition ex_report :: "CommandKind \<Rightarrow> string \<Rightarrow> string \<Rightarrow> uint32 \<Rightarrow> int64 \<Rightarrow> Command" where
  "ex_report k r i n t = zero_Command\<lparr>cmd_Kind := k, cmd_RequestID := r, cmd_WorkflowID := ''w'',
     cmd_TaskID := i, cmd_AttemptID := AttemptID H0 ''w'' i n, cmd_WorkerID := ''k'', cmd_At := t,
     cmd_Fence := ucast n, cmd_Error := ''x'', cmd_LeaseUntil := t + 30\<rparr>"

definition ex_fire :: "string \<Rightarrow> string \<Rightarrow> string \<Rightarrow> uint32 \<Rightarrow> int64 \<Rightarrow> Command" where
  "ex_fire r i purpose n t = zero_Command\<lparr>cmd_Kind := CommandFireTimer, cmd_RequestID := r, cmd_WorkflowID := ''w'',
     cmd_TimerID := TimerID H0 ''w'' i purpose n, cmd_At := t\<rparr>"

text \<open>The state of a workflow after a command, and after several.\<close>

definition after :: "WorkflowState option \<Rightarrow> Command \<Rightarrow> WorkflowState option" where
  "after s c = (case decidePlan H0 s c of Inl x \<Rightarrow> None | Inr p \<Rightarrow> pl_state p)"

text \<open>
  The run: both tasks complete (\<open>ex5\<close>); or \<^verbatim>\<open>b\<close> fails twice (\<open>ex6\<close> to \<open>ex9\<close>) and \<^verbatim>\<open>a\<close> is
  compensated (\<open>ex10\<close>, \<open>ex11\<close>). Each state is evaluated once and reused in evaluated form.
\<close>

definition ex1 :: "WorkflowState option" where
  "ex1 = after None ex_submit"

lemma ex1_code [code]: "ex1 =
  Some
  \<lparr>wf_ID = ''w'', wf_Name = ''n'', wf_Namespace = ''s'',
     wf_Status = WorkflowRunning, wf_Version = 2, wf_UpdatedAt = 10,
     wf_Tasks =
       [(''a'',
         \<lparr>ts_Definition =
            \<lparr>td_ID = ''a'', td_Type = ''t'', td_Dependencies = None,
               td_Retry =
                 \<lparr>rp_MaxAttempts = 2, rp_InitialBackoffMillis = 5,
                    rp_BackoffMultiplier = 2, rp_MaxBackoffMillis = 20\<rparr>,
               td_TimeoutMillis = 50,
               td_Compensation = Some \<lparr>cd_TaskType = ''u''\<rparr>,
               td_Fanout = None\<rparr>,
            ts_Status = TaskReady, ts_Attempt = 0, ts_AttemptID = [],
            ts_Inputs = [], ts_Output = [], ts_Error = [], ts_StartedAt = 0,
            ts_FinishedAt = 0, ts_WorkerID = [], ts_LeaseUntil = 0,
            ts_Fence = 0, ts_Idempotency = [], ts_RetryCount = 0,
            ts_CompletedSequence = 0, ts_Children = None, ts_Payload = [],
            ts_FanoutExpanded = False, ts_Compensation = False\<rparr>),
        (''b'',
         \<lparr>ts_Definition =
            \<lparr>td_ID = ''b'', td_Type = ''t'', td_Dependencies = Some [''a''],
               td_Retry =
                 \<lparr>rp_MaxAttempts = 2, rp_InitialBackoffMillis = 5,
                    rp_BackoffMultiplier = 2, rp_MaxBackoffMillis = 20\<rparr>,
               td_TimeoutMillis = 50, td_Compensation = None,
               td_Fanout = None\<rparr>,
            ts_Status = TaskPending, ts_Attempt = 0, ts_AttemptID = [],
            ts_Inputs = [], ts_Output = [], ts_Error = [], ts_StartedAt = 0,
            ts_FinishedAt = 0, ts_WorkerID = [], ts_LeaseUntil = 0,
            ts_Fence = 0, ts_Idempotency = [], ts_RetryCount = 0,
            ts_CompletedSequence = 0, ts_Children = None, ts_Payload = [],
            ts_FanoutExpanded = False, ts_Compensation = False\<rparr>)],
     wf_Timers = []\<rparr>"
  by code_simp

definition ex2 :: "WorkflowState option" where
  "ex2 = after ex1 (ex_start ''r2'' ''a'' 1 20)"

lemma ex2_code [code]: "ex2 =
  Some
  \<lparr>wf_ID = ''w'', wf_Name = ''n'', wf_Namespace = ''s'',
     wf_Status = WorkflowRunning, wf_Version = 4, wf_UpdatedAt = 20,
     wf_Tasks =
       [(''a'',
         \<lparr>ts_Definition =
            \<lparr>td_ID = ''a'', td_Type = ''t'', td_Dependencies = None,
               td_Retry =
                 \<lparr>rp_MaxAttempts = 2, rp_InitialBackoffMillis = 5,
                    rp_BackoffMultiplier = 2, rp_MaxBackoffMillis = 20\<rparr>,
               td_TimeoutMillis = 50,
               td_Compensation = Some \<lparr>cd_TaskType = ''u''\<rparr>,
               td_Fanout = None\<rparr>,
            ts_Status = TaskRunning, ts_Attempt = 1,
            ts_AttemptID = ''attempt_310161017701303030303030'',
            ts_Inputs = [], ts_Output = [], ts_Error = [],
            ts_StartedAt = 20, ts_FinishedAt = 0, ts_WorkerID = ''k'',
            ts_LeaseUntil = 50, ts_Fence = 1,
            ts_Idempotency = ''idempotency_610177013030303030303030'',
            ts_RetryCount = 0, ts_CompletedSequence = 0, ts_Children = None,
            ts_Payload = [], ts_FanoutExpanded = False,
            ts_Compensation = False\<rparr>),
        (''b'',
         \<lparr>ts_Definition =
            \<lparr>td_ID = ''b'', td_Type = ''t'', td_Dependencies = Some [''a''],
               td_Retry =
                 \<lparr>rp_MaxAttempts = 2, rp_InitialBackoffMillis = 5,
                    rp_BackoffMultiplier = 2, rp_MaxBackoffMillis = 20\<rparr>,
               td_TimeoutMillis = 50, td_Compensation = None,
               td_Fanout = None\<rparr>,
            ts_Status = TaskPending, ts_Attempt = 0, ts_AttemptID = [],
            ts_Inputs = [], ts_Output = [], ts_Error = [], ts_StartedAt = 0,
            ts_FinishedAt = 0, ts_WorkerID = [], ts_LeaseUntil = 0,
            ts_Fence = 0, ts_Idempotency = [], ts_RetryCount = 0,
            ts_CompletedSequence = 0, ts_Children = None, ts_Payload = [],
            ts_FanoutExpanded = False, ts_Compensation = False\<rparr>)],
     wf_Timers =
       [(''timer_310174756f656d6974076101'',
         \<lparr>tm_ID = ''timer_310174756f656d6974076101'', tm_TaskID = ''a'',
            tm_Purpose = TimerTimeout, tm_Deadline = 70,
            tm_AttemptID = ''attempt_310161017701303030303030'',
            tm_Attempt = 1, tm_Fence = 1, tm_Status = TimerScheduled\<rparr>)]\<rparr>"
  by code_simp

definition ex3 :: "WorkflowState option" where
  "ex3 = after ex2 (ex_report CommandComplete ''r3'' ''a'' 1 25)"

lemma ex3_code [code]: "ex3 =
  Some
  \<lparr>wf_ID = ''w'', wf_Name = ''n'', wf_Namespace = ''s'',
     wf_Status = WorkflowRunning, wf_Version = 7, wf_UpdatedAt = 25,
     wf_Tasks =
       [(''a'',
         \<lparr>ts_Definition =
            \<lparr>td_ID = ''a'', td_Type = ''t'', td_Dependencies = None,
               td_Retry =
                 \<lparr>rp_MaxAttempts = 2, rp_InitialBackoffMillis = 5,
                    rp_BackoffMultiplier = 2, rp_MaxBackoffMillis = 20\<rparr>,
               td_TimeoutMillis = 50,
               td_Compensation = Some \<lparr>cd_TaskType = ''u''\<rparr>,
               td_Fanout = None\<rparr>,
            ts_Status = TaskCompleted, ts_Attempt = 1,
            ts_AttemptID = ''attempt_310161017701303030303030'',
            ts_Inputs = [], ts_Output = [], ts_Error = [],
            ts_StartedAt = 20, ts_FinishedAt = 25, ts_WorkerID = ''k'',
            ts_LeaseUntil = 50, ts_Fence = 1,
            ts_Idempotency = ''idempotency_610177013030303030303030'',
            ts_RetryCount = 0, ts_CompletedSequence = 5, ts_Children = None,
            ts_Payload = [], ts_FanoutExpanded = False,
            ts_Compensation = False\<rparr>),
        (''b'',
         \<lparr>ts_Definition =
            \<lparr>td_ID = ''b'', td_Type = ''t'', td_Dependencies = Some [''a''],
               td_Retry =
                 \<lparr>rp_MaxAttempts = 2, rp_InitialBackoffMillis = 5,
                    rp_BackoffMultiplier = 2, rp_MaxBackoffMillis = 20\<rparr>,
               td_TimeoutMillis = 50, td_Compensation = None,
               td_Fanout = None\<rparr>,
            ts_Status = TaskReady, ts_Attempt = 0, ts_AttemptID = [],
            ts_Inputs = [], ts_Output = [], ts_Error = [], ts_StartedAt = 0,
            ts_FinishedAt = 0, ts_WorkerID = [], ts_LeaseUntil = 0,
            ts_Fence = 0, ts_Idempotency = [], ts_RetryCount = 0,
            ts_CompletedSequence = 0, ts_Children = None, ts_Payload = [],
            ts_FanoutExpanded = False, ts_Compensation = False\<rparr>)],
     wf_Timers =
       [(''timer_310174756f656d6974076101'',
         \<lparr>tm_ID = ''timer_310174756f656d6974076101'', tm_TaskID = ''a'',
            tm_Purpose = TimerTimeout, tm_Deadline = 70,
            tm_AttemptID = ''attempt_310161017701303030303030'',
            tm_Attempt = 1, tm_Fence = 1, tm_Status = TimerCancelled\<rparr>)]\<rparr>"
  by code_simp

definition ex4 :: "WorkflowState option" where
  "ex4 = after ex3 (ex_start ''r4'' ''b'' 1 30)"

lemma ex4_code [code]: "ex4 =
  Some
  \<lparr>wf_ID = ''w'', wf_Name = ''n'', wf_Namespace = ''s'',
     wf_Status = WorkflowRunning, wf_Version = 9, wf_UpdatedAt = 30,
     wf_Tasks =
       [(''a'',
         \<lparr>ts_Definition =
            \<lparr>td_ID = ''a'', td_Type = ''t'', td_Dependencies = None,
               td_Retry =
                 \<lparr>rp_MaxAttempts = 2, rp_InitialBackoffMillis = 5,
                    rp_BackoffMultiplier = 2, rp_MaxBackoffMillis = 20\<rparr>,
               td_TimeoutMillis = 50,
               td_Compensation = Some \<lparr>cd_TaskType = ''u''\<rparr>,
               td_Fanout = None\<rparr>,
            ts_Status = TaskCompleted, ts_Attempt = 1,
            ts_AttemptID = ''attempt_310161017701303030303030'',
            ts_Inputs = [], ts_Output = [], ts_Error = [],
            ts_StartedAt = 20, ts_FinishedAt = 25, ts_WorkerID = ''k'',
            ts_LeaseUntil = 50, ts_Fence = 1,
            ts_Idempotency = ''idempotency_610177013030303030303030'',
            ts_RetryCount = 0, ts_CompletedSequence = 5, ts_Children = None,
            ts_Payload = [], ts_FanoutExpanded = False,
            ts_Compensation = False\<rparr>),
        (''b'',
         \<lparr>ts_Definition =
            \<lparr>td_ID = ''b'', td_Type = ''t'', td_Dependencies = Some [''a''],
               td_Retry =
                 \<lparr>rp_MaxAttempts = 2, rp_InitialBackoffMillis = 5,
                    rp_BackoffMultiplier = 2, rp_MaxBackoffMillis = 20\<rparr>,
               td_TimeoutMillis = 50, td_Compensation = None,
               td_Fanout = None\<rparr>,
            ts_Status = TaskRunning, ts_Attempt = 1,
            ts_AttemptID = ''attempt_310162017701303030303030'',
            ts_Inputs = [(''a'', [])], ts_Output = [], ts_Error = [],
            ts_StartedAt = 30, ts_FinishedAt = 0, ts_WorkerID = ''k'',
            ts_LeaseUntil = 60, ts_Fence = 1,
            ts_Idempotency = ''idempotency_620177013030303030303030'',
            ts_RetryCount = 0, ts_CompletedSequence = 0, ts_Children = None,
            ts_Payload = [], ts_FanoutExpanded = False,
            ts_Compensation = False\<rparr>)],
     wf_Timers =
       [(''timer_310174756f656d6974076101'',
         \<lparr>tm_ID = ''timer_310174756f656d6974076101'', tm_TaskID = ''a'',
            tm_Purpose = TimerTimeout, tm_Deadline = 70,
            tm_AttemptID = ''attempt_310161017701303030303030'',
            tm_Attempt = 1, tm_Fence = 1, tm_Status = TimerCancelled\<rparr>),
        (''timer_310174756f656d6974076201'',
         \<lparr>tm_ID = ''timer_310174756f656d6974076201'', tm_TaskID = ''b'',
            tm_Purpose = TimerTimeout, tm_Deadline = 80,
            tm_AttemptID = ''attempt_310162017701303030303030'',
            tm_Attempt = 1, tm_Fence = 1, tm_Status = TimerScheduled\<rparr>)]\<rparr>"
  by code_simp

definition ex5 :: "WorkflowState option" where
  "ex5 = after ex4 (ex_report CommandComplete ''r5'' ''b'' 1 35)"

lemma ex5_code [code]: "ex5 =
  Some
  \<lparr>wf_ID = ''w'', wf_Name = ''n'', wf_Namespace = ''s'',
     wf_Status = WorkflowCompleted, wf_Version = 12, wf_UpdatedAt = 35,
     wf_Tasks =
       [(''a'',
         \<lparr>ts_Definition =
            \<lparr>td_ID = ''a'', td_Type = ''t'', td_Dependencies = None,
               td_Retry =
                 \<lparr>rp_MaxAttempts = 2, rp_InitialBackoffMillis = 5,
                    rp_BackoffMultiplier = 2, rp_MaxBackoffMillis = 20\<rparr>,
               td_TimeoutMillis = 50,
               td_Compensation = Some \<lparr>cd_TaskType = ''u''\<rparr>,
               td_Fanout = None\<rparr>,
            ts_Status = TaskCompleted, ts_Attempt = 1,
            ts_AttemptID = ''attempt_310161017701303030303030'',
            ts_Inputs = [], ts_Output = [], ts_Error = [],
            ts_StartedAt = 20, ts_FinishedAt = 25, ts_WorkerID = ''k'',
            ts_LeaseUntil = 50, ts_Fence = 1,
            ts_Idempotency = ''idempotency_610177013030303030303030'',
            ts_RetryCount = 0, ts_CompletedSequence = 5, ts_Children = None,
            ts_Payload = [], ts_FanoutExpanded = False,
            ts_Compensation = False\<rparr>),
        (''b'',
         \<lparr>ts_Definition =
            \<lparr>td_ID = ''b'', td_Type = ''t'', td_Dependencies = Some [''a''],
               td_Retry =
                 \<lparr>rp_MaxAttempts = 2, rp_InitialBackoffMillis = 5,
                    rp_BackoffMultiplier = 2, rp_MaxBackoffMillis = 20\<rparr>,
               td_TimeoutMillis = 50, td_Compensation = None,
               td_Fanout = None\<rparr>,
            ts_Status = TaskCompleted, ts_Attempt = 1,
            ts_AttemptID = ''attempt_310162017701303030303030'',
            ts_Inputs = [(''a'', [])], ts_Output = [], ts_Error = [],
            ts_StartedAt = 30, ts_FinishedAt = 35, ts_WorkerID = ''k'',
            ts_LeaseUntil = 60, ts_Fence = 1,
            ts_Idempotency = ''idempotency_620177013030303030303030'',
            ts_RetryCount = 0, ts_CompletedSequence = 10,
            ts_Children = None, ts_Payload = [], ts_FanoutExpanded = False,
            ts_Compensation = False\<rparr>)],
     wf_Timers =
       [(''timer_310174756f656d6974076101'',
         \<lparr>tm_ID = ''timer_310174756f656d6974076101'', tm_TaskID = ''a'',
            tm_Purpose = TimerTimeout, tm_Deadline = 70,
            tm_AttemptID = ''attempt_310161017701303030303030'',
            tm_Attempt = 1, tm_Fence = 1, tm_Status = TimerCancelled\<rparr>),
        (''timer_310174756f656d6974076201'',
         \<lparr>tm_ID = ''timer_310174756f656d6974076201'', tm_TaskID = ''b'',
            tm_Purpose = TimerTimeout, tm_Deadline = 80,
            tm_AttemptID = ''attempt_310162017701303030303030'',
            tm_Attempt = 1, tm_Fence = 1, tm_Status = TimerCancelled\<rparr>)]\<rparr>"
  by code_simp

definition ex6 :: "WorkflowState option" where
  "ex6 = after ex4 (ex_report CommandFail ''r6'' ''b'' 1 35)"

lemma ex6_code [code]: "ex6 =
  Some
  \<lparr>wf_ID = ''w'', wf_Name = ''n'', wf_Namespace = ''s'',
     wf_Status = WorkflowRunning, wf_Version = 13, wf_UpdatedAt = 35,
     wf_Tasks =
       [(''a'',
         \<lparr>ts_Definition =
            \<lparr>td_ID = ''a'', td_Type = ''t'', td_Dependencies = None,
               td_Retry =
                 \<lparr>rp_MaxAttempts = 2, rp_InitialBackoffMillis = 5,
                    rp_BackoffMultiplier = 2, rp_MaxBackoffMillis = 20\<rparr>,
               td_TimeoutMillis = 50,
               td_Compensation = Some \<lparr>cd_TaskType = ''u''\<rparr>,
               td_Fanout = None\<rparr>,
            ts_Status = TaskCompleted, ts_Attempt = 1,
            ts_AttemptID = ''attempt_310161017701303030303030'',
            ts_Inputs = [], ts_Output = [], ts_Error = [],
            ts_StartedAt = 20, ts_FinishedAt = 25, ts_WorkerID = ''k'',
            ts_LeaseUntil = 50, ts_Fence = 1,
            ts_Idempotency = ''idempotency_610177013030303030303030'',
            ts_RetryCount = 0, ts_CompletedSequence = 5, ts_Children = None,
            ts_Payload = [], ts_FanoutExpanded = False,
            ts_Compensation = False\<rparr>),
        (''b'',
         \<lparr>ts_Definition =
            \<lparr>td_ID = ''b'', td_Type = ''t'', td_Dependencies = Some [''a''],
               td_Retry =
                 \<lparr>rp_MaxAttempts = 2, rp_InitialBackoffMillis = 5,
                    rp_BackoffMultiplier = 2, rp_MaxBackoffMillis = 20\<rparr>,
               td_TimeoutMillis = 50, td_Compensation = None,
               td_Fanout = None\<rparr>,
            ts_Status = TaskPending, ts_Attempt = 1, ts_AttemptID = [],
            ts_Inputs = [], ts_Output = [], ts_Error = ''x'',
            ts_StartedAt = 0, ts_FinishedAt = 35, ts_WorkerID = [],
            ts_LeaseUntil = 0, ts_Fence = 1,
            ts_Idempotency = ''idempotency_620177013030303030303030'',
            ts_RetryCount = 1, ts_CompletedSequence = 0, ts_Children = None,
            ts_Payload = [], ts_FanoutExpanded = False,
            ts_Compensation = False\<rparr>)],
     wf_Timers =
       [(''timer_310174756f656d6974076101'',
         \<lparr>tm_ID = ''timer_310174756f656d6974076101'', tm_TaskID = ''a'',
            tm_Purpose = TimerTimeout, tm_Deadline = 70,
            tm_AttemptID = ''attempt_310161017701303030303030'',
            tm_Attempt = 1, tm_Fence = 1, tm_Status = TimerCancelled\<rparr>),
        (''timer_310174756f656d6974076201'',
         \<lparr>tm_ID = ''timer_310174756f656d6974076201'', tm_TaskID = ''b'',
            tm_Purpose = TimerTimeout, tm_Deadline = 80,
            tm_AttemptID = ''attempt_310162017701303030303030'',
            tm_Attempt = 1, tm_Fence = 1, tm_Status = TimerCancelled\<rparr>),
        (''timer_310179727465720562017701'',
         \<lparr>tm_ID = ''timer_310179727465720562017701'', tm_TaskID = ''b'',
            tm_Purpose = TimerRetry, tm_Deadline = 40,
            tm_AttemptID = ''attempt_310162017701303030303030'',
            tm_Attempt = 1, tm_Fence = 1, tm_Status = TimerScheduled\<rparr>)]\<rparr>"
  by code_simp

definition ex7 :: "WorkflowState option" where
  "ex7 = after ex6 (ex_fire ''r7'' ''b'' ''retry'' 1 50)"

lemma ex7_code [code]: "ex7 =
  Some
  \<lparr>wf_ID = ''w'', wf_Name = ''n'', wf_Namespace = ''s'',
     wf_Status = WorkflowRunning, wf_Version = 15, wf_UpdatedAt = 50,
     wf_Tasks =
       [(''a'',
         \<lparr>ts_Definition =
            \<lparr>td_ID = ''a'', td_Type = ''t'', td_Dependencies = None,
               td_Retry =
                 \<lparr>rp_MaxAttempts = 2, rp_InitialBackoffMillis = 5,
                    rp_BackoffMultiplier = 2, rp_MaxBackoffMillis = 20\<rparr>,
               td_TimeoutMillis = 50,
               td_Compensation = Some \<lparr>cd_TaskType = ''u''\<rparr>,
               td_Fanout = None\<rparr>,
            ts_Status = TaskCompleted, ts_Attempt = 1,
            ts_AttemptID = ''attempt_310161017701303030303030'',
            ts_Inputs = [], ts_Output = [], ts_Error = [],
            ts_StartedAt = 20, ts_FinishedAt = 25, ts_WorkerID = ''k'',
            ts_LeaseUntil = 50, ts_Fence = 1,
            ts_Idempotency = ''idempotency_610177013030303030303030'',
            ts_RetryCount = 0, ts_CompletedSequence = 5, ts_Children = None,
            ts_Payload = [], ts_FanoutExpanded = False,
            ts_Compensation = False\<rparr>),
        (''b'',
         \<lparr>ts_Definition =
            \<lparr>td_ID = ''b'', td_Type = ''t'', td_Dependencies = Some [''a''],
               td_Retry =
                 \<lparr>rp_MaxAttempts = 2, rp_InitialBackoffMillis = 5,
                    rp_BackoffMultiplier = 2, rp_MaxBackoffMillis = 20\<rparr>,
               td_TimeoutMillis = 50, td_Compensation = None,
               td_Fanout = None\<rparr>,
            ts_Status = TaskReady, ts_Attempt = 1, ts_AttemptID = [],
            ts_Inputs = [], ts_Output = [], ts_Error = ''x'',
            ts_StartedAt = 0, ts_FinishedAt = 35, ts_WorkerID = [],
            ts_LeaseUntil = 0, ts_Fence = 1,
            ts_Idempotency = ''idempotency_620177013030303030303030'',
            ts_RetryCount = 1, ts_CompletedSequence = 0, ts_Children = None,
            ts_Payload = [], ts_FanoutExpanded = False,
            ts_Compensation = False\<rparr>)],
     wf_Timers =
       [(''timer_310174756f656d6974076101'',
         \<lparr>tm_ID = ''timer_310174756f656d6974076101'', tm_TaskID = ''a'',
            tm_Purpose = TimerTimeout, tm_Deadline = 70,
            tm_AttemptID = ''attempt_310161017701303030303030'',
            tm_Attempt = 1, tm_Fence = 1, tm_Status = TimerCancelled\<rparr>),
        (''timer_310174756f656d6974076201'',
         \<lparr>tm_ID = ''timer_310174756f656d6974076201'', tm_TaskID = ''b'',
            tm_Purpose = TimerTimeout, tm_Deadline = 80,
            tm_AttemptID = ''attempt_310162017701303030303030'',
            tm_Attempt = 1, tm_Fence = 1, tm_Status = TimerCancelled\<rparr>),
        (''timer_310179727465720562017701'',
         \<lparr>tm_ID = ''timer_310179727465720562017701'', tm_TaskID = ''b'',
            tm_Purpose = TimerRetry, tm_Deadline = 40,
            tm_AttemptID = ''attempt_310162017701303030303030'',
            tm_Attempt = 1, tm_Fence = 1, tm_Status = TimerFired\<rparr>)]\<rparr>"
  by code_simp

definition ex8 :: "WorkflowState option" where
  "ex8 = after ex7 (ex_start ''r8'' ''b'' 2 50)"

lemma ex8_code [code]: "ex8 =
  Some
  \<lparr>wf_ID = ''w'', wf_Name = ''n'', wf_Namespace = ''s'',
     wf_Status = WorkflowRunning, wf_Version = 17, wf_UpdatedAt = 50,
     wf_Tasks =
       [(''a'',
         \<lparr>ts_Definition =
            \<lparr>td_ID = ''a'', td_Type = ''t'', td_Dependencies = None,
               td_Retry =
                 \<lparr>rp_MaxAttempts = 2, rp_InitialBackoffMillis = 5,
                    rp_BackoffMultiplier = 2, rp_MaxBackoffMillis = 20\<rparr>,
               td_TimeoutMillis = 50,
               td_Compensation = Some \<lparr>cd_TaskType = ''u''\<rparr>,
               td_Fanout = None\<rparr>,
            ts_Status = TaskCompleted, ts_Attempt = 1,
            ts_AttemptID = ''attempt_310161017701303030303030'',
            ts_Inputs = [], ts_Output = [], ts_Error = [],
            ts_StartedAt = 20, ts_FinishedAt = 25, ts_WorkerID = ''k'',
            ts_LeaseUntil = 50, ts_Fence = 1,
            ts_Idempotency = ''idempotency_610177013030303030303030'',
            ts_RetryCount = 0, ts_CompletedSequence = 5, ts_Children = None,
            ts_Payload = [], ts_FanoutExpanded = False,
            ts_Compensation = False\<rparr>),
        (''b'',
         \<lparr>ts_Definition =
            \<lparr>td_ID = ''b'', td_Type = ''t'', td_Dependencies = Some [''a''],
               td_Retry =
                 \<lparr>rp_MaxAttempts = 2, rp_InitialBackoffMillis = 5,
                    rp_BackoffMultiplier = 2, rp_MaxBackoffMillis = 20\<rparr>,
               td_TimeoutMillis = 50, td_Compensation = None,
               td_Fanout = None\<rparr>,
            ts_Status = TaskRunning, ts_Attempt = 2,
            ts_AttemptID = ''attempt_320162017701303030303030'',
            ts_Inputs = [(''a'', [])], ts_Output = [], ts_Error = [],
            ts_StartedAt = 50, ts_FinishedAt = 35, ts_WorkerID = ''k'',
            ts_LeaseUntil = 80, ts_Fence = 2,
            ts_Idempotency = ''idempotency_620177013030303030303030'',
            ts_RetryCount = 1, ts_CompletedSequence = 0, ts_Children = None,
            ts_Payload = [], ts_FanoutExpanded = False,
            ts_Compensation = False\<rparr>)],
     wf_Timers =
       [(''timer_310174756f656d6974076101'',
         \<lparr>tm_ID = ''timer_310174756f656d6974076101'', tm_TaskID = ''a'',
            tm_Purpose = TimerTimeout, tm_Deadline = 70,
            tm_AttemptID = ''attempt_310161017701303030303030'',
            tm_Attempt = 1, tm_Fence = 1, tm_Status = TimerCancelled\<rparr>),
        (''timer_310174756f656d6974076201'',
         \<lparr>tm_ID = ''timer_310174756f656d6974076201'', tm_TaskID = ''b'',
            tm_Purpose = TimerTimeout, tm_Deadline = 80,
            tm_AttemptID = ''attempt_310162017701303030303030'',
            tm_Attempt = 1, tm_Fence = 1, tm_Status = TimerCancelled\<rparr>),
        (''timer_310179727465720562017701'',
         \<lparr>tm_ID = ''timer_310179727465720562017701'', tm_TaskID = ''b'',
            tm_Purpose = TimerRetry, tm_Deadline = 40,
            tm_AttemptID = ''attempt_310162017701303030303030'',
            tm_Attempt = 1, tm_Fence = 1, tm_Status = TimerFired\<rparr>),
        (''timer_320174756f656d6974076201'',
         \<lparr>tm_ID = ''timer_320174756f656d6974076201'', tm_TaskID = ''b'',
            tm_Purpose = TimerTimeout, tm_Deadline = 100,
            tm_AttemptID = ''attempt_320162017701303030303030'',
            tm_Attempt = 2, tm_Fence = 2, tm_Status = TimerScheduled\<rparr>)]\<rparr>"
  by code_simp

definition ex9 :: "WorkflowState option" where
  "ex9 = after ex8 (ex_report CommandFail ''r9'' ''b'' 2 55)"

lemma ex9_code [code]: "ex9 =
  Some
  \<lparr>wf_ID = ''w'', wf_Name = ''n'', wf_Namespace = ''s'',
     wf_Status = WorkflowCompensating, wf_Version = 20, wf_UpdatedAt = 55,
     wf_Tasks =
       [(''a'',
         \<lparr>ts_Definition =
            \<lparr>td_ID = ''a'', td_Type = ''t'', td_Dependencies = None,
               td_Retry =
                 \<lparr>rp_MaxAttempts = 2, rp_InitialBackoffMillis = 5,
                    rp_BackoffMultiplier = 2, rp_MaxBackoffMillis = 20\<rparr>,
               td_TimeoutMillis = 50,
               td_Compensation = Some \<lparr>cd_TaskType = ''u''\<rparr>,
               td_Fanout = None\<rparr>,
            ts_Status = TaskCompensating, ts_Attempt = 1, ts_AttemptID = [],
            ts_Inputs = [], ts_Output = [], ts_Error = [], ts_StartedAt = 0,
            ts_FinishedAt = 0, ts_WorkerID = [], ts_LeaseUntil = 0,
            ts_Fence = 1, ts_Idempotency = [], ts_RetryCount = 0,
            ts_CompletedSequence = 5, ts_Children = None, ts_Payload = [],
            ts_FanoutExpanded = False, ts_Compensation = True\<rparr>),
        (''b'',
         \<lparr>ts_Definition =
            \<lparr>td_ID = ''b'', td_Type = ''t'', td_Dependencies = Some [''a''],
               td_Retry =
                 \<lparr>rp_MaxAttempts = 2, rp_InitialBackoffMillis = 5,
                    rp_BackoffMultiplier = 2, rp_MaxBackoffMillis = 20\<rparr>,
               td_TimeoutMillis = 50, td_Compensation = None,
               td_Fanout = None\<rparr>,
            ts_Status = TaskFailed, ts_Attempt = 2,
            ts_AttemptID = ''attempt_320162017701303030303030'',
            ts_Inputs = [(''a'', [])], ts_Output = [], ts_Error = ''x'',
            ts_StartedAt = 50, ts_FinishedAt = 55, ts_WorkerID = ''k'',
            ts_LeaseUntil = 80, ts_Fence = 2,
            ts_Idempotency = ''idempotency_620177013030303030303030'',
            ts_RetryCount = 1, ts_CompletedSequence = 0, ts_Children = None,
            ts_Payload = [], ts_FanoutExpanded = False,
            ts_Compensation = False\<rparr>)],
     wf_Timers =
       [(''timer_310174756f656d6974076101'',
         \<lparr>tm_ID = ''timer_310174756f656d6974076101'', tm_TaskID = ''a'',
            tm_Purpose = TimerTimeout, tm_Deadline = 70,
            tm_AttemptID = ''attempt_310161017701303030303030'',
            tm_Attempt = 1, tm_Fence = 1, tm_Status = TimerCancelled\<rparr>),
        (''timer_310174756f656d6974076201'',
         \<lparr>tm_ID = ''timer_310174756f656d6974076201'', tm_TaskID = ''b'',
            tm_Purpose = TimerTimeout, tm_Deadline = 80,
            tm_AttemptID = ''attempt_310162017701303030303030'',
            tm_Attempt = 1, tm_Fence = 1, tm_Status = TimerCancelled\<rparr>),
        (''timer_310179727465720562017701'',
         \<lparr>tm_ID = ''timer_310179727465720562017701'', tm_TaskID = ''b'',
            tm_Purpose = TimerRetry, tm_Deadline = 40,
            tm_AttemptID = ''attempt_310162017701303030303030'',
            tm_Attempt = 1, tm_Fence = 1, tm_Status = TimerFired\<rparr>),
        (''timer_320174756f656d6974076201'',
         \<lparr>tm_ID = ''timer_320174756f656d6974076201'', tm_TaskID = ''b'',
            tm_Purpose = TimerTimeout, tm_Deadline = 100,
            tm_AttemptID = ''attempt_320162017701303030303030'',
            tm_Attempt = 2, tm_Fence = 2, tm_Status = TimerCancelled\<rparr>)]\<rparr>"
  by code_simp

definition ex10 :: "WorkflowState option" where
  "ex10 = after ex9 (ex_start ''r10'' ''a'' 2 60)"

lemma ex10_code [code]: "ex10 =
  Some
  \<lparr>wf_ID = ''w'', wf_Name = ''n'', wf_Namespace = ''s'',
     wf_Status = WorkflowCompensating, wf_Version = 22, wf_UpdatedAt = 60,
     wf_Tasks =
       [(''a'',
         \<lparr>ts_Definition =
            \<lparr>td_ID = ''a'', td_Type = ''t'', td_Dependencies = None,
               td_Retry =
                 \<lparr>rp_MaxAttempts = 2, rp_InitialBackoffMillis = 5,
                    rp_BackoffMultiplier = 2, rp_MaxBackoffMillis = 20\<rparr>,
               td_TimeoutMillis = 50,
               td_Compensation = Some \<lparr>cd_TaskType = ''u''\<rparr>,
               td_Fanout = None\<rparr>,
            ts_Status = TaskCompensating, ts_Attempt = 2,
            ts_AttemptID = ''attempt_320161017701303030303030'',
            ts_Inputs = [], ts_Output = [], ts_Error = [],
            ts_StartedAt = 60, ts_FinishedAt = 0, ts_WorkerID = ''k'',
            ts_LeaseUntil = 90, ts_Fence = 2,
            ts_Idempotency =
              ''compensation-idempotency_610177013030303030303030'',
            ts_RetryCount = 0, ts_CompletedSequence = 5, ts_Children = None,
            ts_Payload = [], ts_FanoutExpanded = False,
            ts_Compensation = True\<rparr>),
        (''b'',
         \<lparr>ts_Definition =
            \<lparr>td_ID = ''b'', td_Type = ''t'', td_Dependencies = Some [''a''],
               td_Retry =
                 \<lparr>rp_MaxAttempts = 2, rp_InitialBackoffMillis = 5,
                    rp_BackoffMultiplier = 2, rp_MaxBackoffMillis = 20\<rparr>,
               td_TimeoutMillis = 50, td_Compensation = None,
               td_Fanout = None\<rparr>,
            ts_Status = TaskFailed, ts_Attempt = 2,
            ts_AttemptID = ''attempt_320162017701303030303030'',
            ts_Inputs = [(''a'', [])], ts_Output = [], ts_Error = ''x'',
            ts_StartedAt = 50, ts_FinishedAt = 55, ts_WorkerID = ''k'',
            ts_LeaseUntil = 80, ts_Fence = 2,
            ts_Idempotency = ''idempotency_620177013030303030303030'',
            ts_RetryCount = 1, ts_CompletedSequence = 0, ts_Children = None,
            ts_Payload = [], ts_FanoutExpanded = False,
            ts_Compensation = False\<rparr>)],
     wf_Timers =
       [(''timer_310174756f656d6974076101'',
         \<lparr>tm_ID = ''timer_310174756f656d6974076101'', tm_TaskID = ''a'',
            tm_Purpose = TimerTimeout, tm_Deadline = 70,
            tm_AttemptID = ''attempt_310161017701303030303030'',
            tm_Attempt = 1, tm_Fence = 1, tm_Status = TimerCancelled\<rparr>),
        (''timer_310174756f656d6974076201'',
         \<lparr>tm_ID = ''timer_310174756f656d6974076201'', tm_TaskID = ''b'',
            tm_Purpose = TimerTimeout, tm_Deadline = 80,
            tm_AttemptID = ''attempt_310162017701303030303030'',
            tm_Attempt = 1, tm_Fence = 1, tm_Status = TimerCancelled\<rparr>),
        (''timer_310179727465720562017701'',
         \<lparr>tm_ID = ''timer_310179727465720562017701'', tm_TaskID = ''b'',
            tm_Purpose = TimerRetry, tm_Deadline = 40,
            tm_AttemptID = ''attempt_310162017701303030303030'',
            tm_Attempt = 1, tm_Fence = 1, tm_Status = TimerFired\<rparr>),
        (''timer_320174756f656d6974076201'',
         \<lparr>tm_ID = ''timer_320174756f656d6974076201'', tm_TaskID = ''b'',
            tm_Purpose = TimerTimeout, tm_Deadline = 100,
            tm_AttemptID = ''attempt_320162017701303030303030'',
            tm_Attempt = 2, tm_Fence = 2, tm_Status = TimerCancelled\<rparr>),
        (''timer_320174756f656d6974076101'',
         \<lparr>tm_ID = ''timer_320174756f656d6974076101'', tm_TaskID = ''a'',
            tm_Purpose = TimerTimeout, tm_Deadline = 110,
            tm_AttemptID = ''attempt_320161017701303030303030'',
            tm_Attempt = 2, tm_Fence = 2, tm_Status = TimerScheduled\<rparr>)]\<rparr>"
  by code_simp

definition ex11 :: "WorkflowState option" where
  "ex11 = after ex10 (ex_report CommandComplete ''r11'' ''a'' 2 65)"

lemma ex11_code [code]: "ex11 =
  Some
  \<lparr>wf_ID = ''w'', wf_Name = ''n'', wf_Namespace = ''s'',
     wf_Status = WorkflowCompensated, wf_Version = 25, wf_UpdatedAt = 65,
     wf_Tasks =
       [(''a'',
         \<lparr>ts_Definition =
            \<lparr>td_ID = ''a'', td_Type = ''t'', td_Dependencies = None,
               td_Retry =
                 \<lparr>rp_MaxAttempts = 2, rp_InitialBackoffMillis = 5,
                    rp_BackoffMultiplier = 2, rp_MaxBackoffMillis = 20\<rparr>,
               td_TimeoutMillis = 50,
               td_Compensation = Some \<lparr>cd_TaskType = ''u''\<rparr>,
               td_Fanout = None\<rparr>,
            ts_Status = TaskCompensated, ts_Attempt = 2,
            ts_AttemptID = ''attempt_320161017701303030303030'',
            ts_Inputs = [], ts_Output = [], ts_Error = [],
            ts_StartedAt = 60, ts_FinishedAt = 65, ts_WorkerID = [],
            ts_LeaseUntil = 0, ts_Fence = 2,
            ts_Idempotency =
              ''compensation-idempotency_610177013030303030303030'',
            ts_RetryCount = 0, ts_CompletedSequence = 5, ts_Children = None,
            ts_Payload = [], ts_FanoutExpanded = False,
            ts_Compensation = False\<rparr>),
        (''b'',
         \<lparr>ts_Definition =
            \<lparr>td_ID = ''b'', td_Type = ''t'', td_Dependencies = Some [''a''],
               td_Retry =
                 \<lparr>rp_MaxAttempts = 2, rp_InitialBackoffMillis = 5,
                    rp_BackoffMultiplier = 2, rp_MaxBackoffMillis = 20\<rparr>,
               td_TimeoutMillis = 50, td_Compensation = None,
               td_Fanout = None\<rparr>,
            ts_Status = TaskFailed, ts_Attempt = 2,
            ts_AttemptID = ''attempt_320162017701303030303030'',
            ts_Inputs = [(''a'', [])], ts_Output = [], ts_Error = ''x'',
            ts_StartedAt = 50, ts_FinishedAt = 55, ts_WorkerID = ''k'',
            ts_LeaseUntil = 80, ts_Fence = 2,
            ts_Idempotency = ''idempotency_620177013030303030303030'',
            ts_RetryCount = 1, ts_CompletedSequence = 0, ts_Children = None,
            ts_Payload = [], ts_FanoutExpanded = False,
            ts_Compensation = False\<rparr>)],
     wf_Timers =
       [(''timer_310174756f656d6974076101'',
         \<lparr>tm_ID = ''timer_310174756f656d6974076101'', tm_TaskID = ''a'',
            tm_Purpose = TimerTimeout, tm_Deadline = 70,
            tm_AttemptID = ''attempt_310161017701303030303030'',
            tm_Attempt = 1, tm_Fence = 1, tm_Status = TimerCancelled\<rparr>),
        (''timer_310174756f656d6974076201'',
         \<lparr>tm_ID = ''timer_310174756f656d6974076201'', tm_TaskID = ''b'',
            tm_Purpose = TimerTimeout, tm_Deadline = 80,
            tm_AttemptID = ''attempt_310162017701303030303030'',
            tm_Attempt = 1, tm_Fence = 1, tm_Status = TimerCancelled\<rparr>),
        (''timer_310179727465720562017701'',
         \<lparr>tm_ID = ''timer_310179727465720562017701'', tm_TaskID = ''b'',
            tm_Purpose = TimerRetry, tm_Deadline = 40,
            tm_AttemptID = ''attempt_310162017701303030303030'',
            tm_Attempt = 1, tm_Fence = 1, tm_Status = TimerFired\<rparr>),
        (''timer_320174756f656d6974076201'',
         \<lparr>tm_ID = ''timer_320174756f656d6974076201'', tm_TaskID = ''b'',
            tm_Purpose = TimerTimeout, tm_Deadline = 100,
            tm_AttemptID = ''attempt_320162017701303030303030'',
            tm_Attempt = 2, tm_Fence = 2, tm_Status = TimerCancelled\<rparr>),
        (''timer_320174756f656d6974076101'',
         \<lparr>tm_ID = ''timer_320174756f656d6974076101'', tm_TaskID = ''a'',
            tm_Purpose = TimerTimeout, tm_Deadline = 110,
            tm_AttemptID = ''attempt_320161017701303030303030'',
            tm_Attempt = 2, tm_Fence = 2, tm_Status = TimerCancelled\<rparr>)]\<rparr>"
  by code_simp

section \<open>The run is reachable\<close>

lemma after_reachable:
  "after None c = Some t \<Longrightarrow> reachable H0 t"
  "after (Some s) c = Some t \<Longrightarrow> reachable H0 s \<Longrightarrow> reachable H0 t"
  by (auto simp: after_def intro: reachable.intros split: sum.splits)

lemma ex_states:
  "ex1 = Some (the ex1)" "ex2 = Some (the ex2)" "ex3 = Some (the ex3)" "ex4 = Some (the ex4)" "ex5 = Some (the ex5)"
  "ex6 = Some (the ex6)" "ex7 = Some (the ex7)" "ex8 = Some (the ex8)" "ex9 = Some (the ex9)"
  "ex10 = Some (the ex10)" "ex11 = Some (the ex11)"
  by (simp_all add: ex1_code ex2_code ex3_code ex4_code ex5_code ex6_code ex7_code ex8_code ex9_code
      ex10_code ex11_code)

lemma ex_reachable:
  "reachable H0 (the ex1)" "reachable H0 (the ex2)" "reachable H0 (the ex3)" "reachable H0 (the ex4)"
  "reachable H0 (the ex5)" "reachable H0 (the ex6)" "reachable H0 (the ex7)" "reachable H0 (the ex8)"
  "reachable H0 (the ex9)" "reachable H0 (the ex10)" "reachable H0 (the ex11)"
proof -
  show r1: "reachable H0 (the ex1)" using ex_states(1) unfolding ex1_def by (rule after_reachable(1))
  have step: "reachable H0 (the s) \<Longrightarrow> s = Some (the s) \<Longrightarrow> after s c = Some t \<Longrightarrow> reachable H0 t" for s c t
    using after_reachable(2) [of "the s" c t] by simp
  show r2: "reachable H0 (the ex2)" using r1 ex_states(1) ex_states(2) [unfolded ex2_def] unfolding ex2_def by (rule step)
  show r3: "reachable H0 (the ex3)" using r2 ex_states(2) ex_states(3) [unfolded ex3_def] unfolding ex3_def by (rule step)
  show r4: "reachable H0 (the ex4)" using r3 ex_states(3) ex_states(4) [unfolded ex4_def] unfolding ex4_def by (rule step)
  show "reachable H0 (the ex5)" using r4 ex_states(4) ex_states(5) [unfolded ex5_def] unfolding ex5_def by (rule step)
  show r6: "reachable H0 (the ex6)" using r4 ex_states(4) ex_states(6) [unfolded ex6_def] unfolding ex6_def by (rule step)
  show r7: "reachable H0 (the ex7)" using r6 ex_states(6) ex_states(7) [unfolded ex7_def] unfolding ex7_def by (rule step)
  show r8: "reachable H0 (the ex8)" using r7 ex_states(7) ex_states(8) [unfolded ex8_def] unfolding ex8_def by (rule step)
  show r9: "reachable H0 (the ex9)" using r8 ex_states(8) ex_states(9) [unfolded ex9_def] unfolding ex9_def by (rule step)
  show r10: "reachable H0 (the ex10)" using r9 ex_states(9) ex_states(10) [unfolded ex10_def] unfolding ex10_def by (rule step)
  show "reachable H0 (the ex11)" using r10 ex_states(10) ex_states(11) [unfolded ex11_def] unfolding ex11_def by (rule step)
qed

lemma H0_nonempty: "H0 x \<noteq> []"
proof -
  have "length (H0 x) = 32" by (simp add: H0_def)
  then show ?thesis by auto
qed

end
