(* ===== verification/Chronos_Workflow_Safety.thy ===== *)
theory Chronos_Workflow_Safety
  imports Chronos_Examples
begin

text \<open>
  The properties of a single workflow: of the states that accepted commands lead to, and of the
  commands themselves.
\<close>

section \<open>Facts shared by the proofs\<close>

lemma decidePlan_command:
  assumes "\<not> blank (cmd_RequestID c)" "0 \<le> cmd_At c" "wf_UpdatedAt s \<le> cmd_At c"
  shows "cmd_Kind c = CommandComplete \<Longrightarrow> decidePlan H (Some s) c = decideComplete H (Some s) c newEventPlan"
    "cmd_Kind c = CommandFail \<Longrightarrow> decidePlan H (Some s) c = decideFail H (Some s) c newEventPlan"
    "cmd_Kind c = CommandRenew \<Longrightarrow> decidePlan H (Some s) c = decideRenew H (Some s) c newEventPlan"
    "cmd_Kind c = CommandExpire \<Longrightarrow> decidePlan H (Some s) c = decideExpire H (Some s) c newEventPlan"
  using assms by (simp_all add: decidePlan_def decideCommand_def)

lemma decidePlan_guards:
  assumes "decidePlan H (Some s) c = Inr p"
  shows "\<not> blank (cmd_RequestID c)" "0 \<le> cmd_At c" "wf_UpdatedAt s \<le> cmd_At c"
  using assms by (auto simp: decidePlan_def decideCommand_def split: if_splits)

lemma reachable_ok: "reachable H s \<Longrightarrow> task_at s i = Some t \<Longrightarrow> task_ok H s i t"
  by (rule wf_okD(6) [OF well.reachable_I])

lemma keys_ok: "wf_ok H s \<Longrightarrow> '''' \<notin> set (keys (wf_Tasks s))"
proof
  assume ok: "wf_ok H s" and "'''' \<in> set (keys (wf_Tasks s))"
  then obtain t where "task_at s '''' = Some t"
    by (metis domD dom_map_of_conv_image_fst list.set_map task_at_def)
  from wf_okD(6) [OF ok this] show False by (simp add: task_ok_def)
qed

section \<open>Plans and replay\<close>

text \<open>
  C1. What a leader plans is what every replica will compute: the events of an accepted command,
  numbered from the version of the workflow and stamped with any request, replay from the state the
  command was decided on to exactly the state of the plan.
\<close>

theorem plan_replays:
  assumes "decidePlan H s c = Inr p" "\<not> blank requestID" "hash \<noteq> ''''"
  shows "applyOwnedEvents H s (stamp_events H requestID hash (version_of s) (pl_events p)) = Inr (pl_state p)"
  using planned_replay [OF planned_decideCommand [of newEventPlan H s c p] assms(2,3)] assms(1)
  by (simp add: decidePlan_def factory_def)

theorem plan_replays_witness:
  "\<exists>p. decidePlan H0 None ex_submit = Inr p \<and>
    applyOwnedEvents H0 None (stamp_events H0 ''r'' ''h'' (version_of None) (pl_events p)) = Inr (pl_state p)"
proof -
  obtain p where p: "decidePlan H0 None ex_submit = Inr p"
    using ex_states(1) by (auto simp: ex1_def after_def split: sum.splits)
  moreover have "\<not> blank ''r''" by code_simp
  ultimately show ?thesis using plan_replays [OF p, of "''r''" "''h''"] by simp
qed

text \<open>
  C12. Every event log that the reducer accepts from nothing, and in which every compensating event names a
  task, ends in a well-formed workflow: tasks and timers under their own identifiers, fence equal to the
  attempt count, retry count below its budget, a valid lease on every leased task, dependencies completed
  before their dependents. Logs of planned events name the task; without the condition the statement is false
  (\<open>unaddressed_compensation_accepted\<close> below).
\<close>

theorem log_well_formed:
  assumes "applyOwnedEvents H None es = Inr (Some s)" "list_all addressed es"
  shows "wf_ok H s"
  using inv.replay_ok [of H None es s] assms by (simp add: applyOwnedEvents_replay list_all_iff)

theorem log_well_formed_witness: "\<exists>es s. applyOwnedEvents H0 None es = Inr (Some s) \<and> wf_ok H0 s"
proof -
  obtain p where p: "decidePlan H0 None ex_submit = Inr p" "pl_state p = ex1"
    by (cases "decidePlan H0 None ex_submit") (use ex_states(1) in \<open>auto simp: ex1_def after_def\<close>)
  have pl: "planned H0 None p"
    using planned_decideCommand [of newEventPlan H0 None ex_submit p] p(1) by (simp add: decidePlan_def factory_def)
  have "\<not> blank ''r''" by code_simp
  from planned_replay [OF pl this, of "''h''"] p(2) ex_states(1)
  have a: "applyOwnedEvents H0 None (stamp_events H0 ''r'' ''h'' (version_of None) (pl_events p)) = Inr (Some (the ex1))"
    by simp
  moreover have "list_all addressed (stamp_events H0 ''r'' ''h'' (version_of None) (pl_events p))"
    using planned_addressed [OF pl] by (simp add: stamp_events_addressed)
  ultimately show ?thesis using log_well_formed [OF a] by blast
qed

text \<open>
  The reducer also accepts a compensating event that names no task, when nothing can be compensated: it puts a
  task under the empty identifier into the workflow, which is not well-formed any more.
\<close>

definition ex_phantom :: Event where
  "ex_phantom = zero_Event\<lparr>ev_ID := EventID H0 ''w'' 3 EventWorkflowCompensating, ev_Kind := EventWorkflowCompensating,
     ev_Sequence := 3, ev_RequestID := ''r'', ev_RequestHash := ''h'', ev_WorkflowID := ''w'', ev_At := 30\<rparr>"

theorem unaddressed_compensation_accepted:
  "wf_ok H0 (the ex1) \<and> (\<exists>s'. applyEvent H0 (Some (the ex1)) ex_phantom False = Inr s' \<and> \<not> wf_ok H0 s')"
proof -
  have "case applyEvent H0 ex1 ex_phantom False of Inl x \<Rightarrow> False | Inr s \<Rightarrow> '''' \<in> set (keys (wf_Tasks s))" by code_simp
  then obtain s' where "applyEvent H0 (Some (the ex1)) ex_phantom False = Inr s'" "'''' \<in> set (keys (wf_Tasks s'))"
    using ex_states(1) by (auto split: sum.splits)
  with keys_ok well.reachable_I [OF ex_reachable(1)] show ?thesis by blast
qed

section \<open>The end of a workflow\<close>

text \<open>
  C15. A workflow that has completed, failed, been cancelled or been compensated is at rest: no task
  of it is pending, ready, running or being compensated, no timer of it is scheduled, and it accepts no
  further command of any kind.
\<close>

theorem ended_is_final:
  assumes "reachable H s" "terminalWorkflow (wf_Status s)"
  shows "\<not> hasActiveState s \<and> \<not> hasScheduledTimers s \<and> (\<forall>c. \<exists>x. decidePlan H (Some s) c = Inl x)"
proof -
  have "wf_ok H s" "at_rest s"
    using resting.reachable_I [OF assms(1)] assms(2) by (simp_all add: rests_def concluded_def)
  with ended_rejects [OF assms(2)] wf_okD(5) show ?thesis by (auto simp: at_rest_def decidePlan_def)
qed

theorem ended_is_final_witness: "\<not> hasActiveState (the ex11) \<and> (\<forall>c. \<exists>x. decidePlan H0 (Some (the ex11)) c = Inl x)"
proof -
  have "terminalWorkflow (wf_Status (the ex11))" by code_simp
  from ended_is_final [OF ex_reachable(11) this] show ?thesis by blast
qed

text \<open>C20. A completed workflow has completed every one of its tasks, fan-out children included.\<close>

theorem completed_is_complete:
  assumes "reachable H s" "wf_Status s = WorkflowCompleted" "task_at s i = Some t"
  shows "ts_Status t = TaskCompleted"
proof -
  have "all_completed s"
    using resting.reachable_I [OF assms(1)] assms(2) by (simp add: rests_def concluded_def terminalWorkflow_iff)
  with assms(3) show ?thesis by (force simp: all_completed_def list_all_iff task_at_def dest: map_of_SomeD)
qed

theorem completed_is_complete_witness:
  "wf_Status (the ex5) = WorkflowCompleted \<and> (\<exists>t. task_at (the ex5) ''b'' = Some t \<and> ts_Status t = TaskCompleted)"
proof -
  have s: "wf_Status (the ex5) = WorkflowCompleted" by code_simp
  obtain t where t: "task_at (the ex5) ''b'' = Some t" by (simp add: ex5_code task_at_def)
  from completed_is_complete [OF ex_reachable(5) s t] s t show ?thesis by blast
qed

section \<open>Fencing, leases and retries\<close>

lemma start_grows: "start_granted H s e t \<Longrightarrow> ts_Fence t < ts_Fence t + 1"
  using word_suc_gt(1) [of "ts_Fence t"] by (simp add: start_granted_def MaxUint_minus_one)

lemma task_step_same_fence: "task_step H s e t t' \<Longrightarrow> ev_Kind e \<noteq> EventTaskStarted \<Longrightarrow> ts_Fence t' = ts_Fence t"
  by (induction rule: task_step.induct) (simp_all add: widen_def)

text \<open>
  C21. No task of a well-formed workflow is lost by an event (which names a task if it is a compensating one),
  and the fencing token of a task changes exactly when an attempt of that task starts: it then grows by one,
  without wrap-around, and every other event, also one about the same task, leaves it as it is. So a token
  identifies one attempt for good.
\<close>

theorem fence_monotone:
  assumes "wf_ok H s" "applyEvent H (Some s) e False = Inr s'" "addressed e" "task_at s i = Some t"
  shows "\<exists>t'. task_at s' i = Some t' \<and>
    (if ev_Kind e = EventTaskStarted \<and> ev_TaskID e = i
     then ts_Fence t' = ts_Fence t + 1 \<and> ts_Fence t < ts_Fence t' else ts_Fence t' = ts_Fence t)"
proof -
  have n: "next_state H s e s'" by (rule applyEvent_next_state [OF assms(2,3) wf_okD(4) [OF assms(1)]])
  have "task_evolves H s e i (task_at s i) (task_at s' i)"
    using next_stateD(1) [OF n] by (simp add: tasks_evolve_def)
  then obtain t' where t': "task_at s' i = Some t'"
    "t' = t \<or> task_step H s e t t' \<and> (i = ev_TaskID e \<or> ev_Kind e = EventFanoutExpanded)"
    using assms(4) by (cases "task_at s' i") (auto simp: task_evolves_def)
  have "ts_Fence t' = ts_Fence t + 1 \<and> ts_Fence t < ts_Fence t'"
    if "ev_Kind e = EventTaskStarted" "ev_TaskID e = i"
  proof -
    from assms(2) that(1) obtain u where "applyStarted H s e = Inr u" "task_at s' = task_at u"
      by (auto simp: applyEvent_Some dispatch_def)
    with applyStarted_Inr [OF this(1)] assms(4) that t'(1) start_grows [of H s e t] show ?thesis
      by (auto simp: task_event_def)
  qed
  with t' task_step_same_fence [of H s e t t'] show ?thesis by auto
qed

text \<open>The event that starts task \<^verbatim>\<open>b\<close> in the example.\<close>

definition ex_started :: Event where
  "ex_started = zero_Event\<lparr>ev_ID := EventID H0 ''w'' 8 EventTaskStarted, ev_Kind := EventTaskStarted,
     ev_Sequence := 8, ev_RequestID := ''r'', ev_RequestHash := ''h'', ev_WorkflowID := ''w'', ev_TaskID := ''b'',
     ev_AttemptID := AttemptID H0 ''w'' ''b'' 1, ev_Attempt := 1, ev_At := 30, ev_WorkerID := ''k'',
     ev_LeaseUntil := 60, ev_Fence := 1, ev_Idempotency := IdempotencyKey H0 ''w'' ''b'',
     ev_Inputs := [(''a'', [])]\<rparr>"

theorem fence_monotone_witness:
  "\<exists>s' t'. applyEvent H0 ex3 ex_started False = Inr s' \<and> task_at s' ''b'' = Some t' \<and> ts_Fence t' = 1"
proof -
  have "case applyEvent H0 ex3 ex_started False of Inl x \<Rightarrow> False | Inr x \<Rightarrow> True" by code_simp
  then obtain s' where s': "applyEvent H0 (Some (the ex3)) ex_started False = Inr s'"
    using ex_states(3) by (auto split: sum.splits)
  obtain t where t: "task_at (the ex3) ''b'' = Some t" "ts_Fence t = 0" by (simp add: ex3_code task_at_def)
  have a: "addressed ex_started" by (simp add: ex_started_def)
  have "ev_Kind ex_started = EventTaskStarted" "ev_TaskID ex_started = ''b''" by (simp_all add: ex_started_def)
  with fence_monotone [OF well.reachable_I [OF ex_reachable(3)] s' a t(1)] t(2) s' ex_states(3) show ?thesis by auto
qed

text \<open>
  C14. A worker that is not the current holder of a task is fenced: completing, failing, renewing or
  expiring with another attempt, worker or fencing token is rejected with \<^verbatim>\<open>ErrFenced\<close>, whatever the
  state of the workflow.
\<close>

theorem stale_worker_fenced:
  assumes "cmd_Kind c \<in> {CommandComplete, CommandFail, CommandRenew, CommandExpire}"
    and "\<not> blank (cmd_RequestID c)" "0 \<le> cmd_At c" "wf_UpdatedAt s \<le> cmd_At c" "task_at s (cmd_TaskID c) = Some t"
    and "(ts_AttemptID t, ts_WorkerID t, ts_Fence t) \<noteq> (cmd_AttemptID c, cmd_WorkerID c, cmd_Fence c)"
  shows "decidePlan H (Some s) c = Inl ErrFenced"
proof -
  have "leasedTask (Some s) c = Inl ErrFenced" using assms(5,6) by (auto simp: leasedTask_def Let_def)
  with assms(1) decidePlan_command [OF assms(2-4)] show ?thesis
    by (auto simp: decideComplete_def decideFail_def decideRenew_def decideExpire_def)
qed

theorem stale_worker_fenced_witness:
  "decidePlan H0 (Some (the ex2)) (ex_report CommandComplete ''q'' ''a'' 7 25) = Inl ErrFenced"
proof (rule stale_worker_fenced)
  show "\<not> blank (cmd_RequestID (ex_report CommandComplete ''q'' ''a'' 7 25))" by code_simp
  show "task_at (the ex2) (cmd_TaskID (ex_report CommandComplete ''q'' ''a'' 7 25)) = Some (task_or_zero (the ex2) ''a'')"
    by code_simp
  show "(ts_AttemptID (task_or_zero (the ex2) ''a''), ts_WorkerID (task_or_zero (the ex2) ''a''),
      ts_Fence (task_or_zero (the ex2) ''a'')) \<noteq>
    (cmd_AttemptID (ex_report CommandComplete ''q'' ''a'' 7 25), cmd_WorkerID (ex_report CommandComplete ''q'' ''a'' 7 25),
      cmd_Fence (ex_report CommandComplete ''q'' ''a'' 7 25))" by code_simp
qed (simp_all add: ex_report_def ex2_code)

text \<open>
  A lease is either live or expired, never both: at the moment a completion is accepted, expiring the
  same lease is rejected, and at the moment an expiry is accepted, completing is rejected.
\<close>

theorem complete_excludes_expire:
  assumes "cmd_Kind c = CommandComplete" "decidePlan H (Some s) c = Inr p"
  shows "decidePlan H (Some s) (c\<lparr>cmd_Kind := CommandExpire\<rparr>) = Inl ErrInvalidTransition"
proof -
  note g = decidePlan_guards [OF assms(2)]
  have "decideComplete H (Some s) c newEventPlan = Inr p" using assms decidePlan_command(1) [OF g] by simp
  then obtain t where t: "leasedTask (Some s) c = Inr t" "cmd_At c < ts_LeaseUntil t"
    by (auto simp: decideComplete_def result_simps split: if_splits)
  moreover have "leasedTask (Some s) (c\<lparr>cmd_Kind := CommandExpire\<rparr>) = leasedTask (Some s) c"
    by (simp add: leasedTask_def split: option.split)
  ultimately show ?thesis
    using decidePlan_command(4) [of "c\<lparr>cmd_Kind := CommandExpire\<rparr>" s H] g by (simp add: decideExpire_def)
qed

theorem complete_excludes_expire_witness:
  "decidePlan H0 (Some (the ex2)) ((ex_report CommandComplete ''r3'' ''a'' 1 25)\<lparr>cmd_Kind := CommandExpire\<rparr>) =
   Inl ErrInvalidTransition"
proof -
  obtain p where "decidePlan H0 (Some (the ex2)) (ex_report CommandComplete ''r3'' ''a'' 1 25) = Inr p"
    using ex_states(2,3) by (auto simp: ex3_def after_def split: sum.splits)
  from complete_excludes_expire [OF _ this] show ?thesis by (simp add: ex_report_def)
qed

text \<open>
  C19. The retry budget of a task is never exceeded, and its fencing token counts its attempts.
\<close>

theorem retry_budget:
  assumes "reachable H s" "task_at s i = Some t"
  shows "ts_RetryCount t < rp_MaxAttempts (td_Retry (ts_Definition t)) \<and> unat (ts_Fence t) = unat (ts_Attempt t)"
  using reachable_ok [OF assms] by (simp add: task_ok_def)

theorem retry_budget_witness: "ts_RetryCount (task_or_zero (the ex8) ''b'') < 2"
proof -
  have t: "task_at (the ex8) ''b'' = Some (task_or_zero (the ex8) ''b'')" by code_simp
  have "rp_MaxAttempts (td_Retry (ts_Definition (task_or_zero (the ex8) ''b''))) = 2" by code_simp
  with retry_budget [OF ex_reachable(8) t] show ?thesis by simp
qed

section \<open>Order of work\<close>

text \<open>
  C16. In every phase of a workflow, the compensating ones included, a task is ready, running, completed or
  compensated, or its compensation is under way, only when each of its dependencies has completed: the
  dependency is completed, or has completed and been compensated since, or is being compensated. A task that
  has completed did so at a later position of the log than every dependency. While no compensation has begun,
  the dependency is still completed.
\<close>

theorem dependencies_first:
  assumes "reachable H s" "task_at s i = Some t"
    and "ts_Status t \<in> {TaskReady, TaskRunning, TaskCompleted, TaskCompensated} \<or> ts_Compensation t"
    and "d \<in> set (deps (ts_Definition t))"
  shows "\<exists>u. task_at s d = Some u \<and> (ts_Status u \<in> {TaskCompleted, TaskCompensated} \<or> ts_Compensation u) \<and>
    (ts_Status t \<in> {TaskCompleted, TaskCompensated} \<or> ts_Compensation t \<longrightarrow> ts_CompletedSequence u < ts_CompletedSequence t) \<and>
    (forward_phase (wf_Status s) \<longrightarrow> ts_Status u = TaskCompleted)"
proof -
  have "order_ok s" using wf_okD(2) [OF well.reachable_I [OF assms(1)]] .
  with assms(2,4) obtain u where u: "task_at s d = Some u"
    "ts_Status t \<in> {TaskReady, TaskRunning} \<or> settled t \<longrightarrow> settled u"
    "settled t \<longrightarrow> ts_CompletedSequence u < ts_CompletedSequence t"
    unfolding order_ok_def by blast
  have past: "settled u" using u(2) assms(3) by (auto simp: settled_def)
  have "ts_Status u = TaskCompleted" if "forward_phase (wf_Status s)"
    using reachable_ok [OF assms(1) u(1)] that past by (auto simp: task_ok_def settled_def)
  with u(1,3) past show ?thesis unfolding settled_def by blast
qed

theorem dependencies_first_witness:
  "\<exists>u. task_at (the ex4) ''a'' = Some u \<and> ts_Status u = TaskCompleted"
proof -
  have t: "task_at (the ex4) ''b'' = Some (task_or_zero (the ex4) ''b'')" by code_simp
  have f: "forward_phase (wf_Status (the ex4))" by (simp add: ex4_code forward_phase_def)
  have "ts_Status (task_or_zero (the ex4) ''b'') = TaskRunning" by code_simp
  moreover have "deps (ts_Definition (task_or_zero (the ex4) ''b'')) = [''a'']" by code_simp
  ultimately show ?thesis using dependencies_first [OF ex_reachable(4) t, of "''a''"] f by auto
qed

text \<open>
  C17. Compensation runs in reverse order of completion: the task selected is completed and has a
  compensation, every other such task completed no later, and none of them depends on the one selected.
\<close>

theorem compensation_reverse_order:
  assumes "reachable H s" "nextCompensation s \<noteq> ''''"
  shows "\<exists>t. task_at s (nextCompensation s) = Some t \<and> compensable t \<and>
    (\<forall>j u. task_at s j = Some u \<and> compensable u \<longrightarrow>
       ts_CompletedSequence u \<le> ts_CompletedSequence t \<and> nextCompensation s \<notin> set (deps (ts_Definition u)))"
proof -
  have ok: "wf_ok H s" by (rule well.reachable_I [OF assms(1)])
  from nextCompensation_spec [OF wf_okD(4) [OF ok] keys_ok [OF ok]] assms(2) obtain t
    where t: "task_at s (nextCompensation s) = Some t" "compensable t"
      "\<forall>j u. task_at s j = Some u \<and> compensable u \<longrightarrow> later (nextCompensation s, t) (j, u)" by auto
  have "nextCompensation s \<notin> set (deps (ts_Definition u))" if u: "task_at s j = Some u" "compensable u" for j u
  proof
    assume "nextCompensation s \<in> set (deps (ts_Definition u))"
    moreover have "settled u" using u(2) by (simp add: compensable_def settled_def)
    ultimately have "ts_CompletedSequence t < ts_CompletedSequence u"
      using wf_okD(2) [OF ok] u(1) t(1) unfolding order_ok_def by fastforce
    moreover have "later (nextCompensation s, t) (j, u)" using t(3) u by blast
    ultimately show False by (auto simp: later_def)
  qed
  moreover have "ts_CompletedSequence u \<le> ts_CompletedSequence t" if "task_at s j = Some u" "compensable u" for j u
  proof -
    have "later (nextCompensation s, t) (j, u)" using t(3) that by blast
    then show ?thesis by (auto simp: later_def)
  qed
  ultimately show ?thesis using t(1,2) by blast
qed

theorem compensation_reverse_order_witness:
  "nextCompensation (the ex3) = ''a'' \<and> (\<exists>t. task_at (the ex3) ''a'' = Some t \<and> compensable t)"
proof -
  have n: "nextCompensation (the ex3) = ''a''" by code_simp
  with compensation_reverse_order [OF ex_reachable(3)] show ?thesis by auto
qed

text \<open>
  The choice of the next compensation does not depend on the iteration order of the Go map of
  tasks: two states with the same tasks select the same one.
\<close>

theorem compensation_map_order:
  assumes "gomap (wf_Tasks s)" "gomap (wf_Tasks s')" "map_of (wf_Tasks s) = map_of (wf_Tasks s')"
    and "'''' \<notin> set (keys (wf_Tasks s))"
  shows "nextCompensation s = nextCompensation s'"
proof -
  have at: "task_at s = task_at s'" using assms(3) by (simp add: task_at_def fun_eq_iff)
  have "'''' \<notin> set (keys (wf_Tasks s'))"
    using assms(3,4) by (metis dom_map_of_conv_image_fst list.set_map)
  from nextCompensation_spec [OF assms(2) this] nextCompensation_spec [OF assms(1,4)] show ?thesis
    unfolding at by (auto split: if_splits) (metis fst_conv later_antisym)
qed

theorem compensation_map_order_witness:
  "nextCompensation (the ex3) = nextCompensation ((the ex3)\<lparr>wf_Tasks := rev (wf_Tasks (the ex3))\<rparr>)"
  by (rule compensation_map_order) (auto simp: ex3_code gomap_def fun_eq_iff)

section \<open>The event log\<close>

text \<open>
  An accepted log is numbered 1, 2, 3, ... without gaps, and the version of the workflow is the
  number of its events.
\<close>

theorem log_contiguous:
  assumes "applyOwnedEvents H None es = Inr (Some s)"
  shows "map (\<lambda>e. unat (ev_Sequence e)) es = [1..<Suc (length es)] \<and> unat (wf_Version s) = length es"
  using log.replay_contiguous [of H None es "Some s"] assms
  by (simp add: applyOwnedEvents_replay log.at_version_def o_def del: upt_Suc)

lemma ex_log: "\<exists>es s. applyOwnedEvents H0 None es = Inr (Some s) \<and> es \<noteq> []"
proof -
  obtain p where p: "decidePlan H0 None ex_submit = Inr p" "pl_state p = ex1"
    by (cases "decidePlan H0 None ex_submit") (use ex_states(1) in \<open>auto simp: ex1_def after_def\<close>)
  have pl: "planned H0 None p"
    using planned_decideCommand [of newEventPlan H0 None ex_submit p] p(1) by (simp add: decidePlan_def factory_def)
  have "\<not> blank ''r''" by code_simp
  note r = planned_replay [OF pl this, of "''h''"]
  have "pl_state p \<noteq> None" using p(2) by (simp add: ex1_code)
  with pl have "pl_events p \<noteq> []" by (cases rule: planned.cases) (auto simp: plan_add_Inr)
  then have "stamp_events H0 ''r'' ''h'' (version_of None) (pl_events p) \<noteq> []" by (cases "pl_events p") simp_all
  moreover have "applyOwnedEvents H0 None (stamp_events H0 ''r'' ''h'' (version_of None) (pl_events p)) = Inr (Some (the ex1))"
    using r p(2) ex_states(1) by simp
  ultimately show ?thesis by blast
qed

theorem log_contiguous_witness:
  "\<exists>es s. es \<noteq> [] \<and> applyOwnedEvents H0 None es = Inr (Some s) \<and> unat (wf_Version s) = length es"
  using ex_log log_contiguous [of H0] by blast

text \<open>
  No event is applied twice: whatever state it was accepted in, the state it leads to rejects it.
\<close>

theorem no_double_apply:
  assumes "applyEvent H s e False = Inr t"
  shows "\<exists>x. applyEvent H (Some t) e False = Inl x"
proof -
  have "\<nexists>u. applyEvent H (Some t) e False = Inr u" using log.no_replay_twice [OF assms] by simp
  then show ?thesis by (cases "applyEvent H (Some t) e False") auto
qed

theorem no_double_apply_witness: "\<exists>t x. applyEvent H0 ex3 ex_started False = Inr t \<and> applyEvent H0 (Some t) ex_started False = Inl x"
proof -
  have "case applyEvent H0 ex3 ex_started False of Inl x \<Rightarrow> False | Inr x \<Rightarrow> True" by code_simp
  then obtain t where "applyEvent H0 ex3 ex_started False = Inr t" by (auto split: sum.splits)
  with no_double_apply [OF this] show ?thesis by blast
qed

text \<open>
  C18. Refinement: every event that the reducer accepts in a well-formed workflow, and that names a task if it
  is a compensating one, is a step of the abstract automata (every other compensating event puts a task under
  the empty identifier, which is no step of them). Each task of the new state is
  unchanged, took one step of the task automaton, or is a fan-out child created by this event; each timer
  is unchanged or took one step of the timer automaton; the status took one step of the workflow automaton
  or stayed; version and time move forward.
\<close>

theorem event_refines_automata:
  assumes "wf_ok H s" "applyEvent H (Some s) e False = Inr s'" "addressed e"
  shows "tasks_evolve H s e s' \<and> timers_evolve H s e s' \<and> status_evolves s e s' \<and> frame_kept s s' \<and>
    wf_Version s < wf_Version s' \<and> wf_UpdatedAt s \<le> wf_UpdatedAt s'"
  using applyEvent_next_state [OF assms(2,3) wf_okD(4) [OF assms(1)]] by (simp add: next_state_def evolves_def)

theorem event_refines_automata_witness: "\<exists>s'. applyEvent H0 (Some (the ex3)) ex_started False = Inr s' \<and> tasks_evolve H0 (the ex3) ex_started s'"
proof -
  have "case applyEvent H0 ex3 ex_started False of Inl x \<Rightarrow> False | Inr x \<Rightarrow> True" by code_simp
  then obtain t where t: "applyEvent H0 (Some (the ex3)) ex_started False = Inr t"
    using ex_states(3) by (auto split: sum.splits)
  have a: "addressed ex_started" by (simp add: ex_started_def)
  from event_refines_automata [OF well.reachable_I [OF ex_reachable(3)] t a] t show ?thesis by blast
qed

end
