(* ===== verification/Chronos_Engine_Safety.thy ===== *)
theory Chronos_Engine_Safety
  imports Chronos_Workflow_Safety
begin

text \<open>
  The properties of the engine: requests are handled at most once, conflicting reuse of a request
  identifier is refused, replicas and replays agree with the leader, transactions are atomic.
\<close>

lemma ex_handled: "\<exists>e r. Handle H0 J0 NewEngine ex_submit = (e, Inr r) \<and> \<not> rs_Duplicate r"
proof -
  have "case snd (Handle H0 J0 NewEngine ex_submit) of Inl x \<Rightarrow> False | Inr r \<Rightarrow> \<not> rs_Duplicate r" by code_simp
  then show ?thesis by (cases "Handle H0 J0 NewEngine ex_submit") (auto split: sum.splits)
qed

section \<open>Requests\<close>

text \<open>
  C2. At most once: when a command has been accepted, handling it again, at any later time and after any
  other commands, returns the recorded result marked as a duplicate and changes nothing but the counters.
\<close>

theorem handled_at_most_once:
  assumes "Handle H J e c = (e', Inr r)" "\<not> rs_Duplicate r"
  shows "Handle H J (handle_all H J cs e') (c\<lparr>cmd_At := t\<rparr>) =
    (repeated (received (handle_all H J cs e')), Inr (r\<lparr>rs_Duplicate := True\<rparr>))"
  using assms by (rule Handle_again)

theorem handled_at_most_once_witness:
  "\<exists>e r. \<not> rs_Duplicate r \<and> snd (Handle H0 J0 (handle_all H0 J0 [ex_start ''r2'' ''a'' 1 20] e) (ex_submit\<lparr>cmd_At := 99\<rparr>)) =
     Inr (r\<lparr>rs_Duplicate := True\<rparr>)"
proof -
  from ex_handled obtain e r where h: "Handle H0 J0 NewEngine ex_submit = (e, Inr r)" "\<not> rs_Duplicate r" by blast
  from handled_at_most_once [OF h, of "[ex_start ''r2'' ''a'' 1 20]" 99]
  have "snd (Handle H0 J0 (handle_all H0 J0 [ex_start ''r2'' ''a'' 1 20] e) (ex_submit\<lparr>cmd_At := 99\<rparr>)) =
     Inr (r\<lparr>rs_Duplicate := True\<rparr>)" by simp
  with h(2) show ?thesis by blast
qed

text \<open>
  C26. A request identifier that is on record for another payload is refused with
  \<^verbatim>\<open>ErrRequestConflict\<close>; only the counter of received commands changes.
\<close>

theorem conflict_refused:
  assumes "\<not> blank (cmd_RequestID c)" "map_of (en_requests e) (cmd_RequestID c) = Some known"
    and "rq_hash known \<noteq> HashCommand H J c"
  shows "Handle H J e c = (received e, Inl ErrRequestConflict)"
  using Handle_known [OF assms(1), of e known H J] assms(2,3) by simp

theorem conflict_refused_witness:
  "\<exists>e. snd (Handle H0 J0 e (ex_start ''r1'' ''a'' 1 20)) = Inl ErrRequestConflict"
proof -
  let ?known = "\<lparr>rq_hash = ''other'', rq_result = zero_Result\<rparr>" and ?c = "ex_start ''r1'' ''a'' 1 20"
  let ?e = "NewEngine\<lparr>en_requests := [(''r1'', ?known)]\<rparr>"
  have b: "\<not> blank (cmd_RequestID ?c)" by code_simp
  have m: "map_of (en_requests ?e) (cmd_RequestID ?c) = Some ?known" by (simp add: ex_start_def)
  have "HashCommand H0 J0 ?c \<noteq> ''other''" by code_simp
  then have h: "rq_hash ?known \<noteq> HashCommand H0 J0 ?c" by auto
  show ?thesis using conflict_refused [OF b m h] by (metis snd_conv)
qed

text \<open>
  C22. An accepted command stores, under the workflow it names, the state that its events replay to from
  the state before, appends exactly these events to the journal and leaves every other workflow alone.
\<close>

theorem accepted_command_replays:
  assumes "Handle H J e c = (e', Inr r)" "\<not> rs_Duplicate r" "\<forall>x. H x \<noteq> []"
  shows "\<exists>s found t. resolveState e (rs_WorkflowID r) = Inr (s, found) \<and>
    applyOwnedEvents H s (rs_Events r) = Inr (Some t) \<and> rs_Events r \<noteq> [] \<and>
    map_of (en_states e') = (map_of (en_states e))(rs_WorkflowID r \<mapsto> t) \<and>
    en_journal e' = (if en_journaled e then en_journal e @ rs_Events r else en_journal e)"
  using Handle_replays [OF assms(1,2)] assms(3) by blast

theorem accepted_command_replays_witness:
  "\<exists>e r t. Handle H0 J0 NewEngine ex_submit = (e, Inr r) \<and> map_of (en_states e) (rs_WorkflowID r) = Some t \<and>
     en_journal e = rs_Events r"
proof -
  from ex_handled obtain e r where h: "Handle H0 J0 NewEngine ex_submit = (e, Inr r)" "\<not> rs_Duplicate r" by blast
  have "\<forall>x. H0 x \<noteq> []" by (simp add: H0_nonempty)
  from accepted_command_replays [OF h this] h show ?thesis by (auto simp: NewEngine_def)
qed

text \<open>
  A command that is refused or repeated leaves workflows, requests, journal and indexes untouched.
\<close>

theorem refused_command_changes_nothing:
  assumes "Handle H J e c = (e', out)" "\<forall>r. out = Inr r \<longrightarrow> rs_Duplicate r"
  shows "\<exists>m. e' = e\<lparr>en_metrics := m\<rparr>"
  using Handle_not_accepted [OF assms(1)] assms(2) by (auto simp: only_counted_def)

theorem refused_command_changes_nothing_witness:
  "\<exists>m. fst (Handle H0 J0 NewEngine (ex_start ''r2'' ''a'' 1 20)) = NewEngine\<lparr>en_metrics := m\<rparr>"
proof -
  let ?h = "Handle H0 J0 NewEngine (ex_start ''r2'' ''a'' 1 20)"
  have "case snd ?h of Inl x \<Rightarrow> True | Inr r \<Rightarrow> False" by code_simp
  then have "\<forall>r. snd ?h = Inr r \<longrightarrow> rs_Duplicate r" by (auto split: sum.splits)
  then show ?thesis using refused_command_changes_nothing [of H0 J0 NewEngine _ "fst ?h" "snd ?h"] by simp
qed

text \<open>
  C23. The derived tables of the engine stay consistent: the active set holds exactly the workflows that
  have not ended, the index by workflow exactly the recorded requests.
\<close>

theorem engine_tables_consistent: "engine_ok (handle_all H J cs NewEngine)"
  by (simp add: handle_all_engine_ok)

section \<open>Replication and recovery\<close>

text \<open>
  C5. Replication: a replica that agrees with the leader and applies the batches the leader prepared, in
  one call, agrees with the leader afterwards, in workflows, active set, requests, index, journal and
  metrics, whether or not it owns the events.
\<close>

theorem replica_follows_leader:
  assumes "lead H J e cs = (e', bs)" "keyed e" "engine_ok e" "\<forall>x. H x \<noteq> []" "same_engine e f" "engine_ok f"
  shows "\<exists>f' apps states. applyBatches H f bs owned = Inr (f', apps, states) \<and> same_engine e' f'"
  using applyBatches_replicates [OF assms(1-3)] assms(4-6) by blast

theorem replica_follows_leader_witness:
  "\<exists>f' apps states. applyBatches H0 NewEngine (snd (lead H0 J0 NewEngine [ex_submit])) True = Inr (f', apps, states) \<and>
     same_engine (fst (lead H0 J0 NewEngine [ex_submit])) f'"
proof -
  have "lead H0 J0 NewEngine [ex_submit] = (fst (lead H0 J0 NewEngine [ex_submit]), snd (lead H0 J0 NewEngine [ex_submit]))"
    by simp
  moreover have "keyed NewEngine" by (simp add: keyed_def resolveState_def NewEngine_def)
  moreover have "\<forall>x. H0 x \<noteq> []" by (simp add: H0_nonempty)
  moreover have "same_engine NewEngine NewEngine" by (simp add: same_engine_def)
  ultimately show ?thesis using replica_follows_leader [OF _ _ engine_ok_New _ _ engine_ok_New] by blast
qed

text \<open>
  C11. Recovery: replaying the journal of an engine that started empty rebuilds its workflows and its
  request table, and every workflow in it is well-formed.
\<close>

theorem journal_replay_recovers:
  assumes "\<forall>x. H x \<noteq> []" "e = handle_all H J cs NewEngine"
  shows "\<exists>g. Replay H (en_journal e) = Inr g \<and> map_of (en_states g) = map_of (en_states e) \<and>
    map_of (en_requests g) = map_of (en_requests e) \<and> en_journal g = en_journal e \<and>
    (\<forall>i s. map_of (en_states e) i = Some s \<longrightarrow> wf_ok H s \<and> wf_ID s = i)"
  using faithful_handle_all [OF _ faithful_New, of H J cs] assms by (auto simp: faithful_def)

theorem journal_replay_recovers_witness:
  "\<exists>g. Replay H0 (en_journal (handle_all H0 J0 [ex_submit, ex_start ''r2'' ''a'' 1 20] NewEngine)) = Inr g"
proof -
  have "\<forall>x. H0 x \<noteq> []" by (simp add: H0_nonempty)
  from journal_replay_recovers [OF this refl, of J0 "[ex_submit, ex_start ''r2'' ''a'' 1 20]"] show ?thesis by blast
qed

section \<open>Transactions\<close>

text \<open>
  C13. Atomicity: whatever commands a staging transaction went through, rolling it back restores the engine
  it began with: workflows, active set, requests, index, journal, metrics.
\<close>

theorem rollback_restores_engine:
  assumes "engine_ok e" "map_of (en_states e) '''' = None"
  shows "same_engine e (st_engine (staging_Rollback (stage_all H J cs (BeginStaging e))))"
  using tx_ok_rollback(2) [OF tx_ok_stage_all [OF tx_ok_begin [OF assms] assms(1)] assms(1)] .

theorem rollback_restores_engine_witness:
  "same_engine NewEngine (st_engine (staging_Rollback (stage_all H0 J0 [(ex_submit, True)] (BeginStaging NewEngine))))"
  by (rule rollback_restores_engine [OF engine_ok_New]) (simp add: NewEngine_def)

text \<open>
  C24. A command that fails inside a transaction closes it and undoes everything staged before it.
\<close>

theorem staged_failure_undoes:
  assumes "engine_ok e" "map_of (en_states e) '''' = None"
    and "staging_prepareAndApply H J (stage_all H J cs (BeginStaging e)) c mat = (tx, Inl err)"
    and "st_open (stage_all H J cs (BeginStaging e))"
  shows "\<not> st_open tx \<and> same_engine e (st_engine tx)"
proof -
  have "tx_ok e tx"
    using tx_ok_stage [OF tx_ok_stage_all [OF tx_ok_begin [OF assms(1,2)] assms(1)] assms(1)] assms(3)
    by (metis fst_conv)
  with stage_failure_closes [OF assms(3,4)] show ?thesis by (simp add: tx_ok_def)
qed

theorem staged_failure_undoes_witness:
  "\<exists>tx err. staging_prepareAndApply H0 J0 (stage_all H0 J0 [(ex_submit, True)] (BeginStaging NewEngine))
      (ex_start ''r2'' ''b'' 1 20) False = (tx, Inl err) \<and> same_engine NewEngine (st_engine tx)"
proof -
  let ?tx = "stage_all H0 J0 [(ex_submit, True)] (BeginStaging NewEngine)"
  let ?r = "staging_prepareAndApply H0 J0 ?tx (ex_start ''r2'' ''b'' 1 20) False"
  have "case snd ?r of Inl x \<Rightarrow> True | Inr x \<Rightarrow> False" by code_simp
  then obtain tx err where r: "?r = (tx, Inl err)" by (cases ?r) (auto split: sum.splits)
  have o: "st_open ?tx" by code_simp
  have "map_of (en_states NewEngine) '''' = None" by (simp add: NewEngine_def)
  from staged_failure_undoes [OF engine_ok_New this r o] r show ?thesis by blast
qed

end
