(* ===== verification/Chronos_Base_Properties.thy ===== *)
theory Chronos_Base_Properties
  imports Chronos_Examples
begin

text \<open>
  The properties of the building blocks below the reducer: validation of definitions, canonical forms
  and hashes, identifiers, the clock and the back-off.
\<close>

section \<open>Validation\<close>

text \<open>
  C28. \<^verbatim>\<open>ValidateDefinition\<close> accepts exactly the valid definitions: named, with a start time that is not
  negative, distinct tasks each valid on its own, dependencies that are other tasks of the workflow and
  listed once, fan-outs aggregated by a task that depends on them, and no dependency cycle.
\<close>

theorem validation_exact: "ValidateDefinition (Some d) = Inr () \<longleftrightarrow> valid_definition d"
  by (rule ValidateDefinition_iff)

text \<open>
  Kahn's algorithm in \<^verbatim>\<open>hasCycle\<close> is right: on tasks whose dependencies are tasks of the map, listed
  once, it reports a cycle exactly when the dependency relation has one. It always ends.
\<close>

theorem hasCycle_exact:
  assumes "linked tasks"
  shows "hasCycle tasks \<longleftrightarrow> \<not> acyclic (dep_rel tasks)"
  using assms by (rule hasCycle_iff_cyclic)

theorem hasCycle_exact_witness:
  "\<not> acyclic (dep_rel [(''a'', ex_task ''a'' [''b''] None), (''b'', ex_task ''b'' [''a''] None)])"
proof -
  let ?m = "[(''a'', ex_task ''a'' [''b''] None), (''b'', ex_task ''b'' [''a''] None)]"
  have "linked ?m" by (simp add: linked_def gomap_def ex_task_def)
  moreover have "hasCycle ?m" by code_simp
  ultimately show ?thesis using hasCycle_exact by blast
qed

section \<open>Canonical forms and hashes\<close>

text \<open>
  The canonical form of a definition does not depend on the order in which tasks and dependencies are
  listed, and it is a normal form: canonicalising twice changes nothing.
\<close>

theorem canonical_normal_form:
  assumes "mset (map canonical_task (wd_Tasks d)) = mset (map canonical_task (wd_Tasks d'))"
    and "distinct (map td_ID (wd_Tasks d))"
    and "wd_Name d = wd_Name d'" "wd_Namespace d = wd_Namespace d'" "wd_StartAt d = wd_StartAt d'"
  shows "canonicalDefinition (Some d) = canonicalDefinition (Some d') \<and>
    canonicalDefinition (canonicalDefinition (Some d)) = canonicalDefinition (Some d)"
  using canonicalDefinition_perm [OF assms] canonicalDefinition_idem by simp

theorem canonical_normal_form_witness:
  "canonicalDefinition (Some ex_definition) =
   canonicalDefinition (Some (ex_definition\<lparr>wd_Tasks := rev (wd_Tasks ex_definition)\<rparr>))"
  using canonical_normal_form [of ex_definition "ex_definition\<lparr>wd_Tasks := rev (wd_Tasks ex_definition)\<rparr>"]
  by (simp add: ex_definition_def ex_task_def)

text \<open>
  The hash that identifies a request's payload ignores the time at which the command is sent, and for
  a start also the lease it asks for; so a client may resend a command later under the same request.
\<close>

theorem hash_ignores_time:
  "HashCommand H J (c\<lparr>cmd_At := t\<rparr>) = HashCommand H J c \<and>
   HashCommand H J (c\<lparr>cmd_Kind := CommandStart, cmd_LeaseUntil := u\<rparr>) = HashCommand H J (c\<lparr>cmd_Kind := CommandStart\<rparr>)"
  using HashCommand_start_ignores_lease [of "c\<lparr>cmd_Kind := CommandStart\<rparr>" H J u] by simp

text \<open>
  The hash of a state does not depend on the iteration order of its Go maps: states with the same
  tasks and timers hash alike.
\<close>

theorem state_hash_map_order:
  assumes "gomap (wf_Tasks s)" "gomap (wf_Timers s)" "mset tasks = mset (wf_Tasks s)" "mset timers = mset (wf_Timers s)"
  shows "StateHash H J (Some (s\<lparr>wf_Tasks := tasks, wf_Timers := timers\<rparr>)) = StateHash H J (Some s)"
proof -
  have perm: "gomap m' \<and> map_of m' = map_of m" if "gomap m" "mset m' = mset m" for m m' :: "(string, 'v) gomap"
  proof -
    have "gomap m'" using that by (simp add: gomap_def) (metis mset_eq_imp_distinct_iff mset_map)
    moreover have "set m' = set m" using that(2) by (rule mset_eq_setD)
    ultimately show ?thesis using that(1) by (auto simp: gomap_def intro: map_of_inject_set [THEN iffD2])
  qed
  show ?thesis
    using state_view_cong [of "s\<lparr>wf_Tasks := tasks, wf_Timers := timers\<rparr>" s] perm [OF assms(1,3)] perm [OF assms(2,4)] assms(1,2)
    by (simp add: StateHash_def CanonicalState_def)
qed

theorem state_hash_map_order_witness:
  "StateHash H0 (\<lambda>x. ''s'') (Some ((the ex3)\<lparr>wf_Tasks := rev (wf_Tasks (the ex3)), wf_Timers := wf_Timers (the ex3)\<rparr>)) =
   StateHash H0 (\<lambda>x. ''s'') (Some (the ex3))"
  by (rule state_hash_map_order) (simp_all add: ex3_code gomap_def)

section \<open>Identifiers\<close>

text \<open>
  Identifiers are unambiguous: two identifiers of one kind built from equally many parts agree only
  when the parts agree, or when the truncated digest collides on two different inputs.
\<close>

theorem identifiers_unambiguous:
  assumes "deterministicID H prefix xs = deterministicID H prefix ys"
    and "list_all short xs" "list_all short ys" "length xs = length ys"
  shows "xs = ys \<or>
    (frame_parts xs \<noteq> frame_parts ys \<and> take 12 (H (frame_parts xs)) = take 12 (H (frame_parts ys)))"
  using deterministicID_collision [OF assms(1)] assms(2-4) by (simp add: list_all_iff)

theorem identifiers_unambiguous_witness:
  "[''w'', ''a''] = [''w'', ''a''] \<or> (frame_parts [''w'', ''a''] \<noteq> frame_parts [''w'', ''a''] \<and>
     take 12 (H0 (frame_parts [''w'', ''a''])) = take 12 (H0 (frame_parts [''w'', ''a''])))"
  by (rule identifiers_unambiguous [of H0 "''idempotency''"]) (simp_all add: short_def)

section \<open>Time\<close>

text \<open>
  The delay before a retry is the initial back-off times the multiplier to the power of the retries so
  far, cut off at the cap of the policy and at the largest representable time; the loop neither overflows
  nor runs forever.
\<close>

theorem retry_delay_closed_form:
  assumes "0 \<le> rp_InitialBackoffMillis p" "rp_InitialBackoffMillis p \<le> MaxInt64"
    and "rp_MaxBackoffMillis p \<le> MaxInt64" "1 \<le> rp_BackoffMultiplier p"
  shows "retryDelay p n =
    min (if 0 < rp_MaxBackoffMillis p then rp_MaxBackoffMillis p else MaxInt64)
      (rp_InitialBackoffMillis p * uint (rp_BackoffMultiplier p) ^ unat n)"
  using retryDelay_closed [OF assms] by (simp add: backoff_cap_def)

theorem retry_delay_closed_form_witness: "retryDelay ex_retry 1 = 10"
  using retry_delay_closed_form [of ex_retry 1] by (simp add: ex_retry_def MaxInt64_def)

text \<open>
  The virtual clock never runs backwards and never overflows: advancing succeeds exactly for a
  duration that is not negative and keeps the time representable, and then adds it.
\<close>

theorem clock_advances:
  assumes "0 \<le> vc_now c" "in_int64 (vc_now c)" "in_int64 d"
  shows "Advance c d = Inr c' \<longleftrightarrow> 0 \<le> d \<and> vc_now c + d \<le> MaxInt64 \<and> c' = c\<lparr>vc_now := vc_now c + d\<rparr>"
  using assms by (rule Advance_Inr)

theorem clock_advances_witness: "Advance \<lparr>vc_now = 5\<rparr> 7 = Inr \<lparr>vc_now = 12\<rparr>"
  using clock_advances [of "\<lparr>vc_now = 5\<rparr>" 7 "\<lparr>vc_now = 12\<rparr>"] by (simp add: int64_bounds)

end
