(* ===== verification/Chronos_Projection.thy ===== *)
theory Chronos_Projection
  imports Chronos_Engine
begin

text \<open>
  Read models: \<^verbatim>\<open>Project\<close> (\<^verbatim>\<open>internal/core/projection.go\<close>), \<^verbatim>\<open>Engine.Projection\<close>
  (\<^verbatim>\<open>engine.go\<close>) and \<^verbatim>\<open>Engine.WorkflowUsage\<close> (\<^verbatim>\<open>usage.go\<close>). The counters are Go \<^verbatim>\<open>int\<close>s
  bounded by the number of tasks, so they are plain integers here.
\<close>

section \<open>Projection of a workflow\<close>

definition zero_Projection :: Projection where
  "zero_Projection =
     \<lparr>pj_WorkflowID = '''', pj_Status = WorkflowOther '''', pj_ReadyTasks = [], pj_RemainingDependencies = [],
      pj_ActiveAttempts = [], pj_Timers = [], pj_Summary = zero_Summary\<rparr>"

definition claimable :: "TaskState \<Rightarrow> bool" where
  "claimable task \<longleftrightarrow> ts_Status task = TaskReady \<or> ts_Status task = TaskCompensating \<and> ts_WorkerID task = ''''"

definition in_progress :: "TaskState \<Rightarrow> bool" where
  "in_progress task \<longleftrightarrow> ts_Status task = TaskRunning \<or> ts_Status task = TaskCompensating \<and> ts_WorkerID task \<noteq> ''''"

definition attempt_of :: "string \<Rightarrow> TaskState \<Rightarrow> AttemptProjection" where
  "attempt_of i task =
     \<lparr>ap_TaskID = i, ap_AttemptID = ts_AttemptID task, ap_Attempt = ts_Attempt task, ap_WorkerID = ts_WorkerID task,
      ap_LeaseUntil = ts_LeaseUntil task, ap_Fence = ts_Fence task, ap_Idempotency = ts_Idempotency task\<rparr>"

definition remaining_dependencies :: "WorkflowState \<Rightarrow> TaskState \<Rightarrow> nat" where
  "remaining_dependencies state task =
     length (filter (\<lambda>dependency. ts_Status (task_or_zero state dependency) \<noteq> TaskCompleted) (deps (ts_Definition task)))"

definition count_status :: "TaskStatus \<Rightarrow> Summary \<Rightarrow> Summary" where
  "count_status status m =
     (let m = m\<lparr>sm_Total := sm_Total m + 1\<rparr> in
      case status of
        TaskPending \<Rightarrow> m\<lparr>sm_Pending := sm_Pending m + 1\<rparr>
      | TaskReady \<Rightarrow> m\<lparr>sm_Ready := sm_Ready m + 1\<rparr>
      | TaskRunning \<Rightarrow> m\<lparr>sm_Running := sm_Running m + 1\<rparr>
      | TaskCompleted \<Rightarrow> m\<lparr>sm_Completed := sm_Completed m + 1\<rparr>
      | TaskFailed \<Rightarrow> m\<lparr>sm_Failed := sm_Failed m + 1\<rparr>
      | TaskCancelled \<Rightarrow> m\<lparr>sm_Cancelled := sm_Cancelled m + 1\<rparr>
      | TaskCompensating \<Rightarrow> m\<lparr>sm_Compensating := sm_Compensating m + 1\<rparr>
      | TaskCompensated \<Rightarrow> m\<lparr>sm_Compensated := sm_Compensated m + 1\<rparr>
      | TaskOther _ \<Rightarrow> m)"

text \<open>The body of the loop of \<^verbatim>\<open>Project\<close> over the tasks.\<close>

definition project_task :: "WorkflowState \<Rightarrow> string \<times> TaskState \<Rightarrow> Projection \<Rightarrow> Projection" where
  "project_task state entry projection =
     (case entry of (i, task) \<Rightarrow>
        let projection = projection\<lparr>pj_RemainingDependencies :=
              put i (remaining_dependencies state task) (pj_RemainingDependencies projection)\<rparr>;
            projection = (if claimable task
              then projection\<lparr>pj_ReadyTasks := pj_ReadyTasks projection @ [i]\<rparr> else projection);
            projection = (if in_progress task
              then projection\<lparr>pj_ActiveAttempts := pj_ActiveAttempts projection @ [attempt_of i task]\<rparr> else projection)
        in projection\<lparr>pj_Summary := count_status (ts_Status task) (pj_Summary projection)\<rparr>)"


definition timer_before :: "TimerState \<Rightarrow> TimerState \<Rightarrow> bool" where
  "timer_before t u \<longleftrightarrow> tm_Deadline t < tm_Deadline u \<or> tm_Deadline t = tm_Deadline u \<and> tm_ID t \<le> tm_ID u"

fun insort_timer :: "TimerState \<Rightarrow> TimerState list \<Rightarrow> TimerState list" where
  "insort_timer t [] = [t]"
| "insort_timer t (u # us) = (if timer_before t u then t # u # us else u # insort_timer t us)"

definition sort_timers :: "TimerState list \<Rightarrow> TimerState list" where
  "sort_timers timers = foldr insort_timer timers []"

definition Project :: "WorkflowState option \<Rightarrow> Projection" where
  "Project state =
     (case state of
        None \<Rightarrow> zero_Projection
      | Some s \<Rightarrow>
          let projection = fold (project_task s) (wf_Tasks s)
                (zero_Projection\<lparr>pj_WorkflowID := wf_ID s, pj_Status := wf_Status s\<rparr>)
          in projection\<lparr>pj_Timers := sort_timers (map snd (wf_Timers s)),
               pj_ReadyTasks := sort (pj_ReadyTasks projection),
               pj_ActiveAttempts := sort_key ap_TaskID (pj_ActiveAttempts projection)\<rparr>)"

definition Engine_Projection :: "Engine \<Rightarrow> string \<Rightarrow> Projection \<times> bool" where
  "Engine_Projection e workflowID =
     (case resolveState e workflowID of
        Inl err \<Rightarrow> (zero_Projection, False)
      | Inr (state, exists) \<Rightarrow> if \<not> exists then (zero_Projection, False) else (Project state, True))"

section \<open>Usage of a workflow\<close>

record WorkflowUsage =
  wu_Namespace :: string
  wu_Workflows :: int
  wu_Tasks :: int
  wu_Ready :: int
  wu_Running :: int

definition zero_WorkflowUsage :: WorkflowUsage where
  "zero_WorkflowUsage = \<lparr>wu_Namespace = '''', wu_Workflows = 0, wu_Tasks = 0, wu_Ready = 0, wu_Running = 0\<rparr>"

definition terminalTask :: "TaskStatus \<Rightarrow> bool" where
  "terminalTask status \<longleftrightarrow>
     (case status of TaskCompleted \<Rightarrow> True | TaskFailed \<Rightarrow> True | TaskCancelled \<Rightarrow> True | TaskCompensated \<Rightarrow> True
      | _ \<Rightarrow> False)"

text \<open>The tasks that an unexpanded fan-out may still create are reserved.\<close>

definition reserved :: "TaskState \<Rightarrow> int" where
  "reserved task =
     (case td_Fanout (ts_Definition task) of
        None \<Rightarrow> 0
      | Some fanout \<Rightarrow> if ts_FanoutExpanded task then 0 else uint (fd_MaxItems fanout))"

definition use_task :: "TaskState \<Rightarrow> WorkflowUsage \<Rightarrow> WorkflowUsage" where
  "use_task task usage =
     (if terminalTask (ts_Status task) then usage
      else
        let usage = usage\<lparr>wu_Tasks := wu_Tasks usage + 1 + reserved task\<rparr> in
        case ts_Status task of
          TaskReady \<Rightarrow> usage\<lparr>wu_Ready := wu_Ready usage + 1\<rparr>
        | TaskRunning \<Rightarrow> usage\<lparr>wu_Running := wu_Running usage + 1\<rparr>
        | TaskCompensating \<Rightarrow>
            if \<not> ts_Compensation task then usage
            else if ts_WorkerID task = '''' then usage\<lparr>wu_Ready := wu_Ready usage + 1\<rparr>
            else usage\<lparr>wu_Running := wu_Running usage + 1\<rparr>
        | _ \<Rightarrow> usage)"

definition usage_of :: "WorkflowState \<Rightarrow> WorkflowUsage" where
  "usage_of state =
     (let usage = zero_WorkflowUsage\<lparr>wu_Namespace := wf_Namespace state\<rparr> in
      if terminalWorkflow (wf_Status state) then usage
      else fold use_task (map snd (wf_Tasks state)) (usage\<lparr>wu_Workflows := 1\<rparr>))"

definition Engine_WorkflowUsage :: "Engine \<Rightarrow> string \<Rightarrow> err + WorkflowUsage \<times> bool" where
  "Engine_WorkflowUsage e workflowID =
     bindE (resolveState e workflowID) (\<lambda>(state, exists).
       if \<not> exists then Inr (zero_WorkflowUsage, False)
       else case state of None \<Rightarrow> Inl NilDereference | Some s \<Rightarrow> Inr (usage_of s, True))"

section \<open>What a projection shows\<close>

lemma project_tasks:
  "gomap (pj_RemainingDependencies p @ map (\<lambda>(i, t). (i, 0)) xs) \<Longrightarrow>
   pj_RemainingDependencies (fold (project_task s) xs p) =
     pj_RemainingDependencies p @ map (\<lambda>(i, t). (i, remaining_dependencies s t)) xs \<and>
   pj_ReadyTasks (fold (project_task s) xs p) = pj_ReadyTasks p @ map fst (filter (\<lambda>(i, t). claimable t) xs) \<and>
   pj_ActiveAttempts (fold (project_task s) xs p) =
     pj_ActiveAttempts p @ map (\<lambda>(i, t). attempt_of i t) (filter (\<lambda>(i, t). in_progress t) xs) \<and>
   pj_WorkflowID (fold (project_task s) xs p) = pj_WorkflowID p \<and> pj_Status (fold (project_task s) xs p) = pj_Status p \<and>
   pj_Timers (fold (project_task s) xs p) = pj_Timers p"
proof (induction xs arbitrary: p)
  case (Cons x xs)
  obtain i t where x: "x = (i, t)" by force
  have new: "\<not> has i (pj_RemainingDependencies p)"
    using Cons.prems x by (auto simp: gomap_def has_def map_of_eq_None_iff image_iff)
  let ?q = "project_task s (i, t) p"
  have q: "pj_RemainingDependencies ?q = pj_RemainingDependencies p @ [(i, remaining_dependencies s t)]"
    using new by (simp add: project_task_def Let_def put_new)
  have "gomap (pj_RemainingDependencies ?q @ map (\<lambda>(i, t). (i, 0)) xs)"
    using Cons.prems unfolding q x by (simp add: gomap_def)
  from Cons.IH [OF this] q show ?case by (simp add: x project_task_def Let_def)
qed simp


lemma project_all:
  assumes "gomap (wf_Tasks s)"
  shows "pj_RemainingDependencies (Project (Some s)) = map (\<lambda>(i, t). (i, remaining_dependencies s t)) (wf_Tasks s)"
    "pj_ReadyTasks (Project (Some s)) = sort (map fst (filter (\<lambda>(i, t). claimable t) (wf_Tasks s)))"
    "pj_ActiveAttempts (Project (Some s)) =
       sort_key ap_TaskID (map (\<lambda>(i, t). attempt_of i t) (filter (\<lambda>(i, t). in_progress t) (wf_Tasks s)))"
proof -
  have "gomap (map (\<lambda>(i, t). (i, 0::nat)) (wf_Tasks s))"
    using assms by (simp add: gomap_def case_prod_beta o_def)
  then show "pj_RemainingDependencies (Project (Some s)) = map (\<lambda>(i, t). (i, remaining_dependencies s t)) (wf_Tasks s)"
    "pj_ReadyTasks (Project (Some s)) = sort (map fst (filter (\<lambda>(i, t). claimable t) (wf_Tasks s)))"
    "pj_ActiveAttempts (Project (Some s)) =
       sort_key ap_TaskID (map (\<lambda>(i, t). attempt_of i t) (filter (\<lambda>(i, t). in_progress t) (wf_Tasks s)))"
    using project_tasks [of "zero_Projection\<lparr>pj_WorkflowID := wf_ID s, pj_Status := wf_Status s\<rparr>" "wf_Tasks s" s]
    by (simp_all add: Project_def zero_Projection_def Let_def)
qed

lemma project_remaining:
  assumes "gomap (wf_Tasks s)"
  shows "map_of (pj_RemainingDependencies (Project (Some s))) i = map_option (remaining_dependencies s) (task_at s i)"
  unfolding project_all(1) [OF assms] task_at_def by (simp add: map_of_map)

lemma project_ready:
  assumes "gomap (wf_Tasks s)"
  shows "set (pj_ReadyTasks (Project (Some s))) = {i. \<exists>t. task_at s i = Some t \<and> claimable t}"
    "sorted (pj_ReadyTasks (Project (Some s)))" "distinct (pj_ReadyTasks (Project (Some s)))"
proof -
  have at: "task_at s i = Some t \<longleftrightarrow> (i, t) \<in> set (wf_Tasks s)" for i t
    using assms by (simp add: task_at_def gomap_map_of_iff)
  show "set (pj_ReadyTasks (Project (Some s))) = {i. \<exists>t. task_at s i = Some t \<and> claimable t}"
    unfolding project_all(2) [OF assms] at by force
  show "sorted (pj_ReadyTasks (Project (Some s)))" "distinct (pj_ReadyTasks (Project (Some s)))"
    unfolding project_all(2) [OF assms] using assms by (simp_all add: gomap_def distinct_map_filter)
qed

lemma project_active:
  assumes "gomap (wf_Tasks s)"
  shows "set (pj_ActiveAttempts (Project (Some s))) = {attempt_of i t | i t. task_at s i = Some t \<and> in_progress t}"
    "sorted (map ap_TaskID (pj_ActiveAttempts (Project (Some s))))"
proof -
  have at: "task_at s i = Some t \<longleftrightarrow> (i, t) \<in> set (wf_Tasks s)" for i t
    using assms by (simp add: task_at_def gomap_map_of_iff)
  show "set (pj_ActiveAttempts (Project (Some s))) = {attempt_of i t | i t. task_at s i = Some t \<and> in_progress t}"
    unfolding project_all(3) [OF assms] at by force
  show "sorted (map ap_TaskID (pj_ActiveAttempts (Project (Some s))))"
    unfolding project_all(3) [OF assms] by simp
qed

text \<open>The timers are listed by deadline, ties broken by identifier.\<close>

lemma insort_timer_props:
  "mset (insort_timer t us) = add_mset t (mset us)"
  "sorted_wrt timer_before us \<Longrightarrow> sorted_wrt timer_before (insort_timer t us)"
proof -
  show m: "mset (insort_timer t us) = add_mset t (mset us)" for us by (induction us) simp_all
  have set: "set (insort_timer t us) = insert t (set us)" for us using m [of us] by (metis set_mset_add_mset_insert set_mset_mset)
  show "sorted_wrt timer_before us \<Longrightarrow> sorted_wrt timer_before (insort_timer t us)"
    by (induction us) (auto simp: set timer_before_def)
qed

lemma sort_timers_props: "mset (sort_timers ts) = mset ts" "sorted_wrt timer_before (sort_timers ts)"
  by (induction ts) (simp_all add: sort_timers_def insort_timer_props)

section \<open>Usage counts tasks\<close>

definition counted :: "(TaskState \<Rightarrow> bool) \<Rightarrow> WorkflowState \<Rightarrow> int" where
  "counted P s = int (length (filter P (map snd (wf_Tasks s))))"

definition starting :: "TaskState \<Rightarrow> bool" where
  "starting t \<longleftrightarrow> ts_Status t = TaskReady \<or> ts_Status t = TaskCompensating \<and> ts_Compensation t \<and> ts_WorkerID t = ''''"

definition working :: "TaskState \<Rightarrow> bool" where
  "working t \<longleftrightarrow> ts_Status t = TaskRunning \<or> ts_Status t = TaskCompensating \<and> ts_Compensation t \<and> ts_WorkerID t \<noteq> ''''"

lemma use_tasks:
  "wu_Tasks (fold use_task ts u) =
     wu_Tasks u + (\<Sum>t \<leftarrow> filter (\<lambda>t. \<not> terminalTask (ts_Status t)) ts. 1 + reserved t) \<and>
   wu_Ready (fold use_task ts u) = wu_Ready u + int (length (filter starting ts)) \<and>
   wu_Running (fold use_task ts u) = wu_Running u + int (length (filter working ts)) \<and>
   wu_Workflows (fold use_task ts u) = wu_Workflows u \<and> wu_Namespace (fold use_task ts u) = wu_Namespace u"
proof (induction ts arbitrary: u)
  case (Cons t ts)
  have "wu_Tasks (use_task t u) = wu_Tasks u + (if terminalTask (ts_Status t) then 0 else 1 + reserved t)"
    "wu_Ready (use_task t u) = wu_Ready u + (if starting t then 1 else 0)"
    "wu_Running (use_task t u) = wu_Running u + (if working t then 1 else 0)"
    "wu_Workflows (use_task t u) = wu_Workflows u" "wu_Namespace (use_task t u) = wu_Namespace u"
    by (simp_all add: use_task_def terminalTask_def starting_def working_def Let_def split: TaskStatus.split)
  with Cons.IH [of "use_task t u"] show ?case by simp
qed simp

lemma usage_nonneg:
  "0 \<le> wu_Workflows (usage_of s)" "0 \<le> wu_Tasks (usage_of s)" "0 \<le> wu_Ready (usage_of s)" "0 \<le> wu_Running (usage_of s)"
proof -
  have "0 \<le> reserved t" for t by (simp add: reserved_def split: option.split)
  then have "0 \<le> (\<Sum>t \<leftarrow> ts. 1 + reserved t)" for ts :: "TaskState list"
    by (intro sum_list_nonneg) (auto intro: add_nonneg_nonneg)
  then show "0 \<le> wu_Workflows (usage_of s)" "0 \<le> wu_Tasks (usage_of s)" "0 \<le> wu_Ready (usage_of s)" "0 \<le> wu_Running (usage_of s)"
    by (simp_all add: usage_of_def use_tasks zero_WorkflowUsage_def Let_def)
qed

end
