(* ===== verification/Chronos_Scheduler.thy ===== *)
theory Chronos_Scheduler
  imports Chronos_Staging Chronos_Projection
begin

text \<open>
  The scheduler (\<^verbatim>\<open>internal/scheduler/scheduler.go\<close>): admission control over a staged batch of commands
  and the weighted choice of the next task. Counters are Go \<^verbatim>\<open>int\<close>s bounded by the number of tasks
  and limits; the weights, whose sums the source guards against overflow, use 64-bit arithmetic.
\<close>

section \<open>Configuration\<close>

record Limits =
  lm_Workflows :: int
  lm_Tasks :: int
  lm_Running :: int

record NamespaceConfig =
  nc_Weight :: int
  nc_Limits :: Limits

record Config =
  cf_Global :: Limits
  cf_Default :: NamespaceConfig
  cf_Namespaces :: "(string, NamespaceConfig) gomap"

record AdmissionError =
  ae_Namespace :: string
  ae_Resource :: string
  ae_Used :: int
  ae_Requested :: int
  ae_Limit :: int

datatype sched_error = InvalidConfig | Backpressure AdmissionError | CoreError err | StalePlan

record Task =
  sk_WorkflowID :: string
  sk_TaskID :: string
  sk_Namespace :: string
  sk_Capability :: string
  sk_UpdatedAt :: int64

record Plan =
  pn_Task :: Task
  pn_current :: "(string, int64) gomap"
  pn_epoch :: uint64

record NamespaceStats =
  ns_Namespace :: string
  ns_Workflows :: int
  ns_Tasks :: int
  ns_Ready :: int
  ns_Running :: int
  ns_Weight :: int

record Stats =
  sa_Workflows :: int
  sa_Tasks :: int
  sa_Ready :: int
  sa_Running :: int
  sa_Namespaces :: "NamespaceStats list"

record PreparedBatch =
  pb_Batches :: "CommandBatch list"
  pb_Immediate :: "(string, Result) gomap"
  pb_Hashes :: "string list"

record usage =
  us_workflows :: int
  us_tasks :: int
  us_ready :: int
  us_running :: int
  us_byNamespace :: "(string, NamespaceStats) gomap"
  us_candidates :: "(string, Task list) gomap"

record Scheduler =
  sc_config :: Config
  sc_current :: "(string, int64) gomap"
  sc_epoch :: uint64

definition MaxInt32 :: int where "MaxInt32 = 2147483647"

definition DefaultConfig :: Config where
  "DefaultConfig =
     \<lparr>cf_Global = \<lparr>lm_Workflows = 100000, lm_Tasks = 1000000, lm_Running = 10000\<rparr>,
      cf_Default = \<lparr>nc_Weight = 1, nc_Limits = \<lparr>lm_Workflows = 10000, lm_Tasks = 100000, lm_Running = 1000\<rparr>\<rparr>,
      cf_Namespaces = []\<rparr>"

definition validateLimits :: "Limits \<Rightarrow> sched_error + unit" where
  "validateLimits limits =
     (if lm_Workflows limits < 1 \<or> lm_Tasks limits < 1 \<or> lm_Running limits < 1 then Inl InvalidConfig
      else if lm_Tasks limits < lm_Running limits then Inl InvalidConfig
      else Inr ())"

definition validate_namespace :: "string \<times> NamespaceConfig \<Rightarrow> sched_error + unit" where
  "validate_namespace entry =
     (if nc_Weight (snd entry) < 1 \<or> MaxInt32 < nc_Weight (snd entry) then Inl InvalidConfig
      else validateLimits (nc_Limits (snd entry)))"

definition validateConfig :: "Config \<Rightarrow> sched_error + unit" where
  "validateConfig config =
     bindE (validateLimits (cf_Global config)) (\<lambda>_.
       if nc_Weight (cf_Default config) < 1 \<or> MaxInt32 < nc_Weight (cf_Default config) then Inl InvalidConfig
       else bindE (validateLimits (nc_Limits (cf_Default config))) (\<lambda>_.
         foldE (\<lambda>_. validate_namespace) () (cf_Namespaces config)))"

definition New :: "Config \<Rightarrow> sched_error + Scheduler" where
  "New config =
     bindE (validateConfig config) (\<lambda>_.
       bindE (foldE (\<lambda>copied (namespace, value). if namespace = '''' then Inl InvalidConfig
                else Inr (put namespace value copied)) [] (cf_Namespaces config)) (\<lambda>namespaces.
         Inr \<lparr>sc_config = config\<lparr>cf_Namespaces := namespaces\<rparr>, sc_current = [], sc_epoch = 0\<rparr>))"

definition namespaceConfig :: "Scheduler \<Rightarrow> string \<Rightarrow> NamespaceConfig" where
  "namespaceConfig s namespace =
     (case map_of (cf_Namespaces (sc_config s)) namespace of
        Some value \<Rightarrow> value | None \<Rightarrow> cf_Default (sc_config s))"

section \<open>Usage\<close>

definition zero_NamespaceStats :: NamespaceStats where
  "zero_NamespaceStats =
     \<lparr>ns_Namespace = '''', ns_Workflows = 0, ns_Tasks = 0, ns_Ready = 0, ns_Running = 0, ns_Weight = 0\<rparr>"

definition zero_usage :: usage where
  "zero_usage =
     \<lparr>us_workflows = 0, us_tasks = 0, us_ready = 0, us_running = 0, us_byNamespace = [], us_candidates = []\<rparr>"

text \<open>
  \<^verbatim>\<open>usage.namespace\<close> returns the entry of a namespace and creates an empty one when there is none. An
  empty entry reads like an absent one, so readers use \<open>namespace_of\<close>; writers use \<open>on_namespace\<close>.
\<close>

definition namespace_of :: "usage \<Rightarrow> string \<Rightarrow> NamespaceStats" where
  "namespace_of u namespace = or_zero zero_NamespaceStats (us_byNamespace u) namespace"

definition on_namespace :: "string \<Rightarrow> (NamespaceStats \<Rightarrow> NamespaceStats) \<Rightarrow> usage \<Rightarrow> usage" where
  "on_namespace namespace f u =
     u\<lparr>us_byNamespace := put namespace (f (namespace_of u namespace)) (us_byNamespace u)\<rparr>"

definition accountWorkflow :: "usage \<Rightarrow> WorkflowUsage \<Rightarrow> int \<Rightarrow> usage" where
  "accountWorkflow state workflow direction =
     (if wu_Workflows workflow = 0 then state
      else on_namespace (wu_Namespace workflow) (\<lambda>n. n\<lparr>
             ns_Workflows := ns_Workflows n + wu_Workflows workflow * direction,
             ns_Tasks := ns_Tasks n + wu_Tasks workflow * direction,
             ns_Ready := ns_Ready n + wu_Ready workflow * direction,
             ns_Running := ns_Running n + wu_Running workflow * direction\<rparr>)
         (state\<lparr>us_workflows := us_workflows state + wu_Workflows workflow * direction,
                us_tasks := us_tasks state + wu_Tasks workflow * direction,
                us_ready := us_ready state + wu_Ready workflow * direction,
                us_running := us_running state + wu_Running workflow * direction\<rparr>))"

definition add_candidate :: "(string, unit) gomap \<Rightarrow> string \<Rightarrow> WorkflowState \<Rightarrow> string \<Rightarrow> string \<Rightarrow> usage \<Rightarrow> usage" where
  "add_candidate capabilities workflowID state taskID capability u =
     (if has capability capabilities
      then u\<lparr>us_candidates := put (wf_Namespace state) (or_zero [] (us_candidates u) (wf_Namespace state) @
             [\<lparr>sk_WorkflowID = workflowID, sk_TaskID = taskID, sk_Namespace = wf_Namespace state,
               sk_Capability = capability, sk_UpdatedAt = wf_UpdatedAt state\<rparr>]) (us_candidates u)\<rparr>
      else u)"

definition count_ready :: "string \<Rightarrow> usage \<Rightarrow> usage" where
  "count_ready namespace u =
     on_namespace namespace (\<lambda>n. n\<lparr>ns_Ready := ns_Ready n + 1\<rparr>) (u\<lparr>us_ready := us_ready u + 1\<rparr>)"

definition count_running :: "string \<Rightarrow> usage \<Rightarrow> usage" where
  "count_running namespace u =
     on_namespace namespace (\<lambda>n. n\<lparr>ns_Running := ns_Running n + 1\<rparr>) (u\<lparr>us_running := us_running u + 1\<rparr>)"

text \<open>The body of the loop over the tasks of a workflow in \<^verbatim>\<open>inspect\<close>.\<close>

definition inspect_task ::
    "(string, unit) gomap \<Rightarrow> string \<Rightarrow> WorkflowState \<Rightarrow> string \<times> TaskState \<Rightarrow> usage \<Rightarrow> usage" where
  "inspect_task capabilities workflowID state entry u =
     (case entry of (taskID, task) \<Rightarrow>
        if terminalTask (ts_Status task) then u
        else
          let u = on_namespace (wf_Namespace state) (\<lambda>n. n\<lparr>ns_Tasks := ns_Tasks n + 1 + reserved task\<rparr>)
                (u\<lparr>us_tasks := us_tasks u + 1 + reserved task\<rparr>) in
          case ts_Status task of
            TaskReady \<Rightarrow>
              add_candidate capabilities workflowID state taskID (td_Type (ts_Definition task))
                (count_ready (wf_Namespace state) u)
          | TaskRunning \<Rightarrow> count_running (wf_Namespace state) u
          | TaskCompensating \<Rightarrow>
              if \<not> ts_Compensation task then u
              else if ts_WorkerID task \<noteq> '''' then count_running (wf_Namespace state) u
              else
                let u = count_ready (wf_Namespace state) u in
                (case td_Compensation (ts_Definition task) of
                   None \<Rightarrow> u
                 | Some compensation \<Rightarrow>
                     add_candidate capabilities workflowID state taskID (cd_TaskType compensation) u)
          | _ \<Rightarrow> u)"

definition inspect_workflow :: "Engine \<Rightarrow> (string, unit) gomap \<Rightarrow> usage \<Rightarrow> string \<Rightarrow> err + usage" where
  "inspect_workflow engine capabilities result workflowID =
     (case fst (State engine workflowID) of
        None \<Rightarrow> Inl NilDereference
      | Some state \<Rightarrow>
          Inr (fold (inspect_task capabilities workflowID state) (wf_Tasks state)
            (on_namespace (wf_Namespace state) (\<lambda>n. n\<lparr>ns_Workflows := ns_Workflows n + 1\<rparr>)
              (result\<lparr>us_workflows := us_workflows result + 1\<rparr>))))"

definition account_active :: "Engine \<Rightarrow> string \<Rightarrow> usage \<Rightarrow> usage" where
  "account_active engine workflowID result =
     (case Engine_WorkflowUsage engine workflowID of
        Inr (workflow, True) \<Rightarrow> accountWorkflow result workflow 1
      | _ \<Rightarrow> result)"

definition inspect :: "Engine \<Rightarrow> (string, unit) gomap option \<Rightarrow> err + usage" where
  "inspect engine capabilities =
     (case capabilities of
        None \<Rightarrow> Inr (fold (account_active engine) (ActiveWorkflowIDs engine) zero_usage)
      | Some allowed \<Rightarrow> foldE (inspect_workflow engine allowed) zero_usage (ActiveWorkflowIDs engine))"

definition reservedTasks :: "WorkflowDefinition \<Rightarrow> int" where
  "reservedTasks definition =
     fold (\<lambda>task total. case td_Fanout task of None \<Rightarrow> total | Some fanout \<Rightarrow> total + uint (fd_MaxItems fanout))
       (wd_Tasks definition) (int (length (wd_Tasks definition)))"

section \<open>Admission\<close>

definition checkRunning :: "Scheduler \<Rightarrow> usage \<Rightarrow> string \<Rightarrow> sched_error + unit" where
  "checkRunning s state namespaceName =
     (if lm_Running (cf_Global (sc_config s)) < us_running state + 1
      then Inl (Backpressure \<lparr>ae_Namespace = '''', ae_Resource = ''running'', ae_Used = us_running state,
        ae_Requested = 1, ae_Limit = lm_Running (cf_Global (sc_config s))\<rparr>)
      else
        let namespace = namespace_of state namespaceName;
            limit = lm_Running (nc_Limits (namespaceConfig s namespaceName))
        in if limit < ns_Running namespace + 1
           then Inl (Backpressure \<lparr>ae_Namespace = namespaceName, ae_Resource = ''running'',
             ae_Used = ns_Running namespace, ae_Requested = 1, ae_Limit = limit\<rparr>)
           else Inr ())"

definition checkAdmission :: "Scheduler \<Rightarrow> usage \<Rightarrow> WorkflowDefinition option \<Rightarrow> sched_error + unit" where
  "checkAdmission s state definition =
     (case definition of
        None \<Rightarrow> Inl (CoreError ErrInvalidDefinition)
      | Some d \<Rightarrow>
          let requested = reservedTasks d;
              global = cf_Global (sc_config s);
              namespace = namespace_of state (wd_Namespace d);
              limits = nc_Limits (namespaceConfig s (wd_Namespace d))
          in if lm_Workflows global < us_workflows state + 1
             then Inl (Backpressure \<lparr>ae_Namespace = '''', ae_Resource = ''workflow'', ae_Used = us_workflows state,
               ae_Requested = 1, ae_Limit = lm_Workflows global\<rparr>)
             else if lm_Tasks global - us_tasks state < requested
             then Inl (Backpressure \<lparr>ae_Namespace = '''', ae_Resource = ''task'', ae_Used = us_tasks state,
               ae_Requested = requested, ae_Limit = lm_Tasks global\<rparr>)
             else if lm_Workflows limits < ns_Workflows namespace + 1
             then Inl (Backpressure \<lparr>ae_Namespace = wd_Namespace d, ae_Resource = ''workflow'',
               ae_Used = ns_Workflows namespace, ae_Requested = 1, ae_Limit = lm_Workflows limits\<rparr>)
             else if lm_Tasks limits - ns_Tasks namespace < requested
             then Inl (Backpressure \<lparr>ae_Namespace = wd_Namespace d, ae_Resource = ''task'',
               ae_Used = ns_Tasks namespace, ae_Requested = requested, ae_Limit = lm_Tasks limits\<rparr>)
             else Inr ())"

text \<open>One command of a batch: the staged engine, the running usage and the batches collected so far.\<close>

definition submit_workflow_id :: "digest \<Rightarrow> Command \<Rightarrow> string" where
  "submit_workflow_id H command =
     (case cmd_Definition command of
        Some definition \<Rightarrow>
          if cmd_Kind command = CommandSubmit \<and> cmd_WorkflowID command = ''''
          then WorkflowID H (wd_Namespace definition) (cmd_RequestID command) else cmd_WorkflowID command
      | None \<Rightarrow> cmd_WorkflowID command)"

type_synonym batch_state = "StagingTransaction \<times> usage \<times> PreparedBatch"

definition admit :: "Scheduler \<Rightarrow> usage \<Rightarrow> Command \<Rightarrow> WorkflowUsage \<Rightarrow> bool \<Rightarrow> sched_error + unit" where
  "admit s state command before beforeExists =
     bindE (if cmd_Kind command = CommandSubmit then checkAdmission s state (cmd_Definition command) else Inr ()) (\<lambda>_.
       if cmd_Kind command = CommandStart then
         if \<not> beforeExists then Inl (CoreError ErrWorkflowNotFound)
         else checkRunning s state (wu_Namespace before)
       else Inr ())"

definition as_core :: "err + 'a \<Rightarrow> sched_error + 'a" where
  "as_core r = (case r of Inl x \<Rightarrow> Inl (CoreError x) | Inr a \<Rightarrow> Inr a)"

definition prepare_command ::
    "digest \<Rightarrow> encoder \<Rightarrow> Scheduler \<Rightarrow> bool \<Rightarrow> batch_state \<Rightarrow> Command \<Rightarrow>
     StagingTransaction \<times> (sched_error + usage \<times> PreparedBatch)" where
  "prepare_command H J s retain b command =
     (case b of (tx, state, prepared) \<Rightarrow>
        case Engine_WorkflowUsage (st_engine tx) (submit_workflow_id H command) of
          Inl x \<Rightarrow> (tx, Inl (CoreError x))
        | Inr (before, beforeExists) \<Rightarrow>
            (case (if retain then Stage H J tx command else staging_PrepareAndApply H J tx command) of
               (tx, Inl x) \<Rightarrow> (tx, Inl (CoreError x))
             | (tx, Inr (batch, result, duplicate)) \<Rightarrow>
                 let prepared = prepared\<lparr>pb_Hashes := pb_Hashes prepared @ [cb_RequestHash batch]\<rparr> in
                 if duplicate then
                   (tx, Inr (state, prepared\<lparr>pb_Immediate := put (cmd_RequestID command) result (pb_Immediate prepared)\<rparr>))
                 else
                   (tx, bindE (admit s state command before beforeExists) (\<lambda>_.
                      bindE (as_core (Engine_WorkflowUsage (st_engine tx) (cb_WorkflowID batch))) (\<lambda>(after, _).
                        Inr (accountWorkflow (accountWorkflow state before (- 1)) after 1,
                             prepared\<lparr>pb_Batches := pb_Batches prepared @ [batch]\<rparr>))))))"

fun prepare_commands ::
    "digest \<Rightarrow> encoder \<Rightarrow> Scheduler \<Rightarrow> bool \<Rightarrow> batch_state \<Rightarrow> Command list \<Rightarrow>
     StagingTransaction \<times> (sched_error + usage \<times> PreparedBatch)" where
  "prepare_commands H J s retain (tx, state, prepared) [] = (tx, Inr (state, prepared))"
| "prepare_commands H J s retain b (command # commands) =
     (case prepare_command H J s retain b command of
        (tx, Inl x) \<Rightarrow> (tx, Inl x)
      | (tx, Inr (state, prepared)) \<Rightarrow> prepare_commands H J s retain (tx, state, prepared) commands)"

text \<open>The deferred rollback runs on every path but the successful one with \<^verbatim>\<open>retain\<close>.\<close>

definition prepareBatch ::
    "digest \<Rightarrow> encoder \<Rightarrow> Scheduler \<Rightarrow> Engine \<Rightarrow> Command list \<Rightarrow> bool \<Rightarrow> Engine \<times> (sched_error + PreparedBatch)" where
  "prepareBatch H J s engine commands retain =
     (let transaction = BeginStaging engine in
      case inspect engine None of
        Inl x \<Rightarrow> (st_engine (staging_Rollback transaction), Inl (CoreError x))
      | Inr state \<Rightarrow>
          (case prepare_commands H J s retain
              (transaction, state, \<lparr>pb_Batches = [], pb_Immediate = [], pb_Hashes = []\<rparr>) commands of
             (tx, Inl x) \<Rightarrow> (st_engine (staging_Rollback tx), Inl x)
           | (tx, Inr (_, prepared)) \<Rightarrow>
               (st_engine (if retain then staging_Commit tx else staging_Rollback tx), Inr prepared)))"

definition PrepareBatch :: "digest \<Rightarrow> encoder \<Rightarrow> Scheduler \<Rightarrow> Engine \<Rightarrow> Command list \<Rightarrow> Engine \<times> (sched_error + PreparedBatch)" where
  "PrepareBatch H J s engine commands = prepareBatch H J s engine commands False"

definition StageBatch :: "digest \<Rightarrow> encoder \<Rightarrow> Scheduler \<Rightarrow> Engine \<Rightarrow> Command list \<Rightarrow> Engine \<times> (sched_error + PreparedBatch)" where
  "StageBatch H J s engine commands = prepareBatch H J s engine commands True"

definition CheckBatch :: "digest \<Rightarrow> encoder \<Rightarrow> Scheduler \<Rightarrow> Engine \<Rightarrow> Command list \<Rightarrow> Engine \<times> (sched_error + unit)" where
  "CheckBatch H J s engine commands =
     (case PrepareBatch H J s engine commands of (engine, r) \<Rightarrow> (engine, bindE r (\<lambda>_. Inr ())))"

section \<open>Choosing the next task\<close>

text \<open>Adding the weights of the eligible namespaces; \<open>None\<close> where the source gives up on overflow.\<close>

fun add_weights ::
    "Scheduler \<Rightarrow> string list \<Rightarrow> (string, int64) gomap \<times> int64 \<Rightarrow> ((string, int64) gomap \<times> int64) option" where
  "add_weights s [] acc = Some acc"
| "add_weights s (namespace # rest) (current, weights) =
     (let weight = nc_Weight (namespaceConfig s namespace) in
      if sub64 MaxInt64 weight < weights \<or> sub64 MaxInt64 weight < or_zero 0 (sc_current s) namespace then None
      else add_weights s rest
        (put namespace (add64 (or_zero 0 (sc_current s) namespace) weight) current, add64 weights weight))"

fun select_heaviest :: "(string, int64) gomap \<Rightarrow> string \<Rightarrow> string list \<Rightarrow> string" where
  "select_heaviest current selected [] = selected"
| "select_heaviest current selected (namespace # rest) =
     select_heaviest current
       (if or_zero 0 current selected < or_zero 0 current namespace then namespace else selected) rest"

text \<open>One turn of the smooth weighted round robin: the selected namespace and the credits after it.\<close>

definition rotate_credits :: "Scheduler \<Rightarrow> string list \<Rightarrow> (string \<times> (string, int64) gomap) option" where
  "rotate_credits s eligible =
     (case add_weights s eligible ([], 0) of
        None \<Rightarrow> None
      | Some (current, weights) \<Rightarrow>
          let selected = select_heaviest current (hd eligible) (tl eligible) in
          if or_zero 0 current selected < add64 MinInt64 weights then None
          else Some (selected, put selected (sub64 (or_zero 0 current selected) weights) current))"

definition allowed_capabilities :: "string list \<Rightarrow> (string, unit) gomap" where
  "allowed_capabilities capabilities =
     fold (\<lambda>capability allowed. if capability \<noteq> '''' then put capability () allowed else allowed) capabilities []"

definition task_key :: "Task \<Rightarrow> string list" where
  "task_key task = [sk_WorkflowID task, sk_TaskID task, sk_Capability task]"

definition eligible_namespaces :: "Scheduler \<Rightarrow> usage \<Rightarrow> string list" where
  "eligible_namespaces s state =
     sort (map fst (filter (\<lambda>(namespace, tasks). tasks \<noteq> [] \<and>
         ns_Running (namespace_of state namespace) < lm_Running (nc_Limits (namespaceConfig s namespace)))
       (us_candidates state)))"

definition Plan_next :: "Scheduler \<Rightarrow> Engine \<Rightarrow> string list \<Rightarrow> err + Plan option" where
  "Plan_next s engine capabilities =
     (let allowed = allowed_capabilities capabilities in
      if length allowed = 0 then Inr None
      else bindE (inspect engine (Some allowed)) (\<lambda>state.
        if lm_Running (cf_Global (sc_config s)) \<le> us_running state then Inr None
        else
          let eligible = eligible_namespaces s state in
          if length eligible = 0 then Inr None
          else case rotate_credits s eligible of
            None \<Rightarrow> Inr None
          | Some (selected, current) \<Rightarrow>
              (case sort_key task_key (or_zero [] (us_candidates state) selected) of
                 [] \<Rightarrow> Inl NilDereference
               | task # _ \<Rightarrow> Inr (Some \<lparr>pn_Task = task, pn_current = current, pn_epoch = sc_epoch s\<rparr>))))"

definition Commit :: "Scheduler \<Rightarrow> Plan \<Rightarrow> sched_error + Scheduler" where
  "Commit s plan =
     (if pn_epoch plan \<noteq> sc_epoch s \<or> sk_WorkflowID (pn_Task plan) = '''' then Inl StalePlan
      else Inr (s\<lparr>sc_current := pn_current plan, sc_epoch := sc_epoch s + 1\<rparr>))"

definition namespace_stats :: "Scheduler \<Rightarrow> string \<times> NamespaceStats \<Rightarrow> NamespaceStats" where
  "namespace_stats s entry =
     (snd entry)\<lparr>ns_Namespace := fst entry, ns_Weight := nc_Weight (namespaceConfig s (fst entry))\<rparr>"

definition Scheduler_Stats :: "Scheduler \<Rightarrow> Engine \<Rightarrow> err + Stats" where
  "Scheduler_Stats s engine =
     bindE (inspect engine None) (\<lambda>state.
       Inr \<lparr>sa_Workflows = us_workflows state, sa_Tasks = us_tasks state, sa_Ready = us_ready state,
            sa_Running = us_running state,
            sa_Namespaces = sort_key ns_Namespace (map (namespace_stats s) (us_byNamespace state))\<rparr>)"

end
