(* ===== verification/Chronos_Scheduler_Laws.thy ===== *)
theory Chronos_Scheduler_Laws
  imports Chronos_Scheduler
begin

text \<open>
  Batches of the scheduler (\<^verbatim>\<open>PrepareBatch\<close>, \<^verbatim>\<open>StageBatch\<close>): they are atomic, what they stage is what
  replicas apply, and their running account of the load is exact.
\<close>

section \<open>Atomicity\<close>

lemma tx_ok_prepare_command:
  assumes "tx_ok e0 tx" "engine_ok e0"
  shows "tx_ok e0 (fst (prepare_command H J s retain (tx, u, pb) c))"
  using tx_ok_stage [OF assms, of H J c True] tx_ok_stage [OF assms, of H J c False] assms(1)
  by (auto simp: prepare_command_def Stage_def staging_PrepareAndApply_def Let_def split: sum.split prod.split)

lemma tx_ok_prepare_commands:
  assumes "tx_ok e0 tx" "engine_ok e0"
  shows "tx_ok e0 (fst (prepare_commands H J s retain (tx, u, pb) cs))"
  using assms
proof (induction cs arbitrary: tx u pb)
  case (Cons c cs)
  from tx_ok_prepare_command [OF Cons.prems, of H J s retain u pb c] Cons.IH Cons.prems(2) show ?case
    by (auto split: prod.splits sum.splits)
qed simp

lemma prepareBatch_undone:
  assumes "engine_ok e" "map_of (en_states e) '''' = None" "prepareBatch H J s e cs retain = (e', out)"
    and "\<not> retain \<or> (\<exists>x. out = Inl x)"
  shows "same_engine e e'"
proof -
  obtain u where u: "inspect e None = Inr u" by (simp add: inspect_def)
  obtain tx out' where t: "prepare_commands H J s retain
      (BeginStaging e, u, \<lparr>pb_Batches = [], pb_Immediate = [], pb_Hashes = []\<rparr>) cs = (tx, out')" by force
  have ok: "tx_ok e tx"
    using tx_ok_prepare_commands [OF tx_ok_begin [OF assms(1,2)] assms(1),
        of H J s retain u "\<lparr>pb_Batches = [], pb_Immediate = [], pb_Hashes = []\<rparr>" cs] t by simp
  have "e' = st_engine (staging_Rollback tx)"
    using assms(3,4) u t by (auto simp: prepareBatch_def Let_def split: sum.splits if_splits)
  with tx_ok_rollback(2) [OF ok assms(1)] show ?thesis by simp
qed

section \<open>Staged commands\<close>

text \<open>A loader reports a workflow exactly when it returns one.\<close>

definition truthful :: "Engine \<Rightarrow> bool" where
  "truthful e \<longleftrightarrow> (\<forall>w s found. resolveState e w = Inr (s, found) \<longrightarrow> found = (s \<noteq> None))"

text \<open>An open transaction whose cache of resolved workflows is up to date.\<close>

definition synced :: "StagingTransaction \<Rightarrow> bool" where
  "synced tx \<longleftrightarrow> st_open tx \<and> engine_ok (st_engine tx) \<and> keyed (st_engine tx) \<and> truthful (st_engine tx) \<and>
     (\<forall>w. has w (st_workflows tx) \<longrightarrow>
        resolveState (st_engine tx) w = Inr (map_of (en_states (st_engine tx)) w, has w (en_states (st_engine tx))))"

lemma resolveState_put_state:
  "resolveState (put_state w s e) i = (if i = w then Inr (Some s, True) else resolveState e i)"
  by (simp add: resolveState_def)

lemma resolveRequest_put_state: "resolveRequest (put_state w s e) = resolveRequest e"
  by (simp add: resolveRequest_def fun_eq_iff)

lemma staged_resolve:
  assumes "synced tx" "staging_resolveState tx w = (tx', out)"
  shows "out = resolveState (st_engine tx) w" "synced tx'"
    "st_engine tx' = st_engine tx \<or> (\<exists>s. st_engine tx' = put_state w s (st_engine tx))"
proof -
  let ?e = "st_engine tx"
  have "out = resolveState ?e w \<and> synced tx' \<and> (st_engine tx' = ?e \<or> (\<exists>s. st_engine tx' = put_state w s ?e))"
  proof (cases "w = '''' \<or> has w (st_workflows tx)")
    case True
    with assms show ?thesis by (auto simp: staging_resolveState_def synced_def split: if_splits)
  next
    case new: False
    show ?thesis
    proof (cases "resolveState ?e w")
      case (Inl x)
      with new assms show ?thesis by (auto simp: staging_resolveState_def synced_def Let_def)
    next
      case (Inr r)
      then obtain s where r: "resolveState ?e w = Inr (s, s \<noteq> None)"
        using assms(1) by (cases r) (auto simp: synced_def truthful_def)
      show ?thesis
      proof (cases s)
        case None
        with r have none: "map_of (en_states ?e) w = None" by (cases "map_of (en_states ?e) w") auto
        then have "\<not> has w (en_states ?e)" by (simp add: has_def)
        with none None r new assms show ?thesis by (auto simp: staging_resolveState_def synced_def Let_def)
      next
        case (Some t)
        have same: "resolveState (put_state w t ?e) = resolveState ?e"
          using r Some by (simp add: fun_eq_iff resolveState_put_state)
        have "synced tx'" if "tx' = tx\<lparr>st_checkpoint := ck, st_engine := put_state w t ?e, st_workflows := put w () (st_workflows tx)\<rparr>" for ck
          using assms(1) r Some unfolding that synced_def keyed_def truthful_def by (auto simp: same)
        with Some r new assms(2) show ?thesis by (auto simp: staging_resolveState_def Let_def)
      qed
    qed
  qed
  then show "out = resolveState (st_engine tx) w" "synced tx'"
    "st_engine tx' = st_engine tx \<or> (\<exists>s. st_engine tx' = put_state w s (st_engine tx))" by blast+
qed

lemma staged_planner: "decideStagedPlan = decidePlan"
proof -
  have "newStagedEventPlan = newEventPlan" by (simp add: newStagedEventPlan_def newEventPlan_def fun_eq_iff)
  then show ?thesis by (intro ext) (simp add: decideStagedPlan_def decidePlan_def)
qed

lemma same_engine_overwritten:
  assumes "engine_ok e"
  shows "same_engine (accepted b t (put_state (cb_WorkflowID b) s e)) (accepted b t e)"
  using assms by (intro same_engineI) (simp_all add: accepted_def)

lemma synced_accepted:
  assumes "synced tx" "wf_ID t = cb_WorkflowID b"
  shows "synced (tx\<lparr>st_engine := accepted b t (st_engine tx)\<rparr>)"
  using assms by (auto simp: synced_def keyed_accepted truthful_def)

text \<open>A command, up to the identifiers that \<^verbatim>\<open>prepareWith\<close> fills in, leads from one state to another.\<close>

definition decided :: "digest \<Rightarrow> Command \<Rightarrow> WorkflowState option \<Rightarrow> WorkflowState \<Rightarrow> bool" where
  "decided H c s t \<longleftrightarrow> (\<exists>c' p. decidePlan H s c' = Inr p \<and> pl_state p = Some t \<and> cmd_Kind c' = cmd_Kind c \<and>
     cmd_Definition c' = cmd_Definition c)"

text \<open>A staged command does to the engine what it would do outside of the transaction.\<close>

lemma staged_step:
  assumes "staging_prepareAndApply H J tx c mat = (tx', Inr (b, r, dup))" "synced tx" "\<And>x. H x \<noteq> []"
  shows "synced tx' \<and> (if dup then st_engine tx' = st_engine tx
    else \<exists>s found t. resolveRequest (st_engine tx) (cb_RequestID b) = Inr None \<and>
      resolveState (st_engine tx) (cb_WorkflowID b) = Inr (s, found) \<and> fits H s b t \<and> wf_ID t = cb_WorkflowID b \<and>
      cb_WorkflowID b = cmd_WorkflowID (normalize_submit H c) \<and> cb_RequestID b = cmd_RequestID c \<and>
      same_engine (st_engine tx') (accepted b t (st_engine tx)) \<and> decided H c s t)"
proof -
  let ?tx = "tx\<lparr>st_checkpoint := ExtendCheckpoint (st_engine tx) '''' (cmd_RequestID c) (st_checkpoint tx)\<rparr>"
  have sync: "synced ?tx" using assms(2) by (simp add: synced_def)
  obtain tx1 out where p: "prepareWith H J (st_engine ?tx) ?tx c staging_resolveState decideStagedPlan mat = (tx1, out)"
    by force
  have "st_open tx" using assms(2) by (simp add: synced_def)
  with assms(1) p obtain n where out: "out = Inr (b, r, dup, n)" and
    apply': "applyPrepared (st_engine tx1) out = (st_engine tx', Inr (b, r, dup))" and
    tx': "tx' = tx1\<lparr>st_engine := st_engine tx'\<rparr>"
    by (auto simp: staging_prepareAndApply_def applyPrepared_def Let_def split: sum.splits prod.splits option.splits if_splits)
  from prepareWith_Inr [OF p [unfolded out] sound_planners(2)]
  consider x where "tx1 = ?tx" "(b, r, dup, n) = answer H J c x"
    | s found c' p where "\<not> blank (cmd_RequestID c)" "resolveRequest (st_engine ?tx) (cmd_RequestID c) = Inr None"
      "staging_resolveState ?tx (cmd_WorkflowID (normalize_submit H c)) = (tx1, Inr (s, found))"
      "normalize_start H s (normalize_submit H c) = Inr c'" "decidePlan H s c' = Inr p" "planned H s p" "pl_events p \<noteq> []"
      "planned_batch H (HashCommand H J c) mat s c' p = (b, r, dup, n)"
    unfolding staged_planner by metis
  then show ?thesis
  proof cases
    case 1
    then have dup: "dup" by (simp add: answer_def)
    with apply' out have e': "st_engine tx' = st_engine tx1" by (simp add: applyPrepared_def)
    with tx' 1(1) have "tx' = ?tx" by simp
    with sync dup show ?thesis by simp
  next
    case 2
    note res = staged_resolve [OF sync 2(3)]
    have at: "resolveState (st_engine tx) (cmd_WorkflowID (normalize_submit H c)) = Inr (s, found)" using res(1) by simp
    have "pred_option (\<lambda>s. wf_ID s = cmd_WorkflowID (normalize_submit H c)) s"
      using assms(2) at by (cases s) (auto simp: synced_def keyed_def)
    from planned_fits [OF 2(1,4-8) this assms(3)] obtain t where t: "n = Some t" "fits H s b t" "wf_ID t = cb_WorkflowID b"
      "cb_WorkflowID b = cmd_WorkflowID (normalize_submit H c)" "cb_RequestID b = cmd_RequestID c" by blast
    have dup: "\<not> dup" using 2(8) by (auto simp: planned_batch_def Let_def)
    have e': "st_engine tx' = accepted b t (st_engine tx1)"
      using apply' applyPrepared_planned [OF 2(6-8), of "st_engine tx1"] t(1) out by auto
    have ok: "engine_ok (st_engine tx)" using assms(2) by (simp add: synced_def)
    have "same_engine (st_engine tx') (accepted b t (st_engine tx))"
      using res(3) same_engine_overwritten [OF ok, of b t] unfolding e' t(4) by auto
    moreover have "synced tx'" using synced_accepted [OF res(2) t(3)] tx' e' by metis
    moreover have "decided H c s t"
      unfolding decided_def
      using 2(5,8) t(1) normalize_start_fields [OF 2(4)]
      by (intro exI [of _ c'] exI [of _ p]) (auto simp: planned_batch_def Let_def)
    ultimately show ?thesis using dup at 2(2) t by auto
  qed
qed

section \<open>Batches\<close>

text \<open>What one command of a batch contributes: nothing when it repeats a request, else one batch of events.\<close>

lemma prepare_command_led:
  assumes "prepare_command H J s retain (tx, u, pb) c = (tx', Inr (u', pb'))" "synced tx" "\<And>x. H x \<noteq> []"
  shows "synced tx' \<and> (\<exists>bs. pb_Batches pb' = pb_Batches pb @ bs \<and> led H (st_engine tx) bs (st_engine tx'))"
proof -
  from assms(1) obtain b r dup where st: "staging_prepareAndApply H J tx c (\<not> retain) = (tx', Inr (b, r, dup))"
    and pb: "pb_Batches pb' = (if dup then pb_Batches pb else pb_Batches pb @ [b])"
    by (cases retain) (auto simp: prepare_command_def Stage_def staging_PrepareAndApply_def bindE_eq_Inr Let_def
        split: sum.splits prod.splits if_splits)
  note step = staged_step [OF st assms(2,3)]
  show ?thesis
  proof (cases dup)
    case True
    with step pb show ?thesis by (auto intro: led_done)
  next
    case False
    with step obtain x found t where f: "resolveRequest (st_engine tx) (cb_RequestID b) = Inr None"
      "resolveState (st_engine tx) (cb_WorkflowID b) = Inr (x, found)" "fits H x b t" "wf_ID t = cb_WorkflowID b"
      "same_engine (st_engine tx') (accepted b t (st_engine tx))" by auto
    have "led H (st_engine tx) [b] (st_engine tx')"
      by (rule led_step [OF f(1-4) led_done [OF same_engine_sym [OF f(5)]]])
    with step False pb show ?thesis by auto
  qed
qed

lemma led_append:
  assumes "led H e bs f" "led H f cs g" "engine_ok e" "engine_ok f"
  shows "led H e (bs @ cs) g"
  using assms
proof (induction rule: led.induct)
  case (led_done e f)
  then show ?case using led_same_engine same_engine_sym by auto
next
  case (led_step e b s found t bs f)
  then have "led H (accepted b t e) (bs @ cs) g" by simp
  with led_step.hyps(1-4) show ?case by (auto intro: led.led_step)
qed

lemma prepare_commands_led:
  assumes "prepare_commands H J s retain (tx, u, pb) cs = (tx', Inr (u', pb'))" "synced tx" "\<And>x. H x \<noteq> []"
  shows "synced tx' \<and> (\<exists>bs. pb_Batches pb' = pb_Batches pb @ bs \<and> led H (st_engine tx) bs (st_engine tx'))"
  using assms(1,2)
proof (induction cs arbitrary: tx u pb)
  case Nil
  then show ?case by (auto intro: led_done)
next
  case (Cons c cs)
  then obtain tx1 u1 pb1 where c: "prepare_command H J s retain (tx, u, pb) c = (tx1, Inr (u1, pb1))"
    and cs: "prepare_commands H J s retain (tx1, u1, pb1) cs = (tx', Inr (u', pb'))"
    by (auto split: prod.splits sum.splits)
  from prepare_command_led [OF c Cons.prems(2) assms(3)] obtain bs where 1: "synced tx1"
    "pb_Batches pb1 = pb_Batches pb @ bs" "led H (st_engine tx) bs (st_engine tx1)" by blast
  from Cons.IH [OF cs 1(1)] obtain bs' where 2: "synced tx'" "pb_Batches pb' = pb_Batches pb1 @ bs'"
    "led H (st_engine tx1) bs' (st_engine tx')" by blast
  have "led H (st_engine tx) (bs @ bs') (st_engine tx')"
    using 1 2 Cons.prems(2) by (intro led_append [OF 1(3) 2(3)]) (simp_all add: synced_def)
  with 1(2) 2(1,2) show ?case by auto
qed

lemma synced_begin: "engine_ok e \<Longrightarrow> keyed e \<Longrightarrow> truthful e \<Longrightarrow> synced (BeginStaging e)"
  by (simp add: synced_def BeginStaging_def)

lemma StageBatch_led:
  assumes "StageBatch H J s e cs = (e', Inr pb)" "engine_ok e" "keyed e" "truthful e" "\<And>x. H x \<noteq> []"
  shows "led H e (pb_Batches pb) e'"
proof -
  obtain u tx u' where p: "prepare_commands H J s True
      (BeginStaging e, u, \<lparr>pb_Batches = [], pb_Immediate = [], pb_Hashes = []\<rparr>) cs = (tx, Inr (u', pb))"
    and e': "e' = st_engine tx"
    using assms(1) by (auto simp: StageBatch_def prepareBatch_def staging_Commit_def Let_def split: sum.splits prod.splits)
  from prepare_commands_led [OF p synced_begin [OF assms(2-4)] assms(5)] e' show ?thesis
    by (simp add: BeginStaging_def)
qed

end
