(* ===== verification/Chronos_Load.thy ===== *)
theory Chronos_Load
  imports Chronos_Scheduler_Laws
begin

text \<open>
  The load of an engine and the limits of the scheduler: the account that \<^verbatim>\<open>prepareBatch\<close> keeps while
  it works through a batch is exact, and admission by it keeps the numbers of active workflows and of
  running tasks within their limits.
\<close>

section \<open>What a command does to the running tasks\<close>

definition working_ids :: "WorkflowState \<Rightarrow> string set" where
  "working_ids s = {i. \<exists>t. task_at s i = Some t \<and> working t}"

lemma finite_working_ids: "finite (working_ids s)"
proof -
  have "working_ids s \<subseteq> fst ` set (wf_Tasks s)"
    by (auto simp: working_ids_def task_at_def dest: map_of_SomeD intro: rev_image_eqI)
  then show ?thesis by (rule finite_subset) simp
qed

text \<open>Only the start of an attempt makes a task work.\<close>

lemma task_step_working:
  assumes "task_step H s e t t'" "task_ok H s i t" "working t'" "ev_Kind e \<noteq> EventTaskStarted"
  shows "working t"
  using assms
  by (cases rule: task_step.cases) (auto simp: working_def task_ok_def status_ok_def in_phase_def widen_fields)

lemma applied_working:
  assumes "applyEvent H s e False = Inr s'" "pred_option (wf_ok H) s" "addressed e"
  shows "working_ids s' \<subseteq> (case s of None \<Rightarrow> {} | Some x \<Rightarrow> working_ids x) \<union>
    (if ev_Kind e = EventTaskStarted then {ev_TaskID e} else {})"
proof (cases s)
  case None
  with assms(1) have "applySubmission e = Inr s'" by (simp add: applyEvent_None)
  then obtain d where "valid_definition d" and
    at: "\<And>i t. task_at s' i = Some t \<longleftrightarrow> (\<exists>x \<in> set (wd_Tasks d). td_ID x = i \<and> t = initial_task x)"
    by (rule applySubmission_Inr) blast
  then have "working_ids s' = {}" by (auto simp: working_ids_def working_def initial_task_def)
  then show ?thesis by simp
next
  case (Some x)
  with assms have ok: "wf_ok H x" and n: "next_state H x e s'" by (auto intro: applyEvent_next_state wf_okD(4))
  have "working t \<or> i = ev_TaskID e \<and> ev_Kind e = EventTaskStarted" if "task_at x i = Some t" "task_step H x e t t'"
      "i = ev_TaskID e \<or> ev_Kind e = EventFanoutExpanded \<and> ts_Status t = TaskPending" "working t'" for i t t'
    using task_step_working [OF that(2) wf_okD(6) [OF ok that(1)] that(4)] that(3) by auto
  moreover have "\<not> working t'" if "fresh_child H x e i t'" for i t'
    using that by (auto simp: fresh_child_def working_def child_state_def widen_fields)
  ultimately show ?thesis
    using Some by (fastforce simp: working_ids_def elim!: next_state_task [OF n])
qed

definition working_within :: "digest \<Rightarrow> string \<Rightarrow> string set \<Rightarrow> eventPlan \<Rightarrow> bool" where
  "working_within H n W p \<longleftrightarrow> pred_option (\<lambda>s. wf_ok H s \<and> wf_Namespace s = n \<and> working_ids s \<subseteq> W) (pl_state p)"

definition starts_within :: "string \<Rightarrow> string set \<Rightarrow> Event \<Rightarrow> bool" where
  "starts_within n W e \<longleftrightarrow> addressed e \<and> (ev_Kind e = EventTaskStarted \<longrightarrow> ev_TaskID e \<in> W) \<and>
     (ev_Kind e = EventWorkflowSubmitted \<longrightarrow> (\<exists>d. ev_Definition e = Some d \<and> wd_Namespace d = n))"

lemma applied_namespace:
  assumes "applyEvent H s e False = Inr s'" "pred_option (wf_ok H) s" "addressed e"
  shows "case s of None \<Rightarrow> \<exists>d. ev_Definition e = Some d \<and> wf_Namespace s' = wd_Namespace d
    | Some x \<Rightarrow> wf_Namespace s' = wf_Namespace x"
proof (cases s)
  case None
  with assms(1) have "applySubmission e = Inr s'" by (simp add: applyEvent_None)
  with None show ?thesis
    by (cases "ev_Definition e") (auto simp: applySubmission_def canonicalDefinition_Some result_simps)
next
  case (Some x)
  with assms have "next_state H x e s'" by (auto intro: applyEvent_next_state wf_okD(4))
  from next_stateD(4) [OF this] Some show ?thesis by (simp add: frame_kept_def)
qed

interpretation idle: steady_plan_invariant H "working_within H n W" "starts_within n W" for H n W
proof unfold_locales
  fix p e q
  assume p: "working_within H n W p" "starts_within n W e" "plan_add H p e = Inr q"
  then obtain s where a: "applyEvent H (pl_state p) (validated_event H p e) False = Inr s" and q: "pl_state q = Some s"
    by (auto simp: plan_add_Inr)
  have e: "addressed (validated_event H p e)" "ev_Kind (validated_event H p e) = ev_Kind e"
    "ev_TaskID (validated_event H p e) = ev_TaskID e" "ev_Definition (validated_event H p e) = ev_Definition e"
    using p(2) by (simp_all add: validated_stamp addressed_def starts_within_def)
  have ok: "pred_option (wf_ok H) (pl_state p)" using p(1) by (cases "pl_state p") (simp_all add: working_within_def)
  with a e have "wf_ok H s" by (cases "pl_state p") (auto intro: wf_ok_first wf_ok_next)
  moreover have "working_ids s \<subseteq> W"
    using applied_working [OF a ok e(1)] p(1,2) e(2,3)
    by (cases "pl_state p") (auto simp: working_within_def starts_within_def split: if_splits)
  moreover have "wf_Namespace s = n"
  proof (cases "pl_state p")
    case None
    with a e(2) have "ev_Kind e = EventWorkflowSubmitted" by (simp add: applyEvent_None)
    with None applied_namespace [OF a ok e(1)] p(2) e(4) show ?thesis by (auto simp: starts_within_def)
  next
    case (Some x)
    with applied_namespace [OF a ok e(1)] p(1) show ?thesis by (simp add: working_within_def)
  qed
  ultimately show "working_within H n W q" using q by (simp add: working_within_def)
qed (simp_all add: starts_within_def)

lemma start_working:
  "working_within H n W (f s) \<Longrightarrow> cmd_TaskID c \<in> W \<Longrightarrow> ensures (decideStart H s c f) (working_within H n W)"
  by (auto simp: decideStart_def wp Let_def starts_within_def intro!: idle.add lookup_calls)

lemma decided_working:
  assumes "decidePlan H s c = Inr p" "pl_state p = Some t" "pred_option (wf_ok H) s"
    and n: "n = (case s of Some x \<Rightarrow> wf_Namespace x
      | None \<Rightarrow> (case cmd_Definition c of Some d \<Rightarrow> wd_Namespace d | None \<Rightarrow> ''''))"
  shows "wf_Namespace t = n \<and> working_ids t \<subseteq> (case s of None \<Rightarrow> {} | Some x \<Rightarrow> working_ids x) \<union>
    (if cmd_Kind c = CommandStart then {cmd_TaskID c} else {})"
proof -
  let ?W = "(case s of None \<Rightarrow> {} | Some x \<Rightarrow> working_ids x) \<union> (if cmd_Kind c = CommandStart then {cmd_TaskID c} else {})"
  have start: "working_within H n ?W (newEventPlan s)"
    using assms(3) n by (cases s) (auto simp: working_within_def newEventPlan_def)
  have "working_within H n ?W p"
  proof (cases "cmd_Kind c = CommandStart")
    case False
    show ?thesis
    proof (cases s)
      case None
      show ?thesis
      proof (rule idle.decideCommand_steady [where f = newEventPlan and s = s and c = c, OF start False])
        show "decideCommand H s c newEventPlan = Inr p" using assms(1) by (simp add: decidePlan_def)
        fix d
        assume d: "canonicalDefinition (cmd_Definition c) = Some d"
        have "wd_Namespace d = n"
        proof (cases "cmd_Definition c")
          case (Some x)
          with d have "wd_Namespace d = wd_Namespace x" by (auto simp: canonicalDefinition_Some)
          then show ?thesis using n Some \<open>s = None\<close> by simp
        qed (use d in \<open>simp add: canonicalDefinition_None\<close>)
        then show "starts_within n ?W (zero_Event\<lparr>ev_Kind := EventWorkflowSubmitted, ev_WorkflowID := cmd_WorkflowID c,
            ev_At := cmd_At c, ev_Definition := Some d\<rparr>)"
          by (simp add: starts_within_def)
      qed
    next
      case (Some x)
      with assms(1) have "cmd_Kind c \<noteq> CommandSubmit"
        by (auto simp: decidePlan_def decideCommand_def decideSubmit_def split: if_splits)
      then have "ensures (decideCommand H s c newEventPlan) (working_within H n ?W)"
        using idle.decides [where f = newEventPlan and s = s and c = c, OF start] False
        by (simp add: decideCommand_def wp split: CommandKind.split)
      then show ?thesis using assms(1) [unfolded decidePlan_def] by (rule ensuresD)
    qed
  next
    case True
    with assms(1) have d: "decideStart H s c newEventPlan = Inr p"
      by (auto simp: decidePlan_def decideCommand_def split: if_splits)
    have "ensures (decideStart H s c newEventPlan) (working_within H n ?W)"
      using start True by (intro start_working) simp_all
    then show ?thesis using d by (rule ensuresD)
  qed
  with assms(2) show ?thesis by (simp add: working_within_def)
qed

section \<open>What a command does to the usage of its workflow\<close>

lemma usage_counts:
  assumes "gomap (wf_Tasks s)"
  shows "wu_Workflows (usage_of s) = (if terminalWorkflow (wf_Status s) then 0 else 1)"
    "wu_Running (usage_of s) = (if terminalWorkflow (wf_Status s) then 0 else int (card (working_ids s)))"
    "wu_Namespace (usage_of s) = wf_Namespace s"
proof -
  let ?run = "filter (\<lambda>(i, t). working t) (wf_Tasks s)"
  have "working_ids s = set (map fst ?run)"
    using assms by (force simp: working_ids_def task_at_def gomap_map_of_iff)
  moreover have "distinct (map fst ?run)" using assms by (simp add: gomap_def distinct_map_filter)
  ultimately have "card (working_ids s) = length ?run" by (metis distinct_card length_map)
  moreover have "length (filter working (map snd (wf_Tasks s))) = length ?run"
    by (simp add: filter_map o_def split_def)
  ultimately show "wu_Running (usage_of s) = (if terminalWorkflow (wf_Status s) then 0 else int (card (working_ids s)))"
    "wu_Workflows (usage_of s) = (if terminalWorkflow (wf_Status s) then 0 else 1)"
    "wu_Namespace (usage_of s) = wf_Namespace s"
    by (simp_all add: usage_of_def use_tasks zero_WorkflowUsage_def Let_def)
qed

text \<open>A workflow that the engine may hold between commands.\<close>

definition resident_ok :: "digest \<Rightarrow> WorkflowState \<Rightarrow> bool" where
  "resident_ok H s \<longleftrightarrow> wf_ok H s \<and> rests s"

lemma decided_usage:
  assumes "decided H c s t" "pred_option (resident_ok H) s"
  shows "resident_ok H t"
    "s = None \<Longrightarrow> cmd_Kind c = CommandSubmit \<and> wu_Running (usage_of t) = 0 \<and>
       (\<exists>d. cmd_Definition c = Some d \<and> wf_Namespace t = wd_Namespace d)"
    "s = Some x \<Longrightarrow> cmd_Kind c \<noteq> CommandSubmit \<and> \<not> terminalWorkflow (wf_Status x) \<and> wf_Namespace t = wf_Namespace x \<and>
       wu_Running (usage_of t) \<le> wu_Running (usage_of x) + (if cmd_Kind c = CommandStart then 1 else 0)"
proof -
  from assms(1) obtain c' p where p: "decidePlan H s c' = Inr p" "pl_state p = Some t" "cmd_Kind c' = cmd_Kind c"
    "cmd_Definition c' = cmd_Definition c" by (auto simp: decided_def)
  have pl: "planned H s p" using p(1) planned_decideCommand [of newEventPlan] by (simp add: decidePlan_def factory_def)
  have ok: "pred_option (wf_ok H) s" using assms(2) by (cases s) (simp_all add: resident_ok_def)
  have "pred_option (\<lambda>s. wf_ok H s \<and> rests s) (pl_state p)"
    using assms(2) by (intro resting.I_plan [OF pl p(1)]) (cases s, simp_all add: resident_ok_def)
  then show t: "resident_ok H t" using p(2) by (simp add: resident_ok_def)
  then have g: "gomap (wf_Tasks t)" using wf_okD(4) by (auto simp: resident_ok_def)
  note w = decided_working [OF p(1,2) ok refl]
  show "cmd_Kind c = CommandSubmit \<and> wu_Running (usage_of t) = 0 \<and>
       (\<exists>d. cmd_Definition c = Some d \<and> wf_Namespace t = wd_Namespace d)" if s: "s = None"
  proof -
    have kind: "cmd_Kind c' = CommandSubmit"
      using p(1) s by (auto simp: decidePlan_def decideCommand_def decide_defs leasedTask_def activeTask_def
          split: CommandKind.splits if_splits)
    with w s p(3) have "working_ids t = {}" by simp
    moreover have "\<exists>d. cmd_Definition c' = Some d"
      using p(1) s kind by (cases "cmd_Definition c'")
        (auto simp: decidePlan_def decideCommand_def decideSubmit_def ValidateDefinition_def split: if_splits)
    then have "\<exists>d. cmd_Definition c = Some d \<and> wf_Namespace t = wd_Namespace d" using w s p(4) by auto
    ultimately show ?thesis using kind p(3) by (simp add: usage_counts [OF g])
  qed
  show "cmd_Kind c \<noteq> CommandSubmit \<and> \<not> terminalWorkflow (wf_Status x) \<and> wf_Namespace t = wf_Namespace x \<and>
       wu_Running (usage_of t) \<le> wu_Running (usage_of x) + (if cmd_Kind c = CommandStart then 1 else 0)" if s: "s = Some x"
  proof -
    have x: "wf_ok H x" "rests x" using assms(2) s by (simp_all add: resident_ok_def)
    have open': "\<not> terminalWorkflow (wf_Status x)"
      using ended_rejects [of x H c' newEventPlan] x p(1) s wf_okD(5) [OF x(1)]
      by (auto simp: rests_def concluded_def decidePlan_def)
    have kind: "cmd_Kind c' \<noteq> CommandSubmit"
      using p(1) s by (auto simp: decidePlan_def decideCommand_def decideSubmit_def split: if_splits)
    have "card (working_ids t) \<le> card (working_ids x \<union> (if cmd_Kind c' = CommandStart then {cmd_TaskID c'} else {}))"
      using w s finite_working_ids by (intro card_mono) auto
    also have "\<dots> \<le> card (working_ids x) + (if cmd_Kind c' = CommandStart then 1 else 0)"
      using card_Un_le [of "working_ids x" "{cmd_TaskID c'}"] by simp
    finally have "int (card (working_ids t)) \<le> int (card (working_ids x)) + (if cmd_Kind c = CommandStart then 1 else 0)"
      using p(3) by (simp split: if_splits)
    with open' kind p(3) w s show ?thesis
      by (simp add: usage_counts g wf_okD(4) [OF x(1)])
  qed
qed

section \<open>The account is exact\<close>

text \<open>A quantity summed over the workflows of an engine.\<close>

definition over :: "Engine \<Rightarrow> (WorkflowState \<Rightarrow> int) \<Rightarrow> int" where
  "over e f = (\<Sum>i \<in> dom (map_of (en_states e)). f (the (map_of (en_states e) i)))"

lemma over_cong: "map_of (en_states e) = map_of (en_states e') \<Longrightarrow> over e f = over e' f"
  by (simp add: over_def)

lemma over_accepted:
  "over (accepted b t e) f =
     over e f - (case map_of (en_states e) (cb_WorkflowID b) of None \<Rightarrow> 0 | Some x \<Rightarrow> f x) + f t"
proof -
  let ?m = "map_of (en_states e)" and ?w = "cb_WorkflowID b"
  have rest: "(\<Sum>i \<in> dom ?m - {?w}. f (the ((?m(?w \<mapsto> t)) i))) = (\<Sum>i \<in> dom ?m - {?w}. f (the (?m i)))"
    by (intro sum.cong) auto
  have "over (accepted b t e) f = f t + (\<Sum>i \<in> dom ?m - {?w}. f (the (?m i)))"
    unfolding over_def by (simp add: sum.insert_remove finite_dom_map_of rest)
  moreover have "over e f = (case ?m ?w of None \<Rightarrow> 0 | Some x \<Rightarrow> f x) + (\<Sum>i \<in> dom ?m - {?w}. f (the (?m i)))"
  proof (cases "?m ?w")
    case None
    then have "?w \<notin> dom ?m" by auto
    with None show ?thesis by (simp add: over_def)
  next
    case (Some x)
    then have "?w \<in> dom ?m" by blast
    with Some show ?thesis by (simp add: over_def sum.remove finite_dom_map_of)
  qed
  ultimately show ?thesis by simp
qed

text \<open>Each figure of the account, in total, per namespace and per workflow.\<close>

definition meters :: "((usage \<Rightarrow> int) \<times> (NamespaceStats \<Rightarrow> int) \<times> (WorkflowUsage \<Rightarrow> int)) set" where
  "meters = {(us_workflows, ns_Workflows, wu_Workflows), (us_tasks, ns_Tasks, wu_Tasks),
     (us_ready, ns_Ready, wu_Ready), (us_running, ns_Running, wu_Running)}"

definition tallied :: "usage \<Rightarrow> Engine \<Rightarrow> bool" where
  "tallied u e \<longleftrightarrow> (\<forall>(tot, ns, wu) \<in> meters. tot u = over e (\<lambda>s. wu (usage_of s)) \<and>
     (\<forall>n. ns (namespace_of u n) = over e (\<lambda>s. if wf_Namespace s = n then wu (usage_of s) else 0)))"

lemma account_meter:
  assumes "(tot, ns, wu) \<in> meters"
  shows "tot (accountWorkflow u w d) = tot u + (if wu_Workflows w = 0 then 0 else wu w * d)"
    "ns (namespace_of (accountWorkflow u w d) n) =
       ns (namespace_of u n) + (if wu_Workflows w = 0 \<or> wu_Namespace w \<noteq> n then 0 else wu w * d)"
  using assms by (auto simp: meters_def accountWorkflow_def on_namespace_def namespace_of_def)

lemma usage_namespace: "wu_Namespace (usage_of s) = wf_Namespace s"
  by (simp add: usage_of_def use_tasks zero_WorkflowUsage_def Let_def)

lemma usage_ended:
  assumes "wu_Workflows (usage_of s) = 0" "(tot, ns, wu) \<in> meters"
  shows "wu (usage_of s) = 0"
  using assms by (auto simp: meters_def usage_of_def use_tasks zero_WorkflowUsage_def Let_def split: if_splits)

lemma account_usage:
  assumes "(tot, ns, wu) \<in> meters"
  shows "tot (accountWorkflow u (usage_of s) d) = tot u + wu (usage_of s) * d"
    "ns (namespace_of (accountWorkflow u (usage_of s) d) n) =
       ns (namespace_of u n) + (if wf_Namespace s = n then wu (usage_of s) else 0) * d"
  using account_meter [OF assms] usage_ended [OF _ assms] by (simp_all add: usage_namespace)

lemma account_zero: "accountWorkflow u zero_WorkflowUsage d = u"
  by (simp add: accountWorkflow_def zero_WorkflowUsage_def)

lemma inspect_tallied:
  assumes "engine_ok e" "inspect e None = Inr u"
  shows "tallied u e"
proof -
  let ?m = "map_of (en_states e)" and ?ids = "ActiveWorkflowIDs e"
  have ids: "distinct ?ids" "set ?ids = {i. \<exists>s. ?m i = Some s \<and> \<not> terminalWorkflow (wf_Status s)}"
  proof -
    show "distinct ?ids" using assms(1) by (simp add: ActiveWorkflowIDs_def engine_ok_def gomap_def)
    have "set ?ids = {i. has i (en_active e)}" by (auto simp: ActiveWorkflowIDs_def has_iff_keys)
    then show "set ?ids = {i. \<exists>s. ?m i = Some s \<and> \<not> terminalWorkflow (wf_Status s)}"
      using assms(1) by (simp add: engine_ok_def)
  qed
  have active: "account_active e i v = accountWorkflow v (usage_of (the (?m i))) 1" if "i \<in> set ?ids" for i v
    using that ids(2) by (auto simp: account_active_def Engine_WorkflowUsage_def)
  have u: "u = fold (account_active e) ?ids zero_usage" using assms(2) by (simp add: inspect_def)
  have sum: "(\<Sum>i \<leftarrow> ?ids. f (the (?m i))) = over e f" if "\<And>s. terminalWorkflow (wf_Status s) \<Longrightarrow> f s = 0" for f :: "WorkflowState \<Rightarrow> int"
  proof -
    have "(\<Sum>i \<leftarrow> ?ids. f (the (?m i))) = (\<Sum>i \<in> set ?ids. f (the (?m i)))"
      using ids(1) by (simp add: sum_list_distinct_conv_sum_set)
    also have "\<dots> = over e f"
      unfolding over_def ids(2) using that by (intro sum.mono_neutral_left) (auto simp: finite_dom_map_of)
    finally show ?thesis .
  qed
  show ?thesis unfolding tallied_def
  proof (safe)
    fix tot ns wu n
    assume m: "(tot, ns, wu) \<in> meters"
    have "tot (fold (account_active e) xs v) = tot v + (\<Sum>i \<leftarrow> xs. wu (usage_of (the (?m i)))) \<and>
        ns (namespace_of (fold (account_active e) xs v) n) =
          ns (namespace_of v n) + (\<Sum>i \<leftarrow> xs. if wf_Namespace (the (?m i)) = n then wu (usage_of (the (?m i))) else 0)"
      if "set xs \<subseteq> set ?ids" for xs v
      using that by (induction xs arbitrary: v) (simp_all add: active account_usage [OF m])
    from this [of ?ids zero_usage]
    have t: "tot u = (\<Sum>i \<leftarrow> ?ids. wu (usage_of (the (?m i))))"
      "ns (namespace_of u n) = (\<Sum>i \<leftarrow> ?ids. if wf_Namespace (the (?m i)) = n then wu (usage_of (the (?m i))) else 0)"
      using m by (auto simp: u meters_def zero_usage_def namespace_of_def or_zero_def zero_NamespaceStats_def)
    have zero: "wu (usage_of s) = 0" if "terminalWorkflow (wf_Status s)" for s
      using that by (intro usage_ended [OF _ m]) (simp add: usage_of_def zero_WorkflowUsage_def Let_def)
    show "tot u = over e (\<lambda>s. wu (usage_of s))"
      "ns (namespace_of u n) = over e (\<lambda>s. if wf_Namespace s = n then wu (usage_of s) else 0)"
      using t sum [of "\<lambda>s. wu (usage_of s)"] sum [of "\<lambda>s. if wf_Namespace s = n then wu (usage_of s) else 0"] zero by auto
  qed
qed

section \<open>Admission keeps the limits\<close>

text \<open>
  What the engine serves: workflows in the state in which a command left them; a loader is asked only
  for workflows that have ended.
\<close>

definition served :: "digest \<Rightarrow> Engine \<Rightarrow> bool" where
  "served H e \<longleftrightarrow> (\<forall>w s found. resolveState e w = Inr (Some s, found) \<longrightarrow>
     resident_ok H s \<and> (has w (en_states e) \<or> terminalWorkflow (wf_Status s)))"

definition within :: "Scheduler \<Rightarrow> usage \<Rightarrow> bool" where
  "within s u \<longleftrightarrow> us_workflows u \<le> lm_Workflows (cf_Global (sc_config s)) \<and>
     us_running u \<le> lm_Running (cf_Global (sc_config s)) \<and>
     (\<forall>n. ns_Workflows (namespace_of u n) \<le> lm_Workflows (nc_Limits (namespaceConfig s n)) \<and>
          ns_Running (namespace_of u n) \<le> lm_Running (nc_Limits (namespaceConfig s n)))"

lemma served_cong:
  assumes "same_engine e f"
  shows "served H e = served H f"
proof -
  have "has w (en_states e) = has w (en_states f)" for w using assms by (simp add: same_engine_def has_def)
  then show ?thesis by (simp add: served_def resolve_same_engine [OF assms])
qed

lemma served_accepted: "served H e \<Longrightarrow> resident_ok H t \<Longrightarrow> served H (accepted b t e)"
  by (auto simp: served_def)

lemma workflow_id: "submit_workflow_id H c = cmd_WorkflowID (normalize_submit H c)"
  by (cases "cmd_Definition c") (simp_all add: submit_workflow_id_def normalize_submit_def)

lemma checkAdmission_Inr:
  "checkAdmission s u (Some d) = Inr () \<Longrightarrow>
     us_workflows u + 1 \<le> lm_Workflows (cf_Global (sc_config s)) \<and>
     ns_Workflows (namespace_of u (wd_Namespace d)) + 1 \<le> lm_Workflows (nc_Limits (namespaceConfig s (wd_Namespace d)))"
  by (auto simp: checkAdmission_def Let_def not_less split: if_splits)

lemma checkRunning_Inr:
  "checkRunning s u n = Inr () \<Longrightarrow>
     us_running u + 1 \<le> lm_Running (cf_Global (sc_config s)) \<and>
     ns_Running (namespace_of u n) + 1 \<le> lm_Running (nc_Limits (namespaceConfig s n))"
  by (auto simp: checkRunning_def Let_def not_less split: if_splits)

text \<open>The usage before a command: that of the workflow it names, if there is one.\<close>

definition usage_before :: "WorkflowState option \<Rightarrow> WorkflowUsage" where
  "usage_before s = (case s of None \<Rightarrow> zero_WorkflowUsage | Some x \<Rightarrow> usage_of x)"

lemma tallied_step:
  assumes "tallied u e" "served H e" "resolveState e (cb_WorkflowID b) = Inr (s, found)"
    and "case s of None \<Rightarrow> True | Some x \<Rightarrow> \<not> terminalWorkflow (wf_Status x)" "same_engine f (accepted b t e)"
  shows "tallied (accountWorkflow (accountWorkflow u (usage_before s) (- 1)) (usage_of t) 1) f"
proof -
  let ?w = "cb_WorkflowID b"
  have at: "map_of (en_states e) ?w = s"
  proof (cases s)
    case None
    with assms(3) show ?thesis by (cases "map_of (en_states e) ?w") auto
  next
    case (Some x)
    with assms(2-4) have "has ?w (en_states e)" by (auto simp: served_def)
    with assms(3) show ?thesis by (auto simp: has_def)
  qed
  have f: "over f g = over e g - (case s of None \<Rightarrow> 0 | Some x \<Rightarrow> g x) + g t" for g
    using over_cong [of f "accepted b t e" g] assms(5) over_accepted [of b t e g] at by (simp add: same_engine_def)
  show ?thesis unfolding tallied_def
  proof safe
    fix tot ns wu n
    assume m: "(tot, ns, wu) \<in> meters"
    have "tot u = over e (\<lambda>s. wu (usage_of s))"
      "ns (namespace_of u n) = over e (\<lambda>s. if wf_Namespace s = n then wu (usage_of s) else 0)"
      using assms(1) m by (auto simp: tallied_def)
    then show "tot (accountWorkflow (accountWorkflow u (usage_before s) (- 1)) (usage_of t) 1) = over f (\<lambda>s. wu (usage_of s))"
      "ns (namespace_of (accountWorkflow (accountWorkflow u (usage_before s) (- 1)) (usage_of t) 1) n) =
         over f (\<lambda>s. if wf_Namespace s = n then wu (usage_of s) else 0)"
      by (cases s; simp add: account_usage [OF m] account_zero usage_before_def f)+
  qed
qed

lemma within_step:
  assumes "within s u" "decided H c st t" "pred_option (resident_ok H) st"
    and "admit s u c (usage_before st) (st \<noteq> None) = Inr ()"
  shows "within s (accountWorkflow (accountWorkflow u (usage_before st) (- 1)) (usage_of t) 1)"
proof -
  let ?u = "accountWorkflow (accountWorkflow u (usage_before st) (- 1)) (usage_of t) 1"
  have m: "(us_workflows, ns_Workflows, wu_Workflows) \<in> meters" "(us_running, ns_Running, wu_Running) \<in> meters"
    by (simp_all add: meters_def)
  note d = decided_usage [OF assms(2,3)]
  have t: "gomap (wf_Tasks t)" using d(1) wf_okD(4) by (auto simp: resident_ok_def)
  show ?thesis
  proof (cases st)
    case None
    with d(2) obtain def where c: "cmd_Kind c = CommandSubmit" "wu_Running (usage_of t) = 0" "cmd_Definition c = Some def"
      "wf_Namespace t = wd_Namespace def" by blast
    with assms(4) have "checkAdmission s u (Some def) = Inr ()" by (auto simp: admit_def bindE_eq_Inr)
    from checkAdmission_Inr [OF this] assms(1) c usage_counts(1) [OF t] show ?thesis
      by (auto simp: within_def None usage_before_def account_zero account_usage [OF m(1)] account_usage [OF m(2)])
  next
    case (Some x)
    have x: "gomap (wf_Tasks x)" using assms(3) Some wf_okD(4) by (auto simp: resident_ok_def)
    from d(3) [OF Some] have c: "\<not> terminalWorkflow (wf_Status x)" "wf_Namespace t = wf_Namespace x"
      "wu_Running (usage_of t) \<le> wu_Running (usage_of x) + (if cmd_Kind c = CommandStart then 1 else 0)" by auto
    have w: "wu_Workflows (usage_of t) \<le> wu_Workflows (usage_of x)" using usage_counts(1) [OF t] usage_counts(1) [OF x] c(1) by simp
    have "cmd_Kind c = CommandStart \<Longrightarrow> checkRunning s u (wf_Namespace x) = Inr ()"
      using assms(4) Some by (auto simp: admit_def bindE_eq_Inr usage_before_def usage_namespace)
    with checkRunning_Inr have run: "us_running u + (if cmd_Kind c = CommandStart then 1 else 0) \<le> lm_Running (cf_Global (sc_config s))"
      "ns_Running (namespace_of u n) + (if cmd_Kind c = CommandStart \<and> wf_Namespace x = n then 1 else 0)
         \<le> lm_Running (nc_Limits (namespaceConfig s n))" for n
      using assms(1) by (fastforce simp: within_def)+
    have flows: "us_workflows u \<le> lm_Workflows (cf_Global (sc_config s))"
      "ns_Workflows (namespace_of u n) \<le> lm_Workflows (nc_Limits (namespaceConfig s n))" for n
      using assms(1) by (simp_all add: within_def)
    have fields: "us_workflows ?u = us_workflows u - wu_Workflows (usage_of x) + wu_Workflows (usage_of t)"
      "us_running ?u = us_running u - wu_Running (usage_of x) + wu_Running (usage_of t)"
      "ns_Workflows (namespace_of ?u n) = ns_Workflows (namespace_of u n) +
         (if wf_Namespace x = n then wu_Workflows (usage_of t) - wu_Workflows (usage_of x) else 0)"
      "ns_Running (namespace_of ?u n) = ns_Running (namespace_of u n) +
         (if wf_Namespace x = n then wu_Running (usage_of t) - wu_Running (usage_of x) else 0)" for n
      using c(2) by (simp_all add: Some usage_before_def account_usage [OF m(1)] account_usage [OF m(2)])
    show ?thesis unfolding within_def
    proof (intro conjI allI)
      show "us_workflows ?u \<le> lm_Workflows (cf_Global (sc_config s))" using fields(1) flows(1) w by linarith
      show "us_running ?u \<le> lm_Running (cf_Global (sc_config s))" using fields(2) run(1) c(3) by linarith
      show "ns_Workflows (namespace_of ?u n) \<le> lm_Workflows (nc_Limits (namespaceConfig s n))" for n
        using fields(3) [of n] flows(2) [of n] w by (simp split: if_splits)
      show "ns_Running (namespace_of ?u n) \<le> lm_Running (nc_Limits (namespaceConfig s n))" for n
        using fields(4) [of n] run(2) [of n] c(3) by (simp split: if_splits)
    qed
  qed
qed

text \<open>The state of a batch while it is worked through.\<close>

definition batch_ok :: "digest \<Rightarrow> Scheduler \<Rightarrow> StagingTransaction \<Rightarrow> usage \<Rightarrow> bool" where
  "batch_ok H s tx u \<longleftrightarrow> synced tx \<and> served H (st_engine tx) \<and> tallied u (st_engine tx) \<and> within s u"

lemma prepare_command_load:
  assumes "prepare_command H J s retain (tx, u, pb) c = (tx', Inr (u', pb'))" "batch_ok H s tx u" "\<And>x. H x \<noteq> []"
  shows "batch_ok H s tx' u'"
proof -
  let ?e = "st_engine tx"
  have sync: "synced tx" and served: "served H ?e" and tally: "tallied u ?e" and limits: "within s u"
    using assms(2) by (simp_all add: batch_ok_def)
  from assms(1) obtain before found b r dup where
    before: "Engine_WorkflowUsage ?e (submit_workflow_id H c) = Inr (before, found)" and
    st: "staging_prepareAndApply H J tx c (\<not> retain) = (tx', Inr (b, r, dup))" and
    new: "dup \<longrightarrow> u' = u" "\<not> dup \<longrightarrow> admit s u c before found = Inr () \<and>
      (\<exists>after x. Engine_WorkflowUsage (st_engine tx') (cb_WorkflowID b) = Inr (after, x) \<and>
         u' = accountWorkflow (accountWorkflow u before (- 1)) after 1)"
    by (cases retain) (auto simp: prepare_command_def Stage_def staging_PrepareAndApply_def bindE_eq_Inr as_core_def Let_def
        split: sum.splits prod.splits if_splits)
  note step = staged_step [OF st sync assms(3)]
  show ?thesis
  proof (cases dup)
    case True
    with step new(1) assms(2) show ?thesis by (simp add: batch_ok_def)
  next
    case False
    with step obtain w known t where w: "resolveState ?e (cb_WorkflowID b) = Inr (w, known)"
      "cb_WorkflowID b = cmd_WorkflowID (normalize_submit H c)" "same_engine (st_engine tx') (accepted b t ?e)"
      "decided H c w t" by auto
    have ok: "pred_option (resident_ok H) w" using served w(1) by (cases w) (auto simp: served_def)
    have "known = (w \<noteq> None)" using sync w(1) by (auto simp: synced_def truthful_def)
    with before w(1,2) have b: "before = usage_before w" "found = (w \<noteq> None)"
      by (cases w; auto simp: Engine_WorkflowUsage_def workflow_id usage_before_def)+
    have "resolveState (st_engine tx') (cb_WorkflowID b) = Inr (Some t, True)" using resolve_same_engine [OF w(3)] by simp
    with new(2) False b have u': "u' = accountWorkflow (accountWorkflow u (usage_before w) (- 1)) (usage_of t) 1"
      and adm: "admit s u c (usage_before w) (w \<noteq> None) = Inr ()"
      by (auto simp: Engine_WorkflowUsage_def)
    have "case w of None \<Rightarrow> True | Some x \<Rightarrow> \<not> terminalWorkflow (wf_Status x)"
      using decided_usage(3) [OF w(4) ok] by (cases w) simp_all
    then have "tallied u' (st_engine tx')" unfolding u' by (rule tallied_step [OF tally served w(1) _ w(3)])
    moreover have "within s u'" unfolding u' by (rule within_step [OF limits w(4) ok adm])
    moreover have "served H (st_engine tx')"
      using served_cong [OF w(3)] served_accepted [OF served decided_usage(1) [OF w(4) ok]] by simp
    ultimately show ?thesis using step by (simp add: batch_ok_def)
  qed
qed

lemma prepare_commands_load:
  assumes "prepare_commands H J s retain (tx, u, pb) cs = (tx', Inr (u', pb'))" "batch_ok H s tx u" "\<And>x. H x \<noteq> []"
  shows "batch_ok H s tx' u'"
  using assms(1,2)
proof (induction cs arbitrary: tx u pb)
  case (Cons c cs)
  then obtain tx1 u1 pb1 where c: "prepare_command H J s retain (tx, u, pb) c = (tx1, Inr (u1, pb1))"
    and cs: "prepare_commands H J s retain (tx1, u1, pb1) cs = (tx', Inr (u', pb'))"
    by (auto split: prod.splits sum.splits)
  from Cons.IH [OF cs prepare_command_load [OF c Cons.prems(2) assms(3)]] show ?case .
qed simp

lemma within_tallied:
  assumes "tallied u e" "tallied v e" "within s u"
  shows "within s v"
proof -
  have same: "tot u = tot v" "ns (namespace_of u n) = ns (namespace_of v n)" if "(tot, ns, wu) \<in> meters" for tot ns wu n
    using assms(1,2) that by (fastforce simp: tallied_def)+
  have "(us_workflows, ns_Workflows, wu_Workflows) \<in> meters" "(us_running, ns_Running, wu_Running) \<in> meters"
    by (simp_all add: meters_def)
  from same [OF this(1)] same [OF this(2)] assms(3) show ?thesis by (simp add: within_def)
qed

lemma StageBatch_within:
  assumes "StageBatch H J s e cs = (e', Inr pb)" "engine_ok e" "keyed e" "truthful e" "served H e" "\<And>x. H x \<noteq> []"
    and "inspect e None = Inr u" "within s u"
  shows "\<exists>u'. inspect e' None = Inr u' \<and> within s u'"
proof -
  obtain tx u' where p: "prepare_commands H J s True
      (BeginStaging e, u, \<lparr>pb_Batches = [], pb_Immediate = [], pb_Hashes = []\<rparr>) cs = (tx, Inr (u', pb))"
    and e': "e' = st_engine tx"
    using assms(1,7) by (auto simp: StageBatch_def prepareBatch_def staging_Commit_def Let_def split: sum.splits prod.splits)
  have "batch_ok H s (BeginStaging e) u"
    using assms synced_begin inspect_tallied [OF assms(2,7)] by (simp add: batch_ok_def BeginStaging_def)
  from prepare_commands_load [OF p this assms(6)]
  have b: "engine_ok e'" "tallied u' e'" "within s u'" by (simp_all add: batch_ok_def synced_def e')
  obtain v where v: "inspect e' None = Inr v" by (simp add: inspect_def)
  from within_tallied [OF b(2) inspect_tallied [OF b(1) v] b(3)] v show ?thesis by blast
qed

end
