(* ===== verification/Chronos_Fairness.thy ===== *)
theory Chronos_Fairness
  imports Chronos_Scheduler
begin

text \<open>
  Fairness of \<^verbatim>\<open>Scheduler.Plan\<close> and \<^verbatim>\<open>Scheduler.Commit\<close>. The arithmetic of smooth weighted round robin is
  proved once, for any rule that picks a member of greatest credit; the scheduler's turn is then
  shown to be such a rule, free of overflow.
\<close>

section \<open>Smooth weighted round robin\<close>

text \<open>
  A configuration names the members that compete and their weights. In a turn every member gains its
  weight, the member picked pays the sum of all weights.
\<close>

locale rotation =
  fixes fit :: "'c \<Rightarrow> bool" and members :: "'c \<Rightarrow> 'n list" and weight :: "'c \<Rightarrow> 'n \<Rightarrow> int"
    and pick :: "'c \<Rightarrow> ('n \<Rightarrow> int) \<Rightarrow> 'n"
  assumes fit_members: "fit c \<Longrightarrow> distinct (members c) \<and> members c \<noteq> []"
    and fit_weight: "fit c \<Longrightarrow> n \<in> set (members c) \<Longrightarrow> 1 \<le> weight c n"
    and heaviest: "fit c \<Longrightarrow> pick c f \<in> set (members c) \<and>
      (\<forall>n \<in> set (members c). f n + weight c n \<le> f (pick c f) + weight c (pick c f))"
begin

definition all_weights :: "'c \<Rightarrow> int" where
  "all_weights c = (\<Sum>n \<in> set (members c). weight c n)"

definition turn :: "'c \<Rightarrow> ('n \<Rightarrow> int) \<Rightarrow> 'n \<Rightarrow> int" where
  "turn c f n = (if n \<in> set (members c) then f n + weight c n - (if n = pick c f then all_weights c else 0) else 0)"

fun picks :: "'c \<Rightarrow> ('n \<Rightarrow> int) \<Rightarrow> nat \<Rightarrow> 'n list" where
  "picks c f 0 = []"
| "picks c f (Suc m) = pick c f # picks c (turn c f) m"

fun credit :: "'c \<Rightarrow> ('n \<Rightarrow> int) \<Rightarrow> nat \<Rightarrow> 'n \<Rightarrow> int" where
  "credit c f 0 = f"
| "credit c f (Suc m) = credit c (turn c f) m"

text \<open>Credits sum to zero, and no member is in debt for a whole round.\<close>

definition balanced :: "'c \<Rightarrow> ('n \<Rightarrow> int) \<Rightarrow> bool" where
  "balanced c f \<longleftrightarrow> (\<Sum>n \<in> set (members c). f n) = 0 \<and> (\<forall>n \<in> set (members c). - all_weights c < f n)"

lemma all_weights_pos:
  assumes "fit c"
  shows "0 < all_weights c"
proof -
  have "0 < weight c n" if "n \<in> set (members c)" for n using fit_weight [OF assms that] by simp
  then show ?thesis unfolding all_weights_def using fit_members [OF assms] by (intro sum_pos) auto
qed

lemma balanced_turn:
  assumes "fit c" "balanced c f"
  shows "balanced c (turn c f)" "0 < f (pick c f) + weight c (pick c f)"
proof -
  let ?M = "set (members c)" and ?W = "all_weights c" and ?p = "pick c f"
  from heaviest [OF assms(1)] have p: "?p \<in> ?M" "\<forall>n \<in> ?M. f n + weight c n \<le> f ?p + weight c ?p" by blast+
  have total: "(\<Sum>n \<in> ?M. f n + weight c n) = ?W"
    using assms(2) by (simp add: balanced_def sum.distrib all_weights_def)
  show pos: "0 < f ?p + weight c ?p"
  proof (rule ccontr)
    assume "\<not> 0 < f ?p + weight c ?p"
    with p(2) have "(\<Sum>n \<in> ?M. f n + weight c n) \<le> 0" by (intro sum_nonpos) force
    with total all_weights_pos [OF assms(1)] show False by simp
  qed
  have "(\<Sum>n \<in> ?M. turn c f n) = (\<Sum>n \<in> ?M. f n + weight c n) - (\<Sum>n \<in> ?M. if n = ?p then ?W else 0)"
    by (simp add: turn_def sum_subtractf)
  also have "\<dots> = 0" using p(1) total by simp
  finally have "(\<Sum>n \<in> ?M. turn c f n) = 0" .
  moreover have "- ?W < turn c f n" if "n \<in> ?M" for n
    using that pos assms fit_weight [OF assms(1) that] by (auto simp: turn_def balanced_def)
  ultimately show "balanced c (turn c f)" by (simp add: balanced_def)
qed

lemma balanced_credit: "fit c \<Longrightarrow> balanced c f \<Longrightarrow> balanced c (credit c f m)"
  by (induction m arbitrary: f) (simp_all add: balanced_turn)

lemma length_picks: "length (picks c f m) = m"
  by (induction m arbitrary: f) simp_all

lemma credit_picks:
  "n \<in> set (members c) \<Longrightarrow>
   credit c f m n = f n + int m * weight c n - all_weights c * int (count_list (picks c f m) n)"
  by (induction m arbitrary: f) (auto simp: turn_def algebra_simps)

text \<open>A balanced credit is also bounded above: what one member has gained the others owe.\<close>

lemma balanced_upper:
  assumes "fit c" "balanced c f" "n \<in> set (members c)"
  shows "f n \<le> int (length (members c) - 1) * (all_weights c - 1)"
proof -
  let ?M = "set (members c)" and ?W = "all_weights c"
  have "f n = - (\<Sum>k \<in> ?M - {n}. f k)"
    using assms(2,3) by (simp add: balanced_def sum.remove [of ?M n])
  also have "\<dots> \<le> (\<Sum>k \<in> ?M - {n}. ?W - 1)"
    unfolding sum_negf [symmetric] using assms(2) by (intro sum_mono) (force simp: balanced_def)
  also have "\<dots> = int (length (members c) - 1) * (?W - 1)"
    using assms(1,3) fit_members by (simp add: distinct_card)
  finally show ?thesis .
qed

text \<open>
  From zero credits, after any number of turns the share of each member is within a bounded number of
  turns of its proportional share, and after a full round it is exact.
\<close>

lemma fair_share:
  assumes "fit c" "n \<in> set (members c)"
  shows "all_weights c * int (count_list (picks c (\<lambda>_. 0) m) n) < int m * weight c n + all_weights c"
    "int m * weight c n < all_weights c * (int (count_list (picks c (\<lambda>_. 0) m) n) + int (length (members c)))"
proof -
  have b: "balanced c (credit c (\<lambda>_. 0) m)"
    using assms(1) all_weights_pos by (intro balanced_credit) (auto simp: balanced_def)
  have e: "credit c (\<lambda>_. 0) m n = int m * weight c n - all_weights c * int (count_list (picks c (\<lambda>_. 0) m) n)"
    using credit_picks [OF assms(2), of "\<lambda>_. 0" m] by simp
  from b assms(2) have "- all_weights c < credit c (\<lambda>_. 0) m n" by (simp add: balanced_def)
  with e show "all_weights c * int (count_list (picks c (\<lambda>_. 0) m) n) < int m * weight c n + all_weights c" by simp
  have k: "0 < length (members c)" using fit_members [OF assms(1)] by simp
  have "credit c (\<lambda>_. 0) m n \<le> int (length (members c) - 1) * (all_weights c - 1)"
    by (rule balanced_upper [OF assms(1) b assms(2)])
  also have "\<dots> \<le> int (length (members c) - 1) * all_weights c" by (intro mult_left_mono) simp_all
  also have "\<dots> < int (length (members c)) * all_weights c"
    using all_weights_pos [OF assms(1)] k by (intro mult_strict_right_mono) simp_all
  finally show "int m * weight c n < all_weights c * (int (count_list (picks c (\<lambda>_. 0) m) n) + int (length (members c)))"
    using e by (simp add: algebra_simps)
qed

lemma exact_share:
  assumes "fit c" "n \<in> set (members c)"
  shows "int (count_list (picks c (\<lambda>_. 0) (nat (all_weights c))) n) = weight c n"
proof -
  let ?W = "all_weights c" and ?f = "credit c (\<lambda>_. 0) (nat (all_weights c))"
  let ?d = "\<lambda>k. weight c k - int (count_list (picks c (\<lambda>_. 0) (nat ?W)) k)"
  have pos: "0 < ?W" using all_weights_pos [OF assms(1)] .
  have f: "?f k = ?W * ?d k" if "k \<in> set (members c)" for k
    using credit_picks [OF that, of "\<lambda>_. 0" "nat ?W"] pos by (simp add: algebra_simps)
  have b: "balanced c ?f" using assms(1) pos by (intro balanced_credit) (auto simp: balanced_def)
  have low: "0 \<le> ?d k" if "k \<in> set (members c)" for k
  proof -
    have "- ?W < ?W * ?d k" using b that f by (simp add: balanced_def)
    then have "?W * (- 1) < ?W * ?d k" by simp
    with pos have "- 1 < ?d k" by (simp only: mult_less_cancel_left_pos)
    then show ?thesis by simp
  qed
  have "(\<Sum>k \<in> set (members c). ?W * ?d k) = 0" using b f by (simp add: balanced_def)
  then have "?W * (\<Sum>k \<in> set (members c). ?d k) = 0" by (simp only: sum_distrib_left)
  then have "(\<Sum>k \<in> set (members c). ?d k) = 0" using pos by simp
  with low have "?d n = 0" using assms(2) by (subst (asm) sum_nonneg_eq_0_iff) auto
  then show ?thesis by simp
qed

end

section \<open>The turn of the scheduler\<close>

text \<open>
  The configuration of a scheduler and the list of eligible namespaces. Weights are those a validated
  configuration has; up to 65536 competing namespaces no sum of credits can overflow.
\<close>

type_synonym contest = "Config \<times> string list"

definition ns_weight :: "contest \<Rightarrow> string \<Rightarrow> int" where
  "ns_weight c n =
     nc_Weight (case map_of (cf_Namespaces (fst c)) n of Some value \<Rightarrow> value | None \<Rightarrow> cf_Default (fst c))"

lemma ns_weight_config: "nc_Weight (namespaceConfig s n) = ns_weight (sc_config s, ns) n"
  by (simp add: namespaceConfig_def ns_weight_def split: option.split)

definition contest_ok :: "contest \<Rightarrow> bool" where
  "contest_ok c \<longleftrightarrow> distinct (snd c) \<and> snd c \<noteq> [] \<and> length (snd c) \<le> 65536 \<and>
     (\<forall>n \<in> set (snd c). 1 \<le> ns_weight c n \<and> ns_weight c n \<le> MaxInt32)"

definition raised :: "contest \<Rightarrow> (string \<Rightarrow> int) \<Rightarrow> (string, int64) gomap" where
  "raised c f = map (\<lambda>n. (n, f n + ns_weight c n)) (snd c)"

definition ns_pick :: "contest \<Rightarrow> (string \<Rightarrow> int) \<Rightarrow> string" where
  "ns_pick c f = select_heaviest (raised c f) (hd (snd c)) (tl (snd c))"

lemma select_heaviest_spec:
  "select_heaviest m n ns \<in> insert n (set ns) \<and>
   (\<forall>k \<in> insert n (set ns). or_zero 0 m k \<le> or_zero 0 m (select_heaviest m n ns))"
proof (induction ns arbitrary: n)
  case (Cons k ns)
  from Cons.IH [of "if or_zero 0 m n < or_zero 0 m k then k else n"] show ?case by (force split: if_splits)
qed simp

lemma or_zero_raised: "n \<in> set (snd c) \<Longrightarrow> or_zero 0 (raised c f) n = f n + ns_weight c n"
  by (simp add: raised_def or_zero_def map_of_map_restrict)

lemma ns_pick_heaviest:
  assumes "contest_ok c"
  shows "ns_pick c f \<in> set (snd c) \<and>
    (\<forall>n \<in> set (snd c). f n + ns_weight c n \<le> f (ns_pick c f) + ns_weight c (ns_pick c f))"
proof -
  have ne: "insert (hd (snd c)) (set (tl (snd c))) = set (snd c)"
    using assms by (cases "snd c") (simp_all add: contest_ok_def)
  have mem: "ns_pick c f \<in> set (snd c)"
    using select_heaviest_spec [of "raised c f" "hd (snd c)" "tl (snd c)"] unfolding ns_pick_def ne by blast
  moreover have "or_zero 0 (raised c f) n \<le> or_zero 0 (raised c f) (ns_pick c f)" if "n \<in> set (snd c)" for n
    using select_heaviest_spec [of "raised c f" "hd (snd c)" "tl (snd c)"] that unfolding ns_pick_def ne by blast
  ultimately show ?thesis by (simp add: or_zero_raised)
qed

interpretation wrr: rotation contest_ok snd ns_weight ns_pick
  using ns_pick_heaviest by unfold_locales (simp_all add: contest_ok_def)

text \<open>The sums of a contest fit into 64 bits.\<close>

lemma contest_weights:
  assumes "contest_ok c"
  shows "int (length (snd c)) * wrr.all_weights c \<le> MaxInt64" "wrr.all_weights c \<le> MaxInt64"
proof -
  let ?k = "int (length (snd c))"
  have "wrr.all_weights c \<le> (\<Sum>n \<in> set (snd c). MaxInt32)"
    unfolding wrr.all_weights_def using assms by (intro sum_mono) (simp add: contest_ok_def)
  also have "\<dots> = ?k * MaxInt32" using assms by (simp add: contest_ok_def distinct_card)
  finally have w: "wrr.all_weights c \<le> ?k * MaxInt32" .
  have k: "1 \<le> ?k" "?k \<le> 65536" using assms by (auto simp: contest_ok_def Suc_le_eq)
  have "?k * wrr.all_weights c \<le> ?k * (?k * MaxInt32)" using w k by (intro mult_left_mono) simp_all
  also have "\<dots> \<le> 65536 * (65536 * MaxInt32)" using k by (intro mult_mono) (simp_all add: MaxInt32_def)
  also have "\<dots> \<le> MaxInt64" by (simp add: MaxInt32_def MaxInt64_def)
  finally show a: "?k * wrr.all_weights c \<le> MaxInt64" .
  have "1 * wrr.all_weights c \<le> ?k * wrr.all_weights c"
    using k(1) wrr.all_weights_pos [OF assms] by (intro mult_right_mono) auto
  with a show "wrr.all_weights c \<le> MaxInt64" by simp
qed

abbreviation credits_of :: "Scheduler \<Rightarrow> string \<Rightarrow> int" where
  "credits_of s \<equiv> or_zero 0 (sc_current s)"

lemma add_weights_exact:
  assumes "distinct ns" "set ns \<inter> set (keys current) = {}" "0 \<le> tot"
    and "\<forall>n \<in> set ns. 1 \<le> ns_weight (sc_config s, es) n \<and> ns_weight (sc_config s, es) n \<le> MaxInt32 \<and>
      MinInt64 \<le> credits_of s n \<and> credits_of s n + ns_weight (sc_config s, es) n \<le> MaxInt64"
    and "tot + (\<Sum>n \<leftarrow> ns. ns_weight (sc_config s, es) n) \<le> MaxInt64"
  shows "add_weights s ns (current, tot) =
    Some (current @ map (\<lambda>n. (n, credits_of s n + ns_weight (sc_config s, es) n)) ns, tot + (\<Sum>n \<leftarrow> ns. ns_weight (sc_config s, es) n))"
  using assms
proof (induction ns arbitrary: current tot)
  case (Cons n ns)
  let ?w = "ns_weight (sc_config s, es) n" and ?f = "credits_of s n"
  have w: "nc_Weight (namespaceConfig s n) = ?w" by (rule ns_weight_config)
  have n: "1 \<le> ?w" "?w \<le> MaxInt32" "MinInt64 \<le> ?f" "?f + ?w \<le> MaxInt64" using Cons.prems(4) by simp_all
  have rest: "0 \<le> (\<Sum>k \<leftarrow> ns. ns_weight (sc_config s, es) k)" using Cons.prems(4) by (intro sum_list_nonneg) force
  have sub: "sub64 MaxInt64 ?w = MaxInt64 - ?w"
    using n(1,2) by (intro sub64_exact) (simp add: int64_bounds MaxInt32_def)
  have add: "add64 ?f ?w = ?f + ?w" "add64 tot ?w = tot + ?w"
    using n Cons.prems(3,5) rest by (auto intro!: add64_exact simp: int64_bounds)
  have new: "put n (?f + ?w) current = current @ [(n, ?f + ?w)]"
    using Cons.prems(2) by (intro put_new) (auto simp: has_iff_keys)
  have "add_weights s (n # ns) (current, tot) =
      add_weights s ns (current @ [(n, ?f + ?w)], tot + ?w)"
    using n Cons.prems(5) rest by (simp add: w sub add new Let_def not_less)
  also have "\<dots> = Some ((current @ [(n, ?f + ?w)]) @ map (\<lambda>k. (k, credits_of s k + ns_weight (sc_config s, es) k)) ns,
      tot + ?w + (\<Sum>k \<leftarrow> ns. ns_weight (sc_config s, es) k))"
    using Cons.prems n by (intro Cons.IH) auto
  finally show ?case by simp
qed simp

text \<open>The credits of a scheduler in a contest that has gone on since it was created.\<close>

definition in_contest :: "Scheduler \<Rightarrow> string list \<Rightarrow> bool" where
  "in_contest s ns \<longleftrightarrow> contest_ok (sc_config s, ns) \<and> wrr.balanced (sc_config s, ns) (credits_of s)"

lemma in_contest_bounds:
  assumes "in_contest s es" "n \<in> set (es)"
  shows "MinInt64 \<le> credits_of s n" "credits_of s n + ns_weight (sc_config s, es) n \<le> MaxInt64"
proof -
  let ?W = "wrr.all_weights (sc_config s, es)" and ?k = "int (length (es))"
  have ok: "contest_ok (sc_config s, es)" and b: "wrr.balanced (sc_config s, es) (credits_of s)" using assms(1) by (simp_all add: in_contest_def)
  from b assms(2) have "- ?W < credits_of s n" by (simp add: wrr.balanced_def)
  with contest_weights(2) [OF ok] show "MinInt64 \<le> credits_of s n" by (simp add: MinInt64_def MaxInt64_def)
  have "ns_weight (sc_config s, es) n \<le> ?W"
    unfolding wrr.all_weights_def using assms(2) ok by (intro member_le_sum) (auto simp: contest_ok_def)
  moreover have "credits_of s n \<le> (?k - 1) * (?W - 1)"
    using wrr.balanced_upper [OF ok b, of n] assms(2) ok by (simp add: contest_ok_def of_nat_diff Suc_le_eq)
  moreover have "(?k - 1) * (?W - 1) + ?W \<le> ?k * ?W"
  proof -
    have "1 \<le> ?k" using ok by (simp add: contest_ok_def Suc_le_eq)
    then show ?thesis by (simp add: algebra_simps)
  qed
  ultimately show "credits_of s n + ns_weight (sc_config s, es) n \<le> MaxInt64" using contest_weights(1) [OF ok] by simp
qed

lemma rotate_credits_turn:
  assumes "in_contest s ns"
  shows "\<exists>current. rotate_credits s ns = Some (ns_pick (sc_config s, ns) (credits_of s), current) \<and>
    or_zero 0 current = wrr.turn (sc_config s, ns) (credits_of s)"
proof -
  let ?c = "(sc_config s, ns)" and ?f = "credits_of s"
  let ?p = "ns_pick ?c ?f" and ?W = "wrr.all_weights ?c"
  have ok: "contest_ok ?c" and b: "wrr.balanced ?c ?f" using assms by (simp_all add: in_contest_def)
  have sum: "(\<Sum>n \<leftarrow> ns. ns_weight ?c n) = ?W"
    using ok by (simp add: wrr.all_weights_def contest_ok_def sum_list_distinct_conv_sum_set)
  have "add_weights s ns ([], 0) =
      Some ([] @ map (\<lambda>n. (n, credits_of s n + ns_weight ?c n)) ns, 0 + (\<Sum>n \<leftarrow> ns. ns_weight ?c n))"
    using ok in_contest_bounds [OF assms] contest_weights(2) [OF ok] sum
    by (intro add_weights_exact) (auto simp: contest_ok_def)
  then have add: "add_weights s ns ([], 0) = Some (raised ?c ?f, ?W)" by (simp add: sum raised_def)
  have sel: "select_heaviest (raised ?c ?f) (hd ns) (tl ns) = ?p" by (simp add: ns_pick_def)
  have p: "?p \<in> set ns" using ns_pick_heaviest [OF ok] by simp
  have at: "or_zero 0 (raised ?c ?f) n = ?f n + ns_weight ?c n" if "n \<in> set ns" for n
    using that by (simp add: or_zero_raised)
  have pos: "0 < ?f ?p + ns_weight ?c ?p" using wrr.balanced_turn(2) [OF ok b] .
  have W: "0 < ?W" "?W \<le> MaxInt64" using wrr.all_weights_pos [OF ok] contest_weights(2) [OF ok] .
  have low: "add64 MinInt64 ?W = MinInt64 + ?W" "sub64 (?f ?p + ns_weight ?c ?p) ?W = ?f ?p + ns_weight ?c ?p - ?W"
    using W pos in_contest_bounds(2) [OF assms, of ?p] p
    by (subst add64_exact sub64_exact, simp_all add: int64_bounds)+
  have "rotate_credits s ns = Some (?p, put ?p (?f ?p + ns_weight ?c ?p - ?W) (raised ?c ?f))"
    using add at [OF p] low pos W by (simp add: rotate_credits_def sel Let_def) (simp add: MinInt64_def MaxInt64_def)
  moreover have "or_zero 0 (put ?p (?f ?p + ns_weight ?c ?p - ?W) (raised ?c ?f)) n = wrr.turn ?c ?f n" for n
  proof (cases "n \<in> set ns")
    case True
    then show ?thesis using p by (simp add: wrr.turn_def at)
  next
    case False
    then have "map_of (raised ?c ?f) n = None" by (auto simp: raised_def map_of_eq_None_iff)
    with False p show ?thesis by (auto simp: wrr.turn_def or_zero_def)
  qed
  ultimately show ?thesis by blast
qed

section \<open>Candidates\<close>

text \<open>Every candidate stands under its own namespace and belongs to a workflow that is active.\<close>

definition candidates_ok :: "string set \<Rightarrow> usage \<Rightarrow> bool" where
  "candidates_ok A u \<longleftrightarrow> gomap (us_candidates u) \<and>
     (\<forall>(n, ts) \<in> set (us_candidates u). \<forall>t \<in> set ts. sk_Namespace t = n \<and> sk_WorkflowID t \<in> A)"

lemma candidates_ok_at:
  "candidates_ok A u \<Longrightarrow> t \<in> set (or_zero [] (us_candidates u) n) \<Longrightarrow> sk_Namespace t = n \<and> sk_WorkflowID t \<in> A"
  by (cases "map_of (us_candidates u) n") (fastforce simp: candidates_ok_def or_zero_def dest: map_of_SomeD)+

lemma candidates_counting [simp]:
  "candidates_ok A (on_namespace n f u) = candidates_ok A u" "candidates_ok A (count_ready n u) = candidates_ok A u"
  "candidates_ok A (count_running n u) = candidates_ok A u" "candidates_ok A (u\<lparr>us_tasks := k\<rparr>) = candidates_ok A u"
  "candidates_ok A (u\<lparr>us_workflows := k\<rparr>) = candidates_ok A u"
  by (simp_all add: candidates_ok_def on_namespace_def count_ready_def count_running_def)

lemma candidates_ok_add:
  assumes "candidates_ok A u" "w \<in> A"
  shows "candidates_ok A (add_candidate caps w s i capability u)"
proof -
  let ?t = "\<lparr>sk_WorkflowID = w, sk_TaskID = i, sk_Namespace = wf_Namespace s, sk_Capability = capability,
    sk_UpdatedAt = wf_UpdatedAt s\<rparr>"
  let ?m = "put (wf_Namespace s) (or_zero [] (us_candidates u) (wf_Namespace s) @ [?t]) (us_candidates u)"
  have g: "gomap ?m" using assms(1) by (simp add: candidates_ok_def)
  have "sk_Namespace t = n \<and> sk_WorkflowID t \<in> A" if "(n, ts) \<in> set ?m" "t \<in> set ts" for n ts t
  proof -
    from that(1) have "map_of ?m n = Some ts" by (simp only: gomap_map_of_iff [OF g])
    then have m: "ts = or_zero [] (us_candidates u) n @ [?t]" if "n = wf_Namespace s" using that by simp
    show ?thesis
    proof (cases "n = wf_Namespace s")
      case True
      with that(2) m assms(2) candidates_ok_at [OF assms(1)] show ?thesis by auto
    next
      case False
      with \<open>map_of ?m n = Some ts\<close> have "map_of (us_candidates u) n = Some ts" by simp
      with that(2) candidates_ok_at [OF assms(1), of t n] show ?thesis by (simp add: or_zero_def)
    qed
  qed
  with g assms(1) show ?thesis by (auto simp: add_candidate_def candidates_ok_def)
qed

lemma candidates_ok_inspect_task:
  assumes "candidates_ok A u" "w \<in> A"
  shows "candidates_ok A (inspect_task caps w s entry u)"
  using assms unfolding inspect_task_def Let_def
  by (simp add: candidates_ok_add split: prod.split TaskStatus.split option.split)

lemma candidates_ok_inspect:
  assumes "inspect e (Some caps) = Inr u"
  shows "candidates_ok (set (ActiveWorkflowIDs e)) u"
proof -
  have step: "candidates_ok A v'" if "inspect_workflow e caps v w = Inr v'" "candidates_ok A v" "w \<in> A" for A v v' w
  proof -
    have fold: "candidates_ok A (fold (inspect_task caps w s) xs v)" if "candidates_ok A v" for s xs v
      using that by (induction xs arbitrary: v) (simp_all add: candidates_ok_inspect_task \<open>w \<in> A\<close>)
    with that(1,2) show ?thesis by (auto simp: inspect_workflow_def split: option.splits)
  qed
  have "candidates_ok A u" if "foldE (inspect_workflow e caps) v ws = Inr u" "candidates_ok A v" "set ws \<subseteq> A" for A v ws
    using that
  proof (induction ws arbitrary: v)
    case (Cons w ws)
    then obtain v' where "inspect_workflow e caps v w = Inr v'" "foldE (inspect_workflow e caps) v' ws = Inr u"
      by (auto simp: bindE_eq_Inr)
    with Cons step show ?case by auto
  qed simp
  from this [of zero_usage "ActiveWorkflowIDs e" "set (ActiveWorkflowIDs e)"] assms show ?thesis
    by (simp add: inspect_def) (simp add: candidates_ok_def zero_usage_def)
qed

section \<open>Rounds of plans\<close>

text \<open>
  Planning and committing one task after another, each on the engine and for the capabilities that a
  worker presents at that moment.
\<close>

fun plan_rounds :: "Scheduler \<Rightarrow> (Engine \<times> string list) list \<Rightarrow> (Task list \<times> Scheduler) option" where
  "plan_rounds s [] = Some ([], s)"
| "plan_rounds s ((engine, capabilities) # rest) =
     (case Plan_next s engine capabilities of
        Inr (Some plan) \<Rightarrow>
          (case Commit s plan of
             Inr s' \<Rightarrow> map_option (\<lambda>(tasks, s''). (pn_Task plan # tasks, s'')) (plan_rounds s' rest)
           | Inl _ \<Rightarrow> None)
      | _ \<Rightarrow> None)"

text \<open>The same namespaces compete: they have candidates, are below their limits, and so is the whole.\<close>

definition contested :: "Config \<Rightarrow> string list \<Rightarrow> Engine \<times> string list \<Rightarrow> bool" where
  "contested cfg ns turn \<longleftrightarrow> allowed_capabilities (snd turn) \<noteq> [] \<and> '''' \<notin> set (ActiveWorkflowIDs (fst turn)) \<and>
     (case inspect (fst turn) (Some (allowed_capabilities (snd turn))) of
        Inl _ \<Rightarrow> False
      | Inr u \<Rightarrow> us_running u < lm_Running (cf_Global cfg) \<and>
          eligible_namespaces \<lparr>sc_config = cfg, sc_current = [], sc_epoch = 0\<rparr> u = ns)"

lemma namespaceConfig_cong: "sc_config s = sc_config s' \<Longrightarrow> namespaceConfig s = namespaceConfig s'"
  by (simp add: namespaceConfig_def fun_eq_iff split: option.split)

lemma eligible_config:
  "eligible_namespaces \<lparr>sc_config = sc_config s, sc_current = [], sc_epoch = 0\<rparr> u = eligible_namespaces s u"
  using namespaceConfig_cong [of "\<lparr>sc_config = sc_config s, sc_current = [], sc_epoch = 0\<rparr>" s]
  by (simp add: eligible_namespaces_def)

lemma eligible_nonempty:
  assumes "candidates_ok A u" "n \<in> set (eligible_namespaces s u)"
  shows "or_zero [] (us_candidates u) n \<noteq> []"
proof -
  from assms(2) obtain ts where "(n, ts) \<in> set (us_candidates u)" "ts \<noteq> []" by (auto simp: eligible_namespaces_def)
  moreover from this assms(1) have "map_of (us_candidates u) n = Some ts" by (simp add: candidates_ok_def gomap_map_of_iff)
  ultimately show ?thesis by (simp add: or_zero_def)
qed

lemma plan_turn:
  assumes "in_contest s ns" "contested (sc_config s) ns (e, caps)"
  shows "\<exists>plan s'. Plan_next s e caps = Inr (Some plan) \<and> Commit s plan = Inr s' \<and>
    sk_Namespace (pn_Task plan) = ns_pick (sc_config s, ns) (credits_of s) \<and> sc_config s' = sc_config s \<and>
    credits_of s' = wrr.turn (sc_config s, ns) (credits_of s)"
proof -
  let ?p = "ns_pick (sc_config s, ns) (credits_of s)"
  from assms(2) obtain u where u: "inspect e (Some (allowed_capabilities caps)) = Inr u"
    "us_running u < lm_Running (cf_Global (sc_config s))" "eligible_namespaces s u = ns" "allowed_capabilities caps \<noteq> []"
    "'''' \<notin> set (ActiveWorkflowIDs e)"
    by (auto simp: contested_def eligible_config split: sum.splits)
  have ok: "candidates_ok (set (ActiveWorkflowIDs e)) u" using u(1) by (rule candidates_ok_inspect)
  have c: "contest_ok (sc_config s, ns)" using assms(1) by (simp add: in_contest_def)
  obtain current where r: "rotate_credits s ns = Some (?p, current)"
    "or_zero 0 current = wrr.turn (sc_config s, ns) (credits_of s)"
    using rotate_credits_turn [OF assms(1)] by blast
  have "?p \<in> set ns" using ns_pick_heaviest [OF c] by simp
  then have "or_zero [] (us_candidates u) ?p \<noteq> []" using eligible_nonempty [OF ok] u(3) by blast
  then obtain task rest where t: "sort_key task_key (or_zero [] (us_candidates u) ?p) = task # rest"
    by (metis length_0_conv length_sort list.exhaust)
  then have "task \<in> set (or_zero [] (us_candidates u) ?p)" by (metis list.set_intros(1) set_sort)
  from candidates_ok_at [OF ok this] have task: "sk_Namespace task = ?p" "sk_WorkflowID task \<noteq> ''''"
    using u(5) by auto
  have ne: "ns \<noteq> []" using c by (simp add: contest_ok_def)
  have "Plan_next s e caps = Inr (Some \<lparr>pn_Task = task, pn_current = current, pn_epoch = sc_epoch s\<rparr>)"
    using u r(1) t ne by (simp add: Plan_next_def Let_def)
  with task r(2) show ?thesis by (simp add: Commit_def)
qed

lemma plan_rounds_picks:
  assumes "in_contest s ns" "list_all (contested (sc_config s) ns) turns"
  shows "\<exists>tasks s'. plan_rounds s turns = Some (tasks, s') \<and>
    map sk_Namespace tasks = wrr.picks (sc_config s, ns) (credits_of s) (length turns)"
  using assms
proof (induction turns arbitrary: s)
  case (Cons turn turns)
  obtain e caps where turn: "turn = (e, caps)" by force
  with Cons.prems obtain plan s' where p: "Plan_next s e caps = Inr (Some plan)" "Commit s plan = Inr s'"
    "sk_Namespace (pn_Task plan) = ns_pick (sc_config s, ns) (credits_of s)" "sc_config s' = sc_config s"
    "credits_of s' = wrr.turn (sc_config s, ns) (credits_of s)"
    using plan_turn [OF Cons.prems(1)] by force
  have "in_contest s' ns" using Cons.prems(1) p(4,5) wrr.balanced_turn(1) by (simp add: in_contest_def)
  with Cons p(4) obtain tasks s'' where "plan_rounds s' turns = Some (tasks, s'')"
    "map sk_Namespace tasks = wrr.picks (sc_config s, ns) (credits_of s') (length turns)"
    by force
  with p turn show ?case by simp
qed simp

lemma New_weights:
  assumes "New config = Inr s"
  shows "credits_of s = (\<lambda>_. 0)" "\<forall>n. 1 \<le> ns_weight (sc_config s, ns) n \<and> ns_weight (sc_config s, ns) n \<le> MaxInt32"
proof -
  have copy: "foldE (\<lambda>copied (namespace, value). if namespace = '''' then Inl InvalidConfig
      else Inr (put namespace value copied)) m kvs = Inr m' \<Longrightarrow> set m' \<subseteq> set m \<union> set kvs" for m m' :: "(string, NamespaceConfig) gomap" and kvs
  proof (induction kvs arbitrary: m)
    case (Cons kv kvs)
    then have "set m' \<subseteq> set (put (fst kv) (snd kv) m) \<union> set kvs"
      by (cases kv) (auto simp: bindE_eq_Inr split: if_splits)
    moreover have "set (put k v m) \<subseteq> insert (k, v) (set m)" for k v by (induction m) auto
    ultimately show ?case by (cases kv) fastforce
  qed simp
  from assms obtain namespaces where v: "validateConfig config = Inr ()"
    "set namespaces \<subseteq> set (cf_Namespaces config)" "s = \<lparr>sc_config = config\<lparr>cf_Namespaces := namespaces\<rparr>, sc_current = [], sc_epoch = 0\<rparr>"
    using copy [of "[]"] by (fastforce simp: New_def bindE_eq_Inr)
  then show "credits_of s = (\<lambda>_. 0)" by (simp add: or_zero_def fun_eq_iff)
  have "1 \<le> nc_Weight (cf_Default config) \<and> nc_Weight (cf_Default config) \<le> MaxInt32"
    "\<forall>(n, value) \<in> set (cf_Namespaces config). 1 \<le> nc_Weight value \<and> nc_Weight value \<le> MaxInt32"
    using v(1) by (auto simp: validateConfig_def validate_namespace_def bindE_eq_Inr foldE_unit_iff not_less split: if_splits)
  with v(2,3) show "\<forall>n. 1 \<le> ns_weight (sc_config s, ns) n \<and> ns_weight (sc_config s, ns) n \<le> MaxInt32"
    by (fastforce simp: ns_weight_def dest: map_of_SomeD split: option.splits)
qed

end
