(* ===== verification/Chronos_Scheduler_Safety.thy ===== *)
theory Chronos_Scheduler_Safety
  imports Chronos_Load Chronos_Fairness Chronos_Examples
begin

text \<open>
  The properties of the scheduler: batches are atomic and replicate, admission keeps the limits, and the
  choice of tasks is fair.
\<close>

section \<open>Batches\<close>

text \<open>The scheduler of the examples.\<close>

definition ex_scheduler :: Scheduler where
  "ex_scheduler = \<lparr>sc_config = DefaultConfig, sc_current = [], sc_epoch = 0\<rparr>"

definition ex_commands :: "Command list" where
  "ex_commands = [ex_submit, ex_start ''r2'' ''a'' 1 20]"

lemma ex_engine: "engine_ok NewEngine" "map_of (en_states NewEngine) '''' = None" "keyed NewEngine"
  "truthful NewEngine" "served H NewEngine"
  by (simp_all add: engine_ok_New) (simp_all add: keyed_def truthful_def served_def resolveState_def NewEngine_def)

lemma ex_staged: "\<exists>e pb. StageBatch H0 J0 ex_scheduler NewEngine ex_commands = (e, Inr pb)"
proof -
  have "\<not> isl (snd (StageBatch H0 J0 ex_scheduler NewEngine ex_commands))" by code_simp
  then show ?thesis by (metis isl_def obj_sumE surjective_pairing)
qed

text \<open>
  C25. Checking a batch leaves no trace: \<^verbatim>\<open>PrepareBatch\<close> always, and \<^verbatim>\<open>StageBatch\<close> whenever some command
  of the batch is refused by the engine or by admission, leave workflows, requests, indexes, journal and
  metrics of the engine as they were.
\<close>

theorem batch_is_atomic:
  assumes "engine_ok e" "map_of (en_states e) '''' = None"
  shows "same_engine e (fst (PrepareBatch H J s e cs)) \<and>
    (\<forall>x e'. StageBatch H J s e cs = (e', Inl x) \<longrightarrow> same_engine e e')"
proof -
  obtain e1 out where "prepareBatch H J s e cs False = (e1, out)" by force
  with prepareBatch_undone [OF assms this] prepareBatch_undone [OF assms, of H J s cs True] show ?thesis
    by (auto simp: PrepareBatch_def StageBatch_def)
qed

theorem batch_is_atomic_witness: "same_engine NewEngine (fst (PrepareBatch H0 J0 ex_scheduler NewEngine ex_commands))"
  using batch_is_atomic [OF ex_engine(1,2)] by blast

text \<open>
  C6. What the leader stages is what the replicas apply: when a batch has been staged, a replica that agreed
  with the engine before accepts the prepared batches in one call and agrees with the engine after, in
  all tables, whether or not it owns the events.
\<close>

theorem staged_batch_replicates:
  assumes "StageBatch H J s e cs = (e', Inr pb)" "engine_ok e" "keyed e" "truthful e" "\<forall>x. H x \<noteq> []"
    and "same_engine e f" "engine_ok f"
  shows "\<exists>f' apps states. applyBatches H f (pb_Batches pb) owned = Inr (f', apps, states) \<and> same_engine e' f'"
  using led_applyBatches [OF StageBatch_led [OF assms(1-4)] assms(2,6,7)] assms(5) by blast

theorem staged_batch_replicates_witness:
  "\<exists>e' pb f' apps states. StageBatch H0 J0 ex_scheduler NewEngine ex_commands = (e', Inr pb) \<and>
     applyBatches H0 NewEngine (pb_Batches pb) True = Inr (f', apps, states) \<and> same_engine e' f'"
proof -
  obtain e' pb where st: "StageBatch H0 J0 ex_scheduler NewEngine ex_commands = (e', Inr pb)" using ex_staged by blast
  from staged_batch_replicates [OF this ex_engine(1,3,4) _ same_engine_refl ex_engine(1), of True] st H0_nonempty
  show ?thesis by blast
qed

section \<open>Limits\<close>

text \<open>
  C7. Admission keeps the limits: when the numbers of active workflows and of running tasks are within the
  configured limits, in total and in every namespace, they are so after every batch that is staged,
  whatever mixture of commands it has.
\<close>

theorem admission_keeps_limits:
  assumes "StageBatch H J s e cs = (e', Inr pb)" "engine_ok e" "keyed e" "truthful e" "served H e" "\<forall>x. H x \<noteq> []"
    and "inspect e None = Inr u" "within s u"
  shows "\<exists>u'. inspect e' None = Inr u' \<and> within s u'"
  using StageBatch_within [OF assms(1-5) _ assms(7,8)] assms(6) by blast

theorem admission_keeps_limits_witness:
  "\<exists>e' pb u'. StageBatch H0 J0 ex_scheduler NewEngine ex_commands = (e', Inr pb) \<and>
     inspect e' None = Inr u' \<and> within ex_scheduler u'"
proof -
  obtain e' pb where st: "StageBatch H0 J0 ex_scheduler NewEngine ex_commands = (e', Inr pb)" using ex_staged by blast
  have u: "inspect NewEngine None = Inr zero_usage" by (simp add: inspect_def ActiveWorkflowIDs_def NewEngine_def)
  have "within ex_scheduler zero_usage"
    by (simp add: within_def zero_usage_def namespace_of_def or_zero_def zero_NamespaceStats_def ex_scheduler_def
        DefaultConfig_def namespaceConfig_def)
  from admission_keeps_limits [OF st ex_engine(1,3-5) _ u this] st H0_nonempty show ?thesis by blast
qed

section \<open>Fairness\<close>

definition total_weight :: "Scheduler \<Rightarrow> string list \<Rightarrow> int" where
  "total_weight s ns = (\<Sum>n \<leftarrow> ns. nc_Weight (namespaceConfig s n))"

text \<open>
  C8. The choice of tasks is fair and does not starve a namespace. While the same namespaces compete, each
  with a candidate task and below its limits, every call of \<^verbatim>\<open>Plan\<close> finds a task and can be committed;
  after any number of turns the turns of a namespace are within a constant of its share by weight, and
  after as many turns as the weights sum up to they are exactly its weight. No credit overflows.
\<close>

theorem weighted_fairness:
  assumes "New config = Inr s" "distinct ns" "ns \<noteq> []" "length ns \<le> 65536"
    and "list_all (contested (sc_config s) ns) turns"
  shows "\<exists>tasks s'. plan_rounds s turns = Some (tasks, s') \<and> length tasks = length turns \<and>
    (\<forall>n \<in> set ns.
      total_weight s ns * int (count_list (map sk_Namespace tasks) n) <
        int (length turns) * nc_Weight (namespaceConfig s n) + total_weight s ns \<and>
      int (length turns) * nc_Weight (namespaceConfig s n) <
        total_weight s ns * (int (count_list (map sk_Namespace tasks) n) + int (length ns)) \<and>
      (int (length turns) = total_weight s ns \<longrightarrow>
        int (count_list (map sk_Namespace tasks) n) = nc_Weight (namespaceConfig s n)))"
proof -
  let ?c = "(sc_config s, ns)"
  have ok: "contest_ok ?c" using assms(2-4) New_weights(2) [OF assms(1)] by (simp add: contest_ok_def)
  have zero: "credits_of s = (\<lambda>_. 0)" using assms(1) by (rule New_weights(1))
  have W: "total_weight s ns = wrr.all_weights ?c"
    using assms(2) ns_weight_config [of s _ ns]
    by (simp add: total_weight_def wrr.all_weights_def sum_list_distinct_conv_sum_set)
  have "in_contest s ns"
    using ok zero wrr.all_weights_pos [OF ok] by (simp add: in_contest_def wrr.balanced_def)
  from plan_rounds_picks [OF this assms(5)] obtain tasks s' where p: "plan_rounds s turns = Some (tasks, s')"
    "map sk_Namespace tasks = wrr.picks ?c (\<lambda>_. 0) (length turns)" by (auto simp: zero)
  have "length tasks = length turns" using arg_cong [OF p(2), of length] by (simp add: wrr.length_picks)
  moreover have "int (count_list (wrr.picks ?c (\<lambda>_. 0) (length turns)) n) = ns_weight ?c n"
    if "n \<in> set ns" "int (length turns) = wrr.all_weights ?c" for n
    using wrr.exact_share [OF ok, of n] that(1) by (simp add: that(2) [symmetric])
  ultimately show ?thesis
    using p wrr.fair_share [OF ok]
    by (intro exI [of _ tasks] exI [of _ s']) (simp add: W ns_weight_config [of s _ ns])
qed

text \<open>Two workflows in namespaces of weights one and two.\<close>

definition ex_config :: Config where
  "ex_config = DefaultConfig\<lparr>cf_Namespaces := [(''q'', (cf_Default DefaultConfig)\<lparr>nc_Weight := 2\<rparr>)]\<rparr>"

definition ex_tenant :: "string \<Rightarrow> string \<Rightarrow> Command" where
  "ex_tenant w n = ex_submit\<lparr>cmd_RequestID := w, cmd_WorkflowID := w,
     cmd_Definition := Some (ex_definition\<lparr>wd_Namespace := n\<rparr>)\<rparr>"

definition ex_turn :: "Engine \<times> string list" where
  "ex_turn = (handle_all H0 J0 [ex_tenant ''w1'' ''p'', ex_tenant ''w2'' ''q''] NewEngine, [''t''])"

theorem weighted_fairness_witness:
  "\<exists>s tasks s'. New ex_config = Inr s \<and> plan_rounds s [ex_turn, ex_turn, ex_turn] = Some (tasks, s') \<and>
     count_list (map sk_Namespace tasks) ''q'' = 2 \<and> count_list (map sk_Namespace tasks) ''p'' = 1"
proof -
  have "\<not> isl (New ex_config)" by code_simp
  then obtain s where s: "New ex_config = Inr s" by (metis isl_def obj_sumE)
  have "case New ex_config of Inl _ \<Rightarrow> False | Inr s \<Rightarrow> contested (sc_config s) [''p'', ''q''] ex_turn \<and>
      total_weight s [''p'', ''q''] = 3 \<and> nc_Weight (namespaceConfig s ''p'') = 1 \<and> nc_Weight (namespaceConfig s ''q'') = 2"
    by code_simp
  with s have c: "contested (sc_config s) [''p'', ''q''] ex_turn" "total_weight s [''p'', ''q''] = 3"
    "nc_Weight (namespaceConfig s ''p'') = 1" "nc_Weight (namespaceConfig s ''q'') = 2" by simp_all
  from weighted_fairness [OF s, of "[''p'', ''q'']" "[ex_turn, ex_turn, ex_turn]"] c s show ?thesis by auto
qed

end
