(* ===== verification/Chronos_Reference.thy ===== *)
theory Chronos_Reference
  imports Chronos_Validate
begin

text \<open>
  The reference interpreter (\<^verbatim>\<open>internal/reference/reference.go\<close>) that the tests compare the engine with:
  it runs a workflow in rounds of all tasks whose dependencies have completed.
\<close>

section \<open>The interpreter\<close>

datatype ref_error = MissingID | DuplicateTask string | MissingDependency string string | NoProgress

record ReferenceResult =
  rf_Status :: WorkflowStatus
  rf_Order :: "string list"
  rf_Outputs :: "(string, kvs) gomap"

definition copyMap :: "kvs \<Rightarrow> kvs" where
  "copyMap values = fold (\<lambda>(key, value). put key value) values []"

definition collect_task :: "(string, TaskDefinition) gomap \<Rightarrow> TaskDefinition \<Rightarrow> ref_error + (string, TaskDefinition) gomap" where
  "collect_task tasks task =
     (if td_ID task = '''' then Inl MissingID
      else if has (td_ID task) tasks then Inl (DuplicateTask (td_ID task))
      else Inr (put (td_ID task) task tasks))"

definition check_dependencies :: "(string, TaskDefinition) gomap \<Rightarrow> TaskDefinition \<Rightarrow> ref_error + unit" where
  "check_dependencies tasks task =
     foldE (\<lambda>_ dependency. if has dependency tasks then Inr () else Inl (MissingDependency (td_ID task) dependency))
       () (deps task)"

definition eligible_tasks :: "(string, TaskDefinition) gomap \<Rightarrow> string list \<Rightarrow> string list" where
  "eligible_tasks tasks completed =
     map fst (filter (\<lambda>(i, task). i \<notin> set completed \<and> list_all (\<lambda>d. d \<in> set completed) (deps task)) tasks)"

text \<open>
  The rounds. The keys of the Go map \<^verbatim>\<open>completed\<close> are the identifiers of \<^verbatim>\<open>result.Order\<close>, so the order
  stands for both; a round that finds nothing eligible is an error.
\<close>

function rounds ::
    "(string, TaskDefinition) gomap \<Rightarrow> (string, kvs) gomap \<Rightarrow> ReferenceResult \<Rightarrow> ref_error + ReferenceResult" where
  "rounds tasks outputs result =
     (if length tasks \<le> length (rf_Order result) then Inr (result\<lparr>rf_Status := WorkflowCompleted\<rparr>)
      else
        let ready = sort (eligible_tasks tasks (rf_Order result)) in
        if ready = [] then Inl NoProgress
        else rounds tasks outputs
          (result\<lparr>rf_Order := rf_Order result @ ready,
                  rf_Outputs := fold (\<lambda>i m. put i (copyMap (or_zero [] outputs i)) m) ready (rf_Outputs result)\<rparr>))"
  by pat_completeness auto
termination
proof (relation "measure (\<lambda>(tasks, outputs, result). length tasks - length (rf_Order result))")
  fix tasks :: "(string, TaskDefinition) gomap" and outputs :: "(string, kvs) gomap" and result
    and ready :: "string list"
  assume "\<not> length tasks \<le> length (rf_Order result)" "ready \<noteq> []"
  then show "((tasks, outputs, result\<lparr>rf_Order := rf_Order result @ ready,
      rf_Outputs := fold (\<lambda>i m. put i (copyMap (or_zero [] outputs i)) m) ready (rf_Outputs result)\<rparr>), tasks, outputs, result)
    \<in> measure (\<lambda>(tasks, outputs, result). length tasks - length (rf_Order result))"
    by (cases ready) auto
qed simp

declare rounds.simps [simp del]

definition Run :: "WorkflowDefinition \<Rightarrow> (string, kvs) gomap \<Rightarrow> ref_error + ReferenceResult" where
  "Run definition outputs =
     bindE (foldE collect_task [] (wd_Tasks definition)) (\<lambda>tasks.
     bindE (foldE (\<lambda>_. check_dependencies tasks) () (wd_Tasks definition)) (\<lambda>_.
       rounds tasks outputs \<lparr>rf_Status = WorkflowRunning, rf_Order = [], rf_Outputs = []\<rparr>))"

section \<open>Runs are topological orders\<close>

text \<open>An order in which every task comes after its dependencies.\<close>

definition topological :: "(string, TaskDefinition) gomap \<Rightarrow> string list \<Rightarrow> bool" where
  "topological tasks order \<longleftrightarrow> distinct order \<and> set order \<subseteq> set (keys tasks) \<and>
     (\<forall>n < length order. \<forall>t. map_of tasks (order ! n) = Some t \<longrightarrow> set (deps t) \<subseteq> set (take n order))"

lemma topological_extend:
  assumes "topological tasks order" "distinct ready" "gomap tasks"
    and "\<forall>i \<in> set ready. i \<notin> set order \<and> (\<exists>t. map_of tasks i = Some t \<and> set (deps t) \<subseteq> set order)"
  shows "topological tasks (order @ ready)"
proof -
  have sub: "set ready \<subseteq> set (keys tasks)" using assms(4) by (force dest: map_of_SomeD)
  have "set (deps t) \<subseteq> set (take n (order @ ready))"
    if n: "n < length (order @ ready)" and t: "map_of tasks ((order @ ready) ! n) = Some t" for n t
  proof (cases "n < length order")
    case True
    with n t assms(1) show ?thesis by (simp add: topological_def nth_append)
  next
    case False
    with n have "ready ! (n - length order) \<in> set ready" by simp
    with assms(4) obtain u where "map_of tasks (ready ! (n - length order)) = Some u" "set (deps u) \<subseteq> set order" by blast
    with t False have "set (deps t) \<subseteq> set order" by (simp add: nth_append)
    with False show ?thesis by auto
  qed
  with assms(1,2,4) sub show ?thesis by (auto simp: topological_def)
qed

lemma eligible_spec:
  assumes "gomap tasks"
  shows "distinct (eligible_tasks tasks completed)"
    "i \<in> set (eligible_tasks tasks completed) \<longleftrightarrow>
       i \<notin> set completed \<and> (\<exists>t. map_of tasks i = Some t \<and> set (deps t) \<subseteq> set completed)"
proof -
  show "distinct (eligible_tasks tasks completed)"
    using assms by (simp add: eligible_tasks_def gomap_def distinct_map_filter)
  show "i \<in> set (eligible_tasks tasks completed) \<longleftrightarrow>
       i \<notin> set completed \<and> (\<exists>t. map_of tasks i = Some t \<and> set (deps t) \<subseteq> set completed)"
    using assms by (force simp: eligible_tasks_def gomap_map_of_iff list_all_iff)
qed

lemma topological_length:
  assumes "topological tasks order" "gomap tasks"
  shows "length order \<le> length tasks" "length tasks \<le> length order \<Longrightarrow> set order = set (keys tasks)"
proof -
  have c: "card (set order) = length order" "card (set (keys tasks)) = length tasks"
    using assms distinct_card [of "keys tasks"] by (simp_all add: topological_def gomap_def distinct_card del: set_map)
  have sub: "set order \<subseteq> set (keys tasks)" using assms(1) by (simp add: topological_def)
  show "length order \<le> length tasks" using card_mono [OF _ sub] c by simp
  show "set order = set (keys tasks)" if "length tasks \<le> length order"
    using card_subset_eq [OF _ sub] c that \<open>length order \<le> length tasks\<close> by simp
qed

lemma rounds_topological:
  assumes "gomap tasks" "rounds tasks outputs result = Inr r" "topological tasks (rf_Order result)"
  shows "topological tasks (rf_Order r) \<and> set (rf_Order r) = set (keys tasks) \<and> rf_Status r = WorkflowCompleted"
  using assms
proof (induction tasks outputs result rule: rounds.induct)
  case (1 tasks outputs result)
  let ?ready = "sort (eligible_tasks tasks (rf_Order result))"
  show ?case
  proof (cases "length tasks \<le> length (rf_Order result)")
    case True
    with 1(3) have "r = result\<lparr>rf_Status := WorkflowCompleted\<rparr>" by (simp add: rounds.simps [of tasks])
    with 1(4) topological_length(2) [OF 1(4,2) True] show ?thesis by simp
  next
    case False
    with 1(3) have ne: "?ready \<noteq> []" by (auto simp: rounds.simps [of tasks] Let_def split: if_splits)
    have "topological tasks (rf_Order result @ ?ready)"
      using eligible_spec [OF 1(2)] by (intro topological_extend [OF 1(4) _ 1(2)]) auto
    with 1(1) [OF False refl ne 1(2)] 1(3) False ne show ?thesis by (simp add: rounds.simps [of tasks] Let_def)
  qed
qed

text \<open>A map of tasks whose dependencies are tasks of the map.\<close>

definition closed :: "(string, TaskDefinition) gomap \<Rightarrow> bool" where
  "closed tasks \<longleftrightarrow> gomap tasks \<and> (\<forall>(i, t) \<in> set tasks. set (deps t) \<subseteq> set (keys tasks))"

text \<open>On an acyclic graph some task is always eligible, so the rounds never get stuck.\<close>

lemma acyclic_progress:
  assumes "closed tasks" "acyclic (dep_rel tasks)" "topological tasks order" "length order < length tasks"
  shows "eligible_tasks tasks order \<noteq> []"
proof -
  have g: "gomap tasks" using assms(1) by (simp add: closed_def)
  let ?R = "set (keys tasks) - set order"
  have fin: "finite (dep_rel tasks)"
  proof -
    have "dep_rel tasks \<subseteq> set (keys tasks) \<times> set (keys tasks)"
      using assms(1) by (fastforce simp: dep_rel_def closed_def intro: rev_image_eqI)
    then show ?thesis by (rule finite_subset) simp
  qed
  have "?R \<noteq> {}"
  proof
    assume "?R = {}"
    then have "card (set (keys tasks)) \<le> card (set order)" by (intro card_mono) auto
    with assms(3,4) g distinct_card [of "keys tasks"] show False
      by (simp add: topological_def gomap_def distinct_card del: set_map)
  qed
  moreover have "wf (dep_rel tasks)" using fin assms(2) by (rule finite_acyclic_wf)
  ultimately obtain i where i: "i \<in> ?R" "\<And>d. (d, i) \<in> dep_rel tasks \<Longrightarrow> d \<notin> ?R" by (meson all_not_in_conv wfE_min)
  then obtain t where t: "map_of tasks i = Some t" by (metis DiffD1 domD dom_map_of_conv_image_fst list.set_map)
  have "set (deps t) \<subseteq> set order"
  proof
    fix d
    assume d: "d \<in> set (deps t)"
    have "(i, t) \<in> set tasks" using t by (rule map_of_SomeD)
    with d assms(1) have "(d, i) \<in> dep_rel tasks" "d \<in> set (keys tasks)" by (force simp: dep_rel_def closed_def)+
    with i(2) show "d \<in> set order" by blast
  qed
  with i(1) t eligible_spec(2) [OF g, of i order] have "i \<in> set (eligible_tasks tasks order)" by blast
  then show ?thesis by auto
qed

lemma rounds_terminate:
  assumes "closed tasks" "acyclic (dep_rel tasks)" "topological tasks (rf_Order result)"
  shows "\<exists>r. rounds tasks outputs result = Inr r"
  using assms
proof (induction tasks outputs result rule: rounds.induct)
  case (1 tasks outputs result)
  have g: "gomap tasks" using 1(2) by (simp add: closed_def)
  show ?case
  proof (cases "length tasks \<le> length (rf_Order result)")
    case True
    then show ?thesis by (simp add: rounds.simps [of tasks])
  next
    case False
    then have ne: "sort (eligible_tasks tasks (rf_Order result)) \<noteq> []"
      using acyclic_progress [OF 1(2-4)] by (metis length_0_conv length_sort linorder_not_le)
    have "topological tasks (rf_Order result @ sort (eligible_tasks tasks (rf_Order result)))"
      using eligible_spec [OF g] by (intro topological_extend [OF 1(4) _ g]) auto
    with 1(1) [OF False refl ne 1(2,3)] False ne show ?thesis by (simp add: rounds.simps [of tasks] Let_def)
  qed
qed

text \<open>A topological order of all tasks shows that there is no cycle: dependencies come at smaller positions.\<close>

lemma topological_acyclic:
  assumes "gomap tasks" "topological tasks order" "set order = set (keys tasks)"
  shows "acyclic (dep_rel tasks)"
proof -
  let ?at = "\<lambda>i. LEAST n. n < length order \<and> order ! n = i"
  have at: "?at (order ! n) = n" if "n < length order" for n
    using that assms(2) by (auto simp: topological_def nth_eq_iff_index_eq intro!: Least_equality)
  have "?at d < ?at i" if di: "(i, d) \<in> (dep_rel tasks)\<inverse>" for i d
  proof -
    from di obtain t where t: "(i, t) \<in> set tasks" "d \<in> set (deps t)" by (auto simp: dep_rel_def)
    then have "i \<in> set order" using assms(3) by force
    then obtain n where n: "n < length order" "order ! n = i" by (auto simp: in_set_conv_nth)
    have "map_of tasks i = Some t" using t(1) assms(1) by (simp add: gomap_map_of_iff)
    with n t(2) assms(2) have "d \<in> set (take n order)" unfolding topological_def by blast
    then obtain m where "m < n" "order ! m = d" using n(1) by (auto simp: in_set_conv_nth)
    with n at show ?thesis by fastforce
  qed
  then have "acyclic ((dep_rel tasks)\<inverse>)" by (rule acyclicI_order)
  then show ?thesis by simp
qed

lemma collect_task_iff:
  "collect_task m t = Inr m' \<longleftrightarrow> td_ID t \<noteq> '''' \<and> \<not> has (td_ID t) m \<and> m' = m @ [(td_ID t, t)]"
  by (auto simp: collect_task_def put_new)

lemma collect_tasks_iff:
  "foldE collect_task m ts = Inr m' \<longleftrightarrow>
     (\<forall>t \<in> set ts. td_ID t \<noteq> '''' \<and> \<not> has (td_ID t) m) \<and> distinct (map td_ID ts) \<and> m' = m @ task_entries ts"
proof (induction ts arbitrary: m)
  case (Cons t ts)
  have "has k (m @ [(td_ID t, t)]) \<longleftrightarrow> k = td_ID t \<or> has k m" for k
    by (auto simp: has_iff_keys)
  then show ?case
    by (auto simp: result_simps collect_task_iff Cons.IH task_entries_def image_iff)
qed (auto simp: task_entries_def)

lemma check_dependencies_iff: "check_dependencies tasks t = Inr () \<longleftrightarrow> set (deps t) \<subseteq> set (keys tasks)"
proof -
  have "foldE (\<lambda>_ d. if has d tasks then Inr () else Inl (MissingDependency (td_ID t) d)) () ds = Inr () \<longleftrightarrow>
      set ds \<subseteq> set (keys tasks)" for ds
    by (induction ds) (auto simp: result_simps has_iff_keys)
  then show ?thesis by (simp add: check_dependencies_def)
qed

text \<open>The definitions the interpreter can run.\<close>

definition runnable :: "WorkflowDefinition \<Rightarrow> bool" where
  "runnable d \<longleftrightarrow> distinct (map td_ID (wd_Tasks d)) \<and>
     (\<forall>t \<in> set (wd_Tasks d). td_ID t \<noteq> '''' \<and> set (deps t) \<subseteq> td_ID ` set (wd_Tasks d))"

lemma runnable_closed: "runnable d \<Longrightarrow> closed (task_entries (wd_Tasks d))"
  by (auto simp: runnable_def closed_def gomap_def task_entries_def o_def image_image)

lemma Run_unfold:
  "Run d outputs = Inr r \<longleftrightarrow> runnable d \<and>
     rounds (task_entries (wd_Tasks d)) outputs \<lparr>rf_Status = WorkflowRunning, rf_Order = [], rf_Outputs = []\<rparr> = Inr r"
proof -
  have "foldE (\<lambda>_. check_dependencies (task_entries (wd_Tasks d))) () (wd_Tasks d) = Inr () \<longleftrightarrow>
      (\<forall>t \<in> set (wd_Tasks d). set (deps t) \<subseteq> td_ID ` set (wd_Tasks d))"
    by (simp add: foldE_unit_iff check_dependencies_iff task_entries_def image_image)
  then show ?thesis
    by (auto simp: Run_def runnable_def result_simps collect_tasks_iff has_def)
qed

lemma Run_order:
  assumes "Run d outputs = Inr r"
  shows "rf_Status r = WorkflowCompleted" "topological (task_entries (wd_Tasks d)) (rf_Order r)"
    "set (rf_Order r) = td_ID ` set (wd_Tasks d)"
proof -
  let ?t = "task_entries (wd_Tasks d)"
  from assms have run: "runnable d"
    "rounds ?t outputs \<lparr>rf_Status = WorkflowRunning, rf_Order = [], rf_Outputs = []\<rparr> = Inr r"
    by (simp_all add: Run_unfold)
  have "gomap ?t" using runnable_closed [OF run(1)] by (simp add: closed_def)
  from rounds_topological [OF this run(2)] show "rf_Status r = WorkflowCompleted" "topological ?t (rf_Order r)"
    "set (rf_Order r) = td_ID ` set (wd_Tasks d)"
    by (simp_all add: topological_def task_entries_def image_image)
qed

lemma Run_succeeds_iff:
  "(\<exists>r. Run d outputs = Inr r) \<longleftrightarrow> runnable d \<and> acyclic (needs (set (wd_Tasks d)))"
proof
  assume "\<exists>r. Run d outputs = Inr r"
  then obtain r where r: "Run d outputs = Inr r" by blast
  then have run: "runnable d" by (simp add: Run_unfold)
  then have "gomap (task_entries (wd_Tasks d))" using runnable_closed by (auto simp: closed_def)
  from topological_acyclic [OF this Run_order(2) [OF r]] Run_order(3) [OF r] run
  show "runnable d \<and> acyclic (needs (set (wd_Tasks d)))"
    by (simp add: dep_rel_entries) (simp add: task_entries_def image_image)
next
  assume a: "runnable d \<and> acyclic (needs (set (wd_Tasks d)))"
  then show "\<exists>r. Run d outputs = Inr r"
    using rounds_terminate [OF runnable_closed, of d "\<lparr>rf_Status = WorkflowRunning, rf_Order = [], rf_Outputs = []\<rparr>" outputs]
    by (auto simp: Run_unfold dep_rel_entries topological_def)
qed

lemma blank_empty: "blank ''''"
  by (simp add: blank_def TrimSpace_def)

lemma valid_runnable: "valid_definition d \<Longrightarrow> runnable d \<and> acyclic (needs (set (wd_Tasks d)))"
  using blank_empty by (auto simp: valid_definition_def runnable_def valid_task_def valid_links_def)

end
