(* ===== verification/Chronos_Bytes.thy ===== *)
theory Chronos_Bytes
  imports Chronos_Prelude "HOL-Library.Sublist"
begin

text \<open>
  The byte-level encodings of the storage layer (\<^verbatim>\<open>internal/storage/codec.go\<close>) and what they use of
  Go's \<^verbatim>\<open>encoding/binary\<close>: big-endian integers, unsigned varints, the keys of the store and the
  bounds of its range scans. A byte is a \<open>char\<close>, so that a Go string and a byte slice are the same
  list, and \<^verbatim>\<open>bytes.Compare\<close> is the lexicographic order of \<open>List_Lexorder\<close>.
\<close>

unbundle bit_operations_syntax

type_synonym bytes = string

abbreviation byte_val :: "char \<Rightarrow> nat" where
  "byte_val c \<equiv> of_char c"

lemma of_char_int: "(of_char c :: int) = int (byte_val c)"
  by (simp add: of_nat_of_char)

text \<open>A distance that stays within an interval of words names a word of the interval.\<close>

lemma word_interval:
  fixes f l q :: "'a::len word"
  assumes "f \<le> l" "q - f \<le> l - f"
  shows "f \<le> q" and "q \<le> l"
proof -
  have "unat (q - f) \<le> unat l - unat f"
    using assms by (simp add: word_le_nat_alt unat_sub)
  moreover have "unat f \<le> unat l" using assms(1) by (simp add: word_le_nat_alt)
  ultimately have le: "unat f + unat (q - f) \<le> unat l" by linarith
  then have "unat f + unat (q - f) < 2 ^ LENGTH('a)"
    using unsigned_less [of l, where ?'a = nat] by (rule le_less_trans)
  then have "unat (f + (q - f)) = unat f + unat (q - f)" by (simp only: unat_word_ariths mod_less)
  then have q: "unat q = unat f + unat (q - f)" by simp
  with le show "f \<le> q" "q \<le> l" by (simp_all only: word_le_nat_alt)
qed

section \<open>Big-endian integers\<close>

text \<open>\<^verbatim>\<open>binary.BigEndian.PutUint32\<close>, \<^verbatim>\<open>PutUint64\<close>, \<^verbatim>\<open>Uint32\<close> and \<^verbatim>\<open>Uint64\<close>.\<close>

definition PutUint64 :: "uint64 \<Rightarrow> bytes" where
  "PutUint64 v = be_bytes 8 (uint v)"

definition PutUint32 :: "uint32 \<Rightarrow> bytes" where
  "PutUint32 v = be_bytes 4 (uint v)"

definition be_value :: "bytes \<Rightarrow> int" where
  "be_value bs = foldl (\<lambda>a c. a * 256 + of_char c) 0 bs"

definition Uint64 :: "bytes \<Rightarrow> uint64" where
  "Uint64 bs = word_of_int (be_value (take 8 bs))"

definition Uint32 :: "bytes \<Rightarrow> uint32" where
  "Uint32 bs = word_of_int (be_value (take 4 bs))"

lemma be_value_Nil [simp]: "be_value [] = 0"
  by (simp add: be_value_def)

lemma be_value_snoc [simp]: "be_value (bs @ [c]) = be_value bs * 256 + of_char c"
  by (simp add: be_value_def)

lemma of_char_int_bounds: "0 \<le> (of_char c :: int)" "(of_char c :: int) < 256"
  using nat_of_char_less_256 [of c] unfolding of_char_int by linarith+

lemma be_value_bounds: "0 \<le> be_value bs \<and> be_value bs < 256 ^ length bs"
proof (induction bs rule: rev_induct)
  case (snoc c bs)
  then show ?case using of_char_int_bounds [of c] by simp
qed simp

lemma be_value_be_bytes: "0 \<le> v \<Longrightarrow> v < 256 ^ k \<Longrightarrow> be_value (be_bytes k v) = v"
proof (induction k arbitrary: v)
  case (Suc k)
  have "v div 256 < 256 ^ k"
    using Suc.prems by (simp add: div_less_iff_less_mult mult.commute)
  then have "be_value (be_bytes k (v div 256)) = v div 256"
    using Suc.prems by (intro Suc.IH) simp_all
  then show ?case by (simp add: of_char_of)
qed simp

lemma be_bytes_be_value: "be_bytes (length bs) (be_value bs) = bs"
proof (induction bs rule: rev_induct)
  case (snoc c bs)
  have "(be_value bs * 256 + of_char c) div 256 = be_value bs"
    using of_char_int_bounds [of c] by (simp add: div_pos_pos_trivial)
  moreover have "(be_value bs * 256 + of_char c) mod 256 = (of_char c :: int)"
    by simp
  ultimately show ?case using snoc by (simp del: div_mult_self3 div_mult_self4)
qed simp

lemma length_PutUint [simp]: "length (PutUint64 v) = 8" "length (PutUint32 w) = 4"
  by (simp_all add: PutUint64_def PutUint32_def)

lemma Uint64_PutUint64 [simp]: "Uint64 (PutUint64 v @ bs) = v"
proof -
  have "uint v < 256 ^ 8" using uint_lt2p [of v] by simp
  then have "be_value (be_bytes 8 (uint v)) = uint v" by (intro be_value_be_bytes) simp_all
  then show ?thesis by (simp add: Uint64_def PutUint64_def)
qed

lemma Uint32_PutUint32 [simp]: "Uint32 (PutUint32 v @ bs) = v"
proof -
  have "uint v < 256 ^ 4" using uint_lt2p [of v] by simp
  then have "be_value (be_bytes 4 (uint v)) = uint v" by (intro be_value_be_bytes) simp_all
  then show ?thesis by (simp add: Uint32_def PutUint32_def)
qed

lemma PutUint64_Uint64: "length bs = 8 \<Longrightarrow> PutUint64 (Uint64 bs) = bs"
  using be_value_bounds [of bs] be_bytes_be_value [of bs]
  by (simp add: PutUint64_def Uint64_def uint_word_of_int_eq take_bit_int_eq_self)

lemma PutUint32_Uint32: "length bs = 4 \<Longrightarrow> PutUint32 (Uint32 bs) = bs"
  using be_value_bounds [of bs] be_bytes_be_value [of bs]
  by (simp add: PutUint32_def Uint32_def uint_word_of_int_eq take_bit_int_eq_self)

lemma Uint64_self [simp]: "Uint64 (PutUint64 v) = v"
  using Uint64_PutUint64 [of v "[]"] by simp

lemma Uint32_self [simp]: "Uint32 (PutUint32 v) = v"
  using Uint32_PutUint32 [of v "[]"] by simp

lemma PutUint64_inj [simp]: "PutUint64 v = PutUint64 w \<longleftrightarrow> v = w"
  by (metis Uint64_self)

lemma PutUint32_inj [simp]: "PutUint32 v = PutUint32 w \<longleftrightarrow> v = w"
  by (metis Uint32_self)

text \<open>Big-endian integers of one width compare as their bytes do.\<close>

lemma of_char_less_iff: "(of_char c :: int) < of_char d \<longleftrightarrow> c < d"
  unfolding of_char_int less_char_def by simp

lemma less_append_same_length:
  fixes a b :: "'a::linorder list"
  assumes "length a = length b"
  shows "a @ x < b @ y \<longleftrightarrow> a < b \<or> a = b \<and> x < y"
  using assms
proof (induction a b rule: list_induct2)
  case (Cons u a v b)
  then show ?case by auto
qed simp

lemma be_value_less_iff:
  assumes "length a = length b"
  shows "be_value a < be_value b \<longleftrightarrow> a < b"
  using assms
proof (induction a arbitrary: b rule: rev_induct)
  case (snoc c a)
  then obtain e d where b: "b = e @ [d]" and len: "length a = length e"
    by (cases b rule: rev_cases) auto
  have eq: "be_value a = be_value e \<longleftrightarrow> a = e"
    using len be_bytes_be_value [of a] be_bytes_be_value [of e] by metis
  have "be_value a * 256 + of_char c < be_value e * 256 + of_char d \<longleftrightarrow>
        be_value a < be_value e \<or> be_value a = be_value e \<and> (of_char c :: int) < of_char d"
    using of_char_int_bounds [of c] of_char_int_bounds [of d] by linarith
  then show ?case
    using snoc.IH [OF len] eq len by (simp add: b less_append_same_length of_char_less_iff)
qed simp

lemma PutUint64_less_iff: "PutUint64 v < PutUint64 w \<longleftrightarrow> v < w"
proof -
  have "uint u < 256 ^ 8" for u :: uint64 using uint_lt2p [of u] by simp
  then have "be_value (PutUint64 u) = uint u" for u
    unfolding PutUint64_def by (intro be_value_be_bytes) simp_all
  with be_value_less_iff [of "PutUint64 v" "PutUint64 w"] show ?thesis
    by (simp add: word_less_def)
qed

section \<open>Unsigned varints\<close>

text \<open>
  \<^verbatim>\<open>binary.AppendUvarint\<close> appends seven bits at a time, lowest first, with the top bit of every byte
  but the last set; \<^verbatim>\<open>binary.Uvarint\<close> returns the value and the number of bytes read, zero when the
  input ends too early and a negative number when the value does not fit in 64 bits.
\<close>

definition MaxVarintLen64 :: nat where "MaxVarintLen64 = 10"

function AppendUvarint :: "uint64 \<Rightarrow> bytes" where
  "AppendUvarint x =
     (if 0x80 \<le> x then char_of (unat ((ucast x :: 8 word) OR 0x80)) # AppendUvarint (drop_bit 7 x)
      else [char_of (unat (ucast x :: 8 word))])"
  by pat_completeness auto
termination
proof (relation "measure unat")
  fix x :: uint64
  assume "0x80 \<le> x"
  then have "128 \<le> unat x" by (simp add: word_le_nat_alt)
  then show "(drop_bit 7 x, x) \<in> measure unat" by (simp add: drop_bit_eq_div unat_div_distrib)
qed simp

declare AppendUvarint.simps [simp del]

fun uvarint_loop :: "nat \<Rightarrow> uint64 \<Rightarrow> nat \<Rightarrow> bytes \<Rightarrow> uint64 \<times> int" where
  "uvarint_loop i x s [] = (0, 0)"
| "uvarint_loop i x s (c # cs) =
     (if i = MaxVarintLen64 then (0, - (int i + 1))
      else if byte_val c < 0x80 then
        (if i = MaxVarintLen64 - 1 \<and> 1 < byte_val c then (0, - (int i + 1))
         else (x OR push_bit s (of_char c), int i + 1))
      else uvarint_loop (i + 1) (x OR push_bit s (of_char c AND 0x7f)) (s + 7) cs)"

definition Uvarint :: "bytes \<Rightarrow> uint64 \<times> int" where
  "Uvarint data = uvarint_loop 0 0 0 data"

text \<open>The same two functions as arithmetic on natural numbers.\<close>

fun varint_bytes :: "nat \<Rightarrow> bytes" where
  "varint_bytes n = (if n < 128 then [char_of n] else char_of (n mod 128 + 128) # varint_bytes (n div 128))"

declare varint_bytes.simps [simp del]

fun varint_value :: "bytes \<Rightarrow> nat" where
  "varint_value [] = 0"
| "varint_value (c # cs) = byte_val c mod 128 + 128 * varint_value cs"

fun varint :: "bytes \<Rightarrow> bool" where
  "varint [] = False"
| "varint [c] = (byte_val c < 128)"
| "varint (c # cs) = (128 \<le> byte_val c \<and> varint cs)"

lemma varint_Cons: "varint (c # cs) \<longleftrightarrow> (if cs = [] then byte_val c < 128 else 128 \<le> byte_val c \<and> varint cs)"
  by (cases cs) simp_all

lemma varint_bytes_not_Nil [simp]: "varint_bytes n \<noteq> []"
  by (subst varint_bytes.simps) simp

lemma bit_128: "bit (128 :: nat) i \<longleftrightarrow> i = 7"
proof -
  have "bit ((2 :: nat) ^ 7) i \<longleftrightarrow> i = 7" by (auto simp only: bit_exp_iff possible_bit_nat)
  then show ?thesis by simp
qed

lemma or_top_bit: "take_bit 8 n OR 128 = take_bit 7 n OR (128 :: nat)"
  by (rule bit_eqI) (auto simp: bit_or_iff bit_take_bit_iff bit_128)

lemma AppendUvarint_nat: "AppendUvarint x = varint_bytes (unat x)"
proof (induction x rule: AppendUvarint.induct)
  case (1 x)
  show ?case
  proof (cases "0x80 \<le> x")
    case True
    then have n: "128 \<le> unat x" by (simp add: word_le_nat_alt)
    have "unat ((ucast x :: 8 word) OR 0x80) mod 256 = unat x mod 128 + 128"
    proof -
      have "unat ((ucast x :: 8 word) OR 0x80) = take_bit 8 (unat x) OR 128"
        by (simp add: unsigned_or_eq unsigned_ucast_eq)
      also have "\<dots> = take_bit 7 (unat x) OR 128"
        by (rule or_top_bit)
      also have "\<dots> = take_bit 7 (unat x) + 128"
        by (rule disjunctive_add [symmetric]) (simp add: bit_128 bit_take_bit_iff)
      finally show ?thesis by (simp add: take_bit_eq_mod)
    qed
    then have "(char_of (unat ((ucast x :: 8 word) OR 0x80)) :: char) = char_of (unat x mod 128 + 128)"
      by (simp add: char_of_eq_iff take_bit_eq_mod)
    with True n 1 show ?thesis
      by (simp add: AppendUvarint.simps [of x] varint_bytes.simps [of "unat x"] drop_bit_eq_div unat_div_distrib)
  next
    case False
    then have n: "unat x < 128" by (simp add: word_le_nat_alt)
    then have "unat (ucast x :: 8 word) = unat x" by (simp add: unsigned_ucast_eq take_bit_nat_eq_self)
    with False n show ?thesis
      by (simp add: AppendUvarint.simps [of x] varint_bytes.simps [of "unat x"])
  qed
qed

lemma varint_varint_bytes: "varint (varint_bytes n)" and varint_value_bytes: "varint_value (varint_bytes n) = n"
proof (induction n rule: varint_bytes.induct)
  case (1 n)
  { case 1 then show ?case using "1.IH"(1) by (subst varint_bytes.simps) (auto simp: varint_Cons) next
    case 2 then show ?case using "1.IH"(2) by (subst varint_bytes.simps) auto }
qed

lemma varint_bytes_Cons:
  assumes "128 \<le> byte_val c" "v \<noteq> 0"
  shows "varint_bytes (byte_val c mod 128 + 128 * v) = c # varint_bytes v"
proof -
  have "byte_val c - 128 < 128" using assms nat_of_char_less_256 [of c] by linarith
  then have "byte_val c mod 128 + 128 = byte_val c" using assms by (simp add: le_mod_geq)
  with assms show ?thesis by (subst varint_bytes.simps) simp
qed

lemma varint_bytes_canonical:
  "varint cs \<Longrightarrow> length (varint_bytes (varint_value cs)) \<le> length cs \<and>
     (length (varint_bytes (varint_value cs)) = length cs \<longrightarrow> varint_bytes (varint_value cs) = cs)"
proof (induction cs rule: varint.induct)
  case (3 c d cs)
  let ?v = "varint_value (d # cs)"
  have IH: "length (varint_bytes ?v) \<le> length (d # cs)"
    "length (varint_bytes ?v) = length (d # cs) \<Longrightarrow> varint_bytes ?v = d # cs"
    using 3 by simp_all
  show ?case
  proof (cases "?v = 0")
    case True
    then have "varint_bytes (varint_value (c # d # cs)) = [char_of (byte_val c mod 128)]"
      by (subst varint_bytes.simps) simp
    then show ?thesis by simp
  next
    case False
    with 3 have "varint_bytes (varint_value (c # d # cs)) = c # varint_bytes ?v"
      unfolding varint_value.simps(2) [of c "d # cs"] by (intro varint_bytes_Cons) simp_all
    with IH show ?thesis by auto
  qed
qed (simp_all add: varint_bytes.simps)

lemma unat_or_push_bit:
  fixes x :: uint64
  assumes "unat x < 2 ^ s" "m * 2 ^ s < 2 ^ 64"
  shows "unat (x OR push_bit s (of_nat m)) = unat x + m * 2 ^ s"
proof -
  have "m < 2 ^ 64"
  proof -
    have "m * 1 \<le> m * 2 ^ s" by (intro mult_le_mono2) simp
    with assms(2) show ?thesis by linarith
  qed
  then have "unat (push_bit s (of_nat m :: uint64)) = push_bit s m"
    using assms(2)
    by (simp add: unsigned_push_bit_eq unsigned_of_nat take_bit_nat_eq_self del: push_bit_of_nat)
      (simp add: push_bit_eq_mult take_bit_nat_eq_self)
  then have "unat (x OR push_bit s (of_nat m)) = unat x OR push_bit s m"
    by (simp add: unsigned_or_eq)
  also have "\<dots> = unat x + push_bit s m"
  proof (rule disjunctive_add [symmetric])
    fix k
    have "unat x = take_bit s (unat x)" using assms(1) by (simp add: take_bit_nat_eq_self)
    then have "bit (unat x) k \<longrightarrow> k < s" by (metis bit_take_bit_iff)
    then show "\<not> bit (unat x) k \<or> \<not> bit (push_bit s m) k" by (auto simp: bit_push_bit_iff)
  qed
  finally show ?thesis by (simp add: push_bit_eq_mult)
qed

lemma of_char_word: "(of_char c :: uint64) = of_nat (byte_val c)"
  by (simp add: of_nat_of_char)

lemma of_char_and: "(of_char c AND 0x7f :: uint64) = of_nat (byte_val c mod 128)"
proof -
  have "(of_char c AND 0x7f :: uint64) = take_bit 7 (of_nat (byte_val c))"
    by (simp add: of_char_word take_bit_eq_mask mask_eq_exp_minus_1)
  also have "\<dots> = of_nat (take_bit 7 (byte_val c))" by (simp add: take_bit_of_nat)
  finally show ?thesis by (simp add: take_bit_eq_mod)
qed

text \<open>The value of at most ten bytes fits in 64 bits when a tenth byte is at most one.\<close>

definition fits64 :: "nat \<Rightarrow> bytes \<Rightarrow> bool" where
  "fits64 i cs \<longleftrightarrow> i + length cs \<le> MaxVarintLen64 \<and> (i + length cs = MaxVarintLen64 \<longrightarrow> byte_val (last cs) \<le> 1)"

lemma uvarint_loop_value:
  assumes "varint cs" "fits64 i cs" "unat x < 2 ^ (7 * i)"
  shows "snd (uvarint_loop i x (7 * i) (cs @ rest)) = int (i + length cs) \<and>
    unat (fst (uvarint_loop i x (7 * i) (cs @ rest))) = unat x + varint_value cs * 2 ^ (7 * i)"
  using assms
proof (induction cs arbitrary: i x)
  case (Cons c cs)
  have i: "i \<le> 9" using Cons.prems(2) by (auto simp: fits64_def MaxVarintLen64_def)
  show ?case
  proof (cases "cs = []")
    case True
    then have c: "byte_val c < 128" "i = 9 \<longrightarrow> byte_val c \<le> 1"
      using Cons.prems by (auto simp: fits64_def MaxVarintLen64_def)
    have "byte_val c * 2 ^ (7 * i) < 2 ^ 64"
    proof (cases "i = 9")
      case True
      with c have "byte_val c * 2 ^ (7 * i) \<le> 1 * 2 ^ (7 * i)" by (intro mult_le_mono1) simp
      with True show ?thesis by simp
    next
      case False
      with i have "i \<le> 8" by simp
      have "byte_val c * 2 ^ (7 * i) < 2 ^ 7 * 2 ^ (7 * i)" using c by simp
      also have "\<dots> \<le> 2 ^ 7 * 2 ^ 56"
        by (intro mult_le_mono2 power_increasing) (use \<open>i \<le> 8\<close> in simp_all)
      finally show ?thesis by simp
    qed
    from unat_or_push_bit [OF Cons.prems(3) this] show ?thesis
      using True c i by (auto simp: MaxVarintLen64_def of_char_word)
  next
    case False
    with Cons.prems have c: "128 \<le> byte_val c" and cs: "varint cs" by (simp_all add: varint_Cons)
    from False Cons.prems(2) have f: "fits64 (i + 1) cs"
      by (auto simp: fits64_def MaxVarintLen64_def)
    have "i \<le> 8" using False Cons.prems(2) by (cases cs) (simp_all add: fits64_def MaxVarintLen64_def)
    let ?y = "x OR push_bit (7 * i) (of_char c AND 0x7f)"
    have lt: "byte_val c mod 128 * 2 ^ (7 * i) + 2 ^ (7 * i) \<le> 2 ^ (7 * (i + 1))"
    proof -
      have "byte_val c mod 128 + 1 \<le> 128" using mod_less_divisor [of 128 "byte_val c"] by linarith
      then have "(byte_val c mod 128 + 1) * 2 ^ (7 * i) \<le> 128 * 2 ^ (7 * i)" by (intro mult_le_mono1)
      then show ?thesis by (simp add: power_add algebra_simps)
    qed
    moreover have "(2 :: nat) ^ (7 * (i + 1)) \<le> 2 ^ 63"
      using \<open>i \<le> 8\<close> by (intro power_increasing) simp_all
    ultimately have "byte_val c mod 128 * 2 ^ (7 * i) < 2 ^ 64" by simp
    from unat_or_push_bit [OF Cons.prems(3) this]
    have y: "unat ?y = unat x + byte_val c mod 128 * 2 ^ (7 * i)" by (simp add: of_char_and)
    with lt Cons.prems(3) have "unat ?y < 2 ^ (7 * (i + 1))" by linarith
    note IH = Cons.IH [OF cs f this]
    have step: "uvarint_loop i x (7 * i) ((c # cs) @ rest) = uvarint_loop (i + 1) ?y (7 * (i + 1)) (cs @ rest)"
      using c i by (simp add: MaxVarintLen64_def add.commute)
    show ?thesis unfolding step using IH y by (simp add: power_add algebra_simps)
  qed
qed simp

lemma uvarint_loop_shape:
  assumes "uvarint_loop i x s data = (v, n)" "0 < n" "i \<le> MaxVarintLen64"
  shows "\<exists>cs rest. data = cs @ rest \<and> varint cs \<and> fits64 i cs \<and> n = int (i + length cs)"
  using assms
proof (induction i x s data rule: uvarint_loop.induct)
  case (2 i x s c cs)
  have i: "i < MaxVarintLen64" using "2.prems" by (auto split: if_splits)
  show ?case
  proof (cases "byte_val c < 0x80")
    case True
    with "2.prems" i have "fits64 i [c]" "n = int (i + 1)"
      by (auto simp: fits64_def split: if_splits)
    with True show ?thesis by (intro exI [of _ "[c]"] exI [of _ cs]) simp
  next
    case False
    with "2.prems" i have loop: "uvarint_loop (i + 1) (x OR push_bit s (of_char c AND 0x7f)) (s + 7) cs = (v, n)"
      by simp
    with False i obtain ds rest where ds: "cs = ds @ rest" "varint ds" "fits64 (i + 1) ds" "n = int (i + 1 + length ds)"
      using "2.IH" [OF _ False loop "2.prems"(2)] by auto
    then have "varint (c # ds)" "fits64 i (c # ds)"
      using False by (auto simp: varint_Cons fits64_def)
    with ds show ?thesis by (intro exI [of _ "c # ds"] exI [of _ rest]) simp
  qed
qed simp


lemma length_varint_bytes: "n < 128 ^ k \<Longrightarrow> 0 < k \<Longrightarrow> length (varint_bytes n) \<le> k"
proof (induction n arbitrary: k rule: varint_bytes.induct)
  case (1 n)
  show ?case
  proof (cases "n < 128")
    case True
    with 1 show ?thesis by (subst varint_bytes.simps) simp
  next
    case False
    with "1.prems" obtain j where k: "k = Suc (Suc j)"
      by (cases k; cases "k - 1") auto
    have "n div 128 < 128 ^ Suc j"
      using "1.prems"(1) by (simp add: k div_less_iff_less_mult mult.commute)
    then have "length (varint_bytes (n div 128)) \<le> Suc j" using "1.IH" [OF False] by blast
    with False show ?thesis by (subst varint_bytes.simps) (simp add: k)
  qed
qed

lemma varint_last_le: "varint cs \<Longrightarrow> byte_val (last cs) * 128 ^ (length cs - 1) \<le> varint_value cs"
proof (induction cs rule: varint.induct)
  case (3 c d cs)
  then have "byte_val (last (d # cs)) * 128 ^ length cs \<le> varint_value (d # cs)" by simp
  then have "128 * (byte_val (last (d # cs)) * 128 ^ length cs) \<le> 128 * varint_value (d # cs)" by simp
  then show ?case by (simp add: algebra_simps)
qed simp_all

lemma fits64_varint_bytes: "n < 2 ^ 64 \<Longrightarrow> fits64 0 (varint_bytes n)"
proof -
  assume n: "n < 2 ^ 64"
  then have "n < 128 ^ 10" by simp
  then have len: "length (varint_bytes n) \<le> 10" by (rule length_varint_bytes) simp
  have "byte_val (last (varint_bytes n)) \<le> 1" if "length (varint_bytes n) = 10"
  proof -
    have "byte_val (last (varint_bytes n)) * 128 ^ 9 \<le> n"
      using varint_last_le [OF varint_varint_bytes [of n]] that by (simp add: varint_value_bytes)
    with n show ?thesis by simp
  qed
  with len show ?thesis by (simp add: fits64_def MaxVarintLen64_def)
qed

lemma Uvarint_AppendUvarint: "Uvarint (AppendUvarint v @ rest) = (v, int (length (AppendUvarint v)))"
proof -
  let ?r = "uvarint_loop 0 0 (7 * 0) (varint_bytes (unat v) @ rest)"
  have "unat v < 2 ^ 64" using unsigned_less [of v, where ?'a = nat] by simp
  from uvarint_loop_value [OF varint_varint_bytes fits64_varint_bytes [OF this], of 0 rest]
  have "snd ?r = int (length (varint_bytes (unat v)))" "unat (fst ?r) = unat v"
    by (simp_all add: varint_value_bytes)
  then have "?r = (v, int (length (varint_bytes (unat v))))" by (metis prod.collapse word_unat_eq_iff)
  then show ?thesis by (simp add: Uvarint_def AppendUvarint_nat)
qed

lemma Uvarint_canonical:
  assumes "Uvarint data = (v, n)" "0 < n" "int (length (AppendUvarint v)) = n"
  shows "data = AppendUvarint v @ drop (nat n) data"
proof -
  from uvarint_loop_shape [of 0 0 0 data v n] assms
  obtain cs rest where cs: "data = cs @ rest" "varint cs" "fits64 0 cs" "n = int (length cs)"
    by (auto simp: Uvarint_def)
  have "unat (fst (uvarint_loop 0 0 (7 * 0) (cs @ rest))) = varint_value cs"
    using uvarint_loop_value [OF cs(2,3), of 0 rest] by simp
  with assms(1) cs(1) have v: "unat v = varint_value cs" by (simp add: Uvarint_def)
  have "AppendUvarint v = cs"
    using varint_bytes_canonical [OF cs(2)] assms(3) cs(4) v by (simp add: AppendUvarint_nat)
  with cs show ?thesis by simp
qed

lemma length_AppendUvarint: "length (AppendUvarint v) \<le> MaxVarintLen64"
proof -
  have "unat v < 2 ^ 64" using unsigned_less [of v, where ?'a = nat] by simp
  from fits64_varint_bytes [OF this] show ?thesis by (simp add: fits64_def AppendUvarint_nat)
qed

lemma AppendUvarint_not_Nil [simp]: "AppendUvarint v \<noteq> []"
  by (simp add: AppendUvarint_nat)

section \<open>Keys of the store\<close>

text \<open>
  \<open>numberKey\<close> is a prefix byte and a big-endian index; \<open>segmentedKey\<close> a prefix byte and
  length-framed strings (the length is the low 32 bits of the string's length);
  \<open>materializedSegmentKey\<close> a prefix byte, a framed workflow and a big-endian index. \<open>prefixUpper\<close>
  is the exclusive upper bound of the keys that start with a prefix; \<open>None\<close> is Go's nil, no bound.
\<close>

definition numberKey :: "char \<Rightarrow> uint64 \<Rightarrow> bytes" where
  "numberKey pre val = pre # PutUint64 val"

definition frame32 :: "string \<Rightarrow> bytes" where
  "frame32 val = PutUint32 (of_nat (length val)) @ val"

definition segmentedKey :: "char \<Rightarrow> string list \<Rightarrow> bytes" where
  "segmentedKey pre vals = pre # concat (map frame32 vals)"

definition materializedSegmentKey :: "char \<Rightarrow> string \<Rightarrow> uint64 \<Rightarrow> bytes" where
  "materializedSegmentKey pre workflowID appliedIndex =
     pre # PutUint32 (of_nat (length workflowID)) @ workflowID @ PutUint64 appliedIndex"

definition prefixBounds :: "char \<Rightarrow> bytes \<times> bytes" where
  "prefixBounds pre = ([pre], [char_of (byte_val pre + 1)])"

fun upper_loop :: "bytes \<Rightarrow> bytes option" where
  "upper_loop [] = None"
| "upper_loop (c # cs) = (if byte_val c \<noteq> 0xff then Some (rev (char_of (byte_val c + 1) # cs)) else upper_loop cs)"

definition prefixUpper :: "bytes \<Rightarrow> bytes option" where
  "prefixUpper pre = upper_loop (rev pre)"

text \<open>
  \<open>segmentedValues\<close> reads the framed strings of a key back; the loop keeps the unread tail instead of
  the position in the key.
\<close>

fun segmented_loop :: "nat \<Rightarrow> bytes \<Rightarrow> (string list \<times> bytes) option" where
  "segmented_loop 0 data = Some ([], data)"
| "segmented_loop (Suc n) data =
     (if length data < 4 then None
      else let len = unat (Uint32 (take 4 data)); body = drop 4 data in
        if len = 0 \<or> length body < len then None
        else case segmented_loop n (drop len body) of
          None \<Rightarrow> None
        | Some (vs, r) \<Rightarrow> Some (take len body # vs, r))"

definition segmentedValues :: "bytes \<Rightarrow> char \<Rightarrow> nat \<Rightarrow> string list option" where
  "segmentedValues key pre n =
     (case key of
        [] \<Rightarrow> None
      | c # data \<Rightarrow>
          if length key < 6 \<or> c \<noteq> pre then None
          else case segmented_loop n data of
            None \<Rightarrow> None
          | Some (vs, r) \<Rightarrow> if r \<noteq> [] then None else Some vs)"


text \<open>Strings whose length fits the 32-bit frame.\<close>

definition short32 :: "string \<Rightarrow> bool" where
  "short32 val \<longleftrightarrow> length val < 2 ^ 32"

lemma unat_length32: "short32 val \<Longrightarrow> unat (of_nat (length val) :: uint32) = length val"
  by (simp add: short32_def unsigned_of_nat take_bit_nat_eq_self)

lemma numberKey_less_iff: "numberKey pre v < numberKey pre w \<longleftrightarrow> v < w"
  by (simp add: numberKey_def PutUint64_less_iff)

lemma numberKey_inj [simp]: "numberKey p v = numberKey q w \<longleftrightarrow> p = q \<and> v = w"
  by (auto simp: numberKey_def)

lemma length_numberKey [simp]: "length (numberKey p v) = 9"
  by (simp add: numberKey_def)

lemma Uint64_numberKey [simp]: "Uint64 (drop 1 (numberKey p v)) = v"
  by (simp add: numberKey_def)

lemma numberKey_of: "length key = 9 \<Longrightarrow> key = numberKey (hd key) (Uint64 (drop 1 key))"
  by (cases key) (simp_all add: numberKey_def PutUint64_Uint64)

lemma segmented_loop_frames:
  assumes "\<forall>v \<in> set vals. short32 v \<and> v \<noteq> ''''"
  shows "segmented_loop (length vals) (concat (map frame32 vals) @ rest) = Some (vals, rest)"
  using assms by (induction vals) (simp_all add: frame32_def unat_length32)

lemma segmentedValues_segmentedKey:
  assumes "\<forall>v \<in> set vals. short32 v \<and> v \<noteq> ''''" "vals \<noteq> []"
  shows "segmentedValues (segmentedKey pre vals) pre (length vals) = Some vals"
proof -
  obtain v vs where "vals = v # vs" using assms(2) by (cases vals) auto
  with assms(1) have "6 \<le> length (segmentedKey pre vals)"
    by (cases v) (simp_all add: segmentedKey_def frame32_def)
  with segmented_loop_frames [OF assms(1), of "[]"] show ?thesis
    by (simp add: segmentedValues_def segmentedKey_def)
qed

lemma segmented_loop_Some:
  "segmented_loop n data = Some (vals, rest) \<Longrightarrow>
     data = concat (map frame32 vals) @ rest \<and> length vals = n \<and> (\<forall>v \<in> set vals. short32 v \<and> v \<noteq> '''')"
proof (induction n arbitrary: data vals)
  case (Suc n)
  let ?len = "unat (Uint32 (take 4 data))"
  from Suc.prems obtain vs where le: "\<not> length data < 4" "?len \<noteq> 0" "\<not> length (drop 4 data) < ?len"
    and vs: "segmented_loop n (drop ?len (drop 4 data)) = Some (vs, rest)"
    and vals: "vals = take ?len (drop 4 data) # vs"
    by (auto simp: Let_def split: if_splits option.splits)
  have "PutUint32 (Uint32 (take 4 data)) = take 4 data" using le(1) by (intro PutUint32_Uint32) simp
  moreover have "?len < 2 ^ 32" using unsigned_less [of "Uint32 (take 4 data)", where ?'a = nat] by simp
  ultimately have "frame32 (take ?len (drop 4 data)) = take 4 data @ take ?len (drop 4 data)"
    and "short32 (take ?len (drop 4 data))"
    using le by (simp_all add: frame32_def short32_def)
  moreover have "data = take 4 data @ take ?len (drop 4 data) @ drop ?len (drop 4 data)"
    by (metis append_take_drop_id)
  moreover have "take ?len (drop 4 data) \<noteq> ''''" using le by auto
  ultimately show ?case using Suc.IH [OF vs] vals by simp
qed simp

lemma segmentedValues_Some:
  assumes "segmentedValues key pre n = Some vals"
  shows "key = segmentedKey pre vals" and "length vals = n" and "\<forall>v \<in> set vals. short32 v \<and> v \<noteq> ''''"
proof -
  from assms obtain data where "key = pre # data" "segmented_loop n data = Some (vals, [])"
    by (auto simp: segmentedValues_def split: list.splits if_splits option.splits)
  with segmented_loop_Some [of n data vals "[]"]
  show "key = segmentedKey pre vals" and "length vals = n" and "\<forall>v \<in> set vals. short32 v \<and> v \<noteq> ''''"
    by (simp_all add: segmentedKey_def)
qed

lemma frame32_append_inj:
  assumes "short32 a" "short32 b" "frame32 a @ x = frame32 b @ y"
  shows "a = b \<and> x = y"
proof -
  have "PutUint32 (of_nat (length a)) = PutUint32 (of_nat (length b))" and rest: "a @ x = b @ y"
    using assms(3) by (simp_all add: frame32_def append_eq_append_conv)
  then have "unat (of_nat (length a) :: uint32) = unat (of_nat (length b) :: uint32)" by simp
  then have "length a = length b" using assms(1,2) by (simp add: unat_length32)
  with rest show ?thesis by simp
qed

lemma segmentedKey_inj:
  assumes "\<forall>v \<in> set vs \<union> set ws. short32 v" "length vs = length ws" "segmentedKey p vs = segmentedKey q ws"
  shows "p = q \<and> vs = ws"
proof -
  have "concat (map frame32 vs) = concat (map frame32 ws)" and "p = q"
    using assms(3) by (simp_all add: segmentedKey_def)
  with assms(2,1) show ?thesis
  proof (induction vs ws rule: list_induct2)
    case (Cons v vs w ws)
    from Cons.prems have "frame32 v @ concat (map frame32 vs) = frame32 w @ concat (map frame32 ws)" by simp
    from frame32_append_inj [OF _ _ this] Cons.prems(1)
    have "v = w" "concat (map frame32 vs) = concat (map frame32 ws)" by simp_all
    with Cons.IH Cons.prems show ?case by (metis UnCI UnE list.set_intros(2))
  qed simp
qed

lemma materializedSegmentKey_inj:
  assumes "short32 w" "short32 v" "materializedSegmentKey p w i = materializedSegmentKey q v j"
  shows "p = q \<and> w = v \<and> i = j"
proof -
  have "frame32 w @ PutUint64 i = frame32 v @ PutUint64 j" "p = q"
    using assms(3) by (simp_all add: materializedSegmentKey_def frame32_def)
  with frame32_append_inj [OF assms(1,2) this(1)] show ?thesis by simp
qed


section \<open>Range scans\<close>

text \<open>
  \<open>bytes_in lo hi\<close> are the keys a scan with \<^verbatim>\<open>LowerBound: lo\<close> and \<^verbatim>\<open>UpperBound: hi\<close> visits, and the
  keys \<^verbatim>\<open>DeleteRange\<close> removes. The bounds that \<open>prefixUpper\<close> computes cover exactly the keys that
  start with the prefix, also when the prefix ends in \<^verbatim>\<open>0xff\<close> bytes.
\<close>

definition in_range :: "bytes \<Rightarrow> bytes option \<Rightarrow> bytes \<Rightarrow> bool" where
  "in_range lo hi key \<longleftrightarrow> lo \<le> key \<and> (case hi of None \<Rightarrow> True | Some u \<Rightarrow> key < u)"

lemma in_range_Some [simp]: "in_range lo (Some u) key \<longleftrightarrow> lo \<le> key \<and> key < u"
  by (simp add: in_range_def)

text \<open>The argument holds for lists over any linear order with a greatest element.\<close>

lemma all_top_le:
  fixes m :: "'a::linorder"
  assumes "\<And>d. d \<le> m" "\<forall>c \<in> set f. c = m"
  shows "f \<le> key \<longleftrightarrow> prefix f key"
  using assms(2)
proof (induction f arbitrary: key)
  case (Cons c f)
  have "\<not> m < d" for d using assms(1) [of d] by simp
  with Cons show ?case by (cases key) auto
qed simp

lemma bumped_range:
  fixes c :: "'a::linorder"
  assumes "\<And>d. d < c' \<longleftrightarrow> d \<le> c" "\<And>d. d \<le> m" "\<forall>d \<in> set f. d = m"
  shows "p @ c # f \<le> key \<and> key < p @ [c'] \<longleftrightarrow> prefix (p @ c # f) key"
proof (induction p arbitrary: key)
  case Nil
  show ?case
  proof (cases key)
    case (Cons b k)
    have "b # k < [c'] \<longleftrightarrow> b \<le> c" using assms(1) by simp
    moreover have "c # f \<le> b # k \<longleftrightarrow> c < b \<or> c = b \<and> prefix f k"
      by (simp add: all_top_le [OF assms(2,3)])
    ultimately show ?thesis unfolding Cons by auto
  qed simp
next
  case (Cons a p)
  note IH = Cons.IH
  show ?case
  proof (cases key)
    case (Cons b k)
    have "a < b \<longrightarrow> \<not> b < a" by auto
    then show ?thesis unfolding Cons using IH [of k] by auto
  qed simp
qed

lemma byte_val_top: "byte_val (CHR 0xFF) = 255"
  by simp

lemma char_le_top: "c \<le> CHR 0xFF"
  using nat_of_char_less_256 [of c] unfolding less_eq_char_def byte_val_top by linarith

lemma char_succ:
  assumes "byte_val c \<noteq> 0xff"
  shows "d < char_of (byte_val c + 1) \<longleftrightarrow> d \<le> c"
proof -
  have "byte_val c + 1 < 256" using assms nat_of_char_less_256 [of c] by linarith
  then have "byte_val (char_of (byte_val c + 1)) = byte_val c + 1" by simp
  then show ?thesis unfolding less_char_def less_eq_char_def by linarith
qed

lemma upper_loop_cases:
  "(upper_loop cs = None \<and> (\<forall>d \<in> set cs. d = CHR 0xFF)) \<or>
   (\<exists>f c p. cs = f @ c # p \<and> (\<forall>d \<in> set f. d = CHR 0xFF) \<and> byte_val c \<noteq> 0xff \<and>
      upper_loop cs = Some (rev p @ [char_of (byte_val c + 1)]))"
proof (induction cs)
  case (Cons c cs)
  show ?case
  proof (cases "byte_val c = 0xff")
    case True
    then have c: "c = CHR 0xFF" using byte_val_top by (metis of_char_eq_iff)
    from True have loop: "upper_loop (c # cs) = upper_loop cs" by simp
    from Cons.IH show ?thesis
    proof
      assume "\<exists>f c p. cs = f @ c # p \<and> (\<forall>d \<in> set f. d = CHR 0xFF) \<and> byte_val c \<noteq> 0xff \<and>
        upper_loop cs = Some (rev p @ [char_of (byte_val c + 1)])"
      then obtain f e p where "cs = f @ e # p" "\<forall>d \<in> set f. d = CHR 0xFF" "byte_val e \<noteq> 0xff"
        "upper_loop cs = Some (rev p @ [char_of (byte_val e + 1)])" by (elim exE conjE)
      then have "c # cs = (c # f) @ e # p \<and> (\<forall>d \<in> set (c # f). d = CHR 0xFF) \<and> byte_val e \<noteq> 0xff \<and>
        upper_loop (c # cs) = Some (rev p @ [char_of (byte_val e + 1)])"
        unfolding loop using c by simp
      then show ?thesis by (intro disjI2 exI)
    qed (simp add: c)
  next
    case False
    then show ?thesis by (intro disjI2 exI [of _ "[]"] exI [of _ c] exI [of _ cs]) simp
  qed
qed simp

lemma in_range_prefixUpper: "in_range pre (prefixUpper pre) key \<longleftrightarrow> prefix pre key"
proof (cases rule: disjE [OF upper_loop_cases [of "rev pre"]])
  case 1
  then show ?thesis by (simp add: prefixUpper_def in_range_def all_top_le [OF char_le_top])
next
  case 2
  then obtain f c p where f: "rev pre = f @ c # p" "\<forall>d \<in> set f. d = CHR 0xFF" "byte_val c \<noteq> 0xff"
    "prefixUpper pre = Some (rev p @ [char_of (byte_val c + 1)])"
    unfolding prefixUpper_def by (elim exE conjE)
  have pre: "pre = rev p @ c # rev f" using arg_cong [OF f(1), of rev] by simp
  have ff: "\<forall>d \<in> set (rev f). d = CHR 0xFF" using f(2) by (simp only: set_rev)
  have "in_range pre (prefixUpper pre) key \<longleftrightarrow> pre \<le> key \<and> key < rev p @ [char_of (byte_val c + 1)]"
    unfolding f(4) by (rule in_range_Some)
  also have "\<dots> \<longleftrightarrow> prefix pre key"
    unfolding pre by (rule bumped_range [OF char_succ [OF f(3)] char_le_top ff])
  finally show ?thesis .
qed

lemma in_range_prefixBounds:
  assumes "byte_val pre \<noteq> 0xff"
  shows "in_range (fst (prefixBounds pre)) (Some (snd (prefixBounds pre))) key \<longleftrightarrow> prefix [pre] key"
  using bumped_range [OF char_succ [OF assms] char_le_top, of "[]" "[]" key] by (simp add: prefixBounds_def)

end
