(* ===== verification/Chronos_Records.thy ===== *)
theory Chronos_Records
  imports Chronos_Engine Chronos_Bytes "HOL-Library.Product_Lexorder"
begin

text \<open>
  The records of the storage layer: \<^verbatim>\<open>internal/storage/types.go\<close>, the JSON and snapshot framing of
  \<^verbatim>\<open>codec.go\<close>, the binary receipts of \<^verbatim>\<open>receipt.go\<close> and the segments of \<^verbatim>\<open>segments.go\<close>.
  \<^verbatim>\<open>encoding/json\<close> on a given struct, \<^verbatim>\<open>snappy\<close> and the digest are arguments of the definitions
  (\<open>J\<close>, \<open>S\<close>, \<open>H\<close>); what the code relies on is stated by \<open>json_ok\<close>, \<open>snappy_ok\<close> and the
  length of a digest.
\<close>

section \<open>Errors and constants\<close>

text \<open>
  The sentinels of \<^verbatim>\<open>types.go\<close>, those of the raft library that the storage layer returns, an error
  of a codec, an error of the database, an error of the core package, and \<open>StoreFault\<close> for an error
  made by \<^verbatim>\<open>fmt.Errorf\<close> around no sentinel.
\<close>

datatype store_err =
    ErrStoreIdentity
  | ErrStoreVersion
  | ErrRecordVersion
  | ErrAppliedGap
  | ErrCorruptSnapshot
  | ErrInjectedCrash string
  | ErrCompacted
  | ErrUnavailable
  | ErrSnapOutOfDate
  | CodecError
  | DatabaseError
  | CoreError err
  | StoreFault

definition SchemaVersion :: uint32 where "SchemaVersion = 6"
definition ApplicationEntryVersion :: uint32 where "ApplicationEntryVersion = 1"
definition ReceiptVersion :: uint32 where "ReceiptVersion = 2"
definition OutcomeVersion :: uint32 where "OutcomeVersion = 2"
definition TaskResultVersion :: uint32 where "TaskResultVersion = 3"
definition SnapshotVersion :: uint32 where "SnapshotVersion = 4"

lemmas version_defs =
  SchemaVersion_def ApplicationEntryVersion_def ReceiptVersion_def OutcomeVersion_def
  TaskResultVersion_def SnapshotVersion_def

section \<open>Structs\<close>

record ApplicationEntry =
  ae_Version :: uint32
  ae_Index :: uint64
  ae_Term :: uint64
  ae_Batches :: "CommandBatch list"

record Receipt =
  rt_Version :: uint32
  rt_RequestID :: string
  rt_RequestHash :: string
  rt_AppliedIndex :: uint64
  rt_CommittedTerm :: uint64
  rt_Result :: Result

record Outcome =
  oc_Version :: uint32
  oc_RequestID :: string
  oc_RequestHash :: string
  oc_AppliedIndex :: uint64
  oc_CommittedTerm :: uint64
  oc_Result :: Result
  oc_Code :: string
  oc_Message :: string

record TaskResult =
  tr_Version :: uint32
  tr_WorkflowID :: string
  tr_TaskID :: string
  tr_EventKind :: EventKind
  tr_TaskType :: string
  tr_Phase :: string
  tr_AttemptID :: string
  tr_Attempt :: uint32
  tr_Status :: TaskStatus
  tr_Output :: kvs
  tr_Error :: string
  tr_Sequence :: uint64
  tr_AppliedIndex :: uint64
  tr_At :: int64
  tr_WorkerID :: string
  tr_Fence :: uint64
  tr_Idempotency :: string

record AppliedState =
  as_Index :: uint64
  as_Term :: uint64

record SnapshotImage =
  si_Version :: uint32
  si_ClusterID :: string
  si_AppliedIndex :: uint64
  si_Term :: uint64
  si_Engine :: EngineSnapshot
  si_Outcomes :: "Outcome list"
  si_TaskResults :: "TaskResult list"

section \<open>JSON records\<close>

record 'a json =
  js_Marshal :: "'a \<Rightarrow> bytes option"
  js_Unmarshal :: "bytes \<Rightarrow> 'a option"

record snappy =
  sn_Encode :: "bytes \<Rightarrow> bytes"
  sn_DecodedLen :: "bytes \<Rightarrow> int option"
  sn_Decode :: "bytes \<Rightarrow> bytes option"

definition jsonSnappyMagic :: bytes where
  "jsonSnappyMagic = CHR 0x00 # ''CHRJ'' @ [CHR 0x01]"

definition maxJSONRecordBytes :: nat where "maxJSONRecordBytes = 67108864"
definition minJSONCompressionBytes :: nat where "minJSONCompressionBytes = 256"

definition encodeJSON :: "snappy \<Rightarrow> 'a json \<Rightarrow> 'a \<Rightarrow> store_err + bytes" where
  "encodeJSON S J val =
     (case js_Marshal J val of
        None \<Rightarrow> Inl CodecError
      | Some data \<Rightarrow>
          if length data < minJSONCompressionBytes \<or> maxJSONRecordBytes < length data then Inr data
          else
            let compressed = sn_Encode S data in
            if length data \<le> length jsonSnappyMagic + length compressed then Inr data
            else Inr (jsonSnappyMagic @ compressed))"

definition unmarshal :: "'a json \<Rightarrow> bytes \<Rightarrow> store_err + 'a" where
  "unmarshal J data = (case js_Unmarshal J data of None \<Rightarrow> Inl CodecError | Some val \<Rightarrow> Inr val)"

definition decodeJSON :: "snappy \<Rightarrow> 'a json \<Rightarrow> bytes \<Rightarrow> store_err + 'a" where
  "decodeJSON S J data =
     (case strip_prefix jsonSnappyMagic data of
        None \<Rightarrow> unmarshal J data
      | Some body \<Rightarrow>
          (case sn_DecodedLen S body of
             None \<Rightarrow> Inl CodecError
           | Some decodedLength \<Rightarrow>
               if int maxJSONRecordBytes < decodedLength then Inl StoreFault
               else case sn_Decode S body of
                 None \<Rightarrow> Inl CodecError
               | Some decoded \<Rightarrow> unmarshal J decoded))"

text \<open>
  What the codecs promise: a value that can be marshalled is read back from its JSON, and JSON never
  starts with a zero byte; compressed data has the length and the contents of its source.
\<close>

definition json_ok :: "'a json \<Rightarrow> 'a \<Rightarrow> bool" where
  "json_ok J val \<longleftrightarrow> (\<exists>data. js_Marshal J val = Some data \<and> js_Unmarshal J data = Some val \<and>
     strip_prefix jsonSnappyMagic data = None)"

definition snappy_ok :: "snappy \<Rightarrow> bool" where
  "snappy_ok S \<longleftrightarrow> (\<forall>data. sn_DecodedLen S (sn_Encode S data) = Some (int (length data)) \<and>
     sn_Decode S (sn_Encode S data) = Some data)"

lemma decode_encodeJSON:
  assumes "json_ok J val" "snappy_ok S"
  shows "\<exists>data. encodeJSON S J val = Inr data \<and> decodeJSON S J data = Inr val"
proof -
  obtain data where data: "js_Marshal J val = Some data" "js_Unmarshal J data = Some val"
    "strip_prefix jsonSnappyMagic data = None"
    using assms(1) by (auto simp: json_ok_def)
  show ?thesis
  proof (cases "length data < minJSONCompressionBytes \<or> maxJSONRecordBytes < length data \<or>
      length data \<le> length jsonSnappyMagic + length (sn_Encode S data)")
    case True
    then have "encodeJSON S J val = Inr data" by (auto simp: encodeJSON_def data Let_def)
    moreover have "decodeJSON S J data = Inr val" by (simp add: decodeJSON_def unmarshal_def data)
    ultimately show ?thesis by blast
  next
    case False
    have magic: "strip_prefix jsonSnappyMagic (jsonSnappyMagic @ sn_Encode S data) = Some (sn_Encode S data)"
      by (simp add: strip_prefix_Some)
    have "encodeJSON S J val = Inr (jsonSnappyMagic @ sn_Encode S data)"
      using False by (auto simp: encodeJSON_def data Let_def)
    moreover have "decodeJSON S J (jsonSnappyMagic @ sn_Encode S data) = Inr val"
      using False assms(2) by (auto simp: decodeJSON_def unmarshal_def data magic snappy_ok_def)
    ultimately show ?thesis by blast
  qed
qed

section \<open>Snapshot images\<close>

definition snapshotMagic :: bytes where "snapshotMagic = ''CHRSNP01''"

definition sha256_Size :: nat where "sha256_Size = 32"

definition encodeSnapshotImage :: "digest \<Rightarrow> SnapshotImage json \<Rightarrow> SnapshotImage \<Rightarrow> store_err + bytes" where
  "encodeSnapshotImage H J img =
     (case js_Marshal J img of
        None \<Rightarrow> Inl CodecError
      | Some payload \<Rightarrow>
          let framed = snapshotMagic @ PutUint64 (of_nat (length payload)) @ payload
          in Inr (framed @ H framed))"

definition decodeSnapshotImage :: "digest \<Rightarrow> SnapshotImage json \<Rightarrow> bytes \<Rightarrow> store_err + SnapshotImage" where
  "decodeSnapshotImage H J data =
     (if length data < 16 + sha256_Size \<or> take 8 data \<noteq> snapshotMagic then Inl ErrCorruptSnapshot
      else
        let len = Uint64 (take 8 (drop 8 data)) in
        if 4294967296 < len \<or> len \<noteq> of_nat (length data - 16 - sha256_Size) then Inl ErrCorruptSnapshot
        else
          let payloadEnd = 16 + unat len in
          if H (take payloadEnd data) \<noteq> drop payloadEnd data then Inl ErrCorruptSnapshot
          else case js_Unmarshal J (drop 16 (take payloadEnd data)) of
            None \<Rightarrow> Inl ErrCorruptSnapshot
          | Some img \<Rightarrow> if si_Version img \<noteq> SnapshotVersion then Inl ErrRecordVersion else Inr img)"

text \<open>
  An accepted image is the very frame of some image: the magic, the length, the payload and its
  digest, so that any change of a byte is caught unless it keeps the digest.
\<close>

lemma decodeSnapshotImage_frame:
  assumes "decodeSnapshotImage H J data = Inr img"
  shows "\<exists>payload. data = snapshotMagic @ PutUint64 (of_nat (length payload)) @ payload @
      H (snapshotMagic @ PutUint64 (of_nat (length payload)) @ payload) \<and>
    js_Unmarshal J payload = Some img \<and> si_Version img = SnapshotVersion"
proof -
  let ?len = "Uint64 (take 8 (drop 8 data))"
  let ?fin = "16 + unat ?len"
  from assms have le: "16 + sha256_Size \<le> length data" "take 8 data = snapshotMagic"
    and len: "?len = of_nat (length data - 16 - sha256_Size)" "\<not> 4294967296 < ?len"
    and dig: "H (take ?fin data) = drop ?fin data"
    and img: "js_Unmarshal J (drop 16 (take ?fin data)) = Some img" "si_Version img = SnapshotVersion"
    by (auto simp: decodeSnapshotImage_def Let_def split: if_splits option.splits)
  define p where "p = drop 16 (take ?fin data)"
  have "unat ?len \<le> length data - 16 - sha256_Size"
    unfolding len(1) unsigned_of_nat by simp
  then have "length p = unat ?len" using le(1) by (simp add: p_def)
  then have put: "PutUint64 (of_nat (length p)) = take 8 (drop 8 data)"
    using le(1) by (simp add: PutUint64_Uint64 sha256_Size_def)
  have "take 16 (take ?fin data) = take 8 data @ take 8 (drop 8 data)"
    by (simp add: take_add [symmetric])
  then have "take ?fin data = take 8 data @ take 8 (drop 8 data) @ p"
    unfolding p_def by (metis append.assoc append_take_drop_id)
  then have fr: "take ?fin data = snapshotMagic @ PutUint64 (of_nat (length p)) @ p"
    unfolding put le(2) .
  have "data = take ?fin data @ H (take ?fin data)" unfolding dig by simp
  then have "data = snapshotMagic @ PutUint64 (of_nat (length p)) @ p @
      H (snapshotMagic @ PutUint64 (of_nat (length p)) @ p)"
    unfolding fr by simp
  moreover have "js_Unmarshal J p = Some img" using img by (simp add: p_def)
  ultimately show ?thesis using img(2) by blast
qed

lemma decode_encodeSnapshotImage:
  assumes marshal: "js_Marshal J img = Some payload" "js_Unmarshal J payload = Some img"
    and version: "si_Version img = SnapshotVersion" and small: "length payload \<le> 4294967296"
    and digest: "\<And>x. length (H x) = sha256_Size"
  shows "\<exists>data. encodeSnapshotImage H J img = Inr data \<and> decodeSnapshotImage H J data = Inr img"
proof -
  let ?framed = "snapshotMagic @ PutUint64 (of_nat (length payload)) @ payload"
  let ?data = "?framed @ H ?framed"
  have m: "length snapshotMagic = 8" by (simp add: snapshotMagic_def)
  have len: "length ?data = 16 + length payload + sha256_Size" by (simp add: m digest)
  have small64: "length payload < 2 ^ 64" using small by simp
  have u: "Uint64 (take 8 (drop 8 ?data)) = of_nat (length payload)"
    by (simp add: m)
  have n: "unat (of_nat (length payload) :: uint64) = length payload"
    using small64 by (simp add: unsigned_of_nat take_bit_nat_eq_self)
  have "\<not> (4294967296 :: uint64) < of_nat (length payload)"
    using small n by (simp add: word_less_nat_alt)
  moreover have "take (16 + length payload) ?data = ?framed" "drop (16 + length payload) ?data = H ?framed"
    "drop 16 ?framed = payload"
    by (simp_all add: m)
  moreover have "take 8 ?data = snapshotMagic" by (simp add: m)
  ultimately have "decodeSnapshotImage H J ?data = Inr img"
    unfolding decodeSnapshotImage_def Let_def u n len by (simp add: marshal version)
  then show ?thesis by (auto simp: encodeSnapshotImage_def marshal Let_def)
qed


section \<open>Receipts (\<^verbatim>\<open>receipt.go\<close>)\<close>

record receiptRecord =
  rc_Version :: uint32
  rc_RequestID :: string
  rc_RequestHash :: string
  rc_AppliedIndex :: uint64
  rc_CommittedTerm :: uint64
  rc_WorkflowID :: string
  rc_FirstSequence :: uint64
  rc_LastSequence :: uint64

definition receiptMagic :: bytes where
  "receiptMagic = CHR 0x00 # ''CHRR'' @ [CHR 0x01]"

definition maxReceiptEvents :: uint64 where "maxReceiptEvents = 1048576"

definition validReceiptRecord :: "receiptRecord \<Rightarrow> bool" where
  "validReceiptRecord r \<longleftrightarrow>
     rc_Version r = ReceiptVersion \<and> rc_RequestID r \<noteq> '''' \<and> rc_RequestHash r \<noteq> '''' \<and>
     rc_AppliedIndex r \<noteq> 0 \<and> rc_CommittedTerm r \<noteq> 0 \<and> rc_WorkflowID r \<noteq> '''' \<and>
     rc_FirstSequence r \<noteq> 0 \<and> rc_FirstSequence r \<le> rc_LastSequence r \<and>
     rc_LastSequence r - rc_FirstSequence r < maxReceiptEvents"

definition compactReceipt :: "Receipt \<Rightarrow> store_err + receiptRecord" where
  "compactReceipt receipt =
     (let events = rs_Events (rt_Result receipt) in
      if rt_Version receipt \<noteq> ReceiptVersion \<or> rt_RequestID receipt = '''' \<or> rt_RequestHash receipt = '''' \<or>
         rt_AppliedIndex receipt = 0 \<or> rt_CommittedTerm receipt = 0 \<or> rs_WorkflowID (rt_Result receipt) = '''' \<or>
         rs_Duplicate (rt_Result receipt) \<or> length events = 0
      then Inl ErrRecordVersion
      else
        let r = \<lparr>rc_Version = ReceiptVersion, rc_RequestID = rt_RequestID receipt,
                 rc_RequestHash = rt_RequestHash receipt, rc_AppliedIndex = rt_AppliedIndex receipt,
                 rc_CommittedTerm = rt_CommittedTerm receipt, rc_WorkflowID = rs_WorkflowID (rt_Result receipt),
                 rc_FirstSequence = ev_Sequence (hd events), rc_LastSequence = ev_Sequence (last events)\<rparr>
        in if \<not> validReceiptRecord r \<or> rc_LastSequence r - rc_FirstSequence r \<noteq> of_nat (length events - 1)
           then Inl ErrRecordVersion else Inr r)"

definition appendReceiptString :: "bytes \<Rightarrow> string \<Rightarrow> bytes" where
  "appendReceiptString data val = data @ AppendUvarint (of_nat (length val)) @ val"

definition encodeReceiptRecord :: "receiptRecord \<Rightarrow> store_err + bytes" where
  "encodeReceiptRecord r =
     (if \<not> validReceiptRecord r then Inl ErrRecordVersion
      else
        let data = receiptMagic;
            data = data @ AppendUvarint (ucast (rc_Version r));
            data = data @ AppendUvarint (rc_AppliedIndex r);
            data = data @ AppendUvarint (rc_CommittedTerm r);
            data = data @ AppendUvarint (rc_FirstSequence r);
            data = data @ AppendUvarint (rc_LastSequence r);
            data = appendReceiptString data (rc_RequestID r);
            data = appendReceiptString data (rc_RequestHash r);
            data = appendReceiptString data (rc_WorkflowID r)
        in Inr data)"

definition readReceiptUint :: "bytes \<Rightarrow> (uint64 \<times> bytes) option" where
  "readReceiptUint data =
     (case Uvarint data of (val, n) \<Rightarrow>
        if n \<le> 0 then None
        else if int (length (AppendUvarint val)) \<noteq> n then None
        else Some (val, drop (nat n) data))"

definition readReceiptString :: "bytes \<Rightarrow> (string \<times> bytes) option" where
  "readReceiptString data =
     (case readReceiptUint data of
        None \<Rightarrow> None
      | Some (len, data) \<Rightarrow>
          if of_nat (length data) < len then None else Some (take (unat len) data, drop (unat len) data))"

fun read_uints :: "nat \<Rightarrow> bytes \<Rightarrow> (uint64 list \<times> bytes) option" where
  "read_uints 0 data = Some ([], data)"
| "read_uints (Suc n) data =
     (case readReceiptUint data of
        None \<Rightarrow> None
      | Some (val, data) \<Rightarrow>
          (case read_uints n data of None \<Rightarrow> None | Some (vals, data) \<Rightarrow> Some (val # vals, data)))"

definition decodeBinaryReceiptRecord :: "bytes \<Rightarrow> store_err + receiptRecord" where
  "decodeBinaryReceiptRecord data =
     (case read_uints 5 data of
        Some ([v0, v1, v2, v3, v4], data) \<Rightarrow>
          (case readReceiptString data of
             None \<Rightarrow> Inl ErrRecordVersion
           | Some (requestID, data) \<Rightarrow>
          (case readReceiptString data of
             None \<Rightarrow> Inl ErrRecordVersion
           | Some (requestHash, data) \<Rightarrow>
          (case readReceiptString data of
             None \<Rightarrow> Inl ErrRecordVersion
           | Some (workflowID, data) \<Rightarrow>
               if length data \<noteq> 0 \<or> ucast MaxUint32 < v0 then Inl ErrRecordVersion
               else
                 let r = \<lparr>rc_Version = ucast v0, rc_RequestID = requestID, rc_RequestHash = requestHash,
                          rc_AppliedIndex = v1, rc_CommittedTerm = v2, rc_WorkflowID = workflowID,
                          rc_FirstSequence = v3, rc_LastSequence = v4\<rparr>
                 in if \<not> validReceiptRecord r then Inl ErrRecordVersion else Inr r)))
      | _ \<Rightarrow> Inl ErrRecordVersion)"

definition decodeReceiptRecord :: "snappy \<Rightarrow> receiptRecord json \<Rightarrow> bytes \<Rightarrow> store_err + receiptRecord" where
  "decodeReceiptRecord S J data =
     (case strip_prefix receiptMagic data of
        Some body \<Rightarrow> decodeBinaryReceiptRecord body
      | None \<Rightarrow>
          bindE (decodeJSON S J data) (\<lambda>r. if \<not> validReceiptRecord r then Inl ErrRecordVersion else Inr r))"

definition validReceiptEvent :: "digest \<Rightarrow> receiptRecord \<Rightarrow> Event \<Rightarrow> uint64 \<Rightarrow> bool" where
  "validReceiptEvent H r event seqno \<longleftrightarrow>
     ev_WorkflowID event = rc_WorkflowID r \<and> ev_RequestID event = rc_RequestID r \<and>
     ev_RequestHash event = rc_RequestHash r \<and> ev_Sequence event = seqno \<and>
     ev_ID event = EventID H (ev_WorkflowID event) (ev_Sequence event) (ev_Kind event) \<and> 0 \<le> ev_At event"


lemma readReceiptUint_append [simp]: "readReceiptUint (AppendUvarint v @ rest) = Some (v, rest)"
  by (simp add: readReceiptUint_def Uvarint_AppendUvarint)

lemma readReceiptUint_Some: "readReceiptUint data = Some (v, rest) \<Longrightarrow> data = AppendUvarint v @ rest"
  using Uvarint_canonical [of data v]
  by (auto simp: readReceiptUint_def split: prod.splits if_splits)

lemma readReceiptString_append:
  assumes "length (val @ rest) < 2 ^ 64"
  shows "readReceiptString (AppendUvarint (of_nat (length val)) @ val @ rest) = Some (val, rest)"
proof -
  have "unat (of_nat (length val) :: uint64) = length val"
    and "unat (of_nat (length (val @ rest)) :: uint64) = length (val @ rest)"
    using assms by (simp_all add: unsigned_of_nat take_bit_nat_eq_self del: of_nat_add)
  then show ?thesis by (simp add: readReceiptString_def word_less_nat_alt del: of_nat_add)
qed

lemma readReceiptString_Some:
  assumes "readReceiptString data = Some (val, rest)"
  shows "data = AppendUvarint (of_nat (length val)) @ val @ rest"
proof -
  from assms obtain len body where r: "readReceiptUint data = Some (len, body)"
    and le: "\<not> of_nat (length body) < len" and v: "val = take (unat len) body" "rest = drop (unat len) body"
    by (auto simp: readReceiptString_def split: option.splits if_splits)
  have "unat len \<le> unat (of_nat (length body) :: uint64)" using le by (simp add: word_less_nat_alt)
  also have "\<dots> \<le> length body" unfolding unsigned_of_nat by simp
  finally have "length val = unat len" by (simp add: v(1))
  with readReceiptUint_Some [OF r] v show ?thesis by simp
qed

lemma read_uints_append: "read_uints (length vals) (concat (map AppendUvarint vals) @ rest) = Some (vals, rest)"
  by (induction vals) simp_all

lemma read_uints_Some:
  "read_uints n data = Some (vals, rest) \<Longrightarrow> data = concat (map AppendUvarint vals) @ rest \<and> length vals = n"
proof (induction n arbitrary: data vals)
  case (Suc n)
  then obtain v body vs where "readReceiptUint data = Some (v, body)" "read_uints n body = Some (vs, rest)"
    "vals = v # vs"
    by (auto split: option.splits)
  with Suc.IH [of body vs] readReceiptUint_Some [of data v body] show ?case by simp
qed simp

text \<open>The bytes after the magic, as a function of the record.\<close>

definition receipt_body :: "receiptRecord \<Rightarrow> bytes" where
  "receipt_body r =
     concat (map AppendUvarint [ucast (rc_Version r), rc_AppliedIndex r, rc_CommittedTerm r,
       rc_FirstSequence r, rc_LastSequence r]) @
     AppendUvarint (of_nat (length (rc_RequestID r))) @ rc_RequestID r @
     AppendUvarint (of_nat (length (rc_RequestHash r))) @ rc_RequestHash r @
     AppendUvarint (of_nat (length (rc_WorkflowID r))) @ rc_WorkflowID r @ []"

lemma encodeReceiptRecord_body:
  "encodeReceiptRecord r = (if validReceiptRecord r then Inr (receiptMagic @ receipt_body r) else Inl ErrRecordVersion)"
  by (simp add: encodeReceiptRecord_def receipt_body_def appendReceiptString_def Let_def)

lemma version_word:
  shows "\<not> (ucast MaxUint32 :: uint64) < ucast (v :: uint32)" and "(ucast (ucast v :: uint64) :: uint32) = v"
proof -
  have up: "unat (ucast w :: uint64) = unat w" for w :: uint32
  proof -
    have "unat w < 2 ^ 32" using unsigned_less [of w, where ?'a = nat] by simp
    then show ?thesis by (simp add: unsigned_ucast_eq take_bit_nat_eq_self)
  qed
  have "unat v \<le> unat MaxUint32"
    using unsigned_less [of v, where ?'a = nat] by (simp add: MaxUint32_def)
  then show "\<not> (ucast MaxUint32 :: uint64) < ucast (v :: uint32)" by (simp add: word_less_nat_alt up)
  show "(ucast (ucast v :: uint64) :: uint32) = v"
    by (rule ucast_up_ucast_id) (simp add: is_up)
qed

lemma version_down:
  assumes "\<not> (ucast MaxUint32 :: uint64) < v"
  shows "(ucast (ucast v :: uint32) :: uint64) = v"
proof -
  have "unat (ucast MaxUint32 :: uint64) = 2 ^ 32 - 1"
    by (simp add: MaxUint32_def)
  then have "unat v < 2 ^ 32" using assms by (simp add: word_less_nat_alt)
  then have "unat (ucast (ucast v :: uint32) :: uint64) = unat v"
    by (simp add: unsigned_ucast_eq unsigned_take_bit_eq take_bit_nat_eq_self)
  then show ?thesis by (simp add: word_unat_eq_iff)
qed

lemma decode_receipt_body:
  assumes valid: "validReceiptRecord r" and short: "length (receipt_body r) < 2 ^ 64"
  shows "decodeBinaryReceiptRecord (receipt_body r) = Inr r"
proof -
  let ?s3 = "AppendUvarint (of_nat (length (rc_WorkflowID r))) @ rc_WorkflowID r @ []"
  let ?s2 = "AppendUvarint (of_nat (length (rc_RequestHash r))) @ rc_RequestHash r @ ?s3"
  let ?s1 = "AppendUvarint (of_nat (length (rc_RequestID r))) @ rc_RequestID r @ ?s2"
  let ?vals = "[ucast (rc_Version r), rc_AppliedIndex r, rc_CommittedTerm r, rc_FirstSequence r, rc_LastSequence r]"
  have body: "receipt_body r = concat (map AppendUvarint ?vals) @ ?s1" by (simp add: receipt_body_def)
  have "length ?s1 < 2 ^ 64" using short unfolding body by simp
  then have l: "length (rc_RequestID r @ ?s2) < 2 ^ 64" "length (rc_RequestHash r @ ?s3) < 2 ^ 64"
    "length (rc_WorkflowID r @ []) < 2 ^ 64"
    by simp_all
  have u: "read_uints 5 (receipt_body r) = Some (?vals, ?s1)"
    unfolding body using read_uints_append [of ?vals ?s1] by (simp add: eval_nat_numeral)
  have "readReceiptString ?s1 = Some (rc_RequestID r, ?s2)"
    "readReceiptString ?s2 = Some (rc_RequestHash r, ?s3)" "readReceiptString ?s3 = Some (rc_WorkflowID r, [])"
    by (rule readReceiptString_append [OF l(1)], rule readReceiptString_append [OF l(2)],
        rule readReceiptString_append [OF l(3)])
  moreover have eta: "\<lparr>rc_Version = rc_Version r, rc_RequestID = rc_RequestID r, rc_RequestHash = rc_RequestHash r,
      rc_AppliedIndex = rc_AppliedIndex r, rc_CommittedTerm = rc_CommittedTerm r, rc_WorkflowID = rc_WorkflowID r,
      rc_FirstSequence = rc_FirstSequence r, rc_LastSequence = rc_LastSequence r\<rparr> = r"
    by (rule receiptRecord.equality) simp_all
  ultimately show ?thesis using valid by (simp add: decodeBinaryReceiptRecord_def u version_word Let_def eta)
qed

lemma decodeBinaryReceiptRecord_canonical:
  assumes "decodeBinaryReceiptRecord data = Inr r"
  shows "data = receipt_body r \<and> validReceiptRecord r"
proof -
  from assms obtain v0 v1 v2 v3 v4 d1 d2 d3 where u: "read_uints 5 data = Some ([v0, v1, v2, v3, v4], d1)"
    and s: "readReceiptString d1 = Some (rc_RequestID r, d2)" "readReceiptString d2 = Some (rc_RequestHash r, d3)"
      "readReceiptString d3 = Some (rc_WorkflowID r, [])"
    and v: "\<not> ucast MaxUint32 < v0" "rc_Version r = ucast v0" "rc_AppliedIndex r = v1" "rc_CommittedTerm r = v2"
      "rc_FirstSequence r = v3" "rc_LastSequence r = v4" and "validReceiptRecord r"
    unfolding decodeBinaryReceiptRecord_def
    by (auto simp: Let_def split: option.splits list.splits prod.splits if_splits)
  moreover have "data = concat (map AppendUvarint [v0, v1, v2, v3, v4]) @ d1"
    using read_uints_Some [OF u] by simp
  ultimately show ?thesis
    using readReceiptString_Some [OF s(1)] readReceiptString_Some [OF s(2)] readReceiptString_Some [OF s(3)]
    by (simp add: receipt_body_def version_down)
qed

lemma strip_receiptMagic [simp]: "strip_prefix receiptMagic (receiptMagic @ body) = Some body"
  by (simp add: strip_prefix_Some)

lemma decode_encodeReceiptRecord:
  assumes "encodeReceiptRecord r = Inr data" "length data < 2 ^ 64"
  shows "decodeReceiptRecord S J data = Inr r"
proof -
  from assms(1) have data: "data = receiptMagic @ receipt_body r" and valid: "validReceiptRecord r"
    by (simp_all add: encodeReceiptRecord_body split: if_splits)
  have "length (receipt_body r) < 2 ^ 64" using assms(2) by (simp add: data)
  from decode_receipt_body [OF valid this] show ?thesis by (simp add: decodeReceiptRecord_def data)
qed

lemma encode_decodeReceiptRecord:
  assumes "decodeReceiptRecord S J (receiptMagic @ body) = Inr r"
  shows "encodeReceiptRecord r = Inr (receiptMagic @ body)"
  using assms decodeBinaryReceiptRecord_canonical [of body r]
  by (simp add: decodeReceiptRecord_def encodeReceiptRecord_body)

end
