(* ===== verification/Chronos_Segments.thy ===== *)
theory Chronos_Segments
  imports Chronos_Records
begin

text \<open>
  Segments of the store (\<^verbatim>\<open>internal/storage/segments.go\<close>): the events and the task results that one log
  index added to one workflow, kept under one key. The groups of the source are a Go map, whose
  visiting order does not matter because the segments are sorted before they are used.
\<close>

definition eventSegmentVersion :: uint32 where "eventSegmentVersion = 1"
definition taskResultSegmentVersion :: uint32 where "taskResultSegmentVersion = 1"
definition maxSegmentItems :: nat where "maxSegmentItems = 1048576"

type_synonym segmentID = "string \<times> uint64"

record eventSegmentSource =
  sr_workflowID :: string
  sr_appliedIndex :: uint64
  sr_events :: "Event list"

record eventSegment =
  sg_Version :: uint32
  sg_WorkflowID :: string
  sg_AppliedIndex :: uint64
  sg_FirstSequence :: uint64
  sg_LastSequence :: uint64
  sg_Events :: "Event list"

record taskResultSegment =
  tg_Version :: uint32
  tg_WorkflowID :: string
  tg_AppliedIndex :: uint64
  tg_Results :: "TaskResult list"

type_synonym taskResultIdentity = "string \<times> string \<times> string \<times> string"

section \<open>Event segments\<close>

definition segment_event :: "digest \<Rightarrow> eventSegment \<Rightarrow> nat \<Rightarrow> Event \<Rightarrow> bool" where
  "segment_event H segment i event \<longleftrightarrow>
     ev_WorkflowID event = sg_WorkflowID segment \<and> ev_RequestID event \<noteq> '''' \<and> ev_RequestHash event \<noteq> '''' \<and>
     event_kind_string (ev_Kind event) \<noteq> '''' \<and> ev_Sequence event = sg_FirstSequence segment + of_nat i \<and>
     ev_ID event = EventID H (ev_WorkflowID event) (ev_Sequence event) (ev_Kind event) \<and> 0 \<le> ev_At event"

definition validEventSegment :: "digest \<Rightarrow> eventSegment \<Rightarrow> bool" where
  "validEventSegment H segment \<longleftrightarrow>
     \<not> (sg_Version segment \<noteq> eventSegmentVersion \<or> sg_WorkflowID segment = '''' \<or> sg_AppliedIndex segment = 0 \<or>
        length (sg_Events segment) = 0 \<or> maxSegmentItems < length (sg_Events segment) \<or>
        sg_FirstSequence segment = 0 \<or> sg_LastSequence segment < sg_FirstSequence segment \<or>
        sg_LastSequence segment - sg_FirstSequence segment \<noteq> of_nat (length (sg_Events segment) - 1)) \<and>
     list_all (\<lambda>(i, event). segment_event H segment i event) (enumerate 0 (sg_Events segment)) \<and>
     ev_Sequence (last (sg_Events segment)) = sg_LastSequence segment"

definition group_source ::
    "(segmentID, Event list) gomap \<Rightarrow> eventSegmentSource \<Rightarrow> store_err + (segmentID, Event list) gomap" where
  "group_source groups source =
     (if sr_workflowID source = '''' \<or> sr_appliedIndex source = 0 \<or> length (sr_events source) = 0
      then Inl ErrRecordVersion
      else
        let sid = (sr_workflowID source, sr_appliedIndex source)
        in Inr (put sid (or_zero [] groups sid @ sr_events source) groups))"

definition make_segment :: "segmentID \<times> Event list \<Rightarrow> eventSegment" where
  "make_segment grp =
     (case grp of ((workflowID, appliedIndex), events) \<Rightarrow>
        let events = sort_key ev_Sequence events in
        \<lparr>sg_Version = eventSegmentVersion, sg_WorkflowID = workflowID, sg_AppliedIndex = appliedIndex,
         sg_FirstSequence = ev_Sequence (hd events), sg_LastSequence = ev_Sequence (last events),
         sg_Events = events\<rparr>)"

definition sort_segments :: "eventSegment list \<Rightarrow> eventSegment list" where
  "sort_segments = sort_key (\<lambda>segment. (sg_WorkflowID segment, sg_AppliedIndex segment))"

fun chained :: "bool \<Rightarrow> string \<Rightarrow> uint64 \<Rightarrow> eventSegment list \<Rightarrow> bool" where
  "chained complete previousWorkflow previousLast [] = True"
| "chained complete previousWorkflow previousLast (segment # segments) =
     (if sg_WorkflowID segment \<noteq> previousWorkflow then
        \<not> (complete \<and> sg_FirstSequence segment \<noteq> 1) \<and>
        chained complete (sg_WorkflowID segment) (sg_LastSequence segment) segments
      else
        \<not> (previousLast = MaxUint64 \<or> sg_FirstSequence segment \<noteq> previousLast + 1) \<and>
        chained complete previousWorkflow (sg_LastSequence segment) segments)"

definition buildEventSegments :: "digest \<Rightarrow> eventSegmentSource list \<Rightarrow> bool \<Rightarrow> store_err + eventSegment list" where
  "buildEventSegments H sources complete =
     bindE (foldE group_source [] sources) (\<lambda>groups.
       let segments = map make_segment groups in
       if \<not> list_all (validEventSegment H) segments then Inl ErrRecordVersion
       else
         let segments = sort_segments segments in
         if \<not> chained complete '''' 0 segments then Inl ErrRecordVersion else Inr segments)"

definition decodeEventSegment ::
    "digest \<Rightarrow> snappy \<Rightarrow> eventSegment json \<Rightarrow> bytes \<Rightarrow> bytes \<Rightarrow> store_err + eventSegment" where
  "decodeEventSegment H S J key data =
     bindE (decodeJSON S J data) (\<lambda>segment.
       if \<not> validEventSegment H segment \<or>
          key \<noteq> materializedSegmentKey (CHR 0x08) (sg_WorkflowID segment) (sg_AppliedIndex segment)
       then Inl ErrRecordVersion else Inr segment)"

section \<open>Task result segments\<close>

definition validTaskResult :: "TaskResult \<Rightarrow> bool" where
  "validTaskResult result =
     (if tr_Version result \<noteq> TaskResultVersion \<or> tr_WorkflowID result = '''' \<or> tr_TaskID result = '''' \<or>
         tr_TaskType result = '''' \<or> tr_AttemptID result = '''' \<or> tr_Attempt result = 0 \<or> tr_Sequence result = 0 \<or>
         tr_AppliedIndex result = 0 \<or> tr_At result < 0 \<or>
         tr_Phase result \<noteq> ''normal'' \<and> tr_Phase result \<noteq> ''compensation''
      then False
      else case tr_EventKind result of
        EventTaskCompleted \<Rightarrow> tr_Phase result = ''normal'' \<and> tr_Status result = TaskCompleted
      | EventTaskFailed \<Rightarrow> tr_Status result = TaskFailed
      | EventTaskTimedOut \<Rightarrow> tr_Status result = TaskFailed
      | EventTaskCompensated \<Rightarrow> tr_Phase result = ''compensation'' \<and> tr_Status result = TaskCompensated
      | _ \<Rightarrow> False)"

definition resultIdentity :: "TaskResult \<Rightarrow> taskResultIdentity" where
  "resultIdentity result = (tr_WorkflowID result, tr_TaskID result, tr_Phase result, tr_AttemptID result)"

fun valid_results :: "taskResultSegment \<Rightarrow> uint64 option \<Rightarrow> taskResultIdentity list \<Rightarrow> TaskResult list \<Rightarrow> bool" where
  "valid_results segment previous seen [] = True"
| "valid_results segment previous seen (result # results) =
     (if \<not> validTaskResult result \<or> tr_WorkflowID result \<noteq> tg_WorkflowID segment \<or>
         tr_AppliedIndex result \<noteq> tg_AppliedIndex segment \<or>
         (case previous of None \<Rightarrow> False | Some p \<Rightarrow> tr_Sequence result \<le> p)
      then False
      else if resultIdentity result \<in> set seen then False
      else valid_results segment (Some (tr_Sequence result)) (resultIdentity result # seen) results)"

definition validTaskResultSegment :: "taskResultSegment \<Rightarrow> bool" where
  "validTaskResultSegment segment \<longleftrightarrow>
     \<not> (tg_Version segment \<noteq> taskResultSegmentVersion \<or> tg_WorkflowID segment = '''' \<or> tg_AppliedIndex segment = 0 \<or>
        length (tg_Results segment) = 0 \<or> maxSegmentItems < length (tg_Results segment)) \<and>
     valid_results segment None [] (tg_Results segment)"

definition group_result ::
    "(segmentID, TaskResult list) gomap \<times> taskResultIdentity list \<Rightarrow> TaskResult \<Rightarrow>
     store_err + (segmentID, TaskResult list) gomap \<times> taskResultIdentity list" where
  "group_result acc result =
     (case acc of (groups, seen) \<Rightarrow>
        if \<not> validTaskResult result then Inl ErrRecordVersion
        else if resultIdentity result \<in> set seen then Inl ErrRecordVersion
        else
          let sid = (tr_WorkflowID result, tr_AppliedIndex result)
          in Inr (put sid (or_zero [] groups sid @ [result]) groups, resultIdentity result # seen))"

definition make_result_segment :: "segmentID \<times> TaskResult list \<Rightarrow> taskResultSegment" where
  "make_result_segment grp =
     (case grp of ((workflowID, appliedIndex), results) \<Rightarrow>
        \<lparr>tg_Version = taskResultSegmentVersion, tg_WorkflowID = workflowID, tg_AppliedIndex = appliedIndex,
         tg_Results = sort_key tr_Sequence results\<rparr>)"

definition buildTaskResultSegments :: "TaskResult list \<Rightarrow> store_err + taskResultSegment list" where
  "buildTaskResultSegments results =
     bindE (foldE group_result ([], []) results) (\<lambda>(groups, seen).
       let segments = map make_result_segment groups in
       if \<not> list_all validTaskResultSegment segments then Inl ErrRecordVersion
       else Inr (sort_key (\<lambda>segment. (tg_WorkflowID segment, tg_AppliedIndex segment)) segments))"

definition decodeTaskResultSegment ::
    "snappy \<Rightarrow> taskResultSegment json \<Rightarrow> bytes \<Rightarrow> bytes \<Rightarrow> store_err + taskResultSegment" where
  "decodeTaskResultSegment S J key data =
     bindE (decodeJSON S J data) (\<lambda>segment.
       if \<not> validTaskResultSegment segment \<or>
          key \<noteq> materializedSegmentKey (CHR 0x05) (tg_WorkflowID segment) (tg_AppliedIndex segment)
       then Inl ErrRecordVersion else Inr segment)"

definition sortTaskResults :: "TaskResult list \<Rightarrow> TaskResult list" where
  "sortTaskResults = sort_key resultIdentity"

section \<open>What a segment holds\<close>

definition source_id :: "eventSegmentSource \<Rightarrow> segmentID" where
  "source_id source = (sr_workflowID source, sr_appliedIndex source)"

definition segment_id :: "eventSegment \<Rightarrow> segmentID" where
  "segment_id segment = (sg_WorkflowID segment, sg_AppliedIndex segment)"

lemma grouped:
  assumes "foldE group_source [] sources = Inr groups"
  shows "gomap groups \<and> set (keys groups) = source_id ` set sources \<and>
    (\<forall>source \<in> set sources. \<exists>events. map_of groups (source_id source) = Some events \<and>
       set (sr_events source) \<subseteq> set events)"
  using assms
proof (induction sources arbitrary: groups rule: rev_induct)
  case (snoc source sources)
  then obtain before where before: "foldE group_source [] sources = Inr before"
    and step: "group_source before source = Inr groups"
    by (auto simp: result_simps)
  note IH = snoc.IH [OF before]
  from step have groups: "groups = put (source_id source) (or_zero [] before (source_id source) @ sr_events source) before"
    by (auto simp: group_source_def source_id_def Let_def split: if_splits)
  have "\<exists>events. map_of groups (source_id s) = Some events \<and> set (sr_events s) \<subseteq> set events"
    if "s \<in> set (sources @ [source])" for s
  proof (cases "s = source")
    case True
    then show ?thesis by (simp add: groups)
  next
    case False
    with that IH obtain events where "map_of before (source_id s) = Some events" "set (sr_events s) \<subseteq> set events"
      by auto
    then show ?thesis by (auto simp: groups or_zero_def)
  qed
  with IH show ?case by (auto simp: groups)
qed simp

lemma make_segment_id [simp]: "segment_id (make_segment grp) = fst grp"
  by (auto simp: segment_id_def make_segment_def Let_def split: prod.splits)

lemma make_segment_events [simp]: "set (sg_Events (make_segment grp)) = set (snd grp)"
  by (auto simp: make_segment_def Let_def split: prod.splits)

lemma buildEventSegments_Inr:
  assumes "buildEventSegments H sources complete = Inr segments"
  obtains groups where "foldE group_source [] sources = Inr groups"
    and "segments = sort_segments (map make_segment groups)" and "list_all (validEventSegment H) segments"
    and "chained complete '''' 0 segments"
  using assms
  by (auto simp: buildEventSegments_def result_simps Let_def sort_segments_def list_all_iff split: if_splits)

lemma built_segments:
  assumes "buildEventSegments H sources complete = Inr segments"
  shows built_distinct: "distinct (map segment_id segments)"
    and built_ids: "segment_id ` set segments = source_id ` set sources"
    and built_valid: "segment \<in> set segments \<Longrightarrow> validEventSegment H segment"
    and built_holds: "source \<in> set sources \<Longrightarrow>
      \<exists>segment \<in> set segments. segment_id segment = source_id source \<and> set (sr_events source) \<subseteq> set (sg_Events segment)"
proof -
  from assms obtain groups where g: "foldE group_source [] sources = Inr groups"
    "segments = sort_segments (map make_segment groups)" "list_all (validEventSegment H) segments"
    by (rule buildEventSegments_Inr)
  note G = grouped [OF g(1)]
  have ids: "map segment_id (map make_segment groups) = keys groups" by (simp add: comp_def)
  have perm: "mset (map segment_id segments) = mset (keys groups)"
    unfolding g(2) sort_segments_def mset_map mset_sort ids [symmetric] by simp
  then show "distinct (map segment_id segments)" using G by (metis gomap_def mset_eq_imp_distinct_iff)
  show "segment_id ` set segments = source_id ` set sources"
    using G arg_cong [OF perm, of set_mset] by simp
  show "validEventSegment H segment" if "segment \<in> set segments" using that g(3) by (simp add: list_all_iff)
  show "\<exists>segment \<in> set segments. segment_id segment = source_id source \<and> set (sr_events source) \<subseteq> set (sg_Events segment)"
    if "source \<in> set sources"
  proof -
    from G that obtain events where "map_of groups (source_id source) = Some events"
      and sub: "set (sr_events source) \<subseteq> set events" by blast
    then have "(source_id source, events) \<in> set groups" by (intro map_of_SomeD)
    then have "make_segment (source_id source, events) \<in> set segments"
      by (simp add: g(2) sort_segments_def)
    with sub show ?thesis by (intro bexI [of _ "make_segment (source_id source, events)"]) simp_all
  qed
qed

lemma validEventSegment_nth:
  assumes "validEventSegment H segment" "i < length (sg_Events segment)"
  shows "segment_event H segment i (sg_Events segment ! i)"
proof -
  have "(i, sg_Events segment ! i) \<in> set (enumerate 0 (sg_Events segment))"
    using assms(2) by (simp add: in_set_enumerate_eq)
  with assms(1) show ?thesis by (auto simp: validEventSegment_def list_all_iff)
qed

lemma validEventSegment_length: "validEventSegment H segment \<Longrightarrow> length (sg_Events segment) \<le> 1048576"
  by (auto simp: validEventSegment_def maxSegmentItems_def)

lemma unat_of_nat_segment:
  assumes "validEventSegment H segment" "i \<le> length (sg_Events segment)"
  shows "unat (of_nat i :: uint64) = i"
proof -
  have "i < 2 ^ 64" using validEventSegment_length [OF assms(1)] assms(2) by simp
  then show ?thesis by (simp add: unsigned_of_nat take_bit_nat_eq_self)
qed

text \<open>The position of an event in its segment is its distance from the first sequence number.\<close>

lemma segment_position:
  assumes valid: "validEventSegment H segment" and "event \<in> set (sg_Events segment)"
  shows "unat (ev_Sequence event - sg_FirstSequence segment) < length (sg_Events segment) \<and>
    sg_Events segment ! unat (ev_Sequence event - sg_FirstSequence segment) = event"
proof -
  from assms(2) obtain i where i: "i < length (sg_Events segment)" "event = sg_Events segment ! i"
    by (auto simp: in_set_conv_nth)
  from validEventSegment_nth [OF valid i(1)] have "ev_Sequence event - sg_FirstSequence segment = of_nat i"
    by (simp add: segment_event_def i(2))
  with unat_of_nat_segment [OF valid, of i] i show ?thesis by simp
qed


section \<open>Expanding a receipt from its segment\<close>

text \<open>The part of \<^verbatim>\<open>expandReceiptCached\<close> after the segment has been found.\<close>

definition expand_segment :: "digest \<Rightarrow> receiptRecord \<Rightarrow> eventSegment \<Rightarrow> store_err + Receipt" where
  "expand_segment H r segment =
     (if rc_FirstSequence r < sg_FirstSequence segment \<or> sg_LastSequence segment < rc_LastSequence r
      then Inl ErrRecordVersion
      else
        let first = rc_FirstSequence r - sg_FirstSequence segment;
            fin = rc_LastSequence r - sg_FirstSequence segment
        in if of_nat (length (sg_Events segment)) \<le> fin then Inl ErrRecordVersion
           else
             let events = drop (unat first) (take (unat fin + 1) (sg_Events segment)) in
             if \<not> list_all (\<lambda>(i, event). validReceiptEvent H r event (rc_FirstSequence r + of_nat i)) (enumerate 0 events)
             then Inl ErrRecordVersion
             else Inr \<lparr>rt_Version = rc_Version r, rt_RequestID = rc_RequestID r, rt_RequestHash = rc_RequestHash r,
                       rt_AppliedIndex = rc_AppliedIndex r, rt_CommittedTerm = rc_CommittedTerm r,
                       rt_Result = \<lparr>rs_WorkflowID = rc_WorkflowID r, rs_Events = events, rs_Duplicate = False\<rparr>\<rparr>)"

text \<open>The events of one request: consecutive from \<open>q\<close>, and each of them the request's.\<close>

definition request_events :: "digest \<Rightarrow> receiptRecord \<Rightarrow> Event list \<Rightarrow> bool" where
  "request_events H r events \<longleftrightarrow>
     (\<forall>i < length events. validReceiptEvent H r (events ! i) (rc_FirstSequence r + of_nat i))"

lemma request_event_position:
  assumes valid: "validEventSegment H segment" and sub: "set events \<subseteq> set (sg_Events segment)"
    and req: "request_events H r events" and "i < length events"
  shows "unat (rc_FirstSequence r + of_nat i - sg_FirstSequence segment) =
      unat (rc_FirstSequence r - sg_FirstSequence segment) + i \<and>
    unat (rc_FirstSequence r - sg_FirstSequence segment) + i < length (sg_Events segment) \<and>
    sg_Events segment ! (unat (rc_FirstSequence r - sg_FirstSequence segment) + i) = events ! i"
  using assms(4)
proof (induction i)
  case 0
  then have "ev_Sequence (events ! 0) = rc_FirstSequence r" "events ! 0 \<in> set (sg_Events segment)"
    using req sub by (auto simp: request_events_def validReceiptEvent_def)
  with segment_position [OF valid, of "events ! 0"] show ?case by simp
next
  case (Suc i)
  let ?p = "rc_FirstSequence r + of_nat i - sg_FirstSequence segment"
  have IH: "unat ?p = unat (rc_FirstSequence r - sg_FirstSequence segment) + i" "unat ?p < length (sg_Events segment)"
    using Suc by simp_all
  have "?p \<noteq> - 1"
  proof
    assume "?p = - 1"
    with IH(2) validEventSegment_length [OF valid] show False by (simp add: unsigned_minus_1_eq_mask mask_eq_exp_minus_1)
  qed
  then have "unat (?p + 1) = Suc (unat ?p)" by (rule word_suc_gt)
  then have u: "unat (rc_FirstSequence r + of_nat (Suc i) - sg_FirstSequence segment) =
      unat (rc_FirstSequence r - sg_FirstSequence segment) + Suc i"
    using IH(1) by (simp add: algebra_simps)
  have "ev_Sequence (events ! Suc i) = rc_FirstSequence r + of_nat (Suc i)" "events ! Suc i \<in> set (sg_Events segment)"
    using Suc.prems req sub by (auto simp: request_events_def validReceiptEvent_def)
  with segment_position [OF valid, of "events ! Suc i"] u show ?case by simp
qed

lemma expand_segment_events:
  assumes valid: "validEventSegment H segment" and sub: "set events \<subseteq> set (sg_Events segment)"
    and req: "request_events H r events" and ne: "events \<noteq> []"
    and last: "rc_LastSequence r = ev_Sequence (last events)"
  shows "expand_segment H r segment =
    Inr \<lparr>rt_Version = rc_Version r, rt_RequestID = rc_RequestID r, rt_RequestHash = rc_RequestHash r,
         rt_AppliedIndex = rc_AppliedIndex r, rt_CommittedTerm = rc_CommittedTerm r,
         rt_Result = \<lparr>rs_WorkflowID = rc_WorkflowID r, rs_Events = events, rs_Duplicate = False\<rparr>\<rparr>"
proof -
  let ?p = "unat (rc_FirstSequence r - sg_FirstSequence segment)"
  let ?n = "length (sg_Events segment)"
  define m where "m = length events - 1"
  have len: "length events = Suc m" using ne by (simp add: m_def)
  have pos: "unat (rc_FirstSequence r + of_nat i - sg_FirstSequence segment) = ?p + i \<and> ?p + i < ?n \<and>
      sg_Events segment ! (?p + i) = events ! i" if "i < Suc m" for i
    using request_event_position [OF valid sub req] that len by simp
  have lastseq: "rc_LastSequence r = rc_FirstSequence r + of_nat m"
    using req ne by (simp add: last last_conv_nth m_def request_events_def validReceiptEvent_def)
  have ende: "unat (rc_LastSequence r - sg_FirstSequence segment) = ?p + m" "?p + m < ?n"
    unfolding lastseq using pos [of m] by simp_all
  have slice: "drop ?p (take (Suc (?p + m)) (sg_Events segment)) = events"
    using pos ende(2) len by (intro nth_equalityI) (simp_all add: less_Suc_eq_le)
  have seg: "sg_LastSequence segment = sg_FirstSequence segment + of_nat (?n - 1)"
    using valid by (simp add: validEventSegment_def algebra_simps)
  have in_seg: "sg_FirstSequence segment \<le> q \<and> q \<le> sg_LastSequence segment"
    if "unat (q - sg_FirstSequence segment) < ?n" for q
  proof -
    have le: "sg_FirstSequence segment \<le> sg_LastSequence segment"
      using valid by (simp add: validEventSegment_def not_less)
    have d: "unat (sg_LastSequence segment - sg_FirstSequence segment) = ?n - 1"
      unfolding seg using unat_of_nat_segment [OF valid, of "?n - 1"] by simp
    have "q - sg_FirstSequence segment \<le> sg_LastSequence segment - sg_FirstSequence segment"
      using that d by (simp add: word_le_nat_alt)
    with word_interval [OF le] show ?thesis by blast
  qed
  have first: "sg_FirstSequence segment \<le> rc_FirstSequence r"
    using in_seg [of "rc_FirstSequence r"] pos [of 0] by simp
  have last_le: "rc_LastSequence r \<le> sg_LastSequence segment"
    using in_seg [of "rc_LastSequence r"] ende by simp
  have "\<not> of_nat ?n \<le> rc_LastSequence r - sg_FirstSequence segment"
    using ende unat_of_nat_segment [OF valid, of ?n] by (simp add: word_le_nat_alt)
  moreover have "list_all (\<lambda>(i, event). validReceiptEvent H r event (rc_FirstSequence r + of_nat i)) (enumerate 0 events)"
    using req by (auto simp: list_all_iff in_set_enumerate_eq request_events_def)
  ultimately show ?thesis using first last_le
    by (simp add: expand_segment_def Let_def ende(1) slice not_less)
qed


text \<open>
  A receipt that was compacted is read back whole from any valid segment that holds its events.
\<close>

definition receipt_ok :: "digest \<Rightarrow> Receipt \<Rightarrow> bool" where
  "receipt_ok H receipt \<longleftrightarrow>
     (\<forall>i < length (rs_Events (rt_Result receipt)).
        let event = rs_Events (rt_Result receipt) ! i in
        ev_WorkflowID event = rs_WorkflowID (rt_Result receipt) \<and> ev_RequestID event = rt_RequestID receipt \<and>
        ev_RequestHash event = rt_RequestHash receipt \<and>
        ev_Sequence event = ev_Sequence (hd (rs_Events (rt_Result receipt))) + of_nat i \<and>
        ev_ID event = EventID H (ev_WorkflowID event) (ev_Sequence event) (ev_Kind event) \<and> 0 \<le> ev_At event)"

lemma compactReceipt_Inr:
  assumes "compactReceipt receipt = Inr r"
  shows "rt_Version receipt = rc_Version r" "rt_RequestID receipt = rc_RequestID r"
    "rt_RequestHash receipt = rc_RequestHash r" "rt_AppliedIndex receipt = rc_AppliedIndex r"
    "rt_CommittedTerm receipt = rc_CommittedTerm r" "rs_WorkflowID (rt_Result receipt) = rc_WorkflowID r"
    "\<not> rs_Duplicate (rt_Result receipt)" "rs_Events (rt_Result receipt) \<noteq> []"
    "rc_FirstSequence r = ev_Sequence (hd (rs_Events (rt_Result receipt)))"
    "rc_LastSequence r = ev_Sequence (last (rs_Events (rt_Result receipt)))" "validReceiptRecord r"
  using assms by (auto simp: compactReceipt_def Let_def split: if_splits)

lemma expand_compact:
  assumes c: "compactReceipt receipt = Inr r" and ok: "receipt_ok H receipt"
    and valid: "validEventSegment H segment" and sub: "set (rs_Events (rt_Result receipt)) \<subseteq> set (sg_Events segment)"
  shows "expand_segment H r segment = Inr receipt"
proof -
  note f = compactReceipt_Inr [OF c]
  have "request_events H r (rs_Events (rt_Result receipt))"
    using ok by (simp add: request_events_def receipt_ok_def validReceiptEvent_def f Let_def)
  from expand_segment_events [OF valid sub this f(8,10)]
  show ?thesis by (simp add: f(1-6) [symmetric] f(7))
qed

end
