(* ===== verification/Chronos_Membership.thy ===== *)
theory Chronos_Membership
  imports Chronos_Bytes Chronos_Engine
begin

text \<open>
  The durable membership filter (\<^verbatim>\<open>internal/storage/membership.go\<close>): a sharded, layered Bloom filter
  over the identifiers the store holds, which lets the engine skip a read for an identifier that was
  never stored. The seeded hash of \<^verbatim>\<open>hash/maphash\<close> is an argument (\<open>hash\<close>), so that nothing depends
  on its values. The words are updated atomically one at a time and never cleared, so concurrent
  additions commute; they are modelled one after the other.
\<close>

definition membershipShardBits :: nat where "membershipShardBits = 12"
definition membershipShardCount :: nat where "membershipShardCount = 2 ^ membershipShardBits"
definition membershipShardInitialCapacity :: uint64 where "membershipShardInitialCapacity = 1024"
definition membershipBitsPerID :: uint64 where "membershipBitsPerID = 16"
definition membershipHashCount :: nat where "membershipHashCount = 7"

type_synonym hasher = "string \<Rightarrow> uint64"

record membershipLayer =
  ly_words :: "uint64 list"
  ly_capacity :: uint64
  ly_count :: uint64
  ly_mask :: uint64

type_synonym membershipShard = "membershipLayer list option"
type_synonym membershipFilter = "membershipShard list"

record durableMembership =
  dm_receipts :: membershipFilter
  dm_workflows :: membershipFilter

section \<open>Operations\<close>

definition newMembershipLayer :: "uint64 \<Rightarrow> membershipLayer" where
  "newMembershipLayer capacity =
     (let bits = capacity * membershipBitsPerID in
      \<lparr>ly_words = replicate (unat (bits div 64)) 0, ly_capacity = capacity, ly_count = 0, ly_mask = bits - 1\<rparr>)"

definition membershipShardIndex :: "uint64 \<Rightarrow> nat" where
  "membershipShardIndex h = unat (drop_bit (64 - membershipShardBits) h)"

definition membershipDelta :: "uint64 \<Rightarrow> uint64" where
  "membershipDelta h =
     (let v = h + 0x9e3779b97f4a7c15;
          v = (v XOR drop_bit 30 v) * 0xbf58476d1ce4e5b9;
          v = (v XOR drop_bit 27 v) * 0x94d049bb133111eb
      in (v XOR drop_bit 31 v) OR 1)"

definition layer_bit :: "membershipLayer \<Rightarrow> uint64 \<Rightarrow> nat \<Rightarrow> uint64" where
  "layer_bit l h index = (h + of_nat index * membershipDelta h) AND ly_mask l"

definition set_bit_at :: "uint64 \<Rightarrow> uint64 list \<Rightarrow> uint64 list" where
  "set_bit_at b ws = ws[unat (drop_bit 6 b) := ws ! unat (drop_bit 6 b) OR push_bit (unat (b AND 63)) 1]"

definition bit_at :: "uint64 list \<Rightarrow> uint64 \<Rightarrow> bool" where
  "bit_at ws b \<longleftrightarrow> ws ! unat (drop_bit 6 b) AND push_bit (unat (b AND 63)) 1 \<noteq> 0"

definition layer_add :: "uint64 \<Rightarrow> membershipLayer \<Rightarrow> membershipLayer" where
  "layer_add h l = l\<lparr>ly_words := fold (\<lambda>index. set_bit_at (layer_bit l h index)) [0..<membershipHashCount] (ly_words l)\<rparr>"

definition layer_contains :: "membershipLayer \<Rightarrow> uint64 \<Rightarrow> bool" where
  "layer_contains l h \<longleftrightarrow> (\<forall>index \<in> set [0..<membershipHashCount]. bit_at (ly_words l) (layer_bit l h index))"

definition shard_add :: "uint64 \<Rightarrow> membershipShard \<Rightarrow> membershipShard" where
  "shard_add h s =
     (case s of
        None \<Rightarrow> Some [(layer_add h (newMembershipLayer membershipShardInitialCapacity))\<lparr>ly_count := 1\<rparr>]
      | Some layers \<Rightarrow>
          let l = last layers in
          if ly_count l < ly_capacity l
          then Some (butlast layers @ [(layer_add h l)\<lparr>ly_count := ly_count l + 1\<rparr>])
          else Some (layers @ [(layer_add h (newMembershipLayer (ly_capacity l * 2)))\<lparr>ly_count := 1\<rparr>]))"

definition addValue :: "hasher \<Rightarrow> string \<Rightarrow> membershipFilter \<Rightarrow> membershipFilter" where
  "addValue hash val f =
     (let h = hash val; i = membershipShardIndex h in f[i := shard_add h (f ! i)])"

definition addAll :: "hasher \<Rightarrow> string list \<Rightarrow> membershipFilter \<Rightarrow> membershipFilter" where
  "addAll hash vals f = fold (addValue hash) vals f"

definition filter_contains :: "hasher \<Rightarrow> membershipFilter \<Rightarrow> string \<Rightarrow> bool" where
  "filter_contains hash f val =
     (let h = hash val in
      case f ! membershipShardIndex h of
        None \<Rightarrow> False
      | Some layers \<Rightarrow> list_ex (\<lambda>l. layer_contains l h) (rev layers))"

definition newMembershipFilter :: "hasher \<Rightarrow> string list \<Rightarrow> membershipFilter" where
  "newMembershipFilter hash vals = addAll hash vals (replicate membershipShardCount None)"

definition newDurableMembership :: "hasher \<Rightarrow> hasher \<Rightarrow> string list \<Rightarrow> string list \<Rightarrow> durableMembership" where
  "newDurableMembership hr hw receipts workflows =
     \<lparr>dm_receipts = newMembershipFilter hr receipts, dm_workflows = newMembershipFilter hw workflows\<rparr>"

definition durable_add :: "hasher \<Rightarrow> hasher \<Rightarrow> string list \<Rightarrow> string list \<Rightarrow> durableMembership \<Rightarrow> durableMembership" where
  "durable_add hr hw receipts workflows m =
     m\<lparr>dm_receipts := addAll hr receipts (dm_receipts m), dm_workflows := addAll hw workflows (dm_workflows m)\<rparr>"

text \<open>\<^verbatim>\<open>membershipFromSnapshot\<close> feeds the identifiers in chunks of 1024, which adds them in the same order.\<close>

definition membershipChunkSize :: nat where "membershipChunkSize = 1024"

fun add_chunks :: "hasher \<Rightarrow> string list \<Rightarrow> string list \<Rightarrow> membershipFilter \<Rightarrow> membershipFilter" where
  "add_chunks hash vals [] f = addAll hash vals f"
| "add_chunks hash vals (x # xs) f =
     (let vals = vals @ [x] in
      if length vals = membershipChunkSize then add_chunks hash [] xs (addAll hash vals f)
      else add_chunks hash vals xs f)"

definition membershipFromSnapshot :: "hasher \<Rightarrow> hasher \<Rightarrow> EngineSnapshot \<Rightarrow> durableMembership" where
  "membershipFromSnapshot hr hw snapshot =
     (let m = newDurableMembership hr hw [] [] in
      m\<lparr>dm_receipts := add_chunks hr [] (map rr_RequestID (es_Requests snapshot)) (dm_receipts m),
        dm_workflows := add_chunks hw [] (map wf_ID (es_Workflows snapshot)) (dm_workflows m)\<rparr>)"

lemma add_chunks_addAll: "add_chunks hash vals xs f = addAll hash (vals @ xs) f"
proof (induction xs arbitrary: vals f)
  case (Cons x xs)
  then show ?case by (simp add: addAll_def Let_def)
qed simp

section \<open>No identifier is forgotten\<close>

lemma bit_at_iff: "bit_at ws b \<longleftrightarrow> bit (ws ! unat (drop_bit 6 b)) (unat (b AND 63))"
  by (simp add: bit_at_def push_bit_eq_mult and_exp_eq_0_iff_not_bit)

lemma length_set_bit_at [simp]: "length (set_bit_at b ws) = length ws"
  by (simp add: set_bit_at_def)

lemma bit_at_set_bit_at: "bit_at ws c \<Longrightarrow> bit_at (set_bit_at b ws) c"
  by (cases "unat (drop_bit 6 b) < length ws"; cases "unat (drop_bit 6 b) = unat (drop_bit 6 c)")
    (simp_all add: bit_at_iff set_bit_at_def bit_or_iff nth_list_update list_update_beyond)

lemma bit_at_set:
  assumes "unat (drop_bit 6 b) < length ws"
  shows "bit_at (set_bit_at b ws) b"
proof -
  have "unat (b AND 63) < 64"
  proof -
    have "b AND 63 \<le> 63" by (rule word_and_le1)
    then show ?thesis by (simp add: word_le_nat_alt)
  qed
  with assms show ?thesis by (simp add: bit_at_iff set_bit_at_def bit_or_iff push_bit_eq_mult bit_exp_iff)
qed

lemma bit_at_fold: "bit_at ws c \<Longrightarrow> bit_at (fold (\<lambda>i. set_bit_at (g i)) is ws) c"
  by (induction "is" arbitrary: ws) (simp_all add: bit_at_set_bit_at)

lemma bit_at_fold_set:
  assumes "i \<in> set is" "\<forall>i \<in> set is. unat (drop_bit 6 (g i)) < length ws"
  shows "bit_at (fold (\<lambda>i. set_bit_at (g i)) is ws) (g i)"
  using assms
proof (induction "is" arbitrary: ws)
  case (Cons j js)
  then show ?case by (cases "j = i") (auto intro: bit_at_fold bit_at_set)
qed simp

text \<open>
  A layer has sixteen bits for each identifier of its capacity, in whole words; every bit that a hash
  selects is in range.
\<close>

definition layer_ok :: "membershipLayer \<Rightarrow> bool" where
  "layer_ok l \<longleftrightarrow> (\<exists>n > 0. length (ly_words l) = n \<and> unat (ly_mask l) = 64 * n - 1)"

lemma layer_index:
  assumes "layer_ok l"
  shows "unat (drop_bit 6 (layer_bit l h i)) < length (ly_words l)"
proof -
  from assms obtain n where n: "0 < n" "length (ly_words l) = n" "unat (ly_mask l) = 64 * n - 1"
    by (auto simp: layer_ok_def)
  have "layer_bit l h i \<le> ly_mask l" unfolding layer_bit_def by (rule word_and_le1)
  then have "unat (layer_bit l h i) \<le> 64 * n - 1" using n(3) by (simp add: word_le_nat_alt)
  moreover have "unat (drop_bit 6 (layer_bit l h i)) = unat (layer_bit l h i) div 64"
    by (simp add: drop_bit_eq_div unat_div_distrib)
  ultimately show ?thesis using n(1,2) by (simp add: div_less_iff_less_mult)
qed

lemma length_fold_set_bit [simp]: "length (fold (\<lambda>i. set_bit_at (g i)) is ws) = length ws"
  by (induction "is" arbitrary: ws) simp_all

lemma layer_add_fields [simp]:
  "ly_mask (layer_add h l) = ly_mask l" "ly_capacity (layer_add h l) = ly_capacity l"
  "length (ly_words (layer_add h l)) = length (ly_words l)"
  by (simp_all add: layer_add_def)

lemma layer_ok_add [simp]: "layer_ok (layer_add h l) = layer_ok l"
  by (simp add: layer_ok_def)

lemma layer_ok_count [simp]: "layer_ok (l\<lparr>ly_count := c\<rparr>) = layer_ok l"
  by (simp add: layer_ok_def)

lemma layer_contains_count [simp]: "layer_contains (l\<lparr>ly_count := c\<rparr>) h = layer_contains l h"
  by (simp add: layer_contains_def layer_bit_def)

lemma layer_bit_add [simp]: "layer_bit (layer_add g l) h i = layer_bit l h i"
  by (simp add: layer_bit_def)

lemma layer_contains_add: "layer_ok l \<Longrightarrow> layer_contains (layer_add h l) h"
  using bit_at_fold_set [of _ "[0..<membershipHashCount]" "layer_bit l h" "ly_words l"] layer_index [of l h]
  by (auto simp: layer_contains_def layer_add_def layer_bit_def)

lemma layer_contains_mono: "layer_contains l h \<Longrightarrow> layer_contains (layer_add g l) h"
  by (auto simp: layer_contains_def layer_add_def layer_bit_def intro: bit_at_fold)

lemma layer_ok_new:
  assumes "unat c = 1024 * 2 ^ k" "1024 * 2 ^ k < (2 ^ 60 :: nat)"
  shows "layer_ok (newMembershipLayer c)"
proof -
  have "unat c * 16 < 2 ^ 64" using assms by simp
  then have bits: "unat (c * 16) = unat c * 16" by (simp add: unat_word_ariths)
  have pos: "0 < unat c" by (simp add: assms(1))
  then have "c * 16 \<noteq> 0" using bits by (metis mult_is_0 neq0_conv unat_eq_zero zero_neq_numeral)
  then have "unat (c * 16 - 1) = unat c * 16 - 1" using bits by (simp add: unat_minus_one)
  moreover have "unat (c * 16 div 64) = 256 * 2 ^ k" using bits assms(1) by (simp add: unat_div_distrib)
  ultimately show ?thesis
    by (simp add: layer_ok_def newMembershipLayer_def Let_def membershipBitsPerID_def assms(1))
qed

text \<open>
  A shard after \<open>n\<close> additions: its layers double in capacity and every layer but the last is full.
\<close>

definition shard_ok :: "nat \<Rightarrow> membershipShard \<Rightarrow> bool" where
  "shard_ok n s =
     (case s of
        None \<Rightarrow> n = 0
      | Some layers \<Rightarrow>
          layers \<noteq> [] \<and> list_all layer_ok layers \<and>
          unat (ly_capacity (last layers)) = 1024 * 2 ^ (length layers - 1) \<and>
          ly_count (last layers) \<le> ly_capacity (last layers) \<and>
          n + 1024 = 1024 * 2 ^ (length layers - 1) + unat (ly_count (last layers)))"

definition shard_has :: "membershipShard \<Rightarrow> uint64 \<Rightarrow> bool" where
  "shard_has s h = (case s of None \<Rightarrow> False | Some layers \<Rightarrow> list_ex (\<lambda>l. layer_contains l h) layers)"

lemma shard_add_room:
  assumes ok: "shard_ok n (Some layers)" and room: "ly_count (last layers) < ly_capacity (last layers)"
  shows "shard_ok (Suc n) (shard_add h (Some layers)) \<and> shard_has (shard_add h (Some layers)) h \<and>
    (\<forall>g. shard_has (Some layers) g \<longrightarrow> shard_has (shard_add h (Some layers)) g)"
proof -
  let ?l = "last layers"
  from ok have ne: "layers \<noteq> []" and all: "list_all layer_ok layers" by (simp_all add: shard_ok_def)
  then have split: "layers = butlast layers @ [?l]" and lok: "layer_ok ?l" by (simp_all add: list_all_iff)
  have "ly_count ?l \<noteq> - 1" using room by (metis word_order.extremum_strict)
  from word_suc_gt(2) [OF this] have c: "unat (ly_count ?l + 1) = Suc (unat (ly_count ?l))" .
  have "list_all layer_ok (butlast layers)" using all by (metis in_set_butlastD list_all_iff)
  then have "shard_ok (Suc n) (shard_add h (Some layers))"
    using ok room c lok ne by (simp add: shard_ok_def shard_add_def Let_def word_le_nat_alt word_less_nat_alt)
  moreover have "shard_has (shard_add h (Some layers)) h"
    using room lok by (simp add: shard_add_def Let_def shard_has_def layer_contains_add)
  moreover have "shard_has (shard_add h (Some layers)) g" if "shard_has (Some layers) g" for g
  proof -
    have "list_ex (\<lambda>l. layer_contains l g) (butlast layers @ [?l])" using that split by (simp add: shard_has_def)
    then show ?thesis using room by (auto simp: shard_add_def Let_def shard_has_def layer_contains_mono)
  qed
  ultimately show ?thesis by blast
qed

lemma shard_add_full:
  assumes ok: "shard_ok n (Some layers)" and full: "\<not> ly_count (last layers) < ly_capacity (last layers)"
    and few: "n < 2 ^ 59"
  shows "shard_ok (Suc n) (shard_add h (Some layers)) \<and> shard_has (shard_add h (Some layers)) h \<and>
    (\<forall>g. shard_has (Some layers) g \<longrightarrow> shard_has (shard_add h (Some layers)) g)"
proof -
  let ?l = "last layers"
  let ?c = "ly_capacity ?l * 2"
  from ok have ne: "layers \<noteq> []" and cap: "unat (ly_capacity ?l) = 1024 * 2 ^ (length layers - 1)"
    and cnt: "ly_count ?l = ly_capacity ?l"
    and n: "n + 1024 = 1024 * 2 ^ (length layers - 1) + unat (ly_count ?l)"
    using full by (auto simp: shard_ok_def)
  obtain k where k: "length layers = Suc k" using ne by (cases layers) auto
  have n': "n + 1024 = 1024 * 2 ^ Suc k" using n cnt cap k by simp
  then have small: "1024 * 2 ^ Suc k < (2 ^ 60 :: nat)" using few by simp
  have "unat (ly_capacity ?l) * 2 < 2 ^ 64" using cap k small by simp
  then have dbl: "unat ?c = 1024 * 2 ^ Suc k" using cap k by (simp add: unat_word_ariths)
  have new: "layer_ok (newMembershipLayer ?c)" by (rule layer_ok_new [OF dbl small])
  have "(1 :: uint64) \<le> ?c" using dbl by (simp add: word_le_nat_alt)
  then have "shard_ok (Suc n) (shard_add h (Some layers))"
    using ok full new n' dbl k
    by (simp add: shard_ok_def shard_add_def Let_def newMembershipLayer_def)
  then show ?thesis
    using full new by (auto simp: shard_add_def Let_def shard_has_def layer_contains_add)
qed

lemma shard_add_first: "shard_ok (Suc 0) (shard_add h None) \<and> shard_has (shard_add h None) h"
proof -
  have "layer_ok (newMembershipLayer membershipShardInitialCapacity)"
    by (rule layer_ok_new [of _ 0]) (simp_all add: membershipShardInitialCapacity_def)
  then show ?thesis
    by (simp add: shard_add_def shard_ok_def shard_has_def layer_contains_add newMembershipLayer_def Let_def
        membershipShardInitialCapacity_def)
qed

lemma shard_add_ok:
  assumes "shard_ok n s" "n < 2 ^ 59"
  shows "shard_ok (Suc n) (shard_add h s)" and "shard_has (shard_add h s) h"
    and "shard_has s g \<Longrightarrow> shard_has (shard_add h s) g"
proof -
  have "shard_ok (Suc n) (shard_add h s) \<and> shard_has (shard_add h s) h \<and>
    (\<forall>g. shard_has s g \<longrightarrow> shard_has (shard_add h s) g)"
  proof (cases s)
    case None
    with assms(1) have "n = 0" by (simp add: shard_ok_def)
    with None shard_add_first [of h] show ?thesis by (simp add: shard_has_def)
  next
    case (Some layers)
    with assms shard_add_room [of n layers h] shard_add_full [of n layers h] show ?thesis by blast
  qed
  then show "shard_ok (Suc n) (shard_add h s)" and "shard_has (shard_add h s) h"
    and "shard_has s g \<Longrightarrow> shard_has (shard_add h s) g" by blast+
qed


definition filter_ok :: "nat \<Rightarrow> membershipFilter \<Rightarrow> bool" where
  "filter_ok n f \<longleftrightarrow> length f = membershipShardCount \<and> (\<forall>s \<in> set f. \<exists>m \<le> n. shard_ok m s)"

lemma membershipShardIndex_less: "membershipShardIndex h < membershipShardCount"
proof -
  have "unat h < 2 ^ 64" using unsigned_less [of h, where ?'a = nat] by simp
  then show ?thesis
    by (simp add: membershipShardIndex_def membershipShardCount_def membershipShardBits_def
        drop_bit_eq_div unat_div_distrib div_less_iff_less_mult)
qed

lemma filter_contains_shard: "filter_contains hash f val = shard_has (f ! membershipShardIndex (hash val)) (hash val)"
  by (auto simp: filter_contains_def shard_has_def Let_def split: option.splits)

lemma filter_ok_new: "filter_ok 0 (replicate membershipShardCount None)"
  by (auto simp: filter_ok_def shard_ok_def)

lemma addValue_ok:
  assumes ok: "filter_ok n f" and few: "n < 2 ^ 59"
  shows "filter_ok (Suc n) (addValue hash val f)" and "filter_contains hash (addValue hash val f) val"
    and "filter_contains hash f v \<Longrightarrow> filter_contains hash (addValue hash val f) v"
proof -
  let ?i = "membershipShardIndex (hash val)"
  have len: "?i < length f" using ok membershipShardIndex_less by (simp add: filter_ok_def)
  then have "f ! ?i \<in> set f" by simp
  with ok obtain m where m: "m \<le> n" "shard_ok m (f ! ?i)" unfolding filter_ok_def by blast
  with few have "m < 2 ^ 59" by simp
  note add = shard_add_ok [OF m(2) this]
  have sub: "set (addValue hash val f) \<subseteq> insert (shard_add (hash val) (f ! ?i)) (set f)"
    by (simp add: addValue_def Let_def set_update_subset_insert)
  have "\<exists>m \<le> Suc n. shard_ok m s" if "s \<in> set (addValue hash val f)" for s
  proof (cases "s \<in> set f")
    case True
    with ok obtain k where "k \<le> n" "shard_ok k s" unfolding filter_ok_def by blast
    then show ?thesis by (intro exI [of _ k]) simp
  next
    case False
    with that sub have "s = shard_add (hash val) (f ! ?i)" by blast
    with add(1) m(1) show ?thesis by (intro exI [of _ "Suc m"]) simp
  qed
  with ok show "filter_ok (Suc n) (addValue hash val f)"
    by (simp add: filter_ok_def) (simp add: addValue_def Let_def)
  show "filter_contains hash (addValue hash val f) val"
    using len add(2) by (simp add: filter_contains_shard addValue_def Let_def)
  show "filter_contains hash (addValue hash val f) v" if "filter_contains hash f v"
    using that len add(3) [of "hash v"]
    by (cases "membershipShardIndex (hash v) = ?i") (simp_all add: filter_contains_shard addValue_def Let_def)
qed

lemma addAll_ok:
  assumes "filter_ok n f" "n + length vals \<le> 2 ^ 59"
  shows "filter_ok (n + length vals) (addAll hash vals f) \<and>
    (\<forall>v. v \<in> set vals \<or> filter_contains hash f v \<longrightarrow> filter_contains hash (addAll hash vals f) v)"
  using assms
proof (induction vals arbitrary: n f)
  case Nil
  then show ?case by (simp add: addAll_def)
next
  case (Cons x vals)
  then have few: "n < 2 ^ 59" by simp
  note add = addValue_ok [OF Cons.prems(1) few, where hash = hash and val = x]
  have step: "addAll hash (x # vals) f = addAll hash vals (addValue hash x f)" by (simp add: addAll_def)
  have "Suc n + length vals \<le> 2 ^ 59" using Cons.prems(2) by simp
  from Cons.IH [OF add(1) this] show ?case unfolding step using add(2,3) by auto
qed

lemma newMembershipFilter_contains:
  assumes "length vals \<le> 2 ^ 59" "v \<in> set vals"
  shows "filter_contains hash (newMembershipFilter hash vals) v"
  using addAll_ok [OF filter_ok_new, of vals hash] assms by (simp add: newMembershipFilter_def)

end
