(* ===== verification/Chronos_Storage_Properties.thy ===== *)
theory Chronos_Storage_Properties
  imports Chronos_Segments Chronos_Membership
begin

text \<open>
  Properties of the storage layer's encodings: keys and scans, receipts, snapshot images, and the
  membership filter.
\<close>

lemma segmentedValues_iff:
  "segmentedValues key pre (length vals) = Some vals \<longleftrightarrow>
     key = segmentedKey pre vals \<and> vals \<noteq> [] \<and> (\<forall>v \<in> set vals. short32 v \<and> v \<noteq> '''')"
proof
  assume some: "segmentedValues key pre (length vals) = Some vals"
  have "vals \<noteq> []"
  proof
    assume "vals = []"
    with some segmentedValues_Some(1) [OF some] show False
      by (simp add: segmentedKey_def segmentedValues_def)
  qed
  with segmentedValues_Some [OF some] show "key = segmentedKey pre vals \<and> vals \<noteq> [] \<and> (\<forall>v \<in> set vals. short32 v \<and> v \<noteq> '''')"
    by blast
qed (simp add: segmentedValues_segmentedKey)

text \<open>
  The keys of the store are ordered and delimited as the scans need: indices compare as their keys
  do, a scan between a prefix and its computed upper bound visits exactly the keys that start with the
  prefix (also when it ends in 0xff bytes), and the framed strings of a key are read back exactly when
  the key was built from non-empty strings whose lengths fit in 32 bits.
\<close>

theorem store_keys_exact:
  "(numberKey pre v < numberKey pre w \<longleftrightarrow> v < w) \<and>
   (in_range lo (prefixUpper lo) key \<longleftrightarrow> prefix lo key) \<and>
   (segmentedValues key pre (length vals) = Some vals \<longleftrightarrow>
      key = segmentedKey pre vals \<and> vals \<noteq> [] \<and> (\<forall>s \<in> set vals. short32 s \<and> s \<noteq> ''''))"
  using numberKey_less_iff in_range_prefixUpper segmentedValues_iff by blast

theorem store_keys_exact_witness:
  "numberKey (CHR 0x02) 255 < numberKey (CHR 0x02) 256 \<and>
   in_range [CHR 0x0A, CHR 0xFF] (prefixUpper [CHR 0x0A, CHR 0xFF]) [CHR 0x0A, CHR 0xFF, CHR 0x61] \<and>
   segmentedValues (segmentedKey (CHR 0x0A) [''wf'', ''r'']) (CHR 0x0A) (length [''wf'', ''r'']) = Some [''wf'', ''r'']"
  using store_keys_exact [of "CHR 0x02" 255 256 "[CHR 0x0A, CHR 0xFF]" "[CHR 0x0A, CHR 0xFF, CHR 0x61]" "[]"]
    store_keys_exact [of "CHR 0x0A" 0 0 "[]" "segmentedKey (CHR 0x0A) [''wf'', ''r'']" "[''wf'', ''r'']"]
  by (simp add: short32_def)

text \<open>
  C39: a receipt is read back from its binary form as it was written, and a binary form that is accepted
  is the one its record is written as: no two byte strings with the receipt magic decode to one record.
\<close>

theorem receipt_codec_exact:
  assumes "encodeReceiptRecord r = Inr data" and "length data < 2 ^ 64"
  shows "decodeReceiptRecord S J data = Inr r \<and>
    (\<forall>body q. decodeReceiptRecord S J (receiptMagic @ body) = Inr q \<longrightarrow>
       encodeReceiptRecord q = Inr (receiptMagic @ body))"
  using decode_encodeReceiptRecord [OF assms] encode_decodeReceiptRecord by blast

definition sample_receipt :: receiptRecord where
  "sample_receipt =
     \<lparr>rc_Version = ReceiptVersion, rc_RequestID = ''req-1'', rc_RequestHash = ''ab'', rc_AppliedIndex = 300,
      rc_CommittedTerm = 2, rc_WorkflowID = ''wf'', rc_FirstSequence = 4, rc_LastSequence = 6\<rparr>"

lemma sample_receipt_encodes:
  "encodeReceiptRecord sample_receipt = Inr (receiptMagic @ receipt_body sample_receipt)"
  "length (receiptMagic @ receipt_body sample_receipt) < 2 ^ 64"
proof -
  show "encodeReceiptRecord sample_receipt = Inr (receiptMagic @ receipt_body sample_receipt)"
    by (simp add: encodeReceiptRecord_body validReceiptRecord_def sample_receipt_def maxReceiptEvents_def)
  have l: "length (AppendUvarint v) \<le> 10" for v using length_AppendUvarint [of v] by (simp add: MaxVarintLen64_def)
  have "length (receiptMagic @ receipt_body sample_receipt) \<le> 6 + 80 + 9"
    using l [of "ucast ReceiptVersion"] l [of 300] l [of 2] l [of 4] l [of 6] l [of "of_nat 5"]
    by (simp add: receipt_body_def sample_receipt_def receiptMagic_def)
  then show "length (receiptMagic @ receipt_body sample_receipt) < 2 ^ 64" by simp
qed

theorem receipt_codec_exact_witness:
  "decodeReceiptRecord \<lparr>sn_Encode = id, sn_DecodedLen = (\<lambda>_. None), sn_Decode = (\<lambda>_. None)\<rparr>
     \<lparr>js_Marshal = (\<lambda>_. None), js_Unmarshal = (\<lambda>_. None)\<rparr> (receiptMagic @ receipt_body sample_receipt) = Inr sample_receipt"
  by (rule conjunct1 [OF receipt_codec_exact [OF sample_receipt_encodes]])

text \<open>
  C40: the membership filter never forgets: an identifier that was added, at construction or later, is
  reported as present for every hash function, as long as fewer than 2^59 identifiers were added.
\<close>

theorem membership_never_forgets:
  assumes "length vals + length extra \<le> 2 ^ 59" and "v \<in> set vals \<or> v \<in> set extra"
  shows "filter_contains hash (addAll hash extra (newMembershipFilter hash vals)) v"
proof -
  have a: "filter_ok (0 + length vals) (newMembershipFilter hash vals) \<and>
    (\<forall>v. v \<in> set vals \<longrightarrow> filter_contains hash (newMembershipFilter hash vals) v)"
    using addAll_ok [OF filter_ok_new, of vals hash] assms(1) by (simp add: newMembershipFilter_def)
  with addAll_ok [of "0 + length vals" "newMembershipFilter hash vals" extra hash] assms show ?thesis by auto
qed

theorem membership_never_forgets_witness:
  "filter_contains (\<lambda>s. of_nat (length s)) (addAll (\<lambda>s. of_nat (length s)) [''b''] (newMembershipFilter (\<lambda>s. of_nat (length s)) [''a''])) ''a''"
  by (rule membership_never_forgets) simp_all

text \<open>
  A snapshot image is read back from its framed bytes, and bytes that are accepted are the frame of
  their payload: magic, length, payload and the digest of all of these, so a changed byte is accepted
  only if the digest still agrees. The payload may have at most 2^32 bytes, and the digest is 32 bytes long.
\<close>

theorem snapshot_image_sealed:
  assumes "\<And>x. length (H x) = sha256_Size"
    and "js_Marshal J img = Some payload" "js_Unmarshal J payload = Some img"
    and "si_Version img = SnapshotVersion" "length payload \<le> 4294967296"
  shows "(\<exists>data. encodeSnapshotImage H J img = Inr data \<and> decodeSnapshotImage H J data = Inr img) \<and>
    (\<forall>other found. decodeSnapshotImage H J other = Inr found \<longrightarrow>
      (\<exists>body. other = snapshotMagic @ PutUint64 (of_nat (length body)) @ body @
          H (snapshotMagic @ PutUint64 (of_nat (length body)) @ body) \<and>
        js_Unmarshal J body = Some found \<and> si_Version found = SnapshotVersion))"
  using decode_encodeSnapshotImage [where H = H, OF assms(2-5,1)] decodeSnapshotImage_frame [of H J] by blast

definition sample_image :: SnapshotImage where
  "sample_image =
     \<lparr>si_Version = SnapshotVersion, si_ClusterID = ''c'', si_AppliedIndex = 1, si_Term = 1,
      si_Engine = \<lparr>es_Version = EngineSnapshotVersion, es_Workflows = [], es_Requests = []\<rparr>,
      si_Outcomes = [], si_TaskResults = []\<rparr>"

definition sample_json :: "SnapshotImage json" where
  "sample_json = \<lparr>js_Marshal = (\<lambda>_. Some ''{}''), js_Unmarshal = (\<lambda>_. Some sample_image)\<rparr>"

theorem snapshot_image_sealed_witness:
  "\<exists>data. encodeSnapshotImage (\<lambda>_. replicate 32 (CHR ''x'')) sample_json sample_image = Inr data \<and>
     decodeSnapshotImage (\<lambda>_. replicate 32 (CHR ''x'')) sample_json data = Inr sample_image"
  by (rule conjunct1 [OF snapshot_image_sealed [where payload = "''{}''"]])
    (simp_all add: sha256_Size_def sample_json_def sample_image_def)

end
