(* ===== verification/Chronos_Store.thy ===== *)
theory Chronos_Store
  imports Chronos_Segments Chronos_Membership
begin

text \<open>
  The store (\<^verbatim>\<open>internal/storage/store.go\<close>, \<^verbatim>\<open>raft.go\<close>): its state, the database it sits on and the
  persistent raft log. The database (\<^verbatim>\<open>pebble\<close>), the protobuf encodings and the two predicates of the
  raft library are arguments of every definition, gathered in one record \<open>E\<close>; what the code relies on
  is stated by \<open>pebble_ok\<close> and \<open>proto_ok\<close>. An operation returns the store beside its result, because
  an injected failure after the commit leaves a changed database behind.
\<close>

section \<open>The database\<close>

datatype write_op =
    OpSet bytes bytes
  | OpDelete bytes
  | OpDeleteRange bytes "bytes option"

text \<open>
  \<open>pb_Get\<close> is \<open>None\<close> for \<^verbatim>\<open>pebble.ErrNotFound\<close>; \<open>pb_Commit db sync ops\<close> applies a batch; \<open>pb_Scan db lo hi\<close>
  lists what an iterator with these bounds visits.
\<close>

record 'db pebble =
  pb_Get :: "'db \<Rightarrow> bytes \<Rightarrow> store_err + bytes option"
  pb_Commit :: "'db \<Rightarrow> bool \<Rightarrow> write_op list \<Rightarrow> store_err + 'db"
  pb_Scan :: "'db \<Rightarrow> bytes \<Rightarrow> bytes option \<Rightarrow> store_err + (bytes \<times> bytes) list"

type_synonym contents = "bytes \<Rightarrow> bytes option"

primrec run_op :: "write_op \<Rightarrow> contents \<Rightarrow> contents" where
  "run_op (OpSet k v) m = m(k \<mapsto> v)"
| "run_op (OpDelete k) m = m(k := None)"
| "run_op (OpDeleteRange lo hi) m = (\<lambda>k. if in_range lo hi k then None else m k)"

definition run_ops :: "write_op list \<Rightarrow> contents \<Rightarrow> contents" where
  "run_ops ops m = fold run_op ops m"

lemma run_ops_simps [simp]:
  "run_ops [] m = m" "run_ops (op # ops) m = run_ops ops (run_op op m)"
  "run_ops (ops @ ops') m = run_ops ops' (run_ops ops m)"
  by (simp_all add: run_ops_def)

text \<open>
  A database that works: reads and scans return what the batches committed so far have left, scans in
  the order of the keys; a commit that succeeds applies its operations in order.
\<close>

definition pebble_ok :: "'db pebble \<Rightarrow> ('db \<Rightarrow> contents) \<Rightarrow> bool" where
  "pebble_ok P view \<longleftrightarrow>
     (\<forall>d k. pb_Get P d k = Inr (view d k)) \<and>
     (\<forall>d sync ops d'. pb_Commit P d sync ops = Inr d' \<longrightarrow> view d' = run_ops ops (view d)) \<and>
     (\<forall>d lo hi. \<exists>kvs. pb_Scan P d lo hi = Inr kvs \<and> sorted_wrt (<) (map fst kvs) \<and>
        set kvs = {(k, v). view d k = Some v \<and> in_range lo hi k})"

section \<open>The raft library's types\<close>

record HardState =
  hs_Term :: uint64
  hs_Vote :: uint64
  hs_Commit :: uint64

record ConfState =
  cs_Voters :: "uint64 list"
  cs_Learners :: "uint64 list"
  cs_VotersOutgoing :: "uint64 list"
  cs_LearnersNext :: "uint64 list"
  cs_AutoLeave :: bool

record RaftSnapshot =
  sn_Data :: bytes
  sn_Index :: uint64
  sn_Term :: uint64
  sn_ConfState :: ConfState

record Entry =
  le_Index :: uint64
  le_Term :: uint64
  le_Type :: int
  le_Data :: bytes

record Ready =
  rd_HardState :: HardState
  rd_Entries :: "Entry list"
  rd_Snapshot :: RaftSnapshot
  rd_MustSync :: bool

record 'a proto =
  pr_Marshal :: "'a \<Rightarrow> bytes option"
  pr_Unmarshal :: "bytes \<Rightarrow> 'a option"

text \<open>A message that was marshalled is read back.\<close>

definition proto_ok :: "'a proto \<Rightarrow> bool" where
  "proto_ok P \<longleftrightarrow> (\<forall>x data. pr_Marshal P x = Some data \<longrightarrow> pr_Unmarshal P data = Some x)"

definition encodeProto :: "'a proto \<Rightarrow> 'a \<Rightarrow> store_err + bytes" where
  "encodeProto P x = (case pr_Marshal P x of None \<Rightarrow> Inl CodecError | Some data \<Rightarrow> Inr data)"

definition decodeProto :: "'a proto \<Rightarrow> bytes \<Rightarrow> store_err + 'a" where
  "decodeProto P data = (case pr_Unmarshal P data of None \<Rightarrow> Inl CodecError | Some x \<Rightarrow> Inr x)"

record applicationRecord =
  ar_Version :: uint32
  ar_Index :: uint64
  ar_Term :: uint64

record 'db storage_env =
  io_pebble :: "'db pebble"
  io_digest :: digest
  io_snappy :: snappy
  io_hard :: "HardState proto"
  io_conf :: "ConfState proto"
  io_snapshot :: "RaftSnapshot proto"
  io_entry :: "Entry proto"
  io_entrySize :: "Entry \<Rightarrow> uint64"
  io_isEmptyHardState :: "HardState \<Rightarrow> bool"
  io_isEmptySnap :: "RaftSnapshot \<Rightarrow> bool"
  io_image :: "SnapshotImage json"
  io_receipt :: "receiptRecord json"
  io_eventSegment :: "eventSegment json"
  io_taskResultSegment :: "taskResultSegment json"
  io_state :: "WorkflowState json"
  io_outcome :: "Outcome json"
  io_appliedState :: "AppliedState json"
  io_application :: "applicationRecord json"
  io_receiptHash :: hasher
  io_workflowHash :: hasher

definition raft_codecs_ok :: "'db storage_env \<Rightarrow> bool" where
  "raft_codecs_ok E \<longleftrightarrow>
     proto_ok (io_hard E) \<and> proto_ok (io_conf E) \<and> proto_ok (io_snapshot E) \<and> proto_ok (io_entry E)"

section \<open>State\<close>

datatype Point =
    RaftBeforeSync | RaftAfterSync | ApplyBeforeSync | ApplyAfterSync | SnapshotBeforeSync
  | SnapshotAfterSync | SnapshotInstallBeforeSync | SnapshotInstallAfterSync
  | ActiveIndexBeforeSync | ActiveIndexAfterSync

text \<open>
  A failpoint that injects nothing at a point is \<open>None\<close> there; a store without a failpoint is the
  constant \<open>None\<close>. The membership filter is \<open>None\<close> while the source holds a nil pointer.
\<close>

record 'db Store =
  so_db :: 'db
  so_clusterID :: string
  so_nodeID :: uint64
  so_failpoint :: "Point \<Rightarrow> store_err option"
  so_hard :: HardState
  so_conf :: ConfState
  so_snapshot :: RaftSnapshot
  so_entryTerms :: "uint64 list"
  so_engine :: Engine
  so_applied :: uint64
  so_appliedTerm :: uint64
  so_membership :: "durableMembership option"

definition hit :: "'db Store \<Rightarrow> Point \<Rightarrow> store_err + unit" where
  "hit s point = (case so_failpoint s point of None \<Rightarrow> Inr () | Some e \<Rightarrow> Inl e)"

text \<open>\<^verbatim>\<open>get\<close> where the source compares the error with \<^verbatim>\<open>pebble.ErrNotFound\<close>, and where it does not.\<close>

definition get :: "'db storage_env \<Rightarrow> 'db Store \<Rightarrow> bytes \<Rightarrow> store_err + bytes option" where
  "get E s key = pb_Get (io_pebble E) (so_db s) key"

definition get_present :: "'db storage_env \<Rightarrow> 'db Store \<Rightarrow> bytes \<Rightarrow> store_err + bytes" where
  "get_present E s key =
     bindE (get E s key) (\<lambda>r. case r of None \<Rightarrow> Inl DatabaseError | Some data \<Rightarrow> Inr data)"

definition scan_bounds :: "'db storage_env \<Rightarrow> 'db Store \<Rightarrow> char \<Rightarrow> store_err + (bytes \<times> bytes) list" where
  "scan_bounds E s pre =
     (case prefixBounds pre of (lower, upper) \<Rightarrow> pb_Scan (io_pebble E) (so_db s) lower (Some upper))"

definition schemaKey :: bytes where "schemaKey = [CHR 0x01, CHR 0x01]"
definition hardStateKey :: bytes where "hardStateKey = [CHR 0x01, CHR 0x02]"
definition confStateKey :: bytes where "confStateKey = [CHR 0x01, CHR 0x03]"
definition snapshotKey :: bytes where "snapshotKey = [CHR 0x01, CHR 0x04]"
definition appliedKey :: bytes where "appliedKey = [CHR 0x01, CHR 0x05]"
definition clusterKey :: bytes where "clusterKey = [CHR 0x01, CHR 0x06]"
definition nodeKey :: bytes where "nodeKey = [CHR 0x01, CHR 0x07]"
definition activeIndexKey :: bytes where "activeIndexKey = [CHR 0x01, CHR 0x08]"

lemma pebble_okD:
  assumes "pebble_ok P view"
  shows pebble_get: "pb_Get P d k = Inr (view d k)"
    and pebble_commit: "pb_Commit P d sync ops = Inr d' \<Longrightarrow> view d' = run_ops ops (view d)"
    and pebble_scan: "\<exists>kvs. pb_Scan P d lo hi = Inr kvs \<and> sorted_wrt (<) (map fst kvs) \<and>
      set kvs = {(k, v). view d k = Some v \<and> in_range lo hi k}"
  using assms unfolding pebble_ok_def by blast+

text \<open>A sorted list of pairs is determined by its elements, so a scan is determined by the contents.\<close>

lemma sorted_pairs_unique:
  fixes xs ys :: "('k::linorder \<times> 'v) list"
  assumes "sorted_wrt (<) (map fst xs)" "sorted_wrt (<) (map fst ys)" "set xs = set ys"
  shows "xs = ys"
  using assms
proof (induction xs arbitrary: ys)
  case (Cons x xs)
  then obtain y zs where ys: "ys = y # zs" by (cases ys) auto
  have "x = y"
  proof (rule ccontr)
    assume "x \<noteq> y"
    with Cons.prems(3) have "x \<in> set zs" "y \<in> set xs" by (auto simp: ys)
    with Cons.prems(1,2) have "fst x < fst y" "fst y < fst x" by (auto simp: ys)
    then show False by simp
  qed
  moreover have "x \<notin> set xs" "y \<notin> set zs" using Cons.prems(1,2) by (auto simp: ys)
  ultimately have "set xs = set zs" using Cons.prems(3) by (auto simp: ys)
  with Cons.IH [of zs] Cons.prems \<open>x = y\<close> show ?case by (simp add: ys)
qed simp

lemma pebble_scan_eq:
  assumes "pebble_ok P view" "sorted_wrt (<) (map fst kvs)"
    and "set kvs = {(k, v). view d k = Some v \<and> in_range lo hi k}"
  shows "pb_Scan P d lo hi = Inr kvs"
proof -
  from pebble_scan [OF assms(1), of d lo hi] obtain found where found: "pb_Scan P d lo hi = Inr found"
    "sorted_wrt (<) (map fst found)" "set found = {(k, v). view d k = Some v \<and> in_range lo hi k}"
    by blast
  from sorted_pairs_unique [OF found(2) assms(2)] found(3) assms(3) have "found = kvs" by simp
  with found(1) show ?thesis by simp
qed

text \<open>An operation acts on each key by itself, and leaves the keys alone that it does not touch.\<close>

primrec touches :: "write_op \<Rightarrow> bytes \<Rightarrow> bool" where
  "touches (OpSet k v) key = (key = k)"
| "touches (OpDelete k) key = (key = k)"
| "touches (OpDeleteRange lo hi) key = in_range lo hi key"

lemma run_op_pointwise: "m k = m' k \<Longrightarrow> run_op op m k = run_op op m' k"
  by (cases op) simp_all

lemma run_ops_pointwise: "m k = m' k \<Longrightarrow> run_ops ops m k = run_ops ops m' k"
proof (induction ops arbitrary: m m')
  case (Cons op ops)
  have "run_op op m k = run_op op m' k" by (rule run_op_pointwise) (rule Cons.prems)
  then have "run_ops ops (run_op op m) k = run_ops ops (run_op op m') k" by (rule Cons.IH)
  then show ?case by simp
qed simp

lemma run_ops_untouched: "(\<And>op. op \<in> set ops \<Longrightarrow> \<not> touches op k) \<Longrightarrow> run_ops ops m k = m k"
proof (induction ops arbitrary: m)
  case (Cons op ops)
  have "\<not> touches op k" by (rule Cons.prems) simp
  then have "run_op op m k = m k" by (cases op) auto
  with Cons show ?case by simp
qed simp

lemma run_ops_sets_other:
  "k \<notin> f ` set xs \<Longrightarrow> run_ops (map (\<lambda>x. OpSet (f x) (g x)) xs) m k = m k"
  by (induction xs arbitrary: m) auto

lemma run_ops_sets:
  assumes "distinct (map f xs)" "x \<in> set xs"
  shows "run_ops (map (\<lambda>x. OpSet (f x) (g x)) xs) m (f x) = Some (g x)"
  using assms
proof (induction xs arbitrary: m)
  case (Cons y ys)
  then show ?case by (cases "x = y") (auto simp: run_ops_sets_other)
qed simp

lemmas meta_keys = schemaKey_def hardStateKey_def confStateKey_def snapshotKey_def appliedKey_def
  clusterKey_def nodeKey_def activeIndexKey_def

end
