(* ===== verification/Chronos_Raft_Log.thy ===== *)
theory Chronos_Raft_Log
  imports Chronos_Store
begin

text \<open>
  The persistent raft log: saving what a \<^verbatim>\<open>raft.Ready\<close> asks for (\<^verbatim>\<open>raft.go\<close>), loading it back and
  answering the raft library's queries (\<^verbatim>\<open>store.go\<close>). The log keeps its entries under
  \<^verbatim>\<open>numberKey(2, index)\<close>, and in memory only their terms.
\<close>

section \<open>Snapshots as the log sees them (\<^verbatim>\<open>snapshot.go\<close>)\<close>

definition equalConfState :: "ConfState \<Rightarrow> ConfState \<Rightarrow> bool" where
  "equalConfState first second \<longleftrightarrow>
     cs_Voters first = cs_Voters second \<and> cs_Learners first = cs_Learners second \<and>
     cs_VotersOutgoing first = cs_VotersOutgoing second \<and> cs_LearnersNext first = cs_LearnersNext second \<and>
     cs_AutoLeave first = cs_AutoLeave second"

definition snapshotImage :: "'db storage_env \<Rightarrow> 'db Store \<Rightarrow> RaftSnapshot \<Rightarrow> store_err + SnapshotImage" where
  "snapshotImage E s snapshot =
     bindE (decodeSnapshotImage (io_digest E) (io_image E) (sn_Data snapshot)) (\<lambda>img.
       if si_ClusterID img \<noteq> so_clusterID s \<or> si_AppliedIndex img \<noteq> sn_Index snapshot \<or>
          si_Term img \<noteq> sn_Term snapshot
       then Inl ErrCorruptSnapshot
       else if \<not> equalConfState (sn_ConfState snapshot) (so_conf s) then Inl ErrStoreIdentity
       else case Restore (io_digest E) (si_Engine img) of
         Inl e \<Rightarrow> Inl ErrCorruptSnapshot
       | Inr engine \<Rightarrow> Inr img)"

definition validateSnapshot :: "'db storage_env \<Rightarrow> 'db Store \<Rightarrow> RaftSnapshot \<Rightarrow> store_err + unit" where
  "validateSnapshot E s snapshot = bindE (snapshotImage E s snapshot) (\<lambda>_. Inr ())"

section \<open>Saving (\<^verbatim>\<open>raft.go\<close>)\<close>

text \<open>
  The entries that a \<^verbatim>\<open>Ready\<close> adds after \<open>base\<close>; \<open>nextLength\<close> is the length of the log so far.
\<close>

fun keep_entries :: "uint64 \<Rightarrow> nat \<Rightarrow> Entry list \<Rightarrow> store_err + nat \<times> Entry list" where
  "keep_entries base nextLength [] = Inr (nextLength, [])"
| "keep_entries base nextLength (entry # entries) =
     (if le_Index entry < base then keep_entries base nextLength entries
      else
        let offset = le_Index entry - base in
        if of_nat nextLength < offset then Inl StoreFault
        else bindE (keep_entries base (unat offset + 1) entries) (\<lambda>(n, kept). Inr (n, entry # kept)))"

definition raftWriteOptions :: "Ready \<Rightarrow> bool \<Rightarrow> nat \<Rightarrow> HardState \<Rightarrow> HardState \<Rightarrow> bool" where
  "raftWriteOptions ready snapshotChanged entries previous nextHard \<longleftrightarrow>
     rd_MustSync ready \<or> snapshotChanged \<or> 0 < entries \<or> hs_Term previous \<noteq> hs_Term nextHard \<or>
     hs_Vote previous \<noteq> hs_Vote nextHard"

definition log_prefix :: char where "log_prefix = CHR 0x02"

definition encode_entries :: "'db storage_env \<Rightarrow> Entry list \<Rightarrow> store_err + write_op list" where
  "encode_entries E kept =
     foldE (\<lambda>ops entry. bindE (encodeProto (io_entry E) entry) (\<lambda>data.
       Inr (ops @ [OpSet (numberKey log_prefix (le_Index entry)) data]))) [] kept"

definition put_term :: "uint64 \<Rightarrow> Entry \<Rightarrow> uint64 list \<Rightarrow> uint64 list" where
  "put_term snapshotIndex entry terms = take (unat (le_Index entry - snapshotIndex - 1)) terms @ [le_Term entry]"

text \<open>What \<^verbatim>\<open>SaveReady\<close> computes before it writes: the next state and the operations of the batch.\<close>

record raft_plan =
  rp_hard :: HardState
  rp_conf :: ConfState
  rp_snapshot :: RaftSnapshot
  rp_changed :: bool
  rp_kept :: "Entry list"
  rp_ops :: "write_op list"

definition check_snapshot ::
    "'db storage_env \<Rightarrow> 'db Store \<Rightarrow> Ready \<Rightarrow> store_err + bool \<times> RaftSnapshot \<times> ConfState \<times> nat" where
  "check_snapshot E s ready =
     (if io_isEmptySnap E (rd_Snapshot ready)
      then Inr (False, so_snapshot s, so_conf s, length (so_entryTerms s))
      else bindE (validateSnapshot E s (rd_Snapshot ready)) (\<lambda>_.
        if sn_Index (rd_Snapshot ready) \<le> sn_Index (so_snapshot s) then Inl ErrSnapOutOfDate
        else Inr (True, rd_Snapshot ready, sn_ConfState (rd_Snapshot ready), 0)))"

definition next_hard :: "'db storage_env \<Rightarrow> 'db Store \<Rightarrow> Ready \<Rightarrow> store_err + HardState" where
  "next_hard E s ready =
     (if io_isEmptyHardState E (rd_HardState ready) then Inr (so_hard s)
      else if hs_Commit (rd_HardState ready) < hs_Commit (so_hard s) \<or>
              hs_Term (rd_HardState ready) < hs_Term (so_hard s)
      then Inl StoreFault else Inr (rd_HardState ready))"

definition log_cut :: "uint64 \<Rightarrow> bool \<Rightarrow> Entry list \<Rightarrow> write_op list" where
  "log_cut previousLast snapshotChanged kept =
     (case prefixBounds log_prefix of (lower, upper) \<Rightarrow>
        if snapshotChanged then [OpDeleteRange lower (Some upper)]
        else case kept of
          [] \<Rightarrow> []
        | entry # _ \<Rightarrow>
            if le_Index entry \<le> previousLast
            then [OpDeleteRange (numberKey log_prefix (le_Index entry)) (Some upper)] else [])"

definition plan_ready :: "'db storage_env \<Rightarrow> 'db Store \<Rightarrow> Ready \<Rightarrow> store_err + raft_plan" where
  "plan_ready E s ready =
     (let previousLast = sn_Index (so_snapshot s) + of_nat (length (so_entryTerms s)) in
      bindE (check_snapshot E s ready) (\<lambda>(changed, nextSnapshot, nextConf, nextLength).
      bindE (keep_entries (sn_Index nextSnapshot + 1) nextLength (rd_Entries ready)) (\<lambda>(nextLength, kept).
      bindE (next_hard E s ready) (\<lambda>nextHard.
        let snapshotIndex = sn_Index nextSnapshot; final = snapshotIndex + of_nat nextLength in
        if hs_Commit nextHard < snapshotIndex \<or> final < hs_Commit nextHard then Inl StoreFault
        else
          bindE (if \<not> changed then Inr []
            else bindE (encodeProto (io_snapshot E) nextSnapshot) (\<lambda>data.
              bindE (encodeProto (io_conf E) nextConf) (\<lambda>conf.
                Inr [OpSet snapshotKey data, OpSet confStateKey conf]))) (\<lambda>sets.
          bindE (encode_entries E kept) (\<lambda>entries.
          bindE (if io_isEmptyHardState E (rd_HardState ready) then Inr []
            else bindE (encodeProto (io_hard E) nextHard) (\<lambda>data. Inr [OpSet hardStateKey data])) (\<lambda>hard.
            Inr \<lparr>rp_hard = nextHard, rp_conf = nextConf, rp_snapshot = nextSnapshot, rp_changed = changed,
                 rp_kept = kept, rp_ops = log_cut previousLast changed kept @ sets @ entries @ hard\<rparr>)))))))"

definition ready_empty :: "'db storage_env \<Rightarrow> Ready \<Rightarrow> bool" where
  "ready_empty E ready \<longleftrightarrow>
     io_isEmptyHardState E (rd_HardState ready) \<and> length (rd_Entries ready) = 0 \<and> io_isEmptySnap E (rd_Snapshot ready)"

definition install_plan :: "raft_plan \<Rightarrow> 'db Store \<Rightarrow> 'db Store" where
  "install_plan plan s =
     (let s = s\<lparr>so_hard := rp_hard plan, so_conf := rp_conf plan, so_snapshot := rp_snapshot plan\<rparr>;
          terms = (if rp_changed plan then [] else so_entryTerms s)
      in s\<lparr>so_entryTerms := fold (put_term (sn_Index (rp_snapshot plan))) (rp_kept plan) terms\<rparr>)"

definition SaveReady :: "'db storage_env \<Rightarrow> 'db Store \<Rightarrow> Ready \<Rightarrow> 'db Store \<times> (store_err + unit)" where
  "SaveReady E s ready =
     (if ready_empty E ready then (s, Inr ())
      else case plan_ready E s ready of
        Inl e \<Rightarrow> (s, Inl e)
      | Inr plan \<Rightarrow>
          let sync = raftWriteOptions ready (rp_changed plan) (length (rp_kept plan)) (so_hard s) (rp_hard plan) in
          case (if sync then hit s RaftBeforeSync else Inr ()) of
            Inl e \<Rightarrow> (s, Inl e)
          | Inr _ \<Rightarrow>
              (case pb_Commit (io_pebble E) (so_db s) sync (rp_ops plan) of
                 Inl e \<Rightarrow> (s, Inl e)
               | Inr db \<Rightarrow>
                   let s = s\<lparr>so_db := db\<rparr> in
                   (case (if sync then hit s RaftAfterSync else Inr ()) of
                      Inl e \<Rightarrow> (s, Inl e)
                    | Inr _ \<Rightarrow> (install_plan plan s, Inr ()))))"

definition SaveConfState :: "'db storage_env \<Rightarrow> 'db Store \<Rightarrow> ConfState \<Rightarrow> 'db Store \<times> (store_err + unit)" where
  "SaveConfState E s conf =
     (case encodeProto (io_conf E) conf of
        Inl e \<Rightarrow> (s, Inl e)
      | Inr data \<Rightarrow>
          (case pb_Commit (io_pebble E) (so_db s) True [OpSet confStateKey data] of
             Inl e \<Rightarrow> (s, Inl e)
           | Inr db \<Rightarrow> (s\<lparr>so_db := db, so_conf := conf\<rparr>, Inr ())))"

section \<open>Loading and queries (\<^verbatim>\<open>store.go\<close>)\<close>

definition load_entry ::
    "'db storage_env \<Rightarrow> uint64 \<times> uint64 list \<Rightarrow> bytes \<times> bytes \<Rightarrow> store_err + uint64 \<times> uint64 list" where
  "load_entry E acc kv =
     (case (acc, kv) of ((expected, terms), (key, val)) \<Rightarrow>
        if length key \<noteq> 9 \<or> Uint64 (drop 1 key) \<noteq> expected then Inl StoreFault
        else bindE (decodeProto (io_entry E) val) (\<lambda>entry.
          if le_Index entry \<noteq> expected then Inl StoreFault
          else Inr (expected + 1, terms @ [le_Term entry])))"

definition loadRaft :: "'db storage_env \<Rightarrow> 'db Store \<Rightarrow> store_err + 'db Store" where
  "loadRaft E s =
     bindE (get_present E s hardStateKey) (\<lambda>hardData.
     bindE (get_present E s confStateKey) (\<lambda>confData.
     bindE (get_present E s snapshotKey) (\<lambda>snapshotData.
     bindE (decodeProto (io_hard E) hardData) (\<lambda>hard.
     bindE (decodeProto (io_conf E) confData) (\<lambda>conf.
     bindE (decodeProto (io_snapshot E) snapshotData) (\<lambda>snapshot.
     bindE (scan_bounds E s log_prefix) (\<lambda>kvs.
     bindE (foldE (load_entry E) (sn_Index snapshot + 1, []) kvs) (\<lambda>(expected, terms).
       if hs_Commit hard < sn_Index snapshot \<or> expected - 1 < hs_Commit hard then Inl StoreFault
       else Inr (s\<lparr>so_hard := hard, so_conf := conf, so_snapshot := snapshot, so_entryTerms := terms\<rparr>)))))))))"

definition term_at :: "'db Store \<Rightarrow> uint64 \<Rightarrow> store_err + uint64" where
  "term_at s index =
     (let snapshotIndex = sn_Index (so_snapshot s) in
      if index < snapshotIndex then Inl ErrCompacted
      else if index = snapshotIndex then Inr (sn_Term (so_snapshot s))
      else
        let offset = index - snapshotIndex - 1 in
        if of_nat (length (so_entryTerms s)) \<le> offset then Inl ErrUnavailable
        else Inr (so_entryTerms s ! unat offset))"

definition FirstIndex :: "'db Store \<Rightarrow> uint64" where
  "FirstIndex s = sn_Index (so_snapshot s) + 1"

definition LastIndex :: "'db Store \<Rightarrow> uint64" where
  "LastIndex s = sn_Index (so_snapshot s) + of_nat (length (so_entryTerms s))"

fun read_entries ::
    "'db storage_env \<Rightarrow> 'db Store \<Rightarrow> uint64 \<Rightarrow> uint64 \<Rightarrow> uint64 \<Rightarrow> Entry list \<Rightarrow> (bytes \<times> bytes) list \<Rightarrow>
     store_err + Entry list \<times> uint64 \<times> bool" where
  "read_entries E s maxSize expected used result [] = Inr (result, expected, False)"
| "read_entries E s maxSize expected used result ((key, val) # kvs) =
     (if length key \<noteq> 9 \<or> Uint64 (drop 1 key) \<noteq> expected then Inl StoreFault
      else bindE (decodeProto (io_entry E) val) (\<lambda>entry.
        if le_Index entry \<noteq> expected \<or>
           le_Term entry \<noteq> so_entryTerms s ! unat (expected - sn_Index (so_snapshot s) - 1)
        then Inl StoreFault
        else
          let entrySize = io_entrySize E entry in
          if 0 < length result \<and> maxSize \<noteq> MaxUint64 \<and> maxSize < used + entrySize
          then Inr (result, expected, True)
          else read_entries E s maxSize (expected + 1) (used + entrySize) (result @ [entry]) kvs))"

definition loadEntries ::
    "'db storage_env \<Rightarrow> 'db Store \<Rightarrow> uint64 \<Rightarrow> uint64 \<Rightarrow> uint64 \<Rightarrow> store_err + Entry list" where
  "loadEntries E s lo hi maxSize =
     (if lo = hi then Inr []
      else bindE (pb_Scan (io_pebble E) (so_db s) (numberKey log_prefix lo) (Some (numberKey log_prefix hi))) (\<lambda>kvs.
        bindE (read_entries E s maxSize lo 0 [] kvs) (\<lambda>(result, expected, limited).
          if expected \<noteq> hi \<and> \<not> limited then Inl StoreFault else Inr result)))"

definition Entries :: "'db storage_env \<Rightarrow> 'db Store \<Rightarrow> uint64 \<Rightarrow> uint64 \<Rightarrow> uint64 \<Rightarrow> store_err + Entry list" where
  "Entries E s lo hi maxSize =
     (let first = sn_Index (so_snapshot s) + 1; final = first + of_nat (length (so_entryTerms s)) in
      if lo < first then Inl ErrCompacted
      else if final < hi \<or> hi < lo then Inl ErrUnavailable
      else if lo = hi then Inr []
      else loadEntries E s lo hi maxSize)"

definition RaftState ::
    "'db storage_env \<Rightarrow> 'db Store \<Rightarrow> HardState \<times> ConfState \<times> RaftSnapshot \<times> (store_err + Entry list)" where
  "RaftState E s =
     (let first = sn_Index (so_snapshot s) + 1; final = first + of_nat (length (so_entryTerms s)) in
      (so_hard s, so_conf s, so_snapshot s, loadEntries E s first final MaxUint64))"


definition Store_InitialState :: "'db Store \<Rightarrow> HardState \<times> ConfState" where
  "Store_InitialState s = (so_hard s, so_conf s)"

definition Store_Term :: "'db Store \<Rightarrow> uint64 \<Rightarrow> store_err + uint64" where
  "Store_Term s index = term_at s index"

definition Store_Snapshot :: "'db Store \<Rightarrow> RaftSnapshot" where
  "Store_Snapshot s = so_snapshot s"

definition SnapshotIndex :: "'db Store \<Rightarrow> uint64" where
  "SnapshotIndex s = sn_Index (so_snapshot s)"

end
