(* ===== verification/Chronos_Raft_Recovery.thy ===== *)
theory Chronos_Raft_Recovery
  imports Chronos_Raft_Log
begin

text \<open>
  What the raft log on disk holds, that loading it gives the state in memory, and that saving keeps the
  two together.
\<close>

section \<open>Consecutive entries\<close>

fun runs :: "uint64 \<Rightarrow> Entry list \<Rightarrow> bool" where
  "runs q [] = True"
| "runs q (e # es) = (le_Index e = q \<and> runs (q + 1) es)"

lemma runs_append: "runs q (es @ fs) \<longleftrightarrow> runs q es \<and> runs (q + of_nat (length es)) fs"
  by (induction es arbitrary: q) (auto simp: algebra_simps)

lemma runs_take: "runs q es \<Longrightarrow> runs q (take n es)"
  using runs_append [of q "take n es" "drop n es"] by simp

lemma runs_drop: "runs q es \<Longrightarrow> n \<le> length es \<Longrightarrow> runs (q + of_nat n) (drop n es)"
  using runs_append [of q "take n es" "drop n es"] by simp

lemma unat_add_of_nat:
  fixes q :: uint64
  assumes "unat q + n < 2 ^ 64"
  shows "unat (q + of_nat n) = unat q + n"
proof -
  have "unat (of_nat n :: uint64) = n" using assms by (simp add: unsigned_of_nat take_bit_nat_eq_self)
  with assms show ?thesis by (simp add: unat_word_ariths)
qed

lemma runs_nth: "runs q es \<Longrightarrow> i < length es \<Longrightarrow> le_Index (es ! i) = q + of_nat i"
proof (induction es arbitrary: q i)
  case (Cons e es)
  then show ?case by (cases i) (auto simp: algebra_simps)
qed simp

lemma runs_bounds:
  assumes "runs q es" "unat q + length es < 2 ^ 64" "e \<in> set es"
  shows "unat q \<le> unat (le_Index e)" "unat (le_Index e) < unat q + length es"
proof -
  from assms(3) obtain i where "i < length es" "e = es ! i" by (auto simp: in_set_conv_nth)
  with runs_nth [OF assms(1)] assms(2) unat_add_of_nat [of q i]
  show "unat q \<le> unat (le_Index e)" "unat (le_Index e) < unat q + length es" by simp_all
qed

lemma runs_sorted: "runs q es \<Longrightarrow> unat q + length es < 2 ^ 64 \<Longrightarrow> sorted_wrt (<) (map le_Index es)"
proof (induction es arbitrary: q)
  case (Cons e es)
  have q: "unat (q + 1) = Suc (unat q)" using Cons.prems(2) unat_add_of_nat [of q 1] by simp
  have tail: "runs (q + 1) es" "unat (q + 1) + length es < 2 ^ 64" using Cons.prems q by simp_all
  have "q < le_Index f" if "f \<in> set es" for f
    using runs_bounds(1) [OF tail that] q by (simp add: word_less_nat_alt)
  with Cons.IH [OF tail] Cons.prems(1) show ?case by simp
qed simp

section \<open>What is on disk\<close>

lemma numberKey_le_iff: "numberKey pre v \<le> numberKey pre w \<longleftrightarrow> v \<le> w"
  by (simp add: numberKey_less_iff not_less [symmetric])

definition log_on_disk :: "'db storage_env \<Rightarrow> contents \<Rightarrow> uint64 \<Rightarrow> Entry list \<Rightarrow> bool" where
  "log_on_disk E m first entries \<longleftrightarrow>
     runs first entries \<and> unat first + length entries < 2 ^ 64 \<and>
     (\<forall>e \<in> set entries. pr_Marshal (io_entry E) e \<noteq> None) \<and>
     (\<forall>k v. prefix [log_prefix] k \<longrightarrow>
        (m k = Some v \<longleftrightarrow>
           (\<exists>e \<in> set entries. k = numberKey log_prefix (le_Index e) \<and> pr_Marshal (io_entry E) e = Some v)))"

definition raft_durable :: "'db storage_env \<Rightarrow> ('db \<Rightarrow> contents) \<Rightarrow> 'db Store \<Rightarrow> bool" where
  "raft_durable E view s \<longleftrightarrow>
     (\<exists>entries. log_on_disk E (view (so_db s)) (sn_Index (so_snapshot s) + 1) entries \<and>
        so_entryTerms s = map le_Term entries) \<and>
     unat (sn_Index (so_snapshot s)) + 1 < 2 ^ 64 \<and>
     (\<exists>data. pr_Marshal (io_hard E) (so_hard s) = Some data \<and> view (so_db s) hardStateKey = Some data) \<and>
     (\<exists>data. pr_Marshal (io_conf E) (so_conf s) = Some data \<and> view (so_db s) confStateKey = Some data) \<and>
     (\<exists>data. pr_Marshal (io_snapshot E) (so_snapshot s) = Some data \<and> view (so_db s) snapshotKey = Some data) \<and>
     sn_Index (so_snapshot s) \<le> hs_Commit (so_hard s) \<and> hs_Commit (so_hard s) \<le> LastIndex s"

section \<open>Loading\<close>

definition disk_pair :: "'db storage_env \<Rightarrow> Entry \<Rightarrow> bytes \<times> bytes" where
  "disk_pair E e = (numberKey log_prefix (le_Index e), the (pr_Marshal (io_entry E) e))"

lemma log_prefix_not_top: "byte_val log_prefix \<noteq> 0xff"
  by (simp add: log_prefix_def)

lemma scan_log:
  assumes P: "pebble_ok (io_pebble E) view" and log: "log_on_disk E (view (so_db s)) first entries"
  shows "scan_bounds E s log_prefix = Inr (map (disk_pair E) entries)"
proof -
  from log have runs: "runs first entries" "unat first + length entries < 2 ^ 64"
    and some: "\<forall>e \<in> set entries. pr_Marshal (io_entry E) e \<noteq> None"
    and disk: "\<forall>k v. prefix [log_prefix] k \<longrightarrow> (view (so_db s) k = Some v \<longleftrightarrow>
      (\<exists>e \<in> set entries. k = numberKey log_prefix (le_Index e) \<and> pr_Marshal (io_entry E) e = Some v))"
    by (simp_all add: log_on_disk_def)
  have "sorted_wrt (<) (map fst (map (disk_pair E) entries))"
    using runs_sorted [OF runs] by (simp add: disk_pair_def sorted_wrt_map numberKey_less_iff)
  moreover have "set (map (disk_pair E) entries) =
      {(k, v). view (so_db s) k = Some v \<and> in_range (fst (prefixBounds log_prefix)) (Some (snd (prefixBounds log_prefix))) k}"
  proof -
    have "prefix [log_prefix] (numberKey log_prefix i)" for i by (simp add: numberKey_def)
    then show ?thesis unfolding in_range_prefixBounds [OF log_prefix_not_top]
      using some disk by (fastforce simp: disk_pair_def)
  qed
  ultimately show ?thesis unfolding scan_bounds_def using pebble_scan_eq [OF P] by (simp add: prefixBounds_def)
qed

lemma load_entries_disk:
  assumes "proto_ok (io_entry E)"
  shows "runs q entries \<Longrightarrow> \<forall>e \<in> set entries. pr_Marshal (io_entry E) e \<noteq> None \<Longrightarrow>
    foldE (load_entry E) (q, terms) (map (disk_pair E) entries) =
      Inr (q + of_nat (length entries), terms @ map le_Term entries)"
proof (induction entries arbitrary: q terms)
  case (Cons e es)
  then obtain data where "pr_Marshal (io_entry E) e = Some data" by auto
  with assms Cons.prems(1) have "load_entry E (q, terms) (disk_pair E e) = Inr (q + 1, terms @ [le_Term e])"
    by (auto simp: load_entry_def disk_pair_def decodeProto_def proto_ok_def Uint64_numberKey [simplified])
  with Cons show ?case by (simp add: algebra_simps)
qed simp

lemma get_present_eq: "pebble_ok (io_pebble E) view \<Longrightarrow> view (so_db s) k = Some data \<Longrightarrow> get_present E s k = Inr data"
  by (simp add: get_present_def get_def pebble_get)

definition same_raft :: "'db Store \<Rightarrow> 'db Store \<Rightarrow> 'db Store" where
  "same_raft t s = s\<lparr>so_hard := so_hard t, so_conf := so_conf t, so_snapshot := so_snapshot t,
     so_entryTerms := so_entryTerms t\<rparr>"

lemma loadRaft_durable:
  assumes P: "pebble_ok (io_pebble E) view" and C: "raft_codecs_ok E" and D: "raft_durable E view s"
    and db: "so_db t = so_db s"
  shows "loadRaft E t = Inr (same_raft s t)"
proof -
  from D obtain entries hd cd sd where log: "log_on_disk E (view (so_db s)) (sn_Index (so_snapshot s) + 1) entries"
    and terms: "so_entryTerms s = map le_Term entries"
    and m: "pr_Marshal (io_hard E) (so_hard s) = Some hd" "pr_Marshal (io_conf E) (so_conf s) = Some cd"
      "pr_Marshal (io_snapshot E) (so_snapshot s) = Some sd"
    and v: "view (so_db s) hardStateKey = Some hd" "view (so_db s) confStateKey = Some cd" "view (so_db s) snapshotKey = Some sd"
    and c: "sn_Index (so_snapshot s) \<le> hs_Commit (so_hard s)" "hs_Commit (so_hard s) \<le> LastIndex s"
    by (auto simp: raft_durable_def)
  have g: "get_present E t hardStateKey = Inr hd" "get_present E t confStateKey = Inr cd" "get_present E t snapshotKey = Inr sd"
    using v by (simp_all add: get_present_eq [OF P] db)
  have d: "decodeProto (io_hard E) hd = Inr (so_hard s)" "decodeProto (io_conf E) cd = Inr (so_conf s)"
    "decodeProto (io_snapshot E) sd = Inr (so_snapshot s)"
    using m C by (simp_all add: decodeProto_def raft_codecs_ok_def proto_ok_def)
  have sc: "scan_bounds E t log_prefix = Inr (map (disk_pair E) entries)"
    using scan_log [OF P, of t] log by (simp add: db)
  have ld: "foldE (load_entry E) (sn_Index (so_snapshot s) + 1, []) (map (disk_pair E) entries) =
      Inr (sn_Index (so_snapshot s) + 1 + of_nat (length entries), map le_Term entries)"
    using load_entries_disk [of E "sn_Index (so_snapshot s) + 1" entries "[]"] C log
    by (simp add: raft_codecs_ok_def log_on_disk_def)
  have "sn_Index (so_snapshot s) + 1 + of_nat (length entries) - 1 = LastIndex s"
    by (simp add: LastIndex_def terms)
  with c show ?thesis by (simp add: loadRaft_def g d sc ld same_raft_def terms not_less)
qed

section \<open>Saving\<close>

text \<open>Which entries of a \<^verbatim>\<open>Ready\<close> are kept, when they are consecutive and their indices do not overflow.\<close>

lemma keep_all:
  assumes "keep_entries base n es = Inr (m, kept)" "runs q es" "base \<le> q"
    and "unat q + length es < 2 ^ 64" "n < 2 ^ 64"
  shows "kept = es \<and> (if es = [] then m = n else unat (q - base) \<le> n \<and> m = unat (q - base) + length es)"
  using assms
proof (induction es arbitrary: n m kept q)
  case (Cons e es)
  have q: "le_Index e = q" "runs (q + 1) es" using Cons.prems(2) by simp_all
  let ?o = "unat (q - base)"
  have suc: "unat (q + 1) = Suc (unat q)" using unat_add_of_nat [of q 1] Cons.prems(4) by simp
  have le: "\<not> q < base" using Cons.prems(3) by simp
  with Cons.prems(1) q obtain m' kept' where
    keep: "keep_entries base (?o + 1) es = Inr (m', kept')" "m = m'" "kept = e # kept'"
    and small: "\<not> of_nat n < q - base"
    by (auto simp: result_simps Let_def split: if_splits)
  have o: "?o = unat q - unat base" "unat base \<le> unat q"
    using Cons.prems(3) by (simp_all add: unat_sub word_le_nat_alt)
  have base': "base \<le> q + 1" using o suc by (simp add: word_le_nat_alt)
  then have o': "unat (q + 1 - base) = Suc ?o" using o suc by (simp add: unat_sub)
  have n: "?o \<le> n" using small Cons.prems(5) by (simp add: word_less_nat_alt unsigned_of_nat take_bit_nat_eq_self)
  have "kept' = es \<and> (if es = [] then m' = ?o + 1 else unat (q + 1 - base) \<le> ?o + 1 \<and> m' = unat (q + 1 - base) + length es)"
  proof (rule Cons.IH [OF keep(1) q(2) base'])
    show "unat (q + 1) + length es < 2 ^ 64" using Cons.prems(4) suc by simp
    show "?o + 1 < 2 ^ 64" using Cons.prems(4) o by simp
  qed
  with n keep(2,3) o' show ?case by (auto split: if_splits)
qed simp

lemma keep_suffix:
  assumes "keep_entries base n es = Inr (m, kept)" "runs q es" "unat q + length es < 2 ^ 64" "n < 2 ^ 64"
  shows "kept = [] \<and> m = n \<or>
    (\<exists>p. runs p kept \<and> base \<le> p \<and> unat p + length kept < 2 ^ 64 \<and> kept \<noteq> [] \<and>
      unat (p - base) \<le> n \<and> m = unat (p - base) + length kept)"
  using assms
proof (induction es arbitrary: q)
  case (Cons e es)
  have suc: "unat (q + 1) = Suc (unat q)" using unat_add_of_nat [of q 1] Cons.prems(3) by simp
  show ?case
  proof (cases "q < base")
    case True
    with Cons.prems suc show ?thesis by (intro Cons.IH [of "q + 1"]) simp_all
  next
    case False
    then have "base \<le> q" by simp
    from keep_all [OF Cons.prems(1,2) this Cons.prems(3,4)] \<open>base \<le> q\<close> Cons.prems(2,3)
    show ?thesis by (intro disjI2 exI [of _ q]) simp
  qed
qed simp

lemma fold_put_term:
  assumes "runs p kept" "kept \<noteq> []" "unat p + length kept < 2 ^ 64" "snapshotIndex + 1 \<le> p"
    and "unat (p - (snapshotIndex + 1)) \<le> length terms"
  shows "fold (put_term snapshotIndex) kept terms = take (unat (p - (snapshotIndex + 1))) terms @ map le_Term kept"
  using assms
proof (induction kept arbitrary: p terms)
  case (Cons e es)
  let ?o = "unat (p - (snapshotIndex + 1))"
  have put: "put_term snapshotIndex e terms = take ?o terms @ [le_Term e]"
    using Cons.prems(1) by (simp add: put_term_def algebra_simps)
  show ?case
  proof (cases "es = []")
    case True
    with put show ?thesis by simp
  next
    case False
    have suc: "unat (p + 1) = Suc (unat p)" using unat_add_of_nat [of p 1] Cons.prems(3) by simp
    have le: "unat (snapshotIndex + 1) \<le> unat p" using Cons.prems(4) by (simp add: word_le_nat_alt)
    then have o: "?o = unat p - unat (snapshotIndex + 1)" using Cons.prems(4) by (simp add: unat_sub)
    have le': "snapshotIndex + 1 \<le> p + 1" using le suc by (simp only: word_le_nat_alt)
    have o': "unat (p + 1 - (snapshotIndex + 1)) = Suc ?o"
      using unat_sub [OF le'] o le suc by linarith
    have "fold (put_term snapshotIndex) es (take ?o terms @ [le_Term e]) =
        take (unat (p + 1 - (snapshotIndex + 1))) (take ?o terms @ [le_Term e]) @ map le_Term es"
      by (rule Cons.IH) (use Cons.prems suc False le' o' in simp_all)
    then show ?thesis unfolding o' using Cons.prems(5) by (simp add: put)
  qed
qed simp

lemma encode_entries_Inr:
  "encode_entries E kept = Inr ops \<Longrightarrow>
     ops = map (\<lambda>e. OpSet (fst (disk_pair E e)) (snd (disk_pair E e))) kept \<and>
     (\<forall>e \<in> set kept. pr_Marshal (io_entry E) e \<noteq> None)"
proof (induction kept arbitrary: ops rule: rev_induct)
  case (snoc e kept)
  then show ?case
    by (auto simp: encode_entries_def result_simps encodeProto_def disk_pair_def split: option.splits)
qed (simp add: encode_entries_def)


lemma log_on_disk_cong:
  assumes "\<And>k. prefix [log_prefix] k \<Longrightarrow> m k = m' k"
  shows "log_on_disk E m first entries = log_on_disk E m' first entries"
  using assms by (simp add: log_on_disk_def)

lemma log_on_disk_append:
  assumes log: "log_on_disk E m first entries" and runs: "runs (first + of_nat (length entries)) kept"
    and small: "unat first + length entries + length kept < 2 ^ 64"
    and some: "\<forall>e \<in> set kept. pr_Marshal (io_entry E) e \<noteq> None"
  shows "log_on_disk E (run_ops (map (\<lambda>e. OpSet (fst (disk_pair E e)) (snd (disk_pair E e))) kept) m) first (entries @ kept)"
    (is "log_on_disk E ?m first _")
proof -
  from log have old: "runs first entries" "\<forall>e \<in> set entries. pr_Marshal (io_entry E) e \<noteq> None"
    and disk: "\<And>k v. prefix [log_prefix] k \<Longrightarrow> m k = Some v \<longleftrightarrow>
      (\<exists>e \<in> set entries. k = numberKey log_prefix (le_Index e) \<and> pr_Marshal (io_entry E) e = Some v)"
    by (simp_all add: log_on_disk_def)
  have all: "runs first (entries @ kept)" using old(1) runs by (simp add: runs_append)
  then have "sorted_wrt (<) (map le_Index (entries @ kept))" using small by (intro runs_sorted) (simp_all add: add.assoc)
  then have dist: "distinct (map le_Index (entries @ kept))" by (simp add: strict_sorted_iff)
  have "?m k = Some v \<longleftrightarrow> (\<exists>e \<in> set (entries @ kept). k = numberKey log_prefix (le_Index e) \<and> pr_Marshal (io_entry E) e = Some v)"
    if "prefix [log_prefix] k" for k v
  proof (cases "\<exists>e \<in> set kept. k = fst (disk_pair E e)")
    case True
    then obtain e where e: "e \<in> set kept" "k = fst (disk_pair E e)" by blast
    have "distinct (map (\<lambda>e. fst (disk_pair E e)) kept)"
      using dist by (simp add: disk_pair_def distinct_map inj_on_def)
    from run_ops_sets [OF this e(1)] have "?m k = Some (the (pr_Marshal (io_entry E) e))"
      by (simp add: e(2) disk_pair_def)
    moreover have uniq: "f = e" if "f \<in> set (entries @ kept)" "k = numberKey log_prefix (le_Index f)" for f
    proof -
      have "inj_on le_Index (set (entries @ kept))" using dist distinct_map by blast
      moreover have "e \<in> set (entries @ kept)" "le_Index f = le_Index e"
        using e that(2) by (simp_all add: disk_pair_def)
      ultimately show ?thesis using that(1) by (blast dest: inj_onD)
    qed
    moreover obtain data where data: "pr_Marshal (io_entry E) e = Some data" using some e(1) by auto
    moreover have "e \<in> set (entries @ kept)" "k = numberKey log_prefix (le_Index e)"
      using e by (simp_all add: disk_pair_def)
    ultimately show ?thesis by (metis option.inject option.sel)
  next
    case False
    then have "?m k = m k" by (intro run_ops_sets_other) auto
    then show ?thesis using disk [OF that] False by (auto simp: disk_pair_def)
  qed
  with all old some small show ?thesis by (auto simp: log_on_disk_def add.assoc)
qed

lemma log_on_disk_cut:
  assumes log: "log_on_disk E m (snapshotIndex + 1) entries" and bound: "unat snapshotIndex + 1 < 2 ^ 64"
    and p: "runs p kept" "kept \<noteq> []" "snapshotIndex + 1 \<le> p" and o: "unat (p - (snapshotIndex + 1)) \<le> length entries"
  shows "log_on_disk E (run_ops (log_cut (snapshotIndex + of_nat (length entries)) False kept) m) (snapshotIndex + 1)
    (take (unat (p - (snapshotIndex + 1))) entries)"
proof -
  let ?f = "snapshotIndex + 1"
  let ?o = "unat (p - ?f)"
  from log have runs: "runs ?f entries" "unat ?f + length entries < 2 ^ 64"
    and some: "\<forall>e \<in> set entries. pr_Marshal (io_entry E) e \<noteq> None"
    and disk: "\<And>k v. prefix [log_prefix] k \<Longrightarrow> m k = Some v \<longleftrightarrow>
      (\<exists>e \<in> set entries. k = numberKey log_prefix (le_Index e) \<and> pr_Marshal (io_entry E) e = Some v)"
    by (simp_all add: log_on_disk_def)
  have f: "unat ?f = Suc (unat snapshotIndex)" using unat_add_of_nat [of snapshotIndex 1] bound by simp
  have le: "unat ?f \<le> unat p" using p(3) by (simp only: word_le_nat_alt)
  then have po: "unat p = unat ?f + ?o" using p(3) by (simp add: unat_sub)
  obtain e es where kept: "kept = e # es" "le_Index e = p" using p(1,2) by (cases kept) auto
  have final: "unat (snapshotIndex + of_nat (length entries)) = unat snapshotIndex + length entries"
    using runs(2) f by (intro unat_add_of_nat) simp
  show ?thesis
  proof (cases "?o = length entries")
    case True
    then have "\<not> p \<le> snapshotIndex + of_nat (length entries)" using final po f by (simp add: word_le_nat_alt)
    with True log show ?thesis by (simp add: log_cut_def prefixBounds_def kept)
  next
    case False
    then have lt: "?o < length entries" using o by simp
    then have "p \<le> snapshotIndex + of_nat (length entries)" using final po f by (simp add: word_le_nat_alt)
    then have cut: "log_cut (snapshotIndex + of_nat (length entries)) False kept =
        [OpDeleteRange (numberKey log_prefix p) (Some (snd (prefixBounds log_prefix)))]"
      by (simp add: log_cut_def prefixBounds_def kept)
    have upper: "k < snd (prefixBounds log_prefix)" if "prefix [log_prefix] k" for k
      using in_range_prefixBounds [OF log_prefix_not_top, of k] that by simp
    have early: "e \<in> set (take ?o entries) \<longleftrightarrow> e \<in> set entries \<and> le_Index e < p" for e
    proof
      assume "e \<in> set (take ?o entries)"
      with runs_bounds(2) [OF runs_take [OF runs(1)], of ?o e] lt runs(2) po
      show "e \<in> set entries \<and> le_Index e < p" by (auto simp: word_less_nat_alt dest: in_set_takeD)
    next
      assume e: "e \<in> set entries \<and> le_Index e < p"
      then obtain i where i: "i < length entries" "e = entries ! i" by (auto simp: in_set_conv_nth)
      then have "unat (le_Index e) = unat ?f + i" using runs_nth [OF runs(1) i(1)] unat_add_of_nat [of ?f i] runs(2) by simp
      with e po have "i < ?o" by (simp add: word_less_nat_alt)
      with i show "e \<in> set (take ?o entries)" by (auto simp: in_set_conv_nth intro: exI [of _ i])
    qed
    have "run_ops (log_cut (snapshotIndex + of_nat (length entries)) False kept) m k = Some v \<longleftrightarrow>
        (\<exists>e \<in> set (take ?o entries). k = numberKey log_prefix (le_Index e) \<and> pr_Marshal (io_entry E) e = Some v)"
      if pre: "prefix [log_prefix] k" for k v
      using disk [OF pre, of v] upper [OF pre] early
      by (auto simp: cut numberKey_le_iff)
    then show ?thesis using runs_take [OF runs(1)] runs(2) some by (auto simp: log_on_disk_def dest: in_set_takeD)
  qed
qed


text \<open>The operations of a plan, and the state it leads to.\<close>

definition meta_ops :: "write_op list \<Rightarrow> bool" where
  "meta_ops ops \<longleftrightarrow> (\<forall>op \<in> set ops. \<exists>k v. op = OpSet k v \<and> \<not> prefix [log_prefix] k)"

lemma meta_ops_log: "meta_ops ops \<Longrightarrow> prefix [log_prefix] k \<Longrightarrow> run_ops ops m k = m k"
  by (rule run_ops_untouched) (auto simp: meta_ops_def)

lemma meta_keys_outside:
  "\<not> prefix [log_prefix] hardStateKey" "\<not> prefix [log_prefix] confStateKey" "\<not> prefix [log_prefix] snapshotKey"
  by (simp_all add: meta_keys log_prefix_def)

lemma log_cut_touches:
  assumes "op \<in> set (log_cut final changed kept)" "touches op k"
  shows "prefix [log_prefix] k"
proof -
  have lower: "[log_prefix] \<le> numberKey log_prefix i" for i by (simp add: numberKey_def)
  from assms have "in_range [log_prefix] (Some (snd (prefixBounds log_prefix))) k"
    using order_trans [OF lower]
    by (auto simp: log_cut_def prefixBounds_def split: if_splits list.splits)
  then show ?thesis using in_range_prefixBounds [OF log_prefix_not_top, of k] by (simp add: prefixBounds_def)
qed

lemma plan_log_view:
  assumes "meta_ops sets" "meta_ops hard" "prefix [log_prefix] k"
  shows "run_ops (dels @ sets @ entries @ hard) m k = run_ops entries (run_ops dels m) k"
proof -
  have "run_ops (dels @ sets @ entries @ hard) m k = run_ops entries (run_ops sets (run_ops dels m)) k"
    using meta_ops_log [OF assms(2,3)] by simp
  also have "\<dots> = run_ops entries (run_ops dels m) k"
    by (rule run_ops_pointwise) (rule meta_ops_log [OF assms(1,3)])
  finally show ?thesis .
qed

lemma plan_meta_view:
  assumes "\<not> prefix [log_prefix] k" "encode_entries E kept = Inr entries"
  shows "run_ops (log_cut final changed kept @ sets @ entries @ hard) m k = run_ops hard (run_ops sets m) k"
proof -
  have "run_ops entries (run_ops sets (run_ops (log_cut final changed kept) m)) k =
      run_ops sets (run_ops (log_cut final changed kept) m) k"
    using assms encode_entries_Inr [OF assms(2)]
    by (intro run_ops_untouched) (auto simp: disk_pair_def numberKey_def)
  also have "\<dots> = run_ops sets m k"
    by (rule run_ops_pointwise, rule run_ops_untouched) (use assms(1) log_cut_touches in blast)
  finally have eq: "run_ops entries (run_ops sets (run_ops (log_cut final changed kept) m)) k = run_ops sets m k" .
  have "run_ops hard (run_ops entries (run_ops sets (run_ops (log_cut final changed kept) m))) k =
      run_ops hard (run_ops sets m) k"
    by (rule run_ops_pointwise) (rule eq)
  then show ?thesis by simp
qed

definition ready_ok :: "Ready \<Rightarrow> bool" where
  "ready_ok ready \<longleftrightarrow>
     (\<exists>q. runs q (rd_Entries ready) \<and> unat q + length (rd_Entries ready) < 2 ^ 64) \<and>
     unat (sn_Index (rd_Snapshot ready)) + 1 < 2 ^ 64"

text \<open>The entries of the log after a plan: what is left of the old ones, and the kept ones.\<close>

lemma plan_log:
  assumes log: "log_on_disk E m (sn_Index (so_snapshot s) + 1) old" and terms: "so_entryTerms s = map le_Term old"
    and small: "unat (sn_Index (so_snapshot s)) + 1 < 2 ^ 64" and ok: "ready_ok ready"
    and check: "check_snapshot E s ready = Inr (changed, snap, conf, len)"
    and keep: "keep_entries (sn_Index snap + 1) len (rd_Entries ready) = Inr (n, kept)"
    and enc: "encode_entries E kept = Inr ops"
  shows "unat (sn_Index snap) + 1 < 2 ^ 64 \<and>
    (\<exists>entries. log_on_disk E (run_ops ops (run_ops
        (log_cut (sn_Index (so_snapshot s) + of_nat (length (so_entryTerms s))) changed kept) m)) (sn_Index snap + 1) entries \<and>
      length entries = n \<and>
      fold (put_term (sn_Index snap)) kept (if changed then [] else so_entryTerms s) = map le_Term entries)"
proof -
  let ?base = "sn_Index snap + 1"
  let ?cut = "log_cut (sn_Index (so_snapshot s) + of_nat (length (so_entryTerms s))) changed kept"
  from ok obtain q where q: "runs q (rd_Entries ready)" "unat q + length (rd_Entries ready) < 2 ^ 64"
    and rs: "unat (sn_Index (rd_Snapshot ready)) + 1 < 2 ^ 64" by (auto simp: ready_ok_def)
  define old' where "old' = (if changed then [] else old)"
  have len: "len = length old'" and snap: "changed \<or> snap = so_snapshot s" "\<not> changed \<or> snap = rd_Snapshot ready"
    using check terms by (auto simp: check_snapshot_def old'_def result_simps split: if_splits)
  have bound: "unat (sn_Index snap) + 1 < 2 ^ 64" using snap small rs by (cases changed) auto
  have old: "log_on_disk E (run_ops (if changed then ?cut else []) m) ?base old'"
  proof (cases changed)
    case True
    have "run_ops ?cut m k = None" if "prefix [log_prefix] k" for k
      using in_range_prefixBounds [OF log_prefix_not_top, of k] that True by (simp add: log_cut_def prefixBounds_def)
    moreover have "unat ?base < 2 ^ 64" using unsigned_less [of ?base, where ?'a = nat] by simp
    ultimately show ?thesis using True by (simp add: log_on_disk_def old'_def)
  next
    case False
    with log snap show ?thesis by (simp add: old'_def)
  qed
  from old have oldn: "unat ?base + length old' < 2 ^ 64" by (simp add: log_on_disk_def)
  have e: "ops = map (\<lambda>e. OpSet (fst (disk_pair E e)) (snd (disk_pair E e))) kept"
    "\<forall>e \<in> set kept. pr_Marshal (io_entry E) e \<noteq> None"
    using encode_entries_Inr [OF enc] by simp_all
  have "len < 2 ^ 64" using oldn len by simp
  from keep_suffix [OF keep q this] show ?thesis
  proof
    assume k: "kept = [] \<and> n = len"
    then have "?cut = (if changed then ?cut else [])" by (auto simp: log_cut_def prefixBounds_def)
    then have "log_on_disk E (run_ops ops (run_ops ?cut m)) ?base old'" using old e k by simp
    moreover have "fold (put_term (sn_Index snap)) kept (if changed then [] else so_entryTerms s) = map le_Term old'"
      using k terms by (simp add: old'_def)
    ultimately show ?thesis using bound k len by blast
  next
    assume "\<exists>p. runs p kept \<and> ?base \<le> p \<and> unat p + length kept < 2 ^ 64 \<and> kept \<noteq> [] \<and>
      unat (p - ?base) \<le> len \<and> n = unat (p - ?base) + length kept"
    then obtain p where p: "runs p kept" "?base \<le> p" "unat p + length kept < 2 ^ 64" "kept \<noteq> []"
      "unat (p - ?base) \<le> len" "n = unat (p - ?base) + length kept" by blast
    let ?o = "unat (p - ?base)"
    have oo: "?o = unat p - unat ?base" "unat ?base \<le> unat p"
      using p(2) unat_sub [OF p(2)] by (simp_all only: word_le_nat_alt)
    have cutlog: "log_on_disk E (run_ops ?cut m) ?base (take ?o old')"
    proof (cases changed)
      case True
      with old show ?thesis by (simp add: old'_def)
    next
      case False
      then have l: "log_on_disk E m ?base old'" using old by simp
      have "?cut = log_cut (sn_Index snap + of_nat (length old')) False kept" using False snap terms by (simp add: old'_def)
      with log_on_disk_cut [OF l bound p(1,4,2)] p(5) len show ?thesis by simp
    qed
    have at: "p = ?base + of_nat (length (take ?o old'))" using p(5) len by simp
    have small': "unat ?base + length (take ?o old') + length kept < 2 ^ 64" using p(3,5) oo len by simp
    have "log_on_disk E (run_ops ops (run_ops ?cut m)) ?base (take ?o old' @ kept)"
      unfolding e(1) using log_on_disk_append [OF cutlog _ small' e(2)] p(1) at by simp
    moreover have "fold (put_term (sn_Index snap)) kept (if changed then [] else so_entryTerms s) =
        map le_Term (take ?o old' @ kept)"
      using fold_put_term [OF p(1,4,3,2), of "if changed then [] else so_entryTerms s"] p(5) len terms
      by (simp add: old'_def take_map split: if_splits)
    moreover have "length (take ?o old' @ kept) = n" using p(5,6) len by simp
    ultimately show ?thesis using bound by blast
  qed
qed


lemma plan_ready_Inr:
  assumes "plan_ready E s ready = Inr plan"
  obtains len n sets entries hard where
    "check_snapshot E s ready = Inr (rp_changed plan, rp_snapshot plan, rp_conf plan, len)"
    "keep_entries (sn_Index (rp_snapshot plan) + 1) len (rd_Entries ready) = Inr (n, rp_kept plan)"
    "next_hard E s ready = Inr (rp_hard plan)"
    "sn_Index (rp_snapshot plan) \<le> hs_Commit (rp_hard plan)"
    "hs_Commit (rp_hard plan) \<le> sn_Index (rp_snapshot plan) + of_nat n"
    "encode_entries E (rp_kept plan) = Inr entries"
    "rp_ops plan = log_cut (sn_Index (so_snapshot s) + of_nat (length (so_entryTerms s))) (rp_changed plan) (rp_kept plan)
       @ sets @ entries @ hard"
    "if rp_changed plan then \<exists>data conf. sets = [OpSet snapshotKey data, OpSet confStateKey conf] \<and>
         pr_Marshal (io_snapshot E) (rp_snapshot plan) = Some data \<and> pr_Marshal (io_conf E) (rp_conf plan) = Some conf
     else sets = []"
    "hard = [] \<and> rp_hard plan = so_hard s \<or>
       (\<exists>data. hard = [OpSet hardStateKey data] \<and> pr_Marshal (io_hard E) (rp_hard plan) = Some data)"
  using assms
  by (auto simp: plan_ready_def result_simps Let_def encodeProto_def next_hard_def split: if_splits option.splits)

lemma plan_durable:
  assumes D: "raft_durable E view s" and ok: "ready_ok ready" and plan: "plan_ready E s ready = Inr plan"
    and db: "view db = run_ops (rp_ops plan) (view (so_db s))"
  shows "raft_durable E view (install_plan plan (s\<lparr>so_db := db\<rparr>))"
proof -
  from D obtain old hd cd sd where log: "log_on_disk E (view (so_db s)) (sn_Index (so_snapshot s) + 1) old"
    and terms: "so_entryTerms s = map le_Term old" and small: "unat (sn_Index (so_snapshot s)) + 1 < 2 ^ 64"
    and m: "pr_Marshal (io_hard E) (so_hard s) = Some hd" "pr_Marshal (io_conf E) (so_conf s) = Some cd"
      "pr_Marshal (io_snapshot E) (so_snapshot s) = Some sd"
    and v: "view (so_db s) hardStateKey = Some hd" "view (so_db s) confStateKey = Some cd" "view (so_db s) snapshotKey = Some sd"
    by (auto simp: raft_durable_def)
  from plan obtain len n sets entries hard where
    check: "check_snapshot E s ready = Inr (rp_changed plan, rp_snapshot plan, rp_conf plan, len)"
    and keep: "keep_entries (sn_Index (rp_snapshot plan) + 1) len (rd_Entries ready) = Inr (n, rp_kept plan)"
    and commit: "sn_Index (rp_snapshot plan) \<le> hs_Commit (rp_hard plan)"
      "hs_Commit (rp_hard plan) \<le> sn_Index (rp_snapshot plan) + of_nat n"
    and enc: "encode_entries E (rp_kept plan) = Inr entries"
    and ops: "rp_ops plan = log_cut (sn_Index (so_snapshot s) + of_nat (length (so_entryTerms s)))
        (rp_changed plan) (rp_kept plan) @ sets @ entries @ hard"
    and sets: "if rp_changed plan then \<exists>data conf. sets = [OpSet snapshotKey data, OpSet confStateKey conf] \<and>
         pr_Marshal (io_snapshot E) (rp_snapshot plan) = Some data \<and> pr_Marshal (io_conf E) (rp_conf plan) = Some conf
       else sets = []"
    and hard: "hard = [] \<and> rp_hard plan = so_hard s \<or>
       (\<exists>data. hard = [OpSet hardStateKey data] \<and> pr_Marshal (io_hard E) (rp_hard plan) = Some data)"
    by (rule plan_ready_Inr)
  let ?s = "install_plan plan (s\<lparr>so_db := db\<rparr>)"
  have f: "so_db ?s = db" "so_hard ?s = rp_hard plan" "so_conf ?s = rp_conf plan" "so_snapshot ?s = rp_snapshot plan"
    "so_entryTerms ?s = fold (put_term (sn_Index (rp_snapshot plan))) (rp_kept plan)
       (if rp_changed plan then [] else so_entryTerms s)"
    by (simp_all add: install_plan_def Let_def)
  have meta: "meta_ops sets" "meta_ops hard"
    using sets hard meta_keys_outside by (auto simp: meta_ops_def split: if_splits)
  from plan_log [OF log terms small ok check keep enc] obtain new where
    bound: "unat (sn_Index (rp_snapshot plan)) + 1 < 2 ^ 64" and
    new: "log_on_disk E (run_ops entries (run_ops (log_cut (sn_Index (so_snapshot s) + of_nat (length (so_entryTerms s)))
        (rp_changed plan) (rp_kept plan)) (view (so_db s)))) (sn_Index (rp_snapshot plan) + 1) new"
      "length new = n" "so_entryTerms ?s = map le_Term new"
    unfolding f by blast
  have "log_on_disk E (view db) (sn_Index (rp_snapshot plan) + 1) new"
    unfolding db ops by (rule iffD2 [OF log_on_disk_cong new(1)]) (rule plan_log_view [OF meta])
  moreover have unchanged: "rp_conf plan = so_conf s \<and> rp_snapshot plan = so_snapshot s" if "\<not> rp_changed plan"
    using check that by (auto simp: check_snapshot_def result_simps split: if_splits)
  have at: "view db k = run_ops hard (run_ops sets (view (so_db s))) k" if "\<not> prefix [log_prefix] k" for k
    unfolding db ops using plan_meta_view [OF that enc] .
  have keys: "hardStateKey \<noteq> snapshotKey" "hardStateKey \<noteq> confStateKey" "snapshotKey \<noteq> confStateKey"
    by (simp_all add: meta_keys)
  have "\<exists>data. pr_Marshal (io_hard E) (rp_hard plan) = Some data \<and> view db hardStateKey = Some data"
    using hard sets m(1) v(1) keys by (auto simp: at meta_keys_outside split: if_splits)
  moreover have "\<exists>data. pr_Marshal (io_conf E) (rp_conf plan) = Some data \<and> view db confStateKey = Some data"
    using hard sets m(2) v(2) keys unchanged by (auto simp: at meta_keys_outside split: if_splits)
  moreover have "\<exists>data. pr_Marshal (io_snapshot E) (rp_snapshot plan) = Some data \<and> view db snapshotKey = Some data"
    using hard sets m(3) v(3) keys unchanged by (auto simp: at meta_keys_outside split: if_splits)
  moreover have "LastIndex ?s = sn_Index (rp_snapshot plan) + of_nat n"
    using new(2,3) by (simp add: LastIndex_def f)
  ultimately show ?thesis using bound commit new(3) unfolding raft_durable_def f(1-4) by auto
qed

lemma SaveReady_cases:
  assumes "SaveReady E s ready = (s', r)"
  shows "s' = s \<or> (\<exists>plan db sync. plan_ready E s ready = Inr plan \<and>
    pb_Commit (io_pebble E) (so_db s) sync (rp_ops plan) = Inr db \<and>
    (s' = s\<lparr>so_db := db\<rparr> \<and> r \<noteq> Inr () \<or> s' = install_plan plan (s\<lparr>so_db := db\<rparr>) \<and> r = Inr ()))"
proof (cases "ready_empty E ready")
  case True
  with assms show ?thesis by (simp add: SaveReady_def)
next
  case False
  show ?thesis
  proof (cases "plan_ready E s ready")
    case (Inl e)
    with False assms show ?thesis by (simp add: SaveReady_def)
  next
    case (Inr plan)
    define sync where "sync = raftWriteOptions ready (rp_changed plan) (length (rp_kept plan)) (so_hard s) (rp_hard plan)"
    note eq = assms [unfolded SaveReady_def, simplified False Inr Let_def sync_def [symmetric] if_False sum.case]
    show ?thesis
    proof (cases "pb_Commit (io_pebble E) (so_db s) sync (rp_ops plan)")
      case (Inl e)
      with eq show ?thesis by (auto split: sum.splits if_splits)
    next
      case (Inr db)
      with eq have "s' = s \<or> s' = s\<lparr>so_db := db\<rparr> \<and> r \<noteq> Inr () \<or> s' = install_plan plan (s\<lparr>so_db := db\<rparr>) \<and> r = Inr ()"
        by (simp only: sum.case) (auto simp del: Store.update_convs split: sum.splits if_splits)
      with Inr \<open>plan_ready E s ready = Inr plan\<close> show ?thesis by blast
    qed
  qed
qed

text \<open>
  Whatever \<^verbatim>\<open>SaveReady\<close> returns, the database holds one complete raft state: the one before, or the one
  the plan leads to, and when it reports success, the one in memory.
\<close>

lemma SaveReady_outcome:
  assumes P: "pebble_ok (io_pebble E) view" and D: "raft_durable E view s" and ok: "ready_ok ready"
    and save: "SaveReady E s ready = (s', r)"
  shows "\<exists>t. raft_durable E view t \<and> so_db t = so_db s' \<and> (r = Inr () \<longrightarrow> t = s') \<and>
    (t = s \<or> (\<exists>plan. plan_ready E s ready = Inr plan \<and> t = install_plan plan (s\<lparr>so_db := so_db s'\<rparr>)))"
proof (cases "s' = s")
  case True
  with D show ?thesis by (intro exI [of _ s]) auto
next
  case False
  with SaveReady_cases [OF save] obtain plan db sync where plan: "plan_ready E s ready = Inr plan"
    and commit: "pb_Commit (io_pebble E) (so_db s) sync (rp_ops plan) = Inr db" and db: "so_db s' = db"
    and r: "r = Inr () \<longrightarrow> s' = install_plan plan (s\<lparr>so_db := db\<rparr>)"
    by (auto simp: install_plan_def Let_def)
  have "view db = run_ops (rp_ops plan) (view (so_db s))" by (rule pebble_commit [OF P commit])
  from plan_durable [OF D ok plan this] r plan show ?thesis
    by (intro exI [of _ "install_plan plan (s\<lparr>so_db := db\<rparr>)"]) (simp add: db, simp add: install_plan_def Let_def)
qed

end
