(* ===== verification/Chronos_Retention.thy ===== *)
theory Chronos_Retention
  imports Chronos_Raft_Log
begin

text \<open>
  What the store keeps of workflows and requests, and how it reads them back
  (\<^verbatim>\<open>internal/storage/retention.go\<close>, \<^verbatim>\<open>receipt.go\<close>, \<^verbatim>\<open>membership.go\<close>): states under prefix 6, receipts under
  prefix 4, event segments under prefix 8, and the index of active workflows and their requests under
  prefixes 9 and 10. The loaders that the engine calls are functions of the store.
\<close>

definition activeIndexValue :: bytes where "activeIndexValue = [CHR 0x00, CHR 0x00, CHR 0x00, CHR 0x01]"
definition activeWorkflowValue :: bytes where "activeWorkflowValue = [CHR 0x01]"

section \<open>Reading\<close>

definition activeWorkflow :: "WorkflowStatus \<Rightarrow> bool" where
  "activeWorkflow status =
     (case status of
        WorkflowCompleted \<Rightarrow> False
      | WorkflowFailed \<Rightarrow> False
      | WorkflowCancelled \<Rightarrow> False
      | WorkflowCompensated \<Rightarrow> False
      | _ \<Rightarrow> True)"

definition activeWorkflowID :: "bytes \<Rightarrow> string option" where
  "activeWorkflowID key =
     (case segmentedValues key (CHR 0x09) 1 of Some [workflowID] \<Rightarrow> Some workflowID | _ \<Rightarrow> None)"

definition activeRequestIDs :: "bytes \<Rightarrow> (string \<times> string) option" where
  "activeRequestIDs key =
     (case segmentedValues key (CHR 0x0A) 2 of Some [workflowID, requestID] \<Rightarrow> Some (workflowID, requestID) | _ \<Rightarrow> None)"

definition loadWorkflow :: "'db storage_env \<Rightarrow> 'db Store \<Rightarrow> string \<Rightarrow> store_err + WorkflowState option" where
  "loadWorkflow E s workflowID =
     bindE (get E s (segmentedKey (CHR 0x06) [workflowID])) (\<lambda>found.
       case found of
         None \<Rightarrow> Inr None
       | Some data \<Rightarrow>
           bindE (decodeJSON (io_snappy E) (io_state E) data) (\<lambda>state.
             if wf_ID state = '''' \<or> wf_ID state \<noteq> workflowID then Inl ErrRecordVersion else Inr (Some state)))"

text \<open>
  \<^verbatim>\<open>expandReceiptCached\<close>: the segments already read are kept in \<open>cache\<close>, a Go map from keys; \<open>None\<close> is
  the nil map, which is never written.
\<close>

type_synonym segment_cache = "(bytes, eventSegment) gomap option"

definition find_segment ::
    "'db storage_env \<Rightarrow> 'db Store \<Rightarrow> bytes \<Rightarrow> segment_cache \<Rightarrow> store_err + eventSegment \<times> segment_cache" where
  "find_segment E s key cache =
     (case map_of (elems cache) key of
        Some segment \<Rightarrow> Inr (segment, cache)
      | None \<Rightarrow>
          bindE (get E s key) (\<lambda>found.
            case found of
              None \<Rightarrow> Inl ErrRecordVersion
            | Some data \<Rightarrow>
                bindE (decodeEventSegment (io_digest E) (io_snappy E) (io_eventSegment E) key data) (\<lambda>segment.
                  Inr (segment, map_option (put key segment) cache))))"

definition expandReceiptCached ::
    "'db storage_env \<Rightarrow> 'db Store \<Rightarrow> receiptRecord \<Rightarrow> segment_cache \<Rightarrow> store_err + Receipt \<times> segment_cache" where
  "expandReceiptCached E s r cache =
     (if so_applied s < rc_AppliedIndex r then Inl ErrRecordVersion
      else
        let key = materializedSegmentKey (CHR 0x08) (rc_WorkflowID r) (rc_AppliedIndex r) in
        bindE (find_segment E s key cache) (\<lambda>(segment, cache).
        bindE (expand_segment (io_digest E) r segment) (\<lambda>receipt. Inr (receipt, cache))))"

definition expandReceipt :: "'db storage_env \<Rightarrow> 'db Store \<Rightarrow> receiptRecord \<Rightarrow> store_err + Receipt" where
  "expandReceipt E s r = bindE (expandReceiptCached E s r None) (\<lambda>(receipt, cache). Inr receipt)"

definition loadReceipt :: "'db storage_env \<Rightarrow> 'db Store \<Rightarrow> string \<Rightarrow> store_err + Receipt option" where
  "loadReceipt E s requestID =
     bindE (get E s (segmentedKey (CHR 0x04) [requestID])) (\<lambda>found.
       case found of
         None \<Rightarrow> Inr None
       | Some data \<Rightarrow>
           bindE (decodeReceiptRecord (io_snappy E) (io_receipt E) data) (\<lambda>r.
             if rc_RequestID r \<noteq> requestID then Inl ErrRecordVersion
             else bindE (expandReceipt E s r) (\<lambda>receipt. Inr (Some receipt))))"

definition core_receipt :: "Receipt \<Rightarrow> RequestReceipt" where
  "core_receipt receipt =
     \<lparr>rr_RequestID = rt_RequestID receipt, rr_RequestHash = rt_RequestHash receipt, rr_Result = rt_Result receipt\<rparr>"

definition loadRequest :: "'db storage_env \<Rightarrow> 'db Store \<Rightarrow> string \<Rightarrow> store_err + RequestReceipt option" where
  "loadRequest E s requestID =
     bindE (loadReceipt E s requestID) (\<lambda>found. Inr (map_option core_receipt found))"

section \<open>Loaders of the engine\<close>

definition loadEngineWorkflow :: "'db storage_env \<Rightarrow> 'db Store \<Rightarrow> string \<Rightarrow> store_err + WorkflowState option" where
  "loadEngineWorkflow E s workflowID =
     (case so_membership s of
        Some m \<Rightarrow>
          if \<not> filter_contains (io_workflowHash E) (dm_workflows m) workflowID then Inr None
          else loadWorkflow E s workflowID
      | None \<Rightarrow> loadWorkflow E s workflowID)"

definition loadEngineRequest :: "'db storage_env \<Rightarrow> 'db Store \<Rightarrow> string \<Rightarrow> store_err + RequestReceipt option" where
  "loadEngineRequest E s requestID =
     (case so_membership s of
        Some m \<Rightarrow>
          if \<not> filter_contains (io_receiptHash E) (dm_receipts m) requestID then Inr None
          else loadRequest E s requestID
      | None \<Rightarrow> loadRequest E s requestID)"

text \<open>
  The core package sees a loader's error as one it does not know. A receipt that does not exist comes
  with its zero value.
\<close>

definition zero_RequestReceipt :: RequestReceipt where
  "zero_RequestReceipt = \<lparr>rr_RequestID = '''', rr_RequestHash = '''', rr_Result = zero_Result\<rparr>"

definition as_state_loader :: "(string \<Rightarrow> store_err + WorkflowState option) \<Rightarrow> StateLoader" where
  "as_state_loader f i = (case f i of Inl e \<Rightarrow> Inl (ErrLoader ''storage'') | Inr r \<Rightarrow> Inr (r, r \<noteq> None))"

definition as_request_loader :: "(string \<Rightarrow> store_err + RequestReceipt option) \<Rightarrow> RequestLoader" where
  "as_request_loader f i =
     (case f i of
        Inl e \<Rightarrow> Inl (ErrLoader ''storage'')
      | Inr None \<Rightarrow> Inr (zero_RequestReceipt, False)
      | Inr (Some r) \<Rightarrow> Inr (r, True))"

text \<open>
  The engine keeps a pointer to the store's loaders, so that they always read the current database:
  \<open>attached E s e\<close> is the engine \<open>e\<close> as the store \<open>s\<close> uses it.
\<close>

definition attached :: "'db storage_env \<Rightarrow> 'db Store \<Rightarrow> Engine \<Rightarrow> Engine" where
  "attached E s e =
     SetLoaders (Some (as_state_loader (loadEngineWorkflow E s))) (Some (as_request_loader (loadEngineRequest E s))) e"

definition attachEngine :: "'db storage_env \<Rightarrow> 'db Store \<Rightarrow> 'db Store" where
  "attachEngine E s = s\<lparr>so_engine := attached E s (so_engine s)\<rparr>"

section \<open>Membership\<close>

fun stream_ids :: "hasher \<Rightarrow> char \<Rightarrow> string list \<Rightarrow> (bytes \<times> bytes) list \<Rightarrow> membershipFilter \<Rightarrow> store_err + membershipFilter" where
  "stream_ids hash pre ids [] f = Inr (addAll hash ids f)"
| "stream_ids hash pre ids ((key, val) # kvs) f =
     (case segmentedValues key pre 1 of
        Some (v # vs) \<Rightarrow>
          let ids = ids @ [v] in
          if length ids = membershipChunkSize then stream_ids hash pre [] kvs (addAll hash ids f)
          else stream_ids hash pre ids kvs f
      | _ \<Rightarrow> Inl ErrRecordVersion)"

definition streamMembershipIDs ::
    "'db storage_env \<Rightarrow> 'db Store \<Rightarrow> char \<Rightarrow> hasher \<Rightarrow> membershipFilter \<Rightarrow> store_err + membershipFilter" where
  "streamMembershipIDs E s pre hash f = bindE (scan_bounds E s pre) (\<lambda>kvs. stream_ids hash pre [] kvs f)"

definition rebuildDurableMembership :: "'db storage_env \<Rightarrow> 'db Store \<Rightarrow> store_err + 'db Store" where
  "rebuildDurableMembership E s =
     (let m = newDurableMembership (io_receiptHash E) (io_workflowHash E) [] [] in
      bindE (streamMembershipIDs E s (CHR 0x04) (io_receiptHash E) (dm_receipts m)) (\<lambda>receipts.
      bindE (streamMembershipIDs E s (CHR 0x06) (io_workflowHash E) (dm_workflows m)) (\<lambda>workflows.
        Inr (s\<lparr>so_membership := Some \<lparr>dm_receipts = receipts, dm_workflows = workflows\<rparr>\<rparr>))))"

section \<open>The active index\<close>

definition index_state ::
    "'db storage_env \<Rightarrow> (string, uint64) gomap \<times> write_op list \<Rightarrow> bytes \<times> bytes \<Rightarrow>
     store_err + (string, uint64) gomap \<times> write_op list" where
  "index_state E acc kv =
     (case (acc, kv) of ((active, ops), (key, val)) \<Rightarrow>
        bindE (decodeJSON (io_snappy E) (io_state E) val) (\<lambda>state.
          if wf_ID state = '''' \<or> key \<noteq> segmentedKey (CHR 0x06) [wf_ID state] then Inl ErrRecordVersion
          else if activeWorkflow (wf_Status state)
          then Inr (put (wf_ID state) 0 active, ops @ [OpSet (segmentedKey (CHR 0x09) [wf_ID state]) activeWorkflowValue])
          else Inr (active, ops)))"

definition index_receipt ::
    "'db storage_env \<Rightarrow> (string, uint64) gomap \<times> write_op list \<Rightarrow> bytes \<times> bytes \<Rightarrow>
     store_err + (string, uint64) gomap \<times> write_op list" where
  "index_receipt E acc kv =
     (case (acc, kv) of ((active, ops), (key, val)) \<Rightarrow>
        bindE (decodeReceiptRecord (io_snappy E) (io_receipt E) val) (\<lambda>r.
          if key \<noteq> segmentedKey (CHR 0x04) [rc_RequestID r] then Inl ErrRecordVersion
          else if has (rc_WorkflowID r) active
          then Inr (put (rc_WorkflowID r) (or_zero 0 active (rc_WorkflowID r) + 1) active,
                    ops @ [OpSet (segmentedKey (CHR 0x0A) [rc_WorkflowID r, rc_RequestID r]) activeWorkflowValue])
          else Inr (active, ops)))"

definition delete_prefix :: "char \<Rightarrow> write_op" where
  "delete_prefix pre = (case prefixBounds pre of (lower, upper) \<Rightarrow> OpDeleteRange lower (Some upper))"

definition plan_active_index :: "'db storage_env \<Rightarrow> 'db Store \<Rightarrow> store_err + write_op list" where
  "plan_active_index E s =
     bindE (scan_bounds E s (CHR 0x06)) (\<lambda>states.
     bindE (foldE (index_state E) ([], [delete_prefix (CHR 0x09), delete_prefix (CHR 0x0A)]) states) (\<lambda>acc.
     bindE (scan_bounds E s (CHR 0x04)) (\<lambda>receipts.
     bindE (foldE (index_receipt E) acc receipts) (\<lambda>(active, ops).
       if list_ex (\<lambda>(w, n). n = 0) active then Inl ErrRecordVersion
       else Inr (ops @ [OpSet activeIndexKey activeIndexValue])))))"

definition ensureActiveIndex :: "'db storage_env \<Rightarrow> 'db Store \<Rightarrow> 'db Store \<times> (store_err + unit)" where
  "ensureActiveIndex E s =
     (case get E s activeIndexKey of
        Inl e \<Rightarrow> (s, Inl e)
      | Inr (Some data) \<Rightarrow> (s, if data \<noteq> activeIndexValue then Inl ErrRecordVersion else Inr ())
      | Inr None \<Rightarrow>
          (case bindE (plan_active_index E s) (\<lambda>ops. bindE (hit s ActiveIndexBeforeSync) (\<lambda>_. Inr ops)) of
             Inl e \<Rightarrow> (s, Inl e)
           | Inr ops \<Rightarrow>
               (case pb_Commit (io_pebble E) (so_db s) True ops of
                  Inl e \<Rightarrow> (s, Inl e)
                | Inr db \<Rightarrow> let s = s\<lparr>so_db := db\<rparr> in (s, hit s ActiveIndexAfterSync))))"

definition hydrate_workflow ::
    "'db storage_env \<Rightarrow> 'db Store \<Rightarrow> Engine \<times> (string, uint64) gomap \<Rightarrow> bytes \<times> bytes \<Rightarrow>
     store_err + Engine \<times> (string, uint64) gomap" where
  "hydrate_workflow E s acc kv =
     (case (acc, kv) of ((engine, active), (key, val)) \<Rightarrow>
        case activeWorkflowID key of
          None \<Rightarrow> Inl ErrRecordVersion
        | Some workflowID \<Rightarrow>
            if val \<noteq> activeWorkflowValue then Inl ErrRecordVersion
            else bindE (loadWorkflow E s workflowID) (\<lambda>found.
              case found of
                None \<Rightarrow> Inl ErrRecordVersion
              | Some state \<Rightarrow>
                  if \<not> activeWorkflow (wf_Status state) then Inl ErrRecordVersion
                  else case HydrateState (Some state) engine of
                    Inl e \<Rightarrow> Inl (CoreError e)
                  | Inr engine \<Rightarrow> Inr (engine, put workflowID 0 active)))"

definition hydrate_request ::
    "'db storage_env \<Rightarrow> 'db Store \<Rightarrow> Engine \<times> (string, uint64) gomap \<Rightarrow> bytes \<times> bytes \<Rightarrow>
     store_err + Engine \<times> (string, uint64) gomap" where
  "hydrate_request E s acc kv =
     (case (acc, kv) of ((engine, active), (key, val)) \<Rightarrow>
        case activeRequestIDs key of
          None \<Rightarrow> Inl ErrRecordVersion
        | Some (workflowID, requestID) \<Rightarrow>
            if val \<noteq> activeWorkflowValue then Inl ErrRecordVersion
            else if \<not> has workflowID active then Inl ErrRecordVersion
            else bindE (loadReceipt E s requestID) (\<lambda>found.
              case found of
                None \<Rightarrow> Inl ErrRecordVersion
              | Some receipt \<Rightarrow>
                  if rs_WorkflowID (rt_Result receipt) \<noteq> workflowID then Inl ErrRecordVersion
                  else case HydrateRequest (core_receipt receipt) engine of
                    Inl e \<Rightarrow> Inl (CoreError e)
                  | Inr engine \<Rightarrow> Inr (engine, put workflowID (or_zero 0 active workflowID + 1) active)))"

definition loadActiveEngine :: "'db storage_env \<Rightarrow> 'db Store \<Rightarrow> store_err + Engine" where
  "loadActiveEngine E s =
     bindE (scan_bounds E s (CHR 0x09)) (\<lambda>workflows.
     bindE (foldE (hydrate_workflow E s) (DiscardJournal NewEngine, []) workflows) (\<lambda>acc.
     bindE (scan_bounds E s (CHR 0x0A)) (\<lambda>requests.
     bindE (foldE (hydrate_request E s) acc requests) (\<lambda>(engine, active).
       if list_ex (\<lambda>(w, n). n = 0) active then Inl ErrRecordVersion else Inr engine))))"

section \<open>The whole store as a snapshot\<close>

definition collect_receipt ::
    "'db storage_env \<Rightarrow> 'db Store \<Rightarrow> Receipt list \<times> segment_cache \<Rightarrow> bytes \<times> bytes \<Rightarrow>
     store_err + Receipt list \<times> segment_cache" where
  "collect_receipt E s acc kv =
     (case (acc, kv) of ((receipts, cache), (key, val)) \<Rightarrow>
        bindE (decodeReceiptRecord (io_snappy E) (io_receipt E) val) (\<lambda>r.
          if key \<noteq> segmentedKey (CHR 0x04) [rc_RequestID r] then Inl ErrRecordVersion
          else bindE (expandReceiptCached E s r cache) (\<lambda>(receipt, cache). Inr (receipts @ [receipt], cache))))"

definition loadReceipts :: "'db storage_env \<Rightarrow> 'db Store \<Rightarrow> store_err + Receipt list" where
  "loadReceipts E s =
     bindE (scan_bounds E s (CHR 0x04)) (\<lambda>kvs.
     bindE (foldE (collect_receipt E s) ([], Some []) kvs) (\<lambda>(receipts, cache).
       Inr (sort_key rt_RequestID receipts)))"

definition collect_state ::
    "'db storage_env \<Rightarrow> WorkflowState list \<Rightarrow> bytes \<times> bytes \<Rightarrow> store_err + WorkflowState list" where
  "collect_state E states kv =
     (case kv of (key, val) \<Rightarrow>
        bindE (decodeJSON (io_snappy E) (io_state E) val) (\<lambda>state.
          if wf_ID state = '''' \<or> key \<noteq> segmentedKey (CHR 0x06) [wf_ID state] then Inl ErrRecordVersion
          else Inr (states @ [state])))"

definition loadEngineSnapshotWithReceipts ::
    "'db storage_env \<Rightarrow> 'db Store \<Rightarrow> Receipt list \<Rightarrow> store_err + EngineSnapshot" where
  "loadEngineSnapshotWithReceipts E s receipts =
     bindE (scan_bounds E s (CHR 0x06)) (\<lambda>kvs.
     bindE (foldE (collect_state E) [] kvs) (\<lambda>states.
       Inr \<lparr>es_Version = EngineSnapshotVersion, es_Workflows = sort_key wf_ID states,
            es_Requests = sort_key rr_RequestID (map core_receipt receipts)\<rparr>))"

definition loadEngineSnapshot :: "'db storage_env \<Rightarrow> 'db Store \<Rightarrow> store_err + EngineSnapshot" where
  "loadEngineSnapshot E s = bindE (loadReceipts E s) (loadEngineSnapshotWithReceipts E s)"

definition DurableSnapshot :: "'db storage_env \<Rightarrow> 'db Store \<Rightarrow> store_err + EngineSnapshot" where
  "DurableSnapshot E s = loadEngineSnapshot E s"

end
