(* ===== verification/Chronos_Application.thy ===== *)
theory Chronos_Application
  imports Chronos_Retention Chronos_Projection
begin

text \<open>
  Applying committed entries to the store (\<^verbatim>\<open>internal/storage/application.go\<close>,
  \<^verbatim>\<open>application_encoding.go\<close>): the entries are checked against the raft log, applied to the engine under
  a checkpoint, and everything that changed is written in one batch; an error rolls the engine back.
\<close>

section \<open>Encoding in parallel (\<^verbatim>\<open>application_encoding.go\<close>)\<close>

record acceptedApplication =
  aa_entry :: ApplicationEntry
  aa_batch :: CommandBatch
  aa_result :: Result

text \<open>An encoded record: a key and its value, or the error of encoding it.\<close>

type_synonym encodedSet = "store_err + bytes \<times> bytes"

text \<open>
  \<^verbatim>\<open>parallelEncode\<close> fills one slot for each index; worker \<open>w\<close> takes the indices \<open>w\<close>, \<open>w + workers\<close>, and so
  on. The slots are filled worker by worker here; \<open>fill_slots\<close> gives the same for every order that visits
  each index.
\<close>

definition worker_indices :: "nat \<Rightarrow> nat \<Rightarrow> nat \<Rightarrow> nat list" where
  "worker_indices n workers w = filter (\<lambda>i. i mod workers = w) [0..<n]"

definition fill_slots :: "(nat \<Rightarrow> encodedSet) \<Rightarrow> nat list \<Rightarrow> encodedSet list \<Rightarrow> encodedSet list" where
  "fill_slots encode order slots = fold (\<lambda>i slots. slots[i := encode i]) order slots"

definition parallelEncode :: "nat \<Rightarrow> nat \<Rightarrow> nat \<Rightarrow> (nat \<Rightarrow> encodedSet) \<Rightarrow> encodedSet list" where
  "parallelEncode procs n workers encode =
     (let workers = min n (min procs workers); slots = replicate n (Inr ([], [])) in
      if workers < 2 then fill_slots encode [0..<n] slots
      else fill_slots encode (concat (map (worker_indices n workers) [0..<workers])) slots)"

lemma length_fill_slots [simp]: "length (fill_slots encode order slots) = length slots"
  unfolding fill_slots_def by (induction order arbitrary: slots) simp_all

lemma nth_fill_slots:
  "i < length slots \<Longrightarrow> fill_slots encode order slots ! i = (if i \<in> set order then encode i else slots ! i)"
  unfolding fill_slots_def by (induction order arbitrary: slots) (auto simp: nth_list_update)

lemma parallelEncode_map: "parallelEncode procs n workers encode = map encode [0..<n]"
proof (rule nth_equalityI)
  show "length (parallelEncode procs n workers encode) = length (map encode [0..<n])"
    by (simp add: parallelEncode_def Let_def)
next
  fix i
  assume "i < length (parallelEncode procs n workers encode)"
  then have i: "i < n" by (simp add: parallelEncode_def Let_def split: if_splits)
  let ?w = "min n (min procs workers)"
  have "i \<in> set (concat (map (worker_indices n w) [0..<w]))" if "\<not> w < 2" for w
    using i that by (auto simp: worker_indices_def)
  with i show "parallelEncode procs n workers encode ! i = map encode [0..<n] ! i"
    by (auto simp: parallelEncode_def Let_def nth_fill_slots)
qed

lemma parallelEncode_list [simp]:
  "parallelEncode procs (length xs) workers (\<lambda>i. f (xs ! i)) = map f xs"
  unfolding parallelEncode_map by (rule nth_equalityI) simp_all

definition encodeSet :: "'db storage_env \<Rightarrow> 'a json \<Rightarrow> bytes \<Rightarrow> 'a \<Rightarrow> encodedSet" where
  "encodeSet E J key val = bindE (encodeJSON (io_snappy E) J val) (\<lambda>data. Inr (key, data))"

definition encodeApplicationEntries ::
    "'db storage_env \<Rightarrow> nat \<Rightarrow> ApplicationEntry list \<Rightarrow> nat \<Rightarrow> encodedSet list" where
  "encodeApplicationEntries E procs entries workers =
     parallelEncode procs (length entries) workers (\<lambda>i. let entry = entries ! i in
       encodeSet E (io_application E) (numberKey (CHR 0x03) (ae_Index entry))
         \<lparr>ar_Version = ae_Version entry, ar_Index = ae_Index entry, ar_Term = ae_Term entry\<rparr>)"

definition accepted_receipt :: "acceptedApplication \<Rightarrow> Receipt" where
  "accepted_receipt item =
     \<lparr>rt_Version = ReceiptVersion, rt_RequestID = cb_RequestID (aa_batch item),
      rt_RequestHash = cb_RequestHash (aa_batch item), rt_AppliedIndex = ae_Index (aa_entry item),
      rt_CommittedTerm = ae_Term (aa_entry item), rt_Result = (aa_result item)\<lparr>rs_Duplicate := False\<rparr>\<rparr>"

definition encode_receipt :: "(string, WorkflowState) gomap \<Rightarrow> acceptedApplication \<Rightarrow> encodedSet" where
  "encode_receipt states item =
     (if \<not> has (cb_WorkflowID (aa_batch item)) states then Inl StoreFault
      else bindE (compactReceipt (accepted_receipt item)) (\<lambda>r.
        bindE (encodeReceiptRecord r) (\<lambda>data.
          Inr (segmentedKey (CHR 0x04) [cb_RequestID (aa_batch item)], data))))"

definition encodeAcceptedReceipts ::
    "nat \<Rightarrow> acceptedApplication list \<Rightarrow> (string, WorkflowState) gomap \<Rightarrow> nat \<Rightarrow> encodedSet list" where
  "encodeAcceptedReceipts procs items states workers =
     parallelEncode procs (length items) workers (\<lambda>i. encode_receipt states (items ! i))"

definition taskResult :: "Event \<Rightarrow> uint64 \<Rightarrow> TaskState \<Rightarrow> TaskResult option" where
  "taskResult event index task =
     (let taskType = (if \<not> ev_Compensation event then td_Type (ts_Definition task)
            else case td_Compensation (ts_Definition task) of
              None \<Rightarrow> td_Type (ts_Definition task) | Some c \<Rightarrow> cd_TaskType c);
          result = \<lparr>tr_Version = TaskResultVersion, tr_WorkflowID = ev_WorkflowID event, tr_TaskID = ev_TaskID event,
            tr_EventKind = ev_Kind event, tr_TaskType = taskType,
            tr_Phase = (if ev_Compensation event then ''compensation'' else ''normal''),
            tr_AttemptID = ev_AttemptID event, tr_Attempt = ev_Attempt event, tr_Status = TaskOther '''',
            tr_Output = [], tr_Error = '''', tr_Sequence = ev_Sequence event, tr_AppliedIndex = index,
            tr_At = ev_At event, tr_WorkerID = ev_WorkerID event, tr_Fence = ev_Fence event,
            tr_Idempotency = ev_Idempotency event\<rparr>
      in case ev_Kind event of
           EventTaskCompleted \<Rightarrow> Some (result\<lparr>tr_Status := TaskCompleted, tr_Output := ev_Output event\<rparr>)
         | EventTaskFailed \<Rightarrow> Some (result\<lparr>tr_Status := TaskFailed, tr_Error := ev_Error event\<rparr>)
         | EventTaskTimedOut \<Rightarrow> Some (result\<lparr>tr_Status := TaskFailed, tr_Error := ev_Error event\<rparr>)
         | EventTaskCompensated \<Rightarrow> Some (result\<lparr>tr_Status := TaskCompensated, tr_Output := ev_Output event\<rparr>)
         | _ \<Rightarrow> None)"

definition event_result :: "WorkflowState \<Rightarrow> uint64 \<Rightarrow> TaskResult list \<Rightarrow> Event \<Rightarrow> store_err + TaskResult list" where
  "event_result state index results event =
     (case taskResult event index (task_or_zero state (ev_TaskID event)) of
        None \<Rightarrow> Inr results
      | Some metadata \<Rightarrow>
          if task_at state (ev_TaskID event) = None then Inl StoreFault else Inr (results @ [metadata]))"

definition gather_item ::
    "(string, WorkflowState) gomap \<Rightarrow> eventSegmentSource list \<times> TaskResult list \<Rightarrow> acceptedApplication \<Rightarrow>
     store_err + eventSegmentSource list \<times> TaskResult list" where
  "gather_item states acc item =
     (case acc of (sources, results) \<Rightarrow>
        case map_of states (cb_WorkflowID (aa_batch item)) of
          None \<Rightarrow> Inl StoreFault
        | Some state \<Rightarrow>
            let source = \<lparr>sr_workflowID = cb_WorkflowID (aa_batch item), sr_appliedIndex = ae_Index (aa_entry item),
                          sr_events = rs_Events (aa_result item)\<rparr>
            in bindE (foldE (event_result state (ae_Index (aa_entry item))) results (rs_Events (aa_result item))) (\<lambda>results.
                 Inr (sources @ [source], results)))"

definition buildAcceptedSegments ::
    "digest \<Rightarrow> acceptedApplication list \<Rightarrow> (string, WorkflowState) gomap \<Rightarrow>
     store_err + eventSegment list \<times> taskResultSegment list" where
  "buildAcceptedSegments H items states =
     bindE (foldE (gather_item states) ([], []) items) (\<lambda>(sources, results).
     bindE (buildEventSegments H sources False) (\<lambda>events.
     bindE (buildTaskResultSegments results) (\<lambda>tasks. Inr (events, tasks))))"

definition encodeEventSegments :: "'db storage_env \<Rightarrow> nat \<Rightarrow> eventSegment list \<Rightarrow> nat \<Rightarrow> encodedSet list" where
  "encodeEventSegments E procs segments workers =
     parallelEncode procs (length segments) workers (\<lambda>i. let segment = segments ! i in
       encodeSet E (io_eventSegment E)
         (materializedSegmentKey (CHR 0x08) (sg_WorkflowID segment) (sg_AppliedIndex segment)) segment)"

definition encodeTaskResultSegments :: "'db storage_env \<Rightarrow> nat \<Rightarrow> taskResultSegment list \<Rightarrow> nat \<Rightarrow> encodedSet list" where
  "encodeTaskResultSegments E procs segments workers =
     parallelEncode procs (length segments) workers (\<lambda>i. let segment = segments ! i in
       encodeSet E (io_taskResultSegment E)
         (materializedSegmentKey (CHR 0x05) (tg_WorkflowID segment) (tg_AppliedIndex segment)) segment)"

definition encode_state :: "'db storage_env \<Rightarrow> (string, WorkflowState) gomap \<Rightarrow> string \<Rightarrow> encodedSet" where
  "encode_state E states workflowID =
     (case map_of states workflowID of
        None \<Rightarrow> Inl StoreFault
      | Some state \<Rightarrow> encodeSet E (io_state E) (segmentedKey (CHR 0x06) [workflowID]) state)"

definition encodeWorkflowStates ::
    "'db storage_env \<Rightarrow> nat \<Rightarrow> string list \<Rightarrow> (string, WorkflowState) gomap \<Rightarrow> nat \<Rightarrow> encodedSet list" where
  "encodeWorkflowStates E procs workflowIDs states workers =
     parallelEncode procs (length workflowIDs) workers (\<lambda>i. encode_state E states (workflowIDs ! i))"

definition encodeApplicationOutcomes :: "'db storage_env \<Rightarrow> nat \<Rightarrow> Outcome list \<Rightarrow> nat \<Rightarrow> encodedSet list" where
  "encodeApplicationOutcomes E procs outcomes workers =
     (let vals = filter (\<lambda>outcome. \<not> rs_Duplicate (oc_Result outcome) \<and> oc_Code outcome \<noteq> '''') outcomes in
      parallelEncode procs (length vals) workers (\<lambda>i. let outcome = vals ! i in
        encodeSet E (io_outcome E) (segmentedKey (CHR 0x07) [oc_RequestID outcome, oc_RequestHash outcome]) outcome))"

definition encodeAppliedState :: "'db storage_env \<Rightarrow> ApplicationEntry \<Rightarrow> encodedSet" where
  "encodeAppliedState E entry =
     encodeSet E (io_appliedState E) appliedKey \<lparr>as_Index = ae_Index entry, as_Term = ae_Term entry\<rparr>"

definition stageEncodedSets :: "write_op list \<Rightarrow> encodedSet list \<Rightarrow> store_err + write_op list" where
  "stageEncodedSets ops records =
     foldE (\<lambda>ops r. bindE r (\<lambda>(key, val). Inr (ops @ [OpSet key val]))) ops records"

section \<open>Applying entries (\<^verbatim>\<open>application.go\<close>)\<close>

definition applicationEncodingWorkers :: nat where "applicationEncodingWorkers = 8"

record entry_check =
  ec_expected :: uint64
  ec_commands :: "CommandBatch list"
  ec_resident :: "(string, bool) gomap"

definition note_resident :: "Engine \<Rightarrow> CommandBatch \<Rightarrow> (string, bool) gomap \<Rightarrow> (string, bool) gomap" where
  "note_resident e command resident =
     (if has (cb_WorkflowID command) resident then resident
      else put (cb_WorkflowID command) (ResidentWorkflow e (cb_WorkflowID command)) resident)"

definition check_entry :: "'db Store \<Rightarrow> entry_check \<Rightarrow> ApplicationEntry \<Rightarrow> store_err + entry_check" where
  "check_entry s c entry =
     (let snapshotIndex = sn_Index (so_snapshot s) in
      if ae_Version entry \<noteq> ApplicationEntryVersion \<or> ae_Term entry = 0 then Inl ErrRecordVersion
      else if ae_Index entry \<noteq> ec_expected c then Inl ErrAppliedGap
      else if hs_Commit (so_hard s) < ae_Index entry then Inl StoreFault
      else if ae_Index entry \<le> snapshotIndex then Inl StoreFault
      else
        let offset = ae_Index entry - snapshotIndex - 1 in
        if of_nat (length (so_entryTerms s)) \<le> offset then Inl StoreFault
        else if ae_Term entry \<noteq> so_entryTerms s ! unat offset then Inl StoreFault
        else Inr \<lparr>ec_expected = ec_expected c + 1, ec_commands = ec_commands c @ ae_Batches entry,
                  ec_resident = fold (note_resident (so_engine s)) (ae_Batches entry) (ec_resident c)\<rparr>)"

definition request_conflict_message :: string where
  "request_conflict_message = ''request id already used with different command''"

definition base_outcome :: "ApplicationEntry \<Rightarrow> CommandBatch \<Rightarrow> Result \<Rightarrow> Outcome" where
  "base_outcome entry command result =
     \<lparr>oc_Version = OutcomeVersion, oc_RequestID = cb_RequestID command, oc_RequestHash = cb_RequestHash command,
      oc_AppliedIndex = ae_Index entry, oc_CommittedTerm = ae_Term entry, oc_Result = result,
      oc_Code = '''', oc_Message = ''''\<rparr>"

definition find_accepted :: "CommandBatch \<Rightarrow> acceptedApplication list \<Rightarrow> acceptedApplication option" where
  "find_accepted command accepted =
     find (\<lambda>item. cb_RequestID (aa_batch item) = cb_RequestID command \<and>
       cb_RequestHash (aa_batch item) = cb_RequestHash command) (rev accepted)"

definition duplicate_origin ::
    "'db storage_env \<Rightarrow> 'db Store \<Rightarrow> CommandBatch \<Rightarrow> acceptedApplication list \<Rightarrow> store_err + AppliedState" where
  "duplicate_origin E s command accepted =
     (let origin = (case find_accepted command accepted of
            None \<Rightarrow> \<lparr>as_Index = 0, as_Term = 0\<rparr>
          | Some item \<Rightarrow> \<lparr>as_Index = ae_Index (aa_entry item), as_Term = ae_Term (aa_entry item)\<rparr>)
      in if as_Index origin \<noteq> 0 then Inr origin
         else bindE (loadReceipt E s (cb_RequestID command)) (\<lambda>found.
           case found of
             None \<Rightarrow> Inl ErrRecordVersion
           | Some receipt \<Rightarrow>
               if rt_RequestHash receipt \<noteq> cb_RequestHash command then Inl ErrRecordVersion
               else Inr \<lparr>as_Index = rt_AppliedIndex receipt, as_Term = rt_CommittedTerm receipt\<rparr>))"

definition settle ::
    "'db storage_env \<Rightarrow> 'db Store \<Rightarrow> Outcome list \<times> acceptedApplication list \<Rightarrow>
     (ApplicationEntry \<times> CommandBatch) \<times> BatchApplication \<Rightarrow> store_err + Outcome list \<times> acceptedApplication list" where
  "settle E s acc item =
     (case (acc, item) of ((outcomes, accepted), ((entry, command), application)) \<Rightarrow>
        let outcome = base_outcome entry command (ba_Result application) in
        if ba_Conflict application
        then Inr (outcomes @ [outcome\<lparr>oc_Code := ''request_conflict'', oc_Message := request_conflict_message\<rparr>], accepted)
        else if rs_Duplicate (ba_Result application)
        then bindE (duplicate_origin E s command accepted) (\<lambda>origin.
          Inr (outcomes @ [outcome\<lparr>oc_AppliedIndex := as_Index origin, oc_CommittedTerm := as_Term origin\<rparr>], accepted))
        else Inr (outcomes @ [outcome],
          accepted @ [\<lparr>aa_entry = entry, aa_batch = command, aa_result = ba_Result application\<rparr>]))"

definition entry_commands :: "ApplicationEntry list \<Rightarrow> (ApplicationEntry \<times> CommandBatch) list" where
  "entry_commands entries = concat (map (\<lambda>entry. map (Pair entry) (ae_Batches entry)) entries)"

text \<open>
  The states of the accepted workflows: those that \<^verbatim>\<open>ApplyCommittedBatches\<close> returned, or copies of the
  engine's.
\<close>

definition load_state :: "Engine \<Rightarrow> acceptedApplication \<Rightarrow> (string, WorkflowState) gomap \<Rightarrow> (string, WorkflowState) gomap" where
  "load_state e item states =
     (let i = cb_WorkflowID (aa_batch item) in
      if has i states then states
      else case State e i of (Some state, True) \<Rightarrow> put i state states | _ \<Rightarrow> states)"

definition note_request ::
    "(string, WorkflowState) gomap \<Rightarrow> acceptedApplication \<Rightarrow> (string, string list) gomap \<Rightarrow> (string, string list) gomap" where
  "note_request states item requests =
     (let i = cb_WorkflowID (aa_batch item) in
      case map_of states i of
        None \<Rightarrow> requests
      | Some state \<Rightarrow>
          if activeWorkflow (wf_Status state)
          then put i (or_zero [] requests i @ [cb_RequestID (aa_batch item)]) requests else requests)"

definition stage_state ::
    "'db storage_env \<Rightarrow> (string, WorkflowState) gomap \<Rightarrow> (string, string list) gomap \<Rightarrow> (string, bool) gomap \<Rightarrow>
     write_op list \<Rightarrow> encodedSet \<times> string \<Rightarrow> store_err + write_op list" where
  "stage_state E states requests resident ops item =
     (case item of (r, workflowID) \<Rightarrow>
        bindE (stageEncodedSets ops [r]) (\<lambda>ops.
          case map_of states workflowID of
            None \<Rightarrow> Inl StoreFault
          | Some state \<Rightarrow>
              if activeWorkflow (wf_Status state)
              then Inr (ops @ OpSet (segmentedKey (CHR 0x09) [workflowID]) activeWorkflowValue #
                     map (\<lambda>requestID. OpSet (segmentedKey (CHR 0x0A) [workflowID, requestID]) activeWorkflowValue)
                       (or_zero [] requests workflowID))
              else if or_zero False resident workflowID
              then Inr (ops @ [OpDelete (segmentedKey (CHR 0x09) [workflowID]),
                     OpDeleteRange (segmentedKey (CHR 0x0A) [workflowID]) (prefixUpper (segmentedKey (CHR 0x0A) [workflowID]))])
              else Inr ops))"

definition plan_application ::
    "'db storage_env \<Rightarrow> nat \<Rightarrow> nat \<Rightarrow> ApplicationEntry list \<Rightarrow> Outcome list \<Rightarrow> acceptedApplication list \<Rightarrow>
     (string, WorkflowState) gomap \<Rightarrow> (string, bool) gomap \<Rightarrow> store_err + write_op list" where
  "plan_application E procs workers entries outcomes accepted states resident =
     (let requests = fold (note_request states) accepted []; workflowIDs = sort (keys states) in
      bindE (stageEncodedSets [] (encodeApplicationEntries E procs entries workers)) (\<lambda>ops.
      bindE (stageEncodedSets ops (encodeAcceptedReceipts procs accepted states workers)) (\<lambda>ops.
      bindE (buildAcceptedSegments (io_digest E) accepted states) (\<lambda>(eventSegments, taskSegments).
      bindE (stageEncodedSets ops (encodeEventSegments E procs eventSegments workers)) (\<lambda>ops.
      bindE (stageEncodedSets ops (encodeTaskResultSegments E procs taskSegments workers)) (\<lambda>ops.
      bindE (foldE (stage_state E states requests resident) ops
        (zip (encodeWorkflowStates E procs workflowIDs states workers) workflowIDs)) (\<lambda>ops.
      bindE (stageEncodedSets ops (encodeApplicationOutcomes E procs outcomes workers)) (\<lambda>ops.
        stageEncodedSets ops [encodeAppliedState E (last entries)]))))))))"

definition addAccepted :: "'db storage_env \<Rightarrow> acceptedApplication list \<Rightarrow> durableMembership \<Rightarrow> durableMembership" where
  "addAccepted E accepted m =
     fold (\<lambda>item m.
       let m = m\<lparr>dm_receipts := addValue (io_receiptHash E) (cb_RequestID (aa_batch item)) (dm_receipts m)\<rparr> in
       case cb_Events (aa_batch item) of
         [] \<Rightarrow> m
       | event # _ \<Rightarrow>
           if ev_Kind event = EventWorkflowSubmitted
           then m\<lparr>dm_workflows := addValue (io_workflowHash E) (cb_WorkflowID (aa_batch item)) (dm_workflows m)\<rparr>
           else m) accepted m"

definition core_result :: "err + 'a \<Rightarrow> store_err + 'a" where
  "core_result r = (case r of Inl e \<Rightarrow> Inl (CoreError e) | Inr x \<Rightarrow> Inr x)"

definition apply_to_engine ::
    "'db storage_env \<Rightarrow> 'db Store \<Rightarrow> bool \<Rightarrow> CommandBatch list \<Rightarrow>
     store_err + Engine \<times> BatchApplication list \<times> (string, WorkflowState) gomap" where
  "apply_to_engine E s owned commands =
     (if owned then core_result (ApplyCommittedBatches (io_digest E) (attached E s (so_engine s)) commands)
      else bindE (core_result (ApplyBatches (io_digest E) (attached E s (so_engine s)) commands)) (\<lambda>(e, applications).
        Inr (e, applications, [])))"

text \<open>Everything between the engine and the commit: what is written, and what memory becomes if it is.\<close>

record application_plan =
  pa_ops :: "write_op list"
  pa_outcomes :: "Outcome list"
  pa_accepted :: "acceptedApplication list"
  pa_states :: "(string, WorkflowState) gomap"

definition plan_entries ::
    "'db storage_env \<Rightarrow> nat \<Rightarrow> 'db Store \<Rightarrow> ApplicationEntry list \<Rightarrow> nat \<Rightarrow> bool \<Rightarrow> (string, bool) gomap \<Rightarrow>
     Engine \<Rightarrow> BatchApplication list \<Rightarrow> (string, WorkflowState) gomap \<Rightarrow> store_err + application_plan" where
  "plan_entries E procs s entries workers owned resident e applications states =
     bindE (foldE (settle E s) ([], []) (zip (entry_commands entries) applications)) (\<lambda>(outcomes, accepted).
       let states = (if owned then states else fold (load_state e) accepted []) in
       bindE (plan_application E procs workers entries outcomes accepted states resident) (\<lambda>ops.
         Inr \<lparr>pa_ops = ops, pa_outcomes = outcomes, pa_accepted = accepted, pa_states = states\<rparr>))"

definition evict_all :: "(string, WorkflowState) gomap \<Rightarrow> Engine \<Rightarrow> Engine" where
  "evict_all states e = fold (\<lambda>workflowID e. fst (EvictTerminal workflowID e)) (keys states) e"

definition joined_membership :: "'db storage_env \<Rightarrow> 'db Store \<Rightarrow> acceptedApplication list \<Rightarrow> durableMembership" where
  "joined_membership E s accepted =
     addAccepted E accepted (case so_membership s of
       None \<Rightarrow> newDurableMembership (io_receiptHash E) (io_workflowHash E) [] []
     | Some m \<Rightarrow> m)"

text \<open>The commit and what follows it; \<open>undone\<close> is the store with its engine rolled back.\<close>

definition commit_entries ::
    "'db storage_env \<Rightarrow> 'db Store \<Rightarrow> 'db Store \<Rightarrow> Engine \<Rightarrow> ApplicationEntry \<Rightarrow> application_plan \<Rightarrow>
     'db Store \<times> (store_err + Outcome list)" where
  "commit_entries E s undone e final plan =
     (case hit s ApplyBeforeSync of
        Inl err \<Rightarrow> (undone, Inl err)
      | Inr _ \<Rightarrow>
          (case pb_Commit (io_pebble E) (so_db s) True (pa_ops plan) of
             Inl err \<Rightarrow> (undone, Inl err)
           | Inr db \<Rightarrow>
               let membership = Some (joined_membership E s (pa_accepted plan)) in
               (case hit s ApplyAfterSync of
                  Inl err \<Rightarrow> (undone\<lparr>so_db := db, so_membership := membership\<rparr>, Inl err)
                | Inr _ \<Rightarrow>
                    (s\<lparr>so_db := db, so_membership := membership, so_applied := ae_Index final,
                       so_appliedTerm := ae_Term final, so_engine := evict_all (pa_states plan) e\<rparr>,
                     Inr (pa_outcomes plan)))))"

definition applyEntries ::
    "'db storage_env \<Rightarrow> nat \<Rightarrow> 'db Store \<Rightarrow> ApplicationEntry list \<Rightarrow> nat \<Rightarrow> bool \<Rightarrow> 'db Store \<times> (store_err + Outcome list)" where
  "applyEntries E procs s entries workers owned =
     (if length entries = 0 then (s, Inr [])
      else case foldE (check_entry s) \<lparr>ec_expected = so_applied s + 1, ec_commands = [], ec_resident = []\<rparr> entries of
        Inl err \<Rightarrow> (s, Inl err)
      | Inr c \<Rightarrow>
          let checkpoint = Checkpoint (attached E s (so_engine s)) (ec_commands c);
              undo = (\<lambda>e. s\<lparr>so_engine := Rollback checkpoint e\<rparr>)
          in case apply_to_engine E s owned (ec_commands c) of
               Inl err \<Rightarrow> (undo (attached E s (so_engine s)), Inl err)
             | Inr (e, applications, states) \<Rightarrow>
                 (case plan_entries E procs s entries workers owned (ec_resident c) e applications states of
                    Inl err \<Rightarrow> (undo e, Inl err)
                  | Inr plan \<Rightarrow> commit_entries E s (undo e) e (last entries) plan))"

definition Apply_entries :: "'db storage_env \<Rightarrow> nat \<Rightarrow> 'db Store \<Rightarrow> ApplicationEntry list \<Rightarrow> 'db Store \<times> (store_err + Outcome list)" where
  "Apply_entries E procs s entries = applyEntries E procs s entries applicationEncodingWorkers False"

definition ApplyCommitted :: "'db storage_env \<Rightarrow> nat \<Rightarrow> 'db Store \<Rightarrow> ApplicationEntry list \<Rightarrow> 'db Store \<times> (store_err + Outcome list)" where
  "ApplyCommitted E procs s entries = applyEntries E procs s entries applicationEncodingWorkers True"


section \<open>Preparing commands\<close>

definition prepare_one ::
    "'db storage_env \<Rightarrow> encoder \<Rightarrow> Engine \<times> EngineCheckpoint \<times> CommandBatch list \<times> (string, Result) gomap \<Rightarrow>
     Command \<Rightarrow> (Engine \<times> EngineCheckpoint \<times> CommandBatch list \<times> (string, Result) gomap) \<times> store_err option" where
  "prepare_one E J acc command =
     (case acc of (e, checkpoint, batches, immediate) \<Rightarrow>
        case Prepare (io_digest E) J e command of
          Inl err \<Rightarrow> (acc, Some (CoreError err))
        | Inr (batch, result, duplicate) \<Rightarrow>
            if duplicate then ((e, checkpoint, batches, put (cmd_RequestID command) result immediate), None)
            else
              let checkpoint = ExtendCheckpoint e (cb_WorkflowID batch) (cb_RequestID batch) checkpoint in
              (case ApplyBatch (io_digest E) e batch of
                 Inl err \<Rightarrow> ((e, checkpoint, batches, immediate), Some (CoreError err))
               | Inr (e, Inl err) \<Rightarrow> ((e, checkpoint, batches, immediate), Some (CoreError err))
               | Inr (e, Inr _) \<Rightarrow> ((e, checkpoint, batches @ [batch], immediate), None)))"

fun prepare_all ::
    "'db storage_env \<Rightarrow> encoder \<Rightarrow> Engine \<times> EngineCheckpoint \<times> CommandBatch list \<times> (string, Result) gomap \<Rightarrow>
     Command list \<Rightarrow> (Engine \<times> EngineCheckpoint \<times> CommandBatch list \<times> (string, Result) gomap) \<times> store_err option" where
  "prepare_all E J acc [] = (acc, None)"
| "prepare_all E J acc (command # commands) =
     (case prepare_one E J acc command of
        (acc, Some err) \<Rightarrow> (acc, Some err)
      | (acc, None) \<Rightarrow> prepare_all E J acc commands)"

definition Store_Prepare ::
    "'db storage_env \<Rightarrow> encoder \<Rightarrow> 'db Store \<Rightarrow> Command list \<Rightarrow>
     'db Store \<times> (store_err + CommandBatch list \<times> (string, Result) gomap)" where
  "Store_Prepare E J s commands =
     (let e = attached E s (so_engine s) in
      case prepare_all E J (e, Checkpoint e [], [], []) commands of
        ((e, checkpoint, batches, immediate), err) \<Rightarrow>
          (s\<lparr>so_engine := Rollback checkpoint e\<rparr>,
           case err of Some x \<Rightarrow> Inl x | None \<Rightarrow> Inr (batches, immediate)))"

section \<open>Queries\<close>

definition Applied :: "'db Store \<Rightarrow> AppliedState" where
  "Applied s = \<lparr>as_Index = so_applied s, as_Term = so_appliedTerm s\<rparr>"

definition Store_State :: "'db storage_env \<Rightarrow> 'db Store \<Rightarrow> string \<Rightarrow> WorkflowState option" where
  "Store_State E s workflowID = (case loadWorkflow E s workflowID of Inl e \<Rightarrow> None | Inr r \<Rightarrow> r)"

definition Store_Projection :: "'db storage_env \<Rightarrow> 'db Store \<Rightarrow> string \<Rightarrow> Projection option" where
  "Store_Projection E s workflowID =
     (case loadWorkflow E s workflowID of Inr (Some state) \<Rightarrow> Some (Project (Some state)) | _ \<Rightarrow> None)"

definition outcomeFromReceipt :: "Receipt \<Rightarrow> Outcome" where
  "outcomeFromReceipt receipt =
     \<lparr>oc_Version = OutcomeVersion, oc_RequestID = rt_RequestID receipt, oc_RequestHash = rt_RequestHash receipt,
      oc_AppliedIndex = rt_AppliedIndex receipt, oc_CommittedTerm = rt_CommittedTerm receipt,
      oc_Result = rt_Result receipt, oc_Code = '''', oc_Message = ''''\<rparr>"

definition Store_Outcome :: "'db storage_env \<Rightarrow> 'db Store \<Rightarrow> string \<Rightarrow> string \<Rightarrow> store_err + Outcome option" where
  "Store_Outcome E s requestID requestHash =
     bindE (get E s (segmentedKey (CHR 0x07) [requestID, requestHash])) (\<lambda>found.
       case found of
         None \<Rightarrow>
           bindE (loadReceipt E s requestID) (\<lambda>found.
             case found of
               None \<Rightarrow> Inr None
             | Some receipt \<Rightarrow>
                 if rt_RequestHash receipt \<noteq> requestHash then Inr None else Inr (Some (outcomeFromReceipt receipt)))
       | Some data \<Rightarrow>
           bindE (decodeJSON (io_snappy E) (io_outcome E) data) (\<lambda>outcome.
             if oc_Version outcome \<noteq> OutcomeVersion \<or> oc_CommittedTerm outcome = 0 \<or> oc_RequestID outcome \<noteq> requestID \<or>
                oc_RequestHash outcome \<noteq> requestHash \<or> oc_Code outcome = ''''
             then Inl ErrRecordVersion else Inr (Some outcome)))"

definition collect_events ::
    "'db storage_env \<Rightarrow> 'db Store \<Rightarrow> Event list \<times> uint64 \<Rightarrow> bytes \<times> bytes \<Rightarrow> store_err + Event list \<times> uint64" where
  "collect_events E s acc kv =
     (case (acc, kv) of ((events, previousLast), (key, val)) \<Rightarrow>
        bindE (decodeEventSegment (io_digest E) (io_snappy E) (io_eventSegment E) key val) (\<lambda>segment.
          if so_applied s < sg_AppliedIndex segment then Inl ErrRecordVersion
          else if length events = 0 \<and> sg_FirstSequence segment \<noteq> 1 then Inl ErrRecordVersion
          else if length events \<noteq> 0 \<and> (previousLast = MaxUint64 \<or> sg_FirstSequence segment \<noteq> previousLast + 1)
          then Inl ErrRecordVersion
          else Inr (events @ sg_Events segment, sg_LastSequence segment)))"

definition scan_segments :: "'db storage_env \<Rightarrow> 'db Store \<Rightarrow> string \<Rightarrow> store_err + (bytes \<times> bytes) list" where
  "scan_segments E s workflowID =
     (let pre = segmentedKey (CHR 0x08) [workflowID] in pb_Scan (io_pebble E) (so_db s) pre (prefixUpper pre))"

definition Events :: "'db storage_env \<Rightarrow> 'db Store \<Rightarrow> string \<Rightarrow> store_err + Event list" where
  "Events E s workflowID =
     bindE (scan_segments E s workflowID) (\<lambda>kvs.
     bindE (foldE (collect_events E s) ([], 0) kvs) (\<lambda>(events, previousLast). Inr events))"

definition FirstEvent :: "'db storage_env \<Rightarrow> 'db Store \<Rightarrow> string \<Rightarrow> store_err + Event option" where
  "FirstEvent E s workflowID =
     bindE (scan_segments E s workflowID) (\<lambda>kvs.
       case kvs of
         [] \<Rightarrow> Inr None
       | (key, val) # _ \<Rightarrow>
           bindE (decodeEventSegment (io_digest E) (io_snappy E) (io_eventSegment E) key val) (\<lambda>segment.
             if so_applied s < sg_AppliedIndex segment \<or> sg_FirstSequence segment \<noteq> 1 then Inl ErrRecordVersion
             else Inr (Some (hd (sg_Events segment)))))"

fun merge_results :: "taskResultIdentity list \<Rightarrow> TaskResult list \<Rightarrow> TaskResult list \<Rightarrow>
    store_err + TaskResult list \<times> taskResultIdentity list" where
  "merge_results seen results [] = Inr (results, seen)"
| "merge_results seen results (r # rs) =
     (if resultIdentity r \<in> set seen then Inl ErrRecordVersion
      else merge_results (resultIdentity r # seen) (results @ [r]) rs)"

definition collect_results ::
    "'db storage_env \<Rightarrow> 'db Store \<Rightarrow> TaskResult list \<times> taskResultIdentity list \<Rightarrow> bytes \<times> bytes \<Rightarrow>
     store_err + TaskResult list \<times> taskResultIdentity list" where
  "collect_results E s acc kv =
     (case (acc, kv) of ((results, seen), (key, val)) \<Rightarrow>
        bindE (decodeTaskResultSegment (io_snappy E) (io_taskResultSegment E) key val) (\<lambda>segment.
          if so_applied s < tg_AppliedIndex segment then Inl ErrRecordVersion
          else merge_results seen results (tg_Results segment)))"

definition loadTaskResults :: "'db storage_env \<Rightarrow> 'db Store \<Rightarrow> store_err + TaskResult list" where
  "loadTaskResults E s =
     bindE (scan_bounds E s (CHR 0x05)) (\<lambda>kvs.
     bindE (foldE (collect_results E s) ([], []) kvs) (\<lambda>(results, seen). Inr (sortTaskResults results)))"

definition collect_outcome :: "'db storage_env \<Rightarrow> Outcome list \<Rightarrow> bytes \<times> bytes \<Rightarrow> store_err + Outcome list" where
  "collect_outcome E outcomes kv =
     (case kv of (key, val) \<Rightarrow>
        bindE (decodeJSON (io_snappy E) (io_outcome E) val) (\<lambda>outcome.
          if oc_Version outcome \<noteq> OutcomeVersion \<or> oc_CommittedTerm outcome = 0 \<or> oc_RequestID outcome = '''' \<or>
             oc_RequestHash outcome = '''' \<or> oc_Code outcome = '''' \<or>
             key \<noteq> segmentedKey (CHR 0x07) [oc_RequestID outcome, oc_RequestHash outcome]
          then Inl ErrRecordVersion else Inr (outcomes @ [outcome])))"

definition loadOutcomes :: "'db storage_env \<Rightarrow> 'db Store \<Rightarrow> Receipt list \<Rightarrow> store_err + Outcome list" where
  "loadOutcomes E s receipts =
     bindE (scan_bounds E s (CHR 0x07)) (\<lambda>kvs.
     bindE (foldE (collect_outcome E) [] kvs) (\<lambda>outcomes.
       Inr (sort_key (\<lambda>outcome. (oc_RequestID outcome, oc_RequestHash outcome))
         (outcomes @ map outcomeFromReceipt receipts))))"


text \<open>\<^verbatim>\<open>Check\<close> hands the engine to a function that may also change it.\<close>

definition Store_Check ::
    "'db storage_env \<Rightarrow> (Engine \<Rightarrow> Engine \<times> (store_err + unit)) \<Rightarrow> 'db Store \<Rightarrow> 'db Store \<times> (store_err + unit)" where
  "Store_Check E check s = (case check (attached E s (so_engine s)) of (e, r) \<Rightarrow> (s\<lparr>so_engine := e\<rparr>, r))"

definition Store_Receipt :: "'db storage_env \<Rightarrow> 'db Store \<Rightarrow> string \<Rightarrow> store_err + Receipt option" where
  "Store_Receipt E s requestID = loadReceipt E s requestID"

definition TaskResults :: "'db storage_env \<Rightarrow> 'db Store \<Rightarrow> store_err + TaskResult list" where
  "TaskResults E s = loadTaskResults E s"

end
