(* ===== verification/Chronos_Store_Snapshot.thy ===== *)
theory Chronos_Store_Snapshot
  imports Chronos_Application
begin

text \<open>
  Snapshots of the store and opening it (\<^verbatim>\<open>internal/storage/snapshot.go\<close>, \<^verbatim>\<open>store.go\<close>,
  \<^verbatim>\<open>application.go\<close>, \<^verbatim>\<open>recovery_replay.go\<close>).
\<close>

section \<open>Creating a snapshot\<close>

definition snapshot_contents :: "'db storage_env \<Rightarrow> 'db Store \<Rightarrow> uint64 \<Rightarrow> store_err + SnapshotImage" where
  "snapshot_contents E s at_term =
     bindE (loadReceipts E s) (\<lambda>receipts.
     bindE (loadOutcomes E s receipts) (\<lambda>outcomes.
     bindE (loadTaskResults E s) (\<lambda>results.
     bindE (loadEngineSnapshotWithReceipts E s receipts) (\<lambda>engine.
     bindE (core_result (Restore (io_digest E) engine)) (\<lambda>_.
       Inr \<lparr>si_Version = SnapshotVersion, si_ClusterID = so_clusterID s, si_AppliedIndex = so_applied s,
            si_Term = at_term, si_Engine = engine, si_Outcomes = outcomes, si_TaskResults = results\<rparr>)))))"

definition plan_snapshot :: "'db storage_env \<Rightarrow> 'db Store \<Rightarrow> store_err + RaftSnapshot \<times> write_op list" where
  "plan_snapshot E s =
     (if so_applied s \<le> sn_Index (so_snapshot s) then Inl ErrSnapOutOfDate
      else
        bindE (term_at s (so_applied s)) (\<lambda>at_term.
        bindE (snapshot_contents E s at_term) (\<lambda>img.
        bindE (encodeSnapshotImage (io_digest E) (io_image E) img) (\<lambda>data.
          let snapshot = \<lparr>sn_Data = data, sn_Index = so_applied s, sn_Term = at_term, sn_ConfState = so_conf s\<rparr> in
          bindE (encodeProto (io_snapshot E) snapshot) (\<lambda>encoded.
          bindE (encodeProto (io_conf E) (so_conf s)) (\<lambda>conf.
            Inr (snapshot, [OpSet snapshotKey encoded, OpSet confStateKey conf,
              OpDeleteRange (fst (prefixBounds log_prefix)) (Some (numberKey log_prefix (so_applied s + 1))),
              OpDeleteRange (fst (prefixBounds (CHR 0x03))) (Some (numberKey (CHR 0x03) (so_applied s + 1)))])))))))"

definition CreateSnapshot :: "'db storage_env \<Rightarrow> 'db Store \<Rightarrow> 'db Store \<times> (store_err + RaftSnapshot)" where
  "CreateSnapshot E s =
     (case bindE (plan_snapshot E s) (\<lambda>p. bindE (hit s SnapshotBeforeSync) (\<lambda>_. Inr p)) of
        Inl e \<Rightarrow> (s, Inl e)
      | Inr (snapshot, ops) \<Rightarrow>
          (case pb_Commit (io_pebble E) (so_db s) True ops of
             Inl e \<Rightarrow> (s, Inl e)
           | Inr db \<Rightarrow>
               let s = s\<lparr>so_db := db\<rparr> in
               (case hit s SnapshotAfterSync of
                  Inl e \<Rightarrow> (s, Inl e)
                | Inr _ \<Rightarrow>
                    let offset = so_applied s - sn_Index (so_snapshot s) in
                    if of_nat (length (so_entryTerms s)) < offset then (s, Inl StoreFault)
                    else (s\<lparr>so_entryTerms := drop (unat offset) (so_entryTerms s), so_snapshot := snapshot\<rparr>, Inr snapshot))))"

section \<open>Installing a snapshot\<close>

definition origin_key :: "string \<Rightarrow> string \<Rightarrow> string" where
  "origin_key requestID requestHash = requestID @ [CHR 0x00] @ requestHash"

definition install_outcome ::
    "'db storage_env \<Rightarrow> SnapshotImage \<Rightarrow> (string, AppliedState) gomap \<times> write_op list \<Rightarrow> Outcome \<Rightarrow>
     store_err + (string, AppliedState) gomap \<times> write_op list" where
  "install_outcome E img acc outcome =
     (case acc of (origins, ops) \<Rightarrow>
        if oc_Version outcome \<noteq> OutcomeVersion \<or> oc_AppliedIndex outcome = 0 \<or>
           si_AppliedIndex img < oc_AppliedIndex outcome \<or> oc_CommittedTerm outcome = 0 \<or>
           oc_RequestID outcome = '''' \<or> oc_RequestHash outcome = ''''
        then Inl ErrRecordVersion
        else if oc_Code outcome = '''' then
          let key = origin_key (oc_RequestID outcome) (oc_RequestHash outcome) in
          if has key origins then Inl ErrCorruptSnapshot
          else Inr (put key \<lparr>as_Index = oc_AppliedIndex outcome, as_Term = oc_CommittedTerm outcome\<rparr> origins, ops)
        else bindE (encodeJSON (io_snappy E) (io_outcome E) outcome) (\<lambda>data.
          Inr (origins, ops @ [OpSet (segmentedKey (CHR 0x07) [oc_RequestID outcome, oc_RequestHash outcome]) data])))"

definition install_request ::
    "(string, AppliedState) gomap \<Rightarrow> (string, unit) gomap \<Rightarrow> eventSegmentSource list \<times> write_op list \<Rightarrow>
     RequestReceipt \<Rightarrow> store_err + eventSegmentSource list \<times> write_op list" where
  "install_request origins active acc request =
     (case acc of (sources, ops) \<Rightarrow>
        case map_of origins (origin_key (rr_RequestID request) (rr_RequestHash request)) of
          None \<Rightarrow> Inl ErrCorruptSnapshot
        | Some origin \<Rightarrow>
            bindE (compactReceipt \<lparr>rt_Version = ReceiptVersion, rt_RequestID = rr_RequestID request,
              rt_RequestHash = rr_RequestHash request, rt_AppliedIndex = as_Index origin,
              rt_CommittedTerm = as_Term origin, rt_Result = rr_Result request\<rparr>) (\<lambda>r.
            bindE (encodeReceiptRecord r) (\<lambda>data.
              let workflowID = rs_WorkflowID (rr_Result request);
                  ops = ops @ [OpSet (segmentedKey (CHR 0x04) [rr_RequestID request]) data];
                  ops = (if has workflowID active
                    then ops @ [OpSet (segmentedKey (CHR 0x0A) [workflowID, rr_RequestID request]) activeWorkflowValue]
                    else ops)
              in Inr (sources @ [\<lparr>sr_workflowID = workflowID, sr_appliedIndex = as_Index origin,
                        sr_events = rs_Events (rr_Result request)\<rparr>], ops))))"

definition install_workflow :: "'db storage_env \<Rightarrow> write_op list \<Rightarrow> WorkflowState \<Rightarrow> store_err + write_op list" where
  "install_workflow E ops workflow =
     bindE (encodeJSON (io_snappy E) (io_state E) workflow) (\<lambda>data.
       let ops = ops @ [OpSet (segmentedKey (CHR 0x06) [wf_ID workflow]) data] in
       Inr (if activeWorkflow (wf_Status workflow)
            then ops @ [OpSet (segmentedKey (CHR 0x09) [wf_ID workflow]) activeWorkflowValue] else ops))"

definition install_prefixes :: "char list" where
  "install_prefixes = [CHR 0x03, CHR 0x04, CHR 0x05, CHR 0x06, CHR 0x07, CHR 0x08, CHR 0x09, CHR 0x0A]"

definition active_workflows :: "EngineSnapshot \<Rightarrow> (string, unit) gomap" where
  "active_workflows snapshot =
     fold (\<lambda>workflow active. if activeWorkflow (wf_Status workflow) then put (wf_ID workflow) () active else active)
       (es_Workflows snapshot) []"

definition plan_install :: "'db storage_env \<Rightarrow> nat \<Rightarrow> SnapshotImage \<Rightarrow> store_err + write_op list" where
  "plan_install E procs img =
     bindE (foldE (install_outcome E img) ([], map delete_prefix install_prefixes) (si_Outcomes img)) (\<lambda>(origins, ops).
     bindE (foldE (install_request origins (active_workflows (si_Engine img))) ([], ops) (es_Requests (si_Engine img)))
       (\<lambda>(sources, ops).
     bindE (buildEventSegments (io_digest E) sources True) (\<lambda>segments.
     bindE (stageEncodedSets ops (encodeEventSegments E procs segments applicationEncodingWorkers)) (\<lambda>ops.
     bindE (foldE (install_workflow E) ops (es_Workflows (si_Engine img))) (\<lambda>ops.
       if list_ex (\<lambda>result. si_AppliedIndex img < tr_AppliedIndex result) (si_TaskResults img)
       then Inl ErrRecordVersion
       else
         bindE (buildTaskResultSegments (si_TaskResults img)) (\<lambda>taskSegments.
         bindE (stageEncodedSets ops (encodeTaskResultSegments E procs taskSegments applicationEncodingWorkers)) (\<lambda>ops.
         bindE (encodeJSON (io_snappy E) (io_appliedState E)
             \<lparr>as_Index = si_AppliedIndex img, as_Term = si_Term img\<rparr>) (\<lambda>applied.
           Inr (ops @ [OpSet appliedKey applied, OpSet activeIndexKey activeIndexValue])))))))))"

definition installed ::
    "'db storage_env \<Rightarrow> 'db Store \<Rightarrow> 'db \<Rightarrow> SnapshotImage \<Rightarrow> Engine \<Rightarrow> 'db Store" where
  "installed E s db img engine =
     (let s = s\<lparr>so_db := db,
             so_membership := Some (membershipFromSnapshot (io_receiptHash E) (io_workflowHash E) (si_Engine img)),
             so_engine := RetainActive (DiscardJournal engine)\<rparr>
      in attachEngine E (s\<lparr>so_applied := si_AppliedIndex img, so_appliedTerm := si_Term img\<rparr>))"

definition installSnapshot ::
    "'db storage_env \<Rightarrow> nat \<Rightarrow> 'db Store \<Rightarrow> RaftSnapshot \<Rightarrow> bool \<Rightarrow> 'db Store \<times> (store_err + unit)" where
  "installSnapshot E procs s snapshot hooks =
     (if sn_Index snapshot \<le> so_applied s then (s, Inr ())
      else if sn_Index snapshot \<noteq> sn_Index (so_snapshot s) \<or> sn_Term snapshot \<noteq> sn_Term (so_snapshot s)
      then (s, Inl StoreFault)
      else
        case bindE (snapshotImage E s snapshot) (\<lambda>img.
             bindE (core_result (Restore (io_digest E) (si_Engine img))) (\<lambda>engine.
             bindE (plan_install E procs img) (\<lambda>ops.
             bindE (if hooks then hit s SnapshotInstallBeforeSync else Inr ()) (\<lambda>_. Inr (img, engine, ops))))) of
          Inl e \<Rightarrow> (s, Inl e)
        | Inr (img, engine, ops) \<Rightarrow>
            (case pb_Commit (io_pebble E) (so_db s) True ops of
               Inl e \<Rightarrow> (s, Inl e)
             | Inr db \<Rightarrow>
                 (case (if hooks then hit s SnapshotInstallAfterSync else Inr ()) of
                    Inl e \<Rightarrow>
                      (s\<lparr>so_db := db,
                         so_membership := Some (membershipFromSnapshot (io_receiptHash E) (io_workflowHash E) (si_Engine img))\<rparr>,
                       Inl e)
                  | Inr _ \<Rightarrow> (installed E s db img engine, Inr ()))))"

definition InstallSnapshot :: "'db storage_env \<Rightarrow> nat \<Rightarrow> 'db Store \<Rightarrow> RaftSnapshot \<Rightarrow> 'db Store \<times> (store_err + unit)" where
  "InstallSnapshot E procs s snapshot = installSnapshot E procs s snapshot True"

section \<open>Opening\<close>

definition check_application ::
    "'db storage_env \<Rightarrow> 'db Store \<Rightarrow> uint64 \<Rightarrow> bytes \<times> bytes \<Rightarrow> store_err + uint64" where
  "check_application E s expected kv =
     (case kv of (key, val) \<Rightarrow>
        if length key \<noteq> 9 then Inl StoreFault
        else
          let index = Uint64 (drop 1 key) in
          if index \<noteq> expected then Inl ErrAppliedGap
          else bindE (decodeJSON (io_snappy E) (io_application E) val) (\<lambda>entry.
            if ar_Version entry \<noteq> ApplicationEntryVersion \<or> ar_Index entry \<noteq> index \<or> ar_Term entry = 0
            then Inl ErrRecordVersion
            else bindE (term_at s index) (\<lambda>at_term.
              if ar_Term entry \<noteq> at_term then Inl StoreFault else Inr (expected + 1))))"

definition validateApplicationLog :: "'db storage_env \<Rightarrow> 'db Store \<Rightarrow> AppliedState \<Rightarrow> store_err + unit" where
  "validateApplicationLog E s applied =
     bindE (term_at s (as_Index applied)) (\<lambda>appliedTerm.
       if appliedTerm \<noteq> as_Term applied then Inl StoreFault
       else bindE (scan_bounds E s (CHR 0x03)) (\<lambda>kvs.
         bindE (foldE (check_application E s) (sn_Index (so_snapshot s) + 1) kvs) (\<lambda>expected.
           if expected \<noteq> as_Index applied + 1 then Inl ErrAppliedGap else Inr ())))"

definition loadApplication :: "'db storage_env \<Rightarrow> nat \<Rightarrow> 'db Store \<Rightarrow> 'db Store \<times> (store_err + unit)" where
  "loadApplication E procs s =
     (case bindE (get_present E s appliedKey) (decodeJSON (io_snappy E) (io_appliedState E)) of
        Inl e \<Rightarrow> (s, Inl e)
      | Inr applied \<Rightarrow>
          if as_Index applied < sn_Index (so_snapshot s)
          then installSnapshot E procs
            (s\<lparr>so_engine := NewEngine, so_applied := as_Index applied, so_appliedTerm := as_Term applied\<rparr>)
            (so_snapshot s) False
          else
            case validateApplicationLog E s applied of
              Inl e \<Rightarrow> (s, Inl e)
            | Inr _ \<Rightarrow>
                (case ensureActiveIndex E s of
                   (s, Inl e) \<Rightarrow> (s, Inl e)
                 | (s, Inr _) \<Rightarrow>
                     let s = s\<lparr>so_applied := as_Index applied, so_appliedTerm := as_Term applied\<rparr> in
                     (case loadActiveEngine E s of
                        Inl e \<Rightarrow> (s, Inl e)
                      | Inr engine \<Rightarrow> (attachEngine E (s\<lparr>so_engine := engine\<rparr>), Inr ()))))"

fun valid_voters :: "uint64 option \<Rightarrow> uint64 list \<Rightarrow> bool" where
  "valid_voters previous [] = True"
| "valid_voters previous (i # ids) = (i \<noteq> 0 \<and> previous \<noteq> Some i \<and> valid_voters (Some i) ids)"

definition plan_initialize :: "'db storage_env \<Rightarrow> 'db Store \<Rightarrow> uint64 list \<Rightarrow> store_err + write_op list" where
  "plan_initialize E s voters =
     (let ids = sort voters in
      if \<not> valid_voters None ids then Inl StoreFault
      else if so_nodeID s \<notin> set ids then Inl StoreFault
      else
        let conf = \<lparr>cs_Voters = ids, cs_Learners = [], cs_VotersOutgoing = [], cs_LearnersNext = [], cs_AutoLeave = False\<rparr> in
        bindE (encodeSnapshotImage (io_digest E) (io_image E)
            \<lparr>si_Version = SnapshotVersion, si_ClusterID = so_clusterID s, si_AppliedIndex = 1, si_Term = 1,
             si_Engine = \<lparr>es_Version = EngineSnapshotVersion, es_Workflows = [], es_Requests = []\<rparr>,
             si_Outcomes = [], si_TaskResults = []\<rparr>) (\<lambda>payload.
          let snapshot = \<lparr>sn_Data = payload, sn_Index = 1, sn_Term = 1, sn_ConfState = conf\<rparr>;
              hard = \<lparr>hs_Term = 1, hs_Vote = 0, hs_Commit = 1\<rparr>
          in
          bindE (encodeJSON (io_snappy E) (io_appliedState E) \<lparr>as_Index = 1, as_Term = 1\<rparr>) (\<lambda>applied.
          bindE (encodeProto (io_hard E) hard) (\<lambda>hardData.
          bindE (encodeProto (io_conf E) conf) (\<lambda>confData.
          bindE (encodeProto (io_snapshot E) snapshot) (\<lambda>snapshotData.
            Inr [OpSet schemaKey (PutUint32 SchemaVersion), OpSet clusterKey (so_clusterID s),
                 OpSet nodeKey (PutUint64 (so_nodeID s)), OpSet hardStateKey hardData, OpSet confStateKey confData,
                 OpSet snapshotKey snapshotData, OpSet appliedKey applied, OpSet activeIndexKey activeIndexValue]))))))"

definition initialize :: "'db storage_env \<Rightarrow> 'db Store \<Rightarrow> uint64 list \<Rightarrow> store_err + 'db Store" where
  "initialize E s voters =
     bindE (plan_initialize E s voters) (\<lambda>ops.
     bindE (pb_Commit (io_pebble E) (so_db s) True ops) (\<lambda>db. Inr (s\<lparr>so_db := db\<rparr>)))"

definition check_identity :: "'db storage_env \<Rightarrow> 'db Store \<Rightarrow> bytes \<Rightarrow> store_err + unit" where
  "check_identity E s data =
     (if length data \<noteq> 4 \<or> Uint32 data \<noteq> SchemaVersion then Inl ErrStoreVersion
      else bindE (get_present E s clusterKey) (\<lambda>cluster.
        bindE (get_present E s nodeKey) (\<lambda>node.
          if cluster \<noteq> so_clusterID s \<or> length node \<noteq> 8 \<or> Uint64 node \<noteq> so_nodeID s
          then Inl ErrStoreIdentity else Inr ())))"

definition ensure_schema :: "'db storage_env \<Rightarrow> 'db Store \<Rightarrow> uint64 list \<Rightarrow> store_err + 'db Store \<times> bytes" where
  "ensure_schema E s voters =
     bindE (get E s schemaKey) (\<lambda>found.
       case found of
         Some data \<Rightarrow> Inr (s, data)
       | None \<Rightarrow>
           bindE (initialize E s voters) (\<lambda>s.
             bindE (get_present E s schemaKey) (\<lambda>data. Inr (s, data))))"

definition load :: "'db storage_env \<Rightarrow> nat \<Rightarrow> 'db Store \<Rightarrow> uint64 list \<Rightarrow> store_err + 'db Store" where
  "load E procs s voters =
     bindE (ensure_schema E s voters) (\<lambda>(s, data).
     bindE (check_identity E s data) (\<lambda>_.
     bindE (loadRaft E s) (\<lambda>s.
       case loadApplication E procs s of
         (s, Inl e) \<Rightarrow> Inl e
       | (s, Inr _) \<Rightarrow>
           (case (if so_applied s < sn_Index (so_snapshot s) then installSnapshot E procs s (so_snapshot s) False
                  else (s, Inr ())) of
              (s, Inl e) \<Rightarrow> Inl e
            | (s, Inr _) \<Rightarrow>
                if hs_Commit (so_hard s) < so_applied s then Inl StoreFault
                else rebuildDurableMembership E s))))"

record store_config =
  cf_Directory :: string
  cf_ClusterID :: string
  cf_NodeID :: uint64
  cf_Voters :: "uint64 list"
  cf_Failpoint :: "Point \<Rightarrow> store_err option"

definition new_store :: "store_config \<Rightarrow> 'db \<Rightarrow> 'db Store" where
  "new_store config db =
     (let conf = \<lparr>cs_Voters = [], cs_Learners = [], cs_VotersOutgoing = [], cs_LearnersNext = [], cs_AutoLeave = False\<rparr> in
      \<lparr>so_db = db, so_clusterID = cf_ClusterID config, so_nodeID = cf_NodeID config,
       so_failpoint = cf_Failpoint config, so_hard = \<lparr>hs_Term = 0, hs_Vote = 0, hs_Commit = 0\<rparr>, so_conf = conf,
       so_snapshot = \<lparr>sn_Data = [], sn_Index = 0, sn_Term = 0, sn_ConfState = conf\<rparr>, so_entryTerms = [],
       so_engine = NewEngine, so_applied = 0, so_appliedTerm = 0, so_membership = None\<rparr>)"

text \<open>\<open>opened\<close> is what \<^verbatim>\<open>pebble.Open\<close> returns for the directory.\<close>

definition Open ::
    "'db storage_env \<Rightarrow> nat \<Rightarrow> (string \<Rightarrow> store_err + 'db) \<Rightarrow> store_config \<Rightarrow> store_err + 'db Store" where
  "Open E procs opened config =
     (if cf_Directory config = '''' \<or> cf_ClusterID config = '''' \<or> cf_NodeID config = 0 \<or> length (cf_Voters config) \<noteq> 3
      then Inl StoreFault
      else bindE (opened (cf_Directory config)) (\<lambda>db.
        bindE (load E procs (new_store config db) (cf_Voters config)) (\<lambda>s. Inr (attachEngine E s))))"

section \<open>Recovery fixtures (\<^verbatim>\<open>recovery_replay.go\<close>)\<close>

definition fixture_request ::
    "uint64 \<Rightarrow> uint64 \<Rightarrow> (string, WorkflowState) gomap \<Rightarrow> SnapshotImage \<Rightarrow> RequestReceipt \<Rightarrow> store_err + SnapshotImage" where
  "fixture_request index at_term states img request =
     (let result = (rr_Result request)\<lparr>rs_Duplicate := False\<rparr>;
          img = img\<lparr>si_Outcomes := si_Outcomes img @
            [\<lparr>oc_Version = OutcomeVersion, oc_RequestID = rr_RequestID request, oc_RequestHash = rr_RequestHash request,
              oc_AppliedIndex = index, oc_CommittedTerm = at_term, oc_Result = result, oc_Code = '''', oc_Message = ''''\<rparr>]\<rparr>
      in case map_of states (rs_WorkflowID result) of
           None \<Rightarrow> Inl StoreFault
         | Some state \<Rightarrow>
             bindE (foldE (event_result state index) (si_TaskResults img) (rs_Events result)) (\<lambda>results.
               Inr (img\<lparr>si_TaskResults := results\<rparr>)))"

definition recoverySnapshotImage ::
    "string \<Rightarrow> uint64 \<Rightarrow> uint64 \<Rightarrow> EngineSnapshot \<Rightarrow> store_err + SnapshotImage" where
  "recoverySnapshotImage clusterID index at_term snapshot =
     foldE (fixture_request index at_term
         (fold (\<lambda>state states. put (wf_ID state) state states) (es_Workflows snapshot) []))
       \<lparr>si_Version = SnapshotVersion, si_ClusterID = clusterID, si_AppliedIndex = index, si_Term = at_term,
        si_Engine = snapshot, si_Outcomes = [], si_TaskResults = []\<rparr> (es_Requests snapshot)"


record recoveryLogBatch =
  lb_Version :: uint32
  lb_Commands :: "CommandBatch list"

definition recoveryReplayCommandsPerEntry :: nat where "recoveryReplayCommandsPerEntry = 256"
definition recoveryReplayEntriesPerWrite :: nat where "recoveryReplayEntriesPerWrite = 16"
definition recoveryReplayTerm :: uint64 where "recoveryReplayTerm = 2"

fun fixture_entries ::
    "recoveryLogBatch json \<Rightarrow> uint64 \<Rightarrow> nat \<Rightarrow> uint64 \<Rightarrow> CommandBatch list \<Rightarrow>
     store_err + Entry list \<times> uint64 \<times> CommandBatch list" where
  "fixture_entries J snapshotIndex 0 entryCount batches = Inr ([], entryCount, batches)"
| "fixture_entries J snapshotIndex (Suc slots) entryCount batches =
     (if batches = [] then Inr ([], entryCount, [])
      else case js_Marshal J \<lparr>lb_Version = 1, lb_Commands = take recoveryReplayCommandsPerEntry batches\<rparr> of
        None \<Rightarrow> Inl CodecError
      | Some data \<Rightarrow>
          let entryCount = entryCount + 1;
              entry = \<lparr>le_Index = snapshotIndex + entryCount, le_Term = recoveryReplayTerm, le_Type = 0, le_Data = data\<rparr>
          in bindE (fixture_entries J snapshotIndex slots entryCount (drop recoveryReplayCommandsPerEntry batches))
               (\<lambda>(entries, entryCount, rest). Inr (entry # entries, entryCount, rest)))"

lemma fixture_entries_shrinks:
  "fixture_entries J snapshotIndex slots entryCount batches = Inr (entries, n, rest) \<Longrightarrow>
     length rest \<le> length batches \<and> (0 < slots \<longrightarrow> batches \<noteq> [] \<longrightarrow> length rest < length batches)"
proof (induction J snapshotIndex slots entryCount batches arbitrary: entries n rest rule: fixture_entries.induct)
  case (2 J snapshotIndex slots entryCount batches)
  show ?case
  proof (cases "batches = []")
    case False
    with 2 obtain data where data: "js_Marshal J \<lparr>lb_Version = 1, lb_Commands = take recoveryReplayCommandsPerEntry batches\<rparr> = Some data"
      by (auto split: option.splits)
    with 2(2) False obtain es where
      "fixture_entries J snapshotIndex slots (entryCount + 1) (drop recoveryReplayCommandsPerEntry batches) = Inr (es, n, rest)"
      by (auto simp: Let_def result_simps)
    with 2(1) [OF False data refl refl, of es] have "length rest \<le> length batches - recoveryReplayCommandsPerEntry" by simp
    moreover have "0 < length batches" "0 < recoveryReplayCommandsPerEntry"
      using False by (simp_all add: recoveryReplayCommandsPerEntry_def)
    ultimately show ?thesis by linarith
  qed (use 2 in simp)
qed simp

definition no_snapshot :: RaftSnapshot where
  "no_snapshot = \<lparr>sn_Data = [], sn_Index = 0, sn_Term = 0, sn_ConfState =
     \<lparr>cs_Voters = [], cs_Learners = [], cs_VotersOutgoing = [], cs_LearnersNext = [], cs_AutoLeave = False\<rparr>\<rparr>"

function fixture_writes ::
    "'db storage_env \<Rightarrow> recoveryLogBatch json \<Rightarrow> uint64 \<Rightarrow> 'db Store \<Rightarrow> HardState \<Rightarrow> uint64 \<Rightarrow> CommandBatch list \<Rightarrow>
     'db Store \<times> (store_err + HardState \<times> uint64)" where
  "fixture_writes E J snapshotIndex s hard entryCount batches =
     (if batches = [] then (s, Inr (hard, entryCount))
      else case fixture_entries J snapshotIndex recoveryReplayEntriesPerWrite entryCount batches of
        Inl e \<Rightarrow> (s, Inl e)
      | Inr (entries, entryCount, rest) \<Rightarrow>
          let hard = hard\<lparr>hs_Commit := snapshotIndex + entryCount\<rparr> in
          (case SaveReady E s \<lparr>rd_HardState = hard, rd_Entries = entries, rd_Snapshot = no_snapshot, rd_MustSync = False\<rparr> of
             (s, Inl e) \<Rightarrow> (s, Inl e)
           | (s, Inr _) \<Rightarrow> fixture_writes E J snapshotIndex s hard entryCount rest))"
  by pat_completeness auto
termination
  by (relation "measure (\<lambda>(E, J, i, s, hard, n, batches). length batches)")
    (auto dest!: fixture_entries_shrinks simp: recoveryReplayEntriesPerWrite_def)

definition fixture_batch :: "CommandBatch \<Rightarrow> bool" where
  "fixture_batch batch \<longleftrightarrow>
     cb_Version batch = CommandBatchVersion \<and> cb_RequestID batch \<noteq> '''' \<and> cb_RequestHash batch \<noteq> '''' \<and>
     cb_WorkflowID batch \<noteq> '''' \<and> cb_Events batch \<noteq> []"

definition pristine :: "'db Store \<Rightarrow> bool" where
  "pristine s \<longleftrightarrow> so_applied s = 1 \<and> sn_Index (so_snapshot s) = 1 \<and> so_entryTerms s = [] \<and> WorkflowIDs (so_engine s) = []"

definition WriteRecoveryReplayFixture ::
    "'db storage_env \<Rightarrow> nat \<Rightarrow> (string \<Rightarrow> store_err + 'db) \<Rightarrow> recoveryLogBatch json \<Rightarrow> store_config \<Rightarrow> uint64 \<Rightarrow>
     EngineSnapshot \<Rightarrow> CommandBatch list \<Rightarrow> store_err + 'db \<times> uint64" where
  "WriteRecoveryReplayFixture E procs opened J config snapshotIndex snapshotState batches =
     (if snapshotIndex \<le> 1 \<or> batches = [] \<or> \<not> list_all fixture_batch batches then Inl StoreFault
      else
        bindE (Open E procs opened config) (\<lambda>store.
          if \<not> pristine store then Inl StoreFault
          else
            bindE (recoverySnapshotImage (cf_ClusterID config) snapshotIndex recoveryReplayTerm snapshotState) (\<lambda>img.
            bindE (encodeSnapshotImage (io_digest E) (io_image E) img) (\<lambda>payload.
              let snapshot = \<lparr>sn_Data = payload, sn_Index = snapshotIndex, sn_Term = recoveryReplayTerm,
                    sn_ConfState = so_conf store\<rparr>;
                  hard = \<lparr>hs_Term = recoveryReplayTerm, hs_Vote = 0, hs_Commit = snapshotIndex\<rparr>
              in case SaveReady E store \<lparr>rd_HardState = hard, rd_Entries = [], rd_Snapshot = snapshot, rd_MustSync = False\<rparr> of
                   (store, Inl e) \<Rightarrow> Inl e
                 | (store, Inr _) \<Rightarrow>
                     (case InstallSnapshot E procs store snapshot of
                        (store, Inl e) \<Rightarrow> Inl e
                      | (store, Inr _) \<Rightarrow>
                          (case fixture_writes E J snapshotIndex store hard 0 batches of
                             (store, Inl e) \<Rightarrow> Inl e
                           | (store, Inr (hard, entryCount)) \<Rightarrow>
                               if so_applied store \<noteq> snapshotIndex \<or> hs_Commit hard \<noteq> snapshotIndex + entryCount
                               then Inl StoreFault else Inr (so_db store, entryCount)))))))"

end
