(* ===== verification/Chronos_Raft_Steps.thy ===== *)
theory Chronos_Raft_Steps
  imports Chronos_Raft_Recovery Chronos_Store_Snapshot
begin

text \<open>
  The raft state over a history of the store: saving, changing the configuration, applying, taking and
  installing snapshots, and crashing at any point of any of them. The writes of the application never touch
  the raft state; compaction keeps it.
\<close>

section \<open>What the application writes\<close>

definition raft_key :: "bytes \<Rightarrow> bool" where
  "raft_key k \<longleftrightarrow> prefix [log_prefix] k \<or> k \<in> {hardStateKey, confStateKey, snapshotKey, schemaKey}"

definition data_key :: "bytes \<Rightarrow> bool" where
  "data_key k \<longleftrightarrow> k \<in> {appliedKey, activeIndexKey} \<or> (\<exists>b rest. k = b # rest \<and> 2 < byte_val b)"

definition data_op :: "write_op \<Rightarrow> bool" where
  "data_op op \<longleftrightarrow> (\<forall>k. touches op k \<longrightarrow> data_key k)"

lemma data_not_raft: "data_key k \<Longrightarrow> \<not> raft_key k"
  by (auto simp: data_key_def raft_key_def log_prefix_def meta_keys)

lemma data_ops_raft: "list_all data_op ops \<Longrightarrow> raft_key k \<Longrightarrow> run_ops ops m k = m k"
  by (rule run_ops_untouched) (auto simp: data_op_def list_all_iff dest: data_not_raft)

lemma data_key_simps [simp]:
  "data_key (b # rest) \<longleftrightarrow> b # rest \<in> {appliedKey, activeIndexKey} \<or> 2 < byte_val b"
  "data_key appliedKey" "data_key activeIndexKey"
  "data_key (segmentedKey b parts) \<longleftrightarrow> 2 < byte_val b \<or> segmentedKey b parts \<in> {appliedKey, activeIndexKey}"
  "data_key (numberKey b i) \<longleftrightarrow> 2 < byte_val b \<or> numberKey b i \<in> {appliedKey, activeIndexKey}"
  "data_key (materializedSegmentKey b w i) \<longleftrightarrow> 2 < byte_val b \<or> materializedSegmentKey b w i \<in> {appliedKey, activeIndexKey}"
  by (auto simp: data_key_def segmentedKey_def numberKey_def materializedSegmentKey_def)

lemma data_op_simps [simp]:
  "data_op (OpSet k v) \<longleftrightarrow> data_key k" "data_op (OpDelete k) \<longleftrightarrow> data_key k"
  by (simp_all add: data_op_def)

lemma data_prefix: "prefix (b # rest) k \<Longrightarrow> 2 < byte_val b \<Longrightarrow> data_key k"
  by (auto simp: prefix_def)

lemma data_delete_prefix: "2 < byte_val b \<Longrightarrow> byte_val b \<noteq> 255 \<Longrightarrow> data_op (delete_prefix b)"
  using in_range_prefixBounds [of b] data_prefix [of b "[]"]
  by (simp add: data_op_def delete_prefix_def prefixBounds_def)

lemma data_delete_upper:
  assumes "2 < byte_val b"
  shows "data_op (OpDeleteRange (segmentedKey b parts) (prefixUpper (segmentedKey b parts)))"
  unfolding data_op_def touches.simps in_range_prefixUpper
  using assms by (auto simp: segmentedKey_def prefix_def)

lemma stageEncodedSets_Inr:
  "stageEncodedSets ops rs = Inr ops' \<Longrightarrow>
     \<exists>kvs. rs = map Inr kvs \<and> ops' = ops @ map (\<lambda>kv. OpSet (fst kv) (snd kv)) kvs"
proof (induction rs arbitrary: ops)
  case (Cons r rs)
  then obtain k v where r: "r = Inr (k, v)" "stageEncodedSets (ops @ [OpSet k v]) rs = Inr ops'"
    by (auto simp: stageEncodedSets_def result_simps)
  from Cons.IH [OF this(2)] obtain kvs where "rs = map Inr kvs"
    "ops' = (ops @ [OpSet k v]) @ map (\<lambda>kv. OpSet (fst kv) (snd kv)) kvs" by blast
  with r show ?case by (intro exI [of _ "(k, v) # kvs"]) simp
qed (simp add: stageEncodedSets_def)

text \<open>The keys of encoded records.\<close>

definition keys_in :: "(bytes \<Rightarrow> bool) \<Rightarrow> encodedSet list \<Rightarrow> bool" where
  "keys_in P rs \<longleftrightarrow> (\<forall>r \<in> set rs. \<forall>k v. r = Inr (k, v) \<longrightarrow> P k)"

lemma data_stage:
  assumes "stageEncodedSets ops rs = Inr ops'" "list_all data_op ops" "keys_in data_key rs"
  shows "list_all data_op ops'"
proof -
  from stageEncodedSets_Inr [OF assms(1)] obtain kvs where
    "rs = map Inr kvs" "ops' = ops @ map (\<lambda>kv. OpSet (fst kv) (snd kv)) kvs" by blast
  with assms(2,3) show ?thesis by (fastforce simp: keys_in_def list_all_iff)
qed

lemma encodeSet_Inr [simp]: "encodeSet E J key val = Inr (k, v) \<longleftrightarrow> k = key \<and> encodeJSON (io_snappy E) J val = Inr v"
  by (auto simp: encodeSet_def result_simps)

lemma encoded_data_keys:
  "keys_in data_key (encodeApplicationEntries E procs entries workers)"
  "keys_in data_key (encodeAcceptedReceipts procs items states workers)"
  "keys_in data_key (encodeEventSegments E procs segments workers)"
  "keys_in data_key (encodeTaskResultSegments E procs tasks workers)"
  "keys_in data_key (encodeWorkflowStates E procs ids states workers)"
  "keys_in data_key (encodeApplicationOutcomes E procs outcomes workers)"
  "keys_in data_key [encodeAppliedState E entry]"
  by (auto simp: keys_in_def encodeApplicationEntries_def encodeAcceptedReceipts_def encodeEventSegments_def
      encodeTaskResultSegments_def encodeWorkflowStates_def encodeApplicationOutcomes_def encodeAppliedState_def
      parallelEncode_map Let_def encode_receipt_def encode_state_def result_simps
      eq_commute [of "Inr x" "bindE r f" for x r f] split: if_splits option.splits)

lemma stage_state_data:
  assumes "stage_state E states requests resident ops (r, i) = Inr ops'" "list_all data_op ops" "keys_in data_key [r]"
  shows "list_all data_op ops'"
proof -
  from assms(1) obtain staged where staged: "stageEncodedSets ops [r] = Inr staged"
    and rest: "(case map_of states i of
        None \<Rightarrow> Inl StoreFault
      | Some state \<Rightarrow>
          if activeWorkflow (wf_Status state)
          then Inr (staged @ OpSet (segmentedKey (CHR 0x09) [i]) activeWorkflowValue #
                 map (\<lambda>requestID. OpSet (segmentedKey (CHR 0x0A) [i, requestID]) activeWorkflowValue) (or_zero [] requests i))
          else if or_zero False resident i
          then Inr (staged @ [OpDelete (segmentedKey (CHR 0x09) [i]),
                 OpDeleteRange (segmentedKey (CHR 0x0A) [i]) (prefixUpper (segmentedKey (CHR 0x0A) [i]))])
          else Inr staged) = Inr ops'"
    by (auto simp: stage_state_def result_simps)
  have "list_all data_op staged" by (rule data_stage [OF staged assms(2,3)])
  with rest show ?thesis
    by (auto simp: list_all_iff data_delete_upper split: option.splits if_splits)
qed

lemma foldE_keeps:
  assumes "foldE f a xs = Inr b" "P a" "\<And>a x b. x \<in> set xs \<Longrightarrow> P a \<Longrightarrow> f a x = Inr b \<Longrightarrow> P b"
  shows "P b"
  using assms
proof (induction xs arbitrary: a)
  case (Cons x xs)
  then obtain c where c: "f a x = Inr c" "foldE f c xs = Inr b" by (auto simp: result_simps)
  have "P c" by (rule Cons.prems(3) [OF _ Cons.prems(2) c(1)]) simp
  with c(2) Cons.prems(3) show ?case by (intro Cons.IH [of c]) auto
qed simp

lemma plan_application_data:
  assumes "plan_application E procs workers entries outcomes accepted states resident = Inr ops"
  shows "list_all data_op ops"
proof -
  let ?ids = "sort (keys states)"
  from assms obtain a b c d e f eventSegments taskSegments where
    a: "stageEncodedSets [] (encodeApplicationEntries E procs entries workers) = Inr a"
    and b: "stageEncodedSets a (encodeAcceptedReceipts procs accepted states workers) = Inr b"
    and c: "stageEncodedSets b (encodeEventSegments E procs eventSegments workers) = Inr c"
    and d: "stageEncodedSets c (encodeTaskResultSegments E procs taskSegments workers) = Inr d"
    and e: "foldE (stage_state E states (fold (note_request states) accepted []) resident) d
        (zip (encodeWorkflowStates E procs ?ids states workers) ?ids) = Inr e"
    and f: "stageEncodedSets e (encodeApplicationOutcomes E procs outcomes workers) = Inr f"
    and g: "stageEncodedSets f [encodeAppliedState E (last entries)] = Inr ops"
    by (auto simp: plan_application_def Let_def result_simps)
  have "list_all data_op a" by (rule data_stage [OF a]) (simp_all add: encoded_data_keys)
  then have "list_all data_op b" by (rule data_stage [OF b]) (simp add: encoded_data_keys)
  then have "list_all data_op c" by (rule data_stage [OF c]) (simp add: encoded_data_keys)
  then have "list_all data_op d" by (rule data_stage [OF d]) (simp add: encoded_data_keys)
  then have "list_all data_op e"
  proof (rule foldE_keeps [OF e])
    fix ops item ops'
    assume item: "item \<in> set (zip (encodeWorkflowStates E procs ?ids states workers) ?ids)"
      and ops: "list_all data_op ops"
      and step: "stage_state E states (fold (note_request states) accepted []) resident ops item = Inr ops'"
    obtain r i where ri: "item = (r, i)" by (cases item)
    with item have "r \<in> set (encodeWorkflowStates E procs ?ids states workers)" by (auto dest: set_zip_leftD)
    then have "keys_in data_key [r]" using encoded_data_keys(5) [of E procs ?ids states workers] by (simp add: keys_in_def)
    with step ops ri show "list_all data_op ops'" by (auto intro: stage_state_data)
  qed
  then have "list_all data_op f" by (rule data_stage [OF f]) (simp add: encoded_data_keys)
  then show ?thesis by (rule data_stage [OF g]) (simp add: encoded_data_keys)
qed

lemma plan_install_data:
  assumes "plan_install E procs img = Inr ops"
  shows "list_all data_op ops"
proof -
  from assms obtain origins a sources b segments c d taskSegments e applied where
    a: "foldE (install_outcome E img) ([], map delete_prefix install_prefixes) (si_Outcomes img) = Inr (origins, a)"
    and b: "foldE (install_request origins (active_workflows (si_Engine img))) ([], a) (es_Requests (si_Engine img)) = Inr (sources, b)"
    and c: "stageEncodedSets b (encodeEventSegments E procs segments applicationEncodingWorkers) = Inr c"
    and d: "foldE (install_workflow E) c (es_Workflows (si_Engine img)) = Inr d"
    and e: "stageEncodedSets d (encodeTaskResultSegments E procs taskSegments applicationEncodingWorkers) = Inr e"
    and ops: "ops = e @ [OpSet appliedKey applied, OpSet activeIndexKey activeIndexValue]"
    by (auto simp: plan_install_def result_simps split: if_splits)
  have "list_all data_op (map delete_prefix install_prefixes)"
    by (simp add: install_prefixes_def data_delete_prefix)
  then have "list_all data_op (snd (origins, a))"
    by (intro foldE_keeps [OF a, of "\<lambda>p. list_all data_op (snd p)"])
      (auto simp: install_outcome_def Let_def result_simps split: if_splits)
  then have "list_all data_op (snd (sources, b))"
    by (intro foldE_keeps [OF b, of "\<lambda>p. list_all data_op (snd p)"])
      (auto simp: install_request_def Let_def result_simps split: if_splits option.splits)
  then have "list_all data_op c" by (intro data_stage [OF c]) (simp_all add: encoded_data_keys)
  then have "list_all data_op d"
    by (rule foldE_keeps [OF d]) (auto simp: install_workflow_def Let_def result_simps split: if_splits)
  then have "list_all data_op e" by (rule data_stage [OF e]) (simp add: encoded_data_keys)
  with ops show ?thesis by simp
qed

lemma plan_active_index_data:
  assumes "plan_active_index E s = Inr ops"
  shows "list_all data_op ops"
proof -
  from assms obtain states receipts acc active a where
    acc: "foldE (index_state E) ([], [delete_prefix (CHR 0x09), delete_prefix (CHR 0x0A)]) states = Inr acc"
    and a: "foldE (index_receipt E) acc receipts = Inr (active, a)"
    and ops: "ops = a @ [OpSet activeIndexKey activeIndexValue]"
    by (auto simp: plan_active_index_def result_simps split: if_splits)
  have "list_all data_op (snd acc)"
    by (rule foldE_keeps [OF acc, of "\<lambda>p. list_all data_op (snd p)"])
      (auto simp: index_state_def result_simps data_delete_prefix split: if_splits)
  then have "list_all data_op (snd (active, a))"
    by (rule foldE_keeps [OF a, of "\<lambda>p. list_all data_op (snd p)"])
      (auto simp: index_receipt_def result_simps split: if_splits)
  with ops show ?thesis by simp
qed


section \<open>The invariant of the raft state\<close>

text \<open>Besides the raft state itself: the store is initialised, and nothing uncommitted was applied.\<close>

definition raft_inv :: "'db storage_env \<Rightarrow> ('db \<Rightarrow> contents) \<Rightarrow> 'db Store \<Rightarrow> bool" where
  "raft_inv E view s \<longleftrightarrow>
     raft_durable E view s \<and> view (so_db s) schemaKey \<noteq> None \<and> so_applied s \<le> hs_Commit (so_hard s)"

definition raft_part :: "'db Store \<Rightarrow> HardState \<times> ConfState \<times> RaftSnapshot \<times> uint64 list" where
  "raft_part s = (so_hard s, so_conf s, so_snapshot s, so_entryTerms s)"

lemma raft_durable_cong:
  assumes "raft_part t = raft_part s" "\<And>k. raft_key k \<Longrightarrow> view (so_db t) k = view (so_db s) k"
  shows "raft_durable E view t = raft_durable E view s"
proof -
  have "log_on_disk E (view (so_db t)) first entries = log_on_disk E (view (so_db s)) first entries" for first entries
    by (rule log_on_disk_cong) (simp add: assms(2) raft_key_def)
  moreover have "view (so_db t) k = view (so_db s) k" if "k \<in> {hardStateKey, confStateKey, snapshotKey}" for k
    using that by (intro assms(2)) (auto simp: raft_key_def)
  ultimately show ?thesis using assms(1) by (simp add: raft_durable_def raft_part_def LastIndex_def)
qed

lemma data_step:
  assumes P: "pebble_ok (io_pebble E) view" and I: "raft_inv E view s" and ops: "list_all data_op ops"
    and commit: "pb_Commit (io_pebble E) (so_db s) sync ops = Inr (so_db t)"
    and part: "raft_part t = raft_part s" and applied: "so_applied t \<le> hs_Commit (so_hard t)"
  shows "raft_inv E view t"
proof -
  have at: "view (so_db t) k = view (so_db s) k" if "raft_key k" for k
    using pebble_commit [OF P commit] data_ops_raft [OF ops that] by simp
  have "raft_durable E view t = raft_durable E view s"
    by (rule raft_durable_cong) (simp_all add: part at)
  with I applied at [of schemaKey] show ?thesis by (simp add: raft_inv_def raft_key_def)
qed

text \<open>
  The outcome of an operation: the disk holds a raft state that satisfies the invariant, not older than the
  one before, and it is the one in memory when the operation succeeds.
\<close>

definition advances :: "'db Store \<Rightarrow> 'db Store \<Rightarrow> bool" where
  "advances s t \<longleftrightarrow> hs_Term (so_hard s) \<le> hs_Term (so_hard t) \<and> hs_Commit (so_hard s) \<le> hs_Commit (so_hard t)"

definition outcome_ok :: "'db storage_env \<Rightarrow> ('db \<Rightarrow> contents) \<Rightarrow> 'db Store \<Rightarrow> 'db Store \<Rightarrow> bool \<Rightarrow> bool" where
  "outcome_ok E view s s' ok \<longleftrightarrow>
     (\<exists>t. raft_inv E view t \<and> so_db t = so_db s' \<and> advances s t \<and> (ok \<longrightarrow> t = s'))"

lemma advances_refl [simp]: "advances s s" by (simp add: advances_def)

lemma advances_trans [trans]: "advances s t \<Longrightarrow> advances t u \<Longrightarrow> advances s u"
  by (auto simp: advances_def)

lemma advances_part: "raft_part t = raft_part s \<Longrightarrow> advances s t"
  by (simp add: advances_def raft_part_def)

lemma outcome_same: "raft_inv E view s \<Longrightarrow> so_db s' = so_db s \<Longrightarrow> (ok \<Longrightarrow> s' = s) \<Longrightarrow> outcome_ok E view s s' ok"
  unfolding outcome_ok_def by (intro exI [of _ s]) auto

lemma plan_ready_hard:
  assumes "plan_ready E s ready = Inr plan"
  shows "hs_Term (so_hard s) \<le> hs_Term (rp_hard plan) \<and> hs_Commit (so_hard s) \<le> hs_Commit (rp_hard plan)"
proof -
  from assms obtain nextHard where "next_hard E s ready = Inr nextHard" "rp_hard plan = nextHard"
    by (auto simp: plan_ready_def Let_def result_simps split: if_splits)
  then show ?thesis by (auto simp: next_hard_def not_less split: if_splits)
qed

lemma plan_ready_ops:
  assumes "plan_ready E s ready = Inr plan" "op \<in> set (rp_ops plan)" "touches op k"
  shows "prefix [log_prefix] k \<or> k \<in> {snapshotKey, confStateKey, hardStateKey}"
proof -
  from assms(1) obtain sets entries hards where
    entries: "encode_entries E (rp_kept plan) = Inr entries"
    and ops: "rp_ops plan = log_cut (sn_Index (so_snapshot s) + of_nat (length (so_entryTerms s)))
        (rp_changed plan) (rp_kept plan) @ sets @ entries @ hards"
    and sets: "if rp_changed plan then \<exists>data conf. sets = [OpSet snapshotKey data, OpSet confStateKey conf] \<and>
         pr_Marshal (io_snapshot E) (rp_snapshot plan) = Some data \<and> pr_Marshal (io_conf E) (rp_conf plan) = Some conf
       else sets = []"
    and hards: "hards = [] \<and> rp_hard plan = so_hard s \<or>
       (\<exists>data. hards = [OpSet hardStateKey data] \<and> pr_Marshal (io_hard E) (rp_hard plan) = Some data)"
    by (rule plan_ready_Inr)
  from sets have "op \<in> set sets \<Longrightarrow> k \<in> {snapshotKey, confStateKey}"
    using assms(3) by (auto split: if_splits)
  moreover from hards have "op \<in> set hards \<Longrightarrow> k = hardStateKey"
    using assms(3) by auto
  moreover from encode_entries_Inr [OF entries] have "op \<in> set entries \<Longrightarrow> prefix [log_prefix] k"
    using assms(3) by (auto simp: disk_pair_def numberKey_def)
  moreover have "op \<in> set (log_cut final (rp_changed plan) (rp_kept plan)) \<Longrightarrow> prefix [log_prefix] k" for final
    using log_cut_touches assms(3) by blast
  ultimately show ?thesis using assms(2) ops by auto
qed

lemma SaveReady_ok:
  assumes P: "pebble_ok (io_pebble E) view" and I: "raft_inv E view s" and ok: "ready_ok ready"
    and save: "SaveReady E s ready = (s', r)"
  shows "outcome_ok E view s s' (r = Inr ())"
proof (cases "s' = s")
  case True
  with I show ?thesis by (simp add: outcome_same)
next
  case False
  with SaveReady_cases [OF save] obtain plan db sync where plan: "plan_ready E s ready = Inr plan"
    and commit: "pb_Commit (io_pebble E) (so_db s) sync (rp_ops plan) = Inr db" and db: "so_db s' = db"
    and r: "r = Inr () \<longrightarrow> s' = install_plan plan (s\<lparr>so_db := db\<rparr>)"
    by (auto simp: install_plan_def Let_def)
  let ?t = "install_plan plan (s\<lparr>so_db := db\<rparr>)"
  have t: "so_db ?t = db" "so_applied ?t = so_applied s" "so_hard ?t = rp_hard plan"
    by (simp_all add: install_plan_def Let_def)
  have view: "view db = run_ops (rp_ops plan) (view (so_db s))" by (rule pebble_commit [OF P commit])
  have "raft_durable E view ?t"
    by (rule plan_durable [OF _ ok plan view]) (use I in \<open>simp add: raft_inv_def\<close>)
  moreover have "view db schemaKey = view (so_db s) schemaKey"
    unfolding view by (rule run_ops_untouched) (use plan_ready_ops [OF plan] in \<open>fastforce simp: meta_keys log_prefix_def\<close>)
  moreover have "hs_Commit (so_hard s) \<le> hs_Commit (rp_hard plan)" using plan_ready_hard [OF plan] by simp
  ultimately have "raft_inv E view ?t" using I by (auto simp: raft_inv_def t)
  moreover have "advances s ?t" using plan_ready_hard [OF plan] by (simp add: advances_def t)
  ultimately show ?thesis unfolding outcome_ok_def using r t(1) db by (intro exI [of _ ?t]) auto
qed


lemma SaveConfState_ok:
  assumes P: "pebble_ok (io_pebble E) view" and I: "raft_inv E view s" and save: "SaveConfState E s conf = (s', r)"
  shows "outcome_ok E view s s' (r = Inr ())"
proof (cases "s' = s")
  case True
  with I show ?thesis by (simp add: outcome_same)
next
  case False
  with save obtain data db where data: "encodeProto (io_conf E) conf = Inr data"
    and commit: "pb_Commit (io_pebble E) (so_db s) True [OpSet confStateKey data] = Inr db"
    and s': "s' = s\<lparr>so_db := db, so_conf := conf\<rparr>"
    by (auto simp: SaveConfState_def split: sum.splits)
  have view: "view db = (view (so_db s))(confStateKey \<mapsto> data)" using pebble_commit [OF P commit] by simp
  have "log_on_disk E (view db) first entries = log_on_disk E (view (so_db s)) first entries" for first entries
    by (rule log_on_disk_cong) (auto simp: view meta_keys log_prefix_def)
  moreover have "pr_Marshal (io_conf E) conf = Some data"
    using data by (simp add: encodeProto_def split: option.splits)
  ultimately have "raft_inv E view s'" using I
    by (simp add: s' raft_inv_def raft_durable_def view LastIndex_def) (simp add: meta_keys)
  then show ?thesis unfolding outcome_ok_def by (intro exI [of _ s']) (simp add: advances_def s')
qed

lemma runs_late:
  assumes "runs first entries" "unat first + length entries < 2 ^ 64" "n \<le> length entries"
  shows "e \<in> set (drop n entries) \<longleftrightarrow> e \<in> set entries \<and> \<not> le_Index e < first + of_nat n"
proof
  have n: "unat (first + of_nat n) = unat first + n" using assms(2,3) by (intro unat_add_of_nat) simp
  show "e \<in> set entries \<and> \<not> le_Index e < first + of_nat n" if e: "e \<in> set (drop n entries)"
    using runs_bounds(1) [OF runs_drop [OF assms(1,3)] _ e] assms n in_set_dropD [OF e] by (simp add: word_less_nat_alt)
  show "e \<in> set (drop n entries)" if e: "e \<in> set entries \<and> \<not> le_Index e < first + of_nat n"
  proof -
    have "e \<in> set (take n entries) \<union> set (drop n entries)" using e by (simp flip: set_append)
    moreover have "e \<notin> set (take n entries)"
    proof
      assume "e \<in> set (take n entries)"
      from runs_bounds(2) [OF runs_take [OF assms(1)] _ this] assms(2,3) e n show False by (simp add: word_less_nat_alt)
    qed
    ultimately show ?thesis by blast
  qed
qed

lemma log_on_disk_drop:
  assumes log: "log_on_disk E m first entries" and n: "n \<le> length entries"
  shows "log_on_disk E (run_op (OpDeleteRange [log_prefix] (Some (numberKey log_prefix (first + of_nat n)))) m)
    (first + of_nat n) (drop n entries)"
proof -
  from log have runs: "runs first entries" "unat first + length entries < 2 ^ 64"
    and some: "\<forall>e \<in> set entries. pr_Marshal (io_entry E) e \<noteq> None"
    and disk: "\<And>k v. prefix [log_prefix] k \<Longrightarrow> m k = Some v \<longleftrightarrow>
      (\<exists>e \<in> set entries. k = numberKey log_prefix (le_Index e) \<and> pr_Marshal (io_entry E) e = Some v)"
    by (simp_all add: log_on_disk_def)
  have "unat (first + of_nat n) = unat first + n" using runs(2) n by (intro unat_add_of_nat) simp
  then have size: "unat (first + of_nat n) + length (drop n entries) < 2 ^ 64" using runs(2) n by simp
  have lower: "[log_prefix] \<le> numberKey log_prefix i" for i by (simp add: numberKey_def)
  have "run_op (OpDeleteRange [log_prefix] (Some (numberKey log_prefix (first + of_nat n)))) m k = Some v \<longleftrightarrow>
      (\<exists>e \<in> set (drop n entries). k = numberKey log_prefix (le_Index e) \<and> pr_Marshal (io_entry E) e = Some v)"
    if "prefix [log_prefix] k" for k v
    using disk [OF that, of v] lower by (auto simp: runs_late [OF runs n] numberKey_less_iff)
  with runs_drop [OF runs(1) n] size some show ?thesis
    unfolding log_on_disk_def by (blast dest: in_set_dropD)
qed


lemma plan_snapshot_Inr:
  assumes "plan_snapshot E s = Inr (snapshot, ops)"
  obtains encoded conf where "sn_Index (so_snapshot s) < so_applied s"
    "so_applied s - sn_Index (so_snapshot s) - 1 < of_nat (length (so_entryTerms s))"
    "sn_Index snapshot = so_applied s"
    "pr_Marshal (io_snapshot E) snapshot = Some encoded" "pr_Marshal (io_conf E) (so_conf s) = Some conf"
    "ops = [OpSet snapshotKey encoded, OpSet confStateKey conf,
        OpDeleteRange [log_prefix] (Some (numberKey log_prefix (so_applied s + 1))),
        OpDeleteRange [CHR 0x03] (Some (numberKey (CHR 0x03) (so_applied s + 1)))]"
proof -
  from assms obtain at_term img data where less: "\<not> so_applied s \<le> sn_Index (so_snapshot s)"
    and at: "term_at s (so_applied s) = Inr at_term"
    and rest: "bindE (encodeProto (io_snapshot E)
        \<lparr>sn_Data = data, sn_Index = so_applied s, sn_Term = at_term, sn_ConfState = so_conf s\<rparr>) (\<lambda>encoded.
      bindE (encodeProto (io_conf E) (so_conf s)) (\<lambda>conf.
        Inr (\<lparr>sn_Data = data, sn_Index = so_applied s, sn_Term = at_term, sn_ConfState = so_conf s\<rparr>,
          [OpSet snapshotKey encoded, OpSet confStateKey conf,
            OpDeleteRange [log_prefix] (Some (numberKey log_prefix (so_applied s + 1))),
            OpDeleteRange [CHR 0x03] (Some (numberKey (CHR 0x03) (so_applied s + 1)))]))) = Inr (snapshot, ops)"
    by (auto simp: plan_snapshot_def result_simps Let_def prefixBounds_def split: if_splits)
  from at less have "so_applied s - sn_Index (so_snapshot s) - 1 < of_nat (length (so_entryTerms s))"
    by (auto simp: term_at_def Let_def not_le split: if_splits)
  with less rest show thesis
    by (auto simp: result_simps encodeProto_def not_le split: option.splits intro: that)
qed

lemma offset_bounds:
  fixes a b :: uint64
  assumes "b < a" "a - b - 1 < of_nat n" "n < 2 ^ 64"
  shows "unat (a - b) \<le> n" "unat a = unat b + unat (a - b)" "a = b + of_nat (unat (a - b))"
proof -
  have le: "unat (a - b) = unat a - unat b" "unat b < unat a" using assms(1) by (simp_all add: unat_sub order_less_imp_le flip: word_less_nat_alt)
  then have "1 \<le> a - b" using word_le_nat_alt [of 1 "a - b"] by simp
  then have "unat (a - b - 1) = unat (a - b) - 1" using unat_sub [of 1 "a - b"] by simp
  with assms(2,3) show "unat (a - b) \<le> n" by (simp add: word_less_nat_alt unsigned_of_nat take_bit_nat_eq_self)
  show "unat a = unat b + unat (a - b)" using le by simp
  show "a = b + of_nat (unat (a - b))" by simp
qed

lemma compaction_durable:
  assumes I: "raft_inv E view s" and plan: "plan_snapshot E s = Inr (snapshot, ops)"
    and view: "view db = run_ops ops (view (so_db s))"
  defines "n \<equiv> unat (so_applied s - sn_Index (so_snapshot s))"
  shows "raft_inv E view (s\<lparr>so_db := db, so_entryTerms := drop n (so_entryTerms s), so_snapshot := snapshot\<rparr>)"
    and "n \<le> length (so_entryTerms s)" and "length (so_entryTerms s) < 2 ^ 64"
proof -
  let ?t = "s\<lparr>so_db := db, so_entryTerms := drop n (so_entryTerms s), so_snapshot := snapshot\<rparr>"
  let ?b = "sn_Index (so_snapshot s)"
  from I obtain entries hd cd where log: "log_on_disk E (view (so_db s)) (?b + 1) entries"
    and terms: "so_entryTerms s = map le_Term entries" and small: "unat ?b + 1 < 2 ^ 64"
    and hard: "pr_Marshal (io_hard E) (so_hard s) = Some hd" "view (so_db s) hardStateKey = Some hd"
    and commit: "hs_Commit (so_hard s) \<le> LastIndex s" "so_applied s \<le> hs_Commit (so_hard s)"
    and schema: "view (so_db s) schemaKey \<noteq> None"
    by (auto simp: raft_inv_def raft_durable_def)
  from plan obtain encoded conf where p: "?b < so_applied s" "so_applied s - ?b - 1 < of_nat (length (so_entryTerms s))"
    "sn_Index snapshot = so_applied s" "pr_Marshal (io_snapshot E) snapshot = Some encoded"
    "pr_Marshal (io_conf E) (so_conf s) = Some conf"
    and ops: "ops = [OpSet snapshotKey encoded, OpSet confStateKey conf,
        OpDeleteRange [log_prefix] (Some (numberKey log_prefix (so_applied s + 1))),
        OpDeleteRange [CHR 0x03] (Some (numberKey (CHR 0x03) (so_applied s + 1)))]"
    by (rule plan_snapshot_Inr)
  have size: "unat (?b + 1) + length entries < 2 ^ 64" using log by (simp add: log_on_disk_def)
  have f: "unat (?b + 1) = unat ?b + 1" using unat_add_of_nat [of ?b 1] small by simp
  show len: "length (so_entryTerms s) < 2 ^ 64" using size terms by simp
  show n: "n \<le> length (so_entryTerms s)" unfolding n_def by (rule offset_bounds(1) [OF p(1,2) len])
  have a: "unat (so_applied s) = unat ?b + n" "so_applied s = ?b + of_nat n"
    unfolding n_def by (rule offset_bounds(2) [OF p(1,2) len], rule offset_bounds(3) [OF p(1,2) len])
  have other: "view db k = (if k = confStateKey then Some conf else if k = snapshotKey then Some encoded else view (so_db s) k)"
    if "k \<in> {hardStateKey, confStateKey, snapshotKey, schemaKey}" for k
    using that by (auto simp: view ops meta_keys log_prefix_def)
  have cut: "view db k = run_op (OpDeleteRange [log_prefix] (Some (numberKey log_prefix (?b + 1 + of_nat n)))) (view (so_db s)) k"
    if "prefix [log_prefix] k" for k
    using that a(2) by (auto simp: view ops meta_keys log_prefix_def prefix_def ac_simps)
  have "log_on_disk E (view db) (?b + 1 + of_nat n) (drop n entries)"
    by (rule iffD2 [OF log_on_disk_cong log_on_disk_drop [OF log]], rule cut) (use n terms in simp_all)
  then have log': "log_on_disk E (view db) (sn_Index snapshot + 1) (drop n entries)"
    using p(3) a(2) by (simp add: ac_simps)
  have "of_nat n + of_nat (length entries - n) = (of_nat (length entries) :: uint64)"
    using n terms by (simp flip: of_nat_add)
  then have "LastIndex ?t = LastIndex s" using a(2) p(3) terms by (simp add: LastIndex_def ac_simps)
  moreover have "unat (so_applied s) + 1 < 2 ^ 64" using a(1) size f n terms by simp
  ultimately show "raft_inv E view ?t"
    unfolding raft_inv_def raft_durable_def using log' terms hard commit schema p other
    by (auto simp: drop_map meta_keys)
qed

lemma CreateSnapshot_ok:
  assumes P: "pebble_ok (io_pebble E) view" and I: "raft_inv E view s" and create: "CreateSnapshot E s = (s', r)"
  shows "outcome_ok E view s s' (\<not> isl r)"
proof (cases "bindE (plan_snapshot E s) (\<lambda>p. bindE (hit s SnapshotBeforeSync) (\<lambda>_. Inr p))")
  case (Inl e)
  with create I show ?thesis by (intro outcome_same) (auto simp: CreateSnapshot_def)
next
  case (Inr p)
  then obtain snapshot ops where plan: "plan_snapshot E s = Inr (snapshot, ops)" and p: "p = (snapshot, ops)"
    by (cases p) (auto simp: result_simps)
  show ?thesis
  proof (cases "pb_Commit (io_pebble E) (so_db s) True ops")
    case (Inl e)
    with create Inr p I show ?thesis by (intro outcome_same) (auto simp: CreateSnapshot_def)
  next
    case commit: (Inr db)
    let ?n = "unat (so_applied s - sn_Index (so_snapshot s))"
    let ?t = "s\<lparr>so_db := db, so_entryTerms := drop ?n (so_entryTerms s), so_snapshot := snapshot\<rparr>"
    have view: "view db = run_ops ops (view (so_db s))" by (rule pebble_commit [OF P commit])
    note t = compaction_durable [OF I plan view]
    have "\<not> of_nat (length (so_entryTerms s)) < so_applied s - sn_Index (so_snapshot s)"
      using t(2,3) by (simp add: word_less_nat_alt unsigned_of_nat take_bit_nat_eq_self)
    with create Inr p commit have "s' = s\<lparr>so_db := db\<rparr> \<and> isl r \<or> s' = ?t"
      by (auto simp: CreateSnapshot_def Let_def split: sum.splits)
    then have "so_db s' = db" "\<not> isl r \<longrightarrow> s' = ?t" by auto
    with t(1) show ?thesis unfolding outcome_ok_def by (intro exI [of _ ?t]) (auto simp: advances_def)
  qed
qed


lemma check_entry_bound:
  assumes "foldE (check_entry s) c entries = Inr c'" "entries \<noteq> []"
  shows "ae_Index (last entries) \<le> hs_Commit (so_hard s)"
  using assms
proof (induction entries arbitrary: c)
  case (Cons entry entries)
  then obtain d where d: "check_entry s c entry = Inr d" "foldE (check_entry s) d entries = Inr c'"
    by (auto simp: result_simps)
  then have "ae_Index entry \<le> hs_Commit (so_hard s)" by (auto simp: check_entry_def Let_def not_less split: if_splits)
  with Cons.IH [OF d(2)] show ?case by simp
qed simp

lemma plan_entries_data: "plan_entries E procs s entries workers owned resident e applications states = Inr plan \<Longrightarrow>
    list_all data_op (pa_ops plan)"
  by (auto simp: plan_entries_def result_simps Let_def plan_application_data)

lemma commit_entries_cases:
  assumes "commit_entries E s undone e final plan = (s', r)" "so_db undone = so_db s" "raft_part undone = raft_part s"
  shows "so_db s' = so_db s \<and> isl r \<or>
    pb_Commit (io_pebble E) (so_db s) True (pa_ops plan) = Inr (so_db s') \<and> raft_part s' = raft_part s \<and>
      (isl r \<or> so_applied s' = ae_Index final)"
proof (cases "pb_Commit (io_pebble E) (so_db s) True (pa_ops plan)")
  case (Inl e)
  with assms show ?thesis by (auto simp: commit_entries_def split: sum.splits)
next
  case (Inr db)
  with assms show ?thesis by (auto simp: commit_entries_def Let_def raft_part_def split: sum.splits)
qed

lemma applyEntries_cases:
  assumes "applyEntries E procs s entries workers owned = (s', r)"
  shows "so_db s' = so_db s \<and> (s' = s \<or> isl r) \<or>
    (\<exists>ops. list_all data_op ops \<and> ae_Index (last entries) \<le> hs_Commit (so_hard s) \<and>
       pb_Commit (io_pebble E) (so_db s) True ops = Inr (so_db s') \<and> raft_part s' = raft_part s \<and>
       (isl r \<or> so_applied s' = ae_Index (last entries)))"
proof (cases "entries = []")
  case True
  with assms show ?thesis by (simp add: applyEntries_def)
next
  case False
  note eq = assms [unfolded applyEntries_def, simplified False length_0_conv if_False Let_def]
  show ?thesis
  proof (cases "foldE (check_entry s) \<lparr>ec_expected = so_applied s + 1, ec_commands = [], ec_resident = []\<rparr> entries")
    case (Inl e)
    with eq show ?thesis by simp
  next
    case check: (Inr c)
    have bound: "ae_Index (last entries) \<le> hs_Commit (so_hard s)" by (rule check_entry_bound [OF check False])
    show ?thesis
    proof (cases "apply_to_engine E s owned (ec_commands c)")
      case (Inl e)
      with eq check show ?thesis by auto
    next
      case engine: (Inr p)
      obtain e applications states where p: "p = (e, applications, states)" by (cases p) auto
      show ?thesis
      proof (cases "plan_entries E procs s entries workers owned (ec_resident c) e applications states")
        case (Inl err)
        with eq check engine p show ?thesis by auto
      next
        case (Inr plan)
        let ?undone = "s\<lparr>so_engine := Rollback (Checkpoint (attached E s (so_engine s)) (ec_commands c)) e\<rparr>"
        from eq check engine p Inr have commit: "commit_entries E s ?undone e (last entries) plan = (s', r)" by simp
        have "so_db ?undone = so_db s" "raft_part ?undone = raft_part s" by (simp_all add: raft_part_def)
        from commit_entries_cases [OF commit this] plan_entries_data [OF Inr] bound show ?thesis by blast
      qed
    qed
  qed
qed

lemma data_outcome:
  assumes P: "pebble_ok (io_pebble E) view" and I: "raft_inv E view s" and ops: "list_all data_op ops"
    and commit: "pb_Commit (io_pebble E) (so_db s) sync ops = Inr (so_db s')"
    and part: "raft_part s' = raft_part s" and ok: "ok \<Longrightarrow> so_applied s' \<le> hs_Commit (so_hard s')"
  shows "outcome_ok E view s s' ok"
proof -
  let ?t = "if ok then s' else s\<lparr>so_db := so_db s'\<rparr>"
  have "raft_inv E view ?t"
    by (rule data_step [OF P I ops, of sync]) (use I ok part commit in \<open>auto simp: raft_inv_def raft_part_def\<close>)
  moreover have "raft_part ?t = raft_part s" using part by (simp add: raft_part_def)
  ultimately show ?thesis unfolding outcome_ok_def by (intro exI [of _ ?t]) (simp add: advances_part)
qed

lemma applyEntries_ok:
  assumes P: "pebble_ok (io_pebble E) view" and I: "raft_inv E view s"
    and app: "applyEntries E procs s entries workers owned = (s', r)"
  shows "outcome_ok E view s s' (\<not> isl r)"
  using applyEntries_cases [OF app]
proof
  assume "so_db s' = so_db s \<and> (s' = s \<or> isl r)"
  with I show ?thesis by (intro outcome_same) auto
next
  assume "\<exists>ops. list_all data_op ops \<and> ae_Index (last entries) \<le> hs_Commit (so_hard s) \<and>
       pb_Commit (io_pebble E) (so_db s) True ops = Inr (so_db s') \<and> raft_part s' = raft_part s \<and>
       (isl r \<or> so_applied s' = ae_Index (last entries))"
  then obtain ops where "list_all data_op ops"
    "pb_Commit (io_pebble E) (so_db s) True ops = Inr (so_db s')" "raft_part s' = raft_part s"
    and applied: "ae_Index (last entries) \<le> hs_Commit (so_hard s)" "isl r \<or> so_applied s' = ae_Index (last entries)"
    by blast
  then show ?thesis using applied by (intro data_outcome [OF P I]) (auto simp: raft_part_def)
qed


section \<open>Opening the store again\<close>

definition keeps_raft :: "('db \<Rightarrow> contents) \<Rightarrow> 'db Store \<Rightarrow> 'db Store \<Rightarrow> bool" where
  "keeps_raft view s t \<longleftrightarrow>
     raft_part t = raft_part s \<and> (\<forall>k. raft_key k \<longrightarrow> view (so_db t) k = view (so_db s) k)"

lemma keeps_raft_same: "raft_part t = raft_part s \<Longrightarrow> so_db t = so_db s \<Longrightarrow> keeps_raft view s t"
  by (simp add: keeps_raft_def)

lemma keeps_raft_trans [trans]: "keeps_raft view s t \<Longrightarrow> keeps_raft view t u \<Longrightarrow> keeps_raft view s u"
  by (simp add: keeps_raft_def)

lemma keeps_raft_data:
  assumes "pebble_ok (io_pebble E) view" "list_all data_op ops"
    and "pb_Commit (io_pebble E) (so_db s) sync ops = Inr (so_db t)" "raft_part t = raft_part s"
  shows "keeps_raft view s t"
  using assms pebble_commit [OF assms(1,3)] by (simp add: keeps_raft_def data_ops_raft)

lemma raft_part_attach [simp]: "raft_part (attachEngine E s) = raft_part s"
  by (simp add: attachEngine_def raft_part_def)

lemma snapshotImage_index:
  assumes "snapshotImage E s snapshot = Inr img"
  shows "si_AppliedIndex img = sn_Index snapshot"
proof (cases "decodeSnapshotImage (io_digest E) (io_image E) (sn_Data snapshot)")
  case (Inl e)
  with assms show ?thesis by (simp add: snapshotImage_def)
next
  case (Inr i)
  with assms show ?thesis
    by (cases "Restore (io_digest E) (si_Engine i)") (simp_all add: snapshotImage_def split: if_splits)
qed

lemma installSnapshot_cases:
  assumes "installSnapshot E procs s snapshot hooks = (s', r)"
  shows "s' = s \<or>
    (\<exists>ops. list_all data_op ops \<and> pb_Commit (io_pebble E) (so_db s) True ops = Inr (so_db s') \<and>
       raft_part s' = raft_part s \<and> (isl r \<or> so_applied s' = sn_Index (so_snapshot s)))"
proof (cases "sn_Index snapshot \<le> so_applied s \<or> sn_Index snapshot \<noteq> sn_Index (so_snapshot s) \<or>
    sn_Term snapshot \<noteq> sn_Term (so_snapshot s)")
  case True
  with assms show ?thesis by (auto simp: installSnapshot_def split: if_splits)
next
  case guard: False
  let ?plan = "bindE (snapshotImage E s snapshot) (\<lambda>img.
    bindE (core_result (Restore (io_digest E) (si_Engine img))) (\<lambda>engine.
    bindE (plan_install E procs img) (\<lambda>ops.
    bindE (if hooks then hit s SnapshotInstallBeforeSync else Inr ()) (\<lambda>_. Inr (img, engine, ops)))))"
  show ?thesis
  proof (cases ?plan)
    case (Inl e)
    with assms guard show ?thesis by (simp add: installSnapshot_def)
  next
    case plan: (Inr p)
    then obtain img engine ops where p: "p = (img, engine, ops)" "snapshotImage E s snapshot = Inr img"
      "plan_install E procs img = Inr ops"
      unfolding result_simps by blast
    then have applied: "si_AppliedIndex img = sn_Index (so_snapshot s)"
      using guard snapshotImage_index [OF p(2)] by simp
    show ?thesis
    proof (cases "pb_Commit (io_pebble E) (so_db s) True ops")
      case (Inl e)
      with assms guard plan p(1) show ?thesis by (simp add: installSnapshot_def)
    next
      case commit: (Inr db)
      let ?hit = "if hooks then hit s SnapshotInstallAfterSync else Inr ()"
      have "so_db s' = db \<and> raft_part s' = raft_part s \<and> (isl r \<or> so_applied s' = sn_Index (so_snapshot s))"
      proof (cases ?hit)
        case (Inl e)
        with assms guard plan p(1) commit have
          "s' = s\<lparr>so_db := db, so_membership := Some (membershipFromSnapshot (io_receiptHash E) (io_workflowHash E) (si_Engine img))\<rparr> \<and> r = Inl e"
          by (simp add: installSnapshot_def)
        then show ?thesis by (simp add: raft_part_def)
      next
        case (Inr u)
        with assms guard plan p(1) commit have "s' = installed E s db img engine"
          by (simp add: installSnapshot_def)
        then show ?thesis using applied by (simp add: installed_def attachEngine_def raft_part_def Let_def)
      qed
      with commit plan_install_data [OF p(3)] show ?thesis by blast
    qed
  qed
qed

lemma installSnapshot_keeps:
  assumes "pebble_ok (io_pebble E) view" "installSnapshot E procs s snapshot hooks = (s', r)"
  shows "keeps_raft view s s'"
  using installSnapshot_cases [OF assms(2)] keeps_raft_data [OF assms(1)] keeps_raft_same [of s s] by blast

lemma InstallSnapshot_ok:
  assumes P: "pebble_ok (io_pebble E) view" and I: "raft_inv E view s" and inst: "InstallSnapshot E procs s snapshot = (s', r)"
  shows "outcome_ok E view s s' (r = Inr ())"
  using installSnapshot_cases [OF inst [unfolded InstallSnapshot_def]]
proof
  assume "s' = s"
  with I show ?thesis by (simp add: outcome_same)
next
  assume "\<exists>ops. list_all data_op ops \<and> pb_Commit (io_pebble E) (so_db s) True ops = Inr (so_db s') \<and>
       raft_part s' = raft_part s \<and> (isl r \<or> so_applied s' = sn_Index (so_snapshot s))"
  then obtain ops where ops: "list_all data_op ops" "pb_Commit (io_pebble E) (so_db s) True ops = Inr (so_db s')"
    "raft_part s' = raft_part s" and applied: "isl r \<or> so_applied s' = sn_Index (so_snapshot s)" by blast
  show ?thesis by (rule data_outcome [OF P I ops])
    (use applied ops(3) I in \<open>auto simp: raft_inv_def raft_durable_def raft_part_def\<close>)
qed

lemma ensureActiveIndex_keeps:
  assumes P: "pebble_ok (io_pebble E) view" and ensure: "ensureActiveIndex E s = (s', r)"
  shows "keeps_raft view s s'"
proof (cases "s' = s")
  case True
  then show ?thesis by (simp add: keeps_raft_same)
next
  case False
  let ?plan = "bindE (plan_active_index E s) (\<lambda>ops. bindE (hit s ActiveIndexBeforeSync) (\<lambda>_. Inr ops))"
  from ensure False obtain ops where ops: "?plan = Inr ops" "pb_Commit (io_pebble E) (so_db s) True ops = Inr (so_db s')"
    "s' = s\<lparr>so_db := so_db s'\<rparr>"
    by (auto simp: ensureActiveIndex_def Let_def split: sum.splits option.splits)
  then have "plan_active_index E s = Inr ops" by (auto simp: result_simps)
  then have "list_all data_op ops" by (rule plan_active_index_data)
  moreover have "raft_part s' = raft_part s" by (subst ops(3)) (simp add: raft_part_def)
  ultimately show ?thesis using keeps_raft_data [OF P _ ops(2)] by blast
qed

lemma loadApplication_keeps:
  assumes P: "pebble_ok (io_pebble E) view" and la: "loadApplication E procs s = (s', r)"
  shows "keeps_raft view s s'"
proof (cases "bindE (get_present E s appliedKey) (decodeJSON (io_snappy E) (io_appliedState E))")
  case (Inl e)
  with la show ?thesis by (simp add: loadApplication_def keeps_raft_same)
next
  case applied: (Inr applied)
  show ?thesis
  proof (cases "as_Index applied < sn_Index (so_snapshot s)")
    case True
    let ?s = "s\<lparr>so_engine := NewEngine, so_applied := as_Index applied, so_appliedTerm := as_Term applied\<rparr>"
    from True la applied have "installSnapshot E procs ?s (so_snapshot s) False = (s', r)"
      by (simp add: loadApplication_def)
    from installSnapshot_keeps [OF P this] show ?thesis
      by (intro keeps_raft_trans [OF keeps_raft_same [of ?s s]]) (simp_all add: raft_part_def)
  next
    case False
    show ?thesis
    proof (cases "validateApplicationLog E s applied")
      case (Inl e)
      with False la applied show ?thesis by (simp add: loadApplication_def keeps_raft_same)
    next
      case (Inr u)
      obtain t q where t: "ensureActiveIndex E s = (t, q)" by (cases "ensureActiveIndex E s")
      from Inr False la applied t have "raft_part s' = raft_part t \<and> so_db s' = so_db t"
        by (auto simp: loadApplication_def Let_def raft_part_def attachEngine_def split: sum.splits)
      with ensureActiveIndex_keeps [OF P t] show ?thesis by (simp add: keeps_raft_def)
    qed
  qed
qed


lemma rebuild_keeps:
  "rebuildDurableMembership E s = Inr t \<Longrightarrow> raft_part t = raft_part s \<and> so_db t = so_db s \<and> so_applied t = so_applied s"
  by (auto simp: rebuildDurableMembership_def Let_def result_simps raft_part_def)

lemma load_loaded:
  assumes P: "pebble_ok (io_pebble E) view" and C: "raft_codecs_ok E"
    and D: "raft_durable E view s" "view (so_db s) schemaKey \<noteq> None" and db: "so_db t = so_db s"
    and load: "load E procs t voters = Inr u"
  shows "keeps_raft view s u \<and> so_applied u \<le> hs_Commit (so_hard u)"
proof -
  let ?t = "same_raft s t"
  from D(2) obtain data where data: "view (so_db t) schemaKey = Some data" using db by auto
  then have "ensure_schema E t voters = Inr (t, data)"
    by (simp add: ensure_schema_def get_def pebble_get [OF P])
  with load loadRaft_durable [OF P C D(1) db] obtain v q where v: "loadApplication E procs ?t = (v, Inr q)"
    and rest: "(case (if so_applied v < sn_Index (so_snapshot v) then installSnapshot E procs v (so_snapshot v) False
                  else (v, Inr ())) of
              (s, Inl e) \<Rightarrow> Inl e
            | (s, Inr _) \<Rightarrow>
                if hs_Commit (so_hard s) < so_applied s then Inl StoreFault
                else rebuildDurableMembership E s) = Inr u"
    by (cases "loadApplication E procs ?t") (auto simp: load_def result_simps split: sum.splits)
  obtain w q' where w: "(if so_applied v < sn_Index (so_snapshot v) then installSnapshot E procs v (so_snapshot v) False
      else (v, Inr ())) = (w, q')" by (cases "if so_applied v < sn_Index (so_snapshot v)
        then installSnapshot E procs v (so_snapshot v) False else (v, Inr ())") auto
  with rest have last: "\<not> hs_Commit (so_hard w) < so_applied w" "rebuildDurableMembership E w = Inr u"
    by (auto split: sum.splits if_splits)
  have "keeps_raft view s ?t" using db by (intro keeps_raft_same) (simp_all add: same_raft_def raft_part_def)
  also have "keeps_raft view ?t v" by (rule loadApplication_keeps [OF P v])
  also have "keeps_raft view v w"
    using w installSnapshot_keeps [OF P] by (auto simp: keeps_raft_same split: if_splits)
  also have "keeps_raft view w u"
    using rebuild_keeps [OF last(2)] by (simp add: keeps_raft_same)
  finally show ?thesis using last(1) rebuild_keeps [OF last(2)] by (auto simp: raft_part_def not_less)
qed

lemma load_inv:
  assumes "pebble_ok (io_pebble E) view" "raft_codecs_ok E" "raft_inv E view s" "so_db t = so_db s"
    and "load E procs t voters = Inr u"
  shows "raft_inv E view u" "raft_part u = raft_part s"
proof -
  from assms(3) have D: "raft_durable E view s" "view (so_db s) schemaKey \<noteq> None" by (simp_all add: raft_inv_def)
  have L: "keeps_raft view s u" "so_applied u \<le> hs_Commit (so_hard u)"
    using load_loaded [OF assms(1,2) D assms(4,5)] by simp_all
  then show part: "raft_part u = raft_part s" by (simp add: keeps_raft_def)
  have "raft_durable E view u = raft_durable E view s"
    by (rule raft_durable_cong) (use L(1) in \<open>simp_all add: keeps_raft_def\<close>)
  moreover have "view (so_db u) schemaKey = view (so_db s) schemaKey"
    using L(1) by (simp add: keeps_raft_def raft_key_def)
  ultimately show "raft_inv E view u" using D L(2) by (simp add: raft_inv_def)
qed

section \<open>Histories\<close>

text \<open>
  One call of the store, whatever it returns: \<open>ok\<close> tells whether it succeeded, and \<open>sync\<close> whether success
  means that a batch was committed with \<^verbatim>\<open>pebble.Sync\<close>. The calls are those that write to the database, and
  \<^verbatim>\<open>Prepare\<close>, which uses the engine and rolls it back; it may be refused without harm.
\<close>

definition ready_syncs :: "'db storage_env \<Rightarrow> 'db Store \<Rightarrow> Ready \<Rightarrow> bool" where
  "ready_syncs E s ready \<longleftrightarrow>
     \<not> ready_empty E ready \<and>
     (case plan_ready E s ready of
        Inl e \<Rightarrow> False
      | Inr plan \<Rightarrow> raftWriteOptions ready (rp_changed plan) (length (rp_kept plan)) (so_hard s) (rp_hard plan))"

inductive store_call :: "'db storage_env \<Rightarrow> nat \<Rightarrow> 'db Store \<Rightarrow> 'db Store \<Rightarrow> bool \<Rightarrow> bool \<Rightarrow> bool" for E procs where
  save_ready: "SaveReady E s ready = (s', r) \<Longrightarrow> ready_ok ready \<Longrightarrow>
    store_call E procs s s' (r = Inr ()) (ready_syncs E s ready)"
| save_conf: "SaveConfState E s conf = (s', r) \<Longrightarrow> store_call E procs s s' (r = Inr ()) True"
| apply_entries: "applyEntries E procs s entries workers owned = (s', q) \<Longrightarrow>
    store_call E procs s s' (\<not> isl q) (entries \<noteq> [])"
| create_snapshot: "CreateSnapshot E s = (s', p) \<Longrightarrow> store_call E procs s s' (\<not> isl p) True"
| install_snapshot: "InstallSnapshot E procs s snapshot = (s', r) \<Longrightarrow>
    store_call E procs s s' (r = Inr ()) (so_applied s < sn_Index snapshot)"
| prepare: "Store_Prepare E J s commands = (s', b) \<Longrightarrow> store_call E procs s s' True False"

text \<open>
  A node goes on with the store after a call that succeeded; after any call it may stop and open the
  database again. \<open>disks\<close> are the databases it may then find: a synced batch takes everything before it to
  the disk, and a batch that was not synced may be lost.
\<close>

inductive node_run :: "'db storage_env \<Rightarrow> nat \<Rightarrow> 'db Store \<Rightarrow> 'db set \<Rightarrow> 'db Store \<Rightarrow> 'db set \<Rightarrow> bool" for E procs s disks where
  run_start: "node_run E procs s disks s disks"
| run_call: "node_run E procs s disks t D \<Longrightarrow> store_call E procs t u True sync \<Longrightarrow>
    node_run E procs s disks u (if sync then {so_db u} else insert (so_db u) D)"
| run_crash: "node_run E procs s disks t D \<Longrightarrow> store_call E procs t u ok sync \<Longrightarrow> so_db v \<in> insert (so_db u) D \<Longrightarrow>
    load E procs v voters = Inr w \<Longrightarrow> node_run E procs s disks w {so_db w}"

lemma Store_Prepare_engine: "Store_Prepare E J s commands = (s', b) \<Longrightarrow> \<exists>e. s' = s\<lparr>so_engine := e\<rparr>"
  by (auto simp: Store_Prepare_def Let_def split: prod.splits)

lemma raft_inv_engine [simp]: "raft_inv E view (s\<lparr>so_engine := e\<rparr>) = raft_inv E view s"
  by (simp add: raft_inv_def raft_durable_def LastIndex_def)

lemma Store_Prepare_ok:
  assumes "raft_inv E view s" "Store_Prepare E J s commands = (s', b)"
  shows "outcome_ok E view s s' True"
  using assms Store_Prepare_engine [OF assms(2)] by (auto simp: outcome_ok_def advances_def)

lemma store_call_ok:
  assumes P: "pebble_ok (io_pebble E) view" and "store_call E procs s s' ok sync" and I: "raft_inv E view s"
  shows "outcome_ok E view s s' ok"
  using assms(2) I
  by (cases rule: store_call.cases)
    (auto intro: SaveReady_ok [OF P] SaveConfState_ok [OF P] applyEntries_ok [OF P] CreateSnapshot_ok [OF P]
      InstallSnapshot_ok [OF P] Store_Prepare_ok)

text \<open>Only the commit index of a later state may be ahead.\<close>

definition same_but_commit :: "'db Store \<Rightarrow> 'db Store \<Rightarrow> bool" where
  "same_but_commit s t \<longleftrightarrow>
     hs_Term (so_hard s) = hs_Term (so_hard t) \<and> hs_Vote (so_hard s) = hs_Vote (so_hard t) \<and>
     hs_Commit (so_hard s) \<le> hs_Commit (so_hard t) \<and> so_conf s = so_conf t \<and> so_snapshot s = so_snapshot t \<and>
     so_entryTerms s = so_entryTerms t"

lemma same_but_commit_trans: "same_but_commit s t \<Longrightarrow> same_but_commit t u \<Longrightarrow> same_but_commit s u"
  by (auto simp: same_but_commit_def)

lemma same_but_commit_refl [simp]: "same_but_commit s s"
  by (simp add: same_but_commit_def)

lemma unsynced_plan:
  assumes plan: "plan_ready E s ready = Inr plan"
    and no: "\<not> raftWriteOptions ready (rp_changed plan) (length (rp_kept plan)) (so_hard s) (rp_hard plan)"
  shows "same_but_commit s (install_plan plan (s\<lparr>so_db := db\<rparr>))"
proof -
  from no have c: "\<not> rp_changed plan" "rp_kept plan = []" "hs_Term (so_hard s) = hs_Term (rp_hard plan)"
    "hs_Vote (so_hard s) = hs_Vote (rp_hard plan)" by (auto simp: raftWriteOptions_def)
  from plan obtain len where "check_snapshot E s ready = Inr (rp_changed plan, rp_snapshot plan, rp_conf plan, len)"
    by (rule plan_ready_Inr)
  with c(1) have "rp_snapshot plan = so_snapshot s \<and> rp_conf plan = so_conf s"
    by (auto simp: check_snapshot_def result_simps split: if_splits)
  with c plan_ready_hard [OF plan] show ?thesis
    by (simp add: same_but_commit_def install_plan_def Let_def)
qed

lemma unsynced_call:
  assumes "store_call E procs s s' True False"
  shows "same_but_commit s s'"
  using assms
proof (cases rule: store_call.cases)
  case (save_ready ready r)
  show ?thesis
  proof (cases "s' = s \<or> ready_empty E ready")
    case True
    with save_ready show ?thesis by (auto simp: SaveReady_def)
  next
    case False
    with SaveReady_cases [OF save_ready(3)] save_ready(1) obtain plan db where
      plan: "plan_ready E s ready = Inr plan" and s': "s' = install_plan plan (s\<lparr>so_db := db\<rparr>)" by auto
    from False save_ready(2) plan show ?thesis unfolding s'
      by (intro unsynced_plan [OF plan]) (simp add: ready_syncs_def)
  qed
next
  case (apply_entries entries workers owned q)
  then show ?thesis by (simp add: applyEntries_def)
next
  case (install_snapshot snapshot r)
  then show ?thesis by (simp add: InstallSnapshot_def installSnapshot_def not_less)
next
  case (prepare J commands b)
  with Store_Prepare_engine [OF this] show ?thesis by (auto simp: same_but_commit_def)
qed simp_all

definition disk_inv :: "'db storage_env \<Rightarrow> ('db \<Rightarrow> contents) \<Rightarrow> 'db Store \<Rightarrow> 'db set \<Rightarrow> bool" where
  "disk_inv E view t D \<longleftrightarrow>
     raft_inv E view t \<and> so_db t \<in> D \<and> (\<forall>d \<in> D. \<exists>r. raft_inv E view r \<and> so_db r = d \<and> same_but_commit r t)"

lemma disk_inv_single: "raft_inv E view t \<Longrightarrow> disk_inv E view t {so_db t}"
  by (auto simp: disk_inv_def intro: exI [of _ t])

lemma disk_inv_insert:
  assumes "disk_inv E view t D" "raft_inv E view u" "same_but_commit t u"
  shows "disk_inv E view u (insert (so_db u) D)"
  using assms unfolding disk_inv_def by (blast intro: same_but_commit_trans same_but_commit_refl)

text \<open>One call keeps the invariant of the databases that a crash may leave; so does opening one of them.\<close>

lemma disk_inv_call:
  assumes P: "pebble_ok (io_pebble E) view" and I: "disk_inv E view t D" and call: "store_call E procs t u True sync"
  shows "disk_inv E view u (if sync then {so_db u} else insert (so_db u) D) \<and> advances t u"
proof -
  have "outcome_ok E view t u True" using store_call_ok [OF P call] I by (simp add: disk_inv_def)
  then have u: "raft_inv E view u" "advances t u" by (auto simp: outcome_ok_def)
  show ?thesis
  proof (cases sync)
    case True
    with disk_inv_single [OF u(1)] u(2) show ?thesis by simp
  next
    case False
    with call have "same_but_commit t u" by (intro unsynced_call) simp
    with disk_inv_insert [OF I u(1)] False u(2) show ?thesis by simp
  qed
qed

lemma disk_inv_crash:
  assumes P: "pebble_ok (io_pebble E) view" and C: "raft_codecs_ok E" and I: "disk_inv E view t D"
    and call: "store_call E procs t u ok sync" and db: "so_db v \<in> insert (so_db u) D" and load: "load E procs v voters = Inr w"
  shows "disk_inv E view w {so_db w} \<and> hs_Term (so_hard t) \<le> hs_Term (so_hard w)"
proof -
  have t: "raft_inv E view t" "\<forall>d \<in> D. \<exists>r. raft_inv E view r \<and> so_db r = d \<and> same_but_commit r t"
    using I by (simp_all add: disk_inv_def)
  have "outcome_ok E view t u ok" by (rule store_call_ok [OF P call t(1)])
  then have "\<exists>d. raft_inv E view d \<and> so_db d = so_db v \<and> hs_Term (so_hard t) \<le> hs_Term (so_hard d)"
    using t(2) db unfolding outcome_ok_def advances_def same_but_commit_def by (metis insertE order_refl)
  then obtain d where d: "raft_inv E view d" "so_db v = so_db d" "hs_Term (so_hard t) \<le> hs_Term (so_hard d)" by metis
  from load_inv [OF P C d(1,2) load] d(3) show ?thesis
    by (auto simp: raft_part_def disk_inv_single)
qed

lemma node_run_inv:
  assumes P: "pebble_ok (io_pebble E) view" and C: "raft_codecs_ok E" and run: "node_run E procs s disks t D"
    and I: "disk_inv E view s disks"
  shows "disk_inv E view t D \<and> hs_Term (so_hard s) \<le> hs_Term (so_hard t)"
  using run
proof (induction rule: node_run.induct)
  case run_start
  with I show ?case by simp
next
  case (run_call t D u sync)
  with disk_inv_call [OF P _ run_call.hyps(2), of D] show ?case by (auto simp: advances_def)
next
  case (run_crash t D u ok sync v voters w)
  with disk_inv_crash [OF P C _ run_crash.hyps(2-4)] show ?case by auto
qed

section \<open>A new database\<close>

lemma plan_initialize_Inr:
  assumes "plan_initialize E s voters = Inr ops"
  obtains hard conf snapshot schema cluster node hardData confData snapshotData applied where
    "hard = \<lparr>hs_Term = 1, hs_Vote = 0, hs_Commit = 1\<rparr>" "sn_Index snapshot = 1"
    "pr_Marshal (io_hard E) hard = Some hardData" "pr_Marshal (io_conf E) conf = Some confData"
    "pr_Marshal (io_snapshot E) snapshot = Some snapshotData"
    "ops = [OpSet schemaKey schema, OpSet clusterKey cluster, OpSet nodeKey node, OpSet hardStateKey hardData,
        OpSet confStateKey confData, OpSet snapshotKey snapshotData, OpSet appliedKey applied,
        OpSet activeIndexKey activeIndexValue]"
proof -
  define conf where "conf = \<lparr>cs_Voters = sort voters, cs_Learners = [], cs_VotersOutgoing = [], cs_LearnersNext = [], cs_AutoLeave = False\<rparr>"
  from assms obtain payload hardData confData snapshotData applied where
    "encodeProto (io_hard E) \<lparr>hs_Term = 1, hs_Vote = 0, hs_Commit = 1\<rparr> = Inr hardData"
    "encodeProto (io_conf E) conf = Inr confData"
    "encodeProto (io_snapshot E) \<lparr>sn_Data = payload, sn_Index = 1, sn_Term = 1, sn_ConfState = conf\<rparr> = Inr snapshotData"
    "ops = [OpSet schemaKey (PutUint32 SchemaVersion), OpSet clusterKey (so_clusterID s),
        OpSet nodeKey (PutUint64 (so_nodeID s)), OpSet hardStateKey hardData,
        OpSet confStateKey confData, OpSet snapshotKey snapshotData, OpSet appliedKey applied,
        OpSet activeIndexKey activeIndexValue]"
    unfolding plan_initialize_def Let_def conf_def [symmetric]
    by (auto simp: result_simps split: if_splits)
  then show thesis
    by (intro that [OF refl, of "\<lparr>sn_Data = payload, sn_Index = 1, sn_Term = 1, sn_ConfState = conf\<rparr>"])
      (auto simp: encodeProto_def split: option.splits)
qed

lemma initialize_inv:
  assumes P: "pebble_ok (io_pebble E) view" and empty: "view (so_db s) = Map.empty"
    and init: "initialize E s voters = Inr t"
  shows "\<exists>d. raft_inv E view d \<and> so_db d = so_db t \<and> so_hard d = \<lparr>hs_Term = 1, hs_Vote = 0, hs_Commit = 1\<rparr>"
proof -
  from init obtain ops where plan: "plan_initialize E s voters = Inr ops"
    and commit: "pb_Commit (io_pebble E) (so_db s) True ops = Inr (so_db t)"
    by (auto simp: initialize_def result_simps)
  from plan obtain hard conf snapshot schema cluster node hardData confData snapshotData applied where
    hard: "hard = \<lparr>hs_Term = 1, hs_Vote = 0, hs_Commit = 1\<rparr>" and index: "sn_Index snapshot = 1"
    and m: "pr_Marshal (io_hard E) hard = Some hardData" "pr_Marshal (io_conf E) conf = Some confData"
      "pr_Marshal (io_snapshot E) snapshot = Some snapshotData"
    and ops: "ops = [OpSet schemaKey schema, OpSet clusterKey cluster, OpSet nodeKey node, OpSet hardStateKey hardData,
        OpSet confStateKey confData, OpSet snapshotKey snapshotData, OpSet appliedKey applied,
        OpSet activeIndexKey activeIndexValue]"
    by (rule plan_initialize_Inr)
  let ?d = "t\<lparr>so_hard := hard, so_conf := conf, so_snapshot := snapshot, so_entryTerms := [], so_applied := 1\<rparr>"
  have view: "view (so_db t) = run_ops ops Map.empty" using pebble_commit [OF P commit] empty by simp
  have "view (so_db t) k = None" if "prefix [log_prefix] k" for k
    using that by (auto simp: view ops meta_keys log_prefix_def prefix_def)
  then have "log_on_disk E (view (so_db t)) (sn_Index snapshot + 1) []" by (simp add: log_on_disk_def index)
  moreover have "view (so_db t) hardStateKey = Some hardData" "view (so_db t) confStateKey = Some confData"
    "view (so_db t) snapshotKey = Some snapshotData" "view (so_db t) schemaKey = Some schema"
    by (simp_all add: view ops) (simp_all add: meta_keys)
  ultimately have "raft_inv E view ?d" using m hard index by (simp add: raft_inv_def raft_durable_def LastIndex_def)
  then show ?thesis using hard by (intro exI [of _ ?d]) simp
qed

lemma load_new:
  assumes P: "pebble_ok (io_pebble E) view" and C: "raft_codecs_ok E" and empty: "view (so_db s) = Map.empty"
    and load: "load E procs s voters = Inr u"
  shows "raft_inv E view u \<and> so_hard u = \<lparr>hs_Term = 1, hs_Vote = 0, hs_Commit = 1\<rparr>"
proof -
  have none: "get E s schemaKey = Inr None" by (simp add: get_def pebble_get [OF P] empty)
  with load obtain t data where t: "initialize E s voters = Inr t" "get_present E t schemaKey = Inr data"
    by (auto simp: load_def ensure_schema_def result_simps)
  from initialize_inv [OF P empty t(1)] obtain d where d: "raft_inv E view d" "so_db d = so_db t"
    "so_hard d = \<lparr>hs_Term = 1, hs_Vote = 0, hs_Commit = 1\<rparr>" by blast
  have "get E t schemaKey = Inr (Some data)"
    using t(2) by (auto simp: get_present_def get_def pebble_get [OF P] split: option.splits)
  then have "ensure_schema E t voters = ensure_schema E s voters"
    using none t by (simp add: ensure_schema_def)
  then have "load E procs t voters = Inr u" using load by (simp add: load_def)
  from load_inv [OF P C d(1) d(2) [symmetric] this] d(3) show ?thesis by (simp add: raft_part_def)
qed

lemma Open_new:
  assumes P: "pebble_ok (io_pebble E) view" and C: "raft_codecs_ok E"
    and "opened (cf_Directory config) = Inr db" "view db = Map.empty" "Open E procs opened config = Inr s"
  shows "raft_inv E view s \<and> so_hard s = \<lparr>hs_Term = 1, hs_Vote = 0, hs_Commit = 1\<rparr>"
proof -
  from assms(3,5) obtain u where u: "load E procs (new_store config db) (cf_Voters config) = Inr u" "s = attachEngine E u"
    by (auto simp: Open_def result_simps split: if_splits)
  have "raft_inv E view u \<and> so_hard u = \<lparr>hs_Term = 1, hs_Vote = 0, hs_Commit = 1\<rparr>"
    by (rule load_new [OF P C _ u(1)]) (simp add: new_store_def Let_def assms(4))
  moreover have "raft_durable E view s = raft_durable E view u"
    by (rule raft_durable_cong) (simp_all add: u(2), simp add: attachEngine_def)
  ultimately show ?thesis by (auto simp: u(2) raft_inv_def attachEngine_def)
qed

end
