(* ===== verification/Chronos_Durable.thy ===== *)
theory Chronos_Durable
  imports Chronos_Raft_Steps
begin

text \<open>
  What \<^verbatim>\<open>applyEntries\<close> accepted can be read back from the database: the engine's answers to a batch, the
  records written for them, and the receipt that \<^verbatim>\<open>loadReceipt\<close> puts together again.
\<close>

section \<open>The answers of the engine\<close>

definition accepted_answer :: "BatchApplication \<Rightarrow> bool" where
  "accepted_answer a \<longleftrightarrow> \<not> ba_Conflict a \<and> \<not> rs_Duplicate (ba_Result a)"

text \<open>The events of an accepted batch are the batch's own, and numbered without gaps.\<close>

definition good_result :: "digest \<Rightarrow> CommandBatch \<Rightarrow> Result \<Rightarrow> bool" where
  "good_result H batch result \<longleftrightarrow>
     rs_WorkflowID result = cb_WorkflowID batch \<and> rs_Events result \<noteq> [] \<and>
     (rs_Events result = cb_Events batch \<or> rs_Events result = cloneEvents (cb_Events batch)) \<and>
     (\<forall>i < length (rs_Events result).
        let event = rs_Events result ! i in
        event_of_request (cb_RequestID batch) (cb_RequestHash batch) (cb_WorkflowID batch) event \<and>
        ev_Sequence event = ev_Sequence (hd (rs_Events result)) + of_nat i \<and>
        ev_ID event = EventID H (ev_WorkflowID event) (ev_Sequence event) (ev_Kind event) \<and> 0 \<le> ev_At event)"

lemma event_of_request_clone [simp]: "event_of_request r h w (cloneEvent e) = event_of_request r h w e"
  by (simp add: event_of_request_def)

lemma good_result_clone:
  assumes "good_result H batch result"
  shows "good_result H batch (cloneResult result)"
proof -
  have "hd (cloneEvents (rs_Events result)) = cloneEvent (hd (rs_Events result))"
    using assms by (simp add: cloneEvents_def good_result_def hd_map)
  with assms show ?thesis
    by (auto simp: good_result_def cloneResult_def cloneEvents_def Let_def)
qed

lemma applyEvent_stamped:
  "applyEvent H s e isolated = Inr t \<Longrightarrow>
     ev_ID e = EventID H (ev_WorkflowID e) (ev_Sequence e) (ev_Kind e) \<and> 0 \<le> ev_At e"
  by (auto simp: applyEvent_def split: if_splits)

lemma applyOwnedEvents_stamped:
  assumes "applyOwnedEvents H s es = Inr t" "e \<in> set es"
  shows "ev_ID e = EventID H (ev_WorkflowID e) (ev_Sequence e) (ev_Kind e) \<and> 0 \<le> ev_At e"
  using assms
proof (induction es arbitrary: s)
  case (Cons f es)
  then obtain n where "applyEvent H s f False = Inr n" "applyOwnedEvents H (Some n) es = Inr t"
    by (auto simp: applyOwnedEvents_def apply_next_def result_simps)
  with Cons applyEvent_stamped [of H s f False n] show ?case by auto
qed simp

lemma applyOwnedEvents_numbered:
  assumes "applyOwnedEvents H s es = Inr t" "i < length es"
  shows "ev_Sequence (es ! i) = ev_Sequence (hd es) + of_nat i"
proof -
  from log.replay_contiguous [of H s es t] assms(1)
  have seqs: "map (unat \<circ> ev_Sequence) es = [Suc (log.at_version s) ..< Suc (log.at_version s + length es)]"
    by (simp add: applyOwnedEvents_replay)
  have "unat (ev_Sequence (es ! j)) = Suc (log.at_version s + j)" if "j < length es" for j
    using arg_cong [OF seqs, of "\<lambda>xs. xs ! j"] that by (simp del: upt_Suc)
  from this [OF assms(2)] this [of 0] assms(2) have "unat (ev_Sequence (es ! i)) = unat (ev_Sequence (hd es)) + i"
    by (cases es) auto
  then have "(of_nat (unat (ev_Sequence (es ! i))) :: uint64) = of_nat (unat (ev_Sequence (hd es)) + i)" by simp
  then show ?thesis by simp
qed


text \<open>The loop over the batches: every batch has its answer, and no two accepted ones share a request.\<close>

definition accepted_pairs :: "CommandBatch list \<Rightarrow> BatchApplication list \<Rightarrow> (CommandBatch \<times> BatchApplication) list" where
  "accepted_pairs batches applications = filter (\<lambda>(b, a). accepted_answer a) (zip batches applications)"

definition answers_ok :: "digest \<Rightarrow> CommandBatch list \<Rightarrow> BatchApplication list \<Rightarrow> bool" where
  "answers_ok H batches applications \<longleftrightarrow>
     list_all2 (\<lambda>b a. accepted_answer a \<longrightarrow> good_result H b (ba_Result a)) batches applications \<and>
     distinct (map (cb_RequestID \<circ> fst) (accepted_pairs batches applications))"

definition batch_loop_ok :: "digest \<Rightarrow> bool \<Rightarrow> CommandBatch list \<Rightarrow> batchLoop \<Rightarrow> bool" where
  "batch_loop_ok H owned batches l \<longleftrightarrow>
     answers_ok H batches (bl_applications l) \<and>
     cb_RequestID ` fst ` set (accepted_pairs batches (bl_applications l)) \<subseteq> set (keys (bl_requests l)) \<and>
     (\<forall>(requestID, r, index) \<in> set (bl_accepted l).
        index < length (bl_applications l) \<and> (owned \<longrightarrow> ba_Result (bl_applications l ! index) = rq_result r))"

lemma accepted_pairs_snoc:
  "length batches = length applications \<Longrightarrow>
     accepted_pairs (batches @ [b]) (applications @ [a]) =
       accepted_pairs batches applications @ (if accepted_answer a then [(b, a)] else [])"
  by (simp add: accepted_pairs_def)

lemma answers_length: "answers_ok H batches applications \<Longrightarrow> length batches = length applications"
  by (auto simp: answers_ok_def dest: list_all2_lengthD)

lemma batch_loop_refused:
  assumes "batch_loop_ok H owned batches l" "\<not> accepted_answer a"
  shows "batch_loop_ok H owned (batches @ [b]) (l\<lparr>bl_applications := bl_applications l @ [a]\<rparr>)"
proof -
  from assms(1) have ok: "answers_ok H batches (bl_applications l)" by (simp add: batch_loop_ok_def)
  note len = answers_length [OF ok]
  from ok assms(2) have "answers_ok H (batches @ [b]) (bl_applications l @ [a])"
    by (simp add: answers_ok_def list_all2_appendI accepted_pairs_snoc [OF len])
  with assms show ?thesis by (auto simp: batch_loop_ok_def accepted_pairs_snoc [OF len] nth_append)
qed

lemma batch_loop_accepted:
  assumes loop: "batch_loop_ok H owned batches l" and new: "cb_RequestID b \<notin> set (keys (bl_requests l))"
    and good: "good_result H b result" "\<not> rs_Duplicate result"
  shows "batch_loop_ok H owned (batches @ [b])
    \<lparr>bl_states = states, bl_requests = put (cb_RequestID b) \<lparr>rq_hash = h, rq_result = result\<rparr> (bl_requests l),
     bl_accepted = bl_accepted l @ [(cb_RequestID b, \<lparr>rq_hash = h, rq_result = result\<rparr>, length (bl_applications l))],
     bl_applications = bl_applications l @
       [\<lparr>ba_Result = (if owned then result else cloneResult result), ba_Conflict = False\<rparr>]\<rparr>"
proof -
  let ?a = "\<lparr>ba_Result = (if owned then result else cloneResult result), ba_Conflict = False\<rparr>"
  from loop have ok: "answers_ok H batches (bl_applications l)" by (simp add: batch_loop_ok_def)
  note len = answers_length [OF ok]
  have a: "accepted_answer ?a" using good(2) by (simp add: accepted_answer_def cloneResult_def)
  moreover have "good_result H b (ba_Result ?a)" using good(1) good_result_clone by simp
  moreover have "cb_RequestID b \<notin> cb_RequestID ` fst ` set (accepted_pairs batches (bl_applications l))"
    using loop new by (auto simp: batch_loop_ok_def)
  ultimately have "answers_ok H (batches @ [b]) (bl_applications l @ [?a])"
    using ok by (simp add: answers_ok_def list_all2_appendI accepted_pairs_snoc [OF len] image_image)
  with loop a show ?thesis by (auto simp: batch_loop_ok_def accepted_pairs_snoc [OF len] nth_append)
qed


lemma stored_good:
  assumes "applyOwnedEvents H s stored = Inr t" "stored \<noteq> []"
    and "list_all (event_of_request (cb_RequestID b) (cb_RequestHash b) (cb_WorkflowID b)) stored"
    and "stored = cb_Events b \<or> stored = cloneEvents (cb_Events b)"
  shows "good_result H b \<lparr>rs_WorkflowID = cb_WorkflowID b, rs_Events = stored, rs_Duplicate = dup\<rparr>"
  using assms applyOwnedEvents_numbered [OF assms(1)] applyOwnedEvents_stamped [OF assms(1)]
  by (auto simp: good_result_def list_all_iff Let_def)

lemma batch_loop_step:
  assumes loop: "batch_loop_ok H owned batches l" and step: "apply_batch H e owned l b = Inr l'"
  shows "batch_loop_ok H owned (batches @ [b]) l'"
proof (cases "map_of (bl_requests l) (cb_RequestID b)")
  case (Some r)
  with step have "l' = l\<lparr>bl_applications := bl_applications l @
      [if rq_hash r \<noteq> cb_RequestHash b then \<lparr>ba_Result = zero_Result, ba_Conflict = True\<rparr>
       else \<lparr>ba_Result = (cloneResult (rq_result r))\<lparr>rs_Duplicate := True\<rparr>, ba_Conflict = False\<rparr>]\<rparr>"
    by (auto simp: apply_batch_def split: if_splits)
  then show ?thesis using batch_loop_refused [OF loop] by (simp add: accepted_answer_def)
next
  case None
  with step obtain found where found: "resolveRequest e (cb_RequestID b) = Inr found"
    by (auto simp: apply_batch_def result_simps split: if_splits)
  show ?thesis
  proof (cases found)
    case (Some r)
    with step None found have "l' = l\<lparr>bl_applications := bl_applications l @
        [if rq_hash r \<noteq> cb_RequestHash b then \<lparr>ba_Result = zero_Result, ba_Conflict = True\<rparr>
         else \<lparr>ba_Result = (cloneResult (rq_result r))\<lparr>rs_Duplicate := True\<rparr>, ba_Conflict = False\<rparr>]\<rparr>"
      by (auto simp: apply_batch_def split: if_splits)
    then show ?thesis using batch_loop_refused [OF loop] by (simp add: accepted_answer_def)
  next
    case fresh: None
    let ?stored = "if owned then cb_Events b else cloneEvents (cb_Events b)"
    let ?result = "\<lparr>rs_WorkflowID = cb_WorkflowID b, rs_Events = ?stored, rs_Duplicate = False\<rparr>"
    from step None found fresh obtain state t where ne: "cb_Events b \<noteq> []"
      and req: "list_all (event_of_request (cb_RequestID b) (cb_RequestHash b) (cb_WorkflowID b)) ?stored"
      and applied: "applyOwnedEvents H state ?stored = Inr (Some t)"
      and l': "l' = \<lparr>bl_states = put (cb_WorkflowID b) t (bl_states l),
        bl_requests = put (cb_RequestID b) \<lparr>rq_hash = cb_RequestHash b, rq_result = ?result\<rparr> (bl_requests l),
        bl_accepted = bl_accepted l @ [(cb_RequestID b, \<lparr>rq_hash = cb_RequestHash b, rq_result = ?result\<rparr>, length (bl_applications l))],
        bl_applications = bl_applications l @ [\<lparr>ba_Result = (if owned then ?result else cloneResult ?result), ba_Conflict = False\<rparr>]\<rparr>"
      by (simp add: apply_batch_def result_simps Let_def split: if_splits option.splits prod.splits) blast+
    have "good_result H b ?result"
      by (rule stored_good [OF applied _ req]) (use ne in \<open>auto simp: cloneEvents_def\<close>)
    moreover have "cb_RequestID b \<notin> set (keys (bl_requests l))" using None by (simp add: map_of_eq_None_iff)
    ultimately show ?thesis unfolding l' by (intro batch_loop_accepted [OF loop]) simp_all
  qed
qed


lemma batch_loop_all:
  assumes "foldE (apply_batch H e owned) \<lparr>bl_states = [], bl_requests = [], bl_accepted = [], bl_applications = []\<rparr> batches = Inr l"
  shows "batch_loop_ok H owned batches l"
  using assms
proof (induction batches arbitrary: l rule: rev_induct)
  case Nil
  then show ?case by (auto simp: batch_loop_ok_def answers_ok_def accepted_pairs_def)
next
  case (snoc b batches)
  then show ?case by (auto simp: result_simps intro: batch_loop_step)
qed

text \<open>Copying the results at the end changes only the copies.\<close>

definition copied :: "BatchApplication \<Rightarrow> BatchApplication \<Rightarrow> bool" where
  "copied a a' \<longleftrightarrow> a' = a \<or> a' = a\<lparr>ba_Result := cloneResult (ba_Result a)\<rparr>"

lemma owned_copies:
  assumes "\<forall>(requestID, r, index) \<in> set entries. index < length applications \<and> ba_Result (applications ! index) = rq_result r"
    and "list_all2 copied applications current"
  shows "list_all2 copied applications (fold (owned_copy e states) entries current)"
  using assms
proof (induction entries arbitrary: current)
  case (Cons entry entries)
  obtain requestID r index where entry: "entry = (requestID, r, index)" by (cases entry) auto
  with Cons.prems have i: "index < length applications" "ba_Result (applications ! index) = rq_result r" by auto
  have c: "copied (applications ! index) (current ! index)" "length current = length applications"
    using Cons.prems(2) i(1) by (auto simp: list_all2_conv_all_nth)
  then have "copied (applications ! index) ((current ! index)\<lparr>ba_Result := cloneResult (rq_result r)\<rparr>)"
    using i(2) by (auto simp: copied_def)
  then have "list_all2 copied applications (owned_copy e states entry current)"
    using Cons.prems(2) c(2) i(1)
    by (auto simp: owned_copy_def entry Let_def list_all2_conv_all_nth nth_list_update split: option.splits)
  then show ?case using Cons.IH Cons.prems(1) by simp
qed simp

lemma accepted_copied: "copied a a' \<Longrightarrow> accepted_answer a' = accepted_answer a"
  by (auto simp: copied_def accepted_answer_def cloneResult_def)

lemma answers_copied:
  assumes ok: "answers_ok H batches applications" and "list_all2 copied applications current"
  shows "answers_ok H batches current"
proof -
  note len = answers_length [OF ok]
  have "list_all2 (\<lambda>b a. accepted_answer a \<longrightarrow> good_result H b (ba_Result a)) batches current"
    using ok assms(2) len good_result_clone
    by (auto simp: answers_ok_def list_all2_conv_all_nth copied_def accepted_answer_def cloneResult_def)
  moreover have "map (cb_RequestID \<circ> fst) (accepted_pairs batches current) =
      map (cb_RequestID \<circ> fst) (accepted_pairs batches applications)"
    using assms(2) len unfolding accepted_pairs_def
  proof (induction applications current arbitrary: batches rule: list_all2_induct)
    case (Cons a as a' as')
    then show ?case by (cases batches) (auto dest: accepted_copied)
  qed simp
  ultimately show ?thesis using ok by (simp add: answers_ok_def)
qed

lemma applyBatches_answers:
  assumes "applyBatches H e batches owned = Inr (e', applications, states)"
  shows "answers_ok H batches applications"
proof -
  from assms obtain l where l: "foldE (apply_batch H e owned)
      \<lparr>bl_states = [], bl_requests = [], bl_accepted = [], bl_applications = []\<rparr> batches = Inr l"
    and apps: "applications = (if owned then fold (owned_copy e (bl_states l)) (bl_accepted l) (bl_applications l)
      else bl_applications l)"
    by (auto simp: applyBatches_def result_simps Let_def)
  have loop: "batch_loop_ok H owned batches l" by (rule batch_loop_all [OF l])
  then have ok: "answers_ok H batches (bl_applications l)" by (simp add: batch_loop_ok_def)
  show ?thesis
  proof (cases owned)
    case True
    have "list_all2 copied (bl_applications l) (bl_applications l)" by (simp add: list_all2_refl copied_def)
    then have "list_all2 copied (bl_applications l) applications"
      using loop True unfolding apps by (simp, intro owned_copies) (auto simp: batch_loop_ok_def)
    from answers_copied [OF ok this] show ?thesis .
  qed (use ok apps in simp)
qed

lemma apply_to_engine_answers:
  assumes "apply_to_engine E s owned commands = Inr (e, applications, states)"
  shows "answers_ok (io_digest E) commands applications"
proof -
  have "\<exists>e' states'. applyBatches (io_digest E) (attached E s (so_engine s)) commands owned = Inr (e', applications, states')"
    using assms
    by (cases owned)
      (auto simp: apply_to_engine_def core_result_def ApplyCommittedBatches_def ApplyBatches_def result_simps
        split: sum.splits)
  then show ?thesis using applyBatches_answers by blast
qed

section \<open>The accepted applications\<close>

definition accepted_item :: "(ApplicationEntry \<times> CommandBatch) \<times> BatchApplication \<Rightarrow> acceptedApplication" where
  "accepted_item x = \<lparr>aa_entry = fst (fst x), aa_batch = snd (fst x), aa_result = ba_Result (snd x)\<rparr>"

definition accepted_outcome :: "Outcome \<Rightarrow> bool" where
  "accepted_outcome outcome \<longleftrightarrow> oc_Code outcome = '''' \<and> \<not> rs_Duplicate (oc_Result outcome)"

definition item_outcome :: "acceptedApplication \<Rightarrow> Outcome" where
  "item_outcome item = base_outcome (aa_entry item) (aa_batch item) (aa_result item)"

lemma settle_all:
  assumes "foldE (settle E s) ([], []) items = Inr (outcomes, accepted)"
  shows "accepted = map accepted_item (filter (accepted_answer \<circ> snd) items) \<and>
    filter accepted_outcome outcomes = map item_outcome accepted"
  using assms
proof (induction items arbitrary: outcomes accepted rule: rev_induct)
  case (snoc x items)
  obtain entry command a where x: "x = ((entry, command), a)" by (cases x) auto
  from snoc.prems obtain os acc where before: "foldE (settle E s) ([], []) items = Inr (os, acc)"
    and step: "settle E s (os, acc) x = Inr (outcomes, accepted)"
    by (auto simp: result_simps)
  note IH = snoc.IH [OF before]
  consider "ba_Conflict a" | "\<not> ba_Conflict a" "rs_Duplicate (ba_Result a)" | "accepted_answer a"
    by (auto simp: accepted_answer_def)
  then show ?case
  proof cases
    case 1
    with step have "accepted = acc" "outcomes = os @ [(base_outcome entry command (ba_Result a))
        \<lparr>oc_Code := ''request_conflict'', oc_Message := request_conflict_message\<rparr>]"
      by (auto simp: settle_def x Let_def)
    with IH 1 show ?thesis by (simp add: x accepted_answer_def accepted_outcome_def)
  next
    case 2
    with step obtain i j where "accepted = acc" "outcomes = os @ [(base_outcome entry command (ba_Result a))
        \<lparr>oc_AppliedIndex := i, oc_CommittedTerm := j\<rparr>]"
      by (auto simp: settle_def x Let_def result_simps)
    with IH 2 show ?thesis by (simp add: x accepted_answer_def accepted_outcome_def base_outcome_def)
  next
    case 3
    with step have "accepted = acc @ [accepted_item x]" "outcomes = os @ [base_outcome entry command (ba_Result a)]"
      by (auto simp: settle_def x Let_def accepted_answer_def accepted_item_def)
    with IH 3 show ?thesis
      by (simp add: x accepted_item_def item_outcome_def accepted_outcome_def accepted_answer_def base_outcome_def)
  qed
qed simp


lemma accepted_items:
  assumes ok: "answers_ok H (map snd commands) applications"
    and accepted: "accepted = map accepted_item (filter (accepted_answer \<circ> snd) (zip commands applications))"
  shows "distinct (map (cb_RequestID \<circ> aa_batch) accepted)"
    and "item \<in> set accepted \<Longrightarrow> good_result H (aa_batch item) (aa_result item)"
    and "item \<in> set accepted \<Longrightarrow> \<not> rs_Duplicate (aa_result item)"
    and "item \<in> set accepted \<Longrightarrow> (aa_entry item, aa_batch item) \<in> set commands"
proof -
  have len: "length commands = length applications" using answers_length [OF ok] by simp
  have "accepted_pairs (map snd commands) applications =
      map (\<lambda>x. (snd (fst x), snd x)) (filter (accepted_answer \<circ> snd) (zip commands applications))"
    by (simp add: accepted_pairs_def zip_map1 filter_map comp_def case_prod_unfold)
  then have "map (cb_RequestID \<circ> fst) (accepted_pairs (map snd commands) applications) = map (cb_RequestID \<circ> aa_batch) accepted"
    by (simp add: accepted accepted_item_def comp_def)
  with ok show "distinct (map (cb_RequestID \<circ> aa_batch) accepted)" by (simp add: answers_ok_def)
  show "good_result H (aa_batch item) (aa_result item)" "\<not> rs_Duplicate (aa_result item)"
    "(aa_entry item, aa_batch item) \<in> set commands" if item: "item \<in> set accepted"
  proof -
    from item obtain i where i: "i < length commands" "accepted_answer (applications ! i)"
      "item = accepted_item (commands ! i, applications ! i)"
      using len by (auto simp: accepted set_zip)
    then show "(aa_entry item, aa_batch item) \<in> set commands" by (simp add: accepted_item_def)
    from i(2) show "\<not> rs_Duplicate (aa_result item)" by (simp add: i(3) accepted_item_def accepted_answer_def)
    from ok i len show "good_result H (aa_batch item) (aa_result item)"
      by (auto simp: answers_ok_def list_all2_conv_all_nth accepted_item_def)
  qed
qed

section \<open>What the batch leaves under a prefix\<close>

definition sets :: "(bytes \<times> bytes) list \<Rightarrow> write_op list" where
  "sets kvs = map (\<lambda>kv. OpSet (fst kv) (snd kv)) kvs"

definition avoids :: "char \<Rightarrow> write_op list \<Rightarrow> bool" where
  "avoids b ops \<longleftrightarrow> (\<forall>op \<in> set ops. \<forall>k. touches op k \<longrightarrow> \<not> prefix [b] k)"

lemma avoids_simps [simp]:
  "avoids b []" "avoids b (ops @ ops') \<longleftrightarrow> avoids b ops \<and> avoids b ops'"
  "avoids b (op # ops) \<longleftrightarrow> (\<forall>k. touches op k \<longrightarrow> \<not> prefix [b] k) \<and> avoids b ops"
  by (auto simp: avoids_def)

lemma run_ops_focus:
  assumes "avoids b X" "avoids b Y" "prefix [b] k"
  shows "run_ops (X @ R @ Y) m k = run_ops R m k"
proof -
  have un: "run_ops ops m' k = m' k" if "avoids b ops" for ops m'
    using that assms(3) by (intro run_ops_untouched) (auto simp: avoids_def)
  have "run_ops (X @ R @ Y) m k = run_ops R (run_ops X m) k" using un [OF assms(2)] by simp
  also have "\<dots> = run_ops R m k" by (rule run_ops_pointwise) (rule un [OF assms(1)])
  finally show ?thesis .
qed

lemma avoids_sets: "keys_in (\<lambda>k. \<not> prefix [b] k) (map Inr kvs) \<Longrightarrow> avoids b (sets kvs)"
  by (fastforce simp: avoids_def sets_def keys_in_def)

lemma staged:
  assumes "stageEncodedSets ops rs = Inr ops'"
  obtains kvs where "rs = map Inr kvs" "ops' = ops @ sets kvs"
  using stageEncodedSets_Inr [OF assms] by (auto simp: sets_def)

text \<open>The first byte of each kind of key.\<close>

lemma key_prefixes [simp]:
  "prefix [b] (segmentedKey c parts) \<longleftrightarrow> b = c" "prefix [b] (numberKey c i) \<longleftrightarrow> b = c"
  "prefix [b] (materializedSegmentKey c w i) \<longleftrightarrow> b = c" "prefix [b] appliedKey \<longleftrightarrow> b = CHR 0x01"
  by (auto simp: segmentedKey_def numberKey_def materializedSegmentKey_def appliedKey_def)

lemma encoded_prefixes:
  "b \<noteq> CHR 0x03 \<Longrightarrow> keys_in (\<lambda>k. \<not> prefix [b] k) (encodeApplicationEntries E procs entries workers)"
  "b \<noteq> CHR 0x04 \<Longrightarrow> keys_in (\<lambda>k. \<not> prefix [b] k) (encodeAcceptedReceipts procs items states workers)"
  "b \<noteq> CHR 0x08 \<Longrightarrow> keys_in (\<lambda>k. \<not> prefix [b] k) (encodeEventSegments E procs segments workers)"
  "b \<noteq> CHR 0x05 \<Longrightarrow> keys_in (\<lambda>k. \<not> prefix [b] k) (encodeTaskResultSegments E procs tasks workers)"
  "b \<noteq> CHR 0x06 \<Longrightarrow> keys_in (\<lambda>k. \<not> prefix [b] k) (encodeWorkflowStates E procs ids states workers)"
  "b \<noteq> CHR 0x07 \<Longrightarrow> keys_in (\<lambda>k. \<not> prefix [b] k) (encodeApplicationOutcomes E procs outcomes workers)"
  "b \<noteq> CHR 0x01 \<Longrightarrow> keys_in (\<lambda>k. \<not> prefix [b] k) [encodeAppliedState E entry]"
  by (auto simp: keys_in_def encodeApplicationEntries_def encodeAcceptedReceipts_def encodeEventSegments_def
      encodeTaskResultSegments_def encodeWorkflowStates_def encodeApplicationOutcomes_def encodeAppliedState_def
      parallelEncode_map Let_def encode_receipt_def encode_state_def result_simps
      eq_commute [of "Inr x" "bindE r f" for x r f] split: if_splits option.splits)

lemma stage_state_avoids:
  assumes "stage_state E states requests resident ops (r, i) = Inr ops'" "keys_in (\<lambda>k. \<not> prefix [b] k) [r]"
    and b: "b \<noteq> CHR 0x09" "b \<noteq> CHR 0x0A"
  shows "\<exists>W. ops' = ops @ W \<and> avoids b W"
proof -
  from assms(1) obtain st where st: "stageEncodedSets ops [r] = Inr st"
    and rest: "(case map_of states i of
        None \<Rightarrow> Inl StoreFault
      | Some state \<Rightarrow>
          if activeWorkflow (wf_Status state)
          then Inr (st @ OpSet (segmentedKey (CHR 0x09) [i]) activeWorkflowValue #
                 map (\<lambda>requestID. OpSet (segmentedKey (CHR 0x0A) [i, requestID]) activeWorkflowValue) (or_zero [] requests i))
          else if or_zero False resident i
          then Inr (st @ [OpDelete (segmentedKey (CHR 0x09) [i]),
                 OpDeleteRange (segmentedKey (CHR 0x0A) [i]) (prefixUpper (segmentedKey (CHR 0x0A) [i]))])
          else Inr st) = Inr ops'"
    by (auto simp: stage_state_def result_simps)
  from st obtain kvs where kvs: "[r] = map Inr kvs" "st = ops @ sets kvs" by (rule staged)
  have "avoids b (sets kvs)" using assms(2) avoids_sets [of b kvs] kvs(1) by simp
  moreover have "avoids b (map (\<lambda>requestID. OpSet (segmentedKey (CHR 0x0A) [i, requestID]) activeWorkflowValue) xs)" for xs
    using b by (auto simp: avoids_def)
  moreover have "\<not> prefix [b] k" if "prefix (segmentedKey (CHR 0x0A) [i]) k" for k
    using that b(2) by (auto simp: segmentedKey_def prefix_def)
  ultimately show ?thesis using rest b
    by (auto simp: kvs(2) in_range_prefixUpper split: option.splits if_splits)
qed


lemma stage_states_avoids:
  assumes fold: "foldE (stage_state E states requests resident) ops (zip (encodeWorkflowStates E procs ids states workers) ids) = Inr ops'"
    and b: "b \<noteq> CHR 0x06" "b \<noteq> CHR 0x09" "b \<noteq> CHR 0x0A"
  shows "\<exists>W. ops' = ops @ W \<and> avoids b W"
proof (rule foldE_keeps [OF fold])
  show "\<exists>W. ops = ops @ W \<and> avoids b W" by (intro exI [of _ "[]"]) simp
  fix cur item nxt
  assume item: "item \<in> set (zip (encodeWorkflowStates E procs ids states workers) ids)"
    and cur: "\<exists>W. cur = ops @ W \<and> avoids b W" and step: "stage_state E states requests resident cur item = Inr nxt"
  obtain r i where ri: "item = (r, i)" by (cases item)
  with item have "r \<in> set (encodeWorkflowStates E procs ids states workers)" by (auto dest: set_zip_leftD)
  then have "keys_in (\<lambda>k. \<not> prefix [b] k) [r]" using encoded_prefixes(5) [OF b(1), of E procs ids states workers] by (simp add: keys_in_def)
  from stage_state_avoids [OF step [unfolded ri] this b(2,3)] cur show "\<exists>W. nxt = ops @ W \<and> avoids b W" by auto
qed

lemma plan_application_view:
  assumes "plan_application E procs workers entries outcomes accepted states resident = Inr ops"
  obtains segments tasks rkvs skvs where
    "buildAcceptedSegments (io_digest E) accepted states = Inr (segments, tasks)"
    "encodeAcceptedReceipts procs accepted states workers = map Inr rkvs"
    "encodeEventSegments E procs segments workers = map Inr skvs"
    "\<forall>m k. prefix [CHR 0x04] k \<longrightarrow> run_ops ops m k = run_ops (sets rkvs) m k"
    "\<forall>m k. prefix [CHR 0x08] k \<longrightarrow> run_ops ops m k = run_ops (sets skvs) m k"
proof -
  let ?ids = "sort (keys states)"
  from assms obtain a b c d e f segments tasks where
    a: "stageEncodedSets [] (encodeApplicationEntries E procs entries workers) = Inr a"
    and b: "stageEncodedSets a (encodeAcceptedReceipts procs accepted states workers) = Inr b"
    and seg: "buildAcceptedSegments (io_digest E) accepted states = Inr (segments, tasks)"
    and c: "stageEncodedSets b (encodeEventSegments E procs segments workers) = Inr c"
    and d: "stageEncodedSets c (encodeTaskResultSegments E procs tasks workers) = Inr d"
    and e: "foldE (stage_state E states (fold (note_request states) accepted []) resident) d
        (zip (encodeWorkflowStates E procs ?ids states workers) ?ids) = Inr e"
    and f: "stageEncodedSets e (encodeApplicationOutcomes E procs outcomes workers) = Inr f"
    and g: "stageEncodedSets f [encodeAppliedState E (last entries)] = Inr ops"
    by (auto simp: plan_application_def Let_def result_simps)
  obtain akvs where A: "encodeApplicationEntries E procs entries workers = map Inr akvs" "a = [] @ sets akvs" by (rule staged [OF a])
  obtain rkvs where R: "encodeAcceptedReceipts procs accepted states workers = map Inr rkvs" "b = a @ sets rkvs" by (rule staged [OF b])
  obtain skvs where S: "encodeEventSegments E procs segments workers = map Inr skvs" "c = b @ sets skvs" by (rule staged [OF c])
  obtain tkvs where T: "encodeTaskResultSegments E procs tasks workers = map Inr tkvs" "d = c @ sets tkvs" by (rule staged [OF d])
  obtain okvs where O: "encodeApplicationOutcomes E procs outcomes workers = map Inr okvs" "f = e @ sets okvs" by (rule staged [OF f])
  obtain pkvs where P: "[encodeAppliedState E (last entries)] = map Inr pkvs" "ops = f @ sets pkvs" by (rule staged [OF g])
  have av: "b \<noteq> CHR 0x03 \<Longrightarrow> avoids b (sets akvs)" "b \<noteq> CHR 0x04 \<Longrightarrow> avoids b (sets rkvs)"
    "b \<noteq> CHR 0x08 \<Longrightarrow> avoids b (sets skvs)" "b \<noteq> CHR 0x05 \<Longrightarrow> avoids b (sets tkvs)"
    "b \<noteq> CHR 0x07 \<Longrightarrow> avoids b (sets okvs)" "b \<noteq> CHR 0x01 \<Longrightarrow> avoids b (sets pkvs)" for b
    using encoded_prefixes [of b] by (metis A(1) R(1) S(1) T(1) O(1) P(1) avoids_sets)+
  have four: "run_ops ops m k = run_ops (sets rkvs) m k" if "prefix [CHR 0x04] k" for m k
  proof -
    obtain W where "e = d @ W" "avoids (CHR 0x04) W" using stage_states_avoids [OF e, of "CHR 0x04"] by auto
    then show ?thesis
      using run_ops_focus [of "CHR 0x04" "sets akvs" "sets skvs @ sets tkvs @ W @ sets okvs @ sets pkvs"] that av [of "CHR 0x04"]
      by (simp add: A R S T O P del: run_ops_simps)
  qed
  have eight: "run_ops ops m k = run_ops (sets skvs) m k" if "prefix [CHR 0x08] k" for m k
  proof -
    obtain W where "e = d @ W" "avoids (CHR 0x08) W" using stage_states_avoids [OF e, of "CHR 0x08"] by auto
    then show ?thesis
      using run_ops_focus [of "CHR 0x08" "sets akvs @ sets rkvs" "sets tkvs @ W @ sets okvs @ sets pkvs"] that av [of "CHR 0x08"]
      by (simp add: A R S T O P del: run_ops_simps)
  qed
  show thesis by (rule that [OF seg R(1) S(1)]) (use four eight in blast)+
qed


lemma plan_application_applied:
  assumes "plan_application E procs workers entries outcomes accepted states resident = Inr ops"
  obtains data where
    "encodeJSON (io_snappy E) (io_appliedState E) \<lparr>as_Index = ae_Index (last entries), as_Term = ae_Term (last entries)\<rparr> = Inr data"
    "\<forall>m. run_ops ops m appliedKey = Some data"
proof -
  from assms obtain f where g: "stageEncodedSets f [encodeAppliedState E (last entries)] = Inr ops"
    by (auto simp: plan_application_def Let_def result_simps)
  obtain pkvs where P: "[encodeAppliedState E (last entries)] = map Inr pkvs" "ops = f @ sets pkvs" by (rule staged [OF g])
  then obtain k v where kv: "pkvs = [(k, v)]" "encodeAppliedState E (last entries) = Inr (k, v)" by (cases pkvs) auto
  then show thesis by (intro that [of v]) (auto simp: P(2) sets_def encodeAppliedState_def)
qed

section \<open>Reading a receipt back\<close>

lemma sets_lookup:
  assumes "map f xs = map Inr kvs" "x \<in> set xs" "f x = Inr (key x, data)"
    and "\<And>y k v. y \<in> set xs \<Longrightarrow> f y = Inr (k, v) \<Longrightarrow> k = key y" and "distinct (map key xs)"
  shows "run_ops (sets kvs) m (key x) = Some data"
proof -
  have eq: "kvs = map (\<lambda>y. (key y, snd (projr (f y)))) xs"
    using assms(1,4)
  proof (induction xs arbitrary: kvs)
    case (Cons y ys)
    then obtain kv rest where kvs: "kvs = kv # rest" "f y = Inr kv" "map f ys = map Inr rest" by (cases kvs) auto
    have "rest = map (\<lambda>y. (key y, snd (projr (f y)))) ys"
      by (rule Cons.IH [OF kvs(3)]) (use Cons.prems(2) in auto)
    moreover have "fst kv = key y" using Cons.prems(2) [of y "fst kv" "snd kv"] kvs(2) by simp
    ultimately show ?case using kvs by (cases kv) simp
  qed simp
  have "sets kvs = map (\<lambda>y. OpSet (key y) (snd (projr (f y)))) xs" by (simp add: sets_def eq)
  with run_ops_sets [OF assms(5,2), of "\<lambda>y. snd (projr (f y))" m] assms(3) show ?thesis by simp
qed

lemma length_receipt_body:
  assumes "short32 (rc_RequestID r)" "short32 (rc_RequestHash r)" "short32 (rc_WorkflowID r)"
  shows "length (receiptMagic @ receipt_body r) < 2 ^ 64"
proof -
  have "length (AppendUvarint v) \<le> 10" for v using length_AppendUvarint [of v] by (simp add: MaxVarintLen64_def)
  from this [of "ucast (rc_Version r)"] this [of "rc_AppliedIndex r"] this [of "rc_CommittedTerm r"]
    this [of "rc_FirstSequence r"] this [of "rc_LastSequence r"] this [of "of_nat (length (rc_RequestID r))"]
    this [of "of_nat (length (rc_RequestHash r))"] this [of "of_nat (length (rc_WorkflowID r))"] assms
  show ?thesis by (simp add: receipt_body_def short32_def receiptMagic_def)
qed

definition short_ids :: "CommandBatch \<Rightarrow> bool" where
  "short_ids batch \<longleftrightarrow> short32 (cb_RequestID batch) \<and> short32 (cb_RequestHash batch) \<and> short32 (cb_WorkflowID batch)"

lemma good_receipt_ok:
  "good_result H (aa_batch item) (aa_result item) \<Longrightarrow> receipt_ok H (accepted_receipt item)"
  by (auto simp: good_result_def receipt_ok_def accepted_receipt_def event_of_request_def Let_def)

lemma encoded_receipt:
  assumes "encode_receipt states item = Inr (k, data)" "good_result H (aa_batch item) (aa_result item)" "short_ids (aa_batch item)"
  obtains r where "k = segmentedKey (CHR 0x04) [cb_RequestID (aa_batch item)]"
    "compactReceipt (accepted_receipt item) = Inr r" "\<forall>S J. decodeReceiptRecord S J data = Inr r"
proof -
  from assms(1) obtain r where r: "k = segmentedKey (CHR 0x04) [cb_RequestID (aa_batch item)]"
    "compactReceipt (accepted_receipt item) = Inr r" "encodeReceiptRecord r = Inr data"
    by (auto simp: encode_receipt_def result_simps split: if_splits)
  note f = compactReceipt_Inr [OF r(2)]
  have "short32 (rc_RequestID r)" "short32 (rc_RequestHash r)" "short32 (rc_WorkflowID r)"
    using f(2,3,6) assms(2,3) by (simp_all add: accepted_receipt_def short_ids_def good_result_def)
  from length_receipt_body [OF this] r(3) have "length data < 2 ^ 64"
    by (auto simp: encodeReceiptRecord_body split: if_splits)
  from decode_encodeReceiptRecord [OF r(3) this] r(1,2) show thesis by (intro that) simp_all
qed

text \<open>The sources of the segments, one for each accepted item.\<close>

lemma gathered:
  assumes "foldE (gather_item states) ([], []) items = Inr (sources, results)"
  shows "sources = map (\<lambda>item. \<lparr>sr_workflowID = cb_WorkflowID (aa_batch item), sr_appliedIndex = ae_Index (aa_entry item),
    sr_events = rs_Events (aa_result item)\<rparr>) items"
  using assms
proof (induction items arbitrary: sources results rule: rev_induct)
  case (snoc item items)
  then obtain srcs rs where before: "foldE (gather_item states) ([], []) items = Inr (srcs, rs)"
    and step: "gather_item states (srcs, rs) item = Inr (sources, results)" by (auto simp: result_simps)
  from step snoc.IH [OF before] show ?case by (auto simp: gather_item_def Let_def result_simps split: option.splits)
qed simp


lemma grouped_from:
  assumes "foldE group_source [] sources = Inr groups" "(i, events) \<in> set groups"
  shows "set events \<subseteq> (\<Union>source \<in> set sources. set (sr_events source))"
  using assms
proof (induction sources arbitrary: groups i events rule: rev_induct)
  case (snoc source sources)
  then obtain before where before: "foldE group_source [] sources = Inr before"
    and step: "group_source before source = Inr groups" by (auto simp: result_simps)
  from step have groups: "groups = put (source_id source) (or_zero [] before (source_id source) @ sr_events source) before"
    by (auto simp: group_source_def source_id_def Let_def split: if_splits)
  have "map_of groups i = Some events" using snoc.prems grouped [OF snoc.prems(1)] by (simp add: gomap_def)
  then have "map_of before i = Some events \<or> i = source_id source \<and> events = or_zero [] before i @ sr_events source"
    by (auto simp: groups split: if_splits)
  moreover have "set (or_zero [] before i) \<subseteq> (\<Union>source \<in> set sources. set (sr_events source))"
  proof (cases "map_of before i")
    case (Some es)
    with snoc.IH [OF before map_of_SomeD [OF Some]] show ?thesis by (simp add: or_zero_def)
  qed (simp add: or_zero_def)
  moreover have "set events \<subseteq> (\<Union>source \<in> set sources. set (sr_events source))" if "map_of before i = Some events"
    using snoc.IH [OF before map_of_SomeD [OF that]] .
  ultimately show ?case by auto
qed simp

lemma built_from:
  assumes "buildEventSegments H sources complete = Inr segments" "segment \<in> set segments"
  shows "set (sg_Events segment) \<subseteq> (\<Union>source \<in> set sources. set (sr_events source))"
proof -
  from assms(1) obtain groups where g: "foldE group_source [] sources = Inr groups"
    "segments = sort_segments (map make_segment groups)" by (rule buildEventSegments_Inr)
  from assms(2) obtain grp where grp: "grp \<in> set groups" "segment = make_segment grp"
    by (auto simp: g(2) sort_segments_def)
  then show ?thesis using grouped_from [OF g(1), of "fst grp" "snd grp"] by simp
qed

lemma segment_keys_distinct:
  assumes "distinct (map segment_id segments)" "\<And>segment. segment \<in> set segments \<Longrightarrow> short32 (sg_WorkflowID segment)"
  shows "distinct (map (\<lambda>segment. materializedSegmentKey b (sg_WorkflowID segment) (sg_AppliedIndex segment)) segments)"
  using assms materializedSegmentKey_inj by (fastforce simp: distinct_map inj_on_def segment_id_def)

text \<open>The events that a batch of entries may write: those of its commands and their copies.\<close>

definition entry_events :: "ApplicationEntry list \<Rightarrow> Event set" where
  "entry_events entries =
     (\<Union>entry \<in> set entries. \<Union>batch \<in> set (ae_Batches entry). set (cb_Events batch) \<union> set (cloneEvents (cb_Events batch)))"

definition segments_encode :: "'db storage_env \<Rightarrow> ApplicationEntry list \<Rightarrow> bool" where
  "segments_encode E entries \<longleftrightarrow>
     (\<forall>segment. validEventSegment (io_digest E) segment \<and> set (sg_Events segment) \<subseteq> entry_events entries \<longrightarrow>
        json_ok (io_eventSegment E) segment)"

definition item_ok :: "digest \<Rightarrow> ApplicationEntry list \<Rightarrow> acceptedApplication \<Rightarrow> bool" where
  "item_ok H entries item \<longleftrightarrow>
     good_result H (aa_batch item) (aa_result item) \<and> short_ids (aa_batch item) \<and>
     (aa_entry item, aa_batch item) \<in> set (entry_commands entries)"

lemma item_events:
  assumes "item_ok H entries item"
  shows "set (rs_Events (aa_result item)) \<subseteq> entry_events entries"
proof -
  have "aa_entry item \<in> set entries" "aa_batch item \<in> set (ae_Batches (aa_entry item))"
    using assms by (auto simp: item_ok_def entry_commands_def)
  moreover have "rs_Events (aa_result item) = cb_Events (aa_batch item) \<or> rs_Events (aa_result item) = cloneEvents (cb_Events (aa_batch item))"
    using assms by (simp add: item_ok_def good_result_def)
  ultimately show ?thesis unfolding entry_events_def by fastforce
qed

text \<open>The segment of a source is found under its key, and holds the events of the source.\<close>

lemma source_readable:
  assumes P: "pebble_ok (io_pebble E) view" and S: "snappy_ok (io_snappy E)"
    and segs: "buildEventSegments (io_digest E) sources complete = Inr segments"
    and enc: "encodeEventSegments E procs segments workers = map Inr skvs"
    and view: "\<And>k. prefix [CHR 0x08] k \<Longrightarrow> view (so_db t) k = run_ops (sets skvs) m k"
    and J: "\<And>segment. validEventSegment (io_digest E) segment \<Longrightarrow>
      set (sg_Events segment) \<subseteq> (\<Union>source \<in> set sources. set (sr_events source)) \<Longrightarrow> json_ok (io_eventSegment E) segment"
    and short: "\<And>source. source \<in> set sources \<Longrightarrow> short32 (sr_workflowID source)" and source: "source \<in> set sources"
  shows "\<exists>segment. find_segment E t (materializedSegmentKey (CHR 0x08) (sr_workflowID source) (sr_appliedIndex source)) None =
      Inr (segment, None) \<and> validEventSegment (io_digest E) segment \<and>
    set (sr_events source) \<subseteq> set (sg_Events segment)"
proof -
  let ?key = "\<lambda>segment. materializedSegmentKey (CHR 0x08) (sg_WorkflowID segment) (sg_AppliedIndex segment)"
  from built_holds [OF segs source] obtain segment where segment: "segment \<in> set segments"
    "segment_id segment = source_id source" "set (sr_events source) \<subseteq> set (sg_Events segment)" by blast
  have id: "sg_WorkflowID segment = sr_workflowID source" "sg_AppliedIndex segment = sr_appliedIndex source"
    using segment(2) by (simp_all add: segment_id_def source_id_def)
  have valid: "validEventSegment (io_digest E) segment" by (rule built_valid [OF segs segment(1)])
  have short_seg: "short32 (sg_WorkflowID g)" if "g \<in> set segments" for g
  proof -
    have "segment_id g \<in> source_id ` set sources" unfolding built_ids [OF segs, symmetric] using that by simp
    with short show ?thesis by (auto simp: segment_id_def source_id_def)
  qed
  have "json_ok (io_eventSegment E) segment" by (rule J [OF valid built_from [OF segs segment(1)]])
  from decode_encodeJSON [OF this S] obtain data where
    data: "encodeJSON (io_snappy E) (io_eventSegment E) segment = Inr data"
    "decodeJSON (io_snappy E) (io_eventSegment E) data = Inr segment" by blast
  have "run_ops (sets skvs) m (?key segment) = Some data"
  proof (rule sets_lookup [where f = "\<lambda>g. encodeSet E (io_eventSegment E) (?key g) g" and key = ?key])
    show "map (\<lambda>g. encodeSet E (io_eventSegment E) (?key g) g) segments = map Inr skvs"
      using enc parallelEncode_list [of procs segments workers "\<lambda>g. encodeSet E (io_eventSegment E) (?key g) g"]
      by (simp add: encodeEventSegments_def Let_def)
    show "distinct (map ?key segments)" by (rule segment_keys_distinct [OF built_distinct [OF segs] short_seg])
  qed (use data segment(1) in simp_all)
  then have "get E t (?key segment) = Inr (Some data)" using view [of "?key segment"] by (simp add: get_def pebble_get [OF P])
  then have "find_segment E t (?key segment) None = Inr (segment, None)"
    using data(2) valid by (simp add: find_segment_def decodeEventSegment_def)
  with valid segment(3) show ?thesis unfolding id by blast
qed

lemma segment_readable:
  assumes P: "pebble_ok (io_pebble E) view" and S: "snappy_ok (io_snappy E)" and J: "segments_encode E entries"
    and build: "buildAcceptedSegments (io_digest E) accepted states = Inr (segments, tasks)"
    and enc: "encodeEventSegments E procs segments workers = map Inr skvs"
    and view: "\<And>k. prefix [CHR 0x08] k \<Longrightarrow> view (so_db t) k = run_ops (sets skvs) m k"
    and items: "\<And>item. item \<in> set accepted \<Longrightarrow> item_ok (io_digest E) entries item" and item: "item \<in> set accepted"
  shows "\<exists>segment. find_segment E t (materializedSegmentKey (CHR 0x08) (cb_WorkflowID (aa_batch item)) (ae_Index (aa_entry item))) None =
      Inr (segment, None) \<and> validEventSegment (io_digest E) segment \<and>
    set (rs_Events (aa_result item)) \<subseteq> set (sg_Events segment)"
proof -
  let ?source = "\<lambda>item. \<lparr>sr_workflowID = cb_WorkflowID (aa_batch item), sr_appliedIndex = ae_Index (aa_entry item),
    sr_events = rs_Events (aa_result item)\<rparr>"
  from build obtain sources results where "foldE (gather_item states) ([], []) accepted = Inr (sources, results)"
    and segs: "buildEventSegments (io_digest E) sources False = Inr segments"
    by (auto simp: buildAcceptedSegments_def result_simps)
  then have sources: "sources = map ?source accepted" using gathered by blast
  have "(\<Union>source \<in> set sources. set (sr_events source)) \<subseteq> entry_events entries"
    using items item_events by (fastforce simp: sources)
  then have enc_ok: "json_ok (io_eventSegment E) segment" if "validEventSegment (io_digest E) segment"
      "set (sg_Events segment) \<subseteq> (\<Union>source \<in> set sources. set (sr_events source))" for segment
    using J that by (auto simp: segments_encode_def)
  have short: "short32 (sr_workflowID source)" if "source \<in> set sources" for source
    using that items by (auto simp: sources item_ok_def short_ids_def)
  have "?source item \<in> set sources" using item by (simp add: sources)
  from source_readable [OF P S segs enc view enc_ok short this] show ?thesis by simp
qed

lemma receipt_readable:
  assumes P: "pebble_ok (io_pebble E) view" and S: "snappy_ok (io_snappy E)" and J: "segments_encode E entries"
    and plan: "plan_application E procs workers entries outcomes accepted states resident = Inr ops"
    and db: "view (so_db t) = run_ops ops m"
    and items: "\<And>item. item \<in> set accepted \<Longrightarrow> item_ok (io_digest E) entries item" and item: "item \<in> set accepted"
    and dist: "distinct (map (cb_RequestID \<circ> aa_batch) accepted)" and applied: "ae_Index (aa_entry item) \<le> so_applied t"
  shows "loadReceipt E t (cb_RequestID (aa_batch item)) = Inr (Some (accepted_receipt item)) \<and> cb_RequestID (aa_batch item) \<noteq> ''''"
proof -
  let ?key = "\<lambda>item. segmentedKey (CHR 0x04) [cb_RequestID (aa_batch item)]"
  obtain segments tasks rkvs skvs where build: "buildAcceptedSegments (io_digest E) accepted states = Inr (segments, tasks)"
    and r: "encodeAcceptedReceipts procs accepted states workers = map Inr rkvs"
    and s: "encodeEventSegments E procs segments workers = map Inr skvs"
    and v: "\<forall>m k. prefix [CHR 0x04] k \<longrightarrow> run_ops ops m k = run_ops (sets rkvs) m k"
      "\<forall>m k. prefix [CHR 0x08] k \<longrightarrow> run_ops ops m k = run_ops (sets skvs) m k"
    by (rule plan_application_view [OF plan])
  have enc: "map (encode_receipt states) accepted = map Inr rkvs" using r by (simp add: encodeAcceptedReceipts_def)
  have good: "good_result (io_digest E) (aa_batch item) (aa_result item)" "short_ids (aa_batch item)"
    using items [OF item] by (simp_all add: item_ok_def)
  from enc item obtain k data where kd: "encode_receipt states item = Inr (k, data)"
    by (metis (no_types, lifting) in_set_conv_nth length_map nth_map surj_pair)
  obtain rec where k: "k = ?key item" and rec: "compactReceipt (accepted_receipt item) = Inr rec"
    "\<forall>S J. decodeReceiptRecord S J data = Inr rec"
    by (rule encoded_receipt [OF kd good])
  have inj: "inj_on ?key (set accepted)"
  proof (rule inj_onI)
    fix x y
    assume xy: "x \<in> set accepted" "y \<in> set accepted" "?key x = ?key y"
    then have "cb_RequestID (aa_batch x) = cb_RequestID (aa_batch y)"
      using items [OF xy(1)] items [OF xy(2)] segmentedKey_inj [OF _ _ xy(3)] by (simp add: item_ok_def short_ids_def)
    with dist xy show "x = y" by (auto simp: distinct_map inj_on_def)
  qed
  have "run_ops (sets rkvs) m (?key item) = Some data"
  proof (rule sets_lookup [OF enc item, where key = ?key])
    show "encode_receipt states item = Inr (?key item, data)" using kd k by simp
    show "k = ?key y" if "encode_receipt states y = Inr (k, v)" for y k v
      using that by (auto simp: encode_receipt_def result_simps split: if_splits)
    show "distinct (map ?key accepted)" using inj dist by (simp add: distinct_map)
  qed
  then have got: "get E t (?key item) = Inr (Some data)"
    using v(1) by (simp add: get_def pebble_get [OF P] db)
  note f = compactReceipt_Inr [OF rec(1)]
  have ids: "rc_RequestID rec = cb_RequestID (aa_batch item)" "rc_WorkflowID rec = cb_WorkflowID (aa_batch item)"
    "rc_AppliedIndex rec = ae_Index (aa_entry item)"
    using f(2,4,6) good(1) by (simp_all add: accepted_receipt_def good_result_def)
  have "\<And>k. prefix [CHR 0x08] k \<Longrightarrow> view (so_db t) k = run_ops (sets skvs) m k" using v(2) by (simp add: db)
  from segment_readable [OF P S J build s this items item] obtain segment where
    seg: "find_segment E t (materializedSegmentKey (CHR 0x08) (cb_WorkflowID (aa_batch item)) (ae_Index (aa_entry item))) None = Inr (segment, None)"
    "validEventSegment (io_digest E) segment" "set (rs_Events (aa_result item)) \<subseteq> set (sg_Events segment)" by blast
  have "set (rs_Events (rt_Result (accepted_receipt item))) \<subseteq> set (sg_Events segment)"
    using seg(3) by (simp add: accepted_receipt_def)
  from expand_compact [OF rec(1) good_receipt_ok [OF good(1)] seg(2) this]
  have "expandReceipt E t rec = Inr (accepted_receipt item)"
    using applied by (simp add: expandReceipt_def expandReceiptCached_def ids seg(1) not_less Let_def)
  moreover have "cb_RequestID (aa_batch item) \<noteq> ''''" using f(11) ids(1) by (simp add: validReceiptRecord_def)
  ultimately show ?thesis by (simp add: loadReceipt_def got rec(2) ids(1))
qed


section \<open>A request on record is not accepted again\<close>

lemma known_step:
  assumes "apply_batch H e owned l b = Inr l'" "resolveRequest e requestID = Inr (Some r)"
  shows "\<exists>a. bl_applications l' = bl_applications l @ [a] \<and> (cb_RequestID b = requestID \<longrightarrow> \<not> accepted_answer a)"
proof (cases "cb_RequestID b = requestID")
  case True
  then have "(case map_of (bl_requests l) (cb_RequestID b) of Some r \<Rightarrow> Inr (Some r) | None \<Rightarrow> resolveRequest e (cb_RequestID b)) =
      Inr (Some (case map_of (bl_requests l) (cb_RequestID b) of Some q \<Rightarrow> q | None \<Rightarrow> r))"
    using assms(2) by (simp split: option.splits)
  with assms(1) show ?thesis by (auto simp: apply_batch_def accepted_answer_def split: if_splits)
next
  case False
  with assms(1) show ?thesis
    by (auto simp: apply_batch_def result_simps Let_def split: if_splits option.splits prod.splits)
qed

lemma known_loop:
  assumes "foldE (apply_batch H e owned) l batches = Inr l'" "resolveRequest e requestID = Inr (Some r)"
  shows "\<exists>as. bl_applications l' = bl_applications l @ as \<and>
    list_all2 (\<lambda>b a. cb_RequestID b = requestID \<longrightarrow> \<not> accepted_answer a) batches as"
  using assms(1)
proof (induction batches arbitrary: l)
  case (Cons b batches)
  then obtain l1 where l1: "apply_batch H e owned l b = Inr l1" "foldE (apply_batch H e owned) l1 batches = Inr l'"
    by (auto simp: result_simps)
  from known_step [OF l1(1) assms(2)] Cons.IH [OF l1(2)] show ?case by fastforce
qed simp

lemma applyBatches_known:
  assumes "applyBatches H e batches owned = Inr (e', applications, states)" "resolveRequest e requestID = Inr (Some r)"
  shows "list_all2 (\<lambda>b a. cb_RequestID b = requestID \<longrightarrow> \<not> accepted_answer a) batches applications"
proof -
  from assms(1) obtain l where l: "foldE (apply_batch H e owned)
      \<lparr>bl_states = [], bl_requests = [], bl_accepted = [], bl_applications = []\<rparr> batches = Inr l"
    and apps: "applications = (if owned then fold (owned_copy e (bl_states l)) (bl_accepted l) (bl_applications l)
      else bl_applications l)"
    by (auto simp: applyBatches_def result_simps Let_def)
  from known_loop [OF l assms(2)]
  have known: "list_all2 (\<lambda>b a. cb_RequestID b = requestID \<longrightarrow> \<not> accepted_answer a) batches (bl_applications l)" by simp
  have "list_all2 copied (bl_applications l) applications"
  proof (cases owned)
    case True
    have "list_all2 copied (bl_applications l) (bl_applications l)" by (simp add: list_all2_refl copied_def)
    then show ?thesis using batch_loop_all [OF l] True unfolding apps
      by (simp, intro owned_copies) (auto simp: batch_loop_ok_def)
  qed (simp add: apps list_all2_refl copied_def)
  then show ?thesis using known unfolding list_all2_conv_all_nth by (metis accepted_copied)
qed

lemma apply_to_engine_applies:
  assumes "apply_to_engine E s owned commands = Inr (e, applications, states)"
  shows "\<exists>e' states'. applyBatches (io_digest E) (attached E s (so_engine s)) commands owned = Inr (e', applications, states')"
  using assms
  by (cases owned)
    (auto simp: apply_to_engine_def core_result_def ApplyCommittedBatches_def ApplyBatches_def result_simps
      split: sum.splits)

text \<open>
  A receipt on record: it can be read, and the membership filter lets the engine look for it.
\<close>

definition recorded :: "'db storage_env \<Rightarrow> 'db Store \<Rightarrow> string \<Rightarrow> Receipt \<Rightarrow> bool" where
  "recorded E s requestID receipt \<longleftrightarrow>
     requestID \<noteq> '''' \<and> short32 requestID \<and> short32 (rs_WorkflowID (rt_Result receipt)) \<and>
     loadReceipt E s requestID = Inr (Some receipt)"

definition on_record :: "'db storage_env \<Rightarrow> 'db Store \<Rightarrow> string \<Rightarrow> Receipt \<Rightarrow> bool" where
  "on_record E s requestID receipt \<longleftrightarrow>
     recorded E s requestID receipt \<and>
     (\<exists>m. so_membership s = Some m \<and> filter_contains (io_receiptHash E) (dm_receipts m) requestID)"

lemma on_record_resolves:
  assumes "on_record E s requestID receipt"
  shows "\<exists>r. resolveRequest (attached E s e) requestID = Inr (Some r)"
proof -
  from assms have "as_request_loader (loadEngineRequest E s) requestID = Inr (core_receipt receipt, True)"
    by (auto simp: on_record_def recorded_def as_request_loader_def loadEngineRequest_def loadRequest_def)
  with assms show ?thesis
    by (cases "map_of (en_requests e) requestID") (auto simp: attached_def SetLoaders_def resolveRequest_def on_record_def recorded_def)
qed

lemma fold_field:
  assumes "\<And>x m. g (f x m) = h (k x) (g m)"
  shows "g (fold f xs m) = fold h (map k xs) (g m)"
  by (induction xs arbitrary: m) (simp_all add: assms)

lemma addAccepted_receipts:
  "dm_receipts (addAccepted E accepted m) = addAll (io_receiptHash E) (map (cb_RequestID \<circ> aa_batch) accepted) (dm_receipts m)"
  unfolding addAccepted_def addAll_def by (rule fold_field) (simp add: Let_def split: list.splits)


section \<open>One call of \<^verbatim>\<open>applyEntries\<close>\<close>

lemma word_less_Suc:
  assumes "a + 1 \<noteq> 0"
  shows "a < a + (1 :: uint64)"
proof -
  have "a \<noteq> - 1" using assms by auto
  then have "unat (a + 1) = Suc (unat a)" by (rule word_suc_gt)
  then show ?thesis by (simp add: word_less_nat_alt)
qed

lemma checked_entries:
  assumes "foldE (check_entry s) c entries = Inr c'"
  shows "ec_commands c' = ec_commands c @ concat (map ae_Batches entries) \<and>
    (\<forall>entry \<in> set entries. ec_expected c \<le> ae_Index entry \<and> ae_Index entry \<le> ae_Index (last entries) \<and> ec_expected c \<noteq> 0)"
  using assms
proof (induction entries arbitrary: c)
  case (Cons entry entries)
  then obtain d where d: "check_entry s c entry = Inr d" "foldE (check_entry s) d entries = Inr c'"
    by (auto simp: result_simps)
  from d(1) have f: "ae_Index entry = ec_expected c" "\<not> ae_Index entry \<le> sn_Index (so_snapshot s)"
    "ec_expected d = ec_expected c + 1" "ec_commands d = ec_commands c @ ae_Batches entry"
    by (auto simp: check_entry_def Let_def split: if_splits)
  from f(1,2) have ne: "ec_expected c \<noteq> 0" by auto
  note IH = Cons.IH [OF d(2)]
  show ?case
  proof (cases "entries = []")
    case True
    with IH f ne show ?thesis by simp
  next
    case False
    then have "ec_expected c + 1 \<noteq> 0" using IH f(3) by (auto simp: neq_Nil_conv)
    then have "ec_expected c < ec_expected c + 1" by (rule word_less_Suc)
    moreover have "ae_Index entry \<le> ae_Index (last entries)"
      using IH f(1,3) False last_in_set [OF False] calculation by fastforce
    ultimately show ?thesis using IH f ne False by fastforce
  qed
qed simp

lemma entry_commands_batches: "map snd (entry_commands entries) = concat (map ae_Batches entries)"
  by (simp add: entry_commands_def map_concat comp_def)

text \<open>The batch of a call was committed; the call may still have failed after that.\<close>

definition committed_plan ::
    "'db storage_env \<Rightarrow> nat \<Rightarrow> 'db Store \<Rightarrow> ApplicationEntry list \<Rightarrow> nat \<Rightarrow> bool \<Rightarrow> application_plan \<Rightarrow> 'db \<Rightarrow> bool" where
  "committed_plan E procs s entries workers owned plan db \<longleftrightarrow>
     entries \<noteq> [] \<and>
     (\<exists>c e applications states.
        foldE (check_entry s) \<lparr>ec_expected = so_applied s + 1, ec_commands = [], ec_resident = []\<rparr> entries = Inr c \<and>
        apply_to_engine E s owned (ec_commands c) = Inr (e, applications, states) \<and>
        plan_entries E procs s entries workers owned (ec_resident c) e applications states = Inr plan \<and>
        pb_Commit (io_pebble E) (so_db s) True (pa_ops plan) = Inr db)"

lemma commit_entries_result:
  assumes "commit_entries E s undone e final plan = (s', r)" "so_db undone = so_db s"
  shows "so_db s' = so_db s \<and> isl r \<or>
    pb_Commit (io_pebble E) (so_db s) True (pa_ops plan) = Inr (so_db s') \<and>
    (\<forall>outcomes. r = Inr outcomes \<longrightarrow> outcomes = pa_outcomes plan \<and> so_applied s' = ae_Index final \<and>
       so_appliedTerm s' = ae_Term final \<and> so_membership s' = Some (joined_membership E s (pa_accepted plan)))"
proof (cases "pb_Commit (io_pebble E) (so_db s) True (pa_ops plan)")
  case (Inl err)
  with assms show ?thesis by (auto simp: commit_entries_def split: sum.splits)
next
  case (Inr db)
  with assms show ?thesis by (auto simp: commit_entries_def Let_def split: sum.splits)
qed

lemma applyEntries_result:
  assumes "applyEntries E procs s entries workers owned = (s', r)"
  shows "so_db s' = so_db s \<and> (isl r \<or> s' = s \<and> r = Inr []) \<or>
    (\<exists>plan. committed_plan E procs s entries workers owned plan (so_db s') \<and>
       (\<forall>outcomes. r = Inr outcomes \<longrightarrow> outcomes = pa_outcomes plan \<and> so_applied s' = ae_Index (last entries) \<and>
          so_appliedTerm s' = ae_Term (last entries) \<and> so_membership s' = Some (joined_membership E s (pa_accepted plan))))"
proof (cases "entries = []")
  case True
  with assms show ?thesis by (simp add: applyEntries_def)
next
  case False
  note eq = assms(1) [unfolded applyEntries_def, simplified False length_0_conv if_False Let_def]
  show ?thesis
  proof (cases "foldE (check_entry s) \<lparr>ec_expected = so_applied s + 1, ec_commands = [], ec_resident = []\<rparr> entries")
    case (Inl err)
    with eq show ?thesis by auto
  next
    case check: (Inr c)
    show ?thesis
    proof (cases "apply_to_engine E s owned (ec_commands c)")
      case (Inl err)
      with eq check show ?thesis by auto
    next
      case engine: (Inr p)
      obtain e applications states where p: "p = (e, applications, states)" by (cases p) auto
      show ?thesis
      proof (cases "plan_entries E procs s entries workers owned (ec_resident c) e applications states")
        case (Inl err)
        with eq check engine p show ?thesis by auto
      next
        case (Inr plan)
        let ?undone = "s\<lparr>so_engine := Rollback (Checkpoint (attached E s (so_engine s)) (ec_commands c)) e\<rparr>"
        from eq check engine p Inr have commit: "commit_entries E s ?undone e (last entries) plan = (s', r)" by simp
        have "committed_plan E procs s entries workers owned plan (so_db s')"
          if "pb_Commit (io_pebble E) (so_db s) True (pa_ops plan) = Inr (so_db s')"
          unfolding committed_plan_def using False check engine p Inr that by auto
        with commit_entries_result [OF commit] show ?thesis by auto
      qed
    qed
  qed
qed

lemma planned_parts:
  assumes "plan_entries E procs s entries workers owned resident e applications states = Inr plan"
  shows "foldE (settle E s) ([], []) (zip (entry_commands entries) applications) = Inr (pa_outcomes plan, pa_accepted plan)"
    and "\<exists>states'. plan_application E procs workers entries (pa_outcomes plan) (pa_accepted plan) states' resident = Inr (pa_ops plan)"
  using assms by (auto simp: plan_entries_def result_simps Let_def)


lemma applied_facts:
  assumes comm: "committed_plan E procs s entries workers owned plan db"
    and short: "\<forall>entry \<in> set entries. \<forall>batch \<in> set (ae_Batches entry). short_ids batch"
  obtains applications states resident where
    "foldE (settle E s) ([], []) (zip (entry_commands entries) applications) = Inr (pa_outcomes plan, pa_accepted plan)"
    "plan_application E procs workers entries (pa_outcomes plan) (pa_accepted plan) states resident = Inr (pa_ops plan)"
    "pb_Commit (io_pebble E) (so_db s) True (pa_ops plan) = Inr db"
    "distinct (map (cb_RequestID \<circ> aa_batch) (pa_accepted plan))"
    "\<forall>item \<in> set (pa_accepted plan). item_ok (io_digest E) entries item \<and> so_applied s < ae_Index (aa_entry item) \<and>
       ae_Index (aa_entry item) \<le> ae_Index (last entries)"
    "\<forall>requestID receipt. on_record E s requestID receipt \<longrightarrow>
       list_all2 (\<lambda>c a. cb_RequestID (snd c) = requestID \<longrightarrow> \<not> accepted_answer a) (entry_commands entries) applications"
    "so_applied s < ae_Index (last entries)"
    "pa_accepted plan = map accepted_item (filter (accepted_answer \<circ> snd) (zip (entry_commands entries) applications))"
proof -
  from comm obtain c e applications engineStates where ne: "entries \<noteq> []" and
    check: "foldE (check_entry s) \<lparr>ec_expected = so_applied s + 1, ec_commands = [], ec_resident = []\<rparr> entries = Inr c"
    and engine: "apply_to_engine E s owned (ec_commands c) = Inr (e, applications, engineStates)"
    and plan: "plan_entries E procs s entries workers owned (ec_resident c) e applications engineStates = Inr plan"
    and commit: "pb_Commit (io_pebble E) (so_db s) True (pa_ops plan) = Inr db"
    by (auto simp: committed_plan_def)
  note checked = checked_entries [OF check]
  have commands: "ec_commands c = map snd (entry_commands entries)" using checked by (simp add: entry_commands_batches)
  from planned_parts(1) [OF plan] have settle: "foldE (settle E s) ([], []) (zip (entry_commands entries) applications) =
      Inr (pa_outcomes plan, pa_accepted plan)" .
  obtain states where plan_app: "plan_application E procs workers entries (pa_outcomes plan) (pa_accepted plan) states (ec_resident c) = Inr (pa_ops plan)"
    using planned_parts(2) [OF plan] by auto
  have accepted: "pa_accepted plan = map accepted_item (filter (accepted_answer \<circ> snd) (zip (entry_commands entries) applications))"
    using settle_all [OF settle] by simp
  have ok: "answers_ok (io_digest E) (map snd (entry_commands entries)) applications"
    using apply_to_engine_answers [OF engine] by (simp add: commands)
  have next_index: "so_applied s + 1 \<noteq> 0" using checked ne by (auto simp: neq_Nil_conv)
  have index: "so_applied s < ae_Index entry" if "entry \<in> set entries" for entry
    using checked that word_less_Suc [OF next_index] by fastforce
  have items: "\<forall>item \<in> set (pa_accepted plan). item_ok (io_digest E) entries item \<and> so_applied s < ae_Index (aa_entry item) \<and>
       ae_Index (aa_entry item) \<le> ae_Index (last entries)"
  proof
    fix item
    assume item: "item \<in> set (pa_accepted plan)"
    have mem: "(aa_entry item, aa_batch item) \<in> set (entry_commands entries)" by (rule accepted_items(4) [OF ok accepted item])
    then have b: "aa_entry item \<in> set entries" "aa_batch item \<in> set (ae_Batches (aa_entry item))"
      by (auto simp: entry_commands_def)
    with short checked index accepted_items(2) [OF ok accepted item] mem
    show "item_ok (io_digest E) entries item \<and> so_applied s < ae_Index (aa_entry item) \<and> ae_Index (aa_entry item) \<le> ae_Index (last entries)"
      by (simp add: item_ok_def)
  qed
  have known: "list_all2 (\<lambda>c a. cb_RequestID (snd c) = requestID \<longrightarrow> \<not> accepted_answer a) (entry_commands entries) applications"
    if rec: "on_record E s requestID receipt" for requestID receipt
  proof -
    obtain r where "resolveRequest (attached E s (so_engine s)) requestID = Inr (Some r)"
      using on_record_resolves [OF rec] by blast
    moreover obtain e' st' where "applyBatches (io_digest E) (attached E s (so_engine s)) (ec_commands c) owned = Inr (e', applications, st')"
      using apply_to_engine_applies [OF engine] by blast
    ultimately have "list_all2 (\<lambda>b a. cb_RequestID b = requestID \<longrightarrow> \<not> accepted_answer a) (ec_commands c) applications"
      using applyBatches_known by blast
    then show ?thesis by (simp add: commands list_all2_map1)
  qed
  have "so_applied s < ae_Index (last entries)" using index [OF last_in_set [OF ne]] .
  with settle plan_app commit accepted_items(1) [OF ok accepted] items known accepted show thesis by (intro that) blast+
qed

text \<open>What was on record stays there, under its key and in its segment.\<close>

lemma other_receipt_key:
  assumes "encodeAcceptedReceipts procs accepted states workers = map Inr rkvs" "short32 requestID"
    and "\<forall>item \<in> set accepted. short32 (cb_RequestID (aa_batch item)) \<and> cb_RequestID (aa_batch item) \<noteq> requestID"
  shows "run_ops (sets rkvs) m (segmentedKey (CHR 0x04) [requestID]) = m (segmentedKey (CHR 0x04) [requestID])"
proof (rule run_ops_untouched)
  fix op
  assume "op \<in> set (sets rkvs)"
  then obtain k v where kv: "(k, v) \<in> set rkvs" "op = OpSet k v" by (auto simp: sets_def)
  then have "Inr (k, v) \<in> set (map (encode_receipt states) accepted)"
    using assms(1) by (simp add: encodeAcceptedReceipts_def)
  then obtain item where "item \<in> set accepted" "encode_receipt states item = Inr (k, v)" by auto
  moreover from this have "k = segmentedKey (CHR 0x04) [cb_RequestID (aa_batch item)]"
    by (auto simp: encode_receipt_def result_simps split: if_splits)
  ultimately show "\<not> touches op (segmentedKey (CHR 0x04) [requestID])"
    using assms(2,3) segmentedKey_inj [of "[requestID]" "[cb_RequestID (aa_batch item)]" "CHR 0x04" "CHR 0x04"] kv(2) by auto
qed

lemma other_segment_key:
  assumes build: "buildAcceptedSegments H accepted states = Inr (segments, tasks)"
    and enc: "encodeEventSegments E procs segments workers = map Inr skvs"
    and items: "\<forall>item \<in> set accepted. short32 (cb_WorkflowID (aa_batch item)) \<and> index < ae_Index (aa_entry item)"
    and short: "short32 w"
  shows "run_ops (sets skvs) m (materializedSegmentKey (CHR 0x08) w index) = m (materializedSegmentKey (CHR 0x08) w index)"
proof (rule run_ops_untouched)
  let ?key = "\<lambda>segment. materializedSegmentKey (CHR 0x08) (sg_WorkflowID segment) (sg_AppliedIndex segment)"
  fix op
  assume "op \<in> set (sets skvs)"
  then obtain k v where kv: "(k, v) \<in> set skvs" "op = OpSet k v" by (auto simp: sets_def)
  then have "Inr (k, v) \<in> set (map (\<lambda>g. encodeSet E (io_eventSegment E) (?key g) g) segments)"
    using enc parallelEncode_list [of procs segments workers "\<lambda>g. encodeSet E (io_eventSegment E) (?key g) g"]
    by (simp add: encodeEventSegments_def Let_def)
  then obtain g where g: "g \<in> set segments" "k = ?key g" by (auto simp: eq_commute [of "Inr x" "encodeSet a b c d" for x a b c d])
  from build obtain sources results where "foldE (gather_item states) ([], []) accepted = Inr (sources, results)"
    and segs: "buildEventSegments H sources False = Inr segments"
    by (auto simp: buildAcceptedSegments_def result_simps)
  then have "sources = map (\<lambda>item. \<lparr>sr_workflowID = cb_WorkflowID (aa_batch item), sr_appliedIndex = ae_Index (aa_entry item),
    sr_events = rs_Events (aa_result item)\<rparr>) accepted" using gathered by blast
  moreover have "segment_id g \<in> source_id ` set sources" unfolding built_ids [OF segs, symmetric] using g(1) by simp
  ultimately have "segment_id g \<in> (\<lambda>item. (cb_WorkflowID (aa_batch item), ae_Index (aa_entry item))) ` set accepted"
    by (simp add: source_id_def image_image)
  then obtain item where "item \<in> set accepted" "sg_WorkflowID g = cb_WorkflowID (aa_batch item)"
    "sg_AppliedIndex g = ae_Index (aa_entry item)" by (auto simp: segment_id_def)
  with items short materializedSegmentKey_inj [of w "sg_WorkflowID g" "CHR 0x08" index "CHR 0x08" "sg_AppliedIndex g"]
  show "\<not> touches op (materializedSegmentKey (CHR 0x08) w index)" by (auto simp: kv(2) g(2))
qed


lemma receipt_kept:
  assumes P: "pebble_ok (io_pebble E) view" and rec: "recorded E s requestID receipt"
    and four: "view (so_db s') (segmentedKey (CHR 0x04) [requestID]) = view (so_db s) (segmentedKey (CHR 0x04) [requestID])"
    and eight: "\<And>w index. short32 w \<Longrightarrow> index \<le> so_applied s \<Longrightarrow>
      view (so_db s') (materializedSegmentKey (CHR 0x08) w index) = view (so_db s) (materializedSegmentKey (CHR 0x08) w index)"
    and applied: "so_applied s \<le> so_applied s'"
  shows "recorded E s' requestID receipt"
proof -
  from rec have load: "loadReceipt E s requestID = Inr (Some receipt)" and short: "short32 (rs_WorkflowID (rt_Result receipt))"
    by (simp_all add: recorded_def)
  have get: "get E t k = Inr (view (so_db t) k)" for t k by (simp add: get_def pebble_get [OF P])
  from load obtain data r where data: "view (so_db s) (segmentedKey (CHR 0x04) [requestID]) = Some data"
    "decodeReceiptRecord (io_snappy E) (io_receipt E) data = Inr r" "rc_RequestID r = requestID"
    and expand: "expandReceipt E s r = Inr receipt"
    by (auto simp: loadReceipt_def get result_simps split: option.splits if_splits)
  let ?key = "materializedSegmentKey (CHR 0x08) (rc_WorkflowID r) (rc_AppliedIndex r)"
  from expand obtain segment cache where le: "rc_AppliedIndex r \<le> so_applied s"
    and find: "find_segment E s ?key None = Inr (segment, cache)"
    and seg: "expand_segment (io_digest E) r segment = Inr receipt"
    by (auto simp: expandReceipt_def expandReceiptCached_def result_simps Let_def not_less split: if_splits)
  have "rs_WorkflowID (rt_Result receipt) = rc_WorkflowID r"
    using seg by (auto simp: expand_segment_def Let_def split: if_splits)
  with eight [OF _ le] short have "find_segment E s' ?key None = find_segment E s ?key None"
    by (simp add: find_segment_def get)
  with find seg have "expandReceipt E s' r = Inr receipt"
    using le applied by (auto simp: expandReceipt_def expandReceiptCached_def Let_def not_less)
  then have "loadReceipt E s' requestID = Inr (Some receipt)" using data four by (simp add: loadReceipt_def get)
  with rec show ?thesis by (simp add: recorded_def)
qed

text \<open>Where each outcome comes from.\<close>

definition from_item ::
    "'db storage_env \<Rightarrow> 'db Store \<Rightarrow> acceptedApplication list \<Rightarrow> Outcome \<Rightarrow> (ApplicationEntry \<times> CommandBatch) \<times> BatchApplication \<Rightarrow> bool" where
  "from_item E s accepted outcome x \<longleftrightarrow>
     oc_RequestID outcome = cb_RequestID (snd (fst x)) \<and>
     (oc_Code outcome = ''request_conflict'' \<or> accepted_answer (snd x) \<or>
      rs_Duplicate (oc_Result outcome) \<and> (\<exists>earlier origin. set earlier \<subseteq> set accepted \<and>
        duplicate_origin E s (snd (fst x)) earlier = Inr origin \<and>
        oc_AppliedIndex outcome = as_Index (origin :: AppliedState) \<and> oc_CommittedTerm outcome = as_Term origin))"

lemma from_item_mono: "from_item E s acc outcome x \<Longrightarrow> set acc \<subseteq> set acc' \<Longrightarrow> from_item E s acc' outcome x"
  unfolding from_item_def by blast

lemma settle_each:
  assumes "foldE (settle E s) ([], []) items = Inr (outcomes, accepted)"
  shows "\<forall>outcome \<in> set outcomes. \<exists>x \<in> set items. from_item E s accepted outcome x"
  using assms
proof (induction items arbitrary: outcomes accepted rule: rev_induct)
  case (snoc x items)
  obtain entry command a where x: "x = ((entry, command), a)" by (cases x) auto
  from snoc.prems obtain os acc where before: "foldE (settle E s) ([], []) items = Inr (os, acc)"
    and step: "settle E s (os, acc) x = Inr (outcomes, accepted)"
    by (auto simp: result_simps)
  have "\<exists>new. outcomes = os @ [new] \<and> set acc \<subseteq> set accepted \<and> from_item E s accepted new x"
  proof (cases "ba_Conflict a \<or> accepted_answer a")
    case True
    with step show ?thesis by (auto simp: settle_def x Let_def from_item_def base_outcome_def accepted_answer_def)
  next
    case False
    then have dup: "\<not> ba_Conflict a" "rs_Duplicate (ba_Result a)" by (auto simp: accepted_answer_def)
    with step obtain origin :: AppliedState where "duplicate_origin E s command acc = Inr origin" "accepted = acc"
      "outcomes = os @ [(base_outcome entry command (ba_Result a))
        \<lparr>oc_AppliedIndex := as_Index origin, oc_CommittedTerm := as_Term origin\<rparr>]"
      by (auto simp: settle_def x Let_def result_simps)
    with dup show ?thesis by (auto simp: from_item_def x base_outcome_def)
  qed
  then obtain new where new: "outcomes = os @ [new]" "set acc \<subseteq> set accepted" "from_item E s accepted new x" by blast
  show ?case
  proof
    fix outcome
    assume "outcome \<in> set outcomes"
    then consider "outcome \<in> set os" | "outcome = new" using new(1) by auto
    then show "\<exists>y \<in> set (items @ [x]). from_item E s accepted outcome y"
    proof cases
      case 1
      with snoc.IH [OF before] obtain y where "y \<in> set items" "from_item E s acc outcome y" by blast
      then show ?thesis using from_item_mono [OF _ new(2), of E s outcome y] by auto
    next
      case 2
      with new(3) show ?thesis by auto
    qed
  qed
qed simp

lemma origin_on_record:
  assumes "duplicate_origin E s command earlier = Inr origin" "loadReceipt E s (cb_RequestID command) = Inr (Some receipt)"
    and "\<forall>item \<in> set earlier. cb_RequestID (aa_batch item) \<noteq> cb_RequestID command"
  shows "origin = \<lparr>as_Index = rt_AppliedIndex receipt, as_Term = rt_CommittedTerm receipt\<rparr>"
proof -
  have "find_accepted command earlier = None"
    using assms(3) by (auto simp: find_accepted_def find_None_iff)
  with assms(1,2) show ?thesis by (auto simp: duplicate_origin_def Let_def split: if_splits)
qed


end
