(* ===== verification/Chronos_Installed.thy ===== *)
theory Chronos_Installed
  imports Chronos_Durable
begin

text \<open>
  What installing a snapshot (\<^verbatim>\<open>installSnapshot\<close>) leaves in the database: the receipts and the events of the
  requests of its image can be read back, and nothing else is left under their prefixes.
\<close>

section \<open>What \<^verbatim>\<open>Restore\<close> has checked\<close>

lemma restore_events_numbered:
  assumes "restore_events receipt previous known events = Inr known'" "i < length events"
  shows "event_of_request (rr_RequestID receipt) (rr_RequestHash receipt) (rs_WorkflowID (rr_Result receipt)) (events ! i) \<and>
    ev_Sequence (events ! i) = (case previous of None \<Rightarrow> ev_Sequence (hd events) | Some p \<Rightarrow> p + 1) + of_nat i"
  using assms
proof (induction receipt previous known events arbitrary: i rule: restore_events.induct)
  case (2 receipt previous known event events)
  from "2.prems"(1) have step: "event_of_request (rr_RequestID receipt) (rr_RequestHash receipt) (rs_WorkflowID (rr_Result receipt)) event"
    "\<not> (case previous of None \<Rightarrow> False | Some p \<Rightarrow> ev_Sequence event \<noteq> p + 1)"
    by (auto split: if_splits)
  show ?case
  proof (cases i)
    case (Suc j)
    with 2 step have "event_of_request (rr_RequestID receipt) (rr_RequestHash receipt) (rs_WorkflowID (rr_Result receipt)) (events ! j) \<and>
        ev_Sequence (events ! j) = ev_Sequence event + 1 + of_nat j"
      by simp
    with step Suc show ?thesis by (simp add: add.assoc split: option.splits)
  qed (use step in \<open>simp split: option.splits\<close>)
qed simp

definition request_ok :: "RequestReceipt \<Rightarrow> bool" where
  "request_ok request \<longleftrightarrow> receipt_valid request \<and>
     (\<forall>i < length (rs_Events (rr_Result request)).
        let event = rs_Events (rr_Result request) ! i in
        event_of_request (rr_RequestID request) (rr_RequestHash request) (rs_WorkflowID (rr_Result request)) event \<and>
        ev_Sequence event = ev_Sequence (hd (rs_Events (rr_Result request))) + of_nat i)"

lemma restore_request_Inr:
  assumes "restore_request (m, before, known, e) request = Inr (n, previous, known', e')"
  obtains k2 where "receipt_valid request" "\<not> (0 < m \<and> rr_RequestID request \<le> before)"
    "restore_events request None known (rs_Events (rr_Result request)) = Inr k2" "n = Suc m" "previous = rr_RequestID request"
proof (cases "receipt_valid request \<and> \<not> (0 < m \<and> rr_RequestID request \<le> before)")
  case True
  show thesis
  proof (cases "restore_events request None known (rs_Events (rr_Result request))")
    case (Inr k2)
    with assms True show thesis by (intro that [of k2]) (simp_all add: restore_request_def)
  qed (use assms True in \<open>simp add: restore_request_def\<close>)
next
  case False
  with assms show thesis by (simp add: restore_request_def split: if_splits)
qed

lemma restore_requests:
  assumes "foldE restore_request (0, '''', known, e) requests = Inr (n, previous, known', e')"
  shows "n = length requests \<and> distinct (map rr_RequestID requests) \<and>
    (\<forall>request \<in> set requests. request_ok request \<and> rr_RequestID request \<le> previous)"
  using assms
proof (induction requests arbitrary: n previous known' e' rule: rev_induct)
  case (snoc request requests)
  then obtain m before k1 e1 where f: "foldE restore_request (0, '''', known, e) requests = Inr (m, before, k1, e1)"
    and step: "restore_request (m, before, k1, e1) request = Inr (n, previous, known', e')"
    by (auto simp: result_simps)
  note IH = snoc.IH [OF f]
  obtain k2 where s: "receipt_valid request" "\<not> (0 < m \<and> rr_RequestID request \<le> before)"
    "restore_events request None k1 (rs_Events (rr_Result request)) = Inr k2" "n = Suc m" "previous = rr_RequestID request"
    by (rule restore_request_Inr [OF step])
  have "request_ok request" using s(1) restore_events_numbered [OF s(3)] by (simp add: request_ok_def Let_def)
  moreover have less: "rr_RequestID r < rr_RequestID request" if "r \<in> set requests" for r
  proof -
    have "0 < m" using IH that by (cases requests) auto
    with s(2) have "before < rr_RequestID request" by (simp add: not_le)
    moreover have "rr_RequestID r \<le> before" using IH that by blast
    ultimately show ?thesis by (rule le_less_trans [rotated])
  qed
  moreover have "distinct (map rr_RequestID (requests @ [request]))"
    using IH less by fastforce
  ultimately show ?case using IH s(4,5) by (simp add: less_imp_le)
qed simp

lemma Restore_requests:
  assumes "Restore H snapshot = Inr e"
  shows "distinct (map rr_RequestID (es_Requests snapshot)) \<and> (\<forall>request \<in> set (es_Requests snapshot). request_ok request)"
  using assms restore_requests by (fastforce simp: Restore_def result_simps split: if_splits)

section \<open>The batch of an installation\<close>

lemma run_ops_before:
  assumes "avoids b Y" "prefix [b] k"
  shows "run_ops (X @ Y) m k = run_ops X m k"
  using assms run_ops_untouched [of Y k "run_ops X m"] by (auto simp: avoids_def)

text \<open>The origins are those of outcomes without an error code; the other outcomes are written back.\<close>

definition outcome_key :: "Outcome \<Rightarrow> string" where
  "outcome_key outcome = origin_key (oc_RequestID outcome) (oc_RequestHash outcome)"

definition outcome_origin :: "Outcome \<Rightarrow> AppliedState" where
  "outcome_origin outcome = \<lparr>as_Index = oc_AppliedIndex outcome, as_Term = oc_CommittedTerm outcome\<rparr>"

definition origins_ok :: "SnapshotImage \<Rightarrow> Outcome set \<Rightarrow> (string, AppliedState) gomap \<Rightarrow> bool" where
  "origins_ok img seen origins \<longleftrightarrow>
     (\<forall>outcome \<in> seen. oc_Code outcome = '''' \<longrightarrow> map_of origins (outcome_key outcome) = Some (outcome_origin outcome)) \<and>
     (\<forall>key origin. map_of origins key = Some origin \<longrightarrow>
        (\<exists>outcome \<in> seen. oc_Code outcome = '''' \<and> key = outcome_key outcome \<and> origin = outcome_origin outcome \<and>
           as_Index origin \<le> si_AppliedIndex img))"

lemma install_outcome_step:
  assumes "install_outcome E img (origins, ops) outcome = Inr (origins', ops')" "origins_ok img seen origins"
  shows "origins_ok img (insert outcome seen) origins' \<and> (\<exists>W. ops' = ops @ W \<and> (\<forall>b. b \<noteq> CHR 0x07 \<longrightarrow> avoids b W))"
proof (cases "oc_Code outcome = ''''")
  case True
  with assms(1) have f: "oc_AppliedIndex outcome \<le> si_AppliedIndex img" "ops' = ops" "map_of origins (outcome_key outcome) = None"
    "origins' = put (outcome_key outcome) (outcome_origin outcome) origins"
    by (auto simp: install_outcome_def outcome_key_def outcome_origin_def has_def map_of_eq_None_iff Let_def not_less split: if_splits)
  have "outcome_key q \<noteq> outcome_key outcome" if "q \<in> seen" "oc_Code q = ''''" for q
    using assms(2) that f(3) by (auto simp: origins_ok_def)
  then have "origins_ok img (insert outcome seen) origins'"
    using assms(2) True f(1) unfolding origins_ok_def f(4) by (auto simp: outcome_origin_def)
  with f(2) show ?thesis by simp
next
  case False
  with assms(1) obtain data where
    "ops' = ops @ [OpSet (segmentedKey (CHR 0x07) [oc_RequestID outcome, oc_RequestHash outcome]) data]" "origins' = origins"
    by (auto simp: install_outcome_def result_simps split: if_splits)
  with assms(2) False show ?thesis by (auto simp: origins_ok_def)
qed

lemma installed_outcomes:
  assumes "foldE (install_outcome E img) ([], ops) outcomes = Inr (origins, ops')"
  shows "origins_ok img (set outcomes) origins \<and> (\<exists>W. ops' = ops @ W \<and> (\<forall>b. b \<noteq> CHR 0x07 \<longrightarrow> avoids b W))"
  using assms
proof (induction outcomes arbitrary: origins ops' rule: rev_induct)
  case (snoc outcome outcomes)
  then obtain os new where f: "foldE (install_outcome E img) ([], ops) outcomes = Inr (os, new)"
    and step: "install_outcome E img (os, new) outcome = Inr (origins, ops')" by (auto simp: result_simps)
  from snoc.IH [OF f] obtain V where V: "origins_ok img (set outcomes) os" "new = ops @ V" "\<forall>b. b \<noteq> CHR 0x07 \<longrightarrow> avoids b V" by blast
  from install_outcome_step [OF step V(1)] obtain W where "origins_ok img (insert outcome (set outcomes)) origins"
    "ops' = new @ W" "\<forall>b. b \<noteq> CHR 0x07 \<longrightarrow> avoids b W" by blast
  with V(2,3) show ?case by auto
qed (simp add: origins_ok_def)

text \<open>The receipt that is written for a request of the image.\<close>

definition image_receipt :: "AppliedState \<Rightarrow> RequestReceipt \<Rightarrow> Receipt" where
  "image_receipt origin request =
     \<lparr>rt_Version = ReceiptVersion, rt_RequestID = rr_RequestID request, rt_RequestHash = rr_RequestHash request,
      rt_AppliedIndex = as_Index origin, rt_CommittedTerm = as_Term origin, rt_Result = rr_Result request\<rparr>"

definition origin_of :: "(string, AppliedState) gomap \<Rightarrow> RequestReceipt \<Rightarrow> AppliedState" where
  "origin_of origins request = the (map_of origins (origin_key (rr_RequestID request) (rr_RequestHash request)))"

definition image_source :: "(string, AppliedState) gomap \<Rightarrow> RequestReceipt \<Rightarrow> eventSegmentSource" where
  "image_source origins request = \<lparr>sr_workflowID = rs_WorkflowID (rr_Result request),
     sr_appliedIndex = as_Index (origin_of origins request), sr_events = rs_Events (rr_Result request)\<rparr>"

definition image_key :: "RequestReceipt \<Rightarrow> bytes" where
  "image_key request = segmentedKey (CHR 0x04) [rr_RequestID request]"

definition receipt_staged :: "(string, AppliedState) gomap \<Rightarrow> write_op list \<Rightarrow> RequestReceipt \<Rightarrow> bool" where
  "receipt_staged origins ops request \<longleftrightarrow>
     map_of origins (origin_key (rr_RequestID request) (rr_RequestHash request)) = Some (origin_of origins request) \<and>
     (\<exists>r data. compactReceipt (image_receipt (origin_of origins request) request) = Inr r \<and> encodeReceiptRecord r = Inr data \<and>
        (\<forall>m. run_ops ops m (segmentedKey (CHR 0x04) [rr_RequestID request]) = Some data))"

lemma install_request_Inr:
  assumes "install_request origins active (sources, ops) request = Inr (sources', ops')"
  obtains r data W where "sources' = sources @ [image_source origins request]"
    "map_of origins (origin_key (rr_RequestID request) (rr_RequestHash request)) = Some (origin_of origins request)"
    "compactReceipt (image_receipt (origin_of origins request) request) = Inr r" "encodeReceiptRecord r = Inr data"
    "ops' = ops @ OpSet (segmentedKey (CHR 0x04) [rr_RequestID request]) data # W" "\<forall>b. b \<noteq> CHR 0x0A \<longrightarrow> avoids b W"
proof -
  from assms obtain origin where origin: "map_of origins (origin_key (rr_RequestID request) (rr_RequestHash request)) = Some origin"
    by (auto simp: install_request_def split: option.splits)
  then have o: "origin_of origins request = origin" by (simp add: origin_of_def)
  let ?W = "if has (rs_WorkflowID (rr_Result request)) active
    then [OpSet (segmentedKey (CHR 0x0A) [rs_WorkflowID (rr_Result request), rr_RequestID request]) activeWorkflowValue] else []"
  from assms origin obtain r data where "compactReceipt (image_receipt origin request) = Inr r" "encodeReceiptRecord r = Inr data"
    "sources' = sources @ [image_source origins request]"
    "ops' = ops @ OpSet (segmentedKey (CHR 0x04) [rr_RequestID request]) data # ?W"
    by (auto simp: install_request_def result_simps Let_def image_receipt_def [symmetric] image_source_def o split: if_splits)
  then show thesis by (intro that [of r data ?W]) (simp_all add: o origin)
qed

lemma receipt_staged_later:
  assumes "receipt_staged origins ops request" "avoids (CHR 0x04) W"
  shows "receipt_staged origins (ops @ W) request"
  using assms run_ops_before [OF assms(2), of "segmentedKey (CHR 0x04) [rr_RequestID request]" ops]
  by (auto simp: receipt_staged_def simp del: run_ops_simps)

lemma installed_requests:
  assumes "foldE (install_request origins active) ([], ops) requests = Inr (sources, ops')"
    and "distinct (map rr_RequestID requests)" "\<forall>request \<in> set requests. short32 (rr_RequestID request)"
  shows "sources = map (image_source origins) requests \<and> (\<forall>request \<in> set requests. receipt_staged origins ops' request) \<and>
    (\<exists>W. ops' = ops @ W \<and> avoids (CHR 0x08) W \<and>
       (\<forall>op \<in> set W. \<forall>k. touches op k \<longrightarrow> prefix [CHR 0x04] k \<longrightarrow> k \<in> image_key ` set requests))"
  using assms
proof (induction requests arbitrary: sources ops' rule: rev_induct)
  case (snoc request requests)
  let ?key = "\<lambda>i. segmentedKey (CHR 0x04) [i]"
  from snoc.prems(1) obtain srcs os where f: "foldE (install_request origins active) ([], ops) requests = Inr (srcs, os)"
    and step: "install_request origins active (srcs, os) request = Inr (sources, ops')" by (auto simp: result_simps)
  have "distinct (map rr_RequestID requests)" "\<forall>request \<in> set requests. short32 (rr_RequestID request)"
    using snoc.prems(2,3) by simp_all
  from snoc.IH [OF f this] obtain V where IH: "srcs = map (image_source origins) requests"
    "\<forall>request \<in> set requests. receipt_staged origins os request" "os = ops @ V" "avoids (CHR 0x08) V"
    "\<forall>op \<in> set V. \<forall>k. touches op k \<longrightarrow> prefix [CHR 0x04] k \<longrightarrow> k \<in> image_key ` set requests" by blast
  obtain r data W where s: "sources = srcs @ [image_source origins request]"
    "map_of origins (origin_key (rr_RequestID request) (rr_RequestHash request)) = Some (origin_of origins request)"
    "compactReceipt (image_receipt (origin_of origins request) request) = Inr r" "encodeReceiptRecord r = Inr data"
    "ops' = os @ OpSet (?key (rr_RequestID request)) data # W" "\<forall>b. b \<noteq> CHR 0x0A \<longrightarrow> avoids b W"
    by (rule install_request_Inr [OF step])
  have other: "?key i = ?key (rr_RequestID request) \<longleftrightarrow> i = rr_RequestID request" if "short32 i" for i
    using that snoc.prems(3) segmentedKey_inj [of "[i]" "[rr_RequestID request]" "CHR 0x04" "CHR 0x04"] by auto
  have "avoids (CHR 0x04) W" using s(6) by simp
  then have quiet: "\<not> touches op k" if "op \<in> set W" "prefix [CHR 0x04] k" for op k using that unfolding avoids_def by blast
  have W: "run_ops W m (?key i) = m (?key i)" for m i by (rule run_ops_untouched) (rule quiet, simp_all)
  have "receipt_staged origins ops' request"
    unfolding receipt_staged_def using s(2-4) by (auto simp: s(5) W)
  moreover have "receipt_staged origins ops' q" if "q \<in> set requests" for q
  proof -
    have "rr_RequestID q \<noteq> rr_RequestID request" "short32 (rr_RequestID q)"
      using that snoc.prems(2,3) imageI [OF that, of rr_RequestID] by fastforce+
    with IH(2) that other [of "rr_RequestID q"] show ?thesis by (auto simp: receipt_staged_def s(5) W)
  qed
  moreover have "avoids (CHR 0x08) (V @ OpSet (?key (rr_RequestID request)) data # W)" using IH(4) s(6) by simp
  moreover have "\<forall>op \<in> set (V @ OpSet (?key (rr_RequestID request)) data # W). \<forall>k. touches op k \<longrightarrow> prefix [CHR 0x04] k \<longrightarrow>
      k \<in> image_key ` set (requests @ [request])"
    using IH(5) quiet by (auto simp: image_key_def)
  ultimately show ?case using IH(1,3) s(1,5) by (intro conjI exI [of _ "V @ OpSet (?key (rr_RequestID request)) data # W"]) auto
qed simp

lemma install_workflow_avoids:
  assumes "foldE (install_workflow E) ops workflows = Inr ops'" "b \<noteq> CHR 0x06" "b \<noteq> CHR 0x09"
  shows "\<exists>W. ops' = ops @ W \<and> avoids b W"
proof (rule foldE_keeps [OF assms(1)])
  show "\<exists>W. ops = ops @ W \<and> avoids b W" by (intro exI [of _ "[]"]) simp
  fix cur workflow nxt
  assume cur: "\<exists>W. cur = ops @ W \<and> avoids b W" and step: "install_workflow E cur workflow = Inr nxt"
  from step obtain data where "nxt = cur @ OpSet (segmentedKey (CHR 0x06) [wf_ID workflow]) data #
      (if activeWorkflow (wf_Status workflow) then [OpSet (segmentedKey (CHR 0x09) [wf_ID workflow]) activeWorkflowValue] else [])"
    by (auto simp: install_workflow_def result_simps Let_def split: if_splits)
  with cur assms(2,3) show "\<exists>W. nxt = ops @ W \<and> avoids b W" by auto
qed

text \<open>
  The batch: it empties the keyspaces of the application, and then writes the receipts and the segments of the
  requests of the image and nothing else under their prefixes.
\<close>

lemma plan_install_view:
  assumes plan: "plan_install E procs img = Inr ops"
    and dist: "distinct (map rr_RequestID (es_Requests (si_Engine img)))"
    and short: "\<forall>request \<in> set (es_Requests (si_Engine img)). short32 (rr_RequestID request)"
  obtains origins segments skvs where "origins_ok img (set (si_Outcomes img)) origins"
    "\<forall>request \<in> set (es_Requests (si_Engine img)). receipt_staged origins ops request"
    "buildEventSegments (io_digest E) (map (image_source origins) (es_Requests (si_Engine img))) True = Inr segments"
    "encodeEventSegments E procs segments applicationEncodingWorkers = map Inr skvs"
    "\<forall>m. \<exists>m'. \<forall>k. prefix [CHR 0x08] k \<longrightarrow> run_ops ops m k = run_ops (sets skvs) m' k"
    "\<forall>k m. prefix [CHR 0x04] k \<longrightarrow> k \<notin> image_key ` set (es_Requests (si_Engine img)) \<longrightarrow> run_ops ops m k = None"
proof -
  let ?deletes = "map delete_prefix install_prefixes" and ?requests = "es_Requests (si_Engine img)"
  from plan obtain origins a sources b segments c d tasks e applied where
    a: "foldE (install_outcome E img) ([], ?deletes) (si_Outcomes img) = Inr (origins, a)"
    and b: "foldE (install_request origins (active_workflows (si_Engine img))) ([], a) ?requests = Inr (sources, b)"
    and seg: "buildEventSegments (io_digest E) sources True = Inr segments"
    and c: "stageEncodedSets b (encodeEventSegments E procs segments applicationEncodingWorkers) = Inr c"
    and d: "foldE (install_workflow E) c (es_Workflows (si_Engine img)) = Inr d"
    and e: "stageEncodedSets d (encodeTaskResultSegments E procs tasks applicationEncodingWorkers) = Inr e"
    and ops: "ops = e @ [OpSet appliedKey applied, OpSet activeIndexKey activeIndexValue]"
    by (auto simp: plan_install_def result_simps split: if_splits)
  from installed_outcomes [OF a] obtain V where origins: "origins_ok img (set (si_Outcomes img)) origins"
    and V: "a = ?deletes @ V" "\<forall>b. b \<noteq> CHR 0x07 \<longrightarrow> avoids b V" by blast
  from installed_requests [OF b dist short] obtain W where sources: "sources = map (image_source origins) ?requests"
    and written: "\<forall>request \<in> set ?requests. receipt_staged origins b request"
    and W: "b = a @ W" "\<forall>op \<in> set W. \<forall>k. touches op k \<longrightarrow> prefix [CHR 0x04] k \<longrightarrow> k \<in> image_key ` set ?requests" by blast
  obtain skvs where S: "encodeEventSegments E procs segments applicationEncodingWorkers = map Inr skvs" "c = b @ sets skvs"
    by (rule staged [OF c])
  obtain tkvs where T: "encodeTaskResultSegments E procs tasks applicationEncodingWorkers = map Inr tkvs" "e = d @ sets tkvs"
    by (rule staged [OF e])
  have rest: "\<exists>Y. ops = c @ Y \<and> avoids x Y" if x: "x \<in> {CHR 0x04, CHR 0x08}" for x
  proof -
    obtain Y where "d = c @ Y" "avoids x Y" using install_workflow_avoids [OF d, of x] x by auto
    moreover have "avoids x (sets tkvs)" using encoded_prefixes(4) [of x E procs tasks applicationEncodingWorkers] x
      by (intro avoids_sets) (auto simp: T(1) [symmetric])
    moreover have "\<not> prefix [x] activeIndexKey" using x by (auto simp: meta_keys)
    ultimately show ?thesis using x by (auto simp: ops T(2))
  qed
  have quiet: "avoids (CHR 0x04) (sets skvs)"
    using encoded_prefixes(3) [of "CHR 0x04" E procs segments applicationEncodingWorkers] by (intro avoids_sets) (simp add: S(1) [symmetric])
  obtain Y4 where Y4: "ops = c @ Y4" "avoids (CHR 0x04) Y4" using rest [of "CHR 0x04"] by auto
  obtain Y8 where Y8: "ops = c @ Y8" "avoids (CHR 0x08) Y8" using rest [of "CHR 0x08"] by auto
  have four: "\<forall>request \<in> set ?requests. receipt_staged origins ops request"
    using written receipt_staged_later [of origins b _ "sets skvs @ Y4"] quiet Y4 by (simp add: S(2))
  have eight: "\<forall>k. prefix [CHR 0x08] k \<longrightarrow> run_ops ops m k = run_ops (sets skvs) (run_ops b m) k" for m
    using run_ops_before [OF Y8(2), of _ c m] by (simp add: Y8(1) S(2))
  have gone: "run_ops ops m k = None" if k: "prefix [CHR 0x04] k" "k \<notin> image_key ` set ?requests" for m k
  proof -
    have "run_ops ops m k = run_ops (?deletes @ V @ W) m k"
      using run_ops_before [of "CHR 0x04" "sets skvs @ Y4" k "?deletes @ V @ W" m] quiet Y4 k(1) by (simp add: S(2) V(1) W(1))
    also have "\<dots> = run_ops (V @ W) (run_ops ?deletes m) k" by simp
    also have "\<dots> = run_ops ?deletes m k"
    proof (rule run_ops_untouched)
      fix op
      assume "op \<in> set (V @ W)"
      moreover have "avoids (CHR 0x04) V" using V(2) by simp
      ultimately show "\<not> touches op k" using W(2) k unfolding avoids_def by (metis Un_iff set_append)
    qed
    also have "\<dots> = None"
      using in_range_prefixBounds [of "CHR 0x04" k] k(1) by (simp add: install_prefixes_def delete_prefix_def case_prod_unfold)
    finally show ?thesis .
  qed
  show thesis by (rule that [OF origins four seg [unfolded sources] S(1)]) (use eight gone in blast)+
qed

section \<open>Reading the requests of the image back\<close>

text \<open>
  What the codecs have to do for an image: lengths fit into 32 bits, segments of its events can be encoded.
\<close>

definition image_ok :: "'db storage_env \<Rightarrow> EngineSnapshot \<Rightarrow> bool" where
  "image_ok E snapshot \<longleftrightarrow>
     (\<forall>request \<in> set (es_Requests snapshot). short32 (rr_RequestID request) \<and> short32 (rr_RequestHash request) \<and>
        short32 (rs_WorkflowID (rr_Result request))) \<and>
     (\<forall>segment. validEventSegment (io_digest E) segment \<longrightarrow>
        set (sg_Events segment) \<subseteq> (\<Union>request \<in> set (es_Requests snapshot). set (rs_Events (rr_Result request))) \<longrightarrow>
        json_ok (io_eventSegment E) segment)"

lemma image_receipt_ok:
  assumes "request_ok request" "validEventSegment H segment" "set (rs_Events (rr_Result request)) \<subseteq> set (sg_Events segment)"
  shows "receipt_ok H (image_receipt origin request)"
proof -
  have "ev_ID event = EventID H (ev_WorkflowID event) (ev_Sequence event) (ev_Kind event) \<and> 0 \<le> ev_At event"
    if "event \<in> set (rs_Events (rr_Result request))" for event
    using that assms(3) validEventSegment_nth [OF assms(2)] by (fastforce simp: in_set_conv_nth segment_event_def)
  with assms(1) show ?thesis
    by (simp add: receipt_ok_def request_ok_def image_receipt_def event_of_request_def Let_def)
qed

lemma installed_segment:
  assumes P: "pebble_ok (io_pebble E) view" and S: "snappy_ok (io_snappy E)" and ok: "image_ok E snapshot"
    and seg: "buildEventSegments (io_digest E) (map (image_source origins) (es_Requests snapshot)) True = Inr segments"
    and enc: "encodeEventSegments E procs segments workers = map Inr skvs"
    and eight: "\<exists>m'. \<forall>k. prefix [CHR 0x08] k \<longrightarrow> view (so_db t) k = run_ops (sets skvs) m' k"
    and request: "request \<in> set (es_Requests snapshot)"
  shows "\<exists>segment. find_segment E t (materializedSegmentKey (CHR 0x08) (rs_WorkflowID (rr_Result request))
        (as_Index (origin_of origins request))) None = Inr (segment, None) \<and>
    validEventSegment (io_digest E) segment \<and> set (rs_Events (rr_Result request)) \<subseteq> set (sg_Events segment)"
proof -
  from eight obtain m' where at_eight: "\<And>k. prefix [CHR 0x08] k \<Longrightarrow> view (so_db t) k = run_ops (sets skvs) m' k" by blast
  have encodable: "json_ok (io_eventSegment E) segment" if "validEventSegment (io_digest E) segment"
      "set (sg_Events segment) \<subseteq> (\<Union>source \<in> set (map (image_source origins) (es_Requests snapshot)). set (sr_events source))" for segment
    using ok that by (simp add: image_ok_def image_source_def)
  have short: "short32 (sr_workflowID source)" if "source \<in> set (map (image_source origins) (es_Requests snapshot))" for source
    using that ok by (auto simp: image_source_def image_ok_def)
  have "image_source origins request \<in> set (map (image_source origins) (es_Requests snapshot))" using request by simp
  from source_readable [OF P S seg enc at_eight encodable short this] show ?thesis by (simp add: image_source_def)
qed

lemma installed_receipt:
  assumes P: "pebble_ok (io_pebble E) view" and S: "snappy_ok (io_snappy E)" and ok: "image_ok E (si_Engine img)"
    and plan: "plan_install E procs img = Inr ops" and db: "view (so_db t) = run_ops ops m"
    and restored: "Restore (io_digest E) (si_Engine img) = Inr engine" and applied: "so_applied t = si_AppliedIndex img"
    and request: "request \<in> set (es_Requests (si_Engine img))"
  shows "\<exists>outcome \<in> set (si_Outcomes img). oc_Code outcome = '''' \<and>
    outcome_key outcome = origin_key (rr_RequestID request) (rr_RequestHash request) \<and>
    recorded E t (rr_RequestID request) (image_receipt (outcome_origin outcome) request)"
    and "\<forall>outcome \<in> set (si_Outcomes img). oc_Code outcome = '''' \<longrightarrow>
      outcome_key outcome = origin_key (rr_RequestID request) (rr_RequestHash request) \<longrightarrow>
      recorded E t (rr_RequestID request) (image_receipt (outcome_origin outcome) request)"
proof -
  let ?requests = "es_Requests (si_Engine img)"
  note R = Restore_requests [OF restored]
  from ok have short: "\<forall>request \<in> set ?requests. short32 (rr_RequestID request)" by (simp add: image_ok_def)
  obtain origins segments skvs where origins: "origins_ok img (set (si_Outcomes img)) origins"
    and written: "\<forall>request \<in> set ?requests. receipt_staged origins ops request"
    and seg: "buildEventSegments (io_digest E) (map (image_source origins) ?requests) True = Inr segments"
    and enc: "encodeEventSegments E procs segments applicationEncodingWorkers = map Inr skvs"
    and eight: "\<forall>m. \<exists>m'. \<forall>k. prefix [CHR 0x08] k \<longrightarrow> run_ops ops m k = run_ops (sets skvs) m' k"
    by (rule plan_install_view [OF plan _ short]) (use R in simp_all)
  let ?origin = "origin_of origins request" and ?id = "rr_RequestID request"
  from written request obtain r data where rec: "compactReceipt (image_receipt ?origin request) = Inr r" "encodeReceiptRecord r = Inr data"
    and got: "view (so_db t) (segmentedKey (CHR 0x04) [?id]) = Some data"
    and key: "map_of origins (origin_key ?id (rr_RequestHash request)) = Some ?origin"
    by (auto simp: receipt_staged_def db)
  note f = compactReceipt_Inr [OF rec(1)]
  have ids: "rc_RequestID r = ?id" "rc_WorkflowID r = rs_WorkflowID (rr_Result request)" "rc_AppliedIndex r = as_Index ?origin"
    "rc_RequestHash r = rr_RequestHash request"
    using f(2,3,4,6) by (simp_all add: image_receipt_def)
  have "short32 (rc_RequestID r)" "short32 (rc_RequestHash r)" "short32 (rc_WorkflowID r)"
    using ok request by (simp_all add: ids image_ok_def)
  from length_receipt_body [OF this] rec(2) have "length data < 2 ^ 64" by (auto simp: encodeReceiptRecord_body split: if_splits)
  note decoded = decode_encodeReceiptRecord [OF rec(2) this]
  from origins key obtain outcome where outcome: "outcome \<in> set (si_Outcomes img)" "oc_Code outcome = ''''"
    "outcome_key outcome = origin_key ?id (rr_RequestHash request)" "?origin = outcome_origin outcome" "as_Index ?origin \<le> si_AppliedIndex img"
    unfolding origins_ok_def by metis
  obtain segment where
    segment: "find_segment E t (materializedSegmentKey (CHR 0x08) (rc_WorkflowID r) (rc_AppliedIndex r)) None = Inr (segment, None)"
    "validEventSegment (io_digest E) segment" "set (rs_Events (rr_Result request)) \<subseteq> set (sg_Events segment)"
    using installed_segment [OF P S ok seg enc _ request, of t] eight by (auto simp: ids db)
  have good: "receipt_ok (io_digest E) (image_receipt ?origin request)"
    by (rule image_receipt_ok [OF _ segment(2,3)]) (use R request in blast)
  have "expand_segment (io_digest E) r segment = Inr (image_receipt ?origin request)"
    by (rule expand_compact [OF rec(1) good segment(2)]) (use segment(3) in \<open>simp add: image_receipt_def\<close>)
  then have "expandReceipt E t r = Inr (image_receipt ?origin request)"
    using outcome(5) applied by (simp add: expandReceipt_def expandReceiptCached_def ids(3) segment(1) [unfolded ids(3)] not_less Let_def)
  then have "loadReceipt E t ?id = Inr (Some (image_receipt ?origin request))"
    by (simp add: loadReceipt_def get_def pebble_get [OF P] got decoded ids(1))
  moreover have "?id \<noteq> ''''" using f(11) by (simp add: validReceiptRecord_def ids(1))
  ultimately have rec: "recorded E t ?id (image_receipt ?origin request)"
    using ok request by (simp add: recorded_def image_ok_def) (simp add: image_receipt_def)
  with outcome show "\<exists>outcome \<in> set (si_Outcomes img). oc_Code outcome = '''' \<and>
    outcome_key outcome = origin_key ?id (rr_RequestHash request) \<and>
    recorded E t ?id (image_receipt (outcome_origin outcome) request)" by metis
  show "\<forall>outcome \<in> set (si_Outcomes img). oc_Code outcome = '''' \<longrightarrow>
      outcome_key outcome = origin_key ?id (rr_RequestHash request) \<longrightarrow>
      recorded E t ?id (image_receipt (outcome_origin outcome) request)"
    using origins key rec unfolding origins_ok_def by (metis option.inject)
qed

text \<open>Only the requests of the image have a receipt.\<close>

lemma installed_receipt_keys:
  assumes plan: "plan_install E procs img = Inr ops" and ok: "image_ok E (si_Engine img)"
    and restored: "Restore (io_digest E) (si_Engine img) = Inr engine" and "prefix [CHR 0x04] k" "run_ops ops m k \<noteq> None"
  shows "k \<in> image_key ` set (es_Requests (si_Engine img))"
proof -
  from ok have short: "\<forall>request \<in> set (es_Requests (si_Engine img)). short32 (rr_RequestID request)" by (simp add: image_ok_def)
  have dist: "distinct (map rr_RequestID (es_Requests (si_Engine img)))" using Restore_requests [OF restored] by simp
  obtain origins where "origins_ok img (set (si_Outcomes img)) origins"
    and none: "\<forall>k m. prefix [CHR 0x04] k \<longrightarrow> k \<notin> image_key ` set (es_Requests (si_Engine img)) \<longrightarrow> run_ops ops m k = None"
    by (rule plan_install_view [OF plan dist short])
  show ?thesis by (rule ccontr) (use none [rule_format, OF assms(4), of m] assms(5) in simp)
qed

lemma installed_absent:
  assumes plan: "plan_install E procs img = Inr ops" and ok: "image_ok E (si_Engine img)"
    and restored: "Restore (io_digest E) (si_Engine img) = Inr engine"
    and i: "short32 requestID" "requestID \<notin> rr_RequestID ` set (es_Requests (si_Engine img))"
  shows "run_ops ops m (segmentedKey (CHR 0x04) [requestID]) = None"
proof (rule ccontr)
  let ?k = "segmentedKey (CHR 0x04) [requestID]"
  assume "run_ops ops m ?k \<noteq> None"
  from installed_receipt_keys [OF plan ok restored _ this] obtain request where
    r: "request \<in> set (es_Requests (si_Engine img))" "?k = segmentedKey (CHR 0x04) [rr_RequestID request]"
    by (auto simp: image_key_def)
  then have "short32 (rr_RequestID request)" using ok by (simp add: image_ok_def)
  with segmentedKey_inj [OF _ _ r(2)] i r(1) show False by auto
qed

end
