(* ===== verification/Chronos_Served.thy ===== *)
theory Chronos_Served
  imports Chronos_Installed
begin

text \<open>
  Accepted requests over the calls of the store: what one committed batch of \<^verbatim>\<open>applyEntries\<close> adds and keeps,
  what the calls that leave the application alone keep, and what opening the database again finds.
\<close>

section \<open>Records over one call\<close>

text \<open>The keys of the receipts, of their events, and of the position up to which entries were applied.\<close>

definition app_key :: "bytes \<Rightarrow> bool" where
  "app_key k \<longleftrightarrow> k = appliedKey \<or> prefix [CHR 0x04] k \<or> prefix [CHR 0x08] k"

definition same_app :: "('db \<Rightarrow> contents) \<Rightarrow> 'db \<Rightarrow> 'db \<Rightarrow> bool" where
  "same_app view d d' \<longleftrightarrow> (\<forall>k. app_key k \<longrightarrow> view d' k = view d k)"

definition entries_ok :: "'db storage_env \<Rightarrow> ApplicationEntry list \<Rightarrow> bool" where
  "entries_ok E entries \<longleftrightarrow>
     segments_encode E entries \<and> (\<forall>entry \<in> set entries. \<forall>batch \<in> set (ae_Batches entry). short_ids batch)"

lemma same_app_refl [simp]: "same_app view d d" by (simp add: same_app_def)

lemma same_app_trans [trans]: "same_app view d d' \<Longrightarrow> same_app view d' d'' \<Longrightarrow> same_app view d d''"
  by (simp add: same_app_def)

lemma same_app_sym: "same_app view d d' \<Longrightarrow> same_app view d' d"
  by (simp add: same_app_def)

lemma app_key_simps [simp]:
  "app_key appliedKey" "app_key (segmentedKey (CHR 0x04) parts)" "app_key (materializedSegmentKey (CHR 0x08) w i)"
  by (simp_all add: app_key_def segmentedKey_def materializedSegmentKey_def)

lemma recorded_cong:
  assumes "pebble_ok (io_pebble E) view" "recorded E s requestID receipt"
    and "same_app view (so_db s) (so_db t)" "so_applied s \<le> so_applied t"
  shows "recorded E t requestID receipt"
  by (rule receipt_kept [OF assms(1,2) _ _ assms(4)]) (use assms(3) in \<open>simp_all add: same_app_def\<close>)

lemma not_duplicate: "\<not> rs_Duplicate r \<Longrightarrow> r\<lparr>rs_Duplicate := False\<rparr> = r"
  by (cases r) simp

lemma committed_accepted:
  assumes P: "pebble_ok (io_pebble E) view" and S: "snappy_ok (io_snappy E)" and ok: "entries_ok E entries"
    and comm: "committed_plan E procs s entries workers owned plan db"
    and t: "same_app view db (so_db t)" "so_applied t = ae_Index (last entries)"
  shows "\<forall>item \<in> set (pa_accepted plan). recorded E t (cb_RequestID (aa_batch item)) (accepted_receipt item)"
    and "filter accepted_outcome (pa_outcomes plan) = map item_outcome (pa_accepted plan)"
    and "distinct (map (cb_RequestID \<circ> aa_batch) (pa_accepted plan))"
    and "length (pa_accepted plan) \<le> length (entry_commands entries)"
proof -
  from ok have J: "segments_encode E entries" and short: "\<forall>entry \<in> set entries. \<forall>batch \<in> set (ae_Batches entry). short_ids batch"
    by (simp_all add: entries_ok_def)
  from comm short obtain applications states resident where
    settle: "foldE (settle E s) ([], []) (zip (entry_commands entries) applications) = Inr (pa_outcomes plan, pa_accepted plan)"
    and plan: "plan_application E procs workers entries (pa_outcomes plan) (pa_accepted plan) states resident = Inr (pa_ops plan)"
    and commit: "pb_Commit (io_pebble E) (so_db s) True (pa_ops plan) = Inr db"
    and dist: "distinct (map (cb_RequestID \<circ> aa_batch) (pa_accepted plan))"
    and items: "\<forall>item \<in> set (pa_accepted plan). item_ok (io_digest E) entries item \<and> so_applied s < ae_Index (aa_entry item) \<and>
       ae_Index (aa_entry item) \<le> ae_Index (last entries)"
    and acc: "pa_accepted plan = map accepted_item (filter (accepted_answer \<circ> snd) (zip (entry_commands entries) applications))"
    by (rule applied_facts)
  show "distinct (map (cb_RequestID \<circ> aa_batch) (pa_accepted plan))" by (rule dist)
  show "filter accepted_outcome (pa_outcomes plan) = map item_outcome (pa_accepted plan)"
    using settle_all [OF settle] by simp
  show "length (pa_accepted plan) \<le> length (entry_commands entries)"
    by (simp add: acc) (rule order_trans [OF length_filter_le], simp)
  show "\<forall>item \<in> set (pa_accepted plan). recorded E t (cb_RequestID (aa_batch item)) (accepted_receipt item)"
  proof
    fix item
    assume item: "item \<in> set (pa_accepted plan)"
    let ?d = "t\<lparr>so_db := db\<rparr>"
    have "loadReceipt E ?d (cb_RequestID (aa_batch item)) = Inr (Some (accepted_receipt item)) \<and> cb_RequestID (aa_batch item) \<noteq> ''''"
      by (rule receipt_readable [OF P S J plan _ _ item dist])
        (use items item pebble_commit [OF P commit] t(2) in auto)
    moreover have "item_ok (io_digest E) entries item" using items item by blast
    then have "short32 (cb_RequestID (aa_batch item))" "short32 (cb_WorkflowID (aa_batch item))"
      "rs_WorkflowID (aa_result item) = cb_WorkflowID (aa_batch item)"
      unfolding item_ok_def short_ids_def good_result_def by blast+
    ultimately have "recorded E ?d (cb_RequestID (aa_batch item)) (accepted_receipt item)"
      by (simp add: recorded_def) (simp add: accepted_receipt_def)
    from recorded_cong [OF P this] t(1)
    show "recorded E t (cb_RequestID (aa_batch item)) (accepted_receipt item)" by simp
  qed
qed

lemma outcome_from_receipt:
  assumes "\<not> rs_Duplicate (aa_result item)"
  shows "outcomeFromReceipt (accepted_receipt item) = item_outcome item" "oc_RequestID (item_outcome item) = cb_RequestID (aa_batch item)"
  using assms by (simp_all add: outcomeFromReceipt_def accepted_receipt_def item_outcome_def base_outcome_def not_duplicate)

lemma committed_records:
  assumes P: "pebble_ok (io_pebble E) view" and ok: "entries_ok E entries"
    and comm: "committed_plan E procs s entries workers owned plan db"
    and rec: "on_record E s requestID receipt"
  shows "\<forall>t. same_app view db (so_db t) \<longrightarrow> so_applied t = ae_Index (last entries) \<longrightarrow> recorded E t requestID receipt"
    and "\<forall>item \<in> set (pa_accepted plan). cb_RequestID (aa_batch item) \<noteq> requestID"
    and "\<forall>outcome \<in> set (pa_outcomes plan). oc_RequestID outcome = requestID \<longrightarrow>
       oc_Code outcome = ''request_conflict'' \<or>
       rs_Duplicate (oc_Result outcome) \<and> oc_AppliedIndex outcome = rt_AppliedIndex receipt \<and>
         oc_CommittedTerm outcome = rt_CommittedTerm receipt"
proof -
  from ok have short: "\<forall>entry \<in> set entries. \<forall>batch \<in> set (ae_Batches entry). short_ids batch" by (simp add: entries_ok_def)
  from comm short obtain applications states resident where
    settle: "foldE (settle E s) ([], []) (zip (entry_commands entries) applications) = Inr (pa_outcomes plan, pa_accepted plan)"
    and plan: "plan_application E procs workers entries (pa_outcomes plan) (pa_accepted plan) states resident = Inr (pa_ops plan)"
    and commit: "pb_Commit (io_pebble E) (so_db s) True (pa_ops plan) = Inr db"
    and items: "\<forall>item \<in> set (pa_accepted plan). item_ok (io_digest E) entries item \<and> so_applied s < ae_Index (aa_entry item) \<and>
       ae_Index (aa_entry item) \<le> ae_Index (last entries)"
    and known: "\<forall>requestID receipt. on_record E s requestID receipt \<longrightarrow>
       list_all2 (\<lambda>c a. cb_RequestID (snd c) = requestID \<longrightarrow> \<not> accepted_answer a) (entry_commands entries) applications"
    and applied: "so_applied s < ae_Index (last entries)"
    and acc: "pa_accepted plan = map accepted_item (filter (accepted_answer \<circ> snd) (zip (entry_commands entries) applications))"
    by (rule applied_facts)
  have "list_all2 (\<lambda>c a. cb_RequestID (snd c) = requestID \<longrightarrow> \<not> accepted_answer a) (entry_commands entries) applications"
    using known rec by blast
  then have refused: "\<not> accepted_answer (snd x)" if "x \<in> set (zip (entry_commands entries) applications)"
      "cb_RequestID (snd (fst x)) = requestID" for x
    using that by (auto simp: list_all2_iff)
  show other: "\<forall>item \<in> set (pa_accepted plan). cb_RequestID (aa_batch item) \<noteq> requestID"
    using refused by (auto simp: acc accepted_item_def)
  obtain segments tasks rkvs skvs where build: "buildAcceptedSegments (io_digest E) (pa_accepted plan) states = Inr (segments, tasks)"
    and r: "encodeAcceptedReceipts procs (pa_accepted plan) states workers = map Inr rkvs"
    and s: "encodeEventSegments E procs segments workers = map Inr skvs"
    and v: "\<forall>m k. prefix [CHR 0x04] k \<longrightarrow> run_ops (pa_ops plan) m k = run_ops (sets rkvs) m k"
      "\<forall>m k. prefix [CHR 0x08] k \<longrightarrow> run_ops (pa_ops plan) m k = run_ops (sets skvs) m k"
    by (rule plan_application_view [OF plan])
  have view: "view db = run_ops (pa_ops plan) (view (so_db s))" by (rule pebble_commit [OF P commit])
  have on_disk: "recorded E s requestID receipt" using rec by (simp add: on_record_def)
  have "view db (segmentedKey (CHR 0x04) [requestID]) = view (so_db s) (segmentedKey (CHR 0x04) [requestID])"
    unfolding view using v(1) other_receipt_key [OF r, of requestID] on_disk other items
    by (simp add: recorded_def item_ok_def short_ids_def)
  moreover have "view db (materializedSegmentKey (CHR 0x08) w index) = view (so_db s) (materializedSegmentKey (CHR 0x08) w index)"
    if "short32 w" "index \<le> so_applied s" for w index
  proof -
    have "\<forall>item \<in> set (pa_accepted plan). short32 (cb_WorkflowID (aa_batch item)) \<and> index < ae_Index (aa_entry item)"
      using items that(2) by (auto simp: item_ok_def short_ids_def)
    from other_segment_key [OF build s this that(1)] show ?thesis unfolding view using v(2) by simp
  qed
  ultimately show "\<forall>t. same_app view db (so_db t) \<longrightarrow> so_applied t = ae_Index (last entries) \<longrightarrow> recorded E t requestID receipt"
    using applied by (intro allI impI) (rule receipt_kept [OF P on_disk], auto simp: same_app_def)
  have load: "loadReceipt E s requestID = Inr (Some receipt)" using on_disk by (simp add: recorded_def)
  show "\<forall>outcome \<in> set (pa_outcomes plan). oc_RequestID outcome = requestID \<longrightarrow>
       oc_Code outcome = ''request_conflict'' \<or>
       rs_Duplicate (oc_Result outcome) \<and> oc_AppliedIndex outcome = rt_AppliedIndex receipt \<and>
         oc_CommittedTerm outcome = rt_CommittedTerm receipt"
  proof (intro ballI impI)
    fix outcome
    assume o: "outcome \<in> set (pa_outcomes plan)" "oc_RequestID outcome = requestID"
    from settle_each [OF settle] o(1) obtain x where x: "x \<in> set (zip (entry_commands entries) applications)"
      "from_item E s (pa_accepted plan) outcome x" by blast
    then have i: "cb_RequestID (snd (fst x)) = requestID" using o(2) by (simp add: from_item_def)
    from x(2) refused [OF x(1) i] consider "oc_Code outcome = ''request_conflict''"
      | earlier origin where "rs_Duplicate (oc_Result outcome)" "set earlier \<subseteq> set (pa_accepted plan)"
        "duplicate_origin E s (snd (fst x)) earlier = Inr origin"
        "oc_AppliedIndex outcome = as_Index (origin :: AppliedState)" "oc_CommittedTerm outcome = as_Term origin"
      unfolding from_item_def by blast
    then show "oc_Code outcome = ''request_conflict'' \<or> rs_Duplicate (oc_Result outcome) \<and>
        oc_AppliedIndex outcome = rt_AppliedIndex receipt \<and> oc_CommittedTerm outcome = rt_CommittedTerm receipt"
    proof cases
      case 2
      have "\<forall>item \<in> set earlier. cb_RequestID (aa_batch item) \<noteq> cb_RequestID (snd (fst x))" using 2(2) other i by auto
      from origin_on_record [OF 2(3) _ this, of receipt] 2 load i show ?thesis by simp
    qed simp
  qed
qed

section \<open>Opening the database again\<close>

definition spares :: "write_op \<Rightarrow> bool" where
  "spares op \<longleftrightarrow> (\<forall>k. touches op k \<longrightarrow> \<not> app_key k)"

lemma spares_simps [simp]:
  "spares (OpSet k v) \<longleftrightarrow> \<not> app_key k" "spares (OpDelete k) \<longleftrightarrow> \<not> app_key k"
  by (simp_all add: spares_def)

lemma app_key_other [simp]:
  "\<not> app_key activeIndexKey" "\<not> app_key (segmentedKey (CHR 0x09) parts)" "\<not> app_key (segmentedKey (CHR 0x0A) parts)"
  by (auto simp: app_key_def meta_keys segmentedKey_def)

lemma spares_same_app:
  assumes "pebble_ok (io_pebble E) view" "pb_Commit (io_pebble E) d sync ops = Inr d'" "list_all spares ops"
  shows "same_app view d d'"
  unfolding same_app_def pebble_commit [OF assms(1,2)]
  by (intro allI impI run_ops_untouched) (use assms(3) in \<open>auto simp: list_all_iff spares_def\<close>)

lemma spares_delete_prefix: "pre \<in> {CHR 0x09, CHR 0x0A} \<Longrightarrow> spares (delete_prefix pre)"
  using in_range_prefixBounds [of pre]
  by (auto simp: spares_def delete_prefix_def prefixBounds_def app_key_def meta_keys prefix_def)

lemma plan_active_index_spares:
  assumes "plan_active_index E s = Inr ops"
  shows "list_all spares ops"
proof -
  from assms obtain states receipts acc active a where
    acc: "foldE (index_state E) ([], [delete_prefix (CHR 0x09), delete_prefix (CHR 0x0A)]) states = Inr acc"
    and a: "foldE (index_receipt E) acc receipts = Inr (active, a)"
    and ops: "ops = a @ [OpSet activeIndexKey activeIndexValue]"
    by (auto simp: plan_active_index_def result_simps split: if_splits)
  have "list_all spares (snd acc)"
    by (rule foldE_keeps [OF acc, of "\<lambda>p. list_all spares (snd p)"])
      (auto simp: index_state_def result_simps spares_delete_prefix split: if_splits)
  then have "list_all spares (snd (active, a))"
    by (rule foldE_keeps [OF a, of "\<lambda>p. list_all spares (snd p)"])
      (auto simp: index_receipt_def result_simps split: if_splits)
  with ops show ?thesis by simp
qed

lemma ensureActiveIndex_app:
  assumes P: "pebble_ok (io_pebble E) view" and ensure: "ensureActiveIndex E s = (s', r)"
  shows "same_app view (so_db s) (so_db s')"
proof (cases "s' = s")
  case False
  let ?plan = "bindE (plan_active_index E s) (\<lambda>ops. bindE (hit s ActiveIndexBeforeSync) (\<lambda>_. Inr ops))"
  from ensure False obtain ops where ops: "?plan = Inr ops" "pb_Commit (io_pebble E) (so_db s) True ops = Inr (so_db s')"
    by (auto simp: ensureActiveIndex_def Let_def split: sum.splits option.splits)
  then have "list_all spares ops" by (auto simp: result_simps intro: plan_active_index_spares)
  with spares_same_app [OF P ops(2)] show ?thesis by simp
qed simp

text \<open>The filter that is rebuilt holds every request with a receipt.\<close>

definition receipt_keys :: "('db \<Rightarrow> contents) \<Rightarrow> 'db \<Rightarrow> bytes set" where
  "receipt_keys view d = {k. prefix [CHR 0x04] k \<and> view d k \<noteq> None}"

lemma same_app_receipt_keys: "same_app view d d' \<Longrightarrow> receipt_keys view d' = receipt_keys view d"
  by (auto simp: receipt_keys_def same_app_def app_key_def)

lemma scan_receipts:
  assumes "pebble_ok (io_pebble E) view" "scan_bounds E s (CHR 0x04) = Inr kvs"
  shows "fst ` set kvs = receipt_keys view (so_db s)" "length kvs = card (receipt_keys view (so_db s))"
    "finite (receipt_keys view (so_db s))"
proof -
  from pebble_scan [OF assms(1), of "so_db s" "fst (prefixBounds (CHR 0x04))" "Some (snd (prefixBounds (CHR 0x04)))"] assms(2)
  have kvs: "sorted_wrt (<) (map fst kvs)" "set kvs = {(k, v). view (so_db s) k = Some v \<and>
      in_range (fst (prefixBounds (CHR 0x04))) (Some (snd (prefixBounds (CHR 0x04)))) k}"
    by (auto simp: scan_bounds_def case_prod_unfold)
  have "in_range (fst (prefixBounds (CHR 0x04))) (Some (snd (prefixBounds (CHR 0x04)))) k \<longleftrightarrow> prefix [CHR 0x04] k" for k
    by (rule in_range_prefixBounds) simp
  then have "(\<exists>v. (k, v) \<in> set kvs) \<longleftrightarrow> k \<in> receipt_keys view (so_db s)" for k
    by (auto simp: kvs(2) receipt_keys_def)
  moreover have "k \<in> fst ` set kvs \<longleftrightarrow> (\<exists>v. (k, v) \<in> set kvs)" for k by (force simp: image_iff)
  ultimately show fst: "fst ` set kvs = receipt_keys view (so_db s)" by blast
  have "distinct (map fst kvs)" using kvs(1) by (simp add: strict_sorted_iff)
  from distinct_card [OF this] show "length kvs = card (receipt_keys view (so_db s))" using fst by simp
  show "finite (receipt_keys view (so_db s))" unfolding fst [symmetric] by simp
qed

lemma filter_ok_mono: "filter_ok n f \<Longrightarrow> n \<le> m \<Longrightarrow> filter_ok m f"
  unfolding filter_ok_def by (meson order_trans)

lemma stream_ids_ok:
  assumes "stream_ids hash pre ids kvs f = Inr g" "filter_ok n f" "n + length ids + length kvs \<le> 2 ^ 59"
  shows "filter_ok (n + length ids + length kvs) g \<and>
    (\<forall>v. v \<in> set ids \<or> filter_contains hash f v \<or> (\<exists>key \<in> fst ` set kvs. segmentedValues key pre 1 = Some [v]) \<longrightarrow>
       filter_contains hash g v)"
  using assms
proof (induction hash pre ids kvs f arbitrary: n rule: stream_ids.induct)
  case (1 hash pre ids f)
  with addAll_ok [of n f ids hash] show ?case by simp
next
  case (2 hash pre ids key val kvs f)
  from 2(3) obtain v vs where key: "segmentedValues key pre 1 = Some (v # vs)"
    and rest: "(if length (ids @ [v]) = membershipChunkSize then stream_ids hash pre [] kvs (addAll hash (ids @ [v]) f)
      else stream_ids hash pre (ids @ [v]) kvs f) = Inr g"
    by (auto simp: Let_def split: option.splits list.splits)
  show ?case
  proof (cases "length (ids @ [v]) = membershipChunkSize")
    case True
    note add = addAll_ok [OF 2(4), of "ids @ [v]" hash]
    have few: "n + length (ids @ [v]) \<le> 2 ^ 59" using 2(5) by simp
    have "filter_ok (n + length (ids @ [v]) + length ([] :: string list) + length kvs) g \<and>
        (\<forall>w. w \<in> set [] \<or> filter_contains hash (addAll hash (ids @ [v]) f) w \<or>
           (\<exists>key \<in> fst ` set kvs. segmentedValues key pre 1 = Some [w]) \<longrightarrow> filter_contains hash g w)"
      by (rule 2(1) [OF key refl refl True]) (use True rest add [OF few] 2(5) in simp_all)
    with add [OF few] key show ?thesis by auto
  next
    case False
    have "filter_ok (n + length (ids @ [v]) + length kvs) g \<and>
        (\<forall>w. w \<in> set (ids @ [v]) \<or> filter_contains hash f w \<or>
           (\<exists>key \<in> fst ` set kvs. segmentedValues key pre 1 = Some [w]) \<longrightarrow> filter_contains hash g w)"
      by (rule 2(2) [OF key refl refl False _ 2(4)]) (use False rest 2(5) in simp_all)
    with key show ?thesis by auto
  qed
qed

lemma recorded_key:
  assumes "pebble_ok (io_pebble E) view" "recorded E s requestID receipt"
  shows "segmentedKey (CHR 0x04) [requestID] \<in> receipt_keys view (so_db s)"
  using assms(2)
  by (auto simp: recorded_def receipt_keys_def loadReceipt_def get_def pebble_get [OF assms(1)] result_simps
      segmentedKey_def split: option.splits)

lemma rebuild_contains:
  assumes P: "pebble_ok (io_pebble E) view" and re: "rebuildDurableMembership E s = Inr t"
    and few: "card (receipt_keys view (so_db s)) \<le> n" "n \<le> 2 ^ 59"
  obtains m where "so_membership t = Some m" "filter_ok n (dm_receipts m)"
    "\<forall>requestID receipt. recorded E t requestID receipt \<longrightarrow> filter_contains (io_receiptHash E) (dm_receipts m) requestID"
proof -
  from re obtain kvs receipts workflows where kvs: "scan_bounds E s (CHR 0x04) = Inr kvs"
    and ids: "stream_ids (io_receiptHash E) (CHR 0x04) [] kvs (replicate membershipShardCount None) = Inr receipts"
    and t: "t = s\<lparr>so_membership := Some \<lparr>dm_receipts = receipts, dm_workflows = workflows\<rparr>\<rparr>"
    by (auto simp: rebuildDurableMembership_def streamMembershipIDs_def newDurableMembership_def newMembershipFilter_def
        addAll_def result_simps Let_def)
  note scan = scan_receipts [OF P kvs]
  have len: "length kvs \<le> n" using few(1) scan(2) by simp
  have all: "filter_ok (length kvs) receipts \<and>
    (\<forall>v. (\<exists>key \<in> fst ` set kvs. segmentedValues key (CHR 0x04) 1 = Some [v]) \<longrightarrow> filter_contains (io_receiptHash E) receipts v)"
    using stream_ids_ok [OF ids filter_ok_new] len few(2) by simp
  show thesis
  proof (rule that)
    show "so_membership t = Some \<lparr>dm_receipts = receipts, dm_workflows = workflows\<rparr>" by (simp add: t)
    show "filter_ok n (dm_receipts \<lparr>dm_receipts = receipts, dm_workflows = workflows\<rparr>)"
      using all len by (auto intro: filter_ok_mono)
    show "\<forall>requestID receipt. recorded E t requestID receipt \<longrightarrow>
        filter_contains (io_receiptHash E) (dm_receipts \<lparr>dm_receipts = receipts, dm_workflows = workflows\<rparr>) requestID"
    proof (intro allI impI)
      fix requestID receipt
      assume rec: "recorded E t requestID receipt"
      have "segmentedKey (CHR 0x04) [requestID] \<in> fst ` set kvs"
        using recorded_key [OF P rec] unfolding scan(1) by (simp add: t)
      moreover have "segmentedValues (segmentedKey (CHR 0x04) [requestID]) (CHR 0x04) 1 = Some [requestID]"
        using segmentedValues_segmentedKey [of "[requestID]" "CHR 0x04"] rec by (simp add: recorded_def)
      ultimately show "filter_contains (io_receiptHash E) (dm_receipts \<lparr>dm_receipts = receipts, dm_workflows = workflows\<rparr>) requestID"
        using all by (metis durableMembership.select_convs(1))
    qed
  qed
qed

text \<open>The position up to which entries were applied, on the disk.\<close>

definition applied_at :: "'db storage_env \<Rightarrow> contents \<Rightarrow> uint64 \<Rightarrow> uint64 \<Rightarrow> bool" where
  "applied_at E m index tm \<longleftrightarrow>
     (\<exists>data. m appliedKey = Some data \<and>
        decodeJSON (io_snappy E) (io_appliedState E) data = Inr \<lparr>as_Index = index, as_Term = tm\<rparr>)"

lemma applied_at_cong: "same_app view d d' \<Longrightarrow> applied_at E (view d') index tm = applied_at E (view d) index tm"
  by (simp add: applied_at_def same_app_def)

lemma loadApplication_app:
  assumes P: "pebble_ok (io_pebble E) view" and la: "loadApplication E procs s = (s', Inr u)"
    and disk: "applied_at E (view (so_db s)) index tm" "sn_Index (so_snapshot s) \<le> index"
  shows "same_app view (so_db s) (so_db s') \<and> so_applied s' = index \<and> so_appliedTerm s' = tm"
proof -
  from disk(1) obtain data where "view (so_db s) appliedKey = Some data"
    "decodeJSON (io_snappy E) (io_appliedState E) data = Inr \<lparr>as_Index = index, as_Term = tm\<rparr>"
    by (auto simp: applied_at_def)
  then have applied: "bindE (get_present E s appliedKey) (decodeJSON (io_snappy E) (io_appliedState E)) =
      Inr \<lparr>as_Index = index, as_Term = tm\<rparr>"
    by (simp add: get_present_def get_def pebble_get [OF P])
  obtain t q where t: "ensureActiveIndex E s = (t, q)" by (cases "ensureActiveIndex E s")
  have new: "\<not> index < sn_Index (so_snapshot s)" using disk(2) by simp
  have "so_db s' = so_db t \<and> so_applied s' = index \<and> so_appliedTerm s' = tm"
  proof (cases "validateApplicationLog E s \<lparr>as_Index = index, as_Term = tm\<rparr>")
    case (Inr x)
    with la have "(case (t, q) of
        (s, Inl e) \<Rightarrow> (s, Inl e)
      | (s, Inr _) \<Rightarrow>
          let s = s\<lparr>so_applied := index, so_appliedTerm := tm\<rparr> in
          (case loadActiveEngine E s of
             Inl e \<Rightarrow> (s, Inl e)
           | Inr engine \<Rightarrow> (attachEngine E (s\<lparr>so_engine := engine\<rparr>), Inr ()))) = (s', Inr u)"
      by (simp only: loadApplication_def applied sum.case if_not_P [OF new] AppliedState.select_convs t)
    then show ?thesis by (auto simp: Let_def attachEngine_def split: sum.splits)
  qed (use la new in \<open>simp add: loadApplication_def applied\<close>)
  with ensureActiveIndex_app [OF P t] show ?thesis by simp
qed

lemma load_app:
  assumes P: "pebble_ok (io_pebble E) view" and C: "raft_codecs_ok E"
    and D: "raft_inv E view s" and db: "so_db v = so_db s" and load: "load E procs v voters = Inr u"
    and disk: "applied_at E (view (so_db s)) index tm" "sn_Index (so_snapshot s) \<le> index"
  obtains w where "same_app view (so_db s) (so_db u)" "so_applied u = index" "so_appliedTerm u = tm"
    "so_db w = so_db u" "rebuildDurableMembership E w = Inr u"
proof -
  let ?t = "same_raft s v"
  from D obtain data where data: "view (so_db v) schemaKey = Some data" using db by (auto simp: raft_inv_def)
  then have "ensure_schema E v voters = Inr (v, data)"
    by (simp add: ensure_schema_def get_def pebble_get [OF P])
  moreover have "loadRaft E v = Inr ?t" by (rule loadRaft_durable [OF P C _ db]) (use D in \<open>simp add: raft_inv_def\<close>)
  ultimately obtain w q where w: "loadApplication E procs ?t = (w, Inr q)"
    and rest: "(case (if so_applied w < sn_Index (so_snapshot w) then installSnapshot E procs w (so_snapshot w) False
                  else (w, Inr ())) of
              (s, Inl e) \<Rightarrow> Inl e
            | (s, Inr _) \<Rightarrow>
                if hs_Commit (so_hard s) < so_applied s then Inl StoreFault
                else rebuildDurableMembership E s) = Inr u"
    using load by (cases "loadApplication E procs ?t") (auto simp: load_def result_simps split: sum.splits)
  have t: "so_db ?t = so_db s" "so_snapshot ?t = so_snapshot s" using db by (simp_all add: same_raft_def)
  have app: "same_app view (so_db s) (so_db w)" "so_applied w = index" "so_appliedTerm w = tm"
    using loadApplication_app [OF P w, of index tm] disk by (simp_all add: t)
  have "raft_part w = raft_part ?t" using loadApplication_keeps [OF P w] by (simp add: keeps_raft_def)
  then have "so_snapshot w = so_snapshot s" using t(2) by (simp add: raft_part_def)
  with rest app(2) disk(2) have re: "rebuildDurableMembership E w = Inr u"
    by (auto simp: not_less split: if_splits)
  have "so_db u = so_db w \<and> so_applied u = so_applied w \<and> so_appliedTerm u = so_appliedTerm w"
    using re by (auto simp: rebuildDurableMembership_def result_simps Let_def)
  with app re show thesis by (intro that [of w]) simp_all
qed

section \<open>Calls that leave the application alone\<close>

text \<open>
  Saving raft state that carries no snapshot of another node, changing the configuration, compacting,
  preparing commands.
\<close>

inductive upkeep :: "'db storage_env \<Rightarrow> 'db Store \<Rightarrow> 'db Store \<Rightarrow> bool \<Rightarrow> bool \<Rightarrow> bool" for E where
  up_ready: "SaveReady E s ready = (s', r) \<Longrightarrow> ready_ok ready \<Longrightarrow> io_isEmptySnap E (rd_Snapshot ready) \<Longrightarrow>
    upkeep E s s' (r = Inr ()) (ready_syncs E s ready)"
| up_conf: "SaveConfState E s conf = (s', r) \<Longrightarrow> upkeep E s s' (r = Inr ()) True"
| up_snapshot: "CreateSnapshot E s = (s', p) \<Longrightarrow> upkeep E s s' (\<not> isl p) True"
| up_prepare: "Store_Prepare E J s commands = (s', b) \<Longrightarrow> upkeep E s s' True False"

lemma upkeep_call: "upkeep E s s' ok sync \<Longrightarrow> store_call E procs s s' ok sync"
  by (induction rule: upkeep.induct) (auto intro: store_call.intros)

text \<open>The disk of a store that has applied up to \<open>index\<close> and has no snapshot beyond.\<close>

definition app_disk :: "'db storage_env \<Rightarrow> contents \<Rightarrow> uint64 \<Rightarrow> uint64 \<Rightarrow> bool" where
  "app_disk E m index tm \<longleftrightarrow>
     applied_at E m index tm \<and>
     (\<exists>data snapshot. m snapshotKey = Some data \<and> pr_Unmarshal (io_snapshot E) data = Some snapshot \<and>
        sn_Index snapshot \<le> index)"

definition same_memory :: "'db Store \<Rightarrow> 'db Store \<Rightarrow> bool" where
  "same_memory s t \<longleftrightarrow> so_applied t = so_applied s \<and> so_appliedTerm t = so_appliedTerm s \<and> so_membership t = so_membership s"

definition upkeep_ok :: "'db storage_env \<Rightarrow> ('db \<Rightarrow> contents) \<Rightarrow> 'db Store \<Rightarrow> 'db Store \<Rightarrow> bool" where
  "upkeep_ok E view s t \<longleftrightarrow>
     same_app view (so_db s) (so_db t) \<and> same_memory s t \<and>
     (app_disk E (view (so_db s)) (so_applied s) (so_appliedTerm s) \<longrightarrow>
      app_disk E (view (so_db t)) (so_applied s) (so_appliedTerm s))"

lemma upkeep_ok_refl: "upkeep_ok E view s s" by (simp add: upkeep_ok_def same_memory_def)

lemma app_disk_cong:
  "same_app view d d' \<Longrightarrow> view d' snapshotKey = view d snapshotKey \<Longrightarrow>
     app_disk E (view d') index tm = app_disk E (view d) index tm"
  by (simp add: app_disk_def applied_at_cong)

lemma app_not_raft: "app_key k \<Longrightarrow> \<not> (prefix [log_prefix] k \<or> prefix [CHR 0x03] k \<or> k \<in> {hardStateKey, confStateKey, snapshotKey})"
  by (auto simp: app_key_def log_prefix_def meta_keys prefix_def)

lemma plan_ready_app:
  assumes "pebble_ok (io_pebble E) view" "plan_ready E s ready = Inr plan" "pb_Commit (io_pebble E) (so_db s) sync (rp_ops plan) = Inr db"
  shows "same_app view (so_db s) db"
proof -
  have "\<not> touches op k" if "op \<in> set (rp_ops plan)" "app_key k" for op k
    using plan_ready_ops [OF assms(2) that(1)] app_not_raft [OF that(2)] by blast
  then show ?thesis unfolding same_app_def pebble_commit [OF assms(1,3)] by (auto intro: run_ops_untouched)
qed

lemma SaveReady_app:
  assumes P: "pebble_ok (io_pebble E) view" and save: "SaveReady E s ready = (s', r)"
    and empty: "io_isEmptySnap E (rd_Snapshot ready)"
  shows "upkeep_ok E view s s'"
proof (cases "s' = s")
  case True
  then show ?thesis by (simp add: upkeep_ok_refl)
next
  case False
  with SaveReady_cases [OF save] obtain plan db sync where plan: "plan_ready E s ready = Inr plan"
    and commit: "pb_Commit (io_pebble E) (so_db s) sync (rp_ops plan) = Inr db"
    and s': "s' = s\<lparr>so_db := db\<rparr> \<or> s' = install_plan plan (s\<lparr>so_db := db\<rparr>)" by blast
  have view: "view db = run_ops (rp_ops plan) (view (so_db s))" by (rule pebble_commit [OF P commit])
  note same = plan_ready_app [OF P plan commit]
  from plan obtain len n sets entries hard where
    c: "check_snapshot E s ready = Inr (rp_changed plan, rp_snapshot plan, rp_conf plan, len)"
    and e: "encode_entries E (rp_kept plan) = Inr entries"
    and ops: "rp_ops plan = log_cut (sn_Index (so_snapshot s) + of_nat (length (so_entryTerms s))) (rp_changed plan) (rp_kept plan)
       @ sets @ entries @ hard"
    and sets: "if rp_changed plan then \<exists>data conf. sets = [OpSet snapshotKey data, OpSet confStateKey conf] \<and>
         pr_Marshal (io_snapshot E) (rp_snapshot plan) = Some data \<and> pr_Marshal (io_conf E) (rp_conf plan) = Some conf
     else sets = []"
    and hard: "hard = [] \<and> rp_hard plan = so_hard s \<or>
       (\<exists>data. hard = [OpSet hardStateKey data] \<and> pr_Marshal (io_hard E) (rp_hard plan) = Some data)"
    by (rule plan_ready_Inr)
  have "\<not> rp_changed plan" using c empty by (simp add: check_snapshot_def)
  then have "\<not> touches op snapshotKey" if "op \<in> set (rp_ops plan)" for op
    using that ops sets hard encode_entries_Inr [OF e]
      log_cut_touches [of op _ "rp_changed plan" "rp_kept plan" snapshotKey]
    by (auto simp: disk_pair_def numberKey_def log_prefix_def meta_keys)
  then have "view db snapshotKey = view (so_db s) snapshotKey" unfolding view by (rule run_ops_untouched)
  with same s' show ?thesis by (auto simp: upkeep_ok_def same_memory_def install_plan_def Let_def app_disk_cong)
qed

lemma SaveConfState_app:
  assumes P: "pebble_ok (io_pebble E) view" and save: "SaveConfState E s conf = (s', r)"
  shows "upkeep_ok E view s s'"
proof (cases "s' = s")
  case True
  then show ?thesis by (simp add: upkeep_ok_refl)
next
  case False
  with save obtain data db where commit: "pb_Commit (io_pebble E) (so_db s) True [OpSet confStateKey data] = Inr db"
    and s': "s' = s\<lparr>so_db := db, so_conf := conf\<rparr>"
    by (auto simp: SaveConfState_def split: sum.splits)
  have view: "view db = (view (so_db s))(confStateKey \<mapsto> data)" using pebble_commit [OF P commit] by simp
  then have "same_app view (so_db s) db" using app_not_raft by (auto simp: same_app_def)
  moreover have "view db snapshotKey = view (so_db s) snapshotKey" by (simp add: view) (simp add: meta_keys)
  ultimately show ?thesis by (simp add: s' upkeep_ok_def same_memory_def app_disk_cong)
qed

lemma CreateSnapshot_app:
  assumes P: "pebble_ok (io_pebble E) view" and C: "raft_codecs_ok E" and create: "CreateSnapshot E s = (s', r)"
  shows "upkeep_ok E view s s'"
proof (cases "s' = s")
  case True
  then show ?thesis by (simp add: upkeep_ok_refl)
next
  case False
  with create obtain snapshot ops db where
    "bindE (plan_snapshot E s) (\<lambda>p. bindE (hit s SnapshotBeforeSync) (\<lambda>_. Inr p)) = Inr (snapshot, ops)"
    and commit: "pb_Commit (io_pebble E) (so_db s) True ops = Inr db"
    and s': "so_db s' = db" "same_memory s s'"
    by (auto simp: CreateSnapshot_def Let_def same_memory_def split: sum.splits if_splits)
  then have plan: "plan_snapshot E s = Inr (snapshot, ops)" by (auto simp: result_simps)
  from plan obtain encoded conf where idx: "sn_Index snapshot = so_applied s"
    and enc: "pr_Marshal (io_snapshot E) snapshot = Some encoded"
    and ops: "ops = [OpSet snapshotKey encoded, OpSet confStateKey conf,
        OpDeleteRange [log_prefix] (Some (numberKey log_prefix (so_applied s + 1))),
        OpDeleteRange [CHR 0x03] (Some (numberKey (CHR 0x03) (so_applied s + 1)))]"
    by (rule plan_snapshot_Inr)
  have view: "view db = run_ops ops (view (so_db s))" by (rule pebble_commit [OF P commit])
  have below: "in_range [b] (Some (numberKey b i)) k \<Longrightarrow> prefix [b] k" for b i k
    by (cases k) (auto simp: numberKey_def prefix_def)
  have same: "same_app view (so_db s) db" unfolding same_app_def view
    by (intro allI impI run_ops_untouched) (use app_not_raft below in \<open>fastforce simp: ops\<close>)
  have "view db snapshotKey = Some encoded"
    by (auto simp: view ops meta_keys log_prefix_def numberKey_def)
  moreover have "pr_Unmarshal (io_snapshot E) encoded = Some snapshot"
    using C enc by (simp add: raft_codecs_ok_def proto_ok_def)
  ultimately show ?thesis using same s' idx applied_at_cong [OF same, of E]
    by (simp add: upkeep_ok_def app_disk_def)
qed

lemma Store_Prepare_app:
  assumes "Store_Prepare E J s commands = (s', b)"
  shows "upkeep_ok E view s s'"
  using Store_Prepare_engine [OF assms] by (auto simp: upkeep_ok_def same_memory_def)

lemma upkeep_app:
  assumes "pebble_ok (io_pebble E) view" "raft_codecs_ok E" "upkeep E s s' ok sync"
  shows "upkeep_ok E view s s'"
  using assms(3) by (cases rule: upkeep.cases)
    (auto intro: SaveReady_app [OF assms(1)] SaveConfState_app [OF assms(1)] CreateSnapshot_app [OF assms(1,2)]
      Store_Prepare_app)

section \<open>What a history keeps\<close>

definition answers_kept :: "'db storage_env \<Rightarrow> 'db Store \<Rightarrow> Outcome list \<Rightarrow> bool" where
  "answers_kept E t answered \<longleftrightarrow>
     distinct (map oc_RequestID answered) \<and>
     (\<forall>outcome \<in> set answered. \<exists>receipt. on_record E t (oc_RequestID outcome) receipt \<and> outcomeFromReceipt receipt = outcome)"

definition served_inv :: "'db storage_env \<Rightarrow> ('db \<Rightarrow> contents) \<Rightarrow> Outcome list \<Rightarrow> nat \<Rightarrow> 'db Store \<Rightarrow> 'db set \<Rightarrow> bool" where
  "served_inv E view answered n t D \<longleftrightarrow>
     answers_kept E t answered \<and> card (receipt_keys view (so_db t)) \<le> n \<and>
     (\<exists>m. so_membership t = Some m \<and> filter_ok n (dm_receipts m)) \<and>
     (\<forall>d \<in> insert (so_db t) D. same_app view (so_db t) d \<and> app_disk E (view d) (so_applied t) (so_appliedTerm t))"

lemma on_record_mono:
  assumes "on_record E s requestID receipt" "recorded E t requestID receipt"
    and "so_membership s = Some m" "so_membership t = Some m'"
    and "\<And>v. filter_contains (io_receiptHash E) (dm_receipts m) v \<Longrightarrow> filter_contains (io_receiptHash E) (dm_receipts m') v"
  shows "on_record E t requestID receipt"
  using assms by (auto simp: on_record_def)

lemma upkeep_keeps_record:
  assumes "pebble_ok (io_pebble E) view" "upkeep_ok E view s t" "on_record E s requestID receipt"
  shows "on_record E t requestID receipt"
  using assms recorded_cong [OF assms(1), of s requestID receipt t]
  by (auto simp: upkeep_ok_def same_memory_def on_record_def)

lemma served_upkeep:
  assumes P: "pebble_ok (io_pebble E) view" and up: "upkeep_ok E view t u" and I: "served_inv E view answered n t D"
  shows "served_inv E view answered n u (if sync then {so_db u} else insert (so_db u) D)"
proof -
  from up have same: "same_app view (so_db t) (so_db u)" and mem: "same_memory t u"
    and disk: "app_disk E (view (so_db u)) (so_applied t) (so_appliedTerm t)"
    using I by (auto simp: upkeep_ok_def served_inv_def)
  have "answers_kept E u answered"
    using I upkeep_keeps_record [OF P up] by (fastforce simp: served_inv_def answers_kept_def)
  moreover have "same_app view (so_db u) d" if "d \<in> insert (so_db u) D" for d
    using that I same_app_trans [OF same_app_sym [OF same]] by (auto simp: served_inv_def)
  ultimately show ?thesis
    using I mem disk same_app_receipt_keys [OF same] by (auto simp: served_inv_def same_memory_def)
qed

text \<open>Opening a database on which the position is known.\<close>

lemma reopened:
  assumes P: "pebble_ok (io_pebble E) view" and C: "raft_codecs_ok E" and D: "raft_inv E view s" "so_db v = so_db s"
    and load: "load E procs v voters = Inr w" and disk: "app_disk E (view (so_db v)) index tm"
    and few: "card (receipt_keys view (so_db v)) \<le> n" "n \<le> 2 ^ 59"
    and answered: "distinct (map oc_RequestID answered)"
      "\<And>t outcome. same_app view (so_db v) (so_db t) \<Longrightarrow> so_applied t = index \<Longrightarrow> outcome \<in> set answered \<Longrightarrow>
         \<exists>receipt. recorded E t (oc_RequestID outcome) receipt \<and> outcomeFromReceipt receipt = outcome"
  shows "served_inv E view answered n w {so_db w}"
proof -
  from D(1) obtain data where "pr_Marshal (io_snapshot E) (so_snapshot s) = Some data" "view (so_db s) snapshotKey = Some data"
    by (auto simp: raft_inv_def raft_durable_def)
  then have snap: "sn_Index (so_snapshot s) \<le> index" and at: "applied_at E (view (so_db s)) index tm"
    using disk C D(2) by (auto simp: app_disk_def raft_codecs_ok_def proto_ok_def)
  from load_app [OF P C D load at snap] obtain b where same: "same_app view (so_db s) (so_db w)"
    and w: "so_applied w = index" "so_appliedTerm w = tm" and b: "so_db b = so_db w" "rebuildDurableMembership E b = Inr w" by blast
  have keys: "receipt_keys view (so_db w) = receipt_keys view (so_db v)"
    using same_app_receipt_keys [OF same] D(2) by simp
  have "card (receipt_keys view (so_db b)) \<le> n" using few(1) keys b(1) by simp
  from rebuild_contains [OF P b(2) this few(2)] obtain m where m: "so_membership w = Some m" "filter_ok n (dm_receipts m)"
    "\<forall>requestID receipt. recorded E w requestID receipt \<longrightarrow> filter_contains (io_receiptHash E) (dm_receipts m) requestID" by blast
  have "answers_kept E w answered"
    using answered(1) answered(2) [of w] same w(1) m(1,3) D(2) unfolding answers_kept_def on_record_def by metis
  moreover have "view (so_db w) snapshotKey = view (so_db v) snapshotKey"
    using load_loaded [OF P C _ _ D(2) load] D by (auto simp: raft_inv_def keeps_raft_def raft_key_def)
  then have "app_disk E (view (so_db w)) index tm" using app_disk_cong [OF same, of E index tm] disk D(2) by simp
  ultimately show ?thesis using m few(1) keys w by (simp add: served_inv_def)
qed

text \<open>What a committed batch of entries does to the disk and to the filter.\<close>

lemma committed_disk:
  assumes P: "pebble_ok (io_pebble E) view" and S: "snappy_ok (io_snappy E)" and J: "\<forall>x. json_ok (io_appliedState E) x"
    and ok: "entries_ok E entries" and comm: "committed_plan E procs s entries workers owned plan db"
    and disk: "app_disk E (view (so_db s)) (so_applied s) tm"
  shows "app_disk E (view db) (ae_Index (last entries)) (ae_Term (last entries))"
    and "card (receipt_keys view db) \<le> card (receipt_keys view (so_db s)) + length (pa_accepted plan)"
proof -
  from comm ok [unfolded entries_ok_def, THEN conjunct2] obtain applications states resident where
    plan: "plan_application E procs workers entries (pa_outcomes plan) (pa_accepted plan) states resident = Inr (pa_ops plan)"
    and commit: "pb_Commit (io_pebble E) (so_db s) True (pa_ops plan) = Inr db"
    and applied: "so_applied s < ae_Index (last entries)"
    by (rule applied_facts)
  have view: "view db = run_ops (pa_ops plan) (view (so_db s))" by (rule pebble_commit [OF P commit])
  obtain data where data: "encodeJSON (io_snappy E) (io_appliedState E) \<lparr>as_Index = ae_Index (last entries), as_Term = ae_Term (last entries)\<rparr> = Inr data"
    "\<forall>m. run_ops (pa_ops plan) m appliedKey = Some data" by (rule plan_application_applied [OF plan])
  with decode_encodeJSON [OF J [rule_format] S] have "applied_at E (view db) (ae_Index (last entries)) (ae_Term (last entries))"
    unfolding applied_at_def view by (metis Inr_inject)
  moreover have "view db snapshotKey = view (so_db s) snapshotKey"
    unfolding view by (rule data_ops_raft [OF plan_application_data [OF plan]]) (simp add: raft_key_def)
  ultimately show "app_disk E (view db) (ae_Index (last entries)) (ae_Term (last entries))"
    using disk applied by (fastforce simp: app_disk_def)
  obtain segments tasks rkvs skvs where
    r: "encodeAcceptedReceipts procs (pa_accepted plan) states workers = map Inr rkvs"
    and v: "\<forall>m k. prefix [CHR 0x04] k \<longrightarrow> run_ops (pa_ops plan) m k = run_ops (sets rkvs) m k"
    by (rule plan_application_view [OF plan])
  have len: "length rkvs = length (pa_accepted plan)"
    using arg_cong [OF r, of length] by (simp add: encodeAcceptedReceipts_def)
  have sub: "receipt_keys view db \<subseteq> receipt_keys view (so_db s) \<union> fst ` set rkvs"
    using v run_ops_sets_other [of _ fst rkvs snd "view (so_db s)"] by (auto simp: receipt_keys_def view sets_def case_prod_unfold)
  obtain kvs where "scan_bounds E s (CHR 0x04) = Inr kvs"
    using pebble_scan [OF P, of "so_db s" "fst (prefixBounds (CHR 0x04))" "Some (snd (prefixBounds (CHR 0x04)))"]
    by (auto simp: scan_bounds_def case_prod_unfold)
  from scan_receipts(3) [OF P this] have "finite (receipt_keys view (so_db s))" .
  then have "card (receipt_keys view db) \<le> card (receipt_keys view (so_db s) \<union> fst ` set rkvs)"
    using sub by (intro card_mono) simp_all
  also have "\<dots> \<le> card (receipt_keys view (so_db s)) + card (fst ` set rkvs)" by (rule card_Un_le)
  also have "card (fst ` set rkvs) \<le> length rkvs"
    using card_image_le [of "set rkvs" fst] card_length [of rkvs] by simp
  finally show "card (receipt_keys view db) \<le> card (receipt_keys view (so_db s)) + length (pa_accepted plan)"
    using len by simp
qed

lemma joined_contains:
  assumes "so_membership s = Some m" "filter_ok n (dm_receipts m)" "n + length accepted \<le> 2 ^ 59"
  shows "filter_ok (n + length accepted) (dm_receipts (joined_membership E s accepted)) \<and>
    (\<forall>v. v \<in> cb_RequestID ` aa_batch ` set accepted \<or> filter_contains (io_receiptHash E) (dm_receipts m) v \<longrightarrow>
       filter_contains (io_receiptHash E) (dm_receipts (joined_membership E s accepted)) v)"
  using addAll_ok [OF assms(2), of "map (cb_RequestID \<circ> aa_batch) accepted" "io_receiptHash E"] assms
  by (simp add: joined_membership_def addAccepted_receipts image_image)

lemma committed_answers:
  assumes P: "pebble_ok (io_pebble E) view" and S: "snappy_ok (io_snappy E)" and ok: "entries_ok E entries"
    and comm: "committed_plan E procs s entries workers owned plan db" and kept: "answers_kept E s answered"
  shows "distinct (map oc_RequestID (answered @ filter accepted_outcome (pa_outcomes plan)))"
    and "\<And>t outcome. same_app view db (so_db t) \<Longrightarrow> so_applied t = ae_Index (last entries) \<Longrightarrow>
      outcome \<in> set (answered @ filter accepted_outcome (pa_outcomes plan)) \<Longrightarrow>
      \<exists>receipt. recorded E t (oc_RequestID outcome) receipt \<and> outcomeFromReceipt receipt = outcome"
proof -
  have acc: "filter accepted_outcome (pa_outcomes plan) = map item_outcome (pa_accepted plan)"
    "distinct (map (cb_RequestID \<circ> aa_batch) (pa_accepted plan))"
    using committed_accepted(2,3) [OF P S ok comm, of "s\<lparr>so_db := db, so_applied := ae_Index (last entries)\<rparr>"] by simp_all
  have item: "outcomeFromReceipt (accepted_receipt i) = item_outcome i" "oc_RequestID (item_outcome i) = cb_RequestID (aa_batch i)"
    if "i \<in> set (pa_accepted plan)" for i
  proof -
    have "item_outcome i \<in> set (filter accepted_outcome (pa_outcomes plan))" unfolding acc(1) using that by simp
    then have "\<not> rs_Duplicate (aa_result i)" by (simp add: accepted_outcome_def item_outcome_def base_outcome_def)
    then show "outcomeFromReceipt (accepted_receipt i) = item_outcome i" "oc_RequestID (item_outcome i) = cb_RequestID (aa_batch i)"
      by (rule outcome_from_receipt)+
  qed
  have ids: "map oc_RequestID (filter accepted_outcome (pa_outcomes plan)) = map (cb_RequestID \<circ> aa_batch) (pa_accepted plan)"
    unfolding acc(1) using item(2) by simp
  have "oc_RequestID outcome \<notin> cb_RequestID ` aa_batch ` set (pa_accepted plan)" if "outcome \<in> set answered" for outcome
    using kept that committed_records(2) [OF P ok comm] by (fastforce simp: answers_kept_def)
  with kept acc(2) show "distinct (map oc_RequestID (answered @ filter accepted_outcome (pa_outcomes plan)))"
    unfolding map_append distinct_append ids by (auto simp: answers_kept_def image_image)
  fix t :: "'a Store" and outcome
  assume t: "same_app view db (so_db t)" "so_applied t = ae_Index (last entries)"
    and out: "outcome \<in> set (answered @ filter accepted_outcome (pa_outcomes plan))"
  show "\<exists>receipt. recorded E t (oc_RequestID outcome) receipt \<and> outcomeFromReceipt receipt = outcome"
  proof (cases "outcome \<in> set answered")
    case True
    with kept obtain receipt where "on_record E s (oc_RequestID outcome) receipt" "outcomeFromReceipt receipt = outcome"
      by (auto simp: answers_kept_def)
    with committed_records(1) [OF P ok comm] t show ?thesis by blast
  next
    case False
    with out have "outcome \<in> set (map item_outcome (pa_accepted plan))" unfolding acc(1) [symmetric] by simp
    then obtain i where "i \<in> set (pa_accepted plan)" "outcome = item_outcome i" by auto
    with committed_accepted(1) [OF P S ok comm t] item show ?thesis by auto
  qed
qed

lemma served_same:
  assumes I: "served_inv E view answered n t D" and "n \<le> n'" "D' \<subseteq> insert (so_db t) D"
  shows "served_inv E view answered n' t D'"
  using assms filter_ok_mono [OF _ assms(2)] by (auto simp: served_inv_def)

lemma served_step:
  assumes P: "pebble_ok (io_pebble E) view" and S: "snappy_ok (io_snappy E)" and J: "\<forall>x. json_ok (io_appliedState E) x"
    and I: "served_inv E view answered n t D" and ok: "entries_ok E entries"
    and app: "applyEntries E procs t entries workers owned = (u, Inr outcomes)"
    and few: "n + length (entry_commands entries) \<le> 2 ^ 59"
  shows "served_inv E view (answered @ filter accepted_outcome outcomes) (n + length (entry_commands entries)) u
    (if entries \<noteq> [] then {so_db u} else insert (so_db u) D)"
  using applyEntries_result [OF app]
proof
  assume "so_db u = so_db t \<and> (isl (Inr outcomes :: store_err + Outcome list) \<or> u = t \<and> (Inr outcomes :: store_err + Outcome list) = Inr [])"
  then have u: "u = t" "outcomes = []" by simp_all
  have "served_inv E view answered (n + length (entry_commands entries)) t
      (if entries \<noteq> [] then {so_db t} else insert (so_db t) D)"
    by (rule served_same [OF I]) simp_all
  then show ?thesis unfolding u by simp
next
  assume "\<exists>plan. committed_plan E procs t entries workers owned plan (so_db u) \<and>
       (\<forall>os. (Inr outcomes :: store_err + Outcome list) = Inr os \<longrightarrow> os = pa_outcomes plan \<and> so_applied u = ae_Index (last entries) \<and>
          so_appliedTerm u = ae_Term (last entries) \<and> so_membership u = Some (joined_membership E t (pa_accepted plan)))"
  then obtain plan where comm: "committed_plan E procs t entries workers owned plan (so_db u)"
    and u: "outcomes = pa_outcomes plan" "so_applied u = ae_Index (last entries)" "so_appliedTerm u = ae_Term (last entries)"
      "so_membership u = Some (joined_membership E t (pa_accepted plan))" by blast
  have kept: "answers_kept E t answered" and disk: "app_disk E (view (so_db t)) (so_applied t) (so_appliedTerm t)"
    and keys: "card (receipt_keys view (so_db t)) \<le> n" using I by (auto simp: served_inv_def)
  from I obtain m where m: "so_membership t = Some m" "filter_ok n (dm_receipts m)" by (auto simp: served_inv_def)
  let ?k = "length (pa_accepted plan)"
  have k: "?k \<le> length (entry_commands entries)" using committed_accepted(4) [OF P S ok comm _ u(2)] by simp
  note joined = joined_contains [OF m, of "pa_accepted plan" E]
  have member: "filter_contains (io_receiptHash E) (dm_receipts (joined_membership E t (pa_accepted plan))) (oc_RequestID outcome)"
    if "outcome \<in> set (answered @ filter accepted_outcome outcomes)" for outcome
  proof (cases "outcome \<in> set answered")
    case True
    with kept m(1) have "filter_contains (io_receiptHash E) (dm_receipts m) (oc_RequestID outcome)"
      by (auto simp: answers_kept_def on_record_def)
    with joined k few show ?thesis by simp
  next
    case False
    with that committed_accepted(2) [OF P S ok comm _ u(2)] u(1)
    have "outcome \<in> set (map item_outcome (pa_accepted plan))" by simp
    then have "oc_RequestID outcome \<in> cb_RequestID ` aa_batch ` set (pa_accepted plan)"
      by (auto simp: item_outcome_def base_outcome_def)
    with joined k few show ?thesis by simp
  qed
  note ans = committed_answers [OF P S ok comm kept, folded u(1)]
  have "answers_kept E u (answered @ filter accepted_outcome outcomes)"
    using ans(1) ans(2) [OF same_app_refl u(2)] member u(4) unfolding answers_kept_def on_record_def by blast
  moreover have "app_disk E (view (so_db u)) (so_applied u) (so_appliedTerm u)"
    using committed_disk(1) [OF P S J ok comm disk] u by simp
  moreover have "card (receipt_keys view (so_db u)) \<le> n + length (entry_commands entries)"
    using committed_disk(2) [OF P S J ok comm disk] keys k by simp
  moreover have "filter_ok (n + length (entry_commands entries)) (dm_receipts (joined_membership E t (pa_accepted plan)))"
    by (rule filter_ok_mono [of "n + ?k"]) (use joined k few in simp_all)
  moreover have "entries \<noteq> []" using comm by (simp add: committed_plan_def)
  ultimately show ?thesis using u(4) by (simp add: served_inv_def)
qed

text \<open>A crash: what was answered is found again, whichever database the node opens.\<close>

lemma crash_kept:
  assumes P: "pebble_ok (io_pebble E) view" and C: "raft_codecs_ok E" and I: "served_inv E view answered n t D"
    and v: "same_app view (so_db t) (so_db v)" "app_disk E (view (so_db v)) (so_applied t) (so_appliedTerm t)"
    and r: "raft_inv E view r" "so_db v = so_db r" and load: "load E procs v voters = Inr w" and few: "n \<le> n'" "n' \<le> 2 ^ 59"
  shows "served_inv E view answered n' w {so_db w}"
proof (rule reopened [OF P C r load v(2)])
  show "card (receipt_keys view (so_db v)) \<le> n'" "distinct (map oc_RequestID answered)"
    using I few(1) same_app_receipt_keys [OF v(1)] by (auto simp: served_inv_def answers_kept_def)
  show "\<exists>receipt. recorded E x (oc_RequestID outcome) receipt \<and> outcomeFromReceipt receipt = outcome"
    if "same_app view (so_db v) (so_db x)" "so_applied x = so_applied t" "outcome \<in> set answered" for x outcome
    using I that recorded_cong [OF P _ same_app_trans [OF v(1) that(1)]]
    by (fastforce simp: served_inv_def answers_kept_def on_record_def)
qed (rule few)

lemma crash_serving:
  assumes P: "pebble_ok (io_pebble E) view" and C: "raft_codecs_ok E" and S: "snappy_ok (io_snappy E)"
    and J: "\<forall>x. json_ok (io_appliedState E) x" and I: "served_inv E view answered n t D" and ok: "entries_ok E entries"
    and comm: "committed_plan E procs t entries workers owned plan (so_db v)"
    and r: "raft_inv E view r" "so_db v = so_db r" and load: "load E procs' v voters = Inr w"
    and few: "n + length (entry_commands entries) \<le> 2 ^ 59"
  shows "served_inv E view answered (n + length (entry_commands entries)) w {so_db w}"
proof -
  have kept: "answers_kept E t answered" and disk: "app_disk E (view (so_db t)) (so_applied t) (so_appliedTerm t)"
    and keys: "card (receipt_keys view (so_db t)) \<le> n" using I by (auto simp: served_inv_def)
  note ans = committed_answers(2) [OF P S ok comm kept]
  have k: "length (pa_accepted plan) \<le> length (entry_commands entries)"
    using committed_accepted(4) [OF P S ok comm, of "t\<lparr>so_db := so_db v, so_applied := ae_Index (last entries)\<rparr>"] by simp
  show ?thesis
  proof (rule reopened [OF P C r load committed_disk(1) [OF P S J ok comm disk] _ few])
    show "card (receipt_keys view (so_db v)) \<le> n + length (entry_commands entries)"
      using committed_disk(2) [OF P S J ok comm disk] keys k by simp
    show "distinct (map oc_RequestID answered)" using kept by (simp add: answers_kept_def)
    show "\<exists>receipt. recorded E x (oc_RequestID outcome) receipt \<and> outcomeFromReceipt receipt = outcome"
      if "same_app view (so_db v) (so_db x)" "so_applied x = ae_Index (last entries)" "outcome \<in> set answered" for x outcome
      using ans [OF that(1,2), of outcome] that(3) by simp
  qed
qed

end
