(* ===== verification/Chronos_History.thy ===== *)
theory Chronos_History
  imports Chronos_Served
begin

text \<open>
  Histories of a node: calls of its store, snapshots received from another node, crashes at any point; what was
  answered is kept over all of them.
\<close>

section \<open>A snapshot of another node\<close>

text \<open>
  The image of a snapshot carries what was answered: the outcome is among its outcomes, and the request, with
  its hash and result, among its requests.
\<close>

definition carries :: "SnapshotImage \<Rightarrow> Outcome list \<Rightarrow> bool" where
  "carries img answered \<longleftrightarrow>
     (\<forall>outcome \<in> set answered. outcome \<in> set (si_Outcomes img) \<and>
        (\<exists>request \<in> set (es_Requests (si_Engine img)). rr_RequestID request = oc_RequestID outcome \<and>
           rr_RequestHash request = oc_RequestHash outcome \<and> rr_Result request = oc_Result outcome))"

text \<open>
  What is assumed of a snapshot: its image (if the data is one) can be encoded, has at most \<open>k\<close> requests and
  carries what was answered.
\<close>

definition carried :: "'db storage_env \<Rightarrow> RaftSnapshot \<Rightarrow> Outcome list \<Rightarrow> nat \<Rightarrow> bool" where
  "carried E snapshot answered k \<longleftrightarrow>
     (\<forall>img. decodeSnapshotImage (io_digest E) (io_image E) (sn_Data snapshot) = Inr img \<longrightarrow>
        image_ok E (si_Engine img) \<and> length (es_Requests (si_Engine img)) \<le> k \<and> carries img answered)"

lemma snapshotImage_decoded:
  assumes "snapshotImage E s snapshot = Inr img"
  shows "decodeSnapshotImage (io_digest E) (io_image E) (sn_Data snapshot) = Inr img"
  using assms by (cases "decodeSnapshotImage (io_digest E) (io_image E) (sn_Data snapshot)")
    (auto simp: snapshotImage_def split: if_splits sum.splits)

text \<open>The commit of an installation.\<close>

definition image_committed :: "'db storage_env \<Rightarrow> nat \<Rightarrow> RaftSnapshot \<Rightarrow> 'db \<Rightarrow> 'db \<Rightarrow> SnapshotImage \<Rightarrow> bool" where
  "image_committed E procs snapshot d d' img \<longleftrightarrow>
     decodeSnapshotImage (io_digest E) (io_image E) (sn_Data snapshot) = Inr img \<and> si_AppliedIndex img = sn_Index snapshot \<and>
     (\<exists>engine ops. Restore (io_digest E) (si_Engine img) = Inr engine \<and> plan_install E procs img = Inr ops \<and>
        pb_Commit (io_pebble E) d True ops = Inr d')"

lemma installSnapshot_result:
  assumes "installSnapshot E procs s snapshot hooks = (t, r)" "so_applied s < sn_Index snapshot"
  shows "so_db t = so_db s \<and> isl r \<or>
    (\<exists>img. image_committed E procs snapshot (so_db s) (so_db t) img \<and>
       (\<not> isl r \<longrightarrow> so_applied t = si_AppliedIndex img \<and> so_appliedTerm t = si_Term img \<and>
          so_membership t = Some (membershipFromSnapshot (io_receiptHash E) (io_workflowHash E) (si_Engine img))))"
proof (cases "sn_Index snapshot \<noteq> sn_Index (so_snapshot s) \<or> sn_Term snapshot \<noteq> sn_Term (so_snapshot s)")
  case True
  with assms have "(t, r) = (s, Inl StoreFault)" by (simp add: installSnapshot_def split: if_splits)
  then show ?thesis by simp
next
  case guard: False
  let ?plan = "bindE (snapshotImage E s snapshot) (\<lambda>img.
    bindE (core_result (Restore (io_digest E) (si_Engine img))) (\<lambda>engine.
    bindE (plan_install E procs img) (\<lambda>ops.
    bindE (if hooks then hit s SnapshotInstallBeforeSync else Inr ()) (\<lambda>_. Inr (img, engine, ops)))))"
  have new: "\<not> sn_Index snapshot \<le> so_applied s" using assms(2) by simp
  show ?thesis
  proof (cases ?plan)
    case (Inl e)
    with assms(1) guard new show ?thesis by (auto simp: installSnapshot_def)
  next
    case plan: (Inr p)
    then obtain img engine ops where p: "p = (img, engine, ops)" "snapshotImage E s snapshot = Inr img"
      "core_result (Restore (io_digest E) (si_Engine img)) = Inr engine" "plan_install E procs img = Inr ops"
      unfolding result_simps by blast
    then have restored: "Restore (io_digest E) (si_Engine img) = Inr engine"
      by (cases "Restore (io_digest E) (si_Engine img)") (simp_all add: core_result_def)
    note i = snapshotImage_decoded [OF p(2)] snapshotImage_index [OF p(2)]
    show ?thesis
    proof (cases "pb_Commit (io_pebble E) (so_db s) True ops")
      case (Inl e)
      with assms(1) guard new plan p(1) show ?thesis by (auto simp: installSnapshot_def)
    next
      case commit: (Inr db)
      let ?hit = "if hooks then hit s SnapshotInstallAfterSync else Inr ()"
      have "image_committed E procs snapshot (so_db s) db img" using i p(4) restored commit by (auto simp: image_committed_def)
      moreover have "so_db t = db \<and> (\<not> isl r \<longrightarrow> so_applied t = si_AppliedIndex img \<and> so_appliedTerm t = si_Term img \<and>
          so_membership t = Some (membershipFromSnapshot (io_receiptHash E) (io_workflowHash E) (si_Engine img)))"
      proof (cases ?hit)
        case (Inl e)
        with assms(1) guard new plan p(1) commit have "so_db t = db \<and> r = Inl e" by (auto simp: installSnapshot_def)
        then show ?thesis by simp
      next
        case (Inr u)
        with assms(1) guard new plan p(1) commit have "t = installed E s db img engine" by (simp add: installSnapshot_def)
        then show ?thesis by (simp add: installed_def attachEngine_def Let_def)
      qed
      ultimately show ?thesis by blast
    qed
  qed
qed

lemma plan_install_applied:
  assumes "plan_install E procs img = Inr ops"
  obtains data where
    "encodeJSON (io_snappy E) (io_appliedState E) \<lparr>as_Index = si_AppliedIndex img, as_Term = si_Term img\<rparr> = Inr data"
    "\<forall>m. run_ops ops m appliedKey = Some data"
proof -
  from assms obtain e data where
    "encodeJSON (io_snappy E) (io_appliedState E) \<lparr>as_Index = si_AppliedIndex img, as_Term = si_Term img\<rparr> = Inr data"
    "ops = e @ [OpSet appliedKey data, OpSet activeIndexKey activeIndexValue]"
    by (auto simp: plan_install_def result_simps split: if_splits)
  then show thesis by (intro that [of data]) (simp_all add: meta_keys)
qed

text \<open>The database after the commit: the position of the image, its receipts, and what was answered.\<close>

lemma image_disk:
  assumes P: "pebble_ok (io_pebble E) view" and S: "snappy_ok (io_snappy E)" and J: "\<forall>x. json_ok (io_appliedState E) x"
    and comm: "image_committed E procs snapshot d d' img" and ok: "image_ok E (si_Engine img)"
    and snap: "view d snapshotKey = Some data" "pr_Unmarshal (io_snapshot E) data = Some snapshot"
  shows "app_disk E (view d') (sn_Index snapshot) (si_Term img)"
    and "card (receipt_keys view d') \<le> length (es_Requests (si_Engine img))"
proof -
  from comm obtain engine ops where restored: "Restore (io_digest E) (si_Engine img) = Inr engine"
    and plan: "plan_install E procs img = Inr ops" and commit: "pb_Commit (io_pebble E) d True ops = Inr d'"
    and index: "si_AppliedIndex img = sn_Index snapshot" by (auto simp: image_committed_def)
  have view: "view d' = run_ops ops (view d)" by (rule pebble_commit [OF P commit])
  obtain applied where applied: "encodeJSON (io_snappy E) (io_appliedState E) \<lparr>as_Index = si_AppliedIndex img, as_Term = si_Term img\<rparr> = Inr applied"
    "\<forall>m. run_ops ops m appliedKey = Some applied" by (rule plan_install_applied [OF plan])
  with decode_encodeJSON [OF J [rule_format] S] have "applied_at E (view d') (sn_Index snapshot) (si_Term img)"
    unfolding applied_at_def view index by (metis Inr_inject)
  moreover have "view d' snapshotKey = Some data"
    unfolding view using data_ops_raft [OF plan_install_data [OF plan], of snapshotKey "view d"] snap(1) by (simp add: raft_key_def)
  ultimately show "app_disk E (view d') (sn_Index snapshot) (si_Term img)" using snap(2) by (auto simp: app_disk_def)
  have "receipt_keys view d' \<subseteq> image_key ` set (es_Requests (si_Engine img))"
    using installed_receipt_keys [OF plan ok restored] by (auto simp: receipt_keys_def view)
  then have "card (receipt_keys view d') \<le> card (image_key ` set (es_Requests (si_Engine img)))" by (intro card_mono) simp_all
  also have "\<dots> \<le> length (es_Requests (si_Engine img))"
    using card_image_le [of "set (es_Requests (si_Engine img))" image_key] card_length [of "es_Requests (si_Engine img)"] by simp
  finally show "card (receipt_keys view d') \<le> length (es_Requests (si_Engine img))" .
qed

lemma image_answers:
  assumes P: "pebble_ok (io_pebble E) view" and S: "snappy_ok (io_snappy E)"
    and comm: "image_committed E procs snapshot d d' img" and ok: "image_ok E (si_Engine img)" "carries img answered"
    and out: "outcome \<in> set answered" "outcomeFromReceipt receipt = outcome"
    and t: "same_app view d' (so_db t)" "so_applied t = sn_Index snapshot"
  shows "\<exists>receipt. recorded E t (oc_RequestID outcome) receipt \<and> outcomeFromReceipt receipt = outcome"
proof -
  from comm obtain engine ops where restored: "Restore (io_digest E) (si_Engine img) = Inr engine"
    and plan: "plan_install E procs img = Inr ops" and commit: "pb_Commit (io_pebble E) d True ops = Inr d'"
    and index: "si_AppliedIndex img = sn_Index snapshot" by (auto simp: image_committed_def)
  from ok(2) out(1) obtain request where mem: "outcome \<in> set (si_Outcomes img)"
    and request: "request \<in> set (es_Requests (si_Engine img))" "rr_RequestID request = oc_RequestID outcome"
      "rr_RequestHash request = oc_RequestHash outcome" "rr_Result request = oc_Result outcome"
    by (auto simp: carries_def)
  let ?receipt = "image_receipt (outcome_origin outcome) request" and ?d = "t\<lparr>so_db := d'\<rparr>"
  have db: "view (so_db ?d) = run_ops ops (view d)" using pebble_commit [OF P commit] by simp
  have "oc_Code outcome = ''''" using out(2) by (auto simp: outcomeFromReceipt_def)
  moreover have "outcome_key outcome = origin_key (rr_RequestID request) (rr_RequestHash request)"
    by (simp add: outcome_key_def request)
  ultimately have "recorded E ?d (rr_RequestID request) ?receipt"
    using installed_receipt(2) [OF P S ok(1) plan db restored _ request(1)] mem t(2) index by simp
  from recorded_cong [OF P this] t(1) have "recorded E t (oc_RequestID outcome) ?receipt" by (simp add: request)
  moreover have "outcomeFromReceipt ?receipt = outcome"
    using out(2) by (auto simp: outcomeFromReceipt_def image_receipt_def outcome_origin_def request)
  ultimately show ?thesis by blast
qed

definition outcomes_ok :: "Outcome list \<Rightarrow> bool" where
  "outcomes_ok answered \<longleftrightarrow>
     distinct (map oc_RequestID answered) \<and> (\<forall>outcome \<in> set answered. \<exists>receipt. outcomeFromReceipt receipt = outcome)"

lemma served_outcomes: "served_inv E view answered n t D \<Longrightarrow> outcomes_ok answered"
  by (auto simp: served_inv_def answers_kept_def outcomes_ok_def)

lemma snapshot_filter:
  assumes "length (es_Requests snapshot) \<le> n" "n \<le> 2 ^ 59"
  shows "filter_ok n (dm_receipts (membershipFromSnapshot hr hw snapshot)) \<and>
    (\<forall>request \<in> set (es_Requests snapshot).
       filter_contains hr (dm_receipts (membershipFromSnapshot hr hw snapshot)) (rr_RequestID request))"
proof -
  have eq: "dm_receipts (membershipFromSnapshot hr hw snapshot) =
      addAll hr (map rr_RequestID (es_Requests snapshot)) (replicate membershipShardCount None)"
    by (simp add: membershipFromSnapshot_def newDurableMembership_def newMembershipFilter_def add_chunks_addAll addAll_def Let_def)
  have "0 + length (map rr_RequestID (es_Requests snapshot)) \<le> 2 ^ 59" using assms by simp
  from addAll_ok [OF filter_ok_new this, of hr] show ?thesis unfolding eq using assms(1) by (auto intro: filter_ok_mono)
qed

text \<open>A snapshot that is installed keeps what was answered; so does a crash after its commit.\<close>

lemma installed_inv:
  assumes P: "pebble_ok (io_pebble E) view" and S: "snappy_ok (io_snappy E)" and J: "\<forall>x. json_ok (io_appliedState E) x"
    and inst: "installSnapshot E procs u snapshot hooks = (w, Inr ())" "so_applied u < sn_Index snapshot"
    and snap: "view (so_db u) snapshotKey = Some data" "pr_Unmarshal (io_snapshot E) data = Some snapshot"
    and car: "carried E snapshot answered k" "k \<le> n" "n \<le> 2 ^ 59" and out: "outcomes_ok answered"
  shows "served_inv E view answered n w {so_db w}"
proof -
  from installSnapshot_result [OF inst] obtain img where comm: "image_committed E procs snapshot (so_db u) (so_db w) img"
    and w: "so_applied w = si_AppliedIndex img" "so_appliedTerm w = si_Term img"
      "so_membership w = Some (membershipFromSnapshot (io_receiptHash E) (io_workflowHash E) (si_Engine img))" by auto
  have index: "si_AppliedIndex img = sn_Index snapshot" using comm by (simp add: image_committed_def)
  from car(1) comm have ok: "image_ok E (si_Engine img)" "length (es_Requests (si_Engine img)) \<le> k" "carries img answered"
    by (auto simp: carried_def image_committed_def)
  note disk = image_disk [OF P S J comm ok(1) snap]
  have "length (es_Requests (si_Engine img)) \<le> n" using ok(2) car(2) by simp
  note filter = snapshot_filter [OF this car(3), of "io_receiptHash E" "io_workflowHash E"]
  have "\<exists>receipt. on_record E w (oc_RequestID outcome) receipt \<and> outcomeFromReceipt receipt = outcome"
    if o: "outcome \<in> set answered" for outcome
  proof -
    from out o obtain receipt where "outcomeFromReceipt receipt = outcome" by (auto simp: outcomes_ok_def)
    from image_answers [OF P S comm ok(1,3) o this, of w] w(1) index
    obtain receipt where "recorded E w (oc_RequestID outcome) receipt" "outcomeFromReceipt receipt = outcome" by auto
    moreover have "filter_contains (io_receiptHash E)
        (dm_receipts (membershipFromSnapshot (io_receiptHash E) (io_workflowHash E) (si_Engine img))) (oc_RequestID outcome)"
      using filter ok(3) o unfolding carries_def by metis
    ultimately show ?thesis using w(3) by (auto simp: on_record_def)
  qed
  with out have "answers_kept E w answered" by (simp add: answers_kept_def outcomes_ok_def)
  with disk filter w index ok(2) car(2) show ?thesis by (auto simp: served_inv_def)
qed

lemma crash_installed:
  assumes P: "pebble_ok (io_pebble E) view" and C: "raft_codecs_ok E" and S: "snappy_ok (io_snappy E)"
    and J: "\<forall>x. json_ok (io_appliedState E) x" and comm: "image_committed E procs snapshot d (so_db v) img"
    and snap: "view d snapshotKey = Some data" "pr_Unmarshal (io_snapshot E) data = Some snapshot"
    and car: "carried E snapshot answered k" "k \<le> n" "n \<le> 2 ^ 59" and out: "outcomes_ok answered"
    and r: "raft_inv E view r" "so_db v = so_db r" and load: "load E procs v voters = Inr w"
  shows "served_inv E view answered n w {so_db w}"
proof -
  from car(1) comm have ok: "image_ok E (si_Engine img)" "length (es_Requests (si_Engine img)) \<le> k" "carries img answered"
    by (auto simp: carried_def image_committed_def)
  note disk = image_disk [OF P S J comm ok(1) snap]
  show ?thesis
  proof (rule reopened [OF P C r load disk(1) _ car(3)])
    show "card (receipt_keys view (so_db v)) \<le> n" using disk(2) ok(2) car(2) by simp
    show "distinct (map oc_RequestID answered)" using out by (simp add: outcomes_ok_def)
    show "\<exists>receipt. recorded E t (oc_RequestID outcome) receipt \<and> outcomeFromReceipt receipt = outcome"
      if "same_app view (so_db v) (so_db t)" "so_applied t = sn_Index snapshot" "outcome \<in> set answered" for t outcome
      using out that image_answers [OF P S comm ok(1,3) that(3) _ that(1,2)] by (auto simp: outcomes_ok_def)
  qed
qed

text \<open>Opening a database that holds a snapshot beyond the applied position installs it.\<close>

lemma loadApplication_installs:
  assumes P: "pebble_ok (io_pebble E) view" and la: "loadApplication E procs s = (s', Inr q)"
    and disk: "applied_at E (view (so_db s)) index tm" "index < sn_Index (so_snapshot s)"
  shows "\<exists>p. so_db p = so_db s \<and> so_applied p = index \<and> installSnapshot E procs p (so_snapshot s) False = (s', Inr ())"
proof -
  from disk(1) obtain data where "view (so_db s) appliedKey = Some data"
    "decodeJSON (io_snappy E) (io_appliedState E) data = Inr \<lparr>as_Index = index, as_Term = tm\<rparr>"
    by (auto simp: applied_at_def)
  then have "bindE (get_present E s appliedKey) (decodeJSON (io_snappy E) (io_appliedState E)) =
      Inr \<lparr>as_Index = index, as_Term = tm\<rparr>"
    by (simp add: get_present_def get_def pebble_get [OF P])
  with la disk(2) show ?thesis
    by (intro exI [of _ "s\<lparr>so_engine := NewEngine, so_applied := index, so_appliedTerm := tm\<rparr>"]) (simp add: loadApplication_def)
qed

lemma crash_pending:
  assumes P: "pebble_ok (io_pebble E) view" and C: "raft_codecs_ok E" and S: "snappy_ok (io_snappy E)"
    and J: "\<forall>x. json_ok (io_appliedState E) x" and r: "raft_inv E view r" "so_db v = so_db r"
    and load: "load E procs v voters = Inr u"
    and disk: "applied_at E (view (so_db v)) index tm" "index < sn_Index (so_snapshot r)"
    and car: "carried E (so_snapshot r) answered k" "k \<le> n" "n \<le> 2 ^ 59" and out: "outcomes_ok answered"
  shows "served_inv E view answered n u {so_db u}"
proof -
  let ?t = "same_raft r v"
  have t: "so_db ?t = so_db v" "so_snapshot ?t = so_snapshot r" by (simp_all add: same_raft_def)
  from r obtain data where data: "view (so_db v) schemaKey = Some data" by (auto simp: raft_inv_def)
  then have "ensure_schema E v voters = Inr (v, data)" by (simp add: ensure_schema_def get_def pebble_get [OF P])
  moreover have "loadRaft E v = Inr ?t" by (rule loadRaft_durable [OF P C _ r(2)]) (use r in \<open>simp add: raft_inv_def\<close>)
  ultimately obtain w q where w: "loadApplication E procs ?t = (w, Inr q)"
    and rest: "(case (if so_applied w < sn_Index (so_snapshot w) then installSnapshot E procs w (so_snapshot w) False
                  else (w, Inr ())) of
              (s, Inl e) \<Rightarrow> Inl e
            | (s, Inr _) \<Rightarrow>
                if hs_Commit (so_hard s) < so_applied s then Inl StoreFault
                else rebuildDurableMembership E s) = Inr u"
    using load by (cases "loadApplication E procs ?t") (auto simp: load_def result_simps split: sum.splits)
  from loadApplication_installs [OF P w, of index tm] disk t obtain p where
    p: "so_db p = so_db v" "so_applied p = index" "installSnapshot E procs p (so_snapshot r) False = (w, Inr ())" by auto
  from r(1) obtain sd where sd: "pr_Marshal (io_snapshot E) (so_snapshot r) = Some sd" "view (so_db r) snapshotKey = Some sd"
    by (auto simp: raft_inv_def raft_durable_def)
  then have snap: "view (so_db p) snapshotKey = Some sd" "pr_Unmarshal (io_snapshot E) sd = Some (so_snapshot r)"
    using C p(1) r(2) by (simp_all add: raft_codecs_ok_def proto_ok_def)
  have inv: "served_inv E view answered n w {so_db w}"
    by (rule installed_inv [OF P S J p(3) _ snap car out]) (use p(2) disk(2) in simp)
  have "raft_part w = raft_part ?t" using loadApplication_keeps [OF P w] by (simp add: keeps_raft_def)
  then have "so_snapshot w = so_snapshot r" using t(2) by (simp add: raft_part_def)
  moreover have "so_applied w = sn_Index (so_snapshot r)"
    using installSnapshot_result [OF p(3)] p(2) disk(2) by (auto simp: image_committed_def)
  ultimately have re: "rebuildDurableMembership E w = Inr u" using rest by (auto split: if_splits)
  have same: "so_db u = so_db w" "so_applied u = so_applied w" "so_appliedTerm u = so_appliedTerm w"
    using re by (auto simp: rebuildDurableMembership_def result_simps Let_def)
  have few: "card (receipt_keys view (so_db w)) \<le> n" using inv by (simp add: served_inv_def)
  from rebuild_contains [OF P re few car(3)] obtain m where m: "so_membership u = Some m" "filter_ok n (dm_receipts m)"
    "\<forall>requestID receipt. recorded E u requestID receipt \<longrightarrow> filter_contains (io_receiptHash E) (dm_receipts m) requestID" by blast
  have "recorded E u requestID receipt" if "on_record E w requestID receipt" for requestID receipt
    using that recorded_cong [OF P, of w requestID receipt u] same by (simp add: on_record_def)
  with inv m have "answers_kept E u answered" unfolding served_inv_def answers_kept_def on_record_def by metis
  with inv m same show ?thesis by (simp add: served_inv_def)
qed

text \<open>Saving a snapshot of another node leaves the application as it was and puts the snapshot on the disk.\<close>

lemma SaveReady_commits:
  assumes save: "SaveReady E s ready = (s', r)" and ready: "\<not> ready_empty E ready" and plan: "plan_ready E s ready = Inr plan"
    and fresh: "\<not> (so_db s' = so_db s \<and> isl r)"
  obtains sync db where "pb_Commit (io_pebble E) (so_db s) sync (rp_ops plan) = Inr db"
    "s' = s\<lparr>so_db := db\<rparr> \<or> s' = install_plan plan (s\<lparr>so_db := db\<rparr>)"
proof -
  let ?sync = "raftWriteOptions ready (rp_changed plan) (length (rp_kept plan)) (so_hard s) (rp_hard plan)"
  from save ready plan have eq: "(case (if ?sync then hit s RaftBeforeSync else Inr ()) of
      Inl e \<Rightarrow> (s, Inl e)
    | Inr _ \<Rightarrow> (case pb_Commit (io_pebble E) (so_db s) ?sync (rp_ops plan) of
         Inl e \<Rightarrow> (s, Inl e)
       | Inr db \<Rightarrow> let s = s\<lparr>so_db := db\<rparr> in
           (case (if ?sync then hit s RaftAfterSync else Inr ()) of
              Inl e \<Rightarrow> (s, Inl e)
            | Inr _ \<Rightarrow> (install_plan plan s, Inr ())))) = (s', r)"
    by (simp add: SaveReady_def Let_def)
  have "\<exists>db. pb_Commit (io_pebble E) (so_db s) ?sync (rp_ops plan) = Inr db \<and>
      (s' = s\<lparr>so_db := db\<rparr> \<or> s' = install_plan plan (s\<lparr>so_db := db\<rparr>))"
  proof (cases "if ?sync then hit s RaftBeforeSync else Inr ()")
    case (Inl e)
    from eq have "s' = s" "r = Inl e" unfolding Inl by simp_all
    with fresh show ?thesis by simp
  next
    case (Inr u)
    show ?thesis
    proof (cases "pb_Commit (io_pebble E) (so_db s) ?sync (rp_ops plan)")
      case fault: (Inl e)
      from eq have "s' = s" "r = Inl e" unfolding Inr fault by simp_all
      with fresh show ?thesis by simp
    next
      case commit: (Inr db)
      from eq have "s' = s\<lparr>so_db := db\<rparr> \<or> s' = install_plan plan (s\<lparr>so_db := db\<rparr>)"
        unfolding Inr commit by (auto simp: Let_def split: sum.splits)
      then show ?thesis using commit by blast
    qed
  qed
  then show thesis using that by blast
qed

lemma SaveReady_snapshot:
  assumes P: "pebble_ok (io_pebble E) view" and C: "raft_codecs_ok E" and save: "SaveReady E s ready = (s', r)"
    and new: "\<not> io_isEmptySnap E (rd_Snapshot ready)"
  shows "so_db s' = so_db s \<and> isl r \<or> same_app view (so_db s) (so_db s') \<and> same_memory s s' \<and>
    (\<exists>data. view (so_db s') snapshotKey = Some data \<and> pr_Unmarshal (io_snapshot E) data = Some (rd_Snapshot ready)) \<and>
    (\<exists>plan. plan_ready E s ready = Inr plan \<and> rp_changed plan)"
proof (cases "plan_ready E s ready")
  case (Inl e)
  with save new show ?thesis by (auto simp: SaveReady_def ready_empty_def)
next
  case plan: (Inr plan)
  show ?thesis
  proof (cases "so_db s' = so_db s \<and> isl r")
    case False
    have "\<not> ready_empty E ready" using new by (simp add: ready_empty_def)
    then obtain sync db where commit: "pb_Commit (io_pebble E) (so_db s) sync (rp_ops plan) = Inr db"
      and s': "s' = s\<lparr>so_db := db\<rparr> \<or> s' = install_plan plan (s\<lparr>so_db := db\<rparr>)"
      by (rule SaveReady_commits [OF save _ plan False])
    have view: "view db = run_ops (rp_ops plan) (view (so_db s))" by (rule pebble_commit [OF P commit])
    from plan obtain len n sets entries hard where
      c: "check_snapshot E s ready = Inr (rp_changed plan, rp_snapshot plan, rp_conf plan, len)"
      and e: "encode_entries E (rp_kept plan) = Inr entries"
      and ops: "rp_ops plan = log_cut (sn_Index (so_snapshot s) + of_nat (length (so_entryTerms s))) (rp_changed plan) (rp_kept plan)
         @ sets @ entries @ hard"
      and sets: "if rp_changed plan then \<exists>data conf. sets = [OpSet snapshotKey data, OpSet confStateKey conf] \<and>
           pr_Marshal (io_snapshot E) (rp_snapshot plan) = Some data \<and> pr_Marshal (io_conf E) (rp_conf plan) = Some conf
       else sets = []"
      and hard: "hard = [] \<and> rp_hard plan = so_hard s \<or>
         (\<exists>data. hard = [OpSet hardStateKey data] \<and> pr_Marshal (io_hard E) (rp_hard plan) = Some data)"
      by (rule plan_ready_Inr)
    from c new have changed: "rp_changed plan" "rp_snapshot plan = rd_Snapshot ready"
      by (auto simp: check_snapshot_def result_simps split: if_splits)
    with sets obtain data conf where data: "sets = [OpSet snapshotKey data, OpSet confStateKey conf]"
      "pr_Marshal (io_snapshot E) (rd_Snapshot ready) = Some data" by auto
    have "run_ops (OpSet confStateKey conf # entries @ hard) m snapshotKey = m snapshotKey" for m
      by (rule run_ops_untouched) (use hard encode_entries_Inr [OF e] in
        \<open>auto simp: disk_pair_def numberKey_def log_prefix_def meta_keys\<close>)
    then have "view db snapshotKey = Some data" unfolding view ops data(1) by simp
    moreover have "pr_Unmarshal (io_snapshot E) data = Some (rd_Snapshot ready)"
      using C data(2) by (simp add: raft_codecs_ok_def proto_ok_def)
    moreover have "same_app view (so_db s) db" by (rule plan_ready_app [OF P plan commit])
    ultimately show ?thesis using s' plan changed(1) by (auto simp: same_memory_def install_plan_def Let_def)
  qed simp
qed

text \<open>
  What is assumed of a \<^verbatim>\<open>Ready\<close> with a snapshot: if the snapshot is ahead of the store, it carries what was answered.
\<close>

definition received_ok :: "'db storage_env \<Rightarrow> 'db Store \<Rightarrow> Ready \<Rightarrow> Outcome list \<Rightarrow> nat \<Rightarrow> bool" where
  "received_ok E t ready answered k \<longleftrightarrow>
     ready_ok ready \<and> \<not> io_isEmptySnap E (rd_Snapshot ready) \<and>
     (so_applied t < sn_Index (rd_Snapshot ready) \<longrightarrow> carried E (rd_Snapshot ready) answered k)"

text \<open>A snapshot that is saved: either it is behind the store, which then goes on as before, or ahead of it.\<close>

lemma saved_stale:
  assumes "same_app view (so_db t) (so_db u)" "same_memory t u" "view (so_db u) snapshotKey = Some data"
    and "pr_Unmarshal (io_snapshot E) data = Some snapshot" "sn_Index snapshot \<le> so_applied t"
  shows "upkeep_ok E view t u"
  using assms applied_at_cong [OF assms(1), of E] by (auto simp: upkeep_ok_def app_disk_def)

lemma InstallSnapshot_stale: "\<not> so_applied s < sn_Index snapshot \<Longrightarrow> InstallSnapshot E procs s snapshot = (s, Inr ())"
  by (simp add: InstallSnapshot_def installSnapshot_def not_less)

lemma received_inv:
  assumes P: "pebble_ok (io_pebble E) view" and C: "raft_codecs_ok E" and S: "snappy_ok (io_snappy E)"
    and J: "\<forall>x. json_ok (io_appliedState E) x" and I: "served_inv E view answered n t D"
    and rec: "received_ok E t ready answered k" and save: "SaveReady E t ready = (u, Inr ())"
    and inst: "InstallSnapshot E procs u (rd_Snapshot ready) = (w, Inr ())" and few: "n + k \<le> 2 ^ 59"
  shows "served_inv E view answered (n + k) w {so_db w}"
proof -
  from rec have new: "\<not> io_isEmptySnap E (rd_Snapshot ready)" by (simp add: received_ok_def)
  from SaveReady_snapshot [OF P C save new] obtain data where u: "same_app view (so_db t) (so_db u)" "same_memory t u"
    "view (so_db u) snapshotKey = Some data" "pr_Unmarshal (io_snapshot E) data = Some (rd_Snapshot ready)" by auto
  show ?thesis
  proof (cases "sn_Index (rd_Snapshot ready) \<le> so_applied t")
    case True
    from served_upkeep [OF P saved_stale [OF u True] I, of True] have "served_inv E view answered n u {so_db u}" by simp
    moreover have "w = u" using inst True u(2) InstallSnapshot_stale [of u "rd_Snapshot ready" E procs] by (simp add: same_memory_def)
    ultimately show ?thesis using served_same [of E view answered n u "{so_db u}" "n + k"] by simp
  next
    case False
    then have "so_applied u < sn_Index (rd_Snapshot ready)" "carried E (rd_Snapshot ready) answered k"
      using u(2) rec by (simp_all add: same_memory_def received_ok_def)
    from installed_inv [OF P S J inst [unfolded InstallSnapshot_def] this(1) u(3,4) this(2) _ few served_outcomes [OF I]]
    show ?thesis by simp
  qed
qed

lemma crash_received:
  assumes P: "pebble_ok (io_pebble E) view" and C: "raft_codecs_ok E" and S: "snappy_ok (io_snappy E)"
    and J: "\<forall>x. json_ok (io_appliedState E) x" and I: "served_inv E view answered n t D"
    and rec: "received_ok E t ready answered k" and save: "SaveReady E t ready = (u, q)" and v: "so_db v \<in> insert (so_db u) D"
    and r: "raft_inv E view r" "so_db v = so_db r" and load: "load E procs v voters = Inr w" and few: "n + k \<le> 2 ^ 59"
  shows "served_inv E view answered (n + k) w {so_db w}"
proof -
  from rec have new: "\<not> io_isEmptySnap E (rd_Snapshot ready)" by (simp add: received_ok_def)
  have kept: "served_inv E view answered (n + k) w {so_db w}"
    if "same_app view (so_db t) (so_db v)" "app_disk E (view (so_db v)) (so_applied t) (so_appliedTerm t)"
    by (rule crash_kept [OF P C I that r load _ few]) simp
  show ?thesis
  proof (cases "so_db v \<in> insert (so_db t) D")
    case True
    then show ?thesis using I kept by (auto simp: served_inv_def)
  next
    case False
    with v have u: "so_db v = so_db u" "so_db u \<noteq> so_db t" by auto
    with SaveReady_snapshot [OF P C save new] obtain data where saved: "same_app view (so_db t) (so_db u)" "same_memory t u"
      "view (so_db u) snapshotKey = Some data" "pr_Unmarshal (io_snapshot E) data = Some (rd_Snapshot ready)" by auto
    have disk: "app_disk E (view (so_db t)) (so_applied t) (so_appliedTerm t)" using I by (simp add: served_inv_def)
    show ?thesis
    proof (cases "sn_Index (rd_Snapshot ready) \<le> so_applied t")
      case True
      with saved_stale [OF saved] disk show ?thesis by (intro kept) (simp_all add: u upkeep_ok_def)
    next
      case False
      have "so_snapshot r = rd_Snapshot ready"
        using r saved(3,4) C by (auto simp: u raft_inv_def raft_durable_def raft_codecs_ok_def proto_ok_def)
      moreover have "applied_at E (view (so_db v)) (so_applied t) (so_appliedTerm t)"
        using disk applied_at_cong [OF saved(1), of E] by (simp add: u app_disk_def)
      ultimately show ?thesis
        using crash_pending [OF P C S J r load, of "so_applied t" "so_appliedTerm t" answered k "n + k"] False rec few
          served_outcomes [OF I] by (simp add: received_ok_def)
    qed
  qed
qed

lemma crash_installing:
  assumes P: "pebble_ok (io_pebble E) view" and C: "raft_codecs_ok E" and S: "snappy_ok (io_snappy E)"
    and J: "\<forall>x. json_ok (io_appliedState E) x" and I: "served_inv E view answered n t D"
    and rec: "received_ok E t ready answered k" and save: "SaveReady E t ready = (u, Inr ())"
    and inst: "InstallSnapshot E procs u (rd_Snapshot ready) = (x, q)" and v: "so_db v = so_db x"
    and r: "raft_inv E view r" "so_db v = so_db r" and load: "load E procs v voters = Inr w" and few: "n + k \<le> 2 ^ 59"
  shows "served_inv E view answered (n + k) w {so_db w}"
proof (cases "so_db x = so_db u")
  case True
  with v have "so_db v \<in> insert (so_db u) D" by simp
  from crash_received [OF P C S J I rec save this r load few] show ?thesis .
next
  case changed: False
  from rec have new: "\<not> io_isEmptySnap E (rd_Snapshot ready)" by (simp add: received_ok_def)
  from SaveReady_snapshot [OF P C save new] obtain data where u: "same_memory t u"
    "view (so_db u) snapshotKey = Some data" "pr_Unmarshal (io_snapshot E) data = Some (rd_Snapshot ready)" by auto
  have ahead: "so_applied u < sn_Index (rd_Snapshot ready)"
  proof (rule ccontr)
    assume "\<not> so_applied u < sn_Index (rd_Snapshot ready)"
    from InstallSnapshot_stale [OF this, of E procs] inst have "x = u" by simp
    with changed show False by simp
  qed
  from installSnapshot_result [OF inst [unfolded InstallSnapshot_def] ahead] changed obtain img where
    comm: "image_committed E procs (rd_Snapshot ready) (so_db u) (so_db v) img" using v by auto
  have "carried E (rd_Snapshot ready) answered k" using rec ahead u(1) by (simp add: received_ok_def same_memory_def)
  from crash_installed [OF P C S J comm u(2,3) this _ few served_outcomes [OF I] r load] show ?thesis by simp
qed

section \<open>The run of a node\<close>

text \<open>
  \<open>request_run E procs s answered n t D\<close>: from \<open>s\<close> the node came to \<open>t\<close>, having returned the accepted
  outcomes \<open>answered\<close> and been given \<open>n\<close> commands; \<open>D\<close> are the databases a crash may leave. A call of
  \<^verbatim>\<open>applyEntries\<close> that fails after its commit returns no outcome; the node then stops, as after any other call
  it may, and opens one of these databases. A snapshot of another node is saved and then installed, as
  \<^verbatim>\<open>ProcessReadyContext\<close> does; the node may stop after either call. The requests of its image count as commands.
\<close>

inductive request_run ::
    "'db storage_env \<Rightarrow> nat \<Rightarrow> 'db Store \<Rightarrow> Outcome list \<Rightarrow> nat \<Rightarrow> 'db Store \<Rightarrow> 'db set \<Rightarrow> bool" for E procs s where
  opened: "request_run E procs s [] 0 s {so_db s}"
| served: "request_run E procs s answered n t D \<Longrightarrow> entries_ok E entries \<Longrightarrow>
    applyEntries E procs t entries workers owned = (u, Inr outcomes) \<Longrightarrow>
    request_run E procs s (answered @ filter accepted_outcome outcomes) (n + length (entry_commands entries)) u
      (if entries \<noteq> [] then {so_db u} else insert (so_db u) D)"
| kept: "request_run E procs s answered n t D \<Longrightarrow> upkeep E t u True sync \<Longrightarrow>
    request_run E procs s answered n u (if sync then {so_db u} else insert (so_db u) D)"
| crashed_serving: "request_run E procs s answered n t D \<Longrightarrow> entries_ok E entries \<Longrightarrow>
    applyEntries E procs t entries workers owned = (u, q) \<Longrightarrow> so_db v \<in> insert (so_db u) D \<Longrightarrow>
    load E procs v voters = Inr w \<Longrightarrow>
    request_run E procs s answered (n + length (entry_commands entries)) w {so_db w}"
| crashed: "request_run E procs s answered n t D \<Longrightarrow> upkeep E t u ok sync \<Longrightarrow> so_db v \<in> insert (so_db u) D \<Longrightarrow>
    load E procs v voters = Inr w \<Longrightarrow> request_run E procs s answered n w {so_db w}"
| received: "request_run E procs s answered n t D \<Longrightarrow> received_ok E t ready answered k \<Longrightarrow>
    SaveReady E t ready = (u, Inr ()) \<Longrightarrow> InstallSnapshot E procs u (rd_Snapshot ready) = (w, Inr ()) \<Longrightarrow>
    request_run E procs s answered (n + k) w {so_db w}"
| crashed_receiving: "request_run E procs s answered n t D \<Longrightarrow> received_ok E t ready answered k \<Longrightarrow>
    SaveReady E t ready = (u, r) \<Longrightarrow> so_db v \<in> insert (so_db u) D \<Longrightarrow> load E procs v voters = Inr w \<Longrightarrow>
    request_run E procs s answered (n + k) w {so_db w}"
| crashed_installing: "request_run E procs s answered n t D \<Longrightarrow> received_ok E t ready answered k \<Longrightarrow>
    SaveReady E t ready = (u, Inr ()) \<Longrightarrow> InstallSnapshot E procs u (rd_Snapshot ready) = (x, r) \<Longrightarrow> so_db v = so_db x \<Longrightarrow>
    load E procs v voters = Inr w \<Longrightarrow> request_run E procs s answered (n + k) w {so_db w}"

lemma received_node:
  assumes "node_run E procs s disks t D" "received_ok E t ready answered k" "SaveReady E t ready = (u, Inr ())"
  shows "node_run E procs s disks u {so_db u}"
proof -
  from assms(2) have ok: "ready_ok ready" "\<not> io_isEmptySnap E (rd_Snapshot ready)" by (simp_all add: received_ok_def)
  then have "\<not> ready_empty E ready" by (simp add: ready_empty_def)
  moreover from this assms(3) obtain plan where plan: "plan_ready E t ready = Inr plan"
    by (auto simp: SaveReady_def split: sum.splits)
  moreover from plan obtain len where
    "check_snapshot E t ready = Inr (rp_changed plan, rp_snapshot plan, rp_conf plan, len)" by (rule plan_ready_Inr)
  then have "rp_changed plan" using ok(2) by (auto simp: check_snapshot_def result_simps)
  ultimately have "ready_syncs E t ready" by (simp add: ready_syncs_def raftWriteOptions_def)
  with node_run.run_call [OF assms(1), of u "ready_syncs E t ready"] store_call.save_ready [OF assms(3) ok(1), of procs]
  show ?thesis by simp
qed

lemma request_run_node: "request_run E procs s answered n t D \<Longrightarrow> node_run E procs s {so_db s} t D"
proof (induction rule: request_run.induct)
  case (served answered n t D entries workers owned u outcomes)
  have "store_call E procs t u True (entries \<noteq> [])" using store_call.apply_entries [OF served.hyps(3)] by simp
  from node_run.run_call [OF served.IH this] show ?case by simp
next
  case (crashed_serving answered n t D entries workers owned u q v voters w)
  show ?case
    by (rule node_run.run_crash [OF crashed_serving.IH store_call.apply_entries [OF crashed_serving.hyps(3)]
        crashed_serving.hyps(4,5)])
next
  case (received answered n t D ready k u w)
  have saved: "node_run E procs s {so_db s} u {so_db u}"
    by (rule received_node [OF received.IH received.hyps(2,3)])
  have "store_call E procs u w True (so_applied u < sn_Index (rd_Snapshot ready))"
    using store_call.install_snapshot [OF received.hyps(4)] by simp
  from node_run.run_call [OF saved this] show ?case
    using saved received.hyps(4) by (cases "so_applied u < sn_Index (rd_Snapshot ready)") (simp_all add: InstallSnapshot_stale)
next
  case (crashed_receiving answered n t D ready k u r v voters w)
  have "ready_ok ready" using crashed_receiving.hyps(2) by (simp add: received_ok_def)
  from node_run.run_crash [OF crashed_receiving.IH store_call.save_ready [OF crashed_receiving.hyps(3) this] crashed_receiving.hyps(4,5)]
  show ?case .
next
  case (crashed_installing answered n t D ready k u x r v voters w)
  have saved: "node_run E procs s {so_db s} u {so_db u}"
    by (rule received_node [OF crashed_installing.IH crashed_installing.hyps(2,3)])
  show ?case
    by (rule node_run.run_crash [OF saved store_call.install_snapshot [OF crashed_installing.hyps(4)] _ crashed_installing.hyps(6)])
      (simp add: crashed_installing.hyps(5))
qed (blast intro: node_run.intros upkeep_call)+

section \<open>A new database, and the whole run\<close>

lemma initialize_disk:
  assumes P: "pebble_ok (io_pebble E) view" and C: "raft_codecs_ok E" and S: "snappy_ok (io_snappy E)"
    and J: "\<forall>x. json_ok (io_appliedState E) x" and empty: "view (so_db s) = Map.empty"
    and init: "initialize E s voters = Inr t"
  shows "app_disk E (view (so_db t)) 1 1 \<and> receipt_keys view (so_db t) = {}"
proof -
  from init obtain ops where plan: "plan_initialize E s voters = Inr ops"
    and commit: "pb_Commit (io_pebble E) (so_db s) True ops = Inr (so_db t)"
    by (auto simp: initialize_def result_simps)
  from plan obtain schema cluster node hardData confData snapshotData snapshot applied where
    a: "encodeJSON (io_snappy E) (io_appliedState E) \<lparr>as_Index = 1, as_Term = 1\<rparr> = Inr applied"
    and m: "encodeProto (io_snapshot E) snapshot = Inr snapshotData" "sn_Index snapshot = 1"
    and ops: "ops = [OpSet schemaKey schema, OpSet clusterKey cluster, OpSet nodeKey node, OpSet hardStateKey hardData,
        OpSet confStateKey confData, OpSet snapshotKey snapshotData, OpSet appliedKey applied,
        OpSet activeIndexKey activeIndexValue]"
    unfolding plan_initialize_def Let_def by (auto simp: result_simps split: if_splits)
  have view: "view (so_db t) = run_ops ops Map.empty" using pebble_commit [OF P commit] empty by simp
  have "decodeJSON (io_snappy E) (io_appliedState E) applied = Inr \<lparr>as_Index = 1, as_Term = 1\<rparr>"
    using decode_encodeJSON [OF J [rule_format] S] a by (metis Inr_inject)
  moreover have "pr_Unmarshal (io_snapshot E) snapshotData = Some snapshot"
    using C m(1) by (auto simp: raft_codecs_ok_def proto_ok_def encodeProto_def split: option.splits)
  moreover have "view (so_db t) appliedKey = Some applied" "view (so_db t) snapshotKey = Some snapshotData"
    by (simp_all add: view ops) (simp_all add: meta_keys)
  moreover have "view (so_db t) k = None" if "prefix [CHR 0x04] k" for k
    using that by (auto simp: view ops meta_keys prefix_def)
  ultimately show ?thesis using m(2) by (auto simp: app_disk_def applied_at_def receipt_keys_def)
qed

lemma Open_served:
  assumes P: "pebble_ok (io_pebble E) view" and C: "raft_codecs_ok E" and S: "snappy_ok (io_snappy E)"
    and J: "\<forall>x. json_ok (io_appliedState E) x" and opened: "opened (cf_Directory config) = Inr db" "view db = Map.empty"
    and start: "Open E procs opened config = Inr s"
  shows "served_inv E view [] 0 s {so_db s}"
proof -
  let ?s = "new_store config db" and ?voters = "cf_Voters config"
  from opened(1) start obtain u where load: "load E procs ?s ?voters = Inr u" and s: "s = attachEngine E u"
    by (auto simp: Open_def result_simps split: if_splits)
  have empty: "view (so_db ?s) = Map.empty" by (simp add: new_store_def Let_def opened(2))
  then have none: "get E ?s schemaKey = Inr None" by (simp add: get_def pebble_get [OF P])
  with load obtain t data where t: "initialize E ?s ?voters = Inr t" "get_present E t schemaKey = Inr data"
    by (auto simp: load_def ensure_schema_def result_simps)
  from initialize_inv [OF P empty t(1)] obtain d where d: "raft_inv E view d" "so_db t = so_db d" by auto
  have "get E t schemaKey = Inr (Some data)"
    using t(2) by (auto simp: get_present_def get_def pebble_get [OF P] split: option.splits)
  then have "ensure_schema E t ?voters = ensure_schema E ?s ?voters" using none t by (simp add: ensure_schema_def)
  then have load': "load E procs t ?voters = Inr u" using load by (simp add: load_def)
  note disk = initialize_disk [OF P C S J empty t(1)]
  have "served_inv E view [] 0 u {so_db u}"
    by (rule reopened [OF P C d load' disk [THEN conjunct1]]) (use disk in simp_all)
  then show ?thesis by (simp add: s attachEngine_def served_inv_def answers_kept_def)
qed

lemma request_run_inv:
  assumes P: "pebble_ok (io_pebble E) view" and C: "raft_codecs_ok E" and S: "snappy_ok (io_snappy E)"
    and J: "\<forall>x. json_ok (io_appliedState E) x" and run: "request_run E procs s answered n t D"
    and R: "raft_inv E view s" and I: "served_inv E view [] 0 s {so_db s}" and few: "n \<le> 2 ^ 59"
  shows "served_inv E view answered n t D"
  using run few
proof (induction rule: request_run.induct)
  case opened
  show ?case by (rule I)
next
  case (served answered n t D entries workers owned u outcomes)
  then show ?case by (intro served_step [OF P S J]) simp_all
next
  case (kept answered n t D u sync)
  then show ?case by (intro served_upkeep [OF P upkeep_app [OF P C]])
next
  case (crashed_serving answered n t D entries workers owned u q v voters w)
  have inv: "served_inv E view answered n t D" using crashed_serving by simp
  have disks: "disk_inv E view t D"
    using node_run_inv [OF P C request_run_node [OF crashed_serving.hyps(1)] disk_inv_single [OF R]] by simp
  have "outcome_ok E view t u (\<not> isl q)"
    by (rule applyEntries_ok [OF P _ crashed_serving.hyps(3)]) (use disks in \<open>simp add: disk_inv_def\<close>)
  then obtain r where r: "raft_inv E view r" "so_db v = so_db r"
    using crashed_serving.hyps(4) disks unfolding outcome_ok_def disk_inv_def by (metis insertE)
  show ?case
  proof (cases "so_db v \<in> insert (so_db t) D")
    case True
    then have "same_app view (so_db t) (so_db v)" "app_disk E (view (so_db v)) (so_applied t) (so_appliedTerm t)"
      using inv by (auto simp: served_inv_def)
    then show ?thesis using crashed_serving.prems by (intro crash_kept [OF P C inv _ _ r crashed_serving.hyps(5)]) simp_all
  next
    case False
    then have "so_db v = so_db u" "so_db u \<noteq> so_db t" using crashed_serving.hyps(4) by auto
    then obtain plan where "committed_plan E procs t entries workers owned plan (so_db v)"
      using applyEntries_result [OF crashed_serving.hyps(3)] by auto
    from crash_serving [OF P C S J inv crashed_serving.hyps(2) this r crashed_serving.hyps(5) crashed_serving.prems]
    show ?thesis .
  qed
next
  case (crashed answered n t D u ok sync v voters w)
  have inv: "served_inv E view answered n t D" using crashed by simp
  have disks: "disk_inv E view t D"
    using node_run_inv [OF P C request_run_node [OF crashed.hyps(1)] disk_inv_single [OF R]] by simp
  have "outcome_ok E view t u ok"
    by (rule store_call_ok [OF P upkeep_call [OF crashed.hyps(2)]]) (use disks in \<open>simp add: disk_inv_def\<close>)
  then obtain r where r: "raft_inv E view r" "so_db v = so_db r"
    using crashed.hyps(3) disks unfolding outcome_ok_def disk_inv_def by (metis insertE)
  have "same_app view (so_db t) (so_db v)" "app_disk E (view (so_db v)) (so_applied t) (so_appliedTerm t)"
    using inv crashed.hyps(3) upkeep_app [OF P C crashed.hyps(2)] by (auto simp: served_inv_def upkeep_ok_def)
  then show ?case using crashed.prems by (intro crash_kept [OF P C inv _ _ r crashed.hyps(4)]) simp_all
next
  case (received answered n t D ready k u w)
  then show ?case by (intro received_inv [OF P C S J]) simp_all
next
  case (crashed_receiving answered n t D ready k u q v voters w)
  have inv: "served_inv E view answered n t D" using crashed_receiving by simp
  have disks: "disk_inv E view t D"
    using node_run_inv [OF P C request_run_node [OF crashed_receiving.hyps(1)] disk_inv_single [OF R]] by simp
  have "ready_ok ready" using crashed_receiving.hyps(2) by (simp add: received_ok_def)
  from store_call_ok [OF P store_call.save_ready [OF crashed_receiving.hyps(3) this, of 0]] disks
  have "outcome_ok E view t u (q = Inr ())" by (simp add: disk_inv_def)
  then obtain r where r: "raft_inv E view r" "so_db v = so_db r"
    using crashed_receiving.hyps(4) disks unfolding outcome_ok_def disk_inv_def by (metis insertE)
  from crash_received [OF P C S J inv crashed_receiving.hyps(2-4) r crashed_receiving.hyps(5) crashed_receiving.prems]
  show ?case .
next
  case (crashed_installing answered n t D ready k u x q v voters w)
  have inv: "served_inv E view answered n t D" using crashed_installing by simp
  have saved: "node_run E procs s {so_db s} u {so_db u}"
    by (rule received_node [OF request_run_node [OF crashed_installing.hyps(1)] crashed_installing.hyps(2,3)])
  have "raft_inv E view u"
    using node_run_inv [OF P C saved disk_inv_single [OF R]] by (simp add: disk_inv_def)
  from InstallSnapshot_ok [OF P this crashed_installing.hyps(4)]
  obtain r where r: "raft_inv E view r" "so_db v = so_db r" by (auto simp: outcome_ok_def crashed_installing.hyps(5))
  from crash_installing [OF P C S J inv crashed_installing.hyps(2-5) r crashed_installing.hyps(6) crashed_installing.prems]
  show ?case .
qed

end
