(* ===== verification/Chronos_Raft_Properties.thy ===== *)
theory Chronos_Raft_Properties
  imports Chronos_Raft_Steps
begin

text \<open>
  The raft log survives a restart. The witnesses run on a database of association lists and on codecs
  given by tables.
\<close>

section \<open>A database of association lists\<close>

primrec run_alist :: "write_op \<Rightarrow> (bytes \<times> bytes) list \<Rightarrow> (bytes \<times> bytes) list" where
  "run_alist (OpSet k v) d = put k v d"
| "run_alist (OpDelete k) d = del k d"
| "run_alist (OpDeleteRange lo hi) d = filter (\<lambda>kv. \<not> in_range lo hi (fst kv)) d"

definition alist_db :: "(bytes \<times> bytes) list pebble" where
  "alist_db =
     \<lparr>pb_Get = (\<lambda>d k. Inr (map_of d k)), pb_Commit = (\<lambda>d sync ops. Inr (fold run_alist ops d)),
      pb_Scan = (\<lambda>d lo hi. Inr (map (\<lambda>k. (k, the (map_of d k))) (sort (filter (in_range lo hi) (remdups (keys d))))))\<rparr>"

lemma map_of_run_alist: "map_of (run_alist op d) = run_op op (map_of d)"
proof (cases op)
  case (OpDeleteRange lo hi)
  have "map_of (filter (\<lambda>kv. \<not> in_range lo hi (fst kv)) d) k = (if in_range lo hi k then None else map_of d k)" for k
    by (induction d) auto
  with OpDeleteRange show ?thesis by (simp add: fun_eq_iff)
qed simp_all

lemma map_of_fold_alist: "map_of (fold run_alist ops d) = run_ops ops (map_of d)"
  by (induction ops arbitrary: d) (simp_all add: map_of_run_alist)

lemma alist_db_ok: "pebble_ok alist_db map_of"
proof -
  have "\<exists>kvs. pb_Scan alist_db d lo hi = Inr kvs \<and> sorted_wrt (<) (map fst kvs) \<and>
      set kvs = {(k, v). map_of d k = Some v \<and> in_range lo hi k}" for d lo hi
  proof -
    let ?ks = "sort (filter (in_range lo hi) (remdups (keys d)))"
    have "sorted_wrt (<) ?ks" by (simp add: strict_sorted_iff)
    moreover have "set (map (\<lambda>k. (k, the (map_of d k))) ?ks) = {(k, v). map_of d k = Some v \<and> in_range lo hi k}"
    proof (rule set_eqI)
      fix kv :: "bytes \<times> bytes"
      have "fst kv \<in> set (keys d) \<longleftrightarrow> map_of d (fst kv) \<noteq> None" by (simp add: map_of_eq_None_iff)
      then show "kv \<in> set (map (\<lambda>k. (k, the (map_of d k))) ?ks) \<longleftrightarrow>
          kv \<in> {(k, v). map_of d k = Some v \<and> in_range lo hi k}"
        by (cases kv; cases "map_of d (fst kv)") auto
    qed
    ultimately show ?thesis by (auto simp: alist_db_def comp_def)
  qed
  then show ?thesis unfolding pebble_ok_def by (simp add: alist_db_def map_of_fold_alist)
qed

text \<open>A codec that knows the values of a table.\<close>

definition table_proto :: "('a \<times> bytes) list \<Rightarrow> 'a proto" where
  "table_proto xs = \<lparr>pr_Marshal = map_of xs, pr_Unmarshal = map_of (map prod.swap xs)\<rparr>"

lemma table_proto_ok: "distinct (map snd xs) \<Longrightarrow> proto_ok (table_proto xs)"
  by (auto simp: proto_ok_def table_proto_def comp_def dest: map_of_SomeD intro!: map_of_is_SomeI)


section \<open>The raft state survives crashes\<close>

text \<open>
  C30. A store that was opened on an empty database is run: \<^verbatim>\<open>SaveReady\<close>, \<^verbatim>\<open>SaveConfState\<close>, \<^verbatim>\<open>applyEntries\<close>,
  \<^verbatim>\<open>CreateSnapshot\<close> and \<^verbatim>\<open>InstallSnapshot\<close> are called in any order; after any call, also one that failed
  before or after its commit, the node may stop, lose the batches that were not synced, and open what is on
  the disk. Then whatever database \<open>d\<close> a crash may leave, \<^verbatim>\<open>loadRaft\<close> on it succeeds and returns the term, the
  vote, the configuration, the snapshot and the log terms that the store has in memory; only the commit index
  may be older. The term never goes back, nothing uncommitted has been applied, and the commit index is
  within the log.
\<close>

theorem raft_state_survives_crashes:
  fixes E :: "'db storage_env"
  assumes "pebble_ok (io_pebble E) view" "raft_codecs_ok E"
    and "opened (cf_Directory config) = Inr db" "view db = Map.empty"
    and "Open E procs opened config = Inr s" "node_run E procs s {so_db s} t D"
  shows "(\<forall>d \<in> D. \<forall>u. so_db u = d \<longrightarrow>
      (\<exists>hard. loadRaft E u = Inr (u\<lparr>so_hard := hard, so_conf := so_conf t, so_snapshot := so_snapshot t,
           so_entryTerms := so_entryTerms t\<rparr>) \<and>
         hs_Term hard = hs_Term (so_hard t) \<and> hs_Vote hard = hs_Vote (so_hard t) \<and>
         hs_Commit hard \<le> hs_Commit (so_hard t))) \<and>
    (\<forall>u D'. node_run E procs t D u D' \<longrightarrow> hs_Term (so_hard t) \<le> hs_Term (so_hard u)) \<and>
    so_db t \<in> D \<and> so_applied t \<le> hs_Commit (so_hard t) \<and> hs_Commit (so_hard t) \<le> LastIndex t"
proof (intro conjI ballI allI impI)
  have "raft_inv E view s" using Open_new [OF assms(1-5)] by simp
  from node_run_inv [OF assms(1,2,6) disk_inv_single [OF this]] have inv: "disk_inv E view t D" by simp
  then show "so_db t \<in> D" "so_applied t \<le> hs_Commit (so_hard t)" "hs_Commit (so_hard t) \<le> LastIndex t"
    by (auto simp: disk_inv_def raft_inv_def raft_durable_def)
  show "hs_Term (so_hard t) \<le> hs_Term (so_hard u)" if "node_run E procs t D u D'" for u D'
    using node_run_inv [OF assms(1,2) that inv] by simp
  fix d :: 'db and u :: "'db Store"
  assume "d \<in> D" and u: "so_db u = d"
  with inv obtain r where r: "raft_durable E view r" "so_db u = so_db r" "same_but_commit r t"
    by (auto simp: disk_inv_def raft_inv_def)
  from loadRaft_durable [OF assms(1,2) r(1,2)] r(3)
  show "\<exists>hard. loadRaft E u = Inr (u\<lparr>so_hard := hard, so_conf := so_conf t, so_snapshot := so_snapshot t,
           so_entryTerms := so_entryTerms t\<rparr>) \<and>
         hs_Term hard = hs_Term (so_hard t) \<and> hs_Vote hard = hs_Vote (so_hard t) \<and>
         hs_Commit hard \<le> hs_Commit (so_hard t)"
    by (intro exI [of _ "so_hard r"]) (simp add: same_raft_def same_but_commit_def)
qed

text \<open>A store of three voters: saving one entry fails after the commit, and the database is opened again.\<close>

definition blank_json :: "'a json" where
  "blank_json = \<lparr>js_Marshal = (\<lambda>_. None), js_Unmarshal = (\<lambda>_. None)\<rparr>"

definition demo_conf :: ConfState where
  "demo_conf = \<lparr>cs_Voters = [1, 2, 3], cs_Learners = [], cs_VotersOutgoing = [], cs_LearnersNext = [], cs_AutoLeave = False\<rparr>"

definition demo_digest :: digest where "demo_digest data = replicate 32 (CHR ''x'')"

definition demo_snapshot :: RaftSnapshot where
  "demo_snapshot = \<lparr>sn_Data = snapshotMagic @ PutUint64 (of_nat (length ''i'')) @ ''i'' @ replicate 32 (CHR ''x''),
     sn_Index = 1, sn_Term = 1, sn_ConfState = demo_conf\<rparr>"

definition demo_hards :: "HardState \<times> HardState" where
  "demo_hards = (\<lparr>hs_Term = 1, hs_Vote = 0, hs_Commit = 1\<rparr>, \<lparr>hs_Term = 2, hs_Vote = 1, hs_Commit = 2\<rparr>)"

definition demo_entry :: Entry where
  "demo_entry = \<lparr>le_Index = 2, le_Term = 2, le_Type = 0, le_Data = ''d''\<rparr>"

definition demo_empty :: RaftSnapshot where "demo_empty = demo_snapshot\<lparr>sn_Index := 0\<rparr>"

text \<open>The codecs of the application know one event, that of submitting a workflow with one task.\<close>

definition demo_definition :: WorkflowDefinition where
  "demo_definition =
     \<lparr>wd_Name = ''n'', wd_Namespace = ''s'', wd_StartAt = 0,
      wd_Tasks = [\<lparr>td_ID = ''a'', td_Type = ''t'', td_Dependencies = None,
        td_Retry = \<lparr>rp_MaxAttempts = 2, rp_InitialBackoffMillis = 5, rp_BackoffMultiplier = 2, rp_MaxBackoffMillis = 20\<rparr>,
        td_TimeoutMillis = 50, td_Compensation = None, td_Fanout = None\<rparr>]\<rparr>"

definition demo_event :: Event where
  "demo_event = zero_Event\<lparr>ev_ID := EventID demo_digest ''w'' 1 EventWorkflowSubmitted, ev_Kind := EventWorkflowSubmitted,
     ev_Sequence := 1, ev_RequestID := ''r'', ev_RequestHash := ''h'', ev_WorkflowID := ''w'',
     ev_Definition := Some demo_definition\<rparr>"

definition demo_segment :: "uint64 \<Rightarrow> eventSegment" where
  "demo_segment index = \<lparr>sg_Version = eventSegmentVersion, sg_WorkflowID = ''w'', sg_AppliedIndex = index,
     sg_FirstSequence = 1, sg_LastSequence = 1, sg_Events = [demo_event]\<rparr>"

definition demo_applied :: "AppliedState json" where
  "demo_applied = \<lparr>js_Marshal = (\<lambda>a. Some (CHR ''a'' # PutUint64 (as_Index a) @ PutUint64 (as_Term a))),
     js_Unmarshal = (\<lambda>d. Some \<lparr>as_Index = Uint64 (drop 1 d), as_Term = Uint64 (drop 9 d)\<rparr>)\<rparr>"

definition demo_env :: "(bytes \<times> bytes) list storage_env" where
  "demo_env =
     \<lparr>io_pebble = alist_db, io_digest = demo_digest,
      io_snappy = \<lparr>sn_Encode = (\<lambda>d. d), sn_DecodedLen = (\<lambda>d. Some (int (length d))), sn_Decode = Some\<rparr>,
      io_hard = table_proto [(fst demo_hards, ''1''), (snd demo_hards, ''2'')], io_conf = table_proto [(demo_conf, ''c'')],
      io_snapshot = table_proto [(demo_snapshot, ''s'')], io_entry = table_proto [(demo_entry, ''e'')],
      io_entrySize = (\<lambda>_. 1), io_isEmptyHardState = (\<lambda>h. hs_Term h = 0), io_isEmptySnap = (\<lambda>s. sn_Index s = 0),
      io_image = \<lparr>js_Marshal = (\<lambda>_. Some ''i''), js_Unmarshal = (\<lambda>_. None)\<rparr>,
      io_receipt = blank_json,
      io_eventSegment = \<lparr>js_Marshal = (\<lambda>g. Some (CHR ''g'' # PutUint64 (sg_AppliedIndex g))),
        js_Unmarshal = (\<lambda>d. Some (demo_segment (Uint64 (drop 1 d))))\<rparr>,
      io_taskResultSegment = blank_json, io_state = \<lparr>js_Marshal = (\<lambda>_. Some ''w''), js_Unmarshal = (\<lambda>_. None)\<rparr>,
      io_outcome = blank_json, io_appliedState = demo_applied,
      io_application = \<lparr>js_Marshal = (\<lambda>_. Some ''p''), js_Unmarshal = (\<lambda>_. None)\<rparr>, io_receiptHash = (\<lambda>_. 0), io_workflowHash = (\<lambda>_. 0)\<rparr>"

definition demo_config :: "(Point \<Rightarrow> store_err option) \<Rightarrow> store_config" where
  "demo_config fail = \<lparr>cf_Directory = ''dir'', cf_ClusterID = ''chronos'', cf_NodeID = 1, cf_Voters = [3, 1, 2], cf_Failpoint = fail\<rparr>"

definition demo_ready :: Ready where
  "demo_ready = \<lparr>rd_HardState = snd demo_hards, rd_Entries = [demo_entry], rd_Snapshot = demo_empty, rd_MustSync = True\<rparr>"

lemma demo_env_ok: "pebble_ok (io_pebble demo_env) map_of" "raft_codecs_ok demo_env"
  by (simp_all add: demo_env_def alist_db_ok raft_codecs_ok_def table_proto_ok)

lemma demo_ready_ok: "ready_ok demo_ready"
  by (simp add: ready_ok_def demo_ready_def demo_entry_def demo_empty_def)

definition demo_start :: bytes where
  "demo_start = CHR ''a'' # PutUint64 1 @ PutUint64 1"

lemma demo_start: "js_Marshal demo_applied \<lparr>as_Index = 1, as_Term = 1\<rparr> = Some demo_start"
  "js_Unmarshal demo_applied demo_start = Some \<lparr>as_Index = 1, as_Term = 1\<rparr>" "length demo_start = 17"
  "strip_prefix jsonSnappyMagic demo_start = None"
  by (simp_all add: demo_applied_def demo_start_def jsonSnappyMagic_def)

definition demo_disk :: "(bytes \<times> bytes) list" where
  "demo_disk = fold run_alist
     [OpSet schemaKey (PutUint32 SchemaVersion), OpSet clusterKey ''chronos'', OpSet nodeKey (PutUint64 1),
      OpSet hardStateKey ''1'', OpSet confStateKey ''c'', OpSet snapshotKey ''s'', OpSet appliedKey demo_start,
      OpSet activeIndexKey activeIndexValue] []"

lemma demo_order: "\<not> (3 :: uint64) \<le> 1" "\<not> (2 :: uint64) \<le> 1"
  by (simp_all add: word_le_nat_alt)

lemmas demo_defs = demo_config_def demo_env_def alist_db_def encodeSnapshotImage_def encodeJSON_def encodeProto_def
  table_proto_def demo_hards_def demo_conf_def demo_snapshot_def demo_digest_def demo_order minJSONCompressionBytes_def
  maxJSONRecordBytes_def

lemma demo_initialize:
  "initialize demo_env (new_store (demo_config fail) []) [3, 1, 2] = Inr (new_store (demo_config fail) demo_disk)"
  by (simp add: initialize_def plan_initialize_def new_store_def Let_def demo_defs demo_disk_def demo_start)

text \<open>A database that holds a raft state, and of the application what \<^verbatim>\<open>initialize\<close> wrote, can be opened.\<close>

lemma scan_none:
  assumes "pebble_ok (io_pebble E) view" "byte_val pre \<noteq> 255" "\<And>k. prefix [pre] k \<Longrightarrow> view (so_db s) k = None"
  shows "scan_bounds E s pre = Inr []"
  unfolding scan_bounds_def prefixBounds_def prod.case
  by (rule pebble_scan_eq [OF assms(1)])
    (use assms(3) in_range_prefixBounds [OF assms(2)] in \<open>auto simp: prefixBounds_def\<close>)

definition demo_application :: "(bytes \<times> bytes) list \<Rightarrow> bool" where
  "demo_application d \<longleftrightarrow>
     map_of d schemaKey = Some (PutUint32 SchemaVersion) \<and> map_of d clusterKey = Some ''chronos'' \<and>
     map_of d nodeKey = Some (PutUint64 1) \<and> map_of d appliedKey = Some demo_start \<and>
     map_of d activeIndexKey = Some activeIndexValue \<and>
     (\<forall>k. (\<exists>b rest. k = b # rest \<and> 2 < byte_val b) \<longrightarrow> map_of d k = None)"

definition demo_store ::
    "(Point \<Rightarrow> store_err option) \<Rightarrow> (bytes \<times> bytes) list Store \<Rightarrow> durableMembership \<Rightarrow> (bytes \<times> bytes) list Store" where
  "demo_store fail r m =
     (attachEngine demo_env (same_raft r (new_store (demo_config fail) (so_db r))
        \<lparr>so_applied := 1, so_appliedTerm := 1, so_engine := DiscardJournal NewEngine\<rparr>))\<lparr>so_membership := Some m\<rparr>"

lemma demo_load:
  assumes D: "raft_durable demo_env map_of r" and d: "demo_application (so_db r)"
    and snap: "sn_Index (so_snapshot r) = 1" "sn_Term (so_snapshot r) = 1"
  shows "\<exists>m. load demo_env 1 (new_store (demo_config fail) (so_db r)) voters = Inr (demo_store fail r m)"
proof -
  let ?s = "new_store (demo_config fail) (so_db r)"
  have get: "get demo_env s k = Inr (map_of (so_db s) k)" for s k by (simp add: get_def demo_env_def alist_db_def)
  have db: "so_db ?s = so_db r" by (simp add: new_store_def Let_def)
  have schema: "ensure_schema demo_env ?s voters = Inr (?s, PutUint32 SchemaVersion)"
    using d by (simp add: ensure_schema_def get db demo_application_def)
  have ident: "check_identity demo_env ?s (PutUint32 SchemaVersion) = Inr ()"
    using d by (simp add: check_identity_def get_present_def get db demo_application_def)
      (simp add: new_store_def Let_def demo_config_def)
  have raft: "loadRaft demo_env ?s = Inr (same_raft r ?s)"
    by (rule loadRaft_durable [OF demo_env_ok D db])
  have scan: "scan_bounds demo_env s pre = Inr []" if "so_db s = so_db r" "2 < byte_val pre" "byte_val pre \<noteq> 255" for s pre
    by (rule scan_none [OF demo_env_ok(1) that(3)]) (use d that in \<open>auto simp: demo_application_def prefix_def\<close>)
  let ?t = "same_raft r ?s"
  have t: "so_db ?t = so_db r" "sn_Index (so_snapshot ?t) = 1" "sn_Term (so_snapshot ?t) = 1" "so_hard ?t = so_hard r"
    using snap by (simp_all add: same_raft_def db)
  have applied: "bindE (get_present demo_env ?t appliedKey) (decodeJSON (io_snappy demo_env) (io_appliedState demo_env)) =
      Inr \<lparr>as_Index = 1, as_Term = 1\<rparr>"
    using d by (simp add: get_present_def get t(1) demo_application_def)
      (simp add: decodeJSON_def demo_env_def demo_start unmarshal_def)
  have valid: "validateApplicationLog demo_env ?t \<lparr>as_Index = 1, as_Term = 1\<rparr> = Inr ()"
    by (simp add: validateApplicationLog_def term_at_def t scan Let_def)
  have index: "ensureActiveIndex demo_env ?t = (?t, Inr ())"
    using d by (simp add: ensureActiveIndex_def get t(1) demo_application_def)
  let ?a = "?t\<lparr>so_applied := 1, so_appliedTerm := 1\<rparr>"
  have engine: "loadActiveEngine demo_env ?a = Inr (DiscardJournal NewEngine)"
    by (simp add: loadActiveEngine_def t scan)
  let ?u = "attachEngine demo_env (?a\<lparr>so_engine := DiscardJournal NewEngine\<rparr>)"
  have app: "loadApplication demo_env 1 ?t = (?u, Inr ())"
    by (simp add: loadApplication_def applied t valid index engine Let_def)
  have u: "so_db ?u = so_db r" "so_applied ?u = 1" "sn_Index (so_snapshot ?u) = 1" "so_hard ?u = so_hard r"
    using t by (simp_all add: attachEngine_def)
  have "hs_Commit (so_hard r) \<noteq> 0" using D snap by (auto simp: raft_durable_def)
  then have "load demo_env 1 ?s voters = rebuildDurableMembership demo_env ?u"
    by (simp add: load_def schema ident raft app u not_less del: One_nat_def)
  moreover obtain m where "rebuildDurableMembership demo_env ?u = Inr (?u\<lparr>so_membership := Some m\<rparr>)"
    by (simp add: rebuildDurableMembership_def streamMembershipIDs_def scan u Let_def)
  ultimately show ?thesis by (auto simp: demo_store_def)
qed

definition demo_first :: "(bytes \<times> bytes) list Store" where
  "demo_first = (new_store (demo_config (\<lambda>_. None)) demo_disk)
     \<lparr>so_hard := fst demo_hards, so_conf := demo_conf, so_snapshot := demo_snapshot\<rparr>"

lemma demo_disk_view: "map_of demo_disk = run_ops
     [OpSet schemaKey (PutUint32 SchemaVersion), OpSet clusterKey ''chronos'', OpSet nodeKey (PutUint64 1),
      OpSet hardStateKey ''1'', OpSet confStateKey ''c'', OpSet snapshotKey ''s'', OpSet appliedKey demo_start,
      OpSet activeIndexKey activeIndexValue] Map.empty"
  unfolding demo_disk_def map_of_fold_alist by simp

lemma demo_first_snapshot: "sn_Index (so_snapshot demo_first) = 1" "sn_Term (so_snapshot demo_first) = 1"
  by (simp_all add: demo_first_def demo_snapshot_def)

lemma demo_first_ok: "raft_durable demo_env map_of demo_first" "demo_application (so_db demo_first)"
proof -
  have db: "so_db demo_first = demo_disk" "so_entryTerms demo_first = []" "so_hard demo_first = fst demo_hards"
    "so_conf demo_first = demo_conf" "so_snapshot demo_first = demo_snapshot"
    by (simp_all add: demo_first_def new_store_def Let_def)
  have "map_of demo_disk k = None" if "prefix [log_prefix] k" for k
    using that by (auto simp: demo_disk_view meta_keys log_prefix_def prefix_def)
  then have "log_on_disk demo_env (map_of demo_disk) (sn_Index demo_snapshot + 1) []"
    by (simp add: log_on_disk_def demo_snapshot_def)
  moreover have "map_of demo_disk hardStateKey = Some ''1''" "map_of demo_disk confStateKey = Some ''c''"
    "map_of demo_disk snapshotKey = Some ''s''"
    by (simp_all add: demo_disk_view meta_keys)
  ultimately show "raft_durable demo_env map_of demo_first"
    unfolding raft_durable_def db LastIndex_def
    by (simp add: demo_env_def table_proto_def demo_snapshot_def demo_hards_def)
  show "demo_application (so_db demo_first)"
    unfolding db demo_application_def by (auto simp: demo_disk_view meta_keys)
qed

definition demo_fail :: "Point \<Rightarrow> store_err option" where
  "demo_fail p = (if p = RaftAfterSync then Some StoreFault else None)"

lemma demo_open:
  "\<exists>m. Open demo_env 1 (\<lambda>_. Inr []) (demo_config fail) = Inr (attachEngine demo_env (demo_store fail demo_first m))"
proof -
  let ?s = "new_store (demo_config fail) []" and ?t = "new_store (demo_config fail) demo_disk"
  have get: "get demo_env s k = Inr (map_of (so_db s) k)" for s k by (simp add: get_def demo_env_def alist_db_def)
  have db: "so_db ?s = []" "so_db ?t = demo_disk" "so_db demo_first = demo_disk"
    by (simp_all add: demo_first_def new_store_def Let_def)
  have "ensure_schema demo_env ?s [3, 1, 2] = ensure_schema demo_env ?t [3, 1, 2]"
    using demo_first_ok(2) by (simp add: ensure_schema_def get get_present_def db demo_initialize demo_application_def)
  then have "load demo_env 1 ?s [3, 1, 2] = load demo_env 1 ?t [3, 1, 2]" by (simp add: load_def)
  moreover obtain m where "load demo_env 1 ?t [3, 1, 2] = Inr (demo_store fail demo_first m)"
    using demo_load [OF demo_first_ok demo_first_snapshot, of fail] by (auto simp: db)
  ultimately show ?thesis by (intro exI [of _ m]) (simp add: Open_def demo_config_def)
qed


lemma demo_store_simps [simp]:
  "so_db (demo_store fail r m) = so_db r" "so_hard (demo_store fail r m) = so_hard r"
  "so_conf (demo_store fail r m) = so_conf r" "so_snapshot (demo_store fail r m) = so_snapshot r"
  "so_entryTerms (demo_store fail r m) = so_entryTerms r" "so_failpoint (demo_store fail r m) = fail"
  by (simp_all add: demo_store_def attachEngine_def same_raft_def new_store_def demo_config_def Let_def)

lemma attach_simps [simp]:
  "so_db (attachEngine E s) = so_db s" "so_hard (attachEngine E s) = so_hard s"
  "so_conf (attachEngine E s) = so_conf s" "so_snapshot (attachEngine E s) = so_snapshot s"
  "so_entryTerms (attachEngine E s) = so_entryTerms s" "so_failpoint (attachEngine E s) = so_failpoint s"
  by (simp_all add: attachEngine_def)

definition demo_plan :: raft_plan where
  "demo_plan = \<lparr>rp_hard = snd demo_hards, rp_conf = demo_conf, rp_snapshot = demo_snapshot, rp_changed = False,
     rp_kept = [demo_entry], rp_ops = [OpSet (numberKey log_prefix 2) ''e'', OpSet hardStateKey ''2'']\<rparr>"

lemma demo_first_simps [simp]:
  "so_hard demo_first = fst demo_hards" "so_conf demo_first = demo_conf" "so_snapshot demo_first = demo_snapshot"
  "so_entryTerms demo_first = []" "so_db demo_first = demo_disk"
  by (simp_all add: demo_first_def new_store_def Let_def)

lemma demo_plan_ready:
  assumes "so_hard s = fst demo_hards" "so_conf s = demo_conf" "so_snapshot s = demo_snapshot" "so_entryTerms s = []"
  shows "plan_ready demo_env s demo_ready = Inr demo_plan"
  by (simp add: plan_ready_def assms check_snapshot_def next_hard_def log_cut_def prefixBounds_def encode_entries_def
      demo_ready_def demo_empty_def demo_entry_def demo_plan_def demo_defs Let_def)

lemma demo_save:
  fixes m
  defines "s \<equiv> attachEngine demo_env (demo_store demo_fail demo_first m)"
  shows "plan_ready demo_env s demo_ready = Inr demo_plan"
    and "SaveReady demo_env s demo_ready =
      (s\<lparr>so_db := fold run_alist (rp_ops demo_plan) demo_disk\<rparr>, Inl StoreFault)"
proof -
  have s: "so_hard s = fst demo_hards" "so_conf s = demo_conf" "so_snapshot s = demo_snapshot" "so_entryTerms s = []"
    "so_db s = demo_disk" "so_failpoint s = demo_fail"
    by (simp_all add: s_def)
  show plan: "plan_ready demo_env s demo_ready = Inr demo_plan"
    by (rule demo_plan_ready) (simp_all add: s)
  have "\<not> ready_empty demo_env demo_ready"
    by (simp add: ready_empty_def demo_ready_def demo_env_def)
  then show "SaveReady demo_env s demo_ready = (s\<lparr>so_db := fold run_alist (rp_ops demo_plan) demo_disk\<rparr>, Inl StoreFault)"
    unfolding SaveReady_def plan
    by (simp add: s hit_def demo_fail_def raftWriteOptions_def demo_ready_def demo_env_def alist_db_def)
qed

lemma store_eta:
  "w\<lparr>so_hard := h, so_conf := so_conf w, so_snapshot := so_snapshot w, so_entryTerms := so_entryTerms w\<rparr> = w\<lparr>so_hard := h\<rparr>"
  by (cases w) simp

definition demo_saved :: "(bytes \<times> bytes) list" where
  "demo_saved = fold run_alist (rp_ops demo_plan) demo_disk"

definition demo_second :: "durableMembership \<Rightarrow> (bytes \<times> bytes) list Store" where
  "demo_second m = install_plan demo_plan ((attachEngine demo_env (demo_store demo_fail demo_first m))\<lparr>so_db := demo_saved\<rparr>)"

lemma demo_second_simps [simp]:
  "so_db (demo_second m) = demo_saved" "so_hard (demo_second m) = snd demo_hards" "so_snapshot (demo_second m) = demo_snapshot"
  "so_entryTerms (demo_second m) = [2]"
  by (simp_all add: demo_second_def install_plan_def demo_plan_def put_term_def demo_snapshot_def demo_entry_def Let_def)

lemma demo_saved_application: "demo_application demo_saved"
  using demo_first_ok(2)
  by (auto simp: demo_application_def demo_saved_def map_of_fold_alist demo_plan_def numberKey_def log_prefix_def meta_keys)

lemma demo_reopen:
  "\<exists>m'. load demo_env 1 (new_store (demo_config (\<lambda>_. None)) demo_saved) [] = Inr (demo_store (\<lambda>_. None) (demo_second m) m')"
proof -
  let ?s = "attachEngine demo_env (demo_store demo_fail demo_first m)"
  have "raft_durable demo_env map_of ?s"
    using raft_durable_cong [of ?s demo_first map_of demo_env] demo_first_ok(1) by (simp add: raft_part_def)
  then have "raft_durable demo_env map_of (demo_second m)" unfolding demo_second_def
    by (rule plan_durable [OF _ demo_ready_ok demo_save(1)]) (simp add: map_of_fold_alist demo_saved_def)
  from demo_load [OF this, of "\<lambda>_. None" "[]"] demo_saved_application show ?thesis by (simp add: demo_snapshot_def)
qed

theorem raft_state_survives_crashes_witness:
  "\<exists>s w. Open demo_env 1 (\<lambda>_. Inr []) (demo_config demo_fail) = Inr s \<and> node_run demo_env 1 s {so_db s} w {so_db w} \<and>
     LastIndex w = 2 \<and> (\<exists>hard. loadRaft demo_env w = Inr (w\<lparr>so_hard := hard\<rparr>) \<and> hs_Term hard = 2 \<and> hs_Vote hard = 1)"
proof -
  from demo_open obtain m where opened: "Open demo_env 1 (\<lambda>_. Inr []) (demo_config demo_fail) =
      Inr (attachEngine demo_env (demo_store demo_fail demo_first m))" (is "_ = Inr ?s") by blast
  obtain m' where w: "load demo_env 1 (new_store (demo_config (\<lambda>_. None)) demo_saved) [] =
      Inr (demo_store (\<lambda>_. None) (demo_second m) m')" (is "_ = Inr ?w") using demo_reopen by blast
  have "store_call demo_env 1 ?s (?s\<lparr>so_db := demo_saved\<rparr>) (Inl StoreFault = (Inr () :: store_err + unit))
      (ready_syncs demo_env ?s demo_ready)"
    by (rule save_ready [OF demo_save(2) [folded demo_saved_def] demo_ready_ok])
  then have run: "node_run demo_env 1 ?s {so_db ?s} ?w {so_db ?w}"
    by (rule run_crash [OF run_start _ _ w]) (simp add: new_store_def Let_def)
  have hard: "hs_Term (so_hard ?w) = 2" "hs_Vote (so_hard ?w) = 1"
    by (simp_all add: demo_hards_def)
  have "\<exists>hard. loadRaft demo_env ?w = Inr (?w\<lparr>so_hard := hard, so_conf := so_conf ?w, so_snapshot := so_snapshot ?w,
      so_entryTerms := so_entryTerms ?w\<rparr>) \<and> hs_Term hard = hs_Term (so_hard ?w) \<and> hs_Vote hard = hs_Vote (so_hard ?w)"
    using conjunct1 [OF raft_state_survives_crashes [where db = "[]", OF demo_env_ok refl map_of.simps(1) opened run]]
    by blast
  then have "\<exists>hard. loadRaft demo_env ?w = Inr (?w\<lparr>so_hard := hard\<rparr>) \<and> hs_Term hard = 2 \<and> hs_Vote hard = 1"
    unfolding hard store_eta .
  moreover have "LastIndex ?w = 2" by (simp add: LastIndex_def demo_snapshot_def)
  ultimately show ?thesis using opened run by (intro exI [of _ ?s] exI [of _ ?w]) simp
qed

end
