(* ===== verification/Chronos_Served_Properties.thy ===== *)
theory Chronos_Served_Properties
  imports Chronos_History Chronos_Raft_Properties
begin

text \<open>
  Requests are accepted once and their answers are kept. The witness runs on the database of association
  lists.
\<close>

section \<open>Accepted once, kept for ever\<close>

text \<open>
  C3. A store that was opened on an empty database is run: \<^verbatim>\<open>applyEntries\<close>, \<^verbatim>\<open>Prepare\<close>, \<^verbatim>\<open>SaveReady\<close>,
  \<^verbatim>\<open>SaveConfState\<close>, \<^verbatim>\<open>CreateSnapshot\<close> and, for a \<^verbatim>\<open>Ready\<close> with a snapshot of another node, \<^verbatim>\<open>SaveReady\<close>
  followed by \<^verbatim>\<open>InstallSnapshot\<close> are called in any order, and after any call, also one that failed before or
  after its commit, the node may stop and open one of the databases that a crash may leave. Among all outcomes
  the node has returned over the whole history, no two accept the same request; the receipt of every accepted
  request is read back, after any number of crashes and snapshots, as exactly the outcome that was returned; and
  whatever is applied next, the request is answered as a conflict or as a duplicate with the index and the term
  of that outcome. Assumed of the entries (\<open>entries_ok\<close>): identifiers shorter than 2 to the 32, segments of their
  events can be encoded. Assumed of a snapshot that is ahead of the store (\<open>carried\<close>): the same of its requests,
  and that its image holds the requests and outcomes answered so far, as raft promises of a snapshot at a later
  index. Commands and requests of snapshots are at most 2 to the 59 in all.
\<close>

theorem accepted_once_and_kept:
  fixes E :: "'db storage_env"
  assumes "pebble_ok (io_pebble E) view" "raft_codecs_ok E" "snappy_ok (io_snappy E)" "\<forall>x. json_ok (io_appliedState E) x"
    and "opened (cf_Directory config) = Inr db" "view db = Map.empty"
    and "Open E procs opened config = Inr s" "request_run E procs s answered n t D" "n \<le> 2 ^ 59"
  shows "distinct (map oc_RequestID answered) \<and>
    (\<forall>outcome \<in> set answered. \<exists>receipt.
       loadReceipt E t (oc_RequestID outcome) = Inr (Some receipt) \<and> outcomeFromReceipt receipt = outcome \<and>
       (\<forall>entries workers owned u outcomes again.
          entries_ok E entries \<longrightarrow> applyEntries E procs t entries workers owned = (u, Inr outcomes) \<longrightarrow>
          again \<in> set outcomes \<longrightarrow> oc_RequestID again = oc_RequestID outcome \<longrightarrow>
          oc_Code again = ''request_conflict'' \<or>
          rs_Duplicate (oc_Result again) \<and> oc_AppliedIndex again = oc_AppliedIndex outcome \<and>
            oc_CommittedTerm again = oc_CommittedTerm outcome))"
proof -
  have inv: "served_inv E view answered n t D"
    by (rule request_run_inv [OF assms(1-4,8) _ Open_served [OF assms(1-7)] assms(9)])
      (use Open_new [OF assms(1,2,5-7)] in simp)
  then have "distinct (map oc_RequestID answered)" by (simp add: served_inv_def answers_kept_def)
  moreover have "\<exists>receipt. loadReceipt E t (oc_RequestID outcome) = Inr (Some receipt) \<and> outcomeFromReceipt receipt = outcome \<and>
       (\<forall>entries workers owned u outcomes again.
          entries_ok E entries \<longrightarrow> applyEntries E procs t entries workers owned = (u, Inr outcomes) \<longrightarrow>
          again \<in> set outcomes \<longrightarrow> oc_RequestID again = oc_RequestID outcome \<longrightarrow>
          oc_Code again = ''request_conflict'' \<or>
          rs_Duplicate (oc_Result again) \<and> oc_AppliedIndex again = oc_AppliedIndex outcome \<and>
            oc_CommittedTerm again = oc_CommittedTerm outcome)" if "outcome \<in> set answered" for outcome
  proof -
    from inv that obtain receipt where rec: "on_record E t (oc_RequestID outcome) receipt" "outcomeFromReceipt receipt = outcome"
      by (auto simp: served_inv_def answers_kept_def)
    have out: "oc_AppliedIndex outcome = rt_AppliedIndex receipt" "oc_CommittedTerm outcome = rt_CommittedTerm receipt"
      using rec(2) by (auto simp: outcomeFromReceipt_def)
    have "oc_Code again = ''request_conflict'' \<or> rs_Duplicate (oc_Result again) \<and>
        oc_AppliedIndex again = oc_AppliedIndex outcome \<and> oc_CommittedTerm again = oc_CommittedTerm outcome"
      if ok: "entries_ok E entries" and app: "applyEntries E procs t entries workers owned = (u, Inr outcomes)"
        and again: "again \<in> set outcomes" "oc_RequestID again = oc_RequestID outcome"
      for entries workers owned u outcomes again
    proof -
      from applyEntries_result [OF app] again(1) obtain plan where
        comm: "committed_plan E procs t entries workers owned plan (so_db u)" and "outcomes = pa_outcomes plan" by auto
      with committed_records(3) [OF assms(1) ok comm rec(1)] again show ?thesis by (simp add: out)
    qed
    with rec show ?thesis unfolding on_record_def recorded_def by blast
  qed
  ultimately show ?thesis by blast
qed

section \<open>The requests after a snapshot\<close>

text \<open>
  C29. Installing a snapshot that is ahead of the store replaces the requests of the store by those of its
  image, exactly: the loader of the engine returns every request of the image as the image has it, its receipt
  has the index and the term of an outcome of the image for it, and no other request has a receipt. (For images
  of at most 2 to the 59 requests, identifiers shorter than 2 to the 32, segments that can be encoded.)
\<close>

theorem snapshot_replaces_requests:
  assumes "pebble_ok (io_pebble E) view" "snappy_ok (io_snappy E)"
    and "InstallSnapshot E procs s snapshot = (t, Inr ())" "so_applied s < sn_Index snapshot"
    and "decodeSnapshotImage (io_digest E) (io_image E) (sn_Data snapshot) = Inr img"
    and "image_ok E (si_Engine img)" "length (es_Requests (si_Engine img)) \<le> 2 ^ 59"
  shows "so_applied t = sn_Index snapshot \<and>
    (\<forall>request \<in> set (es_Requests (si_Engine img)).
       loadEngineRequest E t (rr_RequestID request) = Inr (Some request) \<and>
       (\<exists>outcome \<in> set (si_Outcomes img). \<exists>receipt.
          oc_Code outcome = '''' \<and> oc_RequestID outcome @ [CHR 0x00] @ oc_RequestHash outcome =
            rr_RequestID request @ [CHR 0x00] @ rr_RequestHash request \<and>
          loadReceipt E t (rr_RequestID request) = Inr (Some receipt) \<and>
          rt_AppliedIndex receipt = oc_AppliedIndex outcome \<and> rt_CommittedTerm receipt = oc_CommittedTerm outcome)) \<and>
    (\<forall>requestID. short32 requestID \<longrightarrow> requestID \<notin> rr_RequestID ` set (es_Requests (si_Engine img)) \<longrightarrow>
       loadReceipt E t requestID = Inr None)"
proof -
  note P = assms(1) and S = assms(2) and ok = assms(6)
  from installSnapshot_result [OF assms(3) [unfolded InstallSnapshot_def] assms(4)] assms(5) have
    comm: "image_committed E procs snapshot (so_db s) (so_db t) img" and t: "so_applied t = si_AppliedIndex img"
      "so_membership t = Some (membershipFromSnapshot (io_receiptHash E) (io_workflowHash E) (si_Engine img))"
    by (auto simp: image_committed_def)
  from comm obtain engine ops where restored: "Restore (io_digest E) (si_Engine img) = Inr engine"
    and plan: "plan_install E procs img = Inr ops" and commit: "pb_Commit (io_pebble E) (so_db s) True ops = Inr (so_db t)"
    and index: "si_AppliedIndex img = sn_Index snapshot" by (auto simp: image_committed_def)
  have db: "view (so_db t) = run_ops ops (view (so_db s))" by (rule pebble_commit [OF P commit])
  have "loadEngineRequest E t (rr_RequestID request) = Inr (Some request) \<and>
       (\<exists>outcome \<in> set (si_Outcomes img). \<exists>receipt.
          oc_Code outcome = '''' \<and> oc_RequestID outcome @ [CHR 0x00] @ oc_RequestHash outcome =
            rr_RequestID request @ [CHR 0x00] @ rr_RequestHash request \<and>
          loadReceipt E t (rr_RequestID request) = Inr (Some receipt) \<and>
          rt_AppliedIndex receipt = oc_AppliedIndex outcome \<and> rt_CommittedTerm receipt = oc_CommittedTerm outcome)"
    if request: "request \<in> set (es_Requests (si_Engine img))" for request
  proof -
    from installed_receipt(1) [OF P S ok plan db restored t(1) request] obtain outcome where
      o: "outcome \<in> set (si_Outcomes img)" "oc_Code outcome = ''''"
        "outcome_key outcome = origin_key (rr_RequestID request) (rr_RequestHash request)"
      and rec: "loadReceipt E t (rr_RequestID request) = Inr (Some (image_receipt (outcome_origin outcome) request))"
      by (auto simp: recorded_def)
    have "filter_contains (io_receiptHash E)
        (dm_receipts (membershipFromSnapshot (io_receiptHash E) (io_workflowHash E) (si_Engine img))) (rr_RequestID request)"
      using snapshot_filter [OF assms(7) order_refl] request by blast
    with rec t(2) have "loadEngineRequest E t (rr_RequestID request) = Inr (Some request)"
      by (simp add: loadEngineRequest_def loadRequest_def core_receipt_def image_receipt_def)
    with o rec show ?thesis
      by (auto simp: outcome_key_def origin_key_def image_receipt_def outcome_origin_def)
  qed
  moreover have "loadReceipt E t requestID = Inr None"
    if "short32 requestID" "requestID \<notin> rr_RequestID ` set (es_Requests (si_Engine img))" for requestID
    using installed_absent [OF plan ok restored that] by (simp add: loadReceipt_def get_def pebble_get [OF P] db)
  ultimately show ?thesis using t(1) index by simp
qed

section \<open>A request that is accepted after a crash\<close>

text \<open>
  Saving the entry fails after its commit; the node opens the database again, and applies the entry, which
  submits a workflow.
\<close>

definition demo_batch :: CommandBatch where
  "demo_batch = \<lparr>cb_Version = CommandBatchVersion, cb_RequestID = ''r'', cb_RequestHash = ''h'', cb_WorkflowID = ''w'',
     cb_Events = [demo_event]\<rparr>"

definition demo_command :: ApplicationEntry where
  "demo_command = \<lparr>ae_Version = ApplicationEntryVersion, ae_Index = 2, ae_Term = 2, ae_Batches = [demo_batch]\<rparr>"

definition demo_state :: WorkflowState where
  "demo_state = projr (applySubmission demo_event)"

definition demo_result :: Result where
  "demo_result = \<lparr>rs_WorkflowID = ''w'', rs_Events = [demo_event], rs_Duplicate = False\<rparr>"

definition demo_outcome :: Outcome where "demo_outcome = base_outcome demo_command demo_batch demo_result"

lemma demo_submission: "applySubmission demo_event = Inr demo_state" "activeWorkflow (wf_Status demo_state)"
proof -
  have "case applySubmission demo_event of Inl e \<Rightarrow> False | Inr s \<Rightarrow> activeWorkflow (wf_Status s)" by code_simp
  then show "applySubmission demo_event = Inr demo_state" "activeWorkflow (wf_Status demo_state)"
    by (auto simp: demo_state_def split: sum.splits)
qed

lemma demo_event_simps [simp]:
  "ev_ID demo_event = EventID demo_digest ''w'' 1 EventWorkflowSubmitted" "ev_Kind demo_event = EventWorkflowSubmitted"
  "ev_Sequence demo_event = 1" "ev_RequestID demo_event = ''r''" "ev_RequestHash demo_event = ''h''"
  "ev_WorkflowID demo_event = ''w''" "ev_At demo_event = 0" "cloneEvent demo_event = demo_event"
  by (simp_all add: demo_event_def zero_Event_def cloneEvent_def demo_definition_def) (code_simp?)

lemma demo_batch_simps [simp]:
  "cb_Version demo_batch = CommandBatchVersion" "cb_RequestID demo_batch = ''r''" "cb_RequestHash demo_batch = ''h''"
  "cb_WorkflowID demo_batch = ''w''" "cb_Events demo_batch = [demo_event]"
  by (simp_all add: demo_batch_def)

lemma demo_command_simps [simp]:
  "ae_Version demo_command = ApplicationEntryVersion" "ae_Index demo_command = 2" "ae_Term demo_command = 2"
  "ae_Batches demo_command = [demo_batch]" "entry_commands [demo_command] = [(demo_command, demo_batch)]"
  by (simp_all add: demo_command_def entry_commands_def)

lemma demo_not_blank [simp]: "\<not> blank ''w''" "\<not> blank ''r''"
  by code_simp+

lemma demo_applied_events:
  "applyOwnedEvents demo_digest None [demo_event] = Inr (Some demo_state)"
  by (simp add: applyOwnedEvents_def apply_next_def applyEvent_def demo_submission)

definition demo_ready_store :: "durableMembership \<Rightarrow> durableMembership \<Rightarrow> (bytes \<times> bytes) list Store" where
  "demo_ready_store m m' = demo_store (\<lambda>_. None) (demo_second m) m'"

lemma demo_none: "2 < byte_val b \<Longrightarrow> get demo_env (demo_ready_store m m') (b # rest) = Inr None"
  using demo_saved_application by (simp add: demo_ready_store_def get_def demo_env_def alist_db_def demo_application_def)

lemma demo_loaders:
  "resolveRequest (attached demo_env (demo_ready_store m m') (so_engine (demo_ready_store m m'))) ''r'' = Inr None"
  "resolveState (attached demo_env (demo_ready_store m m') (so_engine (demo_ready_store m m'))) ''w'' = Inr (None, False)"
proof -
  let ?s = "demo_ready_store m m'"
  have e: "en_requests (so_engine ?s) = []" "en_states (so_engine ?s) = []"
    by (simp_all add: demo_ready_store_def demo_store_def attachEngine_def attached_def SetLoaders_def DiscardJournal_def NewEngine_def)
  have "loadReceipt demo_env ?s ''r'' = Inr None" "loadWorkflow demo_env ?s ''w'' = Inr None"
    by (simp_all add: loadReceipt_def loadWorkflow_def segmentedKey_def demo_none)
  then show "resolveRequest (attached demo_env ?s (so_engine ?s)) ''r'' = Inr None"
    "resolveState (attached demo_env ?s (so_engine ?s)) ''w'' = Inr (None, False)"
    by (auto simp: resolveRequest_def resolveState_def attached_def SetLoaders_def e as_request_loader_def as_state_loader_def
        loadEngineRequest_def loadEngineWorkflow_def loadRequest_def split: option.splits)
qed

lemma demo_env_simps [simp]: "io_digest demo_env = demo_digest" "io_pebble demo_env = alist_db"
  "io_appliedState demo_env = demo_applied"
  by (simp_all add: demo_env_def)

lemma demo_engine:
  "\<exists>e. apply_to_engine demo_env (demo_ready_store m m') True [demo_batch] =
     Inr (e, [\<lparr>ba_Result = demo_result, ba_Conflict = False\<rparr>], [(''w'', demo_state)])"
proof -
  let ?e = "attached demo_env (demo_ready_store m m') (so_engine (demo_ready_store m m'))"
  have "apply_batch demo_digest ?e True \<lparr>bl_states = [], bl_requests = [], bl_accepted = [], bl_applications = []\<rparr> demo_batch =
      Inr \<lparr>bl_states = [(''w'', demo_state)], bl_requests = [(''r'', \<lparr>rq_hash = ''h'', rq_result = demo_result\<rparr>)],
        bl_accepted = [(''r'', \<lparr>rq_hash = ''h'', rq_result = demo_result\<rparr>, 0)],
        bl_applications = [\<lparr>ba_Result = demo_result, ba_Conflict = False\<rparr>]\<rparr>"
    by (simp add: apply_batch_def demo_loaders event_of_request_def demo_applied_events demo_result_def Let_def)
  moreover have "cloneResult demo_result = demo_result" by (simp add: cloneResult_def cloneEvents_def demo_result_def)
  ultimately show ?thesis
    by (simp add: apply_to_engine_def ApplyCommittedBatches_def applyBatches_def core_result_def owned_copy_def Let_def split: option.splits)
qed

lemma demo_plan_ok:
  "\<exists>ops. plan_application demo_env 1 8 [demo_command] [demo_outcome]
     [\<lparr>aa_entry = demo_command, aa_batch = demo_batch, aa_result = demo_result\<rparr>] [(''w'', demo_state)] resident = Inr ops"
proof -
  let ?item = "\<lparr>aa_entry = demo_command, aa_batch = demo_batch, aa_result = demo_result\<rparr>"
  have json: "encodeSet demo_env J k x = Inr (k, data)" if "js_Marshal J x = Some data" "length data < 20" for J k x data
    using that by (simp add: encodeSet_def encodeJSON_def minJSONCompressionBytes_def)
  have "compactReceipt (accepted_receipt ?item) = Inr \<lparr>rc_Version = ReceiptVersion, rc_RequestID = ''r'', rc_RequestHash = ''h'',
      rc_AppliedIndex = 2, rc_CommittedTerm = 2, rc_WorkflowID = ''w'', rc_FirstSequence = 1, rc_LastSequence = 1\<rparr>"
    by (simp add: compactReceipt_def accepted_receipt_def demo_result_def validReceiptRecord_def Let_def maxReceiptEvents_def)
  then have "\<exists>k v. encode_receipt [(''w'', demo_state)] ?item = Inr (k, v)"
    by (simp add: encode_receipt_def encodeReceiptRecord_def validReceiptRecord_def Let_def maxReceiptEvents_def has_def)
  then obtain k v where r: "encode_receipt [(''w'', demo_state)] ?item = Inr (k, v)" by blast
  have "validEventSegment demo_digest (demo_segment 2)"
    by (simp add: validEventSegment_def demo_segment_def segment_event_def maxSegmentItems_def event_kind_string_def)
  then have valid: "validEventSegment demo_digest \<lparr>sg_Version = eventSegmentVersion, sg_WorkflowID = ''w'', sg_AppliedIndex = 2,
     sg_FirstSequence = 1, sg_LastSequence = 1, sg_Events = [demo_event]\<rparr>" by (simp add: demo_segment_def)
  have none: "taskResult demo_event 2 task = None" for task by (simp add: taskResult_def Let_def)
  have segs: "buildAcceptedSegments demo_digest [?item] [(''w'', demo_state)] = Inr ([demo_segment 2], [])"
    by (simp add: buildAcceptedSegments_def gather_item_def demo_result_def event_result_def buildEventSegments_def none valid
        group_source_def make_segment_def demo_segment_def sort_segments_def buildTaskResultSegments_def or_zero_def Let_def)
  have js: "js_Marshal (io_state demo_env) x = Some ''w''" "js_Marshal (io_application demo_env) y = Some ''p''"
    "js_Marshal (io_eventSegment demo_env) (demo_segment 2) = Some (CHR ''g'' # PutUint64 2)"
    "js_Marshal demo_applied \<lparr>as_Index = 2, as_Term = 2\<rparr> = Some (CHR ''a'' # PutUint64 2 @ PutUint64 2)" for x y
    by (simp_all add: demo_env_def demo_segment_def demo_applied_def)
  have a: "encodeApplicationEntries demo_env 1 [demo_command] 8 = [Inr (numberKey (CHR 0x03) 2, ''p'')]"
    by (simp add: encodeApplicationEntries_def parallelEncode_map Let_def json [OF js(2)])
  have b: "encodeAcceptedReceipts 1 [?item] [(''w'', demo_state)] 8 = [Inr (k, v)]"
    using r by (simp add: encodeAcceptedReceipts_def parallelEncode_map)
  have c: "encodeEventSegments demo_env 1 [demo_segment 2] 8 =
      [Inr (materializedSegmentKey (CHR 0x08) ''w'' 2, CHR ''g'' # PutUint64 2)]"
    by (simp add: encodeEventSegments_def parallelEncode_map Let_def json [OF js(3)]) (simp add: demo_segment_def)
  have d: "encodeWorkflowStates demo_env 1 [''w''] [(''w'', demo_state)] 8 = [Inr (segmentedKey (CHR 0x06) [''w''], ''w'')]"
    by (simp add: encodeWorkflowStates_def parallelEncode_map encode_state_def json [OF js(1)])
  have e: "encodeAppliedState demo_env demo_command = Inr (appliedKey, CHR ''a'' # PutUint64 2 @ PutUint64 2)"
    by (simp add: encodeAppliedState_def json [OF js(4)])
  have f: "encodeTaskResultSegments demo_env 1 [] 8 = []" "encodeApplicationOutcomes demo_env 1 [demo_outcome] 8 = []"
    by (simp_all add: encodeTaskResultSegments_def encodeApplicationOutcomes_def parallelEncode_map demo_outcome_def base_outcome_def)
  show ?thesis
    using demo_submission(2)
    by (simp add: plan_application_def a b c d e f segs stageEncodedSets_def stage_state_def note_request_def Let_def del: One_nat_def)
qed

lemma demo_apply:
  "\<exists>u. applyEntries demo_env 1 (demo_ready_store m m') [demo_command] 8 True = (u, Inr [demo_outcome])"
proof -
  let ?s = "demo_ready_store m m'"
  have s: "so_applied ?s = 1" "so_hard ?s = snd demo_hards" "so_snapshot ?s = demo_snapshot" "so_entryTerms ?s = [2]"
    "so_failpoint ?s = (\<lambda>_. None)"
    by (simp_all add: demo_ready_store_def) (simp add: demo_store_def attachEngine_def)
  have "\<not> (2 :: uint64) \<le> 1" "\<not> (1 :: uint64) \<le> 0" by (simp_all add: word_le_nat_alt)
  then have "\<exists>res. foldE (check_entry ?s) \<lparr>ec_expected = 2, ec_commands = [], ec_resident = []\<rparr> [demo_command] =
      Inr \<lparr>ec_expected = 3, ec_commands = [demo_batch], ec_resident = res\<rparr>"
    by (simp add: check_entry_def s demo_hards_def demo_snapshot_def Let_def)
  then obtain res where check: "foldE (check_entry ?s) \<lparr>ec_expected = 2, ec_commands = [], ec_resident = []\<rparr> [demo_command] =
      Inr \<lparr>ec_expected = 3, ec_commands = [demo_batch], ec_resident = res\<rparr>" by blast
  obtain e where engine: "apply_to_engine demo_env ?s True [demo_batch] =
     Inr (e, [\<lparr>ba_Result = demo_result, ba_Conflict = False\<rparr>], [(''w'', demo_state)])" using demo_engine by blast
  obtain ops where "plan_application demo_env 1 8 [demo_command] [demo_outcome]
     [\<lparr>aa_entry = demo_command, aa_batch = demo_batch, aa_result = demo_result\<rparr>] [(''w'', demo_state)] res = Inr ops"
    using demo_plan_ok by blast
  then have plan: "plan_entries demo_env 1 ?s [demo_command] 8 True res e [\<lparr>ba_Result = demo_result, ba_Conflict = False\<rparr>]
      [(''w'', demo_state)] = Inr \<lparr>pa_ops = ops, pa_outcomes = [demo_outcome],
        pa_accepted = [\<lparr>aa_entry = demo_command, aa_batch = demo_batch, aa_result = demo_result\<rparr>], pa_states = [(''w'', demo_state)]\<rparr>"
    by (simp add: plan_entries_def settle_def demo_outcome_def [symmetric] Let_def del: One_nat_def)
      (simp add: demo_result_def)
  show ?thesis
    by (simp add: applyEntries_def check engine plan commit_entries_def hit_def s alist_db_def Let_def del: One_nat_def foldE.simps)
qed

lemma demo_entries_ok: "entries_ok demo_env [demo_command]"
proof -
  have "json_ok (io_eventSegment demo_env) segment"
    if "validEventSegment demo_digest segment" "set (sg_Events segment) \<subseteq> entry_events [demo_command]" for segment
  proof -
    have events: "set (sg_Events segment) \<subseteq> {demo_event}"
      using that(2) by (simp add: entry_events_def cloneEvents_def)
    from that(1) have ne: "sg_Events segment \<noteq> []" and v: "sg_Version segment = eventSegmentVersion"
      and all: "\<forall>i < length (sg_Events segment). segment_event demo_digest segment i (sg_Events segment ! i)"
      and final: "ev_Sequence (last (sg_Events segment)) = sg_LastSequence segment"
      by (auto simp: validEventSegment_def list_all_length nth_enumerate_eq)
    have one: "sg_Events segment ! i = demo_event" if "i < length (sg_Events segment)" for i
      using events that nth_mem by fastforce
    have "length (sg_Events segment) = 1"
    proof (rule ccontr)
      assume "length (sg_Events segment) \<noteq> 1"
      then have "1 < length (sg_Events segment)" using ne by (cases "sg_Events segment") auto
      with all one have "segment_event demo_digest segment 0 demo_event" "segment_event demo_digest segment 1 demo_event"
        by (metis less_trans zero_less_one)+
      then show False by (simp add: segment_event_def)
    qed
    then have e: "sg_Events segment = [demo_event]" using one [of 0] by (cases "sg_Events segment") auto
    with all final v have "segment = demo_segment (sg_AppliedIndex segment)"
      by (simp add: demo_segment_def segment_event_def)
    then show ?thesis
      by (simp add: json_ok_def demo_env_def jsonSnappyMagic_def)
  qed
  then show ?thesis by (simp add: entries_ok_def segments_encode_def short_ids_def short32_def)
qed

lemma demo_codecs_ok: "snappy_ok (io_snappy demo_env)" "\<forall>x. json_ok (io_appliedState demo_env) x"
  by (simp_all add: snappy_ok_def json_ok_def demo_env_def demo_applied_def jsonSnappyMagic_def)

theorem accepted_once_and_kept_witness:
  "\<exists>s t D receipt. Open demo_env 1 (\<lambda>_. Inr []) (demo_config demo_fail) = Inr s \<and>
     request_run demo_env 1 s [demo_outcome] 1 t D \<and>
     loadReceipt demo_env t ''r'' = Inr (Some receipt) \<and> outcomeFromReceipt receipt = demo_outcome"
proof -
  from demo_open obtain m where opened: "Open demo_env 1 (\<lambda>_. Inr []) (demo_config demo_fail) =
      Inr (attachEngine demo_env (demo_store demo_fail demo_first m))" (is "_ = Inr ?s") by blast
  obtain m' where w: "load demo_env 1 (new_store (demo_config (\<lambda>_. None)) demo_saved) [] =
      Inr (demo_store (\<lambda>_. None) (demo_second m) m')" using demo_reopen by blast
  let ?w = "demo_ready_store m m'"
  have "upkeep demo_env ?s (?s\<lparr>so_db := demo_saved\<rparr>) (Inl StoreFault = (Inr () :: store_err + unit))
      (ready_syncs demo_env ?s demo_ready)"
    by (rule up_ready [OF demo_save(2) [folded demo_saved_def] demo_ready_ok])
      (simp add: demo_ready_def demo_empty_def demo_env_def)
  then have run: "request_run demo_env 1 ?s [] 0 ?w {so_db ?w}"
    by (rule crashed [OF request_run.opened _ _ w [folded demo_ready_store_def]]) (simp add: new_store_def Let_def)
  obtain u where u: "applyEntries demo_env 1 ?w [demo_command] 8 True = (u, Inr [demo_outcome])"
    using demo_apply by blast
  have "accepted_outcome demo_outcome"
    by (simp add: accepted_outcome_def demo_outcome_def base_outcome_def demo_result_def)
  with served [OF run demo_entries_ok u] have served: "request_run demo_env 1 ?s [demo_outcome] 1 u {so_db u}" by simp
  have r: "oc_RequestID demo_outcome = ''r''" by (simp add: demo_outcome_def base_outcome_def)
  from accepted_once_and_kept [where db = "[]", OF demo_env_ok demo_codecs_ok refl map_of.simps(1) opened served]
  obtain receipt where "loadReceipt demo_env u ''r'' = Inr (Some receipt)" "outcomeFromReceipt receipt = demo_outcome"
    by (auto simp: r)
  with opened served show ?thesis by blast
qed

section \<open>A snapshot with that request\<close>

definition demo_request :: RequestReceipt where
  "demo_request = \<lparr>rr_RequestID = ''r'', rr_RequestHash = ''h'', rr_Result = demo_result\<rparr>"

definition demo_image :: SnapshotImage where
  "demo_image = \<lparr>si_Version = SnapshotVersion, si_ClusterID = ''chronos'', si_AppliedIndex = 2, si_Term = 2,
     si_Engine = \<lparr>es_Version = EngineSnapshotVersion, es_Workflows = [demo_state], es_Requests = [demo_request]\<rparr>,
     si_Outcomes = [demo_outcome], si_TaskResults = []\<rparr>"

definition image_env :: "(bytes \<times> bytes) list storage_env" where
  "image_env = demo_env\<lparr>io_image := \<lparr>js_Marshal = (\<lambda>_. Some ''i''), js_Unmarshal = (\<lambda>_. Some demo_image)\<rparr>\<rparr>"

definition image_snapshot :: RaftSnapshot where
  "image_snapshot = \<lparr>sn_Data = snapshotMagic @ PutUint64 1 @ ''i'' @ demo_digest [], sn_Index = 2, sn_Term = 2, sn_ConfState = demo_conf\<rparr>"

definition image_store :: "(bytes \<times> bytes) list Store" where
  "image_store = (new_store (demo_config (\<lambda>_. None)) demo_disk)\<lparr>so_conf := demo_conf, so_snapshot := image_snapshot\<rparr>"

lemma demo_restored: "\<exists>e. Restore demo_digest (si_Engine demo_image) = Inr e"
proof -
  have "case Restore demo_digest (si_Engine demo_image) of Inl e \<Rightarrow> False | Inr e \<Rightarrow> True" by code_simp
  then show ?thesis by (cases "Restore demo_digest (si_Engine demo_image)") simp_all
qed

lemma image_decoded: "decodeSnapshotImage (io_digest image_env) (io_image image_env) (sn_Data image_snapshot) = Inr demo_image"
proof -
  have m: "length snapshotMagic = 8" by (simp add: snapshotMagic_def)
  have "Uint64 (take 8 (drop 8 (sn_Data image_snapshot))) = 1" by (simp add: image_snapshot_def m)
  then show ?thesis
    by (simp add: decodeSnapshotImage_def image_env_def Let_def)
      (simp add: image_snapshot_def m sha256_Size_def demo_digest_def demo_image_def)
qed


lemma image_env_simps [simp]:
  "io_digest image_env = demo_digest" "io_pebble image_env = alist_db" "io_eventSegment image_env = io_eventSegment demo_env"
  "io_snappy image_env = io_snappy demo_env" "io_appliedState image_env = demo_applied"
  by (simp_all add: image_env_def)

lemma image_ok_demo: "image_ok image_env (si_Engine demo_image)"
proof -
  have "entry_events [demo_command] = {demo_event}" by (simp add: entry_events_def cloneEvents_def)
  then have "json_ok (io_eventSegment demo_env) segment"
    if "validEventSegment demo_digest segment" "set (sg_Events segment) \<subseteq> {demo_event}" for segment
    using demo_entries_ok that by (simp add: entries_ok_def segments_encode_def)
  then show ?thesis by (simp add: image_ok_def demo_image_def demo_request_def demo_result_def short32_def)
qed

lemma image_request:
  "\<exists>ops'. foldE (install_request [(origin_key ''r'' ''h'', \<lparr>as_Index = 2, as_Term = 2\<rparr>)] active) ([], ops) (es_Requests (si_Engine demo_image)) =
      Inr ([\<lparr>sr_workflowID = ''w'', sr_appliedIndex = 2, sr_events = [demo_event]\<rparr>], ops')"
proof -
  have compact: "compactReceipt \<lparr>rt_Version = ReceiptVersion, rt_RequestID = ''r'', rt_RequestHash = ''h'', rt_AppliedIndex = 2,
      rt_CommittedTerm = 2, rt_Result = demo_result\<rparr> = Inr \<lparr>rc_Version = ReceiptVersion, rc_RequestID = ''r'', rc_RequestHash = ''h'',
      rc_AppliedIndex = 2, rc_CommittedTerm = 2, rc_WorkflowID = ''w'', rc_FirstSequence = 1, rc_LastSequence = 1\<rparr>"
    by (simp add: compactReceipt_def demo_result_def validReceiptRecord_def Let_def maxReceiptEvents_def)
  then show ?thesis
    by (simp add: install_request_def demo_image_def demo_request_def compact encodeReceiptRecord_def validReceiptRecord_def Let_def
        maxReceiptEvents_def) (simp add: demo_result_def)
qed

lemma image_plan: "\<exists>ops. plan_install image_env 1 demo_image = Inr ops"
proof -
  let ?origin = "\<lparr>as_Index = 2, as_Term = 2\<rparr>"
  have json: "encodeSet image_env J k x = Inr (k, data)" "encodeJSON (io_snappy demo_env) J x = Inr data"
    if "js_Marshal J x = Some data" "length data < 20" for J k x data
    using that by (simp_all add: encodeSet_def encodeJSON_def minJSONCompressionBytes_def)
  have js: "js_Marshal (io_state image_env) x = Some ''w''"
    "js_Marshal (io_eventSegment demo_env) (demo_segment 2) = Some (CHR ''g'' # PutUint64 2)" for x
    by (simp_all add: image_env_def demo_env_def demo_segment_def)
  have out: "foldE (install_outcome image_env demo_image) ([], ops) (si_Outcomes demo_image) =
      Inr ([(origin_key ''r'' ''h'', ?origin)], ops)" for ops
    by (simp add: install_outcome_def demo_image_def demo_outcome_def base_outcome_def has_def Let_def word_less_nat_alt)
  obtain r where req: "\<And>active ops. foldE (install_request [(origin_key ''r'' ''h'', ?origin)] active) ([], ops)
      (es_Requests (si_Engine demo_image)) = Inr ([\<lparr>sr_workflowID = ''w'', sr_appliedIndex = 2, sr_events = [demo_event]\<rparr>], r active ops)"
    using image_request by metis
  have "validEventSegment demo_digest (demo_segment 2)"
    by (simp add: validEventSegment_def demo_segment_def segment_event_def maxSegmentItems_def event_kind_string_def)
  then have segs: "buildEventSegments demo_digest [\<lparr>sr_workflowID = ''w'', sr_appliedIndex = 2, sr_events = [demo_event]\<rparr>] True =
      Inr [demo_segment 2]"
    by (simp add: buildEventSegments_def group_source_def make_segment_def demo_segment_def sort_segments_def or_zero_def Let_def)
  have seg: "encodeEventSegments image_env 1 [demo_segment 2] w =
      [Inr (materializedSegmentKey (CHR 0x08) ''w'' 2, CHR ''g'' # PutUint64 2)]" for w
    by (simp add: encodeEventSegments_def parallelEncode_map Let_def json(1) [OF js(2)])
      (simp add: demo_segment_def)
  have "\<exists>ops'. foldE (install_workflow image_env) ops (es_Workflows (si_Engine demo_image)) = Inr ops'" for ops
    by (simp add: install_workflow_def demo_image_def json(2) [OF js(1)] Let_def)
  then obtain w where wf: "\<And>ops. foldE (install_workflow image_env) ops (es_Workflows (si_Engine demo_image)) = Inr (w ops)" by metis
  have applied: "encodeJSON (io_snappy demo_env) demo_applied \<lparr>as_Index = si_AppliedIndex demo_image, as_Term = si_Term demo_image\<rparr> =
      Inr (CHR ''a'' # PutUint64 2 @ PutUint64 2)"
    by (rule json(2)) (simp_all add: demo_applied_def demo_image_def)
  have "si_TaskResults demo_image = []" by (simp add: demo_image_def)
  then show ?thesis
    by (simp add: plan_install_def out req segs seg wf applied stageEncodedSets_def buildTaskResultSegments_def
        encodeTaskResultSegments_def parallelEncode_map del: One_nat_def)
qed

theorem snapshot_replaces_requests_witness:
  "\<exists>t. InstallSnapshot image_env 1 image_store image_snapshot = (t, Inr ()) \<and>
     loadEngineRequest image_env t ''r'' = Inr (Some demo_request) \<and> loadReceipt image_env t ''q'' = Inr None"
proof -
  have conf: "equalConfState demo_conf demo_conf" by (simp add: equalConfState_def)
  have s: "so_applied image_store = 0" "so_snapshot image_store = image_snapshot" "so_conf image_store = demo_conf"
    "so_clusterID image_store = ''chronos''" "so_failpoint image_store = (\<lambda>_. None)"
    by (simp_all add: image_store_def new_store_def demo_config_def Let_def)
  obtain e where e: "Restore demo_digest (si_Engine demo_image) = Inr e" using demo_restored by blast
  obtain ops where ops: "plan_install image_env 1 demo_image = Inr ops" using image_plan by blast
  have img: "snapshotImage image_env image_store image_snapshot = Inr demo_image"
    using image_decoded e by (simp add: snapshotImage_def s) (simp add: conf image_snapshot_def demo_image_def)
  have new: "so_applied image_store < sn_Index image_snapshot" by (simp add: s image_snapshot_def)
  obtain t where t: "InstallSnapshot image_env 1 image_store image_snapshot = (t, Inr ())"
    using new img e ops
    by (simp add: InstallSnapshot_def installSnapshot_def s(2) core_result_def hit_def s(5) alist_db_def not_le [symmetric] del: One_nat_def)
  have r: "es_Requests (si_Engine demo_image) = [demo_request]" "rr_RequestID demo_request = ''r''"
    by (simp_all add: demo_image_def demo_request_def)
  have P: "pebble_ok (io_pebble image_env) map_of" "snappy_ok (io_snappy image_env)"
    using demo_env_ok(1) demo_codecs_ok(1) by simp_all
  have few: "length (es_Requests (si_Engine demo_image)) \<le> 2 ^ 59" by (simp add: r)
  note all = snapshot_replaces_requests [OF P t new image_decoded image_ok_demo few]
  have "short32 ''q''" by (simp add: short32_def)
  with all have "loadReceipt image_env t ''q'' = Inr None" by (simp add: r)
  with t all show ?thesis by (auto simp: r)
qed

end
