(* ===== verification/Chronos_Log_Codec.thy ===== *)
theory Chronos_Log_Codec
  imports Chronos_Records
begin

text \<open>
  The entries of the replicated log (\<^verbatim>\<open>internal/coordinator/types.go\<close>, \<^verbatim>\<open>log_codec.go\<close>): a batch of command
  batches, its validation, its canonical form and its encoding. \<^verbatim>\<open>encoding/gob\<close>, \<^verbatim>\<open>encoding/json\<close>, block and
  stream decoding of \<^verbatim>\<open>snappy\<close> are arguments, gathered in a record \<open>C\<close>.
\<close>

section \<open>Types\<close>

text \<open>The errors of the coordinator; a \<^verbatim>\<open>fmt.Errorf\<close> that wraps nothing is \<open>CoordFault\<close>.\<close>

datatype coord_err =
    NotLeaderError uint64 uint64
  | CoordUnavailable
  | CoordStopped
  | CoordFault
  | LogCodecError
  | StoreFailure store_err
  | CoreFailure err
  | RaftFailure string

record LogBatch =
  lg_Version :: uint32
  lg_Commands :: "CommandBatch list"

definition LogBatchVersion :: uint32 where "LogBatchVersion = 1"

text \<open>
  \<open>lc_Ungob\<close> reads the first value of a stream and tells whether the stream ends there (the second
  \<^verbatim>\<open>Decode\<close> returns \<^verbatim>\<open>io.EOF\<close>); \<open>lc_Stream n data\<close> is what can be read of a framed snappy stream, at most \<open>n\<close>
  bytes.
\<close>

record log_codec =
  lc_Gob :: "LogBatch \<Rightarrow> bytes option"
  lc_Ungob :: "bytes \<Rightarrow> (LogBatch \<times> bool) option"
  lc_Json :: "LogBatch json"
  lc_Snappy :: snappy
  lc_Stream :: "nat \<Rightarrow> bytes \<Rightarrow> bytes option"

definition maxLogBatchBytes :: nat where "maxLogBatchBytes = 67108864"
definition maxLogBatchCommands :: nat where "maxLogBatchCommands = 256"
definition maxLogBatchEvents :: nat where "maxLogBatchEvents = 1048576"

definition snappyStreamMagic :: bytes where
  "snappyStreamMagic = [CHR 0xFF, CHR 0x06, CHR 0x00, CHR 0x00] @ ''sNaPpY''"

definition logBatchCodecPrefix :: bytes where "logBatchCodecPrefix = CHR 0x89 # ''CHLB''"
definition logBatchGobSnappyMagic :: bytes where "logBatchGobSnappyMagic = CHR 0x89 # ''CHLB'' @ [CHR 0x01]"

section \<open>Validation\<close>

definition empty_slice :: "'a slice \<Rightarrow> bool" where
  "empty_slice s \<longleftrightarrow> s = Some []"

definition canonicalWorkflowDefinition :: "WorkflowDefinition option \<Rightarrow> bool" where
  "canonicalWorkflowDefinition definition =
     (case definition of
        None \<Rightarrow> True
      | Some d \<Rightarrow> length (wd_Tasks d) \<noteq> 0 \<and> list_all (\<lambda>task. \<not> empty_slice (td_Dependencies task)) (wd_Tasks d))"

definition canonicalEvent :: "Event \<Rightarrow> bool" where
  "canonicalEvent event \<longleftrightarrow>
     \<not> empty_slice (ev_ExpandedTasks event) \<and> canonicalWorkflowDefinition (ev_Definition event) \<and>
     list_all (\<lambda>expanded. \<not> empty_slice (td_Dependencies (xt_Definition expanded))) (elems (ev_ExpandedTasks event))"

definition validate_command :: "nat \<Rightarrow> CommandBatch \<Rightarrow> coord_err + nat" where
  "validate_command events command =
     (if cb_Version command \<noteq> CommandBatchVersion \<or> cb_RequestID command = '''' \<or> cb_RequestHash command = '''' \<or>
         cb_WorkflowID command = '''' \<or> length (cb_Events command) = 0
      then Inl CoordFault
      else
        let events = events + length (cb_Events command) in
        if maxLogBatchEvents < events then Inl CoordFault
        else if \<not> list_all (\<lambda>event. ev_RequestID event = cb_RequestID command \<and>
               ev_RequestHash event = cb_RequestHash command \<and> ev_WorkflowID event = cb_WorkflowID command \<and>
               canonicalEvent event) (cb_Events command)
        then Inl CoordFault
        else Inr events)"

definition validateLogBatch :: "LogBatch \<Rightarrow> coord_err + unit" where
  "validateLogBatch batch =
     (if lg_Version batch \<noteq> LogBatchVersion \<or> length (lg_Commands batch) = 0 \<or>
         maxLogBatchCommands < length (lg_Commands batch)
      then Inl CoordFault
      else bindE (foldE validate_command 0 (lg_Commands batch)) (\<lambda>_. Inr ()))"

section \<open>The canonical form\<close>

definition canonicalize_task :: "TaskDefinition \<Rightarrow> TaskDefinition" where
  "canonicalize_task task =
     (if length (elems (td_Dependencies task)) = 0 then task\<lparr>td_Dependencies := None\<rparr> else task)"

definition canonicalizeDefinition :: "WorkflowDefinition option \<Rightarrow> WorkflowDefinition option" where
  "canonicalizeDefinition definition =
     (case definition of
        None \<Rightarrow> None
      | Some d \<Rightarrow> Some (d\<lparr>wd_Tasks := map canonicalize_task (wd_Tasks d)\<rparr>))"

definition canonicalize_event :: "Event \<Rightarrow> Event" where
  "canonicalize_event event =
     (let event = event\<lparr>ev_Definition := canonicalizeDefinition (ev_Definition event)\<rparr>;
          event = (if length (elems (ev_ExpandedTasks event)) = 0 then event\<lparr>ev_ExpandedTasks := None\<rparr> else event)
      in event\<lparr>ev_ExpandedTasks := map_option (map (\<lambda>expanded.
           expanded\<lparr>xt_Definition := canonicalize_task (xt_Definition expanded)\<rparr>)) (ev_ExpandedTasks event)\<rparr>)"

definition canonicalizeLogBatch :: "LogBatch \<Rightarrow> LogBatch" where
  "canonicalizeLogBatch batch =
     batch\<lparr>lg_Commands := map (\<lambda>command. command\<lparr>cb_Events := map canonicalize_event (cb_Events command)\<rparr>) (lg_Commands batch)\<rparr>"

section \<open>Encoding\<close>

definition encodeLogBatch :: "log_codec \<Rightarrow> LogBatch \<Rightarrow> coord_err + bytes" where
  "encodeLogBatch C batch =
     bindE (validateLogBatch batch) (\<lambda>_.
       case lc_Gob C batch of
         None \<Rightarrow> Inl LogCodecError
       | Some buffer \<Rightarrow>
           if maxLogBatchBytes < length buffer then Inl CoordFault
           else
             let encoded = logBatchGobSnappyMagic @ sn_Encode (lc_Snappy C) buffer in
             if maxLogBatchBytes < length encoded then Inl CoordFault else Inr encoded)"

definition decode_gob :: "log_codec \<Rightarrow> bytes \<Rightarrow> coord_err + LogBatch" where
  "decode_gob C body =
     (case sn_DecodedLen (lc_Snappy C) body of
        None \<Rightarrow> Inl LogCodecError
      | Some decodedLength \<Rightarrow>
          if int maxLogBatchBytes < decodedLength then Inl CoordFault
          else case sn_Decode (lc_Snappy C) body of
            None \<Rightarrow> Inl LogCodecError
          | Some decoded \<Rightarrow>
              (case lc_Ungob C decoded of
                 None \<Rightarrow> Inl LogCodecError
               | Some (batch, at_end) \<Rightarrow> if \<not> at_end then Inl CoordFault else Inr batch))"

definition unmarshal_batch :: "log_codec \<Rightarrow> bytes \<Rightarrow> coord_err + LogBatch" where
  "unmarshal_batch C data = (case js_Unmarshal (lc_Json C) data of None \<Rightarrow> Inl LogCodecError | Some batch \<Rightarrow> Inr batch)"

definition decodeLogBatch :: "log_codec \<Rightarrow> bytes \<Rightarrow> coord_err + LogBatch" where
  "decodeLogBatch C data =
     (if maxLogBatchBytes < length data then Inl CoordFault
      else
        bindE (if prefix logBatchCodecPrefix data
               then (case strip_prefix logBatchGobSnappyMagic data of
                       None \<Rightarrow> Inl CoordFault
                     | Some body \<Rightarrow> decode_gob C body)
               else if prefix snappyStreamMagic data
               then (case lc_Stream C (maxLogBatchBytes + 1) data of
                       None \<Rightarrow> Inl LogCodecError
                     | Some decoded \<Rightarrow>
                         if maxLogBatchBytes < length decoded then Inl CoordFault else unmarshal_batch C decoded)
               else unmarshal_batch C data) (\<lambda>batch.
          bindE (validateLogBatch batch) (\<lambda>_. Inr batch)))"

text \<open>
  What the codecs promise: \<^verbatim>\<open>gob\<close> reads back a batch that it wrote, provided no slice in it is empty without
  being nil; \<^verbatim>\<open>snappy\<close> reads back what it compressed.
\<close>

definition log_codec_ok :: "log_codec \<Rightarrow> bool" where
  "log_codec_ok C \<longleftrightarrow>
     snappy_ok (lc_Snappy C) \<and>
     (\<forall>batch data. list_all (\<lambda>command. list_all canonicalEvent (cb_Events command)) (lg_Commands batch) \<longrightarrow>
        lc_Gob C batch = Some data \<longrightarrow> lc_Ungob C data = Some (batch, True))"

section \<open>Laws\<close>

lemma validate_commands_canonical:
  "foldE validate_command n commands = Inr k \<Longrightarrow> list_all (\<lambda>command. list_all canonicalEvent (cb_Events command)) commands"
proof (induction commands arbitrary: n)
  case (Cons command commands)
  then obtain j where j: "validate_command n command = Inr j" "foldE validate_command j commands = Inr k"
    by (auto simp: result_simps)
  from j(1) have "list_all canonicalEvent (cb_Events command)"
    by (auto simp: validate_command_def Let_def list_all_iff split: if_splits)
  with Cons.IH [OF j(2)] show ?case by simp
qed simp

lemma decode_encodeLogBatch:
  assumes ok: "log_codec_ok C" and enc: "encodeLogBatch C batch = Inr data"
  shows "decodeLogBatch C data = Inr batch"
proof -
  from enc obtain buffer where valid: "validateLogBatch batch = Inr ()" and gob: "lc_Gob C batch = Some buffer"
    and small: "length buffer \<le> maxLogBatchBytes" "length data \<le> maxLogBatchBytes"
    and data: "data = logBatchGobSnappyMagic @ sn_Encode (lc_Snappy C) buffer"
    by (auto simp: encodeLogBatch_def result_simps Let_def not_less split: option.splits if_splits)
  have "list_all (\<lambda>command. list_all canonicalEvent (cb_Events command)) (lg_Commands batch)"
    using valid by (auto simp: validateLogBatch_def result_simps intro: validate_commands_canonical split: if_splits)
  with ok gob have ungob: "lc_Ungob C buffer = Some (batch, True)" by (simp add: log_codec_ok_def)
  have sn: "sn_DecodedLen (lc_Snappy C) (sn_Encode (lc_Snappy C) buffer) = Some (int (length buffer))"
    "sn_Decode (lc_Snappy C) (sn_Encode (lc_Snappy C) buffer) = Some buffer"
    using ok by (simp_all add: log_codec_ok_def snappy_ok_def)
  then have "decode_gob C (sn_Encode (lc_Snappy C) buffer) = Inr batch"
    using small(1) ungob by (simp add: decode_gob_def)
  moreover have "prefix logBatchCodecPrefix data" "strip_prefix logBatchGobSnappyMagic data = Some (sn_Encode (lc_Snappy C) buffer)"
    by (simp_all add: data strip_prefix_Some) (simp add: logBatchCodecPrefix_def logBatchGobSnappyMagic_def)
  ultimately show ?thesis using small(2) valid by (simp add: decodeLogBatch_def)
qed

lemma decodeLogBatch_valid:
  "decodeLogBatch C data = Inr batch \<Longrightarrow> validateLogBatch batch = Inr () \<and> length data \<le> maxLogBatchBytes"
  by (auto simp: decodeLogBatch_def result_simps split: if_splits)

lemma canonicalize_task_idem [simp]: "canonicalize_task (canonicalize_task t) = canonicalize_task t"
  by (simp add: canonicalize_task_def)

lemma canonicalize_task_canonical [simp]: "\<not> empty_slice (td_Dependencies (canonicalize_task t))"
  by (cases "td_Dependencies t") (auto simp: canonicalize_task_def empty_slice_def)

lemma canonicalize_event_canonical:
  assumes "\<forall>d. ev_Definition event = Some d \<longrightarrow> wd_Tasks d \<noteq> []"
  shows "canonicalEvent (canonicalize_event event)"
  using assms
  by (cases "ev_ExpandedTasks event"; cases "ev_Definition event")
    (auto simp: canonicalize_event_def canonicalEvent_def canonicalizeDefinition_def canonicalWorkflowDefinition_def
      empty_slice_def list_all_iff Let_def dest: canonicalize_task_canonical [unfolded empty_slice_def, THEN notE])

lemma canonicalize_event_id: "canonicalEvent event \<Longrightarrow> canonicalize_event event = event"
proof -
  have task: "canonicalize_task t = t" if "\<not> empty_slice (td_Dependencies t)" for t
    using that by (cases "td_Dependencies t") (auto simp: canonicalize_task_def empty_slice_def)
  assume c: "canonicalEvent event"
  have "canonicalizeDefinition (ev_Definition event) = ev_Definition event"
    using c task by (auto simp: canonicalEvent_def canonicalWorkflowDefinition_def canonicalizeDefinition_def list_all_iff
        map_idI split: option.splits)
  moreover have "map_option (map (\<lambda>x. x\<lparr>xt_Definition := canonicalize_task (xt_Definition x)\<rparr>)) (ev_ExpandedTasks event) = ev_ExpandedTasks event"
    using c task by (cases "ev_ExpandedTasks event") (auto simp: canonicalEvent_def list_all_iff map_idI)
  moreover have "length (elems (ev_ExpandedTasks event)) = 0 \<Longrightarrow> ev_ExpandedTasks event = None"
    using c by (cases "ev_ExpandedTasks event") (auto simp: canonicalEvent_def empty_slice_def)
  ultimately show ?thesis by (cases event) (auto simp: canonicalize_event_def Let_def)
qed

text \<open>Canonicalisation leaves every batch alone that validation accepts.\<close>

lemma canonicalize_valid:
  assumes "validateLogBatch batch = Inr ()"
  shows "canonicalizeLogBatch batch = batch"
proof -
  have "list_all (\<lambda>command. list_all canonicalEvent (cb_Events command)) (lg_Commands batch)"
    using assms by (auto simp: validateLogBatch_def result_simps intro: validate_commands_canonical split: if_splits)
  then have "map (\<lambda>command. command\<lparr>cb_Events := map canonicalize_event (cb_Events command)\<rparr>) (lg_Commands batch) = lg_Commands batch"
    by (intro map_idI) (auto simp: list_all_iff canonicalize_event_id map_idI)
  then show ?thesis by (simp add: canonicalizeLogBatch_def)
qed

end
