(* ===== verification/Chronos_Coordinator.thy ===== *)
theory Chronos_Coordinator
  imports Chronos_Log_Codec Chronos_Served
begin

text \<open>
  One node of the cluster (\<^verbatim>\<open>internal/coordinator/coordinator.go\<close>, \<^verbatim>\<open>types.go\<close>): it drives a raft node over
  the store, proposes batches of commands and applies what raft commits. The raft library
  (\<^verbatim>\<open>go.etcd.io/raft\<close>) and the transport are arguments, gathered in a record; both keep a state of their own
  that the code hands on. Recording of metrics is left out, as for a coordinator without a provider.
\<close>

section \<open>What the raft library and the transport provide\<close>

datatype StateType = StateFollower | StateCandidate | StateLeader | StatePreCandidate

record BasicStatus =
  bs_Lead :: uint64
  bs_Term :: uint64
  bs_Commit :: uint64
  bs_RaftState :: StateType

record ReadState =
  rst_Index :: uint64
  rst_RequestCtx :: bytes

text \<open>The part of a \<^verbatim>\<open>raft.Ready\<close> that the store does not see is added to the part that it saves.\<close>

record 'msg FullReady = Ready +
  rd_Messages :: "'msg list"
  rd_CommittedEntries :: "Entry list"
  rd_ReadStates :: "ReadState list"

text \<open>
  The raft node reads the log through the store, so every call that may do so gets it; a call that may fail
  returns the text of its error.
\<close>

record ('db, 'raw, 'msg) raw_node =
  rn_New :: "uint64 \<Rightarrow> 'db Store \<Rightarrow> uint64 \<Rightarrow> string + 'raw"
  rn_BasicStatus :: "'raw \<Rightarrow> BasicStatus"
  rn_HasReady :: "'raw \<Rightarrow> bool"
  rn_Ready :: "'db Store \<Rightarrow> 'raw \<Rightarrow> 'msg FullReady \<times> 'raw"
  rn_Advance :: "'db Store \<Rightarrow> 'msg FullReady \<Rightarrow> 'raw \<Rightarrow> 'raw"
  rn_Step :: "'db Store \<Rightarrow> 'msg \<Rightarrow> 'raw \<Rightarrow> 'raw \<times> string option"
  rn_Campaign :: "'db Store \<Rightarrow> 'raw \<Rightarrow> 'raw \<times> string option"
  rn_Tick :: "'db Store \<Rightarrow> 'raw \<Rightarrow> 'raw"
  rn_ReadIndex :: "'db Store \<Rightarrow> bytes \<Rightarrow> 'raw \<Rightarrow> 'raw"
  rn_ReportUnreachable :: "'db Store \<Rightarrow> uint64 \<Rightarrow> 'raw \<Rightarrow> 'raw"
  rn_ReportSnapshot :: "'db Store \<Rightarrow> uint64 \<Rightarrow> bool \<Rightarrow> 'raw \<Rightarrow> 'raw"
  rn_Prop :: "uint64 \<Rightarrow> bytes list \<Rightarrow> 'msg"
  rn_To :: "'msg \<Rightarrow> uint64"
  rn_IsSnap :: "'msg \<Rightarrow> bool"

text \<open>\<open>ce_Send\<close> hands one message to the transport; \<open>False\<close> is an error.\<close>

record ('db, 'raw, 'msg, 'net) coord_env =
  ce_storage :: "'db storage_env"
  ce_procs :: nat
  ce_encoder :: encoder
  ce_codec :: log_codec
  ce_raft :: "('db, 'raw, 'msg) raw_node"
  ce_Send :: "'msg \<Rightarrow> 'net \<Rightarrow> 'net \<times> bool"

section \<open>State\<close>

record Status =
  st_NodeID :: uint64
  st_LeaderID :: uint64
  st_Term :: uint64
  st_CommitIndex :: uint64
  st_AppliedIndex :: uint64
  st_Role :: StateType

record proposedBatch =
  pp_data :: bytes
  pp_batch :: LogBatch

record stagedBatch =
  sb_commands :: "Command list"
  sb_batches :: "CommandBatch list"

record ('db, 'raw, 'net) Coordinator =
  co_id :: uint64
  co_store :: "'db Store"
  co_raw :: 'raw
  co_transport :: 'net
  co_stopped :: bool
  co_status :: Status
  co_readStates :: "ReadState list"
  co_outcomes :: "Outcome list"
  co_proposed :: "proposedBatch list"
  co_prepared :: "(uint64, proposedBatch) gomap"
  co_fatal :: "coord_err option"

type_synonym ('db, 'raw, 'msg, 'net) coord_op =
  "('db, 'raw, 'msg, 'net) coord_env \<Rightarrow> ('db, 'raw, 'net) Coordinator \<Rightarrow> ('db, 'raw, 'net) Coordinator \<times> coord_err option"

definition updateStatus ::
    "('db, 'raw, 'msg, 'net) coord_env \<Rightarrow> ('db, 'raw, 'net) Coordinator \<Rightarrow> ('db, 'raw, 'net) Coordinator" where
  "updateStatus V c =
     (let status = rn_BasicStatus (ce_raft V) (co_raw c); applied = Applied (co_store c) in
      c\<lparr>co_status := \<lparr>st_NodeID = co_id c, st_LeaderID = bs_Lead status, st_Term = bs_Term status,
         st_CommitIndex = bs_Commit status, st_AppliedIndex = as_Index applied, st_Role = bs_RaftState status\<rparr>\<rparr>)"

section \<open>Proposing\<close>

definition checkStagedProposalState ::
    "('db, 'raw, 'msg, 'net) coord_env \<Rightarrow> ('db, 'raw, 'net) Coordinator \<Rightarrow> coord_err + unit" where
  "checkStagedProposalState V c =
     (if co_stopped c then Inl CoordStopped
      else case co_fatal c of
        Some e \<Rightarrow> Inl e
      | None \<Rightarrow>
          let status = rn_BasicStatus (ce_raft V) (co_raw c) in
          if bs_RaftState status \<noteq> StateLeader then Inl (NotLeaderError (co_id c) (bs_Lead status)) else Inr ())"

definition note_command :: "string list \<Rightarrow> Command \<Rightarrow> coord_err + string list" where
  "note_command seen command =
     (if cmd_RequestID command \<in> set seen then Inl (CoreFailure ErrInvalidCommand)
      else Inr (cmd_RequestID command # seen))"

definition checkStagedProposal ::
    "('db, 'raw, 'msg, 'net) coord_env \<Rightarrow> ('db, 'raw, 'net) Coordinator \<Rightarrow> Command list \<Rightarrow> coord_err + unit" where
  "checkStagedProposal V c commands =
     bindE (checkStagedProposalState V c) (\<lambda>_.
       if length commands = 0 then Inl CoordFault
       else bindE (foldE note_command [] commands) (\<lambda>_. Inr ()))"

definition checkProposal ::
    "('db, 'raw, 'msg, 'net) coord_env \<Rightarrow> ('db, 'raw, 'net) Coordinator \<Rightarrow> Command list \<Rightarrow> coord_err + unit" where
  "checkProposal V c commands =
     bindE (checkStagedProposal V c commands) (\<lambda>_.
       let status = rn_BasicStatus (ce_raft V) (co_raw c); applied = Applied (co_store c); lastIndex = LastIndex (co_store c) in
       if as_Term applied \<noteq> bs_Term status \<or> as_Index applied \<noteq> lastIndex then Inl CoordUnavailable else Inr ())"

text \<open>The goroutines of \<^verbatim>\<open>encodeLogBatches\<close> fill disjoint slots; the first error in the order of the batches counts.\<close>

definition encodeLogBatches :: "log_codec \<Rightarrow> LogBatch list \<Rightarrow> coord_err + bytes list" where
  "encodeLogBatches C batches =
     foldE (\<lambda>data encoding. case encoding of Inl e \<Rightarrow> Inl e | Inr bytes \<Rightarrow> Inr (data @ [bytes])) []
       (map (encodeLogBatch C) batches)"

definition stageLogBatches :: "LogBatch list \<Rightarrow> ('db, 'raw, 'msg, 'net) coord_op" where
  "stageLogBatches batches V c =
     (let batches = map canonicalizeLogBatch batches in
      case encodeLogBatches (ce_codec V) batches of
        Inl e \<Rightarrow> (c, Some e)
      | Inr encoded \<Rightarrow>
          (case rn_Step (ce_raft V) (co_store c) (rn_Prop (ce_raft V) (co_id c) encoded) (co_raw c) of
             (raw, Some e) \<Rightarrow> (c\<lparr>co_raw := raw\<rparr>, Some (RaftFailure e))
           | (raw, None) \<Rightarrow>
               (c\<lparr>co_raw := raw, co_proposed := co_proposed c @
                  map (\<lambda>(data, batch). \<lparr>pp_data = data, pp_batch = batch\<rparr>) (zip encoded batches)\<rparr>, None)))"

definition stagePreparedGroup :: "stagedBatch list \<Rightarrow> ('db, 'raw, 'msg, 'net) coord_op" where
  "stagePreparedGroup proposals V c =
     (if length proposals = 0 then (c, None)
      else case checkStagedProposalState V c of
        Inl e \<Rightarrow> (c, Some e)
      | Inr _ \<Rightarrow>
          let batches = map (\<lambda>proposal. \<lparr>lg_Version = LogBatchVersion, lg_Commands = sb_batches proposal\<rparr>)
            (filter (\<lambda>proposal. length (sb_batches proposal) \<noteq> 0) proposals) in
          if length batches = 0 then (c, None) else stageLogBatches batches V c)"

section \<open>One round of \<^verbatim>\<open>ProcessReadyContext\<close>\<close>

fun find_proposed :: "bytes \<Rightarrow> proposedBatch list \<Rightarrow> (proposedBatch \<times> proposedBatch list) option" where
  "find_proposed data [] = None"
| "find_proposed data (p # ps) = (if data = pp_data p then Some (p, ps) else find_proposed data ps)"

definition cache_entry ::
    "Entry \<Rightarrow> proposedBatch list \<times> (uint64, proposedBatch) gomap \<Rightarrow> proposedBatch list \<times> (uint64, proposedBatch) gomap" where
  "cache_entry entry acc =
     (case acc of (proposed, prepared) \<Rightarrow>
        case find_proposed (le_Data entry) proposed of
          None \<Rightarrow> (proposed, prepared)
        | Some (p, rest) \<Rightarrow> (rest, put (le_Index entry) p prepared))"

definition cacheReadyEntries :: "Entry list \<Rightarrow> ('db, 'raw, 'net) Coordinator \<Rightarrow> ('db, 'raw, 'net) Coordinator" where
  "cacheReadyEntries entries c =
     (case fold cache_entry entries (co_proposed c, co_prepared c) of
        (proposed, prepared) \<Rightarrow> c\<lparr>co_proposed := proposed, co_prepared := prepared\<rparr>)"

definition EntryNormal :: int where "EntryNormal = 0"

definition application_of :: "Entry \<Rightarrow> CommandBatch list \<Rightarrow> ApplicationEntry" where
  "application_of entry batches =
     \<lparr>ae_Version = ApplicationEntryVersion, ae_Index = le_Index entry, ae_Term = le_Term entry, ae_Batches = batches\<rparr>"

definition decode_entry ::
    "log_codec \<Rightarrow> Entry \<Rightarrow> (uint64, proposedBatch) gomap \<Rightarrow> (uint64, proposedBatch) gomap \<times> (coord_err + ApplicationEntry)" where
  "decode_entry C entry prepared =
     (if le_Type entry \<noteq> EntryNormal then (prepared, Inl CoordFault)
      else if length (le_Data entry) = 0 then (prepared, Inr (application_of entry []))
      else
        let plain = bindE (decodeLogBatch C (le_Data entry)) (\<lambda>batch. Inr (application_of entry (lg_Commands batch))) in
        case map_of prepared (le_Index entry) of
          None \<Rightarrow> (prepared, plain)
        | Some cached \<Rightarrow>
            (del (le_Index entry) prepared,
             if pp_data cached = le_Data entry then Inr (application_of entry (lg_Commands (pp_batch cached))) else plain))"

fun decode_entries ::
    "log_codec \<Rightarrow> Entry list \<Rightarrow> (uint64, proposedBatch) gomap \<Rightarrow>
     (uint64, proposedBatch) gomap \<times> (coord_err + ApplicationEntry list)" where
  "decode_entries C [] prepared = (prepared, Inr [])"
| "decode_entries C (entry # entries) prepared =
     (case decode_entry C entry prepared of
        (prepared, Inl e) \<Rightarrow> (prepared, Inl e)
      | (prepared, Inr application) \<Rightarrow>
          (case decode_entries C entries prepared of
             (prepared, Inl e) \<Rightarrow> (prepared, Inl e)
           | (prepared, Inr result) \<Rightarrow> (prepared, Inr (application # result))))"

text \<open>\<^verbatim>\<open>Coordinator.decodeCommitted\<close> uses the cache of staged batches, the function \<^verbatim>\<open>decodeCommitted\<close> does not.\<close>

definition Coordinator_decodeCommitted ::
    "log_codec \<Rightarrow> Entry list \<Rightarrow> ('db, 'raw, 'net) Coordinator \<Rightarrow>
     ('db, 'raw, 'net) Coordinator \<times> (coord_err + ApplicationEntry list)" where
  "Coordinator_decodeCommitted C entries c =
     (case decode_entries C entries (co_prepared c) of (prepared, r) \<Rightarrow> (c\<lparr>co_prepared := prepared\<rparr>, r))"

definition decode_plain :: "log_codec \<Rightarrow> Entry \<Rightarrow> coord_err + ApplicationEntry" where
  "decode_plain C entry =
     (if le_Type entry \<noteq> EntryNormal then Inl CoordFault
      else if length (le_Data entry) = 0 then Inr (application_of entry [])
      else bindE (decodeLogBatch C (le_Data entry)) (\<lambda>batch. Inr (application_of entry (lg_Commands batch))))"

definition decodeCommitted :: "log_codec \<Rightarrow> Entry list \<Rightarrow> coord_err + ApplicationEntry list" where
  "decodeCommitted C entries = foldE (\<lambda>result entry. bindE (decode_plain C entry) (\<lambda>a. Inr (result @ [a]))) [] entries"

definition send_message ::
    "('db, 'raw, 'msg, 'net) coord_env \<Rightarrow> 'msg \<Rightarrow> ('db, 'raw, 'net) Coordinator \<Rightarrow> ('db, 'raw, 'net) Coordinator" where
  "send_message V message c =
     (case ce_Send V message (co_transport c) of
        (net, True) \<Rightarrow> c\<lparr>co_transport := net\<rparr>
      | (net, False) \<Rightarrow>
          let raw = rn_ReportUnreachable (ce_raft V) (co_store c) (rn_To (ce_raft V) message) (co_raw c);
              raw = (if rn_IsSnap (ce_raft V) message
                     then rn_ReportSnapshot (ce_raft V) (co_store c) (rn_To (ce_raft V) message) False raw else raw)
          in c\<lparr>co_transport := net, co_raw := raw\<rparr>)"

text \<open>The body of the loop is a sequence of stages; the first error ends it.\<close>

definition save_stage :: "'msg FullReady \<Rightarrow> ('db, 'raw, 'msg, 'net) coord_op" where
  "save_stage ready V c =
     (case SaveReady (ce_storage V) (co_store c) (Ready.truncate ready) of
        (s, Inl e) \<Rightarrow> (c\<lparr>co_store := s\<rparr>, Some (StoreFailure e))
      | (s, Inr _) \<Rightarrow> (c\<lparr>co_store := s\<rparr>, None))"

definition install_stage :: "'msg FullReady \<Rightarrow> ('db, 'raw, 'msg, 'net) coord_op" where
  "install_stage ready V c =
     (if io_isEmptySnap (ce_storage V) (rd_Snapshot ready) then (c, None)
      else case InstallSnapshot (ce_storage V) (ce_procs V) (co_store c) (rd_Snapshot ready) of
        (s, Inl e) \<Rightarrow> (c\<lparr>co_store := s\<rparr>, Some (StoreFailure e))
      | (s, Inr _) \<Rightarrow> (c\<lparr>co_store := s\<rparr>, None))"

definition send_stage :: "'msg FullReady \<Rightarrow> ('db, 'raw, 'msg, 'net) coord_op" where
  "send_stage ready V c = (fold (send_message V) (rd_Messages ready) c, None)"

definition maxOutcomes :: nat where "maxOutcomes = 32768"

definition keep_outcomes :: "Outcome list \<Rightarrow> Outcome list" where
  "keep_outcomes outcomes = (if maxOutcomes < length outcomes then drop (length outcomes - maxOutcomes) outcomes else outcomes)"

definition apply_stage :: "'msg FullReady \<Rightarrow> ('db, 'raw, 'msg, 'net) coord_op" where
  "apply_stage ready V c =
     (case Coordinator_decodeCommitted (ce_codec V) (rd_CommittedEntries ready) c of
        (c, Inl e) \<Rightarrow> (c, Some e)
      | (c, Inr entries) \<Rightarrow>
          if length entries = 0 then (c, None)
          else case ApplyCommitted (ce_storage V) (ce_procs V) (co_store c) entries of
            (s, Inl e) \<Rightarrow> (c\<lparr>co_store := s\<rparr>, Some (StoreFailure e))
          | (s, Inr outcomes) \<Rightarrow>
              (if bs_RaftState (rn_BasicStatus (ce_raft V) (co_raw c)) = StateLeader
               then c\<lparr>co_store := s, co_outcomes := keep_outcomes (co_outcomes c @ outcomes)\<rparr>
               else c\<lparr>co_store := s\<rparr>, None))"

definition advance_stage :: "'msg FullReady \<Rightarrow> ('db, 'raw, 'msg, 'net) coord_op" where
  "advance_stage ready V c =
     (let c = c\<lparr>co_readStates := co_readStates c @ rd_ReadStates ready,
                co_raw := rn_Advance (ce_raft V) (co_store c) ready (co_raw c)\<rparr>;
          c = updateStatus V c
      in (if st_Role (co_status c) \<noteq> StateLeader then c\<lparr>co_proposed := [], co_prepared := []\<rparr> else c, None))"

fun run_stages :: "('c \<Rightarrow> 'c \<times> 'e option) list \<Rightarrow> 'c \<Rightarrow> 'c \<times> 'e option" where
  "run_stages [] c = (c, None)"
| "run_stages (stage # stages) c =
     (case stage c of (c, Some e) \<Rightarrow> (c, Some e) | (c, None) \<Rightarrow> run_stages stages c)"

definition round_stages ::
    "('db, 'raw, 'msg, 'net) coord_env \<Rightarrow> 'msg FullReady \<Rightarrow>
     (('db, 'raw, 'net) Coordinator \<Rightarrow> ('db, 'raw, 'net) Coordinator \<times> coord_err option) list" where
  "round_stages V ready =
     [save_stage ready V, install_stage ready V, send_stage ready V, apply_stage ready V, advance_stage ready V]"

definition take_ready ::
    "('db, 'raw, 'msg, 'net) coord_env \<Rightarrow> ('db, 'raw, 'net) Coordinator \<Rightarrow> 'msg FullReady \<times> ('db, 'raw, 'net) Coordinator" where
  "take_ready V c =
     (case rn_Ready (ce_raft V) (co_store c) (co_raw c) of
        (ready, raw) \<Rightarrow> (ready, cacheReadyEntries (rd_Entries ready) (c\<lparr>co_raw := raw\<rparr>)))"

definition ready_round :: "('db, 'raw, 'msg, 'net) coord_op" where
  "ready_round V c = (case take_ready V c of (ready, c) \<Rightarrow> run_stages (round_stages V ready) c)"

text \<open>
  The loop runs as long as the raft node has something ready; whether it ends is up to the raft library, and
  \<open>None\<close> is a loop that does not.
\<close>

partial_function (option) ready_loop ::
    "('db, 'raw, 'msg, 'net) coord_env \<Rightarrow> ('db, 'raw, 'net) Coordinator \<Rightarrow> (('db, 'raw, 'net) Coordinator \<times> coord_err option) option" where
  "ready_loop V c =
     (if rn_HasReady (ce_raft V) (co_raw c)
      then (case ready_round V c of
              (c, Some e) \<Rightarrow> Some (c, Some e)
            | (c, None) \<Rightarrow> ready_loop V c)
      else Some (updateStatus V c, None))"

definition ProcessReady ::
    "('db, 'raw, 'msg, 'net) coord_env \<Rightarrow> ('db, 'raw, 'net) Coordinator \<Rightarrow> (('db, 'raw, 'net) Coordinator \<times> coord_err option) option" where
  "ProcessReady V c =
     (if co_stopped c then Some (c\<lparr>co_fatal := Some CoordStopped\<rparr>, Some CoordStopped)
      else case co_fatal c of
        Some e \<Rightarrow> Some (c, Some e)
      | None \<Rightarrow>
          map_option (\<lambda>(c, err). case err of Some e \<Rightarrow> (c\<lparr>co_fatal := Some e\<rparr>, Some e) | None \<Rightarrow> (c, None)) (ready_loop V c))"

section \<open>The operations\<close>

type_synonym ('db, 'raw, 'msg, 'net) coord_run =
  "('db, 'raw, 'msg, 'net) coord_env \<Rightarrow> ('db, 'raw, 'net) Coordinator \<Rightarrow> (('db, 'raw, 'net) Coordinator \<times> coord_err option) option"

definition guarded :: "('db, 'raw, 'msg, 'net) coord_run \<Rightarrow> ('db, 'raw, 'msg, 'net) coord_run" where
  "guarded body V c =
     (if co_stopped c then Some (c, Some CoordStopped)
      else case co_fatal c of Some e \<Rightarrow> Some (c, Some e) | None \<Rightarrow> body V c)"

definition after_raw :: "'raw \<times> string option \<Rightarrow> ('db, 'raw, 'msg, 'net) coord_run" where
  "after_raw r V c =
     (case r of
        (raw, Some e) \<Rightarrow> Some (c\<lparr>co_raw := raw\<rparr>, Some (RaftFailure e))
      | (raw, None) \<Rightarrow> ProcessReady V (c\<lparr>co_raw := raw\<rparr>))"

definition Coordinator_Campaign :: "('db, 'raw, 'msg, 'net) coord_run" where
  "Coordinator_Campaign = guarded (\<lambda>V c. after_raw (rn_Campaign (ce_raft V) (co_store c) (co_raw c)) V c)"

definition Coordinator_Tick :: "('db, 'raw, 'msg, 'net) coord_run" where
  "Coordinator_Tick = guarded (\<lambda>V c. after_raw (rn_Tick (ce_raft V) (co_store c) (co_raw c), None) V c)"

definition StepContext :: "'msg \<Rightarrow> ('db, 'raw, 'msg, 'net) coord_run" where
  "StepContext message = guarded (\<lambda>V c. after_raw (rn_Step (ce_raft V) (co_store c) message (co_raw c)) V c)"

definition ReadIndexContext :: "bytes \<Rightarrow> ('db, 'raw, 'msg, 'net) coord_run" where
  "ReadIndexContext token = guarded (\<lambda>V c.
     if length token = 0 \<or> 65535 < length token then Some (c, Some CoordFault)
     else after_raw (rn_ReadIndex (ce_raft V) (co_store c) token (co_raw c), None) V c)"

definition Coordinator_ReportSnapshot :: "uint64 \<Rightarrow> bool \<Rightarrow> ('db, 'raw, 'msg, 'net) coord_run" where
  "Coordinator_ReportSnapshot nodeID success =
     guarded (\<lambda>V c. after_raw (rn_ReportSnapshot (ce_raft V) (co_store c) nodeID success (co_raw c), None) V c)"

definition Coordinator_ReportUnreachable :: "uint64 \<Rightarrow> ('db, 'raw, 'msg, 'net) coord_run" where
  "Coordinator_ReportUnreachable nodeID =
     guarded (\<lambda>V c. after_raw (rn_ReportUnreachable (ce_raft V) (co_store c) nodeID (co_raw c), None) V c)"

text \<open>The result of a proposal is what is already known of its commands; the rest is answered when it commits.\<close>

definition proposeBatchesContext ::
    "CommandBatch list \<Rightarrow> ('db, 'raw, 'msg, 'net) coord_run" where
  "proposeBatchesContext batches V c =
     (if length batches = 0 then Some (c, None)
      else case stageLogBatches [\<lparr>lg_Version = LogBatchVersion, lg_Commands = batches\<rparr>] V c of
        (c, Some e) \<Rightarrow> Some (c, Some e)
      | (c, None) \<Rightarrow> ProcessReady V c)"

definition ProposeContext ::
    "('db, 'raw, 'msg, 'net) coord_env \<Rightarrow> Command list \<Rightarrow> ('db, 'raw, 'net) Coordinator \<Rightarrow>
     (('db, 'raw, 'net) Coordinator \<times> (coord_err + (string, Result) gomap)) option" where
  "ProposeContext V commands c =
     (case checkProposal V c commands of
        Inl e \<Rightarrow> Some (c, Inl e)
      | Inr _ \<Rightarrow>
          (case Store_Prepare (ce_storage V) (ce_encoder V) (co_store c) commands of
             (s, Inl e) \<Rightarrow> Some (c\<lparr>co_store := s\<rparr>, Inl (StoreFailure e))
           | (s, Inr (batches, immediate)) \<Rightarrow>
               map_option (\<lambda>(c, err). (c, case err of Some e \<Rightarrow> Inl e | None \<Rightarrow> Inr immediate))
                 (proposeBatchesContext batches V (c\<lparr>co_store := s\<rparr>))))"

definition TakeReadStates :: "('db, 'raw, 'net) Coordinator \<Rightarrow> ReadState list \<times> ('db, 'raw, 'net) Coordinator" where
  "TakeReadStates c = (co_readStates c, c\<lparr>co_readStates := []\<rparr>)"

definition TakeOutcomes :: "('db, 'raw, 'net) Coordinator \<Rightarrow> Outcome list \<times> ('db, 'raw, 'net) Coordinator" where
  "TakeOutcomes c = (co_outcomes c, c\<lparr>co_outcomes := []\<rparr>)"

definition Coordinator_CreateSnapshot ::
    "('db, 'raw, 'msg, 'net) coord_env \<Rightarrow> ('db, 'raw, 'net) Coordinator \<Rightarrow>
     ('db, 'raw, 'net) Coordinator \<times> (coord_err + RaftSnapshot)" where
  "Coordinator_CreateSnapshot V c =
     (if co_stopped c then (c, Inl CoordStopped)
      else case CreateSnapshot (ce_storage V) (co_store c) of
        (s, Inr snapshot) \<Rightarrow> (c\<lparr>co_store := s\<rparr>, Inr snapshot)
      | (s, Inl e) \<Rightarrow>
          (if e \<noteq> ErrSnapOutOfDate then c\<lparr>co_store := s, co_fatal := Some (StoreFailure e)\<rparr> else c\<lparr>co_store := s\<rparr>,
           Inl (StoreFailure e)))"

definition Coordinator_Close :: "('db, 'raw, 'net) Coordinator \<Rightarrow> ('db, 'raw, 'net) Coordinator" where
  "Coordinator_Close c = (if co_stopped c then c else c\<lparr>co_stopped := True\<rparr>)"

record ('net) coord_config =
  cc_ID :: uint64
  cc_ClusterID :: string
  cc_Directory :: string
  cc_Voters :: "uint64 list"
  cc_Transport :: "'net option"
  cc_Failpoint :: "Point \<Rightarrow> store_err option"

definition zero_status :: Status where
  "zero_status = \<lparr>st_NodeID = 0, st_LeaderID = 0, st_Term = 0, st_CommitIndex = 0, st_AppliedIndex = 0, st_Role = StateFollower\<rparr>"

definition new_coordinator ::
    "uint64 \<Rightarrow> 'db Store \<Rightarrow> 'raw \<Rightarrow> 'net \<Rightarrow> ('db, 'raw, 'net) Coordinator" where
  "new_coordinator i s raw net =
     \<lparr>co_id = i, co_store = s, co_raw = raw, co_transport = net, co_stopped = False, co_status = zero_status,
      co_readStates = [], co_outcomes = [], co_proposed = [], co_prepared = [], co_fatal = None\<rparr>"

definition Coordinator_Open ::
    "('db, 'raw, 'msg, 'net) coord_env \<Rightarrow> (string \<Rightarrow> store_err + 'db) \<Rightarrow> 'net coord_config \<Rightarrow>
     (coord_err + ('db, 'raw, 'net) Coordinator) option" where
  "Coordinator_Open V opened config =
     (case cc_Transport config of
        None \<Rightarrow> Some (Inl CoordFault)
      | Some net \<Rightarrow>
          (case Open (ce_storage V) (ce_procs V) opened
               \<lparr>cf_Directory = cc_Directory config, cf_ClusterID = cc_ClusterID config, cf_NodeID = cc_ID config,
                cf_Voters = cc_Voters config, cf_Failpoint = cc_Failpoint config\<rparr> of
             Inl e \<Rightarrow> Some (Inl (StoreFailure e))
           | Inr s \<Rightarrow>
               (case rn_New (ce_raft V) (cc_ID config) s (as_Index (Applied s)) of
                  Inl e \<Rightarrow> Some (Inl (RaftFailure e))
                | Inr raw \<Rightarrow>
                    map_option (\<lambda>(c, err). case err of Some e \<Rightarrow> Inl e | None \<Rightarrow> Inr c)
                      (ProcessReady V (updateStatus V (new_coordinator (cc_ID config) s raw net))))))"

end
