(* ===== verification/Chronos_Coordinator_Laws.thy ===== *)
theory Chronos_Coordinator_Laws
  imports Chronos_Coordinator
begin

text \<open>
  What a node promises: a \<^verbatim>\<open>Ready\<close> reaches the disk before its messages leave, the cache of staged batches
  changes nothing but the work, and a node that failed stays failed. The history of a node is a state machine
  over the stages of \<^verbatim>\<open>ProcessReadyContext\<close>, in which the node may stop at every store call.
\<close>

section \<open>The cache of staged batches\<close>

text \<open>A cached batch is what decoding its bytes would give.\<close>

definition cached_ok :: "log_codec \<Rightarrow> proposedBatch \<Rightarrow> bool" where
  "cached_ok C p \<longleftrightarrow> decodeLogBatch C (pp_data p) = Inr (pp_batch p)"

definition cache_ok :: "log_codec \<Rightarrow> ('db, 'raw, 'net) Coordinator \<Rightarrow> bool" where
  "cache_ok C c \<longleftrightarrow>
     list_all (cached_ok C) (co_proposed c) \<and> (\<forall>index p. map_of (co_prepared c) index = Some p \<longrightarrow> cached_ok C p)"

lemma cache_ok_cong:
  "co_proposed c' = co_proposed c \<Longrightarrow> co_prepared c' = co_prepared c \<Longrightarrow> cache_ok C c' = cache_ok C c"
  by (simp add: cache_ok_def)

lemma encodeLogBatches_Inr:
  "encodeLogBatches C batches = Inr encoded \<Longrightarrow> list_all2 (\<lambda>batch data. encodeLogBatch C batch = Inr data) batches encoded"
proof (induction batches arbitrary: encoded rule: rev_induct)
  case (snoc batch batches)
  then obtain data d where "encodeLogBatches C batches = Inr data" "encodeLogBatch C batch = Inr d" "encoded = data @ [d]"
    by (cases "encodeLogBatch C batch") (auto simp: encodeLogBatches_def result_simps)
  with snoc.IH show ?case by (simp add: list_all2_appendI)
qed (simp add: encodeLogBatches_def)

lemma staged_cached_ok:
  assumes "log_codec_ok C" "encodeLogBatches C batches = Inr encoded"
  shows "list_all (cached_ok C) (map (\<lambda>(data, batch). \<lparr>pp_data = data, pp_batch = batch\<rparr>) (zip encoded batches))"
  using encodeLogBatches_Inr [OF assms(2)]
  by (auto simp: list_all_iff list_all2_conv_all_nth cached_ok_def in_set_zip decode_encodeLogBatch [OF assms(1)])

lemma stageLogBatches_cache:
  assumes "log_codec_ok (ce_codec V)" "cache_ok (ce_codec V) c" "stageLogBatches batches V c = (c', err)"
  shows "cache_ok (ce_codec V) c'"
  using assms(2,3) staged_cached_ok [OF assms(1)]
  by (auto simp: stageLogBatches_def Let_def cache_ok_def split: sum.splits prod.splits option.splits)

lemma find_proposed_Some:
  "find_proposed data ps = Some (p, rest) \<Longrightarrow> p \<in> set ps \<and> set rest \<subseteq> set ps \<and> pp_data p = data"
  by (induction ps) (auto split: if_splits)

definition pair_ok :: "log_codec \<Rightarrow> proposedBatch list \<times> (uint64, proposedBatch) gomap \<Rightarrow> bool" where
  "pair_ok C acc \<longleftrightarrow>
     list_all (cached_ok C) (fst acc) \<and> (\<forall>index p. map_of (snd acc) index = Some p \<longrightarrow> cached_ok C p)"

lemma cache_entry_ok: "pair_ok C acc \<Longrightarrow> pair_ok C (cache_entry entry acc)"
  by (auto simp: cache_entry_def pair_ok_def list_all_iff split: prod.splits option.splits dest!: find_proposed_Some)

lemma cacheReadyEntries_ok:
  assumes "cache_ok C c"
  shows "cache_ok C (cacheReadyEntries entries c)"
proof -
  have "pair_ok C (fold cache_entry entries (co_proposed c, co_prepared c))"
    by (rule fold_invariant [where Q = "\<lambda>_. True", OF TrueI])
      (use assms in \<open>simp add: cache_ok_def pair_ok_def\<close>, rule cache_entry_ok)
  then show ?thesis
    by (cases "fold cache_entry entries (co_proposed c, co_prepared c)") (simp add: cacheReadyEntries_def cache_ok_def pair_ok_def)
qed

lemma decode_entry_ok:
  assumes "\<forall>index p. map_of prepared index = Some p \<longrightarrow> cached_ok C p"
  shows "snd (decode_entry C entry prepared) = decode_plain C entry"
    and "\<forall>index p. map_of (fst (decode_entry C entry prepared)) index = Some p \<longrightarrow> cached_ok C p"
proof -
  show "snd (decode_entry C entry prepared) = decode_plain C entry"
    using assms by (cases "map_of prepared (le_Index entry)") (force simp: decode_entry_def decode_plain_def cached_ok_def Let_def)+
  show "\<forall>index p. map_of (fst (decode_entry C entry prepared)) index = Some p \<longrightarrow> cached_ok C p"
    using assms by (cases "map_of prepared (le_Index entry)") (auto simp: decode_entry_def Let_def delete_conv')
qed

lemma decodeCommitted_Cons:
  "decodeCommitted C (entry # entries) = bindE (decode_plain C entry) (\<lambda>a. bindE (decodeCommitted C entries) (\<lambda>as. Inr (a # as)))"
proof -
  let ?f = "\<lambda>result entry. bindE (decode_plain C entry) (\<lambda>a. Inr (result @ [a]))"
  have "foldE ?f (xs @ ys) entries = bindE (foldE ?f ys entries) (\<lambda>as. Inr (xs @ as))" for xs ys
  proof (induction entries arbitrary: ys)
    case (Cons entry entries)
    then show ?case by (cases "decode_plain C entry") simp_all
  qed simp
  from this [of "[a]" "[]" for a] show ?thesis by (cases "decode_plain C entry") (simp_all add: decodeCommitted_def)
qed

lemma decode_entries_plain:
  assumes "\<forall>index p. map_of prepared index = Some p \<longrightarrow> cached_ok C p"
  shows "snd (decode_entries C entries prepared) = decodeCommitted C entries"
    and "\<forall>index p. map_of (fst (decode_entries C entries prepared)) index = Some p \<longrightarrow> cached_ok C p"
proof -
  have "snd (decode_entries C entries prepared) = decodeCommitted C entries \<and>
      (\<forall>index p. map_of (fst (decode_entries C entries prepared)) index = Some p \<longrightarrow> cached_ok C p)"
    using assms
  proof (induction entries arbitrary: prepared)
    case Nil
    then show ?case by (simp add: decodeCommitted_def)
  next
    case (Cons entry entries)
    obtain prepared' r where one: "decode_entry C entry prepared = (prepared', r)" by (cases "decode_entry C entry prepared")
    from decode_entry_ok [OF Cons.prems, of entry] one
    have r: "r = decode_plain C entry" and ok: "\<forall>index p. map_of prepared' index = Some p \<longrightarrow> cached_ok C p" by simp_all
    from Cons.IH [OF ok] ok show ?case
      by (cases r; cases "decode_entries C entries prepared'") (auto simp: one r [symmetric] decodeCommitted_Cons split: sum.splits)
  qed
  then show "snd (decode_entries C entries prepared) = decodeCommitted C entries"
    "\<forall>index p. map_of (fst (decode_entries C entries prepared)) index = Some p \<longrightarrow> cached_ok C p" by simp_all
qed

lemma cached_decode:
  assumes "cache_ok C c"
  shows "snd (Coordinator_decodeCommitted C entries c) = decodeCommitted C entries"
    and "cache_ok C (fst (Coordinator_decodeCommitted C entries c))"
    and "co_store (fst (Coordinator_decodeCommitted C entries c)) = co_store c"
  using assms decode_entries_plain [of "co_prepared c" C entries]
  by (cases "decode_entries C entries (co_prepared c)"; simp add: Coordinator_decodeCommitted_def cache_ok_def)+

section \<open>What the stages leave alone\<close>

lemma cacheReadyEntries_store [simp]:
  "co_store (cacheReadyEntries entries c) = co_store c" "co_fatal (cacheReadyEntries entries c) = co_fatal c"
  "co_transport (cacheReadyEntries entries c) = co_transport c"
  by (simp_all add: cacheReadyEntries_def split: prod.splits)

lemma take_ready_store:
  assumes "take_ready V c = (ready, c')"
  shows "co_store c' = co_store c" "co_transport c' = co_transport c" "ready = fst (rn_Ready (ce_raft V) (co_store c) (co_raw c))"
    "cache_ok C c \<Longrightarrow> cache_ok C c'"
proof -
  obtain raw where r: "rn_Ready (ce_raft V) (co_store c) (co_raw c) = (ready, raw)" "c' = cacheReadyEntries (rd_Entries ready) (c\<lparr>co_raw := raw\<rparr>)"
    using assms by (auto simp: take_ready_def split: prod.splits)
  then show "co_store c' = co_store c" "co_transport c' = co_transport c" "ready = fst (rn_Ready (ce_raft V) (co_store c) (co_raw c))"
    by simp_all
  show "cache_ok C c'" if "cache_ok C c"
    unfolding r(2) by (rule cacheReadyEntries_ok) (use that in \<open>simp add: cache_ok_def\<close>)
qed

lemma stageLogBatches_store: "stageLogBatches batches V c = (c', err) \<Longrightarrow> co_store c' = co_store c \<and> co_transport c' = co_transport c"
  by (auto simp: stageLogBatches_def Let_def split: sum.splits prod.splits option.splits)

lemma updateStatus_simps [simp]:
  "co_store (updateStatus V c) = co_store c" "co_transport (updateStatus V c) = co_transport c"
  "co_fatal (updateStatus V c) = co_fatal c" "co_proposed (updateStatus V c) = co_proposed c"
  "co_prepared (updateStatus V c) = co_prepared c"
  by (simp_all add: updateStatus_def Let_def)

lemma send_message_simps [simp]:
  "co_store (send_message V message c) = co_store c" "co_proposed (send_message V message c) = co_proposed c"
  "co_prepared (send_message V message c) = co_prepared c"
  by (simp_all add: send_message_def Let_def split: prod.splits bool.splits)

lemma send_messages_simps [simp]:
  "co_store (fold (send_message V) messages c) = co_store c"
  "co_proposed (fold (send_message V) messages c) = co_proposed c"
  "co_prepared (fold (send_message V) messages c) = co_prepared c"
  by (induction messages arbitrary: c) simp_all

lemma advance_stage_store:
  "advance_stage ready V c = (c', err) \<Longrightarrow> co_store c' = co_store c \<and> co_transport c' = co_transport c \<and> (cache_ok C c \<longrightarrow> cache_ok C c')"
  by (auto simp: advance_stage_def Let_def cache_ok_def split: if_splits)

section \<open>The history of a node\<close>

text \<open>
  Between two operations a node is idle; in a round it saves what raft handed out, installs a snapshot, sends
  the messages, applies the committed entries and reports back. A raft call may leave any state of the raft
  node. \<open>disks\<close> are the databases that a crash at this moment may leave; a node that failed or crashed is opened
  again from one of them, with a new raft node and connection.
\<close>

datatype 'msg phase =
    Idle
  | Saving "'msg FullReady"
  | Installing "'msg FullReady"
  | Sending "'msg FullReady"
  | Applying "'msg FullReady"
  | Advancing "'msg FullReady"

inductive interrupted ::
    "('db, 'raw, 'msg, 'net) coord_env \<Rightarrow> ('db, 'raw, 'net) Coordinator \<Rightarrow> 'msg phase \<Rightarrow> 'db Store \<Rightarrow> bool" for V c where
  in_no_call: "interrupted V c phase (co_store c)"
| in_snapshot: "CreateSnapshot (ce_storage V) (co_store c) = (s, p) \<Longrightarrow> interrupted V c Idle s"
| in_save: "SaveReady (ce_storage V) (co_store c) (Ready.truncate ready) = (s, r) \<Longrightarrow> interrupted V c (Saving ready) s"
| in_install: "InstallSnapshot (ce_storage V) (ce_procs V) (co_store c) (rd_Snapshot ready) = (s, r) \<Longrightarrow>
    interrupted V c (Installing ready) s"
| in_apply: "Coordinator_decodeCommitted (ce_codec V) (rd_CommittedEntries ready) c = (d, Inr entries) \<Longrightarrow>
    ApplyCommitted (ce_storage V) (ce_procs V) (co_store c) entries = (s, q) \<Longrightarrow> interrupted V c (Applying ready) s"

inductive coord_history ::
    "('db, 'raw, 'msg, 'net) coord_env \<Rightarrow> ('db, 'raw, 'net) Coordinator \<Rightarrow> ('db, 'raw, 'net) Coordinator \<Rightarrow> 'msg phase \<Rightarrow>
     'db set \<Rightarrow> bool" for V start where
  h_start: "coord_history V start start Idle {so_db (co_store start)}"
| h_raft: "coord_history V start c Idle D \<Longrightarrow> coord_history V start (c\<lparr>co_raw := raw\<rparr>) Idle D"
| h_stage: "coord_history V start c Idle D \<Longrightarrow> stageLogBatches batches V c = (c', err) \<Longrightarrow> coord_history V start c' Idle D"
| h_prepare: "coord_history V start c Idle D \<Longrightarrow> Store_Prepare (ce_storage V) (ce_encoder V) (co_store c) commands = (s, b) \<Longrightarrow>
    coord_history V start (c\<lparr>co_store := s\<rparr>) Idle (insert (so_db s) D)"
| h_snapshot: "coord_history V start c Idle D \<Longrightarrow> Coordinator_CreateSnapshot V c = (c', Inr snapshot) \<Longrightarrow>
    coord_history V start c' Idle {so_db (co_store c')}"
| h_reads: "coord_history V start c Idle D \<Longrightarrow> TakeReadStates c = (states, c') \<Longrightarrow> coord_history V start c' Idle D"
| h_outcomes: "coord_history V start c Idle D \<Longrightarrow> TakeOutcomes c = (outcomes, c') \<Longrightarrow> coord_history V start c' Idle D"
| h_status: "coord_history V start c Idle D \<Longrightarrow> coord_history V start (updateStatus V c) Idle D"
| h_ready: "coord_history V start c Idle D \<Longrightarrow> rn_HasReady (ce_raft V) (co_raw c) \<Longrightarrow> take_ready V c = (ready, c') \<Longrightarrow>
    coord_history V start c' (Saving ready) D"
| h_save: "coord_history V start c (Saving ready) D \<Longrightarrow> save_stage ready V c = (c', None) \<Longrightarrow>
    coord_history V start c' (Installing ready)
      (if ready_syncs (ce_storage V) (co_store c) (Ready.truncate ready) then {so_db (co_store c')}
       else insert (so_db (co_store c')) D)"
| h_install: "coord_history V start c (Installing ready) D \<Longrightarrow> install_stage ready V c = (c', None) \<Longrightarrow>
    coord_history V start c' (Sending ready)
      (if io_isEmptySnap (ce_storage V) (rd_Snapshot ready) then D
       else if so_applied (co_store c) < sn_Index (rd_Snapshot ready) then {so_db (co_store c')}
       else insert (so_db (co_store c')) D)"
| h_send: "coord_history V start c (Sending ready) D \<Longrightarrow> send_stage ready V c = (c', None) \<Longrightarrow>
    coord_history V start c' (Applying ready) D"
| h_apply: "coord_history V start c (Applying ready) D \<Longrightarrow> apply_stage ready V c = (c', None) \<Longrightarrow>
    coord_history V start c' (Advancing ready) (if rd_CommittedEntries ready = [] then D else {so_db (co_store c')})"
| h_advance: "coord_history V start c (Advancing ready) D \<Longrightarrow> advance_stage ready V c = (c', None) \<Longrightarrow>
    coord_history V start c' Idle D"
| h_crash: "coord_history V start c phase D \<Longrightarrow> interrupted V c phase s \<Longrightarrow> so_db v \<in> insert (so_db s) D \<Longrightarrow>
    load (ce_storage V) (ce_procs V) v voters = Inr w \<Longrightarrow>
    coord_history V start (new_coordinator i (attachEngine (ce_storage V) w) raw net) Idle {so_db w}"

text \<open>A round of the code is a round of the history.\<close>

lemma run_stages_None:
  "run_stages (stage # stages) c = (c', None) \<longleftrightarrow> (\<exists>d. stage c = (d, None) \<and> run_stages stages d = (c', None))"
  by (auto split: prod.splits option.splits)

lemma ready_round_history:
  assumes "coord_history V start c Idle D" "rn_HasReady (ce_raft V) (co_raw c)" "ready_round V c = (c', None)"
  shows "\<exists>D'. coord_history V start c' Idle D'"
proof -
  obtain ready c0 where take: "take_ready V c = (ready, c0)" by (cases "take_ready V c")
  with assms(3) obtain c1 c2 c3 c4 where
    s: "save_stage ready V c0 = (c1, None)" "install_stage ready V c1 = (c2, None)" "send_stage ready V c2 = (c3, None)"
      "apply_stage ready V c3 = (c4, None)" "advance_stage ready V c4 = (c', None)"
    by (auto simp: ready_round_def round_stages_def run_stages_None simp del: run_stages.simps(2))
  from h_advance [OF h_apply [OF h_send [OF h_install [OF h_save [OF h_ready [OF assms(1,2) take] s(1)] s(2)] s(3)] s(4)] s(5)]
  show ?thesis by blast
qed

section \<open>The disk before the messages\<close>

definition entry_saved :: "'db storage_env \<Rightarrow> ('db \<Rightarrow> contents) \<Rightarrow> 'db \<Rightarrow> Entry \<Rightarrow> bool" where
  "entry_saved E view d entry \<longleftrightarrow>
     pr_Marshal (io_entry E) entry \<noteq> None \<and>
     view d (numberKey log_prefix (le_Index entry)) = pr_Marshal (io_entry E) entry"

text \<open>What a \<^verbatim>\<open>Ready\<close> asks for is in memory, and its entries are in every database a crash may leave.\<close>

definition ready_saved :: "'db storage_env \<Rightarrow> ('db \<Rightarrow> contents) \<Rightarrow> Ready \<Rightarrow> 'db Store \<Rightarrow> 'db set \<Rightarrow> bool" where
  "ready_saved E view ready s D \<longleftrightarrow>
     (\<not> io_isEmptyHardState E (rd_HardState ready) \<longrightarrow> so_hard s = rd_HardState ready) \<and>
     (\<forall>entry \<in> set (rd_Entries ready). sn_Index (so_snapshot s) < le_Index entry \<longrightarrow> (\<forall>d \<in> D. entry_saved E view d entry))"

lemma keep_entries_filter: "keep_entries base n es = Inr (m, kept) \<Longrightarrow> kept = filter (\<lambda>e. \<not> le_Index e < base) es"
  by (induction base n es arbitrary: m kept rule: keep_entries.induct) (auto simp: result_simps Let_def split: if_splits)

lemma run_ops_entries:
  assumes "distinct (map le_Index kept)" "entry \<in> set kept"
  shows "run_ops (map (\<lambda>e. OpSet (fst (disk_pair E e)) (snd (disk_pair E e))) kept) m (numberKey log_prefix (le_Index entry)) =
    Some (snd (disk_pair E entry))"
  using assms
proof (induction kept arbitrary: m)
  case (Cons e kept)
  show ?case
  proof (cases "entry \<in> set kept")
    case True
    with Cons.IH Cons.prems show ?thesis by simp
  next
    case False
    with Cons.prems have e: "entry = e" "\<forall>x \<in> set kept. le_Index x \<noteq> le_Index e" by (auto simp: image_iff)
    have "run_ops (map (\<lambda>e. OpSet (fst (disk_pair E e)) (snd (disk_pair E e))) kept) m' (numberKey log_prefix (le_Index e)) =
        m' (numberKey log_prefix (le_Index e))" for m'
      by (rule run_ops_untouched) (use e(2) in \<open>auto simp: disk_pair_def\<close>)
    then show ?thesis by (simp add: e(1)) (simp add: disk_pair_def)
  qed
qed simp

lemma SaveReady_Inr:
  assumes "SaveReady E s ready = (s', Inr ())" "\<not> ready_empty E ready"
  obtains plan db where "plan_ready E s ready = Inr plan"
    "pb_Commit (io_pebble E) (so_db s) (raftWriteOptions ready (rp_changed plan) (length (rp_kept plan)) (so_hard s) (rp_hard plan))
       (rp_ops plan) = Inr db"
    "s' = install_plan plan (s\<lparr>so_db := db\<rparr>)"
  using assms by (auto simp: SaveReady_def Let_def split: sum.splits)

lemma SaveReady_saved:
  assumes P: "pebble_ok (io_pebble E) view" and ok: "ready_ok ready" and save: "SaveReady E s ready = (s', Inr ())"
    and I: "raft_inv E view s'"
  shows "ready_saved E view ready s' (if ready_syncs E s ready then {so_db s'} else insert (so_db s') D)"
proof (cases "ready_empty E ready")
  case True
  then show ?thesis by (simp add: ready_saved_def ready_empty_def)
next
  case False
  from save False obtain plan db where plan: "plan_ready E s ready = Inr plan"
    and commit: "pb_Commit (io_pebble E) (so_db s)
      (raftWriteOptions ready (rp_changed plan) (length (rp_kept plan)) (so_hard s) (rp_hard plan)) (rp_ops plan) = Inr db"
    and s': "s' = install_plan plan (s\<lparr>so_db := db\<rparr>)"
    by (rule SaveReady_Inr)
  from plan obtain len n sets entries hard where
    keep: "keep_entries (sn_Index (rp_snapshot plan) + 1) len (rd_Entries ready) = Inr (n, rp_kept plan)"
    and nh: "next_hard E s ready = Inr (rp_hard plan)"
    and enc: "encode_entries E (rp_kept plan) = Inr entries"
    and ops: "rp_ops plan = log_cut (sn_Index (so_snapshot s) + of_nat (length (so_entryTerms s)))
        (rp_changed plan) (rp_kept plan) @ sets @ entries @ hard"
    and hard: "hard = [] \<and> rp_hard plan = so_hard s \<or>
       (\<exists>data. hard = [OpSet hardStateKey data] \<and> pr_Marshal (io_hard E) (rp_hard plan) = Some data)"
    by (rule plan_ready_Inr)
  have snap: "so_snapshot s' = rp_snapshot plan" "so_hard s' = rp_hard plan" "so_db s' = db"
    by (simp_all add: s' install_plan_def Let_def)
  have bound: "unat (sn_Index (rp_snapshot plan)) + 1 < 2 ^ 64" using I snap by (simp add: raft_inv_def raft_durable_def)
  have kept: "entry \<in> set (rp_kept plan)" if "entry \<in> set (rd_Entries ready)" "sn_Index (rp_snapshot plan) < le_Index entry" for entry
  proof -
    have "unat (sn_Index (rp_snapshot plan) + 1) = unat (sn_Index (rp_snapshot plan)) + 1"
      using unat_add_of_nat [of "sn_Index (rp_snapshot plan)" 1] bound by simp
    with that keep_entries_filter [OF keep] show ?thesis by (auto simp: word_less_nat_alt)
  qed
  from ok obtain q where q: "runs q (rd_Entries ready)" "unat q + length (rd_Entries ready) < 2 ^ 64" by (auto simp: ready_ok_def)
  have "distinct (map le_Index (rd_Entries ready))"
    using runs_sorted [OF q] by (simp add: strict_sorted_iff)
  then have distinct: "distinct (map le_Index (rp_kept plan))"
    by (simp add: keep_entries_filter [OF keep] distinct_map_filter)
  have e: "entries = map (\<lambda>e. OpSet (fst (disk_pair E e)) (snd (disk_pair E e))) (rp_kept plan)"
    "\<forall>e \<in> set (rp_kept plan). pr_Marshal (io_entry E) e \<noteq> None"
    using encode_entries_Inr [OF enc] by simp_all
  have on_disk: "entry_saved E view db entry" if "entry \<in> set (rp_kept plan)" for entry
  proof -
    have "numberKey log_prefix (le_Index entry) \<noteq> hardStateKey" by (simp add: numberKey_def meta_keys log_prefix_def)
    then have "run_ops hard m (numberKey log_prefix (le_Index entry)) = m (numberKey log_prefix (le_Index entry))" for m
      using hard by (auto simp: run_ops_def)
    then have "view db (numberKey log_prefix (le_Index entry)) = Some (snd (disk_pair E entry))"
      unfolding pebble_commit [OF P commit] ops e(1) using run_ops_entries [OF distinct that] by simp
    with e(2) that show ?thesis by (auto simp: entry_saved_def disk_pair_def)
  qed
  have "ready_syncs E s ready" if "rp_kept plan \<noteq> []"
    using that False plan by (simp add: ready_syncs_def raftWriteOptions_def)
  moreover have "so_hard s' = rd_HardState ready" if "\<not> io_isEmptyHardState E (rd_HardState ready)"
    using nh that snap by (auto simp: next_hard_def split: if_splits)
  moreover have "rp_kept plan \<noteq> []" if "entry \<in> set (rd_Entries ready)" "sn_Index (rp_snapshot plan) < le_Index entry" for entry
    using kept [OF that] by auto
  ultimately show ?thesis using kept on_disk snap by (auto simp: ready_saved_def)
qed

section \<open>The invariant of a history\<close>

text \<open>What the raft library promises: the entries it hands out are consecutive, and no index overflows.\<close>

definition raft_ok :: "('db, 'raw, 'msg) raw_node \<Rightarrow> bool" where
  "raft_ok R \<longleftrightarrow> (\<forall>s raw. ready_ok (Ready.truncate (fst (rn_Ready R s raw))))"

definition phase_inv :: "'db storage_env \<Rightarrow> ('db \<Rightarrow> contents) \<Rightarrow> 'msg phase \<Rightarrow> 'db Store \<Rightarrow> 'db set \<Rightarrow> bool" where
  "phase_inv E view phase s D =
     (case phase of
        Saving ready \<Rightarrow> ready_ok (Ready.truncate ready)
      | Installing ready \<Rightarrow> ready_saved E view (Ready.truncate ready) s D
      | Sending ready \<Rightarrow> ready_saved E view (Ready.truncate ready) s D
      | _ \<Rightarrow> True)"

definition history_inv ::
    "('db, 'raw, 'msg, 'net) coord_env \<Rightarrow> ('db \<Rightarrow> contents) \<Rightarrow> ('db, 'raw, 'net) Coordinator \<Rightarrow> 'msg phase \<Rightarrow> 'db set \<Rightarrow> bool" where
  "history_inv V view c phase D \<longleftrightarrow>
     disk_inv (ce_storage V) view (co_store c) D \<and> phase_inv (ce_storage V) view phase (co_store c) D"

lemma save_stage_call:
  assumes "save_stage ready V c = (c', None)"
  shows "SaveReady (ce_storage V) (co_store c) (Ready.truncate ready) = (co_store c', Inr ())"
    "co_proposed c' = co_proposed c" "co_prepared c' = co_prepared c"
  using assms by (auto simp: save_stage_def split: prod.splits sum.splits)

lemma install_stage_call:
  assumes "install_stage ready V c = (c', None)" "\<not> io_isEmptySnap (ce_storage V) (rd_Snapshot ready)"
  shows "InstallSnapshot (ce_storage V) (ce_procs V) (co_store c) (rd_Snapshot ready) = (co_store c', Inr ())"
    "co_proposed c' = co_proposed c" "co_prepared c' = co_prepared c"
  using assms by (auto simp: install_stage_def split: prod.splits sum.splits)

lemma apply_stage_call:
  assumes "apply_stage ready V c = (c', None)" "cache_ok (ce_codec V) c"
  shows "\<exists>entries. decodeCommitted (ce_codec V) (rd_CommittedEntries ready) = Inr entries \<and>
      (if entries = [] then co_store c' = co_store c
       else \<exists>outcomes. ApplyCommitted (ce_storage V) (ce_procs V) (co_store c) entries = (co_store c', Inr outcomes)) \<and>
      cache_ok (ce_codec V) c'"
proof -
  obtain d r where d: "Coordinator_decodeCommitted (ce_codec V) (rd_CommittedEntries ready) c = (d, r)"
    by (cases "Coordinator_decodeCommitted (ce_codec V) (rd_CommittedEntries ready) c")
  from cached_decode [OF assms(2), of "rd_CommittedEntries ready"] d
  have r: "r = decodeCommitted (ce_codec V) (rd_CommittedEntries ready)" and ok: "cache_ok (ce_codec V) d" "co_store d = co_store c"
    by simp_all
  with assms(1) d show ?thesis
    by (cases r) (auto simp: apply_stage_def cache_ok_def split: if_splits prod.splits sum.splits)
qed

lemma decodeCommitted_length: "decodeCommitted C entries = Inr as \<Longrightarrow> length as = length entries"
  by (induction entries arbitrary: as) (auto simp: decodeCommitted_Cons result_simps, simp add: decodeCommitted_def)

text \<open>The cache holds over every history, whatever the disk and the raft node do.\<close>

lemma history_cache:
  assumes L: "log_codec_ok (ce_codec V)" and I: "cache_ok (ce_codec V) start" and H: "coord_history V start c phase D"
  shows "cache_ok (ce_codec V) c"
  using H
proof (induction rule: coord_history.induct)
  case h_start
  show ?case by (rule I)
next
  case (h_stage c D batches c' err)
  then show ?case using stageLogBatches_cache [OF L _ h_stage.hyps(2)] by blast
next
  case (h_snapshot c D c' snapshot)
  then show ?case by (auto simp: Coordinator_CreateSnapshot_def cache_ok_def split: if_splits prod.splits sum.splits)
next
  case (h_ready c D ready c')
  then show ?case using take_ready_store(4) [OF h_ready.hyps(3)] by blast
next
  case (h_save c ready D c')
  then show ?case using save_stage_call(2,3) [OF h_save.hyps(2)] by (simp add: cache_ok_def)
next
  case (h_install c ready D c')
  then show ?case using install_stage_call(2,3) [OF h_install.hyps(2)]
    by (cases "io_isEmptySnap (ce_storage V) (rd_Snapshot ready)") (auto simp: cache_ok_def install_stage_def)
next
  case (h_apply c ready D c')
  then show ?case using apply_stage_call [OF h_apply.hyps(2)] by blast
next
  case (h_advance c ready D c')
  then show ?case using advance_stage_store [OF h_advance.hyps(2)] by blast
qed (auto simp: cache_ok_def send_stage_def new_coordinator_def TakeReadStates_def TakeOutcomes_def)

lemma interrupted_call:
  assumes "interrupted V c phase s" "phase_inv (ce_storage V) view phase (co_store c) D"
  shows "\<exists>ok sync. store_call (ce_storage V) (ce_procs V) (co_store c) s ok sync"
  using assms(1)
proof (cases rule: interrupted.cases)
  case in_no_call
  have "applyEntries (ce_storage V) (ce_procs V) (co_store c) [] 0 True = (co_store c, Inr [])"
    by (simp add: applyEntries_def)
  from store_call.apply_entries [OF this] in_no_call show ?thesis by blast
next
  case (in_snapshot p)
  then show ?thesis using store_call.create_snapshot by blast
next
  case (in_save ready r)
  with assms(2) show ?thesis using store_call.save_ready by (fastforce simp: phase_inv_def)
next
  case (in_install ready r)
  then show ?thesis using store_call.install_snapshot by blast
next
  case (in_apply ready d entries q)
  then show ?thesis using store_call.apply_entries unfolding ApplyCommitted_def by blast
qed


lemma raft_key_log [simp]: "raft_key (numberKey log_prefix index)"
  by (simp add: raft_key_def numberKey_def)

lemma install_keeps_saved:
  assumes P: "pebble_ok (io_pebble E) view" and inst: "InstallSnapshot E procs s snapshot = (s', Inr ())"
    and saved: "ready_saved E view ready s D" and db: "so_db s \<in> D"
  shows "ready_saved E view ready s' (if so_applied s < sn_Index snapshot then {so_db s'} else insert (so_db s') D)"
proof (cases "so_applied s < sn_Index snapshot")
  case True
  have k: "keeps_raft view s s'" by (rule installSnapshot_keeps [OF P inst [unfolded InstallSnapshot_def]])
  then have "so_hard s' = so_hard s" "so_snapshot s' = so_snapshot s" by (simp_all add: keeps_raft_def raft_part_def)
  moreover have "view (so_db s') (numberKey log_prefix index) = view (so_db s) (numberKey log_prefix index)" for index
    using k by (simp add: keeps_raft_def)
  ultimately show ?thesis using saved db True by (simp add: ready_saved_def entry_saved_def)
next
  case False
  then have "s' = s" using inst by (simp add: InstallSnapshot_def installSnapshot_def not_less)
  with saved db False show ?thesis by (simp add: insert_absorb)
qed

lemma history_invariant:
  assumes P: "pebble_ok (io_pebble (ce_storage V)) view" and C: "raft_codecs_ok (ce_storage V)" and R: "raft_ok (ce_raft V)"
    and L: "log_codec_ok (ce_codec V)" and cache: "cache_ok (ce_codec V) start"
    and I: "raft_inv (ce_storage V) view (co_store start)" and H: "coord_history V start c phase D"
  shows "history_inv V view c phase D"
  using H
proof (induction rule: coord_history.induct)
  case h_start
  then show ?case using I by (simp add: history_inv_def phase_inv_def disk_inv_single)
next
  case (h_raft c D raw)
  then show ?case by (simp add: history_inv_def phase_inv_def)
next
  case (h_stage c D batches c' err)
  then show ?case using stageLogBatches_store [OF h_stage.hyps(2)]
    by (simp add: history_inv_def phase_inv_def)
next
  case (h_prepare c D commands s b)
  from disk_inv_call [OF P _ store_call.prepare [OF h_prepare.hyps(2)], of D] h_prepare.IH
  show ?case by (simp add: history_inv_def phase_inv_def)
next
  case (h_snapshot c D c' snapshot)
  then have "CreateSnapshot (ce_storage V) (co_store c) = (co_store c', Inr snapshot)"
    by (auto simp: Coordinator_CreateSnapshot_def split: if_splits prod.splits sum.splits)
  with disk_inv_call [OF P _ store_call.create_snapshot [OF this, simplified], of D] h_snapshot.IH
  show ?case by (simp add: history_inv_def phase_inv_def)
next
  case (h_reads c D states c')
  then show ?case by (auto simp: history_inv_def phase_inv_def TakeReadStates_def)
next
  case (h_outcomes c D outcomes c')
  then show ?case by (auto simp: history_inv_def phase_inv_def TakeOutcomes_def)
next
  case (h_status c D)
  then show ?case by (simp add: history_inv_def phase_inv_def)
next
  case (h_ready c D ready c')
  then show ?case using take_ready_store [OF h_ready.hyps(3)] R by (simp add: history_inv_def phase_inv_def raft_ok_def)
next
  case (h_save c ready D c')
  note save = save_stage_call [OF h_save.hyps(2)]
  have ok: "ready_ok (Ready.truncate ready)" using h_save.IH by (simp add: history_inv_def phase_inv_def)
  from disk_inv_call [OF P _ store_call.save_ready [OF save(1) ok, simplified], of D] h_save.IH
  have disk: "disk_inv (ce_storage V) view (co_store c') (if ready_syncs (ce_storage V) (co_store c) (Ready.truncate ready)
      then {so_db (co_store c')} else insert (so_db (co_store c')) D)" by (simp add: history_inv_def)
  then have "raft_inv (ce_storage V) view (co_store c')" by (simp add: disk_inv_def)
  from SaveReady_saved [OF P ok save(1) this, of D] disk
  show ?case by (simp add: history_inv_def phase_inv_def)
next
  case (h_install c ready D c')
  show ?case
  proof (cases "io_isEmptySnap (ce_storage V) (rd_Snapshot ready)")
    case True
    with h_install show ?thesis by (simp add: install_stage_def history_inv_def phase_inv_def)
  next
    case False
    note inst = install_stage_call [OF h_install.hyps(2) False]
    from h_install.IH have h: "disk_inv (ce_storage V) view (co_store c) D" "so_db (co_store c) \<in> D"
      "ready_saved (ce_storage V) view (Ready.truncate ready) (co_store c) D"
      by (simp_all add: history_inv_def phase_inv_def disk_inv_def)
    from install_keeps_saved [OF P inst(1) h(3,2)]
      disk_inv_call [OF P h(1) store_call.install_snapshot [OF inst(1), simplified]] False
    show ?thesis by (simp add: history_inv_def phase_inv_def)
  qed
next
  case (h_send c ready D c')
  then show ?case by (auto simp: send_stage_def history_inv_def phase_inv_def)
next
  case (h_apply c ready D c')
  from apply_stage_call [OF h_apply.hyps(2) history_cache [OF L cache h_apply.hyps(1)]] obtain entries where
    e: "decodeCommitted (ce_codec V) (rd_CommittedEntries ready) = Inr entries"
    and s: "if entries = [] then co_store c' = co_store c
      else \<exists>outcomes. ApplyCommitted (ce_storage V) (ce_procs V) (co_store c) entries = (co_store c', Inr outcomes)" by blast
  have empty: "entries = [] \<longleftrightarrow> rd_CommittedEntries ready = []" using decodeCommitted_length [OF e] by auto
  show ?case
  proof (cases "entries = []")
    case True
    with s empty h_apply.IH show ?thesis by (simp add: history_inv_def phase_inv_def)
  next
    case False
    with s obtain outcomes where a: "ApplyCommitted (ce_storage V) (ce_procs V) (co_store c) entries = (co_store c', Inr outcomes)" by auto
    from disk_inv_call [OF P _ store_call.apply_entries [OF a [unfolded ApplyCommitted_def], simplified], of D] h_apply.IH False empty
    show ?thesis by (simp add: history_inv_def phase_inv_def)
  qed
next
  case (h_advance c ready D c')
  then show ?case using advance_stage_store [OF h_advance.hyps(2)] by (simp add: history_inv_def phase_inv_def)
next
  case (h_crash c phase D s v voters w i raw net)
  then have h: "disk_inv (ce_storage V) view (co_store c) D"
    "phase_inv (ce_storage V) view phase (co_store c) D" by (simp_all add: history_inv_def)
  from interrupted_call [OF h_crash.hyps(2) h(2)] obtain ok sync where
    "store_call (ce_storage V) (ce_procs V) (co_store c) s ok sync" by blast
  from disk_inv_crash [OF P C h(1) this h_crash.hyps(3,4)] have "raft_inv (ce_storage V) view w" by (simp add: disk_inv_def)
  then have "raft_inv (ce_storage V) view (attachEngine (ce_storage V) w)" by (simp add: attachEngine_def)
  from disk_inv_single [OF this] show ?case
    by (simp add: history_inv_def phase_inv_def new_coordinator_def) (simp add: attachEngine_def)
qed


section \<open>The operations follow the history\<close>

text \<open>
  The operations that refuse to work on a node that has failed, and \<^verbatim>\<open>CreateSnapshot\<close>, which does not look. A
  snapshot that is out of date is no failure; no failpoint pretends to be one.
\<close>

inductive coord_call ::
    "('db, 'raw, 'msg, 'net) coord_env \<Rightarrow> ('db, 'raw, 'net) Coordinator \<Rightarrow> ('db, 'raw, 'net) Coordinator \<Rightarrow> bool" for V c where
  o_campaign: "Coordinator_Campaign V c = Some (c', r) \<Longrightarrow> coord_call V c c'"
| o_tick: "Coordinator_Tick V c = Some (c', r) \<Longrightarrow> coord_call V c c'"
| o_step: "StepContext message V c = Some (c', r) \<Longrightarrow> coord_call V c c'"
| o_read: "ReadIndexContext token V c = Some (c', r) \<Longrightarrow> coord_call V c c'"
| o_report_snapshot: "Coordinator_ReportSnapshot nodeID success V c = Some (c', r) \<Longrightarrow> coord_call V c c'"
| o_report_unreachable: "Coordinator_ReportUnreachable nodeID V c = Some (c', r) \<Longrightarrow> coord_call V c c'"
| o_process: "ProcessReady V c = Some (c', r) \<Longrightarrow> coord_call V c c'"
| o_propose: "ProposeContext V commands c = Some (c', q) \<Longrightarrow> coord_call V c c'"
| o_stage: "stagePreparedGroup proposals V c = (c', r) \<Longrightarrow> coord_call V c c'"
| o_read_states: "TakeReadStates c = (states, c') \<Longrightarrow> coord_call V c c'"
| o_outcomes: "TakeOutcomes c = (outcomes, c') \<Longrightarrow> coord_call V c c'"

inductive coord_operation ::
    "('db, 'raw, 'msg, 'net) coord_env \<Rightarrow> ('db, 'raw, 'net) Coordinator \<Rightarrow> ('db, 'raw, 'net) Coordinator \<Rightarrow> bool" for V c where
  o_call: "coord_call V c c' \<Longrightarrow> coord_operation V c c'"
| o_snapshot: "Coordinator_CreateSnapshot V c = (c', p) \<Longrightarrow>
    so_failpoint (co_store c) SnapshotAfterSync \<noteq> Some ErrSnapOutOfDate \<Longrightarrow> coord_operation V c c'"

lemma ready_loop_history:
  assumes "ready_loop V c = Some y" "snd y = None" "coord_history V start c Idle D"
  shows "\<exists>D'. coord_history V start (fst y) Idle D'"
proof -
  have "snd y = None \<longrightarrow> (\<forall>start D. coord_history V start c Idle D \<longrightarrow> (\<exists>D'. coord_history V start (fst y) Idle D'))"
  proof (rule ready_loop.raw_induct [OF _ assms(1)], intro impI allI)
    fix loop V c y start D
    assume IH: "\<And>V c y. loop V c = Some y \<Longrightarrow>
        snd y = None \<longrightarrow> (\<forall>start D. coord_history V start c Idle D \<longrightarrow> (\<exists>D'. coord_history V start (fst y) Idle D'))"
      and eq: "(if rn_HasReady (ce_raft V) (co_raw c)
         then (case ready_round V c of (c, None) \<Rightarrow> loop V c | (c, Some e) \<Rightarrow> Some (c, Some e))
         else Some (updateStatus V c, None)) = Some y"
      and fin: "snd y = None" and H: "coord_history V start c Idle D"
    show "\<exists>D'. coord_history V start (fst y) Idle D'"
    proof (cases "rn_HasReady (ce_raft V) (co_raw c)")
      case True
      obtain d err where round: "ready_round V c = (d, err)" by (cases "ready_round V c")
      with eq fin True have d: "ready_round V c = (d, None)" "loop V d = Some y" by (cases err; auto)+
      from ready_round_history [OF H True d(1)] IH [OF d(2)] fin show ?thesis by blast
    next
      case False
      with eq h_status [OF H] show ?thesis by auto
    qed
  qed
  with assms(2,3) show ?thesis by blast
qed

lemma ProcessReady_history:
  assumes "ProcessReady V c = Some (c', r)" "co_fatal c' = None" "coord_history V start c Idle D"
  shows "\<exists>D'. coord_history V start c' Idle D'"
proof -
  from assms(1,2) obtain y where "ready_loop V c = Some y" "snd y = None" "fst y = c'"
    by (auto simp: ProcessReady_def split: if_splits option.splits prod.splits)
  with ready_loop_history [OF _ _ assms(3)] show ?thesis by blast
qed

lemma after_raw_history:
  assumes "after_raw q V c = Some (c', r)" "co_fatal c' = None" "coord_history V start c Idle D"
  shows "\<exists>D'. coord_history V start c' Idle D'"
proof (cases q)
  case (Pair raw err)
  with assms ProcessReady_history [OF _ assms(2) h_raft [OF assms(3)]] h_raft [OF assms(3), of raw] show ?thesis
    by (cases err) (auto simp: after_raw_def)
qed

lemma stagePreparedGroup_cases:
  "stagePreparedGroup proposals V c = (c', r) \<Longrightarrow> c' = c \<or> (\<exists>batches. stageLogBatches batches V c = (c', r))"
  by (auto simp: stagePreparedGroup_def Let_def split: if_splits sum.splits)

lemma ProposeContext_history:
  assumes "ProposeContext V commands c = Some (c', q)" "co_fatal c' = None" and H: "coord_history V start c Idle D"
  shows "\<exists>D'. coord_history V start c' Idle D'"
proof (cases "checkProposal V c commands")
  case (Inl e)
  with assms(1) H show ?thesis by (auto simp: ProposeContext_def)
next
  case (Inr u)
  obtain s b where prep: "Store_Prepare (ce_storage V) (ce_encoder V) (co_store c) commands = (s, b)"
    by (cases "Store_Prepare (ce_storage V) (ce_encoder V) (co_store c) commands")
  note H' = h_prepare [OF H prep]
  show ?thesis
  proof (cases b)
    case (Inl e)
    with assms(1) prep Inr H' show ?thesis by (auto simp: ProposeContext_def)
  next
    case b: (Inr x)
    obtain batches immediate where x: "x = (batches, immediate)" by (cases x)
    from assms(1) prep Inr b x obtain r where "proposeBatchesContext batches V (c\<lparr>co_store := s\<rparr>) = Some (c', r)"
      by (auto simp: ProposeContext_def)
    then consider "c' = c\<lparr>co_store := s\<rparr>"
      | d e where "stageLogBatches [\<lparr>lg_Version = LogBatchVersion, lg_Commands = batches\<rparr>] V (c\<lparr>co_store := s\<rparr>) = (d, e)"
        "c' = d \<or> ProcessReady V d = Some (c', r)"
      by (auto simp: proposeBatchesContext_def split: if_splits prod.splits option.splits)
    then show ?thesis
    proof cases
      case 1
      with H' show ?thesis by blast
    next
      case 2
      from h_stage [OF H' 2(1)] 2(2) ProcessReady_history [OF _ assms(2)] show ?thesis by blast
    qed
  qed
qed

lemma CreateSnapshot_refused:
  assumes "CreateSnapshot E s = (s', Inl ErrSnapOutOfDate)" "so_failpoint s SnapshotAfterSync \<noteq> Some ErrSnapOutOfDate"
  shows "s' = s"
  using assms by (auto simp: CreateSnapshot_def Let_def hit_def split: sum.splits option.splits prod.splits if_splits)

lemma call_history:
  assumes op: "coord_call V c c'" and ok: "co_fatal c' = None" and H: "coord_history V start c Idle D"
  shows "\<exists>D'. coord_history V start c' Idle D'"
  using op
proof (cases rule: coord_call.cases)
  case (o_stage proposals r)
  from stagePreparedGroup_cases [OF this] h_stage [OF H] H show ?thesis by blast
next
  case (o_process r)
  from ProcessReady_history [OF this ok H] show ?thesis .
next
  case (o_propose commands q)
  from ProposeContext_history [OF this ok H] show ?thesis .
next
  case (o_outcomes outcomes)
  from h_outcomes [OF H this] show ?thesis by blast
next
  case (o_read_states states)
  from h_reads [OF H this] show ?thesis by blast
qed (use H ok after_raw_history [OF _ ok H] in \<open>auto simp: Coordinator_Campaign_def Coordinator_Tick_def StepContext_def ReadIndexContext_def
  Coordinator_ReportSnapshot_def Coordinator_ReportUnreachable_def guarded_def split: if_splits option.splits\<close>)

lemma operation_history:
  assumes op: "coord_operation V c c'" and ok: "co_fatal c' = None" and H: "coord_history V start c Idle D"
  shows "\<exists>D'. coord_history V start c' Idle D'"
  using op
proof (cases rule: coord_operation.cases)
  case o_call
  from call_history [OF this ok H] show ?thesis .
next
  case (o_snapshot p)
  show ?thesis
  proof (cases p)
    case (Inr snapshot)
    with o_snapshot h_snapshot [OF H] show ?thesis by blast
  next
    case (Inl e)
    with o_snapshot ok have "c' = c" using CreateSnapshot_refused [of "ce_storage V" "co_store c"]
      by (auto simp: Coordinator_CreateSnapshot_def split: if_splits prod.splits sum.splits)
    with H show ?thesis by blast
  qed
qed

section \<open>A node that has failed\<close>

definition failed :: "('db, 'raw, 'net) Coordinator \<Rightarrow> bool" where
  "failed c \<longleftrightarrow> co_stopped c \<or> co_fatal c \<noteq> None"

lemma failed_refuses: "failed c \<Longrightarrow> \<exists>e. checkStagedProposalState V c = Inl e"
  by (cases "co_fatal c") (auto simp: failed_def checkStagedProposalState_def)

lemma failed_call:
  assumes "coord_call V c c'" "failed c"
  shows "failed c' \<and> co_store c' = co_store c \<and> co_raw c' = co_raw c \<and> co_transport c' = co_transport c"
  using assms(1)
proof (cases rule: coord_call.cases)
  case (o_propose commands q)
  with assms(2) failed_refuses [OF assms(2), of V] show ?thesis
    by (auto simp: ProposeContext_def checkProposal_def checkStagedProposal_def)
next
  case (o_stage proposals r)
  with assms(2) failed_refuses [OF assms(2), of V] show ?thesis by (auto simp: stagePreparedGroup_def split: if_splits)
qed (use assms(2) in \<open>auto simp: failed_def Coordinator_Campaign_def Coordinator_Tick_def StepContext_def ReadIndexContext_def
  Coordinator_ReportSnapshot_def Coordinator_ReportUnreachable_def ProcessReady_def TakeReadStates_def TakeOutcomes_def guarded_def
  split: if_splits option.splits\<close>)

lemma failed_calls:
  assumes "(coord_call V)\<^sup>*\<^sup>* c c'" "failed c"
  shows "failed c' \<and> co_store c' = co_store c \<and> co_raw c' = co_raw c \<and> co_transport c' = co_transport c"
  using assms by (induction rule: rtranclp_induct) (auto dest: failed_call)

end
