(* ===== verification/Chronos_Coordinator_Properties.thy ===== *)
theory Chronos_Coordinator_Properties
  imports Chronos_Coordinator_Laws Chronos_Raft_Properties
begin

text \<open>The properties of a node: the disk before the messages, the cache, the operations, and failure.\<close>

section \<open>The disk before the messages\<close>

lemma stored_ready:
  assumes P: "pebble_ok (io_pebble E) view" and C: "raft_codecs_ok E" and disk: "disk_inv E view s D"
    and saved: "ready_saved E view ready s D" and d: "d \<in> D" and v: "so_db v = d" and load: "load E procs v voters = Inr w"
  shows "(\<not> io_isEmptyHardState E (rd_HardState ready) \<longrightarrow>
      hs_Term (so_hard w) = hs_Term (rd_HardState ready) \<and> hs_Vote (so_hard w) = hs_Vote (rd_HardState ready)) \<and>
    so_snapshot w = so_snapshot s \<and> so_entryTerms w = so_entryTerms s"
proof -
  from disk d obtain r where r: "raft_inv E view r" "so_db r = d" "same_but_commit r s" by (auto simp: disk_inv_def)
  from load_inv(2) [OF P C r(1) _ load] v r(2) have "raft_part w = raft_part r" by simp
  with r(3) saved show ?thesis by (auto simp: raft_part_def same_but_commit_def ready_saved_def)
qed

lemma transport_changes_when_sent:
  assumes round: "ready_round V c = (c', r)" and take: "take_ready V c = (ready, c0)"
    and changed: "co_transport c' \<noteq> co_transport c"
  obtains c1 c2 where "save_stage ready V c0 = (c1, None)" "install_stage ready V c1 = (c2, None)"
    "co_transport c2 = co_transport c"
proof -
  have c0: "co_transport c0 = co_transport c" by (rule take_ready_store(2) [OF take])
  obtain c1 e1 where s1: "save_stage ready V c0 = (c1, e1)" by (cases "save_stage ready V c0")
  then have t1: "co_transport c1 = co_transport c" using c0 by (auto simp: save_stage_def split: prod.splits sum.splits)
  obtain c2 e2 where s2: "install_stage ready V c1 = (c2, e2)" by (cases "install_stage ready V c1")
  then have t2: "co_transport c2 = co_transport c"
    using t1 by (auto simp: install_stage_def split: if_splits prod.splits sum.splits)
  from round take s1 s2 changed t1 t2 have "e1 = None" "e2 = None"
    by (auto simp: ready_round_def round_stages_def split: option.splits)
  with s1 s2 t2 that show thesis by blast
qed

text \<open>
  C4. A \<^verbatim>\<open>Ready\<close> reaches the disk before any of its messages leave the node. A node is opened on an empty
  database and run through any history of operations, rounds of \<^verbatim>\<open>ProcessReady\<close>, snapshots, failures and
  crashes. Whenever a round touches the transport, the store has saved the \<^verbatim>\<open>Ready\<close> and installed its snapshot
  with the transport still untouched, and at that point every database a crash may leave holds the entries of
  the \<^verbatim>\<open>Ready\<close> that are beyond the snapshot, and loads to the term and the vote of the \<^verbatim>\<open>Ready\<close> and to the log in
  memory. The hypotheses: pebble, the record codecs and the log codec keep their contracts, and raft hands
  out consecutive entries.
\<close>

theorem messages_after_disk:
  fixes V :: "('db, 'raw, 'msg, 'net) coord_env"
  assumes "pebble_ok (io_pebble (ce_storage V)) view" "raft_codecs_ok (ce_storage V)" "raft_ok (ce_raft V)"
    and "log_codec_ok (ce_codec V)"
    and "opened (cf_Directory config) = Inr db" "view db = Map.empty"
    and "Open (ce_storage V) (ce_procs V) opened config = Inr s"
    and "coord_history V (new_coordinator i s raw net) c Idle D" "rn_HasReady (ce_raft V) (co_raw c)"
    and "take_ready V c = (ready, c0)" "ready_round V c = (c', r)" "co_transport c' \<noteq> co_transport c"
  shows "\<exists>c1 D1. run_stages [save_stage ready V, install_stage ready V] c0 = (c1, None) \<and>
    co_transport c1 = co_transport c \<and> coord_history V (new_coordinator i s raw net) c1 (Sending ready) D1 \<and>
    (\<forall>d \<in> D1.
       (\<forall>entry \<in> set (rd_Entries ready). sn_Index (so_snapshot (co_store c1)) < le_Index entry \<longrightarrow>
          entry_saved (ce_storage V) view d entry) \<and>
       (\<forall>v voters w. so_db v = d \<longrightarrow> load (ce_storage V) (ce_procs V) v voters = Inr w \<longrightarrow>
          (\<not> io_isEmptyHardState (ce_storage V) (rd_HardState ready) \<longrightarrow>
             hs_Term (so_hard w) = hs_Term (rd_HardState ready) \<and> hs_Vote (so_hard w) = hs_Vote (rd_HardState ready)) \<and>
          so_snapshot w = so_snapshot (co_store c1) \<and> so_entryTerms w = so_entryTerms (co_store c1)))"
proof -
  let ?start = "new_coordinator i s raw net"
  have start: "raft_inv (ce_storage V) view (co_store ?start)" "cache_ok (ce_codec V) ?start"
    using Open_new [OF assms(1,2,5-7)] by (simp_all add: new_coordinator_def cache_ok_def)
  from assms(11,10,12) obtain c1 c2 where st: "save_stage ready V c0 = (c1, None)" "install_stage ready V c1 = (c2, None)"
    "co_transport c2 = co_transport c" by (rule transport_changes_when_sent)
  from h_install [OF h_save [OF h_ready [OF assms(8,9,10)] st(1)] st(2)] obtain D1 where
    H: "coord_history V ?start c2 (Sending ready) D1" by blast
  from history_invariant [OF assms(1-4) start(2,1) H] have
    inv: "disk_inv (ce_storage V) view (co_store c2) D1" "ready_saved (ce_storage V) view (Ready.truncate ready) (co_store c2) D1"
    by (simp_all add: history_inv_def phase_inv_def)
  have "rd_HardState (Ready.truncate ready) = rd_HardState ready" "rd_Entries (Ready.truncate ready) = rd_Entries ready"
    by (simp_all add: Ready.truncate_def)
  with stored_ready [OF assms(1,2) inv, where procs = "ce_procs V"] inv(2) st H show ?thesis
    by (intro exI [of _ c2] exI [of _ D1]) (simp add: ready_saved_def)
qed

text \<open>
  A raft node with one thing to say: it votes for itself in term 2, appends one entry, and asks node 2 for its
  vote. Its state tells whether this has been handed out.
\<close>

definition demo_snappy :: snappy where
  "demo_snappy = \<lparr>sn_Encode = (\<lambda>d. d), sn_DecodedLen = (\<lambda>d. Some (int (length d))), sn_Decode = Some\<rparr>"

definition demo_full :: "uint64 FullReady" where
  "demo_full = Ready.extend demo_ready \<lparr>rd_Messages = [2], rd_CommittedEntries = [], rd_ReadStates = []\<rparr>"

definition demo_raft :: "('db, bool, uint64) raw_node" where
  "demo_raft =
     \<lparr>rn_New = (\<lambda>_ _ _. Inr True), rn_BasicStatus = (\<lambda>_. \<lparr>bs_Lead = 0, bs_Term = 2, bs_Commit = 1, bs_RaftState = StateCandidate\<rparr>),
      rn_HasReady = (\<lambda>raw. raw), rn_Ready = (\<lambda>_ raw. (demo_full, raw)), rn_Advance = (\<lambda>_ _ _. False),
      rn_Step = (\<lambda>_ _ raw. (raw, None)), rn_Campaign = (\<lambda>_ _. (True, None)), rn_Tick = (\<lambda>_ raw. raw),
      rn_ReadIndex = (\<lambda>_ _ raw. raw), rn_ReportUnreachable = (\<lambda>_ _ raw. raw), rn_ReportSnapshot = (\<lambda>_ _ _ raw. raw),
      rn_Prop = (\<lambda>i _. i), rn_To = (\<lambda>m. m), rn_IsSnap = (\<lambda>_. False)\<rparr>"

definition demo_codec :: "LogBatch \<Rightarrow> log_codec" where
  "demo_codec batch =
     \<lparr>lc_Gob = (\<lambda>b. if b = batch then Some ''b'' else None), lc_Ungob = (\<lambda>d. if d = ''b'' then Some (batch, True) else None),
      lc_Json = blank_json, lc_Snappy = demo_snappy, lc_Stream = (\<lambda>_ _. None)\<rparr>"

definition demo_log :: LogBatch where
  "demo_log = \<lparr>lg_Version = LogBatchVersion,
     lg_Commands = [\<lparr>cb_Version = CommandBatchVersion, cb_RequestID = ''r'', cb_RequestHash = ''h'', cb_WorkflowID = ''w'',
       cb_Events = [demo_event]\<rparr>]\<rparr>"

definition demo_node :: "((bytes \<times> bytes) list, bool, uint64, uint64 list) coord_env" where
  "demo_node = \<lparr>ce_storage = demo_env, ce_procs = 1, ce_encoder = (\<lambda>_. ''''), ce_codec = demo_codec demo_log, ce_raft = demo_raft,
     ce_Send = (\<lambda>message net. (net @ [message], True))\<rparr>"

lemma demo_codec_ok: "log_codec_ok (demo_codec batch)"
  by (simp add: log_codec_ok_def demo_codec_def demo_snappy_def snappy_ok_def)

lemma demo_full_simps [simp]:
  "Ready.truncate demo_full = demo_ready" "rd_Messages demo_full = [2]" "rd_CommittedEntries demo_full = []"
  "rd_ReadStates demo_full = []" "rd_Snapshot demo_full = demo_empty" "rd_Entries demo_full = [demo_entry]"
  "rd_HardState demo_full = snd demo_hards"
  by (simp_all add: demo_full_def demo_ready_def Ready.extend_def Ready.truncate_def)

lemma demo_raft_simps [simp]:
  "rn_HasReady demo_raft raw = raw" "rn_Ready demo_raft u raw = (demo_full, raw)" "rn_Advance demo_raft u ready raw = False"
  "rn_Tick demo_raft u raw = raw"
  by (simp_all add: demo_raft_def)

lemma demo_node_simps [simp]:
  "ce_storage demo_node = demo_env" "ce_procs demo_node = 1" "ce_raft demo_node = demo_raft"
  "ce_codec demo_node = demo_codec demo_log" "ce_Send demo_node message net = (net @ [message], True)"
  by (simp_all add: demo_node_def)

lemma demo_raft_ok: "raft_ok demo_raft"
  by (simp add: raft_ok_def demo_ready_ok)

lemma demo_save_ok:
  assumes "s = attachEngine demo_env (demo_store (\<lambda>_. None) demo_first m)"
  shows "SaveReady demo_env s demo_ready = (install_plan demo_plan (s\<lparr>so_db := demo_saved\<rparr>), Inr ())"
proof -
  have s: "so_hard s = fst demo_hards" "so_conf s = demo_conf" "so_snapshot s = demo_snapshot" "so_entryTerms s = []"
    "so_db s = demo_disk" "so_failpoint s = (\<lambda>_. None)"
    by (simp_all add: assms)
  have plan: "plan_ready demo_env s demo_ready = Inr demo_plan" by (rule demo_plan_ready) (simp_all add: s)
  have "\<not> ready_empty demo_env demo_ready" by (simp add: ready_empty_def demo_ready_def demo_env_def)
  moreover have "pb_Commit (io_pebble demo_env) (so_db s) sync (rp_ops demo_plan) = Inr demo_saved" for sync
    by (simp add: s demo_env_def alist_db_def demo_saved_def)
  ultimately show ?thesis unfolding SaveReady_def plan Let_def by (simp add: s hit_def)
qed

definition demo_new :: "durableMembership \<Rightarrow> ((bytes \<times> bytes) list, bool, uint64 list) Coordinator" where
  "demo_new m = new_coordinator 1 (attachEngine demo_env (demo_store (\<lambda>_. None) demo_first m)) True []"

lemma demo_new_simps [simp]:
  "co_raw (demo_new m) = True" "co_transport (demo_new m) = []" "co_fatal (demo_new m) = None" "co_stopped (demo_new m) = False"
  "co_store (demo_new m) = attachEngine demo_env (demo_store (\<lambda>_. None) demo_first m)"
  by (simp_all add: demo_new_def new_coordinator_def)

lemma demo_take: "take_ready demo_node (demo_new m) = (demo_full, demo_new m)"
  by (simp add: take_ready_def cacheReadyEntries_def cache_entry_def) (simp add: demo_new_def new_coordinator_def)

lemma demo_round:
  "\<exists>c'. ready_round demo_node (demo_new m) = (c', None) \<and> co_transport c' = [2] \<and> co_raw c' = False \<and> co_fatal c' = None"
proof -
  let ?s = "attachEngine demo_env (demo_store (\<lambda>_. None) demo_first m)"
  have save: "save_stage demo_full demo_node (demo_new m) =
      ((demo_new m)\<lparr>co_store := install_plan demo_plan (?s\<lparr>so_db := demo_saved\<rparr>)\<rparr>, None)" (is "_ = (?c, None)")
    using demo_save_ok [OF refl, of m] by (simp add: save_stage_def)
  have install: "install_stage demo_full demo_node ?c = (?c, None)"
    by (simp add: install_stage_def) (simp add: demo_env_def demo_empty_def)
  have send: "send_stage demo_full demo_node ?c = (?c\<lparr>co_transport := [2]\<rparr>, None)"
    by (simp add: send_stage_def send_message_def)
  have app: "apply_stage demo_full demo_node (?c\<lparr>co_transport := [2]\<rparr>) = (?c\<lparr>co_transport := [2]\<rparr>, None)"
    by (simp add: apply_stage_def Coordinator_decodeCommitted_def)
  show ?thesis
    by (simp add: ready_round_def demo_take round_stages_def save install send app advance_stage_def updateStatus_def Let_def)
qed

theorem messages_after_disk_witness:
  "\<exists>m c1 D1. coord_history demo_node (demo_new m) c1 (Sending demo_full) D1 \<and> co_transport c1 = [] \<and>
     (\<forall>d \<in> D1. entry_saved demo_env map_of d demo_entry)"
proof -
  from demo_open [of "\<lambda>_. None"] obtain m where opened: "Open demo_env 1 (\<lambda>_. Inr []) (demo_config (\<lambda>_. None)) =
      Inr (attachEngine demo_env (demo_store (\<lambda>_. None) demo_first m))" by blast
  obtain c' where round: "ready_round demo_node (demo_new m) = (c', None)" "co_transport c' = [2]" using demo_round by blast
  have "\<exists>c1 D1. run_stages [save_stage demo_full demo_node, install_stage demo_full demo_node] (demo_new m) = (c1, None) \<and>
    co_transport c1 = co_transport (demo_new m) \<and> coord_history demo_node (demo_new m) c1 (Sending demo_full) D1 \<and>
    (\<forall>d \<in> D1. \<forall>entry \<in> set (rd_Entries demo_full). sn_Index (so_snapshot (co_store c1)) < le_Index entry \<longrightarrow>
       entry_saved demo_env map_of d entry)"
    using messages_after_disk [of demo_node map_of "\<lambda>_. Inr []" "demo_config (\<lambda>_. None)" "[]" _ 1 True "[]", unfolded demo_node_simps,
        OF demo_env_ok demo_raft_ok demo_codec_ok refl map_of.simps(1) opened, folded demo_new_def, OF h_start _ demo_take round(1)]
      round(2) by auto
  then obtain c1 D1 where c1: "run_stages [save_stage demo_full demo_node, install_stage demo_full demo_node] (demo_new m) = (c1, None)"
    "co_transport c1 = co_transport (demo_new m)" "coord_history demo_node (demo_new m) c1 (Sending demo_full) D1"
    "\<forall>d \<in> D1. sn_Index (so_snapshot (co_store c1)) < le_Index demo_entry \<longrightarrow> entry_saved demo_env map_of d demo_entry"
    by auto
  let ?s = "attachEngine demo_env (demo_store (\<lambda>_. None) demo_first m)"
  have "co_store c1 = install_plan demo_plan (?s\<lparr>so_db := demo_saved\<rparr>)"
    using c1(1) demo_save_ok [OF refl, of m]
    by (auto simp: save_stage_def install_stage_def demo_env_def demo_empty_def
        split: prod.splits option.splits if_splits)
  then have "sn_Index (so_snapshot (co_store c1)) < le_Index demo_entry"
    by (simp add: install_plan_def demo_plan_def demo_snapshot_def demo_entry_def Let_def)
  with c1 show ?thesis by auto
qed

section \<open>The cache of staged batches\<close>

text \<open>
  C31. Over every history of a node that starts with an empty cache, \<^verbatim>\<open>Coordinator.decodeCommitted\<close>, which takes
  staged batches from the cache, returns for any committed entries exactly what the plain function
  \<^verbatim>\<open>decodeCommitted\<close> returns, errors included, and applying the committed entries of a \<^verbatim>\<open>Ready\<close> is applying what the
  plain function returns.
\<close>

theorem cached_decoding_exact:
  fixes V :: "('db, 'raw, 'msg, 'net) coord_env"
  assumes "log_codec_ok (ce_codec V)" "coord_history V (new_coordinator i s raw net) c phase D"
  shows "snd (Coordinator_decodeCommitted (ce_codec V) entries c) = decodeCommitted (ce_codec V) entries \<and>
    (apply_stage ready V c = (c', None) \<longrightarrow>
      (\<exists>applications. decodeCommitted (ce_codec V) (rd_CommittedEntries ready) = Inr applications \<and>
        (applications = [] \<and> co_store c' = co_store c \<or>
         (\<exists>outcomes. ApplyCommitted (ce_storage V) (ce_procs V) (co_store c) applications = (co_store c', Inr outcomes)))))"
proof (intro conjI impI)
  have cache: "cache_ok (ce_codec V) c"
    by (rule history_cache [OF assms(1) _ assms(2)]) (simp add: cache_ok_def new_coordinator_def)
  show "snd (Coordinator_decodeCommitted (ce_codec V) entries c) = decodeCommitted (ce_codec V) entries"
    by (rule cached_decode(1) [OF cache])
  show "\<exists>applications. decodeCommitted (ce_codec V) (rd_CommittedEntries ready) = Inr applications \<and>
        (applications = [] \<and> co_store c' = co_store c \<or>
         (\<exists>outcomes. ApplyCommitted (ce_storage V) (ce_procs V) (co_store c) applications = (co_store c', Inr outcomes)))"
    if "apply_stage ready V c = (c', None)"
    using apply_stage_call [OF that cache] by (metis (full_types))
qed

text \<open>A leader that stages one batch and gets it back as an entry of the log.\<close>

definition demo_log_entry :: Entry where
  "demo_log_entry = \<lparr>le_Index = 2, le_Term = 2, le_Type = EntryNormal, le_Data = logBatchGobSnappyMagic @ ''b''\<rparr>"

definition demo_leader :: "((bytes \<times> bytes) list, bool, uint64, uint64 list) coord_env" where
  "demo_leader = demo_node\<lparr>ce_raft := demo_raft\<lparr>rn_Step := (\<lambda>_ _ _. (True, None)),
     rn_Ready := (\<lambda>_ raw. (demo_full\<lparr>rd_Entries := [demo_log_entry]\<rparr>, raw))\<rparr>\<rparr>"

lemma demo_log_valid: "validateLogBatch demo_log = Inr ()" "canonicalizeLogBatch demo_log = demo_log"
proof -
  have "canonicalEvent demo_event"
    by (simp add: canonicalEvent_def empty_slice_def canonicalWorkflowDefinition_def demo_event_def demo_definition_def zero_simps elems_def)
  then show valid: "validateLogBatch demo_log = Inr ()"
    by (simp add: validateLogBatch_def demo_log_def validate_command_def maxLogBatchCommands_def maxLogBatchEvents_def)
      (simp add: demo_event_def)
  show "canonicalizeLogBatch demo_log = demo_log" by (rule canonicalize_valid [OF valid])
qed

lemma demo_log_encode: "encodeLogBatch (demo_codec demo_log) demo_log = Inr (logBatchGobSnappyMagic @ ''b'')"
  by (simp add: encodeLogBatch_def demo_log_valid) (simp add: demo_codec_def demo_snappy_def maxLogBatchBytes_def logBatchGobSnappyMagic_def)

theorem cached_decoding_exact_witness:
  "\<exists>s c D. coord_history demo_leader (new_coordinator 1 s False []) c (Saving (demo_full\<lparr>rd_Entries := [demo_log_entry]\<rparr>)) D \<and>
     map_of (co_prepared c) 2 = Some \<lparr>pp_data = logBatchGobSnappyMagic @ ''b'', pp_batch = demo_log\<rparr> \<and>
     snd (Coordinator_decodeCommitted (demo_codec demo_log) [demo_log_entry] c) = decodeCommitted (demo_codec demo_log) [demo_log_entry]"
proof -
  fix s :: "(bytes \<times> bytes) list Store"
  let ?start = "new_coordinator 1 s False [] :: ((bytes \<times> bytes) list, bool, uint64 list) Coordinator"
  let ?p = "\<lparr>pp_data = logBatchGobSnappyMagic @ ''b'', pp_batch = demo_log\<rparr>"
  have codec: "ce_codec demo_leader = demo_codec demo_log" by (simp add: demo_leader_def demo_node_def)
  have stage: "stageLogBatches [demo_log] demo_leader ?start = (?start\<lparr>co_raw := True, co_proposed := [?p]\<rparr>, None)"
    by (simp add: stageLogBatches_def demo_log_valid codec encodeLogBatches_def demo_log_encode Let_def)
      (simp add: demo_leader_def demo_node_def new_coordinator_def)
  have take: "take_ready demo_leader (?start\<lparr>co_raw := True, co_proposed := [?p]\<rparr>) =
      (demo_full\<lparr>rd_Entries := [demo_log_entry]\<rparr>, ?start\<lparr>co_raw := True, co_prepared := [(2, ?p)]\<rparr>)"
    by (simp add: take_ready_def demo_leader_def demo_node_def cacheReadyEntries_def cache_entry_def demo_log_entry_def
        new_coordinator_def)
  have H: "coord_history demo_leader ?start (?start\<lparr>co_raw := True, co_prepared := [(2, ?p)]\<rparr>)
      (Saving (demo_full\<lparr>rd_Entries := [demo_log_entry]\<rparr>)) {so_db (co_store ?start)}"
    by (rule h_ready [OF h_stage [OF h_start stage] _ take]) (simp add: demo_leader_def demo_node_def demo_raft_def)
  from cached_decoding_exact [OF _ H, unfolded codec, OF demo_codec_ok] H show ?thesis by (intro exI conjI) auto
qed

section \<open>Operations\<close>

text \<open>
  C32. Every operation of the coordinator that does not leave it failed is a sequence of steps of the history:
  \<^verbatim>\<open>Campaign\<close>, \<^verbatim>\<open>Tick\<close>, \<^verbatim>\<open>StepContext\<close>, \<^verbatim>\<open>ReadIndexContext\<close>, the reports, \<^verbatim>\<open>ProcessReady\<close> with all its rounds, \<^verbatim>\<open>ProposeContext\<close>,
  \<^verbatim>\<open>stagePreparedGroup\<close>, \<^verbatim>\<open>CreateSnapshot\<close> and the two that take results. So what holds at every point of the history
  holds at every point of every run of the code.
\<close>

theorem operations_follow_history:
  assumes "coord_history V start c Idle D" "(\<lambda>c c'. coord_operation V c c' \<and> co_fatal c' = None)\<^sup>*\<^sup>* c c'"
  shows "\<exists>D'. coord_history V start c' Idle D'"
  using assms(2)
proof (induction rule: rtranclp_induct)
  case base
  with assms(1) show ?case by blast
next
  case (step d c')
  with operation_history show ?case by blast
qed

theorem operations_follow_history_witness:
  "\<exists>m c' D. co_transport c' = [2] \<and> coord_history demo_node (demo_new m) c' Idle D"
proof -
  fix m
  obtain c' where round: "ready_round demo_node (demo_new m) = (c', None)" "co_transport c' = [2]" "co_raw c' = False"
    "co_fatal c' = None" using demo_round by blast
  have loop: "ready_loop demo_node (demo_new m) = Some (updateStatus demo_node c', None)"
    using round by (simp add: ready_loop.simps [of _ "demo_new m"] ready_loop.simps [of _ c'])
  have same_raw: "(demo_new m)\<lparr>co_raw := True\<rparr> = demo_new m" by (simp add: demo_new_def new_coordinator_def)
  with loop have "Coordinator_Tick demo_node (demo_new m) = Some (updateStatus demo_node c', None)"
    by (simp add: Coordinator_Tick_def guarded_def after_raw_def ProcessReady_def same_raw)
  from o_call [OF o_tick [OF this]] round(4)
  have "(\<lambda>c c'. coord_operation demo_node c c' \<and> co_fatal c' = None)\<^sup>*\<^sup>* (demo_new m) (updateStatus demo_node c')"
    by (intro r_into_rtranclp) simp
  from operations_follow_history [OF h_start this] round(2) show ?thesis
    by (intro exI [of _ m] exI [of _ "updateStatus demo_node c'"]) simp
qed

section \<open>Failure\<close>

text \<open>
  C33. An error while a \<^verbatim>\<open>Ready\<close> is processed is kept as the fatal error of the node, and from then on, through any
  sequence of operations other than \<^verbatim>\<open>CreateSnapshot\<close>, the node stays failed, refuses proposals, and touches neither
  its store, nor its raft node, nor the network.
\<close>

theorem failed_node_stops:
  assumes "ProcessReady V c = Some (c', Some e)" "(coord_call V)\<^sup>*\<^sup>* c' c''"
  shows "co_fatal c' = Some e \<and> (co_stopped c'' \<or> co_fatal c'' \<noteq> None) \<and>
    (\<exists>e'. checkStagedProposalState V c'' = Inl e') \<and>
    co_store c'' = co_store c' \<and> co_raw c'' = co_raw c' \<and> co_transport c'' = co_transport c'"
proof -
  have e: "co_fatal c' = Some e"
  proof (cases "co_stopped c \<or> co_fatal c \<noteq> None")
    case True
    with assms(1) show ?thesis by (cases "co_fatal c") (auto simp: ProcessReady_def split: if_splits)
  next
    case False
    with assms(1) obtain d err where "ready_loop V c = Some (d, err)" by (auto simp: ProcessReady_def)
    with False assms(1) show ?thesis by (cases err) (auto simp: ProcessReady_def)
  qed
  then have f: "failed c'" by (simp add: failed_def)
  note calls = failed_calls [OF assms(2) f]
  then have "\<exists>e'. checkStagedProposalState V c'' = Inl e'" by (intro failed_refuses) simp
  with calls e show ?thesis by (simp add: failed_def)
qed

theorem failed_node_stops_witness:
  "\<exists>c c'. ProcessReady demo_node c = Some (c', Some CoordStopped) \<and> coord_call demo_node c' c' \<and>
     (\<exists>e'. checkStagedProposalState demo_node c' = Inl e')"
proof -
  fix m
  let ?c = "Coordinator_Close (demo_new m)"
  have p: "ProcessReady demo_node ?c = Some (?c\<lparr>co_fatal := Some CoordStopped\<rparr>, Some CoordStopped)"
    by (simp add: ProcessReady_def Coordinator_Close_def)
  have "Coordinator_Tick demo_node (?c\<lparr>co_fatal := Some CoordStopped\<rparr>) = Some (?c\<lparr>co_fatal := Some CoordStopped\<rparr>, Some CoordStopped)"
    by (simp add: Coordinator_Tick_def guarded_def Coordinator_Close_def)
  from o_tick [OF this] failed_node_stops [OF p rtranclp.rtrancl_refl] p show ?thesis by blast
qed

section \<open>Entries of the log\<close>

text \<open>
  C34. A batch that \<^verbatim>\<open>encodeLogBatch\<close> accepts is read back by \<^verbatim>\<open>decodeLogBatch\<close> as it was written; whatever bytes, in any
  of the three formats, \<^verbatim>\<open>decodeLogBatch\<close> accepts, they are within the size limit and the batch passes validation, so
  that staging it again changes nothing: it is in canonical form. Staging a batch whose definitions have tasks
  makes all its events canonical.
\<close>

theorem log_batch_roundtrip:
  assumes "log_codec_ok C"
  shows "(encodeLogBatch C batch = Inr data \<longrightarrow> decodeLogBatch C data = Inr batch \<and> length data \<le> maxLogBatchBytes) \<and>
    (decodeLogBatch C data' = Inr batch' \<longrightarrow>
      validateLogBatch batch' = Inr () \<and> canonicalizeLogBatch batch' = batch' \<and> length data' \<le> maxLogBatchBytes) \<and>
    ((\<forall>d. ev_Definition event = Some d \<longrightarrow> wd_Tasks d \<noteq> []) \<longrightarrow> canonicalEvent (canonicalize_event event))"
  using decode_encodeLogBatch [OF assms, of batch data] decodeLogBatch_valid [of C data batch] decodeLogBatch_valid [of C data' batch']
    canonicalize_valid [of batch'] canonicalize_event_canonical [of event] by blast

theorem log_batch_roundtrip_witness:
  "decodeLogBatch (demo_codec demo_log) (logBatchGobSnappyMagic @ ''b'') = Inr demo_log"
  using log_batch_roundtrip [OF demo_codec_ok, of demo_log demo_log "logBatchGobSnappyMagic @ ''b''"] demo_log_encode by blast

end
