(* ===== verification/Chronos_Execution.thy ===== *)
theory Chronos_Execution
  imports Chronos_Scheduler
begin

text \<open>
  The execution manager (\<^verbatim>\<open>internal/execution/manager.go\<close>): it leases tasks to the sessions of workers, passes
  their heartbeats and completions on as commands, fires timers and expires leases. One goroutine runs it, so
  every request and every tick is one step. What it calls, the view of the engine, the submission of commands
  and the clock, are arguments that keep a state of their own, the world. Sessions are shared with the
  goroutines of the streams, so they live in a heap and the table of sessions holds pointers.
\<close>

section \<open>Messages (\<^verbatim>\<open>api/chronos/v1\<close>)\<close>

text \<open>The fields of the protobuf messages that the manager reads and writes.\<close>

record WorkerHello =
  wh_WorkerId :: string
  wh_Capabilities :: "string list"
  wh_Credits :: uint32

record LeaseHeartbeat =
  hb_RequestId :: string
  hb_WorkflowId :: string
  hb_TaskId :: string
  hb_AttemptId :: string
  hb_FencingToken :: uint64
  hb_LeaseExpiresAt :: int64

record TaskCompletion =
  tc_RequestId :: string
  tc_WorkflowId :: string
  tc_TaskId :: string
  tc_AttemptId :: string
  tc_FencingToken :: uint64
  tc_Output :: kvs
  tc_Error :: string
  tc_Fanout :: "FanoutItem list"

datatype WorkerMessage =
    HelloMessage WorkerHello
  | CreditMessage uint32
  | HeartbeatMessage LeaseHeartbeat
  | CompletionMessage TaskCompletion
  | EmptyMessage

record TaskAssignment =
  ta_WorkflowId :: string
  ta_TaskId :: string
  ta_TaskType :: string
  ta_AttemptId :: string
  ta_Attempt :: uint32
  ta_WorkerId :: string
  ta_LeaseExpiresAt :: int64
  ta_FencingToken :: uint64
  ta_IdempotencyKey :: string
  ta_Inputs :: "(string, kvs) gomap"
  ta_Compensation :: bool
  ta_Payload :: kvs

record WorkerAck =
  wa_RequestId :: string
  wa_Accepted :: bool
  wa_Duplicate :: bool
  wa_Code :: string

datatype CoordinatorMessage = AssignmentMessage TaskAssignment | AckMessage WorkerAck

text \<open>
  Errors: the status codes of gRPC that the manager returns, errors of the core, other errors of the calls,
  \<^verbatim>\<open>fmt.Errorf\<close> without a cause, and the run-time panic of reading through a nil pointer.
\<close>

datatype exec_err =
    RpcUnavailable
  | RpcAborted
  | RpcInvalidArgument
  | RpcResourceExhausted
  | ExecFault
  | ExecCore err
  | ExecOther string
  | ExecPanic

section \<open>State\<close>

text \<open>
  A view always has an engine: its provider returns the one of an open store. Of an acknowledgement, the text
  of the error (\<^verbatim>\<open>message\<close>) is left out.
\<close>

record View =
  vw_Leader :: bool
  vw_LeaderID :: uint64
  vw_Engine :: Engine

record 'w exec_env =
  xe_View :: "'w \<Rightarrow> 'w \<times> (exec_err + View)"
  xe_Submit :: "Command \<Rightarrow> 'w \<Rightarrow> 'w \<times> (exec_err + Result)"
  xe_Now :: "'w \<Rightarrow> 'w \<times> int64"
  xe_AckFailpoint :: "string \<Rightarrow> exec_err option"
  xe_digest :: digest
  xe_encoder :: encoder
  xe_LeaseMillis :: int64
  xe_TickInterval :: int
  xe_MaxCredits :: uint32
  xe_OutboundBuffer :: int
  xe_MaxDispatch :: int

record session =
  ss_id :: uint64
  ss_workerID :: string
  ss_capabilities :: "string list"
  ss_capacity :: uint32
  ss_inflight :: "string list"
  ss_outbound :: "CoordinatorMessage list"
  ss_stopped :: "exec_err option"

text \<open>The set \<^verbatim>\<open>capability\<close> of a session holds the members of \<^verbatim>\<open>capabilities\<close>.\<close>

record Manager =
  mg_scheduler :: Scheduler
  mg_sessions :: "(string, nat) gomap"
  mg_heap :: "session list"
  mg_sequence :: uint64

text \<open>The configuration as given: functions may be nil, numbers may be zero or negative.\<close>

record 'w exec_config =
  xc_Scheduler :: "Scheduler option"
  xc_View :: "('w \<Rightarrow> 'w \<times> (exec_err + View)) option"
  xc_Submit :: "(Command \<Rightarrow> 'w \<Rightarrow> 'w \<times> (exec_err + Result)) option"
  xc_Now :: "('w \<Rightarrow> 'w \<times> int64) option"
  xc_LeaseMillis :: int64
  xc_TickInterval :: int
  xc_MaxCredits :: uint32
  xc_OutboundBuffer :: int
  xc_MaxDispatch :: int
  xc_AckFailpoint :: "(string \<Rightarrow> exec_err option) option"

definition or_default :: "int \<Rightarrow> int \<Rightarrow> int" where
  "or_default x d = (if x \<le> 0 then d else x)"

definition Manager_New ::
    "digest \<Rightarrow> encoder \<Rightarrow> ('w \<Rightarrow> 'w \<times> int64) \<Rightarrow> 'w exec_config \<Rightarrow> exec_err + 'w exec_env \<times> Manager" where
  "Manager_New H J clock config =
     (case (xc_Scheduler config, xc_View config, xc_Submit config) of
        (Some scheduler, Some view, Some submit) \<Rightarrow>
          let maxCredits = (if xc_MaxCredits config = 0 then 1024 else xc_MaxCredits config);
              outbound = or_default (xc_OutboundBuffer config) (uint maxCredits)
          in if outbound < uint maxCredits then Inl ExecFault
             else Inr
               (\<lparr>xe_View = view, xe_Submit = submit, xe_Now = (case xc_Now config of None \<Rightarrow> clock | Some now \<Rightarrow> now),
                 xe_AckFailpoint = (case xc_AckFailpoint config of None \<Rightarrow> (\<lambda>_. None) | Some failpoint \<Rightarrow> failpoint),
                 xe_digest = H, xe_encoder = J,
                 xe_LeaseMillis = or_default (xc_LeaseMillis config) 30000,
                 xe_TickInterval = or_default (xc_TickInterval config) 100,
                 xe_MaxCredits = maxCredits, xe_OutboundBuffer = outbound,
                 xe_MaxDispatch = or_default (xc_MaxDispatch config) 256\<rparr>,
                \<lparr>mg_scheduler = scheduler, mg_sessions = [], mg_heap = [], mg_sequence = 0\<rparr>)
      | _ \<Rightarrow> Inl ExecFault)"

section \<open>Helpers\<close>

definition session_at :: "Manager \<Rightarrow> nat \<Rightarrow> session" where
  "session_at m p = mg_heap m ! p"

definition on_session :: "nat \<Rightarrow> (session \<Rightarrow> session) \<Rightarrow> Manager \<Rightarrow> Manager" where
  "on_session p f m = m\<lparr>mg_heap := (mg_heap m)[p := f (mg_heap m ! p)]\<rparr>"

definition set_insert :: "'a \<Rightarrow> 'a list \<Rightarrow> 'a list" where
  "set_insert x xs = (if x \<in> set xs then xs else xs @ [x])"

definition exec_copyMap :: "kvs \<Rightarrow> kvs" where
  "exec_copyMap values = (if length values = 0 then [] else fold (\<lambda>(key, val). put key val) values [])"

definition exec_max :: "int64 \<Rightarrow> int64 \<Rightarrow> int64" where
  "exec_max left right = (if right < left then left else right)"

definition task_leased :: "TaskState \<Rightarrow> bool" where
  "task_leased task \<longleftrightarrow> ts_Status task = TaskRunning \<or> ts_Status task = TaskCompensating \<and> ts_WorkerID task \<noteq> ''''"

definition taskType :: "TaskDefinition \<Rightarrow> bool \<Rightarrow> exec_err + string" where
  "taskType definition compensation =
     (if compensation then
        (case td_Compensation definition of None \<Rightarrow> Inl ExecPanic | Some c \<Rightarrow> Inr (cd_TaskType c))
      else Inr (td_Type definition))"

definition capabilityFor :: "TaskState \<Rightarrow> exec_err + string" where
  "capabilityFor task = taskType (ts_Definition task) (ts_Compensation task)"

definition fanoutItems :: "FanoutItem list \<Rightarrow> FanoutItem slice" where
  "fanoutItems values =
     (if length values = 0 then None
      else Some (map (\<lambda>val. \<lparr>fi_Key = fi_Key val, fi_Payload = exec_copyMap (fi_Payload val)\<rparr>) values))"

definition startedEvent :: "Result \<Rightarrow> Event option" where
  "startedEvent result = find (\<lambda>event. ev_Kind event = EventTaskStarted) (rs_Events result)"

definition errorCode :: "exec_err \<Rightarrow> string" where
  "errorCode e =
     (case e of
        ExecCore ErrFenced \<Rightarrow> ''fenced''
      | ExecCore ErrLeaseExpired \<Rightarrow> ''expired''
      | ExecCore ErrRequestConflict \<Rightarrow> ''conflict''
      | ExecCore ErrInvalidCommand \<Rightarrow> ''invalid''
      | ExecCore ErrInvalidTransition \<Rightarrow> ''invalid''
      | _ \<Rightarrow> ''unavailable'')"

definition assignmentFromEvent :: "TaskDefinition \<Rightarrow> Event \<Rightarrow> bool \<Rightarrow> kvs \<Rightarrow> exec_err + CoordinatorMessage" where
  "assignmentFromEvent definition event compensation payload =
     bindE (taskType definition compensation) (\<lambda>kind.
       Inr (AssignmentMessage
         \<lparr>ta_WorkflowId = ev_WorkflowID event, ta_TaskId = ev_TaskID event, ta_TaskType = kind,
          ta_AttemptId = ev_AttemptID event, ta_Attempt = ev_Attempt event, ta_WorkerId = ev_WorkerID event,
          ta_LeaseExpiresAt = ev_LeaseUntil event, ta_FencingToken = ev_Fence event,
          ta_IdempotencyKey = ev_Idempotency event,
          ta_Inputs = map (\<lambda>(key, values). (key, exec_copyMap values)) (ev_Inputs event),
          ta_Compensation = compensation, ta_Payload = exec_copyMap payload\<rparr>))"

definition assignment :: "string \<Rightarrow> TaskState \<Rightarrow> exec_err + CoordinatorMessage" where
  "assignment workflowID task =
     assignmentFromEvent (ts_Definition task)
       (zero_Event\<lparr>ev_WorkflowID := workflowID, ev_TaskID := td_ID (ts_Definition task), ev_AttemptID := ts_AttemptID task,
          ev_Attempt := ts_Attempt task, ev_WorkerID := ts_WorkerID task, ev_LeaseUntil := ts_LeaseUntil task,
          ev_Fence := ts_Fence task, ev_Idempotency := ts_Idempotency task, ev_Inputs := ts_Inputs task\<rparr>)
       (ts_Compensation task) (ts_Payload task)"

definition note_capability :: "string list \<Rightarrow> string \<Rightarrow> exec_err + string list" where
  "note_capability seen val =
     (let val = TrimSpace val in if val = '''' then Inl ExecFault else Inr (set_insert val seen))"

definition normalizeCapabilities :: "string list \<Rightarrow> exec_err + string list" where
  "normalizeCapabilities values =
     bindE (foldE note_capability [] values) (\<lambda>seen. if length seen = 0 then Inl ExecFault else Inr (sort seen))"

text \<open>A send on the channel of a session succeeds while its buffer has room.\<close>

definition enqueue :: "'w exec_env \<Rightarrow> nat \<Rightarrow> CoordinatorMessage \<Rightarrow> Manager \<Rightarrow> Manager \<times> bool" where
  "enqueue X p message m =
     (if int (length (ss_outbound (session_at m p))) < xe_OutboundBuffer X
      then (on_session p (\<lambda>s. s\<lparr>ss_outbound := ss_outbound s @ [message]\<rparr>) m, True)
      else (m, False))"

definition stopSession :: "nat \<Rightarrow> exec_err \<Rightarrow> Manager \<Rightarrow> Manager" where
  "stopSession p e m =
     (let workerID = ss_workerID (session_at m p);
          m = (if map_of (mg_sessions m) workerID = Some p then m\<lparr>mg_sessions := del workerID (mg_sessions m)\<rparr> else m)
      in on_session p (\<lambda>s. if ss_stopped s = None then s\<lparr>ss_stopped := Some e\<rparr> else s) m)"

definition stopAll :: "exec_err \<Rightarrow> Manager \<Rightarrow> Manager" where
  "stopAll e m = fold (\<lambda>entry. stopSession (snd entry) e) (mg_sessions m) m"

text \<open>The workflow states that a loop over \<^verbatim>\<open>WorkflowIDs\<close> sees.\<close>

definition engine_states :: "Engine \<Rightarrow> exec_err + (string \<times> WorkflowState) list" where
  "engine_states e =
     foldE (\<lambda>result workflowID. case fst (State e workflowID) of
         None \<Rightarrow> Inl ExecPanic
       | Some workflow \<Rightarrow> Inr (result @ [(workflowID, workflow)])) [] (WorkflowIDs e)"

definition leased_by :: "(string \<times> WorkflowState) list \<Rightarrow> string \<Rightarrow> string list" where
  "leased_by states workerID =
     concat (map (\<lambda>(workflowID, workflow).
       map (ts_AttemptID \<circ> snd) (filter (\<lambda>(taskID, task). task_leased task \<and> ts_WorkerID task = workerID) (wf_Tasks workflow))) states)"

definition reconcile :: "Engine \<Rightarrow> Manager \<Rightarrow> exec_err + Manager" where
  "reconcile engine m =
     bindE (engine_states engine) (\<lambda>states.
       Inr (fold (\<lambda>(workerID, p). on_session p (\<lambda>s.
         s\<lparr>ss_inflight := filter (\<lambda>attemptID. attemptID \<in> set (leased_by states workerID)) (ss_inflight s)\<rparr>))
         (mg_sessions m) m))"

section \<open>Opening and closing a session\<close>

definition note_active ::
    "string list \<Rightarrow> string \<Rightarrow> string \<Rightarrow> (string \<times> TaskState) list \<Rightarrow> string \<times> TaskState \<Rightarrow> exec_err + (string \<times> TaskState) list" where
  "note_active capability workerID workflowID active entry =
     (let task = snd entry in
      if \<not> task_leased task \<or> ts_WorkerID task \<noteq> workerID then Inr active
      else bindE (capabilityFor task) (\<lambda>kind.
        if kind \<notin> set capability then Inl ExecFault else Inr (active @ [(workflowID, task)])))"

text \<open>The leases that the worker still holds, each with its workflow.\<close>

definition active_leases :: "string list \<Rightarrow> string \<Rightarrow> Engine \<Rightarrow> exec_err + (string \<times> TaskState) list" where
  "active_leases capability workerID engine =
     bindE (engine_states engine) (\<lambda>states.
       foldE (\<lambda>active (workflowID, workflow).
         foldE (note_active capability workerID workflowID) active (wf_Tasks workflow)) [] states)"

definition check_hello ::
    "'w exec_env \<Rightarrow> WorkerHello \<Rightarrow> 'w \<Rightarrow> 'w \<times> (exec_err + string \<times> string list \<times> (string \<times> TaskState) list)" where
  "check_hello X hello w =
     (let workerID = TrimSpace (wh_WorkerId hello) in
      case normalizeCapabilities (wh_Capabilities hello) of
        Inl e \<Rightarrow> (w, Inl e)
      | Inr capabilities \<Rightarrow>
          if workerID = '''' then (w, Inl ExecFault)
          else if xe_MaxCredits X < wh_Credits hello then (w, Inl ExecFault)
          else case xe_View X w of
            (w, Inl e) \<Rightarrow> (w, Inl e)
          | (w, Inr view) \<Rightarrow>
              (w, if \<not> vw_Leader view then Inl RpcUnavailable
                  else bindE (active_leases capabilities workerID (vw_Engine view)) (\<lambda>active.
                    if wh_Credits hello < word_of_nat (length active) then Inl ExecFault
                    else Inr (workerID, capabilities, active))))"

fun resend :: "'w exec_env \<Rightarrow> nat \<Rightarrow> (string \<times> TaskState) list \<Rightarrow> Manager \<Rightarrow> Manager \<times> exec_err option" where
  "resend X p [] m = (m, None)"
| "resend X p ((workflowID, task) # active) m =
     (let m = on_session p (\<lambda>s. s\<lparr>ss_inflight := set_insert (ts_AttemptID task) (ss_inflight s)\<rparr>) m in
      case assignment workflowID task of
        Inl e \<Rightarrow> (m, Some e)
      | Inr message \<Rightarrow>
          (case enqueue X p message m of
             (m, False) \<Rightarrow> (m, Some RpcResourceExhausted)
           | (m, True) \<Rightarrow> resend X p active m))"

definition new_session :: "uint64 \<Rightarrow> string \<Rightarrow> string list \<Rightarrow> uint32 \<Rightarrow> session" where
  "new_session i workerID capabilities credits =
     \<lparr>ss_id = i, ss_workerID = workerID, ss_capabilities = capabilities, ss_capacity = credits, ss_inflight = [],
      ss_outbound = [], ss_stopped = None\<rparr>"

definition register_session :: "string \<Rightarrow> string list \<Rightarrow> uint32 \<Rightarrow> Manager \<Rightarrow> nat \<times> Manager" where
  "register_session workerID capabilities credits m =
     (let m = (case map_of (mg_sessions m) workerID of None \<Rightarrow> m | Some previous \<Rightarrow> stopSession previous RpcAborted m);
          m = m\<lparr>mg_sequence := mg_sequence m + 1\<rparr>;
          current = length (mg_heap m)
      in (current, m\<lparr>mg_heap := mg_heap m @ [new_session (mg_sequence m) workerID capabilities credits],
            mg_sessions := put workerID current (mg_sessions m)\<rparr>))"

definition handleOpen :: "'w exec_env \<Rightarrow> WorkerHello \<Rightarrow> Manager \<times> 'w \<Rightarrow> (Manager \<times> 'w) \<times> (exec_err + nat)" where
  "handleOpen X hello mw =
     (case mw of (m, w) \<Rightarrow>
      case check_hello X hello w of
        (w, Inl e) \<Rightarrow> ((m, w), Inl e)
      | (w, Inr (workerID, capabilities, active)) \<Rightarrow>
          (case register_session workerID capabilities (wh_Credits hello) m of
             (current, m) \<Rightarrow>
               (case resend X current (sort_key (\<lambda>(workflowID, task). [workflowID, td_ID (ts_Definition task)]) active) m of
                  (m, None) \<Rightarrow> ((m, w), Inr current)
                | (m, Some e) \<Rightarrow> ((stopSession current e m, w), Inl e))))"

definition handleClose :: "uint64 \<Rightarrow> string \<Rightarrow> Manager \<Rightarrow> Manager" where
  "handleClose sessionID workerID m =
     (case map_of (mg_sessions m) workerID of
        None \<Rightarrow> m
      | Some p \<Rightarrow> if ss_id (session_at m p) = sessionID then m\<lparr>mg_sessions := del workerID (mg_sessions m)\<rparr> else m)"

section \<open>Messages of a worker\<close>

definition ackError :: "'w exec_env \<Rightarrow> nat \<Rightarrow> string \<Rightarrow> exec_err \<Rightarrow> Manager \<Rightarrow> Manager \<times> exec_err option" where
  "ackError X p requestID e m =
     (case enqueue X p (AckMessage \<lparr>wa_RequestId = requestID, wa_Accepted = False, wa_Duplicate = False, wa_Code = errorCode e\<rparr>) m of
        (m, True) \<Rightarrow> (m, None)
      | (m, False) \<Rightarrow> (m, Some RpcResourceExhausted))"

definition ack :: "'w exec_env \<Rightarrow> nat \<Rightarrow> string \<Rightarrow> string \<Rightarrow> bool \<Rightarrow> Manager \<Rightarrow> Manager \<times> exec_err option" where
  "ack X p kind requestID duplicate m =
     (case xe_AckFailpoint X kind of
        Some e \<Rightarrow> (stopSession p e m, Some e)
      | None \<Rightarrow>
          (case enqueue X p (AckMessage \<lparr>wa_RequestId = requestID, wa_Accepted = True, wa_Duplicate = duplicate, wa_Code = ''''\<rparr>) m of
             (m, True) \<Rightarrow> (m, None)
           | (m, False) \<Rightarrow> (m, Some RpcResourceExhausted)))"

definition leader_view :: "'w exec_env \<Rightarrow> 'w \<Rightarrow> 'w \<times> (exec_err + View)" where
  "leader_view X w =
     (case xe_View X w of
        (w, Inl e) \<Rightarrow> (w, Inl e)
      | (w, Inr view) \<Rightarrow> (w, if \<not> vw_Leader view then Inl RpcUnavailable else Inr view))"

definition renew_command :: "string \<Rightarrow> LeaseHeartbeat \<Rightarrow> int64 \<Rightarrow> Command" where
  "renew_command workerID heartbeat at =
     zero_Command\<lparr>cmd_Kind := CommandRenew, cmd_RequestID := hb_RequestId heartbeat, cmd_WorkflowID := hb_WorkflowId heartbeat,
       cmd_TaskID := hb_TaskId heartbeat, cmd_AttemptID := hb_AttemptId heartbeat, cmd_WorkerID := workerID,
       cmd_Fence := hb_FencingToken heartbeat, cmd_LeaseUntil := hb_LeaseExpiresAt heartbeat, cmd_At := at\<rparr>"

definition renew :: "'w exec_env \<Rightarrow> nat \<Rightarrow> LeaseHeartbeat \<Rightarrow> Manager \<times> 'w \<Rightarrow> (Manager \<times> 'w) \<times> exec_err option" where
  "renew X p heartbeat mw =
     (case mw of (m, w) \<Rightarrow>
      case leader_view X w of
        (w, Inl e) \<Rightarrow> ((m, w), Some e)
      | (w, Inr view) \<Rightarrow>
          let refuse = (\<lambda>w e. case ackError X p (hb_RequestId heartbeat) e m of (m, r) \<Rightarrow> ((m, w), r)) in
          (case State (vw_Engine view) (hb_WorkflowId heartbeat) of
             (Some workflow, True) \<Rightarrow>
               (case xe_Now X w of (w, now) \<Rightarrow>
                  let at = exec_max now (wf_UpdatedAt workflow);
                      command = renew_command (ss_workerID (session_at m p)) heartbeat at in
                  case Prepare (xe_digest X) (xe_encoder X) (vw_Engine view) command of
                    Inl e \<Rightarrow> refuse w (ExecCore e)
                  | Inr (batch, result, duplicate) \<Rightarrow>
                      if \<not> duplicate \<and> (hb_LeaseExpiresAt heartbeat \<le> at \<or>
                           xe_LeaseMillis X < sub64 (hb_LeaseExpiresAt heartbeat) at)
                      then refuse w (ExecCore ErrInvalidCommand)
                      else case xe_Submit X command w of
                        (w, Inl e) \<Rightarrow> refuse w e
                      | (w, Inr result) \<Rightarrow>
                          (case ack X p ''renew'' (hb_RequestId heartbeat) (rs_Duplicate result) m of (m, r) \<Rightarrow> ((m, w), r)))
           | _ \<Rightarrow> refuse w (ExecCore ErrWorkflowNotFound)))"

definition completion_command :: "string \<Rightarrow> TaskCompletion \<Rightarrow> int64 \<Rightarrow> Command" where
  "completion_command workerID completion at =
     zero_Command\<lparr>cmd_Kind := (if tc_Error completion \<noteq> '''' then CommandFail else CommandComplete),
       cmd_RequestID := tc_RequestId completion, cmd_WorkflowID := tc_WorkflowId completion,
       cmd_TaskID := tc_TaskId completion, cmd_AttemptID := tc_AttemptId completion, cmd_WorkerID := workerID,
       cmd_Fence := tc_FencingToken completion, cmd_At := at, cmd_Output := exec_copyMap (tc_Output completion),
       cmd_Error := tc_Error completion, cmd_Fanout := fanoutItems (tc_Fanout completion)\<rparr>"

definition completion_ok :: "TaskCompletion \<Rightarrow> bool" where
  "completion_ok completion \<longleftrightarrow>
     \<not> (tc_RequestId completion = '''' \<or> tc_WorkflowId completion = '''' \<or> tc_TaskId completion = '''' \<or>
        tc_AttemptId completion = '''' \<or> tc_FencingToken completion = 0) \<and>
     \<not> (tc_Error completion \<noteq> '''' \<and> (0 < length (tc_Output completion) \<or> 0 < length (tc_Fanout completion)))"

definition Manager_complete :: "'w exec_env \<Rightarrow> nat \<Rightarrow> TaskCompletion \<Rightarrow> Manager \<times> 'w \<Rightarrow> (Manager \<times> 'w) \<times> exec_err option" where
  "Manager_complete X p completion mw =
     (case mw of (m, w) \<Rightarrow>
      if \<not> completion_ok completion then ((m, w), Some RpcInvalidArgument)
      else case leader_view X w of
        (w, Inl e) \<Rightarrow> ((m, w), Some e)
      | (w, Inr view) \<Rightarrow>
          let refuse = (\<lambda>w e. case ackError X p (tc_RequestId completion) e m of (m, r) \<Rightarrow> ((m, w), r)) in
          (case State (vw_Engine view) (tc_WorkflowId completion) of
             (Some workflow, True) \<Rightarrow>
               (case xe_Now X w of (w, now) \<Rightarrow>
                  case xe_Submit X (completion_command (ss_workerID (session_at m p)) completion
                      (exec_max now (wf_UpdatedAt workflow))) w of
                    (w, Inl e) \<Rightarrow> refuse w e
                  | (w, Inr result) \<Rightarrow>
                      (case xe_View X w of
                         (w, Inl e) \<Rightarrow> ((m, w), Some e)
                       | (w, Inr view) \<Rightarrow>
                           (case reconcile (vw_Engine view) m of
                              Inl e \<Rightarrow> ((m, w), Some e)
                            | Inr m \<Rightarrow>
                                (case ack X p ''completion'' (tc_RequestId completion) (rs_Duplicate result) m of
                                   (m, r) \<Rightarrow> ((m, w), r)))))
           | _ \<Rightarrow> refuse w (ExecCore ErrWorkflowNotFound)))"

definition handleMessage ::
    "'w exec_env \<Rightarrow> uint64 \<Rightarrow> string \<Rightarrow> WorkerMessage \<Rightarrow> Manager \<times> 'w \<Rightarrow> (Manager \<times> 'w) \<times> exec_err option" where
  "handleMessage X sessionID workerID message mw =
     (case mw of (m, w) \<Rightarrow>
      case map_of (mg_sessions m) workerID of
        None \<Rightarrow> ((m, w), Some RpcAborted)
      | Some p \<Rightarrow>
          if ss_id (session_at m p) \<noteq> sessionID then ((m, w), Some RpcAborted)
          else case message of
            HelloMessage hello \<Rightarrow> ((m, w), Some RpcInvalidArgument)
          | CreditMessage credits \<Rightarrow>
              if xe_MaxCredits X < credits \<or> uint credits < int (length (ss_inflight (session_at m p)))
              then ((m, w), Some RpcInvalidArgument)
              else ((on_session p (\<lambda>s. s\<lparr>ss_capacity := credits\<rparr>) m, w), None)
          | HeartbeatMessage heartbeat \<Rightarrow> renew X p heartbeat (m, w)
          | CompletionMessage completion \<Rightarrow> Manager_complete X p completion (m, w)
          | EmptyMessage \<Rightarrow> ((m, w), Some RpcInvalidArgument))"

section \<open>Timers and leases\<close>

definition timerWins :: "WorkflowState \<Rightarrow> TimerState \<Rightarrow> bool" where
  "timerWins workflow timer =
     (if tm_Purpose timer \<noteq> TimerTimeout then True
      else case map_of (wf_Tasks workflow) (tm_TaskID timer) of
        None \<Rightarrow> True
      | Some task \<Rightarrow> ts_AttemptID task \<noteq> tm_AttemptID timer \<or> ts_Fence task \<noteq> tm_Fence timer \<or> tm_Deadline timer \<le> ts_LeaseUntil task)"

definition timer_due :: "int64 \<Rightarrow> WorkflowState \<Rightarrow> TimerState \<Rightarrow> bool" where
  "timer_due now workflow timer \<longleftrightarrow>
     tm_Status timer = TimerScheduled \<and> tm_Deadline timer \<le> now \<and> timerWins workflow timer"

definition due_timers :: "int64 \<Rightarrow> (string \<times> WorkflowState) list \<Rightarrow> (string \<times> TimerState) list" where
  "due_timers now states =
     sort_key (\<lambda>(workflowID, timer). tm_Deadline timer) (sort_key (\<lambda>(workflowID, timer). [workflowID, tm_ID timer])
       (concat (map (\<lambda>(workflowID, workflow). map (Pair workflowID) (filter (timer_due now workflow) (map snd (wf_Timers workflow)))) states)))"

definition fire_command :: "digest \<Rightarrow> string \<Rightarrow> WorkflowState \<Rightarrow> TimerState \<Rightarrow> int64 \<Rightarrow> Command" where
  "fire_command H workflowID workflow timer now =
     zero_Command\<lparr>cmd_Kind := CommandFireTimer, cmd_RequestID := TimerRequestID H (tm_ID timer), cmd_WorkflowID := workflowID,
       cmd_TimerID := tm_ID timer, cmd_At := exec_max now (exec_max (wf_UpdatedAt workflow) (tm_Deadline timer))\<rparr>"

type_synonym 'w viewed = "(Manager \<times> 'w) \<times> View"

fun fire_all :: "'w exec_env \<Rightarrow> int64 \<Rightarrow> (string \<times> TimerState) list \<Rightarrow> 'w viewed \<Rightarrow> 'w viewed \<times> exec_err option" where
  "fire_all X now [] s = (s, None)"
| "fire_all X now ((workflowID, due) # timers) ((m, w), view) =
     (case State (vw_Engine view) workflowID of
        (Some workflow, True) \<Rightarrow>
          (case map_of (wf_Timers workflow) (tm_ID due) of
             None \<Rightarrow> fire_all X now timers ((m, w), view)
           | Some timer \<Rightarrow>
               if \<not> timer_due now workflow timer then fire_all X now timers ((m, w), view)
               else case xe_Submit X (fire_command (xe_digest X) workflowID workflow timer now) w of
                 (w, Inl e) \<Rightarrow> (((m, w), view), Some e)
               | (w, Inr _) \<Rightarrow>
                   (case xe_View X w of
                      (w, Inl e) \<Rightarrow> (((m, w), view), Some e)
                    | (w, Inr view) \<Rightarrow>
                        (case reconcile (vw_Engine view) m of
                           Inl e \<Rightarrow> (((m, w), view), Some e)
                         | Inr m \<Rightarrow> fire_all X now timers ((m, w), view))))
      | _ \<Rightarrow> fire_all X now timers ((m, w), view))"

definition fireTimers :: "'w exec_env \<Rightarrow> 'w viewed \<Rightarrow> 'w viewed \<times> exec_err option" where
  "fireTimers X s =
     (case s of ((m, w), view) \<Rightarrow>
      case xe_Now X w of (w, now) \<Rightarrow>
      case engine_states (vw_Engine view) of
        Inl e \<Rightarrow> (((m, w), view), Some e)
      | Inr states \<Rightarrow> fire_all X now (take (nat (xe_MaxDispatch X)) (due_timers now states)) ((m, w), view))"

record expired =
  xp_workflowID :: string
  xp_taskID :: string
  xp_task :: TaskState
  xp_updatedAt :: int64

definition expired_leases :: "int64 \<Rightarrow> (string \<times> WorkflowState) list \<Rightarrow> expired list" where
  "expired_leases now states =
     sort_key (\<lambda>lease. [xp_workflowID lease, xp_taskID lease])
       (concat (map (\<lambda>(workflowID, workflow).
          map (\<lambda>(taskID, task). \<lparr>xp_workflowID = workflowID, xp_taskID = taskID, xp_task = task, xp_updatedAt = wf_UpdatedAt workflow\<rparr>)
            (filter (\<lambda>(taskID, task). task_leased task \<and> ts_LeaseUntil task \<le> now) (wf_Tasks workflow))) states))"

definition expire_command :: "digest \<Rightarrow> expired \<Rightarrow> int64 \<Rightarrow> Command" where
  "expire_command H lease now =
     (let task = xp_task lease in
      zero_Command\<lparr>cmd_Kind := CommandExpire, cmd_RequestID := ExpiryRequestID H (ts_AttemptID task) (ts_Fence task),
        cmd_WorkflowID := xp_workflowID lease, cmd_TaskID := xp_taskID lease, cmd_AttemptID := ts_AttemptID task,
        cmd_WorkerID := ts_WorkerID task, cmd_Fence := ts_Fence task,
        cmd_At := exec_max now (exec_max (xp_updatedAt lease) (ts_LeaseUntil task))\<rparr>)"

fun expire_all :: "'w exec_env \<Rightarrow> int64 \<Rightarrow> expired list \<Rightarrow> 'w \<Rightarrow> 'w \<times> exec_err option" where
  "expire_all X now [] w = (w, None)"
| "expire_all X now (lease # leases) w =
     (case xe_Submit X (expire_command (xe_digest X) lease now) w of
        (w, Inl e) \<Rightarrow> if e \<noteq> ExecCore ErrFenced then (w, Some e) else expire_all X now leases w
      | (w, Inr _) \<Rightarrow> expire_all X now leases w)"

definition expire :: "'w exec_env \<Rightarrow> 'w viewed \<Rightarrow> 'w viewed \<times> exec_err option" where
  "expire X s =
     (case s of ((m, w), view) \<Rightarrow>
      case xe_Now X w of (w, now) \<Rightarrow>
      case engine_states (vw_Engine view) of
        Inl e \<Rightarrow> (((m, w), view), Some e)
      | Inr states \<Rightarrow>
          let leases = expired_leases now states in
          (case expire_all X now leases w of
             (w, Some e) \<Rightarrow> (((m, w), view), Some e)
           | (w, None) \<Rightarrow>
               if length leases = 0 then (((m, w), view), None)
               else case xe_View X w of
                 (w, Inl e) \<Rightarrow> (((m, w), view), Some e)
               | (w, Inr view) \<Rightarrow>
                   (case reconcile (vw_Engine view) m of
                      Inl e \<Rightarrow> (((m, w), view), Some e)
                    | Inr m \<Rightarrow> (((m, w), view), None))))"

section \<open>Dispatch\<close>

definition start_command :: "digest \<Rightarrow> WorkflowState \<Rightarrow> string \<Rightarrow> TaskState \<Rightarrow> string \<Rightarrow> int64 \<Rightarrow> int64 \<Rightarrow> Command" where
  "start_command H workflow taskID task workerID at leaseMillis =
     zero_Command\<lparr>cmd_Kind := CommandStart, cmd_RequestID := LeaseRequestID H (wf_ID workflow) taskID (ts_Attempt task + 1),
       cmd_WorkflowID := wf_ID workflow, cmd_TaskID := taskID, cmd_WorkerID := workerID, cmd_At := at,
       cmd_LeaseUntil := add64 at leaseMillis\<rparr>"

definition lease_length :: "'w exec_env \<Rightarrow> TaskState \<Rightarrow> int64" where
  "lease_length X task =
     (let timeout = td_TimeoutMillis (ts_Definition task) in
      if 0 < timeout \<and> timeout < xe_LeaseMillis X then timeout else xe_LeaseMillis X)"

text \<open>What became of one turn of a worker: nothing, a task was leased, or the whole dispatch returns.\<close>

datatype worker_outcome = Skipped | Leased | Returned

definition hand_over ::
    "'w exec_env \<Rightarrow> nat \<Rightarrow> TaskState \<Rightarrow> Event \<Rightarrow> Manager \<Rightarrow> exec_err + Manager" where
  "hand_over X p task event m =
     (let m = on_session p (\<lambda>s. s\<lparr>ss_inflight := set_insert (ev_AttemptID event) (ss_inflight s)\<rparr>) m in
      bindE (assignmentFromEvent (ts_Definition task) event (ts_Compensation task) (ts_Payload task)) (\<lambda>message.
        Inr (case enqueue X p message m of (m, True) \<Rightarrow> m | (m, False) \<Rightarrow> stopSession p RpcResourceExhausted m)))"

definition lease_task :: "'w exec_env \<Rightarrow> nat \<Rightarrow> Plan \<Rightarrow> 'w viewed \<Rightarrow> 'w viewed \<times> worker_outcome" where
  "lease_task X p plan s =
     (case s of ((m, w), view) \<Rightarrow>
      case fst (State (vw_Engine view) (sk_WorkflowID (pn_Task plan))) of
        None \<Rightarrow> (s, Returned)
      | Some workflow \<Rightarrow>
          let taskID = sk_TaskID (pn_Task plan); task = or_zero zero_TaskState (wf_Tasks workflow) taskID in
          if ts_Attempt task = MaxUint32 \<or> ts_Fence task = MaxUint64 then (s, Skipped)
          else case xe_Now X w of (w, now) \<Rightarrow>
            let at = exec_max now (wf_UpdatedAt workflow); leaseMillis = lease_length X task in
            if sub64 MaxInt64 leaseMillis < at then (((m, w), view), Skipped)
            else case xe_Submit X (start_command (xe_digest X) workflow taskID task (ss_workerID (session_at m p)) at leaseMillis) w of
              (w, Inl e) \<Rightarrow> (((m, w), view), Returned)
            | (w, Inr result) \<Rightarrow>
                (case startedEvent result of
                   None \<Rightarrow> (((m, w), view), Returned)
                 | Some event \<Rightarrow>
                     (case Commit (mg_scheduler m) plan of
                        Inl e \<Rightarrow> (((m, w), view), Returned)
                      | Inr scheduler \<Rightarrow>
                          (case hand_over X p task event (m\<lparr>mg_scheduler := scheduler\<rparr>) of
                             Inl e \<Rightarrow> (((m, w), view), Returned)
                           | Inr m \<Rightarrow> (((m, w), view), Leased)))))"

definition worker_turn :: "'w exec_env \<Rightarrow> string \<Rightarrow> 'w viewed \<Rightarrow> 'w viewed \<times> worker_outcome" where
  "worker_turn X workerID s =
     (case s of ((m, w), view) \<Rightarrow>
      case map_of (mg_sessions m) workerID of
        None \<Rightarrow> (s, Skipped)
      | Some p \<Rightarrow>
          if ss_capacity (session_at m p) \<le> word_of_nat (length (ss_inflight (session_at m p))) then (s, Skipped)
          else case Plan_next (mg_scheduler m) (vw_Engine view) (ss_capabilities (session_at m p)) of
            Inl e \<Rightarrow> (s, Returned)
          | Inr None \<Rightarrow> (s, Skipped)
          | Inr (Some plan) \<Rightarrow> lease_task X p plan s)"

text \<open>
  One pass over the workers: the state, the number of tasks leased so far, whether the pass made progress, and
  whether it returned.
\<close>

fun dispatch_pass ::
    "'w exec_env \<Rightarrow> string list \<Rightarrow> 'w viewed \<Rightarrow> nat \<Rightarrow> bool \<Rightarrow> 'w viewed \<times> nat \<times> bool \<times> bool" where
  "dispatch_pass X [] s dispatched progress = (s, dispatched, progress, False)"
| "dispatch_pass X (workerID # workerIDs) s dispatched progress =
     (case worker_turn X workerID s of
        (s, Skipped) \<Rightarrow> dispatch_pass X workerIDs s dispatched progress
      | (s, Returned) \<Rightarrow> (s, dispatched, progress, True)
      | (((m, w), view), Leased) \<Rightarrow>
          (case xe_View X w of
             (w, Inl e) \<Rightarrow> (((m, w), view), dispatched + 1, True, True)
           | (w, Inr view) \<Rightarrow>
               if \<not> vw_Leader view \<or> xe_MaxDispatch X \<le> int (dispatched + 1)
               then (((m, w), view), dispatched + 1, True, True)
               else dispatch_pass X workerIDs ((m, w), view) (dispatched + 1) True))"

lemma dispatch_pass_count:
  "dispatch_pass X workerIDs s n progress = (t, k, progress', returned) \<Longrightarrow>
     n \<le> k \<and> (progress' \<and> \<not> progress \<longrightarrow> n < k)"
  by (induction X workerIDs s n progress arbitrary: t k progress' returned rule: dispatch_pass.induct)
    (auto split: prod.splits worker_outcome.splits sum.splits if_splits, (fastforce | force)+)

function dispatch_loop :: "'w exec_env \<Rightarrow> string list \<Rightarrow> 'w viewed \<Rightarrow> nat \<Rightarrow> 'w viewed \<times> nat" where
  "dispatch_loop X workerIDs s dispatched =
     (if int dispatched < xe_MaxDispatch X
      then (case dispatch_pass X workerIDs s dispatched False of
              (s, dispatched, progress, returned) \<Rightarrow>
                if returned \<or> \<not> progress then (s, dispatched) else dispatch_loop X workerIDs s dispatched)
      else (s, dispatched))"
  by pat_completeness auto
termination
  by (relation "measure (\<lambda>(X, workerIDs, s, dispatched). nat (xe_MaxDispatch X) - dispatched)")
    (auto dest!: dispatch_pass_count [OF sym])

declare dispatch_loop.simps [simp del]

definition stop_follower :: "'w viewed \<Rightarrow> (Manager \<times> 'w) option" where
  "stop_follower s =
     (case s of ((m, w), view) \<Rightarrow> if \<not> vw_Leader view then Some (stopAll RpcUnavailable m, w) else None)"

definition dispatch_workers :: "'w exec_env \<Rightarrow> 'w viewed \<Rightarrow> Manager \<times> 'w" where
  "dispatch_workers X s =
     (case s of ((m, w), view) \<Rightarrow> fst (fst (dispatch_loop X (sort (keys (mg_sessions m))) s 0)))"

definition Manager_dispatch :: "'w exec_env \<Rightarrow> Manager \<times> 'w \<Rightarrow> Manager \<times> 'w" where
  "Manager_dispatch X mw =
     (case mw of (m, w) \<Rightarrow>
      case xe_View X w of
        (w, Inl e) \<Rightarrow> (m, w)
      | (w, Inr view) \<Rightarrow>
          (case stop_follower ((m, w), view) of
             Some mw \<Rightarrow> mw
           | None \<Rightarrow>
               (case fireTimers X ((m, w), view) of
                  (s, Some e) \<Rightarrow> fst s
                | (s, None) \<Rightarrow>
                    (case stop_follower s of
                       Some mw \<Rightarrow> mw
                     | None \<Rightarrow>
                         (case expire X s of
                            (s, Some e) \<Rightarrow> fst s
                          | (s, None) \<Rightarrow>
                              (case stop_follower s of
                                 Some mw \<Rightarrow> mw
                               | None \<Rightarrow> dispatch_workers X s))))))"

section \<open>The loop of the manager\<close>

text \<open>
  \<^verbatim>\<open>Run\<close> takes one request or tick at a time and dispatches after each; the answers go to the goroutines that
  asked. When its context ends, it stops all sessions.
\<close>

datatype exec_request =
    OpenRequest WorkerHello
  | MessageRequest uint64 string WorkerMessage
  | CloseRequest uint64 string
  | TriggerRequest
  | TickRequest

datatype exec_answer = OpenAnswer "exec_err + nat" | MessageAnswer "exec_err option" | NoAnswer

definition handle_request :: "'w exec_env \<Rightarrow> exec_request \<Rightarrow> Manager \<times> 'w \<Rightarrow> (Manager \<times> 'w) \<times> exec_answer" where
  "handle_request X request mw =
     (case request of
        OpenRequest hello \<Rightarrow> (case handleOpen X hello mw of (mw, r) \<Rightarrow> (mw, OpenAnswer r))
      | MessageRequest sessionID workerID message \<Rightarrow>
          (case handleMessage X sessionID workerID message mw of (mw, r) \<Rightarrow> (mw, MessageAnswer r))
      | CloseRequest sessionID workerID \<Rightarrow> ((handleClose sessionID workerID (fst mw), snd mw), NoAnswer)
      | TriggerRequest \<Rightarrow> (mw, NoAnswer)
      | TickRequest \<Rightarrow> (mw, NoAnswer))"

definition Run_step :: "'w exec_env \<Rightarrow> exec_request \<Rightarrow> Manager \<times> 'w \<Rightarrow> (Manager \<times> 'w) \<times> exec_answer" where
  "Run_step X request mw = (case handle_request X request mw of (mw, reply) \<Rightarrow> (Manager_dispatch X mw, reply))"

definition Run_stop :: "Manager \<Rightarrow> Manager" where
  "Run_stop m = stopAll RpcUnavailable m"

text \<open>The goroutine of a stream takes the next message of its session and sends it.\<close>

definition take_outbound :: "nat \<Rightarrow> Manager \<Rightarrow> CoordinatorMessage option \<times> Manager" where
  "take_outbound p m =
     (case ss_outbound (session_at m p) of
        [] \<Rightarrow> (None, m)
      | message # rest \<Rightarrow> (Some message, on_session p (\<lambda>s. s\<lparr>ss_outbound := rest\<rparr>) m))"

end
