(* ===== verification/Chronos_Execution_Laws.thy ===== *)
theory Chronos_Execution_Laws
  imports Chronos_Execution
begin

text \<open>
  Invariants of the execution manager. What an invariant has to survive, every call to the world and every
  change to a session, is the interface \<open>exec_inv\<close>; that a step of the manager then keeps it is proved once.
\<close>

section \<open>Sessions in the heap\<close>

lemma on_session_simps [simp]:
  "length (mg_heap (on_session p f m)) = length (mg_heap m)" "mg_sessions (on_session p f m) = mg_sessions m"
  "mg_scheduler (on_session p f m) = mg_scheduler m" "mg_sequence (on_session p f m) = mg_sequence m"
  by (simp_all add: on_session_def)

lemma on_session_nth:
  "q < length (mg_heap m) \<Longrightarrow> mg_heap (on_session p f m) ! q = (if p = q then f (mg_heap m ! q) else mg_heap m ! q)"
  by (simp add: on_session_def)

lemma stopSession_simps [simp]:
  "length (mg_heap (stopSession p e m)) = length (mg_heap m)" "mg_scheduler (stopSession p e m) = mg_scheduler m"
  "mg_sequence (stopSession p e m) = mg_sequence m"
  by (simp_all add: stopSession_def Let_def)

lemma enqueue_simps:
  assumes "enqueue X p message m = (m', b)"
  shows "length (mg_heap m') = length (mg_heap m)" "mg_sessions m' = mg_sessions m"
  using assms by (auto simp: enqueue_def split: if_splits)

lemma stopped_sessions_subset: "map_of (mg_sessions (stopSession p e m)) k = Some q \<Longrightarrow> map_of (mg_sessions m) k = Some q"
  by (auto simp: stopSession_def Let_def split: if_splits)

lemma resend_length: "resend X p active m = (m', failure) \<Longrightarrow> length (mg_heap m') = length (mg_heap m)"
proof (induction active arbitrary: m)
  case (Cons a active)
  obtain workflowID task where a: "a = (workflowID, task)" by (cases a)
  let ?m = "on_session p (\<lambda>s. s\<lparr>ss_inflight := set_insert (ts_AttemptID task) (ss_inflight s)\<rparr>) m"
  show ?case
  proof (cases "assignment workflowID task")
    case (Inl e)
    with Cons.prems a show ?thesis by (auto simp: Let_def)
  next
    case (Inr message)
    obtain n b where "enqueue X p message ?m = (n, b)" by (cases "enqueue X p message ?m")
    with Cons.prems a Inr Cons.IH [of n] enqueue_simps(1) [OF this] show ?thesis by (cases b) (auto simp: Let_def)
  qed
qed simp

section \<open>The interface of an invariant\<close>

text \<open>What it takes to lease a task: the session has credit left, and the command was accepted.\<close>

definition lease_accepted ::
    "'w exec_env \<Rightarrow> nat \<Rightarrow> Manager \<Rightarrow> 'w \<Rightarrow> TaskState \<Rightarrow> Event \<Rightarrow> 'w \<Rightarrow> bool" where
  "lease_accepted X p m w task event w' \<longleftrightarrow>
     map_of (mg_sessions m) (ss_workerID (session_at m p)) = Some p \<and>
     \<not> ss_capacity (session_at m p) \<le> word_of_nat (length (ss_inflight (session_at m p))) \<and>
     (\<exists>command result. cmd_Kind command = CommandStart \<and> cmd_WorkerID command = ss_workerID (session_at m p) \<and>
        xe_Submit X command w = (w', Inr result) \<and> startedEvent result = Some event)"

text \<open>An invariant holds of the state that an operation returns.\<close>

definition kept :: "(Manager \<Rightarrow> 'w \<Rightarrow> bool) \<Rightarrow> (Manager \<times> 'w) \<times> 'r \<Rightarrow> bool" where
  "kept I r \<longleftrightarrow> I (fst (fst r)) (snd (fst r))"

lemma kept_simps [simp]: "kept I ((m, w), r) \<longleftrightarrow> I m w"
  by (simp add: kept_def)

lemma kept_case: "kept I (case q of (m, r) \<Rightarrow> ((m, w), r)) \<longleftrightarrow> I (fst q) w"
  by (cases q) simp

lemma case_not_found:
  "\<not> (\<exists>x. q = (Some x, True)) \<Longrightarrow> (case q of (Some x, True) \<Rightarrow> f x | _ \<Rightarrow> g) = g"
  by (cases q; cases "fst q"; cases "snd q") auto

lemma fire_all_idle:
  assumes "\<not> (\<exists>workflow timer. State (vw_Engine vw) workflowID = (Some workflow, True) \<and>
      map_of (wf_Timers workflow) (tm_ID due) = Some timer \<and> timer_due at workflow timer)"
  shows "fire_all X at ((workflowID, due) # timers) ((m, w), vw) = fire_all X at timers ((m, w), vw)"
  using assms
  by (cases "State (vw_Engine vw) workflowID"; cases "fst (State (vw_Engine vw) workflowID)"; cases "snd (State (vw_Engine vw) workflowID)")
    (auto split: option.splits)

locale exec_inv =
  fixes X :: "'w exec_env" and I :: "Manager \<Rightarrow> 'w \<Rightarrow> bool"
  assumes now: "I m w \<Longrightarrow> xe_Now X w = (w', t) \<Longrightarrow> I m w'"
    and view: "I m w \<Longrightarrow> xe_View X w = (w', v) \<Longrightarrow> I m w'"
    and submit: "I m w \<Longrightarrow> xe_Submit X command w = (w', r) \<Longrightarrow> I m w'"
    and table: "I m w \<Longrightarrow> gomap (mg_sessions m)"
    and pointer: "I m w \<Longrightarrow> map_of (mg_sessions m) k = Some p \<Longrightarrow> p < length (mg_heap m) \<and> ss_workerID (session_at m p) = k"
    and stop: "I m w \<Longrightarrow> p < length (mg_heap m) \<Longrightarrow> I (stopSession p e m) w"
    and acked: "I m w \<Longrightarrow> p < length (mg_heap m) \<Longrightarrow> enqueue X p (AckMessage a) m = (m', b) \<Longrightarrow> I m' w"
    and settled: "I m w \<Longrightarrow> reconcile engine m = Inr m' \<Longrightarrow> I m' w"
    and credited: "I m w \<Longrightarrow> map_of (mg_sessions m) k = Some p \<Longrightarrow> credits \<le> xe_MaxCredits X \<Longrightarrow>
      int (length (ss_inflight (session_at m p))) \<le> uint credits \<Longrightarrow> I (on_session p (\<lambda>s. s\<lparr>ss_capacity := credits\<rparr>) m) w"
    and closed: "I m w \<Longrightarrow> I (m\<lparr>mg_sessions := del k (mg_sessions m)\<rparr>) w"
    and opened: "I m w \<Longrightarrow> check_hello X hello w = (w', Inr (workerID, capabilities, active)) \<Longrightarrow>
      register_session workerID capabilities (wh_Credits hello) m = (p, m') \<Longrightarrow> set active' = set active \<Longrightarrow>
      length active' = length active \<Longrightarrow> resend X p active' m' = (m'', failure) \<Longrightarrow> I m'' w'"
    and handed: "I m w \<Longrightarrow> lease_accepted X p m w task event w' \<Longrightarrow>
      hand_over X p task event (m\<lparr>mg_scheduler := scheduler\<rparr>) = Inr m' \<Longrightarrow> I m' w'"
begin

lemma stop_entries:
  "I m w \<Longrightarrow> \<forall>entry \<in> set entries. snd entry < length (mg_heap m) \<Longrightarrow> I (fold (\<lambda>entry. stopSession (snd entry) e) entries m) w"
  by (induction entries arbitrary: m) (simp_all add: stop)

lemma stopAll_inv: "I m w \<Longrightarrow> I (stopAll e m) w"
  unfolding stopAll_def
  by (rule stop_entries) (auto dest: pointer simp: gomap_map_of_iff [OF table, symmetric])

lemma handleOpen_inv:
  assumes "I m w" "handleOpen X hello (m, w) = ((m', w'), r)"
  shows "I m' w'"
proof -
  obtain v q where hello: "check_hello X hello w = (v, q)" by (cases "check_hello X hello w")
  show ?thesis
  proof (cases q)
    case (Inl e)
    have "I m v" using hello assms(1) view
      by (auto simp: check_hello_def Let_def split: sum.splits if_splits prod.splits)
    with assms(2) hello Inl show ?thesis by (simp add: handleOpen_def)
  next
    case (Inr x)
    obtain workerID capabilities active where x: "x = (workerID, capabilities, active)" by (cases x)
    obtain p m1 where reg: "register_session workerID capabilities (wh_Credits hello) m = (p, m1)"
      by (cases "register_session workerID capabilities (wh_Credits hello) m")
    let ?sorted = "sort_key (\<lambda>(workflowID, task). [workflowID, td_ID (ts_Definition task)]) active"
    obtain m2 failure where send: "resend X p ?sorted m1 = (m2, failure)" by (cases "resend X p ?sorted m1")
    have I: "I m2 v" by (rule opened [OF assms(1) hello [unfolded Inr x] reg _ _ send]) simp_all
    have "p < length (mg_heap m1)" using reg by (auto simp: register_session_def Let_def)
    moreover have "length (mg_heap m2) = length (mg_heap m1)" by (rule resend_length [OF send])
    ultimately show ?thesis using I stop assms(2) hello Inr x reg send
      by (cases failure) (auto simp: handleOpen_def)
  qed
qed

lemma ackError_inv: "I m w \<Longrightarrow> p < length (mg_heap m) \<Longrightarrow> I (fst (ackError X p requestID e m)) w"
  by (auto simp: ackError_def split: prod.splits bool.splits intro: acked)

lemma ack_inv: "I m w \<Longrightarrow> p < length (mg_heap m) \<Longrightarrow> I (fst (ack X p kind requestID duplicate m)) w"
  by (auto simp: ack_def split: prod.splits bool.splits option.splits intro: acked stop)

lemma leader_view_inv: "I m w \<Longrightarrow> leader_view X w = (w', r) \<Longrightarrow> I m w'"
  by (auto simp: leader_view_def split: prod.splits sum.splits intro: view)

lemma renew_inv:
  assumes "I m w" and p: "p < length (mg_heap m)"
  shows "kept I (renew X p heartbeat (m, w))"
proof -
  obtain v q where lv: "leader_view X w = (v, q)" by (cases "leader_view X w")
  note Iv = leader_view_inv [OF assms(1) lv]
  show ?thesis
  proof (cases q)
    case (Inl e)
    with lv Iv show ?thesis by (simp add: renew_def)
  next
    case (Inr vw)
    show ?thesis
    proof (cases "\<exists>workflow. State (vw_Engine vw) (hb_WorkflowId heartbeat) = (Some workflow, True)")
      case False
      with lv Inr ackError_inv [OF Iv p] show ?thesis
        by (simp add: renew_def Let_def kept_case case_not_found)
    next
      case True
      then obtain workflow where st: "State (vw_Engine vw) (hb_WorkflowId heartbeat) = (Some workflow, True)" by blast
      obtain u t where nw: "xe_Now X v = (u, t)" by (cases "xe_Now X v")
      note Iu = now [OF Iv nw]
      let ?c = "renew_command (ss_workerID (session_at m p)) heartbeat (exec_max t (wf_UpdatedAt workflow))"
      obtain u2 r2 where sb: "xe_Submit X ?c u = (u2, r2)" by (cases "xe_Submit X ?c u")
      note Iu2 = submit [OF Iu sb]
      show ?thesis
        by (cases "Prepare (xe_digest X) (xe_encoder X) (vw_Engine vw) ?c"; cases r2)
          (auto simp: renew_def lv Inr st nw sb Let_def kept_case ackError_inv [OF Iu p] ackError_inv [OF Iu2 p] ack_inv [OF Iu2 p]
            split: prod.split)
    qed
  qed
qed

lemma reconciled_length: "reconcile engine m = Inr m' \<Longrightarrow> length (mg_heap m') = length (mg_heap m)"
proof -
  have "length (mg_heap (fold (\<lambda>(k, p). on_session p (g k)) entries m)) = length (mg_heap m)" for entries g
    by (induction entries arbitrary: m) auto
  then show "reconcile engine m = Inr m' \<Longrightarrow> length (mg_heap m') = length (mg_heap m)"
    by (auto simp: reconcile_def result_simps)
qed

lemma complete_inv:
  assumes "I m w" and p: "p < length (mg_heap m)"
  shows "kept I (Manager_complete X p completion (m, w))"
proof -
  obtain v q where lv: "leader_view X w = (v, q)" by (cases "leader_view X w")
  note Iv = leader_view_inv [OF assms(1) lv]
  show ?thesis
  proof (cases "completion_ok completion \<and> (\<exists>vw workflow. q = Inr vw \<and> State (vw_Engine vw) (tc_WorkflowId completion) = (Some workflow, True))")
    case False
    with lv assms(1) Iv ackError_inv [OF Iv p] show ?thesis
      by (cases q; cases "completion_ok completion") (simp_all add: Manager_complete_def Let_def kept_case case_not_found)
  next
    case True
    then obtain vw workflow where ok: "completion_ok completion" and q: "q = Inr vw"
      and st: "State (vw_Engine vw) (tc_WorkflowId completion) = (Some workflow, True)" by blast
    obtain u t where nw: "xe_Now X v = (u, t)" by (cases "xe_Now X v")
    note Iu = now [OF Iv nw]
    let ?c = "completion_command (ss_workerID (session_at m p)) completion (exec_max t (wf_UpdatedAt workflow))"
    obtain u2 r2 where sb: "xe_Submit X ?c u = (u2, r2)" by (cases "xe_Submit X ?c u")
    note Iu2 = submit [OF Iu sb]
    obtain u3 r3 where vw: "xe_View X u2 = (u3, r3)" by (cases "xe_View X u2")
    note Iu3 = view [OF Iu2 vw]
    have "I (fst (ack X p ''completion'' (tc_RequestId completion) (rs_Duplicate result) m3)) u3" if "reconcile e m = Inr m3" for e m3 result
      using ack_inv [OF settled [OF Iu3 that]] reconciled_length [OF that] p by simp
    then show ?thesis
      by (cases r2; cases r3)
        (auto simp: Manager_complete_def ok lv q st nw sb vw Let_def kept_case ackError_inv [OF Iu2 p] Iu3 split: prod.split sum.split)
  qed
qed

lemma handleMessage_inv:
  assumes "I m w"
  shows "kept I (handleMessage X sessionID workerID message (m, w))"
proof (cases "map_of (mg_sessions m) workerID")
  case None
  with assms show ?thesis by (simp add: handleMessage_def)
next
  case (Some p)
  with pointer [OF assms] have p: "p < length (mg_heap m)" by simp
  show ?thesis
    using Some assms renew_inv [OF assms p] complete_inv [OF assms p] credited [OF assms Some]
    by (cases message) (auto simp: handleMessage_def not_less)
qed

lemma handleClose_inv: "I m w \<Longrightarrow> I (handleClose sessionID workerID m) w"
  by (auto simp: handleClose_def closed split: option.split)

lemma fire_all_inv: "I m w \<Longrightarrow> kept I (fst (fire_all X at timers ((m, w), vw)))"
proof (induction timers arbitrary: m w vw)
  case (Cons item timers)
  obtain workflowID due where item: "item = (workflowID, due)" by (cases item)
  show ?case
  proof (cases "\<exists>workflow timer. State (vw_Engine vw) workflowID = (Some workflow, True) \<and>
      map_of (wf_Timers workflow) (tm_ID due) = Some timer \<and> timer_due at workflow timer")
    case False
    show ?thesis using Cons unfolding item fire_all_idle [OF False] by blast
  next
    case True
    then obtain workflow timer where st: "State (vw_Engine vw) workflowID = (Some workflow, True)"
      "map_of (wf_Timers workflow) (tm_ID due) = Some timer" "timer_due at workflow timer" by blast
    let ?c = "fire_command (xe_digest X) workflowID workflow timer at"
    obtain w1 r1 where sb: "xe_Submit X ?c w = (w1, r1)" by (cases "xe_Submit X ?c w")
    note I1 = submit [OF Cons.prems sb]
    obtain w2 r2 where vv: "xe_View X w1 = (w2, r2)" by (cases "xe_View X w1")
    note I2 = view [OF I1 vv]
    show ?thesis
      using I1 I2 Cons.IH settled [OF I2] by (cases r1; cases r2) (auto simp: item st sb vv split: sum.split)
  qed
qed simp

lemma fireTimers_inv: "I m w \<Longrightarrow> kept I (fst (fireTimers X ((m, w), vw)))"
  by (cases "xe_Now X w") (auto simp: fireTimers_def split: sum.split intro: now fire_all_inv)

lemma expire_all_inv: "I m w \<Longrightarrow> I m (fst (expire_all X at leases w))"
proof (induction leases arbitrary: w)
  case (Cons lease leases)
  let ?c = "expire_command (xe_digest X) lease at"
  obtain w1 r1 where sb: "xe_Submit X ?c w = (w1, r1)" by (cases "xe_Submit X ?c w")
  from Cons.IH [OF submit [OF Cons.prems sb]] submit [OF Cons.prems sb] show ?case by (cases r1) (simp_all add: sb)
qed simp

lemma expire_inv:
  assumes "I m w"
  shows "kept I (fst (expire X ((m, w), vw)))"
proof -
  obtain w1 t where nw: "xe_Now X w = (w1, t)" by (cases "xe_Now X w")
  note I1 = now [OF assms nw]
  show ?thesis
  proof (cases "engine_states (vw_Engine vw)")
    case (Inl e)
    with I1 show ?thesis by (simp add: expire_def nw)
  next
    case (Inr states)
    let ?l = "expired_leases t states"
    obtain w2 r2 where ea: "expire_all X t ?l w1 = (w2, r2)" by (cases "expire_all X t ?l w1")
    have I2: "I m w2" using expire_all_inv [OF I1, of t ?l] ea by simp
    obtain w3 r3 where vv: "xe_View X w2 = (w3, r3)" by (cases "xe_View X w2")
    note I3 = view [OF I2 vv]
    show ?thesis
      using I2 I3 settled [OF I3] by (cases r2; cases r3) (auto simp: expire_def nw Inr ea vv Let_def split: sum.split)
  qed
qed

lemma lease_task_inv:
  assumes I: "I m w" and p: "map_of (mg_sessions m) (ss_workerID (session_at m p)) = Some p"
    and room: "\<not> ss_capacity (session_at m p) \<le> word_of_nat (length (ss_inflight (session_at m p)))"
  shows "kept I (fst (lease_task X p plan ((m, w), vw)))"
proof (cases "fst (State (vw_Engine vw) (sk_WorkflowID (pn_Task plan)))")
  case None
  with I show ?thesis by (simp add: lease_task_def)
next
  case (Some workflow)
  let ?id = "sk_TaskID (pn_Task plan)" and ?task = "or_zero zero_TaskState (wf_Tasks workflow) (sk_TaskID (pn_Task plan))"
  obtain w1 t where nw: "xe_Now X w = (w1, t)" by (cases "xe_Now X w")
  note I1 = now [OF I nw]
  let ?at = "exec_max t (wf_UpdatedAt workflow)"
  let ?c = "start_command (xe_digest X) workflow ?id ?task (ss_workerID (session_at m p)) ?at (lease_length X ?task)"
  obtain w2 r2 where sb: "xe_Submit X ?c w1 = (w2, r2)" by (cases "xe_Submit X ?c w1")
  note I2 = submit [OF I1 sb]
  have "I m3 w2" if "r2 = Inr result" "startedEvent result = Some event"
    "hand_over X p ?task event (m\<lparr>mg_scheduler := scheduler\<rparr>) = Inr m3" for result event scheduler m3
  proof (rule handed [OF I1 _ that(3)])
    show "lease_accepted X p m w1 ?task event w2"
      unfolding lease_accepted_def using p room sb that(1,2)
      by (intro conjI exI [of _ ?c] exI [of _ result]) (simp_all add: start_command_def)
  qed
  with I I1 I2 show ?thesis
    by (auto simp: lease_task_def Some nw sb Let_def split: sum.split option.split)
qed

lemma worker_turn_inv:
  assumes "I m w"
  shows "kept I (fst (worker_turn X workerID ((m, w), vw)))"
proof (cases "map_of (mg_sessions m) workerID")
  case None
  with assms show ?thesis by (simp add: worker_turn_def)
next
  case (Some p)
  with pointer [OF assms Some] lease_task_inv [OF assms, of p] assms show ?thesis
    by (auto simp: worker_turn_def split: sum.split option.split)
qed

lemma dispatch_pass_inv: "I m w \<Longrightarrow> kept I (fst (dispatch_pass X workerIDs ((m, w), vw) n progress))"
proof (induction workerIDs arbitrary: m w vw n progress)
  case (Cons workerID workerIDs)
  obtain m1 w1 vw1 outcome where turn: "worker_turn X workerID ((m, w), vw) = (((m1, w1), vw1), outcome)"
    by (cases "worker_turn X workerID ((m, w), vw)") auto
  have I1: "I m1 w1" using worker_turn_inv [OF Cons.prems, of workerID vw] turn by simp
  obtain w2 r2 where vv: "xe_View X w1 = (w2, r2)" by (cases "xe_View X w1")
  note I2 = view [OF I1 vv]
  show ?case using I1 I2 Cons.IH by (cases outcome; cases r2) (simp_all add: turn vv)
qed simp

lemma dispatch_loop_inv: "I m w \<Longrightarrow> kept I (fst (dispatch_loop X workerIDs ((m, w), vw) n))"
proof (induction "nat (xe_MaxDispatch X) - n" arbitrary: m w vw n rule: less_induct)
  case less
  obtain m1 w1 vw1 k progress returned where
    pass: "dispatch_pass X workerIDs ((m, w), vw) n False = (((m1, w1), vw1), k, progress, returned)"
    by (cases "dispatch_pass X workerIDs ((m, w), vw) n False") auto
  have I1: "I m1 w1" using dispatch_pass_inv [OF less.prems, of workerIDs vw n False] pass by simp
  show ?case
  proof (cases "int n < xe_MaxDispatch X \<and> progress \<and> \<not> returned")
    case True
    with dispatch_pass_count [OF pass] have "nat (xe_MaxDispatch X) - k < nat (xe_MaxDispatch X) - n" by auto
    from less.hyps [OF this I1] True show ?thesis
      by (simp add: dispatch_loop.simps [of X workerIDs "((m, w), vw)"] pass)
  next
    case False
    with I1 less.prems show ?thesis
      by (auto simp: dispatch_loop.simps [of X workerIDs "((m, w), vw)"] pass)
  qed
qed

lemma stop_follower_inv: "I m w \<Longrightarrow> stop_follower ((m, w), vw) = Some mw \<Longrightarrow> I (fst mw) (snd mw)"
  by (auto simp: stop_follower_def stopAll_inv split: if_splits)

lemma dispatch_workers_inv: "I m w \<Longrightarrow> I (fst (dispatch_workers X ((m, w), vw))) (snd (dispatch_workers X ((m, w), vw)))"
  using dispatch_loop_inv [of m w "sort (keys (mg_sessions m))" vw 0] by (simp add: dispatch_workers_def kept_def)

lemma Manager_dispatch_inv:
  assumes "I m w"
  shows "I (fst (Manager_dispatch X (m, w))) (snd (Manager_dispatch X (m, w)))"
proof -
  obtain w1 r1 where vv: "xe_View X w = (w1, r1)" by (cases "xe_View X w")
  note I1 = view [OF assms vv]
  show ?thesis
  proof (cases r1)
    case (Inl e)
    with I1 show ?thesis by (simp add: Manager_dispatch_def vv)
  next
    case (Inr vw)
    obtain m2 w2 vw2 r2 where ft: "fireTimers X ((m, w1), vw) = (((m2, w2), vw2), r2)"
      by (cases "fireTimers X ((m, w1), vw)") auto
    have I2: "I m2 w2" using fireTimers_inv [OF I1, of vw] ft by simp
    obtain m3 w3 vw3 r3 where ex: "expire X ((m2, w2), vw2) = (((m3, w3), vw3), r3)"
      by (cases "expire X ((m2, w2), vw2)") auto
    have I3: "I m3 w3" using expire_inv [OF I2, of vw2] ex by simp
    show ?thesis
      using I2 I3 stop_follower_inv [OF I1, of vw] stop_follower_inv [OF I2, of vw2] stop_follower_inv [OF I3, of vw3]
        dispatch_workers_inv [OF I3, of vw3]
      by (cases r2; cases r3) (simp_all add: Manager_dispatch_def vv Inr ft ex split: option.split)
  qed
qed

lemma handle_request_inv: "I m w \<Longrightarrow> kept I (handle_request X request (m, w))"
proof (cases request)
  case (OpenRequest hello)
  then show "I m w \<Longrightarrow> kept I (handle_request X request (m, w))"
    by (cases "handleOpen X hello (m, w)") (auto simp: handle_request_def dest: handleOpen_inv)
next
  case (MessageRequest sessionID workerID message)
  then show "I m w \<Longrightarrow> kept I (handle_request X request (m, w))"
    using handleMessage_inv [of m w sessionID workerID message]
    by (cases "handleMessage X sessionID workerID message (m, w)") (auto simp: handle_request_def)
qed (simp_all add: handle_request_def handleClose_inv)

lemma Run_step_inv:
  assumes "I m w"
  shows "kept I (Run_step X request (m, w))"
proof -
  obtain m1 w1 reply where h: "handle_request X request (m, w) = ((m1, w1), reply)"
    by (cases "handle_request X request (m, w)") auto
  then have "I m1 w1" using handle_request_inv [OF assms, of request] by simp
  from Manager_dispatch_inv [OF this] show ?thesis by (simp add: Run_step_def h kept_def)
qed

end

section \<open>Credits\<close>

text \<open>
  A session never holds more leases than its credits, nor more messages than its buffer; the table of sessions
  names each session by its worker, and a session in it has not been stopped.
\<close>

definition session_ok :: "'w exec_env \<Rightarrow> session \<Rightarrow> bool" where
  "session_ok X s \<longleftrightarrow>
     ss_capacity s \<le> xe_MaxCredits X \<and> distinct (ss_inflight s) \<and> length (ss_inflight s) \<le> unat (ss_capacity s) \<and>
     int (length (ss_outbound s)) \<le> xe_OutboundBuffer X"

definition manager_ok :: "'w exec_env \<Rightarrow> Manager \<Rightarrow> bool" where
  "manager_ok X m \<longleftrightarrow>
     0 \<le> xe_OutboundBuffer X \<and> gomap (mg_sessions m) \<and>
     (\<forall>k p. map_of (mg_sessions m) k = Some p \<longrightarrow>
        p < length (mg_heap m) \<and> ss_workerID (mg_heap m ! p) = k \<and> ss_stopped (mg_heap m ! p) = None) \<and>
     (\<forall>p < length (mg_heap m). session_ok X (mg_heap m ! p) \<and> ss_id (mg_heap m ! p) = word_of_nat (Suc p)) \<and>
     mg_sequence m = word_of_nat (length (mg_heap m))"

lemma manager_ok_pointer:
  assumes "manager_ok X m" "map_of (mg_sessions m) k = Some p"
  shows "p < length (mg_heap m)" "ss_workerID (mg_heap m ! p) = k" "ss_stopped (mg_heap m ! p) = None"
  using assms unfolding manager_ok_def by blast+

lemma manager_ok_session: "manager_ok X m \<Longrightarrow> p < length (mg_heap m) \<Longrightarrow> session_ok X (mg_heap m ! p)"
  unfolding manager_ok_def by blast

lemma manager_ok_on_session:
  assumes "manager_ok X m" "p < length (mg_heap m)"
    and "session_ok X (mg_heap m ! p) \<Longrightarrow> session_ok X (f (mg_heap m ! p))"
    and "ss_workerID (f (mg_heap m ! p)) = ss_workerID (mg_heap m ! p)" "ss_id (f (mg_heap m ! p)) = ss_id (mg_heap m ! p)"
    and "ss_stopped (f (mg_heap m ! p)) = ss_stopped (mg_heap m ! p) \<or> (\<forall>k. map_of (mg_sessions m) k \<noteq> Some p)"
  shows "manager_ok X (on_session p f m)"
  using assms unfolding manager_ok_def on_session_simps by (auto simp: on_session_nth)

lemma manager_ok_drop: "manager_ok X m \<Longrightarrow> manager_ok X (m\<lparr>mg_sessions := del k (mg_sessions m)\<rparr>)"
  by (auto simp: manager_ok_def)

lemma manager_ok_stop:
  assumes ok: "manager_ok X m" and p: "p < length (mg_heap m)"
  shows "manager_ok X (stopSession p e m)"
proof -
  define k where "k = ss_workerID (session_at m p)"
  define n where "n = (if map_of (mg_sessions m) k = Some p then m\<lparr>mg_sessions := del k (mg_sessions m)\<rparr> else m)"
  have n: "manager_ok X n" "mg_heap n = mg_heap m" using ok manager_ok_drop [OF ok] by (simp_all add: n_def)
  have out: "map_of (mg_sessions n) j \<noteq> Some p" for j
  proof
    assume j: "map_of (mg_sessions n) j = Some p"
    then have "map_of (mg_sessions m) j = Some p" by (auto simp: n_def split: if_splits)
    with manager_ok_pointer(2) [OF ok this] have "j = k" by (simp add: k_def session_at_def)
    with j show False by (auto simp: n_def split: if_splits)
  qed
  let ?f = "\<lambda>s. if ss_stopped s = None then s\<lparr>ss_stopped := Some e\<rparr> else s"
  have "manager_ok X (on_session p ?f n)"
    by (rule manager_ok_on_session [OF n(1)]) (use p out n(2) in \<open>auto simp: session_ok_def\<close>)
  then show ?thesis unfolding stopSession_def Let_def n_def k_def .
qed

lemma manager_ok_enqueue:
  assumes ok: "manager_ok X m" and p: "p < length (mg_heap m)" and enq: "enqueue X p message m = (m', b)"
  shows "manager_ok X m'"
proof (cases "int (length (ss_outbound (session_at m p))) < xe_OutboundBuffer X")
  case True
  with enq have "m' = on_session p (\<lambda>s. s\<lparr>ss_outbound := ss_outbound s @ [message]\<rparr>) m" by (simp add: enqueue_def)
  with True show ?thesis by (auto intro!: manager_ok_on_session [OF ok p] simp: session_ok_def session_at_def)
next
  case False
  with enq ok show ?thesis by (simp add: enqueue_def)
qed

lemma manager_ok_sessions:
  assumes "manager_ok X m" "\<forall>entry \<in> set entries. snd entry < length (mg_heap m)"
    and "\<And>k s. session_ok X s \<Longrightarrow> session_ok X (g k s)" "\<And>k s. ss_workerID (g k s) = ss_workerID s" "\<And>k s. ss_id (g k s) = ss_id s"
      "\<And>k s. ss_stopped (g k s) = ss_stopped s"
  shows "manager_ok X (fold (\<lambda>(k, p). on_session p (g k)) entries m)"
  using assms(1,2)
proof (induction entries arbitrary: m)
  case (Cons entry entries)
  obtain k p where e: "entry = (k, p)" by (cases entry)
  have "manager_ok X (on_session p (g k) m)"
    by (rule manager_ok_on_session) (use Cons.prems e assms(3-6) in auto)
  from Cons.IH [OF this] Cons.prems e show ?case by simp
qed simp

lemma manager_ok_reconcile:
  assumes ok: "manager_ok X m" and rec: "reconcile engine m = Inr m'"
  shows "manager_ok X m'"
proof -
  from rec obtain states where m': "m' = fold (\<lambda>(workerID, p). on_session p (\<lambda>s.
      s\<lparr>ss_inflight := filter (\<lambda>attemptID. attemptID \<in> set (leased_by states workerID)) (ss_inflight s)\<rparr>)) (mg_sessions m) m"
    by (auto simp: reconcile_def result_simps)
  have "\<forall>entry \<in> set (mg_sessions m). snd entry < length (mg_heap m)"
    using ok by (auto simp: manager_ok_def gomap_map_of_iff [symmetric])
  from manager_ok_sessions [OF ok this, of "\<lambda>k s. s\<lparr>ss_inflight := filter (\<lambda>attemptID. attemptID \<in> set (leased_by states k)) (ss_inflight s)\<rparr>"]
  show ?thesis unfolding m' by (auto simp: session_ok_def intro: order_trans [OF length_filter_le])
qed

lemma manager_ok_credited:
  assumes ok: "manager_ok X m" and k: "map_of (mg_sessions m) k = Some p"
    and c: "credits \<le> xe_MaxCredits X" "int (length (ss_inflight (session_at m p))) \<le> uint credits"
  shows "manager_ok X (on_session p (\<lambda>s. s\<lparr>ss_capacity := credits\<rparr>) m)"
proof (rule manager_ok_on_session [OF ok manager_ok_pointer(1) [OF ok k]])
  have "length (ss_inflight (mg_heap m ! p)) \<le> unat credits" 
    using c(2) by (simp add: session_at_def flip: uint_nat of_nat_le_iff [where ?'a = int])
  with c(1) show "session_ok X (mg_heap m ! p) \<Longrightarrow> session_ok X ((mg_heap m ! p)\<lparr>ss_capacity := credits\<rparr>)"
    by (simp add: session_ok_def)
qed simp_all

lemma unat32_of_nat: "n < 2 ^ 32 \<Longrightarrow> unat (word_of_nat n :: uint32) = n"
  by (simp add: unat_of_nat)

lemma set_insert_length: "length (set_insert x xs) \<le> Suc (length xs)"
  by (simp add: set_insert_def)

lemma set_insert_distinct: "distinct xs \<Longrightarrow> distinct (set_insert x xs)"
  by (simp add: set_insert_def)

text \<open>A session with credit left may take one more lease.\<close>

lemma manager_ok_take:
  assumes ok: "manager_ok X m" and p: "p < length (mg_heap m)"
    and room: "length (ss_inflight (session_at m p)) < unat (ss_capacity (session_at m p))"
  shows "manager_ok X (on_session p (\<lambda>s. s\<lparr>ss_inflight := set_insert x (ss_inflight s)\<rparr>) m)"
proof (rule manager_ok_on_session [OF ok p])
  have "length (set_insert x (ss_inflight (mg_heap m ! p))) \<le> unat (ss_capacity (mg_heap m ! p))"
    using set_insert_length [of x "ss_inflight (mg_heap m ! p)"] room unfolding session_at_def by linarith
  then show "session_ok X (mg_heap m ! p) \<Longrightarrow>
      session_ok X ((mg_heap m ! p)\<lparr>ss_inflight := set_insert x (ss_inflight (mg_heap m ! p))\<rparr>)"
    by (simp add: session_ok_def set_insert_distinct)
qed simp_all

lemma manager_ok_register:
  assumes ok: "manager_ok X m" and credits: "credits \<le> xe_MaxCredits X"
    and reg: "register_session workerID capabilities credits m = (p, m')"
  shows "manager_ok X m'" and "p < length (mg_heap m')" and "mg_heap m' ! p = new_session (mg_sequence m + 1) workerID capabilities credits"
    and "map_of (mg_sessions m') workerID = Some p"
proof -
  define n where "n = (case map_of (mg_sessions m) workerID of None \<Rightarrow> m | Some previous \<Rightarrow> stopSession previous RpcAborted m)"
  have n: "manager_ok X n" using ok manager_ok_stop [OF ok] manager_ok_pointer(1) [OF ok]
    by (auto simp: n_def split: option.split)
  have seq: "mg_sequence n = mg_sequence m" by (simp add: n_def split: option.split)
  let ?s = "new_session (mg_sequence m + 1) workerID capabilities credits"
  have reg': "p = length (mg_heap n)" "m' = n\<lparr>mg_sequence := mg_sequence m + 1, mg_heap := mg_heap n @ [?s],
      mg_sessions := put workerID (length (mg_heap n)) (mg_sessions n)\<rparr>"
    using reg by (auto simp: register_session_def n_def [symmetric] seq [symmetric] Let_def)
  have old: "0 \<le> xe_OutboundBuffer X" "gomap (mg_sessions n)" "mg_sequence m = word_of_nat (length (mg_heap n))"
    "\<And>k q. map_of (mg_sessions n) k = Some q \<Longrightarrow>
        q < length (mg_heap n) \<and> ss_workerID (mg_heap n ! q) = k \<and> ss_stopped (mg_heap n ! q) = None"
    "\<And>q. q < length (mg_heap n) \<Longrightarrow> session_ok X (mg_heap n ! q) \<and> ss_id (mg_heap n ! q) = word_of_nat (Suc q)"
    using n unfolding manager_ok_def seq by simp_all
  have new: "session_ok X ?s" "ss_id ?s = word_of_nat (Suc (length (mg_heap n)))"
    using credits old(1,3) by (simp_all add: session_ok_def new_session_def)
  show "manager_ok X m'"
    unfolding manager_ok_def
  proof (intro conjI allI impI)
    fix k q assume kq: "map_of (mg_sessions m') k = Some q"
    show "q < length (mg_heap m')" "ss_workerID (mg_heap m' ! q) = k" "ss_stopped (mg_heap m' ! q) = None"
      using kq old(4) [of k q] by (auto simp: reg' new_session_def nth_append split: if_splits)
  next
    fix q assume "q < length (mg_heap m')"
    then show "session_ok X (mg_heap m' ! q)" "ss_id (mg_heap m' ! q) = word_of_nat (Suc q)"
      using new old(5) [of q] by (auto simp: reg' nth_append not_less less_Suc_eq)
  qed (use old in \<open>simp_all add: reg'\<close>)
qed (use reg in \<open>auto simp: register_session_def Let_def nth_append split: option.splits\<close>)


lemma resend_head:
  assumes "resend X p ((workflowID, task) # active) m = (m', failure)"
  obtains (faulty) e where "assignment workflowID task = Inl e" "failure = Some e"
      "m' = on_session p (\<lambda>s. s\<lparr>ss_inflight := set_insert (ts_AttemptID task) (ss_inflight s)\<rparr>) m"
  | (full) message where "assignment workflowID task = Inr message"
      "enqueue X p message (on_session p (\<lambda>s. s\<lparr>ss_inflight := set_insert (ts_AttemptID task) (ss_inflight s)\<rparr>) m) = (m', False)"
  | (sent) message n where "assignment workflowID task = Inr message"
      "enqueue X p message (on_session p (\<lambda>s. s\<lparr>ss_inflight := set_insert (ts_AttemptID task) (ss_inflight s)\<rparr>) m) = (n, True)"
      "resend X p active n = (m', failure)"
  using assms by (auto simp: Let_def split: sum.splits prod.splits bool.splits)

lemma enqueue_session:
  assumes "enqueue X p message m = (m', b)" "p < length (mg_heap m)"
  shows "ss_inflight (session_at m' p) = ss_inflight (session_at m p)" "ss_capacity (session_at m' p) = ss_capacity (session_at m p)"
  using assms by (auto simp: enqueue_def session_at_def on_session_nth split: if_splits)

lemma manager_ok_resend:
  assumes "manager_ok X m" "p < length (mg_heap m)" "resend X p active m = (m', failure)"
    and "length (ss_inflight (session_at m p)) + length active \<le> unat (ss_capacity (session_at m p))"
  shows "manager_ok X m'"
  using assms
proof (induction active arbitrary: m)
  case (Cons lease active)
  obtain workflowID task where lease: "lease = (workflowID, task)" by (cases lease)
  let ?n = "on_session p (\<lambda>s. s\<lparr>ss_inflight := set_insert (ts_AttemptID task) (ss_inflight s)\<rparr>) m"
  have room: "length (ss_inflight (session_at m p)) < unat (ss_capacity (session_at m p))" using Cons.prems(4) by simp
  note ok = manager_ok_take [OF Cons.prems(1,2) room, of "ts_AttemptID task"]
  have p: "p < length (mg_heap ?n)" using Cons.prems(2) by simp
  have left: "length (ss_inflight (session_at ?n p)) + length active \<le> unat (ss_capacity (session_at ?n p))"
    using Cons.prems(2,4) set_insert_length [of "ts_AttemptID task" "ss_inflight (mg_heap m ! p)"]
    by (simp add: session_at_def on_session_nth)
  from Cons.prems(3) [unfolded lease] show ?case
  proof (cases rule: resend_head)
    case faulty
    with ok show ?thesis by simp
  next
    case full
    from manager_ok_enqueue [OF ok p full(2)] show ?thesis .
  next
    case (sent message n)
    show ?thesis
      by (rule Cons.IH [OF manager_ok_enqueue [OF ok p sent(2)] _ sent(3)])
        (use p left in \<open>simp_all add: enqueue_simps(1) [OF sent(2)] enqueue_session [OF sent(2) p]\<close>)
  qed
qed simp

text \<open>
  The manager compares the number of active leases with the credits after converting it to 32 bits; the engines
  that it sees hold fewer leases than that.
\<close>

definition views_small :: "'w exec_env \<Rightarrow> bool" where
  "views_small X \<longleftrightarrow>
     (\<forall>w w' vw capabilities workerID active. xe_View X w = (w', Inr vw) \<longrightarrow>
        active_leases capabilities workerID (vw_Engine vw) = Inr active \<longrightarrow> length active < 2 ^ 32)"

lemma check_hello_credits:
  assumes small: "views_small X" and hello: "check_hello X hello w = (w', Inr (workerID, capabilities, active))"
  shows "wh_Credits hello \<le> xe_MaxCredits X" "length active \<le> unat (wh_Credits hello)"
proof -
  from hello obtain vw where v: "xe_View X w = (w', Inr vw)" "active_leases capabilities workerID (vw_Engine vw) = Inr active"
    and c: "\<not> wh_Credits hello < word_of_nat (length active)" "wh_Credits hello \<le> xe_MaxCredits X"
    by (auto simp: check_hello_def Let_def result_simps not_less split: sum.splits if_splits prod.splits)
  then have "length active < 2 ^ 32" using small unfolding views_small_def by blast
  then have "unat (word_of_nat (length active) :: uint32) = length active" by (simp add: unat32_of_nat)
  with c show "wh_Credits hello \<le> xe_MaxCredits X" "length active \<le> unat (wh_Credits hello)"
    by (simp_all add: not_less word_le_nat_alt)
qed

lemma manager_ok_opened:
  assumes ok: "manager_ok X m" and small: "views_small X"
    and hello: "check_hello X hello w = (w', Inr (workerID, capabilities, active))"
    and reg: "register_session workerID capabilities (wh_Credits hello) m = (p, m')"
    and len: "length active' = length active" and send: "resend X p active' m' = (m'', failure)"
  shows "manager_ok X m''"
proof -
  note credits = check_hello_credits [OF small hello]
  note r = manager_ok_register [OF ok credits(1) reg]
  from manager_ok_resend [OF r(1,2) send] credits(2) len show ?thesis
    by (simp add: session_at_def r(3) new_session_def)
qed

lemma credit_left:
  assumes ok: "manager_ok X m" and p: "p < length (mg_heap m)"
    and room: "\<not> ss_capacity (session_at m p) \<le> word_of_nat (length (ss_inflight (session_at m p)))"
  shows "length (ss_inflight (session_at m p)) < unat (ss_capacity (session_at m p))"
proof -
  let ?s = "session_at m p"
  have le: "length (ss_inflight ?s) \<le> unat (ss_capacity ?s)"
    using manager_ok_session [OF ok p] by (simp add: session_ok_def session_at_def)
  have "unat (ss_capacity ?s) < 2 ^ 32"
    using unsigned_less [of "ss_capacity ?s", where ?'a = nat] by simp
  with le have "unat (word_of_nat (length (ss_inflight ?s)) :: uint32) = length (ss_inflight ?s)" by (simp add: unat32_of_nat)
  with room show ?thesis by (simp add: not_le word_less_nat_alt)
qed

lemma manager_ok_scheduler [simp]: "manager_ok X (m\<lparr>mg_scheduler := scheduler\<rparr>) = manager_ok X m"
  by (simp add: manager_ok_def)

lemma hand_over_cases:
  assumes "hand_over X p task event m = Inr m'"
  obtains message n b where "assignmentFromEvent (ts_Definition task) event (ts_Compensation task) (ts_Payload task) = Inr message"
    "enqueue X p message (on_session p (\<lambda>s. s\<lparr>ss_inflight := set_insert (ev_AttemptID event) (ss_inflight s)\<rparr>) m) = (n, b)"
    "m' = (if b then n else stopSession p RpcResourceExhausted n)"
proof -
  let ?n = "on_session p (\<lambda>s. s\<lparr>ss_inflight := set_insert (ev_AttemptID event) (ss_inflight s)\<rparr>) m"
  from assms obtain message where a: "assignmentFromEvent (ts_Definition task) event (ts_Compensation task) (ts_Payload task) = Inr message"
    and m': "m' = (case enqueue X p message ?n of (m, True) \<Rightarrow> m | (m, False) \<Rightarrow> stopSession p RpcResourceExhausted m)"
    by (auto simp: hand_over_def Let_def result_simps)
  obtain n b where "enqueue X p message ?n = (n, b)" by (cases "enqueue X p message ?n")
  with m' show thesis by (intro that [OF a]) (auto split: bool.splits)
qed

lemma manager_ok_handed:
  assumes ok: "manager_ok X m" and leased: "lease_accepted X p m w task event w'"
    and hand: "hand_over X p task event (m\<lparr>mg_scheduler := scheduler\<rparr>) = Inr m'"
  shows "manager_ok X m'"
proof -
  let ?m = "m\<lparr>mg_scheduler := scheduler\<rparr>"
  let ?n = "on_session p (\<lambda>s. s\<lparr>ss_inflight := set_insert (ev_AttemptID event) (ss_inflight s)\<rparr>) ?m"
  have p: "p < length (mg_heap m)" using leased manager_ok_pointer(1) [OF ok] by (auto simp: lease_accepted_def)
  have "length (ss_inflight (session_at m p)) < unat (ss_capacity (session_at m p))"
    using leased by (intro credit_left [OF ok p]) (simp add: lease_accepted_def)
  then have take: "manager_ok X ?n" using ok p by (intro manager_ok_take) (simp_all add: session_at_def)
  have pn: "p < length (mg_heap ?n)" using p by simp
  from hand show ?thesis
  proof (cases rule: hand_over_cases)
    case (1 message n b)
    note n = manager_ok_enqueue [OF take pn 1(2)]
    from n manager_ok_stop [OF n] 1(3) pn show ?thesis by (simp add: enqueue_simps(1) [OF 1(2)])
  qed
qed

definition credits_inv :: "'w exec_env \<Rightarrow> Manager \<Rightarrow> 'w \<Rightarrow> bool" where
  "credits_inv X m w \<longleftrightarrow> views_small X \<and> manager_ok X m"

interpretation credit: exec_inv X "credits_inv X" for X :: "'w exec_env"
proof
  fix m :: Manager and w :: 'w
  assume I: "credits_inv X m w"
  then have ok: "manager_ok X m" and small: "views_small X" by (simp_all add: credits_inv_def)
  show "gomap (mg_sessions m)" using ok unfolding manager_ok_def by blast
  show "p < length (mg_heap m) \<and> ss_workerID (session_at m p) = k" if "map_of (mg_sessions m) k = Some p" for k p
    using manager_ok_pointer [OF ok that] by (simp add: session_at_def)
  show "credits_inv X m w'" for w' using I by (simp add: credits_inv_def)
  show "credits_inv X m w'" for w' using I by (simp add: credits_inv_def)
  show "credits_inv X m w'" for w' using I by (simp add: credits_inv_def)
  show "credits_inv X (stopSession p e m) w" if "p < length (mg_heap m)" for p e
    using manager_ok_stop [OF ok that] small by (simp add: credits_inv_def)
  show "credits_inv X m' w" if "p < length (mg_heap m)" "enqueue X p (AckMessage a) m = (m', b)" for p a m' b
    using manager_ok_enqueue [OF ok that] small by (simp add: credits_inv_def)
  show "credits_inv X m' w" if "reconcile engine m = Inr m'" for engine m'
    using manager_ok_reconcile [OF ok that] small by (simp add: credits_inv_def)
  show "credits_inv X (on_session p (\<lambda>s. s\<lparr>ss_capacity := credits\<rparr>) m) w"
    if "map_of (mg_sessions m) k = Some p" "credits \<le> xe_MaxCredits X" "int (length (ss_inflight (session_at m p))) \<le> uint credits"
    for k p credits
    using manager_ok_credited [OF ok that] small by (simp add: credits_inv_def)
  show "credits_inv X (m\<lparr>mg_sessions := del k (mg_sessions m)\<rparr>) w" for k
    using manager_ok_drop [OF ok] small by (simp add: credits_inv_def)
  show "credits_inv X m'' w'"
    if "check_hello X hello w = (w', Inr (workerID, capabilities, active))"
      "register_session workerID capabilities (wh_Credits hello) m = (p, m')"
      "length active' = length active" "resend X p active' m' = (m'', failure)"
    for hello w' workerID capabilities active p m' active' m'' failure
    using manager_ok_opened [OF ok small that] small by (simp add: credits_inv_def)
  show "credits_inv X m' w'"
    if "lease_accepted X p m w task event w'" "hand_over X p task event (m\<lparr>mg_scheduler := scheduler\<rparr>) = Inr m'"
    for p task event w' scheduler m'
    using manager_ok_handed [OF ok that] small by (simp add: credits_inv_def)
qed


section \<open>Runs of the manager\<close>

text \<open>
  What the process does: the manager takes a request or a tick, the goroutine of a stream takes a message of
  its session, the manager stops all sessions at the end, and the world moves on by itself.
\<close>

inductive exec_reach :: "'w exec_env \<Rightarrow> ('w \<Rightarrow> 'w \<Rightarrow> bool) \<Rightarrow> Manager \<times> 'w \<Rightarrow> Manager \<times> 'w \<Rightarrow> bool"
  for X :: "'w exec_env" and world :: "'w \<Rightarrow> 'w \<Rightarrow> bool" and start :: "Manager \<times> 'w" where
  begun: "exec_reach X world start start"
| request: "exec_reach X world start mw \<Longrightarrow> exec_reach X world start (fst (Run_step X request mw))"
| sent: "exec_reach X world start (m, w) \<Longrightarrow> p < length (mg_heap m) \<Longrightarrow> exec_reach X world start (snd (take_outbound p m), w)"
| ended: "exec_reach X world start (m, w) \<Longrightarrow> exec_reach X world start (Run_stop m, w)"
| moved: "exec_reach X world start (m, w) \<Longrightarrow> world w w' \<Longrightarrow> exec_reach X world start (m, w')"

locale exec_run_inv = exec_inv X I for X :: "'w exec_env" and I :: "Manager \<Rightarrow> 'w \<Rightarrow> bool" +
  fixes world :: "'w \<Rightarrow> 'w \<Rightarrow> bool"
  assumes world: "I m w \<Longrightarrow> world w w' \<Longrightarrow> I m w'"
    and taken: "I m w \<Longrightarrow> p < length (mg_heap m) \<Longrightarrow> ss_outbound (session_at m p) = message # rest \<Longrightarrow>
      I (on_session p (\<lambda>s. s\<lparr>ss_outbound := rest\<rparr>) m) w"
begin

lemma take_inv: "I m w \<Longrightarrow> p < length (mg_heap m) \<Longrightarrow> I (snd (take_outbound p m)) w"
  by (auto simp: take_outbound_def taken split: list.split)

theorem reach_inv:
  assumes "exec_reach X world start mw" "I (fst start) (snd start)"
  shows "I (fst mw) (snd mw)"
  using assms(1)
proof induction
  case (request mw request)
  then show ?case using Run_step_inv [of "fst mw" "snd mw" request] by (simp add: kept_def)
qed (use assms(2) in \<open>simp_all add: take_inv world Run_stop_def stopAll_inv\<close>)

end

lemma manager_ok_taken:
  assumes ok: "manager_ok X m" and p: "p < length (mg_heap m)" and out: "ss_outbound (session_at m p) = message # rest"
  shows "manager_ok X (on_session p (\<lambda>s. s\<lparr>ss_outbound := rest\<rparr>) m)"
  by (rule manager_ok_on_session [OF ok p]) (use out in \<open>auto simp: session_ok_def session_at_def\<close>)

interpretation credit_run: exec_run_inv X "credits_inv X" world for X :: "'w exec_env" and world
  by unfold_locales (auto simp: credits_inv_def manager_ok_taken)

lemma New_ok:
  assumes "Manager_New H J clock config = Inr (X, m)"
  shows "manager_ok X m"
proof -
  have "0 \<le> or_default n (uint c)" for n :: int and c :: uint32 by (simp add: or_default_def)
  with assms show ?thesis
    by (auto simp: Manager_New_def manager_ok_def Let_def split: option.splits if_splits)
qed

end
