(* ===== verification/Chronos_Assignments.thy ===== *)
theory Chronos_Assignments
  imports Chronos_Execution_Laws
begin

text \<open>
  What the execution manager sends to workers: every assignment in a queue is backed by a lease, either one that
  the engine committed for that worker or one that a leader's view showed. The world is recorded for that.
\<close>

section \<open>The recorded world\<close>


text \<open>
  The state of the world may be anything; here it knows what the manager saw of it so far, the views and the
  commands with their results. Any world can be extended by such a record, which nothing reads.
\<close>

datatype seen = Viewed "exec_err + View" | Submitted Command "exec_err + Result"

definition recording :: "'w exec_env \<Rightarrow> ('w \<Rightarrow> seen list) \<Rightarrow> bool" where
  "recording X history \<longleftrightarrow>
     (\<forall>w w' r. xe_View X w = (w', r) \<longrightarrow> history w' = history w @ [Viewed r]) \<and>
     (\<forall>w w' command r. xe_Submit X command w = (w', r) \<longrightarrow> history w' = history w @ [Submitted command r]) \<and>
     (\<forall>w w' t. xe_Now X w = (w', t) \<longrightarrow> history w' = history w)"

lemma recording_view: "recording X history \<Longrightarrow> xe_View X w = (w', r) \<Longrightarrow> history w' = history w @ [Viewed r]"
  and recording_submit: "recording X history \<Longrightarrow> xe_Submit X command w = (w', r') \<Longrightarrow> history w' = history w @ [Submitted command r']"
  and recording_now: "recording X history \<Longrightarrow> xe_Now X w = (w', t) \<Longrightarrow> history w' = history w"
  unfolding recording_def by blast+

definition recorded :: "'w exec_env \<Rightarrow> ('w \<times> seen list) exec_env" where
  "recorded X =
     \<lparr>xe_View = (\<lambda>(w, log). case xe_View X w of (w, r) \<Rightarrow> ((w, log @ [Viewed r]), r)),
      xe_Submit = (\<lambda>command (w, log). case xe_Submit X command w of (w, r) \<Rightarrow> ((w, log @ [Submitted command r]), r)),
      xe_Now = (\<lambda>(w, log). case xe_Now X w of (w, t) \<Rightarrow> ((w, log), t)),
      xe_AckFailpoint = xe_AckFailpoint X, xe_digest = xe_digest X, xe_encoder = xe_encoder X,
      xe_LeaseMillis = xe_LeaseMillis X, xe_TickInterval = xe_TickInterval X, xe_MaxCredits = xe_MaxCredits X,
      xe_OutboundBuffer = xe_OutboundBuffer X, xe_MaxDispatch = xe_MaxDispatch X\<rparr>"

lemma recording_recorded: "recording (recorded X) snd"
  by (auto simp: recording_def recorded_def split: prod.splits)

text \<open>An assignment is backed by a lease that was committed for the worker, or by one that a view showed.\<close>

definition assigns :: "TaskDefinition \<Rightarrow> Event \<Rightarrow> TaskAssignment \<Rightarrow> bool" where
  "assigns definition event a \<longleftrightarrow>
     ta_WorkflowId a = ev_WorkflowID event \<and> ta_TaskId a = ev_TaskID event \<and> ta_AttemptId a = ev_AttemptID event \<and>
     ta_Attempt a = ev_Attempt event \<and> ta_WorkerId a = ev_WorkerID event \<and> ta_LeaseExpiresAt a = ev_LeaseUntil event \<and>
     ta_FencingToken a = ev_Fence event \<and> ta_IdempotencyKey a = ev_Idempotency event \<and>
     taskType definition (ta_Compensation a) = Inr (ta_TaskType a)"

definition committed_lease :: "seen list \<Rightarrow> string \<Rightarrow> TaskAssignment \<Rightarrow> bool" where
  "committed_lease log workerID a \<longleftrightarrow>
     (\<exists>command result event definition. Submitted command (Inr result) \<in> set log \<and> cmd_Kind command = CommandStart \<and>
        cmd_WorkerID command = workerID \<and> startedEvent result = Some event \<and> assigns definition event a)"

definition shown_lease :: "seen list \<Rightarrow> string \<Rightarrow> TaskAssignment \<Rightarrow> bool" where
  "shown_lease log workerID a \<longleftrightarrow>
     (\<exists>vw workflow taskID task. Viewed (Inr vw) \<in> set log \<and> vw_Leader vw \<and>
        fst (State (vw_Engine vw) (ta_WorkflowId a)) = Some workflow \<and> (taskID, task) \<in> set (wf_Tasks workflow) \<and>
        task_leased task \<and> ts_WorkerID task = workerID \<and> ta_WorkerId a = workerID \<and>
        ta_AttemptId a = ts_AttemptID task \<and> ta_FencingToken a = ts_Fence task \<and> ta_LeaseExpiresAt a = ts_LeaseUntil task \<and>
        capabilityFor task = Inr (ta_TaskType a))"

definition backed :: "seen list \<Rightarrow> string \<Rightarrow> TaskAssignment \<Rightarrow> bool" where
  "backed log workerID a \<longleftrightarrow> committed_lease log workerID a \<or> shown_lease log workerID a"


section \<open>The queues\<close>

definition queue_backed :: "seen list \<Rightarrow> session \<Rightarrow> bool" where
  "queue_backed log s \<longleftrightarrow> (\<forall>a. AssignmentMessage a \<in> set (ss_outbound s) \<longrightarrow> backed log (ss_workerID s) a)"

definition assigned :: "seen list \<Rightarrow> Manager \<Rightarrow> bool" where
  "assigned log m \<longleftrightarrow> (\<forall>p < length (mg_heap m). queue_backed log (mg_heap m ! p))"

lemma backed_mono: "set log \<subseteq> set log' \<Longrightarrow> backed log workerID a \<Longrightarrow> backed log' workerID a"
  unfolding backed_def committed_lease_def shown_lease_def by blast

lemma assigned_mono: "assigned log m \<Longrightarrow> set log \<subseteq> set log' \<Longrightarrow> assigned log' m"
  unfolding assigned_def queue_backed_def using backed_mono by blast

lemma assigned_on_session:
  assumes "assigned log m" "p < length (mg_heap m)"
    and "queue_backed log (mg_heap m ! p) \<Longrightarrow> queue_backed log (f (mg_heap m ! p))"
  shows "assigned log (on_session p f m)"
  using assms by (auto simp: assigned_def on_session_nth)

lemma assigned_same_queue:
  assumes "assigned log m" "p < length (mg_heap m)" "\<And>s. ss_outbound (f s) = ss_outbound s" "\<And>s. ss_workerID (f s) = ss_workerID s"
  shows "assigned log (on_session p f m)"
  by (rule assigned_on_session [OF assms(1,2)]) (simp add: queue_backed_def assms(3,4))

lemma assigned_table [simp]:
  "assigned log (m\<lparr>mg_sessions := sessions\<rparr>) = assigned log m" "assigned log (m\<lparr>mg_scheduler := scheduler\<rparr>) = assigned log m"
  by (simp_all add: assigned_def)

lemma assigned_stop: "assigned log m \<Longrightarrow> p < length (mg_heap m) \<Longrightarrow> assigned log (stopSession p e m)"
  unfolding stopSession_def Let_def by (intro assigned_same_queue) simp_all

lemma assigned_enqueue:
  assumes "assigned log m" "p < length (mg_heap m)" "enqueue X p message m = (m', b)"
    and "\<And>a. message = AssignmentMessage a \<Longrightarrow> backed log (ss_workerID (session_at m p)) a"
  shows "assigned log m'"
proof (cases b)
  case True
  with assms(3) have "m' = on_session p (\<lambda>s. s\<lparr>ss_outbound := ss_outbound s @ [message]\<rparr>) m"
    by (auto simp: enqueue_def split: if_splits)
  with assms show ?thesis by (auto intro!: assigned_on_session simp: queue_backed_def session_at_def)
next
  case False
  with assms show ?thesis by (auto simp: enqueue_def split: if_splits)
qed

lemma assigned_reconcile:
  assumes "assigned log m" "reconcile engine m = Inr m'" "\<forall>entry \<in> set (mg_sessions m). snd entry < length (mg_heap m)"
  shows "assigned log m'"
proof -
  have "assigned log (fold (\<lambda>(k, p). on_session p (\<lambda>s. s\<lparr>ss_inflight := g k s\<rparr>)) entries m)"
    if "\<forall>entry \<in> set entries. snd entry < length (mg_heap m)" for entries g
    using assms(1) that by (induction entries arbitrary: m) (auto simp: assigned_same_queue)
  with assms(2,3) show ?thesis by (auto simp: reconcile_def result_simps)
qed

lemma assigned_register:
  assumes "assigned log m" "manager_ok X m" "register_session workerID capabilities credits m = (p, m')"
  shows "assigned log m'"
proof -
  define n where "n = (case map_of (mg_sessions m) workerID of None \<Rightarrow> m | Some previous \<Rightarrow> stopSession previous RpcAborted m)"
  have "assigned log n" using assms(1) assigned_stop manager_ok_pointer(1) [OF assms(2)] by (auto simp: n_def split: option.split)
  then show ?thesis using assms(3)
    by (auto simp: register_session_def n_def [symmetric] Let_def assigned_def nth_append queue_backed_def new_session_def less_Suc_eq)
qed

section \<open>Leases that a view shows\<close>

lemma assignment_of:
  "assignmentFromEvent definition event compensation payload = Inr message \<Longrightarrow>
     \<exists>a. message = AssignmentMessage a \<and> assigns definition event a"
  by (auto simp: assignmentFromEvent_def result_simps assigns_def)

lemma foldE_collects:
  assumes "foldE f acc xs = Inr r" "\<And>acc x r. x \<in> set xs \<Longrightarrow> f acc x = Inr r \<Longrightarrow> \<forall>y \<in> set r. y \<in> set acc \<or> P y"
  shows "\<forall>y \<in> set r. y \<in> set acc \<or> P y"
  using assms
proof (induction xs arbitrary: acc)
  case (Cons x xs)
  then obtain acc' where "f acc x = Inr acc'" "foldE f acc' xs = Inr r" by (auto simp: result_simps)
  with Cons.IH [of acc'] Cons.prems(2) [of x acc acc'] Cons.prems(2) show ?case by fastforce
qed (simp add: result_simps)

lemma engine_states_member:
  assumes "engine_states e = Inr states" "(workflowID, workflow) \<in> set states"
  shows "fst (State e workflowID) = Some workflow"
proof -
  have "\<forall>y \<in> set states. y \<in> set [] \<or> (case y of (workflowID, workflow) \<Rightarrow> fst (State e workflowID) = Some workflow)"
    by (rule foldE_collects [OF assms(1) [unfolded engine_states_def]]) (auto split: option.splits)
  with assms(2) show ?thesis by fastforce
qed

definition shown_task :: "string list \<Rightarrow> string \<Rightarrow> Engine \<Rightarrow> string \<times> TaskState \<Rightarrow> bool" where
  "shown_task capability workerID e = (\<lambda>(workflowID, task). \<exists>workflow taskID.
     fst (State e workflowID) = Some workflow \<and> (taskID, task) \<in> set (wf_Tasks workflow) \<and>
     task_leased task \<and> ts_WorkerID task = workerID \<and> (\<exists>kind. capabilityFor task = Inr kind \<and> kind \<in> set capability))"

lemma active_leases_shown:
  assumes "active_leases capability workerID e = Inr active" "lease \<in> set active"
  shows "shown_task capability workerID e lease"
proof -
  from assms(1) obtain states where states: "engine_states e = Inr states"
    and active: "foldE (\<lambda>active (workflowID, workflow).
         foldE (note_active capability workerID workflowID) active (wf_Tasks workflow)) [] states = Inr active"
    by (auto simp: active_leases_def result_simps)
  have "\<forall>y \<in> set active. y \<in> set [] \<or> shown_task capability workerID e y"
  proof (rule foldE_collects [OF active], clarify)
    fix acc r workflowID workflow workflowID' task
    assume mem: "(workflowID, workflow) \<in> set states"
      and inner: "foldE (note_active capability workerID workflowID) acc (wf_Tasks workflow) = Inr r"
      and y: "(workflowID', task) \<in> set r" "\<not> shown_task capability workerID e (workflowID', task)"
    have "\<forall>y \<in> set r. y \<in> set acc \<or> shown_task capability workerID e y"
      by (rule foldE_collects [OF inner])
        (use engine_states_member [OF states mem] in
          \<open>auto simp: note_active_def Let_def result_simps shown_task_def split: if_splits\<close>)
    with y show "(workflowID', task) \<in> set acc" by blast
  qed
  with assms(2) show ?thesis by simp
qed

lemma shown_task_backed:
  assumes "Viewed (Inr vw) \<in> set log" "vw_Leader vw" "shown_task capability workerID (vw_Engine vw) (workflowID, task)"
    and "assignment workflowID task = Inr message"
  shows "message = AssignmentMessage a \<Longrightarrow> backed log workerID a"
  using assms by (auto simp: backed_def shown_lease_def shown_task_def assignment_def capabilityFor_def
      assignmentFromEvent_def result_simps)

lemma assigned_resend:
  assumes "assigned log m" "p < length (mg_heap m)" "resend X p active m = (m', failure)" "ss_workerID (session_at m p) = workerID"
    and "Viewed (Inr vw) \<in> set log" "vw_Leader vw" "\<forall>lease \<in> set active. shown_task capability workerID (vw_Engine vw) lease"
  shows "assigned log m'"
  using assms(1-4,7)
proof (induction active arbitrary: m)
  case (Cons lease active)
  obtain workflowID task where lease: "lease = (workflowID, task)" by (cases lease)
  let ?n = "on_session p (\<lambda>s. s\<lparr>ss_inflight := set_insert (ts_AttemptID task) (ss_inflight s)\<rparr>) m"
  have n: "assigned log ?n" "p < length (mg_heap ?n)" "ss_workerID (session_at ?n p) = workerID"
    using Cons.prems assigned_same_queue by (simp_all add: session_at_def on_session_nth)
  have shown: "shown_task capability workerID (vw_Engine vw) (workflowID, task)" using Cons.prems(5) lease by simp
  have backed: "backed log (ss_workerID (session_at ?n p)) a"
    if "assignment workflowID task = Inr message" "message = AssignmentMessage a" for message a
    using shown_task_backed [OF assms(5,6) shown that] n(3) by simp
  from Cons.prems(3) [unfolded lease] show ?case
  proof (cases rule: resend_head)
    case faulty
    with n(1) show ?thesis by simp
  next
    case (full message)
    from assigned_enqueue [OF n(1,2) full(2) backed [OF full(1)]] show ?thesis .
  next
    case (sent message k)
    note k = assigned_enqueue [OF n(1,2) sent(2) backed [OF sent(1)]]
    have "ss_workerID (session_at k p) = workerID"
      using sent(2) n(2,3) by (auto simp: enqueue_def session_at_def on_session_nth split: if_splits)
    then show ?thesis using Cons.IH [OF k _ sent(3)] Cons.prems(5) n(2) enqueue_simps(1) [OF sent(2)] by simp
  qed
qed simp


section \<open>The invariant\<close>

lemma check_hello_view:
  assumes "check_hello X hello w = (w', Inr (workerID, capabilities, active))"
  obtains vw where "xe_View X w = (w', Inr vw)" "vw_Leader vw" "active_leases capabilities workerID (vw_Engine vw) = Inr active"
  using assms by (auto simp: check_hello_def Let_def result_simps split: sum.splits if_splits prod.splits)

lemma register_worker:
  "register_session workerID capabilities credits m = (p, m') \<Longrightarrow> p < length (mg_heap m') \<and> ss_workerID (session_at m' p) = workerID"
  by (auto simp: register_session_def Let_def session_at_def new_session_def nth_append split: option.splits)

lemma assigned_opened:
  assumes ok: "manager_ok X m" "assigned (history w) m" and rec: "recording X history"
    and hello: "check_hello X hello w = (w', Inr (workerID, capabilities, active))"
    and reg: "register_session workerID capabilities (wh_Credits hello) m = (p, m')"
    and same: "set active' = set active" and send: "resend X p active' m' = (m'', failure)"
  shows "assigned (history w') m''"
proof -
  obtain vw where vw: "xe_View X w = (w', Inr vw)" "vw_Leader vw" "active_leases capabilities workerID (vw_Engine vw) = Inr active"
    by (rule check_hello_view [OF hello])
  have h: "history w' = history w @ [Viewed (Inr vw)]" by (rule recording_view [OF rec vw(1)])
  have "assigned (history w') m'"
    by (rule assigned_mono [OF assigned_register [OF ok(2,1) reg]]) (auto simp: h)
  from assigned_resend [OF this _ send _ _ vw(2), of workerID capabilities] register_worker [OF reg]
    active_leases_shown [OF vw(3)] same show ?thesis by (simp add: h)
qed

lemma assigned_handed:
  assumes ok: "manager_ok X m" "assigned (history w) m" and rec: "recording X history"
    and leased: "lease_accepted X p m w task event w'"
    and hand: "hand_over X p task event (m\<lparr>mg_scheduler := scheduler\<rparr>) = Inr m'"
  shows "assigned (history w') m'"
proof -
  from leased obtain command result where cmd: "cmd_Kind command = CommandStart" "cmd_WorkerID command = ss_workerID (session_at m p)"
    "xe_Submit X command w = (w', Inr result)" "startedEvent result = Some event"
    and k: "map_of (mg_sessions m) (ss_workerID (session_at m p)) = Some p" by (auto simp: lease_accepted_def)
  have h: "history w' = history w @ [Submitted command (Inr result)]" by (rule recording_submit [OF rec cmd(3)])
  note p = manager_ok_pointer(1) [OF ok(1) k]
  let ?n = "on_session p (\<lambda>s. s\<lparr>ss_inflight := set_insert (ev_AttemptID event) (ss_inflight s)\<rparr>) (m\<lparr>mg_scheduler := scheduler\<rparr>)"
  have n: "assigned (history w') ?n" "p < length (mg_heap ?n)" "ss_workerID (session_at ?n p) = ss_workerID (session_at m p)"
    using assigned_mono [OF ok(2), of "history w'"] p
    by (auto intro!: assigned_same_queue simp: h session_at_def on_session_nth subset_insertI)
  from hand show ?thesis
  proof (cases rule: hand_over_cases)
    case (1 message k b)
    have "backed (history w') (ss_workerID (session_at ?n p)) a" if "message = AssignmentMessage a" for a
      using assignment_of [OF 1(1)] that cmd unfolding backed_def committed_lease_def n(3) h by auto
    note k = assigned_enqueue [OF n(1,2) 1(2) this]
    from k assigned_stop [OF k] 1(3) n(2) show ?thesis by (simp add: enqueue_simps(1) [OF 1(2)])
  qed
qed

definition assign_inv :: "'w exec_env \<Rightarrow> ('w \<Rightarrow> seen list) \<Rightarrow> Manager \<Rightarrow> 'w \<Rightarrow> bool" where
  "assign_inv X history m w \<longleftrightarrow> recording X history \<and> credits_inv X m w \<and> assigned (history w) m"

lemma assign_inv_step:
  "assign_inv X history m w \<Longrightarrow> credits_inv X m' w' \<Longrightarrow> assigned (history w') m' \<Longrightarrow> assign_inv X history m' w'"
  by (simp add: assign_inv_def)

interpretation sent: exec_inv X "assign_inv X history" for X :: "'w exec_env" and history
proof
  fix m :: Manager and w :: 'w
  assume I: "assign_inv X history m w"
  then have rec: "recording X history" and C: "credits_inv X m w" and A: "assigned (history w) m" and ok: "manager_ok X m"
    by (simp_all add: assign_inv_def credits_inv_def)
  note step = assign_inv_step [OF I]
  show "gomap (mg_sessions m)" by (rule credit.table [OF C])
  show pointer: "p < length (mg_heap m) \<and> ss_workerID (session_at m p) = k" if "map_of (mg_sessions m) k = Some p" for k p
    by (rule credit.pointer [OF C that])
  have grown: "assigned (history w') m" if "set (history w) \<subseteq> set (history w')" for w' by (rule assigned_mono [OF A that])
  show "assign_inv X history m w'" if "xe_Now X w = (w', t)" for w' t
    by (intro step credit.now [OF C that] grown) (use rec that in \<open>simp add: recording_now\<close>)
  show "assign_inv X history m w'" if "xe_View X w = (w', v)" for w' v
    by (intro step credit.view [OF C that] grown) (use rec that in \<open>auto simp: recording_view\<close>)
  show "assign_inv X history m w'" if "xe_Submit X command w = (w', r)" for w' command r
    by (intro step credit.submit [OF C that] grown) (use rec that in \<open>auto simp: recording_submit\<close>)
  show "assign_inv X history (stopSession p e m) w" if "p < length (mg_heap m)" for p e
    by (intro step credit.stop [OF C that] assigned_stop [OF A that])
  show "assign_inv X history m' w" if "p < length (mg_heap m)" "enqueue X p (AckMessage a) m = (m', b)" for p a m' b
    by (intro step credit.acked [OF C that] assigned_enqueue [OF A that]) simp
  have "\<forall>entry \<in> set (mg_sessions m). snd entry < length (mg_heap m)"
    using pointer by (auto simp: gomap_map_of_iff [OF credit.table [OF C], symmetric])
  then show "assign_inv X history m' w" if "reconcile engine m = Inr m'" for engine m'
    by (intro step credit.settled [OF C that] assigned_reconcile [OF A that])
  show "assign_inv X history (on_session p (\<lambda>s. s\<lparr>ss_capacity := credits\<rparr>) m) w"
    if "map_of (mg_sessions m) k = Some p" "credits \<le> xe_MaxCredits X" "int (length (ss_inflight (session_at m p))) \<le> uint credits"
    for k p credits
    using pointer [OF that(1)] by (intro step credit.credited [OF C that] assigned_same_queue [OF A]) simp_all
  show "assign_inv X history (m\<lparr>mg_sessions := del k (mg_sessions m)\<rparr>) w" for k
    using A by (intro step credit.closed [OF C]) simp
  show "assign_inv X history m'' w'"
    if "check_hello X hello w = (w', Inr (workerID, capabilities, active))"
      "register_session workerID capabilities (wh_Credits hello) m = (p, m')" "set active' = set active"
      "length active' = length active" "resend X p active' m' = (m'', failure)"
    for hello w' workerID capabilities active p m' active' m'' failure
    by (intro step credit.opened [OF C that] assigned_opened [OF ok A rec that(1,2,3,5)])
  show "assign_inv X history m' w'"
    if "lease_accepted X p m w task event w'" "hand_over X p task event (m\<lparr>mg_scheduler := scheduler\<rparr>) = Inr m'"
    for p task event w' scheduler m'
    by (intro step credit.handed [OF C that] assigned_handed [OF ok A rec that])
qed

text \<open>The world may move on by itself, but it does not rewrite what was seen.\<close>

definition quiet :: "('w \<Rightarrow> seen list) \<Rightarrow> ('w \<Rightarrow> 'w \<Rightarrow> bool) \<Rightarrow> 'w \<Rightarrow> 'w \<Rightarrow> bool" where
  "quiet history world w w' \<longleftrightarrow> world w w' \<and> history w' = history w"

interpretation sent_run: exec_run_inv X "assign_inv X history" "quiet history world" for X :: "'w exec_env" and history world
proof
  show "assign_inv X history m w'" if "assign_inv X history m w" "quiet history world w w'" for m w w'
    using that by (simp add: assign_inv_def quiet_def credits_inv_def)
  fix m :: Manager and w :: 'w and p message rest
  assume I: "assign_inv X history m w" and p: "p < length (mg_heap m)" and out: "ss_outbound (session_at m p) = message # rest"
  from I have C: "credits_inv X m w" and A: "assigned (history w) m" by (simp_all add: assign_inv_def)
  show "assign_inv X history (on_session p (\<lambda>s. s\<lparr>ss_outbound := rest\<rparr>) m) w"
  proof (rule assign_inv_step [OF I credit_run.taken [OF C p out]])
    show "assigned (history w) (on_session p (\<lambda>s. s\<lparr>ss_outbound := rest\<rparr>) m)"
      by (rule assigned_on_session [OF A p]) (use out in \<open>simp add: queue_backed_def session_at_def\<close>)
  qed
qed


section \<open>How much a dispatch submits\<close>

definition submits :: "CommandKind \<Rightarrow> seen \<Rightarrow> bool" where
  "submits kind x = (case x of Submitted command r \<Rightarrow> cmd_Kind command = kind | Viewed r \<Rightarrow> False)"

definition submitted :: "CommandKind \<Rightarrow> seen list \<Rightarrow> nat" where
  "submitted kind log = length (filter (submits kind) log)"

lemma submitted_grows:
  "submitted kind (log @ log') = submitted kind log + submitted kind log'" "submitted kind [] = 0"
  "submitted kind (Viewed r # log) = submitted kind log"
  "submitted kind (Submitted command r' # log) = submitted kind log + (if cmd_Kind command = kind then 1 else 0)"
  by (simp_all add: submitted_def submits_def)

lemma fire_all_submitted:
  assumes rec: "recording X history"
  shows "submitted kind (history (snd (fst (fst (fire_all X at timers ((m, w), vw)))))) \<le>
    submitted kind (history w) + (if kind = CommandFireTimer then length timers else 0)"
proof (induction timers arbitrary: m w vw)
  case (Cons item timers)
  obtain workflowID due where item: "item = (workflowID, due)" by (cases item)
  show ?case
  proof (cases "\<exists>workflow timer. State (vw_Engine vw) workflowID = (Some workflow, True) \<and>
      map_of (wf_Timers workflow) (tm_ID due) = Some timer \<and> timer_due at workflow timer")
    case False
    show ?thesis using Cons.IH [of m w vw] unfolding item fire_all_idle [OF False] by (auto split: if_splits)
  next
    case True
    then obtain workflow timer where st: "State (vw_Engine vw) workflowID = (Some workflow, True)"
      "map_of (wf_Timers workflow) (tm_ID due) = Some timer" "timer_due at workflow timer" by blast
    let ?c = "fire_command (xe_digest X) workflowID workflow timer at"
    obtain w1 r1 where sb: "xe_Submit X ?c w = (w1, r1)" by (cases "xe_Submit X ?c w")
    obtain w2 r2 where vv: "xe_View X w1 = (w2, r2)" by (cases "xe_View X w1")
    have h: "submitted kind (history w1) = submitted kind (history w) + (if kind = CommandFireTimer then 1 else 0)"
      "submitted kind (history w2) = submitted kind (history w1)"
      by (auto simp: recording_submit [OF rec sb] recording_view [OF rec vv] submitted_grows fire_command_def)
    have IH: "submitted kind (history (snd (fst (fst (fire_all X at timers ((m', w2), vw')))))) \<le>
      submitted kind (history w) + (if kind = CommandFireTimer then Suc (length timers) else 0)" for m' vw'
      using Cons.IH [of m' w2 vw'] h by (simp split: if_splits)
    show ?thesis
      using IH h by (cases r1; cases r2) (auto simp: item st sb vv split: sum.split)
  qed
qed simp

lemma expire_all_submitted:
  assumes rec: "recording X history" and "kind \<noteq> CommandExpire"
  shows "submitted kind (history (fst (expire_all X at leases w))) = submitted kind (history w)"
proof (induction leases arbitrary: w)
  case (Cons lease leases)
  let ?c = "expire_command (xe_digest X) lease at"
  obtain w1 r1 where sb: "xe_Submit X ?c w = (w1, r1)" by (cases "xe_Submit X ?c w")
  have "submitted kind (history w1) = submitted kind (history w)"
    using assms(2) by (simp add: recording_submit [OF rec sb] submitted_grows expire_command_def Let_def)
  with Cons.IH [of w1] show ?case by (cases r1) (simp_all add: sb)
qed simp

lemma fireTimers_submitted:
  assumes rec: "recording X history"
  shows "submitted kind (history (snd (fst (fst (fireTimers X ((m, w), vw)))))) \<le>
    submitted kind (history w) + (if kind = CommandFireTimer then nat (xe_MaxDispatch X) else 0)"
proof -
  obtain w1 t where nw: "xe_Now X w = (w1, t)" by (cases "xe_Now X w")
  show ?thesis
  proof (cases "engine_states (vw_Engine vw)")
    case (Inr states)
    have "length (take (nat (xe_MaxDispatch X)) (due_timers t states)) \<le> nat (xe_MaxDispatch X)" by simp
    with fire_all_submitted [OF rec, of kind t "take (nat (xe_MaxDispatch X)) (due_timers t states)" m w1 vw]
    show ?thesis by (auto simp: fireTimers_def nw Inr recording_now [OF rec nw] split: if_splits)
  qed (simp add: fireTimers_def nw recording_now [OF rec nw])
qed

lemma expire_submitted:
  assumes rec: "recording X history" and "kind \<noteq> CommandExpire"
  shows "submitted kind (history (snd (fst (fst (expire X ((m, w), vw)))))) = submitted kind (history w)"
proof -
  obtain w1 t where nw: "xe_Now X w = (w1, t)" by (cases "xe_Now X w")
  show ?thesis
  proof (cases "engine_states (vw_Engine vw)")
    case (Inr states)
    let ?l = "expired_leases t states"
    obtain w2 r2 where ea: "expire_all X t ?l w1 = (w2, r2)" by (cases "expire_all X t ?l w1")
    obtain w3 r3 where vv: "xe_View X w2 = (w3, r3)" by (cases "xe_View X w2")
    have "submitted kind (history w2) = submitted kind (history w)" "submitted kind (history w3) = submitted kind (history w2)"
      using expire_all_submitted [OF assms, of t ?l w1] ea
      by (simp_all add: recording_now [OF rec nw] recording_view [OF rec vv] submitted_grows)
    then show ?thesis by (cases r2; cases r3) (auto simp: expire_def nw Inr ea vv Let_def split: sum.split)
  qed (simp add: expire_def nw recording_now [OF rec nw])
qed

lemma worker_turn_submitted:
  assumes rec: "recording X history" and turn: "worker_turn X workerID ((m, w), vw) = (((m', w'), vw'), outcome)"
  shows "submitted kind (history w') \<le> submitted kind (history w) + (if kind = CommandStart \<and> outcome \<noteq> Skipped then 1 else 0)"
proof (cases "\<exists>p plan workflow. map_of (mg_sessions m) workerID = Some p \<and> worker_turn X workerID ((m, w), vw) = lease_task X p plan ((m, w), vw) \<and>
    fst (State (vw_Engine vw) (sk_WorkflowID (pn_Task plan))) = Some workflow")
  case False
  have "w' = w" using turn False
    by (auto simp: worker_turn_def split: option.splits if_splits sum.splits) (auto simp: lease_task_def split: option.splits)
  then show ?thesis by simp
next
  case True
  then obtain p plan workflow where t: "worker_turn X workerID ((m, w), vw) = lease_task X p plan ((m, w), vw)"
    and st: "fst (State (vw_Engine vw) (sk_WorkflowID (pn_Task plan))) = Some workflow" by blast
  let ?id = "sk_TaskID (pn_Task plan)" and ?task = "or_zero zero_TaskState (wf_Tasks workflow) (sk_TaskID (pn_Task plan))"
  obtain w1 t where nw: "xe_Now X w = (w1, t)" by (cases "xe_Now X w")
  let ?c = "start_command (xe_digest X) workflow ?id ?task (ss_workerID (session_at m p)) (exec_max t (wf_UpdatedAt workflow)) (lease_length X ?task)"
  obtain w2 r2 where sb: "xe_Submit X ?c w1 = (w2, r2)" by (cases "xe_Submit X ?c w1")
  have "submitted kind (history w1) = submitted kind (history w)"
    "submitted kind (history w2) = submitted kind (history w) + (if kind = CommandStart then 1 else 0)"
    by (auto simp: recording_now [OF rec nw] recording_submit [OF rec sb] submitted_grows start_command_def)
  then show ?thesis
    using turn [unfolded t] by (cases r2) (auto simp: lease_task_def st nw sb Let_def split: if_splits sum.splits option.splits)
qed


lemma dispatch_pass_submitted:
  assumes rec: "recording X history"
  shows "int n < xe_MaxDispatch X \<Longrightarrow> dispatch_pass X workerIDs ((m, w), vw) n progress = (((m', w'), vw'), k, progress', returned) \<Longrightarrow>
    int k \<le> xe_MaxDispatch X \<and> (\<not> returned \<longrightarrow> int k < xe_MaxDispatch X) \<and>
    int (submitted kind (history w')) \<le> int (submitted kind (history w)) +
      (if kind = CommandStart then (if returned then xe_MaxDispatch X else int k) - int n else 0)"
proof (induction workerIDs arbitrary: m w vw n progress)
  case (Cons workerID workerIDs)
  obtain m1 w1 vw1 outcome where turn: "worker_turn X workerID ((m, w), vw) = (((m1, w1), vw1), outcome)"
    by (cases "worker_turn X workerID ((m, w), vw)") auto
  note h1 = worker_turn_submitted [OF rec turn, of kind]
  obtain w2 r2 where vv: "xe_View X w1 = (w2, r2)" by (cases "xe_View X w1")
  have h2: "submitted kind (history w2) = submitted kind (history w1)" by (simp add: recording_view [OF rec vv] submitted_grows)
  show ?case
  proof (cases outcome)
    case Skipped
    with Cons.prems turn have "dispatch_pass X workerIDs ((m1, w1), vw1) n progress = (((m', w'), vw'), k, progress', returned)" by simp
    from Cons.IH [OF Cons.prems(1) this] h1 Skipped show ?thesis by auto
  next
    case Returned
    with Cons.prems turn h1 show ?thesis by (auto split: if_splits)
  next
    case Leased
    show ?thesis
    proof (cases "\<exists>vw2. r2 = Inr vw2 \<and> vw_Leader vw2 \<and> int (n + 1) < xe_MaxDispatch X")
      case True
      then obtain vw2 where c: "r2 = Inr vw2" "vw_Leader vw2" "int (n + 1) < xe_MaxDispatch X" by blast
      with Cons.prems(2) turn Leased vv
      have "dispatch_pass X workerIDs ((m1, w2), vw2) (n + 1) True = (((m', w'), vw'), k, progress', returned)" by simp
      from Cons.IH [OF c(3) this] h1 h2 Leased show ?thesis by (auto split: if_splits)
    next
      case False
      with Cons.prems turn Leased vv h1 h2 show ?thesis by (cases r2) (auto split: if_splits)
    qed
  qed
qed auto

lemma dispatch_loop_submitted:
  assumes rec: "recording X history" and "int n \<le> xe_MaxDispatch X"
  shows "int (submitted kind (history (snd (fst (fst (dispatch_loop X workerIDs ((m, w), vw) n)))))) \<le>
    int (submitted kind (history w)) + (if kind = CommandStart then xe_MaxDispatch X - int n else 0)"
  using assms(2)
proof (induction "nat (xe_MaxDispatch X) - n" arbitrary: m w vw n rule: less_induct)
  case less
  obtain m1 w1 vw1 k progress returned where
    pass: "dispatch_pass X workerIDs ((m, w), vw) n False = (((m1, w1), vw1), k, progress, returned)"
    by (cases "dispatch_pass X workerIDs ((m, w), vw) n False") auto
  show ?case
  proof (cases "int n < xe_MaxDispatch X")
    case True
    note h = dispatch_pass_submitted [OF rec True pass, of kind] and c = dispatch_pass_count [OF pass]
    show ?thesis
    proof (cases "progress \<and> \<not> returned")
      case True
      with c \<open>int n < xe_MaxDispatch X\<close> have "nat (xe_MaxDispatch X) - k < nat (xe_MaxDispatch X) - n" by auto
      from less.hyps [OF this, of m1 w1 vw1] True h \<open>int n < xe_MaxDispatch X\<close> show ?thesis
        by (auto simp: dispatch_loop.simps [of X workerIDs "((m, w), vw)"] pass split: if_splits)
    next
      case False
      with h \<open>int n < xe_MaxDispatch X\<close> show ?thesis
        by (auto simp: dispatch_loop.simps [of X workerIDs "((m, w), vw)"] pass split: if_splits)
    qed
  next
    case False
    with less.prems show ?thesis by (simp add: dispatch_loop.simps [of X workerIDs "((m, w), vw)"])
  qed
qed

lemma dispatch_submitted:
  assumes rec: "recording X history" and pos: "0 \<le> xe_MaxDispatch X" and kind: "kind = CommandStart \<or> kind = CommandFireTimer"
  shows "int (submitted kind (history (snd (Manager_dispatch X (m, w))))) \<le> int (submitted kind (history w)) + xe_MaxDispatch X"
proof -
  obtain w1 r1 where vv: "xe_View X w = (w1, r1)" by (cases "xe_View X w")
  have h1: "submitted kind (history w1) = submitted kind (history w)" by (simp add: recording_view [OF rec vv] submitted_grows)
  show ?thesis
  proof (cases r1)
    case (Inl e)
    with h1 pos show ?thesis by (simp add: Manager_dispatch_def vv)
  next
    case (Inr vw)
    obtain m2 w2 vw2 r2 where ft: "fireTimers X ((m, w1), vw) = (((m2, w2), vw2), r2)"
      by (cases "fireTimers X ((m, w1), vw)") auto
    obtain m3 w3 vw3 r3 where ex: "expire X ((m2, w2), vw2) = (((m3, w3), vw3), r3)"
      by (cases "expire X ((m2, w2), vw2)") auto
    have h2: "int (submitted kind (history w2)) \<le> int (submitted kind (history w)) + (if kind = CommandFireTimer then xe_MaxDispatch X else 0)"
      using fireTimers_submitted [OF rec, of kind m w1 vw] ft h1 pos by (auto split: if_splits)
    have h3: "submitted kind (history w3) = submitted kind (history w2)"
      using expire_submitted [OF rec, of kind m2 w2 vw2] ex kind by auto
    have h4: "int (submitted kind (history (snd (dispatch_workers X ((m3, w3), vw3))))) \<le>
      int (submitted kind (history w3)) + (if kind = CommandStart then xe_MaxDispatch X else 0)"
      using dispatch_loop_submitted [OF rec, of 0 kind "sort (keys (mg_sessions m3))" m3 w3 vw3] pos
      unfolding dispatch_workers_def by (simp split: if_split_asm)
    show ?thesis
      using h1 h2 h3 h4 pos kind
      by (cases r2; cases r3) (auto simp: Manager_dispatch_def vv Inr ft ex stop_follower_def split: option.split)
  qed
qed

end
