(* ===== verification/Chronos_Sessions.thy ===== *)
theory Chronos_Sessions
  imports Chronos_Execution_Laws
begin

text \<open>
  Sessions that have been replaced or dropped: a session that left the table of the execution manager never
  comes back, whatever the manager does, because every new session has a place of its own in the heap.
\<close>

definition retired :: "nat \<Rightarrow> string \<Rightarrow> Manager \<Rightarrow> bool" where
  "retired p workerID m \<longleftrightarrow>
     p < length (mg_heap m) \<and> ss_workerID (mg_heap m ! p) = workerID \<and> (\<forall>k. map_of (mg_sessions m) k \<noteq> Some p)"

lemma retired_on_session:
  assumes "retired p workerID m" "\<And>s. ss_workerID (f s) = ss_workerID s"
  shows "retired p workerID (on_session r f m)"
  using assms by (auto simp: retired_def on_session_nth)

lemma retired_table:
  assumes "retired p workerID m" "\<And>k. map_of sessions k = Some p \<Longrightarrow> map_of (mg_sessions m) k = Some p"
  shows "retired p workerID (m\<lparr>mg_sessions := sessions\<rparr>)"
  using assms by (auto simp: retired_def)

lemma retired_scheduler [simp]: "retired p workerID (m\<lparr>mg_scheduler := scheduler\<rparr>) = retired p workerID m"
  by (simp add: retired_def)

lemma retired_drop: "retired p workerID m \<Longrightarrow> retired p workerID (m\<lparr>mg_sessions := del k (mg_sessions m)\<rparr>)"
  by (erule retired_table) (simp split: if_splits)

lemma retired_stop: "retired p workerID m \<Longrightarrow> retired p workerID (stopSession r e m)"
  unfolding stopSession_def Let_def by (intro retired_on_session) (auto intro: retired_drop)

lemma retired_enqueue: "retired p workerID m \<Longrightarrow> enqueue X r message m = (m', b) \<Longrightarrow> retired p workerID m'"
  by (auto simp: enqueue_def intro: retired_on_session split: if_splits)

lemma retired_reconcile:
  assumes "retired p workerID m" "reconcile engine m = Inr m'"
  shows "retired p workerID m'"
proof -
  have "retired p workerID (fold (\<lambda>(k, r). on_session r (\<lambda>s. s\<lparr>ss_inflight := g k s\<rparr>)) entries m)" for entries g
    using assms(1) by (induction entries arbitrary: m) (auto simp: retired_on_session)
  with assms(2) show ?thesis by (auto simp: reconcile_def result_simps)
qed

lemma retired_register:
  assumes "retired p workerID m" "register_session k capabilities credits m = (q, m')"
  shows "retired p workerID m'"
proof -
  define n where "n = (case map_of (mg_sessions m) k of None \<Rightarrow> m | Some previous \<Rightarrow> stopSession previous RpcAborted m)"
  have "retired p workerID n" using assms(1) by (simp add: n_def retired_stop split: option.split)
  with assms(2) show ?thesis
    by (auto simp: register_session_def n_def [symmetric] Let_def retired_def nth_append split: if_splits)
qed

lemma retired_resend: "retired p workerID m \<Longrightarrow> resend X r active m = (m', failure) \<Longrightarrow> retired p workerID m'"
proof (induction active arbitrary: m)
  case (Cons lease active)
  obtain workflowID task where lease: "lease = (workflowID, task)" by (cases lease)
  let ?n = "on_session r (\<lambda>s. s\<lparr>ss_inflight := set_insert (ts_AttemptID task) (ss_inflight s)\<rparr>) m"
  have n: "retired p workerID ?n" by (rule retired_on_session [OF Cons.prems(1)]) simp
  from Cons.prems(2) [unfolded lease] show ?case
  proof (cases rule: resend_head)
    case faulty
    with n show ?thesis by simp
  next
    case full
    from retired_enqueue [OF n full(2)] show ?thesis .
  next
    case sent
    from Cons.IH [OF retired_enqueue [OF n sent(2)] sent(3)] show ?thesis .
  qed
qed simp

lemma retired_handed:
  assumes "retired p workerID m" "hand_over X r task event m = Inr m'"
  shows "retired p workerID m'"
  using assms(2)
proof (cases rule: hand_over_cases)
  case (1 message n b)
  have "retired p workerID (on_session r (\<lambda>s. s\<lparr>ss_inflight := set_insert (ev_AttemptID event) (ss_inflight s)\<rparr>) m)"
    by (rule retired_on_session [OF assms(1)]) simp
  from retired_enqueue [OF this 1(2)] 1(3) show ?thesis by (simp add: retired_stop)
qed

definition retired_inv :: "'w exec_env \<Rightarrow> nat \<Rightarrow> string \<Rightarrow> Manager \<Rightarrow> 'w \<Rightarrow> bool" where
  "retired_inv X p workerID m w \<longleftrightarrow> credits_inv X m w \<and> retired p workerID m"

interpretation retirement: exec_inv X "retired_inv X p workerID" for X :: "'w exec_env" and p workerID
proof
  fix m :: Manager and w :: 'w
  assume I: "retired_inv X p workerID m w"
  then have C: "credits_inv X m w" and R: "retired p workerID m" by (simp_all add: retired_inv_def)
  have step: "credits_inv X m' w' \<Longrightarrow> retired p workerID m' \<Longrightarrow> retired_inv X p workerID m' w'" for m' w'
    by (simp add: retired_inv_def)
  show "gomap (mg_sessions m)" by (rule credit.table [OF C])
  show "r < length (mg_heap m) \<and> ss_workerID (session_at m r) = k" if "map_of (mg_sessions m) k = Some r" for k r
    by (rule credit.pointer [OF C that])
  show "retired_inv X p workerID m w'" if "xe_Now X w = (w', t)" for w' t by (intro step credit.now [OF C that] R)
  show "retired_inv X p workerID m w'" if "xe_View X w = (w', v)" for w' v by (intro step credit.view [OF C that] R)
  show "retired_inv X p workerID m w'" if "xe_Submit X command w = (w', r)" for w' command r
    by (intro step credit.submit [OF C that] R)
  show "retired_inv X p workerID (stopSession r e m) w" if "r < length (mg_heap m)" for r e
    by (intro step credit.stop [OF C that] retired_stop [OF R])
  show "retired_inv X p workerID m' w" if "r < length (mg_heap m)" "enqueue X r (AckMessage a) m = (m', b)" for r a m' b
    by (intro step credit.acked [OF C that] retired_enqueue [OF R that(2)])
  show "retired_inv X p workerID m' w" if "reconcile engine m = Inr m'" for engine m'
    by (intro step credit.settled [OF C that] retired_reconcile [OF R that])
  show "retired_inv X p workerID (on_session r (\<lambda>s. s\<lparr>ss_capacity := credits\<rparr>) m) w"
    if "map_of (mg_sessions m) k = Some r" "credits \<le> xe_MaxCredits X" "int (length (ss_inflight (session_at m r))) \<le> uint credits"
    for k r credits
    by (intro step credit.credited [OF C that] retired_on_session [OF R]) simp
  show "retired_inv X p workerID (m\<lparr>mg_sessions := del k (mg_sessions m)\<rparr>) w" for k
    by (intro step credit.closed [OF C] retired_drop [OF R])
  show "retired_inv X p workerID m'' w'"
    if "check_hello X hello w = (w', Inr (j, capabilities, active))"
      "register_session j capabilities (wh_Credits hello) m = (r, m')" "set active' = set active"
      "length active' = length active" "resend X r active' m' = (m'', failure)"
    for hello w' j capabilities active r m' active' m'' failure
    by (intro step credit.opened [OF C that] retired_resend [OF retired_register [OF R that(2)] that(5)])
  show "retired_inv X p workerID m' w'"
    if "lease_accepted X r m w task event w'" "hand_over X r task event (m\<lparr>mg_scheduler := scheduler\<rparr>) = Inr m'"
    for r task event w' scheduler m'
    by (intro step credit.handed [OF C that] retired_handed [OF _ that(2)]) (simp add: R)
qed

interpretation retirement_run: exec_run_inv X "retired_inv X p workerID" world for X :: "'w exec_env" and p workerID world
proof
  show "retired_inv X p workerID m w'" if "retired_inv X p workerID m w" "world w w'" for m w w'
    using that by (simp add: retired_inv_def credits_inv_def)
  show "retired_inv X p workerID (on_session r (\<lambda>s. s\<lparr>ss_outbound := rest\<rparr>) m) w"
    if "retired_inv X p workerID m w" "r < length (mg_heap m)" "ss_outbound (session_at m r) = message # rest" for m w r message rest
    using that credit_run.taken [of X m w r message rest] by (simp add: retired_inv_def retired_on_session)
qed

end
