(* ===== verification/Chronos_Simulator.thy ===== *)
theory Chronos_Simulator
  imports Chronos_Execution
begin

text \<open>
  The simulated worker (\<^verbatim>\<open>internal/execution/simulator.go\<close>): it runs the tasks it is assigned, keeps every
  completion until the coordinator has settled it, and sends the kept ones again when it reconnects. One
  connection runs at a time, so the mutex around the pending completions is not contended.
\<close>

section \<open>State\<close>

record HandlerResult =
  hr_Output :: kvs
  hr_Fanout :: "FanoutItem list"

text \<open>The handler of tasks, with a state of its own: it returns a result and perhaps the text of an error.\<close>

type_synonym 'h Handler = "TaskAssignment \<Rightarrow> 'h \<Rightarrow> 'h \<times> HandlerResult \<times> string option"

record Simulator =
  sm_ID :: string
  sm_Capabilities :: "string list"
  sm_Credits :: uint32
  sm_pending :: "(string, TaskCompletion) gomap"

text \<open>
  A stream as the worker sees it: the messages that will arrive before it breaks, how many sends will still
  succeed, and what was sent.
\<close>

record work_stream =
  wk_inbox :: "CoordinatorMessage list"
  wk_room :: nat
  wk_sent :: "WorkerMessage list"

datatype sim_err = SimConfiguration | SimConnect | SimSend | SimReceive

definition stream_send :: "WorkerMessage \<Rightarrow> work_stream \<Rightarrow> work_stream \<times> bool" where
  "stream_send message st =
     (if wk_room st = 0 then (st, False)
      else (st\<lparr>wk_room := wk_room st - 1, wk_sent := wk_sent st @ [message]\<rparr>, True))"

section \<open>Pending completions\<close>

definition protoFanout :: "FanoutItem list \<Rightarrow> FanoutItem list" where
  "protoFanout values =
     (if length values = 0 then []
      else map (\<lambda>val. \<lparr>fi_Key = fi_Key val, fi_Payload = exec_copyMap (fi_Payload val)\<rparr>) values)"

definition cloneProtoFanout :: "FanoutItem list \<Rightarrow> FanoutItem list" where
  "cloneProtoFanout values =
     (if length values = 0 then []
      else map (\<lambda>val. \<lparr>fi_Key = fi_Key val, fi_Payload = exec_copyMap (fi_Payload val)\<rparr>) values)"

definition cloneCompletion :: "TaskCompletion \<Rightarrow> TaskCompletion" where
  "cloneCompletion val =
     \<lparr>tc_RequestId = tc_RequestId val, tc_WorkflowId = tc_WorkflowId val, tc_TaskId = tc_TaskId val,
      tc_AttemptId = tc_AttemptId val, tc_FencingToken = tc_FencingToken val, tc_Output = exec_copyMap (tc_Output val),
      tc_Error = tc_Error val, tc_Fanout = cloneProtoFanout (tc_Fanout val)\<rparr>"

definition pendingCompletions :: "Simulator \<Rightarrow> TaskCompletion list" where
  "pendingCompletions s =
     concat (map (\<lambda>key. case map_of (sm_pending s) key of None \<Rightarrow> [] | Some completion \<Rightarrow> [cloneCompletion completion])
       (sort (keys (sm_pending s))))"

definition pendingCompletion :: "Simulator \<Rightarrow> string \<Rightarrow> TaskCompletion option" where
  "pendingCompletion s attemptID = map_option cloneCompletion (map_of (sm_pending s) attemptID)"

definition storePending :: "TaskCompletion \<Rightarrow> Simulator \<Rightarrow> Simulator" where
  "storePending completion s = s\<lparr>sm_pending := put (tc_AttemptId completion) (cloneCompletion completion) (sm_pending s)\<rparr>"

text \<open>The first entry, in the order of the iteration, whose completion carries the request.\<close>

definition clearPending :: "string \<Rightarrow> Simulator \<Rightarrow> Simulator" where
  "clearPending requestID s =
     (case find (\<lambda>entry. tc_RequestId (snd entry) = requestID) (sm_pending s) of
        None \<Rightarrow> s
      | Some entry \<Rightarrow> s\<lparr>sm_pending := del (fst entry) (sm_pending s)\<rparr>)"

section \<open>Running\<close>

definition completion_of :: "digest \<Rightarrow> TaskAssignment \<Rightarrow> HandlerResult \<Rightarrow> string option \<Rightarrow> TaskCompletion" where
  "completion_of H a result runErr =
     \<lparr>tc_RequestId = CompletionRequestID H (ta_AttemptId a) (ta_FencingToken a), tc_WorkflowId = ta_WorkflowId a,
      tc_TaskId = ta_TaskId a, tc_AttemptId = ta_AttemptId a, tc_FencingToken = ta_FencingToken a,
      tc_Output = (if runErr = None then exec_copyMap (hr_Output result) else []),
      tc_Error = (case runErr of None \<Rightarrow> '''' | Some e \<Rightarrow> e),
      tc_Fanout = (if runErr = None then protoFanout (hr_Fanout result) else [])\<rparr>"

definition settles :: "WorkerAck \<Rightarrow> bool" where
  "settles reply \<longleftrightarrow> wa_Accepted reply \<or> wa_Code reply = ''fenced'' \<or> wa_Code reply = ''expired''"

text \<open>The state of a run: the worker, its handler, and the assignments that the handler was called for.\<close>

type_synonym 'h sim = "Simulator \<times> 'h \<times> TaskAssignment list"

fun send_all :: "WorkerMessage list \<Rightarrow> work_stream \<Rightarrow> work_stream \<times> bool" where
  "send_all [] st = (st, True)"
| "send_all (message # messages) st =
     (case stream_send message st of
        (st, False) \<Rightarrow> (st, False)
      | (st, True) \<Rightarrow> send_all messages st)"

definition take_assignment ::
    "digest \<Rightarrow> 'h Handler \<Rightarrow> TaskAssignment \<Rightarrow> 'h sim \<Rightarrow> work_stream \<Rightarrow> 'h sim \<times> work_stream \<times> bool" where
  "take_assignment H handler a sim st =
     (case sim of (s, h, handled) \<Rightarrow>
      case pendingCompletion s (ta_AttemptId a) of
        Some completion \<Rightarrow> (case stream_send (CompletionMessage completion) st of (st, ok) \<Rightarrow> (sim, st, ok))
      | None \<Rightarrow>
          (case handler a h of
             (h, result, runErr) \<Rightarrow>
               let completion = completion_of H a result runErr; s = storePending completion s in
               case stream_send (CompletionMessage completion) st of (st, ok) \<Rightarrow> ((s, h, handled @ [a]), st, ok)))"

fun receive_loop :: "digest \<Rightarrow> 'h Handler \<Rightarrow> CoordinatorMessage list \<Rightarrow> 'h sim \<Rightarrow> work_stream \<Rightarrow> 'h sim \<times> work_stream \<times> sim_err" where
  "receive_loop H handler [] sim st = (sim, st, SimReceive)"
| "receive_loop H handler (AssignmentMessage a # inbox) sim st =
     (case take_assignment H handler a sim st of
        (sim, st, False) \<Rightarrow> (sim, st, SimSend)
      | (sim, st, True) \<Rightarrow> receive_loop H handler inbox sim st)"
| "receive_loop H handler (AckMessage reply # inbox) sim st =
     (case sim of (s, h, handled) \<Rightarrow>
        receive_loop H handler inbox (if settles reply then clearPending (wa_RequestId reply) s else s, h, handled) st)"

definition sim_greeting :: "Simulator \<Rightarrow> WorkerMessage list" where
  "sim_greeting s =
     HelloMessage \<lparr>wh_WorkerId = sm_ID s, wh_Capabilities = sm_Capabilities s, wh_Credits = sm_Credits s\<rparr> #
     map CompletionMessage (pendingCompletions s)"

text \<open>One connection; without a stream, \<^verbatim>\<open>client.Work\<close> failed. It always ends with an error.\<close>

definition Simulator_Run ::
    "digest \<Rightarrow> 'h Handler option \<Rightarrow> work_stream option \<Rightarrow> 'h sim \<Rightarrow> 'h sim \<times> WorkerMessage list \<times> sim_err" where
  "Simulator_Run H handle connection sim =
     (case sim of (s, h, handled) \<Rightarrow>
      case handle of
        None \<Rightarrow> (sim, [], SimConfiguration)
      | Some handler \<Rightarrow>
          if sm_ID s = '''' \<or> length (sm_Capabilities s) = 0 \<or> sm_Credits s = 0 then (sim, [], SimConfiguration)
          else case connection of
            None \<Rightarrow> (sim, [], SimConnect)
          | Some st \<Rightarrow>
              (case send_all (sim_greeting s) (st\<lparr>wk_sent := []\<rparr>) of
                 (st, False) \<Rightarrow> (sim, wk_sent st, SimSend)
               | (st, True) \<Rightarrow>
                   (case receive_loop H handler (wk_inbox st) sim st of (sim, st, e) \<Rightarrow> (sim, wk_sent st, e))))"

text \<open>Several connections, one after the other; the completions that wait are kept in between.\<close>

fun reconnects ::
    "digest \<Rightarrow> 'h Handler option \<Rightarrow> work_stream option list \<Rightarrow> 'h sim \<Rightarrow> 'h sim \<times> WorkerMessage list" where
  "reconnects H handle [] sim = (sim, [])"
| "reconnects H handle (connection # connections) sim =
     (case Simulator_Run H handle connection sim of
        (sim, sent, e) \<Rightarrow> (case reconnects H handle connections sim of (sim, sent') \<Rightarrow> (sim, sent @ sent')))"


section \<open>Copies\<close>

lemma put_absent: "k \<notin> set (keys m) \<Longrightarrow> put k v m = m @ [(k, v)]"
  by (induction m) auto

lemma copies_gomap: "gomap acc \<Longrightarrow> gomap (fold (\<lambda>(key, val). put key val) kvs0 acc)"
  by (induction kvs0 arbitrary: acc) auto

lemma copies_same: "distinct (keys (acc @ kvs0)) \<Longrightarrow> fold (\<lambda>(key, val). put key val) kvs0 acc = acc @ kvs0"
proof (induction kvs0 arbitrary: acc)
  case (Cons x kvs0)
  then have "put (fst x) (snd x) acc = acc @ [x]" by (subst put_absent) auto
  with Cons show ?case by (simp add: case_prod_beta)
qed simp

lemma exec_copyMap_twice [simp]: "exec_copyMap (exec_copyMap kvs0) = exec_copyMap kvs0"
proof -
  have "gomap (exec_copyMap kvs0)" by (simp add: exec_copyMap_def copies_gomap)
  then show ?thesis using copies_same [of "[]" "exec_copyMap kvs0"]
    by (auto simp: exec_copyMap_def [of "exec_copyMap kvs0"] gomap_def)
qed

lemma copy_nothing: "exec_copyMap [] = []"
  by (simp add: exec_copyMap_def)

lemma cloneCompletion_twice [simp]: "cloneCompletion (cloneCompletion c) = cloneCompletion c"
  by (auto simp: cloneCompletion_def cloneProtoFanout_def)

lemma cloneCompletion_new [simp]: "cloneCompletion (completion_of H a result runErr) = completion_of H a result runErr"
  
  by (auto simp: cloneCompletion_def completion_of_def cloneProtoFanout_def protoFanout_def copy_nothing)

section \<open>An attempt has one answer\<close>

text \<open>
  What is known of one attempt: the entries that wait are copies of their completions under their attempts,
  and either nothing was done for the attempt, or its completion waits, the handler was called once for it,
  and every completion sent for it is the one that waits.
\<close>

definition about :: "string \<Rightarrow> WorkerMessage \<Rightarrow> bool" where
  "about attemptID message = (case message of CompletionMessage c \<Rightarrow> tc_AttemptId c = attemptID | _ \<Rightarrow> False)"

definition waits :: "digest \<Rightarrow> Simulator \<Rightarrow> bool" where
  "waits H s \<longleftrightarrow> gomap (sm_pending s) \<and> (\<forall>i c. map_of (sm_pending s) i = Some c \<longrightarrow>
     tc_AttemptId c = i \<and> cloneCompletion c = c \<and> (\<exists>fence. tc_RequestId c = CompletionRequestID H i fence))"

definition answered :: "string \<Rightarrow> Simulator \<Rightarrow> TaskAssignment list \<Rightarrow> WorkerMessage list \<Rightarrow> bool" where
  "answered attemptID s handled sent \<longleftrightarrow>
     (case map_of (sm_pending s) attemptID of
        None \<Rightarrow> filter (\<lambda>a. ta_AttemptId a = attemptID) handled = [] \<and> (\<forall>message \<in> set sent. \<not> about attemptID message)
      | Some c \<Rightarrow> length (filter (\<lambda>a. ta_AttemptId a = attemptID) handled) = 1 \<and>
          (\<forall>message \<in> set sent. about attemptID message \<longrightarrow> message = CompletionMessage c))"

lemma about_simps [simp]:
  "about i (CompletionMessage c) \<longleftrightarrow> tc_AttemptId c = i" "\<not> about i (HelloMessage x)"
  by (simp_all add: about_def)

lemma waits_pending:
  assumes "waits H s"
  shows "pendingCompletion s i = map_of (sm_pending s) i"
  using assms by (cases "map_of (sm_pending s) i") (auto simp: pendingCompletion_def waits_def)

lemma waits_store: "waits H s \<Longrightarrow> waits H (storePending (completion_of H a result runErr) s)"
  by (auto simp: waits_def storePending_def) (auto simp: completion_of_def)

lemma clearPending_pending:
  "map_of (sm_pending (clearPending r s)) i = map_of (sm_pending s) i \<or>
     map_of (sm_pending (clearPending r s)) i = None \<and> (\<exists>c. (i, c) \<in> set (sm_pending s) \<and> tc_RequestId c = r)"
proof (cases "find (\<lambda>entry. tc_RequestId (snd entry) = r) (sm_pending s)")
  case (Some entry)
  then have "entry \<in> set (sm_pending s)" "tc_RequestId (snd entry) = r" by (auto simp: find_Some_iff)
  with Some show ?thesis by (cases entry) (auto simp: clearPending_def)
qed (simp add: clearPending_def)

lemma waits_clear: "waits H s \<Longrightarrow> waits H (clearPending r s)"
  using clearPending_pending [of r s]
  by (auto simp: waits_def clearPending_def split: option.splits)

lemma answered_clear:
  assumes "waits H s" "answered i s handled sent" "\<forall>fence. r \<noteq> CompletionRequestID H i fence"
  shows "answered i (clearPending r s) handled sent"
proof -
  have "map_of (sm_pending (clearPending r s)) i = map_of (sm_pending s) i"
    using clearPending_pending [of r s i] assms(1,3) unfolding waits_def by (metis gomap_map_of_iff)
  with assms(2) show ?thesis by (simp add: answered_def)
qed

text \<open>Sending what waits changes nothing.\<close>

definition resends :: "Simulator \<Rightarrow> WorkerMessage \<Rightarrow> bool" where
  "resends s message \<longleftrightarrow> (\<forall>c. message = CompletionMessage c \<longrightarrow> map_of (sm_pending s) (tc_AttemptId c) = Some c)"

lemma resends_about: "resends s message \<Longrightarrow> about i message \<Longrightarrow> \<exists>c. map_of (sm_pending s) i = Some c \<and> message = CompletionMessage c"
  by (cases message) (auto simp: resends_def about_def)

lemma send_all_answered:
  "\<forall>message \<in> set messages. resends s message \<Longrightarrow> answered i s handled (sent @ wk_sent st) \<Longrightarrow>
     send_all messages st = (st', ok) \<Longrightarrow> answered i s handled (sent @ wk_sent st') \<and> wk_inbox st' = wk_inbox st"
proof (induction messages arbitrary: st)
  case (Cons message messages)
  obtain st1 b where s: "stream_send message st = (st1, b)" by (cases "stream_send message st")
  have "answered i s handled (sent @ wk_sent st1)" "wk_inbox st1 = wk_inbox st"
    using Cons.prems(1,2) s resends_about [of s message i]
    by (auto simp: answered_def stream_send_def split: option.splits if_splits)
  with Cons s show ?case by (cases b) auto
qed simp


text \<open>No message of a connection settles the attempt.\<close>

definition unsettled :: "digest \<Rightarrow> string \<Rightarrow> CoordinatorMessage list \<Rightarrow> bool" where
  "unsettled H i inbox \<longleftrightarrow>
     (\<forall>reply fence. AckMessage reply \<in> set inbox \<longrightarrow> settles reply \<longrightarrow> wa_RequestId reply \<noteq> CompletionRequestID H i fence)"

lemma take_assignment_answered:
  assumes ok: "waits H s" "answered i s handled (sent @ wk_sent st)"
    and take: "take_assignment H handler a (s, h, handled) st = ((s', h', handled'), st', b)"
  shows "waits H s' \<and> answered i s' handled' (sent @ wk_sent st')"
proof (cases "map_of (sm_pending s) (ta_AttemptId a)")
  case (Some c)
  then have "resends s (CompletionMessage c)" using ok(1) by (auto simp: resends_def waits_def)
  with Some ok take show ?thesis
    by (auto simp: take_assignment_def waits_pending [OF ok(1)] answered_def stream_send_def resends_def split: option.splits if_splits)
next
  case None
  obtain k result runErr where run: "handler a h = (k, result, runErr)" by (cases "handler a h")
  let ?c = "completion_of H a result runErr"
  have c: "tc_AttemptId ?c = ta_AttemptId a" by (simp add: completion_of_def)
  have s': "s' = storePending ?c s" "handled' = handled @ [a]" "wk_sent st' = wk_sent st \<or> wk_sent st' = wk_sent st @ [CompletionMessage ?c]"
    using take None by (auto simp: take_assignment_def waits_pending [OF ok(1)] run Let_def stream_send_def split: prod.splits if_splits)
  have "map_of (sm_pending s') = (map_of (sm_pending s))(ta_AttemptId a \<mapsto> ?c)" by (simp add: s'(1) storePending_def c)
  then have "answered i s' handled' (sent @ wk_sent st')"
    using ok(2) None s'(2,3) c by (auto simp: answered_def split: option.splits)
  with waits_store [OF ok(1)] show ?thesis by (simp add: s'(1))
qed

lemma receive_loop_answered:
  "waits H s \<Longrightarrow> answered i s handled (sent @ wk_sent st) \<Longrightarrow> unsettled H i inbox \<Longrightarrow>
     receive_loop H handler inbox (s, h, handled) st = ((s', h', handled'), st', e) \<Longrightarrow>
     waits H s' \<and> answered i s' handled' (sent @ wk_sent st')"
proof (induction inbox arbitrary: s h handled st)
  case (Cons message inbox)
  have rest: "unsettled H i inbox" using Cons.prems(3) by (auto simp: unsettled_def)
  show ?case
  proof (cases message)
    case (AssignmentMessage a)
    obtain s1 h1 handled1 st1 b where take: "take_assignment H handler a (s, h, handled) st = ((s1, h1, handled1), st1, b)"
      by (cases "take_assignment H handler a (s, h, handled) st") auto
    note ok = take_assignment_answered [OF Cons.prems(1,2) take]
    show ?thesis using Cons.IH [of s1 handled1 st1 h1] ok rest Cons.prems(4) AssignmentMessage take by (cases b) auto
  next
    case (AckMessage reply)
    let ?s = "if settles reply then clearPending (wa_RequestId reply) s else s"
    have "answered i ?s handled (sent @ wk_sent st)" "waits H ?s"
      using Cons.prems(1-3) answered_clear [OF Cons.prems(1,2)] waits_clear
      by (auto simp: AckMessage unsettled_def)
    with Cons.IH [of ?s handled st h] rest Cons.prems(4) AckMessage show ?thesis by auto
  qed
qed simp

lemma greeting_resends: "waits H s \<Longrightarrow> message \<in> set (sim_greeting s) \<Longrightarrow> resends s message"
  by (auto simp: sim_greeting_def pendingCompletions_def resends_def waits_def split: option.splits)

lemma Run_answered:
  assumes ok: "waits H s" "answered i s handled sent" and run: "Simulator_Run H handle connection (s, h, handled) = ((s', h', handled'), more', e)"
    and un: "\<forall>st. connection = Some st \<longrightarrow> unsettled H i (wk_inbox st)"
  shows "waits H s' \<and> answered i s' handled' (sent @ more')"
proof (cases "\<exists>handler st. handle = Some handler \<and> connection = Some st \<and> \<not> (sm_ID s = '''' \<or> length (sm_Capabilities s) = 0 \<or> sm_Credits s = 0)")
  case False
  with ok run show ?thesis by (auto simp: Simulator_Run_def split: option.splits if_splits)
next
  case True
  then obtain handler st where c: "handle = Some handler" "connection = Some st"
    "\<not> (sm_ID s = '''' \<or> length (sm_Capabilities s) = 0 \<or> sm_Credits s = 0)" by blast
  obtain st1 b where send: "send_all (sim_greeting s) (st\<lparr>wk_sent := []\<rparr>) = (st1, b)"
    by (cases "send_all (sim_greeting s) (st\<lparr>wk_sent := []\<rparr>)")
  have a: "answered i s handled (sent @ wk_sent st1)" "wk_inbox st1 = wk_inbox st"
    using send_all_answered [OF _ _ send, of s i handled sent] greeting_resends [OF ok(1)] ok(2) by auto
  show ?thesis
  proof (cases b)
    case True
    obtain s2 h2 handled2 st2 e2 where loop: "receive_loop H handler (wk_inbox st1) (s, h, handled) st1 = ((s2, h2, handled2), st2, e2)"
      by (cases "receive_loop H handler (wk_inbox st1) (s, h, handled) st1") auto
    have "waits H s2 \<and> answered i s2 handled2 (sent @ wk_sent st2)"
      by (rule receive_loop_answered [OF ok(1) a(1) _ loop]) (use un c(2) a(2) in simp)
    with run c send True loop show ?thesis by (auto simp: Simulator_Run_def)
  next
    case False
    with run c send ok(1) a(1) show ?thesis by (auto simp: Simulator_Run_def)
  qed
qed

lemma reconnects_answered:
  "waits H s \<Longrightarrow> answered i s handled sent \<Longrightarrow> \<forall>st. Some st \<in> set connections \<longrightarrow> unsettled H i (wk_inbox st) \<Longrightarrow>
     reconnects H handle connections (s, h, handled) = ((s', h', handled'), sent') \<Longrightarrow>
     waits H s' \<and> answered i s' handled' (sent @ sent')"
proof (induction connections arbitrary: s h handled sent sent')
  case (Cons connection connections)
  obtain s1 h1 handled1 sent1 e where run: "Simulator_Run H handle connection (s, h, handled) = ((s1, h1, handled1), sent1, e)"
    by (cases "Simulator_Run H handle connection (s, h, handled)") auto
  obtain sent2 where rest: "reconnects H handle connections (s1, h1, handled1) = ((s', h', handled'), sent2)" "sent' = sent1 @ sent2"
    using Cons.prems(4) run by (auto split: prod.splits)
  have "waits H s1 \<and> answered i s1 handled1 (sent @ sent1)" by (rule Run_answered [OF Cons.prems(1,2) run]) (use Cons.prems(3) in simp)
  with Cons.IH [OF _ _ _ rest(1), of "sent @ sent1"] Cons.prems(3) rest(2) show ?case by simp
qed simp

end
