(* ===== verification/Chronos_Execution_Properties.thy ===== *)
theory Chronos_Execution_Properties
  imports Chronos_Assignments Chronos_Sessions Chronos_Simulator Chronos_Examples
begin

text \<open>
  What the execution manager promises: it respects the credits of workers, it assigns only tasks that are
  leased, a worker has one session, and a node that does not lead has none.
\<close>

section \<open>Other sessions\<close>

lemma enqueue_other:
  "enqueue X p message m = (m', b) \<Longrightarrow> q \<noteq> p \<Longrightarrow> mg_heap m' ! q = mg_heap m ! q"
  by (auto simp: enqueue_def on_session_def split: if_splits)

lemma resend_frame:
  "resend X p active m = (m', failure) \<Longrightarrow> mg_sessions m' = mg_sessions m \<and> (\<forall>q. q \<noteq> p \<longrightarrow> mg_heap m' ! q = mg_heap m ! q)"
proof (induction active arbitrary: m)
  case (Cons lease active)
  obtain workflowID task where lease: "lease = (workflowID, task)" by (cases lease)
  let ?n = "on_session p (\<lambda>s. s\<lparr>ss_inflight := set_insert (ts_AttemptID task) (ss_inflight s)\<rparr>) m"
  have n: "mg_sessions ?n = mg_sessions m" "\<And>q. q \<noteq> p \<Longrightarrow> mg_heap ?n ! q = mg_heap m ! q" by (simp_all add: on_session_def)
  from Cons.prems [unfolded lease] show ?case
  proof (cases rule: resend_head)
    case faulty
    with n show ?thesis by simp
  next
    case (full message)
    from n enqueue_simps(2) [OF full(2)] enqueue_other [OF full(2)] show ?thesis by simp
  next
    case (sent message k)
    from Cons.IH [OF sent(3)] n enqueue_simps(2) [OF sent(2)] enqueue_other [OF sent(2)] show ?thesis by simp
  qed
qed simp

lemma word64_id_inj:
  assumes "word_of_nat (Suc p) = (word_of_nat (Suc q) :: uint64)" "p < 2 ^ 64 - 1" "q < 2 ^ 64 - 1"
  shows "p = q"
proof -
  have "unat (word_of_nat (Suc p) :: uint64) = Suc p" "unat (word_of_nat (Suc q) :: uint64) = Suc q"
    using assms(2,3) by (simp_all add: unat_of_nat del: of_nat_Suc)
  with assms(1) show ?thesis by simp
qed

text \<open>A session that is not the current one of its worker is told so, and its messages have no effect.\<close>

lemma stale_session:
  assumes ok: "manager_ok X m" and p: "p < length (mg_heap m)" and small: "length (mg_heap m) < 2 ^ 64"
    and stale: "map_of (mg_sessions m) (ss_workerID (session_at m p)) \<noteq> Some p"
  shows "handleMessage X (ss_id (session_at m p)) (ss_workerID (session_at m p)) message (m, w) = ((m, w), Some RpcAborted)"
    and "handleClose (ss_id (session_at m p)) (ss_workerID (session_at m p)) m = m"
proof -
  have other: "ss_id (session_at m q) \<noteq> ss_id (session_at m p)" if q: "map_of (mg_sessions m) (ss_workerID (session_at m p)) = Some q" for q
  proof
    assume same: "ss_id (session_at m q) = ss_id (session_at m p)"
    note ql = manager_ok_pointer(1) [OF ok q]
    have "word_of_nat (Suc q) = (word_of_nat (Suc p) :: uint64)"
      using ok p ql same unfolding manager_ok_def session_at_def by metis
    then have "q = p" using p ql small by (intro word64_id_inj) simp_all
    with q stale show False by simp
  qed
  show "handleMessage X (ss_id (session_at m p)) (ss_workerID (session_at m p)) message (m, w) = ((m, w), Some RpcAborted)"
    using other by (auto simp: handleMessage_def split: option.split)
  show "handleClose (ss_id (session_at m p)) (ss_workerID (session_at m p)) m = m"
    using other by (auto simp: handleClose_def split: option.split)
qed

lemma register_replaces:
  assumes reg: "register_session workerID capabilities credits m = (q, m')"
  shows "q = length (mg_heap m)" "length (mg_heap m') = Suc (length (mg_heap m))" "map_of (mg_sessions m') workerID = Some q"
    and "p < length (mg_heap m) \<Longrightarrow> map_of (mg_sessions m) workerID = Some p \<Longrightarrow> ss_stopped (mg_heap m ! p) = None \<Longrightarrow>
      ss_stopped (mg_heap m' ! p) = Some RpcAborted"
  using reg by (auto simp: register_session_def Let_def stopSession_def nth_append on_session_def split: option.splits)

section \<open>Stopping all sessions\<close>

lemma stopSession_unregistered:
  "map_of (mg_sessions (stopSession p e m)) = (if map_of (mg_sessions m) (ss_workerID (session_at m p)) = Some p
     then (map_of (mg_sessions m))(ss_workerID (session_at m p) := None) else map_of (mg_sessions m))"
  by (auto simp: stopSession_def Let_def)

lemma stopSession_nth:
  "q < length (mg_heap m) \<Longrightarrow> mg_heap (stopSession p e m) ! q =
     (if p = q \<and> ss_stopped (mg_heap m ! q) = None then (mg_heap m ! q)\<lparr>ss_stopped := Some e\<rparr> else mg_heap m ! q)"
  by (cases "p = q") (simp_all add: stopSession_def Let_def on_session_def)

lemma register_keeps:
  assumes "register_session workerID capabilities credits m = (q, m')" "p < length (mg_heap m)"
  shows "ss_workerID (mg_heap m' ! p) = ss_workerID (mg_heap m ! p)" "ss_id (mg_heap m' ! p) = ss_id (mg_heap m ! p)"
  using assms by (auto simp: register_session_def Let_def nth_append stopSession_nth split: option.splits)

lemma stop_listed:
  fixes e :: exec_err
  assumes "\<forall>(k, p) \<in> set entries. p < length (mg_heap m) \<and> ss_workerID (mg_heap m ! p) = k" "distinct (map snd entries)"
    and "\<forall>(k, p) \<in> set entries. ss_stopped (mg_heap m ! p) = None"
  defines "m' \<equiv> fold (\<lambda>entry. stopSession (snd entry) e) entries m"
  shows "(\<forall>k. map_of (mg_sessions m') k = (if \<exists>p. (k, p) \<in> set entries \<and> map_of (mg_sessions m) k = Some p then None else map_of (mg_sessions m) k)) \<and>
    length (mg_heap m') = length (mg_heap m) \<and>
    (\<forall>q < length (mg_heap m). mg_heap m' ! q =
       (if \<exists>k. (k, q) \<in> set entries then (mg_heap m ! q)\<lparr>ss_stopped := Some e\<rparr> else mg_heap m ! q))"
  using assms(1-3) unfolding m'_def
proof (induction entries arbitrary: m)
  case (Cons entry entries)
  obtain k p where e: "entry = (k, p)" by (cases entry)
  let ?n = "stopSession p e m"
  have p: "p < length (mg_heap m)" "ss_workerID (mg_heap m ! p) = k" "ss_stopped (mg_heap m ! p) = None" using Cons.prems e by auto
  have n: "\<forall>(j, q) \<in> set entries. q < length (mg_heap ?n) \<and> ss_workerID (mg_heap ?n ! q) = j"
    "\<forall>(j, q) \<in> set entries. ss_stopped (mg_heap ?n ! q) = None"
    using Cons.prems e by (force simp: stopSession_nth)+
  have fresh: "(j, p) \<notin> set entries" for j using Cons.prems(2) e by force
  have "distinct (map snd entries)" using Cons.prems(2) by simp
  note IH = Cons.IH [OF n(1) this n(2)]
  show ?case
  proof (intro conjI allI impI)
    show "map_of (mg_sessions (fold (\<lambda>entry. stopSession (snd entry) e) (entry # entries) m)) j =
       (if \<exists>q. (j, q) \<in> set (entry # entries) \<and> map_of (mg_sessions m) j = Some q then None else map_of (mg_sessions m) j)" for j
      using IH p(2) by (auto simp: e stopSession_unregistered session_at_def)
    show "length (mg_heap (fold (\<lambda>entry. stopSession (snd entry) e) (entry # entries) m)) = length (mg_heap m)" using IH by (simp add: e)
    show "mg_heap (fold (\<lambda>entry. stopSession (snd entry) e) (entry # entries) m) ! q =
       (if \<exists>k. (k, q) \<in> set (entry # entries) then (mg_heap m ! q)\<lparr>ss_stopped := Some e\<rparr> else mg_heap m ! q)"
      if "q < length (mg_heap m)" for q
      using IH that p fresh by (auto simp: e stopSession_nth)
  qed
qed simp

lemma stopAll_exact:
  assumes ok: "manager_ok X m"
  shows "mg_sessions (stopAll e m) = []" "length (mg_heap (stopAll e m)) = length (mg_heap m)"
    "q < length (mg_heap m) \<Longrightarrow> mg_heap (stopAll e m) ! q =
       (if map_of (mg_sessions m) (ss_workerID (mg_heap m ! q)) = Some q then (mg_heap m ! q)\<lparr>ss_stopped := Some e\<rparr> else mg_heap m ! q)"
proof -
  have g: "gomap (mg_sessions m)" using ok unfolding manager_ok_def by blast
  have entries: "\<forall>(k, p) \<in> set (mg_sessions m). p < length (mg_heap m) \<and> ss_workerID (mg_heap m ! p) = k"
    "\<forall>(k, p) \<in> set (mg_sessions m). ss_stopped (mg_heap m ! p) = None"
    using manager_ok_pointer [OF ok] gomap_map_of_iff [OF g] by blast+
  have "distinct (map snd (mg_sessions m))"
    unfolding distinct_map
  proof
    show "distinct (mg_sessions m)" using g by (simp add: gomap_def distinct_map)
    show "inj_on snd (set (mg_sessions m))" 
    proof (rule inj_onI)
      fix x y assume xy: "x \<in> set (mg_sessions m)" "y \<in> set (mg_sessions m)" "snd x = snd y"
      have "ss_workerID (mg_heap m ! snd x) = fst x" "ss_workerID (mg_heap m ! snd y) = fst y"
        using entries(1) xy(1,2) by (simp_all add: case_prod_beta)
      with xy(3) show "x = y" by (simp add: prod_eq_iff)
    qed
  qed
  note r = stop_listed [OF entries(1) this entries(2), of e]
  have "map_of (mg_sessions (stopAll e m)) k = None" for k
    using r gomap_map_of_iff [OF g, of k] unfolding stopAll_def by (cases "map_of (mg_sessions m) k") auto
  then have "map_of (mg_sessions (stopAll e m)) = Map.empty" by (rule ext)
  then show "mg_sessions (stopAll e m) = []" by simp
  show "length (mg_heap (stopAll e m)) = length (mg_heap m)" using r by (simp add: stopAll_def)
  show "mg_heap (stopAll e m) ! q = (if map_of (mg_sessions m) (ss_workerID (mg_heap m ! q)) = Some q then (mg_heap m ! q)\<lparr>ss_stopped := Some e\<rparr> else mg_heap m ! q)"
    if "q < length (mg_heap m)"
    using r that entries(1) gomap_map_of_iff [OF g, of _ q] unfolding stopAll_def by auto
qed


section \<open>What the manager promises\<close>

text \<open>
  C10. A worker is never given more than it asked for. In every state that the manager reaches, with any view
  of the engine, any outcome of its commands and any order of requests and ticks, each session ever opened
  holds distinct leases, at most as many as its credits, which are within the configured maximum, and its queue
  fits its buffer; the sessions in the table are the ones of their workers and have not been stopped.
\<close>

theorem credits_respected:
  assumes "Manager_New H J clock config = Inr (X, m0)" "views_small X" "exec_reach X world (m0, w0) (m, w)"
  shows "(\<forall>s \<in> set (mg_heap m). distinct (ss_inflight s) \<and> length (ss_inflight s) \<le> unat (ss_capacity s) \<and>
      ss_capacity s \<le> xe_MaxCredits X \<and> int (length (ss_outbound s)) \<le> xe_OutboundBuffer X) \<and>
    (\<forall>k p. map_of (mg_sessions m) k = Some p \<longrightarrow>
      p < length (mg_heap m) \<and> ss_workerID (mg_heap m ! p) = k \<and> ss_stopped (mg_heap m ! p) = None)"
proof -
  have "credits_inv X m0 w0" using New_ok [OF assms(1)] assms(2) by (simp add: credits_inv_def)
  then have "credits_inv X m w" using credit_run.reach_inv [OF assms(3)] by simp
  then show ?thesis by (auto simp: credits_inv_def manager_ok_def session_ok_def in_set_conv_nth)
qed

text \<open>
  C9. Only leased tasks are assigned. Whatever is in the queue of a session, an assignment there is backed: a
  start command for that worker was accepted before, and the assignment carries the attempt, the fencing token
  and the lease of the event that it produced; or, when the worker reconnected, a view of the leading node
  showed the task leased to that worker under that attempt and that token.
\<close>

theorem assignments_backed:
  assumes "Manager_New H J clock config = Inr (X, m0)" "views_small X" "recording X history"
    and "exec_reach X (quiet history world) (m0, w0) (m, w)"
    and "s \<in> set (mg_heap m)" "AssignmentMessage a \<in> set (ss_outbound s)"
  shows "committed_lease (history w) (ss_workerID s) a \<or> shown_lease (history w) (ss_workerID s) a"
proof -
  have "mg_heap m0 = []" using assms(1) by (auto simp: Manager_New_def Let_def split: option.splits if_splits)
  then have "assign_inv X history m0 w0"
    using New_ok [OF assms(1)] assms(2,3) by (simp add: assign_inv_def credits_inv_def assigned_def)
  then have "assign_inv X history m w" using sent_run.reach_inv [OF assms(4)] by simp
  with assms(5,6) show ?thesis
    by (auto simp: assign_inv_def assigned_def queue_backed_def backed_def in_set_conv_nth)
qed

text \<open>
  C36. A worker has one session. When a session is opened, the current session of that worker is stopped, and
  the former sessions of the worker are fenced off for good: in every state that the manager reaches from then
  on, through any requests, ticks, views, outcomes and stops, a message of a former session is refused as
  aborted and changes nothing, and closing it removes no session. (While fewer than \<open>2\<^sup>6\<^sup>4\<close> sessions were ever
  opened, as their identifiers are 64-bit numbers.)
\<close>

theorem open_replaces_session:
  assumes "Manager_New H J clock config = Inr (X, m0)" "views_small X" "exec_reach X world (m0, w0) (m, w)"
    and "handleOpen X hello (m, w) = ((m', w'), Inr q)"
    and "p < length (mg_heap m)" "ss_workerID (mg_heap m ! p) = TrimSpace (wh_WorkerId hello)"
    and "exec_reach X world (m', w') (n, v)" "length (mg_heap n) < 2 ^ 64"
  shows "q = length (mg_heap m) \<and> map_of (mg_sessions m') (TrimSpace (wh_WorkerId hello)) = Some q \<and>
    (map_of (mg_sessions m) (TrimSpace (wh_WorkerId hello)) = Some p \<longrightarrow> ss_stopped (mg_heap m' ! p) = Some RpcAborted) \<and>
    handleMessage X (ss_id (mg_heap m ! p)) (TrimSpace (wh_WorkerId hello)) message (n, v) = ((n, v), Some RpcAborted) \<and>
    handleClose (ss_id (mg_heap m ! p)) (TrimSpace (wh_WorkerId hello)) n = n"
proof -
  let ?k = "TrimSpace (wh_WorkerId hello)"
  have "credits_inv X m0 w0" using New_ok [OF assms(1)] assms(2) by (simp add: credits_inv_def)
  then have I: "credits_inv X m w" using credit_run.reach_inv [OF assms(3)] by simp
  then have ok: "manager_ok X m" by (simp add: credits_inv_def)
  have I': "credits_inv X m' w'" by (rule credit.handleOpen_inv [OF I assms(4)])
  from assms(4) obtain capabilities active' m1 where
    reg: "register_session ?k capabilities (wh_Credits hello) m = (q, m1)" and send: "resend X q active' m1 = (m', None)"
    by (auto simp: handleOpen_def check_hello_def Let_def result_simps split: prod.splits sum.splits if_splits option.splits)
  note r = register_replaces [OF reg] and f = resend_frame [OF send]
  have pq: "p \<noteq> q" using assms(5) r(1) by simp
  have cur: "map_of (mg_sessions m') ?k = Some q" using f r(3) by simp
  have "ss_workerID (mg_heap m' ! p) = ?k" using f pq register_keeps [OF reg assms(5)] assms(6) by simp
  moreover have "p < length (mg_heap m')" using resend_length [OF send] r(2) assms(5) by simp
  moreover have "map_of (mg_sessions m') k \<noteq> Some p" for k
    using credit.pointer [OF I', of k p] cur pq calculation(1) by (auto simp: session_at_def)
  ultimately have "retired_inv X p ?k m' w'" using I' by (simp add: retired_inv_def retired_def)
  then have "retired_inv X p ?k n v" using retirement_run.reach_inv [OF assms(7)] by simp
  then have ok': "manager_ok X n" and gone: "retired p ?k n" by (simp_all add: retired_inv_def credits_inv_def)
  then have p': "p < length (mg_heap n)" "ss_workerID (mg_heap n ! p) = ?k" "map_of (mg_sessions n) ?k \<noteq> Some p"
    by (simp_all add: retired_def)
  have "ss_id (mg_heap n ! p) = ss_id (mg_heap m ! p)"
    using ok ok' assms(5) p'(1) unfolding manager_ok_def by metis
  moreover have "map_of (mg_sessions n) (ss_workerID (session_at n p)) \<noteq> Some p" using p'(2,3) by (simp add: session_at_def)
  ultimately show ?thesis
    using stale_session [OF ok' p'(1) assms(8)] p'(2) cur r(1) f pq r(4) [OF assms(5)] manager_ok_pointer(3) [OF ok]
    by (simp add: session_at_def)
qed

text \<open>
  C37. A node that does not lead serves no worker. When the view at the beginning of a dispatch says so, the
  dispatch submits nothing, drops every session and tells each of them, and leaves their leases and queues as
  they are.
\<close>

theorem follower_stops_sessions:
  assumes "Manager_New H J clock config = Inr (X, m0)" "views_small X" "exec_reach X world (m0, w0) (m, w)"
    and "xe_View X w = (w', Inr vw)" "\<not> vw_Leader vw"
  shows "\<exists>m'. Manager_dispatch X (m, w) = (m', w') \<and> mg_sessions m' = [] \<and> length (mg_heap m') = length (mg_heap m) \<and>
    (\<forall>k p. map_of (mg_sessions m) k = Some p \<longrightarrow> mg_heap m' ! p = (mg_heap m ! p)\<lparr>ss_stopped := Some RpcUnavailable\<rparr>) \<and>
    (\<forall>p < length (mg_heap m). ss_inflight (mg_heap m' ! p) = ss_inflight (mg_heap m ! p) \<and>
      ss_outbound (mg_heap m' ! p) = ss_outbound (mg_heap m ! p))"
proof -
  have "credits_inv X m0 w0" using New_ok [OF assms(1)] assms(2) by (simp add: credits_inv_def)
  then have "credits_inv X m w" using credit_run.reach_inv [OF assms(3)] by simp
  then have ok: "manager_ok X m" by (simp add: credits_inv_def)
  have "Manager_dispatch X (m, w) = (stopAll RpcUnavailable m, w')"
    using assms(4,5) by (simp add: Manager_dispatch_def stop_follower_def)
  with stopAll_exact [OF ok, where e = RpcUnavailable] manager_ok_pointer [OF ok] show ?thesis by simp
qed


text \<open>
  C38. One dispatch is bounded: however many timers are due, tasks are ready and credits are free, it submits at
  most the configured number of start commands and at most that number of timer commands before the manager
  turns to the next request. The limit is positive.
\<close>

theorem dispatch_bounded:
  assumes "Manager_New H J clock config = Inr (X, m0)" "recording X history" "kind \<in> {CommandStart, CommandFireTimer}"
  shows "0 < xe_MaxDispatch X \<and>
    int (submitted kind (history (snd (Manager_dispatch X (m, w))))) \<le> int (submitted kind (history w)) + xe_MaxDispatch X"
proof -
  have "0 < xe_MaxDispatch X"
    using assms(1) by (auto simp: Manager_New_def Let_def or_default_def split: option.splits if_splits)
  with dispatch_submitted [OF assms(2), of kind m w] assms(3) show ?thesis by auto
qed

text \<open>
  C35. A worker answers an attempt once. Over any number of connections that break at any point, with any
  messages arriving, and as long as no acknowledgement settles the attempt, the handler is called at most once
  for it and every completion sent for it is the same, so that the engine can recognise the repetitions.
\<close>

theorem attempt_answered_once:
  assumes "sm_pending s = []" "reconnects H handle connections (s, h, []) = ((s', h', handled), sent)"
    and "\<forall>st. Some st \<in> set connections \<longrightarrow> unsettled H i (wk_inbox st)"
  shows "length (filter (\<lambda>a. ta_AttemptId a = i) handled) \<le> 1 \<and>
    (\<forall>c d. CompletionMessage c \<in> set sent \<and> CompletionMessage d \<in> set sent \<and> tc_AttemptId c = i \<and> tc_AttemptId d = i \<longrightarrow> c = d)"
proof -
  have "waits H s" "answered i s [] []" using assms(1) by (simp_all add: waits_def answered_def)
  from reconnects_answered [OF this assms(3,2)] have a: "answered i s' handled sent" by simp
  then have "length (filter (\<lambda>a. ta_AttemptId a = i) handled) \<le> 1" by (auto simp: answered_def split: option.splits)
  moreover have "map_of (sm_pending s') i = Some c" if "CompletionMessage c \<in> set sent" "tc_AttemptId c = i" for c
    using a that by (fastforce simp: answered_def split: option.splits)
  ultimately show ?thesis by (metis option.inject)
qed

section \<open>A concrete world\<close>

text \<open>
  An engine of its own serves the manager of the witnesses: it leads as long as \<open>leads\<close> says, its commands are handled at once, its
  clock stands still, and it refuses a view once it holds nine tasks.
\<close>

definition task_count :: "Engine \<Rightarrow> nat" where
  "task_count e = (case engine_states e of Inl _ \<Rightarrow> 0 | Inr states \<Rightarrow> sum_list (map (\<lambda>(workflowID, workflow). length (wf_Tasks workflow)) states))"

lemma note_active_length:
  "foldE (note_active capability workerID workflowID) active tasks = Inr r \<Longrightarrow> length r \<le> length active + length tasks"
  by (induction tasks arbitrary: active) (force simp: result_simps note_active_def Let_def split: if_splits)+

lemma active_leases_length:
  assumes "active_leases capability workerID e = Inr active"
  shows "length active \<le> task_count e"
proof -
  have "length r \<le> length acc + sum_list (map (\<lambda>(workflowID, workflow). length (wf_Tasks workflow)) states)"
    if "foldE (\<lambda>active (workflowID, workflow).
         foldE (note_active capability workerID workflowID) active (wf_Tasks workflow)) acc states = Inr r" for acc states r
    using that by (induction states arbitrary: acc) (force simp: result_simps dest: note_active_length)+
  from this [of "[]"] show ?thesis using assms by (auto simp: active_leases_def task_count_def result_simps)
qed

definition always :: "Engine \<Rightarrow> bool" where "always e = True"

definition idle :: "Engine \<Rightarrow> bool" where
  "idle e = (case engine_states e of Inl _ \<Rightarrow> False | Inr states \<Rightarrow> leased_by states ''v'' = [])"

definition ex_world :: "(Engine \<Rightarrow> bool) \<Rightarrow> Engine exec_env" where
  "ex_world leads =
     \<lparr>xe_View = (\<lambda>e. (e, if task_count e < 9 then Inr \<lparr>vw_Leader = leads e, vw_LeaderID = 1, vw_Engine = e\<rparr> else Inl RpcUnavailable)),
      xe_Submit = (\<lambda>command e. case Handle H0 J0 e command of (e, Inl x) \<Rightarrow> (e, Inl (ExecCore x)) | (e, Inr r) \<Rightarrow> (e, Inr r)),
      xe_Now = (\<lambda>e. (e, 20)), xe_AckFailpoint = (\<lambda>_. None), xe_digest = H0, xe_encoder = J0, xe_LeaseMillis = 30000,
      xe_TickInterval = 100, xe_MaxCredits = 8, xe_OutboundBuffer = 8, xe_MaxDispatch = 4\<rparr>"

definition ex_hello :: WorkerHello where
  "ex_hello = \<lparr>wh_WorkerId = '' v'', wh_Capabilities = [''t''], wh_Credits = 2\<rparr>"

definition ex_exec_config :: "(Engine \<Rightarrow> bool) \<Rightarrow> (Engine \<times> seen list) exec_config" where
  "ex_exec_config leads =
     \<lparr>xc_Scheduler = Some \<lparr>sc_config = DefaultConfig, sc_current = [], sc_epoch = 0\<rparr>, xc_View = Some (xe_View (recorded (ex_world leads))),
      xc_Submit = Some (xe_Submit (recorded (ex_world leads))), xc_Now = Some (xe_Now (recorded (ex_world leads))), xc_LeaseMillis = 0,
      xc_TickInterval = 0, xc_MaxCredits = 8, xc_OutboundBuffer = 0, xc_MaxDispatch = 4, xc_AckFailpoint = None\<rparr>"

definition ex_manager :: Manager where
  "ex_manager = \<lparr>mg_scheduler = \<lparr>sc_config = DefaultConfig, sc_current = [], sc_epoch = 0\<rparr>, mg_sessions = [], mg_heap = [], mg_sequence = 0\<rparr>"

definition ex_first :: "Engine \<times> seen list" where
  "ex_first = (handle_all H0 J0 [ex_submit] NewEngine, [])"

definition ex_served :: "Manager \<times> Engine \<times> seen list" where
  "ex_served = fst (Run_step (recorded (ex_world always)) (OpenRequest ex_hello) (ex_manager, ex_first))"

lemma ex_New: "Manager_New H0 J0 clock (ex_exec_config leads) = Inr (recorded (ex_world leads), ex_manager)"
  by (simp add: Manager_New_def ex_exec_config_def ex_manager_def recorded_def ex_world_def or_default_def)

lemma ex_small: "views_small (recorded (ex_world leads))"
  unfolding views_small_def recorded_def ex_world_def
  by (auto split: prod.splits if_splits dest: active_leases_length)

lemma ex_reach: "exec_reach (recorded (ex_world always)) (quiet snd (\<lambda>_ _. True)) (ex_manager, ex_first) ex_served"
  unfolding ex_served_def by (rule exec_reach.request [OF exec_reach.begun])

text \<open>The run in evaluated form: a task is leased to the worker, and the worker opens a second session.\<close>

fun is_assignment :: "CoordinatorMessage \<Rightarrow> bool" where
  "is_assignment (AssignmentMessage a) = True"
| "is_assignment (AckMessage a) = False"

definition ex_run_ok :: "Manager \<Rightarrow> Engine \<times> seen list \<Rightarrow> bool" where
  "ex_run_ok m w \<longleftrightarrow>
     map (\<lambda>s. (length (ss_inflight s), ss_workerID s, ss_id s, map is_assignment (ss_outbound s))) (mg_heap m) = [(1, ''v'', 1, [True])] \<and>
     map_of (mg_sessions m) ''v'' = Some 0 \<and> TrimSpace (wh_WorkerId ex_hello) = ''v'' \<and>
     (case handleOpen (recorded (ex_world always)) ex_hello (m, w) of (mw, r) \<Rightarrow> r = Inr 1 \<and> length (mg_heap (fst mw)) = 2)"

lemma ex_run: "ex_run_ok (fst ex_served) (snd ex_served)"
proof -
  have "case_prod ex_run_ok ex_served" by code_simp
  then show ?thesis by (simp only: case_prod_beta)
qed

lemma ex_leased:
  obtains s a where "mg_heap (fst ex_served) = [s]" "length (ss_inflight s) = 1" "ss_workerID s = ''v''" "ss_id s = 1"
    "ss_outbound s = [AssignmentMessage a]"
proof -
  from ex_run obtain s where s: "mg_heap (fst ex_served) = [s]" "length (ss_inflight s) = 1" "ss_workerID s = ''v''" "ss_id s = 1"
    "map is_assignment (ss_outbound s) = [True]" unfolding ex_run_ok_def by auto
  then obtain message where "ss_outbound s = [message]" "is_assignment message" by (cases "ss_outbound s") auto
  with that s(1-4) show thesis by (cases message) auto
qed

lemma ex_reopened:
  "map_of (mg_sessions (fst ex_served)) ''v'' = Some 0" "TrimSpace (wh_WorkerId ex_hello) = ''v''"
  "\<exists>m' w'. handleOpen (recorded (ex_world always)) ex_hello (fst ex_served, snd ex_served) = ((m', w'), Inr 1) \<and> length (mg_heap m') = 2"
proof -
  show "map_of (mg_sessions (fst ex_served)) ''v'' = Some 0" "TrimSpace (wh_WorkerId ex_hello) = ''v''"
    using ex_run unfolding ex_run_ok_def by blast+
  let ?o = "handleOpen (recorded (ex_world always)) ex_hello (fst ex_served, snd ex_served)"
  have "snd ?o = Inr 1" "length (mg_heap (fst (fst ?o))) = 2" using ex_run unfolding ex_run_ok_def case_prod_beta by blast+
  then show "\<exists>m' w'. ?o = ((m', w'), Inr 1) \<and> length (mg_heap m') = 2"
    by (intro exI [of _ "fst (fst ?o)"] exI [of _ "snd (fst ?o)"]) (simp add: prod_eq_iff)
qed

theorem credits_respected_witness:
  "\<exists>m w s. exec_reach (recorded (ex_world always)) (quiet snd (\<lambda>_ _. True)) (ex_manager, ex_first) (m, w) \<and> mg_heap m = [s] \<and>
     length (ss_inflight s) = 1 \<and> 1 \<le> unat (ss_capacity s) \<and> ss_capacity s \<le> 8"
proof -
  obtain s where s: "mg_heap (fst ex_served) = [s]" "length (ss_inflight s) = 1" by (rule ex_leased)
  have r: "exec_reach (recorded (ex_world always)) (quiet snd (\<lambda>_ _. True)) (ex_manager, ex_first) (fst ex_served, snd ex_served)"
    using ex_reach by simp
  have "xe_MaxCredits (recorded (ex_world always)) = 8" by (simp add: recorded_def ex_world_def)
  with credits_respected [OF ex_New ex_small r] s r show ?thesis by fastforce
qed

theorem assignments_backed_witness:
  "\<exists>s a. mg_heap (fst ex_served) = [s] \<and> ss_outbound s = [AssignmentMessage a] \<and>
     (committed_lease (snd (snd ex_served)) ''v'' a \<or> shown_lease (snd (snd ex_served)) ''v'' a)"
proof -
  obtain s a where s: "mg_heap (fst ex_served) = [s]" "ss_workerID s = ''v''" "ss_outbound s = [AssignmentMessage a]"
    by (rule ex_leased)
  have r: "exec_reach (recorded (ex_world always)) (quiet snd (\<lambda>_ _. True)) (ex_manager, ex_first) (fst ex_served, snd ex_served)"
    using ex_reach by simp
  from assignments_backed [OF ex_New ex_small recording_recorded r, of s a] s show ?thesis by auto
qed

text \<open>The second session is closed again, and the first one still cannot come back.\<close>

theorem open_replaces_session_witness:
  "\<exists>m' w'. handleOpen (recorded (ex_world always)) ex_hello ex_served = ((m', w'), Inr 1) \<and>
     map_of (mg_sessions m') ''v'' = Some 1 \<and> ss_stopped (mg_heap m' ! 0) = Some RpcAborted \<and>
     (let n = Run_stop m' in handleMessage (recorded (ex_world always)) 1 ''v'' EmptyMessage (n, w') = ((n, w'), Some RpcAborted))"
proof -
  obtain m' w' where o: "handleOpen (recorded (ex_world always)) ex_hello (fst ex_served, snd ex_served) = ((m', w'), Inr 1)"
    "length (mg_heap m') = 2" using ex_reopened(3) by auto
  have r: "exec_reach (recorded (ex_world always)) (quiet snd (\<lambda>_ _. True)) (ex_manager, ex_first) (fst ex_served, snd ex_served)"
    using ex_reach by simp
  have p: "0 < length (mg_heap (fst ex_served))" "ss_workerID (mg_heap (fst ex_served) ! 0) = TrimSpace (wh_WorkerId ex_hello)"
    "ss_id (mg_heap (fst ex_served) ! 0) = 1"
    by (rule ex_leased; simp add: ex_reopened(2))+
  have final: "exec_reach (recorded (ex_world always)) (quiet snd (\<lambda>_ _. True)) (m', w') (Run_stop m', w')"
    by (rule exec_reach.ended [OF exec_reach.begun])
  have "length (mg_heap (Run_stop m')) = 2"
  proof -
    have "length (mg_heap (fold (\<lambda>entry. stopSession (snd entry) e) entries k)) = length (mg_heap k)" for entries :: "(string \<times> nat) list" and e k
      by (induction entries arbitrary: k) simp_all
    then show ?thesis using o(2) by (simp add: Run_stop_def stopAll_def)
  qed
  then have "length (mg_heap (Run_stop m')) < 2 ^ 64" by simp
  from open_replaces_session [OF ex_New ex_small r o(1) p(1,2) final this, of EmptyMessage] o p ex_reopened(1,2)
  show ?thesis by (simp add: Let_def)
qed

text \<open>A node that loses the lead with the first lease: the worker has a session and a lease then.\<close>

definition ex_deposed :: "Manager \<times> Engine \<times> seen list" where
  "ex_deposed = fst (Run_step (recorded (ex_world idle)) (OpenRequest ex_hello) (ex_manager, ex_first))"

definition ex_deposed_ok :: "Manager \<Rightarrow> Engine \<times> seen list \<Rightarrow> bool" where
  "ex_deposed_ok m w \<longleftrightarrow>
     map_of (mg_sessions m) ''v'' = Some 0 \<and> map (length \<circ> ss_inflight) (mg_heap m) = [1] \<and>
     (case snd (xe_View (recorded (ex_world idle)) w) of Inl _ \<Rightarrow> False | Inr vw \<Rightarrow> \<not> vw_Leader vw)"

lemma ex_deposed: "ex_deposed_ok (fst ex_deposed) (snd ex_deposed)"
proof -
  have "case_prod ex_deposed_ok ex_deposed" by code_simp
  then show ?thesis by (simp only: case_prod_beta)
qed

theorem follower_stops_sessions_witness:
  "\<exists>m' w'. Manager_dispatch (recorded (ex_world idle)) ex_deposed = (m', w') \<and> mg_sessions m' = [] \<and>
     ss_stopped (mg_heap m' ! 0) = Some RpcUnavailable \<and> length (ss_inflight (mg_heap m' ! 0)) = 1"
proof -
  have r: "exec_reach (recorded (ex_world idle)) (\<lambda>_ _. False) (ex_manager, ex_first) (fst ex_deposed, snd ex_deposed)"
    using exec_reach.request [OF exec_reach.begun] by (simp add: ex_deposed_def)
  obtain w' vw where v: "xe_View (recorded (ex_world idle)) (snd ex_deposed) = (w', Inr vw)" "\<not> vw_Leader vw"
    using ex_deposed unfolding ex_deposed_ok_def
    by (cases "xe_View (recorded (ex_world idle)) (snd ex_deposed)") (auto split: sum.splits)
  have s: "map_of (mg_sessions (fst ex_deposed)) ''v'' = Some 0" "map (length \<circ> ss_inflight) (mg_heap (fst ex_deposed)) = [1]"
    using ex_deposed unfolding ex_deposed_ok_def by blast+
  then obtain x where x: "mg_heap (fst ex_deposed) = [x]" "length (ss_inflight x) = 1" by auto
  from follower_stops_sessions [OF ex_New ex_small r v] obtain m' where
    m': "Manager_dispatch (recorded (ex_world idle)) ex_deposed = (m', w')" "mg_sessions m' = []"
    "mg_heap m' ! 0 = x\<lparr>ss_stopped := Some RpcUnavailable\<rparr>"
    using s(1) x(1) by auto
  then show ?thesis using x(2) by simp
qed


theorem dispatch_bounded_witness:
  "submitted CommandStart (snd (snd (Manager_dispatch (recorded (ex_world always)) (ex_manager, ex_first)))) \<le> 4"
proof -
  have "int (submitted CommandStart (snd ex_first)) = 0" by (simp add: ex_first_def submitted_def)
  moreover have "xe_MaxDispatch (recorded (ex_world always)) = 4" by (simp add: recorded_def ex_world_def)
  ultimately show ?thesis
    using dispatch_bounded [OF ex_New recording_recorded, of CommandStart always ex_manager ex_first] by simp
qed


text \<open>A worker whose first connection breaks after the greeting and gets the same assignment again.\<close>

definition ex_worker :: Simulator where
  "ex_worker = \<lparr>sm_ID = ''v'', sm_Capabilities = [''t''], sm_Credits = 1, sm_pending = []\<rparr>"

definition ex_assignment :: TaskAssignment where
  "ex_assignment =
     \<lparr>ta_WorkflowId = ''w'', ta_TaskId = ''a'', ta_TaskType = ''t'', ta_AttemptId = ''x'', ta_Attempt = 1, ta_WorkerId = ''v'',
      ta_LeaseExpiresAt = 50, ta_FencingToken = 1, ta_IdempotencyKey = ''i'', ta_Inputs = [], ta_Compensation = False, ta_Payload = []\<rparr>"

definition ex_connection :: "nat \<Rightarrow> work_stream option" where
  "ex_connection n = Some \<lparr>wk_inbox = [AssignmentMessage ex_assignment, AssignmentMessage ex_assignment], wk_room = n, wk_sent = []\<rparr>"

definition ex_handler :: "nat Handler" where
  "ex_handler a n = (n + 1, \<lparr>hr_Output = [(''n'', format_uint64 (word_of_nat n))], hr_Fanout = []\<rparr>, None)"

theorem attempt_answered_once_witness:
  "\<exists>s' h' handled sent. reconnects H0 (Some ex_handler) [ex_connection 1, ex_connection 4] (ex_worker, 0, []) = ((s', h', handled), sent) \<and>
     length handled = 1 \<and> length (filter (about ''x'') sent) = 3 \<and>
     (\<forall>c d. CompletionMessage c \<in> set sent \<and> CompletionMessage d \<in> set sent \<and> tc_AttemptId c = ''x'' \<and> tc_AttemptId d = ''x'' \<longrightarrow> c = d)"
proof -
  let ?r = "reconnects H0 (Some ex_handler) [ex_connection 1, ex_connection 4] (ex_worker, 0, [])"
  obtain s' h' handled sent where r: "?r = ((s', h', handled), sent)" by (cases ?r) auto
  have "length (snd (snd (fst ?r))) = 1 \<and> length (filter (about ''x'') (snd ?r)) = 3" by code_simp
  moreover have "unsettled H0 ''x'' (wk_inbox st)" if "Some st \<in> set [ex_connection 1, ex_connection 4]" for st
    using that by (auto simp: ex_connection_def unsettled_def)
  ultimately show ?thesis using attempt_answered_once [OF _ r, of "''x''"] r by (auto simp: ex_worker_def)
qed

end
