(* ===== verification/Spec2Isabelle.thy ===== *)
theory Spec2Isabelle
  imports Chronos_Engine_Safety Chronos_Base_Properties Chronos_Scheduler_Safety Chronos_Reference
    Chronos_Storage_Properties Chronos_Served_Properties Chronos_Coordinator_Properties Chronos_Execution_Properties
begin

text \<open>
  A verification of Chronos, a replicated durable-workflow engine written in Go.

  \<^bold>\<open>The program.\<close> A client submits a workflow definition: a directed acyclic graph of tasks with retry
  policies, timeouts, compensations and fan-outs. Workers lease ready tasks, report completion or failure,
  and renew their leases; timers start workflows, release retries and time attempts out. The core
  (\<^verbatim>\<open>internal/core\<close>) is a deterministic event-sourced state machine: a command is decided against a
  workflow state into a plan of events, the events are numbered and stamped, and the reducer folds them
  into the next state. An engine keeps the states, the table of handled requests, a journal and
  counters, and stages several commands in one transaction. The scheduler (\<^verbatim>\<open>internal/scheduler\<close>) admits
  commands under limits and picks the next task by smooth weighted round robin. Storage
  (\<^verbatim>\<open>internal/storage\<close>) persists raft log, receipts, events and snapshots in a key-value database; the
  coordinator (\<^verbatim>\<open>internal/coordinator\<close>) replicates batches of events with a raft library over it; the execution
  manager (\<^verbatim>\<open>internal/execution\<close>) leases tasks to the sessions of workers, passes their heartbeats and
  completions on as commands, fires timers and expires leases.

  \<^bold>\<open>The theories and what they model.\<close>
  \<^item> \<open>Chronos_Prelude\<close>: results of fallible code (an error or a value), Go maps as association lists, slices
    that may be nil, 64-bit arithmetic with wrap-around, \<^verbatim>\<open>strings.TrimSpace\<close>, number formatting,
    and the facts about them that the components share.
  \<^item> \<open>Chronos_Types\<close> (\<^verbatim>\<open>types.go\<close>, \<^verbatim>\<open>errors.go\<close>), \<open>Chronos_Ids\<close> (\<^verbatim>\<open>ids.go\<close>), \<open>Chronos_Clone\<close>
    (\<^verbatim>\<open>clone.go\<close>, \<^verbatim>\<open>hash.go\<close>), \<open>Chronos_Validate\<close> (\<^verbatim>\<open>validate.go\<close>), \<open>Chronos_Clock\<close> (\<^verbatim>\<open>clock.go\<close>
    and the back-off of \<^verbatim>\<open>workflow_transitions.go\<close>).
  \<^item> \<open>Chronos_Reducer\<close>: the reducer, one definition per event handler (\<^verbatim>\<open>applyEvent\<close> and the \<^verbatim>\<open>apply...\<close>
    functions of \<^verbatim>\<open>reducer.go\<close> and \<^verbatim>\<open>workflow_transitions.go\<close>).
  \<^item> \<open>Chronos_Plan\<close>: the planner, one definition per command (\<^verbatim>\<open>decide...\<close>) and per planning helper.
  \<^item> \<open>Chronos_Lifecycle\<close>: the specification: automata of tasks, timers and workflows as inductive step
    relations, and the refinement of the reducer to them.
  \<^item> \<open>Chronos_Invariant\<close>: the invariant of a workflow state and its preservation by every event.
  \<^item> \<open>Chronos_Planned\<close>, \<open>Chronos_Command\<close>: the contract of a planner as a locale (every step of a plan keeps
    an invariant), interpreted for the invariant, for settled workflows and for the replayed state.
  \<^item> \<open>Chronos_Engine\<close>: the engine (\<^verbatim>\<open>engine.go\<close>, \<^verbatim>\<open>retention.go\<close>, \<^verbatim>\<open>request.go\<close>, \<^verbatim>\<open>staging.go\<close>,
    \<^verbatim>\<open>snapshot.go\<close>); \<open>Chronos_Engine_Laws\<close>: the laws of its tables; \<open>Chronos_Requests\<close>: handling of
    requests; \<open>Chronos_Replica\<close>: replicas and replay; \<open>Chronos_Staging\<close>: transactions.
  \<^item> \<open>Chronos_Projection\<close> (\<^verbatim>\<open>projection.go\<close>, \<^verbatim>\<open>usage.go\<close>), \<open>Chronos_Scheduler\<close> (\<^verbatim>\<open>scheduler.go\<close>),
    \<open>Chronos_Reference\<close> (\<^verbatim>\<open>reference.go\<close>, the interpreter that tests compare with).
  \<^item> \<open>Chronos_Scheduler_Laws\<close>: batches of the scheduler, staged and undone; \<open>Chronos_Load\<close>: the load of an
    engine, the exactness of the scheduler's account of it and the limits; \<open>Chronos_Fairness\<close>: weighted
    round robin as a locale, interpreted for the scheduler's turn.
  \<^item> \<open>Chronos_Bytes\<close> (keys of \<^verbatim>\<open>storage/codec.go\<close>, big-endian numbers, varints), \<open>Chronos_Records\<close> (the records
    of \<^verbatim>\<open>types.go\<close>, JSON framing, receipts of \<^verbatim>\<open>receipt.go\<close>, snapshot images), \<open>Chronos_Segments\<close>
    (\<^verbatim>\<open>segments.go\<close>), \<open>Chronos_Membership\<close> (the Bloom filter of \<^verbatim>\<open>membership.go\<close>).
  \<^item> \<open>Chronos_Store\<close>: the state of the store and the database below it; \<open>Chronos_Raft_Log\<close> (\<^verbatim>\<open>raft.go\<close> and the
    log queries of \<^verbatim>\<open>store.go\<close>); \<open>Chronos_Retention\<close> (\<^verbatim>\<open>storage/retention.go\<close>, the loaders);
    \<open>Chronos_Application\<close> (\<^verbatim>\<open>application.go\<close>, \<^verbatim>\<open>application_encoding.go\<close>); \<open>Chronos_Store_Snapshot\<close>
    (\<^verbatim>\<open>snapshot.go\<close>, opening in \<^verbatim>\<open>store.go\<close>, \<^verbatim>\<open>recovery_replay.go\<close>).
  \<^item> \<open>Chronos_Raft_Recovery\<close>: what the raft log on disk holds, loading it, saving keeps it;
    \<open>Chronos_Raft_Steps\<close>: histories of store calls and crashes as inductive relations.
  \<^item> \<open>Chronos_Durable\<close>: the answers of the engine to a batch of entries, the records written for them and how
    they are read back; \<open>Chronos_Installed\<close>: the same for the image of a snapshot; \<open>Chronos_Served\<close>: what each call
    and each opening keeps of the accepted requests; \<open>Chronos_History\<close>: histories of calls, snapshots and crashes.
  \<^item> \<open>Chronos_Log_Codec\<close> (\<^verbatim>\<open>coordinator/log_codec.go\<close>, \<^verbatim>\<open>types.go\<close>): the entries of the replicated log;
    \<open>Chronos_Coordinator\<close> (\<^verbatim>\<open>coordinator.go\<close>): a node that drives a raft node over its store;
    \<open>Chronos_Coordinator_Laws\<close>: its history as a state machine over the stages of \<^verbatim>\<open>ProcessReadyContext\<close>, the disk
    before the messages, the cache of staged batches, failure.
  \<^item> \<open>Chronos_Execution\<close> (\<^verbatim>\<open>execution/manager.go\<close>): the execution manager, its sessions in a heap of their own;
    \<open>Chronos_Execution_Laws\<close>: what an invariant of it has to survive as a locale, its runs, the credits of workers;
    \<open>Chronos_Sessions\<close>: a stopped session stays stopped;
    \<open>Chronos_Assignments\<close>: what it sends to workers and how much one dispatch submits; \<open>Chronos_Simulator\<close>
    (\<^verbatim>\<open>execution/simulator.go\<close>): the simulated worker and its pending completions.
  \<^item> \<open>Chronos_Workflow_Safety\<close>, \<open>Chronos_Engine_Safety\<close>, \<open>Chronos_Scheduler_Safety\<close>,
    \<open>Chronos_Base_Properties\<close>, \<open>Chronos_Storage_Properties\<close>, \<open>Chronos_Raft_Properties\<close>,
    \<open>Chronos_Served_Properties\<close>, \<open>Chronos_Coordinator_Properties\<close>, \<open>Chronos_Execution_Properties\<close> and this
    theory hold the properties; \<open>Chronos_Examples\<close> a concrete run that their witnesses use.

  \<^bold>\<open>How code corresponds to definitions.\<close> A Go struct is a record whose fields carry a short prefix
  (\<^verbatim>\<open>wf_\<close> for \<^verbatim>\<open>WorkflowState\<close>, \<^verbatim>\<open>ts_\<close> for \<^verbatim>\<open>TaskState\<close>, \<^verbatim>\<open>ev_\<close> for \<^verbatim>\<open>Event\<close>, ...); a string enumeration is
  a datatype with one more constructor for every other string; unsigned integers are words, \<^verbatim>\<open>int64\<close> is an
  integer with wrap-around written out where the code can overflow; a pointer that may be nil is an
  option; a map is an association list with distinct keys, so that the iteration order is explicit and
  independence of it is a theorem; an error return is the left value of a sum and each \<^verbatim>\<open>fmt.Errorf("%w: ...")\<close>
  is the sentinel error it wraps. A method that changes its receiver returns the new value.

  \<^bold>\<open>Parameters.\<close> SHA-256 is an arbitrary function \<open>H\<close> from strings to strings, \<^verbatim>\<open>encoding/json\<close> an arbitrary
  function \<open>J\<close> on canonical commands; the theorems hold for every choice, and where an identifier or a
  hash must not be empty the hypothesis says that \<open>H\<close> returns at least one byte. The loaders that the
  storage layer installs in the engine are fields of the engine state. The database \<^verbatim>\<open>pebble\<close>, the protobuf
  messages of the raft library, \<^verbatim>\<open>snappy\<close>, the JSON encodings of the stored records and the hash of the
  membership filter are fields of one record \<open>storage_env\<close>; the theorems assume of them that a commit
  applies its batch, that reads and scans see the committed contents (\<open>pebble_ok\<close>) and that what was marshalled
  is read back (\<open>proto_ok\<close>, \<open>json_ok\<close>, \<open>snappy_ok\<close>). The raft node and the transport of a coordinator are records
  of functions with states of their own; the theorems about its history assume of the raft node only what its
  documentation promises of a \<^verbatim>\<open>Ready\<close>. View, submission and clock of the execution manager, and the handler and
  the stream of a worker, are arguments too, and may return anything.

  \<^bold>\<open>Termination and fuel.\<close> Only \<open>trim_left\<close> (\<^verbatim>\<open>strings.TrimSpace\<close>) has fuel, the length of the string;
  \<open>trim_left_done\<close> shows that it is enough. The other loops that are not over a given list (\<open>kahn\<close>, \<open>backoff\<close>, the
  \<open>rounds\<close> of the reference interpreter, the \<open>dispatch_loop\<close> of the execution manager) are total functions with
  a measure. The loop of \<^verbatim>\<open>ProcessReadyContext\<close> runs as long as the raft node has something ready, which may be
  forever; \<open>ready_loop\<close> is a partial function whose value is \<open>None\<close> then.

  \<^bold>\<open>What is shown.\<close> Of workflows: events of a plan replay to the planned state, states are well-formed, ended
  workflows are final, fencing, retry budgets, dependency order, compensation order, contiguity of logs,
  refinement of the automata. Of the engine: requests are handled at most once, conflicts are refused,
  refused commands change nothing, replicas follow the leader, a journal replays to the same engine,
  transactions are atomic. Of the scheduler: batches are atomic, what is staged is what replicas apply,
  admission keeps the limits on workflows and running tasks, the choice among namespaces is fair.
  Of storage: keys order and scan as they should, receipts and snapshot images are read back and nothing else
  is accepted, the membership filter never forgets, the raft state survives every crash, and a request that was
  accepted is never accepted again and its answer is kept, over any history of calls, received snapshots and
  crashes; a snapshot that is installed replaces the requests of the store by those of its image.
  Of the coordinator: nothing is sent before the disk has it, the cache of staged batches is invisible, its
  operations are runs of the history, a failed node stops, log batches are read back. Of execution: credits
  are respected, only leased tasks are assigned, a worker has one session, a node that does not lead has none,
  a dispatch is bounded, and a worker answers an attempt once over all its connections.
  Of the building blocks: exactness of validation and of cycle detection, normal
  forms, hashes, identifiers, back-off, clock, and that the reference interpreter runs exactly the acyclic
  definitions, in topological order.

  \<^bold>\<open>Not modelled.\<close> The runtime around the coordinator (\<^verbatim>\<open>runtime.go\<close>: channels, HTTP and gRPC handlers), the
  in-process cluster and the transport, the fault laboratory, observability, benchmarks, command-line programs
  and generated protobuf code. Of the modelled files: error texts (only which sentinel error is returned),
  metrics and spans; of storage, the locks (every call is one step), closing the database and the counters of
  skipped reads; of the execution manager, the goroutines of a stream, which pass messages between the stream
  and the loop.
\<close>

section \<open>Validated definitions run to completion\<close>

text \<open>
  C27. The reference interpreter runs every definition that validation accepts, for any outputs of its tasks:
  it ends, completes, and has run every task exactly once and after all its dependencies.
\<close>

theorem validated_definition_runs:
  assumes "ValidateDefinition (Some d) = Inr ()"
  shows "\<exists>r. Run d outputs = Inr r \<and> rf_Status r = WorkflowCompleted \<and>
    topological (task_entries (wd_Tasks d)) (rf_Order r) \<and> set (rf_Order r) = td_ID ` set (wd_Tasks d)"
proof -
  from assms have "valid_definition d" by (simp add: ValidateDefinition_iff)
  then obtain r where "Run d outputs = Inr r" using valid_runnable Run_succeeds_iff by blast
  with Run_order [OF this] show ?thesis by blast
qed

theorem validated_definition_runs_witness:
  "\<exists>r. Run ex_definition [(''a'', [(''k'', ''v'')])] = Inr r \<and> rf_Status r = WorkflowCompleted"
proof -
  have "ValidateDefinition (Some ex_definition) = Inr ()" by code_simp
  from validated_definition_runs [OF this] show ?thesis by blast
qed

text \<open>
  The interpreter succeeds on exactly the definitions whose task identifiers are distinct and not
  empty, whose dependencies are tasks of the definition, and whose dependency relation has no cycle; so
  it reports \<^verbatim>\<open>dependency graph cannot progress\<close> only for a cycle.
\<close>

theorem reference_run_exact:
  "(\<exists>r. Run d outputs = Inr r) \<longleftrightarrow> runnable d \<and> acyclic (needs (set (wd_Tasks d)))"
  by (rule Run_succeeds_iff)

end
